(* ===== verification/MiniSQL_Prelude.thy ===== *)
theory MiniSQL_Prelude
  imports Main "HOL-Library.Word" "HOL-Library.Monad_Syntax"
begin

unbundle bit_operations_syntax

text \<open>
  The ground layer of the MiniSQL development: the constants of
  \<^verbatim>\<open>include/common/config.h\<close>, the raw-memory macros of
  \<^verbatim>\<open>include/common/macros.h\<close>, and the list and word lemmas that the storage
  components share.

  Memory that the code reaches through a \<^verbatim>\<open>char *\<close> is a \<^typ>\<open>8 word list\<close>, and a
  pointer into it is an offset.  An access outside the buffer (undefined behaviour in
  C++) and a failed \<^verbatim>\<open>ASSERT\<close> (\<^verbatim>\<open>assert\<close>, which aborts) are the value
  \<^term>\<open>None\<close>, so every function that touches raw memory lives in the option monad, and
  "the operation does not crash" is the statement that it returns \<^term>\<open>Some\<close>.
  Integers in memory are little-endian, as on the x86-64 machines the build targets.
\<close>

section \<open>Types and constants\<close>

type_synonym byte = "8 word"
type_synonym u32 = "32 word"
type_synonym page_id_t = int
type_synonym frame_id_t = int

named_theorems mem_simps \<open>reads after writes, and the lengths of written buffers\<close>

definition INVALID_PAGE_ID :: page_id_t where
  "INVALID_PAGE_ID = -1"

definition META_PAGE_ID :: page_id_t where
  "META_PAGE_ID = 0"

definition CATALOG_META_PAGE_ID :: page_id_t where
  "CATALOG_META_PAGE_ID = 0"

definition INDEX_ROOTS_PAGE_ID :: page_id_t where
  "INDEX_ROOTS_PAGE_ID = 1"

definition PAGE_SIZE :: nat where
  "PAGE_SIZE = 4096"

definition FIELD_NULL_LEN :: u32 where
  "FIELD_NULL_LEN = 0xFFFFFFFF"

definition VARCHAR_MAX_LEN :: nat where
  "VARCHAR_MAX_LEN = PAGE_SIZE div 2"

text \<open>A conversion to a 32-bit signed or unsigned integer reduces modulo \<open>2 ^ 32\<close>.\<close>

definition to_int32 :: "int \<Rightarrow> int" where
  "to_int32 x = (x + 2 ^ 31) mod 2 ^ 32 - 2 ^ 31"

definition to_uint32 :: "int \<Rightarrow> nat" where
  "to_uint32 x = nat (x mod 2 ^ 32)"

definition to_uint64 :: "int \<Rightarrow> nat" where
  "to_uint64 x = nat (x mod 2 ^ 64)"

definition int32_range :: "int \<Rightarrow> bool" where
  "int32_range x \<longleftrightarrow> - (2 ^ 31) \<le> x \<and> x < 2 ^ 31"

lemma to_int32_id [simp]: "int32_range x \<Longrightarrow> to_int32 x = x"
  by (simp add: to_int32_def int32_range_def)

lemma to_int32_range [simp]: "int32_range (to_int32 x)"
proof -
  have "(x + 2 ^ 31) mod 2 ^ 32 \<ge> 0" and "(x + 2 ^ 31) mod 2 ^ 32 < (2::int) ^ 32"
    by (rule pos_mod_sign, simp, rule pos_mod_bound, simp)
  then show ?thesis
    unfolding int32_range_def to_int32_def by simp
qed

lemma to_uint64_of_nat [simp]: "n < 2 ^ 64 \<Longrightarrow> to_uint64 (int n) = n"
  by (simp add: to_uint64_def nat_mod_distrib)

lemma to_uint32_of_nat [simp]: "n < 2 ^ 32 \<Longrightarrow> to_uint32 (int n) = n"
  by (simp add: to_uint32_def nat_mod_distrib)

section \<open>Raw memory\<close>

definition mem_read :: "'a list \<Rightarrow> nat \<Rightarrow> nat \<Rightarrow> 'a list option" where
  "mem_read buf off n =
     (if off + n \<le> length buf then Some (take n (drop off buf)) else None)"

definition mem_write :: "'a list \<Rightarrow> nat \<Rightarrow> 'a list \<Rightarrow> 'a list option" where
  "mem_write buf off bs =
     (if off + length bs \<le> length buf
      then Some (take off buf @ bs @ drop (off + length bs) buf) else None)"

definition mem_move :: "'a list \<Rightarrow> nat \<Rightarrow> nat \<Rightarrow> nat \<Rightarrow> 'a list option" where
  "mem_move buf dst src n = do { bs \<leftarrow> mem_read buf src n; mem_write buf dst bs }"

lemma mem_write_length [mem_simps]: "mem_write buf off bs = Some buf' \<Longrightarrow> length buf' = length buf"
  by (auto simp: mem_write_def split: if_splits)

lemma mem_write_defined [mem_simps]:
  "off + length bs \<le> length buf \<Longrightarrow> \<exists>buf'. mem_write buf off bs = Some buf'"
  by (simp add: mem_write_def)

lemma mem_read_length [mem_simps]: "mem_read buf off n = Some bs \<Longrightarrow> length bs = n"
  by (auto simp: mem_read_def split: if_splits)

lemma mem_read_write_same [mem_simps]:
  "mem_write buf off bs = Some buf' \<Longrightarrow> n = length bs \<Longrightarrow> mem_read buf' off n = Some bs"
  by (auto simp: mem_read_def mem_write_def split: if_splits)

lemma mem_read_write_below:
  assumes "mem_write buf off bs = Some buf'" and "off' + n \<le> off"
  shows "mem_read buf' off' n = mem_read buf off' n"
  using assms by (auto simp: mem_read_def mem_write_def drop_take min_def split: if_splits)

lemma mem_read_write_above:
  assumes "mem_write buf off bs = Some buf'" and "off + length bs \<le> off'"
  shows "mem_read buf' off' n = mem_read buf off' n"
proof (cases "off' + n \<le> length buf")
  case True
  from assms have "buf' = take off buf @ bs @ drop (off + length bs) buf"
    and "off + length bs \<le> length buf"
    by (auto simp: mem_write_def split: if_splits)
  moreover from this assms(2) have "drop off' buf' = drop off' buf"
    by (simp add: drop_append)
  ultimately show ?thesis by (simp add: mem_read_def)
next
  case False
  with assms show ?thesis by (auto simp: mem_read_def mem_write_def split: if_splits)
qed

lemma mem_read_write_disjoint [mem_simps]:
  assumes "mem_write buf off bs = Some buf'" and "off' + n \<le> off \<or> off + length bs \<le> off'"
  shows "mem_read buf' off' n = mem_read buf off' n"
  using assms mem_read_write_below mem_read_write_above by metis

lemma mem_write_nth:
  assumes "mem_write buf off bs = Some buf'" and "i < length buf"
  shows "buf' ! i = (if off \<le> i \<and> i < off + length bs then bs ! (i - off) else buf ! i)"
  using assms by (auto simp: mem_write_def nth_append min_def split: if_splits)

lemma mem_read_nth:
  assumes "mem_read buf off n = Some bs" and "i < n"
  shows "bs ! i = buf ! (off + i)"
  using assms by (auto simp: mem_read_def split: if_splits)

section \<open>Little-endian words\<close>

definition le32 :: "u32 \<Rightarrow> byte list" where
  "le32 w = [ucast w, ucast (drop_bit 8 w), ucast (drop_bit 16 w), ucast (drop_bit 24 w)]"

definition of_le32 :: "byte list \<Rightarrow> u32" where
  "of_le32 bs = (case bs of [a, b, c, d] \<Rightarrow>
     ucast a OR push_bit 8 (ucast b) OR push_bit 16 (ucast c) OR push_bit 24 (ucast d) | _ \<Rightarrow> 0)"

lemma length_le32 [simp]: "length (le32 w) = 4"
  by (simp add: le32_def)

lemma of_le32_le32 [simp]: "of_le32 (le32 w) = w"
proof (rule bit_word_eqI)
  fix n :: nat
  assume n: "n < LENGTH(32)"
  consider "n < 8" | "8 \<le> n" "n < 16" | "16 \<le> n" "n < 24" | "24 \<le> n" "n < 32"
    using n by fastforce
  then show "bit (of_le32 (le32 w)) n \<longleftrightarrow> bit w n"
    by cases (auto simp: of_le32_def le32_def bit_simps)
qed

lemma byte_bit_beyond: "8 \<le> n \<Longrightarrow> \<not> bit (b :: byte) n"
  using bit_imp_le_length by fastforce

lemma le32_of_le32:
  assumes "length bs = 4"
  shows "le32 (of_le32 bs) = bs"
proof -
  from assms obtain a b c d where bs: "bs = [a, b, c, d]"
    by (auto simp: numeral_eq_Suc length_Suc_conv)
  show ?thesis
    unfolding bs of_le32_def le32_def
    by (auto intro!: bit_word_eqI simp: bit_simps byte_bit_beyond)
qed

definition MACH_READ_UINT32 :: "byte list \<Rightarrow> nat \<Rightarrow> u32 option" where
  "MACH_READ_UINT32 buf off = map_option of_le32 (mem_read buf off 4)"

definition MACH_WRITE_UINT32 :: "byte list \<Rightarrow> nat \<Rightarrow> u32 \<Rightarrow> byte list option" where
  "MACH_WRITE_UINT32 buf off w = mem_write buf off (le32 w)"

text \<open>The signed variants reinterpret the same four bytes.\<close>

definition MACH_READ_INT32 :: "byte list \<Rightarrow> nat \<Rightarrow> int option" where
  "MACH_READ_INT32 buf off = map_option sint (MACH_READ_UINT32 buf off)"

definition MACH_WRITE_INT32 :: "byte list \<Rightarrow> nat \<Rightarrow> int \<Rightarrow> byte list option" where
  "MACH_WRITE_INT32 buf off i = MACH_WRITE_UINT32 buf off (word_of_int i)"

lemma sint_word_of_int32: "int32_range i \<Longrightarrow> sint (word_of_int i :: u32) = i"
  by (simp add: int32_range_def signed_take_bit_int_eq_self_iff sint_sbintrunc')

lemma MACH_WRITE_UINT32_length [mem_simps]:
  "MACH_WRITE_UINT32 buf off w = Some buf' \<Longrightarrow> length buf' = length buf"
  by (simp add: MACH_WRITE_UINT32_def mem_simps)

lemma MACH_READ_WRITE_UINT32 [mem_simps]:
  "MACH_WRITE_UINT32 buf off w = Some buf' \<Longrightarrow> MACH_READ_UINT32 buf' off = Some w"
  by (simp add: MACH_WRITE_UINT32_def MACH_READ_UINT32_def mem_simps)

lemma MACH_READ_WRITE_UINT32_disjoint [mem_simps]:
  "MACH_WRITE_UINT32 buf off w = Some buf' \<Longrightarrow> off' + 4 \<le> off \<or> off + 4 \<le> off' \<Longrightarrow>
   MACH_READ_UINT32 buf' off' = MACH_READ_UINT32 buf off'"
  unfolding MACH_WRITE_UINT32_def MACH_READ_UINT32_def
  by (subst mem_read_write_disjoint) auto

lemma MACH_READ_UINT32_Some [mem_simps]:
  "off + 4 \<le> length buf \<Longrightarrow> \<exists>w. MACH_READ_UINT32 buf off = Some w"
  by (simp add: MACH_READ_UINT32_def mem_read_def)

lemma MACH_WRITE_UINT32_Some [mem_simps]:
  "off + 4 \<le> length buf \<Longrightarrow> \<exists>buf'. MACH_WRITE_UINT32 buf off w = Some buf'"
  by (simp add: MACH_WRITE_UINT32_def mem_write_def)

lemma MACH_READ_WRITE_INT32 [mem_simps]:
  "int32_range i \<Longrightarrow> MACH_WRITE_INT32 buf off i = Some buf' \<Longrightarrow> MACH_READ_INT32 buf' off = Some i"
  by (simp add: MACH_WRITE_INT32_def MACH_READ_INT32_def mem_simps sint_word_of_int32)

end
