(* ===== verification/Bitmap_Page.thy ===== *)
theory Bitmap_Page
  imports MiniSQL_Prelude
begin

text \<open>
  The free-page bitmap of one extent (\<^verbatim>\<open>page/bitmap_page.cpp\<close>,
  \<^verbatim>\<open>include/page/bitmap_page.h\<close>).  The template parameter \<^verbatim>\<open>PageSize\<close> is an
  argument of every operation.  \<open>AllocatePage\<close>'s two nested loops are two tail-recursive
  functions; its \<^verbatim>\<open>bool\<close> result and its output parameter are one option.  The lemmas
  relate the byte operations to the set of offsets whose bit is one, and the locale
  \<open>page_allocator\<close> states what a client of any such allocator may rely on.
\<close>

section \<open>Model\<close>

record bitmap_page =
  page_allocated :: u32
  next_free_page :: u32
  bytes :: "byte list"

definition byte_bit :: "byte list" where
  "byte_bit = [0x80, 0x40, 0x20, 0x10, 0x08, 0x04, 0x02, 0x01]"

definition byte_bit_not :: "byte list" where
  "byte_bit_not = [0x7F, 0xBF, 0xDF, 0xEF, 0xF7, 0xFB, 0xFD, 0xFE]"

definition MAX_CHARS :: "nat \<Rightarrow> nat" where
  "MAX_CHARS PageSize = PageSize - 2 * 4"

definition GetMaxSupportedSize :: "nat \<Rightarrow> nat" where
  "GetMaxSupportedSize PageSize = 8 * MAX_CHARS PageSize"

function find_zero_bit :: "byte \<Rightarrow> nat \<Rightarrow> nat option" where
  "find_zero_bit b j =
     (if j < 8 then if b AND byte_bit ! j = 0 then Some j else find_zero_bit b (Suc j)
      else None)"
  by pat_completeness auto
termination
  by (relation "measure (\<lambda>(b, j). 8 - j)") auto

declare find_zero_bit.simps [simp del]

function allocate_from :: "nat \<Rightarrow> bitmap_page \<Rightarrow> nat \<Rightarrow> (bitmap_page \<times> nat) option" where
  "allocate_from PageSize bm i =
     (if i < MAX_CHARS PageSize then
        if bytes bm ! i XOR 0xFF \<noteq> 0 then
          (case find_zero_bit (bytes bm ! i) 0 of
             Some j \<Rightarrow> Some (bm\<lparr>bytes := (bytes bm)[i := bytes bm ! i OR byte_bit ! j]\<rparr>, i * 8 + j)
           | None \<Rightarrow> allocate_from PageSize bm (Suc i))
        else allocate_from PageSize bm (Suc i)
      else None)"
  by pat_completeness auto
termination
  by (relation "measure (\<lambda>(p, bm, i). MAX_CHARS p - i)") auto

declare allocate_from.simps [simp del]

definition BitmapPage_AllocatePage :: "nat \<Rightarrow> bitmap_page \<Rightarrow> (bitmap_page \<times> nat) option" where
  "BitmapPage_AllocatePage PageSize bm = allocate_from PageSize bm 0"

definition BitmapPage_DeAllocatePage :: "nat \<Rightarrow> bitmap_page \<Rightarrow> nat \<Rightarrow> bool \<times> bitmap_page" where
  "BitmapPage_DeAllocatePage PageSize bm page_offset =
     (if page_offset < MAX_CHARS PageSize * 8 then
        if bytes bm ! (page_offset div 8) AND byte_bit ! (page_offset mod 8) \<noteq> 0 then
          (True, bm\<lparr>bytes := (bytes bm)[page_offset div 8 :=
             bytes bm ! (page_offset div 8) AND byte_bit_not ! (page_offset mod 8)]\<rparr>)
        else (False, bm)
      else (False, bm))"

definition BitmapPage_IsPageFree :: "nat \<Rightarrow> bitmap_page \<Rightarrow> nat \<Rightarrow> bool" where
  "BitmapPage_IsPageFree PageSize bm page_offset =
     (if page_offset < MAX_CHARS PageSize * 8 then
        (if bytes bm ! (page_offset div 8) AND byte_bit ! (page_offset mod 8) = 0 then True
         else False)
      else False)"

definition BitmapPage_IsPageFreeLow :: "bitmap_page \<Rightarrow> nat \<Rightarrow> nat \<Rightarrow> bool" where
  "BitmapPage_IsPageFreeLow bm byte_index bit_index = False"

text \<open>
  The disk manager obtains a bitmap by \<^verbatim>\<open>reinterpret_cast\<close> of a page buffer: the two
  counters occupy the first eight bytes and the bits the rest.
\<close>

definition bitmap_of_page :: "byte list \<Rightarrow> bitmap_page" where
  "bitmap_of_page data = \<lparr>page_allocated = of_le32 (take 4 data),
     next_free_page = of_le32 (take 4 (drop 4 data)), bytes = drop 8 data\<rparr>"

definition page_of_bitmap :: "bitmap_page \<Rightarrow> byte list" where
  "page_of_bitmap bm = le32 (page_allocated bm) @ le32 (next_free_page bm) @ bytes bm"

section \<open>Bits\<close>

definition bitmap_wf :: "nat \<Rightarrow> bitmap_page \<Rightarrow> bool" where
  "bitmap_wf PageSize bm \<longleftrightarrow> length (bytes bm) = MAX_CHARS PageSize"

definition allocated :: "bitmap_page \<Rightarrow> nat \<Rightarrow> bool" where
  "allocated bm k \<longleftrightarrow> bit (bytes bm ! (k div 8)) (7 - k mod 8)"

definition used_pages :: "nat \<Rightarrow> bitmap_page \<Rightarrow> nat set" where
  "used_pages PageSize bm = {k. k < GetMaxSupportedSize PageSize \<and> allocated bm k}"

lemma less_8_cases: "j < 8 \<Longrightarrow> j \<in> {0, 1, 2, 3, 4, 5, 6, 7::nat}"
  by auto

lemma byte_bit_nth: "j < 8 \<Longrightarrow> byte_bit ! j = push_bit (7 - j) 1"
  by (drule less_8_cases) (auto simp: byte_bit_def push_bit_eq_mult)

lemma byte_bit_not_nth: "j < 8 \<Longrightarrow> byte_bit_not ! j = NOT (byte_bit ! j)"
  by (drule less_8_cases) (auto simp: byte_bit_not_def byte_bit_def)

lemma and_byte_bit: "j < 8 \<Longrightarrow> b AND byte_bit ! j = 0 \<longleftrightarrow> \<not> bit b (7 - j)"
  by (simp add: byte_bit_nth bit_iff_and_push_bit_not_eq_0)

lemma bit_or_byte_bit:
  "j < 8 \<Longrightarrow> m < 8 \<Longrightarrow> bit (b OR byte_bit ! j) (7 - m) \<longleftrightarrow> bit b (7 - m) \<or> m = j"
  by (auto simp: byte_bit_nth bit_simps)

lemma bit_and_byte_bit_not:
  "j < 8 \<Longrightarrow> m < 8 \<Longrightarrow> bit (b AND byte_bit_not ! j) (7 - m) \<longleftrightarrow> bit b (7 - m) \<and> m \<noteq> j"
  by (auto simp: byte_bit_not_nth byte_bit_nth bit_simps)

lemma xor_FF_eq_0: "(b :: byte) XOR 0xFF = 0 \<longleftrightarrow> (\<forall>j < 8. bit b (7 - j))"
proof
  assume "b XOR 0xFF = 0"
  moreover have "b = (b XOR 0xFF) XOR 0xFF" by (simp add: xor.assoc)
  ultimately have "b = 0xFF" by simp
  then show "\<forall>j < 8. bit b (7 - j)" by (auto simp: bit_simps dest!: less_8_cases)
next
  assume all: "\<forall>j < 8. bit b (7 - j)"
  have "b = NOT 0"
  proof (rule bit_word_eqI)
    fix n assume "n < LENGTH(8)"
    then have "n < 8" by simp
    with all[rule_format, of "7 - n"] show "bit b n \<longleftrightarrow> bit (NOT 0 :: byte) n"
      by (simp add: bit_simps)
  qed
  then show "b XOR 0xFF = 0" by simp
qed

section \<open>The loops\<close>

lemma find_zero_bit_Some:
  "find_zero_bit b j = Some k \<Longrightarrow> j \<le> k \<and> k < 8 \<and> \<not> bit b (7 - k) \<and> (\<forall>m. j \<le> m \<and> m < k \<longrightarrow> bit b (7 - m))"
proof (induction b j rule: find_zero_bit.induct)
  case (1 b j)
  show ?case
  proof (cases "j < 8 \<and> bit b (7 - j)")
    case True
    with "1.prems" have "find_zero_bit b (Suc j) = Some k"
      by (simp add: find_zero_bit.simps[of b j] and_byte_bit)
    with True "1.IH" show ?thesis
      by (auto simp: and_byte_bit) (metis le_antisym not_less_eq_eq)
  next
    case False
    with "1.prems" show ?thesis
      by (auto simp: find_zero_bit.simps[of b j] and_byte_bit split: if_splits)
  qed
qed

lemma find_zero_bit_None:
  "find_zero_bit b j = None \<Longrightarrow> j \<le> m \<Longrightarrow> m < 8 \<Longrightarrow> bit b (7 - m)"
proof (induction b j rule: find_zero_bit.induct)
  case (1 b j)
  then have "j < 8" by simp
  with "1.prems" have b: "bit b (7 - j)" and "find_zero_bit b (Suc j) = None"
    by (auto simp: find_zero_bit.simps[of b j] and_byte_bit split: if_splits)
  with "1.IH" "1.prems" \<open>j < 8\<close> show ?case
    by (cases "m = j") (auto simp: and_byte_bit)
qed

lemma find_zero_bit_exists: "b XOR 0xFF \<noteq> 0 \<Longrightarrow> \<exists>j. find_zero_bit b 0 = Some j"
  using find_zero_bit_None[of b 0] by (auto simp: xor_FF_eq_0)

lemma full_byte_allocated: "bytes bm ! i XOR 0xFF = 0 \<Longrightarrow> k div 8 = i \<Longrightarrow> allocated bm k"
  by (simp add: xor_FF_eq_0 allocated_def)

lemma div8_split: "(k::nat) < Suc i * 8 \<Longrightarrow> \<not> k < i * 8 \<Longrightarrow> k div 8 = i"
  by (simp add: div_nat_eqI)

text \<open>The invariant of the outer loop: every offset below the current byte is in use.\<close>

lemma allocate_from_Some:
  assumes "allocate_from P bm i = Some (bm', k)" and "bitmap_wf P bm"
    and "\<forall>m < i * 8. allocated bm m"
  shows "k < GetMaxSupportedSize P \<and> \<not> allocated bm k \<and> (\<forall>m < k. allocated bm m) \<and>
         bm' = bm\<lparr>bytes := (bytes bm)[k div 8 := bytes bm ! (k div 8) OR byte_bit ! (k mod 8)]\<rparr>"
  using assms
proof (induction P bm i rule: allocate_from.induct)
  case (1 P bm i)
  from "1.prems"(1) have i: "i < MAX_CHARS P"
    by (auto simp: allocate_from.simps[of P bm i] split: if_splits)
  show ?case
  proof (cases "bytes bm ! i XOR 0xFF = 0")
    case True
    with "1.prems" i have "allocate_from P bm (Suc i) = Some (bm', k)"
      by (simp add: allocate_from.simps[of P bm i])
    moreover have "\<forall>m < Suc i * 8. allocated bm m"
      using "1.prems"(3) full_byte_allocated[OF True] div8_split by blast
    ultimately show ?thesis using "1.IH"(2)[OF i] True "1.prems"(2) by blast
  next
    case False
    then obtain j where j: "find_zero_bit (bytes bm ! i) 0 = Some j"
      using find_zero_bit_exists by blast
    then have jp: "j < 8" "\<not> bit (bytes bm ! i) (7 - j)" "\<forall>m < j. bit (bytes bm ! i) (7 - m)"
      using find_zero_bit_Some[OF j] by auto
    from "1.prems"(1) i False j have k: "k = i * 8 + j"
      and bm': "bm' = bm\<lparr>bytes := (bytes bm)[i := bytes bm ! i OR byte_bit ! j]\<rparr>"
      by (auto simp: allocate_from.simps[of P bm i])
    have low: "allocated bm m" if "m < k" for m
    proof (cases "m < i * 8")
      case True
      with "1.prems"(3) show ?thesis by blast
    next
      case False
      then obtain r where m: "m = i * 8 + r" by (metis le_Suc_ex not_less)
      with that k jp have "m div 8 = i" "m mod 8 < j" by auto
      with jp show ?thesis by (simp add: allocated_def)
    qed
    from k jp i show ?thesis
      using low bm' by (auto simp: allocated_def GetMaxSupportedSize_def)
  qed
qed

lemma allocate_from_None:
  "allocate_from P bm i = None \<Longrightarrow> \<forall>m < i * 8. allocated bm m \<Longrightarrow>
   k < GetMaxSupportedSize P \<Longrightarrow> allocated bm k"
proof (induction P bm i rule: allocate_from.induct)
  case (1 P bm i)
  show ?case
  proof (cases "i < MAX_CHARS P")
    case True
    with "1.prems"(1) have full: "bytes bm ! i XOR 0xFF = 0"
      using find_zero_bit_exists[of "bytes bm ! i"]
      by (auto simp: allocate_from.simps[of P bm i] split: option.splits if_splits)
    with "1.prems"(1) True have "allocate_from P bm (Suc i) = None"
      by (simp add: allocate_from.simps[of P bm i])
    moreover have "\<forall>m < Suc i * 8. allocated bm m"
      using "1.prems"(2) full_byte_allocated[OF full] div8_split by blast
    ultimately show ?thesis using "1.IH"(2)[OF True] full "1.prems"(3) by blast
  next
    case False
    with "1.prems" show ?thesis by (simp add: GetMaxSupportedSize_def)
  qed
qed


section \<open>The operations on the set of pages in use\<close>

lemma allocated_update:
  assumes "bitmap_wf P bm" and "k < GetMaxSupportedSize P"
  shows "allocated (bm\<lparr>bytes := (bytes bm)[k div 8 := v]\<rparr>) m =
         (if m div 8 = k div 8 then bit v (7 - m mod 8) else allocated bm m)"
proof -
  have "k div 8 < length (bytes bm)"
    using assms by (simp add: bitmap_wf_def GetMaxSupportedSize_def div_less_iff_less_mult mult.commute)
  then show ?thesis by (simp add: allocated_def)
qed

lemma div_mod_8_eq: "(m::nat) div 8 = k div 8 \<Longrightarrow> m mod 8 = k mod 8 \<longleftrightarrow> m = k"
  by (metis div_mult_mod_eq)

lemma allocated_set_bit:
  assumes "bitmap_wf P bm" and "k < GetMaxSupportedSize P"
  shows "allocated (bm\<lparr>bytes := (bytes bm)[k div 8 := bytes bm ! (k div 8) OR byte_bit ! (k mod 8)]\<rparr>) m
         \<longleftrightarrow> allocated bm m \<or> m = k"
  using assms div_mod_8_eq[of m k] by (auto simp: allocated_update bit_or_byte_bit) (auto simp: allocated_def)

lemma allocated_clear_bit:
  assumes "bitmap_wf P bm" and "k < GetMaxSupportedSize P"
  shows "allocated (bm\<lparr>bytes := (bytes bm)[k div 8 := bytes bm ! (k div 8) AND byte_bit_not ! (k mod 8)]\<rparr>) m
         \<longleftrightarrow> allocated bm m \<and> m \<noteq> k"
  using assms div_mod_8_eq[of m k] by (auto simp: allocated_update bit_and_byte_bit_not) (auto simp: allocated_def)

lemma bitmap_wf_update [simp]: "bitmap_wf P (bm\<lparr>bytes := (bytes bm)[i := v]\<rparr>) = bitmap_wf P bm"
  by (simp add: bitmap_wf_def)

lemma alloc_Some_used:
  assumes "bitmap_wf P bm" and "BitmapPage_AllocatePage P bm = Some (bm', k)"
  shows "k < GetMaxSupportedSize P \<and> k \<notin> used_pages P bm \<and> {..<k} \<subseteq> used_pages P bm \<and>
         used_pages P bm' = insert k (used_pages P bm) \<and> bitmap_wf P bm' \<and>
         page_allocated bm' = page_allocated bm \<and> next_free_page bm' = next_free_page bm"
proof -
  have k: "k < GetMaxSupportedSize P" "\<not> allocated bm k" "\<forall>m < k. allocated bm m"
    and bm': "bm' = bm\<lparr>bytes := (bytes bm)[k div 8 := bytes bm ! (k div 8) OR byte_bit ! (k mod 8)]\<rparr>"
    using allocate_from_Some[of P bm 0 bm' k] assms by (auto simp: BitmapPage_AllocatePage_def)
  then show ?thesis
    using assms(1) allocated_set_bit[OF assms(1) k(1)] by (auto simp: used_pages_def)
qed

lemma alloc_None_used:
  assumes "bitmap_wf P bm"
  shows "BitmapPage_AllocatePage P bm = None \<longleftrightarrow> used_pages P bm = {..<GetMaxSupportedSize P}"
proof
  assume "BitmapPage_AllocatePage P bm = None"
  then show "used_pages P bm = {..<GetMaxSupportedSize P}"
    using allocate_from_None[of P bm 0] by (auto simp: BitmapPage_AllocatePage_def used_pages_def)
next
  assume full: "used_pages P bm = {..<GetMaxSupportedSize P}"
  show "BitmapPage_AllocatePage P bm = None"
  proof (rule ccontr)
    assume "BitmapPage_AllocatePage P bm \<noteq> None"
    then obtain bm' k where "BitmapPage_AllocatePage P bm = Some (bm', k)" by auto
    from alloc_Some_used[OF assms this] full show False by auto
  qed
qed

lemma and_byte_bit_allocated:
  "bytes bm ! (k div 8) AND byte_bit ! (k mod 8) = 0 \<longleftrightarrow> \<not> allocated bm k"
  by (simp add: and_byte_bit allocated_def)

lemma dealloc_used:
  assumes "bitmap_wf P bm"
  shows "fst (BitmapPage_DeAllocatePage P bm k) \<longleftrightarrow> k \<in> used_pages P bm"
    and "used_pages P (snd (BitmapPage_DeAllocatePage P bm k)) = used_pages P bm - {k}"
    and "bitmap_wf P (snd (BitmapPage_DeAllocatePage P bm k))"
proof -
  have cap: "k < MAX_CHARS P * 8 \<longleftrightarrow> k < GetMaxSupportedSize P"
    by (simp add: GetMaxSupportedSize_def mult.commute)
  show "fst (BitmapPage_DeAllocatePage P bm k) \<longleftrightarrow> k \<in> used_pages P bm"
    by (simp add: BitmapPage_DeAllocatePage_def used_pages_def cap and_byte_bit_allocated)
  show "used_pages P (snd (BitmapPage_DeAllocatePage P bm k)) = used_pages P bm - {k}"
    using allocated_clear_bit[OF assms, of k]
    by (auto simp: BitmapPage_DeAllocatePage_def used_pages_def cap and_byte_bit_allocated)
  show "bitmap_wf P (snd (BitmapPage_DeAllocatePage P bm k))"
    using assms by (simp add: BitmapPage_DeAllocatePage_def)
qed

lemma is_free_used:
  "BitmapPage_IsPageFree P bm k \<longleftrightarrow> k < GetMaxSupportedSize P \<and> k \<notin> used_pages P bm"
  by (simp add: BitmapPage_IsPageFree_def used_pages_def GetMaxSupportedSize_def mult.commute
      and_byte_bit_allocated)

lemma used_pages_finite: "finite (used_pages P bm)" "used_pages P bm \<subseteq> {..<GetMaxSupportedSize P}"
  by (auto simp: used_pages_def)

section \<open>The allocator interface\<close>

text \<open>
  What a client of a page allocator relies on, for a state \<open>'s\<close> with invariant
  \<open>invar\<close>, capacity \<open>cap\<close> and the set \<open>used\<close> of offsets in use.
\<close>

locale page_allocator =
  fixes invar :: "'s \<Rightarrow> bool"
    and cap :: nat
    and used :: "'s \<Rightarrow> nat set"
    and alloc :: "'s \<Rightarrow> ('s \<times> nat) option"
    and dealloc :: "'s \<Rightarrow> nat \<Rightarrow> bool \<times> 's"
  assumes used_bound: "used s \<subseteq> {..<cap}"
    and alloc_Some: "invar s \<Longrightarrow> alloc s = Some (s', k) \<Longrightarrow>
      k < cap \<and> k \<notin> used s \<and> {..<k} \<subseteq> used s \<and> used s' = insert k (used s) \<and> invar s'"
    and alloc_None: "invar s \<Longrightarrow> alloc s = None \<longleftrightarrow> used s = {..<cap}"
    and dealloc_flag: "invar s \<Longrightarrow> fst (dealloc s k) \<longleftrightarrow> k \<in> used s"
    and dealloc_state: "invar s \<Longrightarrow> used (snd (dealloc s k)) = used s - {k} \<and> invar (snd (dealloc s k))"
begin

text \<open>\<open>n\<close> allocations in a row, stopping at the first refusal.\<close>

fun alloc_run :: "nat \<Rightarrow> 's \<Rightarrow> 's \<times> nat list" where
  "alloc_run 0 s = (s, [])"
| "alloc_run (Suc n) s = (case alloc s of None \<Rightarrow> (s, [])
     | Some (s', k) \<Rightarrow> (let (t, ks) = alloc_run n s' in (t, k # ks)))"

lemma finite_used: "finite (used s)"
  using used_bound finite_subset by blast

lemma alloc_exists: "invar s \<Longrightarrow> card (used s) < cap \<Longrightarrow> \<exists>s' k. alloc s = Some (s', k)"
  using alloc_None[of s] by fastforce

lemma alloc_dealloc:
  assumes "invar s" and "alloc s = Some (s', k)"
  shows "fst (dealloc s' k) \<and> used (snd (dealloc s' k)) = used s"
  using alloc_Some[OF assms] dealloc_flag[of s' k] dealloc_state[of s' k] by auto

lemma dealloc_alloc:
  assumes "invar s" and "fst (dealloc s k)" and "alloc (snd (dealloc s k)) = Some (s', j)"
  shows "j \<le> k \<and> (j = k \<longrightarrow> used s' = used s)"
proof -
  from assms have k: "k \<in> used s" and u: "used (snd (dealloc s k)) = used s - {k}"
    and i: "invar (snd (dealloc s k))"
    using dealloc_flag dealloc_state by auto
  from alloc_Some[OF i assms(3)] have "{..<j} \<subseteq> used s - {k}" "used s' = insert j (used s - {k})"
    using u by auto
  then show ?thesis using k by (metis DiffD2 insert_Diff lessThan_iff linorder_not_less singletonI subsetD)
qed

lemma alloc_run_spec:
  assumes "invar s" and "alloc_run n s = (t, ks)"
  shows "invar t \<and> distinct ks \<and> set ks \<inter> used s = {} \<and> used t = used s \<union> set ks \<and>
         length ks = min n (cap - card (used s))"
  using assms
proof (induction n arbitrary: s t ks)
  case 0
  then show ?case by simp
next
  case (Suc n)
  have card_le: "card (used s) \<le> cap"
    using card_mono[OF _ used_bound] by simp
  show ?case
  proof (cases "alloc s")
    case None
    then have "used s = {..<cap}" using alloc_None Suc.prems(1) by simp
    with None Suc.prems show ?thesis by auto
  next
    case (Some r)
    then obtain s' k where r: "alloc s = Some (s', k)" by (cases r) auto
    note a = alloc_Some[OF Suc.prems(1) r]
    obtain ks' where run: "alloc_run n s' = (t, ks')" and ks: "ks = k # ks'"
      using Suc.prems(2) r by (auto split: prod.splits)
    have ih: "invar t \<and> distinct ks' \<and> set ks' \<inter> used s' = {} \<and> used t = used s' \<union> set ks' \<and>
        length ks' = min n (cap - card (used s'))"
      using Suc.IH[OF _ run] a by blast
    have "card (used s') = Suc (card (used s))"
      using a finite_used[of s] by auto
    moreover have "card (used s') \<le> cap"
      using card_mono[OF _ used_bound[of s']] by simp
    ultimately show ?thesis using ih a ks by auto
  qed
qed

end

interpretation bitmap: page_allocator "bitmap_wf P" "GetMaxSupportedSize P" "used_pages P"
  "BitmapPage_AllocatePage P" "BitmapPage_DeAllocatePage P"
  for P
proof
  show "used_pages P s \<subseteq> {..<GetMaxSupportedSize P}" for s
    by (rule used_pages_finite)
  show "k < GetMaxSupportedSize P \<and> k \<notin> used_pages P s \<and> {..<k} \<subseteq> used_pages P s \<and>
      used_pages P s' = insert k (used_pages P s) \<and> bitmap_wf P s'"
    if "bitmap_wf P s" "BitmapPage_AllocatePage P s = Some (s', k)" for s s' k
    using alloc_Some_used[OF that] by blast
qed (use alloc_None_used dealloc_used in auto)

section \<open>Properties\<close>

text \<open>\<open>AllocatePage\<close> on a bitmap takes the least free offset, sets exactly its bit and
  leaves the two header words alone; it refuses exactly when every offset is in use.\<close>

lemma bitmap_allocate_least:
  assumes "bitmap_wf P bm"
  shows "case BitmapPage_AllocatePage P bm of
      Some (bm', k) \<Rightarrow> k < GetMaxSupportedSize P \<and> BitmapPage_IsPageFree P bm k \<and>
        (\<forall>j < k. \<not> BitmapPage_IsPageFree P bm j) \<and> \<not> BitmapPage_IsPageFree P bm' k \<and>
        (\<forall>j. j \<noteq> k \<longrightarrow> BitmapPage_IsPageFree P bm' j = BitmapPage_IsPageFree P bm j) \<and>
        bitmap_wf P bm' \<and> page_allocated bm' = page_allocated bm \<and> next_free_page bm' = next_free_page bm
    | None \<Rightarrow> \<forall>j. \<not> BitmapPage_IsPageFree P bm j"
proof (cases "BitmapPage_AllocatePage P bm")
  case None
  then have "used_pages P bm = {..<GetMaxSupportedSize P}" using alloc_None_used[OF assms] by simp
  with None show ?thesis by (simp add: is_free_used)
next
  case (Some r)
  then obtain bm' k where r: "BitmapPage_AllocatePage P bm = Some (bm', k)" by (cases r) auto
  from alloc_Some_used[OF assms r] show ?thesis
    by (auto simp: r is_free_used)
qed

text \<open>\<open>DeAllocatePage\<close> on a bitmap succeeds exactly on an allocated offset and clears only
  its bit, and it undoes the allocation that just returned the offset.\<close>

lemma bitmap_deallocate_inverse:
  assumes "bitmap_wf P bm"
  shows "(fst (BitmapPage_DeAllocatePage P bm k) \<longleftrightarrow> k \<in> used_pages P bm) \<and>
    used_pages P (snd (BitmapPage_DeAllocatePage P bm k)) = used_pages P bm - {k} \<and>
    (\<forall>bm' j. BitmapPage_AllocatePage P bm = Some (bm', j) \<longrightarrow>
       fst (BitmapPage_DeAllocatePage P bm' j) \<and>
       used_pages P (snd (BitmapPage_DeAllocatePage P bm' j)) = used_pages P bm)"
  using dealloc_used[OF assms] bitmap.alloc_dealloc[OF assms] by blast

definition small_bitmap :: bitmap_page where
  "small_bitmap = \<lparr>page_allocated = 0, next_free_page = 0, bytes = [0xC0]\<rparr>"

end
