(* ===== verification/Disk_Manager.thy ===== *)
theory Disk_Manager
  imports Bitmap_Page
begin

text \<open>
  The disk manager (\<^verbatim>\<open>storage/disk_manager.cpp\<close>, \<^verbatim>\<open>include/storage/disk_manager.h\<close>,
  \<^verbatim>\<open>include/page/disk_file_meta_page.h\<close>).  The database file is a list of bytes and
  \<open>db_io_fail\<close> is the stream's fail state (set by a read that meets the end of the file
  or a seek to a negative position, after which seeks, reads and writes do nothing).  The meta page is the
  raw buffer \<open>meta_data\<close> that \<^verbatim>\<open>DiskFileMetaPage\<close> overlays: two counters and one
  usage counter per extent.  Operations that read raw memory or compute a signed offset
  are in the option monad; \<^term>\<open>None\<close> is undefined behaviour or a failed \<^verbatim>\<open>ASSERT\<close>.
\<close>

section \<open>Model\<close>

record disk_manager =
  db_file :: "byte list"
  db_io_fail :: bool
  closed :: bool
  meta_data :: "byte list"

definition BITMAP_SIZE :: nat where
  "BITMAP_SIZE = GetMaxSupportedSize PAGE_SIZE"

definition MAX_VALID_PAGE_ID :: page_id_t where
  "MAX_VALID_PAGE_ID = int ((PAGE_SIZE - 8) div 4 * GetMaxSupportedSize PAGE_SIZE)"

subsection \<open>The meta page\<close>

definition GetExtentNums :: "disk_manager \<Rightarrow> u32 option" where
  "GetExtentNums dm = MACH_READ_UINT32 (meta_data dm) 4"

definition GetAllocatedPages :: "disk_manager \<Rightarrow> u32 option" where
  "GetAllocatedPages dm = MACH_READ_UINT32 (meta_data dm) 0"

definition GetExtentUsedPage :: "disk_manager \<Rightarrow> nat \<Rightarrow> u32 option" where
  "GetExtentUsedPage dm extent_id = do {
     n \<leftarrow> GetExtentNums dm;
     if extent_id \<ge> unat n then Some 0 else MACH_READ_UINT32 (meta_data dm) (8 + 4 * extent_id) }"

text \<open>The increments and decrements of the meta page's \<^verbatim>\<open>uint32_t\<close> members.\<close>

definition meta_add :: "disk_manager \<Rightarrow> nat \<Rightarrow> u32 \<Rightarrow> disk_manager option" where
  "meta_add dm off d = do {
     w \<leftarrow> MACH_READ_UINT32 (meta_data dm) off;
     m \<leftarrow> MACH_WRITE_UINT32 (meta_data dm) off (w + d);
     Some (dm\<lparr>meta_data := m\<rparr>) }"

subsection \<open>Physical pages\<close>

definition GetFileSize :: "disk_manager \<Rightarrow> int" where
  "GetFileSize dm = to_int32 (int (length (db_file dm)))"

definition ReadPhysicalPage :: "disk_manager \<Rightarrow> page_id_t \<Rightarrow> (byte list \<times> disk_manager) option" where
  "ReadPhysicalPage dm physical_page_id =
     (let offset = physical_page_id * int PAGE_SIZE in
      if \<not> int32_range offset then None
      else if offset \<ge> GetFileSize dm then Some (replicate PAGE_SIZE 0, dm)
      else if db_io_fail dm \<or> closed dm \<or> offset < 0
        then Some (replicate PAGE_SIZE 0, dm\<lparr>db_io_fail := True\<rparr>)
      else let got = take PAGE_SIZE (drop (nat offset) (db_file dm)) in
        if length got < PAGE_SIZE
        then Some (got @ replicate (PAGE_SIZE - length got) 0, dm\<lparr>db_io_fail := True\<rparr>)
        else Some (got, dm))"

definition file_write :: "byte list \<Rightarrow> nat \<Rightarrow> byte list \<Rightarrow> byte list" where
  "file_write file off data =
     take off file @ replicate (off - length file) 0 @ data @ drop (off + length data) file"

definition WritePhysicalPage :: "disk_manager \<Rightarrow> page_id_t \<Rightarrow> byte list \<Rightarrow> disk_manager" where
  "WritePhysicalPage dm physical_page_id page_data =
     (let offset = (to_uint64 physical_page_id * PAGE_SIZE) mod 2 ^ 64 in
      if db_io_fail dm \<or> closed dm \<or> offset \<ge> 2 ^ 63 then dm\<lparr>db_io_fail := True\<rparr>
      else dm\<lparr>db_file := file_write (db_file dm) offset page_data\<rparr>)"

definition MapPageId :: "page_id_t \<Rightarrow> page_id_t" where
  "MapPageId logical_page_id = to_int32 (int
     ((to_uint64 logical_page_id div BITMAP_SIZE) * (BITMAP_SIZE + 1)
       + to_uint64 logical_page_id mod BITMAP_SIZE + 2))"

subsection \<open>The public interface\<close>

definition DiskManager_new :: "byte list option \<Rightarrow> disk_manager option" where
  "DiskManager_new db =
     (let dm = \<lparr>db_file = (case db of None \<Rightarrow> [] | Some f \<Rightarrow> f), db_io_fail = False,
                closed = False, meta_data = []\<rparr> in
      do { (m, dm') \<leftarrow> ReadPhysicalPage dm META_PAGE_ID; Some (dm'\<lparr>meta_data := m\<rparr>) })"

definition DiskManager_Close :: "disk_manager \<Rightarrow> disk_manager" where
  "DiskManager_Close dm = (if \<not> closed dm then dm\<lparr>closed := True\<rparr> else dm)"

definition ReadPage :: "disk_manager \<Rightarrow> page_id_t \<Rightarrow> (byte list \<times> disk_manager) option" where
  "ReadPage dm logical_page_id =
     (if logical_page_id \<ge> 0 then ReadPhysicalPage dm (MapPageId logical_page_id) else None)"

definition WritePage :: "disk_manager \<Rightarrow> page_id_t \<Rightarrow> byte list \<Rightarrow> disk_manager option" where
  "WritePage dm logical_page_id page_data =
     (if logical_page_id \<ge> 0
      then Some (WritePhysicalPage dm (MapPageId logical_page_id) page_data) else None)"

definition bitmap_page_id :: "nat \<Rightarrow> page_id_t" where
  "bitmap_page_id i = to_int32 (int (i * (BITMAP_SIZE + 1) + 1))"

text \<open>
  The loop over the existing extents: \<open>Inl\<close> is the early return with the allocated id,
  \<open>Inr\<close> the state in which the loop ends without a free page.
\<close>

fun scan_extents :: "disk_manager \<Rightarrow> nat list \<Rightarrow> (disk_manager \<times> page_id_t + disk_manager) option" where
  "scan_extents dm [] = Some (Inr dm)"
| "scan_extents dm (i # is) = do {
     (open_page, dm1) \<leftarrow> ReadPhysicalPage dm (bitmap_page_id i);
     (case BitmapPage_AllocatePage PAGE_SIZE (bitmap_of_page open_page) of
        Some (bitmap, offset_in_bitmap) \<Rightarrow> do {
          dm2 \<leftarrow> meta_add dm1 0 1;
          dm3 \<leftarrow> meta_add dm2 (8 + 4 * i) 1;
          Some (Inl (WritePhysicalPage dm3 (bitmap_page_id i) (page_of_bitmap bitmap),
                     to_int32 (int (offset_in_bitmap + i * BITMAP_SIZE)))) }
      | None \<Rightarrow> scan_extents dm1 is) }"

definition new_extent :: "disk_manager \<Rightarrow> (disk_manager \<times> page_id_t) option" where
  "new_extent dm = do {
     dm1 \<leftarrow> meta_add dm 4 1;
     n \<leftarrow> GetExtentNums dm1;
     (case BitmapPage_AllocatePage PAGE_SIZE (bitmap_of_page (replicate PAGE_SIZE 0)) of
        Some (bitmap, offset_in_bitmap) \<Rightarrow> do {
          dm2 \<leftarrow> meta_add dm1 0 1;
          dm3 \<leftarrow> meta_add dm2 (8 + 4 * unat (n - 1)) 1;
          let dm4 = WritePhysicalPage dm3 (bitmap_page_id (unat (n - 1))) (page_of_bitmap bitmap);
          Some (WritePhysicalPage dm4 META_PAGE_ID (meta_data dm4),
                to_int32 (int (offset_in_bitmap + unat (n - 1) * BITMAP_SIZE))) }
      | None \<Rightarrow> Some (WritePhysicalPage dm1 META_PAGE_ID (meta_data dm1), INVALID_PAGE_ID)) }"

definition AllocatePage :: "disk_manager \<Rightarrow> (disk_manager \<times> page_id_t) option" where
  "AllocatePage dm = do {
     n \<leftarrow> GetExtentNums dm;
     r \<leftarrow> scan_extents dm [0..<unat n];
     (case r of Inl res \<Rightarrow> Some res | Inr dm1 \<Rightarrow> new_extent dm1) }"

definition DeAllocatePage :: "disk_manager \<Rightarrow> page_id_t \<Rightarrow> disk_manager option" where
  "DeAllocatePage dm logical_page_id = do {
     let bitmap_index = to_uint32 (int (to_uint64 logical_page_id div BITMAP_SIZE));
     n \<leftarrow> GetExtentNums dm;
     dm' \<leftarrow> (if bitmap_index < unat n then do {
         (open_page, dm1) \<leftarrow> ReadPhysicalPage dm (bitmap_page_id bitmap_index);
         if fst (BitmapPage_DeAllocatePage PAGE_SIZE (bitmap_of_page open_page)
                   (to_uint64 logical_page_id mod BITMAP_SIZE))
         then do { dm2 \<leftarrow> meta_add dm1 0 (-1); meta_add dm2 (8 + 4 * bitmap_index) (-1) }
         else Some dm1 }
       else Some dm);
     Some (WritePhysicalPage dm' META_PAGE_ID (meta_data dm')) }"

definition DiskManager_IsPageFree :: "disk_manager \<Rightarrow> page_id_t \<Rightarrow> (bool \<times> disk_manager) option" where
  "DiskManager_IsPageFree dm logical_page_id = do {
     let bitmap_index = to_uint32 (int (to_uint64 logical_page_id div BITMAP_SIZE));
     n \<leftarrow> GetExtentNums dm;
     if bitmap_index < unat n then do {
       (open_page, dm1) \<leftarrow> ReadPhysicalPage dm (bitmap_page_id bitmap_index);
       Some (BitmapPage_IsPageFree PAGE_SIZE (bitmap_of_page open_page)
               (to_uint64 logical_page_id mod BITMAP_SIZE), dm1) }
     else Some (True, dm) }"

section \<open>The file as a sequence of pages\<close>

definition byte_at :: "byte list \<Rightarrow> nat \<Rightarrow> byte" where
  "byte_at f j = (if j < length f then f ! j else 0)"

definition phys_page :: "disk_manager \<Rightarrow> nat \<Rightarrow> byte list" where
  "phys_page dm p = map (\<lambda>i. byte_at (db_file dm) (p * PAGE_SIZE + i)) [0..<PAGE_SIZE]"

text \<open>
  The largest page whose offset fits the \<^verbatim>\<open>int\<close> of \<open>ReadPhysicalPage\<close> and whose end
  still has a positive file size is number \<open>524286\<close>.
\<close>

definition phys_ok :: "nat \<Rightarrow> bool" where
  "phys_ok p \<longleftrightarrow> p < 524287"

definition disk_ok :: "disk_manager \<Rightarrow> bool" where
  "disk_ok dm \<longleftrightarrow> \<not> db_io_fail dm \<and> \<not> closed dm \<and> PAGE_SIZE dvd length (db_file dm) \<and>
     length (db_file dm) < 2 ^ 31 \<and> length (meta_data dm) = PAGE_SIZE"

lemma PAGE_SIZE_pos [simp]: "0 < PAGE_SIZE"
  by (simp add: PAGE_SIZE_def)

lemma length_phys_page [simp]: "length (phys_page dm p) = PAGE_SIZE"
  by (simp add: phys_page_def)

lemma byte_at_file_write:
  "byte_at (file_write f off d) j =
     (if off \<le> j \<and> j < off + length d then d ! (j - off) else byte_at f j)"
  by (auto simp: byte_at_def file_write_def nth_append min_def not_less)

lemma length_file_write: "length (file_write f off d) = max (length f) (off + length d)"
  by (auto simp: file_write_def)

lemma page_index_eq:
  assumes "p * PAGE_SIZE \<le> q * PAGE_SIZE + i" and "q * PAGE_SIZE + i < p * PAGE_SIZE + PAGE_SIZE"
    and "i < PAGE_SIZE"
  shows "p = q"
proof -
  from assms have "p * PAGE_SIZE < Suc q * PAGE_SIZE" and "q * PAGE_SIZE < Suc p * PAGE_SIZE"
    by simp_all
  then show ?thesis by (simp only: mult_less_cancel2) simp
qed

lemma ReadPhysicalPage_ok:
  assumes "disk_ok dm" and "phys_ok p"
  shows "ReadPhysicalPage dm (int p) = Some (phys_page dm p, dm)"
proof -
  let ?f = "db_file dm" and ?o = "p * PAGE_SIZE"
  have size: "GetFileSize dm = int (length ?f)"
    using assms(1) by (simp add: disk_ok_def GetFileSize_def int32_range_def)
  have range: "int32_range (int p * int PAGE_SIZE)"
    using assms(2) by (simp add: phys_ok_def int32_range_def PAGE_SIZE_def)
  show ?thesis
  proof (cases "length ?f \<le> ?o")
    case True
    then have "phys_page dm p = replicate PAGE_SIZE 0"
      by (auto simp: phys_page_def byte_at_def intro!: nth_equalityI)
    with True range show ?thesis
      by (simp add: ReadPhysicalPage_def size flip: of_nat_mult)
  next
    case False
    with assms(1) have le: "?o + PAGE_SIZE \<le> length ?f"
      by (auto simp: disk_ok_def elim!: dvdE) (metis Suc_leI add.commute mult.commute mult_Suc
          mult_le_mono1 not_le)
    then have "take PAGE_SIZE (drop ?o ?f) = phys_page dm p"
      by (auto simp: phys_page_def byte_at_def intro!: nth_equalityI)
    with le False assms(1) range show ?thesis
      by (simp add: ReadPhysicalPage_def size disk_ok_def flip: of_nat_mult)
  qed
qed

lemma WritePhysicalPage_ok:
  assumes "disk_ok dm" and "phys_ok p" and "length d = PAGE_SIZE"
  shows "disk_ok (WritePhysicalPage dm (int p) d)"
    and "phys_page (WritePhysicalPage dm (int p) d) q = (if q = p then d else phys_page dm q)"
    and "meta_data (WritePhysicalPage dm (int p) d) = meta_data dm"
proof -
  have w: "WritePhysicalPage dm (int p) d = dm\<lparr>db_file := file_write (db_file dm) (p * PAGE_SIZE) d\<rparr>"
    using assms by (simp add: WritePhysicalPage_def disk_ok_def phys_ok_def PAGE_SIZE_def)
  have "max (length (db_file dm)) (p * PAGE_SIZE + PAGE_SIZE) < 2 ^ 31"
    using assms by (simp add: disk_ok_def phys_ok_def PAGE_SIZE_def)
  then show "disk_ok (WritePhysicalPage dm (int p) d)"
    using assms by (auto simp: w disk_ok_def length_file_write max_def)
  show "meta_data (WritePhysicalPage dm (int p) d) = meta_data dm"
    by (simp add: w)
  show "phys_page (WritePhysicalPage dm (int p) d) q = (if q = p then d else phys_page dm q)"
    using assms(3)
    by (auto simp: w phys_page_def byte_at_file_write intro!: nth_equalityI dest: page_index_eq)
qed

section \<open>Address layout\<close>

definition bm_phys :: "nat \<Rightarrow> nat" where
  "bm_phys i = i * (BITMAP_SIZE + 1) + 1"

definition data_phys :: "nat \<Rightarrow> nat" where
  "data_phys l = (l div BITMAP_SIZE) * (BITMAP_SIZE + 1) + l mod BITMAP_SIZE + 2"

text \<open>Sixteen extents are what the signed 32-bit byte offset of a read can address.\<close>

definition MAX_EXTENTS :: nat where
  "MAX_EXTENTS = 16"

definition logical_ok :: "page_id_t \<Rightarrow> bool" where
  "logical_ok l \<longleftrightarrow> 0 \<le> l \<and> l < int (MAX_EXTENTS * BITMAP_SIZE)"

lemma BITMAP_SIZE_eq: "BITMAP_SIZE = 32704"
  by (simp add: BITMAP_SIZE_def GetMaxSupportedSize_def MAX_CHARS_def PAGE_SIZE_def)

lemma BITMAP_SIZE_pos [simp]: "0 < BITMAP_SIZE"
  by (simp add: BITMAP_SIZE_eq)

lemma logical_okE:
  assumes "logical_ok l"
  obtains n where "l = int n" and "n < MAX_EXTENTS * BITMAP_SIZE"
  using assms that[of "nat l"] by (simp add: logical_ok_def nat_less_iff)

lemma data_phys_bound: "n < MAX_EXTENTS * BITMAP_SIZE \<Longrightarrow> data_phys n < 523281"
proof -
  assume "n < MAX_EXTENTS * BITMAP_SIZE"
  then have "n div BITMAP_SIZE < 16"
    by (simp add: MAX_EXTENTS_def div_less_iff_less_mult)
  moreover have "n mod BITMAP_SIZE < 32704"
    by (simp add: BITMAP_SIZE_eq)
  ultimately show ?thesis
    unfolding data_phys_def BITMAP_SIZE_eq by simp
qed

lemma data_phys_ok: "n < MAX_EXTENTS * BITMAP_SIZE \<Longrightarrow> phys_ok (data_phys n)"
  using data_phys_bound[of n] by (simp add: phys_ok_def)

lemma MapPageId_eq: "n < MAX_EXTENTS * BITMAP_SIZE \<Longrightarrow> MapPageId (int n) = int (data_phys n)"
proof -
  assume n: "n < MAX_EXTENTS * BITMAP_SIZE"
  then have "to_uint64 (int n) = n" by (simp add: MAX_EXTENTS_def BITMAP_SIZE_eq)
  then have "MapPageId (int n) = to_int32 (int (data_phys n))"
    unfolding MapPageId_def data_phys_def by simp
  moreover have "int32_range (int (data_phys n))"
    using data_phys_bound[OF n] by (simp add: int32_range_def)
  ultimately show ?thesis by simp
qed

lemma bm_phys_ok: "i < MAX_EXTENTS \<Longrightarrow> phys_ok (bm_phys i)"
  by (simp add: MAX_EXTENTS_def phys_ok_def bm_phys_def BITMAP_SIZE_eq)

lemma bitmap_page_id_eq: "i < MAX_EXTENTS \<Longrightarrow> bitmap_page_id i = int (bm_phys i)"
  by (simp add: MAX_EXTENTS_def bitmap_page_id_def bm_phys_def BITMAP_SIZE_eq int32_range_def)

text \<open>Meta page, bitmap pages and data pages occupy different physical pages.\<close>

lemma slot_split:
  assumes "r < m"
  shows "(q * m + r) div m = q" and "(q * m + r) mod m = (r::nat)"
  using assms by (simp_all add: div_nat_eqI)

lemma data_phys_inj: "data_phys a = data_phys b \<Longrightarrow> a = b"
proof -
  assume eq: "data_phys a = data_phys b"
  have lt: "l mod BITMAP_SIZE < BITMAP_SIZE + 1" for l by (simp add: less_SucI)
  from eq have "a div BITMAP_SIZE * (BITMAP_SIZE + 1) + a mod BITMAP_SIZE =
      b div BITMAP_SIZE * (BITMAP_SIZE + 1) + b mod BITMAP_SIZE"
    unfolding data_phys_def by linarith
  then have "a div BITMAP_SIZE = b div BITMAP_SIZE \<and> a mod BITMAP_SIZE = b mod BITMAP_SIZE"
    using slot_split[OF lt] by metis
  then show ?thesis by (metis div_mult_mod_eq)
qed

lemma bm_phys_inj: "bm_phys i = bm_phys j \<longleftrightarrow> i = j"
  unfolding bm_phys_def by (simp del: mult_Suc_right)

lemma data_neq_bm: "data_phys l \<noteq> bm_phys i"
proof
  assume "data_phys l = bm_phys i"
  then have "l div BITMAP_SIZE * (BITMAP_SIZE + 1) + (l mod BITMAP_SIZE + 1) = i * (BITMAP_SIZE + 1) + 0"
    unfolding data_phys_def bm_phys_def by linarith
  moreover have "l mod BITMAP_SIZE + 1 < BITMAP_SIZE + 1" and "0 < BITMAP_SIZE + 1" by simp_all
  ultimately show False using slot_split(2) by (metis add_is_0 one_neq_zero)
qed

lemma phys_pos [simp]: "0 < data_phys l" "0 < bm_phys i" "data_phys l \<noteq> 0" "bm_phys i \<noteq> 0"
  by (simp_all add: data_phys_def bm_phys_def)

section \<open>Reading and writing logical pages\<close>

definition lpage :: "disk_manager \<Rightarrow> page_id_t \<Rightarrow> byte list" where
  "lpage dm l = phys_page dm (data_phys (nat l))"

lemma length_lpage [simp]: "length (lpage dm l) = PAGE_SIZE"
  by (simp add: lpage_def)

lemma ReadPage_ok: "disk_ok dm \<Longrightarrow> logical_ok l \<Longrightarrow> ReadPage dm l = Some (lpage dm l, dm)"
  by (auto elim!: logical_okE simp: ReadPage_def lpage_def MapPageId_eq ReadPhysicalPage_ok data_phys_ok)

lemma WritePage_ok:
  assumes "disk_ok dm" and "logical_ok l" and "length d = PAGE_SIZE"
  obtains dm' where "WritePage dm l d = Some dm'" and "disk_ok dm'" and "meta_data dm' = meta_data dm"
    and "\<And>p. phys_page dm' p = (if p = data_phys (nat l) then d else phys_page dm p)"
    and "\<And>k. logical_ok k \<Longrightarrow> lpage dm' k = (if k = l then d else lpage dm k)"
proof -
  from assms(2) obtain n where n: "l = int n" "n < MAX_EXTENTS * BITMAP_SIZE"
    by (rule logical_okE)
  let ?dm = "WritePhysicalPage dm (int (data_phys n)) d"
  note w = WritePhysicalPage_ok[OF assms(1) data_phys_ok[OF n(2)] assms(3)]
  show thesis
  proof
    show "WritePage dm l d = Some ?dm" using n by (simp add: WritePage_def MapPageId_eq)
    show "lpage ?dm k = (if k = l then d else lpage dm k)" if "logical_ok k" for k
      using that n w(2) by (auto simp: lpage_def logical_ok_def dest!: data_phys_inj)
  qed (use w n in auto)
qed

text \<open>
  The store interface: what the buffer pool relies on when it reads and writes pages
  through the disk manager.
\<close>

locale page_store =
  fixes ok :: "'s \<Rightarrow> bool"
    and valid :: "'p \<Rightarrow> bool"
    and content :: "'s \<Rightarrow> 'p \<Rightarrow> 'd"
    and good :: "'d \<Rightarrow> bool"
    and rd :: "'s \<Rightarrow> 'p \<Rightarrow> ('d \<times> 's) option"
    and wr :: "'s \<Rightarrow> 'p \<Rightarrow> 'd \<Rightarrow> 's option"
  assumes read_content: "ok s \<Longrightarrow> valid l \<Longrightarrow> rd s l = Some (content s l, s)"
    and write_content: "ok s \<Longrightarrow> valid l \<Longrightarrow> good d \<Longrightarrow> \<exists>s'. wr s l d = Some s' \<and> ok s' \<and>
      (\<forall>k. valid k \<longrightarrow> content s' k = (if k = l then d else content s k))"
begin

lemma read_after_write:
  assumes "ok s" and "valid l" and "good d" and "valid k"
  shows "\<exists>s'. wr s l d = Some s' \<and> ok s' \<and>
    rd s' k = Some (if k = l then d else content s k, s')"
proof -
  from write_content[OF assms(1-3)] obtain s' where s': "wr s l d = Some s'" "ok s'"
    and c: "\<forall>k. valid k \<longrightarrow> content s' k = (if k = l then d else content s k)"
    by blast
  have "rd s' k = Some (content s' k, s')" by (rule read_content[OF s'(2) assms(4)])
  with s' c assms(4) show ?thesis by simp
qed

fun write_all :: "'s \<Rightarrow> ('p \<times> 'd) list \<Rightarrow> 's option" where
  "write_all s [] = Some s"
| "write_all s ((l, d) # ws) = (case wr s l d of None \<Rightarrow> None | Some s' \<Rightarrow> write_all s' ws)"

lemma write_all_content:
  assumes "ok s" and "\<forall>(l, d) \<in> set ws. valid l \<and> good d"
  shows "\<exists>s'. write_all s ws = Some s' \<and> ok s' \<and>
    (\<forall>k. valid k \<longrightarrow> content s' k = (case map_of (rev ws) k of None \<Rightarrow> content s k | Some d \<Rightarrow> d))"
  using assms
proof (induction ws arbitrary: s)
  case Nil
  then show ?case by simp
next
  case (Cons w ws)
  obtain l d where w: "w = (l, d)" by (cases w)
  with Cons.prems write_content[of s l d] obtain s1 where s1: "wr s l d = Some s1" "ok s1"
    and c: "\<forall>k. valid k \<longrightarrow> content s1 k = (if k = l then d else content s k)" by auto
  from Cons.IH[OF s1(2)] Cons.prems(2) obtain s' where "write_all s1 ws = Some s'" "ok s'"
    and "\<forall>k. valid k \<longrightarrow> content s' k = (case map_of (rev ws) k of None \<Rightarrow> content s1 k | Some d \<Rightarrow> d)"
    by auto
  with s1 c w show ?case by (auto simp: map_add_def split: option.splits)
qed

end

interpretation disk: page_store disk_ok logical_ok lpage "\<lambda>d. length d = PAGE_SIZE" ReadPage WritePage
proof
  show "ReadPage s l = Some (lpage s l, s)" if "disk_ok s" "logical_ok l" for s l
    by (rule ReadPage_ok[OF that])
  show "\<exists>s'. WritePage s l d = Some s' \<and> disk_ok s' \<and>
      (\<forall>k. logical_ok k \<longrightarrow> lpage s' k = (if k = l then d else lpage s k))"
    if "disk_ok s" "logical_ok l" "length d = PAGE_SIZE" for s l d
    using WritePage_ok[OF that] by metis
qed

section \<open>Allocation\<close>

definition ext_bitmap :: "disk_manager \<Rightarrow> nat \<Rightarrow> bitmap_page" where
  "ext_bitmap dm i = bitmap_of_page (phys_page dm (bm_phys i))"

definition extents :: "disk_manager \<Rightarrow> nat" where
  "extents dm = (case GetExtentNums dm of Some n \<Rightarrow> unat n | None \<Rightarrow> 0)"

text \<open>The logical page ids that the bitmaps on disk mark as allocated.\<close>

definition disk_used :: "disk_manager \<Rightarrow> nat set" where
  "disk_used dm = {l. l < extents dm * BITMAP_SIZE \<and>
     l mod BITMAP_SIZE \<in> used_pages PAGE_SIZE (ext_bitmap dm (l div BITMAP_SIZE))}"

definition disk_wf :: "disk_manager \<Rightarrow> bool" where
  "disk_wf dm \<longleftrightarrow> disk_ok dm \<and> extents dm \<le> MAX_EXTENTS \<and>
     MACH_READ_UINT32 (phys_page dm 0) 4 = GetExtentNums dm"

lemma page_of_bitmap_inverse: "8 \<le> length d \<Longrightarrow> page_of_bitmap (bitmap_of_page d) = d"
proof -
  assume len: "8 \<le> length d"
  then have "le32 (of_le32 (take 4 d)) = take 4 d"
    and "le32 (of_le32 (take 4 (drop 4 d))) = take 4 (drop 4 d)"
    by (simp_all add: le32_of_le32)
  then have "page_of_bitmap (bitmap_of_page d) = take 4 d @ take 4 (drop 4 d) @ drop 4 (drop 4 d)"
    unfolding page_of_bitmap_def bitmap_of_page_def by (simp add: add.commute)
  then show ?thesis by (simp only: append_take_drop_id)
qed

lemma bitmap_of_page_inverse [simp]: "bitmap_of_page (page_of_bitmap bm) = bm"
  by (simp add: page_of_bitmap_def bitmap_of_page_def)

lemma bitmap_wf_page: "length d = PAGE_SIZE \<Longrightarrow> bitmap_wf PAGE_SIZE (bitmap_of_page d)"
  by (simp add: bitmap_wf_def bitmap_of_page_def MAX_CHARS_def)

lemma length_page_of_bitmap: "bitmap_wf PAGE_SIZE bm \<Longrightarrow> length (page_of_bitmap bm) = PAGE_SIZE"
  by (simp add: bitmap_wf_def page_of_bitmap_def MAX_CHARS_def PAGE_SIZE_def)

lemma meta_addE:
  assumes "disk_ok dm" and "off + 4 \<le> PAGE_SIZE"
  obtains m w where "meta_add dm off d = Some (dm\<lparr>meta_data := m\<rparr>)" and "length m = PAGE_SIZE"
    and "MACH_READ_UINT32 (meta_data dm) off = Some w" and "MACH_READ_UINT32 m off = Some (w + d)"
    and "\<And>o'. o' + 4 \<le> off \<or> off + 4 \<le> o' \<Longrightarrow> MACH_READ_UINT32 m o' = MACH_READ_UINT32 (meta_data dm) o'"
proof -
  have len: "length (meta_data dm) = PAGE_SIZE" using assms(1) by (simp add: disk_ok_def)
  with assms(2) obtain w where w: "MACH_READ_UINT32 (meta_data dm) off = Some w"
    using MACH_READ_UINT32_Some by metis
  from len assms(2) obtain m where m: "MACH_WRITE_UINT32 (meta_data dm) off (w + d) = Some m"
    using MACH_WRITE_UINT32_Some by metis
  show thesis
    using that[of m w] w m len MACH_WRITE_UINT32_length[OF m] MACH_READ_WRITE_UINT32[OF m]
      MACH_READ_WRITE_UINT32_disjoint[OF m]
    by (simp add: meta_add_def)
qed

lemma disk_ok_metaI: "disk_ok dm \<Longrightarrow> length m = PAGE_SIZE \<Longrightarrow> disk_ok (dm\<lparr>meta_data := m\<rparr>)"
  by (simp add: disk_ok_def)

lemma phys_page_meta [simp]: "phys_page (dm\<lparr>meta_data := m\<rparr>) = phys_page dm"
  by (simp add: phys_page_def fun_eq_iff)

text \<open>The effect of one allocation in extent \<open>i\<close>, whichever branch performs it.\<close>

definition alloc_effect :: "disk_manager \<Rightarrow> disk_manager \<Rightarrow> nat \<Rightarrow> bitmap_page \<Rightarrow> bool" where
  "alloc_effect dm dm' i bm \<longleftrightarrow> disk_ok dm' \<and>
     (\<forall>p. p \<noteq> 0 \<longrightarrow> phys_page dm' p = (if p = bm_phys i then page_of_bitmap bm else phys_page dm p)) \<and>
     GetAllocatedPages dm' = map_option (\<lambda>w. w + 1) (GetAllocatedPages dm)"

lemma scan_extents_full:
  assumes "disk_ok dm" and "set is \<subseteq> {..<MAX_EXTENTS}"
    and "\<forall>i \<in> set is. BitmapPage_AllocatePage PAGE_SIZE (ext_bitmap dm i) = None"
  shows "scan_extents dm (is @ js) = scan_extents dm js"
  using assms(2,3)
  by (induction "is") (simp_all add: bitmap_page_id_eq ReadPhysicalPage_ok assms(1) bm_phys_ok ext_bitmap_def)

lemma scan_extents_hit:
  assumes ok: "disk_ok dm" and i: "i < MAX_EXTENTS"
    and a: "BitmapPage_AllocatePage PAGE_SIZE (ext_bitmap dm i) = Some (bm, k)"
  shows "\<exists>dm'. scan_extents dm (i # js) = Some (Inl (dm', int (k + i * BITMAP_SIZE))) \<and>
    alloc_effect dm dm' i bm \<and> GetExtentNums dm' = GetExtentNums dm \<and> phys_page dm' 0 = phys_page dm 0"
proof -
  have wfi: "bitmap_wf PAGE_SIZE (ext_bitmap dm i)" by (simp add: ext_bitmap_def bitmap_wf_page)
  note al = alloc_Some_used[OF wfi a]
  have k: "k < BITMAP_SIZE" using al by (simp add: BITMAP_SIZE_def)
  have range: "int32_range (int (k + i * BITMAP_SIZE))"
    using k i by (simp add: int32_range_def MAX_EXTENTS_def BITMAP_SIZE_eq)
  obtain m1 w1 where m1: "meta_add dm 0 1 = Some (dm\<lparr>meta_data := m1\<rparr>)" "length m1 = PAGE_SIZE"
    "MACH_READ_UINT32 (meta_data dm) 0 = Some w1" "MACH_READ_UINT32 m1 0 = Some (w1 + 1)"
    "\<And>o'. o' + 4 \<le> 0 \<or> 0 + 4 \<le> o' \<Longrightarrow> MACH_READ_UINT32 m1 o' = MACH_READ_UINT32 (meta_data dm) o'"
    by (rule meta_addE[OF ok, of 0 1]) (auto simp: PAGE_SIZE_def)
  have ok1: "disk_ok (dm\<lparr>meta_data := m1\<rparr>)" using ok m1(2) by (rule disk_ok_metaI)
  have "8 + 4 * i + 4 \<le> PAGE_SIZE" using i by (simp add: PAGE_SIZE_def MAX_EXTENTS_def)
  then obtain m2 w2 where m2: "meta_add (dm\<lparr>meta_data := m1\<rparr>) (8 + 4 * i) 1 = Some (dm\<lparr>meta_data := m2\<rparr>)"
    "length m2 = PAGE_SIZE"
    "\<And>o'. o' + 4 \<le> 8 + 4 * i \<or> 8 + 4 * i + 4 \<le> o' \<Longrightarrow> MACH_READ_UINT32 m2 o' = MACH_READ_UINT32 m1 o'"
    by (rule meta_addE[OF ok1, of "8 + 4 * i" 1]) auto
  let ?d = "dm\<lparr>meta_data := m2\<rparr>"
  have ok2: "disk_ok ?d" using ok m2(2) by (rule disk_ok_metaI)
  have lb: "length (page_of_bitmap bm) = PAGE_SIZE" using al by (simp add: length_page_of_bitmap)
  note w = WritePhysicalPage_ok[OF ok2 bm_phys_ok[OF i] lb]
  have "scan_extents dm (i # js) =
      Some (Inl (WritePhysicalPage ?d (int (bm_phys i)) (page_of_bitmap bm), int (k + i * BITMAP_SIZE)))"
    using a i ok m1(1) m2(1) to_int32_id[OF range]
    by (simp add: bitmap_page_id_eq ReadPhysicalPage_ok bm_phys_ok flip: ext_bitmap_def)
  moreover have "alloc_effect dm (WritePhysicalPage ?d (int (bm_phys i)) (page_of_bitmap bm)) i bm"
    using w m1 m2(3)[of 0] by (simp add: alloc_effect_def GetAllocatedPages_def)
  ultimately show ?thesis
    using w m1(5)[of 4] m2(3)[of 4] by (auto simp: GetExtentNums_def)
qed

lemma used_pages_zero: "used_pages PAGE_SIZE (bitmap_of_page (replicate PAGE_SIZE 0)) = {}"
  by (auto simp: used_pages_def allocated_def bitmap_of_page_def GetMaxSupportedSize_def MAX_CHARS_def
      div_less_iff_less_mult)

lemma fresh_bitmap:
  obtains bm where "BitmapPage_AllocatePage PAGE_SIZE (bitmap_of_page (replicate PAGE_SIZE 0)) = Some (bm, 0)"
    and "bitmap_wf PAGE_SIZE bm" and "used_pages PAGE_SIZE bm = {0}"
proof -
  let ?z = "bitmap_of_page (replicate PAGE_SIZE 0)"
  have wf: "bitmap_wf PAGE_SIZE ?z" by (simp add: bitmap_wf_page)
  have "0 \<in> {..<GetMaxSupportedSize PAGE_SIZE}"
    by (simp add: GetMaxSupportedSize_def MAX_CHARS_def PAGE_SIZE_def)
  then have "{} \<noteq> {..<GetMaxSupportedSize PAGE_SIZE}" by blast
  then obtain bm k where a: "BitmapPage_AllocatePage PAGE_SIZE ?z = Some (bm, k)"
    using alloc_None_used[OF wf] used_pages_zero by fastforce
  from alloc_Some_used[OF wf a] have "k = 0" and "bitmap_wf PAGE_SIZE bm" and "used_pages PAGE_SIZE bm = {0}"
    by (auto simp: used_pages_zero)
  with a that show thesis by blast
qed

lemma new_extent_ok:
  assumes wf: "disk_wf dm" and room: "extents dm < MAX_EXTENTS"
  obtains dm' bm where "new_extent dm = Some (dm', int (extents dm * BITMAP_SIZE))"
    and "alloc_effect dm dm' (extents dm) bm" and "used_pages PAGE_SIZE bm = {0}"
    and "extents dm' = Suc (extents dm)" and "MACH_READ_UINT32 (phys_page dm' 0) 4 = GetExtentNums dm'"
proof -
  let ?i = "extents dm"
  have ok: "disk_ok dm" using wf by (simp add: disk_wf_def)
  obtain bm where bm: "BitmapPage_AllocatePage PAGE_SIZE (bitmap_of_page (replicate PAGE_SIZE 0)) = Some (bm, 0)"
    "bitmap_wf PAGE_SIZE bm" "used_pages PAGE_SIZE bm = {0}" by (rule fresh_bitmap)
  obtain m1 w where m1: "meta_add dm 4 1 = Some (dm\<lparr>meta_data := m1\<rparr>)" "length m1 = PAGE_SIZE"
    "MACH_READ_UINT32 (meta_data dm) 4 = Some w" "MACH_READ_UINT32 m1 4 = Some (w + 1)"
    "\<And>o'. o' + 4 \<le> 4 \<or> 4 + 4 \<le> o' \<Longrightarrow> MACH_READ_UINT32 m1 o' = MACH_READ_UINT32 (meta_data dm) o'"
    by (rule meta_addE[OF ok, of 4 1]) (auto simp: PAGE_SIZE_def)
  have i: "unat w = ?i" using m1(3) by (simp add: extents_def GetExtentNums_def)
  then have iu: "uint w = int ?i" by (simp flip: i)
  have ok1: "disk_ok (dm\<lparr>meta_data := m1\<rparr>)" using ok m1(2) by (rule disk_ok_metaI)
  obtain m2 w2 where m2: "meta_add (dm\<lparr>meta_data := m1\<rparr>) 0 1 = Some (dm\<lparr>meta_data := m2\<rparr>)" "length m2 = PAGE_SIZE"
    "MACH_READ_UINT32 m1 0 = Some w2" "MACH_READ_UINT32 m2 0 = Some (w2 + 1)"
    "\<And>o'. o' + 4 \<le> 0 \<or> 0 + 4 \<le> o' \<Longrightarrow> MACH_READ_UINT32 m2 o' = MACH_READ_UINT32 m1 o'"
    by (rule meta_addE[OF ok1, of 0 1]) (auto simp: PAGE_SIZE_def)
  have ok2: "disk_ok (dm\<lparr>meta_data := m2\<rparr>)" using ok m2(2) by (rule disk_ok_metaI)
  have "8 + 4 * ?i + 4 \<le> PAGE_SIZE" using room by (simp add: PAGE_SIZE_def MAX_EXTENTS_def)
  then obtain m3 where m3: "meta_add (dm\<lparr>meta_data := m2\<rparr>) (8 + 4 * ?i) 1 = Some (dm\<lparr>meta_data := m3\<rparr>)"
    "length m3 = PAGE_SIZE"
    "\<And>o'. o' + 4 \<le> 8 + 4 * ?i \<or> 8 + 4 * ?i + 4 \<le> o' \<Longrightarrow> MACH_READ_UINT32 m3 o' = MACH_READ_UINT32 m2 o'"
    by (rule meta_addE[OF ok2, of "8 + 4 * ?i" 1]) auto
  have ok3: "disk_ok (dm\<lparr>meta_data := m3\<rparr>)" using ok m3(2) by (rule disk_ok_metaI)
  let ?d4 = "WritePhysicalPage (dm\<lparr>meta_data := m3\<rparr>) (int (bm_phys ?i)) (page_of_bitmap bm)"
  let ?d5 = "WritePhysicalPage ?d4 (int 0) m3"
  note w4 = WritePhysicalPage_ok[OF ok3 bm_phys_ok[OF room] length_page_of_bitmap[OF bm(2)]]
  have p0: "phys_ok 0" by (simp add: phys_ok_def)
  note w5 = WritePhysicalPage_ok[OF w4(1) p0 m3(2)]
  have range: "int32_range (int (?i * BITMAP_SIZE))"
    using room by (simp add: int32_range_def MAX_EXTENTS_def BITMAP_SIZE_eq)
  have old: "MACH_READ_UINT32 (meta_data dm) 0 = Some w2"
    using m1(5)[of 0] m2(3) by simp
  have ext: "MACH_READ_UINT32 m3 4 = Some (w + 1)" and cnt: "MACH_READ_UINT32 m3 0 = Some (w2 + 1)"
    using m1 m2 m3(3)[of 4] m3(3)[of 0] by simp_all
  show thesis
  proof
    show "new_extent dm = Some (?d5, int (?i * BITMAP_SIZE))"
      using m1 m2(1) m3(1) bm(1) i iu room to_int32_id[OF range] w4(3)
      by (simp add: new_extent_def GetExtentNums_def bitmap_page_id_eq META_PAGE_ID_def)
    show "alloc_effect dm ?d5 ?i bm"
      using w4 w5 cnt old by (simp add: alloc_effect_def GetAllocatedPages_def)
    show "extents ?d5 = Suc ?i"
      using w4(3) w5(3) ext i room by (simp add: extents_def GetExtentNums_def unat_word_ariths MAX_EXTENTS_def)
    show "MACH_READ_UINT32 (phys_page ?d5 0) 4 = GetExtentNums ?d5"
      using w4(3) w5(2,3) by (simp add: GetExtentNums_def)
  qed (rule bm(3))
qed

lemma alloc_effect_used:
  assumes "alloc_effect dm dm' i bm" and "i < MAX_EXTENTS"
  shows "ext_bitmap dm' j = (if j = i then bm else ext_bitmap dm j)"
  using assms by (simp add: alloc_effect_def ext_bitmap_def bm_phys_inj)

lemma alloc_effect_lpage: "alloc_effect dm dm' i bm \<Longrightarrow> lpage dm' l = lpage dm l"
  by (simp add: alloc_effect_def lpage_def data_neq_bm)

lemma ext_wf: "bitmap_wf PAGE_SIZE (ext_bitmap dm i)"
  by (simp add: ext_bitmap_def bitmap_wf_page)

lemma logical_split: "l < n * BITMAP_SIZE \<Longrightarrow> l div BITMAP_SIZE < n \<and> l mod BITMAP_SIZE < BITMAP_SIZE"
  by (simp add: div_less_iff_less_mult)

lemma full_extents_used:
  assumes "\<forall>i < n. BitmapPage_AllocatePage PAGE_SIZE (ext_bitmap dm i) = None" and "n \<le> extents dm"
    and "l < n * BITMAP_SIZE"
  shows "l \<in> disk_used dm"
proof -
  from assms(3) have d: "l div BITMAP_SIZE < n" "l mod BITMAP_SIZE < BITMAP_SIZE"
    using logical_split by blast+
  with assms(1) have "used_pages PAGE_SIZE (ext_bitmap dm (l div BITMAP_SIZE)) = {..<BITMAP_SIZE}"
    using alloc_None_used[OF ext_wf] by (simp add: BITMAP_SIZE_def)
  moreover have "l < extents dm * BITMAP_SIZE"
    using assms(2,3) by (meson less_le_trans mult_le_mono1)
  ultimately show ?thesis using d by (simp add: disk_used_def)
qed

text \<open>
  The least extent with a free page, if any: the extents before it are full.
\<close>

lemma first_free_extent:
  obtains (full) "\<forall>i < n. BitmapPage_AllocatePage PAGE_SIZE (ext_bitmap dm i) = None"
  | (hit) i bm k where "i < n" and "BitmapPage_AllocatePage PAGE_SIZE (ext_bitmap dm i) = Some (bm, k)"
    and "\<forall>j < i. BitmapPage_AllocatePage PAGE_SIZE (ext_bitmap dm j) = None"
proof (cases "\<forall>i < n. BitmapPage_AllocatePage PAGE_SIZE (ext_bitmap dm i) = None")
  case True
  then show thesis by (rule full)
next
  case False
  then obtain i where i: "i < n" "BitmapPage_AllocatePage PAGE_SIZE (ext_bitmap dm i) \<noteq> None"
    and least: "\<forall>j < i. \<not> (j < n \<and> BitmapPage_AllocatePage PAGE_SIZE (ext_bitmap dm j) \<noteq> None)"
    using exists_least_iff[of "\<lambda>i. i < n \<and> BitmapPage_AllocatePage PAGE_SIZE (ext_bitmap dm i) \<noteq> None"]
    by blast
  then show thesis using hit[of i] by fastforce
qed

lemma used_after_hit:
  assumes eff: "alloc_effect dm dm' i bm" and i: "i < extents dm" "extents dm' = extents dm" "i < MAX_EXTENTS"
    and a: "BitmapPage_AllocatePage PAGE_SIZE (ext_bitmap dm i) = Some (bm, k)"
  shows "disk_used dm' = insert (k + i * BITMAP_SIZE) (disk_used dm)"
proof -
  note al = alloc_Some_used[OF ext_wf a]
  have k: "k < BITMAP_SIZE" using al by (simp add: BITMAP_SIZE_def)
  have id: "l = k + i * BITMAP_SIZE \<longleftrightarrow> l div BITMAP_SIZE = i \<and> l mod BITMAP_SIZE = k" for l
    using k slot_split[OF k, of i] div_mult_mod_eq[of l BITMAP_SIZE] by (auto simp: add.commute)
  have "k + i * BITMAP_SIZE < extents dm * BITMAP_SIZE"
  proof -
    have "k + i * BITMAP_SIZE < Suc i * BITMAP_SIZE" using k by simp
    also have "\<dots> \<le> extents dm * BITMAP_SIZE" using i(1) by (metis Suc_leI mult_le_mono1)
    finally show ?thesis .
  qed
  then show ?thesis
    using i(2) al id alloc_effect_used[OF eff i(3)] by (auto simp: disk_used_def)
qed

lemma used_after_new:
  assumes eff: "alloc_effect dm dm' (extents dm) bm" and e: "extents dm' = Suc (extents dm)"
    and room: "extents dm < MAX_EXTENTS" and u: "used_pages PAGE_SIZE bm = {0}"
  shows "disk_used dm' = insert (extents dm * BITMAP_SIZE) (disk_used dm)"
proof -
  have d: "l div BITMAP_SIZE = extents dm \<and> l mod BITMAP_SIZE = 0 \<longleftrightarrow> l = extents dm * BITMAP_SIZE" for l
    by (metis add.right_neutral div_mult_mod_eq div_mult_self_is_m BITMAP_SIZE_pos mod_mult_self2_is_0)
  have lt: "l < n * BITMAP_SIZE \<longleftrightarrow> l div BITMAP_SIZE < n" for l n
    by (simp add: div_less_iff_less_mult)
  have "l \<in> disk_used dm' \<longleftrightarrow> l = extents dm * BITMAP_SIZE \<or> l \<in> disk_used dm" for l
  proof (cases "l div BITMAP_SIZE = extents dm")
    case True
    then have "l \<in> disk_used dm' \<longleftrightarrow> l mod BITMAP_SIZE = 0"
      unfolding disk_used_def mem_Collect_eq e lt alloc_effect_used[OF eff room] by (simp add: u)
    moreover have "l \<notin> disk_used dm"
      unfolding disk_used_def mem_Collect_eq lt using True by simp
    ultimately show ?thesis using d[of l] True by metis
  next
    case False
    then show ?thesis
      unfolding disk_used_def mem_Collect_eq e lt alloc_effect_used[OF eff room] using d[of l] by auto
  qed
  then show ?thesis by blast
qed

text \<open>What an allocation of page \<open>l\<close> promises.\<close>

definition allocates :: "disk_manager \<Rightarrow> disk_manager \<Rightarrow> nat \<Rightarrow> bool" where
  "allocates dm dm' l \<longleftrightarrow> AllocatePage dm = Some (dm', int l) \<and> disk_wf dm' \<and>
     l < MAX_EXTENTS * BITMAP_SIZE \<and> l \<notin> disk_used dm \<and> {..<l} \<subseteq> disk_used dm \<and>
     disk_used dm' = insert l (disk_used dm) \<and> (\<forall>k. lpage dm' k = lpage dm k) \<and>
     GetAllocatedPages dm' = map_option (\<lambda>w. w + 1) (GetAllocatedPages dm)"

lemma GetExtentNums_ok:
  assumes "disk_ok dm"
  obtains n where "GetExtentNums dm = Some n" and "unat n = extents dm"
  using MACH_READ_UINT32_Some[of 4 "meta_data dm"] assms
  by (auto simp: GetExtentNums_def extents_def disk_ok_def PAGE_SIZE_def)

lemma AllocatePage_new:
  assumes wf: "disk_wf dm" and room: "extents dm < MAX_EXTENTS"
    and full: "\<forall>i < extents dm. BitmapPage_AllocatePage PAGE_SIZE (ext_bitmap dm i) = None"
  shows "\<exists>dm'. allocates dm dm' (extents dm * BITMAP_SIZE)"
proof -
  have ok: "disk_ok dm" using wf by (simp add: disk_wf_def)
  obtain n where n: "GetExtentNums dm = Some n" "unat n = extents dm"
    using ok by (rule GetExtentNums_ok)
  obtain dm' bm where ne: "new_extent dm = Some (dm', int (extents dm * BITMAP_SIZE))"
    "alloc_effect dm dm' (extents dm) bm" "used_pages PAGE_SIZE bm = {0}"
    "extents dm' = Suc (extents dm)" "MACH_READ_UINT32 (phys_page dm' 0) 4 = GetExtentNums dm'"
    by (rule new_extent_ok[OF wf room])
  have "set [0..<unat n] \<subseteq> {..<MAX_EXTENTS}" using n room by auto
  then have "scan_extents dm [0..<unat n] = Some (Inr dm)"
    using scan_extents_full[OF ok, of "[0..<unat n]" "[]"] full n by auto
  then have "AllocatePage dm = Some (dm', int (extents dm * BITMAP_SIZE))"
    by (simp add: AllocatePage_def n ne(1))
  moreover have "{..<extents dm * BITMAP_SIZE} \<subseteq> disk_used dm"
    using full_extents_used[OF full] by auto
  ultimately have "allocates dm dm' (extents dm * BITMAP_SIZE)"
    using ne used_after_new[OF ne(2,4) room ne(3)] room alloc_effect_lpage[OF ne(2)]
    by (auto simp: allocates_def disk_wf_def alloc_effect_def disk_used_def)
  then show ?thesis ..
qed

lemma used_below_hit:
  assumes a: "BitmapPage_AllocatePage PAGE_SIZE (ext_bitmap dm i) = Some (bm, k)" and i: "i < extents dm"
    and below: "\<forall>j < i. BitmapPage_AllocatePage PAGE_SIZE (ext_bitmap dm j) = None"
    and l: "l < k + i * BITMAP_SIZE"
  shows "l \<in> disk_used dm"
proof (cases "l < i * BITMAP_SIZE")
  case True
  then show ?thesis using full_extents_used[OF below] i by simp
next
  case False
  note al = alloc_Some_used[OF ext_wf a]
  obtain r where "l = i * BITMAP_SIZE + r" using False by (metis le_Suc_ex not_less)
  moreover have "k < BITMAP_SIZE" using al by (simp add: BITMAP_SIZE_def)
  ultimately have "l div BITMAP_SIZE = i" "l mod BITMAP_SIZE < k" using l by auto
  with al i show ?thesis by (auto simp: disk_used_def div_less_iff_less_mult[symmetric])
qed

lemma AllocatePage_hit:
  assumes wf: "disk_wf dm" and i: "i < extents dm"
    and a: "BitmapPage_AllocatePage PAGE_SIZE (ext_bitmap dm i) = Some (bm, k)"
    and below: "\<forall>j < i. BitmapPage_AllocatePage PAGE_SIZE (ext_bitmap dm j) = None"
  shows "\<exists>dm'. allocates dm dm' (k + i * BITMAP_SIZE)"
proof -
  have ok: "disk_ok dm" and im: "i < MAX_EXTENTS" using wf i by (auto simp: disk_wf_def)
  obtain n where n: "GetExtentNums dm = Some n" "unat n = extents dm"
    using ok by (rule GetExtentNums_ok)
  have "[0..<unat n] = [0..<i] @ i # [Suc i..<unat n]"
    using i n upt_add_eq_append[of 0 i "unat n - i"] by (simp add: upt_conv_Cons)
  moreover have "scan_extents dm ([0..<i] @ i # [Suc i..<unat n]) = scan_extents dm (i # [Suc i..<unat n])"
    by (rule scan_extents_full[OF ok]) (use below im in auto)
  moreover obtain dm' where dm': "scan_extents dm (i # [Suc i..<unat n]) = Some (Inl (dm', int (k + i * BITMAP_SIZE)))"
    "alloc_effect dm dm' i bm" "GetExtentNums dm' = GetExtentNums dm" "phys_page dm' 0 = phys_page dm 0"
    using scan_extents_hit[OF ok im a] by blast
  ultimately have al: "AllocatePage dm = Some (dm', int (k + i * BITMAP_SIZE))"
    by (simp add: AllocatePage_def n)
  have e: "extents dm' = extents dm" using dm'(3) by (simp add: extents_def)
  note al' = alloc_Some_used[OF ext_wf a]
  have k: "k < BITMAP_SIZE" using al' by (simp add: BITMAP_SIZE_def)
  have "k + i * BITMAP_SIZE < MAX_EXTENTS * BITMAP_SIZE"
    using k im by (simp add: MAX_EXTENTS_def BITMAP_SIZE_eq)
  moreover have "k + i * BITMAP_SIZE \<notin> disk_used dm" using al' k by (simp add: disk_used_def)
  ultimately have "allocates dm dm' (k + i * BITMAP_SIZE)"
    using wf al used_below_hit[OF a i below] used_after_hit[OF dm'(2) i e im a] e dm'
      alloc_effect_lpage[OF dm'(2)]
    by (auto simp: allocates_def disk_wf_def alloc_effect_def)
  then show ?thesis ..
qed

lemma AllocatePage_allocates:
  assumes wf: "disk_wf dm" and free: "\<exists>l < MAX_EXTENTS * BITMAP_SIZE. l \<notin> disk_used dm"
  shows "\<exists>dm' l. allocates dm dm' l"
proof (cases rule: first_free_extent[of "extents dm" dm])
  case full
  have "extents dm \<le> MAX_EXTENTS" using wf by (simp add: disk_wf_def)
  then have "extents dm < MAX_EXTENTS"
    using free full_extents_used[OF full] by (metis le_neq_implies_less order_refl)
  then show ?thesis using AllocatePage_new[OF wf _ full] by blast
next
  case (hit i bm k)
  then show ?thesis using AllocatePage_hit[OF wf] by blast
qed

section \<open>Deallocation, the free test and reopening\<close>

lemma index_of_logical:
  assumes "n < MAX_EXTENTS * BITMAP_SIZE"
  shows "to_uint64 (int n) = n" and "to_uint32 (int (n div BITMAP_SIZE)) = n div BITMAP_SIZE"
    and "n div BITMAP_SIZE < MAX_EXTENTS"
  using assms by (auto simp: MAX_EXTENTS_def BITMAP_SIZE_eq intro: to_uint32_of_nat)

lemma IsPageFree_ok:
  assumes "disk_wf dm" and "n < MAX_EXTENTS * BITMAP_SIZE"
  shows "DiskManager_IsPageFree dm (int n) = Some (n \<notin> disk_used dm, dm)"
proof -
  have ok: "disk_ok dm" using assms(1) by (simp add: disk_wf_def)
  obtain w where w: "GetExtentNums dm = Some w" "unat w = extents dm"
    using ok by (rule GetExtentNums_ok)
  note ix = index_of_logical[OF assms(2)]
  have "n mod BITMAP_SIZE < GetMaxSupportedSize PAGE_SIZE" by (simp flip: BITMAP_SIZE_def)
  then show ?thesis
    using ix w ok
    by (simp add: DiskManager_IsPageFree_def bitmap_page_id_eq ReadPhysicalPage_ok bm_phys_ok
        is_free_used disk_used_def div_less_iff_less_mult flip: ext_bitmap_def)
qed

text \<open>
  \<open>DeAllocatePage\<close> clears the bit in its local copy of the bitmap page and never writes
  that copy back, so the bitmaps on disk are unchanged while the counters go down.
\<close>

lemma DeAllocatePage_eq:
  assumes "disk_ok dm" and "n < MAX_EXTENTS * BITMAP_SIZE"
  shows "DeAllocatePage dm (int n) = do {
     dm' \<leftarrow> (if n \<in> disk_used dm
             then do { dm2 \<leftarrow> meta_add dm 0 (-1); meta_add dm2 (8 + 4 * (n div BITMAP_SIZE)) (-1) }
             else Some dm);
     Some (WritePhysicalPage dm' META_PAGE_ID (meta_data dm')) }"
proof -
  obtain w where w: "GetExtentNums dm = Some w" "unat w = extents dm"
    using assms(1) by (rule GetExtentNums_ok)
  have "n div BITMAP_SIZE < extents dm \<and>
      fst (BitmapPage_DeAllocatePage PAGE_SIZE (ext_bitmap dm (n div BITMAP_SIZE)) (n mod BITMAP_SIZE))
      \<longleftrightarrow> n \<in> disk_used dm"
    using dealloc_used(1)[OF ext_wf] by (simp add: disk_used_def div_less_iff_less_mult)
  then show ?thesis
    using w index_of_logical[OF assms(2)] assms(1)
    by (auto simp: DeAllocatePage_def Let_def bitmap_page_id_eq ReadPhysicalPage_ok bm_phys_ok
        simp flip: ext_bitmap_def)
qed

lemma write_meta_ok:
  assumes "disk_wf dm" and "length m = PAGE_SIZE" and "MACH_READ_UINT32 m 4 = GetExtentNums dm"
  shows "\<exists>dm'. WritePhysicalPage (dm\<lparr>meta_data := m\<rparr>) META_PAGE_ID m = dm' \<and> disk_wf dm' \<and>
      extents dm' = extents dm \<and> (\<forall>p. p \<noteq> 0 \<longrightarrow> phys_page dm' p = phys_page dm p) \<and>
      GetAllocatedPages dm' = MACH_READ_UINT32 m 0"
proof -
  have ok: "disk_ok dm" and p0: "phys_ok 0" using assms(1) by (simp_all add: disk_wf_def phys_ok_def)
  show ?thesis
    using WritePhysicalPage_ok[OF disk_ok_metaI[OF ok assms(2)] p0 assms(2)] assms(1,3)
    by (auto simp: META_PAGE_ID_def disk_wf_def extents_def GetExtentNums_def GetAllocatedPages_def)
qed

lemma DeAllocatePage_ok:
  assumes "disk_wf dm" and "n < MAX_EXTENTS * BITMAP_SIZE"
  shows "\<exists>dm'. DeAllocatePage dm (int n) = Some dm' \<and> disk_wf dm' \<and> extents dm' = extents dm \<and>
    (\<forall>p. p \<noteq> 0 \<longrightarrow> phys_page dm' p = phys_page dm p) \<and>
    GetAllocatedPages dm' = map_option (\<lambda>w. if n \<in> disk_used dm then w - 1 else w) (GetAllocatedPages dm)"
proof (cases "n \<in> disk_used dm")
  case False
  have ok: "disk_ok dm" and len: "length (meta_data dm) = PAGE_SIZE"
    using assms(1) by (simp_all add: disk_wf_def disk_ok_def)
  show ?thesis
    using write_meta_ok[OF assms(1) len] False
    by (simp add: DeAllocatePage_eq[OF ok assms(2)] GetExtentNums_def GetAllocatedPages_def option.map_ident)
next
  case True
  have ok: "disk_ok dm" using assms(1) by (simp add: disk_wf_def)
  let ?i = "n div BITMAP_SIZE"
  obtain m1 w1 where m1: "meta_add dm 0 (- 1) = Some (dm\<lparr>meta_data := m1\<rparr>)" "length m1 = PAGE_SIZE"
    "MACH_READ_UINT32 (meta_data dm) 0 = Some w1" "MACH_READ_UINT32 m1 0 = Some (w1 + - 1)"
    "\<And>o'. o' + 4 \<le> 0 \<or> 0 + 4 \<le> o' \<Longrightarrow> MACH_READ_UINT32 m1 o' = MACH_READ_UINT32 (meta_data dm) o'"
    by (rule meta_addE[OF ok, of 0 "- 1"]) (auto simp: PAGE_SIZE_def)
  have "8 + 4 * ?i + 4 \<le> PAGE_SIZE"
    using index_of_logical(3)[OF assms(2)] by (simp add: PAGE_SIZE_def MAX_EXTENTS_def)
  then obtain m2 where m2: "meta_add (dm\<lparr>meta_data := m1\<rparr>) (8 + 4 * ?i) (- 1) = Some (dm\<lparr>meta_data := m2\<rparr>)"
    "length m2 = PAGE_SIZE"
    "\<And>o'. o' + 4 \<le> 8 + 4 * ?i \<or> 8 + 4 * ?i + 4 \<le> o' \<Longrightarrow> MACH_READ_UINT32 m2 o' = MACH_READ_UINT32 m1 o'"
    by (rule meta_addE[OF disk_ok_metaI[OF ok m1(2)], of "8 + 4 * ?i" "- 1"]) auto
  have "MACH_READ_UINT32 m2 4 = GetExtentNums dm" and "MACH_READ_UINT32 m2 0 = Some (w1 - 1)"
    using m1 m2(3)[of 4] m2(3)[of 0] by (simp_all add: GetExtentNums_def)
  with write_meta_ok[OF assms(1) m2(2)] show ?thesis
    using True m1(1,3) m2(1) by (simp add: DeAllocatePage_eq[OF ok assms(2)] GetAllocatedPages_def)
qed

lemma DiskManager_new_ok:
  assumes "PAGE_SIZE dvd length f" and "length f < 2 ^ 31"
  shows "\<exists>dm. DiskManager_new (Some f) = Some dm \<and> disk_ok dm \<and> db_file dm = f \<and>
    meta_data dm = phys_page dm 0"
proof -
  let ?d = "\<lparr>db_file = f, db_io_fail = False, closed = False, meta_data = replicate PAGE_SIZE 0\<rparr>"
  let ?e = "\<lparr>db_file = f, db_io_fail = False, closed = False, meta_data = []\<rparr>"
  have pe: "phys_page ?e = phys_page ?d" by (simp add: phys_page_def fun_eq_iff)
  have "ReadPhysicalPage ?d (int 0) = Some (phys_page ?d 0, ?d)"
    by (rule ReadPhysicalPage_ok) (use assms in \<open>auto simp: disk_ok_def phys_ok_def\<close>)
  then have "ReadPhysicalPage ?e 0 = Some (phys_page ?e 0, ?e)"
    unfolding pe by (simp add: ReadPhysicalPage_def GetFileSize_def Let_def split: if_splits)
  then show ?thesis
    using assms by (auto simp: DiskManager_new_def META_PAGE_ID_def disk_ok_def) (simp add: phys_page_def)
qed

lemma reopen_ok:
  assumes "disk_wf dm"
  shows "\<exists>dm2. DiskManager_new (Some (db_file dm)) = Some dm2 \<and> disk_wf dm2 \<and>
    disk_used dm2 = disk_used dm \<and> (\<forall>k. lpage dm2 k = lpage dm k)"
proof -
  have f: "PAGE_SIZE dvd length (db_file dm)" "length (db_file dm) < 2 ^ 31"
    using assms by (auto simp: disk_wf_def disk_ok_def)
  from DiskManager_new_ok[OF f] obtain dm2 where d: "DiskManager_new (Some (db_file dm)) = Some dm2"
    "disk_ok dm2" "db_file dm2 = db_file dm" "meta_data dm2 = phys_page dm2 0" by blast
  have pp: "phys_page dm2 = phys_page dm" using d(3) by (simp add: phys_page_def fun_eq_iff)
  have g: "GetExtentNums dm2 = GetExtentNums dm"
    using assms d(4) pp by (simp add: disk_wf_def GetExtentNums_def)
  then have e: "extents dm2 = extents dm" by (simp add: extents_def)
  have "disk_wf dm2" using assms d(2) e g pp by (simp add: disk_wf_def)
  moreover have "disk_used dm2 = disk_used dm" by (simp add: disk_used_def e ext_bitmap_def pp)
  ultimately show ?thesis using d(1) pp by (simp add: lpage_def)
qed

text \<open>A database file that does not exist yet.\<close>

definition empty_disk :: disk_manager where
  "empty_disk = \<lparr>db_file = [], db_io_fail = False, closed = False, meta_data = replicate PAGE_SIZE 0\<rparr>"

lemma read_replicate_0: "off + 4 \<le> n \<Longrightarrow> MACH_READ_UINT32 (replicate n 0) off = Some 0"
  by (simp add: MACH_READ_UINT32_def mem_read_def of_le32_def numeral_eq_Suc)

lemma phys_page_empty: "db_file dm = [] \<Longrightarrow> phys_page dm p = replicate PAGE_SIZE 0"
  by (auto simp: phys_page_def byte_at_def intro!: nth_equalityI)

lemma DiskManager_new_empty: "DiskManager_new None = Some empty_disk"
  by (simp add: DiskManager_new_def ReadPhysicalPage_def GetFileSize_def META_PAGE_ID_def
      empty_disk_def to_int32_def int32_range_def)

lemma extents_empty: "extents empty_disk = 0"
  by (simp add: extents_def GetExtentNums_def empty_disk_def read_replicate_0 PAGE_SIZE_def)

lemma disk_wf_empty: "disk_wf empty_disk"
  by (simp add: disk_wf_def extents_empty phys_page_empty disk_ok_def)
    (simp add: empty_disk_def GetExtentNums_def phys_page_empty)

lemma disk_used_empty: "disk_used empty_disk = {}"
  by (simp add: disk_used_def extents_empty)

lemma empty_disk_free: "\<exists>l < MAX_EXTENTS * BITMAP_SIZE. l \<notin> disk_used empty_disk"
  by (rule exI[of _ 0]) (simp add: disk_used_empty MAX_EXTENTS_def BITMAP_SIZE_eq)

section \<open>Properties\<close>

text \<open>The physical pages of the file never overlap: two different logical pages map to
  different physical pages, and no logical page maps to the meta page or to the bitmap page of
  any extent, for every page id a 32-bit offset can reach.\<close>

lemma disk_layout_disjoint:
  assumes "logical_ok a" and "logical_ok b" and "i < MAX_EXTENTS"
  shows "(MapPageId a = MapPageId b \<longleftrightarrow> a = b) \<and> MapPageId a \<noteq> META_PAGE_ID \<and>
    MapPageId a \<noteq> bitmap_page_id i \<and> bitmap_page_id i \<noteq> META_PAGE_ID"
proof -
  obtain m n where a: "a = int m" "m < MAX_EXTENTS * BITMAP_SIZE" and b: "b = int n" "n < MAX_EXTENTS * BITMAP_SIZE"
    using assms(1,2) by (auto elim!: logical_okE)
  then show ?thesis
    using assms(3) data_phys_inj[of m n] data_neq_bm[of m i] phys_pos(1)[of m] phys_pos(2)[of i]
    by (auto simp: MapPageId_eq bitmap_page_id_eq META_PAGE_ID_def simp del: phys_pos)
qed

text \<open>C4: a page read back after a write is what was written, the write succeeds, and every
  other logical page keeps its content.\<close>

theorem disk_read_after_write:
  assumes "disk_ok dm" and "logical_ok l" and "length d = PAGE_SIZE" and "logical_ok k"
  shows "\<exists>dm'. WritePage dm l d = Some dm' \<and> disk_ok dm' \<and>
    ReadPage dm' k = Some (if k = l then d else lpage dm k, dm')"
  by (rule disk.read_after_write[OF assms])

theorem disk_read_after_write_witness:
  "\<exists>dm'. WritePage empty_disk 3 (replicate PAGE_SIZE 7) = Some dm' \<and> disk_ok dm' \<and>
    ReadPage dm' 3 = Some (if (3::int) = 3 then replicate PAGE_SIZE 7 else lpage empty_disk 3, dm')"
  by (rule disk_read_after_write)
    (simp_all add: disk_wf_empty[unfolded disk_wf_def] logical_ok_def MAX_EXTENTS_def BITMAP_SIZE_eq)

text \<open>C30: as long as some of the sixteen addressable extents has a free page,
  \<open>AllocatePage\<close> returns the least free logical page id, marks exactly that page as used,
  counts it, and leaves the content of every logical page alone.\<close>

theorem disk_allocate_least:
  assumes "disk_wf dm" and "\<exists>l < MAX_EXTENTS * BITMAP_SIZE. l \<notin> disk_used dm"
  shows "\<exists>dm' l. AllocatePage dm = Some (dm', int l) \<and> disk_wf dm' \<and> l \<notin> disk_used dm \<and>
    (\<forall>j < l. j \<in> disk_used dm) \<and> disk_used dm' = insert l (disk_used dm) \<and>
    (\<forall>k. lpage dm' k = lpage dm k) \<and>
    GetAllocatedPages dm' = map_option (\<lambda>w. w + 1) (GetAllocatedPages dm)"
  using AllocatePage_allocates[OF assms] by (force simp: allocates_def)

theorem disk_allocate_least_witness:
  "\<exists>dm' l. AllocatePage empty_disk = Some (dm', int l) \<and> disk_wf dm' \<and> l \<notin> disk_used empty_disk \<and>
    (\<forall>j < l. j \<in> disk_used empty_disk) \<and> disk_used dm' = insert l (disk_used empty_disk) \<and>
    (\<forall>k. lpage dm' k = lpage empty_disk k) \<and>
    GetAllocatedPages dm' = map_option (\<lambda>w. w + 1) (GetAllocatedPages empty_disk)"
  by (rule disk_allocate_least)
    (rule disk_wf_empty empty_disk_free)+

text \<open>C32: an allocation is durable: opening the database file again after \<open>AllocatePage\<close>
  gives a disk manager in which the page is still allocated and all page contents are kept.\<close>

theorem disk_allocation_survives_reopen:
  assumes "disk_wf dm" and "\<exists>l < MAX_EXTENTS * BITMAP_SIZE. l \<notin> disk_used dm"
  shows "\<exists>dm' l dm2. AllocatePage dm = Some (dm', int l) \<and>
    DiskManager_new (Some (db_file dm')) = Some dm2 \<and> disk_wf dm2 \<and>
    disk_used dm2 = insert l (disk_used dm) \<and> (\<forall>k. lpage dm2 k = lpage dm k)"
proof -
  obtain dm' l where a: "allocates dm dm' l" using AllocatePage_allocates[OF assms] by blast
  then have "disk_wf dm'" by (simp add: allocates_def)
  from reopen_ok[OF this] a show ?thesis by (auto simp: allocates_def)
qed

theorem disk_allocation_survives_reopen_witness:
  "\<exists>dm' l dm2. AllocatePage empty_disk = Some (dm', int l) \<and>
    DiskManager_new (Some (db_file dm')) = Some dm2 \<and> disk_wf dm2 \<and>
    disk_used dm2 = insert l (disk_used empty_disk) \<and> (\<forall>k. lpage dm2 k = lpage empty_disk k)"
  by (rule disk_allocation_survives_reopen)
    (rule disk_wf_empty empty_disk_free)+

text \<open>C39: \<open>DeAllocatePage\<close> does not free the page: the bitmap page is not written back, so
  the page still counts as allocated and is never handed out again, while the allocation
  counter is decremented (once more on every repeated call).\<close>

theorem disk_deallocate_leaks:
  assumes "disk_wf dm" and "n \<in> disk_used dm"
  shows "\<exists>dm'. DeAllocatePage dm (int n) = Some dm' \<and> disk_wf dm' \<and>
    DiskManager_IsPageFree dm' (int n) = Some (False, dm') \<and> disk_used dm' = disk_used dm \<and>
    GetAllocatedPages dm' = map_option (\<lambda>w. w - 1) (GetAllocatedPages dm)"
proof -
  have "extents dm * BITMAP_SIZE \<le> MAX_EXTENTS * BITMAP_SIZE"
    using assms(1) by (simp add: disk_wf_def)
  then have n: "n < MAX_EXTENTS * BITMAP_SIZE"
    using assms(2) unfolding disk_used_def by (auto elim: less_le_trans)
  obtain dm' where d: "DeAllocatePage dm (int n) = Some dm'" "disk_wf dm'" "extents dm' = extents dm"
    "\<forall>p. p \<noteq> 0 \<longrightarrow> phys_page dm' p = phys_page dm p"
    "GetAllocatedPages dm' = map_option (\<lambda>w. if n \<in> disk_used dm then w - 1 else w) (GetAllocatedPages dm)"
    using DeAllocatePage_ok[OF assms(1) n] by blast
  have u: "disk_used dm' = disk_used dm" using d(3,4) by (simp add: disk_used_def ext_bitmap_def)
  show ?thesis using d u assms(2) IsPageFree_ok[OF d(2) n] by simp
qed

lemma one_page_disk: "\<exists>dm. disk_wf dm \<and> 0 \<in> disk_used dm"
proof -
  from AllocatePage_allocates[OF disk_wf_empty empty_disk_free] obtain dm l where a: "allocates empty_disk dm l"
    by blast
  then have "{..<l} \<subseteq> {}" by (simp add: allocates_def disk_used_empty)
  then have "l = 0" by auto
  with a show ?thesis by (auto simp: allocates_def)
qed

theorem disk_deallocate_leaks_witness:
  "\<exists>dm. (disk_wf dm \<and> 0 \<in> disk_used dm) \<and> (\<exists>dm'. DeAllocatePage dm (int 0) = Some dm' \<and> disk_wf dm' \<and>
    DiskManager_IsPageFree dm' (int 0) = Some (False, dm') \<and> disk_used dm' = disk_used dm \<and>
    GetAllocatedPages dm' = map_option (\<lambda>w. w - 1) (GetAllocatedPages dm))"
proof -
  obtain dm where "disk_wf dm" and "0 \<in> disk_used dm" using one_page_disk by blast
  with disk_deallocate_leaks[OF this] show ?thesis by blast
qed

end
