(* ===== verification/Lru_Replacer.thy ===== *)
theory Lru_Replacer
  imports MiniSQL_Prelude
begin

text \<open>
  The replacement policy (\<^verbatim>\<open>buffer/lru_replacer.cpp\<close>, \<^verbatim>\<open>include/buffer/replacer.h\<close>).
  \<^verbatim>\<open>std::list\<close> gives every element a node of its own and \<^verbatim>\<open>map_\<close> stores iterators to
  nodes, so the list holds pairs of a node number and a frame id, and \<open>map_it\<close> maps a frame
  to a node number.  Erasing a dead iterator, or reading the back of an empty list, is
  undefined behaviour: \<^term>\<open>None\<close>.  \<^verbatim>\<open>size_t\<close> counters are 64-bit words.  The abstract
  view of a replacer is the list of its frames, most recently unpinned first; the locale
  \<open>lru_policy\<close> states the contract in those terms.
\<close>

section \<open>Model\<close>

record lru_replacer =
  max_size :: "64 word"
  in_size :: "64 word"
  lru_list :: "(nat \<times> frame_id_t) list"
  map_it :: "frame_id_t \<rightharpoonup> nat"
  next_node :: nat

definition LRUReplacer_new :: "64 word \<Rightarrow> lru_replacer" where
  "LRUReplacer_new num_pages =
     \<lparr>max_size = num_pages, in_size = 0, lru_list = [], map_it = Map.empty, next_node = 0\<rparr>"

definition list_erase :: "(nat \<times> frame_id_t) list \<Rightarrow> nat \<Rightarrow> (nat \<times> frame_id_t) list option" where
  "list_erase xs n = (if n \<in> fst ` set xs then Some (filter (\<lambda>x. fst x \<noteq> n) xs) else None)"

definition erase_frame :: "lru_replacer \<Rightarrow> frame_id_t \<Rightarrow> lru_replacer option" where
  "erase_frame r frame_id = do {
     node \<leftarrow> map_it r frame_id;
     xs \<leftarrow> list_erase (lru_list r) node;
     Some (r\<lparr>lru_list := xs, map_it := (map_it r)(frame_id := None), in_size := in_size r - 1\<rparr>) }"

text \<open>\<open>Victim\<close> returns the frame, or \<open>None\<close> inside the outer option for \<^verbatim>\<open>return false\<close>.\<close>

definition Victim :: "lru_replacer \<Rightarrow> (frame_id_t option \<times> lru_replacer) option" where
  "Victim r =
     (if in_size r = 0 then Some (None, r)
      else if lru_list r = [] then None
      else let frame_id = snd (last (lru_list r)) in
        do { r' \<leftarrow> erase_frame r frame_id; Some (Some frame_id, r') })"

definition Pin :: "lru_replacer \<Rightarrow> frame_id_t \<Rightarrow> lru_replacer option" where
  "Pin r frame_id = (if map_it r frame_id \<noteq> None then erase_frame r frame_id else Some r)"

definition Unpin :: "lru_replacer \<Rightarrow> frame_id_t \<Rightarrow> lru_replacer" where
  "Unpin r frame_id =
     (if map_it r frame_id \<noteq> None \<or> in_size r \<ge> max_size r then r
      else r\<lparr>lru_list := (next_node r, frame_id) # lru_list r,
             map_it := (map_it r)(frame_id \<mapsto> next_node r),
             next_node := Suc (next_node r),
             in_size := in_size r + 1\<rparr>)"

definition LRUReplacer_Size :: "lru_replacer \<Rightarrow> 64 word" where
  "LRUReplacer_Size r = in_size r"

section \<open>Invariant and abstraction\<close>

definition frames :: "lru_replacer \<Rightarrow> frame_id_t list" where
  "frames r = map snd (lru_list r)"

definition lru_wf :: "lru_replacer \<Rightarrow> bool" where
  "lru_wf r \<longleftrightarrow> distinct (map fst (lru_list r)) \<and> distinct (frames r) \<and>
     (\<forall>n f. (n, f) \<in> set (lru_list r) \<longleftrightarrow> map_it r f = Some n) \<and>
     (\<forall>n f. (n, f) \<in> set (lru_list r) \<longrightarrow> n < next_node r) \<and>
     unat (in_size r) = length (lru_list r) \<and> in_size r \<le> max_size r"

lemma frames_map_it: "lru_wf r \<Longrightarrow> f \<in> set (frames r) \<longleftrightarrow> map_it r f \<noteq> None"
  by (force simp: lru_wf_def frames_def)

lemma length_frames: "lru_wf r \<Longrightarrow> length (frames r) = unat (in_size r)"
  by (simp add: lru_wf_def frames_def)

lemma lru_wf_new: "lru_wf (LRUReplacer_new n)" "frames (LRUReplacer_new n) = []"
  by (simp_all add: lru_wf_def LRUReplacer_new_def frames_def)

lemma map_snd_filter_fst:
  assumes "distinct (map fst xs)" and "(n, f) \<in> set xs" and "distinct (map snd xs)"
  shows "map snd (filter (\<lambda>x. fst x \<noteq> n) xs) = filter (\<lambda>g. g \<noteq> f) (map snd xs)"
proof -
  have "fst x \<noteq> n \<longleftrightarrow> snd x \<noteq> f" if "x \<in> set xs" for x
    using assms that by (metis distinct_map inj_onD prod.collapse fst_conv snd_conv)
  then have "filter (\<lambda>x. fst x \<noteq> n) xs = filter (\<lambda>x. snd x \<noteq> f) xs"
    by (rule filter_cong[OF refl])
  then show ?thesis by (simp add: filter_map comp_def)
qed

lemma length_filter_neq:
  "distinct xs \<Longrightarrow> f \<in> set xs \<Longrightarrow> length (filter (\<lambda>g. g \<noteq> f) xs) = length xs - 1"
proof (induction xs)
  case (Cons a xs)
  show ?case
  proof (cases "a = f")
    case True
    with Cons.prems have "filter (\<lambda>g. g \<noteq> f) xs = xs" by (intro filter_True) auto
    with True show ?thesis by simp
  next
    case False
    with Cons show ?thesis by (cases xs) auto
  qed
qed simp

lemma erase_frame_ok:
  assumes wf: "lru_wf r" and f: "f \<in> set (frames r)"
  shows "\<exists>r'. erase_frame r f = Some r' \<and> lru_wf r' \<and> frames r' = filter (\<lambda>g. g \<noteq> f) (frames r) \<and>
    max_size r' = max_size r"
proof -
  from f wf obtain n where n: "map_it r f = Some n" "(n, f) \<in> set (lru_list r)"
    by (auto simp: lru_wf_def frames_def)
  let ?xs = "filter (\<lambda>x. fst x \<noteq> n) (lru_list r)"
  let ?r = "r\<lparr>lru_list := ?xs, map_it := (map_it r)(f := None), in_size := in_size r - 1\<rparr>"
  have e: "erase_frame r f = Some ?r"
    using n by (force simp: erase_frame_def list_erase_def image_iff)
  have d: "distinct (map fst (lru_list r))" "distinct (map snd (lru_list r))"
    using wf by (simp_all add: lru_wf_def frames_def)
  have fr: "frames ?r = filter (\<lambda>g. g \<noteq> f) (frames r)"
    using map_snd_filter_fst[OF d(1) n(2) d(2)] by (simp add: frames_def)
  have "length (frames ?r) = length (frames r) - 1"
    unfolding fr using d(2) f by (simp add: length_filter_neq frames_def[symmetric])
  moreover have pos: "unat (in_size r) > 0" using n(2) wf by (auto simp: lru_wf_def)
  then have m1: "unat (in_size r - 1) = unat (in_size r) - 1"
    by (simp add: unat_minus_one unat_gt_0)
  ultimately have len: "unat (in_size ?r) = length ?xs"
    using wf by (simp add: lru_wf_def frames_def)
  have "in_size r \<le> max_size r" using wf by (simp add: lru_wf_def)
  with m1 have le: "in_size r - 1 \<le> max_size r" unfolding word_le_nat_alt by linarith
  have "(m, g) \<in> set ?xs \<longleftrightarrow> map_it ?r g = Some m" for m g
    using wf n d by (auto simp: lru_wf_def) (metis eq_key_imp_eq_value option.inject)+
  then have "lru_wf ?r"
    using wf len le fr by (auto simp: lru_wf_def distinct_map_filter) blast
  with e fr show ?thesis by auto
qed

lemma filter_neq_last: "distinct xs \<Longrightarrow> xs \<noteq> [] \<Longrightarrow> filter (\<lambda>g. g \<noteq> last xs) xs = butlast xs"
proof -
  assume d: "distinct xs" and ne: "xs \<noteq> []"
  obtain ys y where xs: "xs = ys @ [y]" using ne by (metis rev_exhaust)
  with d have "filter (\<lambda>g. g \<noteq> y) ys = ys" by (intro filter_True) auto
  with xs show ?thesis by simp
qed

lemma Victim_empty: "lru_wf r \<Longrightarrow> frames r = [] \<Longrightarrow> Victim r = Some (None, r)"
  by (simp add: Victim_def lru_wf_def frames_def unat_eq_zero)

lemma Victim_ok:
  assumes wf: "lru_wf r" and ne: "frames r \<noteq> []"
  shows "\<exists>r'. Victim r = Some (Some (last (frames r)), r') \<and> lru_wf r' \<and>
    frames r' = butlast (frames r) \<and> max_size r' = max_size r"
proof -
  have d: "distinct (frames r)" using wf by (simp add: lru_wf_def)
  have l: "snd (last (lru_list r)) = last (frames r)" and nel: "lru_list r \<noteq> []"
    using ne by (auto simp: frames_def last_map)
  then have "in_size r \<noteq> 0" using wf by (auto simp: lru_wf_def)
  with erase_frame_ok[OF wf last_in_set[OF ne]] filter_neq_last[OF d ne] l nel
  show ?thesis by (auto simp: Victim_def)
qed

lemma Pin_ok:
  assumes wf: "lru_wf r"
  shows "\<exists>r'. Pin r f = Some r' \<and> lru_wf r' \<and> frames r' = filter (\<lambda>g. g \<noteq> f) (frames r) \<and>
    max_size r' = max_size r"
proof (cases "f \<in> set (frames r)")
  case True
  then show ?thesis using erase_frame_ok[OF wf True] frames_map_it[OF wf] by (auto simp: Pin_def)
next
  case False
  then have "filter (\<lambda>g. g \<noteq> f) (frames r) = frames r" by (intro filter_True) auto
  with False wf show ?thesis by (auto simp: Pin_def frames_map_it)
qed

lemma Unpin_ok:
  assumes wf: "lru_wf r"
  shows "lru_wf (Unpin r f)" and "max_size (Unpin r f) = max_size r"
    and "frames (Unpin r f) =
      (if f \<in> set (frames r) \<or> unat (max_size r) \<le> length (frames r) then frames r else f # frames r)"
proof -
  have full: "in_size r \<ge> max_size r \<longleftrightarrow> unat (max_size r) \<le> length (frames r)"
    using length_frames[OF wf] by (simp add: word_le_nat_alt)
  note m = frames_map_it[OF wf, of f]
  show "max_size (Unpin r f) = max_size r" by (simp add: Unpin_def)
  show fr: "frames (Unpin r f) =
      (if f \<in> set (frames r) \<or> unat (max_size r) \<le> length (frames r) then frames r else f # frames r)"
    using m full by (simp add: Unpin_def frames_def)
  show "lru_wf (Unpin r f)"
  proof (cases "f \<in> set (frames r) \<or> unat (max_size r) \<le> length (frames r)")
    case True
    with wf m full show ?thesis by (auto simp: Unpin_def)
  next
    case False
    then have u: "Unpin r f = r\<lparr>lru_list := (next_node r, f) # lru_list r,
        map_it := (map_it r)(f \<mapsto> next_node r), next_node := Suc (next_node r), in_size := in_size r + 1\<rparr>"
      using m full by (auto simp: Unpin_def)
    have lt: "in_size r < max_size r" using False full by auto
    have "unat (max_size r) < 2 ^ 64" using unsigned_less[of "max_size r"] by simp
    with lt have "unat (in_size r + 1) = Suc (unat (in_size r))" and "in_size r + 1 \<le> max_size r"
      by (simp_all add: word_less_nat_alt word_le_nat_alt unat_word_ariths)
    moreover have "next_node r \<notin> fst ` set (lru_list r)" "f \<notin> snd ` set (lru_list r)"
      using wf False by (auto simp: lru_wf_def frames_def)
    moreover have "map_it r f = None" using False m by simp
    ultimately show ?thesis
      using wf unfolding u lru_wf_def frames_def by (auto simp: less_Suc_eq)
  qed
qed

section \<open>The replacement contract\<close>

locale lru_policy =
  fixes invar :: "'r \<Rightarrow> bool"
    and queue :: "'r \<Rightarrow> frame_id_t list"
    and cap :: "'r \<Rightarrow> nat"
    and victim :: "'r \<Rightarrow> (frame_id_t option \<times> 'r) option"
    and pin :: "'r \<Rightarrow> frame_id_t \<Rightarrow> 'r option"
    and unpin :: "'r \<Rightarrow> frame_id_t \<Rightarrow> 'r"
  assumes queue_distinct: "invar r \<Longrightarrow> distinct (queue r)"
    and victim_none: "invar r \<Longrightarrow> queue r = [] \<Longrightarrow> victim r = Some (None, r)"
    and victim_some: "invar r \<Longrightarrow> queue r \<noteq> [] \<Longrightarrow> \<exists>r'. victim r = Some (Some (last (queue r)), r') \<and>
      invar r' \<and> queue r' = butlast (queue r) \<and> cap r' = cap r"
    and pin_law: "invar r \<Longrightarrow> \<exists>r'. pin r f = Some r' \<and> invar r' \<and>
      queue r' = filter (\<lambda>g. g \<noteq> f) (queue r) \<and> cap r' = cap r"
    and unpin_law: "invar r \<Longrightarrow> invar (unpin r f) \<and> cap (unpin r f) = cap r \<and>
      queue (unpin r f) = (if f \<in> set (queue r) \<or> cap r \<le> length (queue r) then queue r else f # queue r)"
begin

fun unpin_all :: "'r \<Rightarrow> frame_id_t list \<Rightarrow> 'r" where
  "unpin_all r [] = r"
| "unpin_all r (f # fs) = unpin_all (unpin r f) fs"

fun victims :: "nat \<Rightarrow> 'r \<Rightarrow> (frame_id_t list \<times> 'r) option" where
  "victims 0 r = Some ([], r)"
| "victims (Suc n) r = (case victim r of None \<Rightarrow> None | Some (None, r') \<Rightarrow> Some ([], r')
     | Some (Some f, r') \<Rightarrow> (case victims n r' of None \<Rightarrow> None | Some (fs, r'') \<Rightarrow> Some (f # fs, r'')))"

lemma victims_queue:
  assumes "invar r" and "n = length (queue r)"
  shows "\<exists>r'. victims n r = Some (rev (queue r), r') \<and> invar r' \<and> queue r' = []"
  using assms
proof (induction n arbitrary: r)
  case 0
  then show ?case by simp
next
  case (Suc n)
  then have "queue r \<noteq> []" by auto
  from victim_some[OF Suc.prems(1) this] obtain r1 where r1: "victim r = Some (Some (last (queue r)), r1)"
    "invar r1" "queue r1 = butlast (queue r)" by blast
  from r1(3) Suc.prems(2) have "n = length (queue r1)" by simp
  from Suc.IH[OF r1(2) this] r1(3) obtain r' where "victims n r1 = Some (rev (butlast (queue r)), r')"
    "invar r'" "queue r' = []" by auto
  moreover have "last (queue r) # rev (butlast (queue r)) = rev (queue r)"
    by (metis \<open>queue r \<noteq> []\<close> append_butlast_last_id rev_eq_Cons_iff rev_rev_ident)
  ultimately show ?case using r1(1) by simp
qed

lemma unpin_all_queue:
  assumes "invar r" and "distinct fs" and "set fs \<inter> set (queue r) = {}"
    and "length (queue r) + length fs \<le> cap r"
  shows "invar (unpin_all r fs) \<and> queue (unpin_all r fs) = rev fs @ queue r"
  using assms
proof (induction fs arbitrary: r)
  case Nil
  then show ?case by simp
next
  case (Cons f fs)
  from unpin_law[OF Cons.prems(1), of f] Cons.prems
  have u: "invar (unpin r f)" "queue (unpin r f) = f # queue r" "cap (unpin r f) = cap r" by auto
  with Cons.IH[of "unpin r f"] Cons.prems show ?case by auto
qed

lemma lru_order:
  assumes "invar r" and "queue r = []" and "distinct fs" and "length fs \<le> cap r"
  shows "\<exists>r'. victims (length fs) (unpin_all r fs) = Some (fs, r') \<and> invar r' \<and> queue r' = []"
proof -
  have "invar (unpin_all r fs)" and q: "queue (unpin_all r fs) = rev fs"
    using unpin_all_queue[of r fs] assms by simp_all
  then show ?thesis using victims_queue[of "unpin_all r fs" "length fs"] by (simp add: q)
qed

text \<open>A pinned frame is not victimised until it is unpinned again.\<close>

lemma pinned_not_victim:
  assumes "invar r" and "pin r f = Some r1" and "victim r1 = Some (v, r2)"
  shows "v \<noteq> Some f"
proof -
  from pin_law[OF assms(1), of f] assms(2)
  have r1: "invar r1" "queue r1 = filter (\<lambda>g. g \<noteq> f) (queue r)" by auto
  show ?thesis
  proof (cases "queue r1 = []")
    case True
    with victim_none[OF r1(1)] assms(3) show ?thesis by auto
  next
    case False
    with victim_some[OF r1(1)] assms(3) have "v = Some (last (queue r1))" by auto
    moreover have "last (queue r1) \<in> set (queue r1)" using False by simp
    ultimately show ?thesis using r1(2) by auto
  qed
qed

end

interpretation lru: lru_policy lru_wf frames "\<lambda>r. unat (max_size r)" Victim Pin Unpin
proof
  show "distinct (frames r)" if "lru_wf r" for r
    using that by (simp add: lru_wf_def)
  show "\<exists>r'. Victim r = Some (Some (last (frames r)), r') \<and> lru_wf r' \<and>
      frames r' = butlast (frames r) \<and> unat (max_size r') = unat (max_size r)"
    if "lru_wf r" "frames r \<noteq> []" for r
    using Victim_ok[OF that] by auto
  show "\<exists>r'. Pin r f = Some r' \<and> lru_wf r' \<and> frames r' = filter (\<lambda>g. g \<noteq> f) (frames r) \<and>
      unat (max_size r') = unat (max_size r)" if "lru_wf r" for r f
    using Pin_ok[OF that, of f] by auto
qed (use Victim_empty Unpin_ok in auto)

section \<open>Properties\<close>

text \<open>C34: least recently used first: when distinct frames are unpinned one after the other in a
  fresh replacer with room for them, the same number of \<open>Victim\<close> calls all succeed and return
  the frames in the order in which they were unpinned, leaving the replacer empty.\<close>

theorem lru_victim_order:
  assumes "distinct fs" and "length fs \<le> unat n"
  shows "\<exists>r'. lru.victims (length fs) (lru.unpin_all (LRUReplacer_new n) fs) = Some (fs, r') \<and>
    LRUReplacer_Size r' = 0"
proof -
  let ?r = "LRUReplacer_new n"
  have "length fs \<le> unat (max_size ?r)" using assms(2) by (simp add: LRUReplacer_new_def)
  from lru.lru_order[OF lru_wf_new assms(1) this] obtain r'
    where r': "lru.victims (length fs) (lru.unpin_all ?r fs) = Some (fs, r')" "lru_wf r'" "frames r' = []"
    by blast
  then have "in_size r' = 0" using length_frames[OF r'(2)] by (simp add: unat_eq_zero)
  with r' show ?thesis by (auto simp: LRUReplacer_Size_def)
qed

theorem lru_victim_order_witness:
  "\<exists>r'. lru.victims (length [4, 2, 7 :: int]) (lru.unpin_all (LRUReplacer_new 5) [4, 2, 7]) = Some ([4, 2, 7], r') \<and>
    LRUReplacer_Size r' = 0"
  by (rule lru_victim_order) simp_all

text \<open>Every replacer operation keeps the invariant that ties the list, the iterator map and
  the size counter together, none of them meets a dangling iterator, and the size never
  exceeds the capacity.\<close>

lemma lru_operations_safe:
  assumes "lru_wf r"
  shows "(\<exists>v r'. Victim r = Some (v, r') \<and> lru_wf r') \<and> (\<exists>r'. Pin r f = Some r' \<and> lru_wf r') \<and>
    lru_wf (Unpin r f) \<and> LRUReplacer_Size (Unpin r f) \<le> max_size (Unpin r f)"
proof -
  have "\<exists>v r'. Victim r = Some (v, r') \<and> lru_wf r'"
    using Victim_ok[OF assms] Victim_empty[OF assms] assms by (cases "frames r = []") blast+
  moreover have "in_size (Unpin r f) \<le> max_size (Unpin r f)"
    using Unpin_ok(1)[OF assms, of f] by (simp only: lru_wf_def)
  ultimately show ?thesis
    using Pin_ok[OF assms, of f] Unpin_ok(1)[OF assms] by (auto simp: LRUReplacer_Size_def)
qed

end
