(* ===== verification/Buffer_Pool.thy ===== *)
theory Buffer_Pool
  imports Disk_Manager Lru_Replacer
begin

text \<open>
  The buffer pool (\<^verbatim>\<open>buffer/buffer_pool_manager.cpp\<close>, \<^verbatim>\<open>include/page/page.h\<close>) over the disk
  manager and the LRU replacer.  A \<^verbatim>\<open>Page *\<close> that the pool hands out points into \<open>pages\<close>,
  so it is a frame id.  Using a frame id that no branch has initialised, or one outside the
  array, is undefined behaviour: \<^term>\<open>None\<close>.  \<open>pool_wf\<close> is the invariant of the pool and
  \<open>view\<close> the content of a page as its clients see it; the lemmas show which operations keep
  both, and the properties at the end also state where the code does not.
\<close>

section \<open>Model\<close>

text \<open>The pin count is an unbounded integer; an int of the code overflows only when one page is pinned \<open>2 ^ 31\<close> times.\<close>

record page =
  pdata :: "byte list"
  page_id :: page_id_t
  pin_count :: int
  is_dirty :: bool

definition Page_new :: page where
  "Page_new = \<lparr>pdata = replicate PAGE_SIZE 0, page_id = INVALID_PAGE_ID, pin_count = 0, is_dirty = False\<rparr>"

definition ResetMemory :: "page \<Rightarrow> page" where
  "ResetMemory p = p\<lparr>pdata := replicate PAGE_SIZE 0\<rparr>"

definition GetLSN :: "page \<Rightarrow> int option" where
  "GetLSN p = MACH_READ_INT32 (pdata p) 4"

definition SetLSN :: "page \<Rightarrow> int \<Rightarrow> page option" where
  "SetLSN p lsn = do { d \<leftarrow> MACH_WRITE_INT32 (pdata p) 4 lsn; Some (p\<lparr>pdata := d\<rparr>) }"

record buffer_pool =
  pool_size :: nat
  pages :: "page list"
  disk_mgr :: disk_manager
  page_table :: "page_id_t \<rightharpoonup> frame_id_t"
  replacer :: lru_replacer
  free_list :: "frame_id_t list"

definition BufferPoolManager_new :: "nat \<Rightarrow> disk_manager \<Rightarrow> buffer_pool" where
  "BufferPoolManager_new n dm = \<lparr>pool_size = n, pages = replicate n Page_new, disk_mgr = dm,
     page_table = Map.empty, replacer = LRUReplacer_new (of_nat n), free_list = map int [0..<n]\<rparr>"

definition get_page :: "buffer_pool \<Rightarrow> frame_id_t \<Rightarrow> page option" where
  "get_page bp f = (if 0 \<le> f \<and> nat f < length (pages bp) then Some (pages bp ! nat f) else None)"

definition set_page :: "buffer_pool \<Rightarrow> frame_id_t \<Rightarrow> page \<Rightarrow> buffer_pool" where
  "set_page bp f p = bp\<lparr>pages := (pages bp)[nat f := p]\<rparr>"

definition FlushPage :: "buffer_pool \<Rightarrow> page_id_t \<Rightarrow> (bool \<times> buffer_pool) option" where
  "FlushPage bp pid = (case page_table bp pid of
     None \<Rightarrow> Some (False, bp)
   | Some frame_id \<Rightarrow> do {
       p \<leftarrow> get_page bp frame_id;
       dm \<leftarrow> WritePage (disk_mgr bp) pid (pdata p);
       Some (True, set_page (bp\<lparr>disk_mgr := dm\<rparr>) frame_id (p\<lparr>is_dirty := False\<rparr>)) })"

text \<open>The victim of \<open>FetchPage\<close>: from the free list first, else from the replacer.\<close>

definition take_frame :: "buffer_pool \<Rightarrow> (frame_id_t \<times> buffer_pool) option" where
  "take_frame bp =
     (if free_list bp \<noteq> [] then Some (last (free_list bp), bp\<lparr>free_list := butlast (free_list bp)\<rparr>)
      else do {
        (v, r) \<leftarrow> Victim (replacer bp);
        (case v of None \<Rightarrow> None | Some frame_id \<Rightarrow> Some (frame_id, bp\<lparr>replacer := r\<rparr>)) })"

definition reclaim_frame :: "buffer_pool \<Rightarrow> (frame_id_t \<times> buffer_pool) option" where
  "reclaim_frame bp = do {
     (frame_id, bp1) \<leftarrow> take_frame bp;
     victim \<leftarrow> get_page bp1 frame_id;
     bp2 \<leftarrow> (if is_dirty victim then do {
                (_, b) \<leftarrow> FlushPage bp1 (page_id victim);
                q \<leftarrow> get_page b frame_id;
                Some (set_page b frame_id (q\<lparr>is_dirty := False\<rparr>)) }
             else Some bp1);
     p \<leftarrow> get_page bp2 frame_id;
     Some (frame_id, bp2\<lparr>page_table := (page_table bp2)(page_id p := None)\<rparr>) }"

definition FetchPage :: "buffer_pool \<Rightarrow> page_id_t \<Rightarrow> (frame_id_t \<times> buffer_pool) option" where
  "FetchPage bp pid = (case page_table bp pid of
     Some frame_id \<Rightarrow> do {
       r \<leftarrow> Pin (replacer bp) frame_id;
       p \<leftarrow> get_page bp frame_id;
       Some (frame_id, set_page (bp\<lparr>replacer := r\<rparr>) frame_id (p\<lparr>pin_count := pin_count p + 1\<rparr>)) }
   | None \<Rightarrow> do {
       (frame_id, bp2) \<leftarrow> reclaim_frame bp;
       let bp3 = bp2\<lparr>page_table := (page_table bp2)(pid \<mapsto> frame_id)\<rparr>;
       p \<leftarrow> get_page bp3 frame_id;
       (d, dm) \<leftarrow> ReadPage (disk_mgr bp3) pid;
       Some (frame_id, set_page (bp3\<lparr>disk_mgr := dm\<rparr>) frame_id
               ((ResetMemory (p\<lparr>page_id := pid, pin_count := pin_count p + 1\<rparr>))\<lparr>pdata := d\<rparr>)) })"

definition BufferPool_AllocatePage :: "buffer_pool \<Rightarrow> (page_id_t \<times> buffer_pool) option" where
  "BufferPool_AllocatePage bp = do {
     (dm, next_page_id) \<leftarrow> AllocatePage (disk_mgr bp); Some (next_page_id, bp\<lparr>disk_mgr := dm\<rparr>) }"

definition BufferPool_DeallocatePage :: "buffer_pool \<Rightarrow> page_id_t \<Rightarrow> buffer_pool option" where
  "BufferPool_DeallocatePage bp pid = do {
     dm \<leftarrow> DeAllocatePage (disk_mgr bp) pid; Some (bp\<lparr>disk_mgr := dm\<rparr>) }"

text \<open>
  \<open>NewPage\<close> returns the new page id and the frame, or \<^term>\<open>None\<close> inside the outer option
  for \<^verbatim>\<open>nullptr\<close>.  When the free list is empty the code calls \<open>Victim\<close> in the condition
  and once more in the branch; \<open>frame0\<close> is what the first call left in \<^verbatim>\<open>frame_id\<close>.
\<close>

definition install_new :: "buffer_pool \<Rightarrow> page_id_t \<Rightarrow> frame_id_t \<Rightarrow> ((page_id_t \<times> frame_id_t) option \<times> buffer_pool) option" where
  "install_new bp pid frame_id = do {
     let bp1 = bp\<lparr>page_table := (page_table bp)(pid \<mapsto> frame_id)\<rparr>;
     p \<leftarrow> get_page bp1 frame_id;
     Some (Some (pid, frame_id), set_page bp1 frame_id
       ((ResetMemory p)\<lparr>page_id := pid, pin_count := 1, is_dirty := True\<rparr>)) }"

definition NewPage :: "buffer_pool \<Rightarrow> ((page_id_t \<times> frame_id_t) option \<times> buffer_pool) option" where
  "NewPage bp =
     (if free_list bp = [] then do {
        (v, r) \<leftarrow> Victim (replacer bp);
        (case v of
           None \<Rightarrow> Some (None, bp\<lparr>replacer := r\<rparr>)
         | Some frame0 \<Rightarrow> do {
             (pid, bp1) \<leftarrow> BufferPool_AllocatePage (bp\<lparr>replacer := r\<rparr>);
             (v', r') \<leftarrow> Victim (replacer bp1);
             install_new (bp1\<lparr>replacer := r'\<rparr>) pid (case v' of None \<Rightarrow> frame0 | Some frame1 \<Rightarrow> frame1) }) }
      else do {
        (pid, bp1) \<leftarrow> BufferPool_AllocatePage bp;
        install_new (bp1\<lparr>free_list := butlast (free_list bp1)\<rparr>) pid (last (free_list bp1)) })"

definition DeletePage :: "buffer_pool \<Rightarrow> page_id_t \<Rightarrow> (bool \<times> buffer_pool) option" where
  "DeletePage bp pid = do {
     bp1 \<leftarrow> BufferPool_DeallocatePage bp pid;
     (case page_table bp1 pid of
        None \<Rightarrow> Some (True, bp1)
      | Some frame_id \<Rightarrow> do {
          p \<leftarrow> get_page bp1 frame_id;
          if pin_count p \<noteq> 0 then Some (False, bp1)
          else Some (True, (set_page bp1 frame_id (ResetMemory (p\<lparr>page_id := INVALID_PAGE_ID\<rparr>)))
                 \<lparr>page_table := (page_table bp1)(pid := None), free_list := free_list bp1 @ [frame_id]\<rparr>) }) }"

definition UnpinPage :: "buffer_pool \<Rightarrow> page_id_t \<Rightarrow> bool \<Rightarrow> (bool \<times> buffer_pool) option" where
  "UnpinPage bp pid dirty = (case page_table bp pid of
     None \<Rightarrow> Some (False, bp)
   | Some frame_id \<Rightarrow> do {
       p \<leftarrow> get_page bp frame_id;
       if pin_count p < 0 then Some (False, bp)
       else do {
         let p1 = (if pin_count p > 0 then p\<lparr>pin_count := pin_count p - 1\<rparr> else p);
         let bp1 = set_page bp frame_id p1;
         let bp2 = (if pin_count p1 = 0 then bp1\<lparr>replacer := Unpin (replacer bp1) frame_id\<rparr> else bp1);
         if dirty then do {
           (_, bp3) \<leftarrow> FlushPage (set_page bp2 frame_id (p1\<lparr>is_dirty := True\<rparr>)) pid;
           Some (True, bp3) }
         else Some (True, bp2) } })"

definition BufferPool_IsPageFree :: "buffer_pool \<Rightarrow> page_id_t \<Rightarrow> (bool \<times> buffer_pool) option" where
  "BufferPool_IsPageFree bp pid = do {
     (b, dm) \<leftarrow> DiskManager_IsPageFree (disk_mgr bp) pid; Some (b, bp\<lparr>disk_mgr := dm\<rparr>) }"

definition CheckAllUnpinned :: "buffer_pool \<Rightarrow> bool" where
  "CheckAllUnpinned bp = list_all (\<lambda>p. pin_count p = 0) (take (pool_size bp) (pages bp))"

text \<open>The destructor flushes every resident page, in the iteration order of the hash table.\<close>

fun flush_all :: "buffer_pool \<Rightarrow> page_id_t list \<Rightarrow> buffer_pool option" where
  "flush_all bp [] = Some bp"
| "flush_all bp (pid # pids) = do { (_, bp') \<leftarrow> FlushPage bp pid; flush_all bp' pids }"

section \<open>Invariant and client view\<close>

definition pool_wf :: "buffer_pool \<Rightarrow> bool" where
  "pool_wf bp \<longleftrightarrow> length (pages bp) = pool_size bp \<and> disk_ok (disk_mgr bp) \<and>
     lru_wf (replacer bp) \<and> unat (max_size (replacer bp)) = pool_size bp \<and>
     (\<forall>p \<in> set (pages bp). length (pdata p) = PAGE_SIZE \<and> pin_count p \<ge> 0) \<and>
     (\<forall>pid f. page_table bp pid = Some f \<longrightarrow> logical_ok pid \<and> 0 \<le> f \<and> nat f < pool_size bp \<and>
        page_id (pages bp ! nat f) = pid) \<and>
     distinct (free_list bp) \<and>
     (\<forall>f \<in> set (free_list bp). 0 \<le> f \<and> nat f < pool_size bp \<and> f \<notin> ran (page_table bp) \<and>
        pin_count (pages bp ! nat f) = 0 \<and> page_id (pages bp ! nat f) = INVALID_PAGE_ID) \<and>
     set (frames (replacer bp)) = {f \<in> ran (page_table bp). pin_count (pages bp ! nat f) = 0} \<and>
     (\<forall>pid f. page_table bp pid = Some f \<longrightarrow> pin_count (pages bp ! nat f) = 0 \<longrightarrow>
        \<not> is_dirty (pages bp ! nat f) \<longrightarrow> pdata (pages bp ! nat f) = lpage (disk_mgr bp) pid)"

definition view :: "buffer_pool \<Rightarrow> page_id_t \<Rightarrow> byte list" where
  "view bp pid = (case page_table bp pid of
     Some f \<Rightarrow> pdata (pages bp ! nat f) | None \<Rightarrow> lpage (disk_mgr bp) pid)"

definition in_pool :: "buffer_pool \<Rightarrow> frame_id_t \<Rightarrow> bool" where
  "in_pool bp f \<longleftrightarrow> 0 \<le> f \<and> nat f < length (pages bp)"

definition frame_free :: "buffer_pool \<Rightarrow> frame_id_t \<Rightarrow> bool" where
  "frame_free bp f \<longleftrightarrow> in_pool bp f \<and> f \<notin> ran (page_table bp) \<and> f \<notin> set (free_list bp)"

lemma get_page_in_pool [simp]: "in_pool bp f \<Longrightarrow> get_page bp f = Some (pages bp ! nat f)"
  by (simp add: get_page_def in_pool_def)

lemma in_pool_frame [simp]:
  "in_pool (bp\<lparr>disk_mgr := dm\<rparr>) f = in_pool bp f" "in_pool (bp\<lparr>replacer := r\<rparr>) f = in_pool bp f"
  "in_pool (bp\<lparr>page_table := t\<rparr>) f = in_pool bp f" "in_pool (bp\<lparr>free_list := fl\<rparr>) f = in_pool bp f"
  by (simp_all add: in_pool_def)

lemma nat_neq: "in_pool bp f \<Longrightarrow> in_pool bp g \<Longrightarrow> nat f = nat g \<longleftrightarrow> f = g"
  by (auto simp: in_pool_def)

lemma set_page_simps [simp]:
  "pool_size (set_page bp f p) = pool_size bp" "disk_mgr (set_page bp f p) = disk_mgr bp"
  "page_table (set_page bp f p) = page_table bp" "replacer (set_page bp f p) = replacer bp"
  "free_list (set_page bp f p) = free_list bp" "length (pages (set_page bp f p)) = length (pages bp)"
  "in_pool (set_page bp f p) g = in_pool bp g"
  by (simp_all add: set_page_def in_pool_def)

lemma pages_set_page:
  "in_pool bp f \<Longrightarrow> in_pool bp g \<Longrightarrow> pages (set_page bp f p) ! nat g = (if g = f then p else pages bp ! nat g)"
  by (auto simp: set_page_def nth_list_update in_pool_def)

lemma set_pages_set_page: "q \<in> set (pages (set_page bp f p)) \<Longrightarrow> q = p \<or> q \<in> set (pages bp)"
  using set_update_subset_insert[of "pages bp" "nat f" p] by (auto simp: set_page_def)

lemma pool_wfD:
  assumes "pool_wf bp"
  shows "length (pages bp) = pool_size bp" "disk_ok (disk_mgr bp)" "lru_wf (replacer bp)"
    "unat (max_size (replacer bp)) = pool_size bp" "distinct (free_list bp)"
    "\<And>p. p \<in> set (pages bp) \<Longrightarrow> length (pdata p) = PAGE_SIZE \<and> pin_count p \<ge> 0"
    "\<And>pid f. page_table bp pid = Some f \<Longrightarrow> logical_ok pid \<and> in_pool bp f \<and> page_id (pages bp ! nat f) = pid"
    "\<And>f. f \<in> set (free_list bp) \<Longrightarrow> in_pool bp f \<and> f \<notin> ran (page_table bp) \<and>
       pin_count (pages bp ! nat f) = 0 \<and> page_id (pages bp ! nat f) = INVALID_PAGE_ID"
    "set (frames (replacer bp)) = {f \<in> ran (page_table bp). pin_count (pages bp ! nat f) = 0}"
    "\<And>pid f. page_table bp pid = Some f \<Longrightarrow> pin_count (pages bp ! nat f) = 0 \<Longrightarrow>
        \<not> is_dirty (pages bp ! nat f) \<Longrightarrow> pdata (pages bp ! nat f) = lpage (disk_mgr bp) pid"
  using assms unfolding pool_wf_def in_pool_def by metis+

lemma pool_wfI:
  assumes "length (pages bp) = pool_size bp" "disk_ok (disk_mgr bp)" "lru_wf (replacer bp)"
    "unat (max_size (replacer bp)) = pool_size bp" "distinct (free_list bp)"
    "\<And>p. p \<in> set (pages bp) \<Longrightarrow> length (pdata p) = PAGE_SIZE \<and> pin_count p \<ge> 0"
    "\<And>pid f. page_table bp pid = Some f \<Longrightarrow> logical_ok pid \<and> in_pool bp f \<and> page_id (pages bp ! nat f) = pid"
    "\<And>f. f \<in> set (free_list bp) \<Longrightarrow> in_pool bp f \<and> f \<notin> ran (page_table bp) \<and>
       pin_count (pages bp ! nat f) = 0 \<and> page_id (pages bp ! nat f) = INVALID_PAGE_ID"
    "set (frames (replacer bp)) = {f \<in> ran (page_table bp). pin_count (pages bp ! nat f) = 0}"
    "\<And>pid f. page_table bp pid = Some f \<Longrightarrow> pin_count (pages bp ! nat f) = 0 \<Longrightarrow>
        \<not> is_dirty (pages bp ! nat f) \<Longrightarrow> pdata (pages bp ! nat f) = lpage (disk_mgr bp) pid"
  shows "pool_wf bp"
  using assms unfolding pool_wf_def in_pool_def by auto

lemma page_table_inj: "pool_wf bp \<Longrightarrow> page_table bp a = Some f \<Longrightarrow> page_table bp b = Some f \<Longrightarrow> a = b"
  using pool_wfD(7) by metis

lemma in_pool_page: "pool_wf bp \<Longrightarrow> in_pool bp f \<Longrightarrow>
    length (pdata (pages bp ! nat f)) = PAGE_SIZE \<and> pin_count (pages bp ! nat f) \<ge> 0"
  using pool_wfD(6) by (simp add: in_pool_def)

lemma free_not_resident: "pool_wf bp \<Longrightarrow> f \<in> set (free_list bp) \<Longrightarrow> page_table bp q \<noteq> Some f"
  using pool_wfD(8) by (metis ranI)

text \<open>Replacing the content of a resident frame.\<close>

lemma pool_wf_update:
  assumes wf: "pool_wf bp" and pt: "page_table bp pid = Some f"
    and p: "page_id p = pid" "length (pdata p) = PAGE_SIZE" "pin_count p \<ge> 0"
    and r: "lru_wf r" "max_size r = max_size (replacer bp)"
      "set (frames r) = (if pin_count p = 0 then insert f (set (frames (replacer bp)))
         else set (frames (replacer bp)) - {f})"
    and d: "disk_ok dm" "\<And>q. logical_ok q \<Longrightarrow> q \<noteq> pid \<Longrightarrow> lpage dm q = lpage (disk_mgr bp) q"
    and c: "pin_count p = 0 \<Longrightarrow> \<not> is_dirty p \<Longrightarrow> pdata p = lpage dm pid"
  shows "pool_wf (set_page (bp\<lparr>replacer := r, disk_mgr := dm\<rparr>) f p)"
proof -
  let ?bp = "bp\<lparr>replacer := r, disk_mgr := dm\<rparr>"
  note D = pool_wfD[OF wf]
  have ip: "in_pool ?bp g = in_pool bp g" for g by (simp add: in_pool_def)
  have f: "in_pool bp f" using D(7)[OF pt] by simp
  have pg: "in_pool bp g \<Longrightarrow> pages (set_page ?bp f p) ! nat g = (if g = f then p else pages bp ! nat g)" for g
    using pages_set_page[of ?bp f g p] f by (simp add: ip)
  have res: "f \<in> ran (page_table bp)" using pt by (rule ranI)
  show ?thesis
  proof (rule pool_wfI)
    show "length (pdata q) = PAGE_SIZE \<and> 0 \<le> pin_count q" if "q \<in> set (pages (set_page ?bp f p))" for q
      using set_pages_set_page[OF that] p D(6) by auto
    show "set (frames (replacer (set_page ?bp f p))) =
        {g \<in> ran (page_table (set_page ?bp f p)). pin_count (pages (set_page ?bp f p) ! nat g) = 0}"
      using r(3) res D(9) D(7) pg by (auto simp: ran_def split: if_splits)
    show "pdata (pages (set_page ?bp f p) ! nat g) = lpage (disk_mgr (set_page ?bp f p)) q"
      if "page_table (set_page ?bp f p) q = Some g" "pin_count (pages (set_page ?bp f p) ! nat g) = 0"
        "\<not> is_dirty (pages (set_page ?bp f p) ! nat g)" for q g
    proof (cases "g = f")
      case True
      with that(1) page_table_inj[OF wf pt, of q] have "q = pid" by simp
      with True that pg[OF f] c show ?thesis by simp
    next
      case False
      with that(1) pt have "q \<noteq> pid" and qg: "page_table bp q = Some g" by auto
      with False that D(7)[OF qg] D(10)[OF qg] pg[of g] d(2)[of q] show ?thesis by simp
    qed
    show "logical_ok q \<and> in_pool (set_page ?bp f p) g \<and> page_id (pages (set_page ?bp f p) ! nat g) = q"
      if "page_table (set_page ?bp f p) q = Some g" for q g
      using that D(7)[of q g] pg[of g] p(1) page_table_inj[OF wf pt, of q] by (simp add: ip)
    show "in_pool (set_page ?bp f p) g \<and> g \<notin> ran (page_table (set_page ?bp f p)) \<and>
        pin_count (pages (set_page ?bp f p) ! nat g) = 0 \<and> page_id (pages (set_page ?bp f p) ! nat g) = INVALID_PAGE_ID"
      if "g \<in> set (free_list (set_page ?bp f p))" for g
      using that D(8)[of g] pg[of g] res by (auto simp: ip)
  qed (use D(1,4,5) r(1,2) d(1) in simp_all)
qed

text \<open>Installing a pinned page in a frame that holds none.\<close>

lemma pool_wf_install:
  assumes wf: "pool_wf bp" and fr: "frame_free bp f" and pid: "logical_ok pid" "page_table bp pid = None"
    and p: "page_id p = pid" "length (pdata p) = PAGE_SIZE" "pin_count p > 0"
  shows "pool_wf (set_page (bp\<lparr>page_table := (page_table bp)(pid \<mapsto> f)\<rparr>) f p)"
proof -
  let ?bp = "bp\<lparr>page_table := (page_table bp)(pid \<mapsto> f)\<rparr>"
  note D = pool_wfD[OF wf]
  have ip: "in_pool ?bp g = in_pool bp g" for g by (simp add: in_pool_def)
  have f: "in_pool bp f" "f \<notin> ran (page_table bp)" "f \<notin> set (free_list bp)"
    using fr by (simp_all add: frame_free_def)
  have pg: "in_pool bp g \<Longrightarrow> pages (set_page ?bp f p) ! nat g = (if g = f then p else pages bp ! nat g)" for g
    using pages_set_page[of ?bp f g p] f by (simp add: ip)
  have nf: "page_table bp q = Some g \<Longrightarrow> g \<noteq> f" for q g using f(2) by (auto intro: ranI)
  have ranp: "g \<in> ran (page_table bp) \<Longrightarrow> in_pool bp g \<and> g \<noteq> f" for g
    using D(7) nf by (auto simp: ran_def)
  show ?thesis
  proof (rule pool_wfI)
    show "length (pdata q) = PAGE_SIZE \<and> 0 \<le> pin_count q" if "q \<in> set (pages (set_page ?bp f p))" for q
      using set_pages_set_page[OF that] p D(6) by auto
    show "in_pool (set_page ?bp f p) g \<and> g \<notin> ran (page_table (set_page ?bp f p)) \<and>
        pin_count (pages (set_page ?bp f p) ! nat g) = 0 \<and> page_id (pages (set_page ?bp f p) ! nat g) = INVALID_PAGE_ID"
      if "g \<in> set (free_list (set_page ?bp f p))" for g
      using that D(8)[of g] f(3) pg[of g] pid(2) by (auto simp: ip)
    show "set (frames (replacer (set_page ?bp f p))) =
        {g \<in> ran (page_table (set_page ?bp f p)). pin_count (pages (set_page ?bp f p) ! nat g) = 0}"
    proof -
      have "g \<in> ran (page_table (set_page ?bp f p)) \<and> pin_count (pages (set_page ?bp f p) ! nat g) = 0 \<longleftrightarrow>
          g \<in> ran (page_table bp) \<and> pin_count (pages bp ! nat g) = 0" for g
        using ranp[of g] pg[of g] pg[OF f(1)] p(3) f(2) pid(2) by (cases "g = f") auto
      then show ?thesis using D(9) by simp
    qed
    show "pdata (pages (set_page ?bp f p) ! nat g) = lpage (disk_mgr (set_page ?bp f p)) q"
      if "page_table (set_page ?bp f p) q = Some g" "pin_count (pages (set_page ?bp f p) ! nat g) = 0"
        "\<not> is_dirty (pages (set_page ?bp f p) ! nat g)" for q g
    proof (cases "q = pid")
      case True
      with that pg[OF f(1)] p(3) show ?thesis by simp
    next
      case False
      with that(1) have qg: "page_table bp q = Some g" by simp
      with that D(7)[OF qg] D(10)[OF qg] pg[of g] nf[OF qg] show ?thesis by simp
    qed
    show "logical_ok q \<and> in_pool (set_page ?bp f p) g \<and> page_id (pages (set_page ?bp f p) ! nat g) = q"
      if "page_table (set_page ?bp f p) q = Some g" for q g
    proof (cases "q = pid")
      case True
      with that pg[OF f(1)] p(1) f(1) pid(1) show ?thesis by (auto simp: in_pool_def)
    next
      case False
      with that have qg: "page_table bp q = Some g" by simp
      with D(7)[OF qg] pg[of g] nf[OF qg] show ?thesis by (simp add: ip)
    qed
  qed (use D(1,2,3,4,5) in simp_all)
qed

lemma view_set_page:
  assumes "pool_wf bp" and "page_table bp pid = Some f" and "logical_ok q"
    and "\<And>q. logical_ok q \<Longrightarrow> q \<noteq> pid \<Longrightarrow> lpage dm q = lpage (disk_mgr bp) q"
  shows "view (set_page (bp\<lparr>replacer := r, disk_mgr := dm\<rparr>) f p) q = (if q = pid then pdata p else view bp q)"
proof -
  let ?bp = "bp\<lparr>replacer := r, disk_mgr := dm\<rparr>"
  have ip: "in_pool ?bp g = in_pool bp g" for g by (simp add: in_pool_def)
  have f: "in_pool bp f" using pool_wfD(7)[OF assms(1,2)] by simp
  show ?thesis
  proof (cases "page_table bp q")
    case None
    moreover from None assms(2) have "q \<noteq> pid" by auto
    ultimately show ?thesis using assms(4)[OF assms(3)] by (simp add: view_def)
  next
    case (Some g)
    then have "in_pool bp g" using pool_wfD(7)[OF assms(1)] by simp
    moreover have "g = f \<longleftrightarrow> q = pid" using Some assms(2) page_table_inj[OF assms(1,2), of q] by auto
    ultimately show ?thesis
      using Some f pages_set_page[of ?bp f g p] by (simp add: view_def ip)
  qed
qed

text \<open>What the operations leave alone: the frames, and on disk everything but data pages.\<close>

definition same_frames :: "buffer_pool \<Rightarrow> buffer_pool \<Rightarrow> bool" where
  "same_frames bp bp' \<longleftrightarrow> pool_size bp' = pool_size bp \<and> free_list bp' = free_list bp"

definition data_only :: "disk_manager \<Rightarrow> disk_manager \<Rightarrow> bool" where
  "data_only dm dm' \<longleftrightarrow> disk_ok dm' \<and> meta_data dm' = meta_data dm \<and>
     (\<forall>p. p \<notin> range data_phys \<longrightarrow> phys_page dm' p = phys_page dm p)"

lemma data_onlyI:
  assumes "disk_ok dm'" and "meta_data dm' = meta_data dm" and "\<And>p. phys_page dm' p = (if p = data_phys l then d else phys_page dm p)"
  shows "data_only dm dm'"
  using assms by (auto simp: data_only_def)

lemma data_only_refl: "disk_ok dm \<Longrightarrow> data_only dm dm"
  by (simp add: data_only_def)

lemma data_only_disk:
  assumes "data_only dm dm'"
  shows "disk_used dm' = disk_used dm" "disk_wf dm \<Longrightarrow> disk_wf dm'"
proof -
  have e: "extents dm' = extents dm" "GetExtentNums dm' = GetExtentNums dm"
    using assms by (simp_all add: data_only_def extents_def GetExtentNums_def)
  have "bm_phys i \<notin> range data_phys" for i by (auto dest!: sym[of "bm_phys i"] simp: data_neq_bm)
  then have "ext_bitmap dm' i = ext_bitmap dm i" for i using assms by (simp add: data_only_def ext_bitmap_def)
  with e show "disk_used dm' = disk_used dm" by (simp add: disk_used_def)
  have "0 \<notin> range data_phys" by (auto dest: sym)
  then show "disk_wf dm \<Longrightarrow> disk_wf dm'" using assms e by (simp add: data_only_def disk_wf_def)
qed

lemma FlushPage_ok:
  assumes wf: "pool_wf bp" and pt: "page_table bp pid = Some f"
  shows "\<exists>bp'. FlushPage bp pid = Some (True, bp') \<and> pool_wf bp' \<and> (\<forall>q. logical_ok q \<longrightarrow> view bp' q = view bp q) \<and>
    page_table bp' = page_table bp \<and>
    (\<forall>k. logical_ok k \<longrightarrow> lpage (disk_mgr bp') k = (if k = pid then view bp pid else lpage (disk_mgr bp) k)) \<and>
    pages bp' = (pages bp)[nat f := (pages bp ! nat f)\<lparr>is_dirty := False\<rparr>] \<and> same_frames bp bp' \<and>
    data_only (disk_mgr bp) (disk_mgr bp')"
proof -
  note D = pool_wfD[OF wf]
  let ?p = "pages bp ! nat f"
  have vp: "view bp pid = pdata ?p" using pt by (simp add: view_def)
  have f: "logical_ok pid" "in_pool bp f" "page_id ?p = pid" using D(7)[OF pt] by auto
  have len: "length (pdata ?p) = PAGE_SIZE" using in_pool_page[OF wf f(2)] by simp
  obtain dm where dm: "WritePage (disk_mgr bp) pid (pdata ?p) = Some dm" "disk_ok dm"
    "\<And>k. logical_ok k \<Longrightarrow> lpage dm k = (if k = pid then pdata ?p else lpage (disk_mgr bp) k)"
    "data_only (disk_mgr bp) dm"
    by (rule WritePage_ok[OF D(2) f(1) len]) (blast intro: data_onlyI)
  let ?bp' = "set_page (bp\<lparr>replacer := replacer bp, disk_mgr := dm\<rparr>) f (?p\<lparr>is_dirty := False\<rparr>)"
  have "FlushPage bp pid = Some (True, ?bp')" using pt f dm(1) by (simp add: FlushPage_def)
  moreover have "pool_wf ?bp'"
    by (rule pool_wf_update[OF wf pt])
      (use f len in_pool_page[OF wf f(2)] D(3,9) dm pt in \<open>auto dest: ranI\<close>)
  moreover have "view ?bp' q = view bp q" if "logical_ok q" for q
    using view_set_page[OF wf pt that, of dm "replacer bp" "?p\<lparr>is_dirty := False\<rparr>"] dm(3) vp by simp
  moreover have "lpage (disk_mgr ?bp') k = (if k = pid then view bp pid else lpage (disk_mgr bp) k)"
    if "logical_ok k" for k using dm(3)[OF that] vp by simp
  ultimately show ?thesis using dm(4) by (intro exI[of _ ?bp']) (simp add: same_frames_def set_page_def)
qed

lemma FetchPage_hit:
  assumes wf: "pool_wf bp" and pt: "page_table bp pid = Some f"
  shows "\<exists>bp'. FetchPage bp pid = Some (f, bp') \<and> pool_wf bp' \<and> page_table bp' = page_table bp \<and>
    pages bp' = (pages bp)[nat f := (pages bp ! nat f)\<lparr>pin_count := pin_count (pages bp ! nat f) + 1\<rparr>] \<and>
    (\<forall>q. logical_ok q \<longrightarrow> view bp' q = view bp q) \<and> same_frames bp bp' \<and> disk_mgr bp' = disk_mgr bp"
proof -
  note D = pool_wfD[OF wf]
  let ?p = "pages bp ! nat f"
  have vp: "view bp pid = pdata ?p" using pt by (simp add: view_def)
  have f: "logical_ok pid" "in_pool bp f" "page_id ?p = pid" using D(7)[OF pt] by auto
  obtain r where r: "Pin (replacer bp) f = Some r" "lru_wf r" "max_size r = max_size (replacer bp)"
    "frames r = filter (\<lambda>g. g \<noteq> f) (frames (replacer bp))" using Pin_ok[OF D(3), of f] by blast
  let ?bp' = "set_page (bp\<lparr>replacer := r, disk_mgr := disk_mgr bp\<rparr>) f (?p\<lparr>pin_count := pin_count ?p + 1\<rparr>)"
  have ge: "pin_count ?p \<ge> 0" "length (pdata ?p) = PAGE_SIZE" using in_pool_page[OF wf f(2)] by auto
  have "FetchPage bp pid = Some (f, ?bp')" using pt r(1) f(2) by (simp add: FetchPage_def)
  moreover have "pool_wf ?bp'"
    by (rule pool_wf_update[OF wf pt]) (use f ge r D(2) in auto)
  moreover have "view ?bp' q = view bp q" if "logical_ok q" for q
    using view_set_page[OF wf pt that, of "disk_mgr bp" r "?p\<lparr>pin_count := pin_count ?p + 1\<rparr>"] vp by simp
  ultimately show ?thesis by (intro exI[of _ ?bp']) (simp add: set_page_def same_frames_def)
qed

text \<open>Removing an unpinned page from its frame.\<close>

lemma pool_wf_evict:
  assumes wf: "pool_wf bp" and pt: "page_table bp pid = Some f"
    and p: "length (pdata p) = PAGE_SIZE" "pin_count p \<ge> 0"
    and r: "lru_wf r" "max_size r = max_size (replacer bp)"
      "set (frames r) = set (frames (replacer bp)) - {f}"
    and d: "disk_ok dm" "\<And>q. logical_ok q \<Longrightarrow> q \<noteq> pid \<Longrightarrow> lpage dm q = lpage (disk_mgr bp) q"
  shows "pool_wf (set_page (bp\<lparr>replacer := r, disk_mgr := dm, page_table := (page_table bp)(pid := None)\<rparr>) f p)"
    (is "pool_wf (set_page ?bp f p)")
proof -
  note D = pool_wfD[OF wf]
  have ip: "in_pool ?bp g = in_pool bp g" for g by (simp add: in_pool_def)
  have f: "in_pool bp f" using D(7)[OF pt] by simp
  have pg: "in_pool bp g \<Longrightarrow> pages (set_page ?bp f p) ! nat g = (if g = f then p else pages bp ! nat g)" for g
    using pages_set_page[of ?bp f g p] f by (simp add: ip)
  have old: "page_table bp q = Some g \<and> g \<noteq> f \<and> q \<noteq> pid" if "page_table ?bp q = Some g" for q g
    using that pt page_table_inj[OF wf pt, of q] by (auto split: if_splits)
  have ran: "ran (page_table ?bp) = ran (page_table bp) - {f}"
  proof (intro equalityI subsetI)
    fix g assume "g \<in> ran (page_table ?bp)"
    then obtain q where "page_table ?bp q = Some g" unfolding ran_def by blast
    from old[OF this] show "g \<in> ran (page_table bp) - {f}" unfolding ran_def by blast
  next
    fix g assume "g \<in> ran (page_table bp) - {f}"
    then obtain q where q: "page_table bp q = Some g" "g \<noteq> f" unfolding ran_def by blast
    with pt have "q \<noteq> pid" by auto
    with q have "page_table ?bp q = Some g" by simp
    then show "g \<in> ran (page_table ?bp)" unfolding ran_def by blast
  qed
  have ranp: "g \<in> ran (page_table bp) \<Longrightarrow> in_pool bp g" for g using D(7) by (auto simp: ran_def)
  show ?thesis
  proof (rule pool_wfI)
    show "length (pdata q) = PAGE_SIZE \<and> 0 \<le> pin_count q" if "q \<in> set (pages (set_page ?bp f p))" for q
      using set_pages_set_page[OF that] p D(6) by auto
    show "logical_ok q \<and> in_pool (set_page ?bp f p) g \<and> page_id (pages (set_page ?bp f p) ! nat g) = q"
      if "page_table (set_page ?bp f p) q = Some g" for q g
      using old[of q g] that D(7)[of q g] pg[of g] by (simp add: ip)
    show "in_pool (set_page ?bp f p) g \<and> g \<notin> ran (page_table (set_page ?bp f p)) \<and>
        pin_count (pages (set_page ?bp f p) ! nat g) = 0 \<and> page_id (pages (set_page ?bp f p) ! nat g) = INVALID_PAGE_ID"
      if "g \<in> set (free_list (set_page ?bp f p))" for g
      using that D(8)[of g] pg[of g] ran ranI[of "page_table bp" pid f] pt by (auto simp: ip)
    show "set (frames (replacer (set_page ?bp f p))) =
        {g \<in> ran (page_table (set_page ?bp f p)). pin_count (pages (set_page ?bp f p) ! nat g) = 0}"
    proof -
      have "g \<in> ran (page_table ?bp) \<and> pin_count (pages (set_page ?bp f p) ! nat g) = 0 \<longleftrightarrow>
          g \<in> ran (page_table bp) \<and> g \<noteq> f \<and> pin_count (pages bp ! nat g) = 0" for g
        using ranp[of g] pg[of g] by (simp only: ran) auto
      then have "{g \<in> ran (page_table ?bp). pin_count (pages (set_page ?bp f p) ! nat g) = 0} =
          {g \<in> ran (page_table bp). pin_count (pages bp ! nat g) = 0} - {f}" by blast
      then show ?thesis unfolding set_page_simps using r(3) D(9) by simp
    qed
    show "pdata (pages (set_page ?bp f p) ! nat g) = lpage (disk_mgr (set_page ?bp f p)) q"
      if "page_table (set_page ?bp f p) q = Some g" "pin_count (pages (set_page ?bp f p) ! nat g) = 0"
        "\<not> is_dirty (pages (set_page ?bp f p) ! nat g)" for q g
    proof -
      have "page_table ?bp q = Some g" using that(1) by (simp only: set_page_simps)
      from old[OF this] have qg: "page_table bp q = Some g" "g \<noteq> f" "q \<noteq> pid" by blast+
      with that D(7)[OF qg(1)] D(10)[OF qg(1)] pg[of g] d(2)[of q] show ?thesis by simp
    qed
  qed (use D(1,4,5) r(1,2) d(1) in simp_all)
qed

lemma pool_wf_idle_frame:
  assumes wf: "pool_wf bp" and fr: "frame_free bp f" and p: "length (pdata p) = PAGE_SIZE" "pin_count p \<ge> 0"
  shows "pool_wf (set_page bp f p)"
proof -
  note D = pool_wfD[OF wf]
  have f: "in_pool bp f" "f \<notin> ran (page_table bp)" "f \<notin> set (free_list bp)"
    using fr by (simp_all add: frame_free_def)
  have pg: "in_pool bp g \<Longrightarrow> pages (set_page bp f p) ! nat g = (if g = f then p else pages bp ! nat g)" for g
    using pages_set_page[of bp f g p] f by simp
  have ranp: "g \<in> ran (page_table bp) \<Longrightarrow> in_pool bp g \<and> g \<noteq> f" for g using D(7) f(2) by (auto simp: ran_def)
  have res: "in_pool bp g \<and> g \<noteq> f" if "page_table bp q = Some g" for q g using ranp[of g] that unfolding ran_def by blast
  show ?thesis
  proof (rule pool_wfI)
    show "length (pdata q) = PAGE_SIZE \<and> 0 \<le> pin_count q" if "q \<in> set (pages (set_page bp f p))" for q
      using set_pages_set_page[OF that] p D(6) by auto
    show "logical_ok q \<and> in_pool (set_page bp f p) g \<and> page_id (pages (set_page bp f p) ! nat g) = q"
      if "page_table (set_page bp f p) q = Some g" for q g
      using that D(7)[of q g] pg[of g] res[of q g] by simp
    show "in_pool (set_page bp f p) g \<and> g \<notin> ran (page_table (set_page bp f p)) \<and>
        pin_count (pages (set_page bp f p) ! nat g) = 0 \<and> page_id (pages (set_page bp f p) ! nat g) = INVALID_PAGE_ID"
      if "g \<in> set (free_list (set_page bp f p))" for g
      using that D(8)[of g] pg[of g] f(3) by auto
    show "set (frames (replacer (set_page bp f p))) =
        {g \<in> ran (page_table (set_page bp f p)). pin_count (pages (set_page bp f p) ! nat g) = 0}"
      using D(9) pg ranp by auto
    show "pdata (pages (set_page bp f p) ! nat g) = lpage (disk_mgr (set_page bp f p)) q"
      if "page_table (set_page bp f p) q = Some g" "pin_count (pages (set_page bp f p) ! nat g) = 0"
        "\<not> is_dirty (pages (set_page bp f p) ! nat g)" for q g
      using that D(10)[of q g] pg[of g] res[of q g] by simp
  qed (use D(1,2,3,4,5) in simp_all)
qed

lemma take_free_frame:
  assumes wf: "pool_wf bp" and ne: "free_list bp \<noteq> []"
  shows "pool_wf (bp\<lparr>free_list := butlast (free_list bp)\<rparr>)"
    and "frame_free (bp\<lparr>free_list := butlast (free_list bp)\<rparr>) (last (free_list bp))"
proof -
  note D = pool_wfD[OF wf]
  obtain xs x where fl: "free_list bp = xs @ [x]" using ne by (metis rev_exhaust)
  show "pool_wf (bp\<lparr>free_list := butlast (free_list bp)\<rparr>)"
    using wf fl by (auto simp: pool_wf_def)
  show "frame_free (bp\<lparr>free_list := butlast (free_list bp)\<rparr>) (last (free_list bp))"
    using D(5) D(8)[of x] fl by (auto simp: frame_free_def in_pool_def)
qed

text \<open>
  What \<open>reclaim_frame\<close> promises: a frame that holds no page, the same client view, and
  every other frame untouched.
\<close>

definition reclaimed :: "buffer_pool \<Rightarrow> frame_id_t \<Rightarrow> buffer_pool \<Rightarrow> bool" where
  "reclaimed bp f bp' \<longleftrightarrow> pool_wf bp' \<and> frame_free bp' f \<and> pin_count (pages bp' ! nat f) = 0 \<and>
     \<not> is_dirty (pages bp' ! nat f) \<and>
     (\<forall>q. logical_ok q \<longrightarrow> view bp' q = view bp q) \<and> pool_size bp' = pool_size bp \<and>
     (\<forall>q g. page_table bp' q = Some g \<longrightarrow> page_table bp q = Some g \<and> pages bp' ! nat g = pages bp ! nat g \<and>
        lpage (disk_mgr bp') q = lpage (disk_mgr bp) q) \<and>
     (\<forall>q g. page_table bp q = Some g \<longrightarrow> pin_count (pages bp ! nat g) > 0 \<longrightarrow>
        page_table bp' q = Some g \<and> pages bp' ! nat g = pages bp ! nat g) \<and>
     data_only (disk_mgr bp) (disk_mgr bp') \<and>
     set (free_list bp) \<union> ran (page_table bp) \<subseteq> insert f (set (free_list bp') \<union> ran (page_table bp'))"

lemma INVALID_not_logical [simp]: "\<not> logical_ok INVALID_PAGE_ID"
  by (simp add: logical_ok_def INVALID_PAGE_ID_def)

lemma INVALID_not_resident: "pool_wf bp \<Longrightarrow> page_table bp INVALID_PAGE_ID = None"
  using pool_wfD(7)[of bp INVALID_PAGE_ID] by (metis INVALID_not_logical option.exhaust)

lemma set_page_self: "in_pool bp f \<Longrightarrow> set_page bp f (pages bp ! nat f) = bp"
  by (simp add: set_page_def in_pool_def)

lemma reclaim_free_eq:
  assumes ne: "free_list bp \<noteq> []" and f: "in_pool bp (last (free_list bp))" "page_id (pages bp ! nat (last (free_list bp))) = INVALID_PAGE_ID"
    and none: "page_table bp INVALID_PAGE_ID = None"
  shows "reclaim_frame bp = Some (last (free_list bp), set_page (bp\<lparr>free_list := butlast (free_list bp)\<rparr>) (last (free_list bp))
    ((pages bp ! nat (last (free_list bp)))\<lparr>is_dirty := False\<rparr>))"
proof -
  let ?f = "last (free_list bp)" and ?bp1 = "bp\<lparr>free_list := butlast (free_list bp)\<rparr>"
  let ?p = "pages bp ! nat ?f"
  let ?bp' = "set_page ?bp1 ?f (?p\<lparr>is_dirty := False\<rparr>)"
  have f1: "in_pool ?bp1 ?f" using f(1) by (simp add: in_pool_def)
  have nonep: "page_table ?bp1 INVALID_PAGE_ID = None" using none by simp
  have pt: "(page_table bp)(INVALID_PAGE_ID := None) = page_table bp" using nonep by auto
  have pg: "pages ?bp' ! nat ?f = ?p\<lparr>is_dirty := False\<rparr>" using pages_set_page[OF f1 f1] by simp
  show ?thesis
  proof (cases "is_dirty ?p")
    case True
    then show ?thesis using ne f f1 nonep pg pt by (simp add: reclaim_frame_def take_frame_def FlushPage_def)
  next
    case False
    then have eq: "?p\<lparr>is_dirty := False\<rparr> = ?p" by simp
    have "?bp' = ?bp1" unfolding eq using set_page_self[OF f1] by simp
    with False show ?thesis using ne f f1 pt by (simp add: reclaim_frame_def take_frame_def)
  qed
qed

lemma reclaim_free:
  assumes wf: "pool_wf bp" and ne: "free_list bp \<noteq> []"
  shows "\<exists>bp'. reclaim_frame bp = Some (last (free_list bp), bp') \<and> reclaimed bp (last (free_list bp)) bp'"
proof -
  let ?f = "last (free_list bp)" and ?bp1 = "bp\<lparr>free_list := butlast (free_list bp)\<rparr>"
  let ?p = "pages bp ! nat ?f"
  let ?bp' = "set_page ?bp1 ?f (?p\<lparr>is_dirty := False\<rparr>)"
  note w1 = take_free_frame[OF wf ne]
  have f: "in_pool bp ?f" "pin_count ?p = 0" "page_id ?p = INVALID_PAGE_ID" "?f \<notin> ran (page_table bp)"
    using pool_wfD(8)[OF wf, of ?f] ne by auto
  have f1: "in_pool ?bp1 ?f" using f(1) by (simp add: in_pool_def)
  have pg: "pages ?bp' ! nat ?f = ?p\<lparr>is_dirty := False\<rparr>" using pages_set_page[OF f1 f1] by simp
  have oth: "pages ?bp' ! nat g = pages bp ! nat g" if "in_pool bp g" "g \<noteq> ?f" for g
    using pages_set_page[OF f1, of g "?p\<lparr>is_dirty := False\<rparr>"] that by (simp add: in_pool_def)
  have "reclaim_frame bp = Some (?f, ?bp')" by (rule reclaim_free_eq[OF ne f(1,3) INVALID_not_resident[OF wf]])
  moreover have "pool_wf ?bp'"
    by (rule pool_wf_idle_frame[OF w1]) (use in_pool_page[OF wf f(1)] in simp_all)
  moreover have "frame_free ?bp' ?f" using w1(2) by (simp add: frame_free_def)
  moreover have res: "in_pool bp g \<and> g \<noteq> ?f" if "page_table bp q = Some g" for q g
    using pool_wfD(7)[OF wf that] f(4) that unfolding ran_def by blast
  moreover have "view ?bp' q = view bp q" for q
    using res[of q] oth by (auto simp: view_def split: option.splits)
  moreover have "set (free_list bp) = insert ?f (set (butlast (free_list bp)))"
    using ne by (metis append_butlast_last_id list.set(2) rotate1.simps(2) set_rotate1)
  ultimately show ?thesis
    using f(2) pg oth data_only_refl[OF pool_wfD(2)[OF wf]] by (auto simp: reclaimed_def)
qed

text \<open>The disk after the victim has been written back if it was dirty.\<close>

lemma victim_disk:
  assumes wf: "pool_wf bp" and pid: "page_table bp pid = Some f" and pin: "pin_count (pages bp ! nat f) = 0"
  obtains dm where "disk_ok dm"
    and "\<And>k. logical_ok k \<Longrightarrow> lpage dm k = (if k = pid then pdata (pages bp ! nat f) else lpage (disk_mgr bp) k)"
    and "is_dirty (pages bp ! nat f) \<Longrightarrow> WritePage (disk_mgr bp) pid (pdata (pages bp ! nat f)) = Some dm"
    and "\<not> is_dirty (pages bp ! nat f) \<Longrightarrow> dm = disk_mgr bp" and "data_only (disk_mgr bp) dm"
proof (cases "is_dirty (pages bp ! nat f)")
  case True
  have "logical_ok pid" and "length (pdata (pages bp ! nat f)) = PAGE_SIZE"
    using pool_wfD(7)[OF wf pid] in_pool_page[OF wf] by auto
  with True show thesis using that WritePage_ok[OF pool_wfD(2)[OF wf]] data_onlyI by metis
next
  case False
  then show thesis
    using that[of "disk_mgr bp"] pool_wfD(2)[OF wf] pool_wfD(10)[OF wf pid pin] data_only_refl by auto
qed

lemma evicted_view:
  assumes wf: "pool_wf bp" and pid: "page_table bp pid = Some f" and q: "logical_ok q"
    and dm: "\<And>k. logical_ok k \<Longrightarrow> lpage dm k = (if k = pid then pdata (pages bp ! nat f) else lpage (disk_mgr bp) k)"
  shows "view (set_page (bp\<lparr>replacer := r, disk_mgr := dm, page_table := (page_table bp)(pid := None)\<rparr>) f p) q = view bp q"
proof (cases "page_table bp q")
  case None
  moreover from None pid have "q \<noteq> pid" by auto
  ultimately show ?thesis using dm[OF q] by (simp add: view_def)
next
  case (Some g)
  let ?bp = "bp\<lparr>replacer := r, disk_mgr := dm, page_table := (page_table bp)(pid := None)\<rparr>"
  show ?thesis
  proof (cases "q = pid")
    case True
    then show ?thesis using dm[OF q] pid by (simp add: view_def)
  next
    case False
    then have "g \<noteq> f" and "in_pool ?bp g" and "in_pool ?bp f"
      using Some page_table_inj[OF wf pid, of q] pool_wfD(7)[OF wf Some] pool_wfD(7)[OF wf pid]
      by (auto simp: in_pool_def)
    then show ?thesis using Some False pages_set_page[of ?bp f g p] by (simp add: view_def)
  qed
qed

lemma reclaim_victim_eq:
  assumes wf: "pool_wf bp" and e: "free_list bp = []" and r: "Victim (replacer bp) = Some (Some f, r)"
    and pid: "page_table bp pid = Some f"
    and dirty: "is_dirty (pages bp ! nat f) \<Longrightarrow> WritePage (disk_mgr bp) pid (pdata (pages bp ! nat f)) = Some dm"
    and clean: "\<not> is_dirty (pages bp ! nat f) \<Longrightarrow> dm = disk_mgr bp"
  shows "reclaim_frame bp = Some (f, set_page (bp\<lparr>replacer := r, disk_mgr := dm,
    page_table := (page_table bp)(pid := None)\<rparr>) f ((pages bp ! nat f)\<lparr>is_dirty := False\<rparr>))"
proof -
  let ?p = "pages bp ! nat f"
  have f: "in_pool bp f" "page_id ?p = pid" using pool_wfD(7)[OF wf pid] by auto
  have g: "in_pool (bp\<lparr>replacer := r\<rparr>) f" "in_pool (bp\<lparr>replacer := r, disk_mgr := dm\<rparr>) f"
    using f(1) by (simp_all add: in_pool_def)
  show ?thesis
  proof (cases "is_dirty ?p")
    case True
    then show ?thesis
      using e r f pid dirty g pages_set_page[OF g(2) g(2)]
      by (simp add: reclaim_frame_def take_frame_def FlushPage_def) (simp add: set_page_def)
  next
    case False
    then have eq: "?p\<lparr>is_dirty := False\<rparr> = ?p" by simp
    show ?thesis
      unfolding eq using False e r f clean g by (simp add: reclaim_frame_def take_frame_def set_page_def)
  qed
qed

lemma reclaim_victim:
  assumes wf: "pool_wf bp" and e: "free_list bp = []" and ne: "frames (replacer bp) \<noteq> []"
  shows "\<exists>bp'. reclaim_frame bp = Some (last (frames (replacer bp)), bp') \<and>
    reclaimed bp (last (frames (replacer bp))) bp'"
proof -
  let ?f = "last (frames (replacer bp))"
  let ?p = "pages bp ! nat ?f"
  note D = pool_wfD[OF wf]
  obtain r where r: "Victim (replacer bp) = Some (Some ?f, r)" "lru_wf r" "max_size r = max_size (replacer bp)"
    "frames r = butlast (frames (replacer bp))" using Victim_ok[OF D(3) ne] by blast
  have dist: "distinct (frames (replacer bp))" using D(3) by (simp add: lru_wf_def)
  have fr: "set (frames r) = set (frames (replacer bp)) - {?f}"
    unfolding r(4) filter_neq_last[OF dist ne, symmetric] by auto
  have "?f \<in> set (frames (replacer bp))" using ne by simp
  then have pin: "pin_count ?p = 0" and "?f \<in> ran (page_table bp)" using D(9) by auto
  then obtain pid where pid: "page_table bp pid = Some ?f" unfolding ran_def by blast
  have f: "logical_ok pid" "in_pool bp ?f" using D(7)[OF pid] by auto
  obtain dm where dm: "disk_ok dm" "\<And>k. logical_ok k \<Longrightarrow> lpage dm k = (if k = pid then pdata ?p else lpage (disk_mgr bp) k)"
    "is_dirty ?p \<Longrightarrow> WritePage (disk_mgr bp) pid (pdata ?p) = Some dm" "\<not> is_dirty ?p \<Longrightarrow> dm = disk_mgr bp"
    "data_only (disk_mgr bp) dm"
    by (rule victim_disk[OF wf pid pin]) blast
  let ?bp1 = "bp\<lparr>replacer := r, disk_mgr := dm, page_table := (page_table bp)(pid := None)\<rparr>"
  let ?bp' = "set_page ?bp1 ?f (?p\<lparr>is_dirty := False\<rparr>)"
  have rec: "reclaim_frame bp = Some (?f, ?bp')"
    by (rule reclaim_victim_eq[OF wf e r(1) pid dm(3,4)])
  have wf': "pool_wf ?bp'"
    by (rule pool_wf_evict[OF wf pid]) (use in_pool_page[OF wf f(2)] pin r fr dm in simp_all)
  have old: "page_table bp q = Some g \<and> g \<noteq> ?f \<and> q \<noteq> pid" if "page_table ?bp' q = Some g" for q g
    using that pid page_table_inj[OF wf pid, of q] by (auto split: if_splits)
  have pg: "pages ?bp' ! nat g = (if g = ?f then ?p\<lparr>is_dirty := False\<rparr> else pages bp ! nat g)" if "in_pool bp g" for g
    using pages_set_page[of ?bp1 ?f g] that f(2) by (simp add: in_pool_def)
  have ff: "frame_free ?bp' ?f"
  proof -
    have "page_table ?bp' q \<noteq> Some ?f" for q using old[of q ?f] by blast
    then show ?thesis using f(2) e unfolding frame_free_def ran_def by (auto simp: in_pool_def)
  qed
  have keep: "page_table ?bp' q = Some g \<and> pages ?bp' ! nat g = pages bp ! nat g"
    if "page_table bp q = Some g" "pin_count (pages bp ! nat g) > 0" for q g
  proof -
    have "g \<noteq> ?f" using that(2) pin by auto
    moreover from this that(1) pid have "q \<noteq> pid" by auto
    ultimately show ?thesis using that(1) D(7)[OF that(1)] pg[of g] by simp
  qed
  have "reclaimed bp ?f ?bp'"
    unfolding reclaimed_def
  proof (intro conjI allI impI)
    show "pin_count (pages ?bp' ! nat ?f) = 0" and "\<not> is_dirty (pages ?bp' ! nat ?f)"
      using pg[OF f(2)] pin by simp_all
    show "view ?bp' q = view bp q" if "logical_ok q" for q by (rule evicted_view[OF wf pid that dm(2)])
    show "page_table bp q = Some g" "pages ?bp' ! nat g = pages bp ! nat g" "lpage (disk_mgr ?bp') q = lpage (disk_mgr bp) q"
      if "page_table ?bp' q = Some g" for q g
      using old[OF that] D(7)[of q g] pg[of g] dm(2)[of q] by simp_all
    show "set (free_list bp) \<union> ran (page_table bp) \<subseteq> insert ?f (set (free_list ?bp') \<union> ran (page_table ?bp'))"
    proof -
      have "x \<in> ran (page_table ?bp')" if "page_table bp a = Some x" "x \<noteq> ?f" for x a
        by (rule ranI[of _ a]) (use that pid in auto)
      moreover have "\<exists>a. page_table bp a = Some x" if "x \<in> ran (page_table bp)" for x using that by (simp add: ran_def)
      ultimately show ?thesis using e by fastforce
    qed
    show "data_only (disk_mgr bp) (disk_mgr ?bp')" using dm(5) by simp
  qed (use wf' ff keep in blast, use wf' ff keep in blast, simp, use keep in blast, use keep in blast)
  with rec show ?thesis by blast
qed

lemma FetchPage_miss:
  assumes wf: "pool_wf bp" and none: "page_table bp pid = None" and pid: "logical_ok pid"
    and avail: "free_list bp \<noteq> [] \<or> frames (replacer bp) \<noteq> []"
  shows "\<exists>f bp'. FetchPage bp pid = Some (f, bp') \<and> pool_wf bp' \<and> page_table bp' pid = Some f \<and>
    pdata (pages bp' ! nat f) = view bp pid \<and> pin_count (pages bp' ! nat f) = 1 \<and>
    \<not> is_dirty (pages bp' ! nat f) \<and> (\<forall>q. logical_ok q \<longrightarrow> view bp' q = view bp q) \<and>
    (\<forall>q g. page_table bp q = Some g \<longrightarrow> pin_count (pages bp ! nat g) > 0 \<longrightarrow>
       page_table bp' q = Some g \<and> pages bp' ! nat g = pages bp ! nat g) \<and>
    (\<forall>q g. page_table bp' q = Some g \<longrightarrow> q \<noteq> pid \<longrightarrow> page_table bp q = Some g \<and> pages bp' ! nat g = pages bp ! nat g \<and>
       lpage (disk_mgr bp') q = lpage (disk_mgr bp) q) \<and> lpage (disk_mgr bp') pid = view bp pid \<and>
    data_only (disk_mgr bp) (disk_mgr bp') \<and> pool_size bp' = pool_size bp \<and>
    set (free_list bp) \<union> ran (page_table bp) \<subseteq> set (free_list bp') \<union> ran (page_table bp')"
proof -
  obtain f bp2 where rec: "reclaim_frame bp = Some (f, bp2)" "reclaimed bp f bp2"
    using reclaim_free[OF wf] reclaim_victim[OF wf] avail by (cases "free_list bp = []") auto
  have R: "pool_wf bp2" "frame_free bp2 f" "pin_count (pages bp2 ! nat f) = 0" "\<not> is_dirty (pages bp2 ! nat f)"
    "\<And>q. logical_ok q \<Longrightarrow> view bp2 q = view bp q" "\<And>q g. page_table bp2 q = Some g \<Longrightarrow> page_table bp q = Some g"
    "\<And>q g. page_table bp q = Some g \<Longrightarrow> pin_count (pages bp ! nat g) > 0 \<Longrightarrow>
        page_table bp2 q = Some g \<and> pages bp2 ! nat g = pages bp ! nat g"
    "\<And>q g. page_table bp2 q = Some g \<Longrightarrow> pages bp2 ! nat g = pages bp ! nat g \<and> lpage (disk_mgr bp2) q = lpage (disk_mgr bp) q"
    "data_only (disk_mgr bp) (disk_mgr bp2)" "pool_size bp2 = pool_size bp"
    "set (free_list bp) \<union> ran (page_table bp) \<subseteq> insert f (set (free_list bp2) \<union> ran (page_table bp2))"
    using rec(2) unfolding reclaimed_def by blast+
  have none2: "page_table bp2 pid = None" using R(6)[of pid] none by (cases "page_table bp2 pid") auto
  have ip: "in_pool bp2 f" using R(2) by (simp add: frame_free_def)
  let ?d = "lpage (disk_mgr bp2) pid"
  have d: "?d = view bp pid" using R(5)[OF pid] none2 by (simp add: view_def)
  let ?p = "(pages bp2 ! nat f)\<lparr>page_id := pid, pin_count := pin_count (pages bp2 ! nat f) + 1, pdata := ?d\<rparr>"
  let ?bp3 = "bp2\<lparr>page_table := (page_table bp2)(pid \<mapsto> f)\<rparr>"
  have ip3: "in_pool ?bp3 g = in_pool bp2 g" for g by (simp add: in_pool_def)
  have fetch: "FetchPage bp pid = Some (f, set_page ?bp3 f ?p)"
    using none rec(1) ip ReadPage_ok[OF pool_wfD(2)[OF R(1)] pid]
    by (simp add: FetchPage_def ip3 ResetMemory_def)
  have wf3: "pool_wf (set_page ?bp3 f ?p)"
    by (rule pool_wf_install[OF R(1,2) pid none2]) (use R(3) in simp_all)
  have pg: "pages (set_page ?bp3 f ?p) ! nat g = (if g = f then ?p else pages bp2 ! nat g)" if "in_pool bp2 g" for g
    using pages_set_page[of ?bp3 f g ?p] that ip by (simp add: ip3)
  have res: "in_pool bp2 g \<and> g \<noteq> f" if "page_table bp2 q = Some g" for q g
    using pool_wfD(7)[OF R(1) that] R(2) that unfolding frame_free_def ran_def by blast
  have vw: "view (set_page ?bp3 f ?p) q = view bp q" if q: "logical_ok q" for q
  proof (cases "q = pid")
    case True
    then show ?thesis using pg[OF ip] d by (simp add: view_def)
  next
    case False
    then have "view (set_page ?bp3 f ?p) q = view bp2 q"
      using res[of q] pg by (auto simp: view_def split: option.splits)
    then show ?thesis using R(5)[OF q] by simp
  qed
  have keep: "page_table (set_page ?bp3 f ?p) q = Some g \<and> pages (set_page ?bp3 f ?p) ! nat g = pages bp ! nat g"
    if "page_table bp q = Some g" "pin_count (pages bp ! nat g) > 0" for q g
  proof -
    from R(7)[OF that] have k: "page_table bp2 q = Some g" "pages bp2 ! nat g = pages bp ! nat g" by auto
    moreover from that(1) none have "q \<noteq> pid" by auto
    ultimately show ?thesis using res[OF k(1)] pg[of g] by simp
  qed
  have older: "page_table bp q = Some g \<and> pages (set_page ?bp3 f ?p) ! nat g = pages bp ! nat g \<and> lpage (disk_mgr bp2) q = lpage (disk_mgr bp) q"
    if "page_table (set_page ?bp3 f ?p) q = Some g" "q \<noteq> pid" for q g
    using that R(6,8)[of q g] res[of q g] pg[of g] by simp
  have nl: "set (free_list bp) \<union> ran (page_table bp) \<subseteq> set (free_list bp2) \<union> ran (page_table ?bp3)"
    using R(11) none2 by simp
  show ?thesis
  proof (intro exI conjI)
    show "pdata (pages (set_page ?bp3 f ?p) ! nat f) = view bp pid"
      "pin_count (pages (set_page ?bp3 f ?p) ! nat f) = 1" "\<not> is_dirty (pages (set_page ?bp3 f ?p) ! nat f)"
      using pg[OF ip] d R(3,4) by simp_all
    show "\<forall>q g. page_table (set_page ?bp3 f ?p) q = Some g \<longrightarrow> q \<noteq> pid \<longrightarrow> page_table bp q = Some g \<and>
      pages (set_page ?bp3 f ?p) ! nat g = pages bp ! nat g \<and> lpage (disk_mgr (set_page ?bp3 f ?p)) q = lpage (disk_mgr bp) q"
      using older by simp
    show "lpage (disk_mgr (set_page ?bp3 f ?p)) pid = view bp pid" "data_only (disk_mgr bp) (disk_mgr (set_page ?bp3 f ?p))"
      "pool_size (set_page ?bp3 f ?p) = pool_size bp"
      "set (free_list bp) \<union> ran (page_table bp) \<subseteq> set (free_list (set_page ?bp3 f ?p)) \<union> ran (page_table (set_page ?bp3 f ?p))"
      using d R(9,10) nl by simp_all
  qed (use fetch wf3 vw keep in \<open>simp_all only: set_page_simps\<close>, simp_all)
qed

lemma frames_room:
  assumes wf: "pool_wf bp" and f: "in_pool bp f" "f \<notin> set (frames (replacer bp))"
  shows "length (frames (replacer bp)) < pool_size bp"
proof -
  note D = pool_wfD[OF wf]
  have "set (frames (replacer bp)) \<subseteq> int ` {..<pool_size bp} - {f}"
  proof
    fix g assume g: "g \<in> set (frames (replacer bp))"
    then have "g \<in> ran (page_table bp)" using D(9) by blast
    then have "in_pool bp g" using D(7) unfolding ran_def by blast
    then show "g \<in> int ` {..<pool_size bp} - {f}"
      using g f(2) D(1) by (auto simp: in_pool_def image_iff intro!: bexI[of _ "nat g"])
  qed
  then have "card (set (frames (replacer bp))) \<le> card (int ` {..<pool_size bp} - {f})"
    by (intro card_mono) auto
  moreover have "f \<in> int ` {..<pool_size bp}"
    using f(1) D(1) by (auto simp: in_pool_def image_iff intro!: bexI[of _ "nat f"])
  moreover have "card (int ` {..<pool_size bp}) = pool_size bp" by (simp add: card_image)
  moreover have "distinct (frames (replacer bp))" using D(3) by (simp add: lru_wf_def)
  ultimately show ?thesis
    by (metis (no_types, lifting) card_Diff1_less distinct_card finite_imageI finite_lessThan le_less_trans)
qed

text \<open>The replacer after the pin count of a resident frame has dropped.\<close>

lemma Unpin_frames:
  assumes wf: "pool_wf bp" and pt: "page_table bp pid = Some f" and pin: "pin_count (pages bp ! nat f) > 0"
  shows "frames (Unpin (replacer bp) f) = f # frames (replacer bp)"
proof -
  have "f \<notin> set (frames (replacer bp))" using pool_wfD(9)[OF wf] pin by auto
  with frames_room[OF wf _ this] pool_wfD(7)[OF wf pt] show ?thesis
    using Unpin_ok(3)[OF pool_wfD(3)[OF wf], of f] pool_wfD(4)[OF wf] by simp
qed

lemma UnpinPage_ok:
  assumes wf: "pool_wf bp" and pt: "page_table bp pid = Some f" and pin: "pin_count (pages bp ! nat f) > 0"
    and coh: "dirty \<or> pin_count (pages bp ! nat f) > 1 \<or> is_dirty (pages bp ! nat f) \<or>
      pdata (pages bp ! nat f) = lpage (disk_mgr bp) pid"
  shows "\<exists>bp'. UnpinPage bp pid dirty = Some (True, bp') \<and> pool_wf bp' \<and> page_table bp' = page_table bp \<and>
    (\<forall>q. logical_ok q \<longrightarrow> view bp' q = view bp q) \<and> (dirty \<longrightarrow> lpage (disk_mgr bp') pid = view bp pid) \<and>
    pages bp' = (pages bp)[nat f := (pages bp ! nat f)\<lparr>pin_count := pin_count (pages bp ! nat f) - 1,
      is_dirty := \<not> dirty \<and> is_dirty (pages bp ! nat f)\<rparr>] \<and> pool_size bp' = pool_size bp \<and> free_list bp' = free_list bp \<and>
    data_only (disk_mgr bp) (disk_mgr bp') \<and>
    (\<forall>k. logical_ok k \<longrightarrow> k \<noteq> pid \<or> \<not> dirty \<longrightarrow> lpage (disk_mgr bp') k = lpage (disk_mgr bp) k)"
proof -
  note D = pool_wfD[OF wf]
  let ?p = "pages bp ! nat f"
  have f: "logical_ok pid" "in_pool bp f" "page_id ?p = pid" using D(7)[OF pt] by auto
  define r where "r = (if pin_count ?p = 1 then Unpin (replacer bp) f else replacer bp)"
  have nf: "f \<notin> set (frames (replacer bp))" using D(9) pin by auto
  have r: "lru_wf r" "max_size r = max_size (replacer bp)"
    "set (frames r) = (if pin_count ?p = 1 then insert f (set (frames (replacer bp))) else set (frames (replacer bp)) - {f})"
    using Unpin_ok[OF D(3), of f] Unpin_frames[OF wf pt pin] D(3) nf by (auto simp: r_def)
  define p1 where "p1 = ?p\<lparr>pin_count := pin_count ?p - 1, is_dirty := is_dirty ?p \<or> dirty\<rparr>"
  let ?bp1 = "set_page (bp\<lparr>replacer := r, disk_mgr := disk_mgr bp\<rparr>) f p1"
  have wf1: "pool_wf ?bp1"
    by (rule pool_wf_update[OF wf pt])
      (use f in_pool_page[OF wf f(2)] pin r D(2) coh in \<open>auto simp: p1_def\<close>)
  have v1: "view ?bp1 q = view bp q" if "logical_ok q" for q
    using view_set_page[OF wf pt that, of "disk_mgr bp" r p1] pt by (simp add: p1_def view_def)
  have pt1: "page_table ?bp1 pid = Some f" using pt by simp
  have set2: "set_page (set_page (bp\<lparr>replacer := r\<rparr>) f x) f y = set_page (bp\<lparr>replacer := r\<rparr>) f y" for x y
    by (simp add: set_page_def)
  have set3: "(set_page bp f x)\<lparr>replacer := r\<rparr> = set_page (bp\<lparr>replacer := r\<rparr>) f x" for x
    by (simp add: set_page_def)
  show ?thesis
  proof (cases dirty)
    case True
    have "UnpinPage bp pid True = do { (_, bp3) \<leftarrow> FlushPage ?bp1 pid; Some (True, bp3) }"
      using pt f(2) pin True set2 set3
      by (auto simp: UnpinPage_def p1_def r_def Let_def)
    moreover have "pages ?bp1 ! nat f = p1" using f(2) by (simp add: set_page_def in_pool_def)
    ultimately show ?thesis using FlushPage_ok[OF wf1 pt1] True v1 f(1) by (auto simp: same_frames_def p1_def set_page_def)
  next
    case False
    then have "UnpinPage bp pid False = Some (True, ?bp1)"
      using pt f(2) pin set3 by (auto simp: UnpinPage_def p1_def r_def Let_def)
    with False wf1 v1 data_only_refl[OF D(2)] show ?thesis by (simp add: p1_def set_page_def)
  qed
qed

lemma flush_all_ok:
  assumes "pool_wf bp" and "set ks \<subseteq> dom (page_table bp)"
  shows "\<exists>bp'. flush_all bp ks = Some bp' \<and> pool_wf bp' \<and> page_table bp' = page_table bp \<and>
    (\<forall>q. logical_ok q \<longrightarrow> view bp' q = view bp q) \<and>
    (\<forall>q. logical_ok q \<longrightarrow> lpage (disk_mgr bp') q = (if q \<in> set ks then view bp q else lpage (disk_mgr bp) q))"
  using assms
proof (induction ks arbitrary: bp)
  case Nil
  then show ?case by simp
next
  case (Cons pid ks)
  then obtain f where pt: "page_table bp pid = Some f" by auto
  obtain bp1 where b: "FlushPage bp pid = Some (True, bp1)" "pool_wf bp1" "page_table bp1 = page_table bp"
    "\<forall>q. logical_ok q \<longrightarrow> view bp1 q = view bp q"
    "\<forall>k. logical_ok k \<longrightarrow> lpage (disk_mgr bp1) k = (if k = pid then view bp pid else lpage (disk_mgr bp) k)"
    using FlushPage_ok[OF Cons.prems(1) pt] by blast
  have "set ks \<subseteq> dom (page_table bp1)" using Cons.prems(2) b(3) by simp
  from Cons.IH[OF b(2) this] obtain bp' where "flush_all bp1 ks = Some bp'" "pool_wf bp'"
    "page_table bp' = page_table bp1" "\<forall>q. logical_ok q \<longrightarrow> view bp' q = view bp1 q"
    "\<forall>q. logical_ok q \<longrightarrow> lpage (disk_mgr bp') q = (if q \<in> set ks then view bp1 q else lpage (disk_mgr bp1) q)"
    by blast
  with b show ?case by auto
qed

lemma pool_wf_disk:
  assumes "pool_wf bp" and "disk_ok dm" and "\<And>k. lpage dm k = lpage (disk_mgr bp) k"
  shows "pool_wf (bp\<lparr>disk_mgr := dm\<rparr>)"
  using assms by (simp add: pool_wf_def)

text \<open>Every resident page is an allocated page.\<close>

definition resident_allocated :: "buffer_pool \<Rightarrow> bool" where
  "resident_allocated bp \<longleftrightarrow> (\<forall>pid \<in> dom (page_table bp). nat pid \<in> disk_used (disk_mgr bp))"

lemma fresh_not_resident:
  assumes "resident_allocated bp" and "l \<notin> disk_used (disk_mgr bp)"
  shows "page_table bp (int l) = None"
  using assms by (auto simp: resident_allocated_def dom_def)

lemma NewPage_free:
  assumes wf: "pool_wf bp" and dw: "disk_wf (disk_mgr bp)" and ra: "resident_allocated bp"
    and room: "\<exists>l < MAX_EXTENTS * BITMAP_SIZE. l \<notin> disk_used (disk_mgr bp)" and ne: "free_list bp \<noteq> []"
  shows "\<exists>l f bp'. NewPage bp = Some (Some (int l, f), bp') \<and> pool_wf bp' \<and> resident_allocated bp' \<and>
    l \<notin> disk_used (disk_mgr bp) \<and> page_table bp' (int l) = Some f \<and> pin_count (pages bp' ! nat f) = 1 \<and>
    (\<forall>q. logical_ok q \<longrightarrow> view bp' q = (if q = int l then replicate PAGE_SIZE 0 else view bp q)) \<and>
    l < MAX_EXTENTS * BITMAP_SIZE \<and> page_table bp' = (page_table bp)(int l \<mapsto> f) \<and> f = last (free_list bp) \<and>
    free_list bp' = butlast (free_list bp) \<and> pool_size bp' = pool_size bp \<and> is_dirty (pages bp' ! nat f) \<and>
    (\<forall>q g. page_table bp q = Some g \<longrightarrow> pages bp' ! nat g = pages bp ! nat g) \<and>
    disk_wf (disk_mgr bp') \<and> disk_used (disk_mgr bp') = insert l (disk_used (disk_mgr bp)) \<and>
    (\<forall>k. lpage (disk_mgr bp') k = lpage (disk_mgr bp) k)"
proof -
  obtain dm l where a: "allocates (disk_mgr bp) dm l" using AllocatePage_allocates[OF dw room] by blast
  then have al: "AllocatePage (disk_mgr bp) = Some (dm, int l)" "disk_wf dm" "l \<notin> disk_used (disk_mgr bp)"
    "l < MAX_EXTENTS * BITMAP_SIZE" "disk_used dm = insert l (disk_used (disk_mgr bp))"
    "\<And>k. lpage dm k = lpage (disk_mgr bp) k" by (auto simp: allocates_def)
  have lo: "logical_ok (int l)" using al(4) by (simp add: logical_ok_def del: of_nat_mult)
  let ?bp1 = "bp\<lparr>disk_mgr := dm\<rparr>" and ?f = "last (free_list bp)"
  have wf1: "pool_wf ?bp1" using al by (intro pool_wf_disk[OF wf]) (auto simp: disk_wf_def)
  let ?bp2 = "?bp1\<lparr>free_list := butlast (free_list ?bp1)\<rparr>"
  have w2: "pool_wf ?bp2" "frame_free ?bp2 ?f" using take_free_frame[OF wf1] ne by simp_all
  have none: "page_table bp (int l) = None" by (rule fresh_not_resident[OF ra al(3)])
  let ?p = "(pages bp ! nat ?f)\<lparr>pdata := replicate PAGE_SIZE 0, page_id := int l, pin_count := 1, is_dirty := True\<rparr>"
  let ?bp3 = "?bp2\<lparr>page_table := (page_table ?bp2)(int l \<mapsto> ?f)\<rparr>"
  have ip: "in_pool ?bp2 ?f" using w2(2) by (simp add: frame_free_def)
  have ip3: "in_pool ?bp3 g = in_pool ?bp2 g" for g by (simp add: in_pool_def)
  have new: "NewPage bp = Some (Some (int l, ?f), set_page ?bp3 ?f ?p)"
    using ne al(1) ip by (simp add: NewPage_def BufferPool_AllocatePage_def install_new_def Let_def ResetMemory_def)
  have wf3: "pool_wf (set_page ?bp3 ?f ?p)"
    by (rule pool_wf_install[OF w2 lo]) (use none in simp_all)
  have pg: "pages (set_page ?bp3 ?f ?p) ! nat g = (if g = ?f then ?p else pages bp ! nat g)" if "in_pool ?bp2 g" for g
    using pages_set_page[of ?bp3 ?f g ?p] that ip by simp
  have res: "in_pool ?bp2 g \<and> g \<noteq> ?f" if "page_table bp q = Some g" for q g
    using pool_wfD(7)[OF w2(1), of q g] w2(2) that unfolding frame_free_def ran_def by auto
  have vw: "view (set_page ?bp3 ?f ?p) q = (if q = int l then replicate PAGE_SIZE 0 else view bp q)" for q
    using pg[OF ip] res[of q] pg al(6) by (auto simp: view_def split: option.splits)
  have "resident_allocated (set_page ?bp3 ?f ?p)"
    using ra al(5) by (auto simp: resident_allocated_def)
  moreover have "pages (set_page ?bp3 ?f ?p) ! nat g = pages bp ! nat g" if "page_table bp q = Some g" for q g
    using res[OF that] pg[of g] by simp
  ultimately show ?thesis using new wf3 al vw pg[OF ip] by (intro exI[of _ l] exI[of _ ?f] exI) auto
qed

section \<open>Where the pool breaks its own invariant\<close>

lemma DeletePage_resident:
  assumes wf: "pool_wf bp" and dw: "disk_wf (disk_mgr bp)" and pt: "page_table bp pid = Some f"
    and pin: "pin_count (pages bp ! nat f) = 0"
  shows "\<exists>bp'. DeletePage bp pid = Some (True, bp') \<and> page_table bp' = (page_table bp)(pid := None) \<and>
    free_list bp' = free_list bp @ [f] \<and> replacer bp' = replacer bp"
proof -
  have f: "logical_ok pid" "in_pool bp f" using pool_wfD(7)[OF wf pt] by auto
  then obtain n where n: "pid = int n" "n < MAX_EXTENTS * BITMAP_SIZE" by (auto elim: logical_okE)
  obtain dm where "DeAllocatePage (disk_mgr bp) pid = Some dm"
    using DeAllocatePage_ok[OF dw n(2)] n(1) by blast
  moreover have "in_pool (bp\<lparr>disk_mgr := dm\<rparr>) f" using f(2) by (simp add: in_pool_def)
  ultimately show ?thesis
    using pt pin by (simp add: DeletePage_def BufferPool_DeallocatePage_def)
qed

lemma NewPage_evict:
  assumes wf: "pool_wf bp" and dw: "disk_wf (disk_mgr bp)" and ra: "resident_allocated bp"
    and room: "\<exists>l < MAX_EXTENTS * BITMAP_SIZE. l \<notin> disk_used (disk_mgr bp)"
    and e: "free_list bp = []" and fr: "frames (replacer bp) = fs @ [b, a]"
  shows "\<exists>l q bp'. NewPage bp = Some (Some (int l, b), bp') \<and> q \<noteq> int l \<and> page_table bp q = Some b \<and>
    page_table bp' = (page_table bp)(int l \<mapsto> b) \<and> view bp' q = replicate PAGE_SIZE 0 \<and>
    frames (replacer bp') = fs \<and> free_list bp' = []"
proof -
  note D = pool_wfD[OF wf]
  obtain dm l where al: "allocates (disk_mgr bp) dm l" using AllocatePage_allocates[OF dw room] by blast
  then have al': "AllocatePage (disk_mgr bp) = Some (dm, int l)" "l \<notin> disk_used (disk_mgr bp)"
    by (auto simp: allocates_def)
  obtain r1 where r1: "Victim (replacer bp) = Some (Some a, r1)" "lru_wf r1" "frames r1 = fs @ [b]"
    using Victim_ok[OF D(3)] fr by (auto simp: butlast_append)
  obtain r2 where r2: "Victim r1 = Some (Some b, r2)" "lru_wf r2" "frames r2 = fs"
    using Victim_ok[OF r1(2)] r1(3) by auto
  have "b \<in> set (frames (replacer bp))" using fr by simp
  then obtain q where q: "page_table bp q = Some b" using D(9) unfolding ran_def by blast
  then have ib: "in_pool bp b" using D(7)[OF q] by simp
  have neq: "q \<noteq> int l" using fresh_not_resident[OF ra al'(2)] q by auto
  let ?p = "(pages bp ! nat b)\<lparr>pdata := replicate PAGE_SIZE 0, page_id := int l, pin_count := 1, is_dirty := True\<rparr>"
  let ?bp3 = "bp\<lparr>disk_mgr := dm, replacer := r2, page_table := (page_table bp)(int l \<mapsto> b)\<rparr>"
  have ip: "in_pool ?bp3 b" using ib by (simp add: in_pool_def)
  have "NewPage bp = Some (Some (int l, b), set_page ?bp3 b ?p)"
    using e r1(1) r2(1) al'(1) ip
    by (simp add: NewPage_def BufferPool_AllocatePage_def install_new_def Let_def ResetMemory_def)
  moreover have "view (set_page ?bp3 b ?p) q = replicate PAGE_SIZE 0"
    using q neq pages_set_page[OF ip ip] by (simp add: view_def)
  ultimately show ?thesis using neq q r2(3) e by auto
qed

lemma aliased_not_wf: "page_table bp a = Some f \<Longrightarrow> page_table bp b = Some f \<Longrightarrow> a \<noteq> b \<Longrightarrow> \<not> pool_wf bp"
  using page_table_inj by blast

section \<open>Concrete pools\<close>

lemma pool_wf_new:
  assumes "disk_ok dm" and "n < 2 ^ 64"
  shows "pool_wf (BufferPoolManager_new n dm)"
  using assms lru_wf_new(1)[of "of_nat n"] lru_wf_new(2)[of "of_nat n"]
  by (auto simp: pool_wf_def BufferPoolManager_new_def Page_new_def LRUReplacer_new_def distinct_map
      inj_on_def take_bit_nat_eq_self_iff unat_of_nat)

text \<open>A disk with pages 0 and 1 allocated, and a full pool of two unpinned pages over it.\<close>

lemma two_page_disk: "\<exists>dm. disk_wf dm \<and> disk_used dm = {0, 1}"
proof -
  from AllocatePage_allocates[OF disk_wf_empty empty_disk_free] obtain d1 l1
    where a: "allocates empty_disk d1 l1" by blast
  then have l1: "l1 = 0" "disk_wf d1" "disk_used d1 = {0}" by (auto simp: allocates_def disk_used_empty)
  have "\<exists>l < MAX_EXTENTS * BITMAP_SIZE. l \<notin> disk_used d1"
    by (rule exI[of _ 1]) (simp add: l1 MAX_EXTENTS_def BITMAP_SIZE_eq)
  from AllocatePage_allocates[OF l1(2) this] obtain d2 l2 where b: "allocates d1 d2 l2" by blast
  then have "l2 \<noteq> 0" "{..<l2} \<subseteq> {0}" "disk_wf d2" "disk_used d2 = insert l2 {0}"
    by (auto simp: allocates_def l1)
  moreover from this have "l2 = 1" by (cases l2) (auto simp: lessThan_Suc)
  ultimately show ?thesis by auto
qed

definition full_pool :: "disk_manager \<Rightarrow> buffer_pool" where
  "full_pool dm = \<lparr>pool_size = 2,
     pages = [\<lparr>pdata = replicate PAGE_SIZE 0, page_id = 0, pin_count = 0, is_dirty = True\<rparr>,
              \<lparr>pdata = replicate PAGE_SIZE 0, page_id = 1, pin_count = 0, is_dirty = True\<rparr>],
     disk_mgr = dm, page_table = [0 \<mapsto> 0, 1 \<mapsto> 1],
     replacer = Unpin (Unpin (LRUReplacer_new 2) 0) 1, free_list = []\<rparr>"

lemma full_pool_frames: "frames (replacer (full_pool dm)) = [] @ [1, 0]" "lru_wf (replacer (full_pool dm))"
  "max_size (replacer (full_pool dm)) = 2"
proof -
  note n = lru_wf_new[of 2] and u1 = Unpin_ok[OF lru_wf_new(1)[of 2], of 0]
  have m: "max_size (LRUReplacer_new 2) = 2" by (simp add: LRUReplacer_new_def)
  have f1: "frames (Unpin (LRUReplacer_new 2) 0) = [0]" using u1(3) n(2) m by simp
  note u2 = Unpin_ok[OF u1(1), of 1]
  show "frames (replacer (full_pool dm)) = [] @ [1, 0]" "lru_wf (replacer (full_pool dm))"
    "max_size (replacer (full_pool dm)) = 2"
    using u2 u1(2) f1 m by (simp_all add: full_pool_def)
qed

lemma full_pool_wf: "disk_ok dm \<Longrightarrow> pool_wf (full_pool dm)"
proof -
  assume "disk_ok dm"
  moreover have "ran (page_table (full_pool dm)) = {0, 1}" by (simp add: full_pool_def) auto
  ultimately show ?thesis
    using full_pool_frames[of dm]
    by (auto simp: pool_wf_def less_Suc_eq logical_ok_def MAX_EXTENTS_def BITMAP_SIZE_eq)
      (auto simp: full_pool_def logical_ok_def MAX_EXTENTS_def BITMAP_SIZE_eq split: if_splits)
qed

lemma full_pool_resident: "disk_used dm = {0, 1} \<Longrightarrow> resident_allocated (full_pool dm)"
  by (auto simp: resident_allocated_def full_pool_def split: if_splits)

section \<open>Properties\<close>

text \<open>C3: the pool is a transparent cache: whenever the page is resident or some frame is free or
  evictable, \<open>FetchPage\<close> succeeds, returns a frame that holds exactly the page's current
  content, increments its pin count, keeps the pool invariant and changes the content of no
  page, writing back a dirty victim on the way; pinned pages keep their frame and content.\<close>

theorem fetch_page_transparent:
  assumes "pool_wf bp" and "logical_ok pid"
    and "page_table bp pid \<noteq> None \<or> free_list bp \<noteq> [] \<or> frames (replacer bp) \<noteq> []"
  shows "\<exists>f bp'. FetchPage bp pid = Some (f, bp') \<and> pool_wf bp' \<and> page_table bp' pid = Some f \<and>
    pdata (pages bp' ! nat f) = view bp pid \<and>
    pin_count (pages bp' ! nat f) = (case page_table bp pid of Some g \<Rightarrow> pin_count (pages bp ! nat g) + 1 | None \<Rightarrow> 1) \<and>
    (\<forall>q. logical_ok q \<longrightarrow> view bp' q = view bp q) \<and>
    (\<forall>q g. page_table bp q = Some g \<longrightarrow> pin_count (pages bp ! nat g) > 0 \<longrightarrow>
       page_table bp' q = Some g \<and> pdata (pages bp' ! nat g) = pdata (pages bp ! nat g))"
proof (cases "page_table bp pid")
  case None
  obtain f bp' where "FetchPage bp pid = Some (f, bp')" "pool_wf bp'" "page_table bp' pid = Some f"
    "pdata (pages bp' ! nat f) = view bp pid" "pin_count (pages bp' ! nat f) = 1" "\<forall>q. logical_ok q \<longrightarrow> view bp' q = view bp q"
    "\<forall>q g. page_table bp q = Some g \<longrightarrow> pin_count (pages bp ! nat g) > 0 \<longrightarrow> page_table bp' q = Some g \<and> pages bp' ! nat g = pages bp ! nat g"
    using FetchPage_miss[OF assms(1) None assms(2)] assms(3) None by blast
  with None show ?thesis by (intro exI[of _ f] exI[of _ bp']) simp
next
  case (Some f)
  from FetchPage_hit[OF assms(1) Some] obtain bp' where h: "FetchPage bp pid = Some (f, bp')" "pool_wf bp'"
    "page_table bp' = page_table bp"
    "pages bp' = (pages bp)[nat f := (pages bp ! nat f)\<lparr>pin_count := pin_count (pages bp ! nat f) + 1\<rparr>]"
    "\<forall>q. logical_ok q \<longrightarrow> view bp' q = view bp q" by blast
  have "nat f < length (pages bp)" using pool_wfD(7)[OF assms(1) Some] by (simp add: in_pool_def)
  then have pg: "pages bp' ! n = (if n = nat f then (pages bp ! nat f)\<lparr>pin_count := pin_count (pages bp ! nat f) + 1\<rparr>
      else pages bp ! n)" for n
    using h(4) by (simp add: nth_list_update)
  show ?thesis
  proof (intro exI conjI allI impI)
    show "pdata (pages bp' ! nat f) = view bp pid" using pg Some by (simp add: view_def)
    show "pin_count (pages bp' ! nat f) =
        (case page_table bp pid of Some g \<Rightarrow> pin_count (pages bp ! nat g) + 1 | None \<Rightarrow> 1)"
      using pg Some by simp
    show "pdata (pages bp' ! nat g) = pdata (pages bp ! nat g)" for g using pg[of "nat g"] by simp
  qed (use h Some in simp_all)
qed

theorem fetch_page_transparent_witness:
  "\<exists>f bp'. FetchPage (BufferPoolManager_new 3 empty_disk) 5 = Some (f, bp') \<and> pool_wf bp' \<and> page_table bp' 5 = Some f \<and>
    pdata (pages bp' ! nat f) = view (BufferPoolManager_new 3 empty_disk) 5 \<and>
    pin_count (pages bp' ! nat f) = (case page_table (BufferPoolManager_new 3 empty_disk) 5 of
       Some g \<Rightarrow> pin_count (pages (BufferPoolManager_new 3 empty_disk) ! nat g) + 1 | None \<Rightarrow> 1) \<and>
    (\<forall>q. logical_ok q \<longrightarrow> view bp' q = view (BufferPoolManager_new 3 empty_disk) q) \<and>
    (\<forall>q g. page_table (BufferPoolManager_new 3 empty_disk) q = Some g \<longrightarrow>
       pin_count (pages (BufferPoolManager_new 3 empty_disk) ! nat g) > 0 \<longrightarrow>
       page_table bp' q = Some g \<and>
       pdata (pages bp' ! nat g) = pdata (pages (BufferPoolManager_new 3 empty_disk) ! nat g))"
proof (rule fetch_page_transparent)
  show "pool_wf (BufferPoolManager_new 3 empty_disk)"
    using disk_wf_empty by (intro pool_wf_new) (simp_all add: disk_wf_def)
  show "logical_ok 5" by (simp add: logical_ok_def MAX_EXTENTS_def BITMAP_SIZE_eq)
qed (simp add: BufferPoolManager_new_def)

text \<open>\<open>UnpinPage\<close> of a pinned page keeps the pool invariant and the content of every page, and
  when it is told that the page is dirty it writes the page through to the disk.  (Without the
  flag the caller must not have changed the page.)\<close>

lemma unpin_page_writes_through:
  assumes "pool_wf bp" and "page_table bp pid = Some f" and "pin_count (pages bp ! nat f) > 0"
    and "dirty \<or> pin_count (pages bp ! nat f) > 1 \<or> is_dirty (pages bp ! nat f) \<or>
      pdata (pages bp ! nat f) = lpage (disk_mgr bp) pid"
  shows "\<exists>bp'. UnpinPage bp pid dirty = Some (True, bp') \<and> pool_wf bp' \<and>
    (\<forall>q. logical_ok q \<longrightarrow> view bp' q = view bp q) \<and> (dirty \<longrightarrow> lpage (disk_mgr bp') pid = view bp pid)"
  using UnpinPage_ok[OF assms] by blast

text \<open>C31: shutting the pool down makes every page durable: flushing all resident pages, in whatever
  order the hash table enumerates them, succeeds and leaves on the disk exactly the content that
  clients saw.\<close>

theorem shutdown_flushes_everything:
  assumes "pool_wf bp" and "set ks = dom (page_table bp)" and "logical_ok q"
  shows "\<exists>bp'. flush_all bp ks = Some bp' \<and> lpage (disk_mgr bp') q = view bp q"
proof -
  from assms(2) have "set ks \<subseteq> dom (page_table bp)" by simp
  from flush_all_ok[OF assms(1) this] obtain bp' where "flush_all bp ks = Some bp'"
    "lpage (disk_mgr bp') q = (if q \<in> set ks then view bp q else lpage (disk_mgr bp) q)"
    using assms(3) by blast
  then show ?thesis using assms(2) by (auto simp: view_def dom_def split: option.splits)
qed

theorem shutdown_flushes_everything_witness:
  "\<exists>dm. disk_ok dm \<and> (\<exists>bp'. flush_all (full_pool dm) [1, 0] = Some bp' \<and>
     lpage (disk_mgr bp') 1 = view (full_pool dm) 1)"
proof -
  have ok: "disk_ok empty_disk" using disk_wf_empty by (simp add: disk_wf_def)
  have "\<exists>bp'. flush_all (full_pool empty_disk) [1, 0] = Some bp' \<and>
     lpage (disk_mgr bp') 1 = view (full_pool empty_disk) 1"
    by (rule shutdown_flushes_everything[OF full_pool_wf[OF ok]])
      (auto simp: full_pool_def logical_ok_def MAX_EXTENTS_def BITMAP_SIZE_eq split: if_splits)
  with ok show ?thesis by blast
qed

text \<open>\<open>NewPage\<close> served from the free list allocates a page that was not in use, returns it pinned
  and zeroed, keeps the pool invariant and changes no other page.\<close>

lemma new_page_from_free_list:
  assumes "pool_wf bp" and "disk_wf (disk_mgr bp)" and "resident_allocated bp"
    and "\<exists>l < MAX_EXTENTS * BITMAP_SIZE. l \<notin> disk_used (disk_mgr bp)" and "free_list bp \<noteq> []"
  shows "\<exists>l f bp'. NewPage bp = Some (Some (int l, f), bp') \<and> pool_wf bp' \<and> resident_allocated bp' \<and>
    l \<notin> disk_used (disk_mgr bp) \<and> page_table bp' (int l) = Some f \<and> pin_count (pages bp' ! nat f) = 1 \<and>
    (\<forall>q. logical_ok q \<longrightarrow> view bp' q = (if q = int l then replicate PAGE_SIZE 0 else view bp q))"
  using NewPage_free[OF assms] by blast

text \<open>C38: \<open>NewPage\<close> on a pool without free frames is wrong: it asks the replacer for two victims.
  The first frame is leaked; the second is reused without removing its old page from the page
  table, so two page ids share the frame, the old page now reads as zeros, and the pool
  invariant is lost.\<close>

theorem new_page_eviction_aliases:
  assumes "pool_wf bp" and "disk_wf (disk_mgr bp)" and "resident_allocated bp"
    and "\<exists>l < MAX_EXTENTS * BITMAP_SIZE. l \<notin> disk_used (disk_mgr bp)"
    and "free_list bp = []" and "frames (replacer bp) = fs @ [b, a]"
  shows "\<exists>l q bp'. NewPage bp = Some (Some (int l, b), bp') \<and> q \<noteq> int l \<and>
    page_table bp' q = Some b \<and> page_table bp' (int l) = Some b \<and> view bp' q = replicate PAGE_SIZE 0 \<and>
    frames (replacer bp') = fs \<and> free_list bp' = [] \<and> \<not> pool_wf bp'"
proof -
  obtain l q bp' where n: "NewPage bp = Some (Some (int l, b), bp')" "q \<noteq> int l" "page_table bp q = Some b"
    "page_table bp' = (page_table bp)(int l \<mapsto> b)" "view bp' q = replicate PAGE_SIZE 0"
    "frames (replacer bp') = fs" "free_list bp' = []"
    using NewPage_evict[OF assms] by blast
  then have p: "page_table bp' q = Some b" "page_table bp' (int l) = Some b" by simp_all
  show ?thesis
    by (intro exI[of _ l] exI[of _ q] exI[of _ bp'] conjI)
      (use n(1,2,5-7) p aliased_not_wf[OF p] in simp_all)
qed

theorem new_page_eviction_aliases_witness:
  "\<exists>dm. disk_used dm = {0, 1} \<and> (\<exists>l q bp'. NewPage (full_pool dm) = Some (Some (int l, 1), bp') \<and> q \<noteq> int l \<and>
    page_table bp' q = Some 1 \<and> page_table bp' (int l) = Some 1 \<and> view bp' q = replicate PAGE_SIZE 0 \<and>
    frames (replacer bp') = [] \<and> free_list bp' = [] \<and> \<not> pool_wf bp')"
proof -
  obtain dm where dm: "disk_wf dm" "disk_used dm = {0, 1}" using two_page_disk by blast
  have ok: "disk_ok dm" using dm(1) by (simp add: disk_wf_def)
  have m: "disk_mgr (full_pool dm) = dm" "free_list (full_pool dm) = []" by (simp_all add: full_pool_def)
  have room: "\<exists>l < MAX_EXTENTS * BITMAP_SIZE. l \<notin> disk_used (disk_mgr (full_pool dm))"
    by (rule exI[of _ 2]) (simp add: m dm(2) MAX_EXTENTS_def BITMAP_SIZE_eq)
  have "disk_wf (disk_mgr (full_pool dm))" by (simp add: m dm(1))
  note t = new_page_eviction_aliases[OF full_pool_wf[OF ok] this full_pool_resident[OF dm(2)] room m(2) full_pool_frames(1)]
  show ?thesis
    by (rule exI[of _ dm], rule conjI[OF dm(2) t])
qed

text \<open>C40: \<open>DeletePage\<close> of an unpinned resident page puts its frame on the free list but leaves it in
  the replacer, so the same frame can be handed out twice; the pool invariant is lost.\<close>

theorem delete_page_leaves_frame_in_replacer:
  assumes "pool_wf bp" and "disk_wf (disk_mgr bp)" and "page_table bp pid = Some f"
    and "pin_count (pages bp ! nat f) = 0"
  shows "\<exists>bp'. DeletePage bp pid = Some (True, bp') \<and> page_table bp' pid = None \<and>
    f \<in> set (free_list bp') \<and> f \<in> set (frames (replacer bp')) \<and> \<not> pool_wf bp'"
proof -
  from DeletePage_resident[OF assms] obtain bp' where b: "DeletePage bp pid = Some (True, bp')"
    "page_table bp' = (page_table bp)(pid := None)" "free_list bp' = free_list bp @ [f]"
    "replacer bp' = replacer bp" by blast
  have fr: "f \<in> set (frames (replacer bp))"
    using pool_wfD(9)[OF assms(1)] assms(3,4) unfolding ran_def by blast
  have "\<not> pool_wf bp'"
  proof
    assume w: "pool_wf bp'"
    have "f \<in> ran (page_table bp')" using pool_wfD(9)[OF w] fr b(4) by simp
    with pool_wfD(8)[OF w, of f] b(3) show False by simp
  qed
  then show ?thesis
    by (intro exI[of _ bp'] conjI) (use b fr in simp_all)
qed

theorem delete_page_leaves_frame_in_replacer_witness:
  "\<exists>dm. disk_wf dm \<and> (\<exists>bp'. DeletePage (full_pool dm) 1 = Some (True, bp') \<and> page_table bp' 1 = None \<and>
    1 \<in> set (free_list bp') \<and> 1 \<in> set (frames (replacer bp')) \<and> \<not> pool_wf bp')"
proof -
  have ok: "disk_ok empty_disk" using disk_wf_empty by (simp add: disk_wf_def)
  have "\<exists>bp'. DeletePage (full_pool empty_disk) 1 = Some (True, bp') \<and> page_table bp' 1 = None \<and>
    1 \<in> set (free_list bp') \<and> 1 \<in> set (frames (replacer bp')) \<and> \<not> pool_wf bp'"
    by (rule delete_page_leaves_frame_in_replacer[OF full_pool_wf[OF ok]])
      (use disk_wf_empty in \<open>simp_all add: full_pool_def\<close>)
  with disk_wf_empty show ?thesis by blast
qed

text \<open>When every frame is pinned, \<open>FetchPage\<close> of a page that is not resident goes on with a frame
  id that was never assigned (the result of \<open>Victim\<close> is ignored): undefined behaviour.\<close>

lemma fetch_page_all_pinned_undefined:
  assumes "pool_wf bp" and "page_table bp pid = None" and "free_list bp = []"
    and "\<forall>p \<in> set (pages bp). pin_count p > 0"
  shows "FetchPage bp pid = None"
proof -
  note D = pool_wfD[OF assms(1)]
  have "set (frames (replacer bp)) = {}"
  proof (rule ccontr)
    assume "set (frames (replacer bp)) \<noteq> {}"
    then obtain f where "f \<in> set (frames (replacer bp))" unfolding ex_in_conv[symmetric] by (rule exE)
    then have f: "f \<in> ran (page_table bp)" "pin_count (pages bp ! nat f) = 0" by (simp_all add: D(9))
    then obtain q where "page_table bp q = Some f" unfolding ran_def by blast
    from D(7)[OF this] have "in_pool bp f" by (elim conjE)
    then have "pages bp ! nat f \<in> set (pages bp)" by (simp add: in_pool_def)
    with assms(4) have "pin_count (pages bp ! nat f) > 0" by (rule bspec)
    with f(2) show False by simp
  qed
  then have "Victim (replacer bp) = Some (None, replacer bp)" using Victim_empty[OF D(3)] by simp
  with assms show ?thesis by (simp add: FetchPage_def reclaim_frame_def take_frame_def)
qed

end
