(* ===== verification/Page_Cache.thy ===== *)
theory Page_Cache
  imports Buffer_Pool
begin

text \<open>The buffer pool as its clients use it.  A client fetches a page, works on the bytes behind the pointer
  that it got, and unpins the page, with the dirty flag if it wrote.  The locale \<open>page_cache\<close> states what
  a client may rely on: the content of every page, how often it is pinned, and which pages have been
  written to without having been reported as dirty.  The interpretation at the end shows that the
  operations of the pool keep these promises.\<close>

section \<open>Access through a page pointer\<close>

definition load_page :: "buffer_pool \<Rightarrow> frame_id_t \<Rightarrow> byte list option" where
  "load_page bp f = map_option pdata (get_page bp f)"

definition store_page :: "buffer_pool \<Rightarrow> frame_id_t \<Rightarrow> byte list \<Rightarrow> buffer_pool option" where
  "store_page bp f d = do { p \<leftarrow> get_page bp f; Some (set_page bp f (p\<lparr>pdata := d\<rparr>)) }"

definition GetPageId :: "buffer_pool \<Rightarrow> frame_id_t \<Rightarrow> page_id_t option" where
  "GetPageId bp f = map_option page_id (get_page bp f)"

section \<open>The interface\<close>

locale page_cache =
  fixes inv :: "'s \<Rightarrow> bool"
    and valid :: "'s \<Rightarrow> page_id_t \<Rightarrow> bool"
    and content :: "'s \<Rightarrow> page_id_t \<Rightarrow> byte list"
    and pins :: "'s \<Rightarrow> page_id_t \<Rightarrow> nat"
    and touched :: "'s \<Rightarrow> page_id_t set"
    and capacity :: "'s \<Rightarrow> nat"
    and frame :: "'s \<Rightarrow> page_id_t \<Rightarrow> frame_id_t option"
    and fetch :: "'s \<Rightarrow> page_id_t \<Rightarrow> (frame_id_t \<times> 's) option"
    and load :: "'s \<Rightarrow> frame_id_t \<Rightarrow> byte list option"
    and store :: "'s \<Rightarrow> frame_id_t \<Rightarrow> byte list \<Rightarrow> 's option"
    and name :: "'s \<Rightarrow> frame_id_t \<Rightarrow> page_id_t option"
    and unpin :: "'s \<Rightarrow> page_id_t \<Rightarrow> bool \<Rightarrow> (bool \<times> 's) option"
  assumes fetch_law: "inv s \<Longrightarrow> valid s pid \<Longrightarrow> 0 < pins s pid \<or> card {q. 0 < pins s q} < capacity s \<Longrightarrow>
      \<exists>f s'. fetch s pid = Some (f, s') \<and> inv s' \<and> valid s' = valid s \<and> (\<forall>q. valid s q \<longrightarrow> content s' q = content s q) \<and>
        pins s' = (pins s)(pid := Suc (pins s pid)) \<and> touched s' = touched s \<and> capacity s' = capacity s \<and>
        frame s' pid = Some f \<and> (\<forall>q. 0 < pins s q \<longrightarrow> frame s' q = frame s q)"
    and load_law: "inv s \<Longrightarrow> frame s pid = Some f \<Longrightarrow>
      load s f = Some (content s pid) \<and> name s f = Some pid \<and> length (content s pid) = PAGE_SIZE"
    and store_law: "inv s \<Longrightarrow> 0 < pins s pid \<Longrightarrow> frame s pid = Some f \<Longrightarrow> length d = PAGE_SIZE \<Longrightarrow>
      \<exists>s'. store s f d = Some s' \<and> inv s' \<and> valid s' = valid s \<and>
        (\<forall>q. valid s q \<longrightarrow> content s' q = (if q = pid then d else content s q)) \<and>
        pins s' = pins s \<and> touched s' \<subseteq> insert pid (touched s) \<and> touched s \<subseteq> insert pid (touched s') \<and> (d = content s pid \<longrightarrow> touched s' = touched s) \<and>
        capacity s' = capacity s \<and> frame s' = frame s"
    and unpin_law: "inv s \<Longrightarrow> valid s pid \<Longrightarrow> 0 < pins s pid \<Longrightarrow> dirty \<or> pid \<notin> touched s \<Longrightarrow>
      \<exists>s'. unpin s pid dirty = Some (True, s') \<and> inv s' \<and> valid s' = valid s \<and> (\<forall>q. valid s q \<longrightarrow> content s' q = content s q) \<and>
        pins s' = (pins s)(pid := pins s pid - 1) \<and> touched s' = (if dirty then touched s - {pid} else touched s) \<and>
        capacity s' = capacity s \<and> frame s' = frame s"
begin

text \<open>Fetching a page, writing to it and unpinning it: every step succeeds, and in the end the page holds
  what was written and nothing else has changed.  A client that does not announce its writing must
  leave the page as it is.\<close>

lemma visit:
  assumes inv: "inv s" and valid: "valid s pid" and room: "0 < pins s pid \<or> card {q. 0 < pins s q} < capacity s"
    and d: "length d = PAGE_SIZE" and dirty: "dirty \<or> d = content s pid \<and> pid \<notin> touched s"
  shows "\<exists>f s1 s2 s3. fetch s pid = Some (f, s1) \<and> load s1 f = Some (content s pid) \<and> store s1 f d = Some s2 \<and> load s2 f = Some d \<and>
    name s2 f = Some pid \<and> unpin s2 pid dirty = Some (True, s3) \<and> inv s3 \<and> valid s3 = valid s \<and>
    (\<forall>q. valid s q \<longrightarrow> content s3 q = (if q = pid then d else content s q)) \<and> pins s3 = pins s \<and> touched s3 \<subseteq> touched s \<and>
    capacity s3 = capacity s \<and> frame s3 pid = Some f \<and> (\<forall>q. 0 < pins s q \<longrightarrow> frame s3 q = frame s q)"
proof -
  obtain f s1 where s1: "fetch s pid = Some (f, s1)" "inv s1" "valid s1 = valid s" "\<forall>q. valid s q \<longrightarrow> content s1 q = content s q"
    "pins s1 = (pins s)(pid := Suc (pins s pid))" "touched s1 = touched s" "capacity s1 = capacity s"
    "frame s1 pid = Some f" "\<forall>q. 0 < pins s q \<longrightarrow> frame s1 q = frame s q"
    using fetch_law[OF inv valid room] by blast
  have p1: "0 < pins s1 pid" using s1(5) by simp
  have l1: "load s1 f = Some (content s pid)" using load_law[OF s1(2) s1(8)] s1(4) valid by simp
  obtain s2 where s2: "store s1 f d = Some s2" "inv s2" "valid s2 = valid s1"
    "\<forall>q. valid s1 q \<longrightarrow> content s2 q = (if q = pid then d else content s1 q)" "pins s2 = pins s1"
    "touched s2 \<subseteq> insert pid (touched s1)" "d = content s1 pid \<longrightarrow> touched s2 = touched s1" "capacity s2 = capacity s1" "frame s2 = frame s1"
    using store_law[OF s1(2) p1 s1(8) d] by blast
  have n2: "name s2 f = Some pid" "load s2 f = Some d" using load_law[OF s2(2), of pid f] s2(4,9) s1(3,8) valid by simp_all
  have "dirty \<or> pid \<notin> touched s2" using dirty s2(7) s1(4,6) valid by auto
  with unpin_law[OF s2(2), of pid dirty] valid s1(3) s2(3,5) p1 obtain s3 where
    s3: "unpin s2 pid dirty = Some (True, s3)" "inv s3" "valid s3 = valid s2" "\<forall>q. valid s2 q \<longrightarrow> content s3 q = content s2 q"
      "pins s3 = (pins s2)(pid := pins s2 pid - 1)" "touched s3 = (if dirty then touched s2 - {pid} else touched s2)"
      "capacity s3 = capacity s2" "frame s3 = frame s2" by auto
  have "touched s3 \<subseteq> touched s" using s3(6) s2(6,7) s1(4,6) dirty valid by auto
  then show ?thesis using s1 l1 s2 n2 s3 by (intro exI[of _ f] exI[of _ s1] exI[of _ s2] exI[of _ s3]) simp
qed

text \<open>The same for a client that only reads.\<close>

lemma visit_read:
  assumes inv: "inv s" and valid: "valid s pid" and room: "0 < pins s pid \<or> card {q. 0 < pins s q} < capacity s" and clean: "pid \<notin> touched s"
  shows "\<exists>f s1 s2. fetch s pid = Some (f, s1) \<and> load s1 f = Some (content s pid) \<and> name s1 f = Some pid \<and> unpin s1 pid False = Some (True, s2) \<and>
    inv s2 \<and> valid s2 = valid s \<and> (\<forall>q. valid s q \<longrightarrow> content s2 q = content s q) \<and> pins s2 = pins s \<and> touched s2 = touched s \<and>
    capacity s2 = capacity s \<and> frame s2 pid = Some f \<and> (\<forall>q. 0 < pins s q \<longrightarrow> frame s2 q = frame s q)"
proof -
  obtain f s1 where s1: "fetch s pid = Some (f, s1)" "inv s1" "valid s1 = valid s" "\<forall>q. valid s q \<longrightarrow> content s1 q = content s q"
    "pins s1 = (pins s)(pid := Suc (pins s pid))" "touched s1 = touched s" "capacity s1 = capacity s"
    "frame s1 pid = Some f" "\<forall>q. 0 < pins s q \<longrightarrow> frame s1 q = frame s q"
    using fetch_law[OF inv valid room] by blast
  have "load s1 f = Some (content s pid)" "name s1 f = Some pid" using load_law[OF s1(2) s1(8)] s1(4) valid by simp_all
  moreover obtain s2 where "unpin s1 pid False = Some (True, s2)" "inv s2" "valid s2 = valid s1" "\<forall>q. valid s1 q \<longrightarrow> content s2 q = content s1 q"
    "pins s2 = (pins s1)(pid := pins s1 pid - 1)" "touched s2 = touched s1" "capacity s2 = capacity s1" "frame s2 = frame s1"
    using unpin_law[OF s1(2), of pid False] valid s1(3,5,6) clean by auto
  ultimately show ?thesis using s1 by (intro exI[of _ f] exI[of _ s1] exI[of _ s2]) simp
qed

end


section \<open>The buffer pool provides it\<close>

definition pool_inv :: "buffer_pool \<Rightarrow> bool" where
  "pool_inv bp \<longleftrightarrow> pool_wf bp \<and> disk_wf (disk_mgr bp) \<and> resident_allocated bp \<and>
     (\<forall>f. in_pool bp f \<longrightarrow> f \<in> set (free_list bp) \<union> ran (page_table bp))"

definition allocated :: "buffer_pool \<Rightarrow> page_id_t \<Rightarrow> bool" where
  "allocated bp pid \<longleftrightarrow> logical_ok pid \<and> nat pid \<in> disk_used (disk_mgr bp)"

definition pins :: "buffer_pool \<Rightarrow> page_id_t \<Rightarrow> nat" where
  "pins bp pid = (case page_table bp pid of None \<Rightarrow> 0 | Some f \<Rightarrow> nat (pin_count (pages bp ! nat f)))"

definition touched :: "buffer_pool \<Rightarrow> page_id_t set" where
  "touched bp = {pid. \<exists>f. page_table bp pid = Some f \<and> \<not> is_dirty (pages bp ! nat f) \<and>
     pdata (pages bp ! nat f) \<noteq> lpage (disk_mgr bp) pid}"

lemma pinned_resident: "0 < pins bp pid \<Longrightarrow> \<exists>f. page_table bp pid = Some f \<and> 0 < pin_count (pages bp ! nat f)"
  by (auto simp: pins_def split: option.splits)

lemma touched_pinned: "pool_wf bp \<Longrightarrow> pid \<in> touched bp \<Longrightarrow> 0 < pins bp pid"
proof (rule ccontr)
  assume wf: "pool_wf bp" and t: "pid \<in> touched bp" and "\<not> 0 < pins bp pid"
  then obtain f where f: "page_table bp pid = Some f" "\<not> is_dirty (pages bp ! nat f)" "pdata (pages bp ! nat f) \<noteq> lpage (disk_mgr bp) pid"
    "pin_count (pages bp ! nat f) \<le> 0" by (auto simp: touched_def pins_def)
  moreover have "pin_count (pages bp ! nat f) \<ge> 0" using in_pool_page[OF wf] pool_wfD(7)[OF wf f(1)] by simp
  ultimately show False using pool_wfD(10)[OF wf f(1)] by simp
qed

lemma pinned_finite: "pool_wf bp \<Longrightarrow> finite {q. 0 < pins bp q}"
proof -
  assume wf: "pool_wf bp"
  have "{q. 0 < pins bp q} \<subseteq> dom (page_table bp)" by (auto dest: pinned_resident)
  moreover have "inj_on (\<lambda>q. the (page_table bp q)) (dom (page_table bp))"
    by (rule inj_onI) (use page_table_inj[OF wf] in \<open>auto simp: dom_def\<close>)
  moreover have "(\<lambda>q. the (page_table bp q)) ` dom (page_table bp) \<subseteq> int ` {..<length (pages bp)}"
    using pool_wfD(7)[OF wf] by (fastforce simp: in_pool_def image_iff intro!: bexI[of _ "nat _"])
  ultimately show ?thesis by (meson finite_imageD finite_imageI finite_lessThan finite_subset)
qed

text \<open>As long as fewer pages are pinned than there are frames, a frame is free or can be evicted.\<close>

lemma frame_available:
  assumes inv: "pool_inv bp" and less: "card {q. 0 < pins bp q} < pool_size bp"
  shows "free_list bp \<noteq> [] \<or> frames (replacer bp) \<noteq> []"
proof (rule ccontr)
  assume "\<not> ?thesis"
  then have e: "free_list bp = []" "frames (replacer bp) = []" by auto
  have wf: "pool_wf bp" using inv by (simp add: pool_inv_def)
  note D = pool_wfD[OF wf]
  have "int ` {..<pool_size bp} \<subseteq> (\<lambda>q. the (page_table bp q)) ` {q. 0 < pins bp q}"
  proof
    fix f assume f: "f \<in> int ` {..<pool_size bp}"
    then have ip: "in_pool bp f" using D(1) by (auto simp: in_pool_def)
    then have r: "f \<in> ran (page_table bp)" using inv e by (auto simp: pool_inv_def)
    then obtain q where q: "page_table bp q = Some f" by (auto simp: ran_def)
    have "pin_count (pages bp ! nat f) \<noteq> 0" using D(9) e r by auto
    then have "0 < pins bp q" using q in_pool_page[OF wf ip] by (simp add: pins_def)
    with q show "f \<in> (\<lambda>q. the (page_table bp q)) ` {q. 0 < pins bp q}" by (auto intro!: image_eqI[of _ _ q])
  qed
  then have "card (int ` {..<pool_size bp}) \<le> card {q. 0 < pins bp q}"
    using pinned_finite[OF wf] surj_card_le by blast
  with less show False by (simp add: card_image)
qed

lemma pool_fetch_law:
  assumes inv: "pool_inv bp" and pid: "allocated bp pid" and room: "0 < pins bp pid \<or> card {q. 0 < pins bp q} < pool_size bp"
  shows "\<exists>f bp'. FetchPage bp pid = Some (f, bp') \<and> pool_inv bp' \<and> allocated bp' = allocated bp \<and>
    (\<forall>q. allocated bp q \<longrightarrow> view bp' q = view bp q) \<and> pins bp' = (pins bp)(pid := Suc (pins bp pid)) \<and>
    touched bp' = touched bp \<and> pool_size bp' = pool_size bp \<and> page_table bp' pid = Some f \<and>
    (\<forall>q. 0 < pins bp q \<longrightarrow> page_table bp' q = page_table bp q)"
proof -
  have wf: "pool_wf bp" and dw: "disk_wf (disk_mgr bp)" and ra: "resident_allocated bp"
    and nl: "\<And>f. in_pool bp f \<Longrightarrow> f \<in> set (free_list bp) \<union> ran (page_table bp)" using inv by (auto simp: pool_inv_def)
  have lo: "logical_ok pid" using pid by (simp add: allocated_def)
  show ?thesis
  proof (cases "page_table bp pid")
    case (Some f)
    note f = pool_wfD(7)[OF wf Some]
    have pc: "pin_count (pages bp ! nat f) \<ge> 0" using in_pool_page[OF wf] f by simp
    obtain bp' where b: "FetchPage bp pid = Some (f, bp')" "pool_wf bp'" "page_table bp' = page_table bp"
      "pages bp' = (pages bp)[nat f := (pages bp ! nat f)\<lparr>pin_count := pin_count (pages bp ! nat f) + 1\<rparr>]"
      "\<forall>q. logical_ok q \<longrightarrow> view bp' q = view bp q" "same_frames bp bp'" "disk_mgr bp' = disk_mgr bp"
      using FetchPage_hit[OF wf Some] by blast
    have pg: "pages bp' ! nat g = (if q = pid then (pages bp ! nat f)\<lparr>pin_count := pin_count (pages bp ! nat f) + 1\<rparr> else pages bp ! nat g)"
      if "page_table bp q = Some g" for q g
      using that b(4) f pool_wfD(7)[OF wf that] nat_neq[of bp g f] page_table_inj[OF wf that, of pid] Some
      by (auto simp: in_pool_def nth_list_update)
    have "pins bp' = (pins bp)(pid := Suc (pins bp pid))"
      using pg Some pc b(3) by (fastforce simp: pins_def split: option.splits)
    moreover have "touched bp' = touched bp"
    proof (rule set_eqI)
      show "q \<in> touched bp' \<longleftrightarrow> q \<in> touched bp" for q
        using pg[of q] Some b(3,7) by (cases "page_table bp q") (auto simp: touched_def)
    qed
    moreover have "pool_inv bp'" using b dw ra nl by (auto simp: pool_inv_def resident_allocated_def same_frames_def in_pool_def)
    ultimately show ?thesis using b Some by (auto simp: allocated_def same_frames_def)
  next
    case None
    then have "pins bp pid = 0" by (simp add: pins_def)
    then have av: "free_list bp \<noteq> [] \<or> frames (replacer bp) \<noteq> []" using frame_available[OF inv] room by simp
    obtain f bp' where b: "FetchPage bp pid = Some (f, bp')" "pool_wf bp'" "page_table bp' pid = Some f"
      "pdata (pages bp' ! nat f) = view bp pid" "pin_count (pages bp' ! nat f) = 1" "\<not> is_dirty (pages bp' ! nat f)"
      "\<forall>q. logical_ok q \<longrightarrow> view bp' q = view bp q"
      "\<forall>q g. page_table bp q = Some g \<longrightarrow> pin_count (pages bp ! nat g) > 0 \<longrightarrow> page_table bp' q = Some g \<and> pages bp' ! nat g = pages bp ! nat g"
      "\<forall>q g. page_table bp' q = Some g \<longrightarrow> q \<noteq> pid \<longrightarrow> page_table bp q = Some g \<and> pages bp' ! nat g = pages bp ! nat g \<and>
         lpage (disk_mgr bp') q = lpage (disk_mgr bp) q" "lpage (disk_mgr bp') pid = view bp pid"
      "data_only (disk_mgr bp) (disk_mgr bp')" "pool_size bp' = pool_size bp"
      "set (free_list bp) \<union> ran (page_table bp) \<subseteq> set (free_list bp') \<union> ran (page_table bp')"
      using FetchPage_miss[OF wf None lo av] by (elim exE conjE) (rule that; assumption)
    have keep: "page_table bp' q = page_table bp q" if "0 < pins bp q" for q using pinned_resident[OF that] b(8) by auto
    have "pins bp' q = (if q = pid then 1 else pins bp q)" for q
    proof (cases "page_table bp' q")
      case None
      then have "pins bp q = 0" using keep[of q] pinned_resident[of bp q] by (cases "pins bp q") auto
      then show ?thesis using None b(3) by (auto simp: pins_def)
    next
      case (Some g)
      then show ?thesis using b(3,5) b(9)[rule_format, OF Some] by (auto simp: pins_def)
    qed
    then have "pins bp' = (pins bp)(pid := Suc (pins bp pid))" using \<open>pins bp pid = 0\<close> by auto
    moreover have "touched bp' = touched bp"
    proof (intro set_eqI iffI)
      fix q assume q: "q \<in> touched bp'"
      then obtain g where g: "page_table bp' q = Some g" "\<not> is_dirty (pages bp' ! nat g)" "pdata (pages bp' ! nat g) \<noteq> lpage (disk_mgr bp') q"
        by (auto simp: touched_def)
      then have "q \<noteq> pid" using b(3,4,10) by auto
      then show "q \<in> touched bp" using g b(9) by (auto simp: touched_def)
    next
      fix q assume q: "q \<in> touched bp"
      then have "0 < pins bp q" by (rule touched_pinned[OF wf])
      moreover have "q \<noteq> pid" using q None by (auto simp: touched_def)
      ultimately obtain g where "page_table bp' q = Some g" "q \<noteq> pid" using keep[of q] q by (auto simp: touched_def)
      then show "q \<in> touched bp'" using q b(9) by (auto simp: touched_def)
    qed
    moreover have "pool_inv bp'"
    proof -
      have "resident_allocated bp'" using b(3,9) ra pid data_only_disk(1)[OF b(11)]
        unfolding resident_allocated_def by (metis (no_types, lifting) allocated_def domD domI)
      moreover have "in_pool bp' g = in_pool bp g" for g using pool_wfD(1)[OF wf] pool_wfD(1)[OF b(2)] b(12) by (simp add: in_pool_def)
      ultimately show ?thesis using b(2,13) data_only_disk(2)[OF b(11) dw] nl by (auto simp: pool_inv_def)
    qed
    moreover have "allocated bp' = allocated bp" using data_only_disk(1)[OF b(11)] by (auto simp: allocated_def)
    ultimately show ?thesis using b(1,3,7,12) keep by (auto simp: allocated_def)
  qed
qed


lemma pool_load_law:
  assumes inv: "pool_inv bp" and pt: "page_table bp pid = Some f"
  shows "load_page bp f = Some (view bp pid) \<and> GetPageId bp f = Some pid \<and> length (view bp pid) = PAGE_SIZE"
proof -
  have wf: "pool_wf bp" using inv by (simp add: pool_inv_def)
  note f = pool_wfD(7)[OF wf pt]
  show ?thesis using f pt in_pool_page[OF wf] by (simp add: load_page_def GetPageId_def view_def)
qed

lemma pool_store_law:
  assumes inv: "pool_inv bp" and pin: "0 < pins bp pid" and pt: "page_table bp pid = Some f" and d: "length d = PAGE_SIZE"
  shows "\<exists>bp'. store_page bp f d = Some bp' \<and> pool_inv bp' \<and> allocated bp' = allocated bp \<and>
    (\<forall>q. allocated bp q \<longrightarrow> view bp' q = (if q = pid then d else view bp q)) \<and> pins bp' = pins bp \<and>
    touched bp' \<subseteq> insert pid (touched bp) \<and> touched bp \<subseteq> insert pid (touched bp') \<and> (d = view bp pid \<longrightarrow> touched bp' = touched bp) \<and>
    pool_size bp' = pool_size bp \<and> page_table bp' = page_table bp"
proof -
  have wf: "pool_wf bp" using inv by (simp add: pool_inv_def)
  note f = pool_wfD(7)[OF wf pt]
  let ?p = "(pages bp ! nat f)\<lparr>pdata := d\<rparr>"
  let ?bp = "set_page (bp\<lparr>replacer := replacer bp, disk_mgr := disk_mgr bp\<rparr>) f ?p"
  have eq: "bp\<lparr>replacer := replacer bp, disk_mgr := disk_mgr bp\<rparr> = bp" by simp
  have pc: "0 < pin_count (pages bp ! nat f)" using pinned_resident[OF pin] pt by simp
  have fr: "set (frames (replacer bp)) = set (frames (replacer bp)) - {f}" using pool_wfD(9)[OF wf] pc by auto
  have wf': "pool_wf ?bp"
    by (rule pool_wf_update[OF wf pt]) (use f d pc fr pool_wfD[OF wf] in auto)
  have vw: "view ?bp q = (if q = pid then d else view bp q)" if "logical_ok q" for q
    using view_set_page[OF wf pt that, of "disk_mgr bp" "replacer bp" ?p] by simp
  have pg: "pages ?bp ! nat g = (if q = pid then ?p else pages bp ! nat g)" if "page_table bp q = Some g" for q g
    using pages_set_page[of bp f g ?p] f pool_wfD(7)[OF wf that] page_table_inj[OF wf that, of pid] pt that by (auto simp: eq)
  have "pins ?bp = pins bp"
  proof (rule ext)
    show "pins ?bp q = pins bp q" for q using pg[of q] pt by (cases "page_table bp q") (auto simp: pins_def)
  qed
  moreover have "q \<in> touched ?bp \<longleftrightarrow> (if q = pid then \<not> is_dirty (pages bp ! nat f) \<and> d \<noteq> lpage (disk_mgr bp) pid else q \<in> touched bp)" for q
    using pg[of q] pt by (cases "page_table bp q") (auto simp: touched_def)
  moreover from this have "touched ?bp \<subseteq> insert pid (touched bp)" "touched bp \<subseteq> insert pid (touched ?bp)" by (auto split: if_splits)
  moreover have "touched ?bp = touched bp" if "d = view bp pid"
  proof (rule set_eqI)
    have "pid \<in> touched bp \<longleftrightarrow> \<not> is_dirty (pages bp ! nat f) \<and> view bp pid \<noteq> lpage (disk_mgr bp) pid"
      using pt by (simp add: touched_def view_def)
    then show "q \<in> touched ?bp \<longleftrightarrow> q \<in> touched bp" for q using calculation(2)[of q] that by (cases "q = pid") simp_all
  qed
  moreover have "store_page bp f d = Some ?bp" using f by (simp add: store_page_def)
  moreover have "pool_inv ?bp" using wf' inv by (simp add: pool_inv_def resident_allocated_def)
  moreover have "allocated ?bp = allocated bp" by (auto simp: allocated_def)
  ultimately show ?thesis using vw by (intro exI[of _ ?bp]) (simp add: allocated_def)
qed

lemma pool_unpin_law:
  assumes inv: "pool_inv bp" and pin: "0 < pins bp pid" and coh: "dirty \<or> pid \<notin> touched bp"
  shows "\<exists>bp'. UnpinPage bp pid dirty = Some (True, bp') \<and> pool_inv bp' \<and> allocated bp' = allocated bp \<and>
    (\<forall>q. allocated bp q \<longrightarrow> view bp' q = view bp q) \<and> pins bp' = (pins bp)(pid := pins bp pid - 1) \<and>
    touched bp' = (if dirty then touched bp - {pid} else touched bp) \<and> pool_size bp' = pool_size bp \<and> page_table bp' = page_table bp"
proof -
  have wf: "pool_wf bp" and dw: "disk_wf (disk_mgr bp)" using inv by (simp_all add: pool_inv_def)
  obtain f where f: "page_table bp pid = Some f" "0 < pin_count (pages bp ! nat f)" using pinned_resident[OF pin] by blast
  have "dirty \<or> pin_count (pages bp ! nat f) > 1 \<or> is_dirty (pages bp ! nat f) \<or> pdata (pages bp ! nat f) = lpage (disk_mgr bp) pid"
    using coh f(1) by (auto simp: touched_def)
  from UnpinPage_ok[OF wf f this] obtain bp' where b: "UnpinPage bp pid dirty = Some (True, bp')" "pool_wf bp'"
    "page_table bp' = page_table bp" "\<forall>q. logical_ok q \<longrightarrow> view bp' q = view bp q" "dirty \<longrightarrow> lpage (disk_mgr bp') pid = view bp pid"
    "pages bp' = (pages bp)[nat f := (pages bp ! nat f)\<lparr>pin_count := pin_count (pages bp ! nat f) - 1, is_dirty := \<not> dirty \<and> is_dirty (pages bp ! nat f)\<rparr>]"
    "pool_size bp' = pool_size bp" "free_list bp' = free_list bp" "data_only (disk_mgr bp) (disk_mgr bp')"
    "\<forall>k. logical_ok k \<longrightarrow> k \<noteq> pid \<or> \<not> dirty \<longrightarrow> lpage (disk_mgr bp') k = lpage (disk_mgr bp) k"
    by (elim exE conjE) (rule that; assumption)
  note F = pool_wfD(7)[OF wf f(1)]
  have pg: "pages bp' ! nat g = (if q = pid then (pages bp ! nat f)\<lparr>pin_count := pin_count (pages bp ! nat f) - 1,
      is_dirty := \<not> dirty \<and> is_dirty (pages bp ! nat f)\<rparr> else pages bp ! nat g)" if "page_table bp q = Some g" for q g
    using that b(6) F pool_wfD(7)[OF wf that] nat_neq[of bp g f] page_table_inj[OF wf that, of pid] f(1)
    by (auto simp: in_pool_def nth_list_update)
  have "pins bp' = (pins bp)(pid := pins bp pid - 1)"
  proof (rule ext)
    show "pins bp' q = ((pins bp)(pid := pins bp pid - 1)) q" for q
      using pg[of q] f b(3) by (cases "page_table bp q") (auto simp: pins_def nat_diff_distrib)
  qed
  moreover have "touched bp' = (if dirty then touched bp - {pid} else touched bp)"
  proof (rule set_eqI)
    show "q \<in> touched bp' \<longleftrightarrow> q \<in> (if dirty then touched bp - {pid} else touched bp)" for q
    proof (cases "page_table bp q")
      case (Some g)
      then have "logical_ok q" using pool_wfD(7)[OF wf] by simp
      then show ?thesis using pg[OF Some] Some f(1) b(3,5,10) by (auto simp: touched_def view_def)
    qed (simp add: touched_def b(3))
  qed
  moreover have "in_pool bp' g = in_pool bp g" for g using pool_wfD(1)[OF wf] pool_wfD(1)[OF b(2)] b(7) by (simp add: in_pool_def)
  then have "pool_inv bp'" using b inv data_only_disk[OF b(9)] by (simp add: pool_inv_def resident_allocated_def)
  moreover have "allocated bp' = allocated bp" using data_only_disk(1)[OF b(9)] by (auto simp: allocated_def)
  ultimately show ?thesis using b by (auto simp: allocated_def)
qed

interpretation pool: page_cache pool_inv allocated view pins touched pool_size page_table FetchPage load_page store_page GetPageId UnpinPage
proof (unfold_locales, goal_cases)
  case (1 s pid)
  then show ?case by (rule pool_fetch_law)
next
  case (2 s pid f)
  then show ?case by (rule pool_load_law)
next
  case (3 s pid f d)
  then show ?case by (rule pool_store_law)
next
  case (4 s pid dirty)
  from 4(1,3,4) show ?case by (rule pool_unpin_law)
qed


section \<open>New pages, and writing to a page that is not pinned\<close>

text \<open>How many free frames an operation uses up.\<close>

lemma FlushPage_free_list: "FlushPage bp pid = Some (b, bp') \<Longrightarrow> free_list bp' = free_list bp"
  by (auto simp: FlushPage_def split: option.splits bind_splits)

lemma FetchPage_free_list:
  assumes "FetchPage bp pid = Some (f, bp')"
  shows "length (free_list bp) \<le> Suc (length (free_list bp'))"
  using assms FlushPage_free_list
  by (fastforce simp: FetchPage_def reclaim_frame_def take_frame_def Let_def split: option.splits bind_splits if_splits prod.splits)

lemma UnpinPage_free_list: "UnpinPage bp pid dirty = Some (b, bp') \<Longrightarrow> free_list bp' = free_list bp"
  by (auto simp: UnpinPage_def Let_def split: option.splits bind_splits if_splits prod.splits dest!: FlushPage_free_list)

lemma pool_new_page:
  assumes inv: "pool_inv bp" and room: "\<exists>l < MAX_EXTENTS * BITMAP_SIZE. l \<notin> disk_used (disk_mgr bp)" and ne: "free_list bp \<noteq> []"
  shows "\<exists>pid f bp'. NewPage bp = Some (Some (pid, f), bp') \<and> pool_inv bp' \<and> \<not> allocated bp pid \<and> logical_ok pid \<and>
    allocated bp' = (\<lambda>q. q = pid \<or> allocated bp q) \<and>
    (\<forall>q. allocated bp' q \<longrightarrow> view bp' q = (if q = pid then replicate PAGE_SIZE 0 else view bp q)) \<and>
    pins bp' = (pins bp)(pid := 1) \<and> touched bp' = touched bp \<and> page_table bp' = (page_table bp)(pid \<mapsto> f) \<and>
    free_list bp' = butlast (free_list bp) \<and> pool_size bp' = pool_size bp"
proof -
  have wf: "pool_wf bp" and dw: "disk_wf (disk_mgr bp)" and ra: "resident_allocated bp"
    and nl: "\<And>f. in_pool bp f \<Longrightarrow> f \<in> set (free_list bp) \<union> ran (page_table bp)" using inv by (auto simp: pool_inv_def)
  obtain l f bp' where b: "NewPage bp = Some (Some (int l, f), bp')" "pool_wf bp'" "resident_allocated bp'" "l \<notin> disk_used (disk_mgr bp)"
    "page_table bp' (int l) = Some f" "pin_count (pages bp' ! nat f) = 1"
    "\<forall>q. logical_ok q \<longrightarrow> view bp' q = (if q = int l then replicate PAGE_SIZE 0 else view bp q)" "l < MAX_EXTENTS * BITMAP_SIZE"
    "page_table bp' = (page_table bp)(int l \<mapsto> f)" "f = last (free_list bp)" "free_list bp' = butlast (free_list bp)"
    "pool_size bp' = pool_size bp" "is_dirty (pages bp' ! nat f)"
    "\<forall>q g. page_table bp q = Some g \<longrightarrow> pages bp' ! nat g = pages bp ! nat g" "disk_wf (disk_mgr bp')"
    "disk_used (disk_mgr bp') = insert l (disk_used (disk_mgr bp))" "\<forall>k. lpage (disk_mgr bp') k = lpage (disk_mgr bp) k"
    using NewPage_free[OF wf dw ra room ne] by (elim exE conjE) (rule that; assumption)
  have none: "page_table bp (int l) = None" by (rule fresh_not_resident[OF ra b(4)])
  have lo: "logical_ok (int l)" using b(8) by (simp add: logical_ok_def del: of_nat_mult)
  have "pins bp' = (pins bp)(int l := 1)"
  proof (rule ext)
    show "pins bp' q = ((pins bp)(int l := 1)) q" for q
      using b(6,9,14) by (cases "page_table bp q") (auto simp: pins_def)
  qed
  moreover have "touched bp' = touched bp"
  proof (rule set_eqI)
    show "q \<in> touched bp' \<longleftrightarrow> q \<in> touched bp" for q
      using b(9,13,14,17) none by (cases "page_table bp q") (auto simp: touched_def split: if_splits)
  qed
  moreover have "pool_inv bp'"
  proof -
    have "set (free_list bp) \<subseteq> insert f (set (free_list bp'))"
      using ne b(10,11) by (metis append_butlast_last_id list.set(2) rotate1.simps(2) set_rotate1 order_refl)
    moreover have "ran (page_table bp') = insert f (ran (page_table bp))" using b(9) none by simp
    moreover have "in_pool bp' g = in_pool bp g" for g using pool_wfD(1)[OF wf] pool_wfD(1)[OF b(2)] b(12) by (simp add: in_pool_def)
    ultimately show ?thesis using b(2,3,15) nl by (auto simp: pool_inv_def)
  qed
  moreover have "allocated bp' = (\<lambda>q. q = int l \<or> allocated bp q)"
  proof (rule ext)
    show "allocated bp' q = (q = int l \<or> allocated bp q)" for q
    proof (cases "logical_ok q")
      case True
      then have "nat q = l \<longleftrightarrow> q = int l" by (auto simp: logical_ok_def)
      then show ?thesis using True b(16) by (simp add: allocated_def)
    qed (use lo in \<open>auto simp: allocated_def\<close>)
  qed
  moreover have "\<not> allocated bp (int l)" using b(4) by (simp add: allocated_def)
  ultimately show ?thesis using b(1,7,9,11,12) lo by (intro exI[of _ "int l"] exI[of _ f] exI[of _ bp']) (auto simp: allocated_def)
qed

lemma pool_write_flush:
  assumes inv: "pool_inv bp" and pt: "page_table bp pid = Some f" and d: "length d = PAGE_SIZE"
  shows "\<exists>bp1 bp2. store_page bp f d = Some bp1 \<and> GetPageId bp1 f = Some pid \<and> FlushPage bp1 pid = Some (True, bp2) \<and> pool_inv bp2 \<and>
    allocated bp2 = allocated bp \<and> (\<forall>q. allocated bp q \<longrightarrow> view bp2 q = (if q = pid then d else view bp q)) \<and> pins bp2 = pins bp \<and>
    touched bp2 = touched bp - {pid} \<and> page_table bp2 = page_table bp \<and> pool_size bp2 = pool_size bp"
proof -
  have wf: "pool_wf bp" and dw: "disk_wf (disk_mgr bp)" using inv by (simp_all add: pool_inv_def)
  note f = pool_wfD(7)[OF wf pt]
  have lo: "logical_ok pid" using f by simp
  obtain dm where dm: "WritePage (disk_mgr bp) pid d = Some dm" "disk_ok dm"
    "\<And>k. logical_ok k \<Longrightarrow> lpage dm k = (if k = pid then d else lpage (disk_mgr bp) k)" "data_only (disk_mgr bp) dm"
    by (rule WritePage_ok[OF pool_wfD(2)[OF wf] lo d]) (blast intro: data_onlyI)
  let ?p = "(pages bp ! nat f)\<lparr>pdata := d\<rparr>" and ?q = "(pages bp ! nat f)\<lparr>pdata := d, is_dirty := False\<rparr>"
  let ?bp1 = "set_page bp f ?p" and ?bp2 = "set_page (bp\<lparr>replacer := replacer bp, disk_mgr := dm\<rparr>) f ?q"
  have ip: "in_pool (bp\<lparr>disk_mgr := dm\<rparr>) f" using f by (simp add: in_pool_def)
  have pg1: "pages ?bp1 ! nat f = ?p" using f pages_set_page[of bp f f ?p] by simp
  have st: "store_page bp f d = Some ?bp1" "GetPageId ?bp1 f = Some pid" using f pg1 by (simp_all add: store_page_def GetPageId_def)
  have fl: "FlushPage ?bp1 pid = Some (True, ?bp2)"
    using f pt pg1 dm(1) by (simp add: FlushPage_def) (simp add: set_page_def)
  have ge: "pin_count (pages bp ! nat f) \<ge> 0" using in_pool_page[OF wf] f by simp
  have fr: "set (frames (replacer bp)) = (if pin_count ?q = 0 then insert f (set (frames (replacer bp))) else set (frames (replacer bp)) - {f})"
    using pool_wfD(9)[OF wf] pt by (auto intro: ranI)
  have wf2: "pool_wf ?bp2"
    by (rule pool_wf_update[OF wf pt _ _ _ pool_wfD(3)[OF wf] refl fr]) (use f d ge dm in simp_all)
  have vw: "view ?bp2 q = (if q = pid then d else view bp q)" if "logical_ok q" for q
    using view_set_page[OF wf pt that, of dm "replacer bp" ?q] dm(3) by simp
  have pg: "pages ?bp2 ! nat g = (if q = pid then ?q else pages bp ! nat g)" if "page_table bp q = Some g" for q g
    using pages_set_page[of "bp\<lparr>disk_mgr := dm\<rparr>" f g ?q] ip f pool_wfD(7)[OF wf that] page_table_inj[OF wf that, of pid] pt that by auto
  have "pins ?bp2 = pins bp"
  proof (rule ext)
    show "pins ?bp2 q = pins bp q" for q using pg[of q] pt by (cases "page_table bp q") (auto simp: pins_def)
  qed
  moreover have "touched ?bp2 = touched bp - {pid}"
  proof (rule set_eqI)
    show "q \<in> touched ?bp2 \<longleftrightarrow> q \<in> touched bp - {pid}" for q
    proof (cases "page_table bp q")
      case (Some g)
      then show ?thesis using pg[OF Some] pt pool_wfD(7)[OF wf Some] dm(3)[of q] by (auto simp: touched_def)
    qed (simp add: touched_def)
  qed
  moreover have "pool_inv ?bp2" using wf2 inv data_only_disk[OF dm(4)] by (simp add: pool_inv_def resident_allocated_def)
  moreover have "allocated ?bp2 = allocated bp" using data_only_disk(1)[OF dm(4)] by (auto simp: allocated_def)
  ultimately show ?thesis using st fl vw by (intro exI[of _ ?bp1] exI[of _ ?bp2]) (simp add: allocated_def)
qed

section \<open>What clients leave alone\<close>

text \<open>What an operation leaves alone: which pages are allocated and pinned, and where the pinned pages are.
  The third argument is the content of the pages afterwards.\<close>

definition kept :: "buffer_pool \<Rightarrow> buffer_pool \<Rightarrow> (page_id_t \<Rightarrow> byte list) \<Rightarrow> bool" where
  "kept bp bp' c \<longleftrightarrow> pool_inv bp' \<and> allocated bp' = allocated bp \<and> pins bp' = pins bp \<and> touched bp' \<subseteq> touched bp \<and>
     pool_size bp' = pool_size bp \<and> (\<forall>q. 0 < pins bp q \<longrightarrow> page_table bp' q = page_table bp q) \<and>
     (\<forall>q. allocated bp q \<longrightarrow> view bp' q = c q)"

lemma kept_refl: "pool_inv bp \<Longrightarrow> kept bp bp (view bp)"
  by (simp add: kept_def)

lemma kept_trans: "kept bp bp1 (view bp) \<Longrightarrow> kept bp1 bp2 c \<Longrightarrow> kept bp bp2 c"
  by (auto simp: kept_def)

lemma kept_cong: "kept bp bp' c \<Longrightarrow> (\<And>q. allocated bp q \<Longrightarrow> c q = d q) \<Longrightarrow> kept bp bp' d"
  by (simp add: kept_def)

text \<open>At least one page that is not pinned fits into the pool.\<close>

definition spare :: "buffer_pool \<Rightarrow> bool" where
  "spare bp \<longleftrightarrow> card {q. 0 < pins bp q} < pool_size bp"

lemma allocated_not_INVALID: "allocated bp pid \<Longrightarrow> pid \<noteq> INVALID_PAGE_ID"
  by (auto simp: allocated_def)

lemma allocated_int32: "allocated bp pid \<Longrightarrow> int32_range pid"
  by (auto simp: allocated_def logical_ok_def int32_range_def MAX_EXTENTS_def BITMAP_SIZE_eq)

lemma kept_spare: "kept bp bp' c \<Longrightarrow> spare bp' = spare bp"
  by (simp add: kept_def spare_def)

lemma unallocated_unpinned: "pool_inv bp \<Longrightarrow> \<not> allocated bp q \<Longrightarrow> page_table bp q = None \<and> pins bp q = 0"
proof -
  assume inv: "pool_inv bp" and na: "\<not> allocated bp q"
  have "page_table bp q = None"
    using inv na pool_wfD(7) by (cases "page_table bp q") (auto simp: pool_inv_def resident_allocated_def allocated_def)
  then show ?thesis by (simp add: pins_def)
qed

lemma disk_room: "\<exists>q. logical_ok q \<and> \<not> allocated bp q \<Longrightarrow> \<exists>l < MAX_EXTENTS * BITMAP_SIZE. l \<notin> disk_used (disk_mgr bp)"
  by (auto simp: allocated_def elim!: logical_okE)

lemma visit_page:
  assumes "pool_inv bp" and "allocated bp pid" and "spare bp" and "length d = PAGE_SIZE" and "dirty \<or> d = view bp pid \<and> pid \<notin> touched bp"
  obtains f bp1 bp2 bp3 where "FetchPage bp pid = Some (f, bp1)" "load_page bp1 f = Some (view bp pid)" "store_page bp1 f d = Some bp2"
    "load_page bp2 f = Some d" "GetPageId bp2 f = Some pid" "UnpinPage bp2 pid dirty = Some (True, bp3)" "kept bp bp3 ((view bp)(pid := d))"
    "page_table bp3 pid = Some f" "length (free_list bp) \<le> Suc (length (free_list bp3))"
proof -
  have room: "0 < pins bp pid \<or> card {q. 0 < pins bp q} < pool_size bp" using assms(3) by (simp add: spare_def)
  obtain f bp1 bp2 bp3 where v: "FetchPage bp pid = Some (f, bp1)" "load_page bp1 f = Some (view bp pid)" "store_page bp1 f d = Some bp2"
    "load_page bp2 f = Some d" "GetPageId bp2 f = Some pid" "UnpinPage bp2 pid dirty = Some (True, bp3)"
    "pool_inv bp3" "allocated bp3 = allocated bp" "\<forall>q. allocated bp q \<longrightarrow> view bp3 q = (if q = pid then d else view bp q)"
    "pins bp3 = pins bp" "touched bp3 \<subseteq> touched bp" "pool_size bp3 = pool_size bp" "page_table bp3 pid = Some f"
    "\<forall>q. 0 < pins bp q \<longrightarrow> page_table bp3 q = page_table bp q"
    using pool.visit[OF assms(1,2) room assms(4,5)] by (elim exE conjE) (rule that; assumption)
  have "free_list bp2 = free_list bp1" using v(3) by (auto simp: store_page_def split: bind_splits)
  then have "length (free_list bp) \<le> Suc (length (free_list bp3))"
    using FetchPage_free_list[OF v(1)] UnpinPage_free_list[OF v(6)] by simp
  then show ?thesis using that[OF v(1-6) _ v(13)] v by (simp add: kept_def)
qed

lemma visit_page_read:
  assumes "pool_inv bp" and "allocated bp pid" and "spare bp" and "pid \<notin> touched bp"
  obtains f bp1 bp2 where "FetchPage bp pid = Some (f, bp1)" "load_page bp1 f = Some (view bp pid)" "GetPageId bp1 f = Some pid"
    "UnpinPage bp1 pid False = Some (True, bp2)" "kept bp bp2 (view bp)" "load_page bp2 f = Some (view bp pid)"
proof -
  have room: "0 < pins bp pid \<or> card {q. 0 < pins bp q} < pool_size bp" using assms(3) by (simp add: spare_def)
  obtain f bp1 bp2 where v: "FetchPage bp pid = Some (f, bp1)" "load_page bp1 f = Some (view bp pid)" "GetPageId bp1 f = Some pid"
    "UnpinPage bp1 pid False = Some (True, bp2)" "pool_inv bp2" "allocated bp2 = allocated bp" "\<forall>q. allocated bp q \<longrightarrow> view bp2 q = view bp q"
    "pins bp2 = pins bp" "touched bp2 = touched bp" "pool_size bp2 = pool_size bp" "page_table bp2 pid = Some f"
    "\<forall>q. 0 < pins bp q \<longrightarrow> page_table bp2 q = page_table bp q"
    using pool.visit_read[OF assms(1,2) room assms(4)] by (elim exE conjE) (rule that; assumption)
  moreover have "load_page bp2 f = Some (view bp pid)" using pool_load_law[OF v(5,11)] v(7) assms(2) by simp
  ultimately show ?thesis using that[OF v(1-4)] by (simp add: kept_def)
qed

section \<open>Holding a page\<close>

text \<open>A client has one page pinned on top of what was pinned before.\<close>

definition holding :: "buffer_pool \<Rightarrow> buffer_pool \<Rightarrow> page_id_t \<Rightarrow> frame_id_t \<Rightarrow> bool" where
  "holding bp0 bp p f \<longleftrightarrow> pool_inv bp \<and> allocated bp = allocated bp0 \<and> (\<forall>q. allocated bp0 q \<longrightarrow> view bp q = view bp0 q) \<and>
     pins bp = (pins bp0)(p := Suc (pins bp0 p)) \<and> touched bp \<subseteq> touched bp0 \<and> pool_size bp = pool_size bp0 \<and> page_table bp p = Some f \<and>
     (\<forall>q. 0 < pins bp0 q \<longrightarrow> page_table bp q = page_table bp0 q)"

lemma holding_load: "holding bp0 bp p f \<Longrightarrow> allocated bp0 p \<Longrightarrow> load_page bp f = Some (view bp0 p) \<and> GetPageId bp f = Some p"
  using pool_load_law[of bp p f] by (simp add: holding_def)

lemma fetch_holding:
  assumes "kept bp0 bp (view bp0)" and "spare bp0" and "allocated bp0 p"
  obtains f bp' where "FetchPage bp p = Some (f, bp')" "holding bp0 bp' p f"
proof -
  have k: "pool_inv bp" "allocated bp = allocated bp0" "pins bp = pins bp0" "touched bp \<subseteq> touched bp0" "pool_size bp = pool_size bp0"
    "\<forall>q. 0 < pins bp0 q \<longrightarrow> page_table bp q = page_table bp0 q" "\<forall>q. allocated bp0 q \<longrightarrow> view bp q = view bp0 q"
    using assms(1) unfolding kept_def by blast+
  have a: "allocated bp p" "0 < pins bp p \<or> card {q. 0 < pins bp q} < pool_size bp" using k(2,3,5) assms(2,3) by (simp_all add: spare_def)
  obtain f bp' where h: "FetchPage bp p = Some (f, bp')" "pool_inv bp'" "allocated bp' = allocated bp"
    "\<forall>q. allocated bp q \<longrightarrow> view bp' q = view bp q" "pins bp' = (pins bp)(p := Suc (pins bp p))" "touched bp' = touched bp"
    "pool_size bp' = pool_size bp" "page_table bp' p = Some f" "\<forall>q. 0 < pins bp q \<longrightarrow> page_table bp' q = page_table bp q"
    using pool_fetch_law[OF k(1) a] by (elim exE conjE) (rule that; assumption)
  have "holding bp0 bp' p f" unfolding holding_def using h k by simp
  then show ?thesis using that h(1) by blast
qed

lemma unpin_holding:
  assumes "holding bp0 bp p f" and "allocated bp0 p" and "p \<notin> touched bp0"
  obtains bp' where "UnpinPage bp p False = Some (True, bp')" "kept bp0 bp' (view bp0)" "load_page bp' f = Some (view bp0 p)" "page_table bp' p = Some f"
proof -
  have k: "pool_inv bp" "allocated bp = allocated bp0" "\<forall>q. allocated bp0 q \<longrightarrow> view bp q = view bp0 q"
    "pins bp = (pins bp0)(p := Suc (pins bp0 p))" "touched bp \<subseteq> touched bp0" "pool_size bp = pool_size bp0" "page_table bp p = Some f"
    "\<forall>q. 0 < pins bp0 q \<longrightarrow> page_table bp q = page_table bp0 q" using assms(1) unfolding holding_def by blast+
  have p: "0 < pins bp p" "False \<or> p \<notin> touched bp" using k(4,5) assms(3) by auto
  obtain bp' where u: "UnpinPage bp p False = Some (True, bp')" "pool_inv bp'" "allocated bp' = allocated bp"
    "\<forall>q. allocated bp q \<longrightarrow> view bp' q = view bp q" "pins bp' = (pins bp)(p := pins bp p - 1)" "touched bp' = touched bp"
    "pool_size bp' = pool_size bp" "page_table bp' = page_table bp"
    using pool_unpin_law[OF k(1) p, unfolded if_False] by (elim exE conjE) (rule that; assumption)
  have "kept bp0 bp' (view bp0)" unfolding kept_def using u k by (simp add: fun_eq_iff)
  moreover have "load_page bp' f = Some (view bp0 p)" using pool_load_law[OF u(2), of p f] u(3,4,8) k(2,3,7) assms(2) by simp
  ultimately show ?thesis using that u(1,8) k(7) by simp
qed

end
