(* ===== verification/Records.thy ===== *)
theory Records
  imports MiniSQL_Prelude
begin

text \<open>The record layer: the types of \<open>record/types.cpp\<close>, \<open>include/record/field.h\<close>, \<open>record/column.cpp\<close>,
  \<open>record/schema.cpp\<close> and \<open>record/row.cpp\<close>, with their serialised form.

  A pointer \<open>buf\<close> that the code moves through memory is a pair of the whole buffer and an offset into
  it; writing returns the number of bytes and the new buffer.  A \<open>float\<close> is its bit pattern.\<close>

section \<open>Types\<close>

datatype TypeId = kTypeInvalid | kTypeInt | kTypeFloat | kTypeChar

fun type_code :: "TypeId \<Rightarrow> u32" where
  "type_code kTypeInvalid = 0"
| "type_code kTypeInt = 1"
| "type_code kTypeFloat = 2"
| "type_code kTypeChar = 3"

definition code_type :: "u32 \<Rightarrow> TypeId option" where
  "code_type w = (if w = 0 then Some kTypeInvalid else if w = 1 then Some kTypeInt else if w = 2 then Some kTypeFloat
     else if w = 3 then Some kTypeChar else None)"

datatype CmpBool = kFalse | kTrue | kNull

definition GetCmpBool :: "bool \<Rightarrow> CmpBool" where
  "GetCmpBool b = (if b then kTrue else kFalse)"

definition GetTypeSize :: "TypeId \<Rightarrow> nat option" where
  "GetTypeSize t = (case t of kTypeInt \<Rightarrow> Some 4 | kTypeFloat \<Rightarrow> Some 4 | kTypeChar \<Rightarrow> Some 0 | kTypeInvalid \<Rightarrow> None)"

section \<open>Fields\<close>

text \<open>The memory behind the pointer of a character field is the list of its bytes.\<close>

datatype Val = VInt int | VFloat u32 | VChars "byte list" | VUnset

record Field =
  value_of :: Val
  ftype :: TypeId
  flen :: u32
  is_null :: bool

definition Field_null :: "TypeId \<Rightarrow> Field" where
  "Field_null t = \<lparr>value_of = VUnset, ftype = t, flen = FIELD_NULL_LEN, is_null = True\<rparr>"

definition Field_int :: "int \<Rightarrow> Field" where
  "Field_int i = \<lparr>value_of = VInt i, ftype = kTypeInt, flen = 4, is_null = False\<rparr>"

definition Field_float :: "u32 \<Rightarrow> Field" where
  "Field_float f = \<lparr>value_of = VFloat f, ftype = kTypeFloat, flen = 4, is_null = False\<rparr>"

text \<open>The constructor for character data; \<open>data\<close> is the memory behind the pointer, \<^const>\<open>None\<close> the null pointer.
  Managed data is copied.\<close>

definition Field_char :: "byte list option \<Rightarrow> u32 \<Rightarrow> bool \<Rightarrow> Field option" where
  "Field_char data len manage =
     (case data of
        None \<Rightarrow> Some \<lparr>value_of = VChars [], ftype = kTypeChar, flen = 0, is_null = True\<rparr>
      | Some bs \<Rightarrow>
          if manage then
            if unat len < VARCHAR_MAX_LEN \<and> unat len \<le> length bs
            then Some \<lparr>value_of = VChars (take (unat len) bs), ftype = kTypeChar, flen = len, is_null = False\<rparr>
            else None
          else Some \<lparr>value_of = VChars bs, ftype = kTypeChar, flen = len, is_null = False\<rparr>)"

definition chars_of :: "Field \<Rightarrow> byte list" where
  "chars_of f = (case value_of f of VChars bs \<Rightarrow> bs | _ \<Rightarrow> [])"

section \<open>Serialisation of fields\<close>

definition TypeInt_SerializeTo :: "Field \<Rightarrow> byte list \<Rightarrow> nat \<Rightarrow> (nat \<times> byte list) option" where
  "TypeInt_SerializeTo f buf off =
     (if \<not> is_null f then
        (case value_of f of VInt i \<Rightarrow> map_option (Pair 4) (MACH_WRITE_INT32 buf off i) | _ \<Rightarrow> None)
      else Some (0, buf))"

definition TypeFloat_SerializeTo :: "Field \<Rightarrow> byte list \<Rightarrow> nat \<Rightarrow> (nat \<times> byte list) option" where
  "TypeFloat_SerializeTo f buf off =
     (if \<not> is_null f then
        (case value_of f of VFloat w \<Rightarrow> map_option (Pair 4) (MACH_WRITE_UINT32 buf off w) | _ \<Rightarrow> None)
      else Some (0, buf))"

definition TypeChar_SerializeTo :: "Field \<Rightarrow> byte list \<Rightarrow> nat \<Rightarrow> (nat \<times> byte list) option" where
  "TypeChar_SerializeTo f buf off =
     (if \<not> is_null f then do {
        let len = unat (flen f);
        buf \<leftarrow> MACH_WRITE_UINT32 buf off (flen f);
        bs \<leftarrow> mem_read (chars_of f) 0 len;
        buf \<leftarrow> mem_write buf (off + 4) bs;
        Some (len + 4, buf) }
      else Some (0, buf))"

definition Field_SerializeTo :: "Field \<Rightarrow> byte list \<Rightarrow> nat \<Rightarrow> (nat \<times> byte list) option" where
  "Field_SerializeTo f buf off =
     (case ftype f of
        kTypeInvalid \<Rightarrow> None
      | kTypeInt \<Rightarrow> TypeInt_SerializeTo f buf off
      | kTypeFloat \<Rightarrow> TypeFloat_SerializeTo f buf off
      | kTypeChar \<Rightarrow> TypeChar_SerializeTo f buf off)"

definition TypeInt_DeserializeFrom :: "byte list \<Rightarrow> nat \<Rightarrow> bool \<Rightarrow> (nat \<times> Field) option" where
  "TypeInt_DeserializeFrom buf off null =
     (if null then Some (0, Field_null kTypeInt)
      else map_option (\<lambda>i. (4, Field_int i)) (MACH_READ_INT32 buf off))"

definition TypeFloat_DeserializeFrom :: "byte list \<Rightarrow> nat \<Rightarrow> bool \<Rightarrow> (nat \<times> Field) option" where
  "TypeFloat_DeserializeFrom buf off null =
     (if null then Some (0, Field_null kTypeFloat)
      else map_option (\<lambda>w. (4, Field_float w)) (MACH_READ_UINT32 buf off))"

definition TypeChar_DeserializeFrom :: "byte list \<Rightarrow> nat \<Rightarrow> bool \<Rightarrow> (nat \<times> Field) option" where
  "TypeChar_DeserializeFrom buf off null =
     (if null then Some (0, Field_null kTypeChar)
      else do {
        len \<leftarrow> MACH_READ_UINT32 buf off;
        f \<leftarrow> Field_char (Some (drop (off + 4) buf)) len True;
        Some (unat len + 4, f) })"

definition Field_DeserializeFrom :: "byte list \<Rightarrow> nat \<Rightarrow> TypeId \<Rightarrow> bool \<Rightarrow> (nat \<times> Field) option" where
  "Field_DeserializeFrom buf off t null =
     (case t of
        kTypeInvalid \<Rightarrow> None
      | kTypeInt \<Rightarrow> TypeInt_DeserializeFrom buf off null
      | kTypeFloat \<Rightarrow> TypeFloat_DeserializeFrom buf off null
      | kTypeChar \<Rightarrow> TypeChar_DeserializeFrom buf off null)"

definition Field_GetSerializedSize :: "Field \<Rightarrow> nat option" where
  "Field_GetSerializedSize f =
     (if ftype f = kTypeInvalid then None
      else if is_null f then Some 0
      else if ftype f = kTypeChar then Some (unat (flen f) + 4)
      else GetTypeSize (ftype f))"

section \<open>Comparison\<close>

datatype cmp_op = CEq | CNe | CLt | CLe | CGt | CGe

fun cmp_holds :: "cmp_op \<Rightarrow> int \<Rightarrow> int \<Rightarrow> bool" where
  "cmp_holds CEq x y = (x = y)"
| "cmp_holds CNe x y = (x \<noteq> y)"
| "cmp_holds CLt x y = (x < y)"
| "cmp_holds CLe x y = (x \<le> y)"
| "cmp_holds CGt x y = (x > y)"
| "cmp_holds CGe x y = (x \<ge> y)"

text \<open>The functions \<open>CompareEquals\<close>, \<open>CompareNotEquals\<close>, ... of one type only differ in the operator.\<close>

definition TypeInt_Compare :: "cmp_op \<Rightarrow> Field \<Rightarrow> Field \<Rightarrow> CmpBool option" where
  "TypeInt_Compare op l r =
     (if ftype l \<noteq> ftype r then None
      else if is_null l \<or> is_null r then Some kNull
      else (case (value_of l, value_of r) of (VInt x, VInt y) \<Rightarrow> Some (GetCmpBool (cmp_holds op x y)) | _ \<Rightarrow> None))"

text \<open>Comparison of binary32 numbers on their bit patterns: a NaN is unordered and different from
  everything; otherwise the magnitude with the sign decides, and the two zeros are equal.\<close>

definition float_magnitude :: "u32 \<Rightarrow> int" where
  "float_magnitude w = uint (w AND 0x7FFFFFFF)"

definition float_is_nan :: "u32 \<Rightarrow> bool" where
  "float_is_nan w \<longleftrightarrow> float_magnitude w > 0x7F800000"

definition float_key :: "u32 \<Rightarrow> int" where
  "float_key w = (if bit w 31 then - float_magnitude w else float_magnitude w)"

definition float_cmp :: "cmp_op \<Rightarrow> u32 \<Rightarrow> u32 \<Rightarrow> bool" where
  "float_cmp op x y =
     (if float_is_nan x \<or> float_is_nan y then op = CNe else cmp_holds op (float_key x) (float_key y))"

definition TypeFloat_Compare :: "cmp_op \<Rightarrow> Field \<Rightarrow> Field \<Rightarrow> CmpBool option" where
  "TypeFloat_Compare op l r =
     (if ftype l \<noteq> ftype r then None
      else if is_null l \<or> is_null r then Some kNull
      else (case (value_of l, value_of r) of (VFloat x, VFloat y) \<Rightarrow> Some (GetCmpBool (float_cmp op x y)) | _ \<Rightarrow> None))"

text \<open>\<open>memcmp\<close> and the comparison of two byte strings with their lengths.\<close>

fun memcmp :: "byte list \<Rightarrow> byte list \<Rightarrow> nat \<Rightarrow> int option" where
  "memcmp xs ys 0 = Some 0"
| "memcmp (x # xs) (y # ys) (Suc n) = (if x = y then memcmp xs ys n else Some (uint x - uint y))"
| "memcmp xs ys (Suc n) = None"

definition CompareStrings :: "byte list \<Rightarrow> int \<Rightarrow> byte list \<Rightarrow> int \<Rightarrow> int option" where
  "CompareStrings s1 len1 s2 len2 =
     (if len1 < 0 \<or> len2 < 0 then None
      else map_option (\<lambda>ret. if ret = 0 \<and> len1 \<noteq> len2 then len1 - len2 else ret) (memcmp s1 s2 (nat (min len1 len2))))"

text \<open>\<open>Type::GetData\<close> for characters copies into a static array of 128 bytes, and cuts the string at the first
  byte that is neither a letter nor a digit.  The model takes the array and returns it: every call
  returns a pointer to the same array.\<close>

definition is_alnum :: "byte \<Rightarrow> bool" where
  "is_alnum b \<longleftrightarrow> (97 \<le> uint b \<and> uint b \<le> 122) \<or> (65 \<le> uint b \<and> uint b \<le> 90) \<or> (48 \<le> uint b \<and> uint b \<le> 57)"

definition strcpy :: "byte list \<Rightarrow> byte list \<Rightarrow> byte list option" where
  "strcpy dst src =
     (if 0 \<in> set src \<and> length (takeWhile (\<lambda>b. b \<noteq> 0) src) < length dst
      then mem_write dst 0 (takeWhile (\<lambda>b. b \<noteq> 0) src @ [0]) else None)"

definition GetData_char :: "Field \<Rightarrow> byte list \<Rightarrow> byte list option" where
  "GetData_char f static_buf =
     (if ftype f = kTypeChar then do {
        b \<leftarrow> strcpy static_buf (chars_of f);
        Some (b[length (takeWhile is_alnum b) := 0]) }
      else None)"

definition TypeChar_Compare :: "cmp_op \<Rightarrow> Field \<Rightarrow> Field \<Rightarrow> byte list \<Rightarrow> (CmpBool \<times> byte list) option" where
  "TypeChar_Compare op l r static_buf =
     (if ftype l \<noteq> ftype r then None
      else if is_null l \<or> is_null r then Some (kNull, static_buf)
      else do {
        b1 \<leftarrow> GetData_char l static_buf;
        b2 \<leftarrow> GetData_char r b1;
        c \<leftarrow> CompareStrings b2 (sint (flen l)) b2 (sint (flen r));
        Some (GetCmpBool (cmp_holds op c 0), b2) })"

section \<open>Columns\<close>

record Column =
  name_of :: string
  ctype :: TypeId
  clen :: nat
  table_ind :: u32
  nullable :: bool
  unique :: bool

definition COLUMN_MAGIC_NUM :: u32 where
  "COLUMN_MAGIC_NUM = 210928"

definition Column_new :: "string \<Rightarrow> TypeId \<Rightarrow> u32 \<Rightarrow> bool \<Rightarrow> bool \<Rightarrow> Column option" where
  "Column_new name t ind nul uni =
     (case t of
        kTypeInt \<Rightarrow> Some \<lparr>name_of = name, ctype = t, clen = 4, table_ind = ind, nullable = nul, unique = uni\<rparr>
      | kTypeFloat \<Rightarrow> Some \<lparr>name_of = name, ctype = t, clen = 4, table_ind = ind, nullable = nul, unique = uni\<rparr>
      | kTypeChar \<Rightarrow> Some \<lparr>name_of = name, ctype = t, clen = length name + 4, table_ind = ind, nullable = nul, unique = uni\<rparr>
      | kTypeInvalid \<Rightarrow> None)"

definition Column_new_char :: "string \<Rightarrow> TypeId \<Rightarrow> nat \<Rightarrow> u32 \<Rightarrow> bool \<Rightarrow> bool \<Rightarrow> Column option" where
  "Column_new_char name t len ind nul uni =
     (if t = kTypeChar
      then Some \<lparr>name_of = name, ctype = t, clen = len, table_ind = ind, nullable = nul, unique = uni\<rparr> else None)"

definition bytes_of :: "string \<Rightarrow> byte list" where
  "bytes_of s = map of_char s"

definition string_of :: "byte list \<Rightarrow> string" where
  "string_of bs = map (\<lambda>b. char_of (unat b)) bs"

definition bool_byte :: "bool \<Rightarrow> byte" where
  "bool_byte b = (if b then 1 else 0)"

definition byte_bool :: "byte \<Rightarrow> bool option" where
  "byte_bool b = (if b = 0 then Some False else if b = 1 then Some True else None)"

definition Column_SerializeTo :: "Column \<Rightarrow> byte list \<Rightarrow> nat \<Rightarrow> (nat \<times> byte list) option" where
  "Column_SerializeTo c buf off = do {
     let n = length (name_of c);
     buf \<leftarrow> MACH_WRITE_UINT32 buf off COLUMN_MAGIC_NUM;
     buf \<leftarrow> MACH_WRITE_UINT32 buf (off + 4) (of_nat n);
     buf \<leftarrow> mem_write buf (off + 8) (bytes_of (name_of c));
     buf \<leftarrow> MACH_WRITE_UINT32 buf (off + 12 + n) (type_code (ctype c));
     buf \<leftarrow> MACH_WRITE_UINT32 buf (off + 16 + n) (table_ind c);
     buf \<leftarrow> mem_write buf (off + 20 + n) [bool_byte (nullable c)];
     buf \<leftarrow> mem_write buf (off + 21 + n) [bool_byte (unique c)];
     Some (22 + n, buf) }"

definition Column_GetSerializedSize :: "Column \<Rightarrow> nat" where
  "Column_GetSerializedSize c = 3 * 4 + 2 * 1 + (4 + length (name_of c)) + 4"

definition Column_DeserializeFrom :: "byte list \<Rightarrow> nat \<Rightarrow> (nat \<times> Column) option" where
  "Column_DeserializeFrom buf off = do {
     magic \<leftarrow> MACH_READ_UINT32 buf off;
     len \<leftarrow> MACH_READ_UINT32 buf (off + 4);
     let n = unat len;
     bs \<leftarrow> mem_read buf (off + 8) n;
     let name = string_of (takeWhile (\<lambda>b. b \<noteq> 0) bs);
     tc \<leftarrow> MACH_READ_UINT32 buf (off + 12 + n);
     t \<leftarrow> code_type tc;
     ind \<leftarrow> MACH_READ_UINT32 buf (off + 16 + n);
     b1 \<leftarrow> mem_read buf (off + 20 + n) 1;
     nul \<leftarrow> byte_bool (hd b1);
     b2 \<leftarrow> mem_read buf (off + 21 + n) 1;
     uni \<leftarrow> byte_bool (hd b2);
     c \<leftarrow> Column_new name t ind nul uni;
     Some (22 + n, c) }"

section \<open>Schemas\<close>

definition SCHEMA_MAGIC_NUM :: u32 where
  "SCHEMA_MAGIC_NUM = 200715"

type_synonym Schema = "Column list"

fun columns_SerializeTo :: "Column list \<Rightarrow> byte list \<Rightarrow> nat \<Rightarrow> nat \<Rightarrow> (nat \<times> byte list) option" where
  "columns_SerializeTo [] buf off ofs = Some (ofs, buf)"
| "columns_SerializeTo (c # cs) buf off ofs = do {
     (move, buf) \<leftarrow> Column_SerializeTo c buf (off + ofs);
     columns_SerializeTo cs buf off (ofs + move) }"

definition Schema_SerializeTo :: "Schema \<Rightarrow> byte list \<Rightarrow> nat \<Rightarrow> (nat \<times> byte list) option" where
  "Schema_SerializeTo cs buf off = do {
     buf \<leftarrow> MACH_WRITE_UINT32 buf off SCHEMA_MAGIC_NUM;
     buf \<leftarrow> MACH_WRITE_UINT32 buf (off + 4) (of_nat (length cs));
     columns_SerializeTo cs buf off 8 }"

definition Schema_GetSerializedSize :: "Schema \<Rightarrow> nat" where
  "Schema_GetSerializedSize cs = 2 * 4 + sum_list (map Column_GetSerializedSize cs)"

fun columns_DeserializeFrom :: "nat \<Rightarrow> byte list \<Rightarrow> nat \<Rightarrow> nat \<Rightarrow> (nat \<times> Column list) option" where
  "columns_DeserializeFrom 0 buf off ofs = Some (ofs, [])"
| "columns_DeserializeFrom (Suc k) buf off ofs = do {
     (move, c) \<leftarrow> Column_DeserializeFrom buf (off + ofs);
     (ofs', cs) \<leftarrow> columns_DeserializeFrom k buf off (ofs + move);
     Some (ofs', c # cs) }"

definition Schema_DeserializeFrom :: "byte list \<Rightarrow> nat \<Rightarrow> (nat \<times> Schema) option" where
  "Schema_DeserializeFrom buf off = do {
     magic \<leftarrow> MACH_READ_UINT32 buf off;
     size \<leftarrow> MACH_READ_UINT32 buf (off + 4);
     columns_DeserializeFrom (unat size) buf off 8 }"

fun GetColumnIndex :: "Schema \<Rightarrow> string \<Rightarrow> nat option" where
  "GetColumnIndex [] col_name = None"
| "GetColumnIndex (c # cs) col_name =
     (if name_of c = col_name then Some 0 else map_option Suc (GetColumnIndex cs col_name))"

definition ShallowCopySchema :: "Schema \<Rightarrow> nat list \<Rightarrow> Schema option" where
  "ShallowCopySchema cs attrs =
     (if list_all (\<lambda>i. i < length cs) attrs then Some (map (\<lambda>i. cs ! i) attrs) else None)"

section \<open>Rows\<close>

record RowId =
  rid_page :: page_id_t
  rid_slot :: u32

definition INVALID_ROWID :: RowId where
  "INVALID_ROWID = \<lparr>rid_page = INVALID_PAGE_ID, rid_slot = 0\<rparr>"

definition RowId_Get :: "RowId \<Rightarrow> int" where
  "RowId_Get r = sint ((push_bit 32 (word_of_int (rid_page r)) :: 64 word) OR ucast (rid_slot r))"

definition RowId_of :: "int \<Rightarrow> RowId" where
  "RowId_of rid = \<lparr>rid_page = to_int32 (rid div 2 ^ 32), rid_slot = word_of_int rid\<rparr>"

record Row =
  row_id :: RowId
  row_fields :: "Field list"

fun fields_SerializeTo :: "Field list \<Rightarrow> byte list \<Rightarrow> nat \<Rightarrow> nat \<Rightarrow> (nat \<times> byte list) option" where
  "fields_SerializeTo [] buf off ofs = Some (ofs, buf)"
| "fields_SerializeTo (f # fs) buf off ofs = do {
     (move, buf) \<leftarrow> Field_SerializeTo f buf (off + ofs);
     fields_SerializeTo fs buf off (ofs + move) }"

definition Row_SerializeTo :: "Row \<Rightarrow> byte list \<Rightarrow> nat \<Rightarrow> (nat \<times> byte list) option" where
  "Row_SerializeTo r buf off = fields_SerializeTo (row_fields r) buf off 0"

fun fields_DeserializeFrom :: "Schema \<Rightarrow> byte list \<Rightarrow> nat \<Rightarrow> nat \<Rightarrow> (nat \<times> Field list) option" where
  "fields_DeserializeFrom [] buf off ofs = Some (ofs, [])"
| "fields_DeserializeFrom (c # cs) buf off ofs = do {
     (move, f) \<leftarrow> Field_DeserializeFrom buf (off + ofs) (ctype c) False;
     (ofs', fs) \<leftarrow> fields_DeserializeFrom cs buf off (ofs + move);
     Some (ofs', f # fs) }"

definition Row_DeserializeFrom :: "Schema \<Rightarrow> Row \<Rightarrow> byte list \<Rightarrow> nat \<Rightarrow> (nat \<times> Row) option" where
  "Row_DeserializeFrom schema r buf off =
     map_option (\<lambda>(n, fs). (n, r\<lparr>row_fields := fs\<rparr>)) (fields_DeserializeFrom schema buf off 0)"

fun fields_size :: "Field list \<Rightarrow> nat \<Rightarrow> nat option" where
  "fields_size [] ofs = Some ofs"
| "fields_size (f # fs) ofs = do {
     n \<leftarrow> Field_GetSerializedSize f;
     fields_size fs (ofs + n) }"

definition Row_GetSerializedSize :: "Row \<Rightarrow> nat option" where
  "Row_GetSerializedSize r = fields_size (row_fields r) 0"


section \<open>Memory\<close>

lemma mem_write_append:
  assumes "off + length xs + length ys \<le> length buf"
  shows "Option.bind (mem_write buf off xs) (\<lambda>b. mem_write b (off + length xs) ys) = mem_write buf off (xs @ ys)"
  using assms by (simp add: mem_write_def ac_simps)

lemma mem_read_append:
  assumes "mem_read buf off n = Some (xs @ ys)"
  shows "mem_read buf off (length xs) = Some xs" "mem_read buf (off + length xs) (length ys) = Some ys"
proof -
  have l: "n = length xs + length ys" using mem_read_length[OF assms] by simp
  have e: "off + n \<le> length buf" "take n (drop off buf) = xs @ ys" using assms by (auto simp: mem_read_def split: if_splits)
  have "take (length xs) (drop off buf) = xs" using e(2) l by (metis append_eq_conv_conj le_add1 min.absorb1 take_take)
  then show "mem_read buf off (length xs) = Some xs" using e(1) l by (simp add: mem_read_def)
  have "take (length ys) (drop (length xs) (drop off buf)) = ys"
    using e(2) l by (metis append_eq_conv_conj add_diff_cancel_left' drop_take)
  then show "mem_read buf (off + length xs) (length ys) = Some ys" using e(1) l by (simp add: mem_read_def add.commute)
qed

section \<open>The serialised form\<close>

text \<open>A field that holds a value of its type.\<close>

definition field_ok :: "Field \<Rightarrow> bool" where
  "field_ok f \<longleftrightarrow> \<not> is_null f \<and>
     (case value_of f of
        VInt i \<Rightarrow> f = Field_int i \<and> int32_range i
      | VFloat w \<Rightarrow> f = Field_float w
      | VChars bs \<Rightarrow> ftype f = kTypeChar \<and> unat (flen f) = length bs \<and> length bs < VARCHAR_MAX_LEN
      | VUnset \<Rightarrow> False)"

definition field_bytes :: "Field \<Rightarrow> byte list" where
  "field_bytes f = (case value_of f of VInt i \<Rightarrow> le32 (word_of_int i) | VFloat w \<Rightarrow> le32 w
     | VChars bs \<Rightarrow> le32 (flen f) @ bs | VUnset \<Rightarrow> [])"

definition row_bytes :: "Field list \<Rightarrow> byte list" where
  "row_bytes fs = concat (map field_bytes fs)"

lemma Field_SerializeTo_ok:
  assumes "field_ok f" and "off + length (field_bytes f) \<le> length buf"
  shows "Field_SerializeTo f buf off = map_option (Pair (length (field_bytes f))) (mem_write buf off (field_bytes f))"
proof (cases "value_of f")
  case (VChars bs)
  then have f: "\<not> is_null f" "ftype f = kTypeChar" "unat (flen f) = length bs" using assms(1) by (simp_all add: field_ok_def)
  have l: "off + length (le32 (flen f)) + length bs \<le> length buf" using assms(2) VChars by (simp add: field_bytes_def)
  then obtain b where b: "MACH_WRITE_UINT32 buf off (flen f) = Some b" using MACH_WRITE_UINT32_Some[of off buf] by auto
  have w: "mem_write b (off + 4) bs = mem_write buf off (field_bytes f)"
    using mem_write_append[OF l] b VChars by (simp add: MACH_WRITE_UINT32_def field_bytes_def)
  obtain b' where "mem_write buf off (field_bytes f) = Some b'" using mem_write_defined[OF assms(2)] by blast
  then show ?thesis using f VChars b w
    by (simp add: Field_SerializeTo_def TypeChar_SerializeTo_def chars_of_def mem_read_def field_bytes_def)
qed (use assms in \<open>auto simp: field_ok_def Field_SerializeTo_def TypeInt_SerializeTo_def TypeFloat_SerializeTo_def Field_int_def
    Field_float_def field_bytes_def MACH_WRITE_INT32_def MACH_WRITE_UINT32_def\<close>)

lemma Field_size_ok: "field_ok f \<Longrightarrow> Field_GetSerializedSize f = Some (length (field_bytes f))"
  by (cases "value_of f") (auto simp: field_ok_def Field_GetSerializedSize_def GetTypeSize_def Field_int_def Field_float_def field_bytes_def)

lemma Field_DeserializeFrom_ok:
  assumes "field_ok f" and "mem_read buf off (length (field_bytes f)) = Some (field_bytes f)"
  shows "Field_DeserializeFrom buf off (ftype f) False = Some (length (field_bytes f), f)"
proof (cases "value_of f")
  case (VChars bs)
  then have f: "\<not> is_null f" "ftype f = kTypeChar" "unat (flen f) = length bs" "length bs < VARCHAR_MAX_LEN"
    using assms(1) by (simp_all add: field_ok_def)
  have "mem_read buf off (length (field_bytes f)) = Some (le32 (flen f) @ bs)" using assms(2) VChars by (simp add: field_bytes_def)
  from mem_read_append[OF this] have "MACH_READ_UINT32 buf off = Some (flen f)" "mem_read buf (off + 4) (length bs) = Some bs"
    by (simp_all add: MACH_READ_UINT32_def)
  then show ?thesis using f VChars
    by (cases f) (auto simp: Field_DeserializeFrom_def TypeChar_DeserializeFrom_def Field_char_def mem_read_def field_bytes_def
        split: if_splits)
qed (use assms in \<open>auto simp: field_ok_def Field_DeserializeFrom_def TypeInt_DeserializeFrom_def TypeFloat_DeserializeFrom_def
    Field_int_def Field_float_def field_bytes_def MACH_READ_INT32_def MACH_READ_UINT32_def sint_word_of_int32\<close>)

text \<open>Rows that fit a schema.\<close>

definition row_ok :: "Schema \<Rightarrow> Field list \<Rightarrow> bool" where
  "row_ok schema fs \<longleftrightarrow> list_all2 (\<lambda>c f. field_ok f \<and> ftype f = ctype c) schema fs"

lemma row_bytes_Cons [simp]: "row_bytes (f # fs) = field_bytes f @ row_bytes fs" "row_bytes [] = []"
  by (simp_all add: row_bytes_def)

lemma fields_SerializeTo_ok:
  "list_all field_ok fs \<Longrightarrow> off + ofs + length (row_bytes fs) \<le> length buf \<Longrightarrow>
   fields_SerializeTo fs buf off ofs = map_option (Pair (ofs + length (row_bytes fs))) (mem_write buf (off + ofs) (row_bytes fs))"
proof (induction fs arbitrary: buf ofs)
  case (Cons f fs)
  have f: "field_ok f" "list_all field_ok fs" "off + ofs + length (field_bytes f) \<le> length buf" using Cons.prems by simp_all
  obtain b where b: "mem_write buf (off + ofs) (field_bytes f) = Some b" using mem_write_defined[OF f(3)] by blast
  have l: "length b = length buf" by (rule mem_write_length[OF b])
  have "mem_write b (off + ofs + length (field_bytes f)) (row_bytes fs) = mem_write buf (off + ofs) (field_bytes f @ row_bytes fs)"
    using mem_write_append[of "off + ofs" "field_bytes f" "row_bytes fs" buf] Cons.prems(2) b by simp
  then show ?case using Field_SerializeTo_ok[OF f(1,3)] Cons.IH[OF f(2), of "ofs + length (field_bytes f)" b] Cons.prems(2) b l
    by (simp add: add.assoc)
qed (simp add: mem_write_def)

lemma fields_size_ok: "list_all field_ok fs \<Longrightarrow> fields_size fs ofs = Some (ofs + length (row_bytes fs))"
  by (induction fs arbitrary: ofs) (simp_all add: Field_size_ok)

lemma fields_DeserializeFrom_ok:
  "row_ok schema fs \<Longrightarrow> mem_read buf (off + ofs) (length (row_bytes fs)) = Some (row_bytes fs) \<Longrightarrow>
   fields_DeserializeFrom schema buf off ofs = Some (ofs + length (row_bytes fs), fs)"
proof (induction schema arbitrary: fs ofs)
  case (Cons c cs)
  then obtain f gs where fs: "fs = f # gs" "field_ok f" "ftype f = ctype c" "row_ok cs gs" by (auto simp: row_ok_def list_all2_Cons1)
  have "mem_read buf (off + ofs) (length (row_bytes fs)) = Some (field_bytes f @ row_bytes gs)" using Cons.prems(2) fs(1) by simp
  from mem_read_append[OF this] have r: "mem_read buf (off + ofs) (length (field_bytes f)) = Some (field_bytes f)"
    "mem_read buf (off + (ofs + length (field_bytes f))) (length (row_bytes gs)) = Some (row_bytes gs)" by (simp_all add: add.assoc)
  from Field_DeserializeFrom_ok[OF fs(2) r(1)] Cons.IH[OF fs(4) r(2)] show ?case using fs(1,3) by simp
qed (simp add: row_ok_def)

lemma row_ok_fields: "row_ok schema fs \<Longrightarrow> list_all field_ok fs"
  by (auto simp: row_ok_def list_all_length list_all2_conv_all_nth)


section \<open>Columns and schemas in memory\<close>

text \<open>Two buffers agree outside, or inside, of a range.\<close>

definition same_outside :: "byte list \<Rightarrow> byte list \<Rightarrow> nat \<Rightarrow> nat \<Rightarrow> bool" where
  "same_outside b b' off n \<longleftrightarrow> length b' = length b \<and> (\<forall>i. i < off \<or> off + n \<le> i \<longrightarrow> i < length b \<longrightarrow> b' ! i = b ! i)"

lemma mem_read_cong:
  assumes "length b' = length b" and "\<And>i. off \<le> i \<Longrightarrow> i < off + n \<Longrightarrow> i < length b \<Longrightarrow> b' ! i = b ! i"
  shows "mem_read b' off n = mem_read b off n"
  using assms by (auto simp: mem_read_def intro!: nth_equalityI)

lemma same_outside_read:
  assumes "same_outside b b' off n" and "off' + k \<le> off \<or> off + n \<le> off'"
  shows "mem_read b' off' k = mem_read b off' k"
  using assms by (intro mem_read_cong) (auto simp: same_outside_def)

lemma same_outside_refl [simp]: "same_outside b b off n"
  by (simp add: same_outside_def)

lemma same_outside_write:
  assumes "same_outside b b' off n" and "mem_write b' off' bs = Some b''" and "off \<le> off'" and "off' + length bs \<le> off + n"
  shows "same_outside b b'' off n"
  using assms mem_write_length[OF assms(2)] mem_write_nth[OF assms(2)] by (auto simp: same_outside_def)

lemma same_outside_trans:
  assumes "same_outside b b' off n" and "same_outside b' b'' off' n'" and "off \<le> off'" and "off' + n' \<le> off + n"
  shows "same_outside b b'' off n"
  using assms by (auto simp: same_outside_def)

lemma unat_of_nat_u32: "n < 2 ^ 32 \<Longrightarrow> unat (of_nat n :: u32) = n"
  by (simp add: unsigned_of_nat take_bit_nat_eq_self_iff)

lemma unat_of_char: "unat (of_char c :: byte) = of_char c"
proof -
  have "unat (of_nat (of_char c) :: byte) = of_char c" by (simp only: unsigned_of_nat of_nat_id) (simp add: take_bit_nat_eq_self_iff)
  then show ?thesis by (simp only: of_nat_of_char)
qed

lemma char_byte [simp]: "char_of (unat (of_char c :: byte)) = c"
  by (simp add: unat_of_char)

lemma string_bytes [simp]: "string_of (bytes_of s) = s" "length (bytes_of s) = length s"
  by (simp_all add: string_of_def bytes_of_def comp_def)

lemma bytes_no_NUL: "CHR 0x00 \<notin> set s \<Longrightarrow> takeWhile (\<lambda>b. b \<noteq> 0) (bytes_of s) = bytes_of s"
proof -
  have "char_of (0 :: nat) = CHR 0x00" by (simp add: char_of_def)
  then have "(of_char c :: byte) = 0 \<Longrightarrow> c = CHR 0x00" for c
    using char_byte[of c] by simp
  then show "CHR 0x00 \<notin> set s \<Longrightarrow> ?thesis" by (auto simp: bytes_of_def takeWhile_eq_all_conv)
qed

lemma code_type_code [simp]: "code_type (type_code t) = Some t"
  by (cases t) (simp_all add: code_type_def)

lemma byte_bool_byte [simp]: "byte_bool (bool_byte b) = Some b"
  by (simp add: byte_bool_def bool_byte_def)

text \<open>A column survives serialisation, but for the length of a character column, which is not stored.\<close>

definition stored_column :: "Column \<Rightarrow> Column" where
  "stored_column c = c\<lparr>clen := (if ctype c = kTypeChar then length (name_of c) + 4 else 4)\<rparr>"

definition column_ok :: "Column \<Rightarrow> bool" where
  "column_ok c \<longleftrightarrow> CHR 0x00 \<notin> set (name_of c) \<and> length (name_of c) < 2 ^ 32 \<and> ctype c \<noteq> kTypeInvalid"

lemma Column_new_stored:
  assumes "column_ok c"
  shows "Column_new (name_of c) (ctype c) (table_ind c) (nullable c) (unique c) = Some (stored_column c)"
  using assms by (cases "ctype c") (simp_all add: Column_new_def stored_column_def column_ok_def)

lemma Column_roundtrip:
  assumes "column_ok c" and "off + Column_GetSerializedSize c \<le> length buf"
  shows "\<exists>buf'. Column_SerializeTo c buf off = Some (Column_GetSerializedSize c, buf') \<and>
    same_outside buf buf' off (Column_GetSerializedSize c) \<and>
    Column_DeserializeFrom buf' off = Some (Column_GetSerializedSize c, stored_column c)"
proof -
  let ?n = "length (name_of c)"
  have z: "Column_GetSerializedSize c = 22 + ?n" by (simp add: Column_GetSerializedSize_def)
  have l: "off + 22 + ?n \<le> length buf" using assms(2) z by simp
  obtain b1 where w1: "mem_write buf off (le32 COLUMN_MAGIC_NUM) = Some b1" using l by (simp add: mem_write_def)
  note l1 = mem_write_length[OF w1]
  obtain b2 where w2: "mem_write b1 (off + 4) (le32 (of_nat ?n)) = Some b2" using l l1 by (simp add: mem_write_def)
  note l2 = mem_write_length[OF w2]
  obtain b3 where w3: "mem_write b2 (off + 8) (bytes_of (name_of c)) = Some b3" using l l1 l2 by (simp add: mem_write_def)
  note l3 = mem_write_length[OF w3]
  obtain b4 where w4: "mem_write b3 (off + 12 + ?n) (le32 (type_code (ctype c))) = Some b4" using l l1 l2 l3 by (simp add: mem_write_def)
  note l4 = mem_write_length[OF w4]
  obtain b5 where w5: "mem_write b4 (off + 16 + ?n) (le32 (table_ind c)) = Some b5" using l l1 l2 l3 l4 by (simp add: mem_write_def)
  note l5 = mem_write_length[OF w5]
  obtain b6 where w6: "mem_write b5 (off + 20 + ?n) [bool_byte (nullable c)] = Some b6" using l l1 l2 l3 l4 l5 by (simp add: mem_write_def)
  note l6 = mem_write_length[OF w6]
  obtain b7 where w7: "mem_write b6 (off + 21 + ?n) [bool_byte (unique c)] = Some b7" using l l1 l2 l3 l4 l5 l6 by (simp add: mem_write_def)
  note w = w1 w2 w3 w4 w5 w6 w7
  have ser: "Column_SerializeTo c buf off = Some (22 + ?n, b7)" using w by (simp add: Column_SerializeTo_def MACH_WRITE_UINT32_def Let_def)
  note d = mem_read_write_disjoint[OF w2] mem_read_write_disjoint[OF w3] mem_read_write_disjoint[OF w4]
    mem_read_write_disjoint[OF w5] mem_read_write_disjoint[OF w6] mem_read_write_disjoint[OF w7]
  have r: "mem_read b7 off 4 = Some (le32 COLUMN_MAGIC_NUM)" "mem_read b7 (off + 4) 4 = Some (le32 (of_nat ?n))"
    "mem_read b7 (off + 8) ?n = Some (bytes_of (name_of c))" "mem_read b7 (off + 12 + ?n) 4 = Some (le32 (type_code (ctype c)))"
    "mem_read b7 (off + 16 + ?n) 4 = Some (le32 (table_ind c))" "mem_read b7 (off + 20 + ?n) 1 = Some [bool_byte (nullable c)]"
    "mem_read b7 (off + 21 + ?n) 1 = Some [bool_byte (unique c)]"
    by (simp_all add: d mem_read_write_same[OF w1] mem_read_write_same[OF w2] mem_read_write_same[OF w3] mem_read_write_same[OF w4]
        mem_read_write_same[OF w5] mem_read_write_same[OF w6] mem_read_write_same[OF w7])
  have "unat (of_nat ?n :: u32) = ?n" using assms(1) by (simp add: column_ok_def unat_of_nat_u32)
  then have "Column_DeserializeFrom b7 off = Some (22 + ?n, stored_column c)"
    using r assms(1) Column_new_stored[OF assms(1)]
    by (simp add: Column_DeserializeFrom_def MACH_READ_UINT32_def Let_def column_ok_def bytes_no_NUL)
  moreover have "same_outside buf b7 off (22 + ?n)"
  proof -
    have "same_outside buf b1 off (22 + ?n)" by (rule same_outside_write[OF same_outside_refl w1]) simp_all
    from same_outside_write[OF this w2] have "same_outside buf b2 off (22 + ?n)" by simp
    from same_outside_write[OF this w3] have "same_outside buf b3 off (22 + ?n)" by simp
    from same_outside_write[OF this w4] have "same_outside buf b4 off (22 + ?n)" by simp
    from same_outside_write[OF this w5] have "same_outside buf b5 off (22 + ?n)" by simp
    from same_outside_write[OF this w6] have "same_outside buf b6 off (22 + ?n)" by simp
    from same_outside_write[OF this w7] show ?thesis by simp
  qed
  ultimately show ?thesis using ser z by simp
qed


lemma Column_DeserializeFrom_frame:
  assumes "Column_DeserializeFrom b off = Some (m, c)" and "\<And>o' k. off \<le> o' \<Longrightarrow> o' + k \<le> off + m \<Longrightarrow> mem_read b' o' k = mem_read b o' k"
  shows "Column_DeserializeFrom b' off = Some (m, c)"
proof -
  from assms(1) obtain len where len: "MACH_READ_UINT32 b (off + 4) = Some len" "m = 22 + unat len"
    by (auto simp: Column_DeserializeFrom_def Let_def split: bind_splits)
  have "mem_read b' off 4 = mem_read b off 4" "mem_read b' (off + 4) 4 = mem_read b (off + 4) 4"
    "mem_read b' (off + 8) (unat len) = mem_read b (off + 8) (unat len)"
    "mem_read b' (off + 12 + unat len) 4 = mem_read b (off + 12 + unat len) 4"
    "mem_read b' (off + 16 + unat len) 4 = mem_read b (off + 16 + unat len) 4"
    "mem_read b' (off + 20 + unat len) 1 = mem_read b (off + 20 + unat len) 1"
    "mem_read b' (off + 21 + unat len) 1 = mem_read b (off + 21 + unat len) 1"
    by (rule assms(2); simp add: len(2))+
  then have "MACH_READ_UINT32 b' off = MACH_READ_UINT32 b off" "MACH_READ_UINT32 b' (off + 4) = Some len"
    "mem_read b' (off + 8) (unat len) = mem_read b (off + 8) (unat len)"
    "MACH_READ_UINT32 b' (off + 12 + unat len) = MACH_READ_UINT32 b (off + 12 + unat len)"
    "MACH_READ_UINT32 b' (off + 16 + unat len) = MACH_READ_UINT32 b (off + 16 + unat len)"
    "mem_read b' (off + 20 + unat len) 1 = mem_read b (off + 20 + unat len) 1"
    "mem_read b' (off + 21 + unat len) 1 = mem_read b (off + 21 + unat len) 1"
    using len(1) by (simp_all only: MACH_READ_UINT32_def)
  then have "Column_DeserializeFrom b' off = Column_DeserializeFrom b off"
    using len(1) by (simp add: Column_DeserializeFrom_def Let_def)
  then show ?thesis using assms(1) by simp
qed

lemma columns_roundtrip:
  "list_all column_ok cs \<Longrightarrow> off + ofs + sum_list (map Column_GetSerializedSize cs) \<le> length buf \<Longrightarrow>
   \<exists>buf'. columns_SerializeTo cs buf off ofs = Some (ofs + sum_list (map Column_GetSerializedSize cs), buf') \<and>
     same_outside buf buf' (off + ofs) (sum_list (map Column_GetSerializedSize cs)) \<and>
     columns_DeserializeFrom (length cs) buf' off ofs = Some (ofs + sum_list (map Column_GetSerializedSize cs), map stored_column cs)"
proof (induction cs arbitrary: buf ofs)
  case (Cons c cs)
  let ?z = "Column_GetSerializedSize c" and ?S = "sum_list (map Column_GetSerializedSize cs)"
  have "off + ofs + ?z \<le> length buf" "column_ok c" using Cons.prems by simp_all
  from Column_roundtrip[OF this(2,1)] obtain b1 where
    b1: "Column_SerializeTo c buf (off + ofs) = Some (?z, b1)" "same_outside buf b1 (off + ofs) ?z"
      "Column_DeserializeFrom b1 (off + ofs) = Some (?z, stored_column c)" by blast
  have "off + (ofs + ?z) + ?S \<le> length b1" using Cons.prems(2) b1(2) by (simp add: same_outside_def)
  from Cons.IH[OF _ this] Cons.prems(1) obtain b2 where
    b2: "columns_SerializeTo cs b1 off (ofs + ?z) = Some (ofs + ?z + ?S, b2)" "same_outside b1 b2 (off + (ofs + ?z)) ?S"
      "columns_DeserializeFrom (length cs) b2 off (ofs + ?z) = Some (ofs + ?z + ?S, map stored_column cs)" by auto
  have "Column_DeserializeFrom b2 (off + ofs) = Some (?z, stored_column c)"
    by (rule Column_DeserializeFrom_frame[OF b1(3)]) (rule same_outside_read[OF b2(2)], simp)
  moreover have "same_outside buf b2 (off + ofs) (?z + ?S)"
    using same_outside_trans[of buf b1 "off + ofs" "?z + ?S" b2] b1(2) b2(2) by (auto simp: same_outside_def)
  ultimately show ?case using b1(1) b2(1,3) by (simp add: add.assoc)
qed simp

section \<open>Properties\<close>

text \<open>C16: Rows survive storage.  A row that fits its schema and has no null field is written to exactly the
  number of bytes that its size says, changes no other byte, and reading it back gives the same
  fields.\<close>

theorem row_roundtrip:
  assumes "row_ok schema (row_fields r)" and "off + length (row_bytes (row_fields r)) \<le> length buf"
  shows "\<exists>n buf'. Row_GetSerializedSize r = Some n \<and> Row_SerializeTo r buf off = Some (n, buf') \<and>
    same_outside buf buf' off n \<and> Row_DeserializeFrom schema r' buf' off = Some (n, r'\<lparr>row_fields := row_fields r\<rparr>)"
proof -
  let ?n = "length (row_bytes (row_fields r))"
  note ok = row_ok_fields[OF assms(1)]
  obtain b where b: "mem_write buf off (row_bytes (row_fields r)) = Some b" using mem_write_defined[OF assms(2)] by blast
  have "Row_SerializeTo r buf off = Some (?n, b)" using fields_SerializeTo_ok[OF ok, of off 0] assms(2) b by (simp add: Row_SerializeTo_def)
  moreover have "Row_DeserializeFrom schema r' b off = Some (?n, r'\<lparr>row_fields := row_fields r\<rparr>)"
    using fields_DeserializeFrom_ok[OF assms(1), of b off 0] mem_read_write_same[OF b refl] by (simp add: Row_DeserializeFrom_def)
  moreover have "same_outside buf b off ?n" by (rule same_outside_write[OF same_outside_refl b]) simp_all
  moreover have "Row_GetSerializedSize r = Some ?n" using fields_size_ok[OF ok] by (simp add: Row_GetSerializedSize_def)
  ultimately show ?thesis by blast
qed

definition sample_schema :: Schema where
  "sample_schema =
     [\<lparr>name_of = ''id'', ctype = kTypeInt, clen = 4, table_ind = 0, nullable = False, unique = True\<rparr>,
      \<lparr>name_of = ''name'', ctype = kTypeChar, clen = 16, table_ind = 1, nullable = True, unique = False\<rparr>]"

definition sample_row :: Row where
  "sample_row = \<lparr>row_id = INVALID_ROWID, row_fields = [Field_int (- 7),
     \<lparr>value_of = VChars [97, 98, 0], ftype = kTypeChar, flen = 3, is_null = False\<rparr>]\<rparr>"

lemma sample_row_ok: "row_ok sample_schema (row_fields sample_row)" "length (row_bytes (row_fields sample_row)) = 11"
  by (simp_all add: row_ok_def sample_schema_def sample_row_def field_ok_def Field_int_def int32_range_def VARCHAR_MAX_LEN_def
      PAGE_SIZE_def row_bytes_def field_bytes_def)

theorem row_roundtrip_witness:
  "\<exists>n buf'. Row_SerializeTo sample_row (replicate 20 0) 5 = Some (n, buf') \<and>
    Row_DeserializeFrom sample_schema (sample_row\<lparr>row_fields := []\<rparr>) buf' 5 = Some (n, sample_row)"
proof -
  have "5 + length (row_bytes (row_fields sample_row)) \<le> length (replicate 20 (0 :: byte))" by (simp add: sample_row_ok)
  from row_roundtrip[OF sample_row_ok(1) this, of "sample_row\<lparr>row_fields := []\<rparr>"] show ?thesis by auto
qed

text \<open>A schema survives storage, but for the length of character columns.\<close>

lemma Schema_roundtrip:
  assumes "list_all column_ok cs" and "length cs < 2 ^ 32" and "off + Schema_GetSerializedSize cs \<le> length buf"
  shows "\<exists>buf'. Schema_SerializeTo cs buf off = Some (Schema_GetSerializedSize cs, buf') \<and>
    same_outside buf buf' off (Schema_GetSerializedSize cs) \<and>
    Schema_DeserializeFrom buf' off = Some (Schema_GetSerializedSize cs, map stored_column cs)"
proof -
  let ?S = "sum_list (map Column_GetSerializedSize cs)"
  have z: "Schema_GetSerializedSize cs = 8 + ?S" by (simp add: Schema_GetSerializedSize_def)
  obtain b1 where w1: "mem_write buf off (le32 SCHEMA_MAGIC_NUM) = Some b1" using assms(3) z by (simp add: mem_write_def)
  note l1 = mem_write_length[OF w1]
  obtain b2 where w2: "mem_write b1 (off + 4) (le32 (of_nat (length cs))) = Some b2" using assms(3) z l1 by (simp add: mem_write_def)
  note l2 = mem_write_length[OF w2]
  have "off + 8 + ?S \<le> length b2" using assms(3) z l1 l2 by simp
  from columns_roundtrip[OF assms(1) this] obtain b3 where
    b3: "columns_SerializeTo cs b2 off 8 = Some (8 + ?S, b3)" "same_outside b2 b3 (off + 8) ?S"
      "columns_DeserializeFrom (length cs) b3 off 8 = Some (8 + ?S, map stored_column cs)" by blast
  have r: "mem_read b3 off 4 = Some (le32 SCHEMA_MAGIC_NUM)" "mem_read b3 (off + 4) 4 = Some (le32 (of_nat (length cs)))"
    by (simp_all add: same_outside_read[OF b3(2)] mem_read_write_disjoint[OF w2] mem_read_write_same[OF w1] mem_read_write_same[OF w2])
  have s1: "same_outside buf b1 off (8 + ?S)" by (rule same_outside_write[OF same_outside_refl w1]) simp_all
  have s2: "same_outside buf b2 off (8 + ?S)" by (rule same_outside_write[OF s1 w2]) simp_all
  have "same_outside buf b3 off (8 + ?S)" by (rule same_outside_trans[OF s2 b3(2)]) simp_all
  then show ?thesis using w1 w2 b3 r assms(2) z
    by (simp add: Schema_SerializeTo_def Schema_DeserializeFrom_def MACH_WRITE_UINT32_def MACH_READ_UINT32_def unat_of_nat_u32)
qed

lemma RowId_Get_sum:
  assumes "int32_range (rid_page r)"
  shows "RowId_Get r = rid_page r * 2 ^ 32 + uint (rid_slot r)"
proof -
  let ?p = "rid_page r" and ?s = "rid_slot r"
  have "(push_bit 32 (word_of_int ?p) :: 64 word) AND ucast ?s = 0"
    by (rule bit_word_eqI) (auto simp: bit_simps dest: bit_imp_le_length)
  then have "(push_bit 32 (word_of_int ?p) :: 64 word) OR ucast ?s = push_bit 32 (word_of_int ?p) + ucast ?s"
    by (simp add: disjunctive_add_eq_or)
  also have "\<dots> = word_of_int (?p * 2 ^ 32 + uint ?s)" by (simp only: push_bit_eq_mult ucast_eq of_int_add of_int_mult of_int_power of_int_numeral)
  finally have "RowId_Get r = signed_take_bit 63 (?p * 2 ^ 32 + uint ?s)"
    unfolding RowId_Get_def by (simp only: sint_sbintrunc') simp
  moreover obtain u where u: "u = uint ?s" "0 \<le> u" "u < 2 ^ 32" using uint_bounded[of ?s] by simp
  then have "- (2 ^ 63) \<le> ?p * 2 ^ 32 + uint ?s" "?p * 2 ^ 32 + uint ?s < 2 ^ 63"
    using assms unfolding u(1)[symmetric] int32_range_def by simp_all
  then have "signed_take_bit 63 (?p * 2 ^ 32 + uint ?s) = ?p * 2 ^ 32 + uint ?s" by (simp add: signed_take_bit_int_eq_self_iff)
  ultimately show ?thesis by simp
qed

text \<open>Row identifiers survive packing: the 64-bit form of a row id holds the page id in the upper and the
  slot in the lower half, and unpacking it gives the row id back.\<close>

lemma rowid_roundtrip:
  assumes "int32_range (rid_page r)"
  shows "RowId_of (RowId_Get r) = r"
proof -
  have u: "0 \<le> uint (rid_slot r)" "uint (rid_slot r) < 2 ^ 32" using uint_bounded[of "rid_slot r"] by simp_all
  then have "RowId_Get r div 2 ^ 32 = rid_page r" using RowId_Get_sum[OF assms] by (simp add: div_add1_eq)
  moreover have "(word_of_int (RowId_Get r) :: u32) = rid_slot r"
  proof -
    have z: "(4294967296 :: u32) = 0" by simp
    have "(word_of_int (RowId_Get r) :: u32) = word_of_int (rid_page r) * 4294967296 + rid_slot r"
      using RowId_Get_sum[OF assms] by simp
    then show ?thesis unfolding z by simp
  qed
  ultimately show ?thesis using assms by (cases r) (simp add: RowId_of_def)
qed

lemma memcmp_same: "n \<le> length xs \<Longrightarrow> memcmp xs xs n = Some 0"
proof (induction n arbitrary: xs)
  case (Suc n)
  then show ?case by (cases xs) simp_all
qed simp

lemma GetData_char_ok:
  assumes "ftype f = kTypeChar" and "0 \<in> set (chars_of f)" and "length (takeWhile (\<lambda>b. b \<noteq> 0) (chars_of f)) < length buf"
  shows "\<exists>b. GetData_char f buf = Some b \<and> length b = length buf"
  using assms by (auto simp: GetData_char_def strcpy_def mem_write_def)

text \<open>The operands a comparison can read: a null one is not read at all; the data of any other has to end with
  a zero byte within the 128 bytes of the array it is copied to.\<close>

definition short_string :: "Field \<Rightarrow> bool" where
  "short_string f \<longleftrightarrow> 0 \<in> set (chars_of f) \<and> length (takeWhile (\<lambda>b. b \<noteq> 0) (chars_of f)) < 128 \<and>
     0 \<le> sint (flen f) \<and> sint (flen f) \<le> 128"

text \<open>C35: The comparison of two character fields.  If one of them is null, the result is kNull.  Otherwise, for
  null-terminated strings of fewer than 128 characters with a length field of at most 128, both operands are copied to the same static array, so
  that every comparison operator returns what it says of the two lengths, whatever the characters are.\<close>

theorem char_compare_lengths_only:
  assumes "ftype l = kTypeChar" and "ftype r = kTypeChar" and "length static_buf = 128"
    and "\<not> is_null l \<and> \<not> is_null r \<longrightarrow> short_string l \<and> short_string r"
  shows "if is_null l \<or> is_null r then TypeChar_Compare op l r static_buf = Some (kNull, static_buf)
    else \<exists>b. TypeChar_Compare op l r static_buf = Some (GetCmpBool (cmp_holds op (sint (flen l)) (sint (flen r))), b)"
proof (cases "is_null l \<or> is_null r")
  case True
  then show ?thesis using assms(1,2) by (simp add: TypeChar_Compare_def)
next
  case False
  then have s: "short_string l" "short_string r" using assms(4) by simp_all
  obtain b1 where b1: "GetData_char l static_buf = Some b1" "length b1 = 128" using GetData_char_ok[of l static_buf] assms s by (auto simp: short_string_def)
  obtain b2 where b2: "GetData_char r b1 = Some b2" "length b2 = 128" using GetData_char_ok[of r b1] b1(2) assms s by (auto simp: short_string_def)
  let ?x = "sint (flen l)" and ?y = "sint (flen r)"
  have "memcmp b2 b2 (nat (min ?x ?y)) = Some 0" by (rule memcmp_same) (use s b2(2) in \<open>auto simp: short_string_def\<close>)
  then have "CompareStrings b2 ?x b2 ?y = Some (if ?x \<noteq> ?y then ?x - ?y else 0)"
    using s by (simp add: CompareStrings_def short_string_def)
  moreover have "cmp_holds op (if ?x \<noteq> ?y then ?x - ?y else 0) 0 = cmp_holds op ?x ?y" by (cases op) auto
  ultimately show ?thesis using b1 b2 assms(1,2) False by (simp add: TypeChar_Compare_def)
qed

theorem char_compare_lengths_only_witness:
  "\<exists>l r b. chars_of l = [97, 98, 0] \<and> chars_of r = [120, 121, 0] \<and> TypeChar_Compare CEq l r (replicate 128 0) = Some (kTrue, b) \<and>
    TypeChar_Compare CEq l (Field_null kTypeChar) (replicate 128 0) = Some (kNull, replicate 128 0)"
proof -
  let ?f = "\<lambda>bs. \<lparr>value_of = VChars bs, ftype = kTypeChar, flen = 3, is_null = False\<rparr>"
  have s: "short_string (?f [97, 98, 0])" "short_string (?f [120, 121, 0])" by (simp_all add: short_string_def chars_of_def)
  have "\<exists>b. TypeChar_Compare CEq (?f [97, 98, 0]) (?f [120, 121, 0]) (replicate 128 0) = Some (kTrue, b)"
    using char_compare_lengths_only[of "?f [97, 98, 0]" "?f [120, 121, 0]" "replicate 128 0" CEq] s by (simp add: GetCmpBool_def)
  moreover have "TypeChar_Compare CEq (?f [97, 98, 0]) (Field_null kTypeChar) (replicate 128 0) = Some (kNull, replicate 128 0)"
    using char_compare_lengths_only[of "?f [97, 98, 0]" "Field_null kTypeChar" "replicate 128 0" CEq] by (simp add: Field_null_def)
  ultimately show ?thesis by (elim exE, intro exI[of _ "?f [97, 98, 0]"] exI[of _ "?f [120, 121, 0]"]) (auto simp: chars_of_def)
qed

text \<open>C36: Null fields are not stored.  A null field takes no byte, and reading back assumes that no field is
  null: a row with a null integer before another one comes back with the second value in the first
  column.\<close>

theorem null_field_shifts_row:
  assumes "int32_range i" and "off + 8 \<le> length buf"
    and "schema = [c1, c2]" and "ctype c1 = kTypeInt" and "ctype c2 = kTypeInt"
    and "row_fields r = [Field_null kTypeInt, Field_int i]"
  shows "\<exists>buf' r' j. Row_GetSerializedSize r = Some 4 \<and> Row_SerializeTo r buf off = Some (4, buf') \<and>
    Row_DeserializeFrom schema r buf' off = Some (8, r') \<and> row_fields r' = [Field_int i, Field_int j]"
proof -
  obtain b where b: "mem_write buf off (le32 (word_of_int i)) = Some b" using assms(2) by (simp add: mem_write_def)
  have ser: "Row_SerializeTo r buf off = Some (4, b)"
    using assms(6) b by (simp add: Row_SerializeTo_def Field_SerializeTo_def TypeInt_SerializeTo_def Field_null_def Field_int_def
        MACH_WRITE_INT32_def MACH_WRITE_UINT32_def)
  have r1: "MACH_READ_INT32 b off = Some i"
    using mem_read_write_same[OF b, of 4] assms(1) by (simp add: MACH_READ_INT32_def MACH_READ_UINT32_def sint_word_of_int32)
  have "off + 4 + 4 \<le> length b" using assms(2) mem_write_length[OF b] by simp
  then obtain j where r2: "MACH_READ_INT32 b (off + 4) = Some j"
    using MACH_READ_UINT32_Some[of "off + 4" b] by (auto simp: MACH_READ_INT32_def)
  have "Row_DeserializeFrom schema r b off = Some (8, r\<lparr>row_fields := [Field_int i, Field_int j]\<rparr>)"
    using assms(3-5) r1 r2 by (simp add: Row_DeserializeFrom_def Field_DeserializeFrom_def TypeInt_DeserializeFrom_def)
  moreover have "Row_GetSerializedSize r = Some 4"
    using assms(6) by (simp add: Row_GetSerializedSize_def Field_GetSerializedSize_def Field_null_def Field_int_def GetTypeSize_def)
  ultimately show ?thesis using ser by (intro exI conjI) auto
qed

theorem null_field_shifts_row_witness:
  "\<exists>buf' r'. Row_SerializeTo \<lparr>row_id = INVALID_ROWID, row_fields = [Field_null kTypeInt, Field_int 5]\<rparr> (replicate 8 0) 0 = Some (4, buf') \<and>
    Row_DeserializeFrom [hd sample_schema, hd sample_schema] \<lparr>row_id = INVALID_ROWID, row_fields = []\<rparr> buf' 0 = Some (8, r') \<and>
    hd (row_fields r') = Field_int 5"
proof -
  let ?r = "\<lparr>row_id = INVALID_ROWID, row_fields = [Field_null kTypeInt, Field_int 5]\<rparr>"
  have "ctype (hd sample_schema) = kTypeInt" "int32_range 5" by (simp_all add: sample_schema_def int32_range_def)
  from null_field_shifts_row[OF this(2), of 0 "replicate 8 0" _ "hd sample_schema" "hd sample_schema" ?r] this(1)
  obtain buf' r' j where "Row_SerializeTo ?r (replicate 8 0) 0 = Some (4, buf')"
    "Row_DeserializeFrom [hd sample_schema, hd sample_schema] ?r buf' 0 = Some (8, r')" "row_fields r' = [Field_int 5, Field_int j]" by auto
  then show ?thesis by (auto simp: Row_DeserializeFrom_def)
qed

end
