(* ===== verification/Table_Page.thy ===== *)
theory Table_Page
  imports Records
begin

text \<open>The slotted page of a table (\<^verbatim>\<open>page/table_page.cpp\<close>, \<^verbatim>\<open>include/page/table_page.h\<close>).  A page is its
  array of bytes; \<open>GetData() + n\<close> is the offset \<open>n\<close>.  Slot numbers, sizes and offsets are 32-bit words as
  in the code; a position that the code computes with pointers is a natural number, and a position
  before the array is \<^const>\<open>None\<close>, like an access behind it and a failed assertion.

  \<open>slots\<close> is what a page means: for each slot nothing, or the bytes of a tuple and whether it is marked as
  deleted.  Every operation is shown to have the effect on \<open>slots\<close> that its name says, and to keep
  the invariant \<open>table_page_ok\<close>: the tuples lie between the free space pointer and the end of the page and
  do not overlap.\<close>

section \<open>Model\<close>

definition DELETE_MASK :: u32 where
  "DELETE_MASK = push_bit (8 * 4 - 1) 1"

definition SIZE_TABLE_PAGE_HEADER :: nat where
  "SIZE_TABLE_PAGE_HEADER = 24"

definition SIZE_TUPLE :: nat where
  "SIZE_TUPLE = 8"

definition OFFSET_PREV_PAGE_ID :: nat where
  "OFFSET_PREV_PAGE_ID = 8"

definition OFFSET_NEXT_PAGE_ID :: nat where
  "OFFSET_NEXT_PAGE_ID = 12"

definition OFFSET_FREE_SPACE :: nat where
  "OFFSET_FREE_SPACE = 16"

definition OFFSET_TUPLE_COUNT :: nat where
  "OFFSET_TUPLE_COUNT = 20"

definition OFFSET_TUPLE_OFFSET :: nat where
  "OFFSET_TUPLE_OFFSET = 24"

definition OFFSET_TUPLE_SIZE :: nat where
  "OFFSET_TUPLE_SIZE = 28"

definition SIZE_MAX_ROW :: nat where
  "SIZE_MAX_ROW = PAGE_SIZE - SIZE_TABLE_PAGE_HEADER - SIZE_TUPLE"

definition GetTablePageId :: "byte list \<Rightarrow> page_id_t option" where
  "GetTablePageId p = MACH_READ_INT32 p 0"

definition GetPrevPageId :: "byte list \<Rightarrow> page_id_t option" where
  "GetPrevPageId p = MACH_READ_INT32 p OFFSET_PREV_PAGE_ID"

definition GetNextPageId :: "byte list \<Rightarrow> page_id_t option" where
  "GetNextPageId p = MACH_READ_INT32 p OFFSET_NEXT_PAGE_ID"

definition SetPrevPageId :: "page_id_t \<Rightarrow> byte list \<Rightarrow> byte list option" where
  "SetPrevPageId prev_page_id p = MACH_WRITE_INT32 p OFFSET_PREV_PAGE_ID prev_page_id"

definition SetNextPageId :: "page_id_t \<Rightarrow> byte list \<Rightarrow> byte list option" where
  "SetNextPageId next_page_id p = MACH_WRITE_INT32 p OFFSET_NEXT_PAGE_ID next_page_id"

definition GetFreeSpacePointer :: "byte list \<Rightarrow> u32 option" where
  "GetFreeSpacePointer p = MACH_READ_UINT32 p OFFSET_FREE_SPACE"

definition SetFreeSpacePointer :: "u32 \<Rightarrow> byte list \<Rightarrow> byte list option" where
  "SetFreeSpacePointer free_space_pointer p = MACH_WRITE_UINT32 p OFFSET_FREE_SPACE free_space_pointer"

definition GetTupleCount :: "byte list \<Rightarrow> u32 option" where
  "GetTupleCount p = MACH_READ_UINT32 p OFFSET_TUPLE_COUNT"

definition SetTupleCount :: "u32 \<Rightarrow> byte list \<Rightarrow> byte list option" where
  "SetTupleCount tuple_count p = MACH_WRITE_UINT32 p OFFSET_TUPLE_COUNT tuple_count"

definition GetFreeSpaceRemaining :: "byte list \<Rightarrow> u32 option" where
  "GetFreeSpaceRemaining p = do {
     f \<leftarrow> GetFreeSpacePointer p;
     n \<leftarrow> GetTupleCount p;
     Some (f - of_nat SIZE_TABLE_PAGE_HEADER - of_nat SIZE_TUPLE * n) }"

definition GetTupleOffsetAtSlot :: "u32 \<Rightarrow> byte list \<Rightarrow> u32 option" where
  "GetTupleOffsetAtSlot slot_num p = MACH_READ_UINT32 p (OFFSET_TUPLE_OFFSET + SIZE_TUPLE * unat slot_num)"

definition SetTupleOffsetAtSlot :: "u32 \<Rightarrow> u32 \<Rightarrow> byte list \<Rightarrow> byte list option" where
  "SetTupleOffsetAtSlot slot_num off p = MACH_WRITE_UINT32 p (OFFSET_TUPLE_OFFSET + SIZE_TUPLE * unat slot_num) off"

definition GetTupleSize :: "u32 \<Rightarrow> byte list \<Rightarrow> u32 option" where
  "GetTupleSize slot_num p = MACH_READ_UINT32 p (OFFSET_TUPLE_SIZE + SIZE_TUPLE * unat slot_num)"

definition SetTupleSize :: "u32 \<Rightarrow> u32 \<Rightarrow> byte list \<Rightarrow> byte list option" where
  "SetTupleSize slot_num tsize p = MACH_WRITE_UINT32 p (OFFSET_TUPLE_SIZE + SIZE_TUPLE * unat slot_num) tsize"

definition IsDeleted :: "u32 \<Rightarrow> bool" where
  "IsDeleted tuple_size \<longleftrightarrow> tuple_size AND DELETE_MASK \<noteq> 0 \<or> tuple_size = 0"

definition SetDeletedFlag :: "u32 \<Rightarrow> u32" where
  "SetDeletedFlag tuple_size = tuple_size OR DELETE_MASK"

definition UnsetDeletedFlag :: "u32 \<Rightarrow> u32" where
  "UnsetDeletedFlag tuple_size = tuple_size AND NOT DELETE_MASK"

definition TablePage_Init :: "page_id_t \<Rightarrow> page_id_t \<Rightarrow> byte list \<Rightarrow> byte list option" where
  "TablePage_Init pid prev_id p = do {
     p \<leftarrow> MACH_WRITE_INT32 p 0 pid;
     p \<leftarrow> SetPrevPageId prev_id p;
     p \<leftarrow> SetNextPageId INVALID_PAGE_ID p;
     p \<leftarrow> SetFreeSpacePointer (of_nat PAGE_SIZE) p;
     SetTupleCount 0 p }"

text \<open>The loops over the slots visit the slot numbers from 0; the tuple count does not change while
  they run.\<close>

definition slot_numbers :: "u32 \<Rightarrow> u32 list" where
  "slot_numbers n = map of_nat [0..<unat n]"

fun find_slot :: "(u32 \<Rightarrow> bool) \<Rightarrow> u32 list \<Rightarrow> byte list \<Rightarrow> u32 option option" where
  "find_slot Q [] p = Some None"
| "find_slot Q (i # is) p = do {
     s \<leftarrow> GetTupleSize i p;
     if Q s then Some (Some i) else find_slot Q is p }"

text \<open>The size of a row, a 32-bit number in the code.\<close>

definition row_size :: "Row \<Rightarrow> u32 option" where
  "row_size r = map_option of_nat (Row_GetSerializedSize r)"

definition TablePage_InsertTuple :: "Row \<Rightarrow> byte list \<Rightarrow> (bool \<times> Row \<times> byte list) option" where
  "TablePage_InsertTuple row p = do {
     serialized_size \<leftarrow> row_size row;
     if serialized_size = 0 then None
     else do {
       room \<leftarrow> GetFreeSpaceRemaining p;
       if unat room < unat serialized_size + SIZE_TUPLE then Some (False, row, p)
       else do {
         n \<leftarrow> GetTupleCount p;
         found \<leftarrow> find_slot (\<lambda>s. s = 0) (slot_numbers n) p;
         let i = (case found of None \<Rightarrow> n | Some j \<Rightarrow> j);
         if i = n \<and> unat room < unat serialized_size + SIZE_TUPLE then Some (False, row, p)
         else do {
           f \<leftarrow> GetFreeSpacePointer p;
           p \<leftarrow> SetFreeSpacePointer (f - serialized_size) p;
           f \<leftarrow> GetFreeSpacePointer p;
           (write_bytes, p) \<leftarrow> Row_SerializeTo row p (unat f);
           if of_nat write_bytes \<noteq> serialized_size then None
           else do {
             f \<leftarrow> GetFreeSpacePointer p;
             p \<leftarrow> SetTupleOffsetAtSlot i f p;
             p \<leftarrow> SetTupleSize i serialized_size p;
             pid \<leftarrow> GetTablePageId p;
             let row = row\<lparr>row_id := \<lparr>rid_page = pid, rid_slot = i\<rparr>\<rparr>;
             n \<leftarrow> GetTupleCount p;
             p \<leftarrow> (if i = n then SetTupleCount (n + 1) p else Some p);
             Some (True, row, p) } } } } }"

definition TablePage_MarkDelete :: "RowId \<Rightarrow> byte list \<Rightarrow> (bool \<times> byte list) option" where
  "TablePage_MarkDelete rid p = do {
     let slot_num = rid_slot rid;
     n \<leftarrow> GetTupleCount p;
     if slot_num \<ge> n then Some (False, p)
     else do {
       tuple_size \<leftarrow> GetTupleSize slot_num p;
       if IsDeleted tuple_size then Some (False, p)
       else do {
         p \<leftarrow> (if tuple_size > 0 then SetTupleSize slot_num (SetDeletedFlag tuple_size) p else Some p);
         Some (True, p) } } }"

text \<open>The loop that moves the offsets of the tuples below a gap.\<close>

fun shift_offsets :: "(u32 \<Rightarrow> u32 \<Rightarrow> bool) \<Rightarrow> u32 \<Rightarrow> u32 list \<Rightarrow> byte list \<Rightarrow> byte list option" where
  "shift_offsets Q d [] p = Some p"
| "shift_offsets Q d (i # is) p = do {
     tuple_offset_i \<leftarrow> GetTupleOffsetAtSlot i p;
     s \<leftarrow> GetTupleSize i p;
     p \<leftarrow> (if Q s tuple_offset_i then SetTupleOffsetAtSlot i (tuple_offset_i + d) p else Some p);
     shift_offsets Q d is p }"

definition TablePage_UpdateTuple :: "Row \<Rightarrow> Row \<Rightarrow> Schema \<Rightarrow> byte list \<Rightarrow> (int \<times> Row \<times> byte list) option" where
  "TablePage_UpdateTuple new_row old_row schema p =
     (if RowId_Get (row_id old_row) = RowId_Get INVALID_ROWID then None
      else do {
        serialized_size \<leftarrow> row_size new_row;
        if serialized_size = 0 then None
        else do {
          let slot_num = rid_slot (row_id old_row);
          n \<leftarrow> GetTupleCount p;
          if slot_num \<ge> n then Some (-1, old_row, p)
          else do {
            tuple_size \<leftarrow> GetTupleSize slot_num p;
            if IsDeleted tuple_size then Some (-1, old_row, p)
            else do {
              room \<leftarrow> GetFreeSpaceRemaining p;
              if room + tuple_size < serialized_size then Some (0, old_row, p)
              else do {
                tuple_offset \<leftarrow> GetTupleOffsetAtSlot slot_num p;
                (read_bytes, old_row) \<leftarrow> Row_DeserializeFrom schema old_row p (unat tuple_offset);
                if tuple_size \<noteq> of_nat read_bytes then None
                else do {
                  f \<leftarrow> GetFreeSpacePointer p;
                  if tuple_offset < f \<or> unat f + unat tuple_size < unat serialized_size then None
                  else do {
                    p \<leftarrow> mem_move p (unat f + unat tuple_size - unat serialized_size) (unat f) (unat (tuple_offset - f));
                    p \<leftarrow> SetFreeSpacePointer (f + tuple_size - serialized_size) p;
                    (_, p) \<leftarrow> Row_SerializeTo new_row p (unat tuple_offset + unat tuple_size - unat serialized_size);
                    p \<leftarrow> SetTupleSize slot_num serialized_size p;
                    n \<leftarrow> GetTupleCount p;
                    p \<leftarrow> shift_offsets (\<lambda>s off. s > 0 \<and> off < tuple_offset + tuple_size)
                           (tuple_size - serialized_size) (slot_numbers n) p;
                    Some (1, old_row, p) } } } } } } })"

definition TablePage_ApplyDelete :: "RowId \<Rightarrow> byte list \<Rightarrow> byte list option" where
  "TablePage_ApplyDelete rid p = do {
     let slot_num = rid_slot rid;
     n \<leftarrow> GetTupleCount p;
     if slot_num \<ge> n then None
     else do {
       tuple_offset \<leftarrow> GetTupleOffsetAtSlot slot_num p;
       tuple_size \<leftarrow> GetTupleSize slot_num p;
       let tuple_size = (if IsDeleted tuple_size then UnsetDeletedFlag tuple_size else tuple_size);
       f \<leftarrow> GetFreeSpacePointer p;
       if tuple_offset < f then None
       else do {
         p \<leftarrow> mem_move p (unat f + unat tuple_size) (unat f) (unat (tuple_offset - f));
         p \<leftarrow> SetFreeSpacePointer (f + tuple_size) p;
         p \<leftarrow> SetTupleSize slot_num 0 p;
         p \<leftarrow> SetTupleOffsetAtSlot slot_num 0 p;
         n \<leftarrow> GetTupleCount p;
         shift_offsets (\<lambda>s off. s \<noteq> 0 \<and> off < tuple_offset) tuple_size (slot_numbers n) p } } }"

definition TablePage_RollbackDelete :: "RowId \<Rightarrow> byte list \<Rightarrow> byte list option" where
  "TablePage_RollbackDelete rid p = do {
     let slot_num = rid_slot rid;
     n \<leftarrow> GetTupleCount p;
     if slot_num \<ge> n then None
     else do {
       tuple_size \<leftarrow> GetTupleSize slot_num p;
       if IsDeleted tuple_size then SetTupleSize slot_num (UnsetDeletedFlag tuple_size) p else Some p } }"

definition TablePage_GetTuple :: "Row \<Rightarrow> Schema \<Rightarrow> byte list \<Rightarrow> (bool \<times> Row) option" where
  "TablePage_GetTuple row schema p =
     (if RowId_Get (row_id row) = RowId_Get INVALID_ROWID then None
      else do {
        let slot_num = rid_slot (row_id row);
        n \<leftarrow> GetTupleCount p;
        if slot_num \<ge> n then Some (False, row)
        else do {
          tuple_size \<leftarrow> GetTupleSize slot_num p;
          if IsDeleted tuple_size then Some (False, row)
          else do {
            tuple_offset \<leftarrow> GetTupleOffsetAtSlot slot_num p;
            (read_bytes, row) \<leftarrow> Row_DeserializeFrom schema row p (unat tuple_offset);
            if tuple_size \<noteq> of_nat read_bytes then None else Some (True, row) } } })"

definition slot_rid :: "u32 option \<Rightarrow> byte list \<Rightarrow> (bool \<times> RowId) option" where
  "slot_rid found p = (case found of
     None \<Rightarrow> Some (False, \<lparr>rid_page = INVALID_PAGE_ID, rid_slot = 0\<rparr>)
   | Some i \<Rightarrow> do { pid \<leftarrow> GetTablePageId p; Some (True, \<lparr>rid_page = pid, rid_slot = i\<rparr>) })"

definition GetFirstTupleRid :: "byte list \<Rightarrow> (bool \<times> RowId) option" where
  "GetFirstTupleRid p = do {
     n \<leftarrow> GetTupleCount p;
     found \<leftarrow> find_slot (\<lambda>s. \<not> IsDeleted s) (slot_numbers n) p;
     slot_rid found p }"

definition GetNextTupleRid :: "RowId \<Rightarrow> byte list \<Rightarrow> (bool \<times> RowId) option" where
  "GetNextTupleRid cur_rid p = do {
     pid \<leftarrow> GetTablePageId p;
     if rid_page cur_rid \<noteq> pid then None
     else do {
       n \<leftarrow> GetTupleCount p;
       found \<leftarrow> find_slot (\<lambda>s. \<not> IsDeleted s) (drop (unat (rid_slot cur_rid + 1)) (slot_numbers n)) p;
       slot_rid found p } }"


section \<open>Reading and writing a page\<close>

text \<open>Total versions of the memory accesses; inside the page they are what the code does.\<close>

definition bytes :: "byte list \<Rightarrow> nat \<Rightarrow> nat \<Rightarrow> byte list" where
  "bytes p k n = take n (drop k p)"

definition put :: "byte list \<Rightarrow> nat \<Rightarrow> byte list \<Rightarrow> byte list" where
  "put p k bs = take k p @ bs @ drop (k + length bs) p"

definition u32_at :: "byte list \<Rightarrow> nat \<Rightarrow> u32" where
  "u32_at p k = of_le32 (bytes p k 4)"

lemma mem_write_put: "k + length bs \<le> length p \<Longrightarrow> mem_write p k bs = Some (put p k bs)"
  by (simp add: mem_write_def put_def)

lemma mem_read_bytes: "k + n \<le> length p \<Longrightarrow> mem_read p k n = Some (bytes p k n)"
  by (simp add: mem_read_def bytes_def)

lemma length_bytes [simp]: "k + n \<le> length p \<Longrightarrow> length (bytes p k n) = n"
  by (simp add: bytes_def)

lemma length_put [simp]: "k + length bs \<le> length p \<Longrightarrow> length (put p k bs) = length p"
  by (simp add: put_def)

lemma put_Nil [simp]: "put p k [] = p"
  by (simp add: put_def)

lemma bytes_put_same [simp]: "k + length bs \<le> length p \<Longrightarrow> n = length bs \<Longrightarrow> bytes (put p k bs) k n = bs"
  by (simp add: bytes_def put_def)

lemma bytes_put_disjoint:
  assumes "k + length bs \<le> length p" and "j + n \<le> length p" and "j + n \<le> k \<or> k + length bs \<le> j"
  shows "bytes (put p k bs) j n = bytes p j n"
  using mem_read_write_disjoint[OF mem_write_put[OF assms(1)] assms(3)] assms(1,2) by (simp add: mem_read_bytes)

lemma put_bytes: "k + n \<le> length p \<Longrightarrow> put p k (bytes p k n) = p"
proof -
  assume "k + n \<le> length p"
  moreover have "take n (drop k p) @ drop (k + n) p = drop k p" by (metis add.commute append_take_drop_id drop_drop)
  ultimately show ?thesis by (simp add: put_def bytes_def min_def)
qed

lemma bytes_put_inside:
  assumes "k + length bs \<le> length p" and "k \<le> j" and "j + n \<le> k + length bs"
  shows "bytes (put p k bs) j n = bytes bs (j - k) n"
  using assms by (simp add: bytes_def put_def drop_take)

lemma bytes_bytes: "a + n \<le> m \<Longrightarrow> bytes (bytes p k m) a n = bytes p (k + a) n"
  by (simp add: bytes_def drop_take add.commute)

lemma READ_u32: "k + 4 \<le> length p \<Longrightarrow> MACH_READ_UINT32 p k = Some (u32_at p k)"
  by (simp add: MACH_READ_UINT32_def mem_read_bytes u32_at_def)

lemma WRITE_u32: "k + 4 \<le> length p \<Longrightarrow> MACH_WRITE_UINT32 p k w = Some (put p k (le32 w))"
  by (simp add: MACH_WRITE_UINT32_def mem_write_put)

lemma u32_at_put_same [simp]: "k + 4 \<le> length p \<Longrightarrow> u32_at (put p k (le32 w)) k = w"
  by (simp add: u32_at_def)

lemma u32_at_put_disjoint:
  "k + length bs \<le> length p \<Longrightarrow> j + 4 \<le> length p \<Longrightarrow> j + 4 \<le> k \<or> k + length bs \<le> j \<Longrightarrow> u32_at (put p k bs) j = u32_at p j"
  by (simp add: u32_at_def bytes_put_disjoint)

lemmas put_simps = u32_at_put_disjoint bytes_put_disjoint

section \<open>Slots\<close>

definition free_ptr :: "byte list \<Rightarrow> nat" where
  "free_ptr p = unat (u32_at p 16)"

definition tuple_count :: "byte list \<Rightarrow> nat" where
  "tuple_count p = unat (u32_at p 20)"

definition slot_offset :: "byte list \<Rightarrow> nat \<Rightarrow> nat" where
  "slot_offset p i = unat (u32_at p (24 + 8 * i))"

definition slot_size :: "byte list \<Rightarrow> nat \<Rightarrow> u32" where
  "slot_size p i = u32_at p (28 + 8 * i)"

definition tuple_length :: "u32 \<Rightarrow> nat" where
  "tuple_length s = unat (UnsetDeletedFlag s)"

text \<open>A slot is empty, or holds a tuple and says whether it is marked as deleted.\<close>

type_synonym slot = "(bool \<times> byte list) option"

definition slot_at :: "byte list \<Rightarrow> nat \<Rightarrow> slot" where
  "slot_at p i = (if slot_size p i = 0 then None
     else Some (IsDeleted (slot_size p i), bytes p (slot_offset p i) (tuple_length (slot_size p i))))"

definition slots :: "byte list \<Rightarrow> slot list" where
  "slots p = map (slot_at p) [0..<tuple_count p]"

definition slot_ok :: "byte list \<Rightarrow> nat \<Rightarrow> bool" where
  "slot_ok p i \<longleftrightarrow> slot_size p i = 0 \<or>
     0 < tuple_length (slot_size p i) \<and> free_ptr p \<le> slot_offset p i \<and>
     slot_offset p i + tuple_length (slot_size p i) \<le> PAGE_SIZE"

definition apart :: "byte list \<Rightarrow> nat \<Rightarrow> nat \<Rightarrow> bool" where
  "apart p i j \<longleftrightarrow> slot_size p i = 0 \<or> slot_size p j = 0 \<or>
     slot_offset p i + tuple_length (slot_size p i) \<le> slot_offset p j \<or>
     slot_offset p j + tuple_length (slot_size p j) \<le> slot_offset p i"

definition table_page_ok :: "byte list \<Rightarrow> bool" where
  "table_page_ok p \<longleftrightarrow> length p = PAGE_SIZE \<and> 24 + 8 * tuple_count p \<le> free_ptr p \<and> free_ptr p \<le> PAGE_SIZE \<and>
     (\<forall>i < tuple_count p. slot_ok p i \<and> (\<forall>j < i. apart p i j))"

lemma apart_sym: "apart p i j \<longleftrightarrow> apart p j i"
  by (auto simp: apart_def)

lemma table_page_okD:
  assumes "table_page_ok p"
  shows "length p = PAGE_SIZE" "24 + 8 * tuple_count p \<le> free_ptr p" "free_ptr p \<le> PAGE_SIZE"
    "\<And>i. i < tuple_count p \<Longrightarrow> slot_ok p i"
    "\<And>i j. i < tuple_count p \<Longrightarrow> j < tuple_count p \<Longrightarrow> i \<noteq> j \<Longrightarrow> apart p i j"
proof -
  show "apart p i j" if "i < tuple_count p" "j < tuple_count p" "i \<noteq> j" for i j
    using assms that apart_sym[of p i j] by (cases "j < i") (auto simp: table_page_ok_def)
qed (use assms in \<open>auto simp: table_page_ok_def\<close>)

lemma length_slots [simp]: "length (slots p) = tuple_count p"
  by (simp add: slots_def)

lemma nth_slots [simp]: "i < tuple_count p \<Longrightarrow> slots p ! i = slot_at p i"
  by (simp add: slots_def)

lemmas page_offsets = OFFSET_PREV_PAGE_ID_def OFFSET_NEXT_PAGE_ID_def OFFSET_FREE_SPACE_def OFFSET_TUPLE_COUNT_def
  OFFSET_TUPLE_OFFSET_def OFFSET_TUPLE_SIZE_def SIZE_TUPLE_def SIZE_TABLE_PAGE_HEADER_def

text \<open>The accesses of the code inside a page.\<close>

lemma page_reads:
  assumes "length p = PAGE_SIZE"
  shows "GetFreeSpacePointer p = Some (u32_at p 16)" "GetTupleCount p = Some (u32_at p 20)"
    "GetTablePageId p = Some (sint (u32_at p 0))" "GetPrevPageId p = Some (sint (u32_at p 8))"
    "GetNextPageId p = Some (sint (u32_at p 12))"
    "28 + 8 * unat i < PAGE_SIZE \<Longrightarrow> GetTupleOffsetAtSlot i p = Some (u32_at p (24 + 8 * unat i))"
    "32 + 8 * unat i \<le> PAGE_SIZE \<Longrightarrow> GetTupleSize i p = Some (slot_size p (unat i))"
  using assms by (simp_all add: GetFreeSpacePointer_def GetTupleCount_def GetTablePageId_def GetPrevPageId_def GetNextPageId_def
      GetTupleOffsetAtSlot_def GetTupleSize_def page_offsets MACH_READ_INT32_def READ_u32 PAGE_SIZE_def slot_size_def)

lemma page_writes:
  assumes "length p = PAGE_SIZE"
  shows "SetFreeSpacePointer w p = Some (put p 16 (le32 w))" "SetTupleCount w p = Some (put p 20 (le32 w))"
    "SetPrevPageId a p = Some (put p 8 (le32 (word_of_int a)))" "SetNextPageId a p = Some (put p 12 (le32 (word_of_int a)))"
    "28 + 8 * unat i \<le> PAGE_SIZE \<Longrightarrow> SetTupleOffsetAtSlot i w p = Some (put p (24 + 8 * unat i) (le32 w))"
    "32 + 8 * unat i \<le> PAGE_SIZE \<Longrightarrow> SetTupleSize i w p = Some (put p (28 + 8 * unat i) (le32 w))"
  using assms by (simp_all add: SetFreeSpacePointer_def SetTupleCount_def SetPrevPageId_def SetNextPageId_def
      SetTupleOffsetAtSlot_def SetTupleSize_def page_offsets MACH_WRITE_INT32_def WRITE_u32 PAGE_SIZE_def)

lemmas page_access = page_reads page_writes

lemma length_put_page [simp]: "length p = PAGE_SIZE \<Longrightarrow> k + length bs \<le> PAGE_SIZE \<Longrightarrow> length (put p k bs) = PAGE_SIZE"
  by simp

text \<open>The delete mark.\<close>

lemma bit_DELETE_MASK [simp]: "bit DELETE_MASK k \<longleftrightarrow> k = 31"
proof -
  have "bit (push_bit 31 1 :: u32) k \<longleftrightarrow> k = 31"
    unfolding bit_push_bit_iff bit_1_iff possible_bit_word by auto
  then show ?thesis by (simp add: DELETE_MASK_def)
qed

lemma IsDeleted_bit: "IsDeleted s \<longleftrightarrow> bit s 31 \<or> s = 0"
proof -
  have "s AND DELETE_MASK \<noteq> 0 \<longleftrightarrow> bit s 31"
    by (auto simp: bit_eq_iff[of "s AND DELETE_MASK" 0] bit_and_iff)
  then show ?thesis by (simp add: IsDeleted_def)
qed

lemma bit_UnsetDeletedFlag: "bit (UnsetDeletedFlag s) k \<longleftrightarrow> bit s k \<and> k \<noteq> 31"
  by (auto simp: UnsetDeletedFlag_def bit_and_iff bit_not_iff dest: bit_imp_possible_bit)

lemma bit_SetDeletedFlag: "bit (SetDeletedFlag s) k \<longleftrightarrow> bit s k \<or> k = 31"
  by (simp add: SetDeletedFlag_def bit_or_iff)

lemma Unset_not_deleted: "\<not> IsDeleted s \<Longrightarrow> UnsetDeletedFlag s = s"
  by (rule bit_word_eqI) (auto simp: bit_UnsetDeletedFlag IsDeleted_bit)

lemma Unset_Set: "\<not> IsDeleted s \<Longrightarrow> UnsetDeletedFlag (SetDeletedFlag s) = s"
  by (rule bit_word_eqI) (auto simp: bit_UnsetDeletedFlag bit_SetDeletedFlag IsDeleted_bit)

lemma Unset_Unset [simp]: "UnsetDeletedFlag (UnsetDeletedFlag s) = UnsetDeletedFlag s"
  by (rule bit_word_eqI) (auto simp: bit_UnsetDeletedFlag)

lemma IsDeleted_Set [simp]: "IsDeleted (SetDeletedFlag s)"
  by (simp add: IsDeleted_bit bit_SetDeletedFlag)

lemma SetDeletedFlag_nonzero [simp]: "SetDeletedFlag s \<noteq> 0"
  using bit_SetDeletedFlag[of s 31] by auto

lemma IsDeleted_Unset: "UnsetDeletedFlag s \<noteq> 0 \<Longrightarrow> \<not> IsDeleted (UnsetDeletedFlag s)"
  by (simp add: IsDeleted_bit bit_UnsetDeletedFlag)

lemma IsDeleted_0 [simp]: "IsDeleted 0"
  by (simp add: IsDeleted_def)

lemma small_not_deleted: "unat s < 2 ^ 31 \<Longrightarrow> s \<noteq> 0 \<Longrightarrow> \<not> IsDeleted s"
proof (unfold IsDeleted_bit, rule notI)
  assume a: "unat s < 2 ^ 31" "s \<noteq> 0" "bit s 31 \<or> s = 0"
  then have "bit (unat s) 31" by (simp add: bit_unsigned_iff)
  then show False using a(1) by (simp add: bit_iff_odd)
qed


section \<open>Abstract operations on slots\<close>

definition mark_slot :: "nat \<Rightarrow> slot list \<Rightarrow> bool \<times> slot list" where
  "mark_slot i ss = (if i < length ss then (case ss ! i of
     Some (False, b) \<Rightarrow> (True, ss[i := Some (True, b)]) | _ \<Rightarrow> (False, ss)) else (False, ss))"

definition unmark_slot :: "nat \<Rightarrow> slot list \<Rightarrow> slot list" where
  "unmark_slot i ss = ss[i := map_option (\<lambda>(d, b). (False, b)) (ss ! i)]"

definition free_slot :: "slot list \<Rightarrow> nat" where
  "free_slot ss = length (takeWhile (\<lambda>s. s \<noteq> None) ss)"

definition add_tuple :: "byte list \<Rightarrow> slot list \<Rightarrow> slot list" where
  "add_tuple b ss = (if None \<in> set ss then ss[free_slot ss := Some (False, b)] else ss @ [Some (False, b)])"

text \<open>The part of the header that the tuple operations do not change: page id, log sequence number and
  the neighbours.\<close>

definition page_links :: "byte list \<Rightarrow> byte list" where
  "page_links p = bytes p 0 16"

lemma u32_at_links: "k + 4 \<le> 16 \<Longrightarrow> u32_at p k = of_le32 (bytes (page_links p) k 4)"
  by (simp add: u32_at_def page_links_def bytes_bytes)

lemma page_links_ids:
  assumes "page_links p' = page_links p" and "length p = PAGE_SIZE" and "length p' = PAGE_SIZE"
  shows "GetTablePageId p' = GetTablePageId p" "GetNextPageId p' = GetNextPageId p" "GetPrevPageId p' = GetPrevPageId p"
  using assms by (simp_all add: page_reads u32_at_links)

lemma slots_eqI:
  assumes "tuple_count p' = length ss" and "\<And>j. j < length ss \<Longrightarrow> slot_at p' j = ss ! j"
  shows "slots p' = ss"
  using assms by (intro nth_equalityI) simp_all

lemma slots_update:
  assumes "tuple_count p' = tuple_count p" and "i < tuple_count p \<Longrightarrow> slot_at p' i = x"
    and "\<And>j. j < tuple_count p \<Longrightarrow> j \<noteq> i \<Longrightarrow> slot_at p' j = slot_at p j"
  shows "slots p' = (slots p)[i := x]"
proof (rule slots_eqI)
  show "slot_at p' j = (slots p)[i := x] ! j" if "j < length ((slots p)[i := x])" for j
    using assms that by (cases "j = i") simp_all
qed (simp add: assms(1))

lemma slot_at_cong:
  assumes "slot_size p' j = slot_size p j"
    and "slot_size p j \<noteq> 0 \<Longrightarrow> bytes p' (slot_offset p' j) (tuple_length (slot_size p j)) =
      bytes p (slot_offset p j) (tuple_length (slot_size p j))"
  shows "slot_at p' j = slot_at p j"
  using assms by (simp add: slot_at_def)

lemma slot_number_facts:
  assumes "table_page_ok p" and "i < tuple_count p"
  shows "32 + 8 * i \<le> free_ptr p" "32 + 8 * i \<le> PAGE_SIZE"
  using table_page_okD(2,3)[OF assms(1)] assms(2) by simp_all

text \<open>Writing the size of a slot.\<close>

lemma put_size:
  assumes "table_page_ok p" and "i < tuple_count p" and p': "p' = put p (28 + 8 * i) (le32 w)"
  shows "length p' = PAGE_SIZE" "free_ptr p' = free_ptr p" "tuple_count p' = tuple_count p" "page_links p' = page_links p"
    "\<And>j. j < tuple_count p \<Longrightarrow> slot_offset p' j = slot_offset p j"
    "\<And>j. j < tuple_count p \<Longrightarrow> slot_size p' j = (if j = i then w else slot_size p j)"
    "\<And>k n. free_ptr p \<le> k \<Longrightarrow> k + n \<le> PAGE_SIZE \<Longrightarrow> bytes p' k n = bytes p k n"
proof -
  note D = table_page_okD[OF assms(1)] and I = slot_number_facts[OF assms(1,2)]
  note S = free_ptr_def tuple_count_def page_links_def slot_offset_def slot_size_def put_simps
  show "length p' = PAGE_SIZE" using D I p' by simp
  show "free_ptr p' = free_ptr p" "tuple_count p' = tuple_count p" "page_links p' = page_links p"
    using D(1) I p' by (simp_all add: S PAGE_SIZE_def)
  show "slot_offset p' j = slot_offset p j" if j: "j < tuple_count p" for j
    using D(1) I slot_number_facts[OF assms(1) j] p' unfolding slot_offset_def by (subst p', subst u32_at_put_disjoint) (simp_all, arith)
  show "slot_size p' j = (if j = i then w else slot_size p j)" if j: "j < tuple_count p" for j
  proof (cases "j = i")
    case False
    then show ?thesis using D(1) I slot_number_facts[OF assms(1) j] p' unfolding slot_size_def
      by (subst p', subst u32_at_put_disjoint) (simp_all, arith)
  qed (use D(1) I p' in \<open>simp add: slot_size_def\<close>)
  show "bytes p' k n = bytes p k n" if "free_ptr p \<le> k" "k + n \<le> PAGE_SIZE" for k n
    using D(1) I that p' by (simp add: bytes_put_disjoint)
qed

text \<open>Setting or clearing the mark of a tuple.\<close>

lemma put_mark:
  assumes ok: "table_page_ok p" and i: "i < tuple_count p" and w: "slot_size p i \<noteq> 0" "w \<noteq> 0"
    "UnsetDeletedFlag w = UnsetDeletedFlag (slot_size p i)" and p': "p' = put p (28 + 8 * i) (le32 w)"
  shows "table_page_ok p' \<and> page_links p' = page_links p \<and>
    slots p' = (slots p)[i := Some (IsDeleted w, snd (the (slot_at p i)))]"
proof -
  note D = table_page_okD[OF ok] and P = put_size[OF ok i p']
  have len: "tuple_length (slot_size p' j) = tuple_length (slot_size p j)" "slot_size p' j = 0 \<longleftrightarrow> slot_size p j = 0"
    if "j < tuple_count p" for j using P(6)[OF that] w by (auto simp: tuple_length_def)
  have so: "slot_ok p' j" if "j < tuple_count p" for j
    using D(4)[OF that] len[OF that] P(2) P(5)[OF that] by (simp add: slot_ok_def)
  have "apart p' j k" if "j < tuple_count p" "k < j" for j k
    using D(5)[of j k] len[of j] len[of k] P(5)[of j] P(5)[of k] that by (simp add: apart_def)
  then have ok': "table_page_ok p'" using D P so by (simp add: table_page_ok_def)
  have b: "bytes p' (slot_offset p' j) (tuple_length (slot_size p' j)) = bytes p (slot_offset p j) (tuple_length (slot_size p j))"
    if "j < tuple_count p" "slot_size p j \<noteq> 0" for j
    using P(7)[of "slot_offset p j"] D(4)[OF that(1)] that len P(5) by (simp add: slot_ok_def)
  have "slots p' = (slots p)[i := Some (IsDeleted w, snd (the (slot_at p i)))]"
  proof (rule slots_update)
    show "slot_at p' i = Some (IsDeleted w, snd (the (slot_at p i)))"
      using b[OF i w(1)] w P(6)[OF i] by (simp add: slot_at_def)
    show "slot_at p' j = slot_at p j" if "j < tuple_count p" "j \<noteq> i" for j
      by (rule slot_at_cong) (use b[OF that(1)] len[OF that(1)] P(6)[OF that(1)] that in simp_all)
  qed (simp add: P)
  with ok' P(4) show ?thesis by simp
qed


lemma slot_at_None: "slot_at p i = None \<longleftrightarrow> slot_size p i = 0"
  by (simp add: slot_at_def)

text \<open>The bounds test of the operations.\<close>

lemma slot_in_range: "slot \<ge> u32_at p 20 \<longleftrightarrow> \<not> unat slot < tuple_count p"
  by (simp add: tuple_count_def word_le_nat_alt not_less)

lemma MarkDelete_refines:
  assumes ok: "table_page_ok p"
  shows "\<exists>b p'. TablePage_MarkDelete rid p = Some (b, p') \<and> table_page_ok p' \<and> page_links p' = page_links p \<and>
    (b, slots p') = mark_slot (unat (rid_slot rid)) (slots p)"
proof (cases "unat (rid_slot rid) < tuple_count p")
  case True
  let ?i = "unat (rid_slot rid)"
  let ?s = "slot_size p ?i"
  note D = table_page_okD[OF ok] and A = page_access[OF table_page_okD(1)[OF ok]]
  note I = slot_number_facts[OF ok True]
  note E = TablePage_MarkDelete_def Let_def A I True slot_in_range mark_slot_def slot_at_def
  show ?thesis
  proof (cases "IsDeleted ?s")
    case False
    then have s: "?s \<noteq> 0" by (auto simp: IsDeleted_def)
    let ?p = "put p (28 + 8 * ?i) (le32 (SetDeletedFlag ?s))"
    have "TablePage_MarkDelete rid p = Some (True, ?p)" using False s by (simp add: E word_gt_0)
    moreover have "UnsetDeletedFlag (SetDeletedFlag ?s) = UnsetDeletedFlag ?s" by (simp add: Unset_Set[OF False] Unset_not_deleted[OF False])
    from put_mark[OF ok True s SetDeletedFlag_nonzero this refl]
    have "table_page_ok ?p \<and> page_links ?p = page_links p \<and> slots ?p = (slots p)[?i := Some (True, snd (the (slot_at p ?i)))]" by simp
    ultimately show ?thesis using False s True by (auto simp: mark_slot_def slot_at_def)
  qed (use ok True in \<open>auto simp: E split: bool.splits\<close>)
next
  case False
  then show ?thesis using ok page_access[OF table_page_okD(1)[OF ok]]
    by (auto simp: TablePage_MarkDelete_def slot_in_range mark_slot_def)
qed

lemma RollbackDelete_refines:
  assumes ok: "table_page_ok p" and i: "unat (rid_slot rid) < tuple_count p"
  shows "\<exists>p'. TablePage_RollbackDelete rid p = Some p' \<and> table_page_ok p' \<and> page_links p' = page_links p \<and>
    slots p' = unmark_slot (unat (rid_slot rid)) (slots p)"
proof -
  let ?i = "unat (rid_slot rid)"
  let ?s = "slot_size p ?i" and ?u = "UnsetDeletedFlag (slot_size p ?i)"
  note A = page_access[OF table_page_okD(1)[OF ok]] and I = slot_number_facts[OF ok i]
  note E = TablePage_RollbackDelete_def Let_def A I i slot_in_range
  consider "\<not> IsDeleted ?s" | "?s = 0" | "IsDeleted ?s" "?s \<noteq> 0" by blast
  then show ?thesis
  proof cases
    case 1
    then have "?s \<noteq> 0" by (auto simp: IsDeleted_def)
    with 1 have "slots p ! ?i = map_option (\<lambda>(d, b). (False, b)) (slots p ! ?i)" using i by (simp add: slot_at_def)
    then have "unmark_slot ?i (slots p) = slots p" unfolding unmark_slot_def by (metis list_update_id)
    with 1 ok show ?thesis by (simp add: E)
  next
    case 2
    let ?p = "put p (28 + 8 * ?i) (le32 0)"
    have "?u = 0" using 2 by (simp add: UnsetDeletedFlag_def)
    with 2 have "TablePage_RollbackDelete rid p = Some ?p" by (simp add: E)
    moreover have "?p = p"
    proof -
      have "le32 0 = bytes p (28 + 8 * ?i) 4" using le32_of_le32[of "bytes p (28 + 8 * ?i) 4"] 2 table_page_okD(1)[OF ok] I(2)
        by (simp add: slot_size_def u32_at_def)
      then show ?thesis using table_page_okD(1)[OF ok] I(2) by (simp add: put_bytes)
    qed
    moreover have "slots p ! ?i = None" using i 2 by (simp add: slot_at_def)
    then have "unmark_slot ?i (slots p) = slots p" by (simp add: unmark_slot_def list_update_same_conv i)
    ultimately show ?thesis using ok by simp
  next
    case 3
    let ?p = "put p (28 + 8 * ?i) (le32 ?u)"
    have u: "?u \<noteq> 0" using table_page_okD(4)[OF ok i] 3 by (auto simp: slot_ok_def tuple_length_def)
    have "TablePage_RollbackDelete rid p = Some ?p" using 3 by (simp add: E)
    moreover from put_mark[OF ok i 3(2) u _ refl] have "table_page_ok ?p \<and> page_links ?p = page_links p \<and>
      slots ?p = (slots p)[?i := Some (False, snd (the (slot_at p ?i)))]" using IsDeleted_Unset[OF u] by simp
    ultimately show ?thesis using 3 i by (simp add: unmark_slot_def slot_at_def)
  qed
qed

lemma Init_ok:
  assumes "length p = PAGE_SIZE" and "int32_range pid" and "int32_range prev_id"
  shows "\<exists>p'. TablePage_Init pid prev_id p = Some p' \<and> table_page_ok p' \<and> slots p' = [] \<and> free_ptr p' = PAGE_SIZE \<and>
    GetTablePageId p' = Some pid \<and> GetPrevPageId p' = Some prev_id \<and> GetNextPageId p' = Some INVALID_PAGE_ID"
proof -
  let ?p = "put (put (put (put (put p 0 (le32 (word_of_int pid))) 8 (le32 (word_of_int prev_id))) 12 (le32 (word_of_int INVALID_PAGE_ID)))
    16 (le32 (of_nat PAGE_SIZE))) 20 (le32 0)"
  have l: "length ?p = PAGE_SIZE" using assms(1) by (simp add: PAGE_SIZE_def)
  have "TablePage_Init pid prev_id p = Some ?p"
    using assms(1) by (simp add: TablePage_Init_def page_writes MACH_WRITE_INT32_def WRITE_u32 PAGE_SIZE_def)
  moreover have "tuple_count ?p = 0" "free_ptr ?p = PAGE_SIZE"
    using assms(1) by (simp_all add: tuple_count_def free_ptr_def put_simps PAGE_SIZE_def unsigned_of_nat)
  moreover have "u32_at ?p 0 = word_of_int pid" "u32_at ?p 8 = word_of_int prev_id" "u32_at ?p 12 = word_of_int INVALID_PAGE_ID"
    using assms(1) by (simp_all add: put_simps PAGE_SIZE_def)
  moreover have "int32_range INVALID_PAGE_ID" by (simp add: int32_range_def INVALID_PAGE_ID_def)
  ultimately show ?thesis using l assms(2,3)
    by (simp add: table_page_ok_def slots_def page_reads sint_word_of_int32 PAGE_SIZE_def)
qed


section \<open>Searching and reading slots\<close>

lemma slot_numbers_facts:
  assumes "table_page_ok p"
  shows "slot_numbers (u32_at p 20) = map of_nat [0..<tuple_count p]"
    "i < tuple_count p \<Longrightarrow> unat (of_nat i :: u32) = i"
proof -
  show "slot_numbers (u32_at p 20) = map of_nat [0..<tuple_count p]" by (simp add: slot_numbers_def tuple_count_def)
  assume "i < tuple_count p"
  then have "i < 2 ^ 32" using slot_number_facts(2)[OF assms, of i] by (simp add: PAGE_SIZE_def)
  then show "unat (of_nat i :: u32) = i" by (rule unat_of_nat_u32)
qed

lemma find_slot_upt:
  assumes ok: "table_page_ok p" and "b \<le> tuple_count p"
  shows "find_slot Q (map of_nat [a..<b]) p =
    Some (map_option of_nat (find (\<lambda>i. Q (slot_size p i)) [a..<b]))"
  using assms(2)
proof (induction "b - a" arbitrary: a)
  case (Suc n)
  then have a: "a < b" by simp
  then have up: "[a..<b] = a # [Suc a..<b]" by (rule upt_conv_Cons)
  have "GetTupleSize (of_nat a) p = Some (slot_size p a)"
    using a Suc.prems page_access(7)[OF table_page_okD(1)[OF ok], of "of_nat a"] slot_number_facts[OF ok, of a]
      slot_numbers_facts(2)[OF ok, of a] by simp
  then show ?case using Suc.hyps(1)[of "Suc a"] Suc.hyps(2) Suc.prems a by (simp add: up)
qed simp

lemmas find_slot_all = find_slot_upt[OF _ order_refl]

text \<open>The first live tuple from a slot on.\<close>

definition live_from :: "nat \<Rightarrow> slot list \<Rightarrow> nat option" where
  "live_from i ss = find (\<lambda>k. case ss ! k of Some (False, b) \<Rightarrow> True | _ \<Rightarrow> False) [i..<length ss]"

lemma live_from_find:
  "live_from i (slots p) = find (\<lambda>k. \<not> IsDeleted (slot_size p k)) [i..<tuple_count p]"
proof -
  have "(case slots p ! k of Some (False, b) \<Rightarrow> True | _ \<Rightarrow> False) \<longleftrightarrow> \<not> IsDeleted (slot_size p k)" if "k < tuple_count p" for k
    using that by (auto simp: slot_at_def)
  then show ?thesis unfolding live_from_def length_slots by (intro find_cong) simp_all
qed

definition rid_at :: "page_id_t \<Rightarrow> nat option \<Rightarrow> bool \<times> RowId" where
  "rid_at pid found = (case found of None \<Rightarrow> (False, INVALID_ROWID) | Some i \<Rightarrow> (True, \<lparr>rid_page = pid, rid_slot = of_nat i\<rparr>))"

lemma slot_rid_at:
  "GetTablePageId p = Some pid \<Longrightarrow> slot_rid (map_option of_nat found) p = Some (rid_at pid found)"
  by (simp add: slot_rid_def rid_at_def INVALID_ROWID_def split: option.split)

lemma GetFirstTupleRid_spec:
  assumes "table_page_ok p" and "GetTablePageId p = Some pid"
  shows "GetFirstTupleRid p = Some (rid_at pid (live_from 0 (slots p)))"
  using assms page_reads(2)[OF table_page_okD(1)[OF assms(1)]]
  by (simp add: GetFirstTupleRid_def slot_numbers_facts find_slot_all slot_rid_at live_from_find)

lemma GetNextTupleRid_spec:
  assumes "table_page_ok p" and "GetTablePageId p = Some (rid_page rid)" and "unat (rid_slot rid) < tuple_count p"
  shows "GetNextTupleRid rid p = Some (rid_at (rid_page rid) (live_from (Suc (unat (rid_slot rid))) (slots p)))"
proof -
  have "Suc (unat (rid_slot rid)) < 2 ^ 32" using slot_number_facts(2)[OF assms(1,3)] by (simp add: PAGE_SIZE_def)
  then have "unat (rid_slot rid + 1) = Suc (unat (rid_slot rid))"
    by (simp add: unat_word_ariths(1))
  then have "drop (unat (rid_slot rid + 1)) (map of_nat [0..<tuple_count p]) = (map of_nat [Suc (unat (rid_slot rid))..<tuple_count p] :: u32 list)"
    by (simp add: drop_map)
  then show ?thesis using assms page_reads(2)[OF table_page_okD(1)[OF assms(1)]]
    by (simp add: GetNextTupleRid_def slot_numbers_facts find_slot_all slot_rid_at live_from_find)
qed

text \<open>Reading a tuple.\<close>

lemma Row_DeserializeFrom_bytes:
  assumes "row_ok schema fs" and "bytes p off (length (row_bytes fs)) = row_bytes fs" and "off + length (row_bytes fs) \<le> length p"
  shows "Row_DeserializeFrom schema r p off = Some (length (row_bytes fs), r\<lparr>row_fields := fs\<rparr>)"
  using fields_DeserializeFrom_ok[OF assms(1), of p off 0] assms(2,3) by (simp add: Row_DeserializeFrom_def mem_read_bytes)

lemma GetTuple_spec:
  assumes ok: "table_page_ok p" and r: "RowId_Get (row_id r) \<noteq> RowId_Get INVALID_ROWID"
  shows "unat (rid_slot (row_id r)) < length (slots p) \<Longrightarrow> slots p ! unat (rid_slot (row_id r)) = Some (False, row_bytes fs) \<Longrightarrow>
      row_ok schema fs \<Longrightarrow> TablePage_GetTuple r schema p = Some (True, r\<lparr>row_fields := fs\<rparr>)"
    and "\<not> (\<exists>b. unat (rid_slot (row_id r)) < length (slots p) \<and> slots p ! unat (rid_slot (row_id r)) = Some (False, b)) \<Longrightarrow>
      TablePage_GetTuple r schema p = Some (False, r)"
proof -
  let ?i = "unat (rid_slot (row_id r))"
  note A = page_access[OF table_page_okD(1)[OF ok]]
  note E = TablePage_GetTuple_def Let_def r A slot_in_range
  show "TablePage_GetTuple r schema p = Some (True, r\<lparr>row_fields := fs\<rparr>)"
    if i: "?i < length (slots p)" and s: "slots p ! ?i = Some (False, row_bytes fs)" and "row_ok schema fs"
  proof -
    have i': "?i < tuple_count p" using i by simp
    note I = slot_number_facts[OF ok i']
    from s i' have d: "slot_size p ?i \<noteq> 0" "\<not> IsDeleted (slot_size p ?i)"
      and b: "bytes p (slot_offset p ?i) (tuple_length (slot_size p ?i)) = row_bytes fs"
      by (auto simp: slot_at_def split: if_splits)
    have l: "tuple_length (slot_size p ?i) = unat (slot_size p ?i)" using d by (simp add: tuple_length_def Unset_not_deleted)
    have e: "slot_offset p ?i + unat (slot_size p ?i) \<le> PAGE_SIZE" using table_page_okD(4)[OF ok i'] d(1) l by (simp add: slot_ok_def)
    with b l have n: "length (row_bytes fs) = unat (slot_size p ?i)" using table_page_okD(1)[OF ok] by (metis length_bytes)
    have "Row_DeserializeFrom schema r p (slot_offset p ?i) = Some (length (row_bytes fs), r\<lparr>row_fields := fs\<rparr>)"
      by (rule Row_DeserializeFrom_bytes) (use that b l n e table_page_okD(1)[OF ok] in simp_all)
    then show ?thesis using d i' I n by (simp add: E slot_offset_def)
  qed
  show "TablePage_GetTuple r schema p = Some (False, r)"
    if "\<not> (\<exists>b. ?i < length (slots p) \<and> slots p ! ?i = Some (False, b))"
  proof (cases "?i < tuple_count p")
    case True
    then have "IsDeleted (slot_size p ?i)" using that by (auto simp: slot_at_def split: if_splits)
    then show ?thesis using True slot_number_facts[OF ok True] by (simp add: E)
  qed (simp add: E)
qed


section \<open>Inserting a tuple\<close>

lemma find_takeWhile:
  "find Q xs = (let k = length (takeWhile (\<lambda>x. \<not> Q x) xs) in if k < length xs then Some (xs ! k) else None)"
  by (induction xs) (auto simp: Let_def)

lemma free_slot_slots: "free_slot (slots p) = length (takeWhile (\<lambda>i. slot_size p i \<noteq> 0) [0..<tuple_count p])"
proof -
  have "(\<lambda>s. s \<noteq> None) \<circ> slot_at p = (\<lambda>i. slot_size p i \<noteq> 0)" by (rule ext) (simp add: slot_at_None del: not_None_eq)
  then show ?thesis by (simp add: free_slot_def slots_def takeWhile_map)
qed

lemma length_takeWhile_less_iff: "length (takeWhile Q xs) < length xs \<longleftrightarrow> (\<exists>x \<in> set xs. \<not> Q x)"
  by (induction xs) auto

lemma free_slot_bounds: "free_slot ss \<le> length ss" "free_slot ss < length ss \<longleftrightarrow> None \<in> set ss"
  unfolding free_slot_def length_takeWhile_less_iff by (rule length_takeWhile_le) metis

lemma found_slot:
  "(case map_option of_nat (find (\<lambda>i. slot_size p i = 0) [0..<tuple_count p]) of None \<Rightarrow> u32_at p 20 | Some j \<Rightarrow> j) =
     (of_nat (free_slot (slots p)) :: u32)"
  using free_slot_bounds(1)[of "slots p"] unfolding find_takeWhile Let_def free_slot_slots[symmetric]
  by (auto simp: tuple_count_def)

lemma word_of_ptrs: "u32_at p 16 = of_nat (free_ptr p)" "u32_at p 20 = of_nat (tuple_count p)"
  by (simp_all add: free_ptr_def tuple_count_def)

lemma small_u32: "n \<le> PAGE_SIZE \<Longrightarrow> unat (of_nat n :: u32) = n"
  by (rule unat_of_nat_u32) (simp add: PAGE_SIZE_def)

lemma FreeSpaceRemaining_value:
  assumes ok: "table_page_ok p"
  shows "GetFreeSpaceRemaining p = Some (of_nat (free_ptr p - (24 + 8 * tuple_count p)))"
proof -
  have "(of_nat (free_ptr p - (24 + 8 * tuple_count p)) :: u32) = of_nat (free_ptr p) - 24 - 8 * of_nat (tuple_count p)"
    using table_page_okD(2)[OF ok] by (simp add: of_nat_diff)
  then show ?thesis using table_page_okD(1)[OF ok] by (simp add: GetFreeSpaceRemaining_def page_reads word_of_ptrs page_offsets)
qed

text \<open>The state of the page after the writes of an insertion.\<close>

definition with_tuple :: "byte list \<Rightarrow> nat \<Rightarrow> byte list \<Rightarrow> byte list" where
  "with_tuple b i p =
    (let f = free_ptr p - length b;
         q = put (put (put (put p 16 (le32 (of_nat f))) f b) (24 + 8 * i) (le32 (of_nat f))) (28 + 8 * i) (le32 (of_nat (length b)))
     in if i = tuple_count p then put q 20 (le32 (of_nat (tuple_count p) + 1)) else q)"

lemma with_tuple_effect:
  assumes ok: "table_page_ok p" and i: "i \<le> tuple_count p" and room: "32 + 8 * tuple_count p + length b \<le> free_ptr p"
  shows "length (with_tuple b i p) = PAGE_SIZE" "free_ptr (with_tuple b i p) = free_ptr p - length b"
    "tuple_count (with_tuple b i p) = max (tuple_count p) (Suc i)" "page_links (with_tuple b i p) = page_links p"
    "bytes (with_tuple b i p) (free_ptr p - length b) (length b) = b"
    "\<And>k n. free_ptr p \<le> k \<Longrightarrow> k + n \<le> PAGE_SIZE \<Longrightarrow> bytes (with_tuple b i p) k n = bytes p k n"
    "slot_size (with_tuple b i p) i = of_nat (length b)" "slot_offset (with_tuple b i p) i = free_ptr p - length b"
    "\<And>j. j < tuple_count p \<Longrightarrow> j \<noteq> i \<Longrightarrow> slot_size (with_tuple b i p) j = slot_size p j"
    "\<And>j. j < tuple_count p \<Longrightarrow> j \<noteq> i \<Longrightarrow> slot_offset (with_tuple b i p) j = slot_offset p j"
proof -
  note D = table_page_okD(1,3)[OF ok]
  note S = with_tuple_def Let_def put_simps D i room
  have f: "free_ptr p - length b + length b \<le> PAGE_SIZE" "32 + 8 * tuple_count p \<le> free_ptr p - length b" using D(2) room by simp_all
  have i': "32 + 8 * i \<le> free_ptr p - length b" "32 + 8 * i \<le> PAGE_SIZE" using i f by simp_all
  show "length (with_tuple b i p) = PAGE_SIZE" using f i' by (simp add: with_tuple_def Let_def D PAGE_SIZE_def)
  show "free_ptr (with_tuple b i p) = free_ptr p - length b"
    using f i' small_u32[of "free_ptr p - length b"] unfolding free_ptr_def[of "with_tuple b i p"] by (simp add: S PAGE_SIZE_def)
  show "tuple_count (with_tuple b i p) = max (tuple_count p) (Suc i)"
  proof (cases "i = tuple_count p")
    case True
    have "(of_nat (tuple_count p) + 1 :: u32) = of_nat (Suc i)" using True by simp
    then show ?thesis using True f i' small_u32[of "Suc i"] unfolding tuple_count_def[of "with_tuple b i p"]
      by (simp add: S PAGE_SIZE_def add.commute)
  next
    case False
    have "u32_at (with_tuple b i p) 20 = u32_at p 20" using False f i' by (simp add: S PAGE_SIZE_def)
    then show ?thesis using False i by (simp add: tuple_count_def)
  qed
  show "page_links (with_tuple b i p) = page_links p" using f i' by (simp add: S page_links_def PAGE_SIZE_def)
  show "bytes (with_tuple b i p) (free_ptr p - length b) (length b) = b" using f i' by (simp add: S PAGE_SIZE_def)
  show "bytes (with_tuple b i p) k n = bytes p k n" if "free_ptr p \<le> k" "k + n \<le> PAGE_SIZE" for k n
  proof -
    have "free_ptr p - length b + length b \<le> k" "28 + 8 * i + 4 \<le> k" "24 + 8 * i + 4 \<le> k" "24 \<le> k" using that(1) room i' by simp_all
    then show ?thesis using that(2) f i' by (simp add: S PAGE_SIZE_def)
  qed
  show "slot_size (with_tuple b i p) i = of_nat (length b)" using f i' by (simp add: S slot_size_def PAGE_SIZE_def)
  show "slot_offset (with_tuple b i p) i = free_ptr p - length b"
    using f i' small_u32[of "free_ptr p - length b"] by (simp add: S slot_offset_def PAGE_SIZE_def)
  show "slot_size (with_tuple b i p) j = slot_size p j" "slot_offset (with_tuple b i p) j = slot_offset p j"
    if ji: "j < tuple_count p" "j \<noteq> i" for j
  proof -
    have j: "32 + 8 * j \<le> free_ptr p - length b" using ji f by simp
    consider "j < i" | "i < j" using ji(2) nat_neq_iff by blast
    then have "slot_size (with_tuple b i p) j = slot_size p j \<and> slot_offset (with_tuple b i p) j = slot_offset p j"
      by cases (use f i' j in \<open>simp_all add: S slot_size_def slot_offset_def PAGE_SIZE_def\<close>)
    then show "slot_size (with_tuple b i p) j = slot_size p j" "slot_offset (with_tuple b i p) j = slot_offset p j" by simp_all
  qed
qed


lemma with_tuple_ok:
  assumes ok: "table_page_ok p" and i: "i = free_slot (slots p)" and room: "32 + 8 * tuple_count p + length b \<le> free_ptr p"
    and b: "b \<noteq> []"
  shows "table_page_ok (with_tuple b i p) \<and> slots (with_tuple b i p) = add_tuple b (slots p)"
proof -
  let ?p = "with_tuple b i p"
  note D = table_page_okD[OF ok]
  have i': "i \<le> tuple_count p" "i < tuple_count p \<longleftrightarrow> None \<in> set (slots p)" using free_slot_bounds[of "slots p"] i by simp_all
  note P = with_tuple_effect[OF ok i'(1) room]
  have sz: "unat (of_nat (length b) :: u32) = length b" using room D(3) by (intro small_u32) simp
  then have nz: "(of_nat (length b) :: u32) \<noteq> 0" using b by (metis length_greater_0_conv less_irrefl unat_0)
  have nd: "\<not> IsDeleted (of_nat (length b))" by (rule small_not_deleted) (use sz nz room D(3) in \<open>simp_all add: PAGE_SIZE_def\<close>)
  then have tl: "tuple_length (of_nat (length b)) = length b" using sz by (simp add: tuple_length_def Unset_not_deleted)
  have cnt: "j < tuple_count ?p \<longleftrightarrow> j < tuple_count p \<or> j = i" for j using P(3) i'(1) by auto
  have so: "slot_ok ?p j" if "j < tuple_count ?p" for j
  proof (cases "j = i")
    case True
    then show ?thesis using P(2,7,8) tl b room D(3) by (simp add: slot_ok_def)
  next
    case False
    then show ?thesis using that cnt[of j] D(4)[of j] P(2) P(9)[of j] P(10)[of j] by (auto simp: slot_ok_def)
  qed
  have new: "apart ?p i k" if "k < tuple_count p" "k \<noteq> i" for k
    using D(4)[OF that(1)] P(7,8) P(9)[OF that] P(10)[OF that] tl room D(3) by (auto simp: apart_def slot_ok_def)
  have ap: "apart ?p j k" if "j < tuple_count ?p" "k < j" for j k
  proof -
    have jk: "j < tuple_count p \<or> j = i" "k < tuple_count p" using that cnt[of j] i'(1) by auto
    show ?thesis
    proof (cases "j = i \<or> k = i")
      case True
      then show ?thesis using new[of k] new[of j] jk that apart_sym[of ?p j k] by auto
    next
      case False
      then show ?thesis using jk D(5)[of j k] P(9)[of j] P(9)[of k] P(10)[of j] P(10)[of k] that by (simp add: apart_def)
    qed
  qed
  have "24 + 8 * tuple_count ?p \<le> free_ptr ?p" using P(2,3) i'(1) room by (cases "tuple_count p \<le> Suc i") (simp_all add: max_def)
  then have ok': "table_page_ok ?p" using P(1,2) D(3) so ap by (simp add: table_page_ok_def)
  have at: "slot_at ?p i = Some (False, b)" using P(5,7,8) nz nd tl by (simp add: slot_at_def)
  have other: "slot_at ?p j = slot_at p j" if "j < tuple_count p" "j \<noteq> i" for j
    by (rule slot_at_cong) (use P(9,10)[OF that] P(6)[of "slot_offset p j"] D(4)[OF that(1)] in \<open>auto simp: slot_ok_def\<close>)
  have "slots ?p = add_tuple b (slots p)"
  proof (cases "None \<in> set (slots p)")
    case True
    then have "tuple_count ?p = tuple_count p" using P(3) i'(2) by simp
    then show ?thesis using slots_update[of ?p p i "Some (False, b)"] at other True i by (simp add: add_tuple_def)
  next
    case False
    then have n: "i = tuple_count p" using i' by simp
    have "slots ?p = slots p @ [Some (False, b)]"
      by (rule slots_eqI) (use P(3) n at other in \<open>auto simp: nth_append less_Suc_eq\<close>)
    then show ?thesis using False by (simp add: add_tuple_def)
  qed
  with ok' show ?thesis by simp
qed

lemma Row_SerializeTo_put:
  assumes "list_all field_ok (row_fields r)" and "off + length (row_bytes (row_fields r)) \<le> length p"
  shows "Row_SerializeTo r p off = Some (length (row_bytes (row_fields r)), put p off (row_bytes (row_fields r)))"
  using fields_SerializeTo_ok[OF assms(1), of off 0 p] assms(2) by (simp add: Row_SerializeTo_def mem_write_put)

lemma row_size_ok:
  assumes "list_all field_ok (row_fields r)"
  shows "row_size r = Some (of_nat (length (row_bytes (row_fields r))))"
  using fields_size_ok[OF assms] by (simp add: row_size_def Row_GetSerializedSize_def)

lemma InsertTuple_refines:
  assumes ok: "table_page_ok p" and r: "list_all field_ok (row_fields r)" and "b = row_bytes (row_fields r)" and "b \<noteq> []"
    and "length b < 2 ^ 32" and pid: "GetTablePageId p = Some pid"
  shows "free_ptr p < 32 + 8 * tuple_count p + length b \<Longrightarrow> TablePage_InsertTuple r p = Some (False, r, p)"
    and "32 + 8 * tuple_count p + length b \<le> free_ptr p \<Longrightarrow>
      TablePage_InsertTuple r p = Some (True, r\<lparr>row_id := \<lparr>rid_page = pid, rid_slot = of_nat (free_slot (slots p))\<rparr>\<rparr>,
        with_tuple b (free_slot (slots p)) p)"
proof -
  note D = table_page_okD[OF ok] and A = page_access[OF table_page_okD(1)[OF ok]]
  note sz = row_size_ok[OF r, folded assms(3)]
  have un: "unat (of_nat (length b) :: u32) = length b" by (rule unat_of_nat_u32[OF assms(5)])
  then have nz: "(of_nat (length b) :: u32) \<noteq> 0" using assms(4) by (metis length_greater_0_conv less_irrefl unat_0)
  define room where "room = (of_nat (free_ptr p - (24 + 8 * tuple_count p)) :: u32)"
  have room: "GetFreeSpaceRemaining p = Some room" "unat room = free_ptr p - (24 + 8 * tuple_count p)"
    using FreeSpaceRemaining_value[OF ok] small_u32[of "free_ptr p - (24 + 8 * tuple_count p)"] D(3) unfolding room_def by simp_all
  show "TablePage_InsertTuple r p = Some (False, r, p)" if "free_ptr p < 32 + 8 * tuple_count p + length b"
  proof -
    have "unat room < length b + SIZE_TUPLE" using that room(2) D(2) by (simp add: SIZE_TUPLE_def)
    then show ?thesis using sz un nz room(1) by (simp add: TablePage_InsertTuple_def)
  qed
  assume fits: "32 + 8 * tuple_count p + length b \<le> free_ptr p"
  define i where "i = free_slot (slots p)"
  define f where "f = free_ptr p - length b"
  have i: "i \<le> tuple_count p" using free_slot_bounds(1)[of "slots p"] by (simp add: i_def)
  have f: "f + length b \<le> PAGE_SIZE" "32 + 8 * tuple_count p \<le> f" using D(3) fits by (simp_all add: f_def)
  then have i': "32 + 8 * i \<le> f" "32 + 8 * i \<le> PAGE_SIZE" using i by simp_all
  have u: "unat (of_nat i :: u32) = i" "unat (of_nat f :: u32) = f" "unat (of_nat (tuple_count p) :: u32) = tuple_count p"
    using i' f by (intro small_u32; simp)+
  have fd: "u32_at p 16 - of_nat (length b) = of_nat f" using fits by (simp add: of_nat_diff f_def word_of_ptrs)
  have eq: "of_nat i = u32_at p 20 \<longleftrightarrow> i = tuple_count p" unfolding word_of_ptrs using u by metis
  define p1 where "p1 = put p 16 (le32 (of_nat f))"
  define p2 where "p2 = put p1 f b"
  define p3 where "p3 = put p2 (24 + 8 * i) (le32 (of_nat f))"
  define p4 where "p4 = put p3 (28 + 8 * i) (le32 (of_nat (length b)))"
  have l: "length p1 = PAGE_SIZE" "length p2 = PAGE_SIZE" "length p3 = PAGE_SIZE" "length p4 = PAGE_SIZE"
    using D(1) f i' by (simp_all add: p1_def p2_def p3_def p4_def PAGE_SIZE_def)
  note A2 = page_access[OF l(1)] page_access[OF l(2)] page_access[OF l(3)] page_access[OF l(4)]
  have ptr: "u32_at p1 16 = of_nat f" "u32_at p2 16 = of_nat f"
    using D(1) f l by (simp_all add: p1_def p2_def put_simps PAGE_SIZE_def)
  have hdr: "u32_at p4 0 = u32_at p 0" "u32_at p4 20 = u32_at p 20"
    using D(1) f i' l by (simp_all add: p1_def p2_def p3_def p4_def put_simps PAGE_SIZE_def)
  have pid4: "GetTablePageId p4 = Some pid" using pid hdr(1) A(3) A2 by simp
  have ser: "Row_SerializeTo r p1 f = Some (length b, p2)"
    using Row_SerializeTo_put[OF r, of f p1] f l by (simp add: p2_def assms(3))
  have "\<not> unat room < length b + SIZE_TUPLE" using fits room(2) by (simp add: SIZE_TUPLE_def)
  then have "TablePage_InsertTuple r p = Some (True, r\<lparr>row_id := \<lparr>rid_page = pid, rid_slot = of_nat i\<rparr>\<rparr>,
      if i = tuple_count p then put p4 20 (le32 (u32_at p 20 + 1)) else p4)"
    using sz un nz room(1) A(1,2,8) found_slot[of p] u i' fd eq ptr hdr(2) pid4 ser A2
    by (simp add: TablePage_InsertTuple_def slot_numbers_facts[OF ok] find_slot_all[OF ok] Let_def flip: i_def p1_def p3_def p4_def)
  then show "TablePage_InsertTuple r p = Some (True, r\<lparr>row_id := \<lparr>rid_page = pid, rid_slot = of_nat (free_slot (slots p))\<rparr>\<rparr>,
      with_tuple b (free_slot (slots p)) p)"
    unfolding with_tuple_def Let_def f_def[symmetric] i_def[symmetric] p1_def[symmetric] p2_def[symmetric] p3_def[symmetric]
      p4_def[symmetric] word_of_ptrs .
qed


section \<open>Moving tuples\<close>

text \<open>The loop over the offsets changes only the offsets, each as its test says.\<close>

lemma shift_offsets_effect:
  assumes "length p = PAGE_SIZE" and "24 + 8 * n \<le> PAGE_SIZE" and "a \<le> n"
  shows "\<exists>p'. shift_offsets Q d (map of_nat [a..<n]) p = Some p' \<and> length p' = PAGE_SIZE \<and>
    (\<forall>k m. k + m \<le> 24 + 8 * a \<or> 24 + 8 * n \<le> k \<and> k + m \<le> PAGE_SIZE \<longrightarrow> bytes p' k m = bytes p k m) \<and>
    (\<forall>j. a \<le> j \<and> j < n \<longrightarrow> slot_size p' j = slot_size p j \<and>
      u32_at p' (24 + 8 * j) = (let off = u32_at p (24 + 8 * j) in if Q (slot_size p j) off then off + d else off))"
  using assms(3,1)
proof (induction "n - a" arbitrary: a p)
  case (Suc k)
  then have a: "a < n" by simp
  then have up: "[a..<n] = a # [Suc a..<n]" by (rule upt_conv_Cons)
  have b: "32 + 8 * a \<le> PAGE_SIZE" using a assms(2) by simp
  then have ua: "unat (of_nat a :: u32) = a" by (intro small_u32) simp
  let ?o = "u32_at p (24 + 8 * a)"
  define q where "q = (if Q (slot_size p a) ?o then put p (24 + 8 * a) (le32 (?o + d)) else p)"
  have lq: "length q = PAGE_SIZE" using b Suc.prems(2) by (simp add: q_def)
  have step: "shift_offsets Q d (map of_nat [a..<n]) p = shift_offsets Q d (map of_nat [Suc a..<n]) q"
    using b ua page_access[OF Suc.prems(2)] by (simp add: up q_def)
  have bq: "bytes q k m = bytes p k m" if "k + m \<le> 24 + 8 * a \<or> 28 + 8 * a \<le> k \<and> k + m \<le> PAGE_SIZE" for k m
  proof -
    have "k + m \<le> PAGE_SIZE" using that b by auto
    then show ?thesis using that b Suc.prems(2) by (auto simp: q_def bytes_put_disjoint)
  qed
  have oq: "u32_at q (24 + 8 * a) = (if Q (slot_size p a) ?o then ?o + d else ?o)" using b Suc.prems(2) by (simp add: q_def)
  have uq: "u32_at q k = u32_at p k" if "28 + 8 * a \<le> k" "k + 4 \<le> PAGE_SIZE" for k using bq[of k 4] that by (simp add: u32_at_def)
  have "k = n - Suc a" "Suc a \<le> n" using Suc.hyps(2) a by simp_all
  from Suc.hyps(1)[OF this lq] obtain p' where
    p': "shift_offsets Q d (map of_nat [Suc a..<n]) q = Some p'" "length p' = PAGE_SIZE"
      "\<And>k m. k + m \<le> 24 + 8 * Suc a \<or> 24 + 8 * n \<le> k \<and> k + m \<le> PAGE_SIZE \<Longrightarrow> bytes p' k m = bytes q k m"
      "\<And>j. Suc a \<le> j \<Longrightarrow> j < n \<Longrightarrow> slot_size p' j = slot_size q j \<and>
        u32_at p' (24 + 8 * j) = (let off = u32_at q (24 + 8 * j) in if Q (slot_size q j) off then off + d else off)"
    by metis
  have "bytes p' k m = bytes p k m" if "k + m \<le> 24 + 8 * a \<or> 24 + 8 * n \<le> k \<and> k + m \<le> PAGE_SIZE" for k m
    using p'(3)[of k m] bq[of k m] that a by auto
  moreover have "slot_size p' j = slot_size p j \<and> u32_at p' (24 + 8 * j) = (let off = u32_at p (24 + 8 * j) in if Q (slot_size p j) off then off + d else off)"
    if "a \<le> j" "j < n" for j
  proof (cases "j = a")
    case True
    then show ?thesis using p'(3)[of "24 + 8 * a" 4] p'(3)[of "28 + 8 * a" 4] oq uq[of "28 + 8 * a"] b by (simp add: u32_at_def slot_size_def)
  next
    case False
    then have "32 + 8 * a \<le> 24 + 8 * j" "32 + 8 * j \<le> PAGE_SIZE" using that assms(2) by simp_all
    then show ?thesis using p'(4)[of j] uq[of "24 + 8 * j"] uq[of "28 + 8 * j"] False that by (simp add: slot_size_def)
  qed
  ultimately show ?case using p'(1,2) step by auto
qed auto

text \<open>A page in which the tuple of slot \<open>i\<close> has been replaced by the bytes \<open>b\<close>, which end where it ended, and the
  tuples below it have moved up to it.  No bytes means that the slot is empty.\<close>

definition gap :: "byte list \<Rightarrow> nat \<Rightarrow> byte list \<Rightarrow> nat \<Rightarrow> nat" where
  "gap p i b k = k + tuple_length (slot_size p i) - length b"

definition resized :: "byte list \<Rightarrow> nat \<Rightarrow> byte list \<Rightarrow> byte list \<Rightarrow> bool" where
  "resized p i b q \<longleftrightarrow> length q = PAGE_SIZE \<and> page_links q = page_links p \<and> tuple_count q = tuple_count p \<and>
     free_ptr q = gap p i b (free_ptr p) \<and>
     (\<forall>j < tuple_count p. j \<noteq> i \<longrightarrow> slot_size q j = slot_size p j \<and> (slot_size p j \<noteq> 0 \<longrightarrow>
        slot_offset q j = (if slot_offset p j < slot_offset p i then gap p i b (slot_offset p j) else slot_offset p j))) \<and>
     (\<forall>k m. slot_offset p i + tuple_length (slot_size p i) \<le> k \<and> k + m \<le> PAGE_SIZE \<longrightarrow> bytes q k m = bytes p k m) \<and>
     (\<forall>k m. free_ptr p \<le> k \<and> k + m \<le> slot_offset p i \<longrightarrow> bytes q (gap p i b k) m = bytes p k m) \<and>
     slot_size q i = of_nat (length b) \<and>
     (b \<noteq> [] \<longrightarrow> slot_offset q i = gap p i b (slot_offset p i) \<and> bytes q (gap p i b (slot_offset p i)) (length b) = b)"

lemma resizedD:
  assumes "resized p i b q"
  shows "length q = PAGE_SIZE" "page_links q = page_links p" "tuple_count q = tuple_count p" "free_ptr q = gap p i b (free_ptr p)"
    "slot_size q i = of_nat (length b)"
    "b \<noteq> [] \<Longrightarrow> slot_offset q i = gap p i b (slot_offset p i)"
    "b \<noteq> [] \<Longrightarrow> bytes q (gap p i b (slot_offset p i)) (length b) = b"
    "\<And>j. j < tuple_count p \<Longrightarrow> j \<noteq> i \<Longrightarrow> slot_size q j = slot_size p j"
    "\<And>j. j < tuple_count p \<Longrightarrow> j \<noteq> i \<Longrightarrow> slot_size p j \<noteq> 0 \<Longrightarrow>
        slot_offset q j = (if slot_offset p j < slot_offset p i then gap p i b (slot_offset p j) else slot_offset p j)"
    "\<And>k m. slot_offset p i + tuple_length (slot_size p i) \<le> k \<Longrightarrow> k + m \<le> PAGE_SIZE \<Longrightarrow> bytes q k m = bytes p k m"
    "\<And>k m. free_ptr p \<le> k \<Longrightarrow> k + m \<le> slot_offset p i \<Longrightarrow> bytes q (gap p i b k) m = bytes p k m"
  using assms unfolding resized_def by simp_all

lemma resized_ok:
  assumes ok: "table_page_ok p" and i: "i < tuple_count p" "slot_size p i \<noteq> 0" and rs: "resized p i b q"
    and room: "24 + 8 * tuple_count p + length b \<le> free_ptr p + tuple_length (slot_size p i)"
  shows "table_page_ok q \<and> slots q = (slots p)[i := if b = [] then None else Some (False, b)]"
proof -
  note D = table_page_okD[OF ok]
  let ?t = "tuple_length (slot_size p i)" and ?o = "slot_offset p i" and ?f = "free_ptr p"
  have so: "0 < ?t" "?f \<le> ?o" "?o + ?t \<le> PAGE_SIZE" using D(4)[OF i(1)] i(2) by (simp_all add: slot_ok_def)
  have b: "length b \<le> PAGE_SIZE" "length b \<le> ?f + ?t" using room so by simp_all
  note R = resizedD[OF rs]
  have sz: "unat (of_nat (length b) :: u32) = length b" by (rule small_u32[OF b(1)])
  have nz: "(of_nat (length b) :: u32) \<noteq> 0 \<longleftrightarrow> b \<noteq> []"
  proof
    show "b \<noteq> []" if "(of_nat (length b) :: u32) \<noteq> 0" using that by auto
    show "(of_nat (length b) :: u32) \<noteq> 0" if "b \<noteq> []"
    proof
      assume "(of_nat (length b) :: u32) = 0"
      with sz have "length b = 0" by simp
      with that show False by simp
    qed
  qed
  have nd: "b \<noteq> [] \<Longrightarrow> \<not> IsDeleted (of_nat (length b))"
    by (rule small_not_deleted) (use sz nz b in \<open>simp_all add: PAGE_SIZE_def\<close>)
  have tl: "b \<noteq> [] \<Longrightarrow> tuple_length (of_nat (length b)) = length b" using sz nd by (simp add: tuple_length_def Unset_not_deleted)
  have below: "slot_offset p j + tuple_length (slot_size p j) \<le> ?o \<and> slot_offset p j < ?o \<or> ?o + ?t \<le> slot_offset p j \<and> \<not> slot_offset p j < ?o"
    "?f \<le> slot_offset p j" "slot_offset p j + tuple_length (slot_size p j) \<le> PAGE_SIZE" "0 < tuple_length (slot_size p j)"
    if "j < tuple_count p" "j \<noteq> i" "slot_size p j \<noteq> 0" for j
    using D(5)[of j i] D(4)[OF that(1)] that i so by (auto simp: apart_def slot_ok_def)
  note other = R(8,9)
  have sok: "slot_ok q j" if "j < tuple_count p" for j
  proof (cases "j = i")
    case True
    then show ?thesis using R(4-6) so room tl b by (cases "b = []") (auto simp: slot_ok_def gap_def)
  next
    case False
    then show ?thesis using other[OF that] below[OF that] R(4) so b room by (auto simp: slot_ok_def gap_def)
  qed
  have apt: "apart q j k" if "j < tuple_count p" "k < tuple_count p" "j \<noteq> k" for j k
  proof -
    have ii: "apart q i l" if l: "l < tuple_count p" "l \<noteq> i" for l
      using other[OF l] below[OF l] R(5-7) so b tl nz by (cases "b = []") (auto simp: apart_def gap_def)
    show ?thesis
    proof (cases "j = i \<or> k = i")
      case True
      then show ?thesis using ii[of j] ii[of k] that apart_sym[of q j k] by auto
    next
      case False
      then show ?thesis using other[of j] other[of k] below[of j] below[of k] D(5)[of j k] that b so
        by (auto simp: apart_def gap_def)
    qed
  qed
  have "table_page_ok q" using R(1-4) sok apt room so by (auto simp: table_page_ok_def gap_def)
  moreover have "slots q = (slots p)[i := if b = [] then None else Some (False, b)]"
  proof (rule slots_update)
    show "slot_at q i = (if b = [] then None else Some (False, b))" using R(5-7) nz nd tl by (simp add: slot_at_def)
    show "slot_at q j = slot_at p j" if "j < tuple_count p" "j \<noteq> i" for j
    proof (rule slot_at_cong)
      assume "slot_size p j \<noteq> 0"
      then show "bytes q (slot_offset q j) (tuple_length (slot_size p j)) = bytes p (slot_offset p j) (tuple_length (slot_size p j))"
        using R(10,11) other[OF that] below[OF that] by auto
    qed (rule other(1)[OF that])
  qed (rule R(3))
  ultimately show ?thesis by simp
qed


text \<open>The page after the tuples have been moved and the new bytes written.\<close>

definition moved :: "byte list \<Rightarrow> nat \<Rightarrow> byte list \<Rightarrow> byte list" where
  "moved p i b = put (put (put p (gap p i b (free_ptr p)) (bytes p (free_ptr p) (slot_offset p i - free_ptr p)))
     16 (le32 (of_nat (gap p i b (free_ptr p))))) (gap p i b (slot_offset p i)) b"

lemma moved_effect:
  assumes ok: "table_page_ok p" and i: "i < tuple_count p" "slot_size p i \<noteq> 0"
    and room: "24 + 8 * tuple_count p + length b \<le> free_ptr p + tuple_length (slot_size p i)"
  shows "length (moved p i b) = PAGE_SIZE" "u32_at (moved p i b) 16 = of_nat (gap p i b (free_ptr p))"
    "\<And>k m. slot_offset p i + tuple_length (slot_size p i) \<le> k \<Longrightarrow> k + m \<le> PAGE_SIZE \<Longrightarrow> bytes (moved p i b) k m = bytes p k m"
    "\<And>k m. free_ptr p \<le> k \<Longrightarrow> k + m \<le> slot_offset p i \<Longrightarrow> bytes (moved p i b) (gap p i b k) m = bytes p k m"
    "bytes (moved p i b) (gap p i b (slot_offset p i)) (length b) = b"
    "\<And>k m. k + m \<le> 16 \<or> 20 \<le> k \<and> k + m \<le> gap p i b (free_ptr p) \<Longrightarrow> bytes (moved p i b) k m = bytes p k m"
proof -
  let ?t = "tuple_length (slot_size p i)" and ?o = "slot_offset p i" and ?f = "free_ptr p" and ?g = "gap p i b"
  have L: "length p = PAGE_SIZE" by (rule table_page_okD(1)[OF ok])
  have so: "?f \<le> ?o" "?o + ?t \<le> PAGE_SIZE" using table_page_okD(4)[OF ok i(1)] i(2) by (simp_all add: slot_ok_def)
  define mv where "mv = bytes p ?f (?o - ?f)"
  have lm: "length mv = ?o - ?f" using L so by (simp add: mv_def)
  have g: "24 + 8 * tuple_count p \<le> ?g ?f" "?g ?f + length mv = ?g ?o" "?g ?o + length b = ?o + ?t" "?g ?f \<le> ?g ?o"
    "?g ?o + length b \<le> PAGE_SIZE" "?g ?o \<le> PAGE_SIZE"
    using room so lm by (simp_all add: gap_def)
  have l1: "length (put p (?g ?f) mv) = PAGE_SIZE" using g L by simp
  have l2: "length (put (put p (?g ?f) mv) 16 (le32 (of_nat (?g ?f)))) = PAGE_SIZE" using l1 by (simp add: PAGE_SIZE_def)
  note M = moved_def mv_def[symmetric]
  note B = bytes_put_disjoint[of "?g ?o" b] bytes_put_disjoint[of 16] bytes_put_disjoint[of "?g ?f" mv] l1 l2 L g
  show "length (moved p i b) = PAGE_SIZE" using l2 g by (simp add: M)
  show "u32_at (moved p i b) 16 = of_nat (?g ?f)" using g l1 l2 by (simp add: M u32_at_put_disjoint[of "?g ?o" b] PAGE_SIZE_def)
  show "bytes (moved p i b) (?g ?o) (length b) = b" using l2 g by (simp add: M)
  show "bytes (moved p i b) k m = bytes p k m" if "?o + ?t \<le> k" "k + m \<le> PAGE_SIZE" for k m
  proof -
    have "?g ?o + length b \<le> k" "20 \<le> k" "?g ?f + length mv \<le> k" using that g by simp_all
    then show ?thesis using that(2) by (simp add: M B)
  qed
  show "bytes (moved p i b) k m = bytes p k m" if "k + m \<le> 16 \<or> 20 \<le> k \<and> k + m \<le> ?g ?f" for k m
    using that
  proof
    have p: "24 \<le> PAGE_SIZE" by (simp add: PAGE_SIZE_def)
    show ?thesis if "k + m \<le> 16"
    proof -
      have "k + m \<le> ?g ?o" "k + m \<le> ?g ?f" "k + m \<le> PAGE_SIZE" using that g p by simp_all
      then show ?thesis using that p so by (simp add: M B)
    qed
    show ?thesis if "20 \<le> k \<and> k + m \<le> ?g ?f"
    proof -
      have "20 \<le> k" "k + m \<le> ?g ?o" "k + m \<le> ?g ?f" "k + m \<le> PAGE_SIZE" using that g by simp_all
      then show ?thesis using p so by (simp add: M B)
    qed
  qed
  show "bytes (moved p i b) (?g k) m = bytes p k m" if k: "?f \<le> k" "k + m \<le> ?o" for k m
  proof -
    have e: "?g k + m \<le> ?g ?o" "?g ?f \<le> ?g k" "?g k - ?g ?f = k - ?f" using k room by (simp_all add: gap_def)
    then have "20 \<le> ?g k" "?g k + m \<le> PAGE_SIZE" using g by simp_all
    then have "bytes (moved p i b) (?g k) m = bytes (put p (?g ?f) mv) (?g k) m" using e so by (simp add: M B)
    also have "\<dots> = bytes mv (k - ?f) m" using e g L by (simp add: bytes_put_inside)
    also have "\<dots> = bytes p k m" unfolding mv_def using k by (simp add: bytes_bytes)
    finally show ?thesis .
  qed
qed

lemma shift_resized:
  assumes ok: "table_page_ok p" and i: "i < tuple_count p" "slot_size p i \<noteq> 0"
    and room: "24 + 8 * tuple_count p + length b \<le> free_ptr p + tuple_length (slot_size p i)"
    and h: "length h = PAGE_SIZE"
      "\<And>k m. k + m \<le> 24 \<or> 24 + 8 * tuple_count p \<le> k \<and> k + m \<le> PAGE_SIZE \<Longrightarrow> bytes h k m = bytes (moved p i b) k m"
      "\<And>j. j < tuple_count p \<Longrightarrow> j \<noteq> i \<Longrightarrow> slot_size h j = slot_size p j \<and> slot_offset h j = slot_offset p j"
      "slot_size h i = of_nat (length b)" "b \<noteq> [] \<Longrightarrow> slot_offset h i = slot_offset p i"
    and Q: "\<And>j. j < tuple_count p \<Longrightarrow> j \<noteq> i \<Longrightarrow> slot_size p j \<noteq> 0 \<Longrightarrow>
        Q (slot_size p j) (of_nat (slot_offset p j)) \<longleftrightarrow> slot_offset p j < slot_offset p i"
      "b \<noteq> [] \<Longrightarrow> Q (of_nat (length b)) (of_nat (slot_offset p i))"
    and d: "d = of_nat (tuple_length (slot_size p i)) - of_nat (length b)"
  shows "\<exists>q. shift_offsets Q d (map of_nat [0..<tuple_count p]) h = Some q \<and> resized p i b q"
proof -
  let ?t = "tuple_length (slot_size p i)" and ?o = "slot_offset p i" and ?f = "free_ptr p" and ?g = "gap p i b"
  note D = table_page_okD[OF ok] and M = moved_effect[OF ok i room]
  have so: "?f \<le> ?o" "?o + ?t \<le> PAGE_SIZE" "24 + 8 * tuple_count p \<le> ?f" "?f \<le> PAGE_SIZE"
    using D(2,3) D(4)[OF i(1)] i(2) by (simp_all add: slot_ok_def)
  have n: "24 + 8 * tuple_count p \<le> PAGE_SIZE" using so by simp
  have g: "24 + 8 * tuple_count p \<le> ?g ?f" "?g ?f \<le> PAGE_SIZE" "length b \<le> ?f + ?t" using room so by (simp_all add: gap_def)
  obtain q where q: "shift_offsets Q d (map of_nat [0..<tuple_count p]) h = Some q" "length q = PAGE_SIZE"
    "\<And>k m. k + m \<le> 24 \<or> 24 + 8 * tuple_count p \<le> k \<and> k + m \<le> PAGE_SIZE \<Longrightarrow> bytes q k m = bytes h k m"
    "\<And>j. j < tuple_count p \<Longrightarrow> slot_size q j = slot_size h j \<and> u32_at q (24 + 8 * j) =
       (let off = u32_at h (24 + 8 * j) in if Q (slot_size h j) off then off + d else off)"
    using shift_offsets_effect[OF h(1) n, of 0 Q d] by auto
  have qb: "bytes q k m = bytes (moved p i b) k m" if "k + m \<le> 24 \<or> 24 + 8 * tuple_count p \<le> k \<and> k + m \<le> PAGE_SIZE" for k m
    using q(3)[OF that] h(2)[OF that] by simp
  have hdr: "u32_at q 16 = of_nat (?g ?f)" "u32_at q 20 = u32_at p 20" "page_links q = page_links p"
    using M(2) qb[of 16 4] qb[of 20 4] qb[of 0 16] M(6)[of 20 4] M(6)[of 0 16] g(1) by (simp_all add: u32_at_def page_links_def)
  have off: "u32_at h (24 + 8 * j) = of_nat (slot_offset h j)" for j by (simp add: slot_offset_def)
  have add: "of_nat k + d = of_nat (?g k)" if "?f \<le> k" for k
    using that g(3) by (simp add: d gap_def of_nat_diff)
  have qo: "slot_offset q j = (if Q (slot_size h j) (of_nat (slot_offset h j)) then ?g (slot_offset h j) else slot_offset h j)"
    if "j < tuple_count p" "?f \<le> slot_offset h j" "?g (slot_offset h j) \<le> PAGE_SIZE" for j
  proof -
    have w: "u32_at q (24 + 8 * j) = (if Q (slot_size h j) (of_nat (slot_offset h j)) then of_nat (?g (slot_offset h j)) else u32_at h (24 + 8 * j))"
      using q(4)[OF that(1)] add[OF that(2)] unfolding off Let_def by simp
    show ?thesis unfolding slot_offset_def[of q j] w using small_u32[OF that(3)] by (simp add: slot_offset_def[of h j] del: of_nat_unat)
  qed
  have "resized p i b q" unfolding resized_def
  proof (intro conjI allI impI)
    show "slot_size q j = slot_size p j" if "j < tuple_count p" "j \<noteq> i" for j using q(4)[OF that(1)] h(3)[OF that] by simp
    show "slot_offset q j = (if slot_offset p j < ?o then ?g (slot_offset p j) else slot_offset p j)"
      if "j < tuple_count p" "j \<noteq> i" "slot_size p j \<noteq> 0" for j
    proof -
      have "?f \<le> slot_offset p j" using D(4)[OF that(1)] that by (auto simp: slot_ok_def)
      show ?thesis
      proof (cases "slot_offset p j < ?o")
        case True
        then have "?g (slot_offset p j) \<le> PAGE_SIZE" using so by (simp add: gap_def)
        then show ?thesis using True \<open>?f \<le> slot_offset p j\<close> qo[OF that(1)] h(3)[OF that(1,2)] Q(1)[OF that] by simp
      next
        case False
        then show ?thesis using q(4)[OF that(1)] h(3)[OF that(1,2)] off[of j] Q(1)[OF that] by (simp add: slot_offset_def[of q] small_u32 Let_def) (simp add: slot_offset_def)
      qed
    qed
    show "bytes q k m = bytes p k m" if "?o + ?t \<le> k \<and> k + m \<le> PAGE_SIZE" for k m
      using qb[of k m] M(3)[of k m] that so by simp
    show "bytes q (?g k) m = bytes p k m" if "?f \<le> k \<and> k + m \<le> ?o" for k m
    proof -
      have "24 + 8 * tuple_count p \<le> ?g k" "?g k + m \<le> PAGE_SIZE" using that room so by (auto simp: gap_def)
      then show ?thesis using qb[of "?g k" m] M(4)[of k m] that by simp
    qed
    show "slot_size q i = of_nat (length b)" using q(4)[OF i(1)] h(4) by simp
    show "slot_offset q i = ?g ?o" if "b \<noteq> []"
      using qo[OF i(1)] h(4) h(5)[OF that] Q(2)[OF that] so by (simp add: gap_def)
    show "bytes q (?g ?o) (length b) = b"
    proof -
      have "24 + 8 * tuple_count p \<le> ?g ?o" "?g ?o + length b \<le> PAGE_SIZE" using so room by (auto simp: gap_def)
      then show ?thesis using qb[of "?g ?o" "length b"] M(5) by simp
    qed
  qed (use q(2) hdr small_u32[OF g(2)] in \<open>simp_all add: tuple_count_def free_ptr_def[of q]\<close>)
  with q(1) show ?thesis by blast
qed


lemma gap_words:
  assumes ok: "table_page_ok p" and i: "i < tuple_count p" "slot_size p i \<noteq> 0"
  shows "u32_at p (24 + 8 * i) = of_nat (slot_offset p i)" "UnsetDeletedFlag (slot_size p i) = of_nat (tuple_length (slot_size p i))"
    "\<not> u32_at p (24 + 8 * i) < u32_at p 16" "unat (u32_at p (24 + 8 * i) - u32_at p 16) = slot_offset p i - free_ptr p"
    "unat (u32_at p (24 + 8 * i)) = slot_offset p i" "unat (u32_at p 16) = free_ptr p"
proof -
  have "free_ptr p \<le> slot_offset p i" using table_page_okD(4)[OF ok i(1)] i(2) by (simp add: slot_ok_def)
  then show "\<not> u32_at p (24 + 8 * i) < u32_at p 16" "unat (u32_at p (24 + 8 * i) - u32_at p 16) = slot_offset p i - free_ptr p"
    by (simp_all add: slot_offset_def free_ptr_def word_less_nat_alt unat_sub word_le_nat_alt)
qed (simp_all add: slot_offset_def free_ptr_def tuple_length_def)

lemma ApplyDelete_refines:
  assumes ok: "table_page_ok p" and i: "unat (rid_slot rid) < tuple_count p" "slot_at p (unat (rid_slot rid)) \<noteq> None"
  shows "\<exists>q. TablePage_ApplyDelete rid p = Some q \<and> table_page_ok q \<and> page_links q = page_links p \<and>
    slots q = (slots p)[unat (rid_slot rid) := None] \<and> free_ptr q = free_ptr p + tuple_length (slot_size p (unat (rid_slot rid)))"
proof -
  define i where "i = unat (rid_slot rid)"
  have il: "i < tuple_count p" "slot_size p i \<noteq> 0" using i by (simp_all add: i_def slot_at_None del: not_None_eq)
  let ?t = "tuple_length (slot_size p i)" and ?o = "slot_offset p i" and ?f = "free_ptr p"
  note D = table_page_okD[OF ok] and I = slot_number_facts[OF ok il(1)] and W = gap_words[OF ok il]
  have so: "?f \<le> ?o" "?o + ?t \<le> PAGE_SIZE" using D(4)[OF il(1)] il(2) by (simp_all add: slot_ok_def)
  have room: "24 + 8 * tuple_count p + length [] \<le> ?f + ?t" using D(2) by simp
  note M = moved_effect[OF ok il room]
  define m where "m = moved p i []"
  define h1 where "h1 = put m (28 + 8 * i) (le32 0)"
  define h where "h = put h1 (24 + 8 * i) (le32 0)"
  have lm: "length m = PAGE_SIZE" using M(1) by (simp add: m_def)
  have l1: "length h1 = PAGE_SIZE" using lm I by (simp add: h1_def)
  have l: "length h = PAGE_SIZE" using l1 I by (simp add: h_def)
  have mu: "u32_at m k = u32_at p k" if "k + 4 \<le> 16 \<or> 20 \<le> k \<and> k + 4 \<le> ?f" for k
    using M(6)[of k 4] that unfolding m_def u32_at_def by (auto simp: gap_def)
  have hu: "u32_at h k = u32_at m k" if "k + 4 \<le> 24 + 8 * i \<or> 32 + 8 * i \<le> k \<and> k + 4 \<le> PAGE_SIZE" for k
    using that lm l1 I by (auto simp: h_def h1_def u32_at_put_disjoint)
  have hi: "u32_at h (28 + 8 * i) = 0" "u32_at h 20 = u32_at p 20" using lm l1 I hu[of 20] mu[of 20] D(2)
    by (simp_all add: h_def h1_def u32_at_put_disjoint)
  have "\<exists>q. shift_offsets (\<lambda>s off. s \<noteq> 0 \<and> off < u32_at p (24 + 8 * i)) (UnsetDeletedFlag (slot_size p i)) (map of_nat [0..<tuple_count p]) h = Some q \<and>
      resized p i [] q"
  proof (rule shift_resized[OF ok il room l])
    show "bytes h k n = bytes (moved p i []) k n" if "k + n \<le> 24 \<or> 24 + 8 * tuple_count p \<le> k \<and> k + n \<le> PAGE_SIZE" for k n
    proof -
      have "k + n \<le> 24 + 8 * i \<or> 32 + 8 * i \<le> k" "k + n \<le> PAGE_SIZE" using that il(1) I by auto
      then show ?thesis using lm l1 I by (auto simp: h_def h1_def bytes_put_disjoint simp flip: m_def)
    qed
    show "slot_size h j = slot_size p j \<and> slot_offset h j = slot_offset p j" if j: "j < tuple_count p" "j \<noteq> i" for j
    proof -
      note J = slot_number_facts[OF ok j(1)]
      have "24 + 8 * j + 8 \<le> 24 + 8 * i \<or> 32 + 8 * i \<le> 24 + 8 * j" using j(2) by arith
      then have "u32_at h (28 + 8 * j) = u32_at m (28 + 8 * j)" "u32_at h (24 + 8 * j) = u32_at m (24 + 8 * j)" using J by (auto intro!: hu)
      then show ?thesis using mu[of "28 + 8 * j"] mu[of "24 + 8 * j"] J by (simp add: slot_size_def slot_offset_def)
    qed
    show "(slot_size p j \<noteq> 0 \<and> of_nat (slot_offset p j) < u32_at p (24 + 8 * i)) \<longleftrightarrow> slot_offset p j < ?o" if "j < tuple_count p" "j \<noteq> i" "slot_size p j \<noteq> 0" for j
      using that by (simp add: slot_offset_def word_less_nat_alt)
  qed (use hi W in \<open>simp_all add: slot_size_def\<close>)
  then obtain q where q: "shift_offsets (\<lambda>s off. s \<noteq> 0 \<and> off < u32_at p (24 + 8 * i)) (UnsetDeletedFlag (slot_size p i)) (map of_nat [0..<tuple_count p]) h = Some q"
    "resized p i [] q" by blast
  define p1 where "p1 = put p (?f + ?t) (bytes p ?f (?o - ?f))"
  have mv: "mem_move p (?f + ?t) ?f (?o - ?f) = Some p1"
    using so D(1) by (simp add: mem_move_def mem_read_bytes mem_write_put p1_def)
  have lp1: "length p1 = PAGE_SIZE" using so D(1) by (simp add: p1_def)
  have m1: "put p1 16 (le32 (of_nat (?f + ?t))) = m" by (simp add: m_def moved_def gap_def p1_def)
  have tsz: "(if IsDeleted (slot_size p i) then UnsetDeletedFlag (slot_size p i) else slot_size p i) = of_nat ?t"
    using W(2) Unset_not_deleted by metis
  have "u32_at p 16 + of_nat ?t = of_nat (?f + ?t)" by (simp add: word_of_ptrs)
  moreover have "unat (of_nat ?t :: u32) = ?t" using so by (intro small_u32) simp
  ultimately have "TablePage_ApplyDelete rid p = Some q"
    using il(1) I W tsz mv m1 q(1) hi(2) page_access[OF D(1)] page_access[OF lp1] page_access[OF lm] page_access[OF l1] page_access[OF l]
    by (simp add: TablePage_ApplyDelete_def Let_def slot_in_range slot_numbers_facts[OF ok] flip: i_def h1_def h_def)
  moreover from resized_ok[OF ok il q(2) room] have "table_page_ok q \<and> slots q = (slots p)[i := None]" by simp
  ultimately show ?thesis using resizedD(2,4)[OF q(2)] by (simp add: gap_def flip: i_def)
qed


text \<open>The words that an update of a live tuple computes with.\<close>

lemma live_slot_words:
  assumes ok: "table_page_ok p" and i: "i < tuple_count p" and live: "slot_at p i = Some (False, c)"
  shows "slot_size p i \<noteq> 0" "\<not> IsDeleted (slot_size p i)" "tuple_length (slot_size p i) = length c" "slot_size p i = of_nat (length c)"
    "bytes p (slot_offset p i) (length c) = c" "slot_offset p i + length c \<le> PAGE_SIZE"
proof -
  show nz: "slot_size p i \<noteq> 0" and nd: "\<not> IsDeleted (slot_size p i)" using live by (auto simp: slot_at_def split: if_splits)
  have c: "bytes p (slot_offset p i) (tuple_length (slot_size p i)) = c" using live nz by (simp add: slot_at_def)
  have so: "slot_offset p i + tuple_length (slot_size p i) \<le> PAGE_SIZE" using table_page_okD(4)[OF ok i] nz by (simp add: slot_ok_def)
  then show l: "tuple_length (slot_size p i) = length c" using c length_bytes table_page_okD(1)[OF ok] by metis
  then show "slot_size p i = of_nat (length c)" using nd by (simp add: tuple_length_def Unset_not_deleted flip: l)
  show "bytes p (slot_offset p i) (length c) = c" "slot_offset p i + length c \<le> PAGE_SIZE" using c so l by simp_all
qed

lemma update_shift:
  assumes ok: "table_page_ok p" and il: "i < tuple_count p" and live: "slot_at p i = Some (False, c)" and b: "b \<noteq> []"
    and room: "24 + 8 * tuple_count p + length b \<le> free_ptr p + length c"
    and h: "h = put (moved p i b) (28 + 8 * i) (le32 (of_nat (length b)))"
  shows "\<exists>q. shift_offsets (\<lambda>s off. s > 0 \<and> off < u32_at p (24 + 8 * i) + slot_size p i) (slot_size p i - of_nat (length b))
      (map of_nat [0..<tuple_count p]) h = Some q \<and> resized p i b q"
proof -
  note D = table_page_okD[OF ok] and I = slot_number_facts[OF ok il] and L = live_slot_words[OF ok il live]
  let ?o = "slot_offset p i" and ?f = "free_ptr p"
  have fo: "?f \<le> ?o" using D(4)[OF il] L(1) by (simp add: slot_ok_def)
  have room': "24 + 8 * tuple_count p + length b \<le> ?f + tuple_length (slot_size p i)" using room L(3) by simp
  note M = moved_effect[OF ok il L(1) room']
  have l: "length h = PAGE_SIZE" using M(1) I by (simp add: h)
  have oc: "unat (u32_at p (24 + 8 * i) + slot_size p i) = ?o + length c"
  proof -
    have "u32_at p (24 + 8 * i) + slot_size p i = of_nat (?o + length c)" using L(4) by (simp add: slot_offset_def)
    then show ?thesis using small_u32[OF L(6)] by simp
  qed
  have nz: "(of_nat (length b) :: u32) > 0"
  proof -
    have "length b \<le> PAGE_SIZE" using room L(6) fo by simp
    then have "unat (of_nat (length b) :: u32) = length b" by (rule small_u32)
    then show ?thesis using b by (simp add: word_less_nat_alt)
  qed
  have gf: "24 + 8 * tuple_count p \<le> gap p i b ?f" using room' by (simp add: gap_def)
  show ?thesis
  proof (rule shift_resized[OF ok il L(1) room' l])
    show "bytes h k n = bytes (moved p i b) k n" if "k + n \<le> 24 \<or> 24 + 8 * tuple_count p \<le> k \<and> k + n \<le> PAGE_SIZE" for k n
    proof -
      have "k + n \<le> 28 + 8 * i \<or> 32 + 8 * i \<le> k" "k + n \<le> PAGE_SIZE" using that il I by auto
      then show ?thesis using M(1) I by (auto simp: h bytes_put_disjoint)
    qed
    have mu: "u32_at (moved p i b) k = u32_at p k" if "20 \<le> k" "k + 4 \<le> 24 + 8 * tuple_count p" for k
      using M(6)[of k 4] that gf by (simp add: u32_at_def)
    have off: "slot_offset h j = slot_offset p j" if j: "j < tuple_count p" for j
    proof -
      have "24 + 8 * j + 4 \<le> 28 + 8 * i \<or> 28 + 8 * i + 4 \<le> 24 + 8 * j" by arith
      then show ?thesis using M(1) I slot_number_facts[OF ok j] mu[of "24 + 8 * j"] j by (auto simp: h slot_offset_def u32_at_put_disjoint)
    qed
    show "slot_size h j = slot_size p j \<and> slot_offset h j = slot_offset p j" if j: "j < tuple_count p" "j \<noteq> i" for j
    proof -
      have "28 + 8 * j + 4 \<le> 28 + 8 * i \<or> 28 + 8 * i + 4 \<le> 28 + 8 * j" using j(2) by arith
      then show ?thesis using M(1) I slot_number_facts[OF ok j(1)] mu[of "28 + 8 * j"] off[OF j(1)] j(1)
        by (auto simp: h slot_size_def u32_at_put_disjoint)
    qed
    show "slot_offset h i = ?o" by (rule off[OF il])
    show "slot_size h i = of_nat (length b)" using M(1) I by (simp add: h slot_size_def)
    show "(slot_size p j > 0 \<and> of_nat (slot_offset p j) < u32_at p (24 + 8 * i) + slot_size p i) \<longleftrightarrow> slot_offset p j < ?o"
      if "j < tuple_count p" "j \<noteq> i" "slot_size p j \<noteq> 0" for j
    proof -
      have "of_nat (slot_offset p j) = u32_at p (24 + 8 * j)" by (simp add: slot_offset_def)
      then have "of_nat (slot_offset p j) < u32_at p (24 + 8 * i) + slot_size p i \<longleftrightarrow> slot_offset p j < ?o + length c"
        using oc by (simp add: word_less_nat_alt slot_offset_def)
      moreover have "slot_offset p j < ?o + length c \<longleftrightarrow> slot_offset p j < ?o"
        using D(5)[OF that(1) il that(2)] D(4)[OF that(1)] that(3) L(1,3) by (auto simp: apart_def slot_ok_def)
      ultimately show ?thesis using that(3) by (simp add: word_gt_0)
    qed
    show "of_nat (length b) > (0 :: u32) \<and> of_nat ?o < u32_at p (24 + 8 * i) + slot_size p i"
    proof -
      have "c \<noteq> []" using L(1,4) by auto
      moreover have "unat (of_nat ?o :: u32) = ?o" using L(6) by (intro small_u32) simp
      ultimately show ?thesis using nz oc by (simp add: word_less_nat_alt)
    qed
  qed (use L(3,4) in simp)
qed

lemma UpdateTuple_rejects:
  assumes ok: "table_page_ok p" and rid: "RowId_Get (row_id old_row) \<noteq> RowId_Get INVALID_ROWID"
    and r: "list_all field_ok (row_fields r)" and b: "b = row_bytes (row_fields r)" "b \<noteq> []" "length b < 2 ^ 32"
  shows "\<not> (\<exists>c. unat (rid_slot (row_id old_row)) < tuple_count p \<and> slot_at p (unat (rid_slot (row_id old_row))) = Some (False, c)) \<Longrightarrow>
      TablePage_UpdateTuple r old_row schema p = Some (-1, old_row, p)"
    and "unat (rid_slot (row_id old_row)) < tuple_count p \<Longrightarrow> slot_at p (unat (rid_slot (row_id old_row))) = Some (False, c) \<Longrightarrow>
      free_ptr p + length c < 24 + 8 * tuple_count p + length b \<Longrightarrow>
      TablePage_UpdateTuple r old_row schema p = Some (0, old_row, p)"
proof -
  let ?i = "unat (rid_slot (row_id old_row))"
  note A = page_access[OF table_page_okD(1)[OF ok]] and sz = row_size_ok[OF r, folded b(1)]
  have un: "unat (of_nat (length b) :: u32) = length b" by (rule unat_of_nat_u32[OF b(3)])
  then have nz: "(of_nat (length b) :: u32) \<noteq> 0" using b(2) by (metis length_greater_0_conv less_irrefl unat_0)
  note E = TablePage_UpdateTuple_def Let_def slot_in_range sz nz rid A
  show "TablePage_UpdateTuple r old_row schema p = Some (-1, old_row, p)"
    if "\<not> (\<exists>c. ?i < tuple_count p \<and> slot_at p ?i = Some (False, c))"
  proof (cases "?i < tuple_count p")
    case True
    then have "IsDeleted (slot_size p ?i)" using that by (auto simp: slot_at_def split: if_splits)
    then show ?thesis using True slot_number_facts[OF ok True] by (simp add: E)
  qed (simp add: E)
  show "TablePage_UpdateTuple r old_row schema p = Some (0, old_row, p)"
    if i: "?i < tuple_count p" and c: "slot_at p ?i = Some (False, c)" and full: "free_ptr p + length c < 24 + 8 * tuple_count p + length b"
  proof -
    note L = live_slot_words[OF ok i c] and D = table_page_okD[OF ok]
    define room where "room = (of_nat (free_ptr p - (24 + 8 * tuple_count p)) :: u32)"
    have "room + slot_size p ?i = of_nat (free_ptr p - (24 + 8 * tuple_count p) + length c)" by (simp add: room_def L(4) del: of_nat_diff)
    moreover have "free_ptr p - (24 + 8 * tuple_count p) + length c < 2 ^ 32" using D(3) L(6) by (simp add: PAGE_SIZE_def)
    ultimately have "unat (room + slot_size p ?i) = free_ptr p - (24 + 8 * tuple_count p) + length c" by (metis unat_of_nat_u32)
    then have "room + slot_size p ?i < of_nat (length b)" using full D(2) un by (simp add: word_less_nat_alt)
    then show ?thesis using i slot_number_facts[OF ok i] L(2) FreeSpaceRemaining_value[OF ok, folded room_def] by (simp add: E)
  qed
qed


lemma UpdateTuple_refines:
  assumes ok: "table_page_ok p" and rid: "RowId_Get (row_id old_row) \<noteq> RowId_Get INVALID_ROWID"
    and r: "list_all field_ok (row_fields r)" and b: "b = row_bytes (row_fields r)" "b \<noteq> []"
    and i: "i = unat (rid_slot (row_id old_row))" "i < tuple_count p" and live: "slot_at p i = Some (False, row_bytes fs)"
    and fs: "row_ok schema fs" and room: "24 + 8 * tuple_count p + length b \<le> free_ptr p + length (row_bytes fs)"
  shows "\<exists>q. TablePage_UpdateTuple r old_row schema p = Some (1, old_row\<lparr>row_fields := fs\<rparr>, q) \<and> table_page_ok q \<and>
    page_links q = page_links p \<and> slots q = (slots p)[i := Some (False, b)]"
proof -
  note D = table_page_okD[OF ok] and I = slot_number_facts[OF ok i(2)] and L = live_slot_words[OF ok i(2) live]
    and W = gap_words[OF ok i(2) live_slot_words(1)[OF ok i(2) live]] and sz = row_size_ok[OF r, folded b(1)]
  define t where "t = length (row_bytes fs)"
  let ?o = "slot_offset p i" and ?f = "free_ptr p" and ?s = "length b" and ?n = "tuple_count p"
  have fo: "?f \<le> ?o" "?o + t \<le> PAGE_SIZE" using D(4)[OF i(2)] L(1,6) by (simp_all add: slot_ok_def t_def)
  have room': "24 + 8 * ?n + ?s \<le> ?f + tuple_length (slot_size p i)" using room L(3) by simp
  note M = moved_effect[OF ok i(2) L(1) room']
  have u: "unat (of_nat ?s :: u32) = ?s" "unat (of_nat t :: u32) = t" using room fo by (intro small_u32; simp add: t_def)+
  then have nz: "(of_nat ?s :: u32) \<noteq> 0" using b(2) by (metis length_greater_0_conv less_irrefl unat_0)
  define room32 where "room32 = (of_nat (?f - (24 + 8 * ?n)) :: u32)"
  have fits: "\<not> room32 + of_nat t < of_nat ?s"
  proof -
    have "room32 + of_nat t = of_nat (?f - (24 + 8 * ?n) + t)" by (simp add: room32_def del: of_nat_diff)
    moreover have "?f - (24 + 8 * ?n) + t < 2 ^ 32" using D(3) fo by (simp add: PAGE_SIZE_def)
    ultimately have "unat (room32 + of_nat t) = ?f - (24 + 8 * ?n) + t" by (metis unat_of_nat_u32)
    then show ?thesis using room D(2) u by (simp add: word_less_nat_alt t_def)
  qed
  have rd: "Row_DeserializeFrom schema old_row p ?o = Some (t, old_row\<lparr>row_fields := fs\<rparr>)"
    unfolding t_def by (rule Row_DeserializeFrom_bytes[OF fs L(5)]) (use L(6) D(1) in simp)
  define g where "g = ?f + t - ?s"
  define p1 where "p1 = put p g (bytes p ?f (?o - ?f))"
  define p2 where "p2 = put p1 16 (le32 (of_nat g))"
  define p3 where "p3 = put p2 (?o + t - ?s) b"
  have g: "g + (?o - ?f) = ?o + t - ?s" "?o + t - ?s + ?s \<le> PAGE_SIZE" "24 + 8 * ?n \<le> g" "?s \<le> ?f + t"
    using fo room by (simp_all add: g_def t_def)
  have l: "length p1 = PAGE_SIZE" "length p2 = PAGE_SIZE"
  proof -
    show "length p1 = PAGE_SIZE" using g fo D(1) by (simp add: p1_def)
    then show "length p2 = PAGE_SIZE" by (simp add: p2_def PAGE_SIZE_def)
  qed
  then have l3: "length p3 = PAGE_SIZE" using g by (simp add: p3_def)
  have m3: "p3 = moved p i b" using L(3) by (simp add: p3_def p2_def p1_def g_def moved_def gap_def t_def)
  define h where "h = put p3 (28 + 8 * i) (le32 (of_nat ?s))"
  have lh: "length h = PAGE_SIZE" using l3 I by (simp add: h_def)
  have hn: "u32_at h 20 = u32_at p 20"
    using M(6)[of 20 4] l3 I room' by (simp add: h_def u32_at_put_disjoint m3 u32_at_def bytes_put_disjoint gap_def)
  have mv: "mem_move p g ?f (?o - ?f) = Some p1"
    using fo g D(1) by (simp add: mem_move_def mem_read_bytes mem_write_put p1_def)
  have ser: "Row_SerializeTo r p2 (?o + t - ?s) = Some (?s, p3)"
    using Row_SerializeTo_put[OF r, of "?o + t - ?s" p2] g l by (simp add: p3_def b(1))
  have gw: "u32_at p 16 + of_nat t - of_nat ?s = of_nat g" using g(4) by (simp add: g_def word_of_ptrs of_nat_diff)
  from update_shift[OF ok i(2) live b(2) room, of h] obtain q where
    q: "shift_offsets (\<lambda>s off. s > 0 \<and> off < u32_at p (24 + 8 * i) + of_nat t) (of_nat t - of_nat ?s) (map of_nat [0..<?n]) h = Some q"
      "resized p i b q" using L(4) by (auto simp: h_def m3 t_def)
  have "TablePage_UpdateTuple r old_row schema p = Some (1, old_row\<lparr>row_fields := fs\<rparr>, q)"
    using rid sz nz i(2) I L(2) L(4)[folded t_def] FreeSpaceRemaining_value[OF ok, folded room32_def] fits W rd u g(4) mv gw ser q(1) hn
      page_access[OF D(1)] page_access[OF l(1)] page_access[OF l(2)] page_access[OF l3] page_access[OF lh]
    by (simp add: TablePage_UpdateTuple_def Let_def slot_in_range slot_numbers_facts[OF ok] flip: i(1) g_def p2_def h_def)
  moreover from resized_ok[OF ok i(2) L(1) q(2) room'] b(2) have "table_page_ok q \<and> slots q = (slots p)[i := Some (False, b)]" by simp
  ultimately show ?thesis using resizedD(2)[OF q(2)] by blast
qed


section \<open>Properties\<close>

lemma field_bytes_length: "field_ok f \<Longrightarrow> 4 \<le> length (field_bytes f)"
  by (auto simp: field_ok_def field_bytes_def split: Val.splits)

lemma row_bytes_nonempty:
  assumes "list_all field_ok fs" and "fs \<noteq> []"
  shows "row_bytes fs \<noteq> []"
  using assms by (cases fs) (auto simp: row_bytes_def dest!: field_bytes_length)

lemma RowId_Get_valid:
  assumes "int32_range (rid_page rid)" and "rid_page rid \<noteq> INVALID_PAGE_ID"
  shows "RowId_Get rid \<noteq> RowId_Get INVALID_ROWID"
proof
  assume eq: "RowId_Get rid = RowId_Get INVALID_ROWID"
  have "RowId_Get INVALID_ROWID = - (2 ^ 32)"
    using RowId_Get_sum[of INVALID_ROWID] by (simp add: INVALID_ROWID_def INVALID_PAGE_ID_def int32_range_def)
  moreover obtain u where "uint (rid_slot rid) = u" "0 \<le> u" "u < 2 ^ 32" using uint_bounded[of "rid_slot rid"] by simp
  ultimately have "rid_page rid = -1" using eq RowId_Get_sum[OF assms(1)] by simp
  with assms(2) show False by (simp add: INVALID_PAGE_ID_def)
qed

lemma GetTablePageId_range: "GetTablePageId p = Some pid \<Longrightarrow> int32_range pid"
  using sint_range_size[where w = "of_le32 bs :: u32" for bs]
  by (auto simp: GetTablePageId_def MACH_READ_INT32_def MACH_READ_UINT32_def int32_range_def word_size)

lemma free_slot_add: "free_slot ss < length (add_tuple b ss) \<and> add_tuple b ss ! free_slot ss = Some (False, b)"
  using free_slot_bounds[of ss] by (cases "None \<in> set ss") (auto simp: add_tuple_def nth_append)

text \<open>C20: Inserting a row into a table page.  When the room for the tuple and one more slot is missing, the page
  is left alone.  Otherwise the tuple takes the first empty slot, or a new one, no other slot changes,
  the row gets the page and the slot as its row id, and reading that row id returns the inserted
  fields.\<close>

theorem table_page_insert:
  assumes "table_page_ok p" and "row_ok schema (row_fields r)" and "row_fields r \<noteq> []"
    and "b = row_bytes (row_fields r)" and "length b < 2 ^ 32" and "GetTablePageId p = Some pid" and "pid \<noteq> INVALID_PAGE_ID"
  shows "if free_ptr p < 32 + 8 * tuple_count p + length b then TablePage_InsertTuple r p = Some (False, r, p)
    else \<exists>p'. TablePage_InsertTuple r p = Some (True, r\<lparr>row_id := \<lparr>rid_page = pid, rid_slot = of_nat (free_slot (slots p))\<rparr>\<rparr>, p') \<and>
      table_page_ok p' \<and> page_links p' = page_links p \<and> free_ptr p' = free_ptr p - length b \<and> slots p' = add_tuple b (slots p) \<and>
      TablePage_GetTuple \<lparr>row_id = \<lparr>rid_page = pid, rid_slot = of_nat (free_slot (slots p))\<rparr>, row_fields = []\<rparr> schema p' =
        Some (True, \<lparr>row_id = \<lparr>rid_page = pid, rid_slot = of_nat (free_slot (slots p))\<rparr>, row_fields = row_fields r\<rparr>)"
proof -
  let ?i = "free_slot (slots p)" and ?rid = "\<lparr>rid_page = pid, rid_slot = of_nat (free_slot (slots p))\<rparr>"
  have fk: "list_all field_ok (row_fields r)" by (rule row_ok_fields[OF assms(2)])
  have b: "b \<noteq> []" using row_bytes_nonempty[OF fk assms(3)] assms(4) by simp
  note ins = InsertTuple_refines[OF assms(1) fk assms(4) b assms(5,6)]
  show ?thesis
  proof (cases "free_ptr p < 32 + 8 * tuple_count p + length b")
    case False
    then have room: "32 + 8 * tuple_count p + length b \<le> free_ptr p" by simp
    have i: "?i \<le> tuple_count p" using free_slot_bounds(1)[of "slots p"] by simp
    note W = with_tuple_ok[OF assms(1) refl room b] and P = with_tuple_effect[OF assms(1) i room]
    have "?i \<le> PAGE_SIZE" using i table_page_okD(2,3)[OF assms(1)] by simp
    then have u: "unat (of_nat ?i :: u32) = ?i" by (rule small_u32)
    have "?i < length (slots (with_tuple b ?i p))" "slots (with_tuple b ?i p) ! ?i = Some (False, row_bytes (row_fields r))"
      using W free_slot_add[of "slots p" b] assms(4) by (simp_all del: length_slots nth_slots)
    then have "TablePage_GetTuple \<lparr>row_id = ?rid, row_fields = []\<rparr> schema (with_tuple b ?i p) =
        Some (True, \<lparr>row_id = ?rid, row_fields = row_fields r\<rparr>)"
      using GetTuple_spec(1)[OF W[THEN conjunct1], of "\<lparr>row_id = ?rid, row_fields = []\<rparr>" "row_fields r" schema] u
        RowId_Get_valid[of ?rid] GetTablePageId_range[OF assms(6)] assms(2,7) by (simp del: length_slots nth_slots)
    then show ?thesis using False ins(2)[OF room] W P by simp
  qed (use ins(1) in simp)
qed

lemma sample_page:
  "\<exists>p. table_page_ok p \<and> GetTablePageId p = Some 5 \<and> slots p = [Some (False, row_bytes (row_fields sample_row))] \<and> free_ptr p = 4085"
proof -
  from Init_ok[of "replicate PAGE_SIZE 0" 5 INVALID_PAGE_ID] obtain p where
    p: "table_page_ok p" "slots p = []" "free_ptr p = PAGE_SIZE" "GetTablePageId p = Some 5"
    by (auto simp: int32_range_def INVALID_PAGE_ID_def)
  have n: "tuple_count p = 0" using p(2) length_slots[of p] by simp
  have fk: "list_all field_ok (row_fields sample_row)" by (rule row_ok_fields[OF sample_row_ok(1)])
  let ?b = "row_bytes (row_fields sample_row)"
  have room: "32 + 8 * tuple_count p + length ?b \<le> free_ptr p" by (simp add: n p(3) sample_row_ok PAGE_SIZE_def)
  have "?b \<noteq> []" using sample_row_ok(2) by auto
  from with_tuple_ok[OF p(1) refl room this] with_tuple_effect[OF p(1) _ room, of 0] p n
  have "table_page_ok (with_tuple ?b 0 p)" "slots (with_tuple ?b 0 p) = [Some (False, ?b)]" "free_ptr (with_tuple ?b 0 p) = 4085"
    "page_links (with_tuple ?b 0 p) = page_links p" by (simp_all add: add_tuple_def free_slot_def sample_row_ok PAGE_SIZE_def)
  moreover from this have "GetTablePageId (with_tuple ?b 0 p) = Some 5"
    using page_links_ids(1)[of "with_tuple ?b 0 p" p] table_page_okD(1) p(1,4) by simp
  ultimately show ?thesis by blast
qed

theorem table_page_insert_witness:
  "\<exists>p p'. TablePage_InsertTuple sample_row p = Some (True, sample_row\<lparr>row_id := \<lparr>rid_page = 5, rid_slot = 1\<rparr>\<rparr>, p') \<and> length (slots p') = 2 \<and>
    TablePage_GetTuple \<lparr>row_id = \<lparr>rid_page = 5, rid_slot = 1\<rparr>, row_fields = []\<rparr> sample_schema p' =
      Some (True, sample_row\<lparr>row_id := \<lparr>rid_page = 5, rid_slot = 1\<rparr>\<rparr>)"
proof -
  obtain p where p: "table_page_ok p" "GetTablePageId p = Some 5" "slots p = [Some (False, row_bytes (row_fields sample_row))]" "free_ptr p = 4085"
    using sample_page by blast
  have n: "tuple_count p = 1" using p(3) length_slots[of p] by simp
  have "free_slot (slots p) = 1" by (simp add: p(3) free_slot_def del: not_None_eq)
  note p = p this
  have "row_fields sample_row \<noteq> []" by (simp add: sample_row_def)
  from table_page_insert[OF p(1) sample_row_ok(1) this refl _ p(2)] p n
  obtain p' where "TablePage_InsertTuple sample_row p = Some (True, sample_row\<lparr>row_id := \<lparr>rid_page = 5, rid_slot = 1\<rparr>\<rparr>, p')"
    "slots p' = add_tuple (row_bytes (row_fields sample_row)) (slots p)"
    "TablePage_GetTuple \<lparr>row_id = \<lparr>rid_page = 5, rid_slot = 1\<rparr>, row_fields = []\<rparr> sample_schema p' =
      Some (True, \<lparr>row_id = \<lparr>rid_page = 5, rid_slot = 1\<rparr>, row_fields = row_fields sample_row\<rparr>)"
    by (auto simp: sample_row_ok INVALID_PAGE_ID_def)
  moreover have "sample_row\<lparr>row_id := \<lparr>rid_page = 5, rid_slot = 1\<rparr>\<rparr> = \<lparr>row_id = \<lparr>rid_page = 5, rid_slot = 1\<rparr>, row_fields = row_fields sample_row\<rparr>"
    by (simp add: sample_row_def)
  ultimately show ?thesis using p(3)
    by (intro exI[of _ p] exI[of _ p'] conjI) (simp_all add: add_tuple_def del: length_slots)
qed


text \<open>C19: Updating a row in its table page.  The result is -1 and nothing changes when the slot holds no live tuple,
  0 and nothing changes when the page has no room for the new tuple in place of the old one; otherwise
  it is 1, the slot holds the new tuple, every other slot keeps its tuple although its bytes may have
  moved, and the old fields are returned.\<close>

theorem table_page_update:
  assumes "table_page_ok p" and "RowId_Get (row_id old_row) \<noteq> RowId_Get INVALID_ROWID" and "list_all field_ok (row_fields r)"
    and "row_fields r \<noteq> []" and "length (row_bytes (row_fields r)) < 2 ^ 32" and "i = unat (rid_slot (row_id old_row))"
  shows "((\<nexists>c. i < length (slots p) \<and> slots p ! i = Some (False, c)) \<longrightarrow> TablePage_UpdateTuple r old_row schema p = Some (-1, old_row, p)) \<and>
    (i < length (slots p) \<and> slots p ! i = Some (False, row_bytes fs) \<and> row_ok schema fs \<longrightarrow>
      (if free_ptr p + length (row_bytes fs) < 24 + 8 * tuple_count p + length (row_bytes (row_fields r))
       then TablePage_UpdateTuple r old_row schema p = Some (0, old_row, p)
       else \<exists>q. TablePage_UpdateTuple r old_row schema p = Some (1, old_row\<lparr>row_fields := fs\<rparr>, q) \<and> table_page_ok q \<and>
         page_links q = page_links p \<and> slots q = (slots p)[i := Some (False, row_bytes (row_fields r))]))"
proof (intro conjI)
  have b: "row_bytes (row_fields r) \<noteq> []" by (rule row_bytes_nonempty[OF assms(3,4)])
  note rej = UpdateTuple_rejects[OF assms(1-3) refl b assms(5), folded assms(6)]
  show "(\<nexists>c. i < length (slots p) \<and> slots p ! i = Some (False, c)) \<longrightarrow> TablePage_UpdateTuple r old_row schema p = Some (-1, old_row, p)"
    using rej(1) by auto
  show "i < length (slots p) \<and> slots p ! i = Some (False, row_bytes fs) \<and> row_ok schema fs \<longrightarrow>
      (if free_ptr p + length (row_bytes fs) < 24 + 8 * tuple_count p + length (row_bytes (row_fields r))
       then TablePage_UpdateTuple r old_row schema p = Some (0, old_row, p)
       else \<exists>q. TablePage_UpdateTuple r old_row schema p = Some (1, old_row\<lparr>row_fields := fs\<rparr>, q) \<and> table_page_ok q \<and>
         page_links q = page_links p \<and> slots q = (slots p)[i := Some (False, row_bytes (row_fields r))])"
    using rej(2)[of "row_bytes fs"] UpdateTuple_refines[OF assms(1-3) refl b assms(6), of fs schema] by auto
qed

theorem table_page_update_witness:
  "\<exists>p q. TablePage_UpdateTuple \<lparr>row_id = INVALID_ROWID, row_fields = [Field_int 9]\<rparr> \<lparr>row_id = \<lparr>rid_page = 5, rid_slot = 0\<rparr>, row_fields = []\<rparr> sample_schema p =
      Some (1, \<lparr>row_id = \<lparr>rid_page = 5, rid_slot = 0\<rparr>, row_fields = row_fields sample_row\<rparr>, q) \<and>
    slots q = [Some (False, row_bytes [Field_int 9])]"
proof -
  obtain p where p: "table_page_ok p" "slots p = [Some (False, row_bytes (row_fields sample_row))]" "free_ptr p = 4085"
    using sample_page by blast
  have n: "tuple_count p = 1" using p(2) length_slots[of p] by simp
  let ?new = "\<lparr>row_id = INVALID_ROWID, row_fields = [Field_int 9]\<rparr>" and ?old = "\<lparr>row_id = \<lparr>rid_page = 5, rid_slot = 0\<rparr>, row_fields = []\<rparr>"
  have rid: "RowId_Get (row_id ?old) \<noteq> RowId_Get INVALID_ROWID" by (rule RowId_Get_valid) (simp_all add: int32_range_def INVALID_PAGE_ID_def)
  have f: "list_all field_ok (row_fields ?new)" by (simp add: field_ok_def Field_int_def int32_range_def)
  have l: "length (row_bytes (row_fields ?new)) = 4" by (simp add: row_bytes_def field_bytes_def Field_int_def)
  have "0 < length (slots p) \<and> slots p ! 0 = Some (False, row_bytes (row_fields sample_row)) \<and> row_ok sample_schema (row_fields sample_row)"
    by (simp add: p(2) sample_row_ok del: length_slots nth_slots)
  with table_page_update[OF p(1) rid f _ _ refl, of sample_schema "row_fields sample_row"] show ?thesis
    using l p n by (auto simp: sample_row_ok simp del: length_slots nth_slots)
qed

text \<open>C21: Deleting a row from its table page.  Marking a live tuple succeeds and changes nothing but its mark; rolling
  back restores the slots, and applying the deletion empties the slot, gives the bytes of the tuple back
  to the free space and leaves all other tuples alone.  Marking anything else fails without effect.\<close>

theorem table_page_delete:
  assumes "table_page_ok p" and "i = unat (rid_slot rid)"
  shows "((\<nexists>c. i < length (slots p) \<and> slots p ! i = Some (False, c)) \<longrightarrow>
      (\<exists>p1. TablePage_MarkDelete rid p = Some (False, p1) \<and> slots p1 = slots p)) \<and>
    (i < length (slots p) \<and> slots p ! i = Some (False, c) \<longrightarrow>
      (\<exists>p1 p2 p3. TablePage_MarkDelete rid p = Some (True, p1) \<and> table_page_ok p1 \<and> slots p1 = (slots p)[i := Some (True, c)] \<and>
        TablePage_RollbackDelete rid p1 = Some p2 \<and> table_page_ok p2 \<and> slots p2 = slots p \<and>
        TablePage_ApplyDelete rid p1 = Some p3 \<and> table_page_ok p3 \<and> slots p3 = (slots p)[i := None] \<and>
        free_ptr p3 = free_ptr p1 + length c \<and> page_links p3 = page_links p))"
proof (intro conjI)
  obtain m p1 where p1: "TablePage_MarkDelete rid p = Some (m, p1)" "table_page_ok p1" "page_links p1 = page_links p"
    "(m, slots p1) = mark_slot i (slots p)" using MarkDelete_refines[OF assms(1), of rid] assms(2) by auto
  show "(\<nexists>c. i < length (slots p) \<and> slots p ! i = Some (False, c)) \<longrightarrow> (\<exists>p1. TablePage_MarkDelete rid p = Some (False, p1) \<and> slots p1 = slots p)"
  proof
    assume "\<nexists>c. i < length (slots p) \<and> slots p ! i = Some (False, c)"
    then have "mark_slot i (slots p) = (False, slots p)"
      unfolding mark_slot_def by (auto split: option.split bool.split simp del: length_slots nth_slots)
    with p1 show "\<exists>p1. TablePage_MarkDelete rid p = Some (False, p1) \<and> slots p1 = slots p" by auto
  qed
  show "i < length (slots p) \<and> slots p ! i = Some (False, c) \<longrightarrow>
      (\<exists>p1 p2 p3. TablePage_MarkDelete rid p = Some (True, p1) \<and> table_page_ok p1 \<and> slots p1 = (slots p)[i := Some (True, c)] \<and>
        TablePage_RollbackDelete rid p1 = Some p2 \<and> table_page_ok p2 \<and> slots p2 = slots p \<and>
        TablePage_ApplyDelete rid p1 = Some p3 \<and> table_page_ok p3 \<and> slots p3 = (slots p)[i := None] \<and>
        free_ptr p3 = free_ptr p1 + length c \<and> page_links p3 = page_links p)"
  proof
    assume i: "i < length (slots p) \<and> slots p ! i = Some (False, c)"
    then have m: "m" "slots p1 = (slots p)[i := Some (True, c)]" using p1(4) by (simp_all add: mark_slot_def del: length_slots nth_slots)
    then have i1: "i < tuple_count p1" "slot_at p1 i = Some (True, c)"
      using i length_slots[of p1] nth_slots[of i p1] by (simp_all del: length_slots nth_slots)
    obtain p2 where p2: "TablePage_RollbackDelete rid p1 = Some p2" "table_page_ok p2" "slots p2 = unmark_slot i (slots p1)"
      using RollbackDelete_refines[OF p1(2), of rid] i1(1) assms(2) by auto
    have "slots p2 = slots p" using p2(3) m(2) i by (simp add: unmark_slot_def list_update_same_conv del: length_slots nth_slots)
    moreover have "length c = tuple_length (slot_size p1 i)"
      using i1 table_page_okD(1)[OF p1(2)] table_page_okD(4)[OF p1(2) i1(1)] by (auto simp: slot_at_def slot_ok_def split: if_splits)
    moreover obtain p3 where "TablePage_ApplyDelete rid p1 = Some p3" "table_page_ok p3" "page_links p3 = page_links p1"
      "slots p3 = (slots p1)[i := None]" "free_ptr p3 = free_ptr p1 + tuple_length (slot_size p1 i)"
      using ApplyDelete_refines[OF p1(2), of rid] i1 assms(2) by auto
    ultimately show "\<exists>p1 p2 p3. TablePage_MarkDelete rid p = Some (True, p1) \<and> table_page_ok p1 \<and> slots p1 = (slots p)[i := Some (True, c)] \<and>
        TablePage_RollbackDelete rid p1 = Some p2 \<and> table_page_ok p2 \<and> slots p2 = slots p \<and>
        TablePage_ApplyDelete rid p1 = Some p3 \<and> table_page_ok p3 \<and> slots p3 = (slots p)[i := None] \<and>
        free_ptr p3 = free_ptr p1 + length c \<and> page_links p3 = page_links p"
      using p1(1-3) p2(1,2) m by auto
  qed
qed

theorem table_page_delete_witness:
  "\<exists>p p1 p3. TablePage_MarkDelete \<lparr>rid_page = 5, rid_slot = 0\<rparr> p = Some (True, p1) \<and>
    TablePage_ApplyDelete \<lparr>rid_page = 5, rid_slot = 0\<rparr> p1 = Some p3 \<and> slots p = [Some (False, row_bytes (row_fields sample_row))] \<and> slots p3 = [None]"
proof -
  obtain p where p: "table_page_ok p" "slots p = [Some (False, row_bytes (row_fields sample_row))]" using sample_page by blast
  let ?rid = "\<lparr>rid_page = 5, rid_slot = 0\<rparr> :: RowId"
  have "unat (rid_slot ?rid) < length (slots p) \<and> slots p ! unat (rid_slot ?rid) = Some (False, row_bytes (row_fields sample_row))"
    by (simp add: p(2) del: length_slots nth_slots)
  with table_page_delete[OF p(1) refl, of ?rid "row_bytes (row_fields sample_row)"] obtain p1 p3 where
    "TablePage_MarkDelete ?rid p = Some (True, p1)" "TablePage_ApplyDelete ?rid p1 = Some p3" "slots p3 = (slots p)[unat (rid_slot ?rid) := None]"
    by blast
  then show ?thesis using p(2) by (intro exI[of _ p] exI[of _ p1] exI[of _ p3]) simp
qed

end
