(* ===== verification/Table_Heap.thy ===== *)
theory Table_Heap
  imports Page_Cache Table_Page
begin

text \<open>The heap of a table (\<^verbatim>\<open>storage/table_heap.cpp\<close>, \<^verbatim>\<open>include/storage/table_heap.h\<close>).
  A heap is a chain of table pages that it reaches through the buffer pool.
  The buffer pool is the state of every operation; a page pointer is the frame that holds the page,
  and a member function of a page runs on the bytes of that frame.  The result is \<^const>\<open>None\<close> where the code
  has no defined behaviour or an assertion fails: a page pointer that was never set, a page id that was
  never written because \<open>NewPage\<close> failed, or a failing page operation.

  The proofs go through the interface \<open>page_cache\<close> of the pool.  \<open>heap_inv\<close> says that the chain of a heap is
  the list \<open>pids\<close>; what a heap means is the list of the slots of these pages.\<close>

section \<open>Model\<close>

record table_heap =
  first_page_id :: page_id_t
  heap_schema :: Schema

text \<open>The two constructors: a new heap with one empty page, and a heap that exists on disk.\<close>

definition TableHeap_create :: "Schema \<Rightarrow> buffer_pool \<Rightarrow> (table_heap \<times> buffer_pool) option" where
  "TableHeap_create schema bp = do {
     (new, bp) \<leftarrow> NewPage bp;
     (pid, _) \<leftarrow> new;
     (page, bp) \<leftarrow> FetchPage bp pid;
     c \<leftarrow> load_page bp page;
     c \<leftarrow> TablePage_Init pid INVALID_PAGE_ID c;
     bp \<leftarrow> store_page bp page c;
     (_, bp) \<leftarrow> UnpinPage bp pid True;
     (_, bp) \<leftarrow> UnpinPage bp pid True;
     Some (\<lparr>first_page_id = pid, heap_schema = schema\<rparr>, bp) }"

definition TableHeap_open :: "page_id_t \<Rightarrow> Schema \<Rightarrow> table_heap" where
  "TableHeap_open first schema = \<lparr>first_page_id = first, heap_schema = schema\<rparr>"

text \<open>The loop of \<open>InsertTuple\<close> ends with the inserted row, or with the last page pointer.\<close>

partial_function (option) insert_loop ::
  "Row \<Rightarrow> page_id_t \<Rightarrow> frame_id_t option \<Rightarrow> buffer_pool \<Rightarrow> ((Row \<times> buffer_pool) + (frame_id_t option \<times> buffer_pool)) option" where
  "insert_loop row pid page bp =
     (if pid = INVALID_PAGE_ID then Some (Inr (page, bp))
      else do {
        (page, bp) \<leftarrow> FetchPage bp pid;
        c \<leftarrow> load_page bp page;
        (inserted, row, c) \<leftarrow> TablePage_InsertTuple row c;
        bp \<leftarrow> store_page bp page c;
        if inserted then do {
          q \<leftarrow> GetPageId bp page;
          (_, bp) \<leftarrow> UnpinPage bp q True;
          Some (Inl (row, bp)) }
        else do {
          c \<leftarrow> load_page bp page;
          pid \<leftarrow> GetNextPageId c;
          q \<leftarrow> GetPageId bp page;
          (_, bp) \<leftarrow> UnpinPage bp q False;
          insert_loop row pid (Some page) bp } })"

text \<open>The rest of \<open>InsertTuple\<close>: a new page behind the last one.\<close>

definition insert_new_page :: "Row \<Rightarrow> frame_id_t option \<Rightarrow> buffer_pool \<Rightarrow> (bool \<times> Row \<times> buffer_pool) option" where
  "insert_new_page row last_page bp = do {
     (new, bp) \<leftarrow> NewPage bp;
     page \<leftarrow> last_page;
     curr_page_id \<leftarrow> GetPageId bp page;
     (new_page_id, _) \<leftarrow> new;
     c \<leftarrow> load_page bp page;
     c \<leftarrow> SetNextPageId new_page_id c;
     bp \<leftarrow> store_page bp page c;
     q \<leftarrow> GetPageId bp page;
     (_, bp) \<leftarrow> FlushPage bp q;
     (page, bp) \<leftarrow> FetchPage bp new_page_id;
     c \<leftarrow> load_page bp page;
     c \<leftarrow> TablePage_Init new_page_id curr_page_id c;
     (inserted, row, c) \<leftarrow> TablePage_InsertTuple row c;
     bp \<leftarrow> store_page bp page c;
     q \<leftarrow> GetPageId bp page;
     (_, bp) \<leftarrow> UnpinPage bp q True;
     q \<leftarrow> GetPageId bp page;
     (_, bp) \<leftarrow> UnpinPage bp q True;
     Some (inserted, row, bp) }"

definition TableHeap_InsertTuple :: "table_heap \<Rightarrow> Row \<Rightarrow> buffer_pool \<Rightarrow> (bool \<times> Row \<times> buffer_pool) option" where
  "TableHeap_InsertTuple h row bp = do {
     r \<leftarrow> insert_loop row (first_page_id h) None bp;
     case r of Inl (row, bp) \<Rightarrow> Some (True, row, bp) | Inr (page, bp) \<Rightarrow> insert_new_page row page bp }"

definition TableHeap_MarkDelete :: "RowId \<Rightarrow> buffer_pool \<Rightarrow> (bool \<times> buffer_pool) option" where
  "TableHeap_MarkDelete rid bp = do {
     (page, bp) \<leftarrow> FetchPage bp (rid_page rid);
     c \<leftarrow> load_page bp page;
     (_, c) \<leftarrow> TablePage_MarkDelete rid c;
     bp \<leftarrow> store_page bp page c;
     c \<leftarrow> load_page bp page;
     q \<leftarrow> GetTablePageId c;
     (_, bp) \<leftarrow> UnpinPage bp q True;
     Some (True, bp) }"

definition TableHeap_ApplyDelete :: "RowId \<Rightarrow> buffer_pool \<Rightarrow> buffer_pool option" where
  "TableHeap_ApplyDelete rid bp = do {
     (page, bp) \<leftarrow> FetchPage bp (rid_page rid);
     c \<leftarrow> load_page bp page;
     c \<leftarrow> TablePage_ApplyDelete rid c;
     bp \<leftarrow> store_page bp page c;
     q \<leftarrow> GetPageId bp page;
     (_, bp) \<leftarrow> UnpinPage bp q True;
     Some bp }"

definition TableHeap_RollbackDelete :: "RowId \<Rightarrow> buffer_pool \<Rightarrow> buffer_pool option" where
  "TableHeap_RollbackDelete rid bp = do {
     (page, bp) \<leftarrow> FetchPage bp (rid_page rid);
     c \<leftarrow> load_page bp page;
     c \<leftarrow> TablePage_RollbackDelete rid c;
     bp \<leftarrow> store_page bp page c;
     c \<leftarrow> load_page bp page;
     q \<leftarrow> GetTablePageId c;
     (_, bp) \<leftarrow> UnpinPage bp q True;
     Some bp }"

definition TableHeap_UpdateTuple :: "table_heap \<Rightarrow> Row \<Rightarrow> RowId \<Rightarrow> buffer_pool \<Rightarrow> (bool \<times> Row \<times> buffer_pool) option" where
  "TableHeap_UpdateTuple h new_row rid bp = do {
     (page, bp) \<leftarrow> FetchPage bp (rid_page rid);
     c \<leftarrow> load_page bp page;
     (_, old_row) \<leftarrow> TablePage_GetTuple \<lparr>row_id = rid, row_fields = []\<rparr> (heap_schema h) c;
     (res, old_row, c) \<leftarrow> TablePage_UpdateTuple new_row old_row (heap_schema h) c;
     bp \<leftarrow> store_page bp page c;
     if res = 0 then do {
       (_, bp) \<leftarrow> TableHeap_MarkDelete rid bp;
       bp \<leftarrow> TableHeap_ApplyDelete rid bp;
       (_, new_row, bp) \<leftarrow> TableHeap_InsertTuple h new_row bp;
       q \<leftarrow> GetPageId bp page;
       (_, bp) \<leftarrow> UnpinPage bp q True;
       Some (True, new_row, bp) }
     else if res = 1 then do {
       let new_row = new_row\<lparr>row_id := rid\<rparr>;
       q \<leftarrow> GetPageId bp page;
       (_, bp) \<leftarrow> UnpinPage bp q True;
       Some (True, new_row, bp) }
     else do {
       q \<leftarrow> GetPageId bp page;
       (_, bp) \<leftarrow> UnpinPage bp q False;
       Some (False, new_row, bp) } }"

text \<open>\<open>FreeHeap\<close> deletes every page while it is still pinned.\<close>

partial_function (option) free_loop :: "page_id_t \<Rightarrow> buffer_pool \<Rightarrow> buffer_pool option" where
  "free_loop pid bp =
     (if pid = INVALID_PAGE_ID then Some bp
      else do {
        (page, bp) \<leftarrow> FetchPage bp pid;
        c \<leftarrow> load_page bp page;
        pid \<leftarrow> GetNextPageId c;
        q \<leftarrow> GetPageId bp page;
        (_, bp) \<leftarrow> DeletePage bp q;
        free_loop pid bp })"

definition TableHeap_FreeHeap :: "table_heap \<Rightarrow> buffer_pool \<Rightarrow> (table_heap \<times> buffer_pool) option" where
  "TableHeap_FreeHeap h bp = do {
     bp \<leftarrow> free_loop (first_page_id h) bp;
     Some (h\<lparr>first_page_id := INVALID_PAGE_ID\<rparr>, bp) }"

definition TableHeap_GetTuple :: "table_heap \<Rightarrow> Row \<Rightarrow> buffer_pool \<Rightarrow> (bool \<times> Row \<times> buffer_pool) option" where
  "TableHeap_GetTuple h row bp = do {
     (page, bp) \<leftarrow> FetchPage bp (rid_page (row_id row));
     c \<leftarrow> load_page bp page;
     (found, row) \<leftarrow> TablePage_GetTuple row (heap_schema h) c;
     q \<leftarrow> GetPageId bp page;
     (_, bp) \<leftarrow> UnpinPage bp q False;
     Some (found, row, bp) }"

section \<open>Chains of pages\<close>

fun chain :: "(page_id_t \<Rightarrow> byte list) \<Rightarrow> page_id_t \<Rightarrow> page_id_t list \<Rightarrow> bool" where
  "chain c pid [] \<longleftrightarrow> pid = INVALID_PAGE_ID"
| "chain c pid (q # qs) \<longleftrightarrow> q = pid \<and> table_page_ok (c q) \<and> GetTablePageId (c q) = Some q \<and>
     (\<exists>n. GetNextPageId (c q) = Some n \<and> chain c n qs)"

lemma chain_page: "chain c pid pids \<Longrightarrow> q \<in> set pids \<Longrightarrow> table_page_ok (c q) \<and> GetTablePageId (c q) = Some q"
  by (induction pids arbitrary: pid) auto

lemma chain_cong: "(\<And>q. q \<in> set pids \<Longrightarrow> c q = d q) \<Longrightarrow> chain c pid pids = chain d pid pids"
  by (induction pids arbitrary: pid) auto

text \<open>Tuple operations keep the chain, because they keep the links of the page.\<close>

lemma chain_update:
  assumes "chain c pid pids" and "table_page_ok d" and "page_links d = page_links (c p)"
  shows "chain (c(p := d)) pid pids"
  using assms(1)
proof (induction pids arbitrary: pid)
  case (Cons q qs)
  have "GetTablePageId d = GetTablePageId (c p)" "GetNextPageId d = GetNextPageId (c p)" if "table_page_ok (c p)"
    using page_links_ids[OF assms(3)] table_page_okD(1)[OF assms(2)] table_page_okD(1)[OF that] by auto
  then show ?case using Cons assms(2) by auto
qed simp

text \<open>A page can be hung behind the last one.\<close>

lemma chain_extend:
  assumes "chain c pid pids" and "pids \<noteq> []" and "distinct pids" and "new \<notin> set pids"
    and "table_page_ok d" and "GetTablePageId d = GetTablePageId (c (last pids))" and "GetNextPageId d = Some new"
    and "table_page_ok e" and "GetTablePageId e = Some new" and "GetNextPageId e = Some INVALID_PAGE_ID"
  shows "chain (c(last pids := d, new := e)) pid (pids @ [new])"
  using assms(1-4,6)
proof (induction pids arbitrary: pid)
  case (Cons q qs)
  show ?case
  proof (cases "qs = []")
    case True
    then show ?thesis using Cons.prems assms(5,7-10) by auto
  next
    case False
    then have "last qs \<in> set qs" by simp
    then have "last qs \<noteq> q" using Cons.prems by auto
    then show ?thesis using False Cons.prems Cons.IH by auto
  qed
qed simp

definition heap_inv :: "buffer_pool \<Rightarrow> page_id_t \<Rightarrow> page_id_t list \<Rightarrow> bool" where
  "heap_inv bp first pids \<longleftrightarrow> pool_inv bp \<and> pids \<noteq> [] \<and> chain (view bp) first pids \<and> distinct pids \<and>
     (\<forall>q \<in> set pids. allocated bp q \<and> q \<notin> touched bp)"

text \<open>What a heap means: the slots of its pages.\<close>

definition heap_slots :: "buffer_pool \<Rightarrow> page_id_t list \<Rightarrow> (page_id_t \<times> slot list) list" where
  "heap_slots bp pids = map (\<lambda>q. (q, slots (view bp q))) pids"

lemma heap_invD:
  assumes "heap_inv bp first pids"
  shows "pool_inv bp" "chain (view bp) first pids" "distinct pids" "pids \<noteq> []"
    "\<And>q. q \<in> set pids \<Longrightarrow> allocated bp q \<and> q \<notin> touched bp"
    "\<And>q. q \<in> set pids \<Longrightarrow> table_page_ok (view bp q) \<and> GetTablePageId (view bp q) = Some q"
  using assms chain_page[of "view bp" first pids] unfolding heap_inv_def by auto

lemma heap_first: "heap_inv bp first pids \<Longrightarrow> first = hd pids \<and> first \<in> set pids"
  by (cases pids) (auto simp: heap_inv_def)

lemma heap_inv_kept:
  assumes "heap_inv bp first pids" and "kept bp bp' (view bp)"
  shows "heap_inv bp' first pids" "heap_slots bp' pids = heap_slots bp pids"
proof -
  have v: "view bp' q = view bp q" if "q \<in> set pids" for q using assms that by (simp add: heap_inv_def kept_def)
  then show "heap_slots bp' pids = heap_slots bp pids" by (simp add: heap_slots_def)
  show "heap_inv bp' first pids" using assms chain_cong[of pids "view bp'" "view bp"] v by (auto simp: heap_inv_def kept_def)
qed

lemma heap_inv_update:
  assumes "heap_inv bp first pids" and "kept bp bp' ((view bp)(p := d))" and "table_page_ok d" and "page_links d = page_links (view bp p)"
  shows "heap_inv bp' first pids" "heap_slots bp' pids = map (\<lambda>(q, ss). (q, if q = p then slots d else ss)) (heap_slots bp pids)"
proof -
  have v: "view bp' q = ((view bp)(p := d)) q" if "q \<in> set pids" for q using assms that by (simp add: heap_inv_def kept_def)
  then show "heap_slots bp' pids = map (\<lambda>(q, ss). (q, if q = p then slots d else ss)) (heap_slots bp pids)" by (simp add: heap_slots_def)
  have "chain ((view bp)(p := d)) first pids" by (rule chain_update[where c = "view bp", OF _ assms(3,4)]) (use assms(1) in \<open>simp add: heap_inv_def\<close>)
  then have "chain (view bp') first pids" using chain_cong[of pids "view bp'", OF v] by blast
  then show "heap_inv bp' first pids" using assms(1,2) by (auto simp: heap_inv_def kept_def)
qed

section \<open>Inserting a row\<close>

definition has_room :: "byte list \<Rightarrow> byte list \<Rightarrow> bool" where
  "has_room b p \<longleftrightarrow> 32 + 8 * tuple_count p + length b \<le> free_ptr p"

definition inserted_row :: "Row \<Rightarrow> page_id_t \<Rightarrow> byte list \<Rightarrow> Row" where
  "inserted_row r pid p = r\<lparr>row_id := \<lparr>rid_page = pid, rid_slot = of_nat (free_slot (slots p))\<rparr>\<rparr>"

definition row_fits :: "Row \<Rightarrow> byte list \<Rightarrow> bool" where
  "row_fits r b \<longleftrightarrow> list_all field_ok (row_fields r) \<and> b = row_bytes (row_fields r) \<and> b \<noteq> [] \<and> length b < 2 ^ 32"

lemma page_insert:
  assumes "table_page_ok p" and "row_fits r b" and "GetTablePageId p = Some pid"
  shows "TablePage_InsertTuple r p = Some (if has_room b p then (True, inserted_row r pid p, with_tuple b (free_slot (slots p)) p) else (False, r, p))"
  using InsertTuple_refines[OF assms(1) _ _ _ _ assms(3), of r b] assms(2) by (auto simp: row_fits_def has_room_def inserted_row_def)

lemma insert_loop_skip:
  assumes "pool_inv bp" and "allocated bp pid" and "spare bp" and "pid \<notin> touched bp" and "row_fits r b"
    and "table_page_ok (view bp pid)" and "GetTablePageId (view bp pid) = Some pid" and "GetNextPageId (view bp pid) = Some n"
    and "\<not> has_room b (view bp pid)"
  obtains f bp' where "insert_loop r pid pg bp = insert_loop r n (Some f) bp'" "kept bp bp' (view bp)" "page_table bp' pid = Some f"
    "length (free_list bp) \<le> Suc (length (free_list bp'))"
proof -
  obtain f bp1 bp2 bp3 where v: "FetchPage bp pid = Some (f, bp1)" "load_page bp1 f = Some (view bp pid)" "store_page bp1 f (view bp pid) = Some bp2"
    "load_page bp2 f = Some (view bp pid)" "GetPageId bp2 f = Some pid" "UnpinPage bp2 pid False = Some (True, bp3)" "kept bp bp3 ((view bp)(pid := view bp pid))"
    "page_table bp3 pid = Some f" "length (free_list bp) \<le> Suc (length (free_list bp3))"
    using visit_page[OF assms(1-3) table_page_okD(1)[OF assms(6)], of False] assms(4) by blast
  have "insert_loop r pid pg bp = insert_loop r n (Some f) bp3"
    by (subst insert_loop.simps)
      (simp add: v allocated_not_INVALID[OF assms(2)] page_insert[OF assms(6,5,7)] assms(8,9))
  then show ?thesis using that v by simp
qed

lemma insert_loop_full:
  assumes "pool_inv bp" and "chain (view bp) pid pids" and "spare bp" and "row_fits r b"
    and "\<And>q. q \<in> set pids \<Longrightarrow> allocated bp q \<and> q \<notin> touched bp \<and> \<not> has_room b (view bp q)"
  shows "\<exists>pg' bp'. insert_loop r pid pg bp = Some (Inr (pg', bp')) \<and> kept bp bp' (view bp) \<and>
    (if pids = [] then pg' = pg else pg' \<noteq> None \<and> pg' = page_table bp' (last pids)) \<and> length (free_list bp) \<le> length (free_list bp') + length pids"
  using assms(1,2,3,5)
proof (induction pids arbitrary: pid pg bp)
  case Nil
  then show ?case by (simp add: insert_loop.simps kept_refl)
next
  case (Cons q qs)
  then obtain n where q: "q = pid" "table_page_ok (view bp pid)" "GetTablePageId (view bp pid) = Some pid" "GetNextPageId (view bp pid) = Some n"
    "chain (view bp) n qs" "allocated bp pid" "pid \<notin> touched bp" "\<not> has_room b (view bp pid)" by auto
  obtain f bp1 where s: "insert_loop r pid pg bp = insert_loop r n (Some f) bp1" "kept bp bp1 (view bp)" "page_table bp1 pid = Some f"
    "length (free_list bp) \<le> Suc (length (free_list bp1))"
    by (rule insert_loop_skip[OF Cons.prems(1) q(6) Cons.prems(3) q(7) assms(4) q(2-4,8)])
  have k: "allocated bp1 q \<and> q \<notin> touched bp1 \<and> \<not> has_room b (view bp1 q) \<and> view bp1 q = view bp q" if "q \<in> set qs" for q
    using Cons.prems(4)[of q] s(2) that by (auto simp: kept_def)
  have k': "allocated bp1 q \<and> q \<notin> touched bp1 \<and> \<not> has_room b (view bp1 q)" if "q \<in> set qs" for q using k[OF that] by blast
  have c: "chain (view bp1) n qs" using q(5) chain_cong[of qs "view bp1" "view bp"] k by simp
  have i: "pool_inv bp1" "spare bp1" using s(2) kept_spare[OF s(2)] Cons.prems(3) by (simp_all add: kept_def)
  have "\<exists>pg' bp'. insert_loop r n (Some f) bp1 = Some (Inr (pg', bp')) \<and> kept bp1 bp' (view bp1) \<and>
      (if qs = [] then pg' = Some f else pg' \<noteq> None \<and> pg' = page_table bp' (last qs)) \<and> length (free_list bp1) \<le> length (free_list bp') + length qs"
    by (rule Cons.IH[OF i(1) c i(2)]) (rule k')
  then obtain pg' bp' where r: "insert_loop r n (Some f) bp1 = Some (Inr (pg', bp'))" "kept bp1 bp' (view bp1)"
    "if qs = [] then pg' = Some f else pg' \<noteq> None \<and> pg' = page_table bp' (last qs)" "length (free_list bp1) \<le> length (free_list bp') + length qs"
    by (elim exE conjE) (rule that; assumption)
  have "kept bp bp' (view bp)" by (rule kept_trans[OF s(2) kept_cong[OF r(2)]]) (use s(2) in \<open>simp add: kept_def\<close>)
  moreover have "bp' = bp1" if "qs = []"
  proof -
    have "n = INVALID_PAGE_ID" using that q(5) by simp
    then show ?thesis using r(1) by (subst (asm) insert_loop.simps) simp
  qed
  ultimately show ?case using s r(1,3,4) q(1) by auto
qed

lemma insert_loop_found:
  assumes "pool_inv bp" and "chain (view bp) pid (xs @ p # ys)" and "spare bp" and "row_fits r b" and "has_room b (view bp p)"
    and "\<And>q. q \<in> set xs \<Longrightarrow> \<not> has_room b (view bp q)" and "\<And>q. q \<in> set (xs @ p # ys) \<Longrightarrow> allocated bp q \<and> q \<notin> touched bp"
  shows "\<exists>bp'. insert_loop r pid pg bp = Some (Inl (inserted_row r p (view bp p), bp')) \<and>
    kept bp bp' ((view bp)(p := with_tuple b (free_slot (slots (view bp p))) (view bp p)))"
  using assms(1,2,3,5-7)
proof (induction xs arbitrary: pid pg bp)
  case Nil
  then have q: "pid = p" "table_page_ok (view bp p)" "GetTablePageId (view bp p) = Some p" "allocated bp p" by auto
  let ?d = "with_tuple b (free_slot (slots (view bp p))) (view bp p)"
  have "length ?d = PAGE_SIZE"
    using with_tuple_ok[OF q(2) refl, of b] assms(4) Nil.prems(4) table_page_okD(1) by (auto simp: has_room_def row_fits_def)
  then obtain f bp1 bp2 bp3 where v: "FetchPage bp p = Some (f, bp1)"
    "load_page bp1 f = Some (view bp p)" "store_page bp1 f ?d = Some bp2" "GetPageId bp2 f = Some p" "UnpinPage bp2 p True = Some (True, bp3)"
    "kept bp bp3 ((view bp)(p := ?d))"
    by (rule visit_page[OF Nil.prems(1) q(4) Nil.prems(3) _ disjI1[OF TrueI]]) (rule that; assumption)
  have "insert_loop r p pg bp = Some (Inl (inserted_row r p (view bp p), bp3))"
    by (subst insert_loop.simps) (simp add: v Nil.prems(4) allocated_not_INVALID[OF q(4)] page_insert[OF q(2) assms(4) q(3)])
  then show ?case unfolding q(1) using v(6) by (intro exI[of _ bp3] conjI)
next
  case (Cons q qs)
  then obtain n where q: "q = pid" "table_page_ok (view bp pid)" "GetTablePageId (view bp pid) = Some pid" "GetNextPageId (view bp pid) = Some n"
    "chain (view bp) n (qs @ p # ys)" "allocated bp pid" "pid \<notin> touched bp" "\<not> has_room b (view bp pid)" by auto
  obtain f bp1 where s: "insert_loop r pid pg bp = insert_loop r n (Some f) bp1" "kept bp bp1 (view bp)"
    by (rule insert_loop_skip[OF Cons.prems(1) q(6) Cons.prems(3) q(7) assms(4) q(2-4,8)])
  have k: "allocated bp1 q \<and> q \<notin> touched bp1 \<and> view bp1 q = view bp q" if "q \<in> set (qs @ p # ys)" for q
    using Cons.prems(6)[of q] s(2) that by (auto simp: kept_def)
  have c: "chain (view bp1) n (qs @ p # ys)" using q(5) chain_cong[of "qs @ p # ys" "view bp1" "view bp"] k by blast
  have i: "pool_inv bp1" "spare bp1" using s(2) kept_spare[OF s(2)] Cons.prems(3) by (simp_all add: kept_def)
  have p: "view bp1 p = view bp p" using k by simp
  have "\<exists>bp'. insert_loop r n (Some f) bp1 = Some (Inl (inserted_row r p (view bp1 p), bp')) \<and>
      kept bp1 bp' ((view bp1)(p := with_tuple b (free_slot (slots (view bp1 p))) (view bp1 p)))"
    by (rule Cons.IH[OF i(1) c i(2)]) (use Cons.prems(4,5) k in simp_all)
  then obtain bp' where r: "insert_loop r n (Some f) bp1 = Some (Inl (inserted_row r p (view bp p), bp'))"
    "kept bp1 bp' ((view bp1)(p := with_tuple b (free_slot (slots (view bp p))) (view bp p)))" using p by auto
  have "kept bp bp' ((view bp)(p := with_tuple b (free_slot (slots (view bp p))) (view bp p)))"
    by (rule kept_trans[OF s(2) kept_cong[OF r(2)]]) (use s(2) in \<open>simp add: kept_def\<close>)
  then show ?case unfolding s(1) using r(1) by (intro exI[of _ bp'] conjI)
qed

text \<open>Linking a page to a successor changes nothing else.\<close>

lemma SetNextPageId_ok:
  assumes ok: "table_page_ok p" and n: "int32_range n"
  shows "\<exists>d. SetNextPageId n p = Some d \<and> table_page_ok d \<and> slots d = slots p \<and> free_ptr d = free_ptr p \<and>
    GetTablePageId d = GetTablePageId p \<and> GetNextPageId d = Some n"
proof -
  note D = table_page_okD[OF ok]
  let ?d = "put p 12 (le32 (word_of_int n))"
  have l: "length ?d = PAGE_SIZE" using D(1) by (simp add: PAGE_SIZE_def)
  have s: "SetNextPageId n p = Some ?d" using D(1) by (simp add: page_writes MACH_WRITE_INT32_def WRITE_u32 PAGE_SIZE_def)
  have h: "free_ptr ?d = free_ptr p" "tuple_count ?d = tuple_count p" "u32_at ?d 0 = u32_at p 0" "u32_at ?d 12 = word_of_int n"
    using D(1) by (simp_all add: free_ptr_def tuple_count_def put_simps PAGE_SIZE_def)
  have sl: "slot_offset ?d i = slot_offset p i" "slot_size ?d i = slot_size p i" if "i < tuple_count p" for i
    using D(1-3) that by (simp_all add: slot_offset_def slot_size_def put_simps PAGE_SIZE_def)
  have "slot_at ?d i = slot_at p i" if "i < tuple_count p" for i
    using D(1-3) D(4)[OF that] sl[OF that] by (auto simp: slot_at_def slot_ok_def bytes_put_disjoint PAGE_SIZE_def)
  then have "slots ?d = slots p" using h(2) by (simp add: slots_def)
  moreover have "table_page_ok ?d" using ok l h sl by (simp add: table_page_ok_def slot_ok_def apart_def)
  ultimately show ?thesis using s h l D(1) n by (simp add: page_reads sint_word_of_int32)
qed

lemma fresh_page_insert:
  assumes "length p = PAGE_SIZE" and "int32_range pid" and "int32_range prev" and fits: "row_fits r b"
  shows "\<exists>c d r'. TablePage_Init pid prev p = Some c \<and> TablePage_InsertTuple r c = Some (length b \<le> SIZE_MAX_ROW, r', d) \<and>
    r' = (if length b \<le> SIZE_MAX_ROW then r\<lparr>row_id := \<lparr>rid_page = pid, rid_slot = 0\<rparr>\<rparr> else r) \<and> table_page_ok d \<and>
    slots d = (if length b \<le> SIZE_MAX_ROW then [Some (False, b)] else []) \<and> GetTablePageId d = Some pid \<and> GetNextPageId d = Some INVALID_PAGE_ID"
proof -
  obtain c where c: "TablePage_Init pid prev p = Some c" "table_page_ok c" "slots c = []" "free_ptr c = PAGE_SIZE"
    "GetTablePageId c = Some pid" "GetNextPageId c = Some INVALID_PAGE_ID" using Init_ok[OF assms(1-3)] by blast
  have n: "tuple_count c = 0" using c(3) length_slots[of c] by simp
  have room: "has_room b c \<longleftrightarrow> length b \<le> SIZE_MAX_ROW"
    by (simp add: has_room_def n c(4) SIZE_MAX_ROW_def SIZE_TABLE_PAGE_HEADER_def SIZE_TUPLE_def PAGE_SIZE_def)
  have z: "free_slot (slots c) = 0" by (simp add: c(3) free_slot_def)
  show ?thesis
  proof (cases "has_room b c")
    case True
    then have rm: "32 + 8 * tuple_count c + length b \<le> free_ptr c" by (simp add: has_room_def)
    have nb: "b \<noteq> []" using fits unfolding row_fits_def by blast
    let ?d = "with_tuple b 0 c"
    have d: "table_page_ok ?d" "slots ?d = [Some (False, b)]" "page_links ?d = page_links c"
      using with_tuple_ok[OF c(2) refl rm nb] with_tuple_effect[OF c(2) _ rm, of 0] z c(3) by (simp_all add: add_tuple_def)
    then show ?thesis using c page_insert[OF c(2) fits c(5)] True room z
        page_links_ids[OF d(3) table_page_okD(1)[OF c(2)] table_page_okD(1)[OF d(1)]]
      by (simp add: inserted_row_def)
  next
    case False
    then show ?thesis using c page_insert[OF c(2) fits c(5)] room by simp
  qed
qed

text \<open>A heap that has grown by one page.\<close>

definition grown :: "buffer_pool \<Rightarrow> buffer_pool \<Rightarrow> page_id_t \<Rightarrow> (page_id_t \<Rightarrow> byte list) \<Rightarrow> bool" where
  "grown bp bp' new c \<longleftrightarrow> pool_inv bp' \<and> \<not> allocated bp new \<and> allocated bp' = (\<lambda>q. q = new \<or> allocated bp q) \<and> pins bp' = pins bp \<and>
     touched bp' \<subseteq> touched bp \<and> pool_size bp' = pool_size bp \<and> (\<forall>q. 0 < pins bp q \<longrightarrow> page_table bp' q = page_table bp q) \<and>
     (\<forall>q. allocated bp' q \<longrightarrow> view bp' q = c q)"

text \<open>A page that has just been allocated is fetched again, written to, and given back twice.\<close>

lemma fill_new_page:
  assumes inv: "pool_inv bp" and al: "allocated bp new" and pin: "pins bp new = 1" and e: "length e = PAGE_SIZE"
  obtains f bp1 bp2 bp3 bp4 where "FetchPage bp new = Some (f, bp1)" "load_page bp1 f = Some (view bp new)" "store_page bp1 f e = Some bp2"
    "GetPageId bp2 f = Some new" "UnpinPage bp2 new True = Some (True, bp3)" "GetPageId bp3 f = Some new" "UnpinPage bp3 new True = Some (True, bp4)"
    "pool_inv bp4" "allocated bp4 = allocated bp" "\<forall>q. allocated bp q \<longrightarrow> view bp4 q = (if q = new then e else view bp q)"
    "pins bp4 = (pins bp)(new := 0)" "touched bp4 = touched bp - {new}" "pool_size bp4 = pool_size bp"
    "\<forall>q. 0 < pins bp q \<longrightarrow> page_table bp4 q = page_table bp q"
proof -
  have p: "0 < pins bp new" using pin by simp
  obtain f bp1 where h: "FetchPage bp new = Some (f, bp1)" "pool_inv bp1" "allocated bp1 = allocated bp"
    "\<forall>q. allocated bp q \<longrightarrow> view bp1 q = view bp q" "pins bp1 = (pins bp)(new := Suc (pins bp new))" "touched bp1 = touched bp"
    "pool_size bp1 = pool_size bp" "page_table bp1 new = Some f" "\<forall>q. 0 < pins bp q \<longrightarrow> page_table bp1 q = page_table bp q"
    using pool_fetch_law[OF inv al disjI1[OF p]] by (elim exE conjE) (rule that; assumption)
  have l: "load_page bp1 f = Some (view bp new)" using pool_load_law[OF h(2,8)] h(4) al by simp
  have p1: "0 < pins bp1 new" using h(5) by simp
  obtain bp2 where s: "store_page bp1 f e = Some bp2" "pool_inv bp2" "allocated bp2 = allocated bp1"
    "\<forall>q. allocated bp1 q \<longrightarrow> view bp2 q = (if q = new then e else view bp1 q)" "pins bp2 = pins bp1" "touched bp2 \<subseteq> insert new (touched bp1)"
    "touched bp1 \<subseteq> insert new (touched bp2)" "pool_size bp2 = pool_size bp1" "page_table bp2 = page_table bp1"
    using pool_store_law[OF h(2) p1 h(8) e] by (elim exE conjE) (rule that; assumption)
  have p2: "0 < pins bp2 new" using s(5) p1 by simp
  obtain bp3 where u: "UnpinPage bp2 new True = Some (True, bp3)" "pool_inv bp3" "allocated bp3 = allocated bp2"
    "\<forall>q. allocated bp2 q \<longrightarrow> view bp3 q = view bp2 q" "pins bp3 = (pins bp2)(new := pins bp2 new - 1)" "touched bp3 = touched bp2 - {new}"
    "pool_size bp3 = pool_size bp2" "page_table bp3 = page_table bp2"
    using pool_unpin_law[OF s(2) p2 disjI1[OF TrueI], unfolded if_True] by (elim exE conjE) (rule that; assumption)
  have p3: "0 < pins bp3 new" using u(5) s(5) h(5) pin by simp
  obtain bp4 where t: "UnpinPage bp3 new True = Some (True, bp4)" "pool_inv bp4" "allocated bp4 = allocated bp3"
    "\<forall>q. allocated bp3 q \<longrightarrow> view bp4 q = view bp3 q" "pins bp4 = (pins bp3)(new := pins bp3 new - 1)" "touched bp4 = touched bp3 - {new}"
    "pool_size bp4 = pool_size bp3" "page_table bp4 = page_table bp3"
    using pool_unpin_law[OF u(2) p3 disjI1[OF TrueI], unfolded if_True] by (elim exE conjE) (rule that; assumption)
  have g: "GetPageId bp2 f = Some new" "GetPageId bp3 f = Some new"
    using pool_load_law[OF s(2)] pool_load_law[OF u(2)] s(9) u(8) h(8) by simp_all
  show ?thesis
  proof (rule that[OF h(1) l s(1) g(1) u(1) g(2) t(1,2)])
    show "allocated bp4 = allocated bp" "pool_size bp4 = pool_size bp" using t(3,7) u(3,7) s(3,8) h(3,7) by simp_all
    show "\<forall>q. allocated bp q \<longrightarrow> view bp4 q = (if q = new then e else view bp q)" using t(3,4) u(3,4) s(3,4) h(3,4) by simp
    show "pins bp4 = (pins bp)(new := 0)" using t(5) u(5) s(5) h(5) pin by (simp add: fun_eq_iff)
    show "touched bp4 = touched bp - {new}" using t(6) u(6) s(6,7) h(6) by auto
    show "\<forall>q. 0 < pins bp q \<longrightarrow> page_table bp4 q = page_table bp q" using t(8) u(8) s(9) h(9) by simp
  qed
qed

lemma insert_new_page_ok:
  assumes inv: "pool_inv bp" and last: "page_table bp pid = Some f" "table_page_ok (view bp pid)" and fits: "row_fits r b"
    and al: "allocated bp pid" and room: "\<exists>q. logical_ok q \<and> \<not> allocated bp q" and ne: "free_list bp \<noteq> []"
  shows "\<exists>new d e r' bp'. insert_new_page r (Some f) bp = Some (length b \<le> SIZE_MAX_ROW, r', bp') \<and>
    grown bp bp' new ((view bp)(pid := d, new := e)) \<and>
    r' = (if length b \<le> SIZE_MAX_ROW then r\<lparr>row_id := \<lparr>rid_page = new, rid_slot = 0\<rparr>\<rparr> else r) \<and>
    table_page_ok d \<and> slots d = slots (view bp pid) \<and> GetTablePageId d = GetTablePageId (view bp pid) \<and> GetNextPageId d = Some new \<and>
    table_page_ok e \<and> slots e = (if length b \<le> SIZE_MAX_ROW then [Some (False, b)] else []) \<and> GetTablePageId e = Some new \<and>
    GetNextPageId e = Some INVALID_PAGE_ID"
proof -
  obtain new g bp1 where n: "NewPage bp = Some (Some (new, g), bp1)" "pool_inv bp1" "\<not> allocated bp new" "logical_ok new"
    "allocated bp1 = (\<lambda>q. q = new \<or> allocated bp q)"
    "\<forall>q. allocated bp1 q \<longrightarrow> view bp1 q = (if q = new then replicate PAGE_SIZE 0 else view bp q)"
    "pins bp1 = (pins bp)(new := 1)" "touched bp1 = touched bp" "page_table bp1 = (page_table bp)(new \<mapsto> g)" "pool_size bp1 = pool_size bp"
    using pool_new_page[OF inv disk_room[OF room] ne] by (elim exE conjE) (rule that; assumption)
  have ai: "int32_range new" by (rule allocated_int32[of bp1]) (simp add: n(5))
  have nn: "new \<noteq> pid" "new \<notin> touched bp" "page_table bp new = None" "pins bp new = 0"
    using n(3) al unallocated_unpinned[OF inv n(3)] by (auto simp: touched_def)
  have pt1: "page_table bp1 pid = Some f" using last(1) nn(1) n(9) by simp
  have v1: "view bp1 pid = view bp pid" using n(5,6) al nn(1) by simp
  have l1: "load_page bp1 f = Some (view bp pid)" "GetPageId bp1 f = Some pid" using pool_load_law[OF n(2) pt1] v1 by simp_all
  obtain d where d: "SetNextPageId new (view bp pid) = Some d" "table_page_ok d" "slots d = slots (view bp pid)"
    "GetTablePageId d = GetTablePageId (view bp pid)" "GetNextPageId d = Some new" using SetNextPageId_ok[OF last(2) ai] by blast
  obtain bp2 bp3 where w: "store_page bp1 f d = Some bp2" "GetPageId bp2 f = Some pid" "FlushPage bp2 pid = Some (True, bp3)" "pool_inv bp3"
    "allocated bp3 = allocated bp1" "\<forall>q. allocated bp1 q \<longrightarrow> view bp3 q = (if q = pid then d else view bp1 q)" "pins bp3 = pins bp1"
    "touched bp3 = touched bp1 - {pid}" "page_table bp3 = page_table bp1" "pool_size bp3 = pool_size bp1"
    using pool_write_flush[OF n(2) pt1 table_page_okD(1)[OF d(2)]] by (elim exE conjE) (rule that; assumption)
  have a3: "allocated bp3 new" "pins bp3 new = 1" "view bp3 new = replicate PAGE_SIZE 0" using w(5,6,7) n(5,6,7) nn(1) by simp_all
  obtain c e r' where e: "TablePage_Init new pid (replicate PAGE_SIZE 0) = Some c" "TablePage_InsertTuple r c = Some (length b \<le> SIZE_MAX_ROW, r', e)"
    "r' = (if length b \<le> SIZE_MAX_ROW then r\<lparr>row_id := \<lparr>rid_page = new, rid_slot = 0\<rparr>\<rparr> else r)" "table_page_ok e"
    "slots e = (if length b \<le> SIZE_MAX_ROW then [Some (False, b)] else [])" "GetTablePageId e = Some new" "GetNextPageId e = Some INVALID_PAGE_ID"
    using fresh_page_insert[OF length_replicate[of PAGE_SIZE "0 :: byte"] ai allocated_int32[OF al] fits] by (elim exE conjE) (rule that; assumption)
  obtain f4 bp4 bp5 bp6 bp7 where t: "FetchPage bp3 new = Some (f4, bp4)" "load_page bp4 f4 = Some (view bp3 new)" "store_page bp4 f4 e = Some bp5"
    "GetPageId bp5 f4 = Some new" "UnpinPage bp5 new True = Some (True, bp6)" "GetPageId bp6 f4 = Some new" "UnpinPage bp6 new True = Some (True, bp7)"
    "pool_inv bp7" "allocated bp7 = allocated bp3" "\<forall>q. allocated bp3 q \<longrightarrow> view bp7 q = (if q = new then e else view bp3 q)"
    "pins bp7 = (pins bp3)(new := 0)" "touched bp7 = touched bp3 - {new}" "pool_size bp7 = pool_size bp3"
    "\<forall>q. 0 < pins bp3 q \<longrightarrow> page_table bp7 q = page_table bp3 q"
    by (rule fill_new_page[OF w(4) a3(1,2) table_page_okD(1)[OF e(4)]])
  have run: "insert_new_page r (Some f) bp = Some (length b \<le> SIZE_MAX_ROW, r', bp7)"
    by (simp add: insert_new_page_def n(1) l1 d(1) w(1-3) e(1,2) t(1-7) a3(3))
  have "pins bp7 = pins bp" using t(11) w(7) n(7) nn(4) by (simp add: fun_eq_iff)
  moreover have "page_table bp7 q = page_table bp q" if "0 < pins bp q" for q
  proof -
    have "q \<noteq> new" using that nn(4) by auto
    then show ?thesis using that t(14) w(7,9) n(7,9) by simp
  qed
  moreover have "view bp7 q = ((view bp)(pid := d, new := e)) q" if "allocated bp7 q" for q
    using that t(9,10) w(5,6) n(5,6) nn(1) by (cases "q = new"; cases "q = pid") simp_all
  ultimately have "grown bp bp7 new ((view bp)(pid := d, new := e))"
    using t(8,9,12,13) w(5,8,10) n(3,5,8,10) unfolding grown_def by auto
  then show ?thesis using run d e(3-7) by (intro exI[of _ new] exI[of _ d] exI[of _ e] exI[of _ r'] exI[of _ bp7] conjI)
qed

text \<open>The effect of a whole insertion, for the pages of the pool and for the heap.\<close>

lemma heap_insert_found:
  assumes "heap_inv bp (first_page_id h) pids" and "spare bp" and "row_fits r b" and f: "find (\<lambda>q. has_room b (view bp q)) pids = Some p"
  shows "\<exists>bp' d. TableHeap_InsertTuple h r bp = Some (True, inserted_row r p (view bp p), bp') \<and> kept bp bp' ((view bp)(p := d)) \<and>
    heap_inv bp' (first_page_id h) pids \<and> p \<in> set pids \<and> table_page_ok d \<and> slots d = add_tuple b (slots (view bp p)) \<and>
    heap_slots bp' pids = map (\<lambda>(q, ss). (q, if q = p then add_tuple b ss else ss)) (heap_slots bp pids)"
proof -
  note H = heap_invD[OF assms(1)]
  obtain i where i: "i < length pids" "has_room b (view bp (pids ! i))" "p = pids ! i" "\<And>j. j < i \<Longrightarrow> \<not> has_room b (view bp (pids ! j))"
    using f unfolding find_Some_iff by blast
  define xs ys where "xs = take i pids" and "ys = drop (Suc i) pids"
  have sp: "pids = xs @ p # ys" unfolding xs_def ys_def i(3) by (rule id_take_nth_drop[OF i(1)])
  have x: "\<not> has_room b (view bp q)" if "q \<in> set xs" for q using that i(1,4) by (auto simp: xs_def in_set_conv_nth)
  have p: "p \<in> set pids" using sp by simp
  have hr: "has_room b (view bp p)" using i(2,3) by simp
  have a: "allocated bp q \<and> q \<notin> touched bp" if "q \<in> set (xs @ p # ys)" for q using H(5) that unfolding sp[symmetric] by blast
  let ?d = "with_tuple b (free_slot (slots (view bp p))) (view bp p)"
  have "\<exists>bp'. insert_loop r (first_page_id h) None bp = Some (Inl (inserted_row r p (view bp p), bp')) \<and> kept bp bp' ((view bp)(p := ?d))"
    by (rule insert_loop_found[OF H(1) H(2)[unfolded sp] assms(2,3) hr]) (erule x, erule a)
  then obtain bp' where b: "insert_loop r (first_page_id h) None bp = Some (Inl (inserted_row r p (view bp p), bp'))"
    "kept bp bp' ((view bp)(p := ?d))" by (elim exE conjE) (rule that; assumption)
  have ok: "table_page_ok (view bp p)" using H(6)[OF p] by blast
  have rm: "32 + 8 * tuple_count (view bp p) + length b \<le> free_ptr (view bp p)" using i(2,3) by (simp add: has_room_def)
  have nb: "b \<noteq> []" using assms(3) unfolding row_fits_def by blast
  have fs: "free_slot (slots (view bp p)) \<le> tuple_count (view bp p)" using free_slot_bounds(1)[of "slots (view bp p)"] by simp
  have d: "table_page_ok ?d" "slots ?d = add_tuple b (slots (view bp p))" "page_links ?d = page_links (view bp p)"
    using with_tuple_ok[OF ok refl rm nb] with_tuple_effect[OF ok fs rm] by simp_all
  note U = heap_inv_update[OF assms(1) b(2) d(1,3)]
  have "heap_slots bp' pids = map (\<lambda>(q, ss). (q, if q = p then add_tuple b ss else ss)) (heap_slots bp pids)"
    unfolding U(2) d(2) by (simp add: heap_slots_def)
  moreover have "TableHeap_InsertTuple h r bp = Some (True, inserted_row r p (view bp p), bp')"
    by (simp add: TableHeap_InsertTuple_def b(1))
  ultimately show ?thesis using U(1) p d(1,2) b(2) by (intro exI[of _ bp'] exI[of _ ?d] conjI)
qed

lemma heap_inv_grown:
  assumes "heap_inv bp first pids" and g: "grown bp bp' new ((view bp)(last pids := d, new := e))"
    and d: "table_page_ok d" "slots d = slots (view bp (last pids))" "GetTablePageId d = GetTablePageId (view bp (last pids))" "GetNextPageId d = Some new"
    and e: "table_page_ok e" "GetTablePageId e = Some new" "GetNextPageId e = Some INVALID_PAGE_ID"
  shows "heap_inv bp' first (pids @ [new])" "heap_slots bp' (pids @ [new]) = heap_slots bp pids @ [(new, slots e)]"
proof -
  note H = heap_invD[OF assms(1)]
  have nn: "new \<notin> set pids" "\<not> allocated bp new" using g H(5) by (auto simp: grown_def)
  have v: "view bp' q = ((view bp)(last pids := d, new := e)) q" if "q \<in> set (pids @ [new])" for q
    using g H(5) that unfolding grown_def by auto
  have "chain ((view bp)(last pids := d, new := e)) first (pids @ [new])" by (rule chain_extend[OF H(2,4,3) nn(1) d(1,3,4) e])
  then have c: "chain (view bp') first (pids @ [new])"
    using chain_cong[of "pids @ [new]" "view bp'" "(view bp)(last pids := d, new := e)" first] v by blast
  have "new \<notin> touched bp" using unallocated_unpinned[OF H(1) nn(2)] by (simp add: touched_def)
  then have "allocated bp' q \<and> q \<notin> touched bp'" if "q \<in> set (pids @ [new])" for q
    using that g H(5) by (auto simp: grown_def)
  then show "heap_inv bp' first (pids @ [new])" using g c H(3) nn(1) by (simp add: heap_inv_def grown_def)
  have "slots (view bp' q) = slots (view bp q)" if "q \<in> set pids" for q using v[of q] that nn(1) d(2) by auto
  then show "heap_slots bp' (pids @ [new]) = heap_slots bp pids @ [(new, slots e)]" using v[of new] by (simp add: heap_slots_def)
qed

lemma heap_insert_full:
  assumes inv: "heap_inv bp (first_page_id h) pids" and "spare bp" and fits: "row_fits r b" and f: "find (\<lambda>q. has_room b (view bp q)) pids = None"
    and room: "\<exists>q. logical_ok q \<and> \<not> allocated bp q" and ne: "length pids < length (free_list bp)"
  shows "\<exists>new d e bp'. TableHeap_InsertTuple h r bp = Some (length b \<le> SIZE_MAX_ROW,
      if length b \<le> SIZE_MAX_ROW then r\<lparr>row_id := \<lparr>rid_page = new, rid_slot = 0\<rparr>\<rparr> else r, bp') \<and>
    grown bp bp' new ((view bp)(last pids := d, new := e)) \<and> table_page_ok d \<and> slots d = slots (view bp (last pids)) \<and>
    heap_inv bp' (first_page_id h) (pids @ [new]) \<and>
    heap_slots bp' (pids @ [new]) = heap_slots bp pids @ [(new, if length b \<le> SIZE_MAX_ROW then [Some (False, b)] else [])]"
proof -
  note H = heap_invD[OF inv]
  have "\<exists>pg bp1. insert_loop r (first_page_id h) None bp = Some (Inr (pg, bp1)) \<and> kept bp bp1 (view bp) \<and>
      (if pids = [] then pg = None else pg \<noteq> None \<and> pg = page_table bp1 (last pids)) \<and> length (free_list bp) \<le> length (free_list bp1) + length pids"
    by (rule insert_loop_full[OF H(1,2) assms(2) fits]) (use H(5) f in \<open>auto simp: find_None_iff\<close>)
  then obtain pg bp1 where l: "insert_loop r (first_page_id h) None bp = Some (Inr (pg, bp1))" "kept bp bp1 (view bp)"
    "if pids = [] then pg = None else pg \<noteq> None \<and> pg = page_table bp1 (last pids)" "length (free_list bp) \<le> length (free_list bp1) + length pids"
    by (elim exE conjE) (rule that; assumption)
  have ls: "last pids \<in> set pids" using H(4) by simp
  obtain f1 where pg: "pg = Some f1" "page_table bp1 (last pids) = Some f1" using l(3) H(4) by auto
  have inv1: "pool_inv bp1" "allocated bp1 = allocated bp" using l(2) by (simp_all add: kept_def)
  have H1: "heap_inv bp1 (first_page_id h) pids" "heap_slots bp1 pids = heap_slots bp pids" by (rule heap_inv_kept[OF inv l(2)])+
  have a1: "allocated bp1 (last pids)" "table_page_ok (view bp1 (last pids))" using heap_invD(5,6)[OF H1(1) ls] by simp_all
  have rm: "\<exists>q. logical_ok q \<and> \<not> allocated bp1 q" using room inv1(2) by simp
  have ne1: "free_list bp1 \<noteq> []" using l(4) ne by auto
  obtain new d e r' bp' where x: "insert_new_page r (Some f1) bp1 = Some (length b \<le> SIZE_MAX_ROW, r', bp')"
    "grown bp1 bp' new ((view bp1)(last pids := d, new := e))"
    "r' = (if length b \<le> SIZE_MAX_ROW then r\<lparr>row_id := \<lparr>rid_page = new, rid_slot = 0\<rparr>\<rparr> else r)"
    "table_page_ok d" "slots d = slots (view bp1 (last pids))" "GetTablePageId d = GetTablePageId (view bp1 (last pids))" "GetNextPageId d = Some new"
    "table_page_ok e" "slots e = (if length b \<le> SIZE_MAX_ROW then [Some (False, b)] else [])" "GetTablePageId e = Some new"
    "GetNextPageId e = Some INVALID_PAGE_ID"
    using insert_new_page_ok[OF inv1(1) pg(2) a1(2) fits a1(1) rm ne1] by (elim exE conjE) (rule that; assumption)
  have run: "TableHeap_InsertTuple h r bp = Some (length b \<le> SIZE_MAX_ROW,
      if length b \<le> SIZE_MAX_ROW then r\<lparr>row_id := \<lparr>rid_page = new, rid_slot = 0\<rparr>\<rparr> else r, bp')"
    using x(1,3) by (simp add: TableHeap_InsertTuple_def l(1) pg(1))
  have v: "view bp1 q = view bp q" if "allocated bp q" for q using l(2) that by (simp add: kept_def)
  have g: "grown bp bp' new ((view bp)(last pids := d, new := e))" using x(2) l(2) v unfolding grown_def kept_def by auto
  have "slots d = slots (view bp (last pids))" using x(5) v H(5)[OF ls] by simp
  with run g x(4) heap_inv_grown[OF H1(1) x(2,4-8,10,11)] show ?thesis
    unfolding H1(2) x(9) by (intro exI[of _ new] exI[of _ d] exI[of _ e] exI[of _ bp'] conjI)
qed

section \<open>The other operations on rows\<close>

lemma heap_get:
  assumes "heap_inv bp first pids" and "spare bp" and q: "rid_page (row_id row) \<in> set pids"
    and get: "TablePage_GetTuple row (heap_schema h) (view bp (rid_page (row_id row))) = Some (found, row')"
  shows "\<exists>bp'. TableHeap_GetTuple h row bp = Some (found, row', bp') \<and> kept bp bp' (view bp)"
proof -
  note H = heap_invD[OF assms(1)]
  have a: "allocated bp (rid_page (row_id row))" "rid_page (row_id row) \<notin> touched bp" using H(5)[OF q] by simp_all
  obtain f bp1 bp2 where v: "FetchPage bp (rid_page (row_id row)) = Some (f, bp1)" "load_page bp1 f = Some (view bp (rid_page (row_id row)))"
    "GetPageId bp1 f = Some (rid_page (row_id row))" "UnpinPage bp1 (rid_page (row_id row)) False = Some (True, bp2)" "kept bp bp2 (view bp)"
    by (rule visit_page_read[OF H(1) a(1) assms(2) a(2)])
  then show ?thesis using get by (simp add: TableHeap_GetTuple_def)
qed

text \<open>The operations that change one page of the heap.\<close>

definition page_changed :: "buffer_pool \<Rightarrow> buffer_pool \<Rightarrow> page_id_t \<Rightarrow> slot list \<Rightarrow> bool" where
  "page_changed bp bp' p ss \<longleftrightarrow> (\<exists>d. kept bp bp' ((view bp)(p := d)) \<and> table_page_ok d \<and> page_links d = page_links (view bp p) \<and> slots d = ss) \<and>
     length (free_list bp) \<le> Suc (length (free_list bp'))"

lemma page_changed_heap:
  assumes "heap_inv bp first pids" and "page_changed bp bp' p ss"
  shows "heap_inv bp' first pids" "heap_slots bp' pids = map (\<lambda>(q, ts). (q, if q = p then ss else ts)) (heap_slots bp pids)" "spare bp' = spare bp"
    "p \<in> set pids \<Longrightarrow> slots (view bp' p) = ss"
proof -
  obtain d where d: "kept bp bp' ((view bp)(p := d))" "table_page_ok d" "page_links d = page_links (view bp p)" "slots d = ss"
    using assms(2) unfolding page_changed_def by (elim exE conjE) (rule that; assumption)
  show "heap_inv bp' first pids" "heap_slots bp' pids = map (\<lambda>(q, ts). (q, if q = p then ss else ts)) (heap_slots bp pids)" "spare bp' = spare bp"
    using heap_inv_update[OF assms(1) d(1-3)] kept_spare[OF d(1)] unfolding d(4) by blast+
  show "slots (view bp' p) = ss" if "p \<in> set pids" using d(1,4) heap_invD(5)[OF assms(1) that] by (simp add: kept_def)
qed

lemma visit_change:
  assumes "heap_inv bp first pids" and "spare bp" and q: "p \<in> set pids" and d: "table_page_ok d" "page_links d = page_links (view bp p)"
  obtains f bp1 bp2 bp3 where "FetchPage bp p = Some (f, bp1)" "load_page bp1 f = Some (view bp p)" "store_page bp1 f d = Some bp2"
    "load_page bp2 f = Some d" "GetTablePageId d = Some p" "GetPageId bp2 f = Some p" "UnpinPage bp2 p True = Some (True, bp3)" "page_changed bp bp3 p (slots d)"
proof -
  note H = heap_invD[OF assms(1)]
  have a: "allocated bp p" using H(5)[OF q] by simp
  obtain f bp1 bp2 bp3 where v: "FetchPage bp p = Some (f, bp1)" "load_page bp1 f = Some (view bp p)" "store_page bp1 f d = Some bp2"
    "load_page bp2 f = Some d" "GetPageId bp2 f = Some p" "UnpinPage bp2 p True = Some (True, bp3)" "kept bp bp3 ((view bp)(p := d))"
    "length (free_list bp) \<le> Suc (length (free_list bp3))"
    by (rule visit_page[OF H(1) a assms(2) table_page_okD(1)[OF d(1)] disjI1[OF TrueI]])
  moreover have "page_changed bp bp3 p (slots d)" unfolding page_changed_def using v(7,8) d by blast
  moreover have "GetTablePageId d = Some p"
    using page_links_ids(1)[OF d(2)] H(6)[OF q] table_page_okD(1)[OF d(1)] table_page_okD(1) by auto
  ultimately show ?thesis using that by blast
qed

lemma heap_mark:
  assumes "heap_inv bp first pids" and "spare bp" and q: "rid_page rid \<in> set pids"
  shows "\<exists>bp'. TableHeap_MarkDelete rid bp = Some (True, bp') \<and>
    page_changed bp bp' (rid_page rid) (snd (mark_slot (unat (rid_slot rid)) (slots (view bp (rid_page rid)))))"
proof -
  have ok: "table_page_ok (view bp (rid_page rid))" using heap_invD(6)[OF assms(1) q] by blast
  obtain m d where d: "TablePage_MarkDelete rid (view bp (rid_page rid)) = Some (m, d)" "table_page_ok d" "page_links d = page_links (view bp (rid_page rid))"
    "(m, slots d) = mark_slot (unat (rid_slot rid)) (slots (view bp (rid_page rid)))" using MarkDelete_refines[OF ok, of rid] by blast
  obtain f bp1 bp2 bp3 where v: "FetchPage bp (rid_page rid) = Some (f, bp1)" "load_page bp1 f = Some (view bp (rid_page rid))"
    "store_page bp1 f d = Some bp2" "load_page bp2 f = Some d" "GetTablePageId d = Some (rid_page rid)"
    "UnpinPage bp2 (rid_page rid) True = Some (True, bp3)" "page_changed bp bp3 (rid_page rid) (slots d)"
    by (rule visit_change[OF assms(1,2) q d(2,3)])
  have "slots d = snd (mark_slot (unat (rid_slot rid)) (slots (view bp (rid_page rid))))" using d(4) by (metis snd_conv)
  then show ?thesis using v d(1) by (simp add: TableHeap_MarkDelete_def)
qed

lemma heap_apply:
  assumes "heap_inv bp first pids" and "spare bp" and q: "rid_page rid \<in> set pids" and i: "i = unat (rid_slot rid)"
    "i < length (slots (view bp (rid_page rid)))" "slots (view bp (rid_page rid)) ! i \<noteq> None"
  shows "\<exists>bp'. TableHeap_ApplyDelete rid bp = Some bp' \<and> page_changed bp bp' (rid_page rid) ((slots (view bp (rid_page rid)))[i := None])"
proof -
  have ok: "table_page_ok (view bp (rid_page rid))" using heap_invD(6)[OF assms(1) q] by blast
  obtain d where d: "TablePage_ApplyDelete rid (view bp (rid_page rid)) = Some d" "table_page_ok d" "page_links d = page_links (view bp (rid_page rid))"
    "slots d = (slots (view bp (rid_page rid)))[i := None]" using ApplyDelete_refines[OF ok, of rid] i by auto
  obtain f bp1 bp2 bp3 where v: "FetchPage bp (rid_page rid) = Some (f, bp1)" "load_page bp1 f = Some (view bp (rid_page rid))"
    "store_page bp1 f d = Some bp2" "GetPageId bp2 f = Some (rid_page rid)"
    "UnpinPage bp2 (rid_page rid) True = Some (True, bp3)" "page_changed bp bp3 (rid_page rid) (slots d)"
    by (rule visit_change[OF assms(1,2) q d(2,3)])
  then show ?thesis using d(1,4) by (simp add: TableHeap_ApplyDelete_def)
qed

lemma heap_rollback:
  assumes "heap_inv bp first pids" and "spare bp" and q: "rid_page rid \<in> set pids" and i: "i = unat (rid_slot rid)"
    "i < length (slots (view bp (rid_page rid)))"
  shows "\<exists>bp'. TableHeap_RollbackDelete rid bp = Some bp' \<and> page_changed bp bp' (rid_page rid) (unmark_slot i (slots (view bp (rid_page rid))))"
proof -
  have ok: "table_page_ok (view bp (rid_page rid))" using heap_invD(6)[OF assms(1) q] by blast
  obtain d where d: "TablePage_RollbackDelete rid (view bp (rid_page rid)) = Some d" "table_page_ok d" "page_links d = page_links (view bp (rid_page rid))"
    "slots d = unmark_slot i (slots (view bp (rid_page rid)))" using RollbackDelete_refines[OF ok, of rid] i by auto
  obtain f bp1 bp2 bp3 where v: "FetchPage bp (rid_page rid) = Some (f, bp1)" "load_page bp1 f = Some (view bp (rid_page rid))"
    "store_page bp1 f d = Some bp2" "load_page bp2 f = Some d" "GetTablePageId d = Some (rid_page rid)"
    "UnpinPage bp2 (rid_page rid) True = Some (True, bp3)" "page_changed bp bp3 (rid_page rid) (slots d)"
    by (rule visit_change[OF assms(1,2) q d(2,3)])
  then show ?thesis using d(1,4) by (simp add: TableHeap_RollbackDelete_def)
qed

section \<open>Creating a heap\<close>

lemma heap_create_ok:
  assumes inv: "pool_inv bp" and room: "\<exists>q. logical_ok q \<and> \<not> allocated bp q" and ne: "free_list bp \<noteq> []"
  shows "\<exists>new bp'. TableHeap_create schema bp = Some (\<lparr>first_page_id = new, heap_schema = schema\<rparr>, bp') \<and> heap_inv bp' new [new] \<and>
    heap_slots bp' [new] = [(new, [])] \<and> \<not> allocated bp new \<and> allocated bp' = (\<lambda>q. q = new \<or> allocated bp q) \<and> pins bp' = pins bp \<and>
    touched bp' \<subseteq> touched bp \<and> pool_size bp' = pool_size bp \<and> (\<forall>q. allocated bp q \<longrightarrow> view bp' q = view bp q) \<and>
    free_ptr (view bp' new) = PAGE_SIZE"
proof -
  obtain new g bp1 where n: "NewPage bp = Some (Some (new, g), bp1)" "pool_inv bp1" "\<not> allocated bp new"
    "allocated bp1 = (\<lambda>q. q = new \<or> allocated bp q)"
    "\<forall>q. allocated bp1 q \<longrightarrow> view bp1 q = (if q = new then replicate PAGE_SIZE 0 else view bp q)"
    "pins bp1 = (pins bp)(new := 1)" "touched bp1 = touched bp" "pool_size bp1 = pool_size bp"
    using pool_new_page[OF inv disk_room[OF room] ne] by (elim exE conjE) (rule that; assumption)
  have ai: "int32_range new" by (rule allocated_int32[of bp1]) (simp add: n(4))
  have ir: "int32_range INVALID_PAGE_ID" by (simp add: int32_range_def INVALID_PAGE_ID_def)
  have nn: "pins bp new = 0" using unallocated_unpinned[OF inv n(3)] by blast
  have a1: "allocated bp1 new" "pins bp1 new = 1" "view bp1 new = replicate PAGE_SIZE 0" using n(4-6) by simp_all
  obtain e where e: "TablePage_Init new INVALID_PAGE_ID (replicate PAGE_SIZE 0) = Some e" "table_page_ok e" "slots e = []"
    "GetTablePageId e = Some new" "GetNextPageId e = Some INVALID_PAGE_ID" "free_ptr e = PAGE_SIZE"
    using Init_ok[OF length_replicate[of PAGE_SIZE "0 :: byte"] ai ir] by (elim exE conjE) (rule that; assumption)
  obtain f bp2 bp3 bp4 bp5 where t: "FetchPage bp1 new = Some (f, bp2)" "load_page bp2 f = Some (view bp1 new)" "store_page bp2 f e = Some bp3"
    "UnpinPage bp3 new True = Some (True, bp4)" "UnpinPage bp4 new True = Some (True, bp5)"
    "pool_inv bp5" "allocated bp5 = allocated bp1" "\<forall>q. allocated bp1 q \<longrightarrow> view bp5 q = (if q = new then e else view bp1 q)"
    "pins bp5 = (pins bp1)(new := 0)" "touched bp5 = touched bp1 - {new}" "pool_size bp5 = pool_size bp1"
    by (rule fill_new_page[OF n(2) a1(1,2) table_page_okD(1)[OF e(2)]])
  have "TableHeap_create schema bp = Some (\<lparr>first_page_id = new, heap_schema = schema\<rparr>, bp5)"
    by (simp add: TableHeap_create_def n(1) t(1-5) a1(3) e(1))
  moreover have "view bp5 new = e" using t(8) n(4) by simp
  then have "heap_inv bp5 new [new]" "heap_slots bp5 [new] = [(new, [])]" "free_ptr (view bp5 new) = PAGE_SIZE" using t(6,7,10) n(4) e by (simp_all add: heap_inv_def heap_slots_def)
  moreover have "pins bp5 = pins bp" using t(9) n(6) nn by (simp add: fun_eq_iff)
  moreover have "view bp5 q = view bp q" if "allocated bp q" for q using that t(8) n(3-5) by (cases "q = new") simp_all
  ultimately show ?thesis using t(7,10,11) n(3,4,7,8) by (intro exI[of _ new] exI[of _ bp5]) auto
qed

section \<open>Updating a row\<close>

text \<open>\<open>UpdateTuple\<close> keeps its page pinned while it deletes and inserts.\<close>

lemma hold_page:
  assumes inv: "heap_inv bp first pids" and room: "Suc (card {q. 0 < pins bp q}) < pool_size bp" and p: "p \<in> set pids"
  obtains f bp1 where "FetchPage bp p = Some (f, bp1)" "load_page bp1 f = Some (view bp p)" "heap_inv bp1 first pids" "spare bp1"
    "allocated bp1 = allocated bp" "\<forall>q. allocated bp q \<longrightarrow> view bp1 q = view bp q" "pins bp1 = (pins bp)(p := Suc (pins bp p))"
    "page_table bp1 p = Some f" "length (free_list bp) \<le> Suc (length (free_list bp1))" "pool_size bp1 = pool_size bp"
proof -
  note H = heap_invD[OF inv]
  have a: "allocated bp p" using H(5)[OF p] by simp
  have r: "0 < pins bp p \<or> card {q. 0 < pins bp q} < pool_size bp" using room by simp
  obtain f bp1 where h: "FetchPage bp p = Some (f, bp1)" "pool_inv bp1" "allocated bp1 = allocated bp"
    "\<forall>q. allocated bp q \<longrightarrow> view bp1 q = view bp q" "pins bp1 = (pins bp)(p := Suc (pins bp p))" "touched bp1 = touched bp"
    "pool_size bp1 = pool_size bp" "page_table bp1 p = Some f"
    using pool_fetch_law[OF H(1) a r] by (elim exE conjE) (rule that; assumption)
  have "chain (view bp1) first pids" using H(2) chain_cong[of pids "view bp1" "view bp" first] H(5) h(4) by blast
  then have "heap_inv bp1 first pids" using h H by (simp add: heap_inv_def)
  moreover have "card {q. 0 < pins bp1 q} \<le> Suc (card {q. 0 < pins bp q})"
  proof -
    have "finite {q. 0 < pins bp q}" using pinned_finite H(1) by (simp add: pool_inv_def)
    moreover have "{q. 0 < pins bp1 q} \<subseteq> insert p {q. 0 < pins bp q}" using h(5) by auto
    ultimately have "card {q. 0 < pins bp1 q} \<le> card (insert p {q. 0 < pins bp q})" by (intro card_mono) auto
    then show ?thesis using card_insert_le_m1[of "Suc (card {q. 0 < pins bp q})" "{q. 0 < pins bp q}" p] by simp
  qed
  then have "spare bp1" using room h(7) by (simp add: spare_def)
  moreover have "load_page bp1 f = Some (view bp p)" using pool_load_law[OF h(2,8)] h(4) a by simp
  ultimately show ?thesis using that[OF h(1) _ _ _ h(3,4,5,8) FetchPage_free_list[OF h(1)] h(7)] by blast
qed

lemma release_page:
  assumes inv: "heap_inv bp first pids" and p: "p \<in> set pids" "0 < pins bp p" "page_table bp p = Some f"
  obtains bp' where "GetPageId bp f = Some p" "UnpinPage bp p dirty = Some (True, bp')" "heap_inv bp' first pids"
    "heap_slots bp' pids = heap_slots bp pids" "pins bp' = (pins bp)(p := pins bp p - 1)" "pool_size bp' = pool_size bp"
proof -
  note H = heap_invD[OF inv]
  have a: "allocated bp p" "dirty \<or> p \<notin> touched bp" using H(5)[OF p(1)] by simp_all
  obtain bp' where u: "UnpinPage bp p dirty = Some (True, bp')" "pool_inv bp'" "allocated bp' = allocated bp"
    "\<forall>q. allocated bp q \<longrightarrow> view bp' q = view bp q" "pins bp' = (pins bp)(p := pins bp p - 1)"
    "touched bp' = (if dirty then touched bp - {p} else touched bp)" "pool_size bp' = pool_size bp"
    using pool_unpin_law[OF H(1) p(2) a(2)] by (elim exE conjE) (rule that; assumption)
  have "chain (view bp') first pids" using H(2) chain_cong[of pids "view bp'" "view bp" first] H(5) u(4) by blast
  then have "heap_inv bp' first pids" using u H by (auto simp: heap_inv_def)
  moreover have "heap_slots bp' pids = heap_slots bp pids" using u(4) H(5) by (simp add: heap_slots_def)
  ultimately show ?thesis using that[OF _ u(1) _ _ u(5,7)] pool_load_law[OF H(1) p(3)] by blast
qed

text \<open>Writing the page back unchanged while it is pinned.\<close>

lemma store_held:
  assumes inv: "heap_inv bp first pids" and p: "p \<in> set pids" "0 < pins bp p" "page_table bp p = Some f"
  obtains bp' where "store_page bp f (view bp p) = Some bp'" "kept bp bp' (view bp)" "page_table bp' p = Some f" "free_list bp' = free_list bp"
proof -
  note H = heap_invD[OF inv]
  have l: "length (view bp p) = PAGE_SIZE" using H(6)[OF p(1)] table_page_okD(1) by blast
  obtain bp' where s: "store_page bp f (view bp p) = Some bp'" "pool_inv bp'" "allocated bp' = allocated bp"
    "\<forall>q. allocated bp q \<longrightarrow> view bp' q = (if q = p then view bp p else view bp q)" "pins bp' = pins bp"
    "view bp p = view bp p \<longrightarrow> touched bp' = touched bp" "pool_size bp' = pool_size bp" "page_table bp' = page_table bp"
    using pool_store_law[OF H(1) p(2,3) l] by (elim exE conjE) (rule that; assumption)
  have "free_list bp' = free_list bp" using s(1) by (auto simp: store_page_def split: bind_splits)
  moreover have "kept bp bp' (view bp)" using s(2-8) by (simp add: kept_def)
  ultimately show ?thesis using that[OF s(1)] s(8) p(3) by simp
qed

lemma heap_update_in_place:
  assumes inv: "heap_inv bp (first_page_id h) pids" and room: "Suc (card {q. 0 < pins bp q}) < pool_size bp" and p: "rid_page rid \<in> set pids"
    and r: "row_fits r b" and i: "i = unat (rid_slot rid)" "ss = slots (view bp (rid_page rid))" "i < length ss" "ss ! i = Some (False, row_bytes fs)"
    and fs: "row_ok (heap_schema h) fs"
    and fits: "24 + 8 * tuple_count (view bp (rid_page rid)) + length b \<le> free_ptr (view bp (rid_page rid)) + length (row_bytes fs)"
  shows "\<exists>bp'. TableHeap_UpdateTuple h r rid bp = Some (True, r\<lparr>row_id := rid\<rparr>, bp') \<and> heap_inv bp' (first_page_id h) pids \<and>
    heap_slots bp' pids = map (\<lambda>(q, ts). (q, if q = rid_page rid then ts[i := Some (False, b)] else ts)) (heap_slots bp pids) \<and> pins bp' = pins bp"
proof -
  let ?p = "rid_page rid" and ?old = "\<lparr>row_id = rid, row_fields = []\<rparr>"
  note H = heap_invD[OF inv]
  have ok: "table_page_ok (view bp ?p)" using H(6)[OF p] by blast
  have a: "allocated bp ?p" using H(5)[OF p] by simp
  have rid: "RowId_Get rid \<noteq> RowId_Get INVALID_ROWID" by (rule RowId_Get_valid[OF allocated_int32[OF a] allocated_not_INVALID[OF a]])
  have b: "list_all field_ok (row_fields r)" "b = row_bytes (row_fields r)" "b \<noteq> []" using r unfolding row_fits_def by blast+
  have get: "TablePage_GetTuple ?old (heap_schema h) (view bp ?p) = Some (True, \<lparr>row_id = rid, row_fields = fs\<rparr>)"
    using GetTuple_spec(1)[OF ok, of ?old fs "heap_schema h"] rid i fs by simp
  obtain d where d: "TablePage_UpdateTuple r \<lparr>row_id = rid, row_fields = fs\<rparr> (heap_schema h) (view bp ?p) =
      Some (1, \<lparr>row_id = rid, row_fields = fs\<rparr>, d)" "table_page_ok d" "page_links d = page_links (view bp ?p)" "slots d = ss[i := Some (False, b)]"
    using UpdateTuple_refines[OF ok _ b, of "\<lparr>row_id = rid, row_fields = fs\<rparr>" i fs "heap_schema h"] rid i fs fits by auto
  obtain f bp1 bp2 bp3 where v: "FetchPage bp ?p = Some (f, bp1)" "load_page bp1 f = Some (view bp ?p)"
    "store_page bp1 f d = Some bp2" "GetPageId bp2 f = Some ?p" "UnpinPage bp2 ?p True = Some (True, bp3)" "page_changed bp bp3 ?p (slots d)"
    by (rule visit_change[OF inv _ p d(2,3)]) (use room in \<open>simp add: spare_def\<close>)
  have run: "TableHeap_UpdateTuple h r rid bp = Some (True, r\<lparr>row_id := rid\<rparr>, bp3)"
    by (simp add: TableHeap_UpdateTuple_def v get d(1))
  have "heap_slots bp3 pids = map (\<lambda>(q, ts). (q, if q = ?p then ts[i := Some (False, b)] else ts)) (heap_slots bp pids)"
    unfolding page_changed_heap(2)[OF inv v(6)] d(4) i(2) by (simp add: heap_slots_def)
  moreover have "pins bp3 = pins bp" using v(6) by (auto simp: page_changed_def kept_def)
  ultimately show ?thesis using run page_changed_heap(1)[OF inv v(6)] by (intro exI[of _ bp3] conjI)
qed

lemma heap_update_rejected:
  assumes inv: "heap_inv bp (first_page_id h) pids" and room: "spare bp" and p: "rid_page rid \<in> set pids" and r: "row_fits r b"
    and i: "i = unat (rid_slot rid)" "ss = slots (view bp (rid_page rid))" "\<nexists>c. i < length ss \<and> ss ! i = Some (False, c)"
  shows "\<exists>bp'. TableHeap_UpdateTuple h r rid bp = Some (False, r, bp') \<and> kept bp bp' (view bp)"
proof -
  let ?p = "rid_page rid" and ?old = "\<lparr>row_id = rid, row_fields = []\<rparr>"
  note H = heap_invD[OF inv]
  have ok: "table_page_ok (view bp ?p)" using H(6)[OF p] by blast
  have a: "allocated bp ?p" "?p \<notin> touched bp" using H(5)[OF p] by simp_all
  have rid: "RowId_Get rid \<noteq> RowId_Get INVALID_ROWID" by (rule RowId_Get_valid[OF allocated_int32[OF a(1)] allocated_not_INVALID[OF a(1)]])
  have b: "list_all field_ok (row_fields r)" "b = row_bytes (row_fields r)" "b \<noteq> []" "length b < 2 ^ 32" using r unfolding row_fits_def by blast+
  have get: "TablePage_GetTuple ?old (heap_schema h) (view bp ?p) = Some (False, ?old)"
    by (rule GetTuple_spec(2)[OF ok]) (use rid i in auto)
  have up: "TablePage_UpdateTuple r ?old (heap_schema h) (view bp ?p) = Some (-1, ?old, view bp ?p)"
    by (rule UpdateTuple_rejects(1)[OF ok _ b]) (use rid i in auto)
  obtain f bp1 bp2 bp3 where v: "FetchPage bp ?p = Some (f, bp1)" "load_page bp1 f = Some (view bp ?p)" "store_page bp1 f (view bp ?p) = Some bp2"
    "GetPageId bp2 f = Some ?p" "UnpinPage bp2 ?p False = Some (True, bp3)" "kept bp bp3 ((view bp)(?p := view bp ?p))"
    by (rule visit_page[OF H(1) a(1) room table_page_okD(1)[OF ok] disjI2[OF conjI[OF refl a(2)]]])
  then show ?thesis by (simp add: TableHeap_UpdateTuple_def get up)
qed

text \<open>A row that has outgrown its page: the old tuple is deleted, the new one is inserted somewhere else.\<close>

definition without_slot :: "page_id_t \<Rightarrow> nat \<Rightarrow> (page_id_t \<times> slot list) list \<Rightarrow> (page_id_t \<times> slot list) list" where
  "without_slot p i H = map (\<lambda>(q, ts). (q, if q = p then ts[i := None] else ts)) H"

definition with_row :: "page_id_t \<Rightarrow> byte list \<Rightarrow> (page_id_t \<times> slot list) list \<Rightarrow> (page_id_t \<times> slot list) list" where
  "with_row p b H = map (\<lambda>(q, ts). (q, if q = p then add_tuple b ts else ts)) H"

lemma has_room_bound: "table_page_ok p \<Longrightarrow> has_room b p \<Longrightarrow> length b \<le> SIZE_MAX_ROW"
  using table_page_okD(3)[of p] by (simp add: has_room_def SIZE_MAX_ROW_def SIZE_TABLE_PAGE_HEADER_def SIZE_TUPLE_def PAGE_SIZE_def)

lemma heap_insert_any:
  assumes inv: "heap_inv bp (first_page_id h) pids" and sp: "spare bp" and fits: "row_fits r b"
    and room: "\<exists>q. logical_ok q \<and> \<not> allocated bp q" and ne: "length pids < length (free_list bp)"
  shows "\<exists>p i pids' bp'. TableHeap_InsertTuple h r bp =
      Some (length b \<le> SIZE_MAX_ROW, if length b \<le> SIZE_MAX_ROW then r\<lparr>row_id := \<lparr>rid_page = p, rid_slot = of_nat i\<rparr>\<rparr> else r, bp') \<and>
    heap_inv bp' (first_page_id h) pids' \<and> p \<in> set pids' \<and> set pids \<subseteq> set pids' \<and> pins bp' = pins bp \<and> pool_size bp' = pool_size bp \<and>
    (\<forall>q. 0 < pins bp q \<longrightarrow> page_table bp' q = page_table bp q) \<and>
    (if length b \<le> SIZE_MAX_ROW
     then pids' = pids \<and> p \<in> set pids \<and> i = free_slot (slots (view bp p)) \<and> heap_slots bp' pids' = with_row p b (heap_slots bp pids) \<or>
       pids' = pids @ [p] \<and> i = 0 \<and> heap_slots bp' pids' = heap_slots bp pids @ [(p, [Some (False, b)])]
     else pids' = pids @ [p] \<and> heap_slots bp' pids' = heap_slots bp pids @ [(p, [])])"
proof (cases "find (\<lambda>q. has_room b (view bp q)) pids")
  case (Some p)
  obtain bp' d where x: "TableHeap_InsertTuple h r bp = Some (True, inserted_row r p (view bp p), bp')" "kept bp bp' ((view bp)(p := d))"
    "heap_inv bp' (first_page_id h) pids" "p \<in> set pids"
    "heap_slots bp' pids = map (\<lambda>(q, ss). (q, if q = p then add_tuple b ss else ss)) (heap_slots bp pids)"
    using heap_insert_found[OF inv sp fits Some] by (elim exE conjE) (rule that; assumption)
  have "length b \<le> SIZE_MAX_ROW"
    using Some has_room_bound[of "view bp p" b] heap_invD(6)[OF inv x(4)] by (auto simp: find_Some_iff)
  then show ?thesis using x
    by (intro exI[of _ p] exI[of _ "free_slot (slots (view bp p))"] exI[of _ pids] exI[of _ bp'])
      (simp add: inserted_row_def with_row_def kept_def)
next
  case None
  obtain new d e bp' where x: "TableHeap_InsertTuple h r bp = Some (length b \<le> SIZE_MAX_ROW,
      if length b \<le> SIZE_MAX_ROW then r\<lparr>row_id := \<lparr>rid_page = new, rid_slot = 0\<rparr>\<rparr> else r, bp')"
    "grown bp bp' new ((view bp)(last pids := d, new := e))" "heap_inv bp' (first_page_id h) (pids @ [new])"
    "heap_slots bp' (pids @ [new]) = heap_slots bp pids @ [(new, if length b \<le> SIZE_MAX_ROW then [Some (False, b)] else [])]"
    using heap_insert_full[OF inv sp fits None room ne] by (elim exE conjE) (rule that; assumption)
  then show ?thesis
    by (intro exI[of _ new] exI[of _ 0] exI[of _ "pids @ [new]"] exI[of _ bp']) (simp add: grown_def subset_insertI)
qed

lemma heap_update_moved:
  assumes inv: "heap_inv bp (first_page_id h) pids" and room: "Suc (card {q. 0 < pins bp q}) < pool_size bp" and p: "rid_page rid \<in> set pids"
    and r: "row_fits r b" and i: "i = unat (rid_slot rid)" "ss = slots (view bp (rid_page rid))" "i < length ss" "ss ! i = Some (False, row_bytes fs)"
    and fs: "row_ok (heap_schema h) fs"
    and full: "free_ptr (view bp (rid_page rid)) + length (row_bytes fs) < 24 + 8 * tuple_count (view bp (rid_page rid)) + length b"
    and disk: "\<exists>q. logical_ok q \<and> \<not> allocated bp q" and ne: "length pids + 3 < length (free_list bp)"
  shows "\<exists>p k pids' bp'. TableHeap_UpdateTuple h r rid bp =
      Some (True, if length b \<le> SIZE_MAX_ROW then r\<lparr>row_id := \<lparr>rid_page = p, rid_slot = of_nat k\<rparr>\<rparr> else r, bp') \<and>
    heap_inv bp' (first_page_id h) pids' \<and> pins bp' = pins bp \<and> pool_size bp' = pool_size bp \<and>
    (if length b \<le> SIZE_MAX_ROW
     then p \<in> set pids \<and> pids' = pids \<and> k = free_slot (if p = rid_page rid then ss[i := None] else slots (view bp p)) \<and>
         heap_slots bp' pids' = with_row p b (without_slot (rid_page rid) i (heap_slots bp pids)) \<or>
       pids' = pids @ [p] \<and> k = 0 \<and> heap_slots bp' pids' = without_slot (rid_page rid) i (heap_slots bp pids) @ [(p, [Some (False, b)])]
     else pids' = pids @ [p] \<and> heap_slots bp' pids' = without_slot (rid_page rid) i (heap_slots bp pids) @ [(p, [])])"
proof -
  let ?p = "rid_page rid" and ?old = "\<lparr>row_id = rid, row_fields = []\<rparr>" and ?row = "\<lparr>row_id = rid, row_fields = fs\<rparr>"
  note H = heap_invD[OF inv]
  have ok: "table_page_ok (view bp ?p)" using H(6)[OF p] by blast
  have a: "allocated bp ?p" using H(5)[OF p] by simp
  have rid: "RowId_Get rid \<noteq> RowId_Get INVALID_ROWID" by (rule RowId_Get_valid[OF allocated_int32[OF a] allocated_not_INVALID[OF a]])
  have b: "list_all field_ok (row_fields r)" "b = row_bytes (row_fields r)" "b \<noteq> []" "length b < 2 ^ 32" using r unfolding row_fits_def by blast+
  have get: "TablePage_GetTuple ?old (heap_schema h) (view bp ?p) = Some (True, ?row)"
    using GetTuple_spec(1)[OF ok, of ?old fs "heap_schema h"] rid i fs by simp
  have up: "TablePage_UpdateTuple r ?row (heap_schema h) (view bp ?p) = Some (0, ?row, view bp ?p)"
    by (rule UpdateTuple_rejects(2)[OF ok _ b]) (use rid i full in auto)
  obtain f bp1 where h: "FetchPage bp ?p = Some (f, bp1)" "load_page bp1 f = Some (view bp ?p)" "heap_inv bp1 (first_page_id h) pids" "spare bp1"
    "allocated bp1 = allocated bp" "\<forall>q. allocated bp q \<longrightarrow> view bp1 q = view bp q" "pins bp1 = (pins bp)(?p := Suc (pins bp ?p))"
    "page_table bp1 ?p = Some f" "length (free_list bp) \<le> Suc (length (free_list bp1))" "pool_size bp1 = pool_size bp"
    by (rule hold_page[OF inv room p])
  have v1: "view bp1 ?p = view bp ?p" using h(6) a by simp
  have p1: "0 < pins bp1 ?p" using h(7) by simp
  obtain bp2 where s: "store_page bp1 f (view bp1 ?p) = Some bp2" "kept bp1 bp2 (view bp1)" "page_table bp2 ?p = Some f" "free_list bp2 = free_list bp1"
    by (rule store_held[OF h(3) p p1 h(8)])
  have i2: "heap_inv bp2 (first_page_id h) pids" "heap_slots bp2 pids = heap_slots bp pids"
    using heap_inv_kept[OF h(3) s(2)] h(6) H(5) by (simp_all add: heap_slots_def)
  have sp2: "spare bp2" using kept_spare[OF s(2)] h(4) by simp
  have v2: "view bp2 ?p = view bp ?p" using s(2) v1 h(5) a by (simp add: kept_def)
  obtain bp3 where m: "TableHeap_MarkDelete rid bp2 = Some (True, bp3)" "page_changed bp2 bp3 ?p (snd (mark_slot i (slots (view bp2 ?p))))"
    using heap_mark[OF i2(1) sp2 p] i(1) by blast
  have ms: "snd (mark_slot i (slots (view bp2 ?p))) = ss[i := Some (True, row_bytes fs)]"
    using i v2 by (simp add: mark_slot_def del: length_slots nth_slots)
  note P3 = page_changed_heap[OF i2(1) m(2)[unfolded ms]]
  have s3: "slots (view bp3 ?p) = ss[i := Some (True, row_bytes fs)]" by (rule P3(4)[OF p])
  obtain bp4 where d: "TableHeap_ApplyDelete rid bp3 = Some bp4" "page_changed bp3 bp4 ?p ((slots (view bp3 ?p))[i := None])"
    using heap_apply[OF P3(1) _ p i(1)] P3(3) sp2 s3 i(3) by (auto simp del: length_slots nth_slots)
  have ds: "(slots (view bp3 ?p))[i := None] = ss[i := None]" by (simp add: s3)
  note P4 = page_changed_heap[OF P3(1) d(2)[unfolded ds]]
  have hs4: "heap_slots bp4 pids = without_slot ?p i (heap_slots bp pids)"
    unfolding P4(2) P3(2) i2(2) without_slot_def i(2) by (simp add: heap_slots_def)
  have k: "allocated bp4 = allocated bp" "pins bp4 = pins bp1" "page_table bp4 ?p = Some f"
    using m(2) d(2) s(2,3) h(5) p1 by (auto simp: page_changed_def kept_def)
  have sz: "pool_size bp4 = pool_size bp" using m(2) d(2) s(2) h(10) by (auto simp: page_changed_def kept_def)
  have fl: "length pids < length (free_list bp4)" using m(2) d(2) s(4) h(9) ne by (auto simp: page_changed_def)
  have dk: "\<exists>q. logical_ok q \<and> \<not> allocated bp4 q" using disk k(1) by simp
  have sp4: "spare bp4" using P3(3) P4(3) sp2 by simp
  obtain p' k' pids' bp5 where n: "TableHeap_InsertTuple h r bp4 =
      Some (length b \<le> SIZE_MAX_ROW, if length b \<le> SIZE_MAX_ROW then r\<lparr>row_id := \<lparr>rid_page = p', rid_slot = of_nat k'\<rparr>\<rparr> else r, bp5)"
    "heap_inv bp5 (first_page_id h) pids'" "p' \<in> set pids'" "set pids \<subseteq> set pids'" "pins bp5 = pins bp4" "pool_size bp5 = pool_size bp4" "\<forall>q. 0 < pins bp4 q \<longrightarrow> page_table bp5 q = page_table bp4 q"
    "if length b \<le> SIZE_MAX_ROW
     then pids' = pids \<and> p' \<in> set pids \<and> k' = free_slot (slots (view bp4 p')) \<and> heap_slots bp5 pids' = with_row p' b (heap_slots bp4 pids) \<or>
       pids' = pids @ [p'] \<and> k' = 0 \<and> heap_slots bp5 pids' = heap_slots bp4 pids @ [(p', [Some (False, b)])]
     else pids' = pids @ [p'] \<and> heap_slots bp5 pids' = heap_slots bp4 pids @ [(p', [])]"
    using heap_insert_any[OF P4(1) sp4 r dk fl] by (elim exE conjE) (rule that; assumption)
  have p5: "?p \<in> set pids'" "0 < pins bp5 ?p" "page_table bp5 ?p = Some f" using n(4,5,7) p k p1 by auto
  obtain bp6 where u: "GetPageId bp5 f = Some ?p" "UnpinPage bp5 ?p True = Some (True, bp6)" "heap_inv bp6 (first_page_id h) pids'"
    "heap_slots bp6 pids' = heap_slots bp5 pids'" "pins bp6 = (pins bp5)(?p := pins bp5 ?p - 1)" "pool_size bp6 = pool_size bp5"
    by (rule release_page[OF n(2) p5])
  have run: "TableHeap_UpdateTuple h r rid bp = Some (True, if length b \<le> SIZE_MAX_ROW then r\<lparr>row_id := \<lparr>rid_page = p', rid_slot = of_nat k'\<rparr>\<rparr> else r, bp6)"
    using s(1) by (simp add: TableHeap_UpdateTuple_def h(1,2) get up v1 m(1) d(1) n(1) u(1,2))
  have "pins bp6 = pins bp" using u(5) n(5) k(2) h(7) by (simp add: fun_eq_iff)
  moreover have "pool_size bp6 = pool_size bp" using u(6) n(6) sz by simp
  moreover have "slots (view bp4 q) = (if q = ?p then ss[i := None] else slots (view bp q))" if "q \<in> set pids" for q
  proof -
    have "(q, slots (view bp4 q)) \<in> set (heap_slots bp4 pids)" using that by (simp add: heap_slots_def)
    then show ?thesis unfolding hs4 without_slot_def i(2) by (auto simp: heap_slots_def simp del: length_slots nth_slots split: if_splits)
  qed
  ultimately show ?thesis using run u(3,4) n(3,8) unfolding hs4
    by (intro exI[of _ p'] exI[of _ k'] exI[of _ pids'] exI[of _ bp6]) (auto split: if_splits simp del: length_slots nth_slots)
qed

text \<open>Reading a live row.\<close>

lemma heap_read:
  assumes inv: "heap_inv bp first pids" and sp: "spare bp" and p: "p \<in> set pids"
    and i: "i < length (slots (view bp p))" "slots (view bp p) ! i = Some (False, row_bytes fs)" and fs: "row_ok (heap_schema h) fs"
  shows "\<exists>bp'. TableHeap_GetTuple h \<lparr>row_id = \<lparr>rid_page = p, rid_slot = of_nat i\<rparr>, row_fields = x\<rparr> bp =
    Some (True, \<lparr>row_id = \<lparr>rid_page = p, rid_slot = of_nat i\<rparr>, row_fields = fs\<rparr>, bp') \<and> kept bp bp' (view bp)"
proof -
  let ?r = "\<lparr>row_id = \<lparr>rid_page = p, rid_slot = of_nat i\<rparr>, row_fields = x\<rparr>"
  have ok: "table_page_ok (view bp p)" and a: "allocated bp p" using heap_invD(5,6)[OF inv p] by simp_all
  have "i \<le> PAGE_SIZE" using i(1) table_page_okD(2,3)[OF ok] by simp
  then have u: "unat (of_nat i :: u32) = i" by (rule small_u32)
  have "RowId_Get (row_id ?r) \<noteq> RowId_Get INVALID_ROWID"
    by (rule RowId_Get_valid) (use allocated_int32[OF a] allocated_not_INVALID[OF a] in simp_all)
  then have "TablePage_GetTuple ?r (heap_schema h) (view bp p) = Some (True, \<lparr>row_id = \<lparr>rid_page = p, rid_slot = of_nat i\<rparr>, row_fields = fs\<rparr>)"
    using GetTuple_spec(1)[OF ok, of ?r fs "heap_schema h"] u i fs by (simp del: length_slots nth_slots)
  then show ?thesis using heap_get[OF inv sp, of ?r h] p by simp
qed

lemma heap_update_moved_read:
  assumes inv: "heap_inv bp (first_page_id h) pids" and room: "Suc (card {q. 0 < pins bp q}) < pool_size bp" and p: "rid_page rid \<in> set pids"
    and row: "row_ok (heap_schema h) (row_fields r)" and r: "row_fits r b" "b = row_bytes (row_fields r)"
    and i: "i = unat (rid_slot rid)" "ss = slots (view bp (rid_page rid))" "i < length ss" "ss ! i = Some (False, row_bytes fs)"
    and fs: "row_ok (heap_schema h) fs"
    and full: "free_ptr (view bp (rid_page rid)) + length (row_bytes fs) < 24 + 8 * tuple_count (view bp (rid_page rid)) + length b"
    and disk: "\<exists>q. logical_ok q \<and> \<not> allocated bp q" and ne: "length pids + 3 < length (free_list bp)" and len: "length b \<le> SIZE_MAX_ROW"
  shows "\<exists>q k pids' bp' bp''. TableHeap_UpdateTuple h r rid bp = Some (True, r\<lparr>row_id := \<lparr>rid_page = q, rid_slot = of_nat k\<rparr>\<rparr>, bp') \<and>
    heap_inv bp' (first_page_id h) pids' \<and> k < length (slots (view bp' q)) \<and> slots (view bp' q) ! k = Some (False, b) \<and>
    (q \<in> set pids \<and> pids' = pids \<and> k = free_slot (if q = rid_page rid then ss[i := None] else slots (view bp q)) \<and>
       heap_slots bp' pids' = with_row q b (without_slot (rid_page rid) i (heap_slots bp pids)) \<or>
     pids' = pids @ [q] \<and> k = 0 \<and> heap_slots bp' pids' = without_slot (rid_page rid) i (heap_slots bp pids) @ [(q, [Some (False, b)])]) \<and>
    TableHeap_GetTuple h \<lparr>row_id = \<lparr>rid_page = q, rid_slot = of_nat k\<rparr>, row_fields = []\<rparr> bp' =
      Some (True, \<lparr>row_id = \<lparr>rid_page = q, rid_slot = of_nat k\<rparr>, row_fields = row_fields r\<rparr>, bp'')"
proof -
  let ?ss = "\<lambda>q. if q = rid_page rid then ss[i := None] else slots (view bp q)"
  obtain q k pids' bp' where u: "TableHeap_UpdateTuple h r rid bp = Some (True, r\<lparr>row_id := \<lparr>rid_page = q, rid_slot = of_nat k\<rparr>\<rparr>, bp')"
    "heap_inv bp' (first_page_id h) pids'" "pins bp' = pins bp" "pool_size bp' = pool_size bp"
    and c: "q \<in> set pids \<and> pids' = pids \<and> k = free_slot (?ss q) \<and> heap_slots bp' pids' = with_row q b (without_slot (rid_page rid) i (heap_slots bp pids)) \<or>
      pids' = pids @ [q] \<and> k = 0 \<and> heap_slots bp' pids' = without_slot (rid_page rid) i (heap_slots bp pids) @ [(q, [Some (False, b)])]"
    using heap_update_moved[OF inv room p r(1) i fs full disk ne] len by (simp only: if_True) (elim exE conjE, rule that; assumption)
  have q: "q \<in> set pids'" using c by auto
  then have "(q, slots (view bp' q)) \<in> set (heap_slots bp' pids')" by (simp add: heap_slots_def)
  moreover have "q \<notin> set pids" if "pids' = pids @ [q]" using heap_invD(3)[OF u(2)] that by simp
  ultimately have k: "k < length (slots (view bp' q)) \<and> slots (view bp' q) ! k = Some (False, b)"
    using c free_slot_add[of "?ss q" b] unfolding i(2)
    by (auto simp: with_row_def without_slot_def heap_slots_def simp del: length_slots nth_slots split: if_splits)
  have "spare bp'" using u(3,4) room by (simp add: spare_def)
  from heap_read[OF u(2) this q conjunct1[OF k] conjunct2[OF k, unfolded r(2)] row, of "[]"]
  obtain bp'' where "TableHeap_GetTuple h \<lparr>row_id = \<lparr>rid_page = q, rid_slot = of_nat k\<rparr>, row_fields = []\<rparr> bp' =
      Some (True, \<lparr>row_id = \<lparr>rid_page = q, rid_slot = of_nat k\<rparr>, row_fields = row_fields r\<rparr>, bp'')" by blast
  with u(1,2) k c show ?thesis by blast
qed

section \<open>Sample heaps\<close>

lemma fresh_pool_inv: "pool_inv (BufferPoolManager_new 20 empty_disk)"
proof -
  have "pool_wf (BufferPoolManager_new 20 empty_disk)" using disk_wf_empty by (intro pool_wf_new) (simp_all add: disk_wf_def)
  moreover have "f \<in> set (free_list (BufferPoolManager_new 20 empty_disk))" if "in_pool (BufferPoolManager_new 20 empty_disk) f" for f
    using that by (auto simp: in_pool_def BufferPoolManager_new_def image_iff intro!: bexI[of _ "nat f"])
  ultimately show ?thesis using disk_wf_empty by (auto simp: pool_inv_def BufferPoolManager_new_def resident_allocated_def)
qed

text \<open>Every frame that holds no page is free, and only allocated pages are held.\<close>

lemma free_frames:
  assumes inv: "pool_inv bp"
  shows "pool_size bp \<le> length (free_list bp) + card {q. allocated bp q}"
proof -
  have wf: "pool_wf bp" using inv by (simp add: pool_inv_def)
  have "{q. allocated bp q} \<subseteq> {0..<int (MAX_EXTENTS * BITMAP_SIZE)}" by (auto simp: allocated_def logical_ok_def)
  then have fin: "finite {q. allocated bp q}" by (rule finite_subset) simp
  have "page_table bp q = Some f \<Longrightarrow> allocated bp q" for q f
    using unallocated_unpinned[OF inv, of q] by (cases "allocated bp q") auto
  then have "ran (page_table bp) \<subseteq> (\<lambda>q. the (page_table bp q)) ` {q. allocated bp q}"
    by (auto simp: ran_def image_iff) (metis option.sel)
  moreover have "int ` {..<pool_size bp} \<subseteq> set (free_list bp) \<union> ran (page_table bp)"
  proof
    fix f assume "f \<in> int ` {..<pool_size bp}"
    then have "in_pool bp f" using pool_wfD(1)[OF wf] by (auto simp: in_pool_def)
    then show "f \<in> set (free_list bp) \<union> ran (page_table bp)" using inv unfolding pool_inv_def by blast
  qed
  ultimately have "int ` {..<pool_size bp} \<subseteq> set (free_list bp) \<union> (\<lambda>q. the (page_table bp q)) ` {q. allocated bp q}" by blast
  then have "card (int ` {..<pool_size bp}) \<le> card (set (free_list bp) \<union> (\<lambda>q. the (page_table bp q)) ` {q. allocated bp q})"
    by (rule card_mono[rotated]) (use fin in simp)
  also have "\<dots> \<le> card (set (free_list bp)) + card ((\<lambda>q. the (page_table bp q)) ` {q. allocated bp q})" by (rule card_Un_le)
  also have "\<dots> \<le> length (free_list bp) + card {q. allocated bp q}" by (intro add_mono card_length card_image_le fin)
  finally show ?thesis by (simp add: card_image)
qed

lemma sample_heap:
  "\<exists>pid bp. TableHeap_create sample_schema (BufferPoolManager_new 20 empty_disk) = Some (\<lparr>first_page_id = pid, heap_schema = sample_schema\<rparr>, bp) \<and>
    heap_inv bp pid [pid] \<and> heap_slots bp [pid] = [(pid, [])] \<and> pins bp = (\<lambda>q. 0) \<and> pool_size bp = 20 \<and> allocated bp = (\<lambda>q. q = pid) \<and>
    free_ptr (view bp pid) = PAGE_SIZE"
proof -
  let ?bp = "BufferPoolManager_new 20 empty_disk"
  have a: "allocated ?bp = (\<lambda>q. False)" using disk_used_empty by (intro ext) (simp add: allocated_def BufferPoolManager_new_def)
  have "logical_ok 0" by (simp add: logical_ok_def MAX_EXTENTS_def BITMAP_SIZE_eq)
  then have r: "\<exists>q. logical_ok q \<and> \<not> allocated ?bp q" using a by auto
  have ne: "free_list ?bp \<noteq> []" by (simp add: BufferPoolManager_new_def)
  have "pins ?bp = (\<lambda>q. 0)" by (intro ext) (simp add: pins_def BufferPoolManager_new_def)
  moreover have "pool_size ?bp = 20" by (simp add: BufferPoolManager_new_def)
  ultimately show ?thesis using heap_create_ok[OF fresh_pool_inv r ne, of sample_schema] a by auto
qed

text \<open>The same heap after one row has been inserted.\<close>

lemma sample_row_fits: "row_fits sample_row (row_bytes (row_fields sample_row))"
proof -
  have "row_bytes (row_fields sample_row) \<noteq> []" using sample_row_ok(2) by auto
  then show ?thesis using row_ok_fields[OF sample_row_ok(1)] sample_row_ok(2) by (simp add: row_fits_def)
qed

lemma sample_heap_row:
  assumes "row_fits r b" and "length b \<le> 1000"
  shows "\<exists>pid bp. heap_inv bp pid [pid] \<and> slots (view bp pid) = [Some (False, b)] \<and> free_ptr (view bp pid) = PAGE_SIZE - length b \<and>
    pins bp = (\<lambda>q. 0) \<and> pool_size bp = 20 \<and> allocated bp = (\<lambda>q. q = pid)"
proof -
  obtain pid bp where s: "heap_inv bp pid [pid]" "heap_slots bp [pid] = [(pid, [])]" "pins bp = (\<lambda>q. 0)" "pool_size bp = 20" "allocated bp = (\<lambda>q. q = pid)"
    "free_ptr (view bp pid) = PAGE_SIZE" using sample_heap by blast
  let ?h = "\<lparr>first_page_id = pid, heap_schema = sample_schema\<rparr>" and ?d = "with_tuple b 0 (view bp pid)"
  have sp: "spare bp" using s(3,4) by (simp add: spare_def)
  have e: "slots (view bp pid) = []" using s(2) by (simp add: heap_slots_def)
  then have n: "tuple_count (view bp pid) = 0" using length_slots[of "view bp pid"] by simp
  then have room: "has_room b (view bp pid)" using s(6) assms(2) by (simp add: has_room_def PAGE_SIZE_def)
  then have rm: "32 + 8 * tuple_count (view bp pid) + length b \<le> free_ptr (view bp pid)" by (simp add: has_room_def)
  have nb: "b \<noteq> []" using assms(1) unfolding row_fits_def by blast
  have ok: "table_page_ok (view bp pid)" using heap_invD(6)[OF s(1)] by simp
  have z: "free_slot (slots (view bp pid)) = 0" by (simp add: e free_slot_def)
  have d: "table_page_ok ?d" "slots ?d = [Some (False, b)]" "page_links ?d = page_links (view bp pid)" "free_ptr ?d = PAGE_SIZE - length b"
    using with_tuple_ok[OF ok refl rm nb] with_tuple_effect[OF ok _ rm, of 0] z e s(6) by (simp_all add: add_tuple_def)
  have "\<exists>bp'. insert_loop r pid None bp = Some (Inl (inserted_row r pid (view bp pid), bp')) \<and>
      kept bp bp' ((view bp)(pid := with_tuple b (free_slot (slots (view bp pid))) (view bp pid)))"
    by (rule insert_loop_found[where xs = "[]" and ys = "[]"]) (use heap_invD[OF s(1)] sp assms(1) room in auto)
  then obtain bp' where k: "kept bp bp' ((view bp)(pid := ?d))" unfolding z by (elim exE conjE) (rule that; assumption)
  have "view bp' pid = ?d" using k s(5) by (simp add: kept_def)
  moreover have "heap_inv bp' pid [pid]" by (rule heap_inv_update(1)[OF s(1) k d(1,3)])
  moreover have "pins bp' = (\<lambda>q. 0)" "pool_size bp' = 20" "allocated bp' = (\<lambda>q. q = pid)" using k s(3-5) by (simp_all add: kept_def)
  ultimately show ?thesis using d by (intro exI[of _ pid] exI[of _ bp'] conjI) simp_all
qed

section \<open>Properties\<close>

text \<open>C5: Inserting a row into a table heap.  The row goes to the first page of the chain that has room for it and for
  one more slot, into the first empty slot of that page; when no page has room a new page is appended
  to the chain and takes the row.  Nothing else in the heap changes, and reading the row id that the
  insertion assigned returns the inserted fields.  A row that does not fit into an empty page is
  rejected, but the new page stays in the heap.\<close>

theorem heap_insert:
  assumes "heap_inv bp (first_page_id h) pids" and "spare bp" and "row_ok (heap_schema h) (row_fields r)" and "row_fields r \<noteq> []"
    and "b = row_bytes (row_fields r)" and "length b < 2 ^ 32"
    and "find (\<lambda>q. has_room b (view bp q)) pids = None \<Longrightarrow> (\<exists>q. logical_ok q \<and> \<not> allocated bp q) \<and> length pids < length (free_list bp)"
  shows "case find (\<lambda>q. has_room b (view bp q)) pids of
      Some p \<Rightarrow> \<exists>bp' bp''. TableHeap_InsertTuple h r bp = Some (True, inserted_row r p (view bp p), bp') \<and> heap_inv bp' (first_page_id h) pids \<and>
        heap_slots bp' pids = with_row p b (heap_slots bp pids) \<and>
        TableHeap_GetTuple h \<lparr>row_id = row_id (inserted_row r p (view bp p)), row_fields = []\<rparr> bp' = Some (True, inserted_row r p (view bp p), bp'')
    | None \<Rightarrow> if length b \<le> SIZE_MAX_ROW
        then \<exists>new bp' bp''. TableHeap_InsertTuple h r bp = Some (True, r\<lparr>row_id := \<lparr>rid_page = new, rid_slot = 0\<rparr>\<rparr>, bp') \<and>
          heap_inv bp' (first_page_id h) (pids @ [new]) \<and> heap_slots bp' (pids @ [new]) = heap_slots bp pids @ [(new, [Some (False, b)])] \<and>
          TableHeap_GetTuple h \<lparr>row_id = \<lparr>rid_page = new, rid_slot = 0\<rparr>, row_fields = []\<rparr> bp' =
            Some (True, \<lparr>row_id = \<lparr>rid_page = new, rid_slot = 0\<rparr>, row_fields = row_fields r\<rparr>, bp'')
        else \<exists>new bp'. TableHeap_InsertTuple h r bp = Some (False, r, bp') \<and> heap_inv bp' (first_page_id h) (pids @ [new]) \<and>
          heap_slots bp' (pids @ [new]) = heap_slots bp pids @ [(new, [])]"
proof -
  have fk: "list_all field_ok (row_fields r)" by (rule row_ok_fields[OF assms(3)])
  have fits: "row_fits r b" using fk row_bytes_nonempty[OF fk assms(4)] assms(5,6) by (simp add: row_fits_def)
  show ?thesis
  proof (cases "find (\<lambda>q. has_room b (view bp q)) pids")
    case (Some p)
    let ?i = "free_slot (slots (view bp p))"
    obtain bp' d where x: "TableHeap_InsertTuple h r bp = Some (True, inserted_row r p (view bp p), bp')" "kept bp bp' ((view bp)(p := d))"
      "heap_inv bp' (first_page_id h) pids" "p \<in> set pids" "slots d = add_tuple b (slots (view bp p))"
      "heap_slots bp' pids = map (\<lambda>(q, ss). (q, if q = p then add_tuple b ss else ss)) (heap_slots bp pids)"
      using heap_insert_found[OF assms(1,2) fits Some] by (elim exE conjE) (rule that; assumption)
    have sl: "slots (view bp' p) = add_tuple b (slots (view bp p))" using x(2,4,5) heap_invD(5)[OF assms(1)] by (simp add: kept_def)
    obtain bp'' where "TableHeap_GetTuple h \<lparr>row_id = \<lparr>rid_page = p, rid_slot = of_nat ?i\<rparr>, row_fields = []\<rparr> bp' =
        Some (True, \<lparr>row_id = \<lparr>rid_page = p, rid_slot = of_nat ?i\<rparr>, row_fields = row_fields r\<rparr>, bp'')"
      using heap_read[OF x(3) _ x(4) _ _ assms(3), of ?i "[]"] kept_spare[OF x(2)] assms(2,5) sl free_slot_add[of "slots (view bp p)" b]
      by (auto simp del: length_slots nth_slots)
    moreover have "inserted_row r p (view bp p) = \<lparr>row_id = \<lparr>rid_page = p, rid_slot = of_nat ?i\<rparr>, row_fields = row_fields r\<rparr>"
      by (cases r) (simp add: inserted_row_def)
    ultimately show ?thesis using Some x(1,3,6) by (simp add: with_row_def)
  next
    case None
    obtain new d e bp' where x: "TableHeap_InsertTuple h r bp = Some (length b \<le> SIZE_MAX_ROW,
        if length b \<le> SIZE_MAX_ROW then r\<lparr>row_id := \<lparr>rid_page = new, rid_slot = 0\<rparr>\<rparr> else r, bp')"
      "grown bp bp' new ((view bp)(last pids := d, new := e))" "heap_inv bp' (first_page_id h) (pids @ [new])"
      "heap_slots bp' (pids @ [new]) = heap_slots bp pids @ [(new, if length b \<le> SIZE_MAX_ROW then [Some (False, b)] else [])]"
      using heap_insert_full[OF assms(1,2) fits None conjunct1[OF assms(7)[OF None]] conjunct2[OF assms(7)[OF None]]]
      by (elim exE conjE) (rule that; assumption)
    have sl: "slots (view bp' new) = (if length b \<le> SIZE_MAX_ROW then [Some (False, b)] else [])" using x(4) by (simp add: heap_slots_def)
    have sp: "spare bp'" using x(2) assms(2) by (simp add: grown_def spare_def)
    have "\<exists>bp''. TableHeap_GetTuple h \<lparr>row_id = \<lparr>rid_page = new, rid_slot = 0\<rparr>, row_fields = []\<rparr> bp' =
        Some (True, \<lparr>row_id = \<lparr>rid_page = new, rid_slot = 0\<rparr>, row_fields = row_fields r\<rparr>, bp'')" if "length b \<le> SIZE_MAX_ROW"
      using heap_read[OF x(3) sp _ _ _ assms(3), of new 0 "[]"] sl that assms(5) by (auto simp del: length_slots nth_slots)
    then show ?thesis using None x(1,3,4) by auto
  qed
qed

theorem heap_insert_witness:
  "\<exists>pid bp bp' bp''. TableHeap_create sample_schema (BufferPoolManager_new 20 empty_disk) = Some (\<lparr>first_page_id = pid, heap_schema = sample_schema\<rparr>, bp) \<and>
    TableHeap_InsertTuple \<lparr>first_page_id = pid, heap_schema = sample_schema\<rparr> sample_row bp =
      Some (True, sample_row\<lparr>row_id := \<lparr>rid_page = pid, rid_slot = 0\<rparr>\<rparr>, bp') \<and>
    TableHeap_GetTuple \<lparr>first_page_id = pid, heap_schema = sample_schema\<rparr> \<lparr>row_id = \<lparr>rid_page = pid, rid_slot = 0\<rparr>, row_fields = []\<rparr> bp' =
      Some (True, sample_row\<lparr>row_id := \<lparr>rid_page = pid, rid_slot = 0\<rparr>\<rparr>, bp'')"
proof -
  obtain pid bp where s: "TableHeap_create sample_schema (BufferPoolManager_new 20 empty_disk) = Some (\<lparr>first_page_id = pid, heap_schema = sample_schema\<rparr>, bp)"
    "heap_inv bp pid [pid]" "heap_slots bp [pid] = [(pid, [])]" "pins bp = (\<lambda>q. 0)" "pool_size bp = 20" "free_ptr (view bp pid) = PAGE_SIZE"
    using sample_heap by blast
  let ?h = "\<lparr>first_page_id = pid, heap_schema = sample_schema\<rparr>" and ?b = "row_bytes (row_fields sample_row)"
  have e: "slots (view bp pid) = []" using s(3) by (simp add: heap_slots_def)
  then have "tuple_count (view bp pid) = 0" using length_slots[of "view bp pid"] by simp
  then have "has_room ?b (view bp pid)" using s(6) by (simp add: has_room_def sample_row_ok PAGE_SIZE_def)
  then have f: "find (\<lambda>q. has_room ?b (view bp q)) [pid] = Some pid" by simp
  have i: "inserted_row sample_row pid (view bp pid) = sample_row\<lparr>row_id := \<lparr>rid_page = pid, rid_slot = 0\<rparr>\<rparr>"
    using e by (simp add: inserted_row_def free_slot_def)
  have "spare bp" using s(4,5) by (simp add: spare_def)
  moreover have "row_fields sample_row \<noteq> []" by (simp add: sample_row_def)
  moreover have "heap_inv bp (first_page_id ?h) [pid]" "row_ok (heap_schema ?h) (row_fields sample_row)" using s(2) sample_row_ok(1) by simp_all
  ultimately show ?thesis using heap_insert[of bp ?h "[pid]" sample_row ?b] f i s(1) sample_row_ok(2) by auto
qed

text \<open>C8: Updating a row of a table heap.  Without a live tuple at the row id the update fails and changes nothing.
  If the page has room for the new tuple in place of the old one, the slot holds the new tuple and the
  row keeps its id.  Otherwise, provided that a page can hold the row at all, the old slot is emptied, the
  row is inserted as by InsertTuple and gets the id of the slot it was put into: the first empty slot of a
  page of the chain, or slot 0 of a page appended to it.  Reading the new row id returns the new fields.  The
  update returns true in this case too, although the header declares that it returns false then.\<close>

theorem heap_update:
  assumes "heap_inv bp (first_page_id h) pids" and "Suc (card {q. 0 < pins bp q}) < pool_size bp" and "rid_page rid \<in> set pids"
    and "row_ok (heap_schema h) (row_fields r)" and "row_fields r \<noteq> []" and "b = row_bytes (row_fields r)" and "length b \<le> SIZE_MAX_ROW"
    and "i = unat (rid_slot rid)" and "p = view bp (rid_page rid)"
    and "\<forall>fs. i < length (slots p) \<and> slots p ! i = Some (False, row_bytes fs) \<and> free_ptr p + length (row_bytes fs) < 24 + 8 * tuple_count p + length b \<longrightarrow>
      (\<exists>q. logical_ok q \<and> \<not> allocated bp q) \<and> length pids + 3 < length (free_list bp)"
  shows "((\<nexists>c. i < length (slots p) \<and> slots p ! i = Some (False, c)) \<longrightarrow>
      (\<exists>bp'. TableHeap_UpdateTuple h r rid bp = Some (False, r, bp') \<and> heap_inv bp' (first_page_id h) pids \<and> heap_slots bp' pids = heap_slots bp pids)) \<and>
    (\<forall>fs. i < length (slots p) \<and> slots p ! i = Some (False, row_bytes fs) \<and> row_ok (heap_schema h) fs \<longrightarrow>
      (if 24 + 8 * tuple_count p + length b \<le> free_ptr p + length (row_bytes fs)
       then \<exists>bp'. TableHeap_UpdateTuple h r rid bp = Some (True, r\<lparr>row_id := rid\<rparr>, bp') \<and> heap_inv bp' (first_page_id h) pids \<and>
         heap_slots bp' pids = map (\<lambda>(q, ts). (q, if q = rid_page rid then ts[i := Some (False, b)] else ts)) (heap_slots bp pids)
       else \<exists>q k pids' bp' bp''. TableHeap_UpdateTuple h r rid bp = Some (True, r\<lparr>row_id := \<lparr>rid_page = q, rid_slot = of_nat k\<rparr>\<rparr>, bp') \<and>
         heap_inv bp' (first_page_id h) pids' \<and> k < length (slots (view bp' q)) \<and> slots (view bp' q) ! k = Some (False, b) \<and>
         (q \<in> set pids \<and> pids' = pids \<and> k = free_slot (if q = rid_page rid then (slots p)[i := None] else slots (view bp q)) \<and>
            heap_slots bp' pids' = with_row q b (without_slot (rid_page rid) i (heap_slots bp pids)) \<or>
          pids' = pids @ [q] \<and> k = 0 \<and> heap_slots bp' pids' = without_slot (rid_page rid) i (heap_slots bp pids) @ [(q, [Some (False, b)])]) \<and>
         TableHeap_GetTuple h \<lparr>row_id = \<lparr>rid_page = q, rid_slot = of_nat k\<rparr>, row_fields = []\<rparr> bp' =
           Some (True, \<lparr>row_id = \<lparr>rid_page = q, rid_slot = of_nat k\<rparr>, row_fields = row_fields r\<rparr>, bp'')))"
proof (intro conjI impI allI)
  have fk: "list_all field_ok (row_fields r)" by (rule row_ok_fields[OF assms(4)])
  have "length b < 2 ^ 32" using assms(7) by (simp add: SIZE_MAX_ROW_def PAGE_SIZE_def)
  then have fits: "row_fits r b" using fk row_bytes_nonempty[OF fk assms(5)] assms(6) by (simp add: row_fits_def)
  have sp: "spare bp" using assms(2) by (simp add: spare_def)
  show "\<exists>bp'. TableHeap_UpdateTuple h r rid bp = Some (False, r, bp') \<and> heap_inv bp' (first_page_id h) pids \<and> heap_slots bp' pids = heap_slots bp pids"
    if n: "\<nexists>c. i < length (slots p) \<and> slots p ! i = Some (False, c)"
  proof -
    obtain bp' where k: "TableHeap_UpdateTuple h r rid bp = Some (False, r, bp')" "kept bp bp' (view bp)"
      using heap_update_rejected[OF assms(1) sp assms(3) fits assms(8) refl] n assms(9) by (auto simp del: length_slots nth_slots)
    then show ?thesis using heap_inv_kept[OF assms(1) k(2)] by (intro exI[of _ bp'] conjI)
  qed
  fix fs assume l: "i < length (slots p) \<and> slots p ! i = Some (False, row_bytes fs) \<and> row_ok (heap_schema h) fs"
  note L = conjunct1[OF l] conjunct1[OF conjunct2[OF l]] conjunct2[OF conjunct2[OF l]]
  note L' = L(1)[unfolded assms(9)] L(2)[unfolded assms(9)] L(3)
  show "if 24 + 8 * tuple_count p + length b \<le> free_ptr p + length (row_bytes fs)
       then \<exists>bp'. TableHeap_UpdateTuple h r rid bp = Some (True, r\<lparr>row_id := rid\<rparr>, bp') \<and> heap_inv bp' (first_page_id h) pids \<and>
         heap_slots bp' pids = map (\<lambda>(q, ts). (q, if q = rid_page rid then ts[i := Some (False, b)] else ts)) (heap_slots bp pids)
       else \<exists>q k pids' bp' bp''. TableHeap_UpdateTuple h r rid bp = Some (True, r\<lparr>row_id := \<lparr>rid_page = q, rid_slot = of_nat k\<rparr>\<rparr>, bp') \<and>
         heap_inv bp' (first_page_id h) pids' \<and> k < length (slots (view bp' q)) \<and> slots (view bp' q) ! k = Some (False, b) \<and>
         (q \<in> set pids \<and> pids' = pids \<and> k = free_slot (if q = rid_page rid then (slots p)[i := None] else slots (view bp q)) \<and>
            heap_slots bp' pids' = with_row q b (without_slot (rid_page rid) i (heap_slots bp pids)) \<or>
          pids' = pids @ [q] \<and> k = 0 \<and> heap_slots bp' pids' = without_slot (rid_page rid) i (heap_slots bp pids) @ [(q, [Some (False, b)])]) \<and>
         TableHeap_GetTuple h \<lparr>row_id = \<lparr>rid_page = q, rid_slot = of_nat k\<rparr>, row_fields = []\<rparr> bp' =
           Some (True, \<lparr>row_id = \<lparr>rid_page = q, rid_slot = of_nat k\<rparr>, row_fields = row_fields r\<rparr>, bp'')"
    (is "if ?fits then ?A else ?B")
  proof (cases ?fits)
    case True
    have ?A using heap_update_in_place[OF assms(1-3) fits assms(8) refl L' True[unfolded assms(9)]] by blast
    then show ?thesis using True by (simp only: if_True)
  next
    case False
    then have full: "free_ptr p + length (row_bytes fs) < 24 + 8 * tuple_count p + length b" by simp
    have res: "\<exists>q. logical_ok q \<and> \<not> allocated bp q" "length pids + 3 < length (free_list bp)" using assms(10) L(1,2) full by blast+
    have ?B using heap_update_moved_read[OF assms(1-3,4) fits assms(6,8) refl L' full[unfolded assms(9)] res assms(7)] unfolding assms(9) .
    then show ?thesis using False by (simp only: if_False)
  qed
qed

theorem heap_update_witness:
  "\<exists>pid bp bp'. slots (view bp pid) = [Some (False, row_bytes (row_fields sample_row))] \<and>
    TableHeap_UpdateTuple \<lparr>first_page_id = pid, heap_schema = sample_schema\<rparr> sample_row \<lparr>rid_page = pid, rid_slot = 0\<rparr> bp =
      Some (True, sample_row\<lparr>row_id := \<lparr>rid_page = pid, rid_slot = 0\<rparr>\<rparr>, bp') \<and> heap_inv bp' pid [pid]"
proof -
  let ?b = "row_bytes (row_fields sample_row)"
  obtain pid bp where s: "heap_inv bp pid [pid]" "slots (view bp pid) = [Some (False, ?b)]" "free_ptr (view bp pid) = PAGE_SIZE - length ?b"
    "pins bp = (\<lambda>q. 0)" "pool_size bp = 20" using sample_heap_row[OF sample_row_fits] sample_row_ok(2) by auto
  let ?h = "\<lparr>first_page_id = pid, heap_schema = sample_schema\<rparr>" and ?rid = "\<lparr>rid_page = pid, rid_slot = 0\<rparr> :: RowId"
  have n: "tuple_count (view bp pid) = 1" using s(2) length_slots[of "view bp pid"] by simp
  have A: "heap_inv bp (first_page_id ?h) [pid]" "Suc (card {q. 0 < pins bp q}) < pool_size bp" "rid_page ?rid \<in> set [pid]"
    "row_ok (heap_schema ?h) (row_fields sample_row)" "row_fields sample_row \<noteq> []" "length ?b \<le> SIZE_MAX_ROW"
    using s sample_row_ok by (simp_all add: sample_row_def SIZE_MAX_ROW_def PAGE_SIZE_def SIZE_TABLE_PAGE_HEADER_def SIZE_TUPLE_def)
  have fits: "24 + 8 * tuple_count (view bp pid) + length ?b \<le> free_ptr (view bp pid) + length ?b"
    using n s(3) sample_row_ok(2) by (simp add: PAGE_SIZE_def)
  have R: "\<forall>fs. 0 < length (slots (view bp pid)) \<and> slots (view bp pid) ! 0 = Some (False, row_bytes fs) \<and>
      free_ptr (view bp pid) + length (row_bytes fs) < 24 + 8 * tuple_count (view bp pid) + length ?b \<longrightarrow>
      (\<exists>q. logical_ok q \<and> \<not> allocated bp q) \<and> length [pid] + 3 < length (free_list bp)"
    using s(2) fits by (auto simp del: length_slots nth_slots)
  have live: "0 < length (slots (view bp pid)) \<and> slots (view bp pid) ! 0 = Some (False, ?b) \<and> row_ok (heap_schema ?h) (row_fields sample_row)"
    using s(2) sample_row_ok(1) by (simp del: length_slots nth_slots)
  have "\<exists>bp'. TableHeap_UpdateTuple ?h sample_row ?rid bp = Some (True, sample_row\<lparr>row_id := ?rid\<rparr>, bp') \<and> heap_inv bp' (first_page_id ?h) [pid]"
    using conjunct2[OF heap_update[OF A(1-5) refl A(6), of 0 "view bp pid"]] R live fits by fastforce
  then obtain bp' where "TableHeap_UpdateTuple ?h sample_row ?rid bp = Some (True, sample_row\<lparr>row_id := ?rid\<rparr>, bp')" "heap_inv bp' pid [pid]" by auto
  with s(2) show ?thesis by (intro exI[of _ pid] exI[of _ bp] exI[of _ bp'] conjI)
qed

text \<open>C37: Updating a row to one that no page can hold destroys it.  The heap deletes the old tuple, ignores that the
  insertion of the new one fails, and reports success.\<close>

theorem heap_update_loses_row:
  assumes "heap_inv bp (first_page_id h) pids" and "Suc (card {q. 0 < pins bp q}) < pool_size bp" and "rid_page rid \<in> set pids"
    and "row_ok (heap_schema h) (row_fields r)" and "row_fields r \<noteq> []" and "SIZE_MAX_ROW < length (row_bytes (row_fields r))"
    and "length (row_bytes (row_fields r)) < 2 ^ 32" and "i = unat (rid_slot rid)" and "i < length (slots (view bp (rid_page rid)))"
    and "slots (view bp (rid_page rid)) ! i = Some (False, row_bytes fs)" and "row_ok (heap_schema h) fs"
    and "\<exists>q. logical_ok q \<and> \<not> allocated bp q" and "length pids + 3 < length (free_list bp)"
  shows "\<exists>new bp'. TableHeap_UpdateTuple h r rid bp = Some (True, r, bp') \<and> heap_inv bp' (first_page_id h) (pids @ [new]) \<and>
    heap_slots bp' (pids @ [new]) = without_slot (rid_page rid) i (heap_slots bp pids) @ [(new, [])]"
proof -
  let ?p = "view bp (rid_page rid)" and ?b = "row_bytes (row_fields r)"
  have fk: "list_all field_ok (row_fields r)" by (rule row_ok_fields[OF assms(4)])
  have fits: "row_fits r ?b" using fk row_bytes_nonempty[OF fk assms(5)] assms(7) by (simp add: row_fits_def)
  have ok: "table_page_ok ?p" using heap_invD(6)[OF assms(1,3)] by blast
  have i: "i < tuple_count ?p" using assms(9) by simp
  have "slot_at ?p i = Some (False, row_bytes fs)" using assms(10) i by simp
  note L = live_slot_words[OF ok i this]
  have "free_ptr ?p + length (row_bytes fs) \<le> PAGE_SIZE" using table_page_okD(4)[OF ok i] L by (simp add: slot_ok_def)
  then have "free_ptr ?p + length (row_bytes fs) < 24 + 8 * tuple_count ?p + length ?b"
    using assms(6) i by (simp add: SIZE_MAX_ROW_def SIZE_TABLE_PAGE_HEADER_def SIZE_TUPLE_def PAGE_SIZE_def)
  from heap_update_moved[OF assms(1-3) fits assms(8) refl assms(9-11) this assms(12,13)] assms(6) show ?thesis
    by (simp only: if_False linorder_not_le[symmetric]) blast
qed

definition wide_schema :: Schema where
  "wide_schema = map (\<lambda>i. \<lparr>name_of = ''c'', ctype = kTypeChar, clen = 2000, table_ind = i, nullable = False, unique = False\<rparr>) [0, 1, 2]"

definition wide_field :: "nat \<Rightarrow> Field" where
  "wide_field n = \<lparr>value_of = VChars (replicate n 97), ftype = kTypeChar, flen = of_nat n, is_null = False\<rparr>"

definition wide_row :: "nat \<Rightarrow> Row" where
  "wide_row n = \<lparr>row_id = INVALID_ROWID, row_fields = [wide_field n, wide_field n, wide_field n]\<rparr>"

lemma wide_row_ok:
  assumes "n \<le> 2000"
  shows "row_ok wide_schema (row_fields (wide_row n))" "length (row_bytes (row_fields (wide_row n))) = 12 + 3 * n" "row_fields (wide_row n) \<noteq> []"
    "list_all field_ok (row_fields (wide_row n))"
proof -
  have "unat (of_nat n :: u32) = n" by (rule unat_of_nat_u32) (use assms in simp)
  then have f: "field_ok (wide_field n)" using assms by (simp add: field_ok_def wide_field_def VARCHAR_MAX_LEN_def PAGE_SIZE_def)
  then show "row_ok wide_schema (row_fields (wide_row n))" by (simp add: row_ok_def wide_schema_def wide_row_def) (simp add: wide_field_def)
  show "list_all field_ok (row_fields (wide_row n))" using f by (simp add: wide_row_def)
  have "length (field_bytes (wide_field n)) = 4 + n" by (simp add: wide_field_def field_bytes_def)
  then show "length (row_bytes (row_fields (wide_row n))) = 12 + 3 * n" by (simp add: wide_row_def)
qed (simp add: wide_row_def)

theorem heap_update_loses_row_witness:
  "\<exists>pid new bp bp'. slots (view bp pid) = [Some (False, row_bytes (row_fields (wide_row 2)))] \<and>
    TableHeap_UpdateTuple \<lparr>first_page_id = pid, heap_schema = wide_schema\<rparr> (wide_row 2000) \<lparr>rid_page = pid, rid_slot = 0\<rparr> bp =
      Some (True, wide_row 2000, bp') \<and> heap_slots bp' [pid, new] = [(pid, [None]), (new, [])]"
proof -
  let ?b = "row_bytes (row_fields (wide_row 2))"
  have l: "length ?b \<le> 1000" "length ?b < 2 ^ 32" using wide_row_ok(2)[of 2] by simp_all
  note W = wide_row_ok(3,4)[of 2, simplified]
  have "row_fits (wide_row 2) ?b" using W(2) row_bytes_nonempty[OF W(2,1)] l(2) unfolding row_fits_def by blast
  then obtain pid bp where s: "heap_inv bp pid [pid]" "slots (view bp pid) = [Some (False, ?b)]"
    "pins bp = (\<lambda>q. 0)" "pool_size bp = 20" "allocated bp = (\<lambda>q. q = pid)"
    using sample_heap_row[OF _ l(1)] by blast
  let ?h = "\<lparr>first_page_id = pid, heap_schema = wide_schema\<rparr>" and ?rid = "\<lparr>rid_page = pid, rid_slot = 0\<rparr> :: RowId"
  have fl: "length [pid] + 3 < length (free_list bp)" using free_frames[of bp] s(1,4,5) by (simp add: heap_inv_def)
  have "\<exists>q. q \<noteq> pid \<and> logical_ok q"
    by (rule exI[of _ "if pid = 0 then 1 else 0"]) (simp add: logical_ok_def MAX_EXTENTS_def BITMAP_SIZE_eq)
  then have dk: "\<exists>q. logical_ok q \<and> \<not> allocated bp q" using s(5) by auto
  have A: "heap_inv bp (first_page_id ?h) [pid]" "Suc (card {q. 0 < pins bp q}) < pool_size bp" "rid_page ?rid \<in> set [pid]"
    "row_ok (heap_schema ?h) (row_fields (wide_row 2000))" "row_fields (wide_row 2000) \<noteq> []" "SIZE_MAX_ROW < length (row_bytes (row_fields (wide_row 2000)))"
    "length (row_bytes (row_fields (wide_row 2000))) < 2 ^ 32" "0 = unat (rid_slot ?rid)" "0 < length (slots (view bp (rid_page ?rid)))"
    "slots (view bp (rid_page ?rid)) ! 0 = Some (False, ?b)" "row_ok (heap_schema ?h) (row_fields (wide_row 2))"
    using s wide_row_ok[of 2000] wide_row_ok(1)[of 2]
    by (simp_all add: SIZE_MAX_ROW_def PAGE_SIZE_def SIZE_TABLE_PAGE_HEADER_def SIZE_TUPLE_def del: length_slots nth_slots)
  from heap_update_loses_row[OF A dk fl] obtain new bp' where u: "TableHeap_UpdateTuple ?h (wide_row 2000) ?rid bp = Some (True, wide_row 2000, bp')"
    "heap_slots bp' ([pid] @ [new]) = without_slot pid 0 (heap_slots bp [pid]) @ [(new, [])]" by auto
  have "heap_slots bp' [pid, new] = [(pid, [None]), (new, [])]" using u(2) s(2) by (simp add: without_slot_def heap_slots_def)
  with u(1) s(2) show ?thesis by (intro exI[of _ pid] exI[of _ new] exI[of _ bp] exI[of _ bp'] conjI)
qed

text \<open>C22: Deleting a row of a table heap.  Marking reports success whether or not the row exists.  A live row is marked,
  a rollback restores the heap, and applying the deletion empties its slot; nothing else changes.\<close>

theorem heap_delete:
  assumes "heap_inv bp first pids" and "spare bp" and "rid_page rid \<in> set pids" and "i = unat (rid_slot rid)" and "ss = slots (view bp (rid_page rid))"
  shows "\<exists>bp1. TableHeap_MarkDelete rid bp = Some (True, bp1) \<and> heap_inv bp1 first pids \<and>
    ((\<nexists>c. i < length ss \<and> ss ! i = Some (False, c)) \<longrightarrow> heap_slots bp1 pids = heap_slots bp pids) \<and>
    (\<forall>c. i < length ss \<and> ss ! i = Some (False, c) \<longrightarrow>
      slots (view bp1 (rid_page rid)) = ss[i := Some (True, c)] \<and>
      (\<exists>bp2. TableHeap_RollbackDelete rid bp1 = Some bp2 \<and> heap_inv bp2 first pids \<and> heap_slots bp2 pids = heap_slots bp pids) \<and>
      (\<exists>bp3. TableHeap_ApplyDelete rid bp1 = Some bp3 \<and> heap_inv bp3 first pids \<and>
         heap_slots bp3 pids = without_slot (rid_page rid) i (heap_slots bp pids)))"
proof -
  let ?p = "rid_page rid"
  obtain bp1 where m: "TableHeap_MarkDelete rid bp = Some (True, bp1)" "page_changed bp bp1 ?p (snd (mark_slot i ss))"
    using heap_mark[OF assms(1-3)] assms(4,5) by blast
  note P = page_changed_heap[OF assms(1) m(2)]
  have s1: "slots (view bp1 ?p) = snd (mark_slot i ss)" by (rule P(4)[OF assms(3)])
  have hs: "map (\<lambda>(q, ts). (q, if q = ?p then ss else ts)) (heap_slots bp pids) = heap_slots bp pids"
    using assms(5) by (auto simp: heap_slots_def)
  have no: "heap_slots bp1 pids = heap_slots bp pids" if "\<nexists>c. i < length ss \<and> ss ! i = Some (False, c)"
  proof -
    have "mark_slot i ss = (False, ss)" using that unfolding mark_slot_def by (auto split: option.split bool.split)
    then show ?thesis unfolding P(2) by (simp only: snd_conv hs)
  qed
  have yes: "slots (view bp1 ?p) = ss[i := Some (True, c)] \<and>
      (\<exists>bp2. TableHeap_RollbackDelete rid bp1 = Some bp2 \<and> heap_inv bp2 first pids \<and> heap_slots bp2 pids = heap_slots bp pids) \<and>
      (\<exists>bp3. TableHeap_ApplyDelete rid bp1 = Some bp3 \<and> heap_inv bp3 first pids \<and> heap_slots bp3 pids = without_slot ?p i (heap_slots bp pids))"
    if c: "i < length ss" "ss ! i = Some (False, c)" for c
  proof (intro conjI)
    show s: "slots (view bp1 ?p) = ss[i := Some (True, c)]" using s1 c by (simp add: mark_slot_def)
    have sp: "spare bp1" using P(3) assms(2) by simp
    have um: "unmark_slot i (ss[i := Some (True, c)]) = ss" using c by (simp add: unmark_slot_def list_update_same_conv)
    obtain bp2 where r: "TableHeap_RollbackDelete rid bp1 = Some bp2" "page_changed bp1 bp2 ?p ss"
      using heap_rollback[OF P(1) sp assms(3,4)] s c(1) um by (auto simp del: length_slots)
    have "heap_slots bp2 pids = map (\<lambda>(q, ts). (q, if q = ?p then ss else ts)) (heap_slots bp pids)"
      unfolding page_changed_heap(2)[OF P(1) r(2)] P(2) by (simp add: case_prod_unfold)
    then show "\<exists>bp2. TableHeap_RollbackDelete rid bp1 = Some bp2 \<and> heap_inv bp2 first pids \<and> heap_slots bp2 pids = heap_slots bp pids"
      using r(1) page_changed_heap(1)[OF P(1) r(2)] hs by simp
    obtain bp3 where a: "TableHeap_ApplyDelete rid bp1 = Some bp3" "page_changed bp1 bp3 ?p (ss[i := None])"
      using heap_apply[OF P(1) sp assms(3,4)] s c(1) by (auto simp del: length_slots nth_slots)
    have "heap_slots bp3 pids = without_slot ?p i (heap_slots bp pids)"
      unfolding page_changed_heap(2)[OF P(1) a(2)] P(2) without_slot_def assms(5) by (simp add: heap_slots_def)
    then show "\<exists>bp3. TableHeap_ApplyDelete rid bp1 = Some bp3 \<and> heap_inv bp3 first pids \<and> heap_slots bp3 pids = without_slot ?p i (heap_slots bp pids)"
      using a(1) page_changed_heap(1)[OF P(1) a(2)] by simp
  qed
  show ?thesis using m(1) P(1) no yes by (intro exI[of _ bp1]) blast
qed

theorem heap_delete_witness:
  "\<exists>pid bp bp1 bp3. slots (view bp pid) = [Some (False, row_bytes (row_fields sample_row))] \<and>
    TableHeap_MarkDelete \<lparr>rid_page = pid, rid_slot = 0\<rparr> bp = Some (True, bp1) \<and>
    TableHeap_ApplyDelete \<lparr>rid_page = pid, rid_slot = 0\<rparr> bp1 = Some bp3 \<and> heap_slots bp3 [pid] = [(pid, [None])]"
proof -
  let ?b = "row_bytes (row_fields sample_row)"
  obtain pid bp where s: "heap_inv bp pid [pid]" "slots (view bp pid) = [Some (False, ?b)]" "pins bp = (\<lambda>q. 0)" "pool_size bp = 20"
    using sample_heap_row[OF sample_row_fits] sample_row_ok(2) by auto
  let ?rid = "\<lparr>rid_page = pid, rid_slot = 0\<rparr> :: RowId"
  have sp: "spare bp" using s(3,4) by (simp add: spare_def)
  have p: "rid_page ?rid \<in> set [pid]" by simp
  have live: "0 < length (slots (view bp pid)) \<and> slots (view bp pid) ! 0 = Some (False, ?b)" using s(2) by (simp del: length_slots nth_slots)
  have "\<exists>bp1 bp3. TableHeap_MarkDelete ?rid bp = Some (True, bp1) \<and> TableHeap_ApplyDelete ?rid bp1 = Some bp3 \<and>
      heap_slots bp3 [pid] = without_slot pid 0 (heap_slots bp [pid])"
    using heap_delete[OF s(1) sp p refl refl] live by (auto simp del: length_slots nth_slots)
  then obtain bp1 bp3 where u: "TableHeap_MarkDelete ?rid bp = Some (True, bp1)" "TableHeap_ApplyDelete ?rid bp1 = Some bp3"
    "heap_slots bp3 [pid] = without_slot pid 0 (heap_slots bp [pid])" by blast
  have "heap_slots bp3 [pid] = [(pid, [None])]" using u(3) s(2) by (simp add: without_slot_def heap_slots_def)
  with u(1,2) s(2) show ?thesis by (intro exI[of _ pid] exI[of _ bp] exI[of _ bp1] exI[of _ bp3] conjI)
qed

end
