(* ===== verification/Table_Iterator.thy ===== *)
theory Table_Iterator
  imports Table_Heap
begin

text \<open>The iterator over a table heap (\<^verbatim>\<open>storage/table_iterator.cpp\<close>, \<^verbatim>\<open>include/storage/table_iterator.h\<close>, and \<open>Begin\<close> and \<open>End\<close>
  of \<^verbatim>\<open>storage/table_heap.cpp\<close>).  \<open>live_rids\<close> lists the row ids of the live tuples in the order of the pages of the
  chain and of the slots in a page; \<open>operator++\<close> is shown to move from each of them to the next, so that the loop
  with which the executor reads a table visits every live row exactly once, provided that the first page
  of the heap holds one.\<close>

section \<open>Model\<close>

text \<open>An iterator holds a pointer to its row.  The rows that iterators have allocated are a list, and a
  pointer is an index into it.\<close>

type_synonym iterator = nat

definition TableIterator_new :: "Row \<Rightarrow> Row list \<Rightarrow> iterator \<times> Row list" where
  "TableIterator_new row rows = (length rows, rows @ [row])"

text \<open>Iterators are compared by the row ids they are at.  The code compares their heaps as well; the iterators of the
  model all belong to the one heap that is passed to the operations.\<close>

definition iterator_eq :: "iterator \<Rightarrow> iterator \<Rightarrow> Row list \<Rightarrow> bool" where
  "iterator_eq it it' rows \<longleftrightarrow> row_id (rows ! it) = row_id (rows ! it')"

definition GetRowId_64 :: "iterator \<Rightarrow> Row list \<Rightarrow> int" where
  "GetRowId_64 it rows = RowId_Get (row_id (rows ! it))"

definition TableHeap_Begin :: "table_heap \<Rightarrow> Row list \<Rightarrow> buffer_pool \<Rightarrow> (iterator \<times> Row list \<times> buffer_pool) option" where
  "TableHeap_Begin h rows bp = do {
     (page, bp) \<leftarrow> FetchPage bp (first_page_id h);
     c \<leftarrow> load_page bp page;
     (_, rid) \<leftarrow> GetFirstTupleRid c;
     let row = \<lparr>row_id = rid, row_fields = []\<rparr>;
     row \<leftarrow> (if rid \<noteq> INVALID_ROWID then map_option snd (TablePage_GetTuple row (heap_schema h) c) else Some row);
     q \<leftarrow> GetPageId bp page;
     (_, bp) \<leftarrow> UnpinPage bp q False;
     let (it, rows) = TableIterator_new row rows;
     Some (it, rows, bp) }"

definition TableHeap_End :: "Row list \<Rightarrow> iterator \<times> Row list" where
  "TableHeap_End rows = TableIterator_new \<lparr>row_id = INVALID_ROWID, row_fields = []\<rparr> rows"

text \<open>The loop of \<open>operator++\<close> over the pages that follow.\<close>

partial_function (option) next_page_loop :: "frame_id_t \<Rightarrow> RowId \<Rightarrow> buffer_pool \<Rightarrow> (frame_id_t \<times> RowId \<times> buffer_pool) option" where
  "next_page_loop page next_row_id bp = do {
     c \<leftarrow> load_page bp page;
     next_page_id \<leftarrow> GetNextPageId c;
     if next_page_id = INVALID_PAGE_ID then Some (page, next_row_id, bp)
     else do {
       q \<leftarrow> GetPageId bp page;
       (_, bp) \<leftarrow> UnpinPage bp q False;
       (page, bp) \<leftarrow> FetchPage bp next_page_id;
       c \<leftarrow> load_page bp page;
       (found, next_row_id) \<leftarrow> GetFirstTupleRid c;
       if found then Some (page, next_row_id, bp) else next_page_loop page next_row_id bp } }"

definition advance :: "table_heap \<Rightarrow> Row \<Rightarrow> buffer_pool \<Rightarrow> (Row \<times> buffer_pool) option" where
  "advance h row bp = do {
     (page, bp) \<leftarrow> FetchPage bp (rid_page (row_id row));
     c \<leftarrow> load_page bp page;
     (found, next_row_id) \<leftarrow> GetNextTupleRid (row_id row) c;
     (page, next_row_id, bp) \<leftarrow> (if found then Some (page, next_row_id, bp) else next_page_loop page next_row_id bp);
     q \<leftarrow> GetPageId bp page;
     (_, bp) \<leftarrow> UnpinPage bp q False;
     let row = row\<lparr>row_id := next_row_id\<rparr>;
     if next_row_id = INVALID_ROWID then Some (row, bp)
     else do {
       c \<leftarrow> load_page bp page;
       (_, row) \<leftarrow> TablePage_GetTuple row (heap_schema h) c;
       Some (row, bp) } }"

definition TableIterator_pre_inc :: "table_heap \<Rightarrow> iterator \<Rightarrow> Row list \<Rightarrow> buffer_pool \<Rightarrow> (iterator \<times> Row list \<times> buffer_pool) option" where
  "TableIterator_pre_inc h it rows bp = do {
     (row, bp) \<leftarrow> advance h (rows ! it) bp;
     Some (it, rows[it := row], bp) }"

text \<open>\<open>operator++(int)\<close> saves a copy of the iterator, that is of its pointer, before it advances.\<close>

definition TableIterator_post_inc :: "table_heap \<Rightarrow> iterator \<Rightarrow> Row list \<Rightarrow> buffer_pool \<Rightarrow> (iterator \<times> Row list \<times> buffer_pool) option" where
  "TableIterator_post_inc h it rows bp = do {
     let res = it;
     (row, bp) \<leftarrow> advance h (rows ! it) bp;
     Some (res, rows[it := row], bp) }"

text \<open>The loop of the clients: from the row of an iterator up to \<open>End()\<close>.\<close>

partial_function (option) scan :: "table_heap \<Rightarrow> Row \<Rightarrow> buffer_pool \<Rightarrow> (Row list \<times> buffer_pool) option" where
  "scan h row bp =
     (if row_id row = INVALID_ROWID then Some ([], bp)
      else do {
        (next_row, bp) \<leftarrow> advance h row bp;
        (rows, bp) \<leftarrow> scan h next_row bp;
        Some (row # rows, bp) })"

section \<open>Scanning a heap\<close>

text \<open>The row ids of the live tuples in the order of the chain and of the slots.\<close>

definition live_slots :: "slot list \<Rightarrow> nat list" where
  "live_slots ss = filter (\<lambda>k. case ss ! k of Some (False, b) \<Rightarrow> True | _ \<Rightarrow> False) [0..<length ss]"

definition live_rids :: "(page_id_t \<Rightarrow> byte list) \<Rightarrow> page_id_t list \<Rightarrow> RowId list" where
  "live_rids c pids = concat (map (\<lambda>q. map (\<lambda>i. \<lparr>rid_page = q, rid_slot = of_nat i\<rparr>) (live_slots (slots (c q)))) pids)"

definition first_rid :: "RowId list \<Rightarrow> RowId" where
  "first_rid rids = (case rids of [] \<Rightarrow> INVALID_ROWID | rid # _ \<Rightarrow> rid)"

lemma find_filter: "find P xs = (case filter P xs of [] \<Rightarrow> None | x # _ \<Rightarrow> Some x)"
  by (induction xs) auto

lemma live_from_first: "live_from 0 ss = (case live_slots ss of [] \<Rightarrow> None | i # _ \<Rightarrow> Some i)"
  by (simp add: live_from_def live_slots_def find_filter)

lemma live_from_next:
  assumes "live_slots ss = as @ i # bs"
  shows "live_from (Suc i) ss = (case bs of [] \<Rightarrow> None | j # _ \<Rightarrow> Some j)" "i < length ss"
proof -
  let ?P = "\<lambda>k. case ss ! k of Some (False, b) \<Rightarrow> True | _ \<Rightarrow> False"
  have "i \<in> set (live_slots ss)" using assms by simp
  then have i: "i < length ss" "?P i" by (auto simp: live_slots_def)
  then show "i < length ss" by simp
  have "[0..<length ss] = [0..<i] @ i # [Suc i..<length ss]" using i(1) by (metis less_imp_add_positive upt_add_eq_append upt_conv_Cons le0 add_0 less_or_eq_imp_le le_add_diff_inverse)
  then have "live_slots ss = filter ?P [0..<i] @ i # filter ?P [Suc i..<length ss]" using i(2) by (simp add: live_slots_def)
  moreover have "distinct (live_slots ss)" by (simp add: live_slots_def)
  ultimately have "bs = filter ?P [Suc i..<length ss]"
    using assms by (metis append_Cons_eq_iff distinct_append distinct.simps(2) disjoint_iff list.set_intros(1))
  then show "live_from (Suc i) ss = (case bs of [] \<Rightarrow> None | j # _ \<Rightarrow> Some j)" by (simp add: live_from_def find_filter)
qed

lemma live_rids_Cons: "live_rids c (q # qs) = map (\<lambda>i. \<lparr>rid_page = q, rid_slot = of_nat i\<rparr>) (live_slots (slots (c q))) @ live_rids c qs"
  by (simp add: live_rids_def)

lemma live_rids_append: "live_rids c (ps @ qs) = live_rids c ps @ live_rids c qs"
  by (simp add: live_rids_def)

section \<open>Moving to the next row\<close>

lemma first_rid_page:
  assumes "table_page_ok c" and "GetTablePageId c = Some q"
  shows "GetFirstTupleRid c = Some (live_slots (slots c) \<noteq> [], first_rid (map (\<lambda>i. \<lparr>rid_page = q, rid_slot = of_nat i\<rparr>) (live_slots (slots c))))"
  by (simp add: GetFirstTupleRid_spec[OF assms] live_from_first rid_at_def first_rid_def split: list.split)

lemma first_rid_append: "xs \<noteq> [] \<Longrightarrow> first_rid (xs @ ys) = first_rid xs"
  by (cases xs) (simp_all add: first_rid_def)

lemma next_page_loop_ok:
  assumes "holding bp0 bp p f" and "GetNextPageId (view bp0 p) = Some n" and "chain (view bp0) n qs" and sp: "spare bp0"
    and "\<And>q. q \<in> set (p # qs) \<Longrightarrow> allocated bp0 q \<and> q \<notin> touched bp0"
  shows "\<exists>f' p' bp'. next_page_loop f INVALID_ROWID bp = Some (f', first_rid (live_rids (view bp0) qs), bp') \<and> holding bp0 bp' p' f' \<and>
    p' \<in> set (p # qs) \<and> (live_rids (view bp0) qs \<noteq> [] \<longrightarrow> p' = rid_page (first_rid (live_rids (view bp0) qs)))"
  using assms(1-3,5)
proof (induction qs arbitrary: p f n bp)
  case Nil
  have l: "load_page bp f = Some (view bp0 p)" using holding_load[OF Nil.prems(1)] Nil.prems(4)[of p] by simp
  have n: "n = INVALID_PAGE_ID" using Nil.prems(3) by simp
  have "next_page_loop f INVALID_ROWID bp = Some (f, INVALID_ROWID, bp)"
    by (subst next_page_loop.simps) (simp add: l Nil.prems(2) n)
  moreover have "first_rid (live_rids (view bp0) []) = INVALID_ROWID" "live_rids (view bp0) [] = []" by (simp_all add: live_rids_def first_rid_def)
  ultimately show ?case using Nil.prems(1) by auto
next
  case (Cons q qs)
  have a: "allocated bp0 p" "p \<notin> touched bp0" "allocated bp0 q" using Cons.prems(4)[of p] Cons.prems(4)[of q] by simp_all
  obtain m where q: "q = n" "table_page_ok (view bp0 q)" "GetTablePageId (view bp0 q) = Some q" "GetNextPageId (view bp0 q) = Some m" "chain (view bp0) m qs"
    using Cons.prems(3) by auto
  have l: "load_page bp f = Some (view bp0 p)" "GetPageId bp f = Some p" using holding_load[OF Cons.prems(1) a(1)] by simp_all
  obtain bp1 where u: "UnpinPage bp p False = Some (True, bp1)" "kept bp0 bp1 (view bp0)" by (rule unpin_holding[OF Cons.prems(1) a(1,2)])
  obtain f2 bp2 where h: "FetchPage bp1 q = Some (f2, bp2)" "holding bp0 bp2 q f2" by (rule fetch_holding[OF u(2) sp a(3)])
  have l2: "load_page bp2 f2 = Some (view bp0 q)" using holding_load[OF h(2) a(3)] by simp
  let ?ls = "map (\<lambda>i. \<lparr>rid_page = q, rid_slot = of_nat i\<rparr> :: RowId) (live_slots (slots (view bp0 q)))"
  have step: "next_page_loop f INVALID_ROWID bp =
      (if live_slots (slots (view bp0 q)) \<noteq> [] then Some (f2, first_rid ?ls, bp2) else next_page_loop f2 (first_rid ?ls) bp2)"
    by (subst next_page_loop.simps)
      (simp add: l Cons.prems(2) q(1)[symmetric] allocated_not_INVALID[OF a(3)] u(1) h(1) l2 first_rid_page[OF q(2,3)])
  show ?case
  proof (cases "live_slots (slots (view bp0 q))")
    case (Cons i rest)
    then have "next_page_loop f INVALID_ROWID bp = Some (f2, first_rid (live_rids (view bp0) (q # qs)), bp2)"
      using step by (simp add: live_rids_Cons first_rid_def)
    moreover have "rid_page (first_rid (live_rids (view bp0) (q # qs))) = q" using Cons by (simp add: live_rids_Cons first_rid_def)
    ultimately show ?thesis using h(2) by auto
  next
    case Nil
    then have e: "next_page_loop f INVALID_ROWID bp = next_page_loop f2 INVALID_ROWID bp2" "live_rids (view bp0) (q # qs) = live_rids (view bp0) qs"
      using step by (simp_all add: live_rids_Cons first_rid_def)
    have "\<exists>f' p' bp'. next_page_loop f2 INVALID_ROWID bp2 = Some (f', first_rid (live_rids (view bp0) qs), bp') \<and> holding bp0 bp' p' f' \<and>
      p' \<in> set (q # qs) \<and> (live_rids (view bp0) qs \<noteq> [] \<longrightarrow> p' = rid_page (first_rid (live_rids (view bp0) qs)))"
      by (rule Cons.IH[OF h(2) q(4,5)]) (use Cons.prems(4) in simp)
    then show ?thesis unfolding e by auto
  qed
qed

lemma chain_suffix:
  "chain c first (ps @ p # qs) \<Longrightarrow> table_page_ok (c p) \<and> GetTablePageId (c p) = Some p \<and> (\<exists>n. GetNextPageId (c p) = Some n \<and> chain c n qs)"
  by (induction ps arbitrary: first) auto

lemma live_rids_split:
  assumes "live_rids c pids = as @ rid # bs"
  obtains ps p qs xs i ys where "pids = ps @ p # qs" "live_slots (slots (c p)) = xs @ i # ys" "rid = \<lparr>rid_page = p, rid_slot = of_nat i\<rparr>"
    "bs = map (\<lambda>i. \<lparr>rid_page = p, rid_slot = of_nat i\<rparr>) ys @ live_rids c qs"
  using assms
proof (induction pids arbitrary: as thesis)
  case Nil
  then show ?case by (simp add: live_rids_def)
next
  case (Cons q pids)
  let ?L = "map (\<lambda>i. \<lparr>rid_page = q, rid_slot = of_nat i\<rparr> :: RowId) (live_slots (slots (c q)))"
  note IH = Cons.IH and goal = Cons.prems(1)
  from Cons.prems(2) have "?L @ live_rids c pids = as @ rid # bs" by (simp add: live_rids_Cons)
  then consider zs where "?L @ zs = as" "live_rids c pids = zs @ rid # bs" | zs where "?L = as @ zs" "zs @ live_rids c pids = rid # bs"
    by (auto simp: append_eq_append_conv2)
  then show ?case
  proof cases
    case 1
    obtain ps p qs xs i ys where "pids = ps @ p # qs" "live_slots (slots (c p)) = xs @ i # ys" "rid = \<lparr>rid_page = p, rid_slot = of_nat i\<rparr>"
      "bs = map (\<lambda>i. \<lparr>rid_page = p, rid_slot = of_nat i\<rparr>) ys @ live_rids c qs" using IH[OF _ 1(2)] by blast
    then show ?thesis using goal[of "q # ps" p qs] by simp
  next
    case 2
    show ?thesis
    proof (cases zs)
      case Nil
      then have e: "live_rids c pids = [] @ rid # bs" using 2(2) by simp
      obtain ps p qs xs i ys where "pids = ps @ p # qs" "live_slots (slots (c p)) = xs @ i # ys" "rid = \<lparr>rid_page = p, rid_slot = of_nat i\<rparr>"
        "bs = map (\<lambda>i. \<lparr>rid_page = p, rid_slot = of_nat i\<rparr>) ys @ live_rids c qs" using IH[OF _ e] by blast
      then show ?thesis using goal[of "q # ps" p qs] by simp
    next
      case (Cons z zs')
      then have "z = rid" "bs = zs' @ live_rids c pids" using 2(2) by simp_all
      moreover from 2(1) Cons obtain xs i ys where "live_slots (slots (c q)) = xs @ i # ys" "z = \<lparr>rid_page = q, rid_slot = of_nat i\<rparr>"
        "zs' = map (\<lambda>i. \<lparr>rid_page = q, rid_slot = of_nat i\<rparr>) ys" by (auto simp: map_eq_append_conv map_eq_Cons_conv)
      ultimately show ?thesis using goal[of "[]" q pids xs i ys] by simp
    qed
  qed
qed

text \<open>Every live tuple is a row of the schema.\<close>

definition heap_typed :: "Schema \<Rightarrow> (page_id_t \<Rightarrow> byte list) \<Rightarrow> page_id_t list \<Rightarrow> bool" where
  "heap_typed schema c pids \<longleftrightarrow> (\<forall>q \<in> set pids. \<forall>b. Some (False, b) \<in> set (slots (c q)) \<longrightarrow> (\<exists>fs. row_ok schema fs \<and> b = row_bytes fs))"

text \<open>A row that holds what is stored at its row id.\<close>

definition stored_row :: "Schema \<Rightarrow> (page_id_t \<Rightarrow> byte list) \<Rightarrow> Row \<Rightarrow> bool" where
  "stored_row schema c row \<longleftrightarrow> row_ok schema (row_fields row) \<and>
     (let ss = slots (c (rid_page (row_id row))); i = unat (rid_slot (row_id row))
      in i < length ss \<and> ss ! i = Some (False, row_bytes (row_fields row)))"

lemma live_slot_number:
  assumes "table_page_ok c" and "i \<in> set (live_slots (slots c))"
  shows "i < length (slots c)" "unat (of_nat i :: u32) = i" "\<exists>b. slots c ! i = Some (False, b)"
proof -
  show i: "i < length (slots c)" using assms(2) by (simp add: live_slots_def)
  then have "i \<le> PAGE_SIZE" using table_page_okD(2,3)[OF assms(1)] by simp
  then show "unat (of_nat i :: u32) = i" by (rule small_u32)
  show "\<exists>b. slots c ! i = Some (False, b)"
    using assms(2) by (auto simp: live_slots_def split: option.splits bool.splits prod.splits simp del: nth_slots)
qed

lemma read_live:
  assumes inv: "heap_inv bp first pids" and ty: "heap_typed schema (view bp) pids" and rid: "rid \<in> set (live_rids (view bp) pids)"
  obtains row' where "TablePage_GetTuple (row\<lparr>row_id := rid\<rparr>) schema (view bp (rid_page rid)) = Some (True, row')" "row_id row' = rid"
    "stored_row schema (view bp) row'" "rid_page rid \<in> set pids" "rid \<noteq> INVALID_ROWID"
proof -
  from rid obtain p i where r: "p \<in> set pids" "i \<in> set (live_slots (slots (view bp p)))" "rid = \<lparr>rid_page = p, rid_slot = of_nat i\<rparr>"
    by (auto simp: live_rids_def)
  have ok: "table_page_ok (view bp p)" and a: "allocated bp p" using heap_invD(5,6)[OF inv r(1)] by simp_all
  note I = live_slot_number[OF ok r(2)]
  from I(3) obtain b where b: "slots (view bp p) ! i = Some (False, b)" by blast
  have "Some (False, b) \<in> set (slots (view bp p))" using I(1) b by (metis nth_mem)
  then obtain fs where fs: "row_ok schema fs" "b = row_bytes fs" using ty r(1) unfolding heap_typed_def by blast
  let ?row = "row\<lparr>row_id := rid\<rparr>"
  have v: "RowId_Get rid \<noteq> RowId_Get INVALID_ROWID"
    by (rule RowId_Get_valid) (use allocated_int32[OF a] allocated_not_INVALID[OF a] r(3) in simp_all)
  have "TablePage_GetTuple ?row schema (view bp p) = Some (True, ?row\<lparr>row_fields := fs\<rparr>)"
    using GetTuple_spec(1)[OF ok, of ?row fs schema] v I b fs r(3) by (simp del: length_slots nth_slots)
  moreover have "stored_row schema (view bp) (?row\<lparr>row_fields := fs\<rparr>)"
    using I b fs r(3) by (simp add: stored_row_def del: length_slots nth_slots)
  moreover have "rid \<noteq> INVALID_ROWID" using v by auto
  ultimately show ?thesis using that[of "?row\<lparr>row_fields := fs\<rparr>"] r(1,3) by simp
qed

lemma advance_ok:
  assumes inv: "heap_inv bp first pids" and sp: "spare bp" and ty: "heap_typed (heap_schema h) (view bp) pids"
    and live: "live_rids (view bp) pids = as @ row_id row # bs" and k: "kept bp bp0 (view bp)"
  shows "\<exists>row' bp'. advance h row bp0 = Some (row', bp') \<and> kept bp bp' (view bp) \<and> row_id row' = first_rid bs \<and>
    (bs \<noteq> [] \<longrightarrow> stored_row (heap_schema h) (view bp) row')"
proof -
  note H = heap_invD[OF inv]
  obtain ps p qs xs i ys where r: "pids = ps @ p # qs" "live_slots (slots (view bp p)) = xs @ i # ys" "row_id row = \<lparr>rid_page = p, rid_slot = of_nat i\<rparr>"
    "bs = map (\<lambda>i. \<lparr>rid_page = p, rid_slot = of_nat i\<rparr>) ys @ live_rids (view bp) qs" using live_rids_split[OF live] by metis
  have c: "table_page_ok (view bp p)" "GetTablePageId (view bp p) = Some p" using chain_suffix[OF H(2)[unfolded r(1)]] by blast+
  obtain n where n: "GetNextPageId (view bp p) = Some n" "chain (view bp) n qs" using chain_suffix[OF H(2)[unfolded r(1)]] by blast
  have aq: "allocated bp q \<and> q \<notin> touched bp" if "q \<in> set (p # qs)" for q using H(5)[of q] that r(1) by auto
  then have a: "allocated bp p" "p \<notin> touched bp" by simp_all
  obtain f bp1 where h: "FetchPage bp0 p = Some (f, bp1)" "holding bp bp1 p f" by (rule fetch_holding[OF k sp a(1)])
  have l1: "load_page bp1 f = Some (view bp p)" using holding_load[OF h(2) a(1)] by simp
  have i: "i \<in> set (live_slots (slots (view bp p)))" using r(2) by simp
  note I = live_slot_number[OF c(1) i]
  let ?L = "map (\<lambda>i. \<lparr>rid_page = p, rid_slot = of_nat i\<rparr> :: RowId) ys"
  have nx: "GetNextTupleRid (row_id row) (view bp p) = Some (ys \<noteq> [], first_rid ?L)"
    using GetNextTupleRid_spec[OF c(1), of "row_id row"] c(2) I live_from_next(1)[OF r(2)] r(3)
    by (simp add: rid_at_def first_rid_def split: list.split)
  have "\<exists>f' p' bp2. (if ys \<noteq> [] then Some (f, first_rid ?L, bp1) else next_page_loop f (first_rid ?L) bp1) = Some (f', first_rid bs, bp2) \<and>
      holding bp bp2 p' f' \<and> p' \<in> set (p # qs) \<and> (bs \<noteq> [] \<longrightarrow> p' = rid_page (first_rid bs))"
  proof (cases ys)
    case Nil
    then have "first_rid ?L = INVALID_ROWID" "bs = live_rids (view bp) qs" using r(4) by (simp_all add: first_rid_def)
    then show ?thesis using next_page_loop_ok[OF h(2) n sp aq] Nil by simp
  next
    case (Cons j js)
    then show ?thesis using h(2) r(4) by (auto simp: first_rid_def)
  qed
  then obtain f' p' bp2 where s: "(if ys \<noteq> [] then Some (f, first_rid ?L, bp1) else next_page_loop f (first_rid ?L) bp1) = Some (f', first_rid bs, bp2)"
    "holding bp bp2 p' f'" "p' \<in> set (p # qs)" "bs \<noteq> [] \<longrightarrow> p' = rid_page (first_rid bs)" by (elim exE conjE) (rule that; assumption)
  have ap: "allocated bp p'" "p' \<notin> touched bp" using aq[OF s(3)] by simp_all
  obtain bp3 where u: "UnpinPage bp2 p' False = Some (True, bp3)" "kept bp bp3 (view bp)" "load_page bp3 f' = Some (view bp p')"
    by (rule unpin_holding[OF s(2) ap])
  have g: "GetPageId bp2 f' = Some p'" using holding_load[OF s(2) ap(1)] by simp
  have fp: "FetchPage bp0 (rid_page (row_id row)) = Some (f, bp1)" using h(1) r(3) by simp
  have run: "advance h row bp0 = (let row = row\<lparr>row_id := first_rid bs\<rparr> in if first_rid bs = INVALID_ROWID then Some (row, bp3)
      else do { (_, row) \<leftarrow> TablePage_GetTuple row (heap_schema h) (view bp p'); Some (row, bp3) })"
    by (simp add: advance_def fp l1 nx s(1) g u(1,3) Let_def)
  show ?thesis
  proof (cases bs)
    case Nil
    then have e: "first_rid bs = INVALID_ROWID" by (simp add: first_rid_def)
    have "advance h row bp0 = Some (row\<lparr>row_id := INVALID_ROWID\<rparr>, bp3)" unfolding run e by simp
    then show ?thesis using u(2) e Nil by auto
  next
    case (Cons rid rest)
    then have e: "first_rid bs = rid" "p' = rid_page rid" using s(4) by (simp_all add: first_rid_def)
    have "rid \<in> set (live_rids (view bp) pids)" using live Cons by simp
    then obtain row' where w: "TablePage_GetTuple (row\<lparr>row_id := rid\<rparr>) (heap_schema h) (view bp (rid_page rid)) = Some (True, row')" "row_id row' = rid"
      "stored_row (heap_schema h) (view bp) row'" "rid_page rid \<in> set pids" "rid \<noteq> INVALID_ROWID" by (rule read_live[OF inv ty])
    have "advance h row bp0 = Some (row', bp3)" unfolding run e using w(1,5) by simp
    then show ?thesis using u(2) e(1) w(2,3) by auto
  qed
qed

lemma scan_ok:
  assumes "heap_inv bp first pids" and "spare bp" and "heap_typed (heap_schema h) (view bp) pids"
    and "live_rids (view bp) pids = as @ row_id row # bs" and "stored_row (heap_schema h) (view bp) row" and "kept bp bp0 (view bp)"
  shows "\<exists>rows bp'. scan h row bp0 = Some (rows, bp') \<and> kept bp bp' (view bp) \<and> map row_id rows = row_id row # bs \<and>
    (\<forall>r \<in> set rows. stored_row (heap_schema h) (view bp) r)"
  using assms(4-6)
proof (induction bs arbitrary: as row bp0)
  case (Nil as row bp0)
  obtain row' bp' where a: "advance h row bp0 = Some (row', bp')" "kept bp bp' (view bp)" "row_id row' = first_rid []"
    using advance_ok[OF assms(1-3) Nil.prems(1,3)] by blast
  have v: "row_id row \<noteq> INVALID_ROWID" using read_live[OF assms(1,3), of "row_id row"] Nil.prems(1) by auto
  have "scan h row' bp' = Some ([], bp')" by (subst scan.simps) (simp add: a(3) first_rid_def)
  then have "scan h row bp0 = Some ([row], bp')" by (subst scan.simps) (simp add: v a(1))
  then show ?case using a(2) Nil.prems(2) by simp
next
  case (Cons rid bs as row bp0)
  obtain row' bp' where a: "advance h row bp0 = Some (row', bp')" "kept bp bp' (view bp)" "row_id row' = rid" "stored_row (heap_schema h) (view bp) row'"
    using advance_ok[OF assms(1-3) Cons.prems(1,3)] by (auto simp: first_rid_def)
  have v: "row_id row \<noteq> INVALID_ROWID" using read_live[OF assms(1,3), of "row_id row"] Cons.prems(1) by auto
  have "live_rids (view bp) pids = (as @ [row_id row]) @ row_id row' # bs" using Cons.prems(1) a(3) by simp
  from Cons.IH[OF this a(4,2)] obtain rows bp'' where s: "scan h row' bp' = Some (rows, bp'')" "kept bp bp'' (view bp)"
    "map row_id rows = row_id row' # bs" "\<forall>r \<in> set rows. stored_row (heap_schema h) (view bp) r"
    by (elim exE conjE) (rule that; assumption)
  have "scan h row bp0 = Some (row # rows, bp'')" by (subst scan.simps) (simp add: v a(1) s(1))
  then show ?case using s(2-4) a(3) Cons.prems(2) by simp
qed

lemma distinct_live_rids:
  assumes "chain c first pids" and "distinct pids"
  shows "distinct (live_rids c pids)"
  using assms
proof (induction pids arbitrary: first)
  case (Cons q qs)
  then have ok: "table_page_ok (c q)" "distinct (live_rids c qs)" by auto
  have "inj_on (\<lambda>i. \<lparr>rid_page = q, rid_slot = of_nat i\<rparr> :: RowId) (set (live_slots (slots (c q))))"
  proof (rule inj_onI)
    fix i j assume ij: "i \<in> set (live_slots (slots (c q)))" "j \<in> set (live_slots (slots (c q)))"
      and eq: "(\<lparr>rid_page = q, rid_slot = of_nat i\<rparr> :: RowId) = \<lparr>rid_page = q, rid_slot = of_nat j\<rparr>"
    from eq have "(of_nat i :: u32) = of_nat j" by simp
    then have "unat (of_nat i :: u32) = unat (of_nat j :: u32)" by (rule arg_cong)
    then show "i = j" unfolding live_slot_number(2)[OF ok(1) ij(1)] live_slot_number(2)[OF ok(1) ij(2)] .
  qed
  moreover have "distinct (live_slots (slots (c q)))" by (simp add: live_slots_def)
  moreover have "\<lparr>rid_page = q, rid_slot = k\<rparr> \<notin> set (live_rids c qs)" for k using Cons.prems(2) by (auto simp: live_rids_def)
  ultimately show ?case using ok(2) Cons.prems(2) by (auto simp: live_rids_Cons distinct_map)
qed (simp add: live_rids_def)

lemma begin_ok:
  assumes inv: "heap_inv bp (first_page_id h) pids" and sp: "spare bp" and ty: "heap_typed (heap_schema h) (view bp) pids"
    and ls: "ls = live_slots (slots (view bp (first_page_id h)))"
  shows "\<exists>row bp'. TableHeap_Begin h rows bp = Some (length rows, rows @ [row], bp') \<and> kept bp bp' (view bp) \<and>
    (if ls = [] then row_id row = INVALID_ROWID
     else stored_row (heap_schema h) (view bp) row \<and> (\<exists>bs. live_rids (view bp) pids = row_id row # bs))"
proof -
  note H = heap_invD[OF inv] and F = heap_first[OF inv]
  let ?p = "first_page_id h"
  have p: "?p \<in> set pids" using F by blast
  have a: "allocated bp ?p" "?p \<notin> touched bp" "table_page_ok (view bp ?p)" "GetTablePageId (view bp ?p) = Some ?p" using H(5,6)[OF p] by simp_all
  obtain f bp1 bp2 where v: "FetchPage bp ?p = Some (f, bp1)" "load_page bp1 f = Some (view bp ?p)" "GetPageId bp1 f = Some ?p"
    "UnpinPage bp1 ?p False = Some (True, bp2)" "kept bp bp2 (view bp)" by (rule visit_page_read[OF H(1) a(1) sp a(2)])
  let ?rid = "first_rid (map (\<lambda>i. \<lparr>rid_page = ?p, rid_slot = of_nat i\<rparr>) ls)"
  have g: "GetFirstTupleRid (view bp ?p) = Some (ls \<noteq> [], ?rid)" using first_rid_page[OF a(3,4)] ls by simp
  show ?thesis
  proof (cases ls)
    case Nil
    then have "TableHeap_Begin h rows bp = Some (length rows, rows @ [\<lparr>row_id = INVALID_ROWID, row_fields = []\<rparr>], bp2)"
      by (simp add: TableHeap_Begin_def v g first_rid_def Let_def TableIterator_new_def)
    then show ?thesis using v(5) Nil by auto
  next
    case (Cons i rest)
    obtain qs where q: "pids = ?p # qs" using F H(4) by (cases pids) auto
    have live: "live_rids (view bp) pids = ?rid # map (\<lambda>i. \<lparr>rid_page = ?p, rid_slot = of_nat i\<rparr>) rest @ live_rids (view bp) qs"
      unfolding q using Cons ls by (simp add: live_rids_Cons first_rid_def)
    then have "?rid \<in> set (live_rids (view bp) pids)" by simp
    then obtain row where w: "TablePage_GetTuple (\<lparr>row_id = INVALID_ROWID, row_fields = []\<rparr>\<lparr>row_id := ?rid\<rparr>) (heap_schema h) (view bp (rid_page ?rid)) = Some (True, row)"
      "row_id row = ?rid" "stored_row (heap_schema h) (view bp) row" "?rid \<noteq> INVALID_ROWID" by (rule read_live[OF inv ty])
    have rp: "rid_page ?rid = ?p" using Cons by (simp add: first_rid_def)
    have "TableHeap_Begin h rows bp = Some (length rows, rows @ [row], bp2)"
      using w(1,4) unfolding rp by (simp add: TableHeap_Begin_def v g Let_def TableIterator_new_def)
    then show ?thesis using v(5) w(2,3) live Cons by auto
  qed
qed

section \<open>Properties\<close>

text \<open>The rows of a heap: the row ids that a scan visits, and the fields that are stored for them.\<close>

definition visited_rids :: "(page_id_t \<Rightarrow> byte list) \<Rightarrow> table_heap \<Rightarrow> page_id_t list \<Rightarrow> RowId list" where
  "visited_rids c h pids = (if live_slots (slots (c (first_page_id h))) = [] then [] else live_rids c pids)"

definition stored_fields :: "Schema \<Rightarrow> (page_id_t \<Rightarrow> byte list) \<Rightarrow> RowId \<Rightarrow> Field list" where
  "stored_fields schema c rid = (case slots (c (rid_page rid)) ! unat (rid_slot rid) of
     Some (_, b) \<Rightarrow> snd (the (fields_DeserializeFrom schema b 0 0)) | None \<Rightarrow> [])"

definition table_rows :: "Schema \<Rightarrow> (page_id_t \<Rightarrow> byte list) \<Rightarrow> RowId list \<Rightarrow> Row list" where
  "table_rows schema c rids = map (\<lambda>rid. \<lparr>row_id = rid, row_fields = stored_fields schema c rid\<rparr>) rids"

lemma stored_row_fields:
  assumes "stored_row schema c row"
  shows "row = \<lparr>row_id = row_id row, row_fields = stored_fields schema c (row_id row)\<rparr>"
proof -
  have r: "row_ok schema (row_fields row)" and s: "slots (c (rid_page (row_id row))) ! unat (rid_slot (row_id row)) = Some (False, row_bytes (row_fields row))"
    using assms by (simp_all add: stored_row_def Let_def)
  have "mem_read (row_bytes (row_fields row)) (0 + 0) (length (row_bytes (row_fields row))) = Some (row_bytes (row_fields row))"
    by (simp add: mem_read_def)
  then have "fields_DeserializeFrom schema (row_bytes (row_fields row)) 0 0 = Some (0 + length (row_bytes (row_fields row)), row_fields row)"
    by (rule fields_DeserializeFrom_ok[OF r])
  then show ?thesis using s by (cases row) (simp add: stored_fields_def)
qed

lemma visit_all:
  assumes "heap_inv bp (first_page_id h) pids" and "spare bp" and "heap_typed (heap_schema h) (view bp) pids"
  shows "\<exists>row bp1 bp2. TableHeap_Begin h rows bp = Some (length rows, rows @ [row], bp1) \<and>
    scan h row bp1 = Some (table_rows (heap_schema h) (view bp) (visited_rids (view bp) h pids), bp2) \<and> kept bp bp2 (view bp) \<and>
    (\<forall>r \<in> set (table_rows (heap_schema h) (view bp) (visited_rids (view bp) h pids)). stored_row (heap_schema h) (view bp) r)"
proof -
  let ?e = "live_slots (slots (view bp (first_page_id h))) = []"
  obtain row bp1 where b: "TableHeap_Begin h rows bp = Some (length rows, rows @ [row], bp1)" "kept bp bp1 (view bp)"
    "if ?e then row_id row = INVALID_ROWID
     else stored_row (heap_schema h) (view bp) row \<and> (\<exists>bs. live_rids (view bp) pids = row_id row # bs)"
    using begin_ok[OF assms refl, of rows] by (elim exE conjE) (rule that; assumption)
  have "\<exists>rs bp2. scan h row bp1 = Some (rs, bp2) \<and> kept bp bp2 (view bp) \<and> map row_id rs = visited_rids (view bp) h pids \<and>
      (\<forall>r \<in> set rs. stored_row (heap_schema h) (view bp) r)"
  proof (cases ?e)
    case True
    have "scan h row bp1 = Some ([], bp1)" by (subst scan.simps) (use b(3) True in simp)
    then show ?thesis using b(2) True by (simp add: visited_rids_def)
  next
    case False
    then obtain bs where bs: "live_rids (view bp) pids = [] @ row_id row # bs" "stored_row (heap_schema h) (view bp) row" using b(3) by auto
    show ?thesis using scan_ok[OF assms bs b(2)] bs(1) False by (simp add: visited_rids_def)
  qed
  then obtain rs bp2 where s: "scan h row bp1 = Some (rs, bp2)" "kept bp bp2 (view bp)" "map row_id rs = visited_rids (view bp) h pids"
    "\<forall>r \<in> set rs. stored_row (heap_schema h) (view bp) r" by (elim exE conjE) (rule that; assumption)
  have "r = \<lparr>row_id = row_id r, row_fields = stored_fields (heap_schema h) (view bp) (row_id r)\<rparr>" if "r \<in> set rs" for r
    using stored_row_fields s(4) that by blast
  then have "map (\<lambda>r. r) rs = map (\<lambda>r. \<lparr>row_id = row_id r, row_fields = stored_fields (heap_schema h) (view bp) (row_id r)\<rparr>) rs" by (intro map_cong) auto
  then have "rs = table_rows (heap_schema h) (view bp) (visited_rids (view bp) h pids)" by (simp add: table_rows_def flip: s(3)) (simp add: comp_def)
  then show ?thesis using b(1) s by auto
qed

text \<open>C6: Scanning a table.  The loop from \<open>Begin()\<close> to \<open>End()\<close> terminates; if the first page of the heap has a live row, the
  loop visits the live rows of all pages, each exactly once, in the order of pages and slots, with
  the fields that are stored; the heap is left as it was.  If the first page has no live row the loop
  visits nothing, even if later pages have rows, because \<open>Begin()\<close> looks at the first page only.\<close>

theorem heap_scan:
  assumes "heap_inv bp (first_page_id h) pids" and "spare bp" and "heap_typed (heap_schema h) (view bp) pids"
  shows "\<exists>it rows' bp1 rs bp2. TableHeap_Begin h rows bp = Some (it, rows', bp1) \<and> scan h (rows' ! it) bp1 = Some (rs, bp2) \<and>
    map row_id rs = (if live_slots (slots (view bp (first_page_id h))) = [] then [] else live_rids (view bp) pids) \<and>
    distinct (map row_id rs) \<and> (\<forall>r \<in> set rs. stored_row (heap_schema h) (view bp) r) \<and>
    heap_inv bp2 (first_page_id h) pids \<and> heap_slots bp2 pids = heap_slots bp pids \<and> pins bp2 = pins bp"
proof -
  note H = heap_invD[OF assms(1)]
  have d: "distinct (live_rids (view bp) pids)" by (rule distinct_live_rids[OF H(2,3)])
  let ?e = "live_slots (slots (view bp (first_page_id h))) = []"
  let ?rs = "table_rows (heap_schema h) (view bp) (visited_rids (view bp) h pids)"
  obtain row bp1 bp2 where b: "TableHeap_Begin h rows bp = Some (length rows, rows @ [row], bp1)" "scan h row bp1 = Some (?rs, bp2)" "kept bp bp2 (view bp)"
    "\<forall>r \<in> set ?rs. stored_row (heap_schema h) (view bp) r" using visit_all[OF assms, of rows] by (elim exE conjE) (rule that; assumption)
  have i: "map row_id ?rs = (if ?e then [] else live_rids (view bp) pids)" by (simp add: table_rows_def visited_rids_def comp_def)
  have "distinct (map row_id ?rs)" unfolding i using d by simp
  moreover have "pins bp2 = pins bp" using b(3) by (simp add: kept_def)
  ultimately show ?thesis using b i heap_inv_kept[OF assms(1) b(3)]
    by (intro exI[of _ "length rows"] exI[of _ "rows @ [row]"] exI[of _ bp1] exI[of _ ?rs] exI[of _ bp2]) simp
qed

theorem heap_scan_witness:
  "\<exists>pid bp it rows' bp1 rs bp2. TableHeap_Begin \<lparr>first_page_id = pid, heap_schema = sample_schema\<rparr> [] bp = Some (it, rows', bp1) \<and>
    scan \<lparr>first_page_id = pid, heap_schema = sample_schema\<rparr> (rows' ! it) bp1 = Some (rs, bp2) \<and>
    map row_id rs = [\<lparr>rid_page = pid, rid_slot = 0\<rparr>]"
proof -
  let ?b = "row_bytes (row_fields sample_row)"
  obtain pid bp where s: "heap_inv bp pid [pid]" "slots (view bp pid) = [Some (False, ?b)]" "pins bp = (\<lambda>q. 0)" "pool_size bp = 20"
    using sample_heap_row[OF sample_row_fits] sample_row_ok(2) by auto
  let ?h = "\<lparr>first_page_id = pid, heap_schema = sample_schema\<rparr>"
  have l: "live_slots (slots (view bp pid)) = [0]" by (simp add: s(2) live_slots_def)
  have "heap_typed (heap_schema ?h) (view bp) [pid]" using s(2) sample_row_ok(1) by (auto simp: heap_typed_def)
  moreover have "heap_inv bp (first_page_id ?h) [pid]" "spare bp" using s by (simp_all add: spare_def)
  ultimately obtain it rows' bp1 rs bp2 where "TableHeap_Begin ?h [] bp = Some (it, rows', bp1)" "scan ?h (rows' ! it) bp1 = Some (rs, bp2)"
    "map row_id rs = live_rids (view bp) [pid]" using heap_scan[of bp ?h "[pid]" "[]"] l by auto
  moreover have "live_rids (view bp) [pid] = [\<lparr>rid_page = pid, rid_slot = 0\<rparr>]" using l by (simp add: live_rids_def)
  ultimately show ?thesis
    by (intro exI[of _ pid] exI[of _ bp] exI[of _ it] exI[of _ rows'] exI[of _ bp1] exI[of _ rs] exI[of _ bp2]) simp
qed

text \<open>The copy that \<open>operator++(int)\<close> returns shares the row with the iterator, so that it has moved on as well: on return
  the two increment operators cannot be told apart.\<close>

lemma post_inc_shares_row:
  "TableIterator_post_inc h it rows bp = TableIterator_pre_inc h it rows bp"
  "TableIterator_post_inc h it rows bp = Some (res, rows', bp') \<Longrightarrow> iterator_eq res it rows'"
  by (auto simp: TableIterator_post_inc_def TableIterator_pre_inc_def iterator_eq_def split: bind_splits)

end
