(* ===== verification/Index_Key.thy ===== *)
theory Index_Key
  imports Records
begin

text \<open>The keys of the indexes and their order (\<^verbatim>\<open>include/index/generic_key.h\<close>, \<^verbatim>\<open>include/index/basic_comparator.h\<close>).  A key is an
  array of \<open>KeySize\<close> characters; the comparator goes through the arrays and compares the first
  characters that differ, as signed characters.  The locale \<open>key_order\<close> states what the pages of the B+ tree need of a
  comparator; it is interpreted on both comparators of the program.\<close>

section \<open>Model\<close>

type_synonym key = "byte list"

definition SerializeFromKey :: "nat \<Rightarrow> Row \<Rightarrow> Schema \<Rightarrow> key option" where
  "SerializeFromKey KeySize key schema = do {
     size \<leftarrow> Row_GetSerializedSize key;
     if length (row_fields key) \<noteq> length schema \<or> KeySize < size then None
     else map_option snd (Row_SerializeTo key (replicate KeySize 0) 0) }"

definition DeserializeToKey :: "nat \<Rightarrow> key \<Rightarrow> Row \<Rightarrow> Schema \<Rightarrow> Row option" where
  "DeserializeToKey KeySize data key schema = do {
     (ofs, key) \<leftarrow> Row_DeserializeFrom schema key data 0;
     if KeySize < ofs then None else Some key }"

fun GenericComparator :: "key \<Rightarrow> key \<Rightarrow> int" where
  "GenericComparator (a # lhs) (b # rhs) = (if a \<noteq> b then if sint a < sint b then -1 else 1 else GenericComparator lhs rhs)"
| "GenericComparator _ _ = 0"

definition BasicComparator :: "int \<Rightarrow> int \<Rightarrow> int" where
  "BasicComparator lhs rhs = (if lhs < rhs then -1 else if lhs > rhs then 1 else 0)"

section \<open>What a comparator promises\<close>

locale key_order =
  fixes valid :: "'k \<Rightarrow> bool" and cmp :: "'k \<Rightarrow> 'k \<Rightarrow> int"
  assumes cmp_zero: "valid x \<Longrightarrow> valid y \<Longrightarrow> cmp x y = 0 \<longleftrightarrow> x = y"
    and cmp_swap: "valid x \<Longrightarrow> valid y \<Longrightarrow> 0 < cmp x y \<longleftrightarrow> cmp y x < 0"
    and cmp_trans: "valid x \<Longrightarrow> valid y \<Longrightarrow> valid z \<Longrightarrow> cmp x y < 0 \<Longrightarrow> cmp y z < 0 \<Longrightarrow> cmp x z < 0"
begin

lemma cmp_refl: "valid x \<Longrightarrow> cmp x x = 0"
  by (simp add: cmp_zero)

lemma cmp_le: "valid x \<Longrightarrow> valid y \<Longrightarrow> 0 \<le> cmp x y \<longleftrightarrow> x = y \<or> cmp y x < 0"
  using cmp_zero[of x y] cmp_swap[of x y] by auto

lemma cmp_less_le_trans: "valid x \<Longrightarrow> valid y \<Longrightarrow> valid z \<Longrightarrow> cmp x y < 0 \<Longrightarrow> 0 \<le> cmp z y \<Longrightarrow> cmp x z < 0"
  using cmp_le[of z y] cmp_trans[of x y z] by auto

lemma cmp_le_trans: "valid x \<Longrightarrow> valid y \<Longrightarrow> valid z \<Longrightarrow> 0 \<le> cmp x y \<Longrightarrow> 0 \<le> cmp y z \<Longrightarrow> 0 \<le> cmp x z"
  using cmp_le[of x y] cmp_le[of y z] cmp_le[of x z] cmp_trans[of z y x] by auto

end

lemma sint_byte_eq: "sint (a :: byte) = sint b \<longleftrightarrow> a = b"
  by (auto intro: signed_word_eqI)

interpretation generic: key_order "\<lambda>k. length k = n" GenericComparator for n
proof (unfold_locales, goal_cases)
  case (1 x y)
  then show ?case by (induction x y arbitrary: n rule: GenericComparator.induct) auto
next
  case (2 x y)
  then show ?case
  proof (induction x y arbitrary: n rule: GenericComparator.induct)
    case (1 a lhs b rhs)
    then show ?case using sint_byte_eq[of a b] by auto
  qed auto
next
  case (3 x y z)
  then show ?case
  proof (induction x y arbitrary: n z rule: GenericComparator.induct)
    case (1 a lhs b rhs)
    then obtain c zs where z: "z = c # zs" by (cases z) auto
    show ?case using 1 sint_byte_eq[of a b] sint_byte_eq[of b c] sint_byte_eq[of a c] unfolding z
      by (auto split: if_splits)
  qed auto
qed

interpretation basic: key_order "\<lambda>_. True" BasicComparator
  by unfold_locales (auto simp: BasicComparator_def split: if_splits)

end
