(* ===== verification/BPlus_Page.thy ===== *)
theory BPlus_Page
  imports Index_Key Table_Iterator "HOL-Library.Signed_Division"
begin

text \<open>The pages of the B+ tree (\<^verbatim>\<open>page/b_plus_tree_page.cpp\<close>, \<^verbatim>\<open>page/b_plus_tree_leaf_page.cpp\<close> and
  \<^verbatim>\<open>page/b_plus_tree_internal_page.cpp\<close>).  A page is a record with the members of its class; \<open>array\<close> is the whole
  array behind the header, of which the first \<open>size\<close> entries are in use and the others are whatever was
  left there.  An access outside the array and a failed assertion are \<^const>\<open>None\<close>.  The loops of the code are recursive
  functions on the index.

  \<open>contents\<close> are the entries in use.  Every operation is shown to be an operation on this list, and on leaves
  with sorted keys an operation on the map that the list represents.\<close>

section \<open>Model: the header\<close>

definition INVALID_LSN :: int where
  "INVALID_LSN = -1"

type_synonym IndexPageType = int

definition INVALID_INDEX_PAGE :: IndexPageType where
  "INVALID_INDEX_PAGE = 0"

definition LEAF_PAGE :: IndexPageType where
  "LEAF_PAGE = 1"

definition INTERNAL_PAGE :: IndexPageType where
  "INTERNAL_PAGE = 2"

record BPlusTreePage =
  page_type :: IndexPageType
  lsn :: int
  size_of :: int
  max_size_of :: int
  parent_page_id :: page_id_t
  self_page_id :: page_id_t

record ('k, 'v) LeafPage = BPlusTreePage +
  next_page_id :: page_id_t
  array :: "('k \<times> 'v) list"

record 'k InternalPage = BPlusTreePage +
  children :: "('k \<times> page_id_t) list"

definition IsLeafPage :: "'a BPlusTreePage_scheme \<Rightarrow> bool" where
  "IsLeafPage p \<longleftrightarrow> page_type p = LEAF_PAGE"

definition IsRootPage :: "'a BPlusTreePage_scheme \<Rightarrow> bool" where
  "IsRootPage p \<longleftrightarrow> parent_page_id p = INVALID_PAGE_ID"

definition IncreaseSize :: "int \<Rightarrow> 'a BPlusTreePage_scheme \<Rightarrow> 'a BPlusTreePage_scheme" where
  "IncreaseSize amount p = p\<lparr>size_of := size_of p + amount\<rparr>"

definition GetMinSize :: "'a BPlusTreePage_scheme \<Rightarrow> int" where
  "GetMinSize p = (if IsRootPage p then if IsLeafPage p then 1 else 2
     else if IsLeafPage p then (max_size_of p - 1 + 1) sdiv 2
     else (max_size_of p - 1 - 1 + 1) sdiv 2 + 1)"

section \<open>Model: arrays\<close>

definition get :: "'a list \<Rightarrow> int \<Rightarrow> 'a option" where
  "get xs i = (if 0 \<le> i \<and> nat i < length xs then Some (xs ! nat i) else None)"

definition set_at :: "'a list \<Rightarrow> int \<Rightarrow> 'a \<Rightarrow> 'a list option" where
  "set_at xs i x = (if 0 \<le> i \<and> nat i < length xs then Some (xs[nat i := x]) else None)"

text \<open>Moving entries one place up, from \<open>i\<close> down to \<open>t\<close>, and one place down, from \<open>i\<close> up to \<open>n\<close>.\<close>

function shift_up :: "int \<Rightarrow> int \<Rightarrow> 'a list \<Rightarrow> 'a list option" where
  "shift_up i t xs = (if t \<le> i then do { x \<leftarrow> get xs i; xs \<leftarrow> set_at xs (i + 1) x; shift_up (i - 1) t xs } else Some xs)"
  by pat_completeness auto
termination by (relation "measure (\<lambda>(i, t, xs). nat (i - t + 1))") auto

function shift_down :: "int \<Rightarrow> int \<Rightarrow> 'a list \<Rightarrow> 'a list option" where
  "shift_down i n xs = (if i < n then do { x \<leftarrow> get xs (i + 1); xs \<leftarrow> set_at xs i x; shift_down (i + 1) n xs } else Some xs)"
  by pat_completeness auto
termination by (relation "measure (\<lambda>(i, n, xs). nat (n - i))") auto

text \<open>Copying the entries from \<open>i\<close> to \<open>n\<close> of one array to another, from place \<open>j\<close> on.\<close>

function copy_entries :: "int \<Rightarrow> int \<Rightarrow> int \<Rightarrow> 'a list \<Rightarrow> 'a list \<Rightarrow> 'a list option" where
  "copy_entries i n j xs ys = (if i < n then do { x \<leftarrow> get xs i; ys \<leftarrow> set_at ys j x; copy_entries (i + 1) n (j + 1) xs ys } else Some ys)"
  by pat_completeness auto
termination by (relation "measure (\<lambda>(i, n, j, xs, ys). nat (n - i))") auto

section \<open>Model: leaf pages\<close>

definition LeafPage_Init :: "page_id_t \<Rightarrow> page_id_t \<Rightarrow> int \<Rightarrow> ('k, 'v) LeafPage \<Rightarrow> ('k, 'v) LeafPage" where
  "LeafPage_Init pid parent_id max_sz p =
     p\<lparr>page_type := LEAF_PAGE, lsn := INVALID_LSN, size_of := 0, max_size_of := max_sz, parent_page_id := parent_id, self_page_id := pid\<rparr>"

function key_index_loop :: "('k \<Rightarrow> 'k \<Rightarrow> int) \<Rightarrow> 'k \<Rightarrow> ('k \<times> 'v) list \<Rightarrow> int \<Rightarrow> int \<Rightarrow> int option" where
  "key_index_loop cmp key xs st ed = (if st \<le> ed then do {
       let mid = (ed - st) div 2 + st;
       (k, _) \<leftarrow> get xs mid;
       if 0 \<le> cmp k key then key_index_loop cmp key xs st (mid - 1) else key_index_loop cmp key xs (mid + 1) ed }
     else Some (ed + 1))"
  by pat_completeness auto
termination by (relation "measure (\<lambda>(cmp, key, xs, st, ed). nat (ed - st + 1))") auto

definition KeyIndex :: "('k \<Rightarrow> 'k \<Rightarrow> int) \<Rightarrow> 'k \<Rightarrow> ('k, 'v) LeafPage \<Rightarrow> int option" where
  "KeyIndex cmp key p = (if size_of p < 0 then None else key_index_loop cmp key (array p) 0 (size_of p - 1))"

definition LeafPage_KeyAt :: "int \<Rightarrow> ('k, 'v) LeafPage \<Rightarrow> 'k option" where
  "LeafPage_KeyAt i p = (if 0 \<le> i \<and> i < size_of p then map_option fst (get (array p) i) else None)"

definition GetItem :: "int \<Rightarrow> ('k, 'v) LeafPage \<Rightarrow> ('k \<times> 'v) option" where
  "GetItem i p = (if 0 \<le> i \<and> i < size_of p then get (array p) i else None)"

definition LeafPage_Insert :: "('k \<Rightarrow> 'k \<Rightarrow> int) \<Rightarrow> 'k \<Rightarrow> 'v \<Rightarrow> ('k, 'v) LeafPage \<Rightarrow> (int \<times> ('k, 'v) LeafPage) option" where
  "LeafPage_Insert cmp key val p = (if size_of p \<ge> max_size_of p + 1 then None
     else do {
       targetIndex \<leftarrow> KeyIndex cmp key p;
       let p = IncreaseSize 1 p;
       if targetIndex < 0 then None
       else do {
         xs \<leftarrow> shift_up (size_of p - 2) targetIndex (array p);
         xs \<leftarrow> set_at xs targetIndex (key, val);
         Some (size_of p, p\<lparr>array := xs\<rparr>) } })"

text \<open>\<open>MoveHalfTo\<close> returns the page and the recipient.\<close>

definition LeafPage_MoveHalfTo :: "('k, 'v) LeafPage \<Rightarrow> ('k, 'v) LeafPage \<Rightarrow> (('k, 'v) LeafPage \<times> ('k, 'v) LeafPage) option" where
  "LeafPage_MoveHalfTo p recipient =
     (let total = max_size_of p + 1; copy_index = total sdiv 2
      in if size_of p \<noteq> total then None
      else do {
        ys \<leftarrow> copy_entries copy_index total 0 (array p) (array recipient);
        Some (p\<lparr>next_page_id := self_page_id recipient, size_of := copy_index\<rparr>,
          recipient\<lparr>array := ys, next_page_id := next_page_id p, size_of := total - copy_index\<rparr>) })"

definition LeafPage_CopyNFrom :: "('k \<times> 'v) list \<Rightarrow> int \<Rightarrow> ('k, 'v) LeafPage \<Rightarrow> ('k, 'v) LeafPage option" where
  "LeafPage_CopyNFrom items n p = do {
     xs \<leftarrow> copy_entries 0 n (size_of p) items (array p);
     Some (IncreaseSize n (p\<lparr>array := xs\<rparr>)) }"

definition LeafPage_Lookup :: "('k \<Rightarrow> 'k \<Rightarrow> int) \<Rightarrow> 'k \<Rightarrow> ('k, 'v) LeafPage \<Rightarrow> 'v option option" where
  "LeafPage_Lookup cmp key p = do {
     idx \<leftarrow> KeyIndex cmp key p;
     if idx < size_of p then do {
       (k, v) \<leftarrow> get (array p) idx;
       Some (if cmp k key = 0 then Some v else None) }
     else Some None }"

definition RemoveAndDeleteRecord :: "('k \<Rightarrow> 'k \<Rightarrow> int) \<Rightarrow> 'k \<Rightarrow> ('k, 'v) LeafPage \<Rightarrow> (int \<times> ('k, 'v) LeafPage) option" where
  "RemoveAndDeleteRecord cmp key p = do {
     target_index \<leftarrow> KeyIndex cmp key p;
     found \<leftarrow> (if target_index \<ge> size_of p then Some False
       else map_option (\<lambda>k. cmp key k = 0) (LeafPage_KeyAt target_index p));
     if \<not> found then Some (size_of p, p)
     else do {
       xs \<leftarrow> shift_down target_index (size_of p - 1) (array p);
       let p = IncreaseSize (-1) (p\<lparr>array := xs\<rparr>);
       Some (size_of p, p) } }"

definition LeafPage_MoveAllTo :: "('k, 'v) LeafPage \<Rightarrow> ('k, 'v) LeafPage \<Rightarrow> (('k, 'v) LeafPage \<times> ('k, 'v) LeafPage) option" where
  "LeafPage_MoveAllTo p recipient = do {
     recipient \<leftarrow> LeafPage_CopyNFrom (array p) (size_of p) recipient;
     Some (p\<lparr>size_of := 0\<rparr>, recipient\<lparr>next_page_id := next_page_id p\<rparr>) }"

definition LeafPage_MoveFirstToEndOf :: "('k, 'v) LeafPage \<Rightarrow> ('k, 'v) LeafPage \<Rightarrow> (('k, 'v) LeafPage \<times> ('k, 'v) LeafPage) option" where
  "LeafPage_MoveFirstToEndOf p recipient = do {
     recipient \<leftarrow> LeafPage_CopyNFrom (array p) 1 recipient;
     xs \<leftarrow> shift_down 0 (size_of p - 1) (array p);
     Some (IncreaseSize (-1) (p\<lparr>array := xs\<rparr>), recipient) }"

definition LeafPage_CopyLastFrom :: "'k \<times> 'v \<Rightarrow> ('k, 'v) LeafPage \<Rightarrow> ('k, 'v) LeafPage option" where
  "LeafPage_CopyLastFrom item p = (if size_of p + 1 > max_size_of p then None
     else do { xs \<leftarrow> set_at (array p) (size_of p) item; Some (IncreaseSize 1 (p\<lparr>array := xs\<rparr>)) })"

definition LeafPage_CopyFirstFrom :: "'k \<times> 'v \<Rightarrow> ('k, 'v) LeafPage \<Rightarrow> ('k, 'v) LeafPage option" where
  "LeafPage_CopyFirstFrom item p = do {
     xs \<leftarrow> shift_up (size_of p - 1) 0 (array p);
     xs \<leftarrow> set_at xs 0 item;
     Some (IncreaseSize 1 (p\<lparr>array := xs\<rparr>)) }"

definition LeafPage_MoveLastToFrontOf :: "('k, 'v) LeafPage \<Rightarrow> ('k, 'v) LeafPage \<Rightarrow> (('k, 'v) LeafPage \<times> ('k, 'v) LeafPage) option" where
  "LeafPage_MoveLastToFrontOf p recipient = do {
     item \<leftarrow> get (array p) (size_of p - 1);
     recipient \<leftarrow> LeafPage_CopyFirstFrom item recipient;
     Some (IncreaseSize (-1) p, recipient) }"

section \<open>Model: internal pages\<close>

definition InternalPage_Init :: "page_id_t \<Rightarrow> page_id_t \<Rightarrow> int \<Rightarrow> 'k InternalPage \<Rightarrow> 'k InternalPage" where
  "InternalPage_Init pid parent_id max_sz p =
     p\<lparr>page_type := INTERNAL_PAGE, lsn := INVALID_LSN, size_of := 0, max_size_of := max_sz, parent_page_id := parent_id, self_page_id := pid\<rparr>"

definition InternalPage_KeyAt :: "int \<Rightarrow> 'k InternalPage \<Rightarrow> 'k option" where
  "InternalPage_KeyAt i p = (if 0 \<le> i \<and> i < size_of p then map_option fst (get (children p) i) else None)"

definition SetKeyAt :: "int \<Rightarrow> 'k \<Rightarrow> 'k InternalPage \<Rightarrow> 'k InternalPage option" where
  "SetKeyAt i key p = (if 0 \<le> i \<and> i < size_of p then do {
       (_, v) \<leftarrow> get (children p) i; xs \<leftarrow> set_at (children p) i (key, v); Some (p\<lparr>children := xs\<rparr>) } else None)"

definition ValueAt :: "int \<Rightarrow> 'k InternalPage \<Rightarrow> page_id_t option" where
  "ValueAt i p = (if 0 \<le> i \<and> i < size_of p then map_option snd (get (children p) i) else None)"

text \<open>\<open>ValueIndex\<close> returns -1 when the value is not there.\<close>

function value_index_loop :: "page_id_t \<Rightarrow> ('k \<times> page_id_t) list \<Rightarrow> int \<Rightarrow> int \<Rightarrow> int option" where
  "value_index_loop val xs i n = (if i < n then do {
       (_, v) \<leftarrow> get xs i;
       if v = val then Some i else value_index_loop val xs (i + 1) n }
     else Some (-1))"
  by pat_completeness auto
termination by (relation "measure (\<lambda>(val, xs, i, n). nat (n - i))") auto

definition ValueIndex :: "page_id_t \<Rightarrow> 'k InternalPage \<Rightarrow> int option" where
  "ValueIndex val p = value_index_loop val (children p) 0 (size_of p)"

text \<open>The loop of \<open>Lookup\<close> ends with the index of the key, or with the place where it belongs.\<close>

function lookup_loop :: "('k \<Rightarrow> 'k \<Rightarrow> int) \<Rightarrow> 'k \<Rightarrow> ('k \<times> page_id_t) list \<Rightarrow> int \<Rightarrow> int \<Rightarrow> int option" where
  "lookup_loop cmp key xs left right = (if left \<le> right then do {
       let mid = left + (right - left) div 2;
       (k, _) \<leftarrow> get xs mid;
       if cmp k key = 0 then Some mid
       else if cmp k key < 0 then lookup_loop cmp key xs (mid + 1) right
       else lookup_loop cmp key xs left (mid - 1) }
     else Some (left - 1))"
  by pat_completeness auto
termination by (relation "measure (\<lambda>(cmp, key, xs, left, right). nat (right - left + 1))") auto

definition InternalPage_Lookup :: "('k \<Rightarrow> 'k \<Rightarrow> int) \<Rightarrow> 'k \<Rightarrow> 'k InternalPage \<Rightarrow> page_id_t option" where
  "InternalPage_Lookup cmp key p = (if size_of p \<le> 0 then None
     else do {
       (k1, _) \<leftarrow> get (children p) 1;
       if cmp key k1 < 0 then map_option snd (get (children p) 0)
       else do {
         (k2, v2) \<leftarrow> get (children p) (size_of p - 1);
         if 0 \<le> cmp key k2 then Some v2
         else do {
           i \<leftarrow> lookup_loop cmp key (children p) 1 (size_of p - 1);
           map_option snd (get (children p) i) } } })"

definition PopulateNewRoot :: "page_id_t \<Rightarrow> 'k \<Rightarrow> page_id_t \<Rightarrow> 'k InternalPage \<Rightarrow> 'k InternalPage option" where
  "PopulateNewRoot old_value new_key new_value p = do {
     (k0, _) \<leftarrow> get (children p) 0;
     xs \<leftarrow> set_at (children p) 0 (k0, old_value);
     xs \<leftarrow> set_at xs 1 (new_key, new_value);
     Some (p\<lparr>children := xs, size_of := 2\<rparr>) }"

definition InsertNodeAfter :: "page_id_t \<Rightarrow> 'k \<Rightarrow> page_id_t \<Rightarrow> 'k InternalPage \<Rightarrow> (int \<times> 'k InternalPage) option" where
  "InsertNodeAfter old_value new_key new_value p = do {
     i \<leftarrow> ValueIndex old_value p;
     let index = i + 1;
     if index \<le> 0 then None
     else do {
       let p = IncreaseSize 1 p;
       xs \<leftarrow> shift_up (size_of p - 2) index (children p);
       xs \<leftarrow> set_at xs index (new_key, new_value);
       Some (size_of p, p\<lparr>children := xs\<rparr>) } }"

definition InternalPage_Remove :: "int \<Rightarrow> 'k InternalPage \<Rightarrow> 'k InternalPage option" where
  "InternalPage_Remove index p = (if 0 \<le> index \<and> index < size_of p then do {
       xs \<leftarrow> shift_down index (size_of p - 1) (children p);
       Some (IncreaseSize (-1) (p\<lparr>children := xs\<rparr>)) } else None)"

definition RemoveAndReturnOnlyChild :: "'k InternalPage \<Rightarrow> (page_id_t \<times> 'k InternalPage) option" where
  "RemoveAndReturnOnlyChild p = (if size_of p = 1 then do {
       (_, val) \<leftarrow> get (children p) 0; Some (val, p\<lparr>size_of := 0\<rparr>) } else None)"

section \<open>The loops on the array\<close>

lemma get_nat: "i < length xs \<Longrightarrow> get xs (int i) = Some (xs ! i)"
  by (simp add: get_def)

lemma set_at_nat: "i < length xs \<Longrightarrow> set_at xs (int i) x = Some (xs[i := x])"
  by (simp add: set_at_def)

declare shift_up.simps [simp del] shift_down.simps [simp del] copy_entries.simps [simp del]

lemma shift_up_nth:
  "t \<le> n \<Longrightarrow> n < length xs \<Longrightarrow> \<exists>ys. shift_up (int n - 1) (int t) xs = Some ys \<and> length ys = length xs \<and>
     (\<forall>j < length xs. ys ! j = (if t < j \<and> j \<le> n then xs ! (j - 1) else xs ! j))"
proof (induction n arbitrary: xs)
  case 0
  then show ?case by (subst shift_up.simps) auto
next
  case (Suc n)
  show ?case
  proof (cases "t = Suc n")
    case True
    then show ?thesis by (subst shift_up.simps) auto
  next
    case False
    let ?xs = "xs[Suc n := xs ! n]"
    have t: "t \<le> n" "n < length ?xs" using Suc.prems False by simp_all
    obtain ys where ys: "shift_up (int n - 1) (int t) ?xs = Some ys" "length ys = length ?xs"
      "\<forall>j < length ?xs. ys ! j = (if t < j \<and> j \<le> n then ?xs ! (j - 1) else ?xs ! j)"
      using Suc.IH[OF t] by blast
    have step: "shift_up (int (Suc n) - 1) (int t) xs = shift_up (int n - 1) (int t) ?xs"
      using Suc.prems t get_nat[of n xs] set_at_nat[of "Suc n" xs "xs ! n"]
      by (subst shift_up.simps) (simp add: ac_simps)
    have "ys ! j = (if t < j \<and> j \<le> Suc n then xs ! (j - 1) else xs ! j)" if "j < length xs" for j
      using ys(3) that t Suc.prems by (cases "j = Suc n") auto
    then show ?thesis using ys(1,2) step by (intro exI[of _ ys]) simp
  qed
qed

lemma set_subset_nth: "(\<And>j. j < length ys \<Longrightarrow> ys ! j \<in> set xs) \<Longrightarrow> set ys \<subseteq> set xs"
  by (auto simp: in_set_conv_nth)

text \<open>Making room and writing: an entry is inserted before place \<open>t\<close>.\<close>

lemma insert_entry:
  assumes "t \<le> n" "n < length xs"
  shows "\<exists>ys. shift_up (int n - 1) (int t) xs = Some ys \<and> t < length ys \<and> length ys = length xs \<and> set (ys[t := x]) \<subseteq> insert x (set xs) \<and>
    take (Suc n) (ys[t := x]) = take t xs @ x # drop t (take n xs)"
proof -
  obtain ys where ys: "shift_up (int n - 1) (int t) xs = Some ys" "length ys = length xs"
    "\<forall>j < length xs. ys ! j = (if t < j \<and> j \<le> n then xs ! (j - 1) else xs ! j)"
    using shift_up_nth[OF assms] by blast
  have "take (Suc n) (ys[t := x]) = take t xs @ x # drop t (take n xs)"
  proof (rule nth_equalityI)
    show "length (take (Suc n) (ys[t := x])) = length (take t xs @ x # drop t (take n xs))" using ys(2) assms by simp
  next
    fix j assume "j < length (take (Suc n) (ys[t := x]))"
    then have "j < Suc n" "j < length xs" using ys(2) by simp_all
    then show "take (Suc n) (ys[t := x]) ! j = (take t xs @ x # drop t (take n xs)) ! j"
      using ys(2,3) assms by (auto simp: nth_append nth_Cons' nth_list_update)
  qed
  moreover have "set ys \<subseteq> set xs" by (rule set_subset_nth) (use ys(2,3) in auto)
  then have "set (ys[t := x]) \<subseteq> insert x (set xs)" using set_update_subset_insert[of ys t x] by blast
  ultimately show ?thesis using ys assms by (intro exI[of _ ys]) simp
qed

lemma shift_down_nth:
  "t \<le> n \<Longrightarrow> n < length xs \<Longrightarrow> \<exists>ys. shift_down (int t) (int n) xs = Some ys \<and> length ys = length xs \<and>
     (\<forall>j < length xs. ys ! j = (if t \<le> j \<and> j < n then xs ! Suc j else xs ! j))"
proof (induction "n - t" arbitrary: t xs)
  case 0
  then show ?case by (subst shift_down.simps) auto
next
  case (Suc d)
  let ?xs = "xs[t := xs ! Suc t]"
  have t: "Suc t \<le> n" "d = n - Suc t" "n < length ?xs" using Suc by simp_all
  obtain ys where ys: "shift_down (int (Suc t)) (int n) ?xs = Some ys" "length ys = length ?xs"
    "\<forall>j < length ?xs. ys ! j = (if Suc t \<le> j \<and> j < n then ?xs ! Suc j else ?xs ! j)"
    using Suc.hyps(1)[OF t(2,1,3)] by blast
  have step: "shift_down (int t) (int n) xs = shift_down (int (Suc t)) (int n) ?xs"
    using Suc.prems t get_nat[of "Suc t" xs] set_at_nat[of t xs "xs ! Suc t"]
    by (subst shift_down.simps) (simp add: ac_simps)
  have "ys ! j = (if t \<le> j \<and> j < n then xs ! Suc j else xs ! j)" if "j < length xs" for j
    using ys(3) that t Suc.prems by (cases "j = t") auto
  then show ?case using ys(1,2) step by (intro exI[of _ ys]) simp
qed

lemma remove_entry:
  assumes "t < n" "n \<le> length xs"
  shows "\<exists>ys. shift_down (int t) (int n - 1) xs = Some ys \<and> length ys = length xs \<and> set ys \<subseteq> set xs \<and>
    take (n - 1) ys = take t xs @ drop (Suc t) (take n xs)"
proof -
  have e: "int n - 1 = int (n - 1)" using assms by simp
  have t: "t \<le> n - 1" "n - 1 < length xs" using assms by simp_all
  obtain ys where ys: "shift_down (int t) (int n - 1) xs = Some ys" "length ys = length xs"
    "\<forall>j < length xs. ys ! j = (if t \<le> j \<and> j < n - 1 then xs ! Suc j else xs ! j)"
    using shift_down_nth[OF t] unfolding e by blast
  have "take (n - 1) ys = take t xs @ drop (Suc t) (take n xs)"
  proof (rule nth_equalityI)
    show "length (take (n - 1) ys) = length (take t xs @ drop (Suc t) (take n xs))" using ys(2) assms by simp
  next
    fix j assume "j < length (take (n - 1) ys)"
    then have "j < n - 1" by simp
    then show "take (n - 1) ys ! j = (take t xs @ drop (Suc t) (take n xs)) ! j"
      using ys(2,3) assms by (auto simp: nth_append)
  qed
  moreover have "set ys \<subseteq> set xs" by (rule set_subset_nth) (use ys(2,3) assms in auto)
  ultimately show ?thesis using ys by (intro exI[of _ ys]) simp
qed

lemma copy_entries_eq:
  "i \<le> n \<Longrightarrow> n \<le> length xs \<Longrightarrow> j + (n - i) \<le> length ys \<Longrightarrow>
     copy_entries (int i) (int n) (int j) xs ys = Some (take j ys @ drop i (take n xs) @ drop (j + (n - i)) ys)"
proof (induction "n - i" arbitrary: i j ys)
  case 0
  then show ?case by (subst copy_entries.simps) simp
next
  case (Suc d)
  let ?ys = "ys[j := xs ! i]"
  have i: "Suc i \<le> n" "d = n - Suc i" "Suc j + (n - Suc i) \<le> length ?ys" using Suc by simp_all
  have step: "copy_entries (int i) (int n) (int j) xs ys = copy_entries (int (Suc i)) (int n) (int (Suc j)) xs ?ys"
    using Suc.prems i get_nat[of i xs] set_at_nat[of j ys "xs ! i"]
    by (subst copy_entries.simps) (simp add: ac_simps)
  have e: "take (Suc j) ?ys = take j ys @ [xs ! i]" "Suc j + (n - Suc i) = j + (n - i)"
    "drop (j + (n - i)) ?ys = drop (j + (n - i)) ys" using i by (simp_all add: take_Suc_conv_app_nth)
  have "drop i (take n xs) = xs ! i # drop (Suc i) (take n xs)"
    using Suc.prems i by (simp add: Cons_nth_drop_Suc[symmetric])
  then show ?case unfolding step Suc.hyps(1)[OF i(2,1) Suc.prems(2) i(3)] e by simp
qed

section \<open>Leaf pages as sorted lists\<close>

text \<open>The entries in use, and the shape of a page: the entries fit in the array behind the header.\<close>

definition contents :: "('k, 'v) LeafPage \<Rightarrow> ('k \<times> 'v) list" where
  "contents p = take (nat (size_of p)) (array p)"

definition leaf_shape :: "('k, 'v) LeafPage \<Rightarrow> bool" where
  "leaf_shape p \<longleftrightarrow> 0 \<le> size_of p \<and> nat (size_of p) \<le> length (array p)"

lemma leaf_shape_size: "leaf_shape p \<Longrightarrow> size_of p = int (length (contents p))"
  by (simp add: leaf_shape_def contents_def)

lemma leaf_shapeE:
  assumes "leaf_shape p"
  obtains n where "size_of p = int n" "n \<le> length (array p)" "contents p = take n (array p)" "length (contents p) = n"
  using assms by (auto simp: leaf_shape_def contents_def intro: that[of "nat (size_of p)"])

text \<open>The place of a key in a sorted list.\<close>

definition position :: "('k \<Rightarrow> 'k \<Rightarrow> int) \<Rightarrow> 'k \<Rightarrow> ('k \<times> 'v) list \<Rightarrow> nat" where
  "position cmp key xs = length (takeWhile (\<lambda>e. cmp (fst e) key < 0) xs)"

lemma position_le: "position cmp key xs \<le> length xs"
  by (simp add: position_def length_takeWhile_le)

lemma position_before: "i < position cmp key xs \<Longrightarrow> cmp (fst (xs ! i)) key < 0"
  unfolding position_def by (metis (mono_tags, lifting) nth_mem set_takeWhileD takeWhile_nth)

lemma position_at: "position cmp key xs < length xs \<Longrightarrow> 0 \<le> cmp (fst (xs ! position cmp key xs)) key"
  unfolding position_def using nth_length_takeWhile[of "\<lambda>e. cmp (fst e) key < 0" xs] by simp

declare key_index_loop.simps [simp del]

definition sorted_entries :: "('k \<Rightarrow> bool) \<Rightarrow> ('k \<Rightarrow> 'k \<Rightarrow> int) \<Rightarrow> ('k \<times> 'v) list \<Rightarrow> bool" where
  "sorted_entries valid cmp xs \<longleftrightarrow> list_all (\<lambda>e. valid (fst e)) xs \<and> sorted_wrt (\<lambda>a b. cmp (fst a) (fst b) < 0) xs"

context key_order
begin

abbreviation ordered :: "('k \<times> 'v) list \<Rightarrow> bool" where
  "ordered \<equiv> sorted_entries valid cmp"

lemmas ordered_def = sorted_entries_def[of valid cmp]

lemma ordered_nth_less: "ordered xs \<Longrightarrow> i < j \<Longrightarrow> j < length xs \<Longrightarrow> cmp (fst (xs ! i)) (fst (xs ! j)) < 0"
  by (simp add: ordered_def sorted_wrt_iff_nth_less)

lemma ordered_valid: "ordered xs \<Longrightarrow> i < length xs \<Longrightarrow> valid (fst (xs ! i))"
  by (simp add: ordered_def list_all_length)

text \<open>In a sorted list the entries before the place are the smaller ones, and those behind it are the others.\<close>

lemma position_iff:
  assumes "ordered xs" "valid key" "i < length xs"
  shows "i < position cmp key xs \<longleftrightarrow> cmp (fst (xs ! i)) key < 0"
proof
  assume less: "cmp (fst (xs ! i)) key < 0"
  show "i < position cmp key xs"
  proof (rule ccontr)
    assume "\<not> i < position cmp key xs"
    then have p: "position cmp key xs \<le> i" by simp
    then have ge: "0 \<le> cmp (fst (xs ! position cmp key xs)) key" using position_at[of cmp key xs] assms(3) by simp
    have "position cmp key xs \<noteq> i" using ge less by auto
    then have "cmp (fst (xs ! position cmp key xs)) (fst (xs ! i)) < 0" using ordered_nth_less[OF assms(1)] p assms(3) by simp
    then have "cmp (fst (xs ! position cmp key xs)) key < 0"
      using cmp_trans[of _ "fst (xs ! i)" key] less ordered_valid[OF assms(1)] assms(2,3) p by simp
    then show False using ge by simp
  qed
qed (rule position_before)

lemma key_index_loop_eq:
  assumes "ordered (take n xs)" "n \<le> length xs" "valid key"
  shows "0 \<le> st \<Longrightarrow> st \<le> int (position cmp key (take n xs)) \<Longrightarrow> int (position cmp key (take n xs)) \<le> ed + 1 \<Longrightarrow> ed < int n \<Longrightarrow>
    key_index_loop cmp key xs st ed = Some (int (position cmp key (take n xs)))"
proof (induction "nat (ed - st + 1)" arbitrary: st ed rule: less_induct)
  case less
  show ?case
  proof (cases "st \<le> ed")
    case True
    define mid where "mid = (ed - st) div 2 + st"
    have m: "st \<le> mid" "mid \<le> ed" using True by (auto simp: mid_def)
    then have mn: "nat mid < n" "int (nat mid) = mid" "nat mid < length xs" using less.prems assms(2) by auto
    have g: "get xs mid = Some (xs ! nat mid)" using get_nat[OF mn(3)] mn(2) by simp
    have p: "mid < int (position cmp key (take n xs)) \<longleftrightarrow> cmp (fst (xs ! nat mid)) key < 0"
      using position_iff[OF assms(1,3), of "nat mid"] mn by (simp add: zless_nat_eq_int_zless[symmetric] nat_less_iff)
    have s1: "key_index_loop cmp key xs st (mid - 1) = Some (int (position cmp key (take n xs)))" if "0 \<le> cmp (fst (xs ! nat mid)) key"
      using less.hyps[of "mid - 1" st] less.prems m p that by simp
    have s2: "key_index_loop cmp key xs (mid + 1) ed = Some (int (position cmp key (take n xs)))" if "cmp (fst (xs ! nat mid)) key < 0"
      using less.hyps[of ed "mid + 1"] less.prems m p that by simp
    show ?thesis using True g s1 s2
      by (subst key_index_loop.simps) (simp add: mid_def[symmetric] Let_def split_beta not_le)
  next
    case False
    then show ?thesis using less.prems by (subst key_index_loop.simps) simp
  qed
qed

lemma KeyIndex_eq: "leaf_shape p \<Longrightarrow> ordered (contents p) \<Longrightarrow> valid key \<Longrightarrow>
    KeyIndex cmp key p = Some (int (position cmp key (contents p)))"
proof -
  assume s: "leaf_shape p" and o: "ordered (contents p)" and v: "valid key"
  obtain n where n: "size_of p = int n" "n \<le> length (array p)" "contents p = take n (array p)" using leaf_shapeE[OF s] by metis
  show ?thesis using key_index_loop_eq[of n "array p" key 0 "int n - 1"] o v n position_le[of cmp key "contents p"]
    by (simp add: KeyIndex_def)
qed

lemma position_others:
  assumes "ordered xs" "valid key"
  shows "e \<in> set (take (position cmp key xs) xs) \<Longrightarrow> fst e \<noteq> key"
    and "e \<in> set (drop (Suc (position cmp key xs)) xs) \<Longrightarrow> fst e \<noteq> key"
proof -
  assume "e \<in> set (take (position cmp key xs) xs)"
  then obtain i where "i < position cmp key xs" "e = xs ! i" by (auto simp: in_set_conv_nth)
  then show "fst e \<noteq> key" using position_before[of i cmp key xs] cmp_refl[OF assms(2)] by auto
next
  assume "e \<in> set (drop (Suc (position cmp key xs)) xs)"
  then obtain i where i: "i < length xs - Suc (position cmp key xs)" "e = xs ! (Suc (position cmp key xs) + i)"
    by (auto simp: in_set_conv_nth)
  then have "cmp (fst (xs ! position cmp key xs)) (fst e) < 0" using ordered_nth_less[OF assms(1)] by simp
  moreover have "0 \<le> cmp (fst (xs ! position cmp key xs)) key" using position_at[of cmp key xs] i(1) by simp
  ultimately show "fst e \<noteq> key" by auto
qed

lemma position_absent:
  assumes "ordered xs" "valid key"
  shows "map_of (take (position cmp key xs) xs) key = None" "map_of (drop (Suc (position cmp key xs)) xs) key = None"
  using position_others[OF assms] by (force simp: map_of_eq_None_iff)+

lemma map_of_split: "i < length xs \<Longrightarrow> map_of xs k =
    (case map_of (take i xs) k of None \<Rightarrow> if fst (xs ! i) = k then Some (snd (xs ! i)) else map_of (drop (Suc i) xs) k | Some v \<Rightarrow> Some v)"
  by (subst id_take_nth_drop[of i xs], assumption, subst map_of_append) (cases "xs ! i", auto simp: map_add_def split: option.splits)

lemma map_of_position:
  assumes "ordered xs" "valid key"
  shows "map_of xs key = (if position cmp key xs < length xs \<and> cmp (fst (xs ! position cmp key xs)) key = 0
    then Some (snd (xs ! position cmp key xs)) else None)"
proof (cases "position cmp key xs < length xs")
  case True
  then show ?thesis using map_of_split[OF True, of key] position_absent[OF assms] cmp_zero[OF ordered_valid[OF assms(1) True] assms(2)]
    by simp
qed (use position_absent(1)[OF assms] in simp)

lemma ordered_append: "ordered (xs @ ys) \<longleftrightarrow> ordered xs \<and> ordered ys \<and> (\<forall>x \<in> set xs. \<forall>y \<in> set ys. cmp (fst x) (fst y) < 0)"
  by (auto simp: ordered_def sorted_wrt_append)

lemma ordered_Cons: "ordered (x # xs) \<longleftrightarrow> valid (fst x) \<and> ordered xs \<and> (\<forall>y \<in> set xs. cmp (fst x) (fst y) < 0)"
  by (auto simp: ordered_def)

lemma ordered_take_drop: "ordered xs \<Longrightarrow> ordered (take n xs) \<and> ordered (drop n xs)"
  using ordered_append[of "take n xs" "drop n xs"] by simp

lemma ordered_insert:
  assumes "ordered xs" "valid key" "map_of xs key = None"
  shows "ordered (take (position cmp key xs) xs @ (key, v) # drop (position cmp key xs) xs)"
proof -
  let ?i = "position cmp key xs"
  have small: "cmp (fst e) key < 0" if "e \<in> set (take ?i xs)" for e
    using that position_before[of _ cmp key xs] by (auto simp: in_set_conv_nth)
  have large: "cmp key (fst e) < 0" if "e \<in> set (drop ?i xs)" for e
  proof -
    obtain i where i: "i < length xs - ?i" "e = xs ! (?i + i)" using \<open>e \<in> set (drop ?i xs)\<close> by (auto simp: in_set_conv_nth)
    then have m: "e \<in> set xs" "valid (fst e)" using ordered_valid[OF assms(1)] by simp_all
    have "\<not> cmp (fst e) key < 0" using position_iff[OF assms(1,2), of "?i + i"] i by simp
    moreover have "fst e \<noteq> key" using m(1) assms(3) by (force simp: map_of_eq_None_iff)
    ultimately show ?thesis using cmp_le[of "fst e" key] m assms(2) by simp
  qed
  have cross: "cmp (fst x) (fst y) < 0" if "x \<in> set (take ?i xs)" "y \<in> set (drop ?i xs)" for x y
    using that assms(1) ordered_append[of "take ?i xs" "drop ?i xs"] by simp
  show ?thesis using small large cross ordered_take_drop[OF assms(1), of ?i] assms(2)
    by (simp add: ordered_append ordered_Cons)
qed

lemma map_of_insert:
  assumes "ordered xs" "valid key"
  shows "map_of (take (position cmp key xs) xs @ (key, v) # drop (position cmp key xs) xs) = (map_of xs)(key \<mapsto> v)"
proof
  fix k
  let ?i = "position cmp key xs"
  have before: "map_of (take ?i xs) key = None" using position_absent(1)[OF assms] .
  have "map_of xs k = map_of (take ?i xs @ drop ?i xs) k" by simp
  then show "map_of (take ?i xs @ (key, v) # drop ?i xs) k = ((map_of xs)(key \<mapsto> v)) k"
    using before by (auto simp: map_add_def simp del: append_take_drop_id split: option.splits)
qed

lemma ordered_remove: "ordered xs \<Longrightarrow> ordered (take i xs @ drop (Suc i) xs)"
proof -
  assume o: "ordered xs"
  show ?thesis
  proof (cases "i < length xs")
    case True
    then show ?thesis using o id_take_nth_drop[OF True] by (metis ordered_append ordered_Cons list.set_intros(2))
  qed (use o in simp)
qed

lemma map_of_remove:
  assumes "ordered xs" "valid key" "map_of xs key = Some v"
  shows "map_of (take (position cmp key xs) xs @ drop (Suc (position cmp key xs)) xs) = (map_of xs)(key := None)"
proof
  fix k
  let ?i = "position cmp key xs"
  have i: "?i < length xs" "fst (xs ! ?i) = key"
    using map_of_position[OF assms(1,2)] assms(3) cmp_zero[OF ordered_valid[OF assms(1)] assms(2)] by (simp_all split: if_splits)
  show "map_of (take ?i xs @ drop (Suc ?i) xs) k = ((map_of xs)(key := None)) k"
    using position_absent[OF assms(1,2)] i(2) map_of_split[OF i(1), of k] by (auto simp: map_add_def split: option.splits)
qed

text \<open>The operations on a leaf, as operations on the list of its entries.\<close>

lemma LeafPage_Lookup_eq:
  assumes "leaf_shape p" "ordered (contents p)" "valid key"
  shows "LeafPage_Lookup cmp key p = Some (map_of (contents p) key)"
proof -
  obtain n where n: "size_of p = int n" "n \<le> length (array p)" "contents p = take n (array p)" "length (contents p) = n"
    using leaf_shapeE[OF assms(1)] .
  let ?i = "position cmp key (contents p)"
  show ?thesis
  proof (cases "?i < n")
    case True
    then have "get (array p) (int ?i) = Some (contents p ! ?i)" using n by (simp add: get_def)
    then show ?thesis using KeyIndex_eq[OF assms] map_of_position[OF assms(2,3)] n True
      by (cases "contents p ! ?i") (simp add: LeafPage_Lookup_def)
  next
    case False
    then show ?thesis using KeyIndex_eq[OF assms] map_of_position[OF assms(2,3)] n by (simp add: LeafPage_Lookup_def)
  qed
qed

lemma LeafPage_Insert_eq:
  assumes "leaf_shape p" "ordered (contents p)" "valid key" "size_of p \<le> max_size_of p" "nat (size_of p) < length (array p)"
  shows "\<exists>xs. LeafPage_Insert cmp key val p = Some (size_of p + 1, p\<lparr>size_of := size_of p + 1, array := xs\<rparr>) \<and> length xs = length (array p) \<and> set xs \<subseteq> insert (key, val) (set (array p)) \<and>
    leaf_shape (p\<lparr>size_of := size_of p + 1, array := xs\<rparr>) \<and>
    contents (p\<lparr>size_of := size_of p + 1, array := xs\<rparr>) =
      take (position cmp key (contents p)) (contents p) @ (key, val) # drop (position cmp key (contents p)) (contents p)"
proof -
  obtain n where n: "size_of p = int n" "n \<le> length (array p)" "contents p = take n (array p)" "length (contents p) = n"
    using leaf_shapeE[OF assms(1)] .
  define i where "i = position cmp key (contents p)"
  have i: "i \<le> n" "n < length (array p)" using position_le[of cmp key "contents p"] n assms(5) by (simp_all add: i_def)
  obtain ys where ys: "shift_up (int n - 1) (int i) (array p) = Some ys" "i < length ys" "length ys = length (array p)"
    "take (Suc n) (ys[i := (key, val)]) = take i (array p) @ (key, val) # drop i (take n (array p))"
    "set (ys[i := (key, val)]) \<subseteq> insert (key, val) (set (array p))"
    using insert_entry[OF i] by blast
  have "LeafPage_Insert cmp key val p = Some (size_of p + 1, p\<lparr>size_of := size_of p + 1, array := ys[i := (key, val)]\<rparr>)"
    using KeyIndex_eq[OF assms(1,2,3)] assms(4) ys(1) set_at_nat[OF ys(2)] n(1)
    by (simp add: LeafPage_Insert_def IncreaseSize_def i_def[symmetric])
  moreover have "nat (int n + 1) = Suc n" by simp
  ultimately show ?thesis unfolding i_def[symmetric] unfolding n(3) using ys(3,4,5) n(1) i
    by (intro exI[of _ "ys[i := (key, val)]"]) (simp add: contents_def leaf_shape_def min_absorb1)
qed

lemma RemoveAndDeleteRecord_absent:
  assumes "leaf_shape p" "ordered (contents p)" "valid key" "map_of (contents p) key = None"
  shows "RemoveAndDeleteRecord cmp key p = Some (size_of p, p)"
proof -
  obtain n where n: "size_of p = int n" "n \<le> length (array p)" "contents p = take n (array p)" "length (contents p) = n"
    using leaf_shapeE[OF assms(1)] .
  define i where "i = position cmp key (contents p)"
  show ?thesis
  proof (cases "i < n")
    case True
    then have "LeafPage_KeyAt (int i) p = Some (fst (contents p ! i))" using n by (simp add: LeafPage_KeyAt_def get_def)
    moreover have "cmp key (fst (contents p ! i)) \<noteq> 0"
      using map_of_position[OF assms(2,3)] assms(3,4) True n(4) cmp_zero ordered_valid[OF assms(2), of i]
      by (auto simp: i_def split: if_splits)
    ultimately show ?thesis using KeyIndex_eq[OF assms(1,2,3), folded i_def] n(1) True by (simp add: RemoveAndDeleteRecord_def)
  next
    case False
    then show ?thesis using KeyIndex_eq[OF assms(1,2,3), folded i_def] n(1) by (simp add: RemoveAndDeleteRecord_def)
  qed
qed

lemma RemoveAndDeleteRecord_present:
  assumes "leaf_shape p" "ordered (contents p)" "valid key" "map_of (contents p) key = Some v"
  shows "\<exists>xs. RemoveAndDeleteRecord cmp key p = Some (size_of p - 1, p\<lparr>size_of := size_of p - 1, array := xs\<rparr>) \<and> length xs = length (array p) \<and> set xs \<subseteq> set (array p) \<and>
    leaf_shape (p\<lparr>size_of := size_of p - 1, array := xs\<rparr>) \<and>
    contents (p\<lparr>size_of := size_of p - 1, array := xs\<rparr>) =
      take (position cmp key (contents p)) (contents p) @ drop (Suc (position cmp key (contents p))) (contents p)"
proof -
  obtain n where n: "size_of p = int n" "n \<le> length (array p)" "contents p = take n (array p)" "length (contents p) = n"
    using leaf_shapeE[OF assms(1)] .
  define i where "i = position cmp key (contents p)"
  have i: "i < n" "fst (contents p ! i) = key"
    using map_of_position[OF assms(2,3)] assms(4) n(4) cmp_zero[OF ordered_valid[OF assms(2)] assms(3)]
    by (simp_all add: i_def split: if_splits)
  obtain ys where ys: "shift_down (int i) (int n - 1) (array p) = Some ys" "length ys = length (array p)"
    "take (n - 1) ys = take i (array p) @ drop (Suc i) (take n (array p))" "set ys \<subseteq> set (array p)" using remove_entry[OF i(1) n(2)] by blast
  have k: "LeafPage_KeyAt (int i) p = Some key" using n i by (simp add: LeafPage_KeyAt_def get_def)
  have "RemoveAndDeleteRecord cmp key p = Some (size_of p - 1, p\<lparr>size_of := size_of p - 1, array := ys\<rparr>)"
    using KeyIndex_eq[OF assms(1,2,3)] k n(1) i(1) ys(1) cmp_refl[OF assms(3)]
    by (simp add: RemoveAndDeleteRecord_def IncreaseSize_def i_def[symmetric])
  moreover have "nat (int n - 1) = n - 1" by simp
  ultimately show ?thesis unfolding i_def[symmetric] unfolding n(3) using ys(2,3,4) n(1,2) i(1)
    by (intro exI[of _ ys]) (simp add: contents_def leaf_shape_def min_absorb1)
qed

end

text \<open>Splitting, merging and redistributing only move entries, so they do not depend on the order.\<close>

lemma LeafPage_MoveHalfTo_eq:
  assumes "leaf_shape p" "size_of p = max_size_of p + 1" "length (contents p) - length (contents p) div 2 \<le> length (array q)"
  shows "\<exists>p' q'. LeafPage_MoveHalfTo p q = Some (p', q') \<and> leaf_shape p' \<and> leaf_shape q' \<and>
    contents p' = take (length (contents p) div 2) (contents p) \<and> contents q' = drop (length (contents p) div 2) (contents p) \<and>
    p' = p\<lparr>next_page_id := self_page_id q, size_of := int (length (contents p) div 2)\<rparr> \<and>
    q' = q\<lparr>array := array q', next_page_id := next_page_id p, size_of := size_of q'\<rparr> \<and> length (array q') = length (array q) \<and> set (array q') \<subseteq> set (array p) \<union> set (array q)"
proof -
  obtain n where n: "size_of p = int n" "n \<le> length (array p)" "contents p = take n (array p)" "length (contents p) = n"
    using leaf_shapeE[OF assms(1)] .
  have c: "copy_entries (int (n div 2)) (int n) (int 0) (array p) (array q)
    = Some (take 0 (array q) @ drop (n div 2) (take n (array p)) @ drop (0 + (n - n div 2)) (array q))"
    by (rule copy_entries_eq) (use n assms(3) in simp_all)
  have d: "int n sdiv 2 = int (n div 2)" by (cases n) (simp_all add: signed_divide_int_def zdiv_int)
  have s: "int n - int (n div 2) = int (n - n div 2)" by simp
  have t: "max_size_of p = int n - 1" using assms(2) n(1) by simp
  have sub: "set (drop (n div 2) (take n (array p))) \<union> set (drop (n - n div 2) (array q)) \<subseteq> set (array p) \<union> set (array q)"
    using set_drop_subset[of _ "array q"] set_drop_subset[of _ "take n (array p)"] set_take_subset[of n "array p"] by blast
  show ?thesis using c n(1,2,4) assms(3) sub unfolding n(3)
    by (simp add: LeafPage_MoveHalfTo_def Let_def t d s leaf_shape_def contents_def min_absorb1 del: of_nat_diff)
qed

lemma LeafPage_CopyNFrom_eq:
  assumes "leaf_shape p" "n \<le> length xs" "length (contents p) + n \<le> length (array p)"
  shows "\<exists>ys. LeafPage_CopyNFrom xs (int n) p = Some (p\<lparr>size_of := size_of p + int n, array := ys\<rparr>) \<and> length ys = length (array p) \<and>
    leaf_shape (p\<lparr>size_of := size_of p + int n, array := ys\<rparr>) \<and> contents (p\<lparr>size_of := size_of p + int n, array := ys\<rparr>) = contents p @ take n xs"
proof -
  obtain m where m: "size_of p = int m" "m \<le> length (array p)" "contents p = take m (array p)" "length (contents p) = m"
    using leaf_shapeE[OF assms(1)] .
  have c: "copy_entries (int 0) (int n) (int m) xs (array p) = Some (take m (array p) @ drop 0 (take n xs) @ drop (m + (n - 0)) (array p))"
    by (rule copy_entries_eq) (use m assms(2,3) in simp_all)
  have k: "nat (int m + int n) = m + n" by simp
  have "LeafPage_CopyNFrom xs (int n) p = Some (p\<lparr>size_of := size_of p + int n, array := take m (array p) @ take n xs @ drop (m + n) (array p)\<rparr>)"
    using c m(1) by (simp add: LeafPage_CopyNFrom_def IncreaseSize_def)
  then show ?thesis using m(2,4) assms(2,3) unfolding m(3)
    by (intro exI[of _ "take m (array p) @ take n xs @ drop (m + n) (array p)"]) (simp add: contents_def leaf_shape_def m(1) k)
qed

lemma LeafPage_MoveAllTo_eq:
  assumes "leaf_shape p" "leaf_shape q" "length (contents q) + length (contents p) \<le> length (array q)"
  shows "\<exists>q'. LeafPage_MoveAllTo p q = Some (p\<lparr>size_of := 0\<rparr>, q') \<and> leaf_shape q' \<and> contents q' = contents q @ contents p \<and>
    q' = q\<lparr>size_of := size_of q', array := array q', next_page_id := next_page_id p\<rparr> \<and> length (array q') = length (array q)"
proof -
  obtain n where n: "size_of p = int n" "n \<le> length (array p)" "contents p = take n (array p)" "length (contents p) = n"
    using leaf_shapeE[OF assms(1)] .
  have le: "length (contents q) + n \<le> length (array q)" using assms(3) n(4) by simp
  obtain ys where ys: "LeafPage_CopyNFrom (array p) (int n) q = Some (q\<lparr>size_of := size_of q + int n, array := ys\<rparr>)" "length ys = length (array q)"
    "leaf_shape (q\<lparr>size_of := size_of q + int n, array := ys\<rparr>)" "contents (q\<lparr>size_of := size_of q + int n, array := ys\<rparr>) = contents q @ take n (array p)"
    using LeafPage_CopyNFrom_eq[OF assms(2) n(2) le] by blast
  then show ?thesis using n(1,3)
    by (intro exI[of _ "q\<lparr>size_of := size_of q + int n, array := ys, next_page_id := next_page_id p\<rparr>"])
      (simp add: LeafPage_MoveAllTo_def leaf_shape_def contents_def)
qed

lemma LeafPage_MoveFirstToEndOf_eq:
  assumes "leaf_shape p" "leaf_shape q" "contents p = e # es" "length (contents q) < length (array q)"
  shows "\<exists>p' q'. LeafPage_MoveFirstToEndOf p q = Some (p', q') \<and> leaf_shape p' \<and> leaf_shape q' \<and> contents p' = es \<and> contents q' = contents q @ [e] \<and>
    p' = p\<lparr>size_of := size_of p', array := array p'\<rparr> \<and> q' = q\<lparr>size_of := size_of q', array := array q'\<rparr> \<and>
    length (array p') = length (array p) \<and> length (array q') = length (array q)"
proof -
  obtain n where n: "size_of p = int n" "n \<le> length (array p)" "contents p = take n (array p)" "length (contents p) = n"
    using leaf_shapeE[OF assms(1)] .
  have n0: "0 < n" using n(4) assms(3) by auto
  have c: "take 1 (array p) = [e]" using n(3) assms(3) n0 by (cases "array p"; cases n) simp_all
  have le: "1 \<le> length (array p)" "length (contents q) + 1 \<le> length (array q)" using n(2) n0 assms(4) by simp_all
  obtain ys where ys: "LeafPage_CopyNFrom (array p) (int 1) q = Some (q\<lparr>size_of := size_of q + int 1, array := ys\<rparr>)" "length ys = length (array q)"
    "leaf_shape (q\<lparr>size_of := size_of q + int 1, array := ys\<rparr>)" "contents (q\<lparr>size_of := size_of q + int 1, array := ys\<rparr>) = contents q @ take 1 (array p)"
    using LeafPage_CopyNFrom_eq[OF assms(2) le] by blast
  obtain xs where xs: "shift_down (int 0) (int n - 1) (array p) = Some xs" "length xs = length (array p)"
    "take (n - 1) xs = take 0 (array p) @ drop (Suc 0) (take n (array p))" using remove_entry[OF n0 n(2)] by blast
  have "take n (array p) = e # es" using n(3) assms(3) by simp
  moreover have "nat (int n - 1) = n - 1" by simp
  ultimately show ?thesis using ys xs n(1,2) n0 c
    by - (rule exI[of _ "p\<lparr>size_of := size_of p - 1, array := xs\<rparr>"], rule exI[of _ "q\<lparr>size_of := size_of q + 1, array := ys\<rparr>"],
      simp add: LeafPage_MoveFirstToEndOf_def IncreaseSize_def leaf_shape_def contents_def)
qed

lemma LeafPage_MoveLastToFrontOf_eq:
  assumes "leaf_shape p" "leaf_shape q" "contents p = es @ [e]" "length (contents q) < length (array q)"
  shows "\<exists>p' q'. LeafPage_MoveLastToFrontOf p q = Some (p', q') \<and> leaf_shape p' \<and> leaf_shape q' \<and> contents p' = es \<and> contents q' = e # contents q \<and>
    p' = p\<lparr>size_of := size_of p'\<rparr> \<and> q' = q\<lparr>size_of := size_of q', array := array q'\<rparr> \<and> length (array q') = length (array q)"
proof -
  obtain n where n: "size_of p = int n" "n \<le> length (array p)" "contents p = take n (array p)" "length (contents p) = n"
    using leaf_shapeE[OF assms(1)] .
  obtain m where m: "size_of q = int m" "m \<le> length (array q)" "contents q = take m (array q)" "length (contents q) = m"
    using leaf_shapeE[OF assms(2)] .
  have n1: "n = Suc (length es)" using n(4) assms(3) by simp
  have g: "get (array p) (int n - 1) = Some e" using n(2,3) n1 assms(3)
    by (simp add: get_def) (metis lessI nth_append_length nth_take)
  have le: "0 \<le> m" "m < length (array q)" using assms(4) m by simp_all
  obtain ys where ys: "shift_up (int m - 1) (int 0) (array q) = Some ys" "0 < length ys" "length ys = length (array q)"
    "take (Suc m) (ys[0 := e]) = take 0 (array q) @ e # drop 0 (take m (array q))" using insert_entry[OF le] by blast
  have es: "take (length es) (array p) = es" using n(3) n1 assms(3) by (metis append_eq_conv_conj lessI less_imp_le_nat min_absorb1 take_take)
  have "nat (int m + 1) = Suc m" by simp
  then show ?thesis using g ys m n(1,2) n1 es set_at_nat[OF ys(2), of e] le(2)
    by - (rule exI[of _ "p\<lparr>size_of := size_of p - 1\<rparr>"], rule exI[of _ "q\<lparr>size_of := size_of q + 1, array := ys[0 := e]\<rparr>"],
      simp add: LeafPage_MoveLastToFrontOf_def LeafPage_CopyFirstFrom_def IncreaseSize_def leaf_shape_def contents_def)
qed

section \<open>Internal pages\<close>

text \<open>The entries of an internal page; the key of the first is not used.  The child for a key is the last one whose key is
  not above it.\<close>

definition entries :: "'k InternalPage \<Rightarrow> ('k \<times> page_id_t) list" where
  "entries p = take (nat (size_of p)) (children p)"

definition internal_shape :: "'k InternalPage \<Rightarrow> bool" where
  "internal_shape p \<longleftrightarrow> 0 \<le> size_of p \<and> nat (size_of p) \<le> length (children p)"

definition child_index :: "('k \<Rightarrow> 'k \<Rightarrow> int) \<Rightarrow> 'k \<Rightarrow> ('k \<times> 'v) list \<Rightarrow> nat" where
  "child_index cmp key es = length (takeWhile (\<lambda>e. 0 \<le> cmp key (fst e)) (tl es))"

lemma internal_shapeE:
  assumes "internal_shape p"
  obtains n where "size_of p = int n" "n \<le> length (children p)" "entries p = take n (children p)" "length (entries p) = n"
  using assms by (auto simp: internal_shape_def entries_def intro: that[of "nat (size_of p)"])

lemma child_index_less: "es \<noteq> [] \<Longrightarrow> child_index cmp key es < length es"
  using length_takeWhile_le[of "\<lambda>e. 0 \<le> cmp key (fst e)" "tl es"] by (cases es) (auto simp: child_index_def)

declare lookup_loop.simps [simp del] value_index_loop.simps [simp del]

context key_order
begin

lemma child_index_iff:
  assumes "ordered (tl es)" "valid key" "0 < i" "i < length es"
  shows "i \<le> child_index cmp key es \<longleftrightarrow> 0 \<le> cmp key (fst (es ! i))"
proof -
  let ?P = "\<lambda>e. 0 \<le> cmp key (fst e)" and ?xs = "tl es"
  have i: "i - 1 < length ?xs" "es ! i = ?xs ! (i - 1)" using assms(3,4) by (cases es; cases i; simp)+
  show ?thesis
  proof
    assume "i \<le> child_index cmp key es"
    then have "i - 1 < length (takeWhile ?P ?xs)" using assms(3) by (simp add: child_index_def)
    then show "0 \<le> cmp key (fst (es ! i))" using i(2) by (metis (mono_tags, lifting) nth_mem set_takeWhileD takeWhile_nth)
  next
    assume ge: "0 \<le> cmp key (fst (es ! i))"
    show "i \<le> child_index cmp key es"
    proof (rule ccontr)
      let ?c = "length (takeWhile ?P ?xs)"
      assume "\<not> i \<le> child_index cmp key es"
      then have c: "?c \<le> i - 1" "?c < length ?xs" using i(1) by (simp_all add: child_index_def)
      have n: "cmp key (fst (?xs ! ?c)) < 0" using nth_length_takeWhile[OF c(2)] by simp
      have v: "valid (fst (?xs ! ?c))" "valid (fst (es ! i))" using ordered_valid[OF assms(1)] c(2) i by simp_all
      have "?c = i - 1 \<or> cmp (fst (?xs ! ?c)) (fst (es ! i)) < 0"
        using ordered_nth_less[OF assms(1), of ?c "i - 1"] c i by (cases "?c < i - 1") simp_all
      then show False
      proof
        assume "?c = i - 1"
        then show False using n ge i(2) by simp
      next
        assume "cmp (fst (?xs ! ?c)) (fst (es ! i)) < 0"
        then have "cmp key (fst (es ! i)) < 0" using cmp_trans[OF assms(2) v n] by simp
        then show False using ge by simp
      qed
    qed
  qed
qed

lemma lookup_loop_eq:
  assumes "ordered (tl (take n xs))" "n \<le> length xs" "valid key"
  shows "1 \<le> left \<Longrightarrow> left \<le> int (child_index cmp key (take n xs)) + 1 \<Longrightarrow> int (child_index cmp key (take n xs)) \<le> right \<Longrightarrow> right < int n \<Longrightarrow>
    lookup_loop cmp key xs left right = Some (int (child_index cmp key (take n xs)))"
proof (induction "nat (right - left + 1)" arbitrary: left right rule: less_induct)
  case less
  let ?c = "child_index cmp key (take n xs)"
  show ?case
  proof (cases "left \<le> right")
    case True
    define mid where "mid = left + (right - left) div 2"
    have m: "left \<le> mid" "mid \<le> right" using True by (auto simp: mid_def)
    then have mn: "nat mid < n" "0 < nat mid" "nat mid < length xs" "int (nat mid) = mid" using less.prems assms(2) by auto
    have take: "take n xs ! nat mid = xs ! nat mid" "nat mid < length (take n xs)" using mn by simp_all
    have v: "valid (fst (xs ! nat mid))" using ordered_valid[OF assms(1), of "nat mid - 1"] mn take by (simp add: nth_tl)
    have g: "get xs mid = Some (xs ! nat mid)" using get_nat[OF mn(3)] mn(4) by simp
    have le: "mid \<le> int ?c \<longleftrightarrow> 0 \<le> cmp key (fst (xs ! nat mid))"
      using child_index_iff[OF assms(1,3) mn(2) take(2)] take(1) mn(4) by (simp add: le_nat_iff nat_le_iff)
    have zero: "int ?c = mid" if z: "cmp (fst (xs ! nat mid)) key = 0"
    proof (rule ccontr)
      have k: "fst (xs ! nat mid) = key" using cmp_zero[OF v assms(3)] z by simp
      then have "mid \<le> int ?c" using le cmp_refl[OF assms(3)] by simp
      moreover assume "int ?c \<noteq> mid"
      ultimately have c: "Suc (nat mid) \<le> ?c" using mn(4) by linarith
      then have l: "Suc (nat mid) < length (take n xs)" using child_index_less[of "take n xs" cmp key] mn take(2) by (metis le_less_trans length_greater_0_conv not_less_zero gr_zeroI)
      have "0 \<le> cmp key (fst (take n xs ! Suc (nat mid)))" using child_index_iff[OF assms(1,3) _ l] c by simp
      moreover have "cmp (fst (xs ! nat mid)) (fst (take n xs ! Suc (nat mid))) < 0"
        using ordered_nth_less[OF assms(1), of "nat mid - 1" "nat mid"] mn l take(1) by (auto simp: nth_tl)
      ultimately show False using k by simp
    qed
    have less0: "cmp (fst (xs ! nat mid)) key < 0 \<Longrightarrow> mid + 1 \<le> int ?c + 1" using le cmp_swap[OF assms(3) v] by simp
    have gr0: "0 < cmp (fst (xs ! nat mid)) key \<Longrightarrow> int ?c \<le> mid - 1" using le cmp_swap[OF v assms(3)] by simp
    have "lookup_loop cmp key xs (mid + 1) right = Some (int ?c)" if "cmp (fst (xs ! nat mid)) key < 0"
      by (rule less.hyps) (use less.prems m less0[OF that] in simp_all)
    moreover have "lookup_loop cmp key xs left (mid - 1) = Some (int ?c)" if "0 < cmp (fst (xs ! nat mid)) key"
      by (rule less.hyps) (use less.prems m gr0[OF that] in simp_all)
    ultimately show ?thesis using True g zero
      by (subst lookup_loop.simps) (simp add: mid_def[symmetric] Let_def split_beta not_less_iff_gr_or_eq)
  next
    case False
    then show ?thesis using less.prems by (subst lookup_loop.simps) simp
  qed
qed

lemma InternalPage_Lookup_eq:
  assumes "internal_shape p" "2 \<le> size_of p" "ordered (tl (entries p))" "valid key"
  shows "InternalPage_Lookup cmp key p = Some (snd (entries p ! child_index cmp key (entries p)))"
proof -
  obtain n where n: "size_of p = int n" "n \<le> length (children p)" "entries p = take n (children p)" "length (entries p) = n"
    using internal_shapeE[OF assms(1)] .
  have n2: "1 < n" using n(1) assms(2) by simp
  define c where "c = child_index cmp key (entries p)"
  have ne: "entries p \<noteq> []" using n n2 by auto
  have c: "c < n" using child_index_less[OF ne, of cmp key] n(4) by (simp add: c_def)
  have at: "get (children p) (int i) = Some (entries p ! i)" if "i < n" for i using that n by (simp add: get_def)
  have iff: "i \<le> c \<longleftrightarrow> 0 \<le> cmp key (fst (entries p ! i))" if "0 < i" "i < n" for i
    using child_index_iff[OF assms(3,4) that(1)] that(2) n(4) by (simp add: c_def)
  have g: "get (children p) 1 = Some (entries p ! 1)" "get (children p) 0 = Some (entries p ! 0)" "get (children p) (int n - 1) = Some (entries p ! (n - 1))"
    using at[of 1] at[of 0] at[of "n - 1"] n2 by simp_all
  have f: "cmp key (fst (entries p ! 1)) < 0 \<longleftrightarrow> c = 0" using iff[of 1] n2 by auto
  have l: "0 \<le> cmp key (fst (entries p ! (n - 1))) \<longleftrightarrow> c = n - 1" using iff[of "n - 1"] n2 c by auto
  have loop: "lookup_loop cmp key (children p) 1 (int n - 1) = Some (int c)"
    using lookup_loop_eq[of n "children p" key 1 "int n - 1"] assms(3,4) n n2 c by (simp add: c_def)
  show ?thesis unfolding c_def[symmetric] using g f l loop at[OF c] n(1) n2
    by (auto simp: InternalPage_Lookup_def split_beta)
qed

end

lemma value_index_loop_eq:
  assumes "n \<le> length xs" "j < n" "snd (xs ! j) = val" "\<And>i. i < j \<Longrightarrow> snd (xs ! i) \<noteq> val"
  shows "i \<le> j \<Longrightarrow> value_index_loop val xs (int i) (int n) = Some (int j)"
proof (induction "j - i" arbitrary: i)
  case 0
  then have "i = j" by simp
  then show ?case using assms get_nat[of j xs] by (subst value_index_loop.simps) (simp add: split_beta)
next
  case (Suc d)
  then have i: "i < j" "Suc i \<le> j" "d = j - Suc i" by simp_all
  have "value_index_loop val xs (int i) (int n) = value_index_loop val xs (int (Suc i)) (int n)"
    using i assms get_nat[of i xs] by (subst value_index_loop.simps) (simp add: split_beta ac_simps)
  then show ?case using Suc.hyps(1)[OF i(3,2)] by simp
qed

lemma ValueIndex_eq:
  assumes "internal_shape p" "distinct (map snd (entries p))" "i < length (entries p)" "snd (entries p ! i) = val"
  shows "ValueIndex val p = Some (int i)"
proof -
  obtain n where n: "size_of p = int n" "n \<le> length (children p)" "entries p = take n (children p)" "length (entries p) = n"
    using internal_shapeE[OF assms(1)] .
  have "snd (children p ! j) \<noteq> val" if "j < i" for j
    using assms(2,3,4) n that by (auto simp: distinct_conv_nth)
  then show ?thesis using value_index_loop_eq[of n "children p" i val 0] assms(3,4) n by (simp add: ValueIndex_def)
qed

lemma ValueIndex_absent:
  assumes "internal_shape p" "val \<notin> snd ` set (entries p)"
  shows "ValueIndex val p = Some (-1)"
proof -
  obtain n where n: "size_of p = int n" "n \<le> length (children p)" "entries p = take n (children p)" "length (entries p) = n"
    using internal_shapeE[OF assms(1)] .
  have no: "snd (children p ! j) \<noteq> val" if "j < n" for j
    using assms(2) n that by (metis image_eqI nth_mem nth_take)
  have "value_index_loop val (children p) (int i) (int n) = Some (-1)" if "i \<le> n" for i
    using that
  proof (induction "n - i" arbitrary: i)
    case 0
    then show ?case by (subst value_index_loop.simps) simp
  next
    case (Suc d)
    then have "i < n" by simp
    then have "value_index_loop val (children p) (int i) (int n) = value_index_loop val (children p) (int (Suc i)) (int n)"
      using n(2) no[of i] get_nat[of i "children p"] by (subst value_index_loop.simps) (simp add: split_beta ac_simps)
    then show ?case using Suc.hyps(1)[of "Suc i"] Suc.hyps(2) by simp
  qed
  from this[of 0] show ?thesis using n(1) by (simp add: ValueIndex_def)
qed

lemma InsertNodeAfter_eq:
  assumes "internal_shape p" "distinct (map snd (entries p))" "entries p = xs @ (k, old) # ys" "length (entries p) < length (children p)"
  shows "\<exists>p'. InsertNodeAfter old key new p = Some (size_of p + 1, p') \<and> internal_shape p' \<and> entries p' = xs @ (k, old) # (key, new) # ys \<and>
    p' = p\<lparr>size_of := size_of p + 1, children := children p'\<rparr> \<and> length (children p') = length (children p) \<and>
    set (children p') \<subseteq> insert (key, new) (set (children p))"
proof -
  obtain n where n: "size_of p = int n" "n \<le> length (children p)" "entries p = take n (children p)" "length (entries p) = n"
    using internal_shapeE[OF assms(1)] .
  define i where "i = Suc (length xs)"
  have v: "ValueIndex old p = Some (int (length xs))" by (rule ValueIndex_eq[OF assms(1,2)]) (simp_all add: assms(3))
  have i: "i \<le> n" "n < length (children p)" using assms(3,4) n(4) by (simp_all add: i_def)
  obtain zs where zs: "shift_up (int n - 1) (int i) (children p) = Some zs" "i < length zs" "length zs = length (children p)"
    "take (Suc n) (zs[i := (key, new)]) = take i (children p) @ (key, new) # drop i (take n (children p))"
    "set (zs[i := (key, new)]) \<subseteq> insert (key, new) (set (children p))"
    using insert_entry[OF i] by blast
  have "take i (children p) = take i (entries p)" "drop i (take n (children p)) = drop i (entries p)" using n(3) i(1) by (simp_all add: min_absorb1)
  then have e: "take (Suc n) (zs[i := (key, new)]) = xs @ (k, old) # (key, new) # ys"
    unfolding zs(4) using assms(3) by (simp add: i_def)
  have ii: "int (length xs) + 1 = int i" by (simp add: i_def)
  have "InsertNodeAfter old key new p = Some (size_of p + 1, p\<lparr>size_of := size_of p + 1, children := zs[i := (key, new)]\<rparr>)"
    using v zs(1) set_at_nat[OF zs(2)] n(1) i by (simp add: InsertNodeAfter_def IncreaseSize_def ii i_def del: of_nat_Suc)
  moreover have "nat (int n + 1) = Suc n" by simp
  ultimately show ?thesis using e zs(3,5) n(1) i
    by (intro exI[of _ "p\<lparr>size_of := size_of p + 1, children := zs[i := (key, new)]\<rparr>"]) (simp add: entries_def internal_shape_def)
qed

lemma InternalPage_Remove_eq:
  assumes "internal_shape p" "i < length (entries p)"
  shows "\<exists>p'. InternalPage_Remove (int i) p = Some p' \<and> internal_shape p' \<and> entries p' = take i (entries p) @ drop (Suc i) (entries p) \<and>
    p' = p\<lparr>size_of := size_of p - 1, children := children p'\<rparr> \<and> length (children p') = length (children p) \<and> set (children p') \<subseteq> set (children p)"
proof -
  obtain n where n: "size_of p = int n" "n \<le> length (children p)" "entries p = take n (children p)" "length (entries p) = n"
    using internal_shapeE[OF assms(1)] .
  have i: "i < n" using assms(2) n(4) by simp
  obtain zs where zs: "shift_down (int i) (int n - 1) (children p) = Some zs" "length zs = length (children p)"
    "take (n - 1) zs = take i (children p) @ drop (Suc i) (take n (children p))" "set zs \<subseteq> set (children p)" using remove_entry[OF i n(2)] by blast
  have "InternalPage_Remove (int i) p = Some (p\<lparr>size_of := size_of p - 1, children := zs\<rparr>)"
    using zs(1) n(1) i by (simp add: InternalPage_Remove_def IncreaseSize_def)
  moreover have "nat (int n - 1) = n - 1" by simp
  ultimately show ?thesis unfolding n(3) using zs(2,3,4) n(1,2) i
    by (intro exI[of _ "p\<lparr>size_of := size_of p - 1, children := zs\<rparr>"]) (simp add: entries_def internal_shape_def min_absorb1)
qed

section \<open>Leaves implement maps\<close>

context key_order
begin

lemma leaf_insert_refines:
  assumes "leaf_shape p" "ordered (contents p)" "valid key" "size_of p \<le> max_size_of p" "nat (size_of p) < length (array p)" "map_of (contents p) key = None"
  shows "\<exists>p'. LeafPage_Insert cmp key val p = Some (size_of p + 1, p') \<and> leaf_shape p' \<and> ordered (contents p') \<and>
    map_of (contents p') = (map_of (contents p))(key \<mapsto> val)"
  using LeafPage_Insert_eq[OF assms(1-5), of val] ordered_insert[OF assms(2,3,6), of val] map_of_insert[OF assms(2,3), of val]
  by metis

lemma leaf_remove_refines:
  assumes "leaf_shape p" "ordered (contents p)" "valid key"
  shows "\<exists>p'. RemoveAndDeleteRecord cmp key p = Some (size_of p', p') \<and> leaf_shape p' \<and> ordered (contents p') \<and>
    map_of (contents p') = (map_of (contents p))(key := None)"
proof (cases "map_of (contents p) key")
  case None
  then show ?thesis using RemoveAndDeleteRecord_absent[OF assms None] assms by (intro exI[of _ p]) (simp add: fun_upd_idem)
next
  case (Some v)
  obtain xs where "RemoveAndDeleteRecord cmp key p = Some (size_of p - 1, p\<lparr>size_of := size_of p - 1, array := xs\<rparr>)"
    "leaf_shape (p\<lparr>size_of := size_of p - 1, array := xs\<rparr>)" "contents (p\<lparr>size_of := size_of p - 1, array := xs\<rparr>) =
      take (position cmp key (contents p)) (contents p) @ drop (Suc (position cmp key (contents p))) (contents p)"
    using RemoveAndDeleteRecord_present[OF assms Some] by blast
  then show ?thesis using ordered_remove[OF assms(2)] map_of_remove[OF assms(2,3) Some]
    by (intro exI[of _ "p\<lparr>size_of := size_of p - 1, array := xs\<rparr>"]) simp
qed

end

text \<open>C15: A leaf whose keys are sorted by the index's comparator implements a map: looking a key up gives its value
  in the map that the entries represent; inserting an absent key into a leaf with room adds it to the map and deleting a key removes it (and
  does nothing when it is absent).  The keys stay sorted and the size counts the entries.\<close>

theorem leaf_refines_map:
  assumes "leaf_shape p" "sorted_entries (\<lambda>k. length k = n) GenericComparator (contents p)" "length key = n"
  shows "LeafPage_Lookup GenericComparator key p = Some (map_of (contents p) key) \<and>
    (size_of p \<le> max_size_of p \<and> nat (size_of p) < length (array p) \<and> map_of (contents p) key = None \<longrightarrow>
      (\<exists>p'. LeafPage_Insert GenericComparator key val p = Some (size_of p + 1, p') \<and> leaf_shape p' \<and>
        sorted_entries (\<lambda>k. length k = n) GenericComparator (contents p') \<and> map_of (contents p') = (map_of (contents p))(key \<mapsto> val))) \<and>
    (\<exists>p'. RemoveAndDeleteRecord GenericComparator key p = Some (size_of p', p') \<and> leaf_shape p' \<and>
        sorted_entries (\<lambda>k. length k = n) GenericComparator (contents p') \<and> map_of (contents p') = (map_of (contents p))(key := None))"
  using generic.LeafPage_Lookup_eq[OF assms] generic.leaf_insert_refines[OF assms] generic.leaf_remove_refines[OF assms] by blast

theorem leaf_refines_map_witness:
  "\<exists>p'. LeafPage_Insert GenericComparator [1, 200] (7 :: int)
       \<lparr>page_type = LEAF_PAGE, lsn = INVALID_LSN, size_of = 1, max_size_of = 2, parent_page_id = INVALID_PAGE_ID, self_page_id = 5,
         next_page_id = 0, array = [([1, 100], 3), ([0, 0], 0), ([0, 0], 0)]\<rparr> = Some (2, p') \<and> map_of (contents p') [1, 200] = Some 7 \<and> map_of (contents p') [1, 100] = Some 3"
  using leaf_refines_map[of "\<lparr>page_type = LEAF_PAGE, lsn = INVALID_LSN, size_of = 1, max_size_of = 2, parent_page_id = INVALID_PAGE_ID, self_page_id = 5,
      next_page_id = 0, array = [([1, 100], 3), ([0, 0], 0), ([0, 0], 0)]\<rparr>" 2 "[1, 200]" 7]
  by (auto simp: leaf_shape_def contents_def sorted_entries_def)

end
