(* ===== verification/BPlus_Layout.thy ===== *)
theory BPlus_Layout
  imports BPlus_Page
begin

text \<open>Where the members of the page classes lie in the 4096 bytes of a page, for keys of type \<^verbatim>\<open>GenericKey<KeySize>\<close> and
  values of type \<^verbatim>\<open>RowId\<close>.  The code casts the bytes of a frame to the class (\<^verbatim>\<open>reinterpret_cast\<close>), so a method call reads and
  writes these bytes: \<open>LeafPage_of\<close> and \<open>InternalPage_of\<close> give the members, and \<open>leaf_bytes\<close> and \<open>internal_bytes\<close> are the bytes after the members have
  been written.  The round trips at the end show that nothing is lost.\<close>

section \<open>Model\<close>

definition read_int :: "byte list \<Rightarrow> nat \<Rightarrow> int" where
  "read_int d off = sint (of_le32 (take 4 (drop off d)))"

definition int_bytes :: "int \<Rightarrow> byte list" where
  "int_bytes i = le32 (word_of_int i)"

definition LEAF_PAGE_HEADER_SIZE :: nat where
  "LEAF_PAGE_HEADER_SIZE = 28"

definition INTERNAL_PAGE_HEADER_SIZE :: nat where
  "INTERNAL_PAGE_HEADER_SIZE = 24"

text \<open>How many pairs fit behind the header.\<close>

definition leaf_places :: "nat \<Rightarrow> nat" where
  "leaf_places K = (PAGE_SIZE - LEAF_PAGE_HEADER_SIZE) div (K + 8)"

definition internal_places :: "nat \<Rightarrow> nat" where
  "internal_places K = (PAGE_SIZE - INTERNAL_PAGE_HEADER_SIZE) div (K + 4)"

text \<open>The macros with the default sizes; \<open>w\<close> is \<^verbatim>\<open>sizeof(MappingType)\<close> where the macro is used.\<close>

definition LEAF_PAGE_SIZE :: "nat \<Rightarrow> int" where
  "LEAF_PAGE_SIZE w = int ((PAGE_SIZE - LEAF_PAGE_HEADER_SIZE) div w) - 1"

definition INTERNAL_PAGE_SIZE :: "nat \<Rightarrow> int" where
  "INTERNAL_PAGE_SIZE w = int ((PAGE_SIZE - INTERNAL_PAGE_HEADER_SIZE) div w) - 1"

definition leaf_pair :: "nat \<Rightarrow> byte list \<Rightarrow> key \<times> RowId" where
  "leaf_pair K b = (take K b, \<lparr>rid_page = read_int b K, rid_slot = of_le32 (take 4 (drop (K + 4) b))\<rparr>)"

definition leaf_pair_bytes :: "key \<times> RowId \<Rightarrow> byte list" where
  "leaf_pair_bytes e = fst e @ int_bytes (rid_page (snd e)) @ le32 (rid_slot (snd e))"

definition internal_pair :: "nat \<Rightarrow> byte list \<Rightarrow> key \<times> page_id_t" where
  "internal_pair K b = (take K b, read_int b K)"

definition internal_pair_bytes :: "key \<times> page_id_t \<Rightarrow> byte list" where
  "internal_pair_bytes e = fst e @ int_bytes (snd e)"

text \<open>The array of pairs behind the header.\<close>

fun pairs :: "nat \<Rightarrow> nat \<Rightarrow> byte list \<Rightarrow> byte list list" where
  "pairs w 0 d = []"
| "pairs w (Suc n) d = take w d # pairs w n (drop w d)"

definition BPlusTreePage_of :: "byte list \<Rightarrow> BPlusTreePage" where
  "BPlusTreePage_of d = \<lparr>page_type = read_int d 0, lsn = read_int d 4, size_of = read_int d 8, max_size_of = read_int d 12,
     parent_page_id = read_int d 16, self_page_id = read_int d 20\<rparr>"

definition header_bytes :: "'a BPlusTreePage_scheme \<Rightarrow> byte list" where
  "header_bytes p = int_bytes (page_type p) @ int_bytes (lsn p) @ int_bytes (size_of p) @ int_bytes (max_size_of p) @
     int_bytes (parent_page_id p) @ int_bytes (self_page_id p)"

definition LeafPage_of :: "nat \<Rightarrow> byte list \<Rightarrow> (key, RowId) LeafPage" where
  "LeafPage_of K d = BPlusTreePage.extend (BPlusTreePage_of d)
     (LeafPage.fields (read_int d 24) (map (leaf_pair K) (pairs (K + 8) (leaf_places K) (drop LEAF_PAGE_HEADER_SIZE d))))"

definition leaf_bytes :: "nat \<Rightarrow> (key, RowId) LeafPage \<Rightarrow> byte list \<Rightarrow> byte list" where
  "leaf_bytes K p d = header_bytes p @ int_bytes (next_page_id p) @ concat (map leaf_pair_bytes (array p)) @
     drop (LEAF_PAGE_HEADER_SIZE + leaf_places K * (K + 8)) d"

definition InternalPage_of :: "nat \<Rightarrow> byte list \<Rightarrow> key InternalPage" where
  "InternalPage_of K d = BPlusTreePage.extend (BPlusTreePage_of d)
     (InternalPage.fields (map (internal_pair K) (pairs (K + 4) (internal_places K) (drop INTERNAL_PAGE_HEADER_SIZE d))))"

definition internal_bytes :: "nat \<Rightarrow> key InternalPage \<Rightarrow> byte list \<Rightarrow> byte list" where
  "internal_bytes K p d = header_bytes p @ concat (map internal_pair_bytes (children p)) @
     drop (INTERNAL_PAGE_HEADER_SIZE + internal_places K * (K + 4)) d"

text \<open>A method that only sets the parent of a page writes four bytes.\<close>

definition SetParentPageId :: "page_id_t \<Rightarrow> byte list \<Rightarrow> byte list" where
  "SetParentPageId pid d = take 16 d @ int_bytes pid @ drop 20 d"

section \<open>Round trips\<close>

lemma length_int_bytes [simp]: "length (int_bytes i) = 4"
  by (simp add: int_bytes_def)

lemma of_int_bytes: "int32_range i \<Longrightarrow> sint (of_le32 (int_bytes i)) = i"
  by (simp add: int_bytes_def sint_word_of_int32)

lemma int_bytes_read: "off + 4 \<le> length d \<Longrightarrow> int_bytes (read_int d off) = take 4 (drop off d)"
  by (simp add: int_bytes_def read_int_def le32_of_le32)

lemma read_int_range: "int32_range (read_int d off)"
  using sint_range_size[of "of_le32 (take 4 (drop off d)) :: u32"] by (simp add: read_int_def int32_range_def word_size)

lemma length_pairs [simp]: "length (pairs w n d) = n"
  by (induction w n d rule: pairs.induct) simp_all

lemma concat_pairs: "n * w \<le> length d \<Longrightarrow> concat (pairs w n d) = take (n * w) d"
proof (induction n arbitrary: d)
  case (Suc n)
  then show ?case using take_add[of w "n * w" d] by simp
qed simp

lemma pairs_length: "n * w \<le> length d \<Longrightarrow> b \<in> set (pairs w n d) \<Longrightarrow> length b = w"
  by (induction w n d rule: pairs.induct) (auto simp: algebra_simps)

lemma pairs_concat: "list_all (\<lambda>b. length b = w) bs \<Longrightarrow> pairs w (length bs) (concat bs @ r) = bs"
  by (induction bs) simp_all

lemma leaf_pair_bytes_pair: "length b = K + 8 \<Longrightarrow> leaf_pair_bytes (leaf_pair K b) = b"
proof -
  assume l: "length b = K + 8"
  have "int_bytes (read_int b K) = take 4 (drop K b)" "le32 (of_le32 (take 4 (drop (K + 4) b))) = take 4 (drop (K + 4) b)"
    using l by (simp_all add: int_bytes_read le32_of_le32)
  moreover have "drop K b = take 4 (drop K b) @ drop (K + 4) b" by (metis append_take_drop_id drop_drop add.commute)
  moreover have "take 4 (drop (K + 4) b) = drop (K + 4) b" using l by simp
  ultimately show ?thesis by (simp add: leaf_pair_bytes_def leaf_pair_def)
qed

lemma leaf_pair_pair_bytes: "length (fst e) = K \<Longrightarrow> int32_range (rid_page (snd e)) \<Longrightarrow> leaf_pair K (leaf_pair_bytes e) = e"
  by (cases e) (simp add: leaf_pair_def leaf_pair_bytes_def read_int_def of_int_bytes)

lemma internal_pair_bytes_pair: "length b = K + 4 \<Longrightarrow> internal_pair_bytes (internal_pair K b) = b"
  using int_bytes_read[of K b] by (simp add: internal_pair_bytes_def internal_pair_def)

lemma internal_pair_pair_bytes: "length (fst e) = K \<Longrightarrow> int32_range (snd e) \<Longrightarrow> internal_pair K (internal_pair_bytes e) = e"
  by (cases e) (simp add: internal_pair_def internal_pair_bytes_def read_int_def of_int_bytes)

text \<open>The members that a page can hold.\<close>

definition header_ok :: "'a BPlusTreePage_scheme \<Rightarrow> bool" where
  "header_ok p \<longleftrightarrow> int32_range (page_type p) \<and> int32_range (lsn p) \<and> int32_range (size_of p) \<and> int32_range (max_size_of p) \<and>
     int32_range (parent_page_id p) \<and> int32_range (self_page_id p)"

definition leaf_ok :: "nat \<Rightarrow> (key, RowId) LeafPage \<Rightarrow> bool" where
  "leaf_ok K p \<longleftrightarrow> header_ok p \<and> int32_range (next_page_id p) \<and> length (array p) = leaf_places K \<and>
     list_all (\<lambda>e. length (fst e) = K \<and> int32_range (rid_page (snd e))) (array p)"

definition internal_ok :: "nat \<Rightarrow> key InternalPage \<Rightarrow> bool" where
  "internal_ok K p \<longleftrightarrow> header_ok p \<and> length (children p) = internal_places K \<and>
     list_all (\<lambda>e. length (fst e) = K \<and> int32_range (snd e)) (children p)"

lemma length_header_bytes [simp]: "length (header_bytes p) = 24"
  by (simp add: header_bytes_def)

lemma BPlusTreePage_of_header: "header_ok p \<Longrightarrow> BPlusTreePage_of (header_bytes p @ r) = BPlusTreePage.truncate p"
  by (simp add: BPlusTreePage_of_def header_bytes_def read_int_def of_int_bytes header_ok_def BPlusTreePage.truncate_def)

lemma header_bytes_of: "length d \<ge> 24 \<Longrightarrow> header_bytes (BPlusTreePage_of d) = take 24 d"
  using take_add[of 4 4 d] take_add[of 8 4 d] take_add[of 12 4 d] take_add[of 16 4 d] take_add[of 20 4 d]
  by (simp add: header_bytes_def BPlusTreePage_of_def int_bytes_read)

lemma header_ok_of: "header_ok (BPlusTreePage_of d)"
  by (simp add: header_ok_def BPlusTreePage_of_def read_int_range)

lemma leaf_places_fit: "LEAF_PAGE_HEADER_SIZE + leaf_places K * (K + 8) \<le> PAGE_SIZE"
  using div_times_less_eq_dividend[of "PAGE_SIZE - LEAF_PAGE_HEADER_SIZE" "K + 8"]
  by (simp add: leaf_places_def LEAF_PAGE_HEADER_SIZE_def PAGE_SIZE_def)

lemma internal_places_fit: "INTERNAL_PAGE_HEADER_SIZE + internal_places K * (K + 4) \<le> PAGE_SIZE"
  using div_times_less_eq_dividend[of "PAGE_SIZE - INTERNAL_PAGE_HEADER_SIZE" "K + 4"]
  by (simp add: internal_places_def INTERNAL_PAGE_HEADER_SIZE_def PAGE_SIZE_def)

lemma concat_length: "list_all (\<lambda>b. length b = w) bs \<Longrightarrow> length (concat bs) = length bs * w"
  by (induction bs) simp_all

lemma read_int_bytes: "int32_range i \<Longrightarrow> length a = off \<Longrightarrow> read_int (a @ int_bytes i @ r) off = i"
  by (simp add: read_int_def of_int_bytes)

lemma leaf_bytes_props:
  assumes "leaf_ok K p" "length d = PAGE_SIZE"
  shows "LeafPage_of K (leaf_bytes K p d) = p" "length (leaf_bytes K p d) = PAGE_SIZE"
proof -
  let ?bs = "map leaf_pair_bytes (array p)" and ?r = "drop (LEAF_PAGE_HEADER_SIZE + leaf_places K * (K + 8)) d"
  have a: "header_ok p" "int32_range (next_page_id p)" "length (array p) = leaf_places K"
    "list_all (\<lambda>e. length (fst e) = K \<and> int32_range (rid_page (snd e))) (array p)" using assms(1) by (simp_all add: leaf_ok_def)
  have w: "list_all (\<lambda>b. length b = K + 8) ?bs" using a(4) by (auto simp: list_all_iff leaf_pair_bytes_def)
  have d: "drop LEAF_PAGE_HEADER_SIZE (leaf_bytes K p d) = concat ?bs @ ?r"
    by (simp add: leaf_bytes_def LEAF_PAGE_HEADER_SIZE_def)
  have "pairs (K + 8) (leaf_places K) (concat ?bs @ ?r) = ?bs" using pairs_concat[OF w] a(3) by simp
  moreover have "map (leaf_pair K) ?bs = array p"
    using a(4) by (intro nth_equalityI) (simp_all add: list_all_length leaf_pair_pair_bytes)
  moreover have "read_int (leaf_bytes K p d) 24 = next_page_id p" unfolding leaf_bytes_def by (rule read_int_bytes[OF a(2)]) simp
  moreover have "BPlusTreePage_of (leaf_bytes K p d) = BPlusTreePage.truncate p"
    unfolding leaf_bytes_def by (rule BPlusTreePage_of_header[OF a(1)])
  ultimately show "LeafPage_of K (leaf_bytes K p d) = p"
    by (simp add: LeafPage_of_def d BPlusTreePage.defs LeafPage.fields_def)
  show "length (leaf_bytes K p d) = PAGE_SIZE"
    using concat_length[OF w] a(3) assms(2) leaf_places_fit[of K] by (simp add: leaf_bytes_def LEAF_PAGE_HEADER_SIZE_def)
qed

lemma leaf_ok_of:
  assumes "length d = PAGE_SIZE"
  shows "leaf_ok K (LeafPage_of K d)"
proof -
  have le: "leaf_places K * (K + 8) \<le> length (drop LEAF_PAGE_HEADER_SIZE d)" using leaf_places_fit[of K] assms by simp
  have "list_all (\<lambda>e. length (fst e) = K \<and> int32_range (rid_page (snd e))) (map (leaf_pair K) (pairs (K + 8) (leaf_places K) (drop LEAF_PAGE_HEADER_SIZE d)))"
    using pairs_length[OF le] by (auto simp: list_all_iff leaf_pair_def read_int_range)
  then show ?thesis using header_ok_of[of d]
    by (simp add: leaf_ok_def header_ok_def LeafPage_of_def BPlusTreePage.defs LeafPage.fields_def read_int_range)
qed

lemma leaf_bytes_of:
  assumes "length d = PAGE_SIZE"
  shows "leaf_bytes K (LeafPage_of K d) d = d"
proof -
  let ?e = "drop LEAF_PAGE_HEADER_SIZE d" and ?n = "leaf_places K * (K + 8)"
  have le: "?n \<le> length ?e" using leaf_places_fit[of K] assms by simp
  have "map leaf_pair_bytes (map (leaf_pair K) (pairs (K + 8) (leaf_places K) ?e)) = pairs (K + 8) (leaf_places K) ?e"
    using pairs_length[OF le] leaf_pair_bytes_pair by (auto simp: map_idI)
  then have c: "concat (map leaf_pair_bytes (array (LeafPage_of K d))) = take ?n ?e"
    using concat_pairs[OF le] by (simp add: LeafPage_of_def BPlusTreePage.defs LeafPage.fields_def)
  have h: "header_bytes (LeafPage_of K d) = take 24 d"
    using header_bytes_of[of d] assms by (simp add: header_bytes_def LeafPage_of_def BPlusTreePage.defs PAGE_SIZE_def)
  have n: "int_bytes (next_page_id (LeafPage_of K d)) = take 4 (drop 24 d)"
    using int_bytes_read[of 24 d] assms by (simp add: LeafPage_of_def BPlusTreePage.defs LeafPage.fields_def PAGE_SIZE_def)
  have "take 24 d @ take 4 (drop 24 d) @ ?e = d" using take_add[of 24 4 d] append_take_drop_id[of 28 d] by (simp add: LEAF_PAGE_HEADER_SIZE_def)
  moreover have "take ?n ?e @ drop (LEAF_PAGE_HEADER_SIZE + ?n) d = ?e" by (metis append_take_drop_id drop_drop add.commute)
  ultimately show ?thesis by (simp add: leaf_bytes_def c h n)
qed

lemma internal_bytes_props:
  assumes "internal_ok K p" "length d = PAGE_SIZE"
  shows "InternalPage_of K (internal_bytes K p d) = p" "length (internal_bytes K p d) = PAGE_SIZE"
proof -
  let ?bs = "map internal_pair_bytes (children p)" and ?r = "drop (INTERNAL_PAGE_HEADER_SIZE + internal_places K * (K + 4)) d"
  have a: "header_ok p" "length (children p) = internal_places K"
    "list_all (\<lambda>e. length (fst e) = K \<and> int32_range (snd e)) (children p)" using assms(1) by (simp_all add: internal_ok_def)
  have w: "list_all (\<lambda>b. length b = K + 4) ?bs" using a(3) by (auto simp: list_all_iff internal_pair_bytes_def)
  have d: "drop INTERNAL_PAGE_HEADER_SIZE (internal_bytes K p d) = concat ?bs @ ?r"
    by (simp add: internal_bytes_def INTERNAL_PAGE_HEADER_SIZE_def)
  have "pairs (K + 4) (internal_places K) (concat ?bs @ ?r) = ?bs" using pairs_concat[OF w] a(2) by simp
  moreover have "map (internal_pair K) ?bs = children p"
    using a(3) by (intro nth_equalityI) (simp_all add: list_all_length internal_pair_pair_bytes)
  moreover have "BPlusTreePage_of (internal_bytes K p d) = BPlusTreePage.truncate p"
    unfolding internal_bytes_def by (rule BPlusTreePage_of_header[OF a(1)])
  ultimately show "InternalPage_of K (internal_bytes K p d) = p"
    by (simp add: InternalPage_of_def d BPlusTreePage.defs InternalPage.fields_def)
  show "length (internal_bytes K p d) = PAGE_SIZE"
    using concat_length[OF w] a(2) assms(2) internal_places_fit[of K] by (simp add: internal_bytes_def INTERNAL_PAGE_HEADER_SIZE_def)
qed

lemma internal_ok_of:
  assumes "length d = PAGE_SIZE"
  shows "internal_ok K (InternalPage_of K d)"
proof -
  have le: "internal_places K * (K + 4) \<le> length (drop INTERNAL_PAGE_HEADER_SIZE d)" using internal_places_fit[of K] assms by simp
  have "list_all (\<lambda>e. length (fst e) = K \<and> int32_range (snd e)) (map (internal_pair K) (pairs (K + 4) (internal_places K) (drop INTERNAL_PAGE_HEADER_SIZE d)))"
    using pairs_length[OF le] by (auto simp: list_all_iff internal_pair_def read_int_range)
  then show ?thesis using header_ok_of[of d]
    by (simp add: internal_ok_def header_ok_def InternalPage_of_def BPlusTreePage.defs InternalPage.fields_def)
qed

end
