(* ===== verification/Index_Roots.thy ===== *)
theory Index_Roots
  imports BPlus_Layout
begin

text \<open>The page with the roots of all indexes (\<^verbatim>\<open>page/index_roots_page.cpp\<close>, \<^verbatim>\<open>include/page/index_roots_page.h\<close>): a counter and an array of pairs of an
  index id and a root page id.  The array ends with the page.  It is shown to implement a map from index ids to
  roots, up to its capacity; the code does not check the capacity.\<close>

section \<open>Model\<close>

record IndexRootsPage =
  count_of :: int
  roots :: "(u32 \<times> page_id_t) list"

definition MAX_INDEX_COUNT :: nat where
  "MAX_INDEX_COUNT = (PAGE_SIZE - 4) div 8"

definition IndexRootsPage_of :: "byte list \<Rightarrow> IndexRootsPage" where
  "IndexRootsPage_of d = \<lparr>count_of = read_int d 0,
     roots = map (\<lambda>b. (of_le32 (take 4 b), read_int b 4)) (pairs 8 MAX_INDEX_COUNT (drop 4 d))\<rparr>"

definition roots_bytes :: "IndexRootsPage \<Rightarrow> byte list \<Rightarrow> byte list" where
  "roots_bytes p d = int_bytes (count_of p) @ concat (map (\<lambda>(i, r). le32 i @ int_bytes r) (roots p)) @ drop (4 + MAX_INDEX_COUNT * 8) d"

definition IndexRootsPage_Init :: "IndexRootsPage \<Rightarrow> IndexRootsPage" where
  "IndexRootsPage_Init p = p\<lparr>count_of := 0\<rparr>"

function find_index_loop :: "u32 \<Rightarrow> (u32 \<times> page_id_t) list \<Rightarrow> int \<Rightarrow> int \<Rightarrow> int option" where
  "find_index_loop index_id xs i n = (if i < n then do {
       (k, _) \<leftarrow> get xs i;
       if k = index_id then Some i else find_index_loop index_id xs (i + 1) n }
     else Some (-1))"
  by pat_completeness auto
termination by (relation "measure (\<lambda>(index_id, xs, i, n). nat (n - i))") auto

definition FindIndex :: "u32 \<Rightarrow> IndexRootsPage \<Rightarrow> int option" where
  "FindIndex index_id p = find_index_loop index_id (roots p) 0 (count_of p)"

definition Roots_Insert :: "u32 \<Rightarrow> page_id_t \<Rightarrow> IndexRootsPage \<Rightarrow> (bool \<times> IndexRootsPage) option" where
  "Roots_Insert index_id root_id p = do {
     index \<leftarrow> FindIndex index_id p;
     if index \<noteq> -1 then Some (False, p)
     else do {
       xs \<leftarrow> set_at (roots p) (count_of p) (index_id, root_id);
       Some (True, p\<lparr>roots := xs, count_of := count_of p + 1\<rparr>) } }"

definition Roots_Delete :: "u32 \<Rightarrow> IndexRootsPage \<Rightarrow> (bool \<times> IndexRootsPage) option" where
  "Roots_Delete index_id p = do {
     index \<leftarrow> FindIndex index_id p;
     if index = -1 then Some (False, p)
     else do {
       xs \<leftarrow> shift_down index (count_of p - 1) (roots p);
       Some (True, p\<lparr>roots := xs, count_of := count_of p - 1\<rparr>) } }"

definition Roots_Update :: "u32 \<Rightarrow> page_id_t \<Rightarrow> IndexRootsPage \<Rightarrow> (bool \<times> IndexRootsPage) option" where
  "Roots_Update index_id root_id p = do {
     index \<leftarrow> FindIndex index_id p;
     if index = -1 then Some (False, p)
     else do {
       (k, _) \<leftarrow> get (roots p) index;
       xs \<leftarrow> set_at (roots p) index (k, root_id);
       Some (True, p\<lparr>roots := xs\<rparr>) } }"

text \<open>The root id is -1 when the index is not there.\<close>

definition GetRootId :: "u32 \<Rightarrow> IndexRootsPage \<Rightarrow> (bool \<times> page_id_t) option" where
  "GetRootId index_id p = do {
     index \<leftarrow> FindIndex index_id p;
     if index = -1 then Some (False, -1)
     else do { (_, r) \<leftarrow> get (roots p) index; Some (True, r) } }"

definition GetIndexCount :: "IndexRootsPage \<Rightarrow> int" where
  "GetIndexCount p = count_of p"

section \<open>The page as a map\<close>

definition root_list :: "IndexRootsPage \<Rightarrow> (u32 \<times> page_id_t) list" where
  "root_list p = take (nat (count_of p)) (roots p)"

definition roots_ok :: "IndexRootsPage \<Rightarrow> bool" where
  "roots_ok p \<longleftrightarrow> 0 \<le> count_of p \<and> nat (count_of p) \<le> length (roots p) \<and> length (roots p) = MAX_INDEX_COUNT \<and> distinct (map fst (root_list p)) \<and>
     list_all (\<lambda>e. int32_range (snd e)) (roots p)"

declare find_index_loop.simps [simp del]

lemma roots_okE:
  assumes "roots_ok p"
  obtains n where "count_of p = int n" "n \<le> length (roots p)" "root_list p = take n (roots p)" "length (root_list p) = n" "distinct (map fst (root_list p))"
  using assms by (auto simp: roots_ok_def root_list_def intro: that[of "nat (count_of p)"])

lemma find_index_loop_eq:
  assumes "n \<le> length xs"
  shows "i \<le> n \<Longrightarrow> (\<And>j. j < i \<Longrightarrow> fst (xs ! j) \<noteq> k) \<Longrightarrow> find_index_loop k xs (int i) (int n) =
    Some (if k \<in> fst ` set (take n xs) then int (length (takeWhile (\<lambda>e. fst e \<noteq> k) (take n xs))) else -1)"
proof (induction "n - i" arbitrary: i)
  case 0
  have "k \<notin> fst ` set (take n xs)"
  proof
    assume "k \<in> fst ` set (take n xs)"
    then obtain j where "j < n" "fst (xs ! j) = k" by (auto simp: in_set_conv_nth)
    then show False using 0 by auto
  qed
  then show ?case using 0 by (subst find_index_loop.simps) simp
next
  case (Suc d)
  then have i: "i < n" "i < length xs" using assms by simp_all
  show ?case
  proof (cases "fst (xs ! i) = k")
    case True
    have t: "take n xs = take i xs @ xs ! i # drop (Suc i) (take n xs)" using id_take_nth_drop[of i "take n xs"] i by (simp add: min_absorb1)
    have "fst e \<noteq> k" if "e \<in> set (take i xs)" for e
    proof -
      obtain j where "j < i" "e = xs ! j" using \<open>e \<in> set (take i xs)\<close> by (auto simp: in_set_conv_nth)
      then show ?thesis using Suc.prems(2)[of j] by simp
    qed
    then have "takeWhile (\<lambda>e. fst e \<noteq> k) (take n xs) = take i xs" using True by (subst t) (simp add: takeWhile_append2)
    moreover have "k \<in> fst ` set (take n xs)" using True i by (metis image_eqI in_set_conv_nth length_take min_less_iff_conj nth_take)
    ultimately show ?thesis using True i get_nat[OF i(2)] by (subst find_index_loop.simps) (simp add: split_beta)
  next
    case False
    have "find_index_loop k xs (int i) (int n) = find_index_loop k xs (int (Suc i)) (int n)"
      using False i get_nat[OF i(2)] by (subst find_index_loop.simps) (simp add: split_beta ac_simps)
    moreover have "\<And>j. j < Suc i \<Longrightarrow> fst (xs ! j) \<noteq> k" using False Suc.prems(2) by (auto simp: less_Suc_eq)
    ultimately show ?thesis using Suc.hyps(1)[of "Suc i"] Suc.hyps(2) i by simp
  qed
qed

lemma FindIndex_absent: "roots_ok p \<Longrightarrow> map_of (root_list p) k = None \<Longrightarrow> FindIndex k p = Some (-1)"
  by (elim roots_okE) (use find_index_loop_eq[of _ "roots p" 0 k] in \<open>simp add: FindIndex_def map_of_eq_None_iff\<close>)

lemma FindIndex_present:
  assumes "roots_ok p" "map_of (root_list p) k = Some r"
  obtains i xs ys where "FindIndex k p = Some (int i)" "root_list p = xs @ (k, r) # ys" "length xs = i" "k \<notin> fst ` set xs" "k \<notin> fst ` set ys"
proof -
  obtain n where n: "count_of p = int n" "n \<le> length (roots p)" "root_list p = take n (roots p)" "length (root_list p) = n" "distinct (map fst (root_list p))"
    using roots_okE[OF assms(1)] .
  obtain xs ys where s: "root_list p = xs @ (k, r) # ys" using map_of_SomeD[OF assms(2)] by (auto dest: split_list)
  have no: "k \<notin> fst ` set xs" "k \<notin> fst ` set ys" using n(5) s by auto
  have "takeWhile (\<lambda>e. fst e \<noteq> k) (root_list p) = xs" unfolding s using no(1) by (subst takeWhile_append2) auto
  moreover have "k \<in> fst ` set (root_list p)" using s by force
  ultimately have "FindIndex k p = Some (int (length xs))"
    using find_index_loop_eq[OF n(2), of 0 k] n(1,3) by (simp add: FindIndex_def)
  then show ?thesis using that s no by blast
qed

lemma roots_ok_intro:
  assumes "count_of p = int n" "length (roots p) = MAX_INDEX_COUNT" "n \<le> MAX_INDEX_COUNT" "take n (roots p) = es" "distinct (map fst es)"
    "list_all (\<lambda>e. int32_range (snd e)) (roots p)"
  shows "roots_ok p" "root_list p = es"
  using assms by (simp_all add: roots_ok_def root_list_def)

lemma list_all_set_at: "list_all P xs \<Longrightarrow> P x \<Longrightarrow> list_all P (xs[i := x])"
  by (auto simp: list_all_iff dest: set_update_subset_insert[THEN subsetD])

lemma map_of_snoc: "map_of xs k = None \<Longrightarrow> map_of (xs @ [(k, v)]) = (map_of xs)(k \<mapsto> v)"
  by (rule ext) (auto simp: map_add_def split: option.splits)

lemma map_of_middle:
  assumes "k \<notin> fst ` set xs" "k \<notin> fst ` set ys"
  shows "map_of (xs @ (k, v) # ys) = (map_of (xs @ ys))(k \<mapsto> v)" "map_of (xs @ ys) k = None"
proof -
  have n: "map_of xs k = None" "map_of ys k = None" using assms by (simp_all add: map_of_eq_None_iff)
  then show "map_of (xs @ ys) k = None" by (simp add: map_add_def)
  show "map_of (xs @ (k, v) # ys) = (map_of (xs @ ys))(k \<mapsto> v)"
    by (rule ext) (use n in \<open>auto simp: map_add_def split: option.splits\<close>)
qed

lemma Roots_Insert_new:
  assumes "roots_ok p" "int32_range r" "map_of (root_list p) k = None" "length (root_list p) \<noteq> MAX_INDEX_COUNT"
  shows "\<exists>p'. Roots_Insert k r p = Some (True, p') \<and> roots_ok p' \<and> map_of (root_list p') = (map_of (root_list p))(k \<mapsto> r)"
proof -
  obtain n where n: "count_of p = int n" "n \<le> length (roots p)" "root_list p = take n (roots p)" "length (root_list p) = n" "distinct (map fst (root_list p))"
    using roots_okE[OF assms(1)] .
  have m: "length (roots p) = MAX_INDEX_COUNT" "list_all (\<lambda>e. int32_range (snd e)) (roots p)" using assms(1) by (simp_all add: roots_ok_def)
  have l: "n < length (roots p)" using assms(4) n(2,4) m(1) by simp
  let ?p = "p\<lparr>roots := (roots p)[n := (k, r)], count_of := count_of p + 1\<rparr>"
  have e: "take (Suc n) (roots ?p) = root_list p @ [(k, r)]" using l n(3) by (simp add: take_Suc_conv_app_nth)
  have k: "k \<notin> fst ` set (root_list p)" using assms(3) by (simp add: map_of_eq_None_iff)
  have c: "count_of ?p = int (Suc n)" "length (roots ?p) = MAX_INDEX_COUNT" "Suc n \<le> MAX_INDEX_COUNT" using n(1) m(1) l by simp_all
  have "roots_ok ?p \<and> root_list ?p = root_list p @ [(k, r)]"
    using roots_ok_intro[OF c e] n(5) k list_all_set_at[OF m(2), of "(k, r)"] assms(2) by simp
  then show ?thesis using FindIndex_absent[OF assms(1,3)] n(1) set_at_nat[OF l] map_of_snoc[OF assms(3), of r]
    by (intro exI[of _ ?p]) (simp add: Roots_Insert_def)
qed

lemma Roots_Insert_full:
  assumes "roots_ok p" "map_of (root_list p) k = None" "length (root_list p) = MAX_INDEX_COUNT"
  shows "Roots_Insert k r p = None"
proof -
  have "count_of p = int MAX_INDEX_COUNT" "length (roots p) = MAX_INDEX_COUNT" using assms(1,3) by (auto simp: roots_ok_def root_list_def)
  then show ?thesis using FindIndex_absent[OF assms(1,2)] by (simp add: Roots_Insert_def set_at_def)
qed

text \<open>The operations on an index that is there.\<close>

lemma Roots_present:
  assumes "roots_ok p" "int32_range r" "map_of (root_list p) k = Some r'"
  shows "GetRootId k p = Some (True, r')" "Roots_Insert k r p = Some (False, p)"
    "\<exists>p'. Roots_Update k r p = Some (True, p') \<and> roots_ok p' \<and> map_of (root_list p') = (map_of (root_list p))(k \<mapsto> r)"
    "\<exists>p'. Roots_Delete k p = Some (True, p') \<and> roots_ok p' \<and> map_of (root_list p') = (map_of (root_list p))(k := None)"
proof -
  obtain n where n: "count_of p = int n" "n \<le> length (roots p)" "root_list p = take n (roots p)" "length (root_list p) = n" "distinct (map fst (root_list p))"
    using roots_okE[OF assms(1)] .
  have m: "length (roots p) = MAX_INDEX_COUNT" "list_all (\<lambda>e. int32_range (snd e)) (roots p)" using assms(1) by (simp_all add: roots_ok_def)
  obtain i xs ys where F: "FindIndex k p = Some (int i)" and s: "root_list p = xs @ (k, r') # ys" "length xs = i" "k \<notin> fst ` set xs" "k \<notin> fst ` set ys"
    using FindIndex_present[OF assms(1,3)] .
  have i: "i < n" "i < length (roots p)" using s(1,2) n(2,4) by simp_all
  have g: "get (roots p) (int i) = Some (k, r')" using get_nat[OF i(2)] n(3) s(1,2) i(1) by (metis nth_append_length nth_take)
  show "GetRootId k p = Some (True, r')" "Roots_Insert k r p = Some (False, p)" using F g by (simp_all add: GetRootId_def Roots_Insert_def)
  show "\<exists>p'. Roots_Update k r p = Some (True, p') \<and> roots_ok p' \<and> map_of (root_list p') = (map_of (root_list p))(k \<mapsto> r)"
  proof -
    let ?p = "p\<lparr>roots := (roots p)[i := (k, r)]\<rparr>"
    have "take n (roots p) = xs @ (k, r') # ys" using n(3) s(1) by simp
    then have e: "take n (roots ?p) = xs @ (k, r) # ys" using s(2) by (auto simp: take_update_swap)
    have d: "distinct (map fst (xs @ (k, r) # ys))" using n(5) s(1) by simp
    have c: "count_of ?p = int n" "length (roots ?p) = MAX_INDEX_COUNT" "n \<le> MAX_INDEX_COUNT" using n(1,2) m(1) by simp_all
    have "roots_ok ?p \<and> root_list ?p = xs @ (k, r) # ys"
      using roots_ok_intro[OF c e d] list_all_set_at[OF m(2), of "(k, r)"] assms(2) by simp
    then show ?thesis using F g set_at_nat[OF i(2)] map_of_middle(1)[OF s(3,4)] s(1)
      by (intro exI[of _ ?p]) (simp add: Roots_Update_def)
  qed
  show "\<exists>p'. Roots_Delete k p = Some (True, p') \<and> roots_ok p' \<and> map_of (root_list p') = (map_of (root_list p))(k := None)"
  proof -
    obtain zs where z: "shift_down (int i) (int n - 1) (roots p) = Some zs" "length zs = length (roots p)"
      "take (n - 1) zs = take i (roots p) @ drop (Suc i) (take n (roots p))" "set zs \<subseteq> set (roots p)"
      using remove_entry[OF i(1) n(2)] by blast
    let ?p = "p\<lparr>roots := zs, count_of := count_of p - 1\<rparr>"
    have "take n (roots p) = xs @ (k, r') # ys" "take i (roots p) = take i (take n (roots p))" using n(3) s(1) i(1) by (simp_all add: min_absorb1)
    then have e: "take (n - 1) (roots ?p) = xs @ ys" using z(3) s(2) by simp
    have d: "distinct (map fst (xs @ ys))" using n(5) s(1) by auto
    have c: "count_of ?p = int (n - 1)" "length (roots ?p) = MAX_INDEX_COUNT" "n - 1 \<le> MAX_INDEX_COUNT" using n(1,2) m(1) z(2) i(1) by simp_all
    have "list_all (\<lambda>e. int32_range (snd e)) (roots ?p)" using m(2) z(4) by (auto simp: list_all_iff)
    then have "roots_ok ?p \<and> root_list ?p = xs @ ys" using roots_ok_intro[OF c e d] by simp
    moreover have "map_of (xs @ ys) = (map_of (root_list p))(k := None)"
      unfolding s(1) map_of_middle(1)[OF s(3,4)] using map_of_middle(2)[OF s(3,4)] by (simp add: fun_upd_idem)
    ultimately show ?thesis using F z(1) n(1) by (intro exI[of _ ?p]) (simp add: Roots_Delete_def)
  qed
qed

text \<open>C27: The page of the index roots implements a map from index ids to root pages: looking up, changing and deleting the root of an
  index act on the map and report whether the index was there, and an index is inserted when it was not.  With 511 indexes on the page
  the insertion of another one writes behind the end of the page.\<close>

theorem index_roots_refine_map:
  assumes "roots_ok p" "int32_range r"
  shows "GetRootId k p = Some (case map_of (root_list p) k of None \<Rightarrow> (False, -1) | Some r \<Rightarrow> (True, r)) \<and>
    (if map_of (root_list p) k \<noteq> None then Roots_Insert k r p = Some (False, p)
     else if length (root_list p) = MAX_INDEX_COUNT then Roots_Insert k r p = None
     else \<exists>p'. Roots_Insert k r p = Some (True, p') \<and> roots_ok p' \<and> map_of (root_list p') = (map_of (root_list p))(k \<mapsto> r)) \<and>
    (\<exists>p'. Roots_Update k r p = Some (map_of (root_list p) k \<noteq> None, p') \<and> roots_ok p' \<and>
      map_of (root_list p') = (if map_of (root_list p) k = None then map_of (root_list p) else (map_of (root_list p))(k \<mapsto> r))) \<and>
    (\<exists>p'. Roots_Delete k p = Some (map_of (root_list p) k \<noteq> None, p') \<and> roots_ok p' \<and> map_of (root_list p') = (map_of (root_list p))(k := None))"
proof (cases "map_of (root_list p) k")
  case None
  have "GetRootId k p = Some (False, -1)" "Roots_Update k r p = Some (False, p)" "Roots_Delete k p = Some (False, p)"
    using FindIndex_absent[OF assms(1) None] by (simp_all add: GetRootId_def Roots_Update_def Roots_Delete_def)
  then show ?thesis using None Roots_Insert_new[OF assms None] Roots_Insert_full[OF assms(1) None, of r] assms(1) by (simp add: fun_upd_idem)
next
  case (Some r')
  then show ?thesis using Roots_present[OF assms Some] by simp
qed

text \<open>A page of zeros is an empty map.\<close>

lemma fresh_roots_page: "roots_ok (IndexRootsPage_of (replicate PAGE_SIZE 0))" "root_list (IndexRootsPage_of (replicate PAGE_SIZE 0)) = []"
proof -
  have z: "read_int (replicate PAGE_SIZE 0) 0 = 0" by (simp add: read_int_def of_le32_def PAGE_SIZE_def numeral_eq_Suc)
  then show "root_list (IndexRootsPage_of (replicate PAGE_SIZE 0)) = []" by (simp add: root_list_def IndexRootsPage_of_def)
  then show "roots_ok (IndexRootsPage_of (replicate PAGE_SIZE 0))" using z
    by (simp add: roots_ok_def IndexRootsPage_of_def read_int_range list_all_iff)
qed

theorem index_roots_refine_map_witness:
  "\<exists>p'. Roots_Insert 7 42 (IndexRootsPage_of (replicate PAGE_SIZE 0)) = Some (True, p') \<and> map_of (root_list p') 7 = Some 42"
proof -
  have "int32_range 42" "MAX_INDEX_COUNT \<noteq> 0" by (simp_all add: int32_range_def MAX_INDEX_COUNT_def PAGE_SIZE_def)
  then show ?thesis using index_roots_refine_map[OF fresh_roots_page(1), of 42 7] by (auto simp: fresh_roots_page(2))
qed

section \<open>Bytes\<close>

lemma roots_bytes_props:
  assumes "roots_ok p" "length d = PAGE_SIZE"
  shows "IndexRootsPage_of (roots_bytes p d) = p" "length (roots_bytes p d) = PAGE_SIZE"
proof -
  let ?bs = "map (\<lambda>(i, r). le32 i @ int_bytes r) (roots p)" and ?r = "drop (4 + MAX_INDEX_COUNT * 8) d"
  have m: "length (roots p) = MAX_INDEX_COUNT" "list_all (\<lambda>e. int32_range (snd e)) (roots p)" "int32_range (count_of p)"
    using assms(1) by (auto simp: roots_ok_def int32_range_def MAX_INDEX_COUNT_def PAGE_SIZE_def)
  have w: "list_all (\<lambda>b. length b = 8) ?bs" by (auto simp: list_all_iff)
  have "pairs 8 MAX_INDEX_COUNT (drop 4 (roots_bytes p d)) = ?bs" using pairs_concat[OF w, of ?r] m(1) by (simp add: roots_bytes_def)
  moreover have "map (\<lambda>b. (of_le32 (take 4 b), read_int b 4)) ?bs = roots p"
    using m(2) by (intro nth_equalityI) (auto simp: list_all_length read_int_def of_int_bytes split_beta)
  moreover have "read_int (roots_bytes p d) 0 = count_of p" using read_int_bytes[OF m(3), of "[]" 0] by (simp add: roots_bytes_def)
  ultimately show "IndexRootsPage_of (roots_bytes p d) = p" by (simp add: IndexRootsPage_of_def)
  show "length (roots_bytes p d) = PAGE_SIZE"
    using concat_length[OF w] m(1) assms(2) by (simp add: roots_bytes_def MAX_INDEX_COUNT_def PAGE_SIZE_def)
qed

end
