(* ===== verification/BPlus_Tree.thy ===== *)
theory BPlus_Tree
  imports Index_Roots
begin

text \<open>The B+ tree (\<^verbatim>\<open>index/b_plus_tree.cpp\<close>, \<^verbatim>\<open>include/index/b_plus_tree.h\<close>) for keys \<^verbatim>\<open>GenericKey<K>\<close> and values \<^verbatim>\<open>RowId\<close>, its iterator
  (\<^verbatim>\<open>index/index_iterator.cpp\<close>), the operations of internal pages that work on the buffer pool, and the index on top (\<^verbatim>\<open>index/b_plus_tree_index.cpp\<close>).

  A page pointer is the frame that the buffer pool returned, so a method of a page reads and writes the bytes of that frame, also
  after the page has been unpinned.  Every fetch and unpin of the code is a step of the model.  A failed assertion, a null page and an access outside
  the array of a page are \<^const>\<open>None\<close>.\<close>

section \<open>Pages behind pointers\<close>

definition load_header :: "buffer_pool \<Rightarrow> frame_id_t \<Rightarrow> BPlusTreePage option" where
  "load_header bp f = map_option BPlusTreePage_of (load_page bp f)"

definition load_leaf :: "nat \<Rightarrow> buffer_pool \<Rightarrow> frame_id_t \<Rightarrow> (key, RowId) LeafPage option" where
  "load_leaf K bp f = map_option (LeafPage_of K) (load_page bp f)"

definition store_leaf :: "nat \<Rightarrow> buffer_pool \<Rightarrow> frame_id_t \<Rightarrow> (key, RowId) LeafPage \<Rightarrow> buffer_pool option" where
  "store_leaf K bp f p = do { d \<leftarrow> load_page bp f; store_page bp f (leaf_bytes K p d) }"

definition load_internal :: "nat \<Rightarrow> buffer_pool \<Rightarrow> frame_id_t \<Rightarrow> key InternalPage option" where
  "load_internal K bp f = map_option (InternalPage_of K) (load_page bp f)"

definition store_internal :: "nat \<Rightarrow> buffer_pool \<Rightarrow> frame_id_t \<Rightarrow> key InternalPage \<Rightarrow> buffer_pool option" where
  "store_internal K bp f p = do { d \<leftarrow> load_page bp f; store_page bp f (internal_bytes K p d) }"

definition set_parent :: "buffer_pool \<Rightarrow> frame_id_t \<Rightarrow> page_id_t \<Rightarrow> buffer_pool option" where
  "set_parent bp f pid = do { d \<leftarrow> load_page bp f; store_page bp f (SetParentPageId pid d) }"

text \<open>The code ignores the result of \<open>UnpinPage\<close>.\<close>

definition unpin :: "buffer_pool \<Rightarrow> page_id_t \<Rightarrow> bool \<Rightarrow> buffer_pool option" where
  "unpin bp pid dirty = map_option snd (UnpinPage bp pid dirty)"

text \<open>The page behind a pointer gives its own id to \<open>UnpinPage\<close>.\<close>

definition unpin_self :: "buffer_pool \<Rightarrow> frame_id_t \<Rightarrow> bool \<Rightarrow> buffer_pool option" where
  "unpin_self bp f dirty = do { h \<leftarrow> load_header bp f; unpin bp (self_page_id h) dirty }"

section \<open>Model: internal pages that adopt children\<close>

function move_half_loop :: "nat \<Rightarrow> frame_id_t \<Rightarrow> frame_id_t \<Rightarrow> int \<Rightarrow> int \<Rightarrow> page_id_t \<Rightarrow> int \<Rightarrow> buffer_pool \<Rightarrow> buffer_pool option" where
  "move_half_loop K f recipient copyIdx tot recipPageId i bp = (if i < tot then do {
       p \<leftarrow> load_internal K bp f;
       q \<leftarrow> load_internal K bp recipient;
       e \<leftarrow> get (children p) i;
       ys \<leftarrow> set_at (children q) (i - copyIdx) e;
       bp \<leftarrow> store_internal K bp recipient (q\<lparr>children := ys\<rparr>);
       (childRawPage, bp) \<leftarrow> FetchPage bp (snd e);
       bp \<leftarrow> set_parent bp childRawPage recipPageId;
       p \<leftarrow> load_internal K bp f;
       e \<leftarrow> get (children p) i;
       bp \<leftarrow> unpin bp (snd e) True;
       move_half_loop K f recipient copyIdx tot recipPageId (i + 1) bp }
     else Some bp)"
  by pat_completeness auto
termination by (relation "measure (\<lambda>(K, f, recipient, copyIdx, tot, recipPageId, i, bp). nat (tot - i))") auto

definition InternalPage_MoveHalfTo :: "nat \<Rightarrow> frame_id_t \<Rightarrow> frame_id_t \<Rightarrow> buffer_pool \<Rightarrow> buffer_pool option" where
  "InternalPage_MoveHalfTo K f recipient bp = do {
     p \<leftarrow> load_internal K bp f;
     let total = max_size_of p + 1;
     let copyIdx = total sdiv 2;
     if size_of p \<noteq> total then None
     else do {
       q \<leftarrow> load_internal K bp recipient;
       bp \<leftarrow> move_half_loop K f recipient copyIdx total (self_page_id q) copyIdx bp;
       p \<leftarrow> load_internal K bp f;
       bp \<leftarrow> store_internal K bp f (p\<lparr>size_of := copyIdx\<rparr>);
       q \<leftarrow> load_internal K bp recipient;
       store_internal K bp recipient (q\<lparr>size_of := total - copyIdx\<rparr>) } }"

definition adopt :: "buffer_pool \<Rightarrow> page_id_t \<Rightarrow> page_id_t \<Rightarrow> buffer_pool option" where
  "adopt bp child parent = do {
     (page, bp) \<leftarrow> FetchPage bp child;
     bp \<leftarrow> set_parent bp page parent;
     unpin_self bp page True }"

function adopt_loop :: "nat \<Rightarrow> frame_id_t \<Rightarrow> int \<Rightarrow> int \<Rightarrow> buffer_pool \<Rightarrow> buffer_pool option" where
  "adopt_loop K f i n bp = (if i < n then do {
       p \<leftarrow> load_internal K bp f;
       e \<leftarrow> get (children p) (size_of p + i);
       bp \<leftarrow> adopt bp (snd e) (self_page_id p);
       adopt_loop K f (i + 1) n bp }
     else Some bp)"
  by pat_completeness auto
termination by (relation "measure (\<lambda>(K, f, i, n, bp). nat (n - i))") auto

definition InternalPage_CopyNFrom :: "nat \<Rightarrow> (key \<times> page_id_t) list \<Rightarrow> int \<Rightarrow> frame_id_t \<Rightarrow> buffer_pool \<Rightarrow> buffer_pool option" where
  "InternalPage_CopyNFrom K items n f bp = do {
     p \<leftarrow> load_internal K bp f;
     xs \<leftarrow> copy_entries 0 n (size_of p) items (children p);
     bp \<leftarrow> store_internal K bp f (p\<lparr>children := xs\<rparr>);
     bp \<leftarrow> adopt_loop K f 0 n bp;
     p \<leftarrow> load_internal K bp f;
     store_internal K bp f (IncreaseSize n p) }"

definition InternalPage_MoveAllTo :: "nat \<Rightarrow> frame_id_t \<Rightarrow> frame_id_t \<Rightarrow> key \<Rightarrow> buffer_pool \<Rightarrow> buffer_pool option" where
  "InternalPage_MoveAllTo K f recipient middle_key bp = do {
     p \<leftarrow> load_internal K bp f;
     bp \<leftarrow> InternalPage_CopyNFrom K (children p) (size_of p) recipient bp;
     p \<leftarrow> load_internal K bp f;
     q \<leftarrow> load_internal K bp recipient;
     (_, v) \<leftarrow> get (children q) (size_of q - size_of p);
     ys \<leftarrow> set_at (children q) (size_of q - size_of p) (middle_key, v);
     bp \<leftarrow> store_internal K bp recipient (q\<lparr>children := ys\<rparr>);
     p \<leftarrow> load_internal K bp f;
     store_internal K bp f (p\<lparr>size_of := 0\<rparr>) }"

definition InternalPage_CopyLastFrom :: "nat \<Rightarrow> key \<times> page_id_t \<Rightarrow> frame_id_t \<Rightarrow> buffer_pool \<Rightarrow> buffer_pool option" where
  "InternalPage_CopyLastFrom K pair f bp = do {
     p \<leftarrow> load_internal K bp f;
     xs \<leftarrow> set_at (children p) (size_of p) pair;
     bp \<leftarrow> store_internal K bp f (p\<lparr>children := xs\<rparr>);
     (page, bp) \<leftarrow> FetchPage bp (snd pair);
     p \<leftarrow> load_internal K bp f;
     bp \<leftarrow> set_parent bp page (self_page_id p);
     p \<leftarrow> load_internal K bp f;
     bp \<leftarrow> store_internal K bp f (IncreaseSize 1 p);
     unpin_self bp page True }"

definition InternalPage_MoveFirstToEndOf :: "nat \<Rightarrow> frame_id_t \<Rightarrow> frame_id_t \<Rightarrow> key \<Rightarrow> buffer_pool \<Rightarrow> buffer_pool option" where
  "InternalPage_MoveFirstToEndOf K f recipient middle_key bp = do {
     p \<leftarrow> load_internal K bp f;
     (_, v) \<leftarrow> get (children p) 0;
     xs \<leftarrow> set_at (children p) 0 (middle_key, v);
     bp \<leftarrow> store_internal K bp f (p\<lparr>children := xs\<rparr>);
     bp \<leftarrow> InternalPage_CopyLastFrom K (middle_key, v) recipient bp;
     p \<leftarrow> load_internal K bp f;
     xs \<leftarrow> shift_down 0 (size_of p - 1) (children p);
     store_internal K bp f (IncreaseSize (-1) (p\<lparr>children := xs\<rparr>)) }"

definition InternalPage_CopyFirstFrom :: "nat \<Rightarrow> key \<times> page_id_t \<Rightarrow> frame_id_t \<Rightarrow> buffer_pool \<Rightarrow> buffer_pool option" where
  "InternalPage_CopyFirstFrom K pair f bp = do {
     p \<leftarrow> load_internal K bp f;
     xs \<leftarrow> shift_up (size_of p - 1) 0 (children p);
     xs \<leftarrow> set_at xs 0 pair;
     bp \<leftarrow> store_internal K bp f (p\<lparr>children := xs\<rparr>);
     (page, bp) \<leftarrow> FetchPage bp (snd pair);
     p \<leftarrow> load_internal K bp f;
     bp \<leftarrow> set_parent bp page (self_page_id p);
     p \<leftarrow> load_internal K bp f;
     bp \<leftarrow> store_internal K bp f (IncreaseSize 1 p);
     unpin_self bp page True }"

definition InternalPage_MoveLastToFrontOf :: "nat \<Rightarrow> frame_id_t \<Rightarrow> frame_id_t \<Rightarrow> key \<Rightarrow> buffer_pool \<Rightarrow> buffer_pool option" where
  "InternalPage_MoveLastToFrontOf K f recipient middle_key bp = do {
     p \<leftarrow> load_internal K bp f;
     e \<leftarrow> get (children p) (size_of p - 1);
     bp \<leftarrow> InternalPage_CopyFirstFrom K e recipient bp;
     q \<leftarrow> load_internal K bp recipient;
     (_, v) \<leftarrow> get (children q) 1;
     ys \<leftarrow> set_at (children q) 1 (middle_key, v);
     bp \<leftarrow> store_internal K bp recipient (q\<lparr>children := ys\<rparr>);
     p \<leftarrow> load_internal K bp f;
     store_internal K bp f (IncreaseSize (-1) p) }"

section \<open>Model: searching\<close>

record BPlusTree =
  index_id :: u32
  root_page_id :: page_id_t
  leaf_max_size :: int
  internal_max_size :: int

definition BPlusTree_new :: "u32 \<Rightarrow> int \<Rightarrow> int \<Rightarrow> BPlusTree" where
  "BPlusTree_new idx leaf_sz internal_sz =
     \<lparr>index_id = idx, root_page_id = INVALID_PAGE_ID, leaf_max_size = leaf_sz, internal_max_size = internal_sz\<rparr>"

definition SetRootId :: "page_id_t \<Rightarrow> BPlusTree \<Rightarrow> BPlusTree" where
  "SetRootId pid t = t\<lparr>root_page_id := pid\<rparr>"

definition IsEmpty :: "BPlusTree \<Rightarrow> bool" where
  "IsEmpty t \<longleftrightarrow> root_page_id t = INVALID_PAGE_ID"

partial_function (option) find_leaf_loop :: "nat \<Rightarrow> key \<Rightarrow> bool \<Rightarrow> page_id_t \<Rightarrow> frame_id_t \<Rightarrow> buffer_pool \<Rightarrow> (frame_id_t \<times> buffer_pool) option" where
  "find_leaf_loop K key leftMost curr_page_id pointer bp = do {
     h \<leftarrow> load_header bp pointer;
     if IsLeafPage h then do { bp \<leftarrow> unpin bp curr_page_id False; Some (pointer, bp) }
     else do {
       p \<leftarrow> load_internal K bp pointer;
       next_page \<leftarrow> (if leftMost then ValueAt 0 p else InternalPage_Lookup GenericComparator key p);
       bp \<leftarrow> unpin bp curr_page_id False;
       (pointer, bp) \<leftarrow> FetchPage bp next_page;
       find_leaf_loop K key leftMost next_page pointer bp } }"

text \<open>The leaf that \<open>FindLeafPage\<close> returns is not pinned any more.\<close>

definition FindLeafPage :: "nat \<Rightarrow> BPlusTree \<Rightarrow> key \<Rightarrow> bool \<Rightarrow> buffer_pool \<Rightarrow> (frame_id_t option \<times> buffer_pool) option" where
  "FindLeafPage K t key leftMost bp = (if IsEmpty t then Some (None, bp)
     else do {
       (pointer, bp) \<leftarrow> FetchPage bp (root_page_id t);
       (pointer, bp) \<leftarrow> find_leaf_loop K key leftMost (root_page_id t) pointer bp;
       Some (Some pointer, bp) })"

definition GetValue :: "nat \<Rightarrow> BPlusTree \<Rightarrow> key \<Rightarrow> RowId list \<Rightarrow> buffer_pool \<Rightarrow> (bool \<times> RowId list \<times> buffer_pool) option" where
  "GetValue K t key result bp = do {
     (leaf, bp) \<leftarrow> FindLeafPage K t key False bp;
     (case leaf of
        None \<Rightarrow> Some (False, result, bp)
      | Some f \<Rightarrow> do {
          p \<leftarrow> load_leaf K bp f;
          v \<leftarrow> LeafPage_Lookup GenericComparator key p;
          bp \<leftarrow> unpin_self bp f False;
          Some (case v of None \<Rightarrow> (False, result, bp) | Some v \<Rightarrow> (True, result @ [v], bp)) }) }"

definition Check :: "buffer_pool \<Rightarrow> bool" where
  "Check bp = CheckAllUnpinned bp"

definition UpdateRootPageId :: "bool \<Rightarrow> BPlusTree \<Rightarrow> buffer_pool \<Rightarrow> buffer_pool option" where
  "UpdateRootPageId insert_record t bp = do {
     (f, bp) \<leftarrow> FetchPage bp 1;
     d \<leftarrow> load_page bp f;
     (_, p) \<leftarrow> (if insert_record then Roots_Insert (index_id t) (root_page_id t) (IndexRootsPage_of d)
       else Roots_Update (index_id t) (root_page_id t) (IndexRootsPage_of d));
     bp \<leftarrow> store_page bp f (roots_bytes p d);
     unpin bp 1 True }"

section \<open>Model: inserting\<close>

definition StartNewTree :: "nat \<Rightarrow> key \<Rightarrow> RowId \<Rightarrow> BPlusTree \<Rightarrow> buffer_pool \<Rightarrow> (BPlusTree \<times> buffer_pool) option" where
  "StartNewTree K key val t bp = do {
     (r, bp) \<leftarrow> NewPage bp;
     (new_page_id, root) \<leftarrow> r;
     p \<leftarrow> load_leaf K bp root;
     bp \<leftarrow> store_leaf K bp root (LeafPage_Init new_page_id INVALID_PAGE_ID (leaf_max_size t) p);
     let t = t\<lparr>root_page_id := new_page_id\<rparr>;
     bp \<leftarrow> UpdateRootPageId True t bp;
     p \<leftarrow> load_leaf K bp root;
     (_, p) \<leftarrow> LeafPage_Insert GenericComparator key val p;
     bp \<leftarrow> store_leaf K bp root p;
     bp \<leftarrow> unpin bp new_page_id True;
     Some (t, bp) }"

definition Split :: "nat \<Rightarrow> BPlusTree \<Rightarrow> frame_id_t \<Rightarrow> buffer_pool \<Rightarrow> (frame_id_t \<times> buffer_pool) option" where
  "Split K t node bp = do {
     (r, bp) \<leftarrow> NewPage bp;
     (new_page_id, new_node) \<leftarrow> r;
     h \<leftarrow> load_header bp node;
     bp \<leftarrow> (if IsLeafPage h then do {
         q \<leftarrow> load_leaf K bp new_node;
         store_leaf K bp new_node (LeafPage_Init new_page_id (parent_page_id h) (leaf_max_size t) q) }
       else do {
         q \<leftarrow> load_internal K bp new_node;
         store_internal K bp new_node (InternalPage_Init new_page_id (parent_page_id h) (internal_max_size t) q) });
     h \<leftarrow> load_header bp node;
     bp \<leftarrow> (if IsLeafPage h then do {
         p \<leftarrow> load_leaf K bp node;
         q \<leftarrow> load_leaf K bp new_node;
         (p, q) \<leftarrow> LeafPage_MoveHalfTo p q;
         bp \<leftarrow> store_leaf K bp node p;
         store_leaf K bp new_node q }
       else InternalPage_MoveHalfTo K node new_node bp);
     Some (new_node, bp) }"

text \<open>The case of \<open>InsertIntoParent\<close> in which the root has been split.\<close>

definition grow_root :: "nat \<Rightarrow> BPlusTree \<Rightarrow> frame_id_t \<Rightarrow> key \<Rightarrow> frame_id_t \<Rightarrow> buffer_pool \<Rightarrow> (BPlusTree \<times> buffer_pool) option" where
  "grow_root K t old_node key new_node bp = do {
     (r, bp) \<leftarrow> NewPage bp;
     (root_id, new_root) \<leftarrow> r;
     pg \<leftarrow> get_page bp new_root;
     if pin_count pg \<noteq> 1 then None
     else do {
       let t = t\<lparr>root_page_id := root_id\<rparr>;
       p \<leftarrow> load_internal K bp new_root;
       bp \<leftarrow> store_internal K bp new_root (InternalPage_Init root_id INVALID_PAGE_ID (internal_max_size t) p);
       ho \<leftarrow> load_header bp old_node;
       hn \<leftarrow> load_header bp new_node;
       p \<leftarrow> load_internal K bp new_root;
       p \<leftarrow> PopulateNewRoot (self_page_id ho) key (self_page_id hn) p;
       bp \<leftarrow> store_internal K bp new_root p;
       bp \<leftarrow> set_parent bp old_node root_id;
       bp \<leftarrow> set_parent bp new_node root_id;
       bp \<leftarrow> UpdateRootPageId False t bp;
       bp \<leftarrow> unpin_self bp new_node True;
       bp \<leftarrow> unpin_self bp new_root True;
       Some (t, bp) } }"

partial_function (option) InsertIntoParent :: "nat \<Rightarrow> BPlusTree \<Rightarrow> frame_id_t \<Rightarrow> key \<Rightarrow> frame_id_t \<Rightarrow> buffer_pool \<Rightarrow> (BPlusTree \<times> buffer_pool) option" where
  "InsertIntoParent K t old_node key new_node bp = do {
     h \<leftarrow> load_header bp old_node;
     if IsRootPage h then grow_root K t old_node key new_node bp
     else do {
       (parent, bp) \<leftarrow> FetchPage bp (parent_page_id h);
       bp \<leftarrow> set_parent bp new_node (parent_page_id h);
       bp \<leftarrow> unpin_self bp new_node True;
       ho \<leftarrow> load_header bp old_node;
       hn \<leftarrow> load_header bp new_node;
       p \<leftarrow> load_internal K bp parent;
       (_, p) \<leftarrow> InsertNodeAfter (self_page_id ho) key (self_page_id hn) p;
       bp \<leftarrow> store_internal K bp parent p;
       (t, bp) \<leftarrow> (if size_of p > max_size_of p then do {
           (new_parent, bp) \<leftarrow> Split K t parent bp;
           q \<leftarrow> load_internal K bp new_parent;
           k \<leftarrow> InternalPage_KeyAt 0 q;
           InsertIntoParent K t parent k new_parent bp }
         else Some (t, bp));
       bp \<leftarrow> unpin bp (parent_page_id h) True;
       Some (t, bp) } }"

definition InsertIntoLeaf :: "nat \<Rightarrow> key \<Rightarrow> RowId \<Rightarrow> BPlusTree \<Rightarrow> buffer_pool \<Rightarrow> (bool \<times> BPlusTree \<times> buffer_pool) option" where
  "InsertIntoLeaf K key val t bp = do {
     (leaf, bp) \<leftarrow> FindLeafPage K t key False bp;
     leaf_page \<leftarrow> leaf;
     p \<leftarrow> load_leaf K bp leaf_page;
     v \<leftarrow> LeafPage_Lookup GenericComparator key p;
     if v \<noteq> None then do { bp \<leftarrow> unpin_self bp leaf_page False; Some (False, t, bp) }
     else do {
       (_, p) \<leftarrow> LeafPage_Insert GenericComparator key val p;
       bp \<leftarrow> store_leaf K bp leaf_page p;
       (t, bp) \<leftarrow> (if size_of p > max_size_of p then do {
           (new_leaf_page, bp) \<leftarrow> Split K t leaf_page bp;
           q \<leftarrow> load_leaf K bp new_leaf_page;
           k \<leftarrow> LeafPage_KeyAt 0 q;
           InsertIntoParent K t leaf_page k new_leaf_page bp }
         else Some (t, bp));
       bp \<leftarrow> unpin_self bp leaf_page True;
       Some (True, t, bp) } }"

definition BPlusTree_Insert :: "nat \<Rightarrow> key \<Rightarrow> RowId \<Rightarrow> BPlusTree \<Rightarrow> buffer_pool \<Rightarrow> (bool \<times> BPlusTree \<times> buffer_pool) option" where
  "BPlusTree_Insert K key val t bp =
     (if IsEmpty t then do {
        (t, bp) \<leftarrow> StartNewTree K key val t bp;
        if Check bp then Some (True, t, bp) else None }
      else do {
        (r, t, bp) \<leftarrow> InsertIntoLeaf K key val t bp;
        if Check bp then Some (r, t, bp) else None })"

section \<open>Model: removing\<close>

definition FindSibling :: "nat \<Rightarrow> frame_id_t \<Rightarrow> buffer_pool \<Rightarrow> (bool \<times> frame_id_t \<times> buffer_pool) option" where
  "FindSibling K node bp = do {
     h \<leftarrow> load_header bp node;
     (page, bp) \<leftarrow> FetchPage bp (parent_page_id h);
     parent \<leftarrow> load_internal K bp page;
     h \<leftarrow> load_header bp node;
     index \<leftarrow> ValueIndex (self_page_id h) parent;
     let siblingIndex = (if index = 0 then index + 1 else index - 1);
     bp \<leftarrow> unpin_self bp page False;
     parent \<leftarrow> load_internal K bp page;
     sibling_id \<leftarrow> ValueAt siblingIndex parent;
     (sibling, bp) \<leftarrow> FetchPage bp sibling_id;
     bp \<leftarrow> unpin_self bp page False;
     Some (index = 0, sibling, bp) }"

definition AdjustRoot :: "nat \<Rightarrow> BPlusTree \<Rightarrow> frame_id_t \<Rightarrow> buffer_pool \<Rightarrow> (bool \<times> BPlusTree \<times> buffer_pool) option" where
  "AdjustRoot K t old_root bp = do {
     h \<leftarrow> load_header bp old_root;
     if IsLeafPage h then
       if size_of h \<noteq> 0 \<or> parent_page_id h \<noteq> INVALID_PAGE_ID then None
       else do {
         bp \<leftarrow> unpin_self bp old_root False;
         h \<leftarrow> load_header bp old_root;
         (_, bp) \<leftarrow> DeletePage bp (self_page_id h);
         let t = t\<lparr>root_page_id := INVALID_PAGE_ID\<rparr>;
         bp \<leftarrow> UpdateRootPageId False t bp;
         Some (True, t, bp) }
     else if size_of h = 1 then do {
       p \<leftarrow> load_internal K bp old_root;
       (new_root_id, p) \<leftarrow> RemoveAndReturnOnlyChild p;
       bp \<leftarrow> store_internal K bp old_root p;
       let t = t\<lparr>root_page_id := new_root_id\<rparr>;
       bp \<leftarrow> UpdateRootPageId False t bp;
       (page, bp) \<leftarrow> FetchPage bp new_root_id;
       bp \<leftarrow> set_parent bp page INVALID_PAGE_ID;
       bp \<leftarrow> unpin bp new_root_id True;
       bp \<leftarrow> unpin_self bp old_root False;
       h \<leftarrow> load_header bp old_root;
       (_, bp) \<leftarrow> DeletePage bp (self_page_id h);
       Some (False, t, bp) }
     else Some (False, t, bp) }"

text \<open>Two pointers to different frames, passed to a method of leaf pages that changes both pages.  Pointers to the same frame are not
  modelled here.\<close>

definition on_leaves :: "nat \<Rightarrow> ((key, RowId) LeafPage \<Rightarrow> (key, RowId) LeafPage \<Rightarrow> ((key, RowId) LeafPage \<times> (key, RowId) LeafPage) option) \<Rightarrow>
    frame_id_t \<Rightarrow> frame_id_t \<Rightarrow> buffer_pool \<Rightarrow> buffer_pool option" where
  "on_leaves K m f recipient bp = (if f = recipient then None else do {
     p \<leftarrow> load_leaf K bp f;
     q \<leftarrow> load_leaf K bp recipient;
     (p, q) \<leftarrow> m p q;
     bp \<leftarrow> store_leaf K bp f p;
     store_leaf K bp recipient q })"

text \<open>\<open>Coalesce\<close> without the recursion: the result says whether the parent has become too small.\<close>

definition Coalesce :: "nat \<Rightarrow> frame_id_t \<Rightarrow> frame_id_t \<Rightarrow> frame_id_t \<Rightarrow> int \<Rightarrow> buffer_pool \<Rightarrow> (bool \<times> buffer_pool) option" where
  "Coalesce K neighbor_node node parent index bp = do {
     pp \<leftarrow> load_internal K bp parent;
     middle_key \<leftarrow> InternalPage_KeyAt index pp;
     h \<leftarrow> load_header bp node;
     bp \<leftarrow> (if IsLeafPage h then on_leaves K LeafPage_MoveAllTo node neighbor_node bp
       else InternalPage_MoveAllTo K node neighbor_node middle_key bp);
     h \<leftarrow> load_header bp node;
     bp \<leftarrow> unpin bp (self_page_id h) True;
     (_, bp) \<leftarrow> DeletePage bp (self_page_id h);
     bp \<leftarrow> unpin_self bp neighbor_node True;
     pp \<leftarrow> load_internal K bp parent;
     pp \<leftarrow> InternalPage_Remove index pp;
     bp \<leftarrow> store_internal K bp parent pp;
     Some (size_of pp < GetMinSize pp, bp) }"

text \<open>The first steps of each branch of \<open>Redistribute\<close>: the leaf of a key and the two leaves behind it, which stay pinned.\<close>

definition middle_leaves :: "nat \<Rightarrow> BPlusTree \<Rightarrow> key \<Rightarrow> buffer_pool \<Rightarrow> (frame_id_t \<times> frame_id_t \<times> frame_id_t \<times> buffer_pool) option" where
  "middle_leaves K t key bp = do {
     (pre, bp) \<leftarrow> FindLeafPage K t key False bp;
     pre \<leftarrow> pre;
     p \<leftarrow> load_leaf K bp pre;
     (middle, bp) \<leftarrow> FetchPage bp (next_page_id p);
     m \<leftarrow> load_leaf K bp middle;
     (aft, bp) \<leftarrow> FetchPage bp (next_page_id m);
     Some (pre, middle, aft, bp) }"

definition Redistribute :: "nat \<Rightarrow> BPlusTree \<Rightarrow> frame_id_t \<Rightarrow> frame_id_t \<Rightarrow> int \<Rightarrow> buffer_pool \<Rightarrow> buffer_pool option" where
  "Redistribute K t neighbor_node node index bp = do {
     h \<leftarrow> load_header bp node;
     let from_front = (index = 0);
     let source = (if from_front then node else neighbor_node);
     key \<leftarrow> (if IsLeafPage h then do { p \<leftarrow> load_leaf K bp source; LeafPage_KeyAt (size_of p - 1) p }
       else do { p \<leftarrow> load_internal K bp source; InternalPage_KeyAt (size_of p - 1) p });
     (pre, middle, aft, bp) \<leftarrow> middle_leaves K t key bp;
     middle_key \<leftarrow> (if IsLeafPage h then Some [] else do { m \<leftarrow> load_leaf K bp middle; LeafPage_KeyAt 0 m });
     hp \<leftarrow> load_header bp (if IsLeafPage h then neighbor_node else node);
     (parent, bp) \<leftarrow> FetchPage bp (parent_page_id hp);
     pp \<leftarrow> load_internal K bp parent;
     hi \<leftarrow> load_header bp (if from_front then neighbor_node else node);
     i \<leftarrow> ValueIndex (self_page_id hi) pp;
     k \<leftarrow> (if from_front then if IsLeafPage h then do { m \<leftarrow> load_leaf K bp middle; LeafPage_KeyAt 1 m }
           else do { a \<leftarrow> load_leaf K bp aft; LeafPage_KeyAt 0 a }
         else if IsLeafPage h then do { p \<leftarrow> load_leaf K bp pre; LeafPage_KeyAt (size_of p - 1) p }
           else do { p \<leftarrow> load_leaf K bp pre; LeafPage_KeyAt 0 p });
     pp \<leftarrow> SetKeyAt i k pp;
     bp \<leftarrow> store_internal K bp parent pp;
     bp \<leftarrow> (if from_front then if IsLeafPage h then on_leaves K LeafPage_MoveFirstToEndOf neighbor_node node bp
           else InternalPage_MoveFirstToEndOf K neighbor_node node middle_key bp
         else if IsLeafPage h then on_leaves K LeafPage_MoveLastToFrontOf neighbor_node node bp
           else InternalPage_MoveLastToFrontOf K neighbor_node node middle_key bp);
     bp \<leftarrow> unpin_self bp parent True;
     bp \<leftarrow> unpin_self bp middle False;
     bp \<leftarrow> unpin_self bp aft False;
     bp \<leftarrow> unpin_self bp node True;
     unpin_self bp neighbor_node True }"

partial_function (option) CoalesceOrRedistribute :: "nat \<Rightarrow> BPlusTree \<Rightarrow> frame_id_t \<Rightarrow> buffer_pool \<Rightarrow> (bool \<times> BPlusTree \<times> buffer_pool) option" where
  "CoalesceOrRedistribute K t node bp = do {
     h \<leftarrow> load_header bp node;
     if IsRootPage h then AdjustRoot K t node bp
     else do {
       (n_prev_N2, node2, bp) \<leftarrow> FindSibling K node bp;
       h \<leftarrow> load_header bp node;
       (parent, bp) \<leftarrow> FetchPage bp (parent_page_id h);
       h \<leftarrow> load_header bp node;
       h2 \<leftarrow> load_header bp node2;
       pp \<leftarrow> load_internal K bp parent;
       if size_of h + size_of h2 \<le> max_size_of h then do {
         let (node, node2) = (if n_prev_N2 then (node2, node) else (node, node2));
         h \<leftarrow> load_header bp node;
         remove_index \<leftarrow> ValueIndex (self_page_id h) pp;
         (small, bp) \<leftarrow> Coalesce K node2 node parent remove_index bp;
         (_, t, bp) \<leftarrow> (if small then CoalesceOrRedistribute K t parent bp else Some (False, t, bp));
         bp \<leftarrow> unpin_self bp parent True;
         Some (True, t, bp) }
       else do {
         node_in_parent_index \<leftarrow> ValueIndex (self_page_id h) pp;
         bp \<leftarrow> Redistribute K t node2 node node_in_parent_index bp;
         bp \<leftarrow> unpin_self bp parent False;
         Some (False, t, bp) } } }"

text \<open>The first step of \<open>Remove\<close> for a key that belongs to the first place of a leaf: the separator in the parent is overwritten with the second key of the leaf.\<close>

definition raise_separator :: "nat \<Rightarrow> frame_id_t \<Rightarrow> buffer_pool \<Rightarrow> buffer_pool option" where
  "raise_separator K target bp = do {
     h \<leftarrow> load_header bp target;
     (parent, bp) \<leftarrow> FetchPage bp (parent_page_id h);
     pp \<leftarrow> load_internal K bp parent;
     p \<leftarrow> load_leaf K bp target;
     page_index \<leftarrow> ValueIndex (self_page_id p) pp;
     k \<leftarrow> LeafPage_KeyAt 1 p;
     pp \<leftarrow> SetKeyAt page_index k pp;
     bp \<leftarrow> store_internal K bp parent pp;
     p \<leftarrow> load_leaf K bp target;
     unpin bp (parent_page_id p) True }"

definition BPlusTree_Remove :: "nat \<Rightarrow> key \<Rightarrow> BPlusTree \<Rightarrow> buffer_pool \<Rightarrow> (BPlusTree \<times> buffer_pool) option" where
  "BPlusTree_Remove K key t bp = (if IsEmpty t then Some (t, bp)
     else do {
       (leaf, bp) \<leftarrow> FindLeafPage K t key False bp;
       target \<leftarrow> leaf;
       p \<leftarrow> load_leaf K bp target;
       i \<leftarrow> KeyIndex GenericComparator key p;
       bp \<leftarrow> (if i = 0 \<and> \<not> IsRootPage p then raise_separator K target bp else Some bp);
       p \<leftarrow> load_leaf K bp target;
       (after_del_size, p) \<leftarrow> RemoveAndDeleteRecord GenericComparator key p;
       bp \<leftarrow> store_leaf K bp target p;
       (t, bp) \<leftarrow> (if after_del_size < GetMinSize p then map_option snd (CoalesceOrRedistribute K t target bp) else Some (t, bp));
       bp \<leftarrow> unpin_self bp target True;
       if Check bp then Some (t, bp) else None })"

section \<open>Model: iterators and the index\<close>

definition INVALID_INDEX :: int where
  "INVALID_INDEX = -1"

text \<open>An iterator: the pointer to the leaf, which is not pinned, and the index in it.\<close>

record IndexIterator =
  leaf_page :: "frame_id_t option"
  index_of :: int

definition BPlusTree_Begin :: "nat \<Rightarrow> BPlusTree \<Rightarrow> buffer_pool \<Rightarrow> (IndexIterator \<times> buffer_pool) option" where
  "BPlusTree_Begin K t bp = do {
     (start_leaf, bp) \<leftarrow> FindLeafPage K t [] True bp;
     Some (\<lparr>leaf_page = start_leaf, index_of = 0\<rparr>, bp) }"

definition BPlusTree_Begin_key :: "nat \<Rightarrow> BPlusTree \<Rightarrow> key \<Rightarrow> buffer_pool \<Rightarrow> (IndexIterator \<times> buffer_pool) option" where
  "BPlusTree_Begin_key K t key bp = do {
     (start_leaf, bp) \<leftarrow> FindLeafPage K t key False bp;
     (case start_leaf of
        None \<Rightarrow> Some (\<lparr>leaf_page = None, index_of = 0\<rparr>, bp)
      | Some f \<Rightarrow> do {
          p \<leftarrow> load_leaf K bp f;
          i \<leftarrow> KeyIndex GenericComparator key p;
          Some (\<lparr>leaf_page = Some f, index_of = i\<rparr>, bp) }) }"

definition BPlusTree_End :: "nat \<Rightarrow> BPlusTree \<Rightarrow> buffer_pool \<Rightarrow> (IndexIterator \<times> buffer_pool) option" where
  "BPlusTree_End K t bp = do {
     (root, bp) \<leftarrow> FetchPage bp (root_page_id t);
     h \<leftarrow> load_header bp root;
     end_key \<leftarrow> (if IsLeafPage h then do { p \<leftarrow> load_leaf K bp root; LeafPage_KeyAt (size_of p - 1) p }
       else do { p \<leftarrow> load_internal K bp root; InternalPage_KeyAt (size_of p - 1) p });
     (end_leaf, bp) \<leftarrow> FindLeafPage K t end_key False bp;
     f \<leftarrow> end_leaf;
     bp \<leftarrow> unpin bp (root_page_id t) False;
     p \<leftarrow> load_leaf K bp f;
     Some (\<lparr>leaf_page = Some f, index_of = size_of p - 1\<rparr>, bp) }"

definition IndexIterator_deref :: "nat \<Rightarrow> IndexIterator \<Rightarrow> buffer_pool \<Rightarrow> (key \<times> RowId) option" where
  "IndexIterator_deref K it bp = do {
     f \<leftarrow> leaf_page it;
     p \<leftarrow> load_leaf K bp f;
     GetItem (index_of it) p }"

definition IndexIterator_next :: "nat \<Rightarrow> IndexIterator \<Rightarrow> buffer_pool \<Rightarrow> (IndexIterator \<times> buffer_pool) option" where
  "IndexIterator_next K it bp = do {
     let it = it\<lparr>index_of := index_of it + 1\<rparr>;
     f \<leftarrow> leaf_page it;
     p \<leftarrow> load_leaf K bp f;
     if index_of it \<ge> size_of p then
       if next_page_id p = INVALID_PAGE_ID then Some (it\<lparr>index_of := INVALID_INDEX\<rparr>, bp)
       else do {
         (page, bp) \<leftarrow> FetchPage bp (next_page_id p);
         bp \<leftarrow> unpin bp (next_page_id p) False;
         Some (\<lparr>leaf_page = Some page, index_of = 0\<rparr>, bp) }
     else Some (it, bp) }"

definition IndexIterator_eq :: "IndexIterator \<Rightarrow> IndexIterator \<Rightarrow> bool" where
  "IndexIterator_eq it it' \<longleftrightarrow> leaf_page it = leaf_page it' \<and> index_of it = index_of it'"

datatype dberr_t = DB_SUCCESS | DB_FAILED | DB_TABLE_ALREADY_EXIST | DB_TABLE_NOT_EXIST | DB_INDEX_ALREADY_EXIST | DB_INDEX_NOT_FOUND
  | DB_COLUMN_NAME_NOT_EXIST | DB_KEY_NOT_FOUND

definition BPlusTreeIndex_new :: "nat \<Rightarrow> u32 \<Rightarrow> buffer_pool \<Rightarrow> (BPlusTree \<times> buffer_pool) option" where
  "BPlusTreeIndex_new K idx bp = do {
     let container = BPlusTree_new idx (LEAF_PAGE_SIZE (K + 8)) (INTERNAL_PAGE_SIZE (K + 8));
     (page, bp) \<leftarrow> FetchPage bp 1;
     d \<leftarrow> load_page bp page;
     (_, root_id) \<leftarrow> GetRootId idx (IndexRootsPage_of d);
     bp \<leftarrow> unpin bp 1 False;
     Some (SetRootId root_id container, bp) }"

definition InsertEntry :: "nat \<Rightarrow> Schema \<Rightarrow> Row \<Rightarrow> RowId \<Rightarrow> BPlusTree \<Rightarrow> buffer_pool \<Rightarrow> (dberr_t \<times> BPlusTree \<times> buffer_pool) option" where
  "InsertEntry K key_schema key rid t bp = (if RowId_Get rid = RowId_Get INVALID_ROWID then None
     else do {
       index_key \<leftarrow> SerializeFromKey K key key_schema;
       (status, t, bp) \<leftarrow> BPlusTree_Insert K index_key rid t bp;
       Some (if status then DB_SUCCESS else DB_FAILED, t, bp) })"

definition RemoveEntry :: "nat \<Rightarrow> Schema \<Rightarrow> Row \<Rightarrow> BPlusTree \<Rightarrow> buffer_pool \<Rightarrow> (dberr_t \<times> BPlusTree \<times> buffer_pool) option" where
  "RemoveEntry K key_schema key t bp = do {
     index_key \<leftarrow> SerializeFromKey K key key_schema;
     (t, bp) \<leftarrow> BPlusTree_Remove K index_key t bp;
     Some (DB_SUCCESS, t, bp) }"

definition ScanKey :: "nat \<Rightarrow> Schema \<Rightarrow> Row \<Rightarrow> RowId list \<Rightarrow> BPlusTree \<Rightarrow> buffer_pool \<Rightarrow> (dberr_t \<times> RowId list \<times> buffer_pool) option" where
  "ScanKey K key_schema key result t bp = do {
     index_key \<leftarrow> SerializeFromKey K key key_schema;
     (found, result, bp) \<leftarrow> GetValue K t index_key result bp;
     Some (if found then DB_SUCCESS else DB_KEY_NOT_FOUND, result, bp) }"

end
