(* ===== verification/Catalog_Meta.thy ===== *)
theory Catalog_Meta
  imports Records
begin

text \<open>The metadata that the catalog keeps in pages, and its serialised form (\<^verbatim>\<open>catalog/table.cpp\<close>, \<^verbatim>\<open>catalog/indexes.cpp\<close> and the
  class \<open>CatalogMeta\<close> of \<^verbatim>\<open>catalog/catalog.cpp\<close>).  As in the record layer, a pointer \<open>buf\<close> is a buffer with an offset, and an access
  outside of the buffer is \<^const>\<open>None\<close>.\<close>

section \<open>Ordered maps\<close>

text \<open>A \<^verbatim>\<open>std::map\<close> is the list of its entries in the order of the keys.\<close>

fun map_emplace :: "'k :: linorder \<Rightarrow> 'v \<Rightarrow> ('k \<times> 'v) list \<Rightarrow> ('k \<times> 'v) list" where
  "map_emplace k v [] = [(k, v)]"
| "map_emplace k v ((a, b) # m) = (if k < a then (k, v) # (a, b) # m else if k = a then (a, b) # m else (a, b) # map_emplace k v m)"

definition map_erase :: "'k \<Rightarrow> ('k \<times> 'v) list \<Rightarrow> ('k \<times> 'v) list" where
  "map_erase k m = filter (\<lambda>e. fst e \<noteq> k) m"

definition map_sorted :: "('k :: linorder \<times> 'v) list \<Rightarrow> bool" where
  "map_sorted m \<longleftrightarrow> sorted_wrt (<) (map fst m)"

lemma map_emplace_keys: "fst ` set (map_emplace k v m) = insert k (fst ` set m)"
  by (induction k v m rule: map_emplace.induct) auto

lemma map_emplace_sorted: "map_sorted m \<Longrightarrow> map_sorted (map_emplace k v m)"
proof (induction k v m rule: map_emplace.induct)
  case (2 k v a b m)
  then have s: "map_sorted m" "\<forall>x \<in> fst ` set m. a < x" by (simp_all add: map_sorted_def)
  have "map_sorted (map_emplace k v m)" if "\<not> k < a" "k \<noteq> a" using 2(1)[OF that s(1)] .
  then show ?case using s map_emplace_keys[of k v m] by (auto simp: map_sorted_def)
qed (simp add: map_sorted_def)

lemma map_emplace_absent: "map_sorted m \<Longrightarrow> map_of m k = None \<Longrightarrow> map_of (map_emplace k v m) = (map_of m)(k \<mapsto> v)"
  by (induction k v m rule: map_emplace.induct) (auto simp: map_sorted_def split: if_splits)

lemma map_emplace_present: "map_sorted m \<Longrightarrow> map_of m k = Some w \<Longrightarrow> map_emplace k v m = m"
proof (induction k v m rule: map_emplace.induct)
  case (2 k v a b m)
  have "\<not> k < a" using 2(2,3) map_of_SomeD[of m k w] by (force simp: map_sorted_def split: if_splits)
  then show ?case using 2 by (auto simp: map_sorted_def split: if_splits)
qed simp

lemma map_erase_of: "map_of (map_erase k m) = (map_of m)(k := None)"
  by (induction m) (auto simp: map_erase_def)

lemma map_erase_sorted: "map_sorted m \<Longrightarrow> map_sorted (map_erase k m)"
  by (induction m) (auto simp: map_sorted_def map_erase_def)

lemma map_emplace_last:
  "map_sorted m \<Longrightarrow> (\<And>x. x \<in> fst ` set m \<Longrightarrow> x < k) \<Longrightarrow> map_emplace k v m = m @ [(k, v)]"
proof (induction k v m rule: map_emplace.induct)
  case (2 k v a b m)
  have "a < k" by (rule 2(3)) simp
  moreover have "map_emplace k v m = m @ [(k, v)]" if "\<not> k < a" "k \<noteq> a"
    by (rule 2(1)[OF that]) (use 2(2,3) in \<open>auto simp: map_sorted_def\<close>)
  ultimately show ?case by auto
qed simp

section \<open>Model: the catalog\<close>

definition CATALOG_METADATA_MAGIC_NUM :: u32 where
  "CATALOG_METADATA_MAGIC_NUM = 89849"

record CatalogMeta =
  table_meta_pages :: "(u32 \<times> page_id_t) list"
  index_meta_pages :: "(u32 \<times> page_id_t) list"

definition CatalogMeta_new :: CatalogMeta where
  "CatalogMeta_new = \<lparr>table_meta_pages = [], index_meta_pages = []\<rparr>"

text \<open>The loops over a map: the id and the page of every entry.\<close>

fun write_entries :: "(u32 \<times> page_id_t) list \<Rightarrow> byte list \<Rightarrow> nat \<Rightarrow> (nat \<times> byte list) option" where
  "write_entries [] buf off = Some (off, buf)"
| "write_entries ((k, v) # m) buf off = do {
     buf \<leftarrow> MACH_WRITE_UINT32 buf off k;
     buf \<leftarrow> MACH_WRITE_INT32 buf (off + 4) v;
     write_entries m buf (off + 8) }"

definition CatalogMeta_SerializeTo :: "CatalogMeta \<Rightarrow> byte list \<Rightarrow> nat \<Rightarrow> byte list option" where
  "CatalogMeta_SerializeTo m buf off = do {
     buf \<leftarrow> MACH_WRITE_UINT32 buf off CATALOG_METADATA_MAGIC_NUM;
     buf \<leftarrow> MACH_WRITE_INT32 buf (off + 4) (int (length (table_meta_pages m)));
     (off, buf) \<leftarrow> write_entries (table_meta_pages m) buf (off + 8);
     buf \<leftarrow> MACH_WRITE_INT32 buf off (int (length (index_meta_pages m)));
     (off, buf) \<leftarrow> write_entries (index_meta_pages m) buf (off + 4);
     Some buf }"

fun read_entries :: "nat \<Rightarrow> byte list \<Rightarrow> nat \<Rightarrow> (u32 \<times> page_id_t) list \<Rightarrow> (nat \<times> (u32 \<times> page_id_t) list) option" where
  "read_entries 0 buf off m = Some (off, m)"
| "read_entries (Suc n) buf off m = do {
     k \<leftarrow> MACH_READ_UINT32 buf off;
     v \<leftarrow> MACH_READ_INT32 buf (off + 4);
     read_entries n buf (off + 8) (map_emplace k v m) }"

text \<open>A wrong magic number is only logged.\<close>

definition CatalogMeta_DeserializeFrom :: "byte list \<Rightarrow> nat \<Rightarrow> CatalogMeta option" where
  "CatalogMeta_DeserializeFrom buf off = do {
     magic_num \<leftarrow> MACH_READ_UINT32 buf off;
     table_nums \<leftarrow> MACH_READ_INT32 buf (off + 4);
     (off, tm) \<leftarrow> read_entries (nat table_nums) buf (off + 8) [];
     index_nums \<leftarrow> MACH_READ_INT32 buf off;
     (off, im) \<leftarrow> read_entries (nat index_nums) buf (off + 4) [];
     Some \<lparr>table_meta_pages = tm, index_meta_pages = im\<rparr> }"

text \<open>The size is a natural number.  The code computes it in 32 bits, which is the same below \<open>2 ^ 29\<close> entries.\<close>

definition CatalogMeta_GetSerializedSize :: "CatalogMeta \<Rightarrow> nat" where
  "CatalogMeta_GetSerializedSize m = 2 * 4 + 4 + length (table_meta_pages m) * 8 + length (index_meta_pages m) * 8"

definition GetNextTableId :: "CatalogMeta \<Rightarrow> u32" where
  "GetNextTableId m = (if table_meta_pages m = [] then 0 else fst (last (table_meta_pages m)))"

definition GetNextIndexId :: "CatalogMeta \<Rightarrow> u32" where
  "GetNextIndexId m = (if index_meta_pages m = [] then 0 else fst (last (index_meta_pages m)))"

section \<open>Model: tables\<close>

definition TABLE_METADATA_MAGIC_NUM :: u32 where
  "TABLE_METADATA_MAGIC_NUM = 344528"

record TableMetadata =
  tm_table_id :: u32
  tm_table_name :: string
  tm_root_page_id :: page_id_t
  tm_schema :: Schema

definition TableMetadata_SerializeTo :: "TableMetadata \<Rightarrow> byte list \<Rightarrow> nat \<Rightarrow> (nat \<times> byte list) option" where
  "TableMetadata_SerializeTo m buf off = do {
     let n = length (tm_table_name m);
     buf \<leftarrow> MACH_WRITE_UINT32 buf off TABLE_METADATA_MAGIC_NUM;
     buf \<leftarrow> MACH_WRITE_UINT32 buf (off + 4) (tm_table_id m);
     buf \<leftarrow> MACH_WRITE_UINT32 buf (off + 8) (of_nat n);
     buf \<leftarrow> mem_write buf (off + 12) (bytes_of (tm_table_name m));
     buf \<leftarrow> MACH_WRITE_INT32 buf (off + 16 + n) (tm_root_page_id m);
     (move, buf) \<leftarrow> Schema_SerializeTo (tm_schema m) buf (off + 20 + n);
     Some (20 + n + move, buf) }"

definition TableMetadata_GetSerializedSize :: "TableMetadata \<Rightarrow> nat" where
  "TableMetadata_GetSerializedSize m = 3 * 4 + (4 + length (tm_table_name m)) + 4 + Schema_GetSerializedSize (tm_schema m)"

definition TableMetadata_DeserializeFrom :: "byte list \<Rightarrow> nat \<Rightarrow> (nat \<times> TableMetadata) option" where
  "TableMetadata_DeserializeFrom buf off = do {
     magic_num \<leftarrow> MACH_READ_UINT32 buf off;
     table_id \<leftarrow> MACH_READ_UINT32 buf (off + 4);
     len \<leftarrow> MACH_READ_UINT32 buf (off + 8);
     let n = unat len;
     bs \<leftarrow> mem_read buf (off + 12) n;
     let table_name = string_of (takeWhile (\<lambda>b. b \<noteq> 0) bs);
     root_page_id \<leftarrow> MACH_READ_INT32 buf (off + 16 + n);
     (move, schema) \<leftarrow> Schema_DeserializeFrom buf (off + 20 + n);
     Some (20 + n + move, \<lparr>tm_table_id = table_id, tm_table_name = table_name, tm_root_page_id = root_page_id, tm_schema = schema\<rparr>) }"

section \<open>Model: indexes\<close>

definition INDEX_METADATA_MAGIC_NUM :: u32 where
  "INDEX_METADATA_MAGIC_NUM = 344528"

record IndexMetadata =
  im_index_id :: u32
  im_index_name :: string
  im_table_id :: u32
  im_key_map :: "u32 list"

fun write_words :: "u32 list \<Rightarrow> byte list \<Rightarrow> nat \<Rightarrow> byte list option" where
  "write_words [] buf off = Some buf"
| "write_words (w # ws) buf off = do { buf \<leftarrow> MACH_WRITE_UINT32 buf off w; write_words ws buf (off + 4) }"

fun read_words :: "nat \<Rightarrow> byte list \<Rightarrow> nat \<Rightarrow> u32 list option" where
  "read_words 0 buf off = Some []"
| "read_words (Suc n) buf off = do { w \<leftarrow> MACH_READ_UINT32 buf off; ws \<leftarrow> read_words n buf (off + 4); Some (w # ws) }"

definition IndexMetadata_SerializeTo :: "IndexMetadata \<Rightarrow> byte list \<Rightarrow> nat \<Rightarrow> (nat \<times> byte list) option" where
  "IndexMetadata_SerializeTo m buf off = do {
     let n = length (im_index_name m);
     buf \<leftarrow> MACH_WRITE_UINT32 buf off INDEX_METADATA_MAGIC_NUM;
     buf \<leftarrow> MACH_WRITE_UINT32 buf (off + 4) (im_index_id m);
     buf \<leftarrow> MACH_WRITE_UINT32 buf (off + 8) (of_nat n);
     buf \<leftarrow> mem_write buf (off + 12) (bytes_of (im_index_name m));
     buf \<leftarrow> MACH_WRITE_UINT32 buf (off + 16 + n) (im_table_id m);
     buf \<leftarrow> MACH_WRITE_UINT32 buf (off + 20 + n) (of_nat (length (im_key_map m)));
     buf \<leftarrow> write_words (im_key_map m) buf (off + 24 + n);
     Some (24 + n + 4 * length (im_key_map m), buf) }"

definition IndexMetadata_GetSerializedSize :: "IndexMetadata \<Rightarrow> nat" where
  "IndexMetadata_GetSerializedSize m = 5 * 4 + (4 + length (im_index_name m)) + 4 * length (im_key_map m)"

definition IndexMetadata_DeserializeFrom :: "byte list \<Rightarrow> nat \<Rightarrow> (nat \<times> IndexMetadata) option" where
  "IndexMetadata_DeserializeFrom buf off = do {
     magic_num \<leftarrow> MACH_READ_UINT32 buf off;
     index_id \<leftarrow> MACH_READ_UINT32 buf (off + 4);
     len \<leftarrow> MACH_READ_UINT32 buf (off + 8);
     let n = unat len;
     bs \<leftarrow> mem_read buf (off + 12) n;
     let index_name = string_of (takeWhile (\<lambda>b. b \<noteq> 0) bs);
     table_id \<leftarrow> MACH_READ_UINT32 buf (off + 16 + n);
     map_size \<leftarrow> MACH_READ_UINT32 buf (off + 20 + n);
     key_map \<leftarrow> read_words (unat map_size) buf (off + 24 + n);
     Some (24 + n + 4 * unat map_size, \<lparr>im_index_id = index_id, im_index_name = index_name, im_table_id = table_id, im_key_map = key_map\<rparr>) }"

section \<open>Bytes\<close>

text \<open>Writing one piece after the other is writing the whole; reading the whole gives each piece.\<close>

lemma mem_write_then:
  assumes "off + length xs + length ys \<le> length buf" and "o' = off + length xs"
  shows "do { b \<leftarrow> mem_write buf off xs; b \<leftarrow> mem_write b o' ys; f b } = do { b \<leftarrow> mem_write buf off (xs @ ys); f b }"
proof -
  have "do { b \<leftarrow> mem_write buf off xs; b \<leftarrow> mem_write b o' ys; f b } =
    Option.bind (Option.bind (mem_write buf off xs) (\<lambda>b. mem_write b (off + length xs) ys)) f" using assms(2) by simp
  then show ?thesis using mem_write_append[OF assms(1)] by simp
qed

definition entry_bytes :: "u32 \<times> page_id_t \<Rightarrow> byte list" where
  "entry_bytes e = le32 (fst e) @ le32 (word_of_int (snd e))"

definition entries_bytes :: "(u32 \<times> page_id_t) list \<Rightarrow> byte list" where
  "entries_bytes m = concat (map entry_bytes m)"

lemma length_entries_bytes [simp]: "length (entries_bytes m) = 8 * length m"
  by (induction m) (simp_all add: entries_bytes_def entry_bytes_def)

lemma entries_bytes_Cons: "entries_bytes (e # m) = le32 (fst e) @ le32 (word_of_int (snd e)) @ entries_bytes m" "entries_bytes [] = []"
  by (simp_all add: entries_bytes_def entry_bytes_def)

lemma mem_write_nil: "off \<le> length buf \<Longrightarrow> mem_write buf off [] = Some buf"
  by (simp add: mem_write_def)

lemma write_entries_eq:
  "off + 8 * length m \<le> length buf \<Longrightarrow> write_entries m buf off = do { b \<leftarrow> mem_write buf off (entries_bytes m); Some (off + 8 * length m, b) }"
proof (induction m arbitrary: buf off)
  case Nil
  then show ?case by (simp add: entries_bytes_Cons mem_write_nil)
next
  case (Cons e m)
  obtain k v where e: "e = (k, v)" by (cases e)
  let ?x = "le32 k" and ?y = "le32 (word_of_int v)"
  have l: "off + length (?x @ ?y) + length (entries_bytes m) \<le> length buf" using Cons.prems by simp
  obtain b where b: "mem_write buf off (?x @ ?y) = Some b" using mem_write_defined[of off "?x @ ?y" buf] l by auto
  have "write_entries (e # m) buf off = do { b \<leftarrow> mem_write buf off (?x @ ?y); write_entries m b (off + 8) }"
    unfolding e write_entries.simps MACH_WRITE_INT32_def MACH_WRITE_UINT32_def by (rule mem_write_then) (use l in simp_all)
  also have "\<dots> = do { b \<leftarrow> mem_write buf off (?x @ ?y); b \<leftarrow> mem_write b (off + 8) (entries_bytes m); Some (off + 8 * length (e # m), b) }"
    using Cons.IH[of "off + 8" b] Cons.prems b mem_write_length[OF b] by (simp add: add.assoc)
  also have "\<dots> = do { b \<leftarrow> mem_write buf off ((?x @ ?y) @ entries_bytes m); Some (off + 8 * length (e # m), b) }"
    by (rule mem_write_then[OF l]) simp
  finally show ?case by (simp add: e entries_bytes_Cons)
qed

lemma read_entries_eq:
  "mem_read buf off (8 * length m) = Some (entries_bytes m) \<Longrightarrow> list_all (\<lambda>e. int32_range (snd e)) m \<Longrightarrow> map_sorted (acc @ m) \<Longrightarrow>
     read_entries (length m) buf off acc = Some (off + 8 * length m, acc @ m)"
proof (induction m arbitrary: off acc)
  case (Cons e m)
  obtain k v where e: "e = (k, v)" by (cases e)
  have r: "mem_read buf off (8 * length (e # m)) = Some (le32 k @ le32 (word_of_int v) @ entries_bytes m)" using Cons.prems(1) by (simp add: e entries_bytes_Cons)
  note r1 = mem_read_append[OF r] and r2 = mem_read_append[OF mem_read_append(2)[OF r], simplified]
  have k: "MACH_READ_UINT32 buf off = Some k" "MACH_READ_INT32 buf (off + 4) = Some v"
    using r1(1) r2(1) Cons.prems(2) by (simp_all add: MACH_READ_UINT32_def MACH_READ_INT32_def e sint_word_of_int32)
  have "map_sorted acc" "\<And>x. x \<in> fst ` set acc \<Longrightarrow> x < k" using Cons.prems(3) by (auto simp: map_sorted_def sorted_wrt_append e)
  then have "map_emplace k v acc = acc @ [(k, v)]" by (rule map_emplace_last)
  moreover have "read_entries (length m) buf (off + 8) (acc @ [(k, v)]) = Some (off + 8 + 8 * length m, (acc @ [(k, v)]) @ m)"
    by (rule Cons.IH) (use r2(2) Cons.prems(2,3) in \<open>simp_all add: e ac_simps\<close>)
  ultimately show ?case using k by (simp add: e)
qed simp

definition words_bytes :: "u32 list \<Rightarrow> byte list" where
  "words_bytes ws = concat (map le32 ws)"

lemma length_words_bytes [simp]: "length (words_bytes ws) = 4 * length ws"
  by (induction ws) (simp_all add: words_bytes_def)

lemma write_words_eq: "off + 4 * length ws \<le> length buf \<Longrightarrow> write_words ws buf off = mem_write buf off (words_bytes ws)"
proof (induction ws arbitrary: buf off)
  case (Cons w ws)
  have l: "off + length (le32 w) + length (words_bytes ws) \<le> length buf" using Cons.prems by simp
  obtain b where b: "mem_write buf off (le32 w) = Some b" using mem_write_defined[of off "le32 w" buf] l by auto
  have "write_words (w # ws) buf off = do { b \<leftarrow> mem_write buf off (le32 w); mem_write b (off + 4) (words_bytes ws) }"
    using Cons.IH[of "off + 4" b] Cons.prems b mem_write_length[OF b] by (simp add: MACH_WRITE_UINT32_def)
  then show ?case using mem_write_append[OF l] by (simp add: words_bytes_def)
qed (simp add: words_bytes_def mem_write_nil)

lemma read_words_eq: "mem_read buf off (4 * length ws) = Some (words_bytes ws) \<Longrightarrow> read_words (length ws) buf off = Some ws"
proof (induction ws arbitrary: off)
  case (Cons w ws)
  have r: "mem_read buf off (4 * length (w # ws)) = Some (le32 w @ words_bytes ws)" using Cons.prems by (simp add: words_bytes_def)
  show ?case using mem_read_append[OF r, simplified] Cons.IH[of "off + 4"] by (simp add: MACH_READ_UINT32_def)
qed simp

lemma mem_write_join:
  assumes "mem_write buf off xs = Some b" and "mem_write b o' ys = Some b'" and "o' = off + length xs"
  shows "mem_write buf off (xs @ ys) = Some b'"
proof -
  have "off + length xs + length ys \<le> length buf" using assms mem_write_length[OF assms(1)] by (auto simp: mem_write_def split: if_splits)
  then show ?thesis using mem_write_append[of off xs ys buf] assms by simp
qed

lemma mem_write_more:
  assumes "mem_write buf off xs = Some b" and "off + length xs + length ys \<le> length buf" and "o' = off + length xs"
  obtains b' where "mem_write b o' ys = Some b'" "mem_write buf off (xs @ ys) = Some b'"
proof -
  obtain b' where "mem_write b o' ys = Some b'" using mem_write_defined[of o' ys b] assms(2,3) mem_write_length[OF assms(1)] by auto
  then show ?thesis using that mem_write_join[OF assms(1) _ assms(3)] by blast
qed

lemma mem_write_outside: "mem_write buf off bs = Some b \<Longrightarrow> same_outside buf b off (length bs)"
  using same_outside_write[of buf buf off "length bs" off bs b] by simp

section \<open>Round trips\<close>

definition catalog_ok :: "CatalogMeta \<Rightarrow> bool" where
  "catalog_ok m \<longleftrightarrow> map_sorted (table_meta_pages m) \<and> map_sorted (index_meta_pages m) \<and>
     list_all (\<lambda>e. int32_range (snd e)) (table_meta_pages m @ index_meta_pages m) \<and>
     length (table_meta_pages m) < 2 ^ 31 \<and> length (index_meta_pages m) < 2 ^ 31"

definition catalog_bytes :: "CatalogMeta \<Rightarrow> byte list" where
  "catalog_bytes m = le32 CATALOG_METADATA_MAGIC_NUM @ le32 (of_nat (length (table_meta_pages m))) @ entries_bytes (table_meta_pages m) @
     le32 (of_nat (length (index_meta_pages m))) @ entries_bytes (index_meta_pages m)"

lemma length_catalog_bytes [simp]: "length (catalog_bytes m) = CatalogMeta_GetSerializedSize m"
  by (simp add: catalog_bytes_def CatalogMeta_GetSerializedSize_def)

lemma catalog_serialize:
  assumes "off + CatalogMeta_GetSerializedSize m \<le> length buf"
  shows "CatalogMeta_SerializeTo m buf off = mem_write buf off (catalog_bytes m)"
proof -
  let ?t = "table_meta_pages m" and ?i = "index_meta_pages m"
  have l: "off + 12 + 8 * length ?t + 8 * length ?i \<le> length buf" using assms by (simp add: CatalogMeta_GetSerializedSize_def)
  obtain b1 where b1: "mem_write buf off (le32 CATALOG_METADATA_MAGIC_NUM) = Some b1" using mem_write_defined[of off "le32 _" buf] l by auto
  obtain b2 where b2: "mem_write b1 (off + 4) (le32 (of_nat (length ?t))) = Some b2"
    "mem_write buf off (le32 CATALOG_METADATA_MAGIC_NUM @ le32 (of_nat (length ?t))) = Some b2"
    by (rule mem_write_more[OF b1, of "le32 (of_nat (length ?t))" "off + 4"]) (use l in simp_all)
  obtain b3 where b3: "mem_write b2 (off + 8) (entries_bytes ?t) = Some b3"
    "mem_write buf off ((le32 CATALOG_METADATA_MAGIC_NUM @ le32 (of_nat (length ?t))) @ entries_bytes ?t) = Some b3"
    by (rule mem_write_more[OF b2(2), of "entries_bytes ?t" "off + 8"]) (use l in simp_all)
  obtain b4 where b4: "mem_write b3 (off + 8 + 8 * length ?t) (le32 (of_nat (length ?i))) = Some b4"
    "mem_write buf off (((le32 CATALOG_METADATA_MAGIC_NUM @ le32 (of_nat (length ?t))) @ entries_bytes ?t) @ le32 (of_nat (length ?i))) = Some b4"
    by (rule mem_write_more[OF b3(2), of "le32 (of_nat (length ?i))" "off + 8 + 8 * length ?t"]) (use l in simp_all)
  obtain b5 where b5: "mem_write b4 (off + 8 + 8 * length ?t + 4) (entries_bytes ?i) = Some b5"
    "mem_write buf off ((((le32 CATALOG_METADATA_MAGIC_NUM @ le32 (of_nat (length ?t))) @ entries_bytes ?t) @ le32 (of_nat (length ?i))) @ entries_bytes ?i) = Some b5"
    by (rule mem_write_more[OF b4(2), of "entries_bytes ?i" "off + 8 + 8 * length ?t + 4"]) (use l in simp_all)
  have "length b2 = length buf" "length b4 = length buf" using mem_write_length[OF b2(2)] mem_write_length[OF b4(2)] by simp_all
  then have w: "write_entries ?t b2 (off + 8) = Some (off + 8 + 8 * length ?t, b3)"
    "write_entries ?i b4 (off + 8 + 8 * length ?t + 4) = Some (off + 8 + 8 * length ?t + 4 + 8 * length ?i, b5)"
    using write_entries_eq[of "off + 8" ?t b2] write_entries_eq[of "off + 8 + 8 * length ?t + 4" ?i b4] l b3(1) b5(1) by simp_all
  have "CatalogMeta_SerializeTo m buf off = Some b5"
    unfolding CatalogMeta_SerializeTo_def MACH_WRITE_INT32_def MACH_WRITE_UINT32_def using b1 b2(1) w(1) b4(1) w(2) by simp
  then show ?thesis using b5(2) by (simp add: catalog_bytes_def)
qed

lemma catalog_deserialize:
  assumes "catalog_ok m" and "mem_read buf off (CatalogMeta_GetSerializedSize m) = Some (catalog_bytes m)"
  shows "CatalogMeta_DeserializeFrom buf off = Some m"
proof -
  let ?t = "table_meta_pages m" and ?i = "index_meta_pages m"
  have ok: "map_sorted ?t" "map_sorted ?i" "list_all (\<lambda>e. int32_range (snd e)) ?t" "list_all (\<lambda>e. int32_range (snd e)) ?i"
    "sint (of_nat (length ?t) :: u32) = int (length ?t)" "sint (of_nat (length ?i) :: u32) = int (length ?i)"
    using assms(1) sint_word_of_int32[of "int (length ?t)"] sint_word_of_int32[of "int (length ?i)"] by (simp_all add: catalog_ok_def int32_range_def)
  note r1 = mem_read_append[OF assms(2)[unfolded catalog_bytes_def]]
  note r2 = mem_read_append[OF r1(2)]
  note r3 = mem_read_append[OF r2(2)]
  note r4 = mem_read_append[OF r3(2)]
  have "MACH_READ_UINT32 buf off = Some CATALOG_METADATA_MAGIC_NUM" "MACH_READ_INT32 buf (off + 4) = Some (int (length ?t))"
    "MACH_READ_INT32 buf (off + 8 + 8 * length ?t) = Some (int (length ?i))"
    using r1(1) r2(1) r4(1) ok(5,6) by (simp_all add: MACH_READ_UINT32_def MACH_READ_INT32_def ac_simps)
  moreover have "read_entries (length ?t) buf (off + 8) [] = Some (off + 8 + 8 * length ?t, ?t)"
    using read_entries_eq[of buf "off + 8" ?t "[]"] r3(1) ok(1,3) by (simp add: ac_simps)
  moreover have "read_entries (length ?i) buf (off + 8 + 8 * length ?t + 4) [] = Some (off + 8 + 8 * length ?t + 4 + 8 * length ?i, ?i)"
    using read_entries_eq[of buf "off + 8 + 8 * length ?t + 4" ?i "[]"] r4(2) ok(2,4) by (simp add: ac_simps)
  ultimately show ?thesis by (simp add: CatalogMeta_DeserializeFrom_def)
qed

definition index_meta_ok :: "IndexMetadata \<Rightarrow> bool" where
  "index_meta_ok m \<longleftrightarrow> CHR 0x00 \<notin> set (im_index_name m) \<and> length (im_index_name m) < 2 ^ 32 \<and> length (im_key_map m) < 2 ^ 32"

definition index_meta_bytes :: "IndexMetadata \<Rightarrow> byte list" where
  "index_meta_bytes m = le32 INDEX_METADATA_MAGIC_NUM @ le32 (im_index_id m) @ le32 (of_nat (length (im_index_name m))) @ bytes_of (im_index_name m)"

text \<open>Between the name and the table id four bytes are skipped.\<close>

definition index_meta_tail :: "IndexMetadata \<Rightarrow> byte list" where
  "index_meta_tail m = le32 (im_table_id m) @ le32 (of_nat (length (im_key_map m))) @ words_bytes (im_key_map m)"

lemma index_meta_lengths [simp]:
  "length (index_meta_bytes m) = 12 + length (im_index_name m)" "length (index_meta_tail m) = 8 + 4 * length (im_key_map m)"
  by (simp_all add: index_meta_bytes_def index_meta_tail_def)

lemma index_meta_serialize:
  assumes "off + IndexMetadata_GetSerializedSize m \<le> length buf"
  obtains b b' where "mem_write buf off (index_meta_bytes m) = Some b" "mem_write b (off + 16 + length (im_index_name m)) (index_meta_tail m) = Some b'"
    "IndexMetadata_SerializeTo m buf off = Some (IndexMetadata_GetSerializedSize m, b')"
proof -
  let ?n = "length (im_index_name m)" and ?k = "length (im_key_map m)"
  have l: "off + 24 + ?n + 4 * ?k \<le> length buf" using assms by (simp add: IndexMetadata_GetSerializedSize_def)
  obtain b1 where b1: "mem_write buf off (le32 INDEX_METADATA_MAGIC_NUM) = Some b1" using mem_write_defined[of off "le32 _" buf] l by auto
  obtain b2 where b2: "mem_write b1 (off + 4) (le32 (im_index_id m)) = Some b2"
    "mem_write buf off (le32 INDEX_METADATA_MAGIC_NUM @ le32 (im_index_id m)) = Some b2"
    by (rule mem_write_more[OF b1, of "le32 (im_index_id m)" "off + 4"]) (use l in simp_all)
  obtain b3 where b3: "mem_write b2 (off + 8) (le32 (of_nat ?n)) = Some b3"
    "mem_write buf off ((le32 INDEX_METADATA_MAGIC_NUM @ le32 (im_index_id m)) @ le32 (of_nat ?n)) = Some b3"
    by (rule mem_write_more[OF b2(2), of "le32 (of_nat ?n)" "off + 8"]) (use l in simp_all)
  obtain b4 where b4: "mem_write b3 (off + 12) (bytes_of (im_index_name m)) = Some b4"
    "mem_write buf off (((le32 INDEX_METADATA_MAGIC_NUM @ le32 (im_index_id m)) @ le32 (of_nat ?n)) @ bytes_of (im_index_name m)) = Some b4"
    by (rule mem_write_more[OF b3(2), of "bytes_of (im_index_name m)" "off + 12"]) (use l in simp_all)
  have l4: "length b4 = length buf" using mem_write_length[OF b4(2)] by simp
  obtain b5 where b5: "mem_write b4 (off + 16 + ?n) (le32 (im_table_id m)) = Some b5"
    using mem_write_defined[of "off + 16 + ?n" "le32 (im_table_id m)" b4] l l4 by auto
  obtain b6 where b6: "mem_write b5 (off + 20 + ?n) (le32 (of_nat ?k)) = Some b6"
    "mem_write b4 (off + 16 + ?n) (le32 (im_table_id m) @ le32 (of_nat ?k)) = Some b6"
    by (rule mem_write_more[OF b5, of "le32 (of_nat ?k)" "off + 20 + ?n"]) (use l l4 in simp_all)
  obtain b7 where b7: "mem_write b6 (off + 24 + ?n) (words_bytes (im_key_map m)) = Some b7"
    "mem_write b4 (off + 16 + ?n) ((le32 (im_table_id m) @ le32 (of_nat ?k)) @ words_bytes (im_key_map m)) = Some b7"
    by (rule mem_write_more[OF b6(2), of "words_bytes (im_key_map m)" "off + 24 + ?n"]) (use l l4 in simp_all)
  have "write_words (im_key_map m) b6 (off + 24 + ?n) = Some b7"
    using write_words_eq[of "off + 24 + ?n" "im_key_map m" b6] b7(1) mem_write_length[OF b6(2)] l l4 by simp
  then have "IndexMetadata_SerializeTo m buf off = Some (IndexMetadata_GetSerializedSize m, b7)"
    unfolding IndexMetadata_SerializeTo_def MACH_WRITE_UINT32_def Let_def
    using b1 b2(1) b3(1) b4(1) b5 b6(1) by (simp add: IndexMetadata_GetSerializedSize_def)
  then show ?thesis using that[of b4 b7] b4(2) b7(2) by (simp add: index_meta_bytes_def index_meta_tail_def)
qed

lemma index_meta_deserialize:
  assumes "index_meta_ok m" and "mem_read buf off (12 + length (im_index_name m)) = Some (index_meta_bytes m)"
    and "mem_read buf (off + 16 + length (im_index_name m)) (8 + 4 * length (im_key_map m)) = Some (index_meta_tail m)"
  shows "IndexMetadata_DeserializeFrom buf off = Some (IndexMetadata_GetSerializedSize m, m)"
proof -
  let ?n = "length (im_index_name m)" and ?k = "length (im_key_map m)"
  have ok: "unat (of_nat ?n :: u32) = ?n" "unat (of_nat ?k :: u32) = ?k" "CHR 0x00 \<notin> set (im_index_name m)"
    using assms(1) by (simp_all add: index_meta_ok_def unat_of_nat_u32)
  note r1 = mem_read_append[OF assms(2)[unfolded index_meta_bytes_def]]
  note r2 = mem_read_append[OF r1(2)]
  note r3 = mem_read_append[OF r2(2)]
  note t1 = mem_read_append[OF assms(3)[unfolded index_meta_tail_def]]
  note t2 = mem_read_append[OF t1(2)]
  have "MACH_READ_UINT32 buf off = Some INDEX_METADATA_MAGIC_NUM" "MACH_READ_UINT32 buf (off + 4) = Some (im_index_id m)"
    "MACH_READ_UINT32 buf (off + 8) = Some (of_nat ?n)" "mem_read buf (off + 12) ?n = Some (bytes_of (im_index_name m))"
    "MACH_READ_UINT32 buf (off + 16 + ?n) = Some (im_table_id m)" "MACH_READ_UINT32 buf (off + 20 + ?n) = Some (of_nat ?k)"
    using r1(1) r2(1) r3 t1(1) t2(1) by (simp_all add: MACH_READ_UINT32_def ac_simps)
  moreover have "read_words ?k buf (off + 24 + ?n) = Some (im_key_map m)" using read_words_eq[of buf "off + 24 + ?n" "im_key_map m"] t2(2) by (simp add: ac_simps)
  ultimately show ?thesis using ok
    by (simp add: IndexMetadata_DeserializeFrom_def Let_def bytes_no_NUL IndexMetadata_GetSerializedSize_def)
qed

text \<open>What a table looks like after it has been stored.\<close>

definition stored_table :: "TableMetadata \<Rightarrow> TableMetadata" where
  "stored_table m = m\<lparr>tm_schema := map stored_column (tm_schema m)\<rparr>"

definition table_meta_ok :: "TableMetadata \<Rightarrow> bool" where
  "table_meta_ok m \<longleftrightarrow> CHR 0x00 \<notin> set (tm_table_name m) \<and> length (tm_table_name m) < 2 ^ 32 \<and> int32_range (tm_root_page_id m) \<and>
     list_all column_ok (tm_schema m) \<and> length (tm_schema m) < 2 ^ 32"

lemma table_meta_roundtrip:
  assumes "table_meta_ok m" and "off + TableMetadata_GetSerializedSize m \<le> length buf"
  shows "\<exists>buf'. TableMetadata_SerializeTo m buf off = Some (TableMetadata_GetSerializedSize m, buf') \<and>
    same_outside buf buf' off (TableMetadata_GetSerializedSize m) \<and>
    TableMetadata_DeserializeFrom buf' off = Some (TableMetadata_GetSerializedSize m, stored_table m)"
proof -
  let ?n = "length (tm_table_name m)" and ?S = "Schema_GetSerializedSize (tm_schema m)" and ?z = "TableMetadata_GetSerializedSize m"
  have z: "?z = 20 + ?n + ?S" by (simp add: TableMetadata_GetSerializedSize_def)
  have l: "off + 20 + ?n + ?S \<le> length buf" using assms(2) z by simp
  obtain b1 where b1: "mem_write buf off (le32 TABLE_METADATA_MAGIC_NUM) = Some b1" using mem_write_defined[of off "le32 _" buf] l by auto
  obtain b2 where b2: "mem_write b1 (off + 4) (le32 (tm_table_id m)) = Some b2"
    "mem_write buf off (le32 TABLE_METADATA_MAGIC_NUM @ le32 (tm_table_id m)) = Some b2"
    by (rule mem_write_more[OF b1, of "le32 (tm_table_id m)" "off + 4"]) (use l in simp_all)
  obtain b3 where b3: "mem_write b2 (off + 8) (le32 (of_nat ?n)) = Some b3"
    "mem_write buf off ((le32 TABLE_METADATA_MAGIC_NUM @ le32 (tm_table_id m)) @ le32 (of_nat ?n)) = Some b3"
    by (rule mem_write_more[OF b2(2), of "le32 (of_nat ?n)" "off + 8"]) (use l in simp_all)
  obtain b4 where b4: "mem_write b3 (off + 12) (bytes_of (tm_table_name m)) = Some b4"
    "mem_write buf off (((le32 TABLE_METADATA_MAGIC_NUM @ le32 (tm_table_id m)) @ le32 (of_nat ?n)) @ bytes_of (tm_table_name m)) = Some b4"
    by (rule mem_write_more[OF b3(2), of "bytes_of (tm_table_name m)" "off + 12"]) (use l in simp_all)
  have l4: "length b4 = length buf" using mem_write_length[OF b4(2)] by simp
  obtain b5 where b5: "mem_write b4 (off + 16 + ?n) (le32 (word_of_int (tm_root_page_id m))) = Some b5"
    using mem_write_defined[of "off + 16 + ?n" "le32 (word_of_int (tm_root_page_id m))" b4] l l4 by auto
  have ok: "list_all column_ok (tm_schema m)" "length (tm_schema m) < 2 ^ 32" "off + 20 + ?n + ?S \<le> length b5"
    using assms(1) l l4 mem_write_length[OF b5] by (simp_all add: table_meta_ok_def)
  obtain b6 where b6: "Schema_SerializeTo (tm_schema m) b5 (off + 20 + ?n) = Some (?S, b6)" "same_outside b5 b6 (off + 20 + ?n) ?S"
    "Schema_DeserializeFrom b6 (off + 20 + ?n) = Some (?S, map stored_column (tm_schema m))"
    using Schema_roundtrip[OF ok] by blast
  have ser: "TableMetadata_SerializeTo m buf off = Some (?z, b6)"
    unfolding TableMetadata_SerializeTo_def MACH_WRITE_INT32_def MACH_WRITE_UINT32_def Let_def
    using b1 b2(1) b3(1) b4(1) b5 b6(1) z by simp
  have h: "mem_read b6 off (12 + ?n) = Some (le32 TABLE_METADATA_MAGIC_NUM @ le32 (tm_table_id m) @ le32 (of_nat ?n) @ bytes_of (tm_table_name m))"
    using mem_read_write_same[OF b4(2)] by (simp add: same_outside_read[OF b6(2)] mem_read_write_disjoint[OF b5])
  note r1 = mem_read_append[OF h]
  note r2 = mem_read_append[OF r1(2)]
  note r3 = mem_read_append[OF r2(2)]
  have "MACH_READ_UINT32 b6 off = Some TABLE_METADATA_MAGIC_NUM" "MACH_READ_UINT32 b6 (off + 4) = Some (tm_table_id m)"
    "MACH_READ_UINT32 b6 (off + 8) = Some (of_nat ?n)" "mem_read b6 (off + 12) ?n = Some (bytes_of (tm_table_name m))"
    using r1(1) r2(1) r3 by (simp_all add: MACH_READ_UINT32_def ac_simps)
  moreover have "MACH_READ_INT32 b6 (off + 16 + ?n) = Some (tm_root_page_id m)"
    using mem_read_write_same[OF b5] assms(1)
    by (simp add: MACH_READ_INT32_def MACH_READ_UINT32_def same_outside_read[OF b6(2)] sint_word_of_int32 table_meta_ok_def)
  moreover have "unat (of_nat ?n :: u32) = ?n" "CHR 0x00 \<notin> set (tm_table_name m)" using assms(1) by (simp_all add: table_meta_ok_def unat_of_nat_u32)
  ultimately have des: "TableMetadata_DeserializeFrom b6 off = Some (?z, stored_table m)" using b6(3) z
    by (simp add: TableMetadata_DeserializeFrom_def Let_def bytes_no_NUL stored_table_def)
  have "same_outside buf b4 off ?z" using mem_write_outside[OF b4(2)] z by (auto simp: same_outside_def)
  from same_outside_write[OF this b5] have "same_outside buf b5 off ?z" using z by simp
  from same_outside_trans[OF this b6(2)] have "same_outside buf b6 off ?z" using z by simp
  then show ?thesis using ser des by blast
qed

lemma write_entries_Some:
  "write_entries m buf off = Some (o', b) \<Longrightarrow> o' = off + 8 * length m \<and> length b = length buf \<and> (m \<noteq> [] \<longrightarrow> o' \<le> length buf)"
proof (induction m arbitrary: buf off)
  case (Cons e m)
  obtain k v where e: "e = (k, v)" by (cases e)
  obtain b1 b2 where w: "mem_write buf off (le32 k) = Some b1" "mem_write b1 (off + 4) (le32 (word_of_int v)) = Some b2" "write_entries m b2 (off + 8) = Some (o', b)"
    using Cons.prems by (auto simp: e MACH_WRITE_UINT32_def MACH_WRITE_INT32_def split: bind_splits)
  have "length b2 = length buf" "off + 8 \<le> length buf" using w(1,2) mem_write_length[OF w(1)] mem_write_length[OF w(2)] by (auto simp: mem_write_def split: if_splits)
  then show ?case using Cons.IH[OF w(3)] by auto
qed simp

lemma mem_write_fits: "mem_write buf off bs = Some b \<Longrightarrow> off + length bs \<le> length buf \<and> length b = length buf"
  using mem_write_length[of buf off bs b] by (auto simp: mem_write_def split: if_splits)

lemma catalog_serialize_fits:
  assumes "CatalogMeta_SerializeTo m buf off = Some b"
  shows "off + CatalogMeta_GetSerializedSize m \<le> length buf"
proof -
  let ?t = "table_meta_pages m" and ?i = "index_meta_pages m"
  obtain b1 b2 o3 b3 b4 o5 b5 where w: "mem_write buf off (le32 CATALOG_METADATA_MAGIC_NUM) = Some b1" "mem_write b1 (off + 4) (le32 (word_of_int (int (length ?t)))) = Some b2"
    "write_entries ?t b2 (off + 8) = Some (o3, b3)" "mem_write b3 o3 (le32 (word_of_int (int (length ?i)))) = Some b4" "write_entries ?i b4 (o3 + 4) = Some (o5, b5)"
    using assms unfolding CatalogMeta_SerializeTo_def MACH_WRITE_UINT32_def MACH_WRITE_INT32_def by (auto split: bind_splits)
  show ?thesis using mem_write_fits[OF w(1)] mem_write_fits[OF w(2)] write_entries_Some[OF w(3)] mem_write_fits[OF w(4)] write_entries_Some[OF w(5)]
    by (cases "?i = []") (auto simp: CatalogMeta_GetSerializedSize_def)
qed

section \<open>Properties\<close>

text \<open>C17: The catalog survives storage.  When the serialised maps of table and index pages fit behind the offset, they are written to exactly
  the number of bytes that \<open>GetSerializedSize\<close> says, no other byte changes, and reading them back gives the same catalog; otherwise the code writes behind
  the end of the page.\<close>

theorem catalog_meta_roundtrip:
  assumes "catalog_ok m"
  shows "if off + CatalogMeta_GetSerializedSize m \<le> length buf
    then \<exists>buf'. CatalogMeta_SerializeTo m buf off = Some buf' \<and> same_outside buf buf' off (CatalogMeta_GetSerializedSize m) \<and>
      CatalogMeta_DeserializeFrom buf' off = Some m
    else CatalogMeta_SerializeTo m buf off = None"
proof (cases "off + CatalogMeta_GetSerializedSize m \<le> length buf")
  case True
  obtain b where b: "mem_write buf off (catalog_bytes m) = Some b" using mem_write_defined[of off "catalog_bytes m" buf] True by auto
  have "CatalogMeta_DeserializeFrom b off = Some m" by (rule catalog_deserialize[OF assms mem_read_write_same[OF b]]) simp
  moreover have "same_outside buf b off (CatalogMeta_GetSerializedSize m)" using mem_write_outside[OF b] by simp
  ultimately show ?thesis using catalog_serialize[OF True] b True by simp
next
  case False
  then show ?thesis using catalog_serialize_fits[of m buf off] by (cases "CatalogMeta_SerializeTo m buf off") auto
qed

theorem catalog_meta_roundtrip_witness:
  "\<exists>buf'. CatalogMeta_SerializeTo \<lparr>table_meta_pages = [(0, 3), (2, 7)], index_meta_pages = [(1, -1)]\<rparr> (replicate 40 0) 2 = Some buf' \<and>
    CatalogMeta_DeserializeFrom buf' 2 = Some \<lparr>table_meta_pages = [(0, 3), (2, 7)], index_meta_pages = [(1, -1)]\<rparr>"
  using catalog_meta_roundtrip[of "\<lparr>table_meta_pages = [(0, 3), (2, 7)], index_meta_pages = [(1, -1)]\<rparr>" 2 "replicate 40 0"]
  by (auto simp: catalog_ok_def map_sorted_def int32_range_def CatalogMeta_GetSerializedSize_def)

lemma index_meta_roundtrip:
  assumes "index_meta_ok i" and "off + IndexMetadata_GetSerializedSize i \<le> length buf"
  shows "\<exists>buf'. IndexMetadata_SerializeTo i buf off = Some (IndexMetadata_GetSerializedSize i, buf') \<and>
    same_outside buf buf' off (IndexMetadata_GetSerializedSize i) \<and>
    IndexMetadata_DeserializeFrom buf' off = Some (IndexMetadata_GetSerializedSize i, i)"
proof -
  let ?z = "IndexMetadata_GetSerializedSize i"
  have z: "?z = 24 + length (im_index_name i) + 4 * length (im_key_map i)" by (simp add: IndexMetadata_GetSerializedSize_def)
  obtain b b' where w: "mem_write buf off (index_meta_bytes i) = Some b" "mem_write b (off + 16 + length (im_index_name i)) (index_meta_tail i) = Some b'"
    "IndexMetadata_SerializeTo i buf off = Some (?z, b')" by (rule index_meta_serialize[OF assms(2)])
  have "mem_read b' off (12 + length (im_index_name i)) = Some (index_meta_bytes i)"
    using mem_read_write_same[OF w(1)] by (simp add: mem_read_write_disjoint[OF w(2)])
  then have "IndexMetadata_DeserializeFrom b' off = Some (?z, i)"
    by (rule index_meta_deserialize[OF assms(1)]) (simp add: mem_read_write_same[OF w(2)])
  moreover have "same_outside buf b off ?z" using mem_write_outside[OF w(1)] z by (auto simp: same_outside_def)
  from same_outside_write[OF this w(2)] have "same_outside buf b' off ?z" using z by simp
  ultimately show ?thesis using w(3) by blast
qed

text \<open>C18: Tables and indexes survive storage, but for the lengths of character columns.  Writing the metadata of a table or of an index takes the
  number of bytes that its size says and changes no other byte; reading it back gives the same index, and the same table except that
  the length of every character column has been replaced by the length of its name plus four.\<close>

theorem metadata_roundtrip:
  assumes "table_meta_ok t" and "off + TableMetadata_GetSerializedSize t \<le> length buf"
    and "index_meta_ok i" and "off' + IndexMetadata_GetSerializedSize i \<le> length buf"
  shows "(\<exists>buf'. TableMetadata_SerializeTo t buf off = Some (TableMetadata_GetSerializedSize t, buf') \<and>
      same_outside buf buf' off (TableMetadata_GetSerializedSize t) \<and>
      TableMetadata_DeserializeFrom buf' off = Some (TableMetadata_GetSerializedSize t, stored_table t)) \<and>
    (\<exists>buf'. IndexMetadata_SerializeTo i buf off' = Some (IndexMetadata_GetSerializedSize i, buf') \<and>
      same_outside buf buf' off' (IndexMetadata_GetSerializedSize i) \<and>
      IndexMetadata_DeserializeFrom buf' off' = Some (IndexMetadata_GetSerializedSize i, i))"
  by (rule conjI[OF table_meta_roundtrip[OF assms(1,2)] index_meta_roundtrip[OF assms(3,4)]])

definition sample_table :: TableMetadata where
  "sample_table = \<lparr>tm_table_id = 3, tm_table_name = ''accounts'', tm_root_page_id = 9, tm_schema = sample_schema\<rparr>"

definition sample_index :: IndexMetadata where
  "sample_index = \<lparr>im_index_id = 1, im_index_name = ''accounts.PRIMARY'', im_table_id = 3, im_key_map = [0]\<rparr>"

lemma sample_metadata_ok: "table_meta_ok sample_table" "TableMetadata_GetSerializedSize sample_table = 86" "index_meta_ok sample_index" "IndexMetadata_GetSerializedSize sample_index = 44"
  by (simp_all add: sample_table_def sample_index_def sample_schema_def table_meta_ok_def index_meta_ok_def column_ok_def int32_range_def
      TableMetadata_GetSerializedSize_def IndexMetadata_GetSerializedSize_def Schema_GetSerializedSize_def Column_GetSerializedSize_def)

theorem metadata_roundtrip_witness:
  "(\<exists>buf'. TableMetadata_SerializeTo sample_table (replicate 100 0) 5 = Some (86, buf') \<and>
      TableMetadata_DeserializeFrom buf' 5 = Some (86, stored_table sample_table)) \<and>
    (\<exists>buf'. IndexMetadata_SerializeTo sample_index (replicate 100 0) 7 = Some (44, buf') \<and>
      IndexMetadata_DeserializeFrom buf' 7 = Some (44, sample_index))"
  using metadata_roundtrip[OF sample_metadata_ok(1) _ sample_metadata_ok(3), of 5 "replicate 100 0" 7] sample_metadata_ok(2,4) by auto

end
