(* ===== verification/Catalog.thy ===== *)
theory Catalog
  imports Table_Iterator BPlus_Tree Catalog_Meta
begin

text \<open>The catalog manager (\<^verbatim>\<open>catalog/catalog.cpp\<close>, \<^verbatim>\<open>include/catalog/\<close>) and the storage engine that bundles the components
  (\<^verbatim>\<open>include/common/instance.h\<close>).  The catalog keeps the tables and indexes in memory and their metadata in pages: page 0 holds the ids and
  pages of all tables and indexes.  The catalog and the buffer pool are the state of every operation.  The result is \<^const>\<open>None\<close> where the code dereferences a
  null or dangling pointer, uses a variable that was never set, writes behind a page, or where an assertion fails.

  A \<^verbatim>\<open>std::unordered_map\<close> is the list of its entries in the order in which the model iterates over it; the standard does not fix this order, and the lemmas do not
  use it.  A \<open>TableInfo\<close> does not change between its creation and \<open>DropTable\<close>, so it is a value; the tree of an index changes, and lives in the map of indexes.\<close>

section \<open>Model: memory\<close>

definition hash_emplace :: "'k \<Rightarrow> 'v \<Rightarrow> ('k \<times> 'v) list \<Rightarrow> ('k \<times> 'v) list" where
  "hash_emplace k v m = (if map_of m k = None then m @ [(k, v)] else m)"

definition hash_set :: "'k \<Rightarrow> 'v \<Rightarrow> ('k \<times> 'v) list \<Rightarrow> ('k \<times> 'v) list" where
  "hash_set k v m = map (\<lambda>e. if fst e = k then (k, v) else e) m"

record TableInfo =
  table_meta :: TableMetadata
  heap_of :: table_heap

record IndexInfo =
  index_meta :: IndexMetadata
  index_tree :: BPlusTree
  index_table :: TableInfo
  key_schema :: Schema

definition INDEX_KEY_SIZE :: nat where
  "INDEX_KEY_SIZE = 64"

definition IndexInfo_Init :: "IndexMetadata \<Rightarrow> TableInfo \<Rightarrow> buffer_pool \<Rightarrow> (IndexInfo \<times> buffer_pool) option" where
  "IndexInfo_Init meta info bp = do {
     schema \<leftarrow> ShallowCopySchema (tm_schema (table_meta info)) (map unat (im_key_map meta));
     (tree, bp) \<leftarrow> BPlusTreeIndex_new INDEX_KEY_SIZE (im_index_id meta) bp;
     Some (\<lparr>index_meta = meta, index_tree = tree, index_table = info, key_schema = schema\<rparr>, bp) }"

text \<open>The ids for the next table and index are not set until the catalog is new or has loaded one.\<close>

record CatalogManager =
  catalog_meta :: CatalogMeta
  next_table_id :: "u32 option"
  next_index_id :: "u32 option"
  table_names :: "(string \<times> u32) list"
  tables :: "(u32 \<times> TableInfo) list"
  index_names :: "(string \<times> (string \<times> u32) list) list"
  indexes :: "(u32 \<times> IndexInfo) list"

section \<open>Model: tables\<close>

text \<open>The last step of every change: the metadata of the catalog is written to its page.\<close>

definition write_catalog :: "CatalogMeta \<Rightarrow> buffer_pool \<Rightarrow> buffer_pool option" where
  "write_catalog meta bp = do {
     (page, bp) \<leftarrow> FetchPage bp CATALOG_META_PAGE_ID;
     d \<leftarrow> load_page bp page;
     d \<leftarrow> CatalogMeta_SerializeTo meta d 0;
     bp \<leftarrow> store_page bp page d;
     (_, bp) \<leftarrow> UnpinPage bp CATALOG_META_PAGE_ID True;
     Some bp }"

definition CreateTable :: "string \<Rightarrow> Schema \<Rightarrow> CatalogManager \<Rightarrow> buffer_pool \<Rightarrow> (dberr_t \<times> TableInfo option \<times> CatalogManager \<times> buffer_pool) option" where
  "CreateTable name schema cm bp =
     (if map_of (table_names cm) name \<noteq> None then Some (DB_TABLE_ALREADY_EXIST, None, cm, bp)
      else do {
        (heap, bp) \<leftarrow> TableHeap_create schema bp;
        (new, bp) \<leftarrow> NewPage bp;
        (pid, _) \<leftarrow> new;
        table_id \<leftarrow> next_table_id cm;
        let meta = \<lparr>tm_table_id = table_id, tm_table_name = name, tm_root_page_id = first_page_id heap, tm_schema = schema\<rparr>;
        let info = \<lparr>table_meta = meta, heap_of = heap\<rparr>;
        (page, bp) \<leftarrow> FetchPage bp pid;
        d \<leftarrow> load_page bp page;
        (_, d) \<leftarrow> TableMetadata_SerializeTo meta d 0;
        bp \<leftarrow> store_page bp page d;
        (_, bp) \<leftarrow> UnpinPage bp pid True;
        (_, bp) \<leftarrow> UnpinPage bp pid True;
        let cmeta = (catalog_meta cm)\<lparr>table_meta_pages := map_emplace table_id pid (table_meta_pages (catalog_meta cm))\<rparr>;
        bp \<leftarrow> write_catalog cmeta bp;
        let cm = cm\<lparr>catalog_meta := cmeta, table_names := hash_emplace name table_id (table_names cm),
          tables := hash_emplace table_id info (tables cm), next_table_id := Some (table_id + 1)\<rparr>;
        Some (DB_SUCCESS, Some info, cm, bp) })"

definition GetTable :: "string \<Rightarrow> CatalogManager \<Rightarrow> dberr_t \<times> TableInfo option" where
  "GetTable name cm = (case map_of (table_names cm) name of
     None \<Rightarrow> (DB_TABLE_NOT_EXIST, None)
   | Some table_id \<Rightarrow> (DB_SUCCESS, map_of (tables cm) table_id))"

definition GetTable_id :: "u32 \<Rightarrow> CatalogManager \<Rightarrow> dberr_t \<times> TableInfo option" where
  "GetTable_id table_id cm = (case map_of (tables cm) table_id of
     None \<Rightarrow> (DB_TABLE_NOT_EXIST, None)
   | Some info \<Rightarrow> (DB_SUCCESS, Some info))"

definition GetTables :: "CatalogManager \<Rightarrow> dberr_t \<times> TableInfo list" where
  "GetTables cm = (if tables cm = [] then (DB_TABLE_NOT_EXIST, []) else (DB_SUCCESS, map snd (tables cm)))"

definition DropTable :: "string \<Rightarrow> CatalogManager \<Rightarrow> buffer_pool \<Rightarrow> (dberr_t \<times> CatalogManager \<times> buffer_pool) option" where
  "DropTable name cm bp = (case map_of (table_names cm) name of
     None \<Rightarrow> Some (DB_TABLE_NOT_EXIST, cm, bp)
   | Some table_id \<Rightarrow> do {
       let info = map_of (tables cm) table_id;
       let cmeta = (catalog_meta cm)\<lparr>table_meta_pages := map_erase table_id (table_meta_pages (catalog_meta cm))\<rparr>;
       let cm = cm\<lparr>tables := map_erase table_id (tables cm), catalog_meta := cmeta, table_names := map_erase name (table_names cm)\<rparr>;
       info \<leftarrow> info;
       (_, bp) \<leftarrow> TableHeap_FreeHeap (heap_of info) bp;
       bp \<leftarrow> write_catalog cmeta bp;
       Some (DB_SUCCESS, cm, bp) })"

section \<open>Model: indexes\<close>

text \<open>The places of the key columns in the table; the result is \<^const>\<open>None\<close> when a column does not exist.  The inner loop over no columns finds nothing and
  reports nothing.\<close>

fun key_positions :: "Schema \<Rightarrow> string list \<Rightarrow> u32 list option" where
  "key_positions columns [] = Some []"
| "key_positions columns (k # ks) = (if columns = [] then key_positions columns ks
     else do { j \<leftarrow> GetColumnIndex columns k; js \<leftarrow> key_positions columns ks; Some (of_nat j # js) })"

definition CreateIndex :: "string \<Rightarrow> string \<Rightarrow> string list \<Rightarrow> CatalogManager \<Rightarrow> buffer_pool \<Rightarrow>
    (dberr_t \<times> IndexInfo option \<times> CatalogManager \<times> buffer_pool) option" where
  "CreateIndex table_name index_name index_keys cm bp = (case map_of (table_names cm) table_name of
     None \<Rightarrow> Some (DB_TABLE_NOT_EXIST, None, cm, bp)
   | Some table_id \<Rightarrow> do {
       info \<leftarrow> map_of (tables cm) table_id;
       (case key_positions (tm_schema (table_meta info)) index_keys of
          None \<Rightarrow> Some (DB_COLUMN_NAME_NOT_EXIST, None, cm, bp)
        | Some key_map \<Rightarrow>
            if (case map_of (index_names cm) table_name of None \<Rightarrow> False | Some names \<Rightarrow> map_of names index_name \<noteq> None)
            then Some (DB_INDEX_ALREADY_EXIST, None, cm, bp)
            else do {
              let names = (case map_of (index_names cm) table_name of None \<Rightarrow> [] | Some names \<Rightarrow> names);
              let all_names = hash_emplace table_name [] (index_names cm);
              iid \<leftarrow> next_index_id cm;
              let meta = \<lparr>im_index_id = iid, im_index_name = index_name, im_table_id = table_id, im_key_map = key_map\<rparr>;
              (index, bp) \<leftarrow> IndexInfo_Init meta info bp;
              (new, bp) \<leftarrow> NewPage bp;
              (pid, page) \<leftarrow> new;
              d \<leftarrow> load_page bp page;
              (_, d) \<leftarrow> IndexMetadata_SerializeTo meta d 0;
              bp \<leftarrow> store_page bp page d;
              let cmeta = (catalog_meta cm)\<lparr>index_meta_pages := map_emplace iid pid (index_meta_pages (catalog_meta cm))\<rparr>;
              bp \<leftarrow> write_catalog cmeta bp;
              (_, bp) \<leftarrow> UnpinPage bp pid True;
              let cm = cm\<lparr>catalog_meta := cmeta, index_names := hash_set table_name (hash_emplace index_name iid names) all_names,
                indexes := hash_emplace iid index (indexes cm), next_index_id := Some (iid + 1)\<rparr>;
              Some (DB_SUCCESS, Some index, cm, bp) }) })"

definition GetIndex :: "string \<Rightarrow> string \<Rightarrow> CatalogManager \<Rightarrow> (dberr_t \<times> IndexInfo option) option" where
  "GetIndex table_name index_name cm = (case map_of (index_names cm) table_name of
     None \<Rightarrow> Some (DB_INDEX_NOT_FOUND, None)
   | Some names \<Rightarrow> (case map_of names index_name of
       None \<Rightarrow> Some (DB_INDEX_NOT_FOUND, None)
     | Some iid \<Rightarrow> do { index \<leftarrow> map_of (indexes cm) iid; Some (DB_SUCCESS, Some index) }))"

fun find_all :: "'k list \<Rightarrow> ('k \<times> 'v) list \<Rightarrow> 'v list option" where
  "find_all [] m = Some []"
| "find_all (k # ks) m = do { v \<leftarrow> map_of m k; vs \<leftarrow> find_all ks m; Some (v # vs) }"

definition GetTableIndexes :: "string \<Rightarrow> CatalogManager \<Rightarrow> (dberr_t \<times> IndexInfo list) option" where
  "GetTableIndexes table_name cm = (case map_of (index_names cm) table_name of
     None \<Rightarrow> Some (DB_INDEX_NOT_FOUND, [])
   | Some names \<Rightarrow> do { ixs \<leftarrow> find_all (map snd names) (indexes cm); Some (DB_SUCCESS, ixs) })"

text \<open>Destroying the tree of an index frees memory only: its pages and its root stay.\<close>

definition DropIndex :: "string \<Rightarrow> string \<Rightarrow> CatalogManager \<Rightarrow> buffer_pool \<Rightarrow> (dberr_t \<times> CatalogManager \<times> buffer_pool) option" where
  "DropIndex table_name index_name cm bp = (case map_of (index_names cm) table_name of
     None \<Rightarrow> Some (DB_INDEX_NOT_FOUND, cm, bp)
   | Some names \<Rightarrow> (case map_of names index_name of
       None \<Rightarrow> Some (DB_INDEX_NOT_FOUND, cm, bp)
     | Some iid \<Rightarrow> do {
         index \<leftarrow> map_of (indexes cm) iid;
         let cmeta = (catalog_meta cm)\<lparr>index_meta_pages := map_erase iid (index_meta_pages (catalog_meta cm))\<rparr>;
         let cm = cm\<lparr>indexes := map_erase iid (indexes cm), catalog_meta := cmeta,
           index_names := hash_set table_name (map_erase index_name names) (index_names cm)\<rparr>;
         bp \<leftarrow> write_catalog cmeta bp;
         Some (DB_SUCCESS, cm, bp) }))"

section \<open>Model: loading\<close>

definition LoadTable :: "u32 \<Rightarrow> page_id_t \<Rightarrow> CatalogManager \<Rightarrow> buffer_pool \<Rightarrow> (CatalogManager \<times> buffer_pool) option" where
  "LoadTable table_id pid cm bp = do {
     (page, bp) \<leftarrow> FetchPage bp pid;
     d \<leftarrow> load_page bp page;
     (_, meta) \<leftarrow> TableMetadata_DeserializeFrom d 0;
     let info = \<lparr>table_meta = meta, heap_of = TableHeap_open (tm_root_page_id meta) (tm_schema meta)\<rparr>;
     let cm = cm\<lparr>table_names := hash_emplace (tm_table_name meta) table_id (table_names cm), tables := hash_emplace table_id info (tables cm)\<rparr>;
     (_, bp) \<leftarrow> UnpinPage bp pid False;
     Some (cm, bp) }"

definition LoadIndex :: "u32 \<Rightarrow> page_id_t \<Rightarrow> CatalogManager \<Rightarrow> buffer_pool \<Rightarrow> (CatalogManager \<times> buffer_pool) option" where
  "LoadIndex iid pid cm bp = do {
     (page, bp) \<leftarrow> FetchPage bp pid;
     d \<leftarrow> load_page bp page;
     (_, meta) \<leftarrow> IndexMetadata_DeserializeFrom d 0;
     info \<leftarrow> map_of (tables cm) (im_table_id meta);
     (index, bp) \<leftarrow> IndexInfo_Init meta info bp;
     let table_name = tm_table_name (table_meta info);
     let all_names = hash_emplace table_name [] (index_names cm);
     names \<leftarrow> map_of all_names table_name;
     let cm = cm\<lparr>index_names := hash_set table_name (hash_emplace (im_index_name meta) iid names) all_names,
       indexes := hash_emplace iid index (indexes cm)\<rparr>;
     (_, bp) \<leftarrow> UnpinPage bp pid False;
     Some (cm, bp) }"

fun load_tables :: "(u32 \<times> page_id_t) list \<Rightarrow> CatalogManager \<Rightarrow> buffer_pool \<Rightarrow> (CatalogManager \<times> buffer_pool) option" where
  "load_tables [] cm bp = Some (cm, bp)"
| "load_tables ((table_id, pid) # m) cm bp = do {
     (cm, bp) \<leftarrow> LoadTable table_id pid cm bp;
     load_tables m (cm\<lparr>next_table_id := Some (table_id + 1)\<rparr>) bp }"

fun load_indexes :: "(u32 \<times> page_id_t) list \<Rightarrow> CatalogManager \<Rightarrow> buffer_pool \<Rightarrow> (CatalogManager \<times> buffer_pool) option" where
  "load_indexes [] cm bp = Some (cm, bp)"
| "load_indexes ((iid, pid) # m) cm bp = do {
     (cm, bp) \<leftarrow> LoadIndex iid pid cm bp;
     load_indexes m (cm\<lparr>next_index_id := Some (iid + 1)\<rparr>) bp }"

definition FlushCatalogMetaPage :: "buffer_pool \<Rightarrow> (dberr_t \<times> buffer_pool) option" where
  "FlushCatalogMetaPage bp = do { (_, bp) \<leftarrow> FlushPage bp CATALOG_META_PAGE_ID; Some (DB_SUCCESS, bp) }"

definition CatalogManager_create :: CatalogManager where
  "CatalogManager_create = \<lparr>catalog_meta = CatalogMeta_new, next_table_id = Some 0, next_index_id = Some 0, table_names = [], tables = [],
     index_names = [], indexes = []\<rparr>"

definition CatalogManager_open :: "buffer_pool \<Rightarrow> (CatalogManager \<times> buffer_pool) option" where
  "CatalogManager_open bp = do {
     (page, bp) \<leftarrow> FetchPage bp CATALOG_META_PAGE_ID;
     d \<leftarrow> load_page bp page;
     meta \<leftarrow> CatalogMeta_DeserializeFrom d 0;
     let cm = \<lparr>catalog_meta = meta, next_table_id = None, next_index_id = None, table_names = [], tables = [], index_names = [], indexes = []\<rparr>;
     (cm, bp) \<leftarrow> load_tables (table_meta_pages meta) cm bp;
     (cm, bp) \<leftarrow> load_indexes (index_meta_pages meta) cm bp;
     (_, bp) \<leftarrow> UnpinPage bp CATALOG_META_PAGE_ID False;
     (_, bp) \<leftarrow> FlushCatalogMetaPage bp;
     Some (cm, bp) }"

section \<open>Model: the storage engine\<close>

record DBStorageEngine =
  bpm :: buffer_pool
  catalog_mgr :: CatalogManager

text \<open>The argument is the content of the file; \<open>init\<close> removes the file first.\<close>

definition DBStorageEngine_new :: "byte list option \<Rightarrow> bool \<Rightarrow> nat \<Rightarrow> DBStorageEngine option" where
  "DBStorageEngine_new file init buffer_pool_size = do {
     dm \<leftarrow> DiskManager_new (if init then None else file);
     let bp = BufferPoolManager_new buffer_pool_size dm;
     if init then do {
       let cm = CatalogManager_create;
       (free0, bp) \<leftarrow> BufferPool_IsPageFree bp CATALOG_META_PAGE_ID;
       if \<not> free0 then None
       else do {
         (free1, bp) \<leftarrow> BufferPool_IsPageFree bp INDEX_ROOTS_PAGE_ID;
         if \<not> free1 then None
         else do {
           (new0, bp) \<leftarrow> NewPage bp;
           if map_option fst new0 \<noteq> Some CATALOG_META_PAGE_ID then None
           else do {
             (new1, bp) \<leftarrow> NewPage bp;
             if map_option fst new1 \<noteq> Some INDEX_ROOTS_PAGE_ID then None
             else do {
               (_, bp) \<leftarrow> UnpinPage bp CATALOG_META_PAGE_ID False;
               (_, bp) \<leftarrow> UnpinPage bp INDEX_ROOTS_PAGE_ID False;
               Some \<lparr>bpm = bp, catalog_mgr = cm\<rparr> } } } } }
     else do {
       (cm, bp) \<leftarrow> CatalogManager_open bp;
       (free0, bp) \<leftarrow> BufferPool_IsPageFree bp CATALOG_META_PAGE_ID;
       if free0 then None
       else do {
         (free1, bp) \<leftarrow> BufferPool_IsPageFree bp INDEX_ROOTS_PAGE_ID;
         if free1 then None else Some \<lparr>bpm = bp, catalog_mgr = cm\<rparr> } } }"

text \<open>The destructor: the pages that are in the pool are written to the file, in the order of the hash table, which is an argument.\<close>

definition DBStorageEngine_delete :: "page_id_t list \<Rightarrow> DBStorageEngine \<Rightarrow> byte list option" where
  "DBStorageEngine_delete pids engine = do { bp \<leftarrow> flush_all (bpm engine) pids; Some (db_file (DiskManager_Close (disk_mgr bp))) }"

end
