(* ===== verification/Syntax_Tree.thy ===== *)
theory Syntax_Tree
  imports MiniSQL_Prelude
begin

text \<open>The abstract syntax trees of the SQL front end: \<open>parser/syntax_tree.c\<close>, the parser globals of
  \<open>parser/parser.c\<close> and the tree printer \<open>parser/syntax_tree_printer.cpp\<close>.

  Nodes live in an explicit store: a pointer is an index into the list of allocated nodes,
  \<^const>\<open>None\<close> is \<open>NULL\<close>, and a freed cell is \<^const>\<open>None\<close> in the store.  An access through a null,
  dangling or freed pointer, and a walk along a cyclic sibling list (which the code would never
  leave), has the result \<^const>\<open>None\<close>.  The second half relates the store to trees: \<open>forest\<close>
  describes the sibling list that starts at a pointer together with the cells it occupies, and
  the operations are shown to be the list operations on it.\<close>

section \<open>Data\<close>

datatype SyntaxNodeType =
    kNodeUnknown | kNodeQuit | kNodeExecFile | kNodeIdentifier | kNodeNumber | kNodeString | kNodeNull
  | kNodeCreateDB | kNodeDropDB | kNodeShowDB | kNodeUseDB | kNodeShowTables | kNodeCreateTable
  | kNodeDropTable | kNodeShowIndexes | kNodeInsert | kNodeDelete | kNodeUpdate | kNodeSelect
  | kNodeConditions | kNodeConnector | kNodeCompareOperator | kNodeColumnType | kNodeColumnDefinition
  | kNodeColumnDefinitionList | kNodeColumnList | kNodeColumnValues | kNodeUpdateValues
  | kNodeUpdateValue | kNodeAllColumns | kNodeCreateIndex | kNodeDropIndex | kNodeIndexType
  | kNodeTrxBegin | kNodeTrxCommit | kNodeTrxRollback

type_synonym pSyntaxNode = "nat option"

record SyntaxNode =
  node_id :: int
  node_type :: SyntaxNodeType
  line_no :: int
  col_no :: int
  node_child :: pSyntaxNode
  node_next :: pSyntaxNode
  node_val :: "string option"

text \<open>An error message is a pointer: to a string literal, or to the automatic array of a scanner
  rule, which is gone when the rule has ended.\<close>

datatype message = Literal string | ExpiredLocal string

record parser_globals =
  node_store :: "SyntaxNode option list"
  syntax_node_list :: "nat list"
  root_node :: pSyntaxNode
  parser_line_no :: int
  parser_column_no :: int
  parser_error :: int
  error_message :: "message option"
  debug_node_count :: int

section \<open>Operations of \<open>syntax_tree.c\<close>\<close>

definition read_node :: "parser_globals \<Rightarrow> nat \<Rightarrow> SyntaxNode option" where
  "read_node g a = (if a < length (node_store g) then node_store g ! a else None)"

definition write_node :: "parser_globals \<Rightarrow> nat \<Rightarrow> SyntaxNode \<Rightarrow> parser_globals" where
  "write_node g a n = g\<lparr>node_store := (node_store g)[a := Some n]\<rparr>"

text \<open>The characters of a C string up to its terminating null character.\<close>

definition c_string :: "string \<Rightarrow> string" where
  "c_string s = takeWhile (\<lambda>c. c \<noteq> CHR 0x00) s"

text \<open>The deep copy of the attribute value.  The copy of a string literal drops the first and the last
  character; with fewer than two characters the length computation wraps and the code is
  undefined.\<close>

definition copy_val :: "SyntaxNodeType \<Rightarrow> string option \<Rightarrow> string option option" where
  "copy_val ty v =
     (case v of
        None \<Rightarrow> Some None
      | Some s \<Rightarrow>
          if ty = kNodeString then
            if length s < 2 then None else Some (Some (take (length s - 2) (drop 1 s)))
          else Some (Some s))"

text \<open>The code uses the memory it asks for without looking whether it got any; the three allocations of a new
  node (the node, the copy of its value and the list cell) are taken to succeed.\<close>

definition CreateSyntaxNode :: "SyntaxNodeType \<Rightarrow> string option \<Rightarrow> parser_globals \<Rightarrow> (nat \<times> parser_globals) option" where
  "CreateSyntaxNode ty v g =
     (case copy_val ty v of
        None \<Rightarrow> None
      | Some v' \<Rightarrow>
          let a = length (node_store g);
              n = \<lparr>node_id = debug_node_count g, node_type = ty, line_no = parser_line_no g,
                   col_no = parser_column_no g, node_child = None, node_next = None, node_val = v'\<rparr>
          in Some (a, g\<lparr>node_store := node_store g @ [Some n], syntax_node_list := a # syntax_node_list g,
                       debug_node_count := debug_node_count g + 1\<rparr>))"

definition FreeSyntaxNode :: "pSyntaxNode \<Rightarrow> parser_globals \<Rightarrow> parser_globals option" where
  "FreeSyntaxNode p g =
     (case p of
        None \<Rightarrow> Some g
      | Some a \<Rightarrow> (case read_node g a of
          None \<Rightarrow> None
        | Some n \<Rightarrow> Some (g\<lparr>node_store := (node_store g)[a := None]\<rparr>)))"

fun free_nodes :: "nat list \<Rightarrow> parser_globals \<Rightarrow> parser_globals option" where
  "free_nodes [] g = Some g"
| "free_nodes (a # as) g =
     (case FreeSyntaxNode (Some a) g of None \<Rightarrow> None | Some g' \<Rightarrow> free_nodes as g')"

definition DestroySyntaxTree :: "parser_globals \<Rightarrow> parser_globals option" where
  "DestroySyntaxTree g =
     map_option (\<lambda>g'. g'\<lparr>syntax_node_list := []\<rparr>) (free_nodes (syntax_node_list g) g)"

text \<open>The loop that follows \<open>next_\<close> to the last sibling.  A list without a cycle has at most as many
  nodes as the store, so running out of fuel means that the loop does not end.\<close>

fun last_sibling :: "nat \<Rightarrow> parser_globals \<Rightarrow> nat \<Rightarrow> nat option" where
  "last_sibling 0 g a = None"
| "last_sibling (Suc k) g a =
     (case read_node g a of
        None \<Rightarrow> None
      | Some n \<Rightarrow> (case node_next n of None \<Rightarrow> Some a | Some b \<Rightarrow> last_sibling k g b))"

definition link_after :: "parser_globals \<Rightarrow> nat \<Rightarrow> pSyntaxNode \<Rightarrow> parser_globals option" where
  "link_after g a q =
     (case last_sibling (length (node_store g)) g a of
        None \<Rightarrow> None
      | Some b \<Rightarrow> (case read_node g b of
          None \<Rightarrow> None
        | Some n \<Rightarrow> Some (write_node g b (n\<lparr>node_next := q\<rparr>))))"

definition SyntaxNodeAddChildren :: "pSyntaxNode \<Rightarrow> pSyntaxNode \<Rightarrow> parser_globals \<Rightarrow> parser_globals option" where
  "SyntaxNodeAddChildren parent c g =
     (case parent of
        None \<Rightarrow> None
      | Some a \<Rightarrow> (case read_node g a of
          None \<Rightarrow> None
        | Some n \<Rightarrow> (case node_child n of
            None \<Rightarrow> Some (write_node g a (n\<lparr>node_child := c\<rparr>))
          | Some b \<Rightarrow> link_after g b c)))"

definition SyntaxNodeAddSibling :: "pSyntaxNode \<Rightarrow> pSyntaxNode \<Rightarrow> parser_globals \<Rightarrow> parser_globals option" where
  "SyntaxNodeAddSibling node sib g =
     (case node of
        None \<Rightarrow> Some g
      | Some a \<Rightarrow> (case sib of
          None \<Rightarrow> Some g
        | Some s \<Rightarrow> link_after g a sib))"

definition GetSyntaxNodeTypeStr :: "SyntaxNodeType \<Rightarrow> string" where
  "GetSyntaxNodeTypeStr ty =
     (case ty of
        kNodeUnknown \<Rightarrow> ''kNodeUnknown'' | kNodeQuit \<Rightarrow> ''kNodeQuit'' | kNodeExecFile \<Rightarrow> ''kNodeExecFile''
      | kNodeIdentifier \<Rightarrow> ''kNodeIdentifier'' | kNodeNumber \<Rightarrow> ''kNodeNumber'' | kNodeString \<Rightarrow> ''kNodeString''
      | kNodeNull \<Rightarrow> ''kNodeNull'' | kNodeCreateDB \<Rightarrow> ''kNodeCreateDB'' | kNodeDropDB \<Rightarrow> ''kNodeDropDB''
      | kNodeShowDB \<Rightarrow> ''kNodeShowDB'' | kNodeUseDB \<Rightarrow> ''kNodeUseDB'' | kNodeShowTables \<Rightarrow> ''kNodeShowTables''
      | kNodeCreateTable \<Rightarrow> ''kNodeCreateTable'' | kNodeDropTable \<Rightarrow> ''kNodeDropTable''
      | kNodeShowIndexes \<Rightarrow> ''kNodeShowIndexes'' | kNodeInsert \<Rightarrow> ''kNodeInsert'' | kNodeDelete \<Rightarrow> ''kNodeDelete''
      | kNodeUpdate \<Rightarrow> ''kNodeUpdate'' | kNodeSelect \<Rightarrow> ''kNodeSelect'' | kNodeConditions \<Rightarrow> ''kNodeConditions''
      | kNodeConnector \<Rightarrow> ''kNodeConnector'' | kNodeCompareOperator \<Rightarrow> ''kNodeCompareOperator''
      | kNodeColumnType \<Rightarrow> ''kNodeColumnType'' | kNodeColumnDefinition \<Rightarrow> ''kNodeColumnDefinition''
      | kNodeColumnDefinitionList \<Rightarrow> ''kNodeColumnDefinitionList'' | kNodeColumnList \<Rightarrow> ''kNodeColumnList''
      | kNodeColumnValues \<Rightarrow> ''kNodeColumnValues'' | kNodeUpdateValues \<Rightarrow> ''kNodeUpdateValues''
      | kNodeUpdateValue \<Rightarrow> ''kNodeUpdateValue'' | kNodeAllColumns \<Rightarrow> ''kNodeAllColumns''
      | kNodeCreateIndex \<Rightarrow> ''kNodeCreateIndex'' | kNodeDropIndex \<Rightarrow> ''kNodeDropIndex''
      | kNodeTrxBegin \<Rightarrow> ''kNodeTrxBegin'' | kNodeTrxCommit \<Rightarrow> ''kNodeTrxCommit''
      | kNodeTrxRollback \<Rightarrow> ''kNodeTrxRollback''
      | _ \<Rightarrow> ''error type'')"

section \<open>Operations of \<open>parser.c\<close>\<close>

definition parser_globals_init :: parser_globals where
  "parser_globals_init =
     \<lparr>node_store = [], syntax_node_list = [], root_node = None, parser_line_no = 0, parser_column_no = 0,
      parser_error = 0, error_message = None, debug_node_count = 0\<rparr>"

definition move_char :: "char \<Rightarrow> parser_globals \<Rightarrow> parser_globals" where
  "move_char ch g =
     (if ch = CHR 0x0A then g\<lparr>parser_column_no := 0, parser_line_no := parser_line_no g + 1\<rparr>
      else if ch = CHR 0x09 then g\<lparr>parser_column_no := parser_column_no g + (4 - parser_column_no g mod 4)\<rparr>
      else g\<lparr>parser_column_no := parser_column_no g + 1\<rparr>)"

definition MinisqlParserMovePos :: "string \<Rightarrow> parser_globals \<Rightarrow> parser_globals" where
  "MinisqlParserMovePos t g = fold move_char t g"

definition MinisqlParserSetRoot :: "pSyntaxNode \<Rightarrow> parser_globals \<Rightarrow> parser_globals" where
  "MinisqlParserSetRoot p g = g\<lparr>root_node := p\<rparr>"

definition MinisqlParserSetError :: "message \<Rightarrow> parser_globals \<Rightarrow> parser_globals" where
  "MinisqlParserSetError msg g =
     (if parser_error g \<noteq> 0 then g else g\<lparr>parser_error := 1, error_message := Some msg\<rparr>)"

definition MinisqlGetParserRootNode :: "parser_globals \<Rightarrow> pSyntaxNode" where
  "MinisqlGetParserRootNode g = root_node g"

definition MinisqlParserInit :: "parser_globals \<Rightarrow> parser_globals" where
  "MinisqlParserInit g =
     g\<lparr>root_node := None, parser_line_no := 1, parser_column_no := 0, parser_error := 0,
       error_message := None, debug_node_count := 0\<rparr>"

definition MinisqlParserFinish :: "parser_globals \<Rightarrow> parser_globals option" where
  "MinisqlParserFinish g = DestroySyntaxTree g"

definition MinisqlParserGetError :: "parser_globals \<Rightarrow> int" where
  "MinisqlParserGetError g = parser_error g"

definition MinisqlParserGetErrorMessage :: "parser_globals \<Rightarrow> message option" where
  "MinisqlParserGetErrorMessage g = error_message g"

section \<open>Trees and the forest predicate\<close>

datatype tree = Tree SyntaxNodeType "string option" "tree list"

text \<open>\<open>forest g p ts A\<close>: the sibling list that starts at \<open>p\<close> represents the trees \<open>ts\<close> and occupies
  exactly the cells \<open>A\<close>, no cell twice.\<close>

inductive forest :: "parser_globals \<Rightarrow> pSyntaxNode \<Rightarrow> tree list \<Rightarrow> nat set \<Rightarrow> bool" where
  forest_Nil: "forest g None [] {}"
| forest_Cons: "read_node g a = Some n \<Longrightarrow> forest g (node_child n) cs B \<Longrightarrow> forest g (node_next n) ts C \<Longrightarrow>
    a \<notin> B \<Longrightarrow> a \<notin> C \<Longrightarrow> B \<inter> C = {} \<Longrightarrow>
    forest g (Some a) (Tree (node_type n) (node_val n) cs # ts) (insert a (B \<union> C))"

inductive_cases forest_NoneE: "forest g None ts A"
inductive_cases forest_SomeE: "forest g (Some a) ts A"

lemma read_write_node:
  assumes "read_node g a = Some n"
  shows "read_node (write_node g a n') b = (if b = a then Some n' else read_node g b)"
  using assms by (auto simp: read_node_def write_node_def split: if_splits)

lemma forest_None [simp]: "forest g None ts A \<longleftrightarrow> ts = [] \<and> A = {}"
  by (auto elim: forest_NoneE intro: forest_Nil)

lemma forest_cells: "forest g p ts A \<Longrightarrow> a \<in> A \<Longrightarrow> read_node g a \<noteq> None"
  by (induction rule: forest.induct) auto

lemma forest_bound: "forest g p ts A \<Longrightarrow> A \<subseteq> {..<length (node_store g)}"
  using forest_cells by (fastforce simp: read_node_def split: if_splits)

lemma forest_finite: "forest g p ts A \<Longrightarrow> finite A"
  by (induction rule: forest.induct) auto

text \<open>Frame rule: a forest only depends on its own cells.\<close>

lemma forest_frame:
  assumes "forest g p ts A" and "\<And>a. a \<in> A \<Longrightarrow> read_node g' a = read_node g a"
  shows "forest g' p ts A"
  using assms
proof (induction rule: forest.induct)
  case (forest_Cons g a n cs B ts C)
  then show ?case by (intro forest.forest_Cons) auto
qed simp

lemma forest_nonempty: "forest g (Some a) ts A \<Longrightarrow> ts \<noteq> [] \<and> a \<in> A"
  by (auto elim: forest_SomeE)

text \<open>What an operation that only relinks cells leaves alone.\<close>

definition relinks :: "parser_globals \<Rightarrow> nat set \<Rightarrow> parser_globals \<Rightarrow> bool" where
  "relinks g A g' \<longleftrightarrow> g' = g\<lparr>node_store := node_store g'\<rparr> \<and> length (node_store g') = length (node_store g) \<and>
     (\<forall>c. c \<notin> A \<longrightarrow> read_node g' c = read_node g c) \<and> (\<forall>c. read_node g' c = None \<longleftrightarrow> read_node g c = None)"

lemma relinksD:
  assumes "relinks g A g'"
  shows "g' = g\<lparr>node_store := node_store g'\<rparr>" "length (node_store g') = length (node_store g)"
    "\<And>c. c \<notin> A \<Longrightarrow> read_node g' c = read_node g c" "\<And>c. read_node g' c = None \<longleftrightarrow> read_node g c = None"
  using assms unfolding relinks_def by simp_all

lemma relinks_refl [simp]: "relinks g A g"
  unfolding relinks_def by simp

lemma relinks_mono: "relinks g A g' \<Longrightarrow> A \<subseteq> B \<Longrightarrow> relinks g B g'"
  unfolding relinks_def by (elim conjE, intro conjI) (assumption | blast)+

lemma relinks_trans:
  assumes "relinks g A g'" and "relinks g' B g''"
  shows "relinks g (A \<union> B) g''"
proof -
  note d = relinksD[OF assms(1)] relinksD[OF assms(2)]
  have "g'' = g\<lparr>node_store := node_store g''\<rparr>"
    by (subst d(5), subst d(1)) simp
  moreover have "length (node_store g'') = length (node_store g)" using d(2,6) by simp
  moreover have "read_node g'' c = read_node g c" if "c \<notin> A \<union> B" for c using d(3,7)[of c] that by simp
  moreover have "read_node g'' c = None \<longleftrightarrow> read_node g c = None" for c using d(4,8)[of c] by simp
  ultimately show ?thesis unfolding relinks_def by (intro conjI allI impI)
qed

lemma relinks_write:
  assumes "read_node g a = Some n"
  shows "relinks g {a} (write_node g a n')"
  unfolding relinks_def using read_write_node[OF assms, of n'] assms
  by (auto simp: write_node_def)

lemma relinks_fields:
  assumes "relinks g A g'"
  shows "syntax_node_list g' = syntax_node_list g" "root_node g' = root_node g"
    "parser_line_no g' = parser_line_no g" "parser_column_no g' = parser_column_no g"
    "parser_error g' = parser_error g" "error_message g' = error_message g"
    "debug_node_count g' = debug_node_count g" "length (node_store g') = length (node_store g)"
  using arg_cong[OF relinksD(1)[OF assms], of syntax_node_list] arg_cong[OF relinksD(1)[OF assms], of root_node]
    arg_cong[OF relinksD(1)[OF assms], of parser_line_no] arg_cong[OF relinksD(1)[OF assms], of parser_column_no]
    arg_cong[OF relinksD(1)[OF assms], of parser_error] arg_cong[OF relinksD(1)[OF assms], of error_message]
    arg_cong[OF relinksD(1)[OF assms], of debug_node_count] relinksD(2)[OF assms]
  by simp_all

lemma forest_relinks: "forest g p ts A \<Longrightarrow> relinks g B g' \<Longrightarrow> A \<inter> B = {} \<Longrightarrow> forest g' p ts A"
  by (rule forest_frame) (use relinksD(3)[of g B g'] in blast)+

lemma forest_length: "forest g p ts A \<Longrightarrow> length ts \<le> card A"
proof (induction rule: forest.induct)
  case (forest_Cons g a n cs B ts C)
  then have "finite B" "finite C" using forest_finite by blast+
  then have "card C \<le> card (B \<union> C)" by (intro card_mono) auto
  with forest_Cons \<open>finite B\<close> \<open>finite C\<close> show ?case by simp
qed simp

lemma forest_fuel: "forest g p ts A \<Longrightarrow> length ts \<le> length (node_store g)"
  using forest_length[of g p ts A] card_mono[OF _ forest_bound[of g p ts A]] by simp

text \<open>The walk to the last sibling, and what linking a second forest behind it gives.\<close>

lemma last_sibling_forest:
  assumes "forest g (Some a) ts A" and "length ts \<le> k"
  obtains b n where "last_sibling k g a = Some b" "read_node g b = Some n" "node_next n = None" "b \<in> A"
    "\<And>q us B. forest g q us B \<Longrightarrow> A \<inter> B = {} \<Longrightarrow>
       forest (write_node g b (n\<lparr>node_next := q\<rparr>)) (Some a) (ts @ us) (A \<union> B)"
  using assms
proof (induction k arbitrary: a ts A thesis)
  case 0
  then show ?case using forest_nonempty by fastforce
next
  case (Suc k)
  from Suc.prems(2) obtain n cs B ts' C where f: "read_node g a = Some n" "forest g (node_child n) cs B"
    "forest g (node_next n) ts' C" "a \<notin> B" "a \<notin> C" "B \<inter> C = {}"
    "ts = Tree (node_type n) (node_val n) cs # ts'" "A = insert a (B \<union> C)"
    by (auto elim: forest_SomeE)
  show ?case
  proof (cases "node_next n")
    case None
    with f have C: "ts' = []" "C = {}" by simp_all
    show ?thesis
    proof (rule Suc.prems(1)[of a n])
      fix q us B' assume q: "forest g q us B'" "A \<inter> B' = {}"
      let ?g = "write_node g a (n\<lparr>node_next := q\<rparr>)"
      have "forest ?g q us B'" "forest ?g (node_child n) cs B"
        using q f(2,4,8) by (auto intro!: forest_frame[where g = g] simp: read_write_node[OF f(1)])
      then show "forest ?g (Some a) (ts @ us) (A \<union> B')"
        using forest_Cons[of ?g a "n\<lparr>node_next := q\<rparr>" cs B us B'] q f(4,7,8) C
        by (auto simp: read_write_node[OF f(1)])
    qed (use f None in auto)
  next
    case (Some a')
    with f(3) have "forest g (Some a') ts' C" by simp
    moreover have "length ts' \<le> k" using Suc.prems(3) f(7) by simp
    ultimately obtain b n' where b: "last_sibling k g a' = Some b" "read_node g b = Some n'" "node_next n' = None"
      "b \<in> C" "\<And>q us B. forest g q us B \<Longrightarrow> C \<inter> B = {} \<Longrightarrow>
         forest (write_node g b (n'\<lparr>node_next := q\<rparr>)) (Some a') (ts' @ us) (C \<union> B)"
      using Suc.IH by blast
    show ?thesis
    proof (rule Suc.prems(1)[of b n'])
      fix q us B' assume q: "forest g q us B'" "A \<inter> B' = {}"
      let ?g = "write_node g b (n'\<lparr>node_next := q\<rparr>)"
      have r: "read_node ?g a = Some n" using f(1,5) b(4) by (auto simp: read_write_node[OF b(2)])
      have "forest ?g (node_next n) (ts' @ us) (C \<union> B')" using b(5)[OF q(1)] q(2) f(8) Some by auto
      moreover have "forest ?g (node_child n) cs B"
        using f(2,6) b(4) by (auto intro!: forest_frame[where g = g] simp: read_write_node[OF b(2)])
      ultimately have "forest ?g (Some a) (Tree (node_type n) (node_val n) cs # (ts' @ us)) (insert a (B \<union> (C \<union> B')))"
        using r f(4-6,8) q(2) by (intro forest_Cons) auto
      then show "forest ?g (Some a) (ts @ us) (A \<union> B')" using f(7,8) by (simp add: Un_assoc)
    qed (use f b Some in auto)
  qed
qed

lemma link_after_forest:
  assumes "forest g (Some a) ts A" and "forest g q us B" and "A \<inter> B = {}"
  shows "\<exists>g'. link_after g a q = Some g' \<and> forest g' (Some a) (ts @ us) (A \<union> B) \<and> relinks g A g'"
proof -
  obtain b n where b: "last_sibling (length (node_store g)) g a = Some b" "read_node g b = Some n"
    "b \<in> A" "forest (write_node g b (n\<lparr>node_next := q\<rparr>)) (Some a) (ts @ us) (A \<union> B)"
    using last_sibling_forest[OF assms(1) forest_fuel[OF assms(1)]] assms(2,3) by metis
  moreover have "relinks g A (write_node g b (n\<lparr>node_next := q\<rparr>))"
    by (rule relinks_mono[OF relinks_write[OF b(2)]]) (simp add: b(3))
  ultimately show ?thesis by (simp add: link_after_def)
qed

lemma CreateSyntaxNode_forest:
  assumes "copy_val ty v = Some v'"
  shows "\<exists>g'. CreateSyntaxNode ty v g = Some (length (node_store g), g') \<and>
    forest g' (Some (length (node_store g))) [Tree ty v' []] {length (node_store g)} \<and>
    (\<forall>b < length (node_store g). read_node g' b = read_node g b) \<and>
    length (node_store g') = Suc (length (node_store g)) \<and> root_node g' = root_node g \<and>
    parser_error g' = parser_error g \<and> error_message g' = error_message g"
proof -
  let ?a = "length (node_store g)"
  define g' where "g' = snd (the (CreateSyntaxNode ty v g))"
  have c: "CreateSyntaxNode ty v g = Some (?a, g')" using assms by (simp add: CreateSyntaxNode_def g'_def Let_def)
  obtain n where n: "read_node g' ?a = Some n" "node_type n = ty" "node_val n = v'" "node_child n = None" "node_next n = None"
    using assms by (simp add: CreateSyntaxNode_def g'_def Let_def read_node_def)
  have "forest g' (Some ?a) [Tree ty v' []] {?a}"
    using forest_Cons[OF n(1), of "[]" "{}" "[]" "{}"] n by simp
  moreover have "\<forall>b < ?a. read_node g' b = read_node g b" "length (node_store g') = Suc ?a" "root_node g' = root_node g"
    "parser_error g' = parser_error g" "error_message g' = error_message g"
    using assms by (simp_all add: CreateSyntaxNode_def g'_def Let_def read_node_def nth_append)
  ultimately show ?thesis using c by blast
qed

lemma AddChildren_forest:
  assumes "forest g (Some a) (Tree ty v cs # ts) A" and "forest g q us B" and "A \<inter> B = {}"
  shows "\<exists>g'. SyntaxNodeAddChildren (Some a) q g = Some g' \<and>
    forest g' (Some a) (Tree ty v (cs @ us) # ts) (A \<union> B) \<and> relinks g A g'"
proof -
  from assms(1) obtain n C D where f: "read_node g a = Some n" "forest g (node_child n) cs C"
    "forest g (node_next n) ts D" "a \<notin> C" "a \<notin> D" "C \<inter> D = {}" "ty = node_type n" "v = node_val n" "A = insert a (C \<union> D)"
    by (auto elim: forest_SomeE)
  show ?thesis
  proof (cases "node_child n")
    case None
    with f(2) have C: "cs = []" "C = {}" by simp_all
    let ?g = "write_node g a (n\<lparr>node_child := q\<rparr>)"
    have "forest ?g q us B" "forest ?g (node_next n) ts D"
      using assms(2,3) f(3,5,9) by (auto intro!: forest_frame[where g = g] simp: read_write_node[OF f(1)])
    then have "forest ?g (Some a) (Tree ty v us # ts) (insert a (B \<union> D))"
      using forest_Cons[of ?g a "n\<lparr>node_child := q\<rparr>" us B ts D] f assms(3) C by (auto simp: read_write_node[OF f(1)])
    moreover have "relinks g A ?g" by (rule relinks_mono[OF relinks_write[OF f(1)]]) (simp add: f(9))
    moreover have "insert a (B \<union> D) = A \<union> B" using f(9) C by auto
    ultimately show ?thesis using None f(1) C by (simp add: SyntaxNodeAddChildren_def)
  next
    case (Some b)
    with f(2) have "forest g (Some b) cs C" by simp
    moreover have "C \<inter> B = {}" using f(9) assms(3) by auto
    ultimately obtain g' where g': "link_after g b q = Some g'" "forest g' (Some b) (cs @ us) (C \<union> B)" "relinks g C g'"
      using link_after_forest assms(2) by blast
    then have r: "read_node g' a = Some n" using f(1,4) by (simp add: relinks_def)
    have "forest g' (node_next n) ts D" using forest_relinks[OF f(3) g'(3)] f(6) by auto
    then have "forest g' (Some a) (Tree ty v (cs @ us) # ts) (insert a ((C \<union> B) \<union> D))"
      unfolding f(7,8) using g'(2) Some f(4-6,9) assms(3) by (intro forest_Cons[OF r]) auto
    moreover have "insert a ((C \<union> B) \<union> D) = A \<union> B" using f(9) by auto
    moreover have "relinks g A g'" using g'(3) f(9) by (auto intro: relinks_mono)
    ultimately show ?thesis using Some f(1) g'(1) by (simp add: SyntaxNodeAddChildren_def)
  qed
qed

lemma AddSibling_forest:
  assumes "forest g (Some a) ts A" and "forest g q us B" and "A \<inter> B = {}"
  shows "\<exists>g'. SyntaxNodeAddSibling (Some a) q g = Some g' \<and> forest g' (Some a) (ts @ us) (A \<union> B) \<and> relinks g A g'"
proof (cases q)
  case None
  then show ?thesis using assms by (simp add: SyntaxNodeAddSibling_def)
next
  case (Some b)
  then show ?thesis using link_after_forest[OF assms] by (simp add: SyntaxNodeAddSibling_def)
qed

section \<open>Every allocated node is on the node list\<close>

definition nodes_tracked :: "parser_globals \<Rightarrow> bool" where
  "nodes_tracked g \<longleftrightarrow> distinct (syntax_node_list g) \<and> set (syntax_node_list g) = {a. read_node g a \<noteq> None}"

lemma read_node_beyond: "length (node_store g) \<le> a \<Longrightarrow> read_node g a = None"
  by (simp add: read_node_def)

lemma CreateSyntaxNode_tracked:
  assumes "nodes_tracked g" and "CreateSyntaxNode ty v g = Some (a, g')"
  shows "nodes_tracked g'"
proof -
  let ?l = "length (node_store g)"
  from assms(2) have g': "syntax_node_list g' = ?l # syntax_node_list g" "\<exists>n. node_store g' = node_store g @ [Some n]"
    by (auto simp: CreateSyntaxNode_def Let_def split: option.splits)
  then have "{b. read_node g' b \<noteq> None} = insert ?l {b. read_node g b \<noteq> None}"
    by (auto simp: read_node_def nth_append less_Suc_eq split: if_splits)
  moreover have "?l \<notin> {b. read_node g b \<noteq> None}" by (simp add: read_node_beyond)
  ultimately show ?thesis using assms(1) g'(1) by (auto simp: nodes_tracked_def)
qed

lemma relinks_tracked:
  assumes "nodes_tracked g" and "relinks g A g'"
  shows "nodes_tracked g'"
proof -
  have "{a. read_node g' a \<noteq> None} = {a. read_node g a \<noteq> None}" using relinksD(4)[OF assms(2)] by simp
  then show ?thesis using assms(1) relinks_fields(1)[OF assms(2)] by (simp add: nodes_tracked_def)
qed

lemma last_sibling_read: "last_sibling k g a = Some b \<Longrightarrow> \<exists>n. read_node g b = Some n"
  by (induction k g a rule: last_sibling.induct) (auto split: option.splits)

lemma link_after_relinks: "link_after g a q = Some g' \<Longrightarrow> relinks g UNIV g'"
  by (auto simp: link_after_def split: option.splits intro: relinks_mono[OF relinks_write])

lemma AddChildren_relinks: "SyntaxNodeAddChildren p q g = Some g' \<Longrightarrow> relinks g UNIV g'"
  by (auto simp: SyntaxNodeAddChildren_def split: option.splits
      intro: link_after_relinks relinks_mono[OF relinks_write])

lemma AddSibling_relinks: "SyntaxNodeAddSibling p q g = Some g' \<Longrightarrow> relinks g UNIV g'"
  by (auto simp: SyntaxNodeAddSibling_def split: option.splits intro: link_after_relinks)

lemma free_nodes_ok:
  assumes "distinct as" and "\<And>a. a \<in> set as \<Longrightarrow> read_node g a \<noteq> None"
  shows "\<exists>g'. free_nodes as g = Some g' \<and> (\<forall>a. read_node g' a = (if a \<in> set as then None else read_node g a))"
  using assms
proof (induction as arbitrary: g)
  case (Cons a as)
  from Cons.prems(2)[of a] obtain n where n: "read_node g a = Some n" by auto
  let ?g = "g\<lparr>node_store := (node_store g)[a := None]\<rparr>"
  have r: "read_node ?g b = (if b = a then None else read_node g b)" for b by (simp add: read_node_def)
  have "read_node ?g b \<noteq> None" if "b \<in> set as" for b
    using Cons.prems that by (auto simp: r)
  with Cons.IH[of ?g] Cons.prems(1) obtain g' where
    "free_nodes as ?g = Some g'" "\<forall>b. read_node g' b = (if b \<in> set as then None else read_node ?g b)" by auto
  then show ?case using n by (auto simp: FreeSyntaxNode_def r)
qed simp

text \<open>Freeing the node list frees every node once, and no node is left.\<close>

lemma DestroySyntaxTree_frees:
  assumes "nodes_tracked g"
  shows "\<exists>g'. DestroySyntaxTree g = Some g' \<and> syntax_node_list g' = [] \<and> (\<forall>a. read_node g' a = None)"
proof -
  obtain g' where g': "free_nodes (syntax_node_list g) g = Some g'"
    "\<forall>a. read_node g' a = (if a \<in> set (syntax_node_list g) then None else read_node g a)"
    using free_nodes_ok[of "syntax_node_list g" g] assms unfolding nodes_tracked_def by auto
  then have "read_node g' a = None" for a using assms by (auto simp: nodes_tracked_def)
  then have "read_node (g'\<lparr>syntax_node_list := []\<rparr>) a = None" for a
    unfolding read_node_def by (metis parser_globals.select_convs(1) parser_globals.update_convs(2) parser_globals.surjective)
  then show ?thesis using g'(1) by (simp add: DestroySyntaxTree_def)
qed

end
