(* ===== verification/Number_Text.thy ===== *)
theory Number_Text
  imports Records
begin

text \<open>The conversions between numbers and text that the executor uses: \<open>atoi\<close>, \<open>std::stoi\<close>, \<open>atof\<close> with the conversion of its result to \<open>float\<close>,
  \<open>std::to_string\<close>, and \<open>Type::GetData\<close> (\<^verbatim>\<open>record/types.cpp\<close>), which prints a field.  A \<open>float\<close> is its bit pattern.  A decimal number is read the way the C library
  does: the exact value is rounded to the nearest \<open>double\<close>, and this one to the nearest \<open>float\<close>, both with ties to even.\<close>

section \<open>Model: reading\<close>

definition white_space :: "char \<Rightarrow> bool" where
  "white_space c = (of_char c = (32 :: nat) \<or> (9 \<le> (of_char c :: nat) \<and> of_char c \<le> (13 :: nat)))"

definition digit_of :: "char \<Rightarrow> nat option" where
  "digit_of c = (let k = of_char c :: nat in
     if 48 \<le> k \<and> k \<le> 57 then Some (k - 48) else if 97 \<le> k \<and> k \<le> 122 then Some (k - 87)
     else if 65 \<le> k \<and> k \<le> 90 then Some (k - 55) else None)"

text \<open>The digits at the front: the value they add to, how many there are, and the rest.\<close>

fun read_digits :: "nat \<Rightarrow> nat \<Rightarrow> nat \<Rightarrow> string \<Rightarrow> nat \<times> nat \<times> string" where
  "read_digits base v n [] = (v, n, [])"
| "read_digits base v n (c # cs) = (case digit_of c of
     Some d \<Rightarrow> if d < base then read_digits base (base * v + d) (Suc n) cs else (v, n, c # cs)
   | None \<Rightarrow> (v, n, c # cs))"

definition read_sign :: "string \<Rightarrow> bool \<times> string" where
  "read_sign s = (case s of c # cs \<Rightarrow> if c = CHR ''-'' then (True, cs) else if c = CHR ''+'' then (False, cs) else (False, s) | [] \<Rightarrow> (False, []))"

text \<open>The result is \<^const>\<open>None\<close> when there is no digit.\<close>

definition read_integer :: "string \<Rightarrow> int option" where
  "read_integer s = (let (neg, s) = read_sign (dropWhile white_space s); (v, n, _) = read_digits 10 0 0 s
     in if n = 0 then None else Some (if neg then - int v else int v))"

text \<open>The result of \<open>atoi\<close> is undefined when the number does not fit.\<close>

definition atoi :: "string \<Rightarrow> int option" where
  "atoi s = (case read_integer s of None \<Rightarrow> Some 0 | Some v \<Rightarrow> if int32_range v then Some v else None)"

text \<open>\<open>std::stoi\<close> throws an exception in both cases, here \<^const>\<open>None\<close>.\<close>

definition stoi :: "string \<Rightarrow> int option" where
  "stoi s = (case read_integer s of None \<Rightarrow> None | Some v \<Rightarrow> if int32_range v then Some v else None)"

text \<open>The quotient rounded to the nearest integer, ties to even.\<close>

definition round_quot :: "nat \<Rightarrow> nat \<Rightarrow> nat" where
  "round_quot n d = (let q = n div d; r = n mod d in if d < 2 * r \<or> (2 * r = d \<and> odd q) then q + 1 else q)"

fun bit_length :: "nat \<Rightarrow> nat" where
  "bit_length n = (if n = 0 then 0 else Suc (bit_length (n div 2)))"

declare bit_length.simps [simp del]

text \<open>\<open>n * 2 ^ e / d\<close> as a quotient.\<close>

definition scale :: "nat \<times> nat \<Rightarrow> nat \<Rightarrow> int \<Rightarrow> nat \<times> nat" where
  "scale q b e = (if 0 \<le> e then (fst q * b ^ nat e, snd q) else (fst q, snd q * b ^ nat (- e)))"

text \<open>The exponent \<open>e\<close> with \<open>2 ^ e \<le> n / d < 2 ^ (e + 1)\<close>.\<close>

definition binary_exponent :: "nat \<times> nat \<Rightarrow> int" where
  "binary_exponent q = (let e = int (bit_length (fst q)) - int (bit_length (snd q)); (n, d) = scale q 2 (- e) in if n < d then e - 1 else e)"

text \<open>A positive quotient rounded to a binary floating point number of \<open>p\<close> bits whose last bit is worth at least \<open>2 ^ least\<close>: the result is the pair of \<open>m\<close> and
  \<open>k\<close> that stands for \<open>m * 2 ^ k\<close>.\<close>

definition round_binary :: "nat \<Rightarrow> int \<Rightarrow> nat \<times> nat \<Rightarrow> nat \<times> int" where
  "round_binary p least q = (let k = max least (binary_exponent q - int p + 1); (n, d) = scale q 2 (- k) in (round_quot n d, k))"

definition float_of_ratio :: "nat \<times> nat \<Rightarrow> u32" where
  "float_of_ratio q = (if fst q = 0 then 0
     else let (m, k) = round_binary 53 (-1074) q in
       if m = 0 then 0 else let (m, k) = round_binary 24 (-149) (scale (m, 1) 2 k) in of_nat (min (m + nat (k + 149) * 2 ^ 23) 0x7F800000))"

definition to_lower :: "char \<Rightarrow> char" where
  "to_lower c = (if 65 \<le> (of_char c :: nat) \<and> of_char c \<le> (90 :: nat) then char_of (of_char c + 32 :: nat) else c)"

text \<open>The digits with a point: their value without the point, how many there are in front of and behind it.\<close>

definition read_mantissa :: "nat \<Rightarrow> string \<Rightarrow> nat \<times> nat \<times> nat \<times> string" where
  "read_mantissa base s = (let (v, n, s) = read_digits base 0 0 s in
     case s of c # cs \<Rightarrow> if c = CHR ''.'' then let (v, m, s) = read_digits base v 0 cs in (v, n, m, s) else (v, n, 0, s) | [] \<Rightarrow> (v, n, 0, []))"

definition read_exponent :: "char \<Rightarrow> string \<Rightarrow> int" where
  "read_exponent e s = (case s of c # cs \<Rightarrow> if to_lower c = e then let (neg, cs) = read_sign cs; (v, n, _) = read_digits 10 0 0 cs in
     if neg then - int v else int v else 0 | [] \<Rightarrow> 0)"

definition read_hex :: "string \<Rightarrow> nat \<times> nat \<times> nat \<times> string" where
  "read_hex s = (case s of a # b # cs \<Rightarrow> if a = CHR ''0'' \<and> to_lower b = CHR ''x'' then read_mantissa 16 cs else (0, 0, 0, []) | _ \<Rightarrow> (0, 0, 0, []))"

definition read_float :: "string \<Rightarrow> u32" where
  "read_float s = (let (v, n, m, r) = read_hex s in
     if map to_lower (take 3 s) = ''inf'' then 0x7F800000
     else if map to_lower (take 3 s) = ''nan'' then 0x7FC00000
     else if 0 < n + m then float_of_ratio (scale (v, 1) 2 (read_exponent (CHR ''p'') r - 4 * int m))
     else let (v, n, m, r) = read_mantissa 10 s in
       if n + m = 0 then 0 else float_of_ratio (scale (v, 1) 10 (read_exponent (CHR ''e'') r - int m)))"

definition atof :: "string \<Rightarrow> u32" where
  "atof s = (let (neg, s) = read_sign (dropWhile white_space s) in if neg then 0x80000000 OR read_float s else read_float s)"

section \<open>Model: printing\<close>

fun digits :: "nat \<Rightarrow> string" where
  "digits n = (if n < 10 then [char_of (48 + n)] else digits (n div 10) @ [char_of (48 + n mod 10)])"

declare digits.simps [simp del]

definition to_string_int :: "int \<Rightarrow> string" where
  "to_string_int i = (if i < 0 then CHR ''-'' # digits (nat (- i)) else digits (nat i))"

text \<open>\<open>std::to_string\<close> prints six decimals of the exact value, rounded with ties to even.\<close>

definition to_string_float :: "u32 \<Rightarrow> string" where
  "to_string_float w = (let e = unat (drop_bit 23 w AND 0xFF); f = unat (w AND 0x7FFFFF);
       (n, d) = scale (if e = 0 then f else f + 2 ^ 23, 1) 2 (int (max e 1) - 150);
       v = round_quot (n * 10 ^ 6) d; r = digits (v mod 10 ^ 6);
       t = (if e = 255 then if f = 0 then ''inf'' else ''nan'' else digits (v div 10 ^ 6) @ ''.'' @ replicate (6 - length r) (CHR ''0'') @ r)
     in if bit w 31 then CHR ''-'' # t else t)"

text \<open>\<open>Type::GetData\<close> writes to a static array and returns a pointer to it; the array is an argument and a result.\<close>

definition Type_GetData :: "Field \<Rightarrow> byte list \<Rightarrow> byte list option" where
  "Type_GetData f static_buf = (case ftype f of
     kTypeInt \<Rightarrow> (case value_of f of VInt i \<Rightarrow> strcpy static_buf (bytes_of (to_string_int i) @ [0]) | _ \<Rightarrow> None)
   | kTypeFloat \<Rightarrow> (case value_of f of VFloat w \<Rightarrow> strcpy static_buf (bytes_of (to_string_float w) @ [0]) | _ \<Rightarrow> None)
   | kTypeChar \<Rightarrow> GetData_char f static_buf
   | kTypeInvalid \<Rightarrow> None)"

text \<open>The string that a C++ string makes of the pointer.\<close>

definition data_string :: "byte list \<Rightarrow> string" where
  "data_string buf = string_of (takeWhile (\<lambda>b. b \<noteq> 0) buf)"

end
