(* ===== verification/Executor.thy ===== *)
theory Executor
  imports Catalog Syntax_Tree Number_Text
begin

text \<open>The execution engine (\<^verbatim>\<open>executor/execute_engine.cpp\<close>, \<^verbatim>\<open>include/executor/execute_engine.h\<close>): it interprets the syntax tree of a command on the database in use.

  A pointer \<open>pSyntaxNode\<close> is the list of the node it points to and of the siblings behind it; the null pointer is the empty list.  The state of the engine is its open
  databases, the files, the static array of \<open>Type::GetData\<close>, and the tables that it has printed.  Texts that are written to the terminal but are not tables, the pages in
  which a long table is shown there, and the time are not modelled.  The result of every operation is \<^const>\<open>None\<close> where the code dereferences a null pointer or an
  iterator at its end, uses a variable that was never set, throws an exception that nobody catches, divides by zero, or does not return.\<close>

section \<open>Model: state\<close>

record ExecuteContext =
  flag_quit :: bool
  ctx_table_name :: string
  internal_result_rid :: "RowId list"
  select_columns :: "Column list"
  rows_num :: nat
  ctx_index_name :: string

definition ExecuteContext_new :: ExecuteContext where
  "ExecuteContext_new = \<lparr>flag_quit = False, ctx_table_name = [], internal_result_rid = [], select_columns = [], rows_num = 0, ctx_index_name = []\<rparr>"

record ExecuteEngine =
  dbs :: "(string \<times> DBStorageEngine) list"
  current_db :: string
  files :: "string \<Rightarrow> byte list option"
  static_buf :: "byte list"
  printed :: "(string list \<times> string list list) list"

definition LIST_FILE :: string where
  "LIST_FILE = ''list.dblist''"

definition MAX_FILE_NAME_LENGTH :: nat where
  "MAX_FILE_NAME_LENGTH = 1000"

definition DEFAULT_BUFFER_POOL_SIZE :: nat where
  "DEFAULT_BUFFER_POOL_SIZE = 1024"

type_synonym executed = "(dberr_t \<times> ExecuteContext \<times> ExecuteEngine) option"

text \<open>The database in use; \<open>dbs_[current_db_]\<close> of a name that is not open is the null pointer.\<close>

definition open_db :: "ExecuteEngine \<Rightarrow> DBStorageEngine option" where
  "open_db e = map_of (dbs e) (current_db e)"

definition set_db :: "DBStorageEngine \<Rightarrow> ExecuteEngine \<Rightarrow> ExecuteEngine" where
  "set_db db e = e\<lparr>dbs := hash_set (current_db e) db (dbs e)\<rparr>"

section \<open>Model: nodes\<close>

definition ast_type :: "tree list \<Rightarrow> SyntaxNodeType option" where
  "ast_type ast = (case ast of Tree ty v cs # ns \<Rightarrow> Some ty | [] \<Rightarrow> None)"

definition ast_child :: "tree list \<Rightarrow> tree list option" where
  "ast_child ast = (case ast of Tree ty v cs # ns \<Rightarrow> Some cs | [] \<Rightarrow> None)"

definition ast_next :: "tree list \<Rightarrow> tree list option" where
  "ast_next ast = (case ast of n # ns \<Rightarrow> Some ns | [] \<Rightarrow> None)"

text \<open>The value as a C++ string, which must not be made from a null pointer.\<close>

definition ast_val :: "tree list \<Rightarrow> string option" where
  "ast_val ast = (case ast of Tree ty v cs # ns \<Rightarrow> map_option c_string v | [] \<Rightarrow> None)"

section \<open>Model: printing a table\<close>

definition column_width :: "string \<Rightarrow> string list \<Rightarrow> nat" where
  "column_width header cells = fold max (map length cells) (length header)"

definition rule_text :: "nat list \<Rightarrow> string" where
  "rule_text ws = concat (map (\<lambda>w. CHR ''+'' # replicate (w + 2) (CHR ''-'')) ws) @ [CHR ''+'', CHR 0x0A]"

definition cells_text :: "nat list \<Rightarrow> string list \<Rightarrow> string" where
  "cells_text ws cells = concat (map (\<lambda>(w, s). ''| '' @ s @ replicate (w - length s) (CHR '' '') @ '' '') (zip ws cells)) @ [CHR ''|'', CHR 0x0A]"

text \<open>The content of the file; the arguments are the titles of the columns and the columns.\<close>

definition PrintTable :: "string list \<Rightarrow> string list list \<Rightarrow> string option" where
  "PrintTable header cols = (case cols of
     [] \<Rightarrow> None
   | c # _ \<Rightarrow> if length cols < length header \<or> (\<exists>i < length header. length (cols ! i) < length c) then None
       else let ws = map (\<lambda>(h, cells). column_width h (take (length c) cells)) (zip header cols) in
         Some (rule_text ws @ cells_text ws header @ rule_text ws @
           concat (map (\<lambda>j. cells_text ws (map (\<lambda>i. cols ! i ! j) [0..<length header])) [0..<length c]) @ rule_text ws))"

definition print_table :: "string list \<Rightarrow> string list list \<Rightarrow> ExecuteEngine \<Rightarrow> ExecuteEngine option" where
  "print_table header cols e = do {
     text \<leftarrow> PrintTable header cols;
     Some (e\<lparr>files := (files e)(''result.txt'' \<mapsto> bytes_of text), printed := printed e @ [(header, cols)]\<rparr>) }"

section \<open>Model: starting and ending\<close>

function split_lines :: "string \<Rightarrow> string list" where
  "split_lines s = (case dropWhile (\<lambda>c. c \<noteq> CHR 0x0A) s of
     [] \<Rightarrow> [s] | _ # r \<Rightarrow> takeWhile (\<lambda>c. c \<noteq> CHR 0x0A) s # split_lines r)"
  by pat_completeness auto

termination
proof (relation "measure length")
  fix s r and a :: char assume "dropWhile (\<lambda>c. c \<noteq> CHR 0x0A) s = a # r"
  then have "length (a # r) \<le> length s" by (metis length_dropWhile_le)
  then show "(r, s) \<in> measure length" by simp
qed simp

declare split_lines.simps [simp del]

text \<open>A name must leave room for the suffix in the array for the path.\<close>

definition db_path :: "string \<Rightarrow> string option" where
  "db_path name = (if length name + 4 \<le> MAX_FILE_NAME_LENGTH then Some (name @ ''.db'') else None)"

fun open_dbs :: "string list \<Rightarrow> ExecuteEngine \<Rightarrow> ExecuteEngine option" where
  "open_dbs [] e = Some e"
| "open_dbs (line # ls) e = (let name = c_string line in
     if name = [] then Some e
     else do {
       path \<leftarrow> db_path name;
       db \<leftarrow> DBStorageEngine_new (files e path) False DEFAULT_BUFFER_POOL_SIZE;
       open_dbs ls (e\<lparr>dbs := hash_emplace name db (dbs e)\<rparr>) })"

definition ExecuteEngine_new :: "(string \<Rightarrow> byte list option) \<Rightarrow> ExecuteEngine option" where
  "ExecuteEngine_new fs =
     (let e = \<lparr>dbs = [], current_db = [], files = fs, static_buf = replicate 128 0, printed = []\<rparr> in
      case fs LIST_FILE of None \<Rightarrow> Some e | Some text \<Rightarrow> open_dbs (split_lines (string_of text)) e)"

text \<open>The destructor; the argument is the order in which the destructor of each buffer pool goes through its pages.\<close>

fun close_dbs :: "(string \<Rightarrow> page_id_t list) \<Rightarrow> (string \<times> DBStorageEngine) list \<Rightarrow> (string \<Rightarrow> byte list option) \<Rightarrow> (string \<Rightarrow> byte list option) option" where
  "close_dbs order [] fs = Some fs"
| "close_dbs order ((name, db) # r) fs = do {
     text \<leftarrow> DBStorageEngine_delete (order name) db;
     close_dbs order r (fs(name @ ''.db'' \<mapsto> text)) }"

definition ExecuteEngine_delete :: "(string \<Rightarrow> page_id_t list) \<Rightarrow> ExecuteEngine \<Rightarrow> (string \<Rightarrow> byte list option) option" where
  "ExecuteEngine_delete order e = do {
     fs \<leftarrow> close_dbs order (dbs e) (files e);
     Some (fs(LIST_FILE \<mapsto> bytes_of (concat (map (\<lambda>(name, _). name @ [CHR 0x0A]) (dbs e))))) }"

section \<open>Model: databases\<close>

definition ExecuteCreateDatabase :: "tree list \<Rightarrow> ExecuteContext \<Rightarrow> ExecuteEngine \<Rightarrow> executed" where
  "ExecuteCreateDatabase ast ctx e = do {
     child \<leftarrow> ast_child ast;
     name \<leftarrow> ast_val child;
     if map_of (dbs e) name \<noteq> None then Some (DB_FAILED, ctx, e)
     else do {
       path \<leftarrow> db_path name;
       db \<leftarrow> DBStorageEngine_new (files e path) True DEFAULT_BUFFER_POOL_SIZE;
       Some (DB_SUCCESS, ctx, e\<lparr>dbs := hash_emplace name db (dbs e)\<rparr>) } }"

definition ExecuteDropDatabase :: "tree list \<Rightarrow> ExecuteContext \<Rightarrow> ExecuteEngine \<Rightarrow> executed" where
  "ExecuteDropDatabase ast ctx e = do {
     child \<leftarrow> ast_child ast;
     name \<leftarrow> ast_val child;
     Some (DB_SUCCESS, ctx, e\<lparr>dbs := map_erase name (dbs e)\<rparr>) }"

definition ExecuteShowDatabases :: "ExecuteContext \<Rightarrow> ExecuteEngine \<Rightarrow> executed" where
  "ExecuteShowDatabases ctx e =
     (if dbs e = [] then Some (DB_FAILED, ctx, e)
      else Some (DB_SUCCESS, ctx\<lparr>rows_num := rows_num ctx + length (dbs e)\<rparr>, e\<lparr>printed := printed e @ [([''Database''], [map fst (dbs e)])]\<rparr>))"

definition ExecuteUseDatabase :: "tree list \<Rightarrow> ExecuteContext \<Rightarrow> ExecuteEngine \<Rightarrow> executed" where
  "ExecuteUseDatabase ast ctx e = do {
     child \<leftarrow> ast_child ast;
     name \<leftarrow> ast_val child;
     if map_of (dbs e) name \<noteq> None then Some (DB_SUCCESS, ctx, e\<lparr>current_db := name\<rparr>) else Some (DB_FAILED, ctx, e) }"

section \<open>Model: tables\<close>

definition table_name_of :: "TableInfo \<Rightarrow> string" where
  "table_name_of info = tm_table_name (table_meta info)"

definition table_schema :: "TableInfo \<Rightarrow> Schema" where
  "table_schema info = tm_schema (table_meta info)"

definition ExecuteShowTables :: "ExecuteContext \<Rightarrow> ExecuteEngine \<Rightarrow> executed" where
  "ExecuteShowTables ctx e =
     (if current_db e = [] then Some (DB_FAILED, ctx, e)
      else do {
        db \<leftarrow> open_db e;
        let (res, infos) = GetTables (catalog_mgr db);
        if res = DB_TABLE_NOT_EXIST then Some (DB_FAILED, ctx, e)
        else Some (DB_SUCCESS, ctx\<lparr>rows_num := rows_num ctx + length infos\<rparr>,
          e\<lparr>printed := printed e @ [([''Tables_in_'' @ current_db e], [map table_name_of infos])]\<rparr>) })"

text \<open>The key columns of a column list; the inner result is \<^const>\<open>None\<close> when an exception is thrown for a column that does not exist.\<close>

fun key_columns :: "string \<Rightarrow> Column list \<Rightarrow> tree list \<Rightarrow> string list option option" where
  "key_columns kind cols [] = Some (Some [])"
| "key_columns kind cols (Tree ty v cs # ns) = do {
     name \<leftarrow> map_option c_string v;
     if name \<in> name_of ` set cols then do { ks \<leftarrow> key_columns kind cols ns; Some (map_option ((#) name) ks) }
     else if kind = ''primary keys'' \<or> kind = ''index keys'' \<or> kind = ''select columns'' then Some None
     else key_columns kind cols ns }"

text \<open>The column that a definition adds, and its name when it is unique.\<close>

definition column_definition :: "tree \<Rightarrow> nat \<Rightarrow> (Column list \<times> string list) option option" where
  "column_definition d ind = (case d of Tree ty v cs \<Rightarrow> do {
     let uni = (map_option c_string v = Some ''unique'');
     name \<leftarrow> ast_val cs;
     type_node \<leftarrow> ast_next cs;
     kind \<leftarrow> ast_val type_node;
     let uniques = (if uni then [name] else []);
     if kind = ''int'' then do { c \<leftarrow> Column_new name kTypeInt (of_nat ind) False uni; Some (Some ([c], uniques)) }
     else if kind = ''float'' then do { c \<leftarrow> Column_new name kTypeFloat (of_nat ind) False uni; Some (Some ([c], uniques)) }
     else if kind = ''char'' then do {
       len_node \<leftarrow> ast_child type_node;
       len_str \<leftarrow> ast_val len_node;
       (case stoi len_str of
          None \<Rightarrow> Some None
        | Some len \<Rightarrow>
            if len > 4000 \<or> len < 0 \<or> CHR ''.'' \<in> set len_str then Some None
            else if len = 0 \<and> uni then Some None
            else do { c \<leftarrow> Column_new_char name kTypeChar (nat len) (of_nat ind) True uni; Some (Some ([c], uniques)) }) }
     else Some (Some ([], uniques)) })"

fun create_columns :: "tree list \<Rightarrow> Column list \<Rightarrow> string list \<Rightarrow> string list \<Rightarrow> (Column list \<times> string list \<times> string list) option option" where
  "create_columns [] cols keys uniques = Some (Some (cols, keys, uniques))"
| "create_columns (Tree ty v cs # ns) cols keys uniques =
     (if ty = kNodeColumnList then do {
        kind \<leftarrow> map_option c_string v;
        ks \<leftarrow> key_columns kind cols cs;
        (case ks of None \<Rightarrow> Some None | Some ks \<Rightarrow> create_columns ns cols (keys @ ks) uniques) }
      else if ty = kNodeColumnDefinition then do {
        d \<leftarrow> column_definition (Tree ty v cs) (length cols);
        (case d of None \<Rightarrow> Some None | Some (c, u) \<Rightarrow> create_columns ns (cols @ c) keys (uniques @ u)) }
      else create_columns ns cols keys uniques)"

text \<open>One index for every unique column; when it cannot be created an exception leaves the program.\<close>

fun unique_indexes :: "string \<Rightarrow> string list \<Rightarrow> CatalogManager \<Rightarrow> buffer_pool \<Rightarrow> (CatalogManager \<times> buffer_pool) option" where
  "unique_indexes table [] cm bp = Some (cm, bp)"
| "unique_indexes table (c # cs) cm bp = do {
     (res, _, cm, bp) \<leftarrow> CreateIndex table (table @ ''_'' @ c) [c] cm bp;
     if res = DB_SUCCESS then unique_indexes table cs cm bp else None }"

definition ExecuteCreateTable :: "tree list \<Rightarrow> ExecuteContext \<Rightarrow> ExecuteEngine \<Rightarrow> executed" where
  "ExecuteCreateTable ast ctx e =
     (if current_db e = [] then Some (DB_FAILED, ctx, e)
      else do {
        child \<leftarrow> ast_child ast;
        name \<leftarrow> ast_val child;
        let ctx = ctx\<lparr>ctx_table_name := name\<rparr>;
        defs \<leftarrow> ast_next child;
        defs \<leftarrow> ast_child defs;
        r \<leftarrow> create_columns defs [] [] [];
        (case r of
           None \<Rightarrow> Some (DB_FAILED, ctx, e)
         | Some (columns, index_keys, uniques) \<Rightarrow> do {
             db \<leftarrow> open_db e;
             (res, _, cm, bp) \<leftarrow> CreateTable name columns (catalog_mgr db) (bpm db);
             if res = DB_SUCCESS then do {
               (cm, bp) \<leftarrow> (if index_keys = [] then Some (cm, bp)
                 else do { (_, _, cm, bp) \<leftarrow> CreateIndex name (name @ ''.PRIMARY'') index_keys cm bp; Some (cm, bp) });
               (cm, bp) \<leftarrow> unique_indexes name uniques cm bp;
               Some (DB_SUCCESS, ctx, set_db \<lparr>bpm = bp, catalog_mgr = cm\<rparr> e) }
             else Some (DB_FAILED, ctx, set_db \<lparr>bpm = bp, catalog_mgr = cm\<rparr> e) }) })"

definition ExecuteDropTable :: "tree list \<Rightarrow> ExecuteContext \<Rightarrow> ExecuteEngine \<Rightarrow> executed" where
  "ExecuteDropTable ast ctx e =
     (if current_db e = [] then Some (DB_FAILED, ctx, e)
      else do {
        child \<leftarrow> ast_child ast;
        name \<leftarrow> ast_val child;
        db \<leftarrow> open_db e;
        (res, cm, bp) \<leftarrow> DropTable name (catalog_mgr db) (bpm db);
        let e = set_db \<lparr>bpm = bp, catalog_mgr = cm\<rparr> e;
        if res = DB_SUCCESS then Some (DB_SUCCESS, ctx\<lparr>rows_num := rows_num ctx + 1\<rparr>, e) else Some (DB_FAILED, ctx, e) })"

section \<open>Model: conditions\<close>

text \<open>A \<open>std::set\<close> of row ids is the list of its elements in their order.\<close>

definition rid_less :: "RowId \<Rightarrow> RowId \<Rightarrow> bool" where
  "rid_less a b = (rid_page a < rid_page b \<or> (rid_page a = rid_page b \<and> rid_slot a < rid_slot b))"

fun set_insert :: "RowId \<Rightarrow> RowId list \<Rightarrow> RowId list" where
  "set_insert r [] = [r]"
| "set_insert r (x # xs) = (if rid_less r x then r # x # xs else if rid_less x r then x # set_insert r xs else x # xs)"

text \<open>The virtual functions \<open>CompareEquals\<close>, \<open>CompareLessThan\<close>, ...\<close>

definition Field_Compare :: "cmp_op \<Rightarrow> Field \<Rightarrow> Field \<Rightarrow> byte list \<Rightarrow> (CmpBool \<times> byte list) option" where
  "Field_Compare op l r buf = (case ftype l of
     kTypeInt \<Rightarrow> map_option (\<lambda>b. (b, buf)) (TypeInt_Compare op l r)
   | kTypeFloat \<Rightarrow> map_option (\<lambda>b. (b, buf)) (TypeFloat_Compare op l r)
   | kTypeChar \<Rightarrow> TypeChar_Compare op l r buf
   | kTypeInvalid \<Rightarrow> None)"

definition field_at :: "Row \<Rightarrow> nat \<Rightarrow> Field option" where
  "field_at row i = (if i < length (row_fields row) then Some (row_fields row ! i) else None)"

text \<open>The loop of a scan over the heap that collects the rows for which a test holds.  The test works on the static array.\<close>

partial_function (option) heap_filter :: "table_heap \<Rightarrow> (Row \<Rightarrow> byte list \<Rightarrow> (bool \<times> byte list) option) \<Rightarrow> iterator \<Rightarrow> Row list \<Rightarrow> RowId list \<Rightarrow> byte list \<Rightarrow> buffer_pool \<Rightarrow>
    (RowId list \<times> byte list \<times> buffer_pool) option" where
  "heap_filter h test it rows found buf bp = (let (last, rows) = TableHeap_End rows in
     if iterator_eq it last rows then Some (found, buf, bp)
     else do {
       (holds, buf) \<leftarrow> test (rows ! it) buf;
       let found = (if holds then set_insert (row_id (rows ! it)) found else found);
       (_, rows, bp) \<leftarrow> TableIterator_post_inc h it rows bp;
       heap_filter h test it rows found buf bp })"

text \<open>An operator is a comparison whose result is used as it is or negated; a result counts as true unless it is \<open>kFalse\<close>.\<close>

definition comparison :: "string \<Rightarrow> (cmp_op \<times> bool) option" where
  "comparison operation = (if operation = ''='' then Some (CEq, True) else if operation = ''<'' then Some (CLt, True) else if operation = ''<='' then Some (CLe, True)
     else if operation = ''>'' then Some (CGt, True) else if operation = ''>='' then Some (CGe, True) else if operation = ''<>'' then Some (CEq, False) else None)"

definition field_test :: "cmp_op \<Rightarrow> bool \<Rightarrow> nat \<Rightarrow> Field \<Rightarrow> Row \<Rightarrow> byte list \<Rightarrow> (bool \<times> byte list) option" where
  "field_test op positive i val row buf = do {
     f \<leftarrow> field_at row i;
     (b, buf) \<leftarrow> Field_Compare op f val buf;
     Some ((b \<noteq> kFalse) = positive, buf) }"

definition null_test :: "bool \<Rightarrow> nat \<Rightarrow> Row \<Rightarrow> byte list \<Rightarrow> (bool \<times> byte list) option" where
  "null_test positive i row buf = do { f \<leftarrow> field_at row i; Some (is_null f = positive, buf) }"

text \<open>The value as a field of the type of the column; the string of a character field is not copied.\<close>

definition condition_field :: "TypeId \<Rightarrow> string \<Rightarrow> int \<Rightarrow> Field option" where
  "condition_field t val i = (case t of
     kTypeInt \<Rightarrow> Some (Field_int i)
   | kTypeFloat \<Rightarrow> Some (Field_float (atof val))
   | kTypeChar \<Rightarrow> Field_char (Some (bytes_of val @ [0])) (of_nat (length val)) False
   | kTypeInvalid \<Rightarrow> None)"

text \<open>The comparison on the rows of the heap.\<close>

definition compare_heap :: "tree list \<Rightarrow> string \<Rightarrow> TypeId \<Rightarrow> nat \<Rightarrow> Field option \<Rightarrow> table_heap \<Rightarrow> byte list \<Rightarrow> buffer_pool \<Rightarrow> (dberr_t \<times> RowId list \<times> byte list \<times> buffer_pool) option" where
  "compare_heap ast operation type_id i val h buf bp = do {
     (it, rows, bp) \<leftarrow> TableHeap_Begin h [] bp;
     ty \<leftarrow> ast_type ast;
     (case comparison operation of
        Some (op, positive) \<Rightarrow>
          if type_id = kTypeInvalid then Some (DB_FAILED, [], buf, bp)
          else do { f \<leftarrow> val; (found, buf, bp) \<leftarrow> heap_filter h (field_test op positive i f) it rows [] buf bp; Some (DB_SUCCESS, found, buf, bp) }
      | None \<Rightarrow>
          if operation = ''is'' \<or> operation = ''not'' then
            if ty = kNodeNull then do { (found, buf, bp) \<leftarrow> heap_filter h (null_test (operation = ''is'') i) it rows [] buf bp; Some (DB_SUCCESS, found, buf, bp) }
            else Some (DB_FAILED, [], buf, bp)
          else Some (DB_SUCCESS, [], buf, bp)) }"

text \<open>The loop over the entries of an index.\<close>

partial_function (option) index_filter :: "BPlusTree \<Rightarrow> (key \<times> RowId \<Rightarrow> byte list \<Rightarrow> (bool \<times> byte list) option) \<Rightarrow> IndexIterator \<Rightarrow> RowId list \<Rightarrow> byte list \<Rightarrow> buffer_pool \<Rightarrow>
    (RowId list \<times> byte list \<times> buffer_pool) option" where
  "index_filter t test it found buf bp = do {
     (last, bp) \<leftarrow> BPlusTree_End INDEX_KEY_SIZE t bp;
     if IndexIterator_eq it last then Some (found, buf, bp)
     else do {
       entry \<leftarrow> IndexIterator_deref INDEX_KEY_SIZE it bp;
       (holds, buf) \<leftarrow> test entry buf;
       let found = (if holds then set_insert (snd entry) found else found);
       (it, bp) \<leftarrow> IndexIterator_next INDEX_KEY_SIZE it bp;
       index_filter t test it found buf bp } }"

definition key_test :: "cmp_op \<Rightarrow> Field \<Rightarrow> Schema \<Rightarrow> key \<times> RowId \<Rightarrow> byte list \<Rightarrow> (bool \<times> byte list) option" where
  "key_test op val schema entry buf = do {
     row \<leftarrow> DeserializeToKey INDEX_KEY_SIZE (fst entry) \<lparr>row_id = INVALID_ROWID, row_fields = []\<rparr> schema;
     field_test op True 0 val row buf }"

text \<open>The comparison on an index.  The first row id that is found must exist.\<close>

definition compare_index :: "string \<Rightarrow> IndexInfo \<Rightarrow> key \<Rightarrow> byte list \<Rightarrow> buffer_pool \<Rightarrow> (dberr_t \<times> RowId list \<times> byte list \<times> buffer_pool) option" where
  "compare_index operation ix index_key buf bp = (let t = index_tree ix in
     case comparison operation of
       None \<Rightarrow> Some (DB_FAILED, [], buf, bp)
     | Some (CEq, positive) \<Rightarrow> do {
         (has_equal, rids, bp) \<leftarrow> GetValue INDEX_KEY_SIZE t index_key [] bp;
         if positive then
           if has_equal then (case rids of [] \<Rightarrow> None | rid # _ \<Rightarrow> Some (DB_SUCCESS, [rid], buf, bp)) else Some (DB_SUCCESS, [], buf, bp)
         else do {
           (it, bp) \<leftarrow> BPlusTree_Begin INDEX_KEY_SIZE t bp;
           (found, buf, bp) \<leftarrow> index_filter t (\<lambda>(_, rid) buf. if has_equal then (case rids of [] \<Rightarrow> None | r # _ \<Rightarrow> Some (rid \<noteq> r, buf)) else Some (True, buf)) it [] buf bp;
           Some (DB_SUCCESS, found, buf, bp) } }
     | Some (op, _) \<Rightarrow> do {
         target \<leftarrow> DeserializeToKey INDEX_KEY_SIZE index_key \<lparr>row_id = INVALID_ROWID, row_fields = []\<rparr> (key_schema ix);
         val \<leftarrow> field_at target 0;
         (it, bp) \<leftarrow> BPlusTree_Begin INDEX_KEY_SIZE t bp;
         (found, buf, bp) \<leftarrow> index_filter t (key_test op val (key_schema ix)) it [] buf bp;
         Some (DB_SUCCESS, found, buf, bp) })"

text \<open>An index is used when its only key column is the object that describes this column: the table and the position of the column are the same.\<close>

definition index_on :: "TableInfo \<Rightarrow> nat \<Rightarrow> IndexInfo \<Rightarrow> bool" where
  "index_on info i ix = (tm_table_id (table_meta (index_table ix)) = tm_table_id (table_meta info) \<and> map unat (im_key_map (index_meta ix)) = [i])"

definition ExecuteCompareOperator :: "tree list \<Rightarrow> ExecuteContext \<Rightarrow> ExecuteEngine \<Rightarrow> executed" where
  "ExecuteCompareOperator ast ctx e = do {
     let ctx = ctx\<lparr>internal_result_rid := []\<rparr>;
     operation \<leftarrow> ast_val ast;
     child \<leftarrow> ast_child ast;
     attribute_name \<leftarrow> ast_val child;
     val_node \<leftarrow> ast_next child;
     val \<leftarrow> ast_val val_node;
     db \<leftarrow> open_db e;
     (case GetTable (ctx_table_name ctx) (catalog_mgr db) of
        (DB_SUCCESS, info) \<Rightarrow> do {
          info \<leftarrow> info;
          (case GetColumnIndex (table_schema info) attribute_name of
             None \<Rightarrow> Some (DB_COLUMN_NAME_NOT_EXIST, ctx, e)
           | Some field_index \<Rightarrow> do {
               let type_id = ctype (table_schema info ! field_index);
               i \<leftarrow> atoi val;
               let field = condition_field type_id val i;
               (_, ixs) \<leftarrow> GetTableIndexes (ctx_table_name ctx) (catalog_mgr db);
               (res, found, buf, bp) \<leftarrow> (case find (index_on info field_index) ixs of
                  None \<Rightarrow> compare_heap ast operation type_id field_index field (heap_of info) (static_buf e) (bpm db)
                | Some ix \<Rightarrow> do {
                    index_key \<leftarrow> SerializeFromKey INDEX_KEY_SIZE \<lparr>row_id = INVALID_ROWID, row_fields = (case field of None \<Rightarrow> [] | Some f \<Rightarrow> [f])\<rparr> (key_schema ix);
                    compare_index operation ix index_key (static_buf e) (bpm db) });
               Some (res, ctx\<lparr>internal_result_rid := found\<rparr>, (set_db (db\<lparr>bpm := bp\<rparr>) e)\<lparr>static_buf := buf\<rparr>) }) }
      | _ \<Rightarrow> Some (DB_TABLE_NOT_EXIST, ctx, e)) }"

definition ExecuteAllColumn :: "ExecuteContext \<Rightarrow> ExecuteEngine \<Rightarrow> executed" where
  "ExecuteAllColumn ctx e = do {
     db \<leftarrow> open_db e;
     info \<leftarrow> snd (GetTable (ctx_table_name ctx) (catalog_mgr db));
     Some (DB_SUCCESS, ctx\<lparr>select_columns := table_schema info\<rparr>, e) }"

fun column_list_loop :: "tree list \<Rightarrow> Schema \<Rightarrow> Column list \<Rightarrow> (dberr_t \<times> Column list) option" where
  "column_list_loop [] schema cols = Some (DB_SUCCESS, cols)"
| "column_list_loop (Tree ty v cs # ns) schema cols = do {
     col_name \<leftarrow> map_option c_string v;
     (case GetColumnIndex schema col_name of
        None \<Rightarrow> Some (DB_COLUMN_NAME_NOT_EXIST, cols)
      | Some col_id \<Rightarrow> column_list_loop ns schema (cols @ [schema ! col_id])) }"

text \<open>The table is only looked at when there is a column in the list.\<close>

definition ExecuteColumnList :: "tree list \<Rightarrow> ExecuteContext \<Rightarrow> ExecuteEngine \<Rightarrow> executed" where
  "ExecuteColumnList ast ctx e = do {
     let ctx = ctx\<lparr>select_columns := []\<rparr>;
     db \<leftarrow> open_db e;
     names \<leftarrow> ast_child ast;
     if names = [] then Some (DB_SUCCESS, ctx, e)
     else do {
       info \<leftarrow> snd (GetTable (ctx_table_name ctx) (catalog_mgr db));
       (res, cols) \<leftarrow> column_list_loop names (table_schema info) [];
       Some (res, ctx\<lparr>select_columns := cols\<rparr>, e) } }"

text \<open>The loops of \<open>ExecuteConnector\<close> over two sets.  The loop for \<open>or\<close> compares the element of the second set before it checks that there is one.\<close>

fun and_loop :: "RowId list \<Rightarrow> RowId list \<Rightarrow> RowId list \<Rightarrow> RowId list" where
  "and_loop [] [] found = found"
| "and_loop [] (y # ys) found = and_loop [] ys found"
| "and_loop (x # xs) [] found = and_loop xs [] found"
| "and_loop (x # xs) (y # ys) found = (if x = y then and_loop xs ys (set_insert x found)
     else if rid_less x y then and_loop xs (y # ys) found else and_loop (x # xs) ys found)"

fun or_loop :: "RowId list \<Rightarrow> RowId list \<Rightarrow> RowId list \<Rightarrow> RowId list option" where
  "or_loop [] [] found = Some found"
| "or_loop [] (y # ys) found = or_loop [] ys (set_insert y found)"
| "or_loop (x # xs) [] found = None"
| "or_loop (x # xs) (y # ys) found = (if rid_less y x then or_loop (x # xs) ys (set_insert y found)
     else if rid_less x y then or_loop xs (y # ys) (set_insert x found) else or_loop xs ys (set_insert x found))"

function (sequential) ExecuteInternalNode :: "tree list \<Rightarrow> ExecuteContext \<Rightarrow> ExecuteEngine \<Rightarrow> executed"
and ExecuteConnector :: "tree list \<Rightarrow> ExecuteContext \<Rightarrow> ExecuteEngine \<Rightarrow> executed" where
  "ExecuteInternalNode [] ctx e = None"
| "ExecuteInternalNode (Tree ty v cs # ns) ctx e =
     (if ty = kNodeColumnDefinition then None
      else if ty = kNodeConnector then ExecuteConnector (Tree ty v cs # ns) ctx e
      else if ty = kNodeCompareOperator then ExecuteCompareOperator (Tree ty v cs # ns) ctx e
      else if ty = kNodeAllColumns then ExecuteAllColumn ctx e
      else if ty = kNodeColumnList then ExecuteColumnList (Tree ty v cs # ns) ctx e
      else Some (DB_FAILED, ctx, e))"
| "ExecuteConnector [] ctx e = None"
| "ExecuteConnector (Tree ty v []# ns) ctx e = None"
| "ExecuteConnector (Tree ty v (c # cs) # ns) ctx e = (case ExecuteInternalNode (c # cs) ctx e of
     None \<Rightarrow> None
   | Some (res, ctx, e) \<Rightarrow>
       if res \<noteq> DB_SUCCESS then Some (res, ctx, e)
       else (case ExecuteInternalNode cs ctx e of
         None \<Rightarrow> None
       | Some (res', ctx', e') \<Rightarrow>
           if res' \<noteq> DB_SUCCESS then Some (res', ctx', e')
           else (case map_option c_string v of
             None \<Rightarrow> None
           | Some connector \<Rightarrow>
               if connector = ''and'' then Some (DB_SUCCESS, ctx'\<lparr>internal_result_rid := and_loop (internal_result_rid ctx) (internal_result_rid ctx') []\<rparr>, e')
               else if connector = ''or'' then map_option (\<lambda>found. (DB_SUCCESS, ctx'\<lparr>internal_result_rid := found\<rparr>, e')) (or_loop (internal_result_rid ctx) (internal_result_rid ctx') [])
               else Some (DB_SUCCESS, ctx'\<lparr>internal_result_rid := []\<rparr>, e'))))"
  by pat_completeness auto

termination
  by (relation "measure (\<lambda>x. case x of Inl (ast, _, _) \<Rightarrow> 2 * size_list size ast + 1 | Inr (ast, _, _) \<Rightarrow> 2 * size_list size ast)") simp_all

section \<open>Model: indexes\<close>

fun all_indexes :: "CatalogManager \<Rightarrow> TableInfo list \<Rightarrow> (string \<times> string) list option" where
  "all_indexes cm [] = Some []"
| "all_indexes cm (info # infos) = do {
     (_, ixs) \<leftarrow> GetTableIndexes (table_name_of info) cm;
     r \<leftarrow> all_indexes cm infos;
     Some (map (\<lambda>ix. (table_name_of info, im_index_name (index_meta ix))) ixs @ r) }"

definition ExecuteShowIndexes :: "ExecuteContext \<Rightarrow> ExecuteEngine \<Rightarrow> executed" where
  "ExecuteShowIndexes ctx e =
     (if current_db e = [] then Some (DB_FAILED, ctx, e)
      else do {
        db \<leftarrow> open_db e;
        let (res, infos) = GetTables (catalog_mgr db);
        if res = DB_FAILED then Some (DB_FAILED, ctx, e)
        else do {
          rows \<leftarrow> all_indexes (catalog_mgr db) infos;
          if rows = [] then Some (DB_FAILED, ctx, e)
          else do {
            e \<leftarrow> print_table [''table_name_'', ''index_name''] [map fst rows, map snd rows] e;
            Some (DB_SUCCESS, ctx\<lparr>rows_num := length rows\<rparr>, e) } } })"

text \<open>When a column does not exist, the index is created on the columns in front of it.\<close>

definition ExecuteCreateIndex :: "tree list \<Rightarrow> ExecuteContext \<Rightarrow> ExecuteEngine \<Rightarrow> executed" where
  "ExecuteCreateIndex ast ctx e =
     (if current_db e = [] then Some (DB_FAILED, ctx, e)
      else do {
        child \<leftarrow> ast_child ast;
        x \<leftarrow> ast_val child;
        table_node \<leftarrow> ast_next child;
        t \<leftarrow> ast_val table_node;
        let ctx = ctx\<lparr>ctx_index_name := x, ctx_table_name := t\<rparr>;
        db \<leftarrow> open_db e;
        if fst (GetTable t (catalog_mgr db)) = DB_TABLE_NOT_EXIST then Some (DB_FAILED, ctx, e)
        else do {
          columns \<leftarrow> ast_next table_node;
          (_, ctx, e) \<leftarrow> ExecuteInternalNode columns ctx e;
          if \<not> list_ex unique (select_columns ctx) then Some (DB_FAILED, ctx, e)
          else do {
            db \<leftarrow> open_db e;
            (res, _, cm, bp) \<leftarrow> CreateIndex (ctx_table_name ctx) (ctx_index_name ctx) (map name_of (select_columns ctx)) (catalog_mgr db) (bpm db);
            let e = set_db \<lparr>bpm = bp, catalog_mgr = cm\<rparr> e;
            if res = DB_SUCCESS then Some (DB_SUCCESS, ctx\<lparr>rows_num := rows_num ctx + 1\<rparr>, e) else Some (DB_FAILED, ctx, e) } } })"

text \<open>The number of tables of which an index with this name was dropped.\<close>

fun drop_indexes :: "string \<Rightarrow> TableInfo list \<Rightarrow> CatalogManager \<Rightarrow> buffer_pool \<Rightarrow> (nat \<times> CatalogManager \<times> buffer_pool) option" where
  "drop_indexes x [] cm bp = Some (0, cm, bp)"
| "drop_indexes x (info # infos) cm bp = do {
     (res, cm, bp) \<leftarrow> DropIndex (table_name_of info) x cm bp;
     (n, cm, bp) \<leftarrow> drop_indexes x infos cm bp;
     Some (if res = DB_SUCCESS then n + 1 else n, cm, bp) }"

definition ExecuteDropIndex :: "tree list \<Rightarrow> ExecuteContext \<Rightarrow> ExecuteEngine \<Rightarrow> executed" where
  "ExecuteDropIndex ast ctx e =
     (if current_db e = [] then Some (DB_FAILED, ctx, e)
      else do {
        db \<leftarrow> open_db e;
        let (res, infos) = GetTables (catalog_mgr db);
        if res = DB_FAILED then Some (DB_FAILED, ctx, e)
        else do {
          child \<leftarrow> ast_child ast;
          x \<leftarrow> ast_val child;
          (n, cm, bp) \<leftarrow> drop_indexes x infos (catalog_mgr db) (bpm db);
          let ctx = ctx\<lparr>rows_num := rows_num ctx + n\<rparr>;
          Some (if 0 < rows_num ctx then DB_SUCCESS else DB_FAILED, ctx, set_db \<lparr>bpm = bp, catalog_mgr = cm\<rparr> e) } })"

section \<open>Model: selecting\<close>

text \<open>The texts of one column, in a scan over the heap and of the row ids of a condition.\<close>

partial_function (option) heap_column :: "table_heap \<Rightarrow> nat \<Rightarrow> iterator \<Rightarrow> Row list \<Rightarrow> string list \<Rightarrow> byte list \<Rightarrow> buffer_pool \<Rightarrow> (string list \<times> byte list \<times> buffer_pool) option" where
  "heap_column h i it rows out buf bp = (let (last, rows) = TableHeap_End rows in
     if iterator_eq it last rows then Some (out, buf, bp)
     else do {
       f \<leftarrow> field_at (rows ! it) i;
       buf \<leftarrow> Type_GetData f buf;
       (_, rows, bp) \<leftarrow> TableIterator_post_inc h it rows bp;
       heap_column h i it rows (out @ [data_string buf]) buf bp })"

fun rid_column :: "table_heap \<Rightarrow> nat \<Rightarrow> RowId list \<Rightarrow> byte list \<Rightarrow> buffer_pool \<Rightarrow> (string list \<times> byte list \<times> buffer_pool) option" where
  "rid_column h i [] buf bp = Some ([], buf, bp)"
| "rid_column h i (rid # rids) buf bp = do {
     (_, row, bp) \<leftarrow> TableHeap_GetTuple h \<lparr>row_id = rid, row_fields = []\<rparr> bp;
     f \<leftarrow> field_at row i;
     buf \<leftarrow> Type_GetData f buf;
     (out, buf', bp) \<leftarrow> rid_column h i rids buf bp;
     Some (data_string buf # out, buf', bp) }"

text \<open>All columns; the first argument makes one column.\<close>

fun output_columns :: "(nat \<Rightarrow> byte list \<Rightarrow> buffer_pool \<Rightarrow> (string list \<times> byte list \<times> buffer_pool) option) \<Rightarrow> Schema \<Rightarrow> Column list \<Rightarrow> byte list \<Rightarrow> buffer_pool \<Rightarrow>
    (string list list \<times> byte list \<times> buffer_pool) option" where
  "output_columns column schema [] buf bp = Some ([], buf, bp)"
| "output_columns column schema (c # cs) buf bp = do {
     i \<leftarrow> GetColumnIndex schema (name_of c);
     (out, buf, bp) \<leftarrow> column i buf bp;
     (outs, buf, bp) \<leftarrow> output_columns column schema cs buf bp;
     Some (out # outs, buf, bp) }"

text \<open>The end of \<open>ExecuteSelect\<close>; with no column the count is divided by zero.\<close>

definition select_output :: "(nat \<Rightarrow> byte list \<Rightarrow> buffer_pool \<Rightarrow> (string list \<times> byte list \<times> buffer_pool) option) \<Rightarrow> Schema \<Rightarrow> DBStorageEngine \<Rightarrow> ExecuteContext \<Rightarrow> ExecuteEngine \<Rightarrow> executed" where
  "select_output column schema db ctx e = do {
     let cols = select_columns ctx;
     (outs, buf, bp) \<leftarrow> output_columns column schema cols (static_buf e) (bpm db);
     if cols = [] then None
     else do {
       let ctx = ctx\<lparr>rows_num := (rows_num ctx + sum_list (map length outs)) div length cols\<rparr>;
       let e = (set_db (db\<lparr>bpm := bp\<rparr>) e)\<lparr>static_buf := buf\<rparr>;
       e \<leftarrow> (if last outs \<noteq> [] then print_table (map name_of cols) outs e else Some e);
       Some (DB_SUCCESS, ctx, e) } }"

definition ExecuteSelect :: "tree list \<Rightarrow> ExecuteContext \<Rightarrow> ExecuteEngine \<Rightarrow> executed" where
  "ExecuteSelect ast ctx e = do {
     child \<leftarrow> ast_child ast;
     table_node \<leftarrow> ast_next child;
     name \<leftarrow> ast_val table_node;
     let ctx = ctx\<lparr>ctx_table_name := name\<rparr>;
     if current_db e = [] then Some (DB_FAILED, ctx, e)
     else (case open_db e of
       None \<Rightarrow> Some (DB_FAILED, ctx, e)
     | Some db \<Rightarrow> (case GetTable name (catalog_mgr db) of
         (DB_SUCCESS, info) \<Rightarrow> do {
           (res, ctx, e) \<leftarrow> ExecuteInternalNode child ctx e;
           if res \<noteq> DB_SUCCESS then Some (res, ctx, e)
           else do {
             conditions \<leftarrow> ast_next table_node;
             info \<leftarrow> info;
             let h = heap_of info;
             if conditions = [] then do {
               db \<leftarrow> open_db e;
               select_output (\<lambda>i buf bp. do { (it, rows, bp) \<leftarrow> TableHeap_Begin h [] bp; heap_column h i it rows [] buf bp }) (table_schema info) db ctx e }
             else do {
               condition \<leftarrow> ast_child conditions;
               (res, ctx, e) \<leftarrow> ExecuteInternalNode condition ctx e;
               if res \<noteq> DB_SUCCESS then Some (res, ctx, e)
               else do {
                 db \<leftarrow> open_db e;
                 select_output (\<lambda>i. rid_column h i (internal_result_rid ctx)) (table_schema info) db ctx e } } } }
       | _ \<Rightarrow> Some (DB_FAILED, ctx, e))) }"

section \<open>Model: inserting\<close>

text \<open>The field for a value; the inner result is \<^const>\<open>None\<close> when the statement is refused.\<close>

definition insert_field :: "Column \<Rightarrow> SyntaxNodeType \<Rightarrow> string option \<Rightarrow> Field option option" where
  "insert_field c ty v =
     (if ty = kNodeNull then Some (if nullable c \<and> \<not> unique c then Some (Field_null (ctype c)) else None)
      else do {
        val \<leftarrow> map_option c_string v;
        if ctype c = kTypeInt \<and> ty = kNodeNumber then do { i \<leftarrow> atoi val; Some (Some (Field_int i)) }
        else if ctype c = kTypeFloat \<and> ty = kNodeNumber then Some (Some (Field_float (atof val)))
        else if ctype c = kTypeChar \<and> ty = kNodeString then
          if clen c < length val then Some None
          else do { f \<leftarrow> Field_char (Some (bytes_of val @ [0])) (of_nat (length val)) True; Some (Some f) }
        else Some None })"

fun insert_fields :: "Schema \<Rightarrow> tree list \<Rightarrow> Field list option option" where
  "insert_fields [] ast = Some (if ast = [] then Some [] else None)"
| "insert_fields (c # cs) [] = Some None"
| "insert_fields (c # cs) (Tree ty v sub # ns) = do {
     r \<leftarrow> insert_field c ty v;
     (case r of None \<Rightarrow> Some None | Some f \<Rightarrow> map_option (map_option ((#) f)) (insert_fields cs ns)) }"

text \<open>The key fields of a row for an index.\<close>

fun key_fields :: "Field list \<Rightarrow> Schema \<Rightarrow> Field list option" where
  "key_fields fs [] = Some []"
| "key_fields fs (c # cs) = (let i = unat (table_ind c) in
     if i < length fs then map_option ((#) (fs ! i)) (key_fields fs cs) else None)"

text \<open>An operation on the tree of an index, which lives in the catalog.\<close>

definition on_tree :: "(BPlusTree \<Rightarrow> buffer_pool \<Rightarrow> ('r \<times> BPlusTree \<times> buffer_pool) option) \<Rightarrow> IndexInfo \<Rightarrow> DBStorageEngine \<Rightarrow> ('r \<times> DBStorageEngine) option" where
  "on_tree f ix db = do {
     let iid = im_index_id (index_meta ix);
     now \<leftarrow> map_of (indexes (catalog_mgr db)) iid;
     (r, t, bp) \<leftarrow> f (index_tree now) (bpm db);
     Some (r, \<lparr>bpm = bp, catalog_mgr = (catalog_mgr db)\<lparr>indexes := hash_set iid (now\<lparr>index_tree := t\<rparr>) (indexes (catalog_mgr db))\<rparr>\<rparr>) }"

definition key_row :: "Field list \<Rightarrow> Row" where
  "key_row fs = \<lparr>row_id = INVALID_ROWID, row_fields = fs\<rparr>"

definition scan_index :: "Field list \<Rightarrow> IndexInfo \<Rightarrow> DBStorageEngine \<Rightarrow> (dberr_t \<times> DBStorageEngine) option" where
  "scan_index fs ix = on_tree (\<lambda>t bp. do { (res, _, bp) \<leftarrow> ScanKey INDEX_KEY_SIZE (key_schema ix) (key_row fs) [] t bp; Some (res, t, bp) }) ix"

definition insert_index :: "Field list \<Rightarrow> RowId \<Rightarrow> IndexInfo \<Rightarrow> DBStorageEngine \<Rightarrow> (dberr_t \<times> DBStorageEngine) option" where
  "insert_index fs rid ix = on_tree (InsertEntry INDEX_KEY_SIZE (key_schema ix) (key_row fs) rid) ix"

definition remove_index :: "Field list \<Rightarrow> IndexInfo \<Rightarrow> DBStorageEngine \<Rightarrow> (dberr_t \<times> DBStorageEngine) option" where
  "remove_index fs ix = on_tree (RemoveEntry INDEX_KEY_SIZE (key_schema ix) (key_row fs)) ix"

text \<open>The keys of the new row; the inner result is \<^const>\<open>None\<close> when one of them is in its index.\<close>

fun new_keys :: "Field list \<Rightarrow> IndexInfo list \<Rightarrow> DBStorageEngine \<Rightarrow> (Field list list option \<times> DBStorageEngine) option" where
  "new_keys fs [] db = Some (Some [], db)"
| "new_keys fs (ix # ixs) db = do {
     key \<leftarrow> key_fields fs (key_schema ix);
     (res, db) \<leftarrow> scan_index key ix db;
     if res = DB_SUCCESS then Some (None, db)
     else do { (keys, db) \<leftarrow> new_keys fs ixs db; Some (map_option ((#) key) keys, db) } }"

fun insert_keys :: "RowId \<Rightarrow> (IndexInfo \<times> Field list) list \<Rightarrow> DBStorageEngine \<Rightarrow> (bool \<times> DBStorageEngine) option" where
  "insert_keys rid [] db = Some (True, db)"
| "insert_keys rid ((ix, key) # r) db = do {
     (res, db) \<leftarrow> insert_index key rid ix db;
     if res = DB_SUCCESS then insert_keys rid r db else Some (False, db) }"

definition ExecuteInsert :: "tree list \<Rightarrow> ExecuteContext \<Rightarrow> ExecuteEngine \<Rightarrow> executed" where
  "ExecuteInsert ast ctx e = do {
     child \<leftarrow> ast_child ast;
     name \<leftarrow> ast_val child;
     let ctx = ctx\<lparr>ctx_table_name := name\<rparr>;
     if current_db e = [] then Some (DB_FAILED, ctx, e)
     else do {
       db \<leftarrow> open_db e;
       (case GetTable name (catalog_mgr db) of
          (DB_TABLE_NOT_EXIST, _) \<Rightarrow> Some (DB_FAILED, ctx, e)
        | (_, info) \<Rightarrow> do {
            (_, ixs) \<leftarrow> GetTableIndexes name (catalog_mgr db);
            values_node \<leftarrow> ast_next child;
            values \<leftarrow> ast_child values_node;
            info \<leftarrow> info;
            r \<leftarrow> insert_fields (table_schema info) values;
            (case r of
               None \<Rightarrow> Some (DB_FAILED, ctx, e)
             | Some fs \<Rightarrow> do {
                 (keys, db) \<leftarrow> new_keys fs ixs db;
                 (case keys of
                    None \<Rightarrow> Some (DB_FAILED, ctx, set_db db e)
                  | Some keys \<Rightarrow>
                      if \<not> CheckAllUnpinned (bpm db) then None
                      else do {
                        (inserted, row, bp) \<leftarrow> TableHeap_InsertTuple (heap_of info) \<lparr>row_id = INVALID_ROWID, row_fields = fs\<rparr> (bpm db);
                        let db = db\<lparr>bpm := bp\<rparr>;
                        if \<not> inserted then Some (DB_FAILED, ctx, set_db db e)
                        else if \<not> CheckAllUnpinned bp then None
                        else do {
                          (ok, db) \<leftarrow> insert_keys (row_id row) (zip ixs keys) db;
                          if ok then Some (DB_SUCCESS, ctx\<lparr>rows_num := rows_num ctx + 1\<rparr>, set_db db e) else Some (DB_FAILED, ctx, set_db db e) } }) }) }) } }"

section \<open>Model: deleting\<close>

fun remove_keys :: "Field list \<Rightarrow> IndexInfo list \<Rightarrow> DBStorageEngine \<Rightarrow> DBStorageEngine option" where
  "remove_keys fs [] db = Some db"
| "remove_keys fs (ix # ixs) db = do {
     key \<leftarrow> key_fields fs (key_schema ix);
     (_, db) \<leftarrow> remove_index key ix db;
     remove_keys fs ixs db }"

definition delete_row :: "table_heap \<Rightarrow> IndexInfo list \<Rightarrow> RowId \<Rightarrow> DBStorageEngine \<Rightarrow> DBStorageEngine option" where
  "delete_row h ixs rid db = do {
     (_, row, bp) \<leftarrow> TableHeap_GetTuple h \<lparr>row_id = rid, row_fields = []\<rparr> (bpm db);
     db \<leftarrow> remove_keys (row_fields row) ixs (db\<lparr>bpm := bp\<rparr>);
     bp \<leftarrow> TableHeap_ApplyDelete (row_id row) (bpm db);
     Some (db\<lparr>bpm := bp\<rparr>) }"

fun delete_rows :: "table_heap \<Rightarrow> IndexInfo list \<Rightarrow> RowId list \<Rightarrow> DBStorageEngine \<Rightarrow> DBStorageEngine option" where
  "delete_rows h ixs [] db = Some db"
| "delete_rows h ixs (rid # rids) db = do { db \<leftarrow> delete_row h ixs rid db; delete_rows h ixs rids db }"

text \<open>Without a condition the iterator goes on from a row that has been deleted.\<close>

partial_function (option) delete_all :: "table_heap \<Rightarrow> IndexInfo list \<Rightarrow> iterator \<Rightarrow> Row list \<Rightarrow> nat \<Rightarrow> DBStorageEngine \<Rightarrow> (nat \<times> DBStorageEngine) option" where
  "delete_all h ixs it rows n db = (let (last, rows) = TableHeap_End rows in
     if iterator_eq it last rows then Some (n, db)
     else do {
       db \<leftarrow> delete_row h ixs (row_id (rows ! it)) db;
       (_, rows, bp) \<leftarrow> TableIterator_post_inc h it rows (bpm db);
       delete_all h ixs it rows (n + 1) (db\<lparr>bpm := bp\<rparr>) })"

definition ExecuteDelete :: "tree list \<Rightarrow> ExecuteContext \<Rightarrow> ExecuteEngine \<Rightarrow> executed" where
  "ExecuteDelete ast ctx e =
     (if current_db e = [] then Some (DB_FAILED, ctx, e)
      else do {
        child \<leftarrow> ast_child ast;
        name \<leftarrow> ast_val child;
        let ctx = ctx\<lparr>ctx_table_name := name\<rparr>;
        db \<leftarrow> open_db e;
        (case GetTable name (catalog_mgr db) of
           (DB_TABLE_NOT_EXIST, _) \<Rightarrow> Some (DB_FAILED, ctx, e)
         | (_, info) \<Rightarrow> do {
             (_, ixs) \<leftarrow> GetTableIndexes name (catalog_mgr db);
             conditions \<leftarrow> ast_next child;
             if conditions \<noteq> [] then do {
               condition \<leftarrow> ast_child conditions;
               (res, ctx, e) \<leftarrow> ExecuteInternalNode condition ctx e;
               if res \<noteq> DB_SUCCESS then Some (res, ctx, e)
               else do {
                 info \<leftarrow> info;
                 db \<leftarrow> open_db e;
                 db \<leftarrow> delete_rows (heap_of info) ixs (internal_result_rid ctx) db;
                 Some (DB_SUCCESS, ctx\<lparr>rows_num := rows_num ctx + length (internal_result_rid ctx)\<rparr>, set_db db e) } }
             else do {
               info \<leftarrow> info;
               (it, rows, bp) \<leftarrow> TableHeap_Begin (heap_of info) [] (bpm db);
               (n, db) \<leftarrow> delete_all (heap_of info) ixs it rows 0 (db\<lparr>bpm := bp\<rparr>);
               Some (DB_SUCCESS, ctx\<lparr>rows_num := rows_num ctx + n\<rparr>, set_db db e) } }) })"

section \<open>Model: updating\<close>

definition update_field :: "TypeId \<Rightarrow> tree list \<Rightarrow> Field option option" where
  "update_field t val_node = do {
     ty \<leftarrow> ast_type val_node;
     if t = kTypeInt \<and> ty = kNodeNumber then do { val \<leftarrow> ast_val val_node; i \<leftarrow> atoi val; Some (Some (Field_int i)) }
     else if t = kTypeFloat \<and> ty = kNodeNumber then do { val \<leftarrow> ast_val val_node; Some (Some (Field_float (atof val))) }
     else if t = kTypeChar \<and> ty = kNodeString then do {
       val \<leftarrow> ast_val val_node;
       f \<leftarrow> Field_char (Some (bytes_of val @ [0])) (of_nat (length val)) True;
       Some (Some f) }
     else Some None }"

text \<open>Only the indexes whose first column is the updated one are searched for the new key.  The result is \<open>False\<close> when one of them has it.\<close>

fun search_keys :: "string \<Rightarrow> Field list \<Rightarrow> IndexInfo list \<Rightarrow> DBStorageEngine \<Rightarrow> (bool \<times> DBStorageEngine) option" where
  "search_keys col fs [] db = Some (True, db)"
| "search_keys col fs (ix # ixs) db = (case key_schema ix of
     [] \<Rightarrow> None
   | c # _ \<Rightarrow> if name_of c = col then do {
         key \<leftarrow> key_fields fs (key_schema ix);
         (res, db) \<leftarrow> scan_index key ix db;
         if res = DB_SUCCESS then Some (False, db) else search_keys col fs ixs db }
       else search_keys col fs ixs db)"

text \<open>Every index loses the old key and gets the new one, whatever the results are.\<close>

fun replace_keys :: "Field list \<Rightarrow> Field list \<Rightarrow> RowId \<Rightarrow> IndexInfo list \<Rightarrow> DBStorageEngine \<Rightarrow> DBStorageEngine option" where
  "replace_keys old new rid [] db = Some db"
| "replace_keys old new rid (ix # ixs) db = do {
     old_key \<leftarrow> key_fields old (key_schema ix);
     new_key \<leftarrow> key_fields new (key_schema ix);
     (_, db) \<leftarrow> remove_index old_key ix db;
     (_, db) \<leftarrow> insert_index new_key rid ix db;
     replace_keys old new rid ixs db }"

text \<open>One row and one \<open>column = value\<close>.  The result is \<open>False\<close> when the statement ends here.\<close>

definition update_row :: "TableInfo \<Rightarrow> IndexInfo list \<Rightarrow> tree \<Rightarrow> RowId \<Rightarrow> DBStorageEngine \<Rightarrow> (bool \<times> DBStorageEngine) option" where
  "update_row info ixs assignment rid db = do {
     (_, old_row, bp) \<leftarrow> TableHeap_GetTuple (heap_of info) \<lparr>row_id = rid, row_fields = []\<rparr> (bpm db);
     let db = db\<lparr>bpm := bp\<rparr>;
     column_node \<leftarrow> ast_child [assignment];
     col_name \<leftarrow> ast_val column_node;
     i \<leftarrow> GetColumnIndex (table_schema info) col_name;
     let c = table_schema info ! i;
     val_node \<leftarrow> ast_next column_node;
     new_field \<leftarrow> update_field (ctype c) val_node;
     (case new_field of
        None \<Rightarrow> Some (False, db)
      | Some f \<Rightarrow>
          if length (row_fields old_row) \<le> i then None
          else do {
            let fs = (row_fields old_row)[i := f];
            (fresh, db) \<leftarrow> search_keys (name_of c) fs ixs db;
            if \<not> fresh then Some (False, db)
            else do {
              db \<leftarrow> replace_keys (row_fields old_row) fs (row_id old_row) ixs db;
              (_, _, bp) \<leftarrow> TableHeap_UpdateTuple (heap_of info) \<lparr>row_id = INVALID_ROWID, row_fields = fs\<rparr> (row_id old_row) (bpm db);
              Some (True, db\<lparr>bpm := bp\<rparr>) } }) }"

text \<open>The rows of a condition, and the scan over the whole heap: whether the statement goes on, and the number of rows.\<close>

fun update_rows :: "TableInfo \<Rightarrow> IndexInfo list \<Rightarrow> tree \<Rightarrow> RowId list \<Rightarrow> nat \<Rightarrow> DBStorageEngine \<Rightarrow> (bool \<times> nat \<times> DBStorageEngine) option" where
  "update_rows info ixs assignment [] n db = Some (True, n, db)"
| "update_rows info ixs assignment (rid # rids) n db = do {
     (ok, db) \<leftarrow> update_row info ixs assignment rid db;
     if ok then update_rows info ixs assignment rids (n + 1) db else Some (False, n, db) }"

partial_function (option) update_scan :: "TableInfo \<Rightarrow> IndexInfo list \<Rightarrow> tree \<Rightarrow> iterator \<Rightarrow> Row list \<Rightarrow> nat \<Rightarrow> DBStorageEngine \<Rightarrow> (bool \<times> nat \<times> DBStorageEngine) option" where
  "update_scan info ixs assignment it rows n db = (let (last, rows) = TableHeap_End rows in
     if iterator_eq it last rows then Some (True, n, db)
     else do {
       (ok, db) \<leftarrow> update_row info ixs assignment (row_id (rows ! it)) db;
       if \<not> ok then Some (False, n, db)
       else do {
         (_, rows, bp) \<leftarrow> TableIterator_post_inc (heap_of info) it rows (bpm db);
         update_scan info ixs assignment it rows (n + 1) (db\<lparr>bpm := bp\<rparr>) } })"

definition update_all :: "TableInfo \<Rightarrow> IndexInfo list \<Rightarrow> tree \<Rightarrow> nat \<Rightarrow> DBStorageEngine \<Rightarrow> (bool \<times> nat \<times> DBStorageEngine) option" where
  "update_all info ixs assignment n db = do {
     (it, rows, bp) \<leftarrow> TableHeap_Begin (heap_of info) [] (bpm db);
     update_scan info ixs assignment it rows n (db\<lparr>bpm := bp\<rparr>) }"

text \<open>All assignments one after the other; the first argument does one of them.\<close>

fun assignments :: "(tree \<Rightarrow> nat \<Rightarrow> DBStorageEngine \<Rightarrow> (bool \<times> nat \<times> DBStorageEngine) option) \<Rightarrow> tree list \<Rightarrow> nat \<Rightarrow> DBStorageEngine \<Rightarrow> (bool \<times> nat \<times> DBStorageEngine) option" where
  "assignments f [] n db = Some (True, n, db)"
| "assignments f (t # ts) n db = do {
     (ok, n, db) \<leftarrow> f t n db;
     if ok then assignments f ts n db else Some (False, n, db) }"

definition ExecuteUpdate :: "tree list \<Rightarrow> ExecuteContext \<Rightarrow> ExecuteEngine \<Rightarrow> executed" where
  "ExecuteUpdate ast ctx e =
     (if current_db e = [] then Some (DB_FAILED, ctx, e)
      else do {
        child \<leftarrow> ast_child ast;
        name \<leftarrow> ast_val child;
        let ctx = ctx\<lparr>ctx_table_name := name\<rparr>;
        db \<leftarrow> open_db e;
        (case GetTable name (catalog_mgr db) of
           (DB_TABLE_NOT_EXIST, _) \<Rightarrow> Some (DB_FAILED, ctx, e)
         | (_, info) \<Rightarrow> do {
             (_, ixs) \<leftarrow> GetTableIndexes name (catalog_mgr db);
             values_node \<leftarrow> ast_next child;
             conditions \<leftarrow> ast_next values_node;
             updates \<leftarrow> ast_child values_node;
             if conditions \<noteq> [] then do {
               condition \<leftarrow> ast_child conditions;
               (res, ctx, e) \<leftarrow> ExecuteInternalNode condition ctx e;
               if res \<noteq> DB_SUCCESS then Some (res, ctx, e)
               else do {
                 info \<leftarrow> info;
                 db \<leftarrow> open_db e;
                 (ok, n, db) \<leftarrow> assignments (\<lambda>t. update_rows info ixs t (internal_result_rid ctx)) updates (rows_num ctx) db;
                 Some (if ok then DB_SUCCESS else DB_FAILED, ctx\<lparr>rows_num := n\<rparr>, set_db db e) } }
             else do {
               info \<leftarrow> info;
               (ok, n, db) \<leftarrow> assignments (update_all info ixs) updates (rows_num ctx) db;
               Some (if ok then DB_SUCCESS else DB_FAILED, ctx\<lparr>rows_num := n\<rparr>, set_db db e) } }) })"

section \<open>Model: the statements\<close>

definition ExecuteTrxBegin :: "ExecuteContext \<Rightarrow> ExecuteEngine \<Rightarrow> executed" where
  "ExecuteTrxBegin ctx e = Some (DB_FAILED, ctx, e)"

definition ExecuteTrxCommit :: "ExecuteContext \<Rightarrow> ExecuteEngine \<Rightarrow> executed" where
  "ExecuteTrxCommit ctx e = Some (DB_FAILED, ctx, e)"

definition ExecuteTrxRollback :: "ExecuteContext \<Rightarrow> ExecuteEngine \<Rightarrow> executed" where
  "ExecuteTrxRollback ctx e = Some (DB_FAILED, ctx, e)"

definition ExecuteExecfile :: "ExecuteContext \<Rightarrow> ExecuteEngine \<Rightarrow> executed" where
  "ExecuteExecfile ctx e = Some (DB_FAILED, ctx, e)"

definition ExecuteQuit :: "tree list \<Rightarrow> ExecuteContext \<Rightarrow> ExecuteEngine \<Rightarrow> executed" where
  "ExecuteQuit ast ctx e = (if ast_type ast = Some kNodeQuit then Some (DB_SUCCESS, ctx\<lparr>flag_quit := True\<rparr>, e) else None)"

definition Execute :: "tree list \<Rightarrow> ExecuteContext \<Rightarrow> ExecuteEngine \<Rightarrow> executed" where
  "Execute ast ctx e = (case ast_type ast of
     None \<Rightarrow> Some (DB_FAILED, ctx, e)
   | Some ty \<Rightarrow> (case ty of
       kNodeCreateDB \<Rightarrow> ExecuteCreateDatabase ast ctx e
     | kNodeDropDB \<Rightarrow> ExecuteDropDatabase ast ctx e
     | kNodeShowDB \<Rightarrow> ExecuteShowDatabases ctx e
     | kNodeUseDB \<Rightarrow> ExecuteUseDatabase ast ctx e
     | kNodeShowTables \<Rightarrow> ExecuteShowTables ctx e
     | kNodeCreateTable \<Rightarrow> ExecuteCreateTable ast ctx e
     | kNodeDropTable \<Rightarrow> ExecuteDropTable ast ctx e
     | kNodeShowIndexes \<Rightarrow> ExecuteShowIndexes ctx e
     | kNodeCreateIndex \<Rightarrow> ExecuteCreateIndex ast ctx e
     | kNodeDropIndex \<Rightarrow> ExecuteDropIndex ast ctx e
     | kNodeSelect \<Rightarrow> ExecuteSelect ast ctx e
     | kNodeInsert \<Rightarrow> ExecuteInsert ast ctx e
     | kNodeDelete \<Rightarrow> ExecuteDelete ast ctx e
     | kNodeUpdate \<Rightarrow> ExecuteUpdate ast ctx e
     | kNodeTrxBegin \<Rightarrow> ExecuteTrxBegin ctx e
     | kNodeTrxCommit \<Rightarrow> ExecuteTrxCommit ctx e
     | kNodeTrxRollback \<Rightarrow> ExecuteTrxRollback ctx e
     | kNodeExecFile \<Rightarrow> ExecuteExecfile ctx e
     | kNodeQuit \<Rightarrow> ExecuteQuit ast ctx e
     | _ \<Rightarrow> Some (DB_FAILED, ctx, e)))"

end
