(* ===== verification/Catalog_Correct.thy ===== *)
theory Catalog_Correct
  imports Catalog
begin

text \<open>The catalog in memory and the catalog on disk.  \<open>catalog_inv\<close> says that every table and index that the catalog knows is stored in its page, that
  page 0 lists these pages, and that no page is pinned.  Creating a table and creating an index keep it, and a catalog that is opened from such pages knows the same
  tables and indexes.\<close>

section \<open>Maps\<close>

lemma hash_emplace_of: "map_of (hash_emplace k v m) = (if map_of m k = None then (map_of m)(k \<mapsto> v) else map_of m)"
  by (rule ext) (auto simp: hash_emplace_def map_add_def split: option.splits)

lemma hash_set_of: "map_of (hash_set k v m) = (if map_of m k = None then map_of m else (map_of m)(k \<mapsto> v))"
proof (induction m)
  case (Cons e m)
  obtain a b where e: "e = (a, b)" by (cases e)
  show ?case
  proof (cases "map_of m k = None")
    case True
    then show ?thesis using Cons by (auto simp: e hash_set_def fun_eq_iff)
  next
    case False
    then show ?thesis using Cons by (auto simp: e hash_set_def fun_eq_iff)
  qed
qed (simp add: hash_set_def)

lemma map_emplace_fresh:
  assumes "map_sorted m" "map_of m k = None"
  shows "set (map_emplace k v m) = insert (k, v) (set m)" "length (map_emplace k v m) = Suc (length m)"
  using assms by (induction k v m rule: map_emplace.induct) (auto simp: map_sorted_def split: if_splits)

lemma map_of_sorted: "map_sorted m \<Longrightarrow> map_of m k = Some v \<longleftrightarrow> (k, v) \<in> set m"
proof -
  assume "map_sorted m"
  then have "distinct (map fst m)" by (simp add: map_sorted_def strict_sorted_iff)
  then show ?thesis by simp
qed

section \<open>Reading and writing pages\<close>

lemma idle_spare: "pins bp = (\<lambda>q. 0) \<Longrightarrow> 0 < pool_size bp \<Longrightarrow> spare bp"
  by (simp add: spare_def)

lemma idle_clean: "pool_inv bp \<Longrightarrow> pins bp q = 0 \<Longrightarrow> q \<notin> touched bp"
  using touched_pinned[of bp q] by (auto simp: pool_inv_def)

text \<open>Reading a page around a computation that changes no page.\<close>

lemma read_bracket:
  assumes "pool_inv bp" "allocated bp p" "spare bp" "p \<notin> touched bp"
  obtains f bp1 where "FetchPage bp p = Some (f, bp1)" "load_page bp1 f = Some (view bp p)" "kept bp1 bp1 (view bp1)" "allocated bp1 = allocated bp"
    "\<forall>q. allocated bp q \<longrightarrow> view bp1 q = view bp q" "pins bp1 = (pins bp)(p := Suc (pins bp p))" "touched bp1 = touched bp" "pool_size bp1 = pool_size bp"
    "\<forall>bp2. kept bp1 bp2 (view bp1) \<longrightarrow> (\<exists>bp3. UnpinPage bp2 p False = Some (True, bp3) \<and> kept bp bp3 (view bp))"
proof -
  have room: "0 < pins bp p \<or> card {q. 0 < pins bp q} < pool_size bp" using assms(3) by (simp add: spare_def)
  obtain f bp1 where f: "FetchPage bp p = Some (f, bp1)" "pool_inv bp1" "allocated bp1 = allocated bp"
    "\<forall>q. allocated bp q \<longrightarrow> view bp1 q = view bp q" "pins bp1 = (pins bp)(p := Suc (pins bp p))" "touched bp1 = touched bp"
    "pool_size bp1 = pool_size bp" "page_table bp1 p = Some f" "\<forall>q. 0 < pins bp q \<longrightarrow> page_table bp1 q = page_table bp q"
    using pool_fetch_law[OF assms(1,2) room] by (elim exE conjE) (rule that; assumption)
  have l: "load_page bp1 f = Some (view bp p)" using pool_load_law[OF f(2,8)] f(4) assms(2) by simp
  have "\<exists>bp3. UnpinPage bp2 p False = Some (True, bp3) \<and> kept bp bp3 (view bp)" if k: "kept bp1 bp2 (view bp1)" for bp2
  proof -
    have k': "pool_inv bp2" "allocated bp2 = allocated bp1" "pins bp2 = pins bp1" "touched bp2 \<subseteq> touched bp1" "pool_size bp2 = pool_size bp1"
      "\<forall>q. 0 < pins bp1 q \<longrightarrow> page_table bp2 q = page_table bp1 q" "\<forall>q. allocated bp1 q \<longrightarrow> view bp2 q = view bp1 q" using k unfolding kept_def by blast+
    have p: "0 < pins bp2 p" "False \<or> p \<notin> touched bp2" using k'(3,4) f(5,6) assms(4) by auto
    obtain bp3 where u: "UnpinPage bp2 p False = Some (True, bp3)" "pool_inv bp3" "allocated bp3 = allocated bp2"
      "\<forall>q. allocated bp2 q \<longrightarrow> view bp3 q = view bp2 q" "pins bp3 = (pins bp2)(p := pins bp2 p - 1)" "touched bp3 = touched bp2"
      "pool_size bp3 = pool_size bp2" "page_table bp3 = page_table bp2"
      using pool_unpin_law[OF k'(1) p, unfolded if_False] by (elim exE conjE) (rule that; assumption)
    have "kept bp bp3 (view bp)" unfolding kept_def using u k' f by (auto simp: fun_eq_iff)
    then show ?thesis using u(1) by blast
  qed
  then show ?thesis using that[of f bp1] f l kept_refl[OF f(2)] by blast
qed

lemma spare_more:
  assumes "pins bp1 = (pins bp)(p := n)" "pool_size bp1 = pool_size bp" "Suc (card {q. 0 < pins bp q}) < pool_size bp" "pool_inv bp"
  shows "spare bp1"
proof -
  have fin: "finite {q. 0 < pins bp q}" using pinned_finite assms(4) by (simp add: pool_inv_def)
  have "{q. 0 < pins bp1 q} \<subseteq> insert p {q. 0 < pins bp q}" using assms(1) by auto
  then have "card {q. 0 < pins bp1 q} \<le> card (insert p {q. 0 < pins bp q})" using fin by (intro card_mono) auto
  also have "\<dots> \<le> Suc (card {q. 0 < pins bp q})" using fin by (simp add: card_insert_if)
  finally show ?thesis using assms(2,3) by (simp add: spare_def)
qed

text \<open>Writing the catalog.\<close>

definition catalog_fits :: "CatalogMeta \<Rightarrow> bool" where
  "catalog_fits m \<longleftrightarrow> catalog_ok m \<and> CatalogMeta_GetSerializedSize m \<le> PAGE_SIZE"

lemma write_catalog_ok:
  assumes "pool_inv bp" "allocated bp CATALOG_META_PAGE_ID" "spare bp" "catalog_fits m"
  obtains d bp' where "write_catalog m bp = Some bp'" "kept bp bp' ((view bp)(CATALOG_META_PAGE_ID := d))" "CatalogMeta_DeserializeFrom d 0 = Some m"
proof -
  let ?v = "view bp CATALOG_META_PAGE_ID"
  have room: "0 < pins bp CATALOG_META_PAGE_ID \<or> card {q. 0 < pins bp q} < pool_size bp" using assms(3) by (simp add: spare_def)
  obtain f bp1 where "FetchPage bp CATALOG_META_PAGE_ID = Some (f, bp1)" "pool_inv bp1" "page_table bp1 CATALOG_META_PAGE_ID = Some f"
    "\<forall>q. allocated bp q \<longrightarrow> view bp1 q = view bp q" using pool_fetch_law[OF assms(1,2) room] by blast
  then have len: "length ?v = PAGE_SIZE" using pool_load_law[of bp1 CATALOG_META_PAGE_ID f] assms(2) by simp
  have ok: "catalog_ok m" "0 + CatalogMeta_GetSerializedSize m \<le> length ?v" using assms(4) len by (simp_all add: catalog_fits_def)
  obtain d where d: "mem_write ?v 0 (catalog_bytes m) = Some d" using mem_write_defined[of 0 "catalog_bytes m" ?v] ok(2) by auto
  have des: "CatalogMeta_DeserializeFrom d 0 = Some m" by (rule catalog_deserialize[OF ok(1) mem_read_write_same[OF d]]) simp
  have ser: "CatalogMeta_SerializeTo m ?v 0 = Some d" using catalog_serialize[OF ok(2)] d by simp
  have ld: "length d = PAGE_SIZE" using mem_write_length[OF d] len by simp
  obtain f bp1 bp2 bp3 where v: "FetchPage bp CATALOG_META_PAGE_ID = Some (f, bp1)" "load_page bp1 f = Some ?v" "store_page bp1 f d = Some bp2"
    "UnpinPage bp2 CATALOG_META_PAGE_ID True = Some (True, bp3)" "kept bp bp3 ((view bp)(CATALOG_META_PAGE_ID := d))"
    by (rule visit_page[OF assms(1-3) ld disjI1[OF TrueI]]) (rule that; assumption)
  have "write_catalog m bp = Some bp3" by (simp add: write_catalog_def v(1-4) ser)
  then show ?thesis using that v(5) des by blast
qed

section \<open>The invariant\<close>

text \<open>A table, and an index, that the catalog knows under its id and that is stored in its page.\<close>

definition table_stored :: "(page_id_t \<Rightarrow> byte list) \<Rightarrow> CatalogManager \<Rightarrow> u32 \<Rightarrow> page_id_t \<Rightarrow> bool" where
  "table_stored c cm tid pid \<longleftrightarrow> (\<exists>info n. map_of (tables cm) tid = Some info \<and> tm_table_id (table_meta info) = tid \<and>
     TableMetadata_DeserializeFrom (c pid) 0 = Some (n, stored_table (table_meta info)) \<and>
     heap_of info = \<lparr>first_page_id = tm_root_page_id (table_meta info), heap_schema = tm_schema (table_meta info)\<rparr> \<and>
     map_of (table_names cm) (tm_table_name (table_meta info)) = Some tid)"

definition index_name_of :: "CatalogManager \<Rightarrow> string \<Rightarrow> string \<Rightarrow> u32 option" where
  "index_name_of cm table_name index_name = (case map_of (index_names cm) table_name of None \<Rightarrow> None | Some names \<Rightarrow> map_of names index_name)"

definition index_stored :: "(page_id_t \<Rightarrow> byte list) \<Rightarrow> CatalogManager \<Rightarrow> u32 \<Rightarrow> page_id_t \<Rightarrow> bool" where
  "index_stored c cm iid pid \<longleftrightarrow> (\<exists>ix n. map_of (indexes cm) iid = Some ix \<and> im_index_id (index_meta ix) = iid \<and>
     IndexMetadata_DeserializeFrom (c pid) 0 = Some (n, index_meta ix) \<and>
     map_of (tables cm) (im_table_id (index_meta ix)) = Some (index_table ix) \<and> im_table_id (index_meta ix) \<in> fst ` set (table_meta_pages (catalog_meta cm)) \<and>
     ShallowCopySchema (tm_schema (table_meta (index_table ix))) (map unat (im_key_map (index_meta ix))) = Some (key_schema ix) \<and>
     index_name_of cm (tm_table_name (table_meta (index_table ix))) (im_index_name (index_meta ix)) = Some iid)"

definition catalog_inv :: "CatalogManager \<Rightarrow> buffer_pool \<Rightarrow> bool" where
  "catalog_inv cm bp \<longleftrightarrow> pool_inv bp \<and> pins bp = (\<lambda>q. 0) \<and> allocated bp CATALOG_META_PAGE_ID \<and> allocated bp INDEX_ROOTS_PAGE_ID \<and>
     roots_ok (IndexRootsPage_of (view bp INDEX_ROOTS_PAGE_ID)) \<and> catalog_fits (catalog_meta cm) \<and>
     (\<forall>(tid, pid) \<in> set (table_meta_pages (catalog_meta cm)). allocated bp pid \<and> pid \<noteq> CATALOG_META_PAGE_ID \<and> table_stored (view bp) cm tid pid) \<and>
     (\<forall>(iid, pid) \<in> set (index_meta_pages (catalog_meta cm)). allocated bp pid \<and> pid \<noteq> CATALOG_META_PAGE_ID \<and> index_stored (view bp) cm iid pid) \<and>
     (\<forall>name tid. map_of (table_names cm) name = Some tid \<longrightarrow> (\<exists>info. map_of (tables cm) tid = Some info \<and> tm_table_name (table_meta info) = name) \<and>
        tid \<in> fst ` set (table_meta_pages (catalog_meta cm))) \<and>
     (\<forall>table_name index_name iid. index_name_of cm table_name index_name = Some iid \<longrightarrow>
        (\<exists>ix. map_of (indexes cm) iid = Some ix \<and> tm_table_name (table_meta (index_table ix)) = table_name \<and> im_index_name (index_meta ix) = index_name) \<and>
        iid \<in> fst ` set (index_meta_pages (catalog_meta cm)))"

lemma catalog_invD:
  assumes "catalog_inv cm bp"
  shows "pool_inv bp" "pins bp = (\<lambda>q. 0)" "allocated bp CATALOG_META_PAGE_ID" "allocated bp INDEX_ROOTS_PAGE_ID"
    "roots_ok (IndexRootsPage_of (view bp INDEX_ROOTS_PAGE_ID))" "catalog_fits (catalog_meta cm)"
    "(tid, pid) \<in> set (table_meta_pages (catalog_meta cm)) \<Longrightarrow> allocated bp pid \<and> pid \<noteq> CATALOG_META_PAGE_ID \<and> table_stored (view bp) cm tid pid"
    "(iid, pid) \<in> set (index_meta_pages (catalog_meta cm)) \<Longrightarrow> allocated bp pid \<and> pid \<noteq> CATALOG_META_PAGE_ID \<and> index_stored (view bp) cm iid pid"
    "map_of (table_names cm) name = Some tid \<Longrightarrow> (\<exists>info. map_of (tables cm) tid = Some info \<and> tm_table_name (table_meta info) = name) \<and>
       tid \<in> fst ` set (table_meta_pages (catalog_meta cm))"
    "index_name_of cm table_name index_name = Some iid \<Longrightarrow>
       (\<exists>ix. map_of (indexes cm) iid = Some ix \<and> tm_table_name (table_meta (index_table ix)) = table_name \<and> im_index_name (index_meta ix) = index_name) \<and>
       iid \<in> fst ` set (index_meta_pages (catalog_meta cm))"
proof -
  note a = assms[unfolded catalog_inv_def]
  note b = conjunct2[OF a] note c = conjunct2[OF b] note d = conjunct2[OF c] note e = conjunct2[OF d] note f = conjunct2[OF e]
  note h = conjunct2[OF f] note i = conjunct2[OF h] note j = conjunct2[OF i]
  show "pool_inv bp" "pins bp = (\<lambda>q. 0)" "allocated bp CATALOG_META_PAGE_ID" "allocated bp INDEX_ROOTS_PAGE_ID"
    "roots_ok (IndexRootsPage_of (view bp INDEX_ROOTS_PAGE_ID))" "catalog_fits (catalog_meta cm)"
    by (rule conjunct1[OF a] conjunct1[OF b] conjunct1[OF c] conjunct1[OF d] conjunct1[OF e] conjunct1[OF f])+
  show "(tid, pid) \<in> set (table_meta_pages (catalog_meta cm)) \<Longrightarrow> allocated bp pid \<and> pid \<noteq> CATALOG_META_PAGE_ID \<and> table_stored (view bp) cm tid pid"
    using bspec[OF conjunct1[OF h], of "(tid, pid)"] by simp
  show "(iid, pid) \<in> set (index_meta_pages (catalog_meta cm)) \<Longrightarrow> allocated bp pid \<and> pid \<noteq> CATALOG_META_PAGE_ID \<and> index_stored (view bp) cm iid pid"
    using bspec[OF conjunct1[OF i], of "(iid, pid)"] by simp
  show "map_of (table_names cm) name = Some tid \<Longrightarrow> (\<exists>info. map_of (tables cm) tid = Some info \<and> tm_table_name (table_meta info) = name) \<and>
       tid \<in> fst ` set (table_meta_pages (catalog_meta cm))" by (rule conjunct1[OF j, rule_format])
  show "index_name_of cm table_name index_name = Some iid \<Longrightarrow>
       (\<exists>ix. map_of (indexes cm) iid = Some ix \<and> tm_table_name (table_meta (index_table ix)) = table_name \<and> im_index_name (index_meta ix) = index_name) \<and>
       iid \<in> fst ` set (index_meta_pages (catalog_meta cm))" by (rule conjunct2[OF j, rule_format])
qed

text \<open>Page 0 holds the metadata.  A new database writes it with the first table only.\<close>

definition catalog_stored :: "CatalogManager \<Rightarrow> buffer_pool \<Rightarrow> bool" where
  "catalog_stored cm bp \<longleftrightarrow> CatalogMeta_DeserializeFrom (view bp CATALOG_META_PAGE_ID) 0 = Some (catalog_meta cm)"

text \<open>The next ids are larger than all ids in use.\<close>

definition ids_fresh :: "CatalogManager \<Rightarrow> bool" where
  "ids_fresh cm \<longleftrightarrow> (\<exists>t i. next_table_id cm = Some t \<and> next_index_id cm = Some i \<and>
     (\<forall>k \<in> fst ` set (tables cm) \<union> fst ` set (table_meta_pages (catalog_meta cm)). k < t) \<and>
     (\<forall>k \<in> fst ` set (indexes cm) \<union> fst ` set (index_meta_pages (catalog_meta cm)). k < i))"

lemma ids_freshD:
  assumes "ids_fresh cm"
  obtains t i where "next_table_id cm = Some t" "next_index_id cm = Some i" "map_of (tables cm) t = None" "map_of (indexes cm) i = None"
    "map_of (table_meta_pages (catalog_meta cm)) t = None" "map_of (index_meta_pages (catalog_meta cm)) i = None"
proof -
  obtain t i where t: "next_table_id cm = Some t" "next_index_id cm = Some i"
    "\<forall>k \<in> fst ` set (tables cm) \<union> fst ` set (table_meta_pages (catalog_meta cm)). k < t"
    "\<forall>k \<in> fst ` set (indexes cm) \<union> fst ` set (index_meta_pages (catalog_meta cm)). k < i"
    using assms unfolding ids_fresh_def by (elim exE conjE) (rule that; assumption)
  have "t \<notin> fst ` set (tables cm) \<union> fst ` set (table_meta_pages (catalog_meta cm))" "i \<notin> fst ` set (indexes cm) \<union> fst ` set (index_meta_pages (catalog_meta cm))"
    using bspec[OF t(3), of t] bspec[OF t(4), of i] by (meson less_irrefl)+
  then show ?thesis using that[OF t(1,2)] by (simp add: map_of_eq_None_iff)
qed

lemma word_below_next: "t + 1 \<noteq> 0 \<Longrightarrow> k < t \<or> k = t \<Longrightarrow> k < t + 1" for t :: u32
proof -
  assume "t + 1 \<noteq> 0"
  then have "unat (t + 1) = Suc (unat t)" using unatSuc[of t] by (simp add: add.commute)
  then show "k < t \<or> k = t \<Longrightarrow> k < t + 1" by (auto simp: word_less_nat_alt)
qed

section \<open>A catalog that grows\<close>

text \<open>Nothing that the catalog knows is lost, in memory and in its pages.\<close>

definition grows :: "CatalogManager \<Rightarrow> CatalogManager \<Rightarrow> bool" where
  "grows cm cm' \<longleftrightarrow> map_of (tables cm) \<subseteq>\<^sub>m map_of (tables cm') \<and> map_of (table_names cm) \<subseteq>\<^sub>m map_of (table_names cm') \<and>
     map_of (indexes cm) \<subseteq>\<^sub>m map_of (indexes cm') \<and> (\<forall>t x i. index_name_of cm t x = Some i \<longrightarrow> index_name_of cm' t x = Some i) \<and>
     set (table_meta_pages (catalog_meta cm)) \<subseteq> set (table_meta_pages (catalog_meta cm')) \<and>
     set (index_meta_pages (catalog_meta cm)) \<subseteq> set (index_meta_pages (catalog_meta cm'))"

lemma map_le_Some: "f \<subseteq>\<^sub>m g \<Longrightarrow> f k = Some v \<Longrightarrow> g k = Some v"
  by (metis domI map_le_def)

lemma growsD:
  assumes "grows cm cm'"
  shows "map_of (tables cm) t = Some info \<Longrightarrow> map_of (tables cm') t = Some info" "map_of (table_names cm) x = Some t \<Longrightarrow> map_of (table_names cm') x = Some t"
    "map_of (indexes cm) i = Some ix \<Longrightarrow> map_of (indexes cm') i = Some ix" "index_name_of cm x y = Some i \<Longrightarrow> index_name_of cm' x y = Some i"
    "fst ` set (table_meta_pages (catalog_meta cm)) \<subseteq> fst ` set (table_meta_pages (catalog_meta cm'))"
    "fst ` set (index_meta_pages (catalog_meta cm)) \<subseteq> fst ` set (index_meta_pages (catalog_meta cm'))"
proof -
  note a = assms[unfolded grows_def]
  note b = conjunct2[OF a] note c = conjunct2[OF b] note d = conjunct2[OF c] note e = conjunct2[OF d]
  show "map_of (tables cm) t = Some info \<Longrightarrow> map_of (tables cm') t = Some info" by (rule map_le_Some[OF conjunct1[OF a]])
  show "map_of (table_names cm) x = Some t \<Longrightarrow> map_of (table_names cm') x = Some t" by (rule map_le_Some[OF conjunct1[OF b]])
  show "map_of (indexes cm) i = Some ix \<Longrightarrow> map_of (indexes cm') i = Some ix" by (rule map_le_Some[OF conjunct1[OF c]])
  show "index_name_of cm x y = Some i \<Longrightarrow> index_name_of cm' x y = Some i" by (rule conjunct1[OF d, rule_format])
  show "fst ` set (table_meta_pages (catalog_meta cm)) \<subseteq> fst ` set (table_meta_pages (catalog_meta cm'))" by (rule image_mono[OF conjunct1[OF e]])
  show "fst ` set (index_meta_pages (catalog_meta cm)) \<subseteq> fst ` set (index_meta_pages (catalog_meta cm'))" by (rule image_mono[OF conjunct2[OF e]])
qed

lemma table_stored_grows: "grows cm cm' \<Longrightarrow> c' r = c r \<Longrightarrow> table_stored c cm t r \<Longrightarrow> table_stored c' cm' t r"
  unfolding table_stored_def by (metis growsD(1,2))

lemma index_stored_grows:
  assumes "grows cm cm'" "c' r = c r" "index_stored c cm i r"
  shows "index_stored c' cm' i r"
proof -
  obtain ix n where k: "map_of (indexes cm) i = Some ix" "im_index_id (index_meta ix) = i" "IndexMetadata_DeserializeFrom (c r) 0 = Some (n, index_meta ix)"
    "map_of (tables cm) (im_table_id (index_meta ix)) = Some (index_table ix)" "im_table_id (index_meta ix) \<in> fst ` set (table_meta_pages (catalog_meta cm))"
    "ShallowCopySchema (tm_schema (table_meta (index_table ix))) (map unat (im_key_map (index_meta ix))) = Some (key_schema ix)"
    "index_name_of cm (tm_table_name (table_meta (index_table ix))) (im_index_name (index_meta ix)) = Some i"
    using assms(3) unfolding index_stored_def by (elim exE conjE) (rule that; assumption)
  show ?thesis unfolding index_stored_def
    using growsD(3)[OF assms(1) k(1)] k(2) k(3)[folded assms(2)] growsD(1)[OF assms(1) k(4)] subsetD[OF growsD(5)[OF assms(1)] k(5)] k(6) growsD(4)[OF assms(1) k(7)]
    by (intro exI[of _ ix] exI[of _ n] conjI)
qed

text \<open>To keep the invariant it is enough to look at what is new.\<close>

lemma catalog_inv_grows:
  assumes inv: "catalog_inv cm bp" and pool: "pool_inv bp'" "pins bp' = (\<lambda>q. 0)" "\<forall>q. allocated bp q \<longrightarrow> allocated bp' q"
    and pages: "\<forall>q. allocated bp q \<longrightarrow> q \<noteq> CATALOG_META_PAGE_ID \<longrightarrow> view bp' q = view bp q" and fits: "catalog_fits (catalog_meta cm')" and grows: "grows cm cm'"
    and tabs: "\<And>t r. (t, r) \<in> set (table_meta_pages (catalog_meta cm')) \<Longrightarrow> (t, r) \<in> set (table_meta_pages (catalog_meta cm)) \<or>
      allocated bp' r \<and> r \<noteq> CATALOG_META_PAGE_ID \<and> table_stored (view bp') cm' t r"
    and ixs: "\<And>i r. (i, r) \<in> set (index_meta_pages (catalog_meta cm')) \<Longrightarrow> (i, r) \<in> set (index_meta_pages (catalog_meta cm)) \<or>
      allocated bp' r \<and> r \<noteq> CATALOG_META_PAGE_ID \<and> index_stored (view bp') cm' i r"
    and names: "\<And>x t. map_of (table_names cm') x = Some t \<Longrightarrow> map_of (table_names cm) x = Some t \<or>
      (\<exists>info. map_of (tables cm') t = Some info \<and> tm_table_name (table_meta info) = x) \<and> t \<in> fst ` set (table_meta_pages (catalog_meta cm'))"
    and index_names: "\<And>x y i. index_name_of cm' x y = Some i \<Longrightarrow> index_name_of cm x y = Some i \<or>
      (\<exists>ix. map_of (indexes cm') i = Some ix \<and> tm_table_name (table_meta (index_table ix)) = x \<and> im_index_name (index_meta ix) = y) \<and>
      i \<in> fst ` set (index_meta_pages (catalog_meta cm'))"
  shows "catalog_inv cm' bp'"
  unfolding catalog_inv_def
proof (intro conjI)
  note I = catalog_invD[OF inv] and G = growsD[OF grows]
  show "pool_inv bp'" "pins bp' = (\<lambda>q. 0)" "catalog_fits (catalog_meta cm')" by (rule pool fits)+
  show "allocated bp' CATALOG_META_PAGE_ID" "allocated bp' INDEX_ROOTS_PAGE_ID" using I(3,4) pool(3) by simp_all
  have "INDEX_ROOTS_PAGE_ID \<noteq> CATALOG_META_PAGE_ID" by (simp add: INDEX_ROOTS_PAGE_ID_def CATALOG_META_PAGE_ID_def)
  then show "roots_ok (IndexRootsPage_of (view bp' INDEX_ROOTS_PAGE_ID))" using I(4,5) pages by simp
  show "\<forall>(t, r) \<in> set (table_meta_pages (catalog_meta cm')). allocated bp' r \<and> r \<noteq> CATALOG_META_PAGE_ID \<and> table_stored (view bp') cm' t r"
  proof (intro ballI, clarify)
    fix t r assume "(t, r) \<in> set (table_meta_pages (catalog_meta cm'))"
    from tabs[OF this] show "allocated bp' r \<and> r \<noteq> CATALOG_META_PAGE_ID \<and> table_stored (view bp') cm' t r"
    proof
      assume tr: "(t, r) \<in> set (table_meta_pages (catalog_meta cm))"
      have "table_stored (view bp') cm' t r" by (rule table_stored_grows[OF grows, of _ _ "view bp"]) (use I(6,7) tr pages in blast)+
      then show ?thesis using I(7)[OF tr] pool(3) by blast
    qed
  qed
  show "\<forall>(i, r) \<in> set (index_meta_pages (catalog_meta cm')). allocated bp' r \<and> r \<noteq> CATALOG_META_PAGE_ID \<and> index_stored (view bp') cm' i r"
  proof (intro ballI, clarify)
    fix i r assume "(i, r) \<in> set (index_meta_pages (catalog_meta cm'))"
    from ixs[OF this] show "allocated bp' r \<and> r \<noteq> CATALOG_META_PAGE_ID \<and> index_stored (view bp') cm' i r"
    proof
      assume ir: "(i, r) \<in> set (index_meta_pages (catalog_meta cm))"
      have "index_stored (view bp') cm' i r" by (rule index_stored_grows[OF grows, of _ _ "view bp"]) (use I(8) ir pages in blast)+
      then show ?thesis using I(8)[OF ir] pool(3) by blast
    qed
  qed
  show "\<forall>x t. map_of (table_names cm') x = Some t \<longrightarrow> (\<exists>info. map_of (tables cm') t = Some info \<and> tm_table_name (table_meta info) = x) \<and>
      t \<in> fst ` set (table_meta_pages (catalog_meta cm'))"
    using names I(9) G(1,5) by (meson subsetD)
  show "\<forall>x y i. index_name_of cm' x y = Some i \<longrightarrow>
      (\<exists>ix. map_of (indexes cm') i = Some ix \<and> tm_table_name (table_meta (index_table ix)) = x \<and> im_index_name (index_meta ix) = y) \<and>
      i \<in> fst ` set (index_meta_pages (catalog_meta cm'))"
    using index_names I(10) G(3,6) by (meson subsetD)
qed

section \<open>Creating a table\<close>

lemma create_heap_frames:
  assumes "pool_inv bp" "\<exists>q. logical_ok q \<and> \<not> allocated bp q" "free_list bp \<noteq> []" "TableHeap_create schema bp = Some (h, bp')"
  shows "length (free_list bp) \<le> length (free_list bp') + 2"
proof -
  obtain pid f bp1 where n: "NewPage bp = Some (Some (pid, f), bp1)" "free_list bp1 = butlast (free_list bp)"
    using pool_new_page[OF assms(1) disk_room[OF assms(2)] assms(3)] by blast
  obtain g bp2 c d bp3 r4 bp4 r5 where t: "FetchPage bp1 pid = Some (g, bp2)" "store_page bp2 g d = Some bp3"
    "UnpinPage bp3 pid True = Some (r4, bp4)" "UnpinPage bp4 pid True = Some (r5, bp')"
    using assms(4) n(1) by (auto simp: TableHeap_create_def split: bind_splits)
  have "free_list bp3 = free_list bp2" using t(2) by (auto simp: store_page_def split: bind_splits)
  then show ?thesis using FetchPage_free_list[OF t(1)] UnpinPage_free_list[OF t(3)] UnpinPage_free_list[OF t(4)] n(2) by simp
qed

lemma CreateTable_new:
  assumes inv: "catalog_inv cm bp" and fresh: "map_of (table_names cm) name = None" "ids_fresh cm"
    and disk: "logical_ok p" "\<not> allocated bp p" "logical_ok q" "\<not> allocated bp q" "p \<noteq> q" and frames: "2 < length (free_list bp)"
    and meta: "CHR 0x00 \<notin> set name" "length name < 2 ^ 32" "list_all column_ok schema" "length schema < 2 ^ 32" "24 + length name + Schema_GetSerializedSize schema \<le> PAGE_SIZE"
    and room: "CatalogMeta_GetSerializedSize (catalog_meta cm) + 8 \<le> PAGE_SIZE" and size: "0 < pool_size bp" "the (next_table_id cm) + 1 \<noteq> 0"
  shows "\<exists>info cm' bp'. CreateTable name schema cm bp = Some (DB_SUCCESS, Some info, cm', bp') \<and> catalog_inv cm' bp' \<and> catalog_stored cm' bp' \<and> ids_fresh cm' \<and>
    table_names cm' = table_names cm @ [(name, the (next_table_id cm))] \<and> tables cm' = tables cm @ [(the (next_table_id cm), info)] \<and>
    indexes cm' = indexes cm \<and> index_names cm' = index_names cm \<and> next_index_id cm' = next_index_id cm \<and>
    CatalogMeta_GetSerializedSize (catalog_meta cm') = CatalogMeta_GetSerializedSize (catalog_meta cm) + 8 \<and>
    table_meta info = \<lparr>tm_table_id = the (next_table_id cm), tm_table_name = name, tm_root_page_id = first_page_id (heap_of info), tm_schema = schema\<rparr> \<and>
    heap_schema (heap_of info) = schema \<and> heap_inv bp' (first_page_id (heap_of info)) [first_page_id (heap_of info)] \<and>
    heap_slots bp' [first_page_id (heap_of info)] = [(first_page_id (heap_of info), [])] \<and>
    \<not> allocated bp (first_page_id (heap_of info)) \<and> pool_size bp' = pool_size bp \<and>
    (\<exists>r. allocated bp' = (\<lambda>q. q = r \<or> q = first_page_id (heap_of info) \<or> allocated bp q)) \<and>
    (\<forall>q. allocated bp q \<longrightarrow> q \<noteq> CATALOG_META_PAGE_ID \<longrightarrow> allocated bp' q \<and> view bp' q = view bp q)"
proof -
  note I = catalog_invD[OF inv]
  obtain tid where tid: "next_table_id cm = Some tid" "map_of (tables cm) tid = None" "map_of (table_meta_pages (catalog_meta cm)) tid = None"
    by (rule ids_freshD[OF fresh(2)]) (rule that; assumption)
  have r1: "\<exists>q. logical_ok q \<and> \<not> allocated bp q" "free_list bp \<noteq> []" using disk frames by auto
  obtain h bp1 where h: "TableHeap_create schema bp = Some (\<lparr>first_page_id = h, heap_schema = schema\<rparr>, bp1)" "heap_inv bp1 h [h]"
    "heap_slots bp1 [h] = [(h, [])]" "\<not> allocated bp h" "allocated bp1 = (\<lambda>q. q = h \<or> allocated bp q)" "pins bp1 = pins bp"
    "touched bp1 \<subseteq> touched bp" "pool_size bp1 = pool_size bp" "\<forall>q. allocated bp q \<longrightarrow> view bp1 q = view bp q"
    using heap_create_ok[OF I(1) r1, of schema] by (elim exE conjE) (rule that; assumption)
  have i1: "pool_inv bp1" using h(2) by (simp add: heap_inv_def)
  have f1: "free_list bp1 \<noteq> []" using create_heap_frames[OF I(1) r1 h(1)] frames by auto
  have r2: "\<exists>q. logical_ok q \<and> \<not> allocated bp1 q" using disk h(5) by (cases "h = p") auto
  obtain pid g bp2 where n: "NewPage bp1 = Some (Some (pid, g), bp2)" "pool_inv bp2" "\<not> allocated bp1 pid" "allocated bp2 = (\<lambda>q. q = pid \<or> allocated bp1 q)"
    "\<forall>q. allocated bp2 q \<longrightarrow> view bp2 q = (if q = pid then replicate PAGE_SIZE 0 else view bp1 q)" "pins bp2 = (pins bp1)(pid := 1)"
    "touched bp2 = touched bp1" "pool_size bp2 = pool_size bp1"
    using pool_new_page[OF i1 disk_room[OF r2] f1] by (elim exE conjE) (rule that; assumption)
  let ?meta = "\<lparr>tm_table_id = tid, tm_table_name = name, tm_root_page_id = h, tm_schema = schema\<rparr>"
  let ?info = "\<lparr>table_meta = ?meta, heap_of = \<lparr>first_page_id = h, heap_schema = schema\<rparr>\<rparr>"
  have "int32_range h" by (rule allocated_int32[of bp1]) (simp add: h(5))
  then have ok: "table_meta_ok ?meta" "0 + TableMetadata_GetSerializedSize ?meta \<le> length (replicate PAGE_SIZE (0 :: byte))"
    using meta by (simp_all add: table_meta_ok_def TableMetadata_GetSerializedSize_def)
  obtain d where d: "TableMetadata_SerializeTo ?meta (replicate PAGE_SIZE 0) 0 = Some (TableMetadata_GetSerializedSize ?meta, d)" "length d = PAGE_SIZE"
    "TableMetadata_DeserializeFrom d 0 = Some (TableMetadata_GetSerializedSize ?meta, stored_table ?meta)"
    using table_meta_roundtrip[OF ok] by (auto simp: same_outside_def)
  have a2: "allocated bp2 pid" "pins bp2 pid = 1" "view bp2 pid = replicate PAGE_SIZE 0" using n(4-6) by simp_all
  obtain f bp3 bp4 bp5 bp6 where w: "FetchPage bp2 pid = Some (f, bp3)" "load_page bp3 f = Some (view bp2 pid)" "store_page bp3 f d = Some bp4"
    "UnpinPage bp4 pid True = Some (True, bp5)" "UnpinPage bp5 pid True = Some (True, bp6)" "pool_inv bp6" "allocated bp6 = allocated bp2"
    "\<forall>q. allocated bp2 q \<longrightarrow> view bp6 q = (if q = pid then d else view bp2 q)" "pins bp6 = (pins bp2)(pid := 0)" "touched bp6 = touched bp2 - {pid}"
    "pool_size bp6 = pool_size bp2"
    by (rule fill_new_page[OF n(2) a2(1,2) d(2)])
  let ?cmeta = "(catalog_meta cm)\<lparr>table_meta_pages := map_emplace tid pid (table_meta_pages (catalog_meta cm))\<rparr>"
  have srt: "map_sorted (table_meta_pages (catalog_meta cm))" using I(6) by (simp add: catalog_fits_def catalog_ok_def)
  note E = map_emplace_fresh[OF srt tid(3), of pid]
  have "int32_range pid" by (rule allocated_int32[OF a2(1)])
  then have fits: "catalog_fits ?cmeta" using I(6) room E map_emplace_sorted[OF srt, of tid pid]
    by (auto simp: catalog_fits_def catalog_ok_def CatalogMeta_GetSerializedSize_def PAGE_SIZE_def list_all_iff)
  have p6: "pins bp6 = (\<lambda>q. 0)" using w(9) n(6) h(6) I(2) by (simp add: fun_eq_iff)
  have s6: "spare bp6" using idle_spare[OF p6] size(1) w(11) n(8) h(8) by simp
  have a0: "allocated bp6 CATALOG_META_PAGE_ID" using I(3) w(7) n(4) h(5) by simp
  obtain e bp7 where c: "write_catalog ?cmeta bp6 = Some bp7" "kept bp6 bp7 ((view bp6)(CATALOG_META_PAGE_ID := e))" "CatalogMeta_DeserializeFrom e 0 = Some ?cmeta"
    by (rule write_catalog_ok[OF w(6) a0 s6 fits])
  have neq: "pid \<noteq> h" "h \<noteq> CATALOG_META_PAGE_ID" "pid \<noteq> CATALOG_META_PAGE_ID" using n(3) h(4,5) I(3) by auto
  have v7: "view bp7 q = (if q = CATALOG_META_PAGE_ID then e else if q = pid then d else view bp1 q)" if "q = pid \<or> q = h \<or> allocated bp q" for q
    using that c(2) w(7,8) n(4,5) h(5) by (auto simp: kept_def)
  have a7: "allocated bp7 = (\<lambda>q. q = pid \<or> q = h \<or> allocated bp q)" using c(2) w(7) n(4) h(5) by (simp add: kept_def)
  let ?cm = "cm\<lparr>catalog_meta := ?cmeta, table_names := hash_emplace name tid (table_names cm), tables := hash_emplace tid ?info (tables cm),
    next_table_id := Some (tid + 1)\<rparr>"
  have run: "CreateTable name schema cm bp = Some (DB_SUCCESS, Some ?info, ?cm, bp7)"
    by (simp add: CreateTable_def fresh(1) h(1) n(1) tid(1) w(1-5) a2(3) d(1) c(1) Let_def)
  define cm' where "cm' = ?cm"
  have P: "catalog_meta cm' = ?cmeta" "indexes cm' = indexes cm" "index_names cm' = index_names cm" "table_names cm' = hash_emplace name tid (table_names cm)"
    "tables cm' = hash_emplace tid ?info (tables cm)"
    "next_index_id cm' = next_index_id cm" by (simp_all add: cm'_def)
  have keys: "fst ` set (table_meta_pages (catalog_meta cm')) = insert tid (fst ` set (table_meta_pages (catalog_meta cm)))" using E(1) by (simp add: P(1))
  have names: "map_of (table_names cm') = (map_of (table_names cm))(name \<mapsto> tid)" "map_of (tables cm') = (map_of (tables cm))(tid \<mapsto> ?info)"
    using fresh(1) tid(2) by (simp_all add: hash_emplace_of P)
  have vold: "view bp7 q = view bp q" if "allocated bp q" "q \<noteq> CATALOG_META_PAGE_ID" for q
    using v7[of q] that n(3) h(5,9) by auto
  have ind: "index_name_of cm' = index_name_of cm" by (simp add: fun_eq_iff index_name_of_def P)
  have i7: "pool_inv bp7" "pins bp7 = (\<lambda>q. 0)" using c(2) p6 by (simp_all add: kept_def)
  have grown: "grows cm cm'" unfolding grows_def names ind P(1,2) using fresh(1) tid(2) E(1) by (auto simp: map_le_def)
  have tnew: "table_stored (view bp7) cm' tid pid"
    unfolding table_stored_def names using d(3) v7[of pid] neq(3) by (intro exI[of _ ?info]) auto
  have "catalog_inv cm' bp7"
  proof (rule catalog_inv_grows[OF inv i7 _ _ _ grown])
    show "\<forall>q. allocated bp q \<longrightarrow> allocated bp7 q" "\<forall>q. allocated bp q \<longrightarrow> q \<noteq> CATALOG_META_PAGE_ID \<longrightarrow> view bp7 q = view bp q" using a7 vold by simp_all
    show "catalog_fits (catalog_meta cm')" using fits by (simp add: P(1))
    show "(t, r) \<in> set (table_meta_pages (catalog_meta cm')) \<Longrightarrow> (t, r) \<in> set (table_meta_pages (catalog_meta cm)) \<or>
        allocated bp7 r \<and> r \<noteq> CATALOG_META_PAGE_ID \<and> table_stored (view bp7) cm' t r" for t r
      using E(1) tnew neq(3) a7 by (auto simp: P(1))
    show "(t, r) \<in> set (index_meta_pages (catalog_meta cm')) \<Longrightarrow> (t, r) \<in> set (index_meta_pages (catalog_meta cm)) \<or>
        allocated bp7 r \<and> r \<noteq> CATALOG_META_PAGE_ID \<and> index_stored (view bp7) cm' t r" for t r by (simp add: P(1))
    show "map_of (table_names cm') x = Some t \<Longrightarrow> map_of (table_names cm) x = Some t \<or>
        (\<exists>info. map_of (tables cm') t = Some info \<and> tm_table_name (table_meta info) = x) \<and> t \<in> fst ` set (table_meta_pages (catalog_meta cm'))" for x t
      unfolding names keys by (cases "x = name") auto
  qed (simp add: ind)
  moreover have "catalog_stored cm' bp7" using v7[of CATALOG_META_PAGE_ID] I(3) c(3) by (simp add: P(1) catalog_stored_def)
  moreover have "ids_fresh cm'"
  proof -
    obtain i where i: "next_index_id cm = Some i" "\<And>k. k \<in> fst ` set (tables cm) \<union> fst ` set (table_meta_pages (catalog_meta cm)) \<Longrightarrow> k < tid"
      "\<And>k. k \<in> fst ` set (indexes cm) \<union> fst ` set (index_meta_pages (catalog_meta cm)) \<Longrightarrow> k < i"
      using fresh(2) tid(1) unfolding ids_fresh_def by auto
    have k: "next_table_id cm' = Some (tid + 1)" "next_index_id cm' = Some i" "fst ` set (tables cm') = insert tid (fst ` set (tables cm))"
      "index_meta_pages (catalog_meta cm') = index_meta_pages (catalog_meta cm)"
      using i(1) tid(2) by (auto simp: cm'_def hash_emplace_def)
    have "x < tid + 1" if "x \<in> fst ` set (tables cm') \<union> fst ` set (table_meta_pages (catalog_meta cm'))" for x
      using word_below_next[of tid x] i(2)[of x] size(2) tid(1) that unfolding k(3) keys by auto
    then show ?thesis using k(1,2,4) i(3) P(2) unfolding ids_fresh_def by simp
  qed
  moreover have "heap_inv bp7 h [h]" "heap_slots bp7 [h] = [(h, [])]"
  proof -
    have v: "view bp7 h = view bp1 h" using v7[of h] neq by simp
    have "touched bp7 = {}" using touched_pinned[of bp7] i7 by (auto simp: pool_inv_def)
    then show "heap_inv bp7 h [h]" "heap_slots bp7 [h] = [(h, [])]" using h(2,3) v i7(1) a7
      by (simp_all add: heap_inv_def heap_slots_def)
  qed
  moreover have "CatalogMeta_GetSerializedSize (catalog_meta cm') = CatalogMeta_GetSerializedSize (catalog_meta cm) + 8"
    using E(2) by (simp add: CatalogMeta_GetSerializedSize_def P(1))
  moreover have "pool_size bp7 = pool_size bp" using c(2) w(11) n(8) h(8) by (simp add: kept_def)
  moreover have "\<exists>r. allocated bp7 = (\<lambda>q. q = r \<or> q = h \<or> allocated bp q)" using a7 by (rule exI)
  ultimately show ?thesis using run[folded cm'_def] tid(1) h(4) vold fun_cong[OF a7] fresh(1) tid(2)
    by (intro exI[of _ ?info] exI[of _ cm'] exI[of _ bp7]) (simp add: hash_emplace_def P)
qed

end
