(* ===== verification/Catalog_Reload.thy ===== *)
theory Catalog_Reload
  imports Catalog_Correct
begin

text \<open>Opening a database whose pages hold a catalog.\<close>

section \<open>Opening the tree of an index\<close>

lemma kept_chain: "kept bp bp1 (view bp) \<Longrightarrow> kept bp1 bp2 (view bp1) \<Longrightarrow> kept bp bp2 (view bp)"
  by (rule kept_cong[OF kept_trans]) (assumption, assumption, simp add: kept_def)

lemma GetRootId_eq: "roots_ok p \<Longrightarrow> GetRootId k p = Some (case map_of (root_list p) k of None \<Rightarrow> (False, -1) | Some r \<Rightarrow> (True, r))"
  using Roots_present(1)[of p 0 k] by (cases "map_of (root_list p) k") (simp_all add: int32_range_def GetRootId_def FindIndex_absent)

text \<open>The tree that an index with this id gets.\<close>

definition opened_tree :: "(page_id_t \<Rightarrow> byte list) \<Rightarrow> u32 \<Rightarrow> BPlusTree" where
  "opened_tree c iid = SetRootId (case map_of (root_list (IndexRootsPage_of (c INDEX_ROOTS_PAGE_ID))) iid of None \<Rightarrow> -1 | Some r \<Rightarrow> r)
     (BPlusTree_new iid (LEAF_PAGE_SIZE (INDEX_KEY_SIZE + 8)) (INTERNAL_PAGE_SIZE (INDEX_KEY_SIZE + 8)))"

lemma IndexInfo_Init_ok:
  assumes "pool_inv bp" "allocated bp INDEX_ROOTS_PAGE_ID" "spare bp" "INDEX_ROOTS_PAGE_ID \<notin> touched bp"
    "roots_ok (IndexRootsPage_of (view bp INDEX_ROOTS_PAGE_ID))" "ShallowCopySchema (tm_schema (table_meta info)) (map unat (im_key_map m)) = Some s"
  obtains bp' where "kept bp bp' (view bp)"
    "IndexInfo_Init m info bp = Some (\<lparr>index_meta = m, index_tree = opened_tree (view bp) (im_index_id m), index_table = info, key_schema = s\<rparr>, bp')"
    "length (free_list bp) \<le> Suc (length (free_list bp'))"
proof -
  obtain f bp1 bp2 where v: "FetchPage bp INDEX_ROOTS_PAGE_ID = Some (f, bp1)" "load_page bp1 f = Some (view bp INDEX_ROOTS_PAGE_ID)"
    "UnpinPage bp1 INDEX_ROOTS_PAGE_ID False = Some (True, bp2)" "kept bp bp2 (view bp)"
    by (rule visit_page_read[OF assms(1-4)])
  have "length (free_list bp) \<le> Suc (length (free_list bp2))" using FetchPage_free_list[OF v(1)] UnpinPage_free_list[OF v(3)] by simp
  then show ?thesis using that[OF v(4)] v(1-3) GetRootId_eq[OF assms(5)] assms(6)
    by (simp add: IndexInfo_Init_def BPlusTreeIndex_new_def INDEX_ROOTS_PAGE_ID_def unpin_def opened_tree_def split: option.splits)
qed

section \<open>Loading\<close>

definition opened_table :: "TableMetadata \<Rightarrow> TableInfo" where
  "opened_table m = \<lparr>table_meta = m, heap_of = \<lparr>first_page_id = tm_root_page_id m, heap_schema = tm_schema m\<rparr>\<rparr>"

text \<open>What holds while the pages are read: nothing that was allocated has changed and only page 0 is pinned.\<close>

definition loading :: "buffer_pool \<Rightarrow> bool" where
  "loading bp \<longleftrightarrow> pool_inv bp \<and> (\<forall>q. q \<noteq> CATALOG_META_PAGE_ID \<longrightarrow> pins bp q = 0) \<and> 2 < pool_size bp"

lemma loadingD:
  assumes "loading bp"
  shows "pool_inv bp" "Suc (card {q. 0 < pins bp q}) < pool_size bp" "spare bp" "q \<noteq> CATALOG_META_PAGE_ID \<Longrightarrow> q \<notin> touched bp"
proof -
  have l: "pool_inv bp" "\<forall>q. q \<noteq> CATALOG_META_PAGE_ID \<longrightarrow> pins bp q = 0" "2 < pool_size bp" using assms by (simp_all add: loading_def)
  have "{q. 0 < pins bp q} \<subseteq> {CATALOG_META_PAGE_ID}" using l(2) by (metis (mono_tags) less_irrefl mem_Collect_eq singletonI subsetI)
  then have "card {q. 0 < pins bp q} \<le> card {CATALOG_META_PAGE_ID}" by (intro card_mono) simp_all
  then show "Suc (card {q. 0 < pins bp q}) < pool_size bp" "spare bp" using l(3) by (simp_all add: spare_def)
  show "pool_inv bp" by (rule l(1))
  show "q \<noteq> CATALOG_META_PAGE_ID \<Longrightarrow> q \<notin> touched bp" using idle_clean[OF l(1)] l(2) by blast
qed

lemma loading_kept: "loading bp \<Longrightarrow> kept bp bp' c \<Longrightarrow> loading bp'"
  by (simp add: loading_def kept_def)

lemma LoadTable_ok:
  assumes "loading bp" "allocated bp pid" "pid \<noteq> CATALOG_META_PAGE_ID" "TableMetadata_DeserializeFrom (view bp pid) 0 = Some (n, m)"
  obtains bp' where "kept bp bp' (view bp)" "LoadTable tid pid cm bp = Some (cm\<lparr>table_names := hash_emplace (tm_table_name m) tid (table_names cm),
    tables := hash_emplace tid (opened_table m) (tables cm)\<rparr>, bp')"
proof -
  note L = loadingD[OF assms(1)]
  obtain f bp1 bp2 where v: "FetchPage bp pid = Some (f, bp1)" "load_page bp1 f = Some (view bp pid)"
    "UnpinPage bp1 pid False = Some (True, bp2)" "kept bp bp2 (view bp)"
    by (rule visit_page_read[OF L(1) assms(2) L(3) L(4)[OF assms(3)]])
  show ?thesis by (rule that[OF v(4)]) (simp add: LoadTable_def v(1-3) assms(4) opened_table_def TableHeap_open_def)
qed

text \<open>Every entry is added at the end of the maps, as long as ids and names differ.\<close>

lemma hash_emplace_new: "k \<notin> fst ` set m \<Longrightarrow> hash_emplace k v m = m @ [(k, v)]"
  by (simp add: hash_emplace_def map_of_eq_None_iff)

lemma load_tables_ok:
  assumes "\<And>tid pid. (tid, pid) \<in> set m \<Longrightarrow> allocated bp pid \<and> pid \<noteq> CATALOG_META_PAGE_ID \<and> (\<exists>n. TableMetadata_DeserializeFrom (view bp pid) 0 = Some (n, T tid))"
    and "distinct (map fst (tables cm) @ map fst m)" and "distinct (map fst (table_names cm) @ map (\<lambda>e. tm_table_name (T (fst e))) m)" and "loading bp"
  shows "\<exists>bp'. kept bp bp' (view bp) \<and> load_tables m cm bp = Some (cm\<lparr>table_names := table_names cm @ map (\<lambda>e. (tm_table_name (T (fst e)), fst e)) m,
    tables := tables cm @ map (\<lambda>e. (fst e, opened_table (T (fst e)))) m, next_table_id := (if m = [] then next_table_id cm else Some (fst (last m) + 1))\<rparr>, bp')"
  using assms
proof (induction m arbitrary: cm bp)
  case Nil
  then show ?case using kept_refl[of bp] loadingD(1) by (intro exI[of _ bp]) simp
next
  case (Cons e m)
  obtain tid pid where e: "e = (tid, pid)" by (cases e)
  have "(tid, pid) \<in> set (e # m)" by (simp add: e)
  from Cons.prems(1)[OF this] obtain n where s: "allocated bp pid" "pid \<noteq> CATALOG_META_PAGE_ID" "TableMetadata_DeserializeFrom (view bp pid) 0 = Some (n, T tid)" by blast
  obtain bp1 where l: "kept bp bp1 (view bp)" "LoadTable tid pid cm bp = Some (cm\<lparr>table_names := hash_emplace (tm_table_name (T tid)) tid (table_names cm),
    tables := hash_emplace tid (opened_table (T tid)) (tables cm)\<rparr>, bp1)" by (rule LoadTable_ok[OF Cons.prems(4) s])
  define cm1 where "cm1 = cm\<lparr>table_names := table_names cm @ [(tm_table_name (T tid), tid)], tables := tables cm @ [(tid, opened_table (T tid))], next_table_id := Some (tid + 1)\<rparr>"
  have new: "tid \<notin> fst ` set (tables cm)" "tm_table_name (T tid) \<notin> fst ` set (table_names cm)" using Cons.prems(2,3) by (auto simp: e)
  have k: "allocated bp1 = allocated bp" "\<forall>q. allocated bp q \<longrightarrow> view bp1 q = view bp q" using l(1) by (simp_all add: kept_def)
  have p: "allocated bp1 r \<and> r \<noteq> CATALOG_META_PAGE_ID \<and> (\<exists>n. TableMetadata_DeserializeFrom (view bp1 r) 0 = Some (n, T t))" if "(t, r) \<in> set m" for t r
    using Cons.prems(1)[of t r] that k by simp
  have d: "distinct (map fst (tables cm1) @ map fst m)" "distinct (map fst (table_names cm1) @ map (\<lambda>e. tm_table_name (T (fst e))) m)"
    using Cons.prems(2,3) by (auto simp: cm1_def e)
  obtain bp2 where r: "kept bp1 bp2 (view bp1)" "load_tables m cm1 bp1 = Some (cm1\<lparr>table_names := table_names cm1 @ map (\<lambda>e. (tm_table_name (T (fst e)), fst e)) m,
    tables := tables cm1 @ map (\<lambda>e. (fst e, opened_table (T (fst e)))) m, next_table_id := (if m = [] then next_table_id cm1 else Some (fst (last m) + 1))\<rparr>, bp2)"
    using Cons.IH[OF p d loading_kept[OF Cons.prems(4) l(1)]] by blast
  have "load_tables (e # m) cm bp = load_tables m cm1 bp1" by (simp add: e l(2) hash_emplace_new[OF new(1)] hash_emplace_new[OF new(2)] cm1_def)
  then show ?case using r(2) kept_chain[OF l(1) r(1)] by (intro exI[of _ bp2]) (simp add: cm1_def e)
qed

definition opened_index :: "(page_id_t \<Rightarrow> byte list) \<Rightarrow> CatalogManager \<Rightarrow> IndexMetadata \<Rightarrow> IndexInfo" where
  "opened_index c cm m = \<lparr>index_meta = m, index_tree = opened_tree c (im_index_id m), index_table = the (map_of (tables cm) (im_table_id m)),
     key_schema = the (ShallowCopySchema (tm_schema (table_meta (the (map_of (tables cm) (im_table_id m))))) (map unat (im_key_map m)))\<rparr>"

definition add_index_name :: "string \<Rightarrow> string \<Rightarrow> u32 \<Rightarrow> CatalogManager \<Rightarrow> CatalogManager" where
  "add_index_name t x iid cm = cm\<lparr>index_names := hash_set t (hash_emplace x iid (case map_of (index_names cm) t of None \<Rightarrow> [] | Some names \<Rightarrow> names))
     (hash_emplace t [] (index_names cm))\<rparr>"

lemma add_index_name_of:
  assumes "index_name_of cm t x = None"
  shows "index_name_of (add_index_name t x iid cm) t' x' = (if t' = t \<and> x' = x then Some iid else index_name_of cm t' x')"
  using assms by (auto simp: index_name_of_def add_index_name_def hash_set_of hash_emplace_of split: option.splits)

lemma LoadIndex_ok:
  assumes "loading bp" "allocated bp pid" "pid \<noteq> CATALOG_META_PAGE_ID" "IndexMetadata_DeserializeFrom (view bp pid) 0 = Some (n, m)"
    "map_of (tables cm) (im_table_id m) = Some info" "ShallowCopySchema (tm_schema (table_meta info)) (map unat (im_key_map m)) = Some s"
    "allocated bp INDEX_ROOTS_PAGE_ID" "roots_ok (IndexRootsPage_of (view bp INDEX_ROOTS_PAGE_ID))"
  obtains bp' where "kept bp bp' (view bp)" "LoadIndex iid pid cm bp =
    Some ((add_index_name (tm_table_name (table_meta info)) (im_index_name m) iid cm)\<lparr>indexes := hash_emplace iid (opened_index (view bp) cm m) (indexes cm)\<rparr>, bp')"
proof -
  note L = loadingD[OF assms(1)]
  obtain f bp1 where v: "FetchPage bp pid = Some (f, bp1)" "load_page bp1 f = Some (view bp pid)" "kept bp1 bp1 (view bp1)" "allocated bp1 = allocated bp"
    "\<forall>q. allocated bp q \<longrightarrow> view bp1 q = view bp q" "pins bp1 = (pins bp)(pid := Suc (pins bp pid))" "touched bp1 = touched bp" "pool_size bp1 = pool_size bp"
    "\<forall>bp2. kept bp1 bp2 (view bp1) \<longrightarrow> (\<exists>bp3. UnpinPage bp2 pid False = Some (True, bp3) \<and> kept bp bp3 (view bp))"
    by (rule read_bracket[OF L(1) assms(2) L(3) L(4)[OF assms(3)]])
  have i1: "pool_inv bp1" using v(3) by (simp add: kept_def)
  have s1: "spare bp1" by (rule spare_more[OF v(6,8) L(2,1)])
  have t1: "INDEX_ROOTS_PAGE_ID \<notin> touched bp1" using L(4)[of INDEX_ROOTS_PAGE_ID] v(7) by (simp add: INDEX_ROOTS_PAGE_ID_def CATALOG_META_PAGE_ID_def)
  have a1: "allocated bp1 INDEX_ROOTS_PAGE_ID" "view bp1 INDEX_ROOTS_PAGE_ID = view bp INDEX_ROOTS_PAGE_ID" using v(4,5) assms(7) by simp_all
  have r1: "roots_ok (IndexRootsPage_of (view bp1 INDEX_ROOTS_PAGE_ID))" using assms(8) a1(2) by simp
  obtain bp2 where j: "kept bp1 bp2 (view bp1)"
    "IndexInfo_Init m info bp1 = Some (\<lparr>index_meta = m, index_tree = opened_tree (view bp1) (im_index_id m), index_table = info, key_schema = s\<rparr>, bp2)"
    by (rule IndexInfo_Init_ok[OF i1 a1(1) s1 t1 r1 assms(6)]) (rule that; assumption)
  obtain bp3 where u: "UnpinPage bp2 pid False = Some (True, bp3)" "kept bp bp3 (view bp)" using v(9) j(1) by blast
  have o: "opened_index (view bp) cm m = \<lparr>index_meta = m, index_tree = opened_tree (view bp1) (im_index_id m), index_table = info, key_schema = s\<rparr>"
    using assms(5,6) a1(2) by (simp add: opened_index_def opened_tree_def)
  have nm: "map_of (hash_emplace (tm_table_name (table_meta info)) [] (index_names cm)) (tm_table_name (table_meta info)) =
    Some (case map_of (index_names cm) (tm_table_name (table_meta info)) of None \<Rightarrow> [] | Some names \<Rightarrow> names)"
    by (simp add: hash_emplace_of split: option.splits)
  show ?thesis by (rule that[OF u(2)]) (simp add: LoadIndex_def v(1,2) assms(4,5) j(2) u(1) o Let_def nm add_index_name_def)
qed

lemma opened_index_cong: "c INDEX_ROOTS_PAGE_ID = d INDEX_ROOTS_PAGE_ID \<Longrightarrow> tables cm = tables cm' \<Longrightarrow> opened_index c cm m = opened_index d cm' m"
  by (simp add: opened_index_def opened_tree_def)

lemma load_indexes_ok:
  assumes "\<forall>iid pid. (iid, pid) \<in> set m \<longrightarrow> allocated bp pid \<and> pid \<noteq> CATALOG_META_PAGE_ID \<and> (\<exists>n. IndexMetadata_DeserializeFrom (view bp pid) 0 = Some (n, I iid)) \<and>
      map_of (tables cm) (im_table_id (I iid)) = Some (J iid) \<and> ShallowCopySchema (tm_schema (table_meta (J iid))) (map unat (im_key_map (I iid))) \<noteq> None"
    and "distinct (map fst (indexes cm) @ map fst m)" and "distinct (map (\<lambda>e. (tm_table_name (table_meta (J (fst e))), im_index_name (I (fst e)))) m)"
    and "\<forall>iid \<in> fst ` set m. index_name_of cm (tm_table_name (table_meta (J iid))) (im_index_name (I iid)) = None"
    and "loading bp" and "allocated bp INDEX_ROOTS_PAGE_ID" and "roots_ok (IndexRootsPage_of (view bp INDEX_ROOTS_PAGE_ID))"
  shows "\<exists>cm' bp'. kept bp bp' (view bp) \<and> load_indexes m cm bp = Some (cm', bp') \<and> tables cm' = tables cm \<and> table_names cm' = table_names cm \<and>
    catalog_meta cm' = catalog_meta cm \<and> next_table_id cm' = next_table_id cm \<and> indexes cm' = indexes cm @ map (\<lambda>e. (fst e, opened_index (view bp) cm (I (fst e)))) m \<and>
    next_index_id cm' = (if m = [] then next_index_id cm else Some (fst (last m) + 1)) \<and>
    (\<forall>t x. index_name_of cm' t x = (case map_of (map (\<lambda>e. ((tm_table_name (table_meta (J (fst e))), im_index_name (I (fst e))), fst e)) m) (t, x) of
       None \<Rightarrow> index_name_of cm t x | Some iid \<Rightarrow> Some iid))"
  using assms
proof (induction m arbitrary: cm bp)
  case Nil
  then show ?case using kept_refl[of bp] loadingD(1) by (intro exI[of _ cm] exI[of _ bp]) simp
next
  case (Cons e m)
  obtain iid pid where e: "e = (iid, pid)" by (cases e)
  have "(iid, pid) \<in> set (e # m)" by (simp add: e)
  from Cons.prems(1)[rule_format, OF this] obtain n s where s: "allocated bp pid" "pid \<noteq> CATALOG_META_PAGE_ID" "IndexMetadata_DeserializeFrom (view bp pid) 0 = Some (n, I iid)"
    "map_of (tables cm) (im_table_id (I iid)) = Some (J iid)" "ShallowCopySchema (tm_schema (table_meta (J iid))) (map unat (im_key_map (I iid))) = Some s" by blast
  let ?t = "tm_table_name (table_meta (J iid))" and ?x = "im_index_name (I iid)"
  obtain bp1 where l: "kept bp bp1 (view bp)"
    "LoadIndex iid pid cm bp = Some ((add_index_name ?t ?x iid cm)\<lparr>indexes := hash_emplace iid (opened_index (view bp) cm (I iid)) (indexes cm)\<rparr>, bp1)"
    by (rule LoadIndex_ok[OF Cons.prems(5) s Cons.prems(6,7), of iid])
  define cm1 where "cm1 = (add_index_name ?t ?x iid cm)\<lparr>indexes := indexes cm @ [(iid, opened_index (view bp) cm (I iid))], next_index_id := Some (iid + 1)\<rparr>"
  have P: "tables cm1 = tables cm" "table_names cm1 = table_names cm" "catalog_meta cm1 = catalog_meta cm" "next_table_id cm1 = next_table_id cm"
    "next_index_id cm1 = Some (iid + 1)" "indexes cm1 = indexes cm @ [(iid, opened_index (view bp) cm (I iid))]"
    by (simp_all add: cm1_def add_index_name_def)
  have new: "iid \<notin> fst ` set (indexes cm)" "index_name_of cm ?t ?x = None" using Cons.prems(2,4) by (auto simp: e)
  have N: "index_name_of cm1 t x = (if t = ?t \<and> x = ?x then Some iid else index_name_of cm t x)" for t x
    using add_index_name_of[OF new(2), of iid t x] by (simp add: cm1_def index_name_of_def)
  have k: "allocated bp1 = allocated bp" "\<forall>q. allocated bp q \<longrightarrow> view bp1 q = view bp q" using l(1) by (simp_all add: kept_def)
  have p: "\<forall>t r. (t, r) \<in> set m \<longrightarrow> allocated bp1 r \<and> r \<noteq> CATALOG_META_PAGE_ID \<and> (\<exists>n. IndexMetadata_DeserializeFrom (view bp1 r) 0 = Some (n, I t)) \<and>
      map_of (tables cm1) (im_table_id (I t)) = Some (J t) \<and> ShallowCopySchema (tm_schema (table_meta (J t))) (map unat (im_key_map (I t))) \<noteq> None"
    using Cons.prems(1) k unfolding P(1) by (intro allI impI) (metis list.set_intros(2))
  have d: "distinct (map fst (indexes cm1) @ map fst m)" "distinct (map (\<lambda>e. (tm_table_name (table_meta (J (fst e))), im_index_name (I (fst e)))) m)"
    using Cons.prems(2,3) by (auto simp: P(6) e)
  have n: "\<forall>t \<in> fst ` set m. index_name_of cm1 (tm_table_name (table_meta (J t))) (im_index_name (I t)) = None"
  proof
    fix t assume t: "t \<in> fst ` set m"
    have "(tm_table_name (table_meta (J t)), im_index_name (I t)) \<noteq> (?t, ?x)" using Cons.prems(3) t by (force simp: e)
    then show "index_name_of cm1 (tm_table_name (table_meta (J t))) (im_index_name (I t)) = None" using Cons.prems(4) t unfolding N by auto
  qed
  have r1: "allocated bp1 INDEX_ROOTS_PAGE_ID" "roots_ok (IndexRootsPage_of (view bp1 INDEX_ROOTS_PAGE_ID))" "view bp1 INDEX_ROOTS_PAGE_ID = view bp INDEX_ROOTS_PAGE_ID"
    using Cons.prems(6,7) k by simp_all
  obtain cm' bp' where r: "kept bp1 bp' (view bp1)" "load_indexes m cm1 bp1 = Some (cm', bp')" "tables cm' = tables cm1" "table_names cm' = table_names cm1"
    "catalog_meta cm' = catalog_meta cm1" "next_table_id cm' = next_table_id cm1" "indexes cm' = indexes cm1 @ map (\<lambda>e. (fst e, opened_index (view bp1) cm1 (I (fst e)))) m"
    "next_index_id cm' = (if m = [] then next_index_id cm1 else Some (fst (last m) + 1))"
    "\<forall>t x. index_name_of cm' t x = (case map_of (map (\<lambda>e. ((tm_table_name (table_meta (J (fst e))), im_index_name (I (fst e))), fst e)) m) (t, x) of
       None \<Rightarrow> index_name_of cm1 t x | Some iid \<Rightarrow> Some iid)"
    using Cons.IH[OF p d n loading_kept[OF Cons.prems(5) l(1)] r1(1,2)] by (elim exE conjE) (rule that; assumption)
  have "load_indexes (e # m) cm bp = Some (cm', bp')" using r(2) by (simp add: e l(2) hash_emplace_new[OF new(1)] cm1_def)
  moreover have "opened_index (view bp1) cm1 i = opened_index (view bp) cm i" for i by (rule opened_index_cong) (simp_all add: r1(3) P(1))
  moreover have "map_of (map (\<lambda>e. ((tm_table_name (table_meta (J (fst e))), im_index_name (I (fst e))), fst e)) m) (?t, ?x) = None"
    unfolding map_of_eq_None_iff using Cons.prems(3) by (force simp: e)
  ultimately show ?case using r(3-8) kept_chain[OF l(1) r(1)] r(9) unfolding P
    by (intro exI[of _ cm'] exI[of _ bp']) (auto simp: e N split: option.splits)
qed

section \<open>The catalog that is loaded\<close>

lemma flush_kept:
  assumes "pool_inv bp"
  obtains b bp' where "FlushPage bp pid = Some (b, bp')" "kept bp bp' (view bp)"
proof (cases "page_table bp pid")
  case None
  then show ?thesis using that[of False bp] kept_refl[OF assms] by (simp add: FlushPage_def)
next
  case (Some f)
  have l: "load_page bp f = Some (view bp pid)" "length (view bp pid) = PAGE_SIZE" using pool_load_law[OF assms Some] by simp_all
  obtain bp1 bp2 where w: "store_page bp f (view bp pid) = Some bp1" "FlushPage bp1 pid = Some (True, bp2)" "pool_inv bp2" "allocated bp2 = allocated bp"
    "\<forall>q. allocated bp q \<longrightarrow> view bp2 q = (if q = pid then view bp pid else view bp q)" "pins bp2 = pins bp"
    "touched bp2 = touched bp - {pid}" "page_table bp2 = page_table bp" "pool_size bp2 = pool_size bp"
    using pool_write_flush[OF assms Some l(2)] by (elim exE conjE) (rule that; assumption)
  obtain p where p: "get_page bp f = Some p" "pdata p = view bp pid" using l(1) by (auto simp: load_page_def)
  have "p\<lparr>pdata := view bp pid\<rparr> = p" by (cases p) (use p(2) in simp)
  then have "bp1 = bp" using w(1) p(1) by (auto simp: store_page_def get_page_def set_page_def split: if_splits)
  moreover have "kept bp bp2 (view bp)" using w(3-9) by (auto simp: kept_def)
  ultimately show ?thesis using that w(2) by blast
qed

lemma distinct_by_key:
  assumes "distinct (map fst m)" "\<And>t t'. t \<in> fst ` set m \<Longrightarrow> t' \<in> fst ` set m \<Longrightarrow> f t = f t' \<Longrightarrow> t = t'"
  shows "distinct (map (\<lambda>e. f (fst e)) m)"
proof -
  have "inj_on f (set (map fst m))" using assms(2) by (auto intro!: inj_onI)
  then have "distinct (map f (map fst m))" using assms(1) by (simp only: distinct_map)
  then show ?thesis by (simp add: comp_def)
qed

lemma map_of_by_key: "distinct (map (\<lambda>e. f (fst e)) m) \<Longrightarrow> map_of (map (\<lambda>e. (f (fst e), fst e)) m) y = Some t \<longleftrightarrow> t \<in> fst ` set m \<and> f t = y"
  by (subst map_of_eq_Some_iff) (auto simp: comp_def)

lemma map_of_keyed: "map_of (map (\<lambda>e. (fst e, g (fst e))) m) t = (if t \<in> fst ` set m then Some (g t) else None)"
  by (induction m) auto

lemma ShallowCopySchema_map: "ShallowCopySchema (map f cs) ks = map_option (map f) (ShallowCopySchema cs ks)"
  by (auto simp: ShallowCopySchema_def list_all_iff)

lemma stored_table_again: "stored_table (stored_table m) = stored_table m" "tm_table_name (stored_table m) = tm_table_name m" "tm_table_id (stored_table m) = tm_table_id m"
  by (simp_all add: stored_table_def stored_column_def comp_def)

definition reopened_table :: "TableInfo \<Rightarrow> TableInfo" where
  "reopened_table info = opened_table (stored_table (table_meta info))"

definition reopened_index :: "(page_id_t \<Rightarrow> byte list) \<Rightarrow> IndexInfo \<Rightarrow> IndexInfo" where
  "reopened_index c ix = \<lparr>index_meta = index_meta ix, index_tree = opened_tree c (im_index_id (index_meta ix)), index_table = reopened_table (index_table ix),
     key_schema = map stored_column (key_schema ix)\<rparr>"

lemma option_eq_iff_Some: "(\<And>a. x = Some a \<longleftrightarrow> y = Some a) \<Longrightarrow> x = y"
  by (cases x; cases y) auto

lemma catalog_load:
  assumes inv: "catalog_inv cm bp" and l: "loading bp1" "allocated bp1 = allocated bp" "\<forall>q. allocated bp q \<longrightarrow> view bp1 q = view bp q"
    and cm0: "catalog_meta cm0 = catalog_meta cm" "table_names cm0 = []" "tables cm0 = []" "index_names cm0 = []" "indexes cm0 = []"
  obtains cm1 bp2 cm2 bp3 where "load_tables (table_meta_pages (catalog_meta cm)) cm0 bp1 = Some (cm1, bp2)"
    "load_indexes (index_meta_pages (catalog_meta cm)) cm1 bp2 = Some (cm2, bp3)" "kept bp1 bp3 (view bp1)" "catalog_meta cm2 = catalog_meta cm"
    "map_of (table_names cm2) = map_of (table_names cm)" "index_name_of cm2 = index_name_of cm"
    "map_of (tables cm2) = (\<lambda>t. if t \<in> fst ` set (table_meta_pages (catalog_meta cm)) then map_option reopened_table (map_of (tables cm) t) else None)"
    "map_of (indexes cm2) = (\<lambda>i. if i \<in> fst ` set (index_meta_pages (catalog_meta cm)) then map_option (reopened_index (view bp)) (map_of (indexes cm) i) else None)"
    "next_table_id cm2 = (if table_meta_pages (catalog_meta cm) = [] then next_table_id cm0 else Some (fst (last (table_meta_pages (catalog_meta cm))) + 1))"
    "next_index_id cm2 = (if index_meta_pages (catalog_meta cm) = [] then next_index_id cm0 else Some (fst (last (index_meta_pages (catalog_meta cm))) + 1))"
proof -
  note V = catalog_invD[OF inv]
  let ?m = "table_meta_pages (catalog_meta cm)" and ?n = "index_meta_pages (catalog_meta cm)"
  define T where "T t = stored_table (table_meta (the (map_of (tables cm) t)))" for t
  define I where "I i = index_meta (the (map_of (indexes cm) i))" for i
  have srt: "distinct (map fst ?m)" "distinct (map fst ?n)" using V(6) by (simp_all add: catalog_fits_def catalog_ok_def map_sorted_def strict_sorted_iff)
  have t: "map_of (tables cm) t = Some (the (map_of (tables cm) t)) \<and> map_of (table_names cm) (tm_table_name (T t)) = Some t \<and>
      reopened_table (the (map_of (tables cm) t)) = opened_table (T t)" if tk: "t \<in> fst ` set ?m" for t
  proof -
    obtain r where "(t, r) \<in> set ?m" using tk by auto
    from V(7)[OF this] show ?thesis unfolding table_stored_def by (auto simp: T_def stored_table_again reopened_table_def)
  qed
  have dt: "distinct (map (\<lambda>e. tm_table_name (T (fst e))) ?m)"
    by (rule distinct_by_key[OF srt(1)]) (metis option.inject t)
  have p: "allocated bp1 r \<and> r \<noteq> CATALOG_META_PAGE_ID \<and> (\<exists>n. TableMetadata_DeserializeFrom (view bp1 r) 0 = Some (n, T k))" if "(k, r) \<in> set ?m" for k r
    using V(7)[OF that] l(2,3) unfolding table_stored_def by (auto simp: T_def)
  have d0: "distinct (map fst (tables cm0) @ map fst ?m)" "distinct (map fst (table_names cm0) @ map (\<lambda>e. tm_table_name (T (fst e))) ?m)"
    using srt dt cm0 by simp_all
  obtain bp2 where L: "kept bp1 bp2 (view bp1)" "load_tables ?m cm0 bp1 = Some (cm0\<lparr>table_names := table_names cm0 @ map (\<lambda>e. (tm_table_name (T (fst e)), fst e)) ?m,
    tables := tables cm0 @ map (\<lambda>e. (fst e, opened_table (T (fst e)))) ?m, next_table_id := (if ?m = [] then next_table_id cm0 else Some (fst (last ?m) + 1))\<rparr>, bp2)"
    using load_tables_ok[OF p d0 l(1)] by blast
  define cm1 where "cm1 = cm0\<lparr>table_names := table_names cm0 @ map (\<lambda>e. (tm_table_name (T (fst e)), fst e)) ?m,
    tables := tables cm0 @ map (\<lambda>e. (fst e, opened_table (T (fst e)))) ?m, next_table_id := (if ?m = [] then next_table_id cm0 else Some (fst (last ?m) + 1))\<rparr>"
  have P: "catalog_meta cm1 = catalog_meta cm" "index_name_of cm1 = (\<lambda>t x. None)" "indexes cm1 = []" "next_index_id cm1 = next_index_id cm0"
    "next_table_id cm1 = (if ?m = [] then next_table_id cm0 else Some (fst (last ?m) + 1))"
    using cm0 by (simp_all add: cm1_def fun_eq_iff index_name_of_def)
  have T1: "map_of (tables cm1) = (\<lambda>t. if t \<in> fst ` set ?m then map_option reopened_table (map_of (tables cm) t) else None)"
  proof (rule ext)
    fix x
    have k: "map_of (tables cm1) x = (if x \<in> fst ` set ?m then Some (opened_table (T x)) else None)"
      using map_of_keyed[of "\<lambda>t. opened_table (T t)" ?m x] cm0(3) by (simp add: cm1_def)
    show "map_of (tables cm1) x = (if x \<in> fst ` set ?m then map_option reopened_table (map_of (tables cm) x) else None)"
    proof (cases "x \<in> fst ` set ?m")
      case True
      obtain info where "map_of (tables cm) x = Some info" using t[OF True] by blast
      then show ?thesis using t[OF True] k by simp
    qed (simp add: k)
  qed
  have N1: "map_of (table_names cm1) = map_of (table_names cm)"
  proof (rule ext, rule option_eq_iff_Some)
    fix name k
    have "map_of (table_names cm1) name = Some k \<longleftrightarrow> k \<in> fst ` set ?m \<and> tm_table_name (T k) = name"
      using map_of_by_key[OF dt] cm0(2) by (simp add: cm1_def)
    also have "\<dots> \<longleftrightarrow> map_of (table_names cm) name = Some k"
      using t[of k] V(9)[of name k] by (auto simp: T_def stored_table_again)
    finally show "map_of (table_names cm1) name = Some k \<longleftrightarrow> map_of (table_names cm) name = Some k" .
  qed
  have i: "map_of (indexes cm) k = Some (the (map_of (indexes cm) k)) \<and> im_index_id (I k) = k \<and>
      map_of (tables cm1) (im_table_id (I k)) = Some (reopened_table (index_table (the (map_of (indexes cm) k)))) \<and>
      ShallowCopySchema (tm_schema (table_meta (reopened_table (index_table (the (map_of (indexes cm) k)))))) (map unat (im_key_map (I k))) =
        Some (map stored_column (key_schema (the (map_of (indexes cm) k)))) \<and>
      index_name_of cm (tm_table_name (table_meta (reopened_table (index_table (the (map_of (indexes cm) k)))))) (im_index_name (I k)) = Some k" if tk: "k \<in> fst ` set ?n" for k
  proof -
    obtain r where "(k, r) \<in> set ?n" using tk by auto
    then obtain ix where s: "map_of (indexes cm) k = Some ix" "im_index_id (index_meta ix) = k" "map_of (tables cm) (im_table_id (index_meta ix)) = Some (index_table ix)"
      "im_table_id (index_meta ix) \<in> fst ` set ?m" "ShallowCopySchema (tm_schema (table_meta (index_table ix))) (map unat (im_key_map (index_meta ix))) = Some (key_schema ix)"
      "index_name_of cm (tm_table_name (table_meta (index_table ix))) (im_index_name (index_meta ix)) = Some k"
      using V(8)[of k r] unfolding index_stored_def by blast
    then show ?thesis unfolding T1
      by (simp add: I_def reopened_table_def opened_table_def stored_table_again) (simp add: stored_table_def ShallowCopySchema_map)
  qed
  define J where "J k = reopened_table (index_table (the (map_of (indexes cm) k)))" for k
  let ?f = "\<lambda>k. (tm_table_name (table_meta (J k)), im_index_name (I k))"
  have di: "distinct (map (\<lambda>e. ?f (fst e)) ?n)"
    by (rule distinct_by_key[OF srt(2)]) (metis Pair_inject i J_def option.inject)
  have K2: "allocated bp2 = allocated bp" "\<forall>q. allocated bp q \<longrightarrow> view bp2 q = view bp q" using L(1) l(2,3) by (simp_all add: kept_def)
  have q: "\<forall>k r. (k, r) \<in> set ?n \<longrightarrow> allocated bp2 r \<and> r \<noteq> CATALOG_META_PAGE_ID \<and> (\<exists>n. IndexMetadata_DeserializeFrom (view bp2 r) 0 = Some (n, I k)) \<and>
      map_of (tables cm1) (im_table_id (I k)) = Some (J k) \<and> ShallowCopySchema (tm_schema (table_meta (J k))) (map unat (im_key_map (I k))) \<noteq> None"
  proof (intro allI impI)
    fix k r assume kr: "(k, r) \<in> set ?n"
    have "\<exists>n. IndexMetadata_DeserializeFrom (view bp2 r) 0 = Some (n, I k)" "allocated bp2 r" "r \<noteq> CATALOG_META_PAGE_ID"
      using V(8)[OF kr] K2 unfolding index_stored_def by (auto simp: I_def)
    moreover have "k \<in> fst ` set ?n" using kr by force
    ultimately show "allocated bp2 r \<and> r \<noteq> CATALOG_META_PAGE_ID \<and> (\<exists>n. IndexMetadata_DeserializeFrom (view bp2 r) 0 = Some (n, I k)) \<and>
      map_of (tables cm1) (im_table_id (I k)) = Some (J k) \<and> ShallowCopySchema (tm_schema (table_meta (J k))) (map unat (im_key_map (I k))) \<noteq> None"
      using i[of k] by (simp add: J_def)
  qed
  have d1: "distinct (map fst (indexes cm1) @ map fst ?n)" using srt P(3) by simp
  have n1: "\<forall>k \<in> fst ` set ?n. index_name_of cm1 (tm_table_name (table_meta (J k))) (im_index_name (I k)) = None" by (simp add: P(2))
  have rt: "allocated bp2 INDEX_ROOTS_PAGE_ID" "roots_ok (IndexRootsPage_of (view bp2 INDEX_ROOTS_PAGE_ID))" "view bp2 INDEX_ROOTS_PAGE_ID = view bp INDEX_ROOTS_PAGE_ID"
    using V(4,5) K2 by simp_all
  obtain cm2 bp3 where M: "kept bp2 bp3 (view bp2)" "load_indexes ?n cm1 bp2 = Some (cm2, bp3)" "tables cm2 = tables cm1" "table_names cm2 = table_names cm1"
    "catalog_meta cm2 = catalog_meta cm1" "next_table_id cm2 = next_table_id cm1" "indexes cm2 = indexes cm1 @ map (\<lambda>e. (fst e, opened_index (view bp2) cm1 (I (fst e)))) ?n"
    "next_index_id cm2 = (if ?n = [] then next_index_id cm1 else Some (fst (last ?n) + 1))"
    "\<forall>t x. index_name_of cm2 t x = (case map_of (map (\<lambda>e. (?f (fst e), fst e)) ?n) (t, x) of None \<Rightarrow> index_name_of cm1 t x | Some iid \<Rightarrow> Some iid)"
    using load_indexes_ok[OF q d1 di n1 loading_kept[OF l(1) L(1)] rt(1,2)] by (elim exE conjE) (rule that; assumption)
  have "opened_index (view bp2) cm1 (I k) = reopened_index (view bp) (the (map_of (indexes cm) k))" if "k \<in> fst ` set ?n" for k
    using i[OF that] rt(3) by (simp add: opened_index_def reopened_index_def opened_tree_def) (simp add: I_def)
  then have o: "map_of (indexes cm2) k = (if k \<in> fst ` set ?n then Some (reopened_index (view bp) (the (map_of (indexes cm) k))) else None)" for k
    using map_of_keyed[of "\<lambda>k. opened_index (view bp2) cm1 (I k)" ?n k] by (simp add: M(7) P(3))
  have X: "map_of (indexes cm2) = (\<lambda>k. if k \<in> fst ` set ?n then map_option (reopened_index (view bp)) (map_of (indexes cm) k) else None)"
  proof (rule ext)
    fix k
    show "map_of (indexes cm2) k = (if k \<in> fst ` set ?n then map_option (reopened_index (view bp)) (map_of (indexes cm) k) else None)"
    proof (cases "k \<in> fst ` set ?n")
      case True
      obtain ix where "map_of (indexes cm) k = Some ix" using i[OF True] by blast
      then show ?thesis using o[of k] by simp
    qed (simp add: o)
  qed
  have Y: "index_name_of cm2 = index_name_of cm"
  proof (intro ext, rule option_eq_iff_Some)
    fix t x k
    have "index_name_of cm2 t x = Some k \<longleftrightarrow> k \<in> fst ` set ?n \<and> ?f k = (t, x)"
      unfolding map_of_by_key[OF di, of "(t, x)" k, symmetric] M(9)[rule_format, of t x] P(2) by (simp only: option.case_eq_if option.collapse if_cancel) auto
    also have "\<dots> \<longleftrightarrow> index_name_of cm t x = Some k"
      using i[of k] V(10)[of t x k] by (auto simp: J_def I_def reopened_table_def opened_table_def stored_table_again)
    finally show "index_name_of cm2 t x = Some k \<longleftrightarrow> index_name_of cm t x = Some k" .
  qed
  show ?thesis
    by (rule that[OF L(2)[folded cm1_def] M(2) kept_chain[OF L(1) M(1)]]) (simp_all add: M(3-6,8) P X Y T1 N1)
qed

section \<open>Opening\<close>

lemma GetIndex_names: "GetIndex t x cm = (case index_name_of cm t x of None \<Rightarrow> Some (DB_INDEX_NOT_FOUND, None)
    | Some iid \<Rightarrow> map_option (\<lambda>ix. (DB_SUCCESS, Some ix)) (map_of (indexes cm) iid))"
  by (auto simp: GetIndex_def index_name_of_def split: option.splits bind_splits)

lemma catalog_reopened:
  assumes inv: "catalog_inv cm bp" "catalog_stored cm bp" and size: "2 < pool_size bp"
  shows "\<exists>cm' bp'. CatalogManager_open bp = Some (cm', bp') \<and> kept bp bp' (view bp) \<and> catalog_inv cm' bp' \<and> catalog_stored cm' bp' \<and>
    (\<forall>name. GetTable name cm' = map_prod (\<lambda>r. r) (map_option reopened_table) (GetTable name cm)) \<and>
    (\<forall>t x. GetIndex t x cm' = map_option (map_prod (\<lambda>r. r) (map_option (reopened_index (view bp)))) (GetIndex t x cm)) \<and>
    next_table_id cm' = (if table_meta_pages (catalog_meta cm) = [] then None else Some (fst (last (table_meta_pages (catalog_meta cm))) + 1)) \<and>
    next_index_id cm' = (if index_meta_pages (catalog_meta cm) = [] then None else Some (fst (last (index_meta_pages (catalog_meta cm))) + 1))"
proof -
  note V = catalog_invD[OF inv(1)]
  let ?m = "table_meta_pages (catalog_meta cm)" and ?n = "index_meta_pages (catalog_meta cm)"
  have sp: "spare bp" "CATALOG_META_PAGE_ID \<notin> touched bp" using idle_spare[OF V(2)] size idle_clean[OF V(1)] V(2) by simp_all
  obtain f bp1 where v: "FetchPage bp CATALOG_META_PAGE_ID = Some (f, bp1)" "load_page bp1 f = Some (view bp CATALOG_META_PAGE_ID)" "kept bp1 bp1 (view bp1)"
    "allocated bp1 = allocated bp" "\<forall>q. allocated bp q \<longrightarrow> view bp1 q = view bp q" "pins bp1 = (pins bp)(CATALOG_META_PAGE_ID := Suc (pins bp CATALOG_META_PAGE_ID))"
    "pool_size bp1 = pool_size bp"
    "\<forall>bp2. kept bp1 bp2 (view bp1) \<longrightarrow> (\<exists>bp3. UnpinPage bp2 CATALOG_META_PAGE_ID False = Some (True, bp3) \<and> kept bp bp3 (view bp))"
    by (rule read_bracket[OF V(1,3) sp]) (rule that; assumption)
  have l1: "loading bp1" using v(3,6,7) V(2) size by (simp add: loading_def kept_def)
  define cm0 where "cm0 = \<lparr>catalog_meta = catalog_meta cm, next_table_id = None, next_index_id = None, table_names = [], tables = [], index_names = [], indexes = []\<rparr>"
  have c0: "catalog_meta cm0 = catalog_meta cm" "table_names cm0 = []" "tables cm0 = []" "index_names cm0 = []" "indexes cm0 = []"
    "next_table_id cm0 = None" "next_index_id cm0 = None" by (simp_all add: cm0_def)
  obtain cm1 bp2 cm2 bp3 where L: "load_tables ?m cm0 bp1 = Some (cm1, bp2)" "load_indexes ?n cm1 bp2 = Some (cm2, bp3)" "kept bp1 bp3 (view bp1)"
    "catalog_meta cm2 = catalog_meta cm" "map_of (table_names cm2) = map_of (table_names cm)" "index_name_of cm2 = index_name_of cm"
    "map_of (tables cm2) = (\<lambda>t. if t \<in> fst ` set ?m then map_option reopened_table (map_of (tables cm) t) else None)"
    "map_of (indexes cm2) = (\<lambda>i. if i \<in> fst ` set ?n then map_option (reopened_index (view bp)) (map_of (indexes cm) i) else None)"
    "next_table_id cm2 = (if ?m = [] then next_table_id cm0 else Some (fst (last ?m) + 1))"
    "next_index_id cm2 = (if ?n = [] then next_index_id cm0 else Some (fst (last ?n) + 1))"
    by (rule catalog_load[OF inv(1) l1 v(4,5) c0(1-5)]) (rule that; assumption)
  obtain bp4 where u: "UnpinPage bp3 CATALOG_META_PAGE_ID False = Some (True, bp4)" "kept bp bp4 (view bp)" using v(8) L(3) by blast
  have i4: "pool_inv bp4" using u(2) by (simp add: kept_def)
  obtain b bp5 where fl: "FlushPage bp4 CATALOG_META_PAGE_ID = Some (b, bp5)" "kept bp4 bp5 (view bp4)" by (rule flush_kept[OF i4])
  have k: "kept bp bp5 (view bp)" by (rule kept_chain[OF u(2) fl(2)])
  have run: "CatalogManager_open bp = Some (cm2, bp5)"
    using inv(2) by (simp add: CatalogManager_open_def catalog_stored_def v(1,2) L(1,2) u(1) fl(1) cm0_def[symmetric] FlushCatalogMetaPage_def)
  have tab: "GetTable name cm2 = map_prod (\<lambda>r. r) (map_option reopened_table) (GetTable name cm)" for name
    using V(9)[of name] by (auto simp: GetTable_def L(5,7) split: option.splits)
  have idx: "GetIndex t x cm2 = map_option (map_prod (\<lambda>r. r) (map_option (reopened_index (view bp)))) (GetIndex t x cm)" for t x
    using V(10)[of t x] by (auto simp: GetIndex_names L(6,8) split: option.splits)
  have K: "pool_inv bp5" "pins bp5 = (\<lambda>q. 0)" "allocated bp5 = allocated bp" "\<And>q. allocated bp q \<Longrightarrow> view bp5 q = view bp q"
    using k V(2) by (simp_all add: kept_def)
  have "catalog_inv cm2 bp5" unfolding catalog_inv_def L(4)
  proof (intro conjI)
    show "pool_inv bp5" "pins bp5 = (\<lambda>q. 0)" "allocated bp5 CATALOG_META_PAGE_ID" "allocated bp5 INDEX_ROOTS_PAGE_ID" "catalog_fits (catalog_meta cm)"
      "roots_ok (IndexRootsPage_of (view bp5 INDEX_ROOTS_PAGE_ID))" using V(3-6) K by simp_all
    show "\<forall>(t, r) \<in> set ?m. allocated bp5 r \<and> r \<noteq> CATALOG_META_PAGE_ID \<and> table_stored (view bp5) cm2 t r"
    proof (intro ballI, clarify)
      fix t r assume tr: "(t, r) \<in> set ?m"
      then have "t \<in> fst ` set ?m" by force
      then show "allocated bp5 r \<and> r \<noteq> CATALOG_META_PAGE_ID \<and> table_stored (view bp5) cm2 t r"
        using V(7)[OF tr] K(3,4) unfolding table_stored_def L(5,7)
        by (auto simp: reopened_table_def opened_table_def stored_table_again)
    qed
    show "\<forall>(i, r) \<in> set ?n. allocated bp5 r \<and> r \<noteq> CATALOG_META_PAGE_ID \<and> index_stored (view bp5) cm2 i r"
    proof (intro ballI, clarify)
      fix i r assume ir: "(i, r) \<in> set ?n"
      then have ki: "i \<in> fst ` set ?n" by force
      obtain ix n where s: "map_of (indexes cm) i = Some ix" "im_index_id (index_meta ix) = i" "IndexMetadata_DeserializeFrom (view bp r) 0 = Some (n, index_meta ix)"
        "map_of (tables cm) (im_table_id (index_meta ix)) = Some (index_table ix)" "im_table_id (index_meta ix) \<in> fst ` set ?m"
        "ShallowCopySchema (tm_schema (table_meta (index_table ix))) (map unat (im_key_map (index_meta ix))) = Some (key_schema ix)"
        "index_name_of cm (tm_table_name (table_meta (index_table ix))) (im_index_name (index_meta ix)) = Some i" "allocated bp r" "r \<noteq> CATALOG_META_PAGE_ID"
        using V(8)[OF ir] unfolding index_stored_def by blast
      have sc: "ShallowCopySchema (map stored_column (tm_schema (table_meta (index_table ix)))) (map unat (im_key_map (index_meta ix))) = Some (map stored_column (key_schema ix))"
        by (simp add: ShallowCopySchema_map s(6))
      have "index_stored (view bp5) cm2 i r" unfolding index_stored_def L(4,6,7,8)
        by (rule exI[of _ "reopened_index (view bp) ix"], rule exI[of _ n])
          (use s sc ki K(4) in \<open>simp add: reopened_index_def reopened_table_def opened_table_def stored_table_again; simp add: stored_table_def\<close>)
      then show "allocated bp5 r \<and> r \<noteq> CATALOG_META_PAGE_ID \<and> index_stored (view bp5) cm2 i r" using s(8,9) K(3) by simp
    qed
    show "\<forall>x t. map_of (table_names cm2) x = Some t \<longrightarrow> (\<exists>info. map_of (tables cm2) t = Some info \<and> tm_table_name (table_meta info) = x) \<and> t \<in> fst ` set ?m"
    proof (intro allI impI)
      fix x t assume "map_of (table_names cm2) x = Some t"
      then show "(\<exists>info. map_of (tables cm2) t = Some info \<and> tm_table_name (table_meta info) = x) \<and> t \<in> fst ` set ?m"
        using V(9)[of x t] unfolding L(5,7) by (auto simp: reopened_table_def opened_table_def stored_table_again)
    qed
    show "\<forall>x y i. index_name_of cm2 x y = Some i \<longrightarrow>
        (\<exists>ix. map_of (indexes cm2) i = Some ix \<and> tm_table_name (table_meta (index_table ix)) = x \<and> im_index_name (index_meta ix) = y) \<and> i \<in> fst ` set ?n"
    proof (intro allI impI)
      fix x y i assume "index_name_of cm2 x y = Some i"
      then show "(\<exists>ix. map_of (indexes cm2) i = Some ix \<and> tm_table_name (table_meta (index_table ix)) = x \<and> im_index_name (index_meta ix) = y) \<and> i \<in> fst ` set ?n"
        using V(10)[of x y i] unfolding L(6,8) by (auto simp: reopened_index_def reopened_table_def opened_table_def stored_table_again)
    qed
  qed
  moreover have "catalog_stored cm2 bp5" using inv(2) K(4)[OF V(3)] by (simp add: catalog_stored_def L(4))
  ultimately show ?thesis using run k tab idx L(9,10) c0(6,7) by (intro exI[of _ cm2] exI[of _ bp5]) simp
qed

end
