(* ===== verification/Catalog_Changes.thy ===== *)
theory Catalog_Changes
  imports Catalog_Reload
begin

text \<open>Creating an index and dropping a table, and a catalog that cannot be loaded.\<close>

section \<open>Creating an index\<close>

lemma key_positions_ok:
  assumes "key_positions columns ks = Some js" "length columns < 2 ^ 32" "columns \<noteq> []"
  shows "\<exists>s. ShallowCopySchema columns (map unat js) = Some s \<and> map name_of s = ks \<and> length js = length ks"
  using assms(1)
proof (induction ks arbitrary: js)
  case (Cons k ks)
  have g: "j < length cs \<and> name_of (cs ! j) = k" if "GetColumnIndex cs k = Some j" for cs j
    using that by (induction cs arbitrary: j) (auto split: if_splits)
  obtain j js' where j: "GetColumnIndex columns k = Some j" "key_positions columns ks = Some js'" "js = of_nat j # js'"
    using Cons.prems assms(3) by (auto split: bind_splits)
  obtain s where s: "ShallowCopySchema columns (map unat js') = Some s" "map name_of s = ks" "length js' = length ks" using Cons.IH[OF j(2)] by blast
  have "unat (of_nat j :: u32) = j" using g[OF j(1)] assms(2) by (simp add: unat_of_nat_u32)
  then show ?case using g[OF j(1)] s j(3) by (auto simp: ShallowCopySchema_def split: if_splits)
qed (simp add: ShallowCopySchema_def)

lemma store_free_list: "store_page bp f d = Some bp' \<Longrightarrow> free_list bp' = free_list bp"
  by (auto simp: store_page_def set_page_def split: bind_splits)

text \<open>The new page of an index is pinned while page 0 is written.\<close>

lemma write_new_page:
  assumes "pool_inv bp" "\<exists>q. logical_ok q \<and> \<not> allocated bp q" "free_list bp \<noteq> []" "pins bp = (\<lambda>q. 0)" "1 < pool_size bp" "allocated bp CATALOG_META_PAGE_ID"
    and "length d = PAGE_SIZE" and "\<And>pid. int32_range pid \<Longrightarrow> catalog_fits (cmeta pid)"
  obtains pid f bp1 bp2 e bp3 bp4 where "NewPage bp = Some (Some (pid, f), bp1)" "load_page bp1 f = Some (replicate PAGE_SIZE 0)" "store_page bp1 f d = Some bp2"
    "write_catalog (cmeta pid) bp2 = Some bp3" "UnpinPage bp3 pid True = Some (True, bp4)" "pool_inv bp4" "pins bp4 = (\<lambda>q. 0)" "\<not> allocated bp pid"
    "allocated bp4 = (\<lambda>q. q = pid \<or> allocated bp q)" "CatalogMeta_DeserializeFrom e 0 = Some (cmeta pid)"
    "\<forall>q. allocated bp4 q \<longrightarrow> view bp4 q = (if q = CATALOG_META_PAGE_ID then e else if q = pid then d else view bp q)" "pool_size bp4 = pool_size bp"
proof -
  obtain pid f bp1 where n: "NewPage bp = Some (Some (pid, f), bp1)" "pool_inv bp1" "\<not> allocated bp pid" "allocated bp1 = (\<lambda>q. q = pid \<or> allocated bp q)"
    "\<forall>q. allocated bp1 q \<longrightarrow> view bp1 q = (if q = pid then replicate PAGE_SIZE 0 else view bp q)" "pins bp1 = (pins bp)(pid := 1)"
    "touched bp1 = touched bp" "page_table bp1 = (page_table bp)(pid \<mapsto> f)" "pool_size bp1 = pool_size bp"
    using pool_new_page[OF assms(1) disk_room[OF assms(2)] assms(3)] by (elim exE conjE) (rule that; assumption)
  have f: "0 < pins bp1 pid" "page_table bp1 pid = Some f" using n(6,8) by simp_all
  have ld: "load_page bp1 f = Some (replicate PAGE_SIZE 0)" using pool_load_law[OF n(2) f(2)] n(4,5) by simp
  obtain bp2 where s: "store_page bp1 f d = Some bp2" "pool_inv bp2" "allocated bp2 = allocated bp1"
    "\<forall>q. allocated bp1 q \<longrightarrow> view bp2 q = (if q = pid then d else view bp1 q)" "pins bp2 = pins bp1" "pool_size bp2 = pool_size bp1"
    using pool_store_law[OF n(2) f assms(7)] by (elim exE conjE) (rule that; assumption)
  have p2: "pins bp2 = (pins bp)(pid := 1)" "pool_size bp2 = pool_size bp" using s(5,6) n(6,9) by simp_all
  have s2: "spare bp2" by (rule spare_more[OF p2 _ assms(1)]) (use assms(4,5) in simp)
  have a2: "allocated bp2 CATALOG_META_PAGE_ID" "int32_range pid" using assms(6) n(4) s(3) allocated_int32[of bp1 pid] by simp_all
  obtain e bp3 where w: "write_catalog (cmeta pid) bp2 = Some bp3" "kept bp2 bp3 ((view bp2)(CATALOG_META_PAGE_ID := e))" "CatalogMeta_DeserializeFrom e 0 = Some (cmeta pid)"
    by (rule write_catalog_ok[OF s(2) a2(1) s2 assms(8)[OF a2(2)]])
  have k: "pool_inv bp3" "0 < pins bp3 pid" "pins bp3 = pins bp2" "allocated bp3 = allocated bp2" "pool_size bp3 = pool_size bp2" "\<forall>q. allocated bp2 q \<longrightarrow> view bp3 q = ((view bp2)(CATALOG_META_PAGE_ID := e)) q"
    using w(2) p2(1) by (simp_all add: kept_def)
  obtain bp4 where u: "UnpinPage bp3 pid True = Some (True, bp4)" "pool_inv bp4" "allocated bp4 = allocated bp3"
    "\<forall>q. allocated bp3 q \<longrightarrow> view bp4 q = view bp3 q" "pins bp4 = (pins bp3)(pid := pins bp3 pid - 1)" "pool_size bp4 = pool_size bp3"
    using pool_unpin_law[OF k(1,2) disjI1[OF TrueI], unfolded if_True] by (elim exE conjE) (rule that; assumption)
  have a4: "allocated bp4 = (\<lambda>q. q = pid \<or> allocated bp q)" using u(3) k(4) s(3) n(4) by simp
  have v: "\<forall>q. allocated bp4 q \<longrightarrow> view bp4 q = (if q = CATALOG_META_PAGE_ID then e else if q = pid then d else view bp q)"
    using u(3,4) k(4,6) s(3,4) n(4,5) by simp
  have p4: "pins bp4 = (\<lambda>q. 0)" using u(5) k(3) p2(1) assms(4) by (auto simp: fun_eq_iff)
  have z: "pool_size bp4 = pool_size bp" using u(6) k(5) p2(2) by simp
  show ?thesis by (rule that[OF n(1) ld s(1) w(1) u(1,2) p4 n(3) a4 w(3) v z])
qed

lemma CreateIndex_new:
  assumes inv: "catalog_inv cm bp" and fresh: "ids_fresh cm" "index_name_of cm t x = None"
    and tab: "map_of (table_names cm) t = Some tid" "map_of (tables cm) tid = Some info"
    and keys: "key_positions (tm_schema (table_meta info)) ks = Some km" "tm_schema (table_meta info) \<noteq> []" "length (tm_schema (table_meta info)) < 2 ^ 32"
    and disk: "logical_ok p" "\<not> allocated bp p" and frames: "1 < length (free_list bp)"
    and meta: "CHR 0x00 \<notin> set x" "length x < 2 ^ 32" "length ks < 2 ^ 32" "24 + length x + 4 * length ks \<le> PAGE_SIZE"
    and room: "CatalogMeta_GetSerializedSize (catalog_meta cm) + 8 \<le> PAGE_SIZE" and size: "1 < pool_size bp" "the (next_index_id cm) + 1 \<noteq> 0"
  shows "\<exists>s cm' bp'. let i = the (next_index_id cm);
      ix = \<lparr>index_meta = \<lparr>im_index_id = i, im_index_name = x, im_table_id = tid, im_key_map = km\<rparr>, index_tree = opened_tree (view bp) i, index_table = info, key_schema = s\<rparr> in
    CreateIndex t x ks cm bp = Some (DB_SUCCESS, Some ix, cm', bp') \<and> map name_of s = ks \<and> catalog_inv cm' bp' \<and> catalog_stored cm' bp' \<and> ids_fresh cm' \<and>
    pool_size bp' = pool_size bp \<and> CatalogMeta_GetSerializedSize (catalog_meta cm') = CatalogMeta_GetSerializedSize (catalog_meta cm) + 8 \<and> table_names cm' = table_names cm \<and> tables cm' = tables cm \<and> indexes cm' = indexes cm @ [(i, ix)] \<and>
    index_name_of cm' = (\<lambda>t' x'. if t' = t \<and> x' = x then Some i else index_name_of cm t' x') \<and>
    (\<forall>q. allocated bp q \<longrightarrow> q \<noteq> CATALOG_META_PAGE_ID \<longrightarrow> allocated bp' q \<and> view bp' q = view bp q)"
proof -
  note I = catalog_invD[OF inv]
  obtain i where i: "next_index_id cm = Some i" "map_of (indexes cm) i = None" "map_of (index_meta_pages (catalog_meta cm)) i = None"
    by (rule ids_freshD[OF fresh(1)]) (rule that; assumption)
  obtain s where s: "ShallowCopySchema (tm_schema (table_meta info)) (map unat km) = Some s" "map name_of s = ks" "length km = length ks"
    using key_positions_ok[OF keys(1,3,2)] by blast
  let ?meta = "\<lparr>im_index_id = i, im_index_name = x, im_table_id = tid, im_key_map = km\<rparr>"
  let ?ix = "\<lparr>index_meta = ?meta, index_tree = opened_tree (view bp) i, index_table = info, key_schema = s\<rparr>"
  have sp: "spare bp" "INDEX_ROOTS_PAGE_ID \<notin> touched bp" using idle_spare[OF I(2)] size(1) idle_clean[OF I(1)] I(2) by simp_all
  have sc: "ShallowCopySchema (tm_schema (table_meta info)) (map unat (im_key_map ?meta)) = Some s" using s(1) by simp
  obtain bp1 where j: "kept bp bp1 (view bp)" "IndexInfo_Init ?meta info bp = Some (?ix, bp1)" "length (free_list bp) \<le> Suc (length (free_list bp1))"
    by (rule IndexInfo_Init_ok[OF I(1,4) sp I(5) sc]) (rule that; simp)
  have k1: "pool_inv bp1" "allocated bp1 = allocated bp" "pins bp1 = (\<lambda>q. 0)" "pool_size bp1 = pool_size bp" "\<forall>q. allocated bp q \<longrightarrow> view bp1 q = view bp q"
    using j(1) I(2) by (simp_all add: kept_def)
  have r1: "\<exists>q. logical_ok q \<and> \<not> allocated bp1 q" "free_list bp1 \<noteq> []" "1 < pool_size bp1" "allocated bp1 CATALOG_META_PAGE_ID"
    using disk frames j(3) size(1) k1(2,4) I(3) by auto
  have ok: "index_meta_ok ?meta" "0 + IndexMetadata_GetSerializedSize ?meta \<le> length (replicate PAGE_SIZE (0 :: byte))"
    using meta s(3) by (simp_all add: index_meta_ok_def IndexMetadata_GetSerializedSize_def)
  obtain d where d: "IndexMetadata_SerializeTo ?meta (replicate PAGE_SIZE 0) 0 = Some (IndexMetadata_GetSerializedSize ?meta, d)" "length d = PAGE_SIZE"
    "IndexMetadata_DeserializeFrom d 0 = Some (IndexMetadata_GetSerializedSize ?meta, ?meta)"
    using index_meta_roundtrip[OF ok] by (auto simp: same_outside_def)
  let ?cmeta = "\<lambda>pid. (catalog_meta cm)\<lparr>index_meta_pages := map_emplace i pid (index_meta_pages (catalog_meta cm))\<rparr>"
  have srt: "map_sorted (index_meta_pages (catalog_meta cm))" using I(6) by (simp add: catalog_fits_def catalog_ok_def)
  note E = map_emplace_fresh[OF srt i(3)]
  have fits: "catalog_fits (?cmeta pid)" if "int32_range pid" for pid using I(6) room E[of pid] map_emplace_sorted[OF srt, of i pid] that
    by (auto simp: catalog_fits_def catalog_ok_def CatalogMeta_GetSerializedSize_def PAGE_SIZE_def list_all_iff)
  obtain pid f bp2 bp3 e bp4 bp5 where n: "NewPage bp1 = Some (Some (pid, f), bp2)" "load_page bp2 f = Some (replicate PAGE_SIZE 0)" "store_page bp2 f d = Some bp3"
    "write_catalog (?cmeta pid) bp3 = Some bp4" "UnpinPage bp4 pid True = Some (True, bp5)" "pool_inv bp5" "pins bp5 = (\<lambda>q. 0)" "\<not> allocated bp1 pid"
    "allocated bp5 = (\<lambda>q. q = pid \<or> allocated bp1 q)" "CatalogMeta_DeserializeFrom e 0 = Some (?cmeta pid)"
    "\<forall>q. allocated bp5 q \<longrightarrow> view bp5 q = (if q = CATALOG_META_PAGE_ID then e else if q = pid then d else view bp1 q)" "pool_size bp5 = pool_size bp1"
    by (rule write_new_page[OF k1(1) r1(1,2) k1(3) r1(3,4) d(2), of ?cmeta, OF fits])
  define cm' where "cm' = (add_index_name t x i cm)\<lparr>catalog_meta := ?cmeta pid, indexes := hash_emplace i ?ix (indexes cm), next_index_id := Some (i + 1)\<rparr>"
  have "\<not> (case map_of (index_names cm) t of None \<Rightarrow> False | Some names \<Rightarrow> map_of names x \<noteq> None)"
    using fresh(2) by (simp add: index_name_of_def split: option.splits)
  then have run: "CreateIndex t x ks cm bp = Some (DB_SUCCESS, Some ?ix, cm', bp5)"
    by (simp add: CreateIndex_def tab keys(1) i(1) j(2) n(1-5) d(1) Let_def cm'_def add_index_name_def)
  have P: "catalog_meta cm' = ?cmeta pid" "table_names cm' = table_names cm" "tables cm' = tables cm" "indexes cm' = hash_emplace i ?ix (indexes cm)"
    "next_table_id cm' = next_table_id cm" "next_index_id cm' = Some (i + 1)"
    by (simp_all add: cm'_def add_index_name_def)
  have names: "index_name_of cm' = (\<lambda>t' x'. if t' = t \<and> x' = x then Some i else index_name_of cm t' x')"
    using add_index_name_of[OF fresh(2), of i] by (simp add: fun_eq_iff cm'_def index_name_of_def)
  have ixs: "map_of (indexes cm') = (map_of (indexes cm))(i \<mapsto> ?ix)" using i(2) by (simp add: hash_emplace_of P(4))
  have neq: "pid \<noteq> CATALOG_META_PAGE_ID" using n(8) I(3) k1(2) by auto
  have a5: "allocated bp5 = (\<lambda>q. q = pid \<or> allocated bp q)" using n(9) k1(2) by simp
  have vold: "view bp5 q = view bp q" if "allocated bp q" "q \<noteq> CATALOG_META_PAGE_ID" for q using n(8,9,11) k1(2,5) that by auto
  have keysI: "fst ` set (index_meta_pages (catalog_meta cm')) = insert i (fst ` set (index_meta_pages (catalog_meta cm)))" using E(1)[of pid] by (simp add: P(1))
  have grown: "grows cm cm'" unfolding grows_def names ixs P(1-3) using fresh(2) i(2) E(1)[of pid] by (auto simp: map_le_def)
  have tm: "tm_table_name (table_meta info) = t" "tid \<in> fst ` set (table_meta_pages (catalog_meta cm))" using I(9)[OF tab(1)] tab(2) by auto
  have new: "index_stored (view bp5) cm' i pid" unfolding index_stored_def names ixs P(3)
    by (rule exI[of _ ?ix]) (use d(3) n(9,11) neq tab(2) tm s(1) in \<open>simp add: P(1)\<close>)
  have "catalog_inv cm' bp5"
  proof (rule catalog_inv_grows[OF inv n(6,7) _ _ _ grown])
    show "\<forall>q. allocated bp q \<longrightarrow> allocated bp5 q" "\<forall>q. allocated bp q \<longrightarrow> q \<noteq> CATALOG_META_PAGE_ID \<longrightarrow> view bp5 q = view bp q" using a5 vold by simp_all
    show "catalog_fits (catalog_meta cm')" using fits[of pid] allocated_int32[of bp5 pid] a5 by (simp add: P(1))
    show "(k, r) \<in> set (table_meta_pages (catalog_meta cm')) \<Longrightarrow> (k, r) \<in> set (table_meta_pages (catalog_meta cm)) \<or>
        allocated bp5 r \<and> r \<noteq> CATALOG_META_PAGE_ID \<and> table_stored (view bp5) cm' k r" for k r by (simp add: P(1))
    show "(k, r) \<in> set (index_meta_pages (catalog_meta cm')) \<Longrightarrow> (k, r) \<in> set (index_meta_pages (catalog_meta cm)) \<or>
        allocated bp5 r \<and> r \<noteq> CATALOG_META_PAGE_ID \<and> index_stored (view bp5) cm' k r" for k r
      using E(1)[of pid] new neq a5 by (auto simp: P(1))
    show "index_name_of cm' y z = Some k \<Longrightarrow> index_name_of cm y z = Some k \<or>
        (\<exists>ix. map_of (indexes cm') k = Some ix \<and> tm_table_name (table_meta (index_table ix)) = y \<and> im_index_name (index_meta ix) = z) \<and>
        k \<in> fst ` set (index_meta_pages (catalog_meta cm'))" for y z k
      unfolding names ixs keysI using tm(1) by (auto split: if_splits)
  qed (simp add: P)
  moreover have "catalog_stored cm' bp5" using n(9,10,11) r1(4) by (simp add: P(1) catalog_stored_def)
  moreover have "ids_fresh cm'"
  proof -
    obtain tn where tn: "next_table_id cm = Some tn" "\<forall>k \<in> fst ` set (tables cm) \<union> fst ` set (table_meta_pages (catalog_meta cm)). k < tn"
      "\<forall>k \<in> fst ` set (indexes cm) \<union> fst ` set (index_meta_pages (catalog_meta cm)). k < i"
      using fresh(1) i(1) unfolding ids_fresh_def by auto
    have k: "fst ` set (indexes cm') = insert i (fst ` set (indexes cm))" using i(2) by (auto simp: P(4) hash_emplace_def)
    have "z < i + 1" if "z \<in> fst ` set (indexes cm') \<union> fst ` set (index_meta_pages (catalog_meta cm'))" for z
      using word_below_next[of i z] tn(3) size(2) i(1) that unfolding k keysI by auto
    then show ?thesis using tn(1,2) unfolding ids_fresh_def P(3,5,6) by (simp add: P(1))
  qed
  moreover have "CatalogMeta_GetSerializedSize (catalog_meta cm') = CatalogMeta_GetSerializedSize (catalog_meta cm) + 8"
    using E(2)[of pid] by (simp add: CatalogMeta_GetSerializedSize_def P(1))
  ultimately show ?thesis using run names i(1,2) s(2) vold a5 n(12) k1(4) by (intro exI[of _ s] exI[of _ cm'] exI[of _ bp5]) (simp add: Let_def P hash_emplace_def)
qed

section \<open>Dropping a table\<close>

lemma delete_pinned:
  assumes "pool_inv bp" "allocated bp p" "0 < pins bp p"
  shows "\<exists>bp'. DeletePage bp p = Some (False, bp') \<and> pool_inv bp' \<and> allocated bp' = allocated bp \<and> view bp' = view bp \<and> pins bp' = pins bp \<and>
    pool_size bp' = pool_size bp"
proof -
  have wf: "pool_wf bp" and dw: "disk_wf (disk_mgr bp)" and ra: "resident_allocated bp" using assms(1) by (simp_all add: pool_inv_def)
  obtain f where f: "page_table bp p = Some f" "0 < pin_count (pages bp ! nat f)" using pinned_resident[OF assms(3)] by blast
  have lo: "logical_ok p" "in_pool bp f" using pool_wfD(7)[OF wf f(1)] by auto
  then obtain n where n: "p = int n" "n < MAX_EXTENTS * BITMAP_SIZE" by (auto elim: logical_okE)
  obtain dm where d: "DeAllocatePage (disk_mgr bp) p = Some dm" "disk_wf dm" "extents dm = extents (disk_mgr bp)" "\<forall>k. k \<noteq> 0 \<longrightarrow> phys_page dm k = phys_page (disk_mgr bp) k"
    using DeAllocatePage_ok[OF dw n(2)] n(1) by blast
  have l: "lpage dm k = lpage (disk_mgr bp) k" for k using d(4) by (simp add: lpage_def data_phys_def)
  have u: "disk_used dm = disk_used (disk_mgr bp)" using d(3,4) by (simp add: disk_used_def ext_bitmap_def bm_phys_def)
  let ?bp = "bp\<lparr>disk_mgr := dm\<rparr>"
  have "pool_wf ?bp" by (rule pool_wf_disk[OF wf]) (use d(2) l in \<open>simp_all add: disk_wf_def\<close>)
  then have "pool_inv ?bp" using assms(1) d(2) u by (simp add: pool_inv_def resident_allocated_def in_pool_def)
  moreover have "DeletePage bp p = Some (False, ?bp)" using d(1) f lo(2) by (simp add: DeletePage_def BufferPool_DeallocatePage_def get_page_def in_pool_def)
  moreover have "view ?bp = view bp" "pins ?bp = pins bp" "allocated ?bp = allocated bp"
    using l u by (simp_all add: view_def pins_def allocated_def fun_eq_iff split: option.splits)
  ultimately show ?thesis by (intro exI[of _ ?bp]) simp
qed

text \<open>Freeing a heap frees none of its pages, and leaves all of them pinned.\<close>

lemma free_loop_pins:
  assumes "chain c pid ps" "distinct ps" "pool_inv bp" "\<forall>q \<in> set ps. allocated bp q \<and> view bp q = c q \<and> pins bp q = 0"
    "card {q. 0 < pins bp q} + length ps \<le> pool_size bp"
  shows "\<exists>bp'. free_loop pid bp = Some bp' \<and> pool_inv bp' \<and> allocated bp' = allocated bp \<and> (\<forall>q. allocated bp q \<longrightarrow> view bp' q = view bp q) \<and>
    pins bp' = (\<lambda>q. if q \<in> set ps then 1 else pins bp q) \<and> pool_size bp' = pool_size bp"
  using assms
proof (induction ps arbitrary: pid bp)
  case Nil
  then show ?case by (simp add: free_loop.simps)
next
  case (Cons p ps)
  obtain n where c: "p = pid" "GetTablePageId (c p) = Some p" "GetNextPageId (c p) = Some n" "chain c n ps" using Cons.prems(1) by auto
  have a: "allocated bp p" "view bp p = c p" "pins bp p = 0" using Cons.prems(4) by simp_all
  have room: "0 < pins bp p \<or> card {q. 0 < pins bp q} < pool_size bp" using Cons.prems(5) by simp
  obtain f bp1 where f: "FetchPage bp p = Some (f, bp1)" "pool_inv bp1" "allocated bp1 = allocated bp" "\<forall>q. allocated bp q \<longrightarrow> view bp1 q = view bp q"
    "pins bp1 = (pins bp)(p := Suc (pins bp p))" "pool_size bp1 = pool_size bp" "page_table bp1 p = Some f"
    using pool_fetch_law[OF Cons.prems(3) a(1) room] by (elim exE conjE) (rule that; assumption)
  have l: "load_page bp1 f = Some (c p)" "GetPageId bp1 f = Some p" using pool_load_law[OF f(2,7)] f(4) a by simp_all
  have p1: "allocated bp1 p" "0 < pins bp1 p" using f(3,5) a(1) by simp_all
  obtain bp2 where d: "DeletePage bp1 p = Some (False, bp2)" "pool_inv bp2" "allocated bp2 = allocated bp1" "view bp2 = view bp1" "pins bp2 = pins bp1" "pool_size bp2 = pool_size bp1"
    using delete_pinned[OF f(2) p1] by blast
  have nv: "p \<noteq> INVALID_PAGE_ID" using a(1) by (auto simp: allocated_def logical_ok_def INVALID_PAGE_ID_def)
  have "{q. 0 < pins bp2 q} = insert p {q. 0 < pins bp q}" using d(5) f(5) by auto
  moreover have "finite {q. 0 < pins bp q}" using pinned_finite Cons.prems(3) by (simp add: pool_inv_def)
  ultimately have "card {q. 0 < pins bp2 q} + length ps \<le> pool_size bp2" using Cons.prems(5) a(3) d(6) f(6) by simp
  moreover have "\<forall>q \<in> set ps. allocated bp2 q \<and> view bp2 q = c q \<and> pins bp2 q = 0" using Cons.prems(2,4) d(3-5) f(3-5) by auto
  ultimately obtain bp' where r: "free_loop n bp2 = Some bp'" "pool_inv bp'" "allocated bp' = allocated bp2" "\<forall>q. allocated bp2 q \<longrightarrow> view bp' q = view bp2 q"
    "pins bp' = (\<lambda>q. if q \<in> set ps then 1 else pins bp2 q)" "pool_size bp' = pool_size bp2"
    using Cons.IH[OF c(4) _ d(2)] Cons.prems(2) by auto
  have "free_loop pid bp = free_loop n bp2" by (subst free_loop.simps) (use c nv f(1) l d(1) in simp)
  moreover have "pins bp' = (\<lambda>q. if q \<in> set (p # ps) then 1 else pins bp q)" using r(5) d(5) f(5) a(3) by (auto simp: fun_eq_iff)
  ultimately show ?case using r d f by (intro exI[of _ bp']) simp
qed

lemma DropTable_runs:
  assumes inv: "catalog_inv cm bp" and tab: "map_of (table_names cm) name = Some tid" "map_of (tables cm) tid = Some info"
    and heap: "heap_inv bp (first_page_id (heap_of info)) ps" "CATALOG_META_PAGE_ID \<notin> set ps" and size: "length ps < pool_size bp"
  shows "\<exists>cm' bp'. DropTable name cm bp = Some (DB_SUCCESS, cm', bp') \<and> catalog_meta cm' = (catalog_meta cm)\<lparr>table_meta_pages := map_erase tid (table_meta_pages (catalog_meta cm))\<rparr> \<and>
    table_names cm' = map_erase name (table_names cm) \<and> tables cm' = map_erase tid (tables cm) \<and> indexes cm' = indexes cm \<and> index_names cm' = index_names cm \<and>
    catalog_stored cm' bp' \<and> pool_inv bp' \<and> allocated bp' = allocated bp \<and> pins bp' = (\<lambda>q. if q \<in> set ps then 1 else 0) \<and>
    (\<forall>q. allocated bp q \<longrightarrow> q \<noteq> CATALOG_META_PAGE_ID \<longrightarrow> view bp' q = view bp q)"
proof -
  note V = catalog_invD[OF inv]
  note H = heap_invD[OF heap(1)]
  have ps: "\<forall>q \<in> set ps. allocated bp q \<and> view bp q = view bp q \<and> pins bp q = 0" using H(5) V(2) by simp
  have cs: "card {q. 0 < pins bp q} + length ps \<le> pool_size bp" using size by (simp add: V(2))
  obtain bp1 where f: "free_loop (first_page_id (heap_of info)) bp = Some bp1" "pool_inv bp1" "allocated bp1 = allocated bp" "\<forall>q. allocated bp q \<longrightarrow> view bp1 q = view bp q"
    "pins bp1 = (\<lambda>q. if q \<in> set ps then 1 else pins bp q)" "pool_size bp1 = pool_size bp"
    using free_loop_pins[OF H(2,3) V(1) ps cs] by blast
  let ?meta = "(catalog_meta cm)\<lparr>table_meta_pages := map_erase tid (table_meta_pages (catalog_meta cm))\<rparr>"
  have p1: "pins bp1 = (\<lambda>q. if q \<in> set ps then 1 else 0)" using f(5) unfolding V(2) .
  have "{q. 0 < pins bp1 q} = set ps" by (auto simp: p1)
  then have sp: "spare bp1" using size f(6) H(3) by (simp add: spare_def distinct_card)
  have a1: "allocated bp1 CATALOG_META_PAGE_ID" using f(3) V(3) by simp
  have "set (map_erase tid (table_meta_pages (catalog_meta cm))) \<subseteq> set (table_meta_pages (catalog_meta cm))" "length (map_erase tid (table_meta_pages (catalog_meta cm))) \<le> length (table_meta_pages (catalog_meta cm))"
    by (simp_all add: map_erase_def)
  then have fits: "catalog_fits ?meta" using V(6) map_erase_sorted[of "table_meta_pages (catalog_meta cm)" tid]
    by (auto simp: catalog_fits_def catalog_ok_def CatalogMeta_GetSerializedSize_def list_all_iff)
  obtain d bp2 where w: "write_catalog ?meta bp1 = Some bp2" "kept bp1 bp2 ((view bp1)(CATALOG_META_PAGE_ID := d))" "CatalogMeta_DeserializeFrom d 0 = Some ?meta"
    by (rule write_catalog_ok[OF f(2) a1 sp fits])
  let ?cm = "cm\<lparr>tables := map_erase tid (tables cm), catalog_meta := ?meta, table_names := map_erase name (table_names cm)\<rparr>"
  have "DropTable name cm bp = Some (DB_SUCCESS, ?cm, bp2)" by (simp add: DropTable_def tab Let_def TableHeap_FreeHeap_def f(1) w(1))
  moreover have "pool_inv bp2" "allocated bp2 = allocated bp" "pins bp2 = (\<lambda>q. if q \<in> set ps then 1 else 0)"
    "view bp2 CATALOG_META_PAGE_ID = d" "\<forall>q. allocated bp q \<longrightarrow> q \<noteq> CATALOG_META_PAGE_ID \<longrightarrow> view bp2 q = view bp q"
    using w(2) f(3,4) p1 V(3) by (simp_all add: kept_def)
  ultimately show ?thesis using w(3) by (intro exI[of _ ?cm] exI[of _ bp2]) (simp add: catalog_stored_def)
qed

section \<open>A catalog that cannot be loaded\<close>

text \<open>An index whose table is not there.\<close>

lemma LoadIndex_fails:
  assumes "loading bp" "allocated bp pid" "pid \<noteq> CATALOG_META_PAGE_ID" "IndexMetadata_DeserializeFrom (view bp pid) 0 = Some (n, m)"
    "\<And>info. map_of (tables cm) (im_table_id m) = Some info \<Longrightarrow> ShallowCopySchema (tm_schema (table_meta info)) (map unat (im_key_map m)) = None"
  shows "LoadIndex iid pid cm bp = None"
proof -
  note L = loadingD[OF assms(1)]
  obtain f bp1 where "FetchPage bp pid = Some (f, bp1)" "load_page bp1 f = Some (view bp pid)"
    using visit_page_read[OF L(1) assms(2) L(3) L(4)[OF assms(3)]] by metis
  then show ?thesis using assms(5) by (cases "map_of (tables cm) (im_table_id m)") (simp_all add: LoadIndex_def assms(4) IndexInfo_Init_def)
qed

lemma load_indexes_no_table:
  assumes "\<forall>k r. (k, r) \<in> set m \<longrightarrow> allocated bp r \<and> r \<noteq> CATALOG_META_PAGE_ID \<and> (\<exists>n. IndexMetadata_DeserializeFrom (view bp r) 0 = Some (n, I k))"
    and "loading bp" and "allocated bp INDEX_ROOTS_PAGE_ID" and "roots_ok (IndexRootsPage_of (view bp INDEX_ROOTS_PAGE_ID))"
    and "i \<in> fst ` set m" and "map_of (tables cm) (im_table_id (I i)) = None"
  shows "load_indexes m cm bp = None"
  using assms
proof (induction m arbitrary: cm bp)
  case (Cons e m)
  obtain k r where e: "e = (k, r)" by (cases e)
  obtain n where p: "allocated bp r" "r \<noteq> CATALOG_META_PAGE_ID" "IndexMetadata_DeserializeFrom (view bp r) 0 = Some (n, I k)" using Cons.prems(1) e by auto
  show ?case
  proof (cases "\<exists>info s. map_of (tables cm) (im_table_id (I k)) = Some info \<and> ShallowCopySchema (tm_schema (table_meta info)) (map unat (im_key_map (I k))) = Some s")
    case True
    then obtain info s where t: "map_of (tables cm) (im_table_id (I k)) = Some info" "ShallowCopySchema (tm_schema (table_meta info)) (map unat (im_key_map (I k))) = Some s" by blast
    obtain bp1 cm1 where l: "kept bp bp1 (view bp)" "LoadIndex k r cm bp = Some (cm1, bp1)" "tables cm1 = tables cm"
      by (rule LoadIndex_ok[OF Cons.prems(2) p t Cons.prems(3,4), of k]) (rule that, assumption, assumption, simp add: add_index_name_def)
    have b: "allocated bp1 = allocated bp" "\<And>q. allocated bp q \<Longrightarrow> view bp1 q = view bp q" using l(1) by (simp_all add: kept_def)
    have ps: "\<forall>k r. (k, r) \<in> set m \<longrightarrow> allocated bp1 r \<and> r \<noteq> CATALOG_META_PAGE_ID \<and> (\<exists>n. IndexMetadata_DeserializeFrom (view bp1 r) 0 = Some (n, I k))"
      using Cons.prems(1) b by simp
    have "i \<in> fst ` set m" using Cons.prems(5,6) t(1) e by auto
    moreover have "allocated bp1 INDEX_ROOTS_PAGE_ID" "roots_ok (IndexRootsPage_of (view bp1 INDEX_ROOTS_PAGE_ID))" using Cons.prems(3,4) b by simp_all
    ultimately have "load_indexes m (cm1\<lparr>next_index_id := Some (k + 1)\<rparr>) bp1 = None"
      using Cons.IH[OF ps loading_kept[OF Cons.prems(2) l(1)]] Cons.prems(6) l(3) by simp
    then show ?thesis by (simp add: e l(2))
  next
    case False
    then have "LoadIndex k r cm bp = None" using LoadIndex_fails[OF Cons.prems(2) p] by (metis not_None_eq)
    then show ?thesis by (simp add: e)
  qed
qed simp

lemma open_fails:
  assumes "pool_inv bp" "pins bp = (\<lambda>q. 0)" "2 < pool_size bp" "allocated bp CATALOG_META_PAGE_ID" "allocated bp INDEX_ROOTS_PAGE_ID" "roots_ok (IndexRootsPage_of (view bp INDEX_ROOTS_PAGE_ID))"
    and meta: "CatalogMeta_DeserializeFrom (view bp CATALOG_META_PAGE_ID) 0 = Some meta"
    and tabs: "\<forall>t r. (t, r) \<in> set (table_meta_pages meta) \<longrightarrow> allocated bp r \<and> r \<noteq> CATALOG_META_PAGE_ID \<and> (\<exists>n. TableMetadata_DeserializeFrom (view bp r) 0 = Some (n, T t))"
    and dist: "distinct (map fst (table_meta_pages meta))" "distinct (map (\<lambda>e. tm_table_name (T (fst e))) (table_meta_pages meta))"
    and ixs: "\<forall>k r. (k, r) \<in> set (index_meta_pages meta) \<longrightarrow> allocated bp r \<and> r \<noteq> CATALOG_META_PAGE_ID \<and> (\<exists>n. IndexMetadata_DeserializeFrom (view bp r) 0 = Some (n, I k))"
    and bad: "i \<in> fst ` set (index_meta_pages meta)" "im_table_id (I i) \<notin> fst ` set (table_meta_pages meta)"
  shows "CatalogManager_open bp = None"
proof -
  have sp: "spare bp" "CATALOG_META_PAGE_ID \<notin> touched bp" using idle_spare[OF assms(2)] assms(3) idle_clean[OF assms(1)] assms(2) by simp_all
  obtain f bp1 where v: "FetchPage bp CATALOG_META_PAGE_ID = Some (f, bp1)" "load_page bp1 f = Some (view bp CATALOG_META_PAGE_ID)" "kept bp1 bp1 (view bp1)"
    "allocated bp1 = allocated bp" "\<forall>q. allocated bp q \<longrightarrow> view bp1 q = view bp q" "pins bp1 = (pins bp)(CATALOG_META_PAGE_ID := Suc (pins bp CATALOG_META_PAGE_ID))"
    "pool_size bp1 = pool_size bp"
    by (rule read_bracket[OF assms(1,4) sp]) (rule that; assumption)
  have l1: "loading bp1" using v(3,6,7) assms(2,3) by (simp add: loading_def kept_def)
  define cm0 where "cm0 = \<lparr>catalog_meta = meta, next_table_id = None, next_index_id = None, table_names = [], tables = [], index_names = [], indexes = []\<rparr>"
  have d: "distinct (map fst (tables cm0) @ map fst (table_meta_pages meta))" "distinct (map fst (table_names cm0) @ map (\<lambda>e. tm_table_name (T (fst e))) (table_meta_pages meta))"
    using dist by (simp_all add: cm0_def)
  obtain bp2 cm1 where t: "kept bp1 bp2 (view bp1)" "load_tables (table_meta_pages meta) cm0 bp1 = Some (cm1, bp2)"
    "tables cm1 = map (\<lambda>e. (fst e, opened_table (T (fst e)))) (table_meta_pages meta)"
    using load_tables_ok[OF _ d l1] tabs v(4,5) by (auto simp: cm0_def)
  have k: "allocated bp2 = allocated bp" "\<And>q. allocated bp q \<Longrightarrow> view bp2 q = view bp q" using t(1) v(4,5) by (simp_all add: kept_def)
  have "load_indexes (index_meta_pages meta) cm1 bp2 = None"
  proof (rule load_indexes_no_table[OF _ loading_kept[OF l1 t(1)] _ _ bad(1)])
    show "\<forall>k r. (k, r) \<in> set (index_meta_pages meta) \<longrightarrow> allocated bp2 r \<and> r \<noteq> CATALOG_META_PAGE_ID \<and> (\<exists>n. IndexMetadata_DeserializeFrom (view bp2 r) 0 = Some (n, I k))"
      using ixs k by simp
    show "allocated bp2 INDEX_ROOTS_PAGE_ID" "roots_ok (IndexRootsPage_of (view bp2 INDEX_ROOTS_PAGE_ID))" using assms(5,6) k by simp_all
    show "map_of (tables cm1) (im_table_id (I i)) = None" using bad(2) map_of_keyed[of "\<lambda>k. opened_table (T k)" "table_meta_pages meta"] by (simp add: t(3))
  qed
  then show ?thesis by (simp add: CatalogManager_open_def v(1,2) meta t(2) flip: cm0_def)
qed

end
