(* ===== verification/Storage_Engine.thy ===== *)
theory Storage_Engine
  imports Catalog_Changes
begin

text \<open>The storage engine: a new database, closing it and opening it again, and what the catalog promises to the executor.\<close>

section \<open>A new database\<close>

lemma new_pool:
  assumes "disk_wf dm" "n < 2 ^ 64"
  shows "pool_inv (BufferPoolManager_new n dm)" "pins (BufferPoolManager_new n dm) = (\<lambda>q. 0)"
    "allocated (BufferPoolManager_new n dm) = (\<lambda>q. logical_ok q \<and> nat q \<in> disk_used dm)" "view (BufferPoolManager_new n dm) = lpage dm"
    "pool_size (BufferPoolManager_new n dm) = n" "length (free_list (BufferPoolManager_new n dm)) = n"
proof -
  let ?bp = "BufferPoolManager_new n dm"
  have wf: "pool_wf ?bp" using assms by (intro pool_wf_new) (simp_all add: disk_wf_def)
  moreover have "f \<in> set (free_list ?bp)" if "in_pool ?bp f" for f
    using that by (auto simp: in_pool_def BufferPoolManager_new_def image_iff intro!: bexI[of _ "nat f"])
  ultimately show "pool_inv ?bp" using assms(1) by (auto simp: pool_inv_def BufferPoolManager_new_def resident_allocated_def)
qed (simp_all add: BufferPoolManager_new_def pins_def allocated_def view_def fun_eq_iff)

lemma NewPage_least:
  assumes "NewPage bp = Some (Some (pid, f), bp')" "free_list bp \<noteq> []" "disk_wf (disk_mgr bp)" "\<exists>q. logical_ok q \<and> \<not> allocated bp q" "0 \<le> q" "q < pid"
  shows "allocated bp q"
proof -
  obtain dm l where a: "allocates (disk_mgr bp) dm l" using AllocatePage_allocates[OF assms(3) disk_room[OF assms(4)]] by blast
  then have al: "AllocatePage (disk_mgr bp) = Some (dm, int l)" "{..<l} \<subseteq> disk_used (disk_mgr bp)" "l < MAX_EXTENTS * BITMAP_SIZE" by (auto simp: allocates_def)
  have "pid = int l" using assms(1,2) al(1)
    by (auto simp: NewPage_def BufferPool_AllocatePage_def install_new_def Let_def split: bind_splits)
  then have "nat q < l" "logical_ok q" using assms(5,6) al(3) by (auto simp: logical_ok_def simp del: of_nat_mult)
  then show ?thesis using al(2) by (auto simp: allocated_def)
qed

lemma IsPageFree_pool:
  assumes "pool_inv bp" "logical_ok q"
  shows "BufferPool_IsPageFree bp q = Some (\<not> allocated bp q, bp)"
proof -
  have "nat q < MAX_EXTENTS * BITMAP_SIZE" "q = int (nat q)" using assms(2) by (auto simp: logical_ok_def simp del: of_nat_mult)
  then show ?thesis using IsPageFree_ok[of "disk_mgr bp" "nat q"] assms by (simp add: BufferPool_IsPageFree_def allocated_def pool_inv_def)
qed

lemma static_pages: "logical_ok CATALOG_META_PAGE_ID" "logical_ok INDEX_ROOTS_PAGE_ID" "logical_ok 2" "logical_ok 3"
  by (simp_all add: logical_ok_def CATALOG_META_PAGE_ID_def INDEX_ROOTS_PAGE_ID_def MAX_EXTENTS_def BITMAP_SIZE_eq)

lemma unpin_new_page:
  assumes "pool_inv bp" "pins bp = (\<lambda>q. 0)(a := n, b := m)" "0 < n" "a \<notin> touched bp" "a \<noteq> b"
  obtains bp' where "UnpinPage bp a False = Some (True, bp')" "pool_inv bp'"
    "allocated bp' = allocated bp" "\<forall>q. allocated bp q \<longrightarrow> view bp' q = view bp q" "pins bp' = (\<lambda>q. 0)(a := n - 1, b := m)" "touched bp' = touched bp"
    "pool_size bp' = pool_size bp" "free_list bp' = free_list bp"
proof -
  have p: "0 < pins bp a" using assms(2,3,5) by simp
  obtain bp' where u: "UnpinPage bp a False = Some (True, bp')" "pool_inv bp'" "allocated bp' = allocated bp"
    "\<forall>q. allocated bp q \<longrightarrow> view bp' q = view bp q" "pins bp' = (pins bp)(a := pins bp a - 1)" "touched bp' = touched bp" "pool_size bp' = pool_size bp"
    using pool_unpin_law[OF assms(1) p, of False, OF disjI2[OF assms(4)], unfolded if_False] by (elim exE conjE) (rule that; assumption)
  have "pins bp' = (\<lambda>q. 0)(a := n - 1, b := m)" using u(5) assms(2,5) by (auto simp: fun_eq_iff)
  then show ?thesis using that u UnpinPage_free_list[OF u(1)] by blast
qed

lemma engine_new:
  assumes "2 \<le> n" "n < 2 ^ 64"
  obtains engine where "DBStorageEngine_new db True n = Some engine" "catalog_mgr engine = CatalogManager_create" "pool_inv (bpm engine)"
    "pins (bpm engine) = (\<lambda>q. 0)" "allocated (bpm engine) = (\<lambda>q. q = CATALOG_META_PAGE_ID \<or> q = INDEX_ROOTS_PAGE_ID)"
    "view (bpm engine) CATALOG_META_PAGE_ID = replicate PAGE_SIZE 0" "view (bpm engine) INDEX_ROOTS_PAGE_ID = replicate PAGE_SIZE 0"
    "pool_size (bpm engine) = n" "length (free_list (bpm engine)) = n - 2"
proof -
  define bp where "bp = BufferPoolManager_new n empty_disk"
  note N = new_pool[OF disk_wf_empty assms(2), folded bp_def]
  have a0: "allocated bp = (\<lambda>q. False)" using N(3) disk_used_empty by simp
  have z: "CATALOG_META_PAGE_ID = 0" "INDEX_ROOTS_PAGE_ID = 1" by (simp_all add: CATALOG_META_PAGE_ID_def INDEX_ROOTS_PAGE_ID_def)
  have t0: "touched bp = {}" using touched_pinned[of bp] N(1,2) by (auto simp: pool_inv_def)
  have fr: "free_list bp \<noteq> []" using N(6) assms(1) by auto
  have r: "\<exists>q. logical_ok q \<and> \<not> allocated bp q" using static_pages(1) a0 by auto
  obtain p f bp1 where n: "NewPage bp = Some (Some (p, f), bp1)" "pool_inv bp1" "logical_ok p" "allocated bp1 = (\<lambda>q. q = p \<or> allocated bp q)"
    "\<forall>q. allocated bp1 q \<longrightarrow> view bp1 q = (if q = p then replicate PAGE_SIZE 0 else view bp q)" "pins bp1 = (pins bp)(p := 1)" "touched bp1 = touched bp"
    "free_list bp1 = butlast (free_list bp)" "pool_size bp1 = pool_size bp"
    using pool_new_page[OF N(1) disk_room[OF r] fr] by (elim exE conjE) (rule that; assumption)
  have dw: "disk_wf (disk_mgr bp)" "disk_wf (disk_mgr bp1)" using N(1) n(2) by (simp_all add: pool_inv_def)
  have p: "p = 0" using NewPage_least[OF n(1) fr dw(1) r, of 0] a0 n(3) by (cases "0 < p") (auto simp: logical_ok_def)
  have r1: "\<exists>q. logical_ok q \<and> \<not> allocated bp1 q" using static_pages(2) a0 n(4) p z(2) by auto
  have fr1: "free_list bp1 \<noteq> []" using N(6) assms(1) n(8) by (metis Suc_1 diff_is_0_eq length_butlast list.size(3) not_less_eq_eq)
  obtain q g bp2 where m: "NewPage bp1 = Some (Some (q, g), bp2)" "pool_inv bp2" "\<not> allocated bp1 q" "logical_ok q" "allocated bp2 = (\<lambda>r. r = q \<or> allocated bp1 r)"
    "\<forall>r. allocated bp2 r \<longrightarrow> view bp2 r = (if r = q then replicate PAGE_SIZE 0 else view bp1 r)" "pins bp2 = (pins bp1)(q := 1)" "touched bp2 = touched bp1"
    "free_list bp2 = butlast (free_list bp1)" "pool_size bp2 = pool_size bp1"
    using pool_new_page[OF n(2) disk_room[OF r1] fr1] by (elim exE conjE) (rule that; assumption)
  have "q \<noteq> 0" using m(3) n(4) p by auto
  then have q: "q = 1" using NewPage_least[OF m(1) fr1 dw(2) r1, of 1] a0 n(4) p m(4) by (cases "1 < q") (auto simp: logical_ok_def)
  have p2: "pins bp2 = (\<lambda>q. 0)(0 := 1, 1 := 1)" "touched bp2 = {}" using m(7,8) n(6,7) N(2) t0 p q by simp_all
  obtain bp3 where u: "UnpinPage bp2 0 False = Some (True, bp3)" "pool_inv bp3"
    "allocated bp3 = allocated bp2" "\<forall>q. allocated bp2 q \<longrightarrow> view bp3 q = view bp2 q" "pins bp3 = (\<lambda>q. 0)(0 := 1 - 1, 1 := 1)" "touched bp3 = touched bp2"
    "pool_size bp3 = pool_size bp2" "free_list bp3 = free_list bp2"
    by (rule unpin_new_page[OF m(2) p2(1)]) (simp_all add: p2(2))
  have p3: "pins bp3 = (\<lambda>q. 0)(1 := 1, 0 := 0)" "touched bp3 = {}" using u(5,6) p2(2) by auto
  obtain bp4 where v: "UnpinPage bp3 1 False = Some (True, bp4)" "pool_inv bp4"
    "allocated bp4 = allocated bp3" "\<forall>q. allocated bp3 q \<longrightarrow> view bp4 q = view bp3 q" "pins bp4 = (\<lambda>q. 0)(1 := 1 - 1, 0 := 0)"
    "pool_size bp4 = pool_size bp3" "free_list bp4 = free_list bp3"
    by (rule unpin_new_page[OF u(2) p3(1)]) (simp_all add: p3(2))
  let ?e = "\<lparr>bpm = bp4, catalog_mgr = CatalogManager_create\<rparr>"
  have "DBStorageEngine_new db True n = Some ?e"
    using IsPageFree_pool[OF N(1) static_pages(1)] IsPageFree_pool[OF N(1) static_pages(2)] n(1) m(1) u(1) v(1) a0 p q
    by (simp add: DBStorageEngine_new_def DiskManager_new_empty Let_def z flip: bp_def)
  then show ?thesis
  proof (rule that)
    show "pins (bpm ?e) = (\<lambda>q. 0)" using v(5) by auto
    show "allocated (bpm ?e) = (\<lambda>q. q = CATALOG_META_PAGE_ID \<or> q = INDEX_ROOTS_PAGE_ID)" using v(3) u(3) m(5) n(4) a0 p q z by auto
    show "view (bpm ?e) CATALOG_META_PAGE_ID = replicate PAGE_SIZE 0" "view (bpm ?e) INDEX_ROOTS_PAGE_ID = replicate PAGE_SIZE 0"
      using v(3,4) u(3,4) m(5,6) n(4,5) p q z by simp_all
    show "length (free_list (bpm ?e)) = n - 2" using v(7) u(8) m(9) n(8) N(6) by simp
  qed (use v(2,6) u(7) m(10) n(9) N(5) in simp_all)
qed

text \<open>Its catalog is empty, and the zeros of page 0 are read as an empty catalog.\<close>

lemma engine_new_catalog:
  assumes "DBStorageEngine_new db True n = Some engine" "2 \<le> n" "n < 2 ^ 64"
  shows "catalog_inv (catalog_mgr engine) (bpm engine)" "ids_fresh (catalog_mgr engine)" "catalog_stored (catalog_mgr engine) (bpm engine)"
    "pool_size (bpm engine) = n" "length (free_list (bpm engine)) = n - 2" "allocated (bpm engine) = (\<lambda>q. q = CATALOG_META_PAGE_ID \<or> q = INDEX_ROOTS_PAGE_ID)"
    "catalog_mgr engine = CatalogManager_create"
proof -
  obtain e where e: "DBStorageEngine_new db True n = Some e" "catalog_mgr e = CatalogManager_create" "pool_inv (bpm e)"
    "pins (bpm e) = (\<lambda>q. 0)" "allocated (bpm e) = (\<lambda>q. q = CATALOG_META_PAGE_ID \<or> q = INDEX_ROOTS_PAGE_ID)"
    "view (bpm e) CATALOG_META_PAGE_ID = replicate PAGE_SIZE 0" "view (bpm e) INDEX_ROOTS_PAGE_ID = replicate PAGE_SIZE 0" "pool_size (bpm e) = n"
    "length (free_list (bpm e)) = n - 2"
    by (rule engine_new[OF assms(2,3)])
  have eng: "engine = e" using assms(1) e(1) by simp
  have fits: "catalog_fits CatalogMeta_new"
    by (simp add: catalog_fits_def catalog_ok_def CatalogMeta_new_def CatalogMeta_GetSerializedSize_def map_sorted_def PAGE_SIZE_def)
  show "catalog_inv (catalog_mgr engine) (bpm engine)" "ids_fresh (catalog_mgr engine)"
    using e(3-7) fits fresh_roots_page(1)
    by (simp_all add: eng e(2) catalog_inv_def CatalogManager_create_def CatalogMeta_new_def index_name_of_def ids_fresh_def)
  have z: "MACH_READ_UINT32 (replicate PAGE_SIZE 0) off = Some 0" "MACH_READ_INT32 (replicate PAGE_SIZE 0) off = Some 0" if "off + 4 \<le> PAGE_SIZE" for off
    using read_replicate_0[OF that] by (simp_all add: MACH_READ_INT32_def)
  have "CatalogMeta_DeserializeFrom (replicate PAGE_SIZE 0) 0 = Some CatalogMeta_new"
    using z[of 0] z[of 4] z[of 8] by (simp add: CatalogMeta_DeserializeFrom_def CatalogMeta_new_def) (simp add: PAGE_SIZE_def)
  then show "catalog_stored (catalog_mgr engine) (bpm engine)" by (simp add: eng e(2,6) catalog_stored_def CatalogManager_create_def)
  show "pool_size (bpm engine) = n" "length (free_list (bpm engine)) = n - 2" "allocated (bpm engine) = (\<lambda>q. q = CATALOG_META_PAGE_ID \<or> q = INDEX_ROOTS_PAGE_ID)"
    "catalog_mgr engine = CatalogManager_create" using e by (simp_all add: eng)
qed

section \<open>Closing and opening\<close>

lemma flush_all_kept: "pool_inv bp \<Longrightarrow> flush_all bp ks = Some bp' \<Longrightarrow> kept bp bp' (view bp)"
proof (induction ks arbitrary: bp)
  case (Cons k ks)
  obtain b bp1 where f: "FlushPage bp k = Some (b, bp1)" "kept bp bp1 (view bp)" by (rule flush_kept[OF Cons.prems(1)])
  have "pool_inv bp1" "flush_all bp1 ks = Some bp'" using f Cons.prems(2) by (simp_all add: kept_def)
  from kept_chain[OF f(2) Cons.IH[OF this]] show ?case .
qed (simp add: kept_refl)

lemma catalog_inv_pool:
  assumes "catalog_inv cm bp" "pool_inv bp'" "pins bp' = (\<lambda>q. 0)" "allocated bp' = allocated bp" "\<forall>q. allocated bp q \<longrightarrow> view bp' q = view bp q"
  shows "catalog_inv cm bp'"
proof -
  have "grows cm cm" by (simp add: grows_def map_le_def)
  then show ?thesis using catalog_inv_grows[OF assms(1-3), of cm] assms(4,5) catalog_invD(6)[OF assms(1)] by simp
qed

lemma engine_delete:
  assumes "pool_inv bp" "set pids = dom (page_table bp)"
  obtains db dm' where "DBStorageEngine_delete pids \<lparr>bpm = bp, catalog_mgr = cm\<rparr> = Some db" "DiskManager_new (Some db) = Some dm'"
    "disk_wf dm'" "\<forall>q. logical_ok q \<longrightarrow> nat q \<in> disk_used dm' \<longleftrightarrow> allocated bp q" "\<forall>q. allocated bp q \<longrightarrow> lpage dm' q = view bp q"
proof -
  have wf: "pool_wf bp" using assms(1) by (simp add: pool_inv_def)
  obtain bp' where f: "flush_all bp pids = Some bp'"
    "\<forall>q. logical_ok q \<longrightarrow> lpage (disk_mgr bp') q = (if q \<in> set pids then view bp q else lpage (disk_mgr bp) q)"
    using flush_all_ok[OF wf equalityD1[OF assms(2)]] by blast
  have k: "kept bp bp' (view bp)" by (rule flush_all_kept[OF assms(1) f(1)])
  have "disk_wf (disk_mgr bp')" using k by (simp add: kept_def pool_inv_def)
  from reopen_ok[OF this] obtain dm' where d: "DiskManager_new (Some (db_file (disk_mgr bp'))) = Some dm'" "disk_wf dm'"
    "disk_used dm' = disk_used (disk_mgr bp')" "\<forall>k. lpage dm' k = lpage (disk_mgr bp') k" by blast
  have "\<forall>q. logical_ok q \<longrightarrow> nat q \<in> disk_used dm' \<longleftrightarrow> allocated bp q" using k by (auto simp: d(3) kept_def allocated_def fun_eq_iff)
  moreover have "lpage dm' q = view bp q" if "allocated bp q" for q
    using that f(2) assms(2) by (auto simp: d(4) allocated_def view_def dom_def split: option.splits)
  ultimately show ?thesis using that[of "db_file (disk_mgr bp')" dm'] d(1,2) f(1) by (simp add: DBStorageEngine_delete_def DiskManager_Close_def)
qed

text \<open>Opening a database whose catalog has no entries leaves both counters unset.\<close>

lemma open_empty:
  assumes "catalog_inv cm bp" "catalog_stored cm bp" "catalog_meta cm = CatalogMeta_new" "2 < pool_size bp"
  obtains bp' where "CatalogManager_open bp = Some (CatalogManager_create\<lparr>next_table_id := None, next_index_id := None\<rparr>, bp')" "kept bp bp' (view bp)"
proof -
  note V = catalog_invD[OF assms(1)]
  have sp: "spare bp" "CATALOG_META_PAGE_ID \<notin> touched bp" using idle_spare[OF V(2)] assms(4) idle_clean[OF V(1)] V(2) by simp_all
  obtain f bp1 where v: "FetchPage bp CATALOG_META_PAGE_ID = Some (f, bp1)" "load_page bp1 f = Some (view bp CATALOG_META_PAGE_ID)" "kept bp1 bp1 (view bp1)"
    "\<forall>bp2. kept bp1 bp2 (view bp1) \<longrightarrow> (\<exists>bp3. UnpinPage bp2 CATALOG_META_PAGE_ID False = Some (True, bp3) \<and> kept bp bp3 (view bp))"
    by (rule read_bracket[OF V(1,3) sp]) (rule that; assumption)
  obtain bp2 where u: "UnpinPage bp1 CATALOG_META_PAGE_ID False = Some (True, bp2)" "kept bp bp2 (view bp)" using v(3,4) by blast
  have i2: "pool_inv bp2" using u(2) by (simp add: kept_def)
  obtain b bp3 where fl: "FlushPage bp2 CATALOG_META_PAGE_ID = Some (b, bp3)" "kept bp2 bp3 (view bp2)" by (rule flush_kept[OF i2])
  have "CatalogManager_open bp = Some (CatalogManager_create\<lparr>next_table_id := None, next_index_id := None\<rparr>, bp3)"
    using assms(2,3) by (simp add: CatalogManager_open_def catalog_stored_def v(1,2) u(1) fl(1) FlushCatalogMetaPage_def CatalogMeta_new_def CatalogManager_create_def)
  then show ?thesis using that kept_chain[OF u(2) fl(2)] by blast
qed

lemma open_empty_engine:
  assumes "catalog_inv CatalogManager_create bp" "catalog_stored CatalogManager_create bp" "set pids = dom (page_table bp)" "2 < m" "m < 2 ^ 64"
  obtains db engine' where "DBStorageEngine_delete pids \<lparr>bpm = bp, catalog_mgr = CatalogManager_create\<rparr> = Some db" "DBStorageEngine_new (Some db) False m = Some engine'"
    "catalog_mgr engine' = CatalogManager_create\<lparr>next_table_id := None, next_index_id := None\<rparr>"
    "catalog_inv CatalogManager_create (bpm engine')" "allocated (bpm engine') = allocated bp" "pool_size (bpm engine') = m"
proof -
  let ?cm = "CatalogManager_create"
  note V = catalog_invD[OF assms(1)]
  obtain db dm where d: "DBStorageEngine_delete pids \<lparr>bpm = bp, catalog_mgr = ?cm\<rparr> = Some db" "DiskManager_new (Some db) = Some dm" "disk_wf dm"
    "\<forall>q. logical_ok q \<longrightarrow> nat q \<in> disk_used dm \<longleftrightarrow> allocated bp q" "\<forall>q. allocated bp q \<longrightarrow> lpage dm q = view bp q"
    by (rule engine_delete[OF V(1) assms(3)])
  define bp1 where "bp1 = BufferPoolManager_new m dm"
  note N = new_pool[OF d(3) assms(5), folded bp1_def]
  have a1: "allocated bp1 = allocated bp" using d(4) N(3) by (auto simp: allocated_def fun_eq_iff)
  have v1: "\<forall>q. allocated bp q \<longrightarrow> view bp1 q = view bp q" using d(5) N(4) by simp
  have i1: "catalog_inv ?cm bp1" by (rule catalog_inv_pool[OF assms(1) N(1,2) a1 v1])
  have s1: "catalog_stored ?cm bp1" using assms(2) v1 V(3) by (simp add: catalog_stored_def)
  obtain bp2 where o: "CatalogManager_open bp1 = Some (?cm\<lparr>next_table_id := None, next_index_id := None\<rparr>, bp2)" "kept bp1 bp2 (view bp1)"
    by (rule open_empty[OF i1 s1]) (use N(5) assms(4) in \<open>simp_all add: CatalogManager_create_def\<close>)
  have i2: "catalog_inv ?cm bp2" by (rule catalog_inv_pool[OF i1]) (use o(2) N(2) in \<open>simp_all add: kept_def\<close>)
  note W = catalog_invD[OF i2]
  have "DBStorageEngine_new (Some db) False m = Some \<lparr>bpm = bp2, catalog_mgr = ?cm\<lparr>next_table_id := None, next_index_id := None\<rparr>\<rparr>"
    using IsPageFree_pool[OF W(1) static_pages(1)] IsPageFree_pool[OF W(1) static_pages(2)] W(3,4) o(1)
    by (simp add: DBStorageEngine_new_def d(2) Let_def flip: bp1_def)
  then show ?thesis by (rule that[OF d(1)]) (use i2 o(2) a1 N(5) in \<open>simp_all add: kept_def\<close>)
qed

lemma two_more_pages:
  assumes "{q. allocated bp q} \<subseteq> {CATALOG_META_PAGE_ID, INDEX_ROOTS_PAGE_ID}"
  shows "\<not> allocated bp 2" "\<not> allocated bp 3"
  using assms by (auto simp: CATALOG_META_PAGE_ID_def INDEX_ROOTS_PAGE_ID_def)

text \<open>A table that was dropped, but not its index.\<close>

lemma dropped_index_unreadable:
  assumes "catalog_inv cm bp" and "map_of (table_names cm) name = Some tid"
    and "catalog_meta cm' = (catalog_meta cm)\<lparr>table_meta_pages := map_erase tid (table_meta_pages (catalog_meta cm))\<rparr>" and "GetIndex name x cm = Some (DB_SUCCESS, Some ix)"
    and "pool_inv bp2" and "pins bp2 = (\<lambda>q. 0)" and "2 < pool_size bp2" and "allocated bp2 = allocated bp" and "catalog_stored cm' bp2"
    and "\<forall>q. allocated bp q \<longrightarrow> q \<noteq> CATALOG_META_PAGE_ID \<longrightarrow> view bp2 q = view bp q"
  shows "CatalogManager_open bp2 = None"
proof -
  note V = catalog_invD[OF assms(1)]
  let ?m = "table_meta_pages (catalog_meta cm)" and ?n = "index_meta_pages (catalog_meta cm)"
  define T where "T k = stored_table (table_meta (the (map_of (tables cm) k)))" for k
  define I where "I k = index_meta (the (map_of (indexes cm) k))" for k
  have tk: "map_of (table_names cm) (tm_table_name (T k)) = Some k \<and> (\<exists>info. map_of (tables cm) k = Some info \<and> T k = stored_table (table_meta info))" if kin: "k \<in> fst ` set ?m" for k
  proof -
    obtain r where "(k, r) \<in> set ?m" using kin by auto
    from V(7)[OF this] show ?thesis unfolding table_stored_def by (auto simp: T_def stored_table_again)
  qed
  obtain i where i: "index_name_of cm name x = Some i" "map_of (indexes cm) i = Some ix" using assms(4) by (auto simp: GetIndex_names split: option.splits)
  have ix: "tm_table_name (table_meta (index_table ix)) = name" "i \<in> fst ` set ?n" using V(10)[OF i(1)] i(2) by simp_all
  then obtain r where "(i, r) \<in> set ?n" by auto
  from V(8)[OF this] have st: "map_of (tables cm) (im_table_id (index_meta ix)) = Some (index_table ix)" "im_table_id (index_meta ix) \<in> fst ` set ?m"
    using i(2) unfolding index_stored_def by auto
  have tid: "im_table_id (I i) = tid" using tk[OF st(2)] st(1) ix(1) assms(2) i(2) by (auto simp: stored_table_again I_def)
  have srt: "distinct (map fst ?m)" using V(6) by (simp add: catalog_fits_def catalog_ok_def map_sorted_def strict_sorted_iff)
  have dt: "distinct (map (\<lambda>e. tm_table_name (T (fst e))) ?m)" by (rule distinct_by_key[OF srt]) (metis option.inject tk)
  show ?thesis
  proof (rule open_fails[OF assms(5-7) _ _ _ assms(9)[unfolded catalog_stored_def], of T I i])
    show "allocated bp2 CATALOG_META_PAGE_ID" "allocated bp2 INDEX_ROOTS_PAGE_ID" using V(3,4) assms(8) by simp_all
    have "INDEX_ROOTS_PAGE_ID \<noteq> CATALOG_META_PAGE_ID" by (simp add: INDEX_ROOTS_PAGE_ID_def CATALOG_META_PAGE_ID_def)
    then show "roots_ok (IndexRootsPage_of (view bp2 INDEX_ROOTS_PAGE_ID))" using V(4,5) assms(10) by simp
    show "\<forall>k r. (k, r) \<in> set (table_meta_pages (catalog_meta cm')) \<longrightarrow> allocated bp2 r \<and> r \<noteq> CATALOG_META_PAGE_ID \<and> (\<exists>n. TableMetadata_DeserializeFrom (view bp2 r) 0 = Some (n, T k))"
    proof (intro allI impI)
      fix k r assume "(k, r) \<in> set (table_meta_pages (catalog_meta cm'))"
      then have kr: "(k, r) \<in> set ?m" by (simp add: assms(3) map_erase_def)
      show "allocated bp2 r \<and> r \<noteq> CATALOG_META_PAGE_ID \<and> (\<exists>n. TableMetadata_DeserializeFrom (view bp2 r) 0 = Some (n, T k))"
        using V(7)[OF kr] assms(8,10) unfolding table_stored_def by (auto simp: T_def)
    qed
    show "distinct (map fst (table_meta_pages (catalog_meta cm')))" "distinct (map (\<lambda>e. tm_table_name (T (fst e))) (table_meta_pages (catalog_meta cm')))"
      using srt dt by (simp_all add: assms(3) map_erase_def distinct_map_filter)
    show "\<forall>k r. (k, r) \<in> set (index_meta_pages (catalog_meta cm')) \<longrightarrow> allocated bp2 r \<and> r \<noteq> CATALOG_META_PAGE_ID \<and> (\<exists>n. IndexMetadata_DeserializeFrom (view bp2 r) 0 = Some (n, I k))"
    proof (intro allI impI)
      fix k r assume "(k, r) \<in> set (index_meta_pages (catalog_meta cm'))"
      then have kr: "(k, r) \<in> set ?n" by (simp add: assms(3))
      show "allocated bp2 r \<and> r \<noteq> CATALOG_META_PAGE_ID \<and> (\<exists>n. IndexMetadata_DeserializeFrom (view bp2 r) 0 = Some (n, I k))"
        using V(8)[OF kr] assms(8,10) unfolding index_stored_def by (auto simp: I_def)
    qed
    show "i \<in> fst ` set (index_meta_pages (catalog_meta cm'))" using ix(2) by (simp add: assms(3))
    show "im_table_id (I i) \<notin> fst ` set (table_meta_pages (catalog_meta cm'))" by (auto simp: tid assms(3) map_erase_def)
  qed
qed

section \<open>Properties\<close>

text \<open>C29: A new database: pages 0 and 1 are allocated, no table is known, and the catalog satisfies its invariant.  When this database is closed before it has a
  table and opened again, both counters of the catalog have no value; no table is known and creating a table of any name and schema reads the counter.  The missing
  value is the only obstacle: with any value in it (that can be stepped), a table whose metadata fits its page is created.\<close>

theorem database_create:
  assumes "2 < n" and "n < 2 ^ 64" and "4 < m" and "m < 2 ^ 64"
  shows "\<exists>engine. DBStorageEngine_new db True n = Some engine \<and> GetTables (catalog_mgr engine) = (DB_TABLE_NOT_EXIST, []) \<and>
    allocated (bpm engine) = (\<lambda>q. q = CATALOG_META_PAGE_ID \<or> q = INDEX_ROOTS_PAGE_ID) \<and>
    catalog_inv (catalog_mgr engine) (bpm engine) \<and> catalog_stored (catalog_mgr engine) (bpm engine) \<and> ids_fresh (catalog_mgr engine) \<and>
    (\<forall>pids. set pids = dom (page_table (bpm engine)) \<longrightarrow>
      (\<exists>file' engine'. DBStorageEngine_delete pids engine = Some file' \<and> DBStorageEngine_new (Some file') False m = Some engine' \<and>
        next_table_id (catalog_mgr engine') = None \<and> next_index_id (catalog_mgr engine') = None \<and> GetTables (catalog_mgr engine') = (DB_TABLE_NOT_EXIST, []) \<and>
        (\<forall>name schema. CreateTable name schema (catalog_mgr engine') (bpm engine') = None) \<and>
        (\<forall>t i name schema. t + 1 \<noteq> 0 \<and> CHR 0x00 \<notin> set name \<and> length name < 2 ^ 32 \<and> list_all column_ok schema \<and> length schema < 2 ^ 32 \<and>
            24 + length name + Schema_GetSerializedSize schema \<le> PAGE_SIZE \<longrightarrow>
          (\<exists>info cm' bp'. CreateTable name schema ((catalog_mgr engine')\<lparr>next_table_id := Some t, next_index_id := Some i\<rparr>) (bpm engine') =
            Some (DB_SUCCESS, Some info, cm', bp') \<and> GetTable name cm' = (DB_SUCCESS, Some info)))))"
proof -
  obtain engine where e: "DBStorageEngine_new db True n = Some engine" by (rule engine_new[where n = n and db = db]) (use assms in simp_all)
  have le: "2 \<le> n" using assms(1) by simp
  note C = engine_new_catalog[OF e le assms(2)]
  have eng: "engine = \<lparr>bpm = bpm engine, catalog_mgr = CatalogManager_create\<rparr>" using C(7) by (cases engine) simp
  have m: "2 < m" using assms(3) by simp
  have cr: "CatalogManager_create = \<lparr>catalog_meta = CatalogMeta_new, next_table_id = Some 0, next_index_id = Some 0, table_names = [], tables = [], index_names = [], indexes = []\<rparr>"
    by (simp add: CatalogManager_create_def)
  have re: "\<exists>file' engine'. DBStorageEngine_delete pids engine = Some file' \<and> DBStorageEngine_new (Some file') False m = Some engine' \<and>
        next_table_id (catalog_mgr engine') = None \<and> next_index_id (catalog_mgr engine') = None \<and> GetTables (catalog_mgr engine') = (DB_TABLE_NOT_EXIST, []) \<and>
        (\<forall>name schema. CreateTable name schema (catalog_mgr engine') (bpm engine') = None) \<and>
        (\<forall>t i name schema. t + 1 \<noteq> 0 \<and> CHR 0x00 \<notin> set name \<and> length name < 2 ^ 32 \<and> list_all column_ok schema \<and> length schema < 2 ^ 32 \<and>
            24 + length name + Schema_GetSerializedSize schema \<le> PAGE_SIZE \<longrightarrow>
          (\<exists>info cm' bp'. CreateTable name schema ((catalog_mgr engine')\<lparr>next_table_id := Some t, next_index_id := Some i\<rparr>) (bpm engine') =
            Some (DB_SUCCESS, Some info, cm', bp') \<and> GetTable name cm' = (DB_SUCCESS, Some info)))"
    if p: "set pids = dom (page_table (bpm engine))" for pids
  proof -
    obtain file' engine' where o: "DBStorageEngine_delete pids engine = Some file'" "DBStorageEngine_new (Some file') False m = Some engine'"
      "catalog_mgr engine' = CatalogManager_create\<lparr>next_table_id := None, next_index_id := None\<rparr>"
      "catalog_inv CatalogManager_create (bpm engine')" "allocated (bpm engine') = allocated (bpm engine)" "pool_size (bpm engine') = m"
      by (rule open_empty_engine[OF C(1,3)[unfolded C(7)] p m assms(4), folded eng])
    have A: "{q. allocated (bpm engine') q} = {CATALOG_META_PAGE_ID, INDEX_ROOTS_PAGE_ID}" using o(5) C(6) by auto
    have fr: "2 < length (free_list (bpm engine'))" "0 < pool_size (bpm engine')"
      using free_frames[OF catalog_invD(1)[OF o(4)]] A o(6) assms(3) by (simp_all add: CATALOG_META_PAGE_ID_def INDEX_ROOTS_PAGE_ID_def)
    have none: "CreateTable name schema (catalog_mgr engine') (bpm engine') = None" for name schema
      by (auto simp: CreateTable_def o(3) cr Let_def split: bind_splits)
    have some: "\<exists>info cm' bp'. CreateTable name schema ((catalog_mgr engine')\<lparr>next_table_id := Some t, next_index_id := Some i\<rparr>) (bpm engine') =
            Some (DB_SUCCESS, Some info, cm', bp') \<and> GetTable name cm' = (DB_SUCCESS, Some info)"
      if s: "t + 1 \<noteq> 0 \<and> CHR 0x00 \<notin> set name \<and> length name < 2 ^ 32 \<and> list_all column_ok schema \<and> length schema < 2 ^ 32 \<and>
            24 + length name + Schema_GetSerializedSize schema \<le> PAGE_SIZE" for t i name schema
    proof -
      define cm where "cm = (catalog_mgr engine')\<lparr>next_table_id := Some t, next_index_id := Some i\<rparr>"
      have k: "catalog_meta cm = CatalogMeta_new" "table_names cm = []" "tables cm = []" "indexes cm = []" "index_names cm = []" "next_table_id cm = Some t" "next_index_id cm = Some i"
        by (simp_all add: cm_def o(3) cr)
      have inv: "catalog_inv cm (bpm engine')"
        using o(4) by (simp add: catalog_inv_def k cr CatalogMeta_new_def index_name_of_def)
      have fresh: "ids_fresh cm" by (simp add: ids_fresh_def k CatalogMeta_new_def)
      have room: "CatalogMeta_GetSerializedSize (catalog_meta cm) + 8 \<le> PAGE_SIZE" by (simp add: k CatalogMeta_new_def CatalogMeta_GetSerializedSize_def PAGE_SIZE_def)
      have na: "\<not> allocated (bpm engine') 2" "\<not> allocated (bpm engine') 3" by (rule two_more_pages, simp add: A)+
      have nt: "map_of (table_names cm) name = None" "the (next_table_id cm) + 1 \<noteq> 0" using s by (simp_all add: k)
      obtain info cm' bp' where "CreateTable name schema cm (bpm engine') = Some (DB_SUCCESS, Some info, cm', bp')"
        "table_names cm' = table_names cm @ [(name, the (next_table_id cm))]" "tables cm' = tables cm @ [(the (next_table_id cm), info)]"
        using CreateTable_new[OF inv nt(1) fresh static_pages(3) na(1) static_pages(4) na(2) _ fr(1) _ _ _ _ _ room fr(2) nt(2), of schema] s by auto
      then show ?thesis by (intro exI[of _ info] exI[of _ cm'] exI[of _ bp']) (simp add: cm_def[symmetric] GetTable_def k)
    qed
    have u: "next_table_id (catalog_mgr engine') = None" "next_index_id (catalog_mgr engine') = None" "GetTables (catalog_mgr engine') = (DB_TABLE_NOT_EXIST, [])"
      by (simp_all add: o(3) cr GetTables_def)
    show ?thesis by (rule exI[of _ file'], rule exI[of _ engine'], intro conjI allI impI o(1,2) u none) (rule some, assumption)
  qed
  have g: "GetTables (catalog_mgr engine) = (DB_TABLE_NOT_EXIST, [])" by (simp add: C(7) cr GetTables_def)
  show ?thesis by (rule exI[of _ engine], intro conjI allI impI e g C(1-3,6)) (rule re, assumption)
qed

text \<open>C13: Creating a table: a name in use is refused and nothing changes.  Otherwise, as long as the metadata fits its page and page 0 has room for one more
  entry, the table is created under the next id with an empty heap; the new catalog satisfies the invariant and is stored in page 0, the table is found under its
  name, every other table and index is found as before, and no page but page 0 and the new pages is written.\<close>

theorem catalog_create_table:
  assumes "catalog_inv cm bp" and "ids_fresh cm" and "0 < pool_size bp"
    and "logical_ok p" and "\<not> allocated bp p" and "logical_ok q" and "\<not> allocated bp q" and "p \<noteq> q" and "2 < length (free_list bp)"
    and "CHR 0x00 \<notin> set name" and "length name < 2 ^ 32" and "list_all column_ok schema" and "length schema < 2 ^ 32" and "24 + length name + Schema_GetSerializedSize schema \<le> PAGE_SIZE"
    and "CatalogMeta_GetSerializedSize (catalog_meta cm) + 8 \<le> PAGE_SIZE" and "the (next_table_id cm) + 1 \<noteq> 0"
  shows "if map_of (table_names cm) name \<noteq> None then CreateTable name schema cm bp = Some (DB_TABLE_ALREADY_EXIST, None, cm, bp)
    else \<exists>info cm' bp'. CreateTable name schema cm bp = Some (DB_SUCCESS, Some info, cm', bp') \<and> catalog_inv cm' bp' \<and> catalog_stored cm' bp' \<and> ids_fresh cm' \<and>
      GetTable name cm' = (DB_SUCCESS, Some info) \<and> (\<forall>x. x \<noteq> name \<longrightarrow> GetTable x cm' = GetTable x cm) \<and> (\<forall>t x. GetIndex t x cm' = GetIndex t x cm) \<and>
      CatalogMeta_GetSerializedSize (catalog_meta cm') = CatalogMeta_GetSerializedSize (catalog_meta cm) + 8 \<and>
      table_meta info = \<lparr>tm_table_id = the (next_table_id cm), tm_table_name = name, tm_root_page_id = first_page_id (heap_of info), tm_schema = schema\<rparr> \<and>
      heap_inv bp' (first_page_id (heap_of info)) [first_page_id (heap_of info)] \<and>
      heap_slots bp' [first_page_id (heap_of info)] = [(first_page_id (heap_of info), [])] \<and>
      (\<forall>q. allocated bp q \<longrightarrow> q \<noteq> CATALOG_META_PAGE_ID \<longrightarrow> view bp' q = view bp q)"
proof (cases "map_of (table_names cm) name")
  case None
  obtain info cm' bp' where c: "CreateTable name schema cm bp = Some (DB_SUCCESS, Some info, cm', bp')" "catalog_inv cm' bp'" "catalog_stored cm' bp'" "ids_fresh cm'"
    "table_names cm' = table_names cm @ [(name, the (next_table_id cm))]" "tables cm' = tables cm @ [(the (next_table_id cm), info)]"
    "indexes cm' = indexes cm" "index_names cm' = index_names cm" "CatalogMeta_GetSerializedSize (catalog_meta cm') = CatalogMeta_GetSerializedSize (catalog_meta cm) + 8"
    "table_meta info = \<lparr>tm_table_id = the (next_table_id cm), tm_table_name = name, tm_root_page_id = first_page_id (heap_of info), tm_schema = schema\<rparr>"
    "heap_inv bp' (first_page_id (heap_of info)) [first_page_id (heap_of info)]" "heap_slots bp' [first_page_id (heap_of info)] = [(first_page_id (heap_of info), [])]"
    "\<forall>q. allocated bp q \<longrightarrow> q \<noteq> CATALOG_META_PAGE_ID \<longrightarrow> allocated bp' q \<and> view bp' q = view bp q"
    using CreateTable_new[OF assms(1) None assms(2,4-15,3,16)] by (elim exE conjE) (rule that; assumption)
  obtain t where t: "next_table_id cm = Some t" "map_of (tables cm) t = None" by (rule ids_freshD[OF assms(2)]) (rule that; assumption)
  have "GetTable x cm' = (if x = name then (DB_SUCCESS, Some info) else GetTable x cm)" for x
  proof (cases "map_of (table_names cm) x")
    case None
    then show ?thesis using t by (simp add: GetTable_def c(5,6) map_add_def)
  next
    case (Some k)
    then have "x \<noteq> name" using \<open>map_of (table_names cm) name = None\<close> by auto
    moreover obtain i where "map_of (tables cm) k = Some i" using catalog_invD(9)[OF assms(1) Some] by blast
    ultimately show ?thesis using Some t by (auto simp: GetTable_def c(5,6) map_add_def split: option.splits)
  qed
  moreover have "GetIndex k x cm' = GetIndex k x cm" for k x unfolding GetIndex_def c(7,8) by (rule refl)
  ultimately show ?thesis using None c(1-4,9-13) by auto
qed (simp add: CreateTable_def)

text \<open>C14: Creating an index on a table: a key column that does not exist and an index name in use are refused.  Otherwise the index is created under the next id with
  the key columns in the given order; its tree has the root that the page of the roots has for this id (even when that is left over from an index that was dropped),
  the new catalog satisfies the invariant and is stored in page 0, and all other tables and indexes are found as before.\<close>

theorem catalog_create_index:
  assumes "catalog_inv cm bp" and "ids_fresh cm" and "1 < pool_size bp" and "logical_ok p" and "\<not> allocated bp p" and "1 < length (free_list bp)"
    and "map_of (table_names cm) t = Some tid" and "map_of (tables cm) tid = Some info" and "tm_schema (table_meta info) \<noteq> []" and "length (tm_schema (table_meta info)) < 2 ^ 32"
    and "CHR 0x00 \<notin> set x" and "length x < 2 ^ 32" and "length ks < 2 ^ 32" and "24 + length x + 4 * length ks \<le> PAGE_SIZE"
    and "CatalogMeta_GetSerializedSize (catalog_meta cm) + 8 \<le> PAGE_SIZE" and "the (next_index_id cm) + 1 \<noteq> 0"
  shows "if key_positions (tm_schema (table_meta info)) ks = None then CreateIndex t x ks cm bp = Some (DB_COLUMN_NAME_NOT_EXIST, None, cm, bp)
    else if index_name_of cm t x \<noteq> None then CreateIndex t x ks cm bp = Some (DB_INDEX_ALREADY_EXIST, None, cm, bp)
    else \<exists>ix cm' bp'. CreateIndex t x ks cm bp = Some (DB_SUCCESS, Some ix, cm', bp') \<and> catalog_inv cm' bp' \<and> catalog_stored cm' bp' \<and> ids_fresh cm' \<and>
      GetIndex t x cm' = Some (DB_SUCCESS, Some ix) \<and> (\<forall>t' x'. (t', x') \<noteq> (t, x) \<longrightarrow> GetIndex t' x' cm' = GetIndex t' x' cm) \<and> (\<forall>y. GetTable y cm' = GetTable y cm) \<and>
      im_index_name (index_meta ix) = x \<and> index_table ix = info \<and> map name_of (key_schema ix) = ks \<and> index_tree ix = opened_tree (view bp) (the (next_index_id cm)) \<and>
      (\<forall>q. allocated bp q \<longrightarrow> q \<noteq> CATALOG_META_PAGE_ID \<longrightarrow> view bp' q = view bp q)"
proof (cases "key_positions (tm_schema (table_meta info)) ks")
  case None
  then show ?thesis using assms(7,8) by (simp add: CreateIndex_def)
next
  case km: (Some km)
  show ?thesis
  proof (cases "index_name_of cm t x")
    case (Some i)
    then show ?thesis using assms(7,8) km by (simp add: CreateIndex_def index_name_of_def split: option.splits)
  next
    case None
    let ?i = "the (next_index_id cm)"
    obtain s cm' bp' where c: "CreateIndex t x ks cm bp = Some (DB_SUCCESS, Some \<lparr>index_meta = \<lparr>im_index_id = ?i, im_index_name = x, im_table_id = tid, im_key_map = km\<rparr>,
        index_tree = opened_tree (view bp) ?i, index_table = info, key_schema = s\<rparr>, cm', bp')" "map name_of s = ks" "catalog_inv cm' bp'" "catalog_stored cm' bp'" "ids_fresh cm'"
      "table_names cm' = table_names cm" "tables cm' = tables cm" "indexes cm' = indexes cm @ [(?i, \<lparr>index_meta = \<lparr>im_index_id = ?i, im_index_name = x, im_table_id = tid, im_key_map = km\<rparr>,
        index_tree = opened_tree (view bp) ?i, index_table = info, key_schema = s\<rparr>)]"
      "index_name_of cm' = (\<lambda>t' x'. if t' = t \<and> x' = x then Some ?i else index_name_of cm t' x')"
      "\<forall>q. allocated bp q \<longrightarrow> q \<noteq> CATALOG_META_PAGE_ID \<longrightarrow> allocated bp' q \<and> view bp' q = view bp q"
      using CreateIndex_new[OF assms(1,2) None assms(7,8) km assms(9,10,4-6,11-15,3,16), unfolded Let_def] by (elim exE conjE) (rule that; assumption)
    obtain i where i: "next_index_id cm = Some i" "map_of (indexes cm) i = None" by (rule ids_freshD[OF assms(2)]) (rule that; assumption)
    have "GetIndex t' x' cm' = GetIndex t' x' cm" if "(t', x') \<noteq> (t, x)" for t' x'
    proof (cases "index_name_of cm t' x'")
      case None
      then show ?thesis using that by (auto simp: GetIndex_names c(9))
    next
      case (Some k)
      then obtain ix where "map_of (indexes cm) k = Some ix" using catalog_invD(10)[OF assms(1) Some] by blast
      then show ?thesis using that Some i by (auto simp: GetIndex_names c(8,9) map_add_def split: option.splits)
    qed
    moreover have "GetTable y cm' = GetTable y cm" for y by (simp add: GetTable_def c(6,7) split: option.splits)
    ultimately show ?thesis using None km c(1-5,10) i by (simp add: GetIndex_names c(8,9) map_add_def)
  qed
qed

text \<open>C12: Closing a database and opening it again keeps it: opening the file that the destructor leaves, with a pool of at least three pages, succeeds, and finds
  every table and every index of the catalog under its name, with the metadata that was stored for it, the root of the page of the roots, and the content of every page.\<close>

theorem database_reopen:
  assumes "catalog_inv (catalog_mgr engine) (bpm engine)" and "catalog_stored (catalog_mgr engine) (bpm engine)"
    and "set pids = dom (page_table (bpm engine))" and "2 < n" and "n < 2 ^ 64"
  shows "\<exists>db engine'. DBStorageEngine_delete pids engine = Some db \<and> DBStorageEngine_new (Some db) False n = Some engine' \<and>
    catalog_inv (catalog_mgr engine') (bpm engine') \<and> catalog_stored (catalog_mgr engine') (bpm engine') \<and>
    (\<forall>name. GetTable name (catalog_mgr engine') = map_prod (\<lambda>r. r) (map_option reopened_table) (GetTable name (catalog_mgr engine))) \<and>
    (\<forall>t x. GetIndex t x (catalog_mgr engine') = map_option (map_prod (\<lambda>r. r) (map_option (reopened_index (view (bpm engine))))) (GetIndex t x (catalog_mgr engine))) \<and>
    (\<forall>q. allocated (bpm engine) q \<longrightarrow> allocated (bpm engine') q \<and> view (bpm engine') q = view (bpm engine) q)"
proof -
  obtain bp cm where e: "engine = \<lparr>bpm = bp, catalog_mgr = cm\<rparr>" by (cases engine) simp
  have inv: "catalog_inv cm bp" "catalog_stored cm bp" "set pids = dom (page_table bp)" using assms(1-3) by (simp_all add: e)
  note V = catalog_invD[OF inv(1)]
  obtain db dm where d: "DBStorageEngine_delete pids \<lparr>bpm = bp, catalog_mgr = cm\<rparr> = Some db" "DiskManager_new (Some db) = Some dm" "disk_wf dm"
    "\<forall>q. logical_ok q \<longrightarrow> nat q \<in> disk_used dm \<longleftrightarrow> allocated bp q" "\<forall>q. allocated bp q \<longrightarrow> lpage dm q = view bp q"
    by (rule engine_delete[OF V(1) inv(3)])
  define bp1 where "bp1 = BufferPoolManager_new n dm"
  note N = new_pool[OF d(3) assms(5), folded bp1_def]
  have a1: "allocated bp1 = allocated bp" using d(4) N(3) by (auto simp: allocated_def fun_eq_iff)
  have v1: "\<forall>q. allocated bp q \<longrightarrow> view bp1 q = view bp q" using d(5) N(4) by simp
  have i1: "catalog_inv cm bp1" by (rule catalog_inv_pool[OF inv(1) N(1,2) a1 v1])
  have s1: "catalog_stored cm bp1" using inv(2) v1 V(3) by (simp add: catalog_stored_def)
  have n1: "2 < pool_size bp1" using N(5) assms(4) by simp
  obtain cm2 bp2 where o: "CatalogManager_open bp1 = Some (cm2, bp2)" "kept bp1 bp2 (view bp1)" "catalog_inv cm2 bp2" "catalog_stored cm2 bp2"
    "\<forall>name. GetTable name cm2 = map_prod (\<lambda>r. r) (map_option reopened_table) (GetTable name cm)"
    "\<forall>t x. GetIndex t x cm2 = map_option (map_prod (\<lambda>r. r) (map_option (reopened_index (view bp1)))) (GetIndex t x cm)"
    using catalog_reopened[OF i1 s1 n1] by (elim exE conjE) (rule that; assumption)
  note W = catalog_invD[OF o(3)]
  let ?e = "\<lparr>bpm = bp2, catalog_mgr = cm2\<rparr>"
  have "DBStorageEngine_new (Some db) False n = Some ?e"
    using IsPageFree_pool[OF W(1) static_pages(1)] IsPageFree_pool[OF W(1) static_pages(2)] W(3,4) o(1)
    by (simp add: DBStorageEngine_new_def d(2) Let_def flip: bp1_def)
  moreover have "reopened_index (view bp1) = reopened_index (view bp)" using v1 V(4) by (simp add: fun_eq_iff reopened_index_def opened_tree_def)
  moreover have "\<forall>q. allocated bp q \<longrightarrow> allocated bp2 q \<and> view bp2 q = view bp q" using o(2) v1 a1 by (simp add: kept_def)
  ultimately show ?thesis using d(1) o(3-6) by (intro exI[of _ db] exI[of _ ?e]) (simp add: e)
qed


text \<open>C28: Dropping a table that has an index succeeds and makes the database unreadable: none of the pages of the table is freed and all of them stay pinned, the metadata
  of its indexes stays in the catalog, and opening the file after the database has been closed dereferences the null pointer that stands for the missing table.\<close>

theorem drop_table_unreadable:
  assumes "catalog_inv cm bp" and "map_of (table_names cm) name = Some tid" and "map_of (tables cm) tid = Some info"
    and "heap_inv bp (first_page_id (heap_of info)) ps" and "CATALOG_META_PAGE_ID \<notin> set ps" and "length ps < pool_size bp"
    and "GetIndex name x cm = Some (DB_SUCCESS, Some ix)" and "2 < n" and "n < 2 ^ 64"
  shows "\<exists>cm' bp'. DropTable name cm bp = Some (DB_SUCCESS, cm', bp') \<and> GetTable name cm' = (DB_TABLE_NOT_EXIST, None) \<and>
    (\<forall>y. y \<noteq> name \<longrightarrow> GetTable y cm' = GetTable y cm) \<and> allocated bp' = allocated bp \<and> pins bp' = (\<lambda>q. if q \<in> set ps then 1 else 0) \<and>
    (\<forall>pids. set pids = dom (page_table bp') \<longrightarrow> (\<exists>db. DBStorageEngine_delete pids \<lparr>bpm = bp', catalog_mgr = cm'\<rparr> = Some db \<and> DBStorageEngine_new (Some db) False n = None))"
proof -
  note V = catalog_invD[OF assms(1)]
  obtain cm' bp' where d: "DropTable name cm bp = Some (DB_SUCCESS, cm', bp')"
    "catalog_meta cm' = (catalog_meta cm)\<lparr>table_meta_pages := map_erase tid (table_meta_pages (catalog_meta cm))\<rparr>"
    "table_names cm' = map_erase name (table_names cm)" "tables cm' = map_erase tid (tables cm)" "catalog_stored cm' bp'" "pool_inv bp'" "allocated bp' = allocated bp"
    "pins bp' = (\<lambda>q. if q \<in> set ps then 1 else 0)" "\<forall>q. allocated bp q \<longrightarrow> q \<noteq> CATALOG_META_PAGE_ID \<longrightarrow> view bp' q = view bp q"
    using DropTable_runs[OF assms(1-6)] by (elim exE conjE) (rule that; assumption)
  have "\<exists>db. DBStorageEngine_delete pids \<lparr>bpm = bp', catalog_mgr = cm'\<rparr> = Some db \<and> DBStorageEngine_new (Some db) False n = None"
    if pids: "set pids = dom (page_table bp')" for pids
  proof -
    obtain db dm where e: "DBStorageEngine_delete pids \<lparr>bpm = bp', catalog_mgr = cm'\<rparr> = Some db" "DiskManager_new (Some db) = Some dm" "disk_wf dm"
      "\<forall>q. logical_ok q \<longrightarrow> nat q \<in> disk_used dm \<longleftrightarrow> allocated bp' q" "\<forall>q. allocated bp' q \<longrightarrow> lpage dm q = view bp' q"
      by (rule engine_delete[OF d(6) pids])
    define bp2 where "bp2 = BufferPoolManager_new n dm"
    note N = new_pool[OF e(3) assms(9), folded bp2_def]
    have a2: "allocated bp2 = allocated bp" using e(4) N(3) d(7) by (auto simp: allocated_def fun_eq_iff)
    have s2: "catalog_stored cm' bp2" using d(5,7) e(5) N(4) V(3) by (simp add: catalog_stored_def)
    have v2: "\<forall>q. allocated bp q \<longrightarrow> q \<noteq> CATALOG_META_PAGE_ID \<longrightarrow> view bp2 q = view bp q" using e(5) N(4) d(7,9) by simp
    have n2: "2 < pool_size bp2" using N(5) assms(8) by simp
    have "CatalogManager_open bp2 = None" by (rule dropped_index_unreadable[OF assms(1,2) d(2) assms(7) N(1,2) n2 a2 s2 v2])
    then have "DBStorageEngine_new (Some db) False n = None" by (simp add: DBStorageEngine_new_def e(2) Let_def flip: bp2_def)
    then show ?thesis using e(1) by blast
  qed
  moreover have "GetTable y cm' = GetTable y cm" if "y \<noteq> name" for y
  proof (cases "map_of (table_names cm) y")
    case None
    then show ?thesis using that by (simp add: GetTable_def d(3) map_erase_of)
  next
    case (Some k)
    have "k \<noteq> tid"
    proof
      assume "k = tid"
      then show False using V(9)[OF Some] V(9)[OF assms(2)] that by auto
    qed
    then show ?thesis using Some that by (simp add: GetTable_def d(3,4) map_erase_of)
  qed
  ultimately show ?thesis using d by (intro exI[of _ cm'] exI[of _ bp']) (simp add: GetTable_def map_erase_of)
qed

section \<open>Witnesses\<close>

text \<open>A database with a table and an index.\<close>

lemma sample_free_frames:
  assumes "pool_inv bp" "{q. allocated bp q} = A" "card A \<le> n" "n + m < pool_size bp"
  shows "m < length (free_list bp)"
  using free_frames[OF assms(1)] assms(2-4) by simp

lemma sample_engine:
  obtains cm bp where "DBStorageEngine_new None True 20 = Some \<lparr>bpm = bp, catalog_mgr = cm\<rparr>" "catalog_inv cm bp" "ids_fresh cm" "table_names cm = []" "next_table_id cm = Some 0"
    "next_index_id cm = Some 0" "index_names cm = []" "indexes cm = []" "tables cm = []" "CatalogMeta_GetSerializedSize (catalog_meta cm) = 12" "pool_size bp = 20" "length (free_list bp) = 18"
    "allocated bp = (\<lambda>q. q = CATALOG_META_PAGE_ID \<or> q = INDEX_ROOTS_PAGE_ID)"
proof -
  obtain bp where e: "DBStorageEngine_new None True 20 = Some \<lparr>bpm = bp, catalog_mgr = CatalogManager_create\<rparr>"
    by (rule engine_new[where n = 20 and db = None]) (simp, simp, metis DBStorageEngine.surjective old.unit.exhaust)
  show ?thesis using that[OF e] engine_new_catalog[OF e] by (simp add: CatalogManager_create_def CatalogMeta_new_def CatalogMeta_GetSerializedSize_def)
qed

lemma sample_schema_ok: "list_all column_ok sample_schema" "length sample_schema = 2" "Schema_GetSerializedSize sample_schema = 58" "sample_schema \<noteq> []"
    "key_positions sample_schema [''id''] = Some [0]"
  by (simp_all add: sample_schema_def column_ok_def Schema_GetSerializedSize_def Column_GetSerializedSize_def)

lemma sample_new_page: "{q. allocated bp q} \<subseteq> A \<Longrightarrow> finite A \<Longrightarrow> card A \<le> 6 \<Longrightarrow> \<exists>p. logical_ok p \<and> \<not> allocated bp p"
proof (rule ccontr)
  assume a: "{q. allocated bp q} \<subseteq> A" "finite A" "card A \<le> 6" "\<not> (\<exists>p. logical_ok p \<and> \<not> allocated bp p)"
  have "logical_ok p" if "p \<in> {0..9}" for p using that by (simp add: logical_ok_def MAX_EXTENTS_def BITMAP_SIZE_eq)
  then have "{0..9} \<subseteq> A" using a(1,4) by blast
  then have "card {0..9 :: int} \<le> card A" by (rule card_mono[OF a(2)])
  then show False using a(3) by simp
qed

lemma sample_table_created:
  obtains cm bp info where "catalog_inv cm bp" "ids_fresh cm" "table_names cm = [(''accounts'', 0)]" "tables cm = [(0, info)]" "index_names cm = []" "next_index_id cm = Some 0"
    "CatalogMeta_GetSerializedSize (catalog_meta cm) = 20" "tm_schema (table_meta info) = sample_schema" "heap_inv bp (first_page_id (heap_of info)) [first_page_id (heap_of info)]"
    "first_page_id (heap_of info) \<noteq> CATALOG_META_PAGE_ID" "pool_size bp = 20" "finite {q. allocated bp q}" "card {q. allocated bp q} \<le> 4"
proof -
  obtain cm bp where e: "catalog_inv cm bp" "ids_fresh cm" "table_names cm = []" "next_table_id cm = Some 0" "next_index_id cm = Some 0" "index_names cm = []" "indexes cm = []"
    "tables cm = []" "CatalogMeta_GetSerializedSize (catalog_meta cm) = 12" "pool_size bp = 20" "length (free_list bp) = 18"
    "allocated bp = (\<lambda>q. q = CATALOG_META_PAGE_ID \<or> q = INDEX_ROOTS_PAGE_ID)" by (rule sample_engine)
  have na: "\<not> allocated bp 2" "\<not> allocated bp 3" by (simp_all add: e(12) CATALOG_META_PAGE_ID_def INDEX_ROOTS_PAGE_ID_def)
  have ne: "(2 :: page_id_t) \<noteq> 3" by simp
  have nm: "map_of (table_names cm) ''accounts'' = None" "2 < length (free_list bp)" "CHR 0x00 \<notin> set ''accounts''" "length ''accounts'' < 2 ^ 32" "length sample_schema < 2 ^ 32"
    "24 + length ''accounts'' + Schema_GetSerializedSize sample_schema \<le> PAGE_SIZE" "CatalogMeta_GetSerializedSize (catalog_meta cm) + 8 \<le> PAGE_SIZE" "0 < pool_size bp" "the (next_table_id cm) + 1 \<noteq> 0"
    by (simp_all add: e(3,4,9-11) sample_schema_ok PAGE_SIZE_def)
  obtain info cm' bp' r where c: "catalog_inv cm' bp'" "ids_fresh cm'" "table_names cm' = table_names cm @ [(''accounts'', the (next_table_id cm))]"
    "tables cm' = tables cm @ [(the (next_table_id cm), info)]" "index_names cm' = index_names cm" "next_index_id cm' = next_index_id cm"
    "CatalogMeta_GetSerializedSize (catalog_meta cm') = CatalogMeta_GetSerializedSize (catalog_meta cm) + 8"
    "table_meta info = \<lparr>tm_table_id = the (next_table_id cm), tm_table_name = ''accounts'', tm_root_page_id = first_page_id (heap_of info), tm_schema = sample_schema\<rparr>"
    "heap_inv bp' (first_page_id (heap_of info)) [first_page_id (heap_of info)]" "\<not> allocated bp (first_page_id (heap_of info))" "pool_size bp' = pool_size bp"
    "allocated bp' = (\<lambda>q. q = r \<or> q = first_page_id (heap_of info) \<or> allocated bp q)"
    using CreateTable_new[OF e(1) nm(1) e(2) static_pages(3) na(1) static_pages(4) na(2) ne nm(2-4) sample_schema_ok(1) nm(5-9)] by (elim exE conjE) (rule that; assumption)
  have al: "{q. allocated bp' q} = set [r, first_page_id (heap_of info), CATALOG_META_PAGE_ID, INDEX_ROOTS_PAGE_ID]" unfolding c(12) by (auto simp: e(12))
  have "card {q. allocated bp' q} \<le> 4" unfolding al using card_length[of "[r, first_page_id (heap_of info), CATALOG_META_PAGE_ID, INDEX_ROOTS_PAGE_ID]"] by simp
  moreover have "finite {q. allocated bp' q}" unfolding al by simp
  moreover have "first_page_id (heap_of info) \<noteq> CATALOG_META_PAGE_ID" using c(10) e(12) by auto
  ultimately show ?thesis using that[OF c(1,2)] c(3-9,11) e by simp
qed

lemma page_table_finite: "pool_inv bp \<Longrightarrow> finite (dom (page_table bp))"
proof -
  assume "pool_inv bp"
  then have "dom (page_table bp) \<subseteq> {0..<int (MAX_EXTENTS * BITMAP_SIZE)}" using pool_wfD(7)[of bp] by (fastforce simp: pool_inv_def logical_ok_def)
  then show ?thesis by (rule finite_subset) simp
qed

lemma sample_database:
  obtains cm bp info ix where "catalog_inv cm bp" "catalog_stored cm bp" "map_of (table_names cm) ''accounts'' = Some 0" "map_of (tables cm) 0 = Some info"
    "heap_inv bp (first_page_id (heap_of info)) [first_page_id (heap_of info)]" "CATALOG_META_PAGE_ID \<notin> set [first_page_id (heap_of info)]" "pool_size bp = 20"
    "GetIndex ''accounts'' ''by_id'' cm = Some (DB_SUCCESS, Some ix)" "tm_schema (table_meta info) = sample_schema"
proof -
  obtain cm bp info where e: "catalog_inv cm bp" "ids_fresh cm" "table_names cm = [(''accounts'', 0)]" "tables cm = [(0, info)]" "index_names cm = []" "next_index_id cm = Some 0"
    "CatalogMeta_GetSerializedSize (catalog_meta cm) = 20" "tm_schema (table_meta info) = sample_schema" "heap_inv bp (first_page_id (heap_of info)) [first_page_id (heap_of info)]"
    "first_page_id (heap_of info) \<noteq> CATALOG_META_PAGE_ID" "pool_size bp = 20" "finite {q. allocated bp q}" "card {q. allocated bp q} \<le> 4" by (rule sample_table_created)
  note V = catalog_invD[OF e(1)]
  have ff: "1 < length (free_list bp)" by (rule sample_free_frames[OF V(1) refl e(13)]) (simp add: e(11))
  have "card {q. allocated bp q} \<le> 6" using e(13) by simp
  then obtain p where p: "logical_ok p" "\<not> allocated bp p" using sample_new_page[OF subset_refl e(12)] by blast
  have nm: "index_name_of cm ''accounts'' ''by_id'' = None" "map_of (table_names cm) ''accounts'' = Some 0" "map_of (tables cm) 0 = Some info"
    "key_positions (tm_schema (table_meta info)) [''id''] = Some [0]" "tm_schema (table_meta info) \<noteq> []" "length (tm_schema (table_meta info)) < 2 ^ 32"
    "CHR 0x00 \<notin> set ''by_id''" "length ''by_id'' < 2 ^ 32" "length [''id''] < 2 ^ 32" "24 + length ''by_id'' + 4 * length [''id''] \<le> PAGE_SIZE"
    "CatalogMeta_GetSerializedSize (catalog_meta cm) + 8 \<le> PAGE_SIZE" "1 < pool_size bp" "the (next_index_id cm) + 1 \<noteq> 0"
    using e(3-8,11) sample_schema_ok by (simp_all add: index_name_of_def PAGE_SIZE_def)
  obtain s cm' bp' ix where c: "catalog_inv cm' bp'" "catalog_stored cm' bp'" "pool_size bp' = pool_size bp" "table_names cm' = table_names cm" "tables cm' = tables cm"
    "indexes cm' = indexes cm @ [(the (next_index_id cm), ix)]"
    "index_name_of cm' = (\<lambda>t' x'. if t' = ''accounts'' \<and> x' = ''by_id'' then Some (the (next_index_id cm)) else index_name_of cm t' x')"
    "\<forall>q. allocated bp q \<longrightarrow> q \<noteq> CATALOG_META_PAGE_ID \<longrightarrow> allocated bp' q \<and> view bp' q = view bp q"
    using CreateIndex_new[OF e(1,2) nm(1-6) p ff nm(7-13), unfolded Let_def] by (elim exE conjE) (rule that; assumption)
  let ?h = "first_page_id (heap_of info)"
  note H = heap_invD[OF e(9)]
  have "allocated bp ?h" using H(5) by simp
  then have "allocated bp' ?h" "view bp' ?h = view bp ?h" using c(8) e(10) by simp_all
  then have "heap_inv bp' ?h [?h]" using e(9) catalog_invD(1)[OF c(1)] idle_clean[of bp'] catalog_invD(2)[OF c(1)] by (simp add: heap_inv_def)
  moreover have "map_of (indexes cm) 0 = None" by (rule ids_freshD[OF e(2)]) (use e(6) in auto)
  then have "GetIndex ''accounts'' ''by_id'' cm' = Some (DB_SUCCESS, Some ix)" by (simp add: GetIndex_names c(6,7) e(6) map_add_def)
  ultimately show ?thesis using that[OF c(1,2)] nm(2,3) e(8,10,11) c(3-5) by simp
qed

theorem database_create_witness:
  "\<exists>engine pids file' engine' cm' bp' info. DBStorageEngine_new None True 20 = Some engine \<and> DBStorageEngine_delete pids engine = Some file' \<and>
    DBStorageEngine_new (Some file') False 20 = Some engine' \<and> CreateTable ''t'' sample_schema (catalog_mgr engine') (bpm engine') = None \<and>
    CreateTable ''t'' sample_schema ((catalog_mgr engine')\<lparr>next_table_id := Some 0, next_index_id := Some 0\<rparr>) (bpm engine') = Some (DB_SUCCESS, Some info, cm', bp')"
proof -
  have n: "2 < (20 :: nat)" "(20 :: nat) < 2 ^ 64" "4 < (20 :: nat)" by simp_all
  obtain engine where e: "DBStorageEngine_new None True 20 = Some engine" "catalog_inv (catalog_mgr engine) (bpm engine)"
    "\<forall>pids. set pids = dom (page_table (bpm engine)) \<longrightarrow> (\<exists>file' engine'. DBStorageEngine_delete pids engine = Some file' \<and> DBStorageEngine_new (Some file') False 20 = Some engine' \<and>
        next_table_id (catalog_mgr engine') = None \<and> next_index_id (catalog_mgr engine') = None \<and> GetTables (catalog_mgr engine') = (DB_TABLE_NOT_EXIST, []) \<and>
        (\<forall>name schema. CreateTable name schema (catalog_mgr engine') (bpm engine') = None) \<and>
        (\<forall>t i name schema. t + 1 \<noteq> 0 \<and> CHR 0x00 \<notin> set name \<and> length name < 2 ^ 32 \<and> list_all column_ok schema \<and> length schema < 2 ^ 32 \<and>
            24 + length name + Schema_GetSerializedSize schema \<le> PAGE_SIZE \<longrightarrow>
          (\<exists>info cm' bp'. CreateTable name schema ((catalog_mgr engine')\<lparr>next_table_id := Some t, next_index_id := Some i\<rparr>) (bpm engine') =
            Some (DB_SUCCESS, Some info, cm', bp') \<and> GetTable name cm' = (DB_SUCCESS, Some info))))"
    using database_create[OF n(1,2,3,2), of None] by (elim exE conjE) (rule that; assumption)
  obtain pids where "set pids = dom (page_table (bpm engine))" using finite_list[OF page_table_finite[OF catalog_invD(1)[OF e(2)]]] by blast
  from e(3)[rule_format, OF this] obtain file' engine' where d: "DBStorageEngine_delete pids engine = Some file'" "DBStorageEngine_new (Some file') False 20 = Some engine'"
    "\<forall>name schema. CreateTable name schema (catalog_mgr engine') (bpm engine') = None"
    "\<forall>t i name schema. t + 1 \<noteq> 0 \<and> CHR 0x00 \<notin> set name \<and> length name < 2 ^ 32 \<and> list_all column_ok schema \<and> length schema < 2 ^ 32 \<and>
            24 + length name + Schema_GetSerializedSize schema \<le> PAGE_SIZE \<longrightarrow>
          (\<exists>info cm' bp'. CreateTable name schema ((catalog_mgr engine')\<lparr>next_table_id := Some t, next_index_id := Some i\<rparr>) (bpm engine') =
            Some (DB_SUCCESS, Some info, cm', bp') \<and> GetTable name cm' = (DB_SUCCESS, Some info))"
    by (elim exE conjE) (rule that; (assumption | blast))
  have "(0 :: u32) + 1 \<noteq> 0 \<and> CHR 0x00 \<notin> set ''t'' \<and> length ''t'' < 2 ^ 32 \<and> list_all column_ok sample_schema \<and> length sample_schema < 2 ^ 32 \<and>
            24 + length ''t'' + Schema_GetSerializedSize sample_schema \<le> PAGE_SIZE" using sample_schema_ok by (simp add: PAGE_SIZE_def)
  from d(4)[rule_format, OF this, of 0] obtain info cm' bp' where
    "CreateTable ''t'' sample_schema ((catalog_mgr engine')\<lparr>next_table_id := Some 0, next_index_id := Some 0\<rparr>) (bpm engine') = Some (DB_SUCCESS, Some info, cm', bp')" by blast
  then show ?thesis using e(1) d(1,2) d(3)[rule_format, of "''t''" sample_schema] by blast
qed

theorem catalog_create_table_witness:
  "\<exists>cm bp info cm' bp'. DBStorageEngine_new None True 20 = Some \<lparr>bpm = bp, catalog_mgr = cm\<rparr> \<and>
    CreateTable ''accounts'' sample_schema cm bp = Some (DB_SUCCESS, Some info, cm', bp') \<and> GetTable ''accounts'' cm' = (DB_SUCCESS, Some info)"
proof -
  obtain cm bp where e: "DBStorageEngine_new None True 20 = Some \<lparr>bpm = bp, catalog_mgr = cm\<rparr>" "catalog_inv cm bp" "ids_fresh cm" "table_names cm = []" "next_table_id cm = Some 0"
    "CatalogMeta_GetSerializedSize (catalog_meta cm) = 12" "pool_size bp = 20" "length (free_list bp) = 18"
    "allocated bp = (\<lambda>q. q = CATALOG_META_PAGE_ID \<or> q = INDEX_ROOTS_PAGE_ID)" by (rule sample_engine)
  have na: "\<not> allocated bp 2" "\<not> allocated bp 3" by (simp_all add: e(9) CATALOG_META_PAGE_ID_def INDEX_ROOTS_PAGE_ID_def)
  show ?thesis
    using catalog_create_table[OF e(2,3) _ static_pages(3) na(1) static_pages(4) na(2), of "''accounts''" sample_schema] e(1,4-8) sample_schema_ok
    by (auto simp: PAGE_SIZE_def)
qed

theorem catalog_create_index_witness:
  "\<exists>cm bp ix cm' bp'. CreateIndex ''accounts'' ''by_id'' [''id''] cm bp = Some (DB_SUCCESS, Some ix, cm', bp') \<and>
    GetIndex ''accounts'' ''by_id'' cm' = Some (DB_SUCCESS, Some ix) \<and> map name_of (key_schema ix) = [''id'']"
proof -
  obtain cm bp info where e: "catalog_inv cm bp" "ids_fresh cm" "table_names cm = [(''accounts'', 0)]" "tables cm = [(0, info)]" "index_names cm = []" "next_index_id cm = Some 0"
    "CatalogMeta_GetSerializedSize (catalog_meta cm) = 20" "tm_schema (table_meta info) = sample_schema"
    "pool_size bp = 20" "finite {q. allocated bp q}" "card {q. allocated bp q} \<le> 4" by (rule sample_table_created)
  note V = catalog_invD[OF e(1)]
  have ff: "1 < length (free_list bp)" by (rule sample_free_frames[OF V(1) refl e(11)]) (simp add: e(9))
  have "card {q. allocated bp q} \<le> 6" using e(11) by simp
  then obtain p where p: "logical_ok p" "\<not> allocated bp p" using sample_new_page[OF subset_refl e(10)] by blast
  have n: "1 < pool_size bp" "map_of (table_names cm) ''accounts'' = Some 0" "map_of (tables cm) 0 = Some info" "tm_schema (table_meta info) \<noteq> []"
    "length (tm_schema (table_meta info)) < 2 ^ 32" "CHR 0x00 \<notin> set ''by_id''" "length ''by_id'' < 2 ^ 32" "length [''id''] < 2 ^ 32"
    "24 + length ''by_id'' + 4 * length [''id''] \<le> PAGE_SIZE" "CatalogMeta_GetSerializedSize (catalog_meta cm) + 8 \<le> PAGE_SIZE" "the (next_index_id cm) + 1 \<noteq> 0"
    using e(3-9) sample_schema_ok by (simp_all add: PAGE_SIZE_def)
  have k: "index_name_of cm ''accounts'' ''by_id'' = None" "key_positions (tm_schema (table_meta info)) [''id''] = Some [0]"
    using e(5,8) sample_schema_ok(5) by (simp_all add: index_name_of_def)
  obtain ix cm' bp' where "CreateIndex ''accounts'' ''by_id'' [''id''] cm bp = Some (DB_SUCCESS, Some ix, cm', bp')"
    "GetIndex ''accounts'' ''by_id'' cm' = Some (DB_SUCCESS, Some ix)" "map name_of (key_schema ix) = [''id'']"
    using catalog_create_index[OF e(1,2) n(1) p ff n(2-11)] unfolding k by auto
  then show ?thesis by (intro exI conjI)
qed

theorem database_reopen_witness:
  "\<exists>engine pids db engine'. DBStorageEngine_delete pids engine = Some db \<and> DBStorageEngine_new (Some db) False 20 = Some engine' \<and>
    fst (GetTable ''accounts'' (catalog_mgr engine')) = DB_SUCCESS"
proof -
  obtain cm bp info ix where e: "catalog_inv cm bp" "catalog_stored cm bp" "map_of (table_names cm) ''accounts'' = Some 0" by (rule sample_database)
  obtain pids where "set pids = dom (page_table bp)" using finite_list[OF page_table_finite[OF catalog_invD(1)[OF e(1)]]] by blast
  then obtain db engine' where d: "DBStorageEngine_delete pids \<lparr>bpm = bp, catalog_mgr = cm\<rparr> = Some db" "DBStorageEngine_new (Some db) False 20 = Some engine'"
    "\<forall>name. GetTable name (catalog_mgr engine') = map_prod (\<lambda>r. r) (map_option reopened_table) (GetTable name cm)"
    using database_reopen[of "\<lparr>bpm = bp, catalog_mgr = cm\<rparr>" pids 20] e(1,2) by auto
  have "fst (GetTable ''accounts'' (catalog_mgr engine')) = DB_SUCCESS" using d(3) e(3) by (simp add: GetTable_def[of _ cm])
  then show ?thesis using d(1,2) by blast
qed

theorem drop_table_unreadable_witness:
  "\<exists>cm bp cm' bp' p. DropTable ''accounts'' cm bp = Some (DB_SUCCESS, cm', bp') \<and> pins bp' p = 1 \<and>
    (\<forall>pids. set pids = dom (page_table bp') \<longrightarrow> (\<exists>db. DBStorageEngine_delete pids \<lparr>bpm = bp', catalog_mgr = cm'\<rparr> = Some db \<and> DBStorageEngine_new (Some db) False 20 = None))"
proof -
  obtain cm bp info ix where e: "catalog_inv cm bp" "map_of (table_names cm) ''accounts'' = Some 0" "map_of (tables cm) 0 = Some info"
    "heap_inv bp (first_page_id (heap_of info)) [first_page_id (heap_of info)]" "CATALOG_META_PAGE_ID \<notin> set [first_page_id (heap_of info)]" "pool_size bp = 20"
    "GetIndex ''accounts'' ''by_id'' cm = Some (DB_SUCCESS, Some ix)" by (rule sample_database)
  have n: "length [first_page_id (heap_of info)] < pool_size bp" "2 < (20 :: nat)" "(20 :: nat) < 2 ^ 64" by (simp_all add: e(6))
  obtain cm' bp' where d: "DropTable ''accounts'' cm bp = Some (DB_SUCCESS, cm', bp')" "pins bp' = (\<lambda>q. if q \<in> set [first_page_id (heap_of info)] then 1 else 0)"
    "\<forall>pids. set pids = dom (page_table bp') \<longrightarrow> (\<exists>db. DBStorageEngine_delete pids \<lparr>bpm = bp', catalog_mgr = cm'\<rparr> = Some db \<and> DBStorageEngine_new (Some db) False 20 = None)"
    using drop_table_unreadable[OF e(1-5) n(1) e(7) n(2,3)] by (elim exE conjE) (rule that; assumption)
  then show ?thesis by (intro exI[of _ cm] exI[of _ bp] exI[of _ cm'] exI[of _ bp'] exI[of _ "first_page_id (heap_of info)"]) simp
qed

end
