(* ===== verification/Executor_Conditions.thy ===== *)
theory Executor_Conditions
  imports Executor Storage_Engine
begin

text \<open>The conditions of the executor: the row ids that a condition finds are those of the rows for which it holds, or the program does not survive it
  (\<open>condition_rows\<close>).  \<open>condition_holds\<close> says what a condition means for a row, independently of how the executor finds the rows.\<close>

section \<open>Sets of row ids\<close>

lemma rid_less_order:
  "\<not> rid_less a a" "rid_less a b \<Longrightarrow> rid_less b c \<Longrightarrow> rid_less a c" "a \<noteq> b \<Longrightarrow> rid_less a b \<or> rid_less b a" "rid_less a b \<Longrightarrow> \<not> rid_less b a"
  by (cases a; cases b; cases c; auto simp: rid_less_def)+

lemma set_set_insert [simp]: "set (set_insert r xs) = insert r (set xs)"
  using rid_less_order(3) by (induction xs) auto

lemma sorted_set_insert: "sorted_wrt rid_less xs \<Longrightarrow> sorted_wrt rid_less (set_insert r xs)"
  by (induction xs) (auto intro: rid_less_order(2))

text \<open>The connectors: the loop for \<open>and\<close> makes the intersection, the loop for \<open>or\<close> the union, unless it reads behind the end of the second set.\<close>

lemma and_loop_set:
  assumes "sorted_wrt rid_less xs" "sorted_wrt rid_less ys"
  shows "set (and_loop xs ys found) = set found \<union> (set xs \<inter> set ys)"
  using assms
proof (induction xs ys found rule: and_loop.induct)
  case (4 x xs y ys found)
  have le: "\<forall>z \<in> set xs. rid_less x z" "\<forall>z \<in> set ys. rid_less y z" using 4(4,5) by simp_all
  consider "x = y" | "x \<noteq> y" "rid_less x y" | "x \<noteq> y" "\<not> rid_less x y" "rid_less y x" using rid_less_order(3) by blast
  then show ?case
  proof cases
    case 1
    then have "y \<notin> set ys" "x \<notin> set xs" using le rid_less_order(1) by blast+
    then show ?thesis using 4(1)[OF 1] 4(4,5) 1 by auto
  next
    case 2
    then have "x \<notin> set ys" using le rid_less_order(1,2) by blast
    then show ?thesis using 4(2)[OF 2] 4(4,5) 2 by auto
  next
    case 3
    then have "y \<notin> set xs" using le rid_less_order(1,2) by blast
    then show ?thesis using 4(3)[OF 3(1,2)] 4(4,5) 3 by auto
  qed
qed auto

lemma and_loop_sorted: "sorted_wrt rid_less found \<Longrightarrow> sorted_wrt rid_less (and_loop xs ys found)"
  by (induction xs ys found rule: and_loop.induct) (simp_all add: sorted_set_insert)

lemma or_loop_ok:
  assumes "sorted_wrt rid_less xs" "sorted_wrt rid_less ys" "sorted_wrt rid_less found"
  shows "case or_loop xs ys found of None \<Rightarrow> \<exists>x \<in> set xs. \<forall>y \<in> set ys. rid_less y x
    | Some r \<Rightarrow> set r = set found \<union> set xs \<union> set ys \<and> sorted_wrt rid_less r \<and> \<not> (\<exists>x \<in> set xs. \<forall>y \<in> set ys. rid_less y x)"
  using assms
proof (induction xs ys found rule: or_loop.induct)
  case (4 x xs y ys found)
  consider "rid_less y x" | "rid_less x y" | "x = y" using rid_less_order(3) by blast
  then show ?case
  proof cases
    case 1
    have "sorted_wrt rid_less (set_insert y found)" using 4 by (simp add: sorted_set_insert)
    then have IH: "case or_loop (x # xs) ys (set_insert y found) of None \<Rightarrow> \<exists>a \<in> set (x # xs). \<forall>y \<in> set ys. rid_less y a
      | Some r \<Rightarrow> set r = set (set_insert y found) \<union> set (x # xs) \<union> set ys \<and> sorted_wrt rid_less r \<and> \<not> (\<exists>a \<in> set (x # xs). \<forall>y \<in> set ys. rid_less y a)"
      using 4(1)[OF 1] 4 by simp
    have "(\<exists>a \<in> set (x # xs). \<forall>z \<in> set (y # ys). rid_less z a) = (\<exists>a \<in> set (x # xs). \<forall>z \<in> set ys. rid_less z a)"
      using 1 4(4) by (auto intro: rid_less_order(2))
    then show ?thesis using IH 1 by (auto split: option.splits)
  next
    case 2
    then have n: "\<not> rid_less y x" by (rule rid_less_order(4))
    have "sorted_wrt rid_less (set_insert x found)" using 4 by (simp add: sorted_set_insert)
    then have IH: "case or_loop xs (y # ys) (set_insert x found) of None \<Rightarrow> \<exists>a \<in> set xs. \<forall>y \<in> set (y # ys). rid_less y a
      | Some r \<Rightarrow> set r = set (set_insert x found) \<union> set xs \<union> set (y # ys) \<and> sorted_wrt rid_less r \<and> \<not> (\<exists>a \<in> set xs. \<forall>y \<in> set (y # ys). rid_less y a)"
      using 4(2)[OF n 2] 4 by simp
    show ?thesis using IH 2 n by (auto split: option.splits)
  next
    case 3
    then have n: "\<not> rid_less y x" "\<not> rid_less x y" using rid_less_order(1) by auto
    have "sorted_wrt rid_less (set_insert x found)" using 4 by (simp add: sorted_set_insert)
    then have IH: "case or_loop xs ys (set_insert x found) of None \<Rightarrow> \<exists>a \<in> set xs. \<forall>y \<in> set ys. rid_less y a
      | Some r \<Rightarrow> set r = set (set_insert x found) \<union> set xs \<union> set ys \<and> sorted_wrt rid_less r \<and> \<not> (\<exists>a \<in> set xs. \<forall>y \<in> set ys. rid_less y a)"
      using 4(3)[OF n] 4 by simp
    have "(\<exists>a \<in> set (x # xs). \<forall>z \<in> set (y # ys). rid_less z a) = (\<exists>a \<in> set xs. \<forall>z \<in> set ys. rid_less z a)"
      using 3 n 4(4) by auto
    then show ?thesis using IH 3 n by (auto split: option.splits)
  qed
next
  case (2 y ys found)
  then show ?case by (simp add: sorted_set_insert split: option.splits)
qed auto

section \<open>The loops over a heap\<close>

text \<open>The loops of the executor do what \<^const>\<open>scan\<close> does.\<close>

lemma scan_end: "scan h row bp = Some ([], bp') \<Longrightarrow> row_id row = INVALID_ROWID \<and> bp' = bp"
  by (subst (asm) scan.simps) (auto split: if_splits bind_splits prod.splits)

lemma scan_step: "scan h row bp = Some (r # rs, bp') \<Longrightarrow> r = row \<and> row_id row \<noteq> INVALID_ROWID \<and> (\<exists>next bp1. advance h row bp = Some (next, bp1) \<and> scan h next bp1 = Some (rs, bp'))"
  by (subst (asm) scan.simps) (auto split: if_splits bind_splits prod.splits)

lemma at_end: "it < length rows \<Longrightarrow> TableHeap_End rows = (length rows, rows @ [\<lparr>row_id = INVALID_ROWID, row_fields = []\<rparr>]) \<and>
    iterator_eq it (length rows) (rows @ [\<lparr>row_id = INVALID_ROWID, row_fields = []\<rparr>]) = (row_id (rows ! it) = INVALID_ROWID)"
  by (simp add: TableHeap_End_def TableIterator_new_def iterator_eq_def nth_append)

lemma post_inc_advance:
  "it < length rows \<Longrightarrow> advance h (rows ! it) bp = Some (row, bp') \<Longrightarrow>
    TableIterator_post_inc h it (rows @ [x]) bp = Some (it, (rows @ [x])[it := row], bp')"
  by (simp add: TableIterator_post_inc_def nth_append)

lemma heap_filter_scan:
  assumes "scan h (rows ! it) bp = Some (rs, bp')" and "it < length rows" and "\<forall>r \<in> set rs. \<forall>buf. buf \<in> B \<longrightarrow> (\<exists>buf' \<in> B. test r buf = Some (P r, buf'))" and "buf \<in> B"
  shows "\<exists>buf' \<in> B. heap_filter h test it rows found buf bp = Some (fold (\<lambda>r found. if P r then set_insert (row_id r) found else found) rs found, buf', bp')"
  using assms
proof (induction rs arbitrary: rows found buf bp)
  case Nil
  then show ?case using scan_end[OF Nil(1)] at_end[OF Nil(2)] by (subst heap_filter.simps) (auto simp: Let_def)
next
  case (Cons r rs)
  let ?past = "\<lparr>row_id = INVALID_ROWID, row_fields = []\<rparr>"
  obtain nx bp1 where s: "r = rows ! it" "row_id r \<noteq> INVALID_ROWID" "advance h r bp = Some (nx, bp1)" "scan h nx bp1 = Some (rs, bp')"
    using scan_step[OF Cons.prems(1)] by blast
  obtain buf1 where b: "test r buf = Some (P r, buf1)" "buf1 \<in> B" using Cons.prems(3,4) by auto
  let ?rows = "(rows @ [?past])[it := nx]"
  have n: "?rows ! it = nx" "it < length ?rows" "(rows @ [?past]) ! it = r" using Cons.prems(2) s(1) by (simp_all add: nth_append)
  have sc: "scan h (?rows ! it) bp1 = Some (rs, bp')" using s(4) n(1) by simp
  have t: "\<forall>r \<in> set rs. \<forall>buf. buf \<in> B \<longrightarrow> (\<exists>buf' \<in> B. test r buf = Some (P r, buf'))" using Cons.prems(3) by simp
  have ne: "\<not> iterator_eq it (length rows) (rows @ [?past])" using at_end[OF Cons.prems(2)] s(1,2) by simp
  have step: "heap_filter h test it rows found buf bp = heap_filter h test it ?rows (if P r then set_insert (row_id r) found else found) buf1 bp1"
    using at_end[OF Cons.prems(2)] ne b(1) n(3) post_inc_advance[OF Cons.prems(2), of h bp nx bp1] s(1,3)
    by (subst heap_filter.simps) (simp add: Let_def)
  show ?case unfolding step using Cons.IH[OF sc n(2) t b(2)] by simp
qed

lemma fold_set_insert: "set (fold (\<lambda>r found. if P r then set_insert (row_id r) found else found) rs found) = set found \<union> row_id ` {r \<in> set rs. P r}"
  by (induction rs arbitrary: found) auto

lemma fold_sorted: "sorted_wrt rid_less found \<Longrightarrow> sorted_wrt rid_less (fold (\<lambda>r found. if P r then set_insert (row_id r) found else found) rs found)"
  by (induction rs arbitrary: found) (auto simp: sorted_set_insert)

section \<open>Comparisons\<close>

text \<open>What a comparison on numbers means.\<close>

definition compare_values :: "cmp_op \<Rightarrow> Field \<Rightarrow> Field \<Rightarrow> bool" where
  "compare_values op f g = (case (value_of f, value_of g) of
     (VInt x, VInt y) \<Rightarrow> cmp_holds op x y | (VFloat x, VFloat y) \<Rightarrow> float_cmp op x y | _ \<Rightarrow> False)"

definition numeric :: "TypeId \<Rightarrow> bool" where
  "numeric t = (t = kTypeInt \<or> t = kTypeFloat)"

lemma field_ok_numeric:
  assumes "field_ok f" "numeric (ftype f)"
  shows "(\<exists>i. f = Field_int i \<and> int32_range i) \<or> (\<exists>w. f = Field_float w)"
  using assms by (cases "value_of f") (auto simp: field_ok_def numeric_def)

lemma Field_Compare_numeric:
  assumes "field_ok f" "ftype f = t" "numeric t" "condition_field t val i = Some g"
  shows "Field_Compare op f g buf = Some (GetCmpBool (compare_values op f g), buf)"
  using field_ok_numeric[of f] assms
  by (auto simp: condition_field_def Field_Compare_def TypeInt_Compare_def TypeFloat_Compare_def Field_int_def Field_float_def compare_values_def numeric_def)

lemma stored_field:
  assumes "stored_row schema c r" "i < length schema"
  shows "field_at r i = Some (row_fields r ! i)" "field_ok (row_fields r ! i)" "ftype (row_fields r ! i) = ctype (schema ! i)"
  using assms by (auto simp: stored_row_def row_ok_def list_all2_conv_all_nth field_at_def)

lemma field_test_stored:
  assumes "stored_row schema c r" "i < length schema" "numeric (ctype (schema ! i))" "condition_field (ctype (schema ! i)) val k = Some g"
  shows "field_test op positive i g r buf = Some (compare_values op (row_fields r ! i) g = positive, buf)"
  using stored_field[OF assms(1,2)] Field_Compare_numeric[OF _ _ assms(3,4)] by (simp add: field_test_def GetCmpBool_def)

lemma GetColumnIndex_less: "GetColumnIndex schema col = Some i \<Longrightarrow> i < length schema"
  by (induction schema arbitrary: i) (auto split: if_splits)

text \<open>A table of the database in use, on which no index is used.\<close>

definition table_state :: "ExecuteEngine \<Rightarrow> string \<Rightarrow> DBStorageEngine \<Rightarrow> TableInfo \<Rightarrow> page_id_t list \<Rightarrow> bool" where
  "table_state e name db info pids \<longleftrightarrow> open_db e = Some db \<and> GetTable name (catalog_mgr db) = (DB_SUCCESS, Some info) \<and>
     heap_schema (heap_of info) = table_schema info \<and> heap_inv (bpm db) (first_page_id (heap_of info)) pids \<and> spare (bpm db) \<and>
     heap_typed (table_schema info) (view (bpm db)) pids \<and>
     (\<exists>r ixs. GetTableIndexes name (catalog_mgr db) = Some (r, ixs) \<and> (\<forall>i. find (index_on info i) ixs = None))"

definition rows_of :: "DBStorageEngine \<Rightarrow> TableInfo \<Rightarrow> page_id_t list \<Rightarrow> Row list" where
  "rows_of db info pids = table_rows (table_schema info) (view (bpm db)) (visited_rids (view (bpm db)) (heap_of info) pids)"

definition same_rows :: "ExecuteEngine \<Rightarrow> DBStorageEngine \<Rightarrow> ExecuteEngine \<Rightarrow> bool" where
  "same_rows e db e' \<longleftrightarrow> (\<exists>db' buf. e' = (set_db db' e)\<lparr>static_buf := buf\<rparr> \<and> length buf = length (static_buf e) \<and> catalog_mgr db' = catalog_mgr db \<and> kept (bpm db) (bpm db') (view (bpm db)))"

lemma open_set_db: "open_db e = Some db \<Longrightarrow> open_db ((set_db db' e)\<lparr>static_buf := buf\<rparr>) = Some db'"
  by (simp add: open_db_def set_db_def hash_set_of)

lemma view_heap_kept:
  assumes "heap_inv bp first pids" "kept bp bp' (view bp)" "q \<in> set pids"
  shows "view bp' q = view bp q"
  using assms by (simp add: heap_inv_def kept_def)

lemma visited_cong:
  assumes "\<And>q. q \<in> set pids \<Longrightarrow> c' q = c q" "first_page_id h \<in> set pids"
  shows "visited_rids c' h pids = visited_rids c h pids" "table_rows schema c' (visited_rids c h pids) = table_rows schema c (visited_rids c h pids)" "heap_typed schema c' pids = heap_typed schema c pids"
proof -
  have l: "live_rids c' pids = live_rids c pids" using assms(1) by (simp add: live_rids_def cong: map_cong)
  show "visited_rids c' h pids = visited_rids c h pids" using assms l by (simp add: visited_rids_def)
  have "rid_page r \<in> set pids" if "r \<in> set (visited_rids c h pids)" for r
    using that by (auto simp: visited_rids_def live_rids_def split: if_splits)
  then show "table_rows schema c' (visited_rids c h pids) = table_rows schema c (visited_rids c h pids)"
    using assms(1) by (auto simp: table_rows_def stored_fields_def)
  show "heap_typed schema c' pids = heap_typed schema c pids" using assms(1) by (simp add: heap_typed_def)
qed

lemma same_rows_state:
  assumes "table_state e name db info pids" "same_rows e db e'"
  shows "\<exists>db'. table_state e' name db' info pids \<and> rows_of db' info pids = rows_of db info pids \<and> catalog_mgr db' = catalog_mgr db \<and> kept (bpm db) (bpm db') (view (bpm db)) \<and> (\<forall>e''. same_rows e' db' e'' \<longrightarrow> same_rows e db e'')"
proof -
  obtain db' buf where d: "e' = (set_db db' e)\<lparr>static_buf := buf\<rparr>" "length buf = length (static_buf e)" "catalog_mgr db' = catalog_mgr db" "kept (bpm db) (bpm db') (view (bpm db))"
    using assms(2) unfolding same_rows_def by blast
  note T = assms(1)[unfolded table_state_def]
  have inv: "heap_inv (bpm db) (first_page_id (heap_of info)) pids" using T by blast
  have v: "\<And>q. q \<in> set pids \<Longrightarrow> view (bpm db') q = view (bpm db) q" using view_heap_kept[OF inv d(4)] by blast
  have f: "first_page_id (heap_of info) \<in> set pids" using heap_first[OF inv] by blast
  note C = visited_cong[of pids "view (bpm db')" "view (bpm db)" "heap_of info", OF v f]
  have "table_state e' name db' info pids"
    using T d open_set_db heap_inv_kept[OF inv d(4)] kept_spare[OF d(4)] C(3) by (simp add: table_state_def)
  moreover have "rows_of db' info pids = rows_of db info pids" using C(1,2) by (simp add: rows_of_def)
  moreover have "same_rows e db e''" if "same_rows e' db' e''" for e''
  proof -
    obtain db2 buf2 where x: "e'' = (set_db db2 e')\<lparr>static_buf := buf2\<rparr>" "length buf2 = length (static_buf e')" "catalog_mgr db2 = catalog_mgr db'" "kept (bpm db') (bpm db2) (view (bpm db'))"
      using \<open>same_rows e' db' e''\<close> unfolding same_rows_def by blast
    have "hash_set n b (hash_set n a m) = hash_set n b m" for n :: string and a b :: DBStorageEngine and m by (simp add: hash_set_def comp_def)
    then have "e'' = (set_db db2 e)\<lparr>static_buf := buf2\<rparr>" using x(1) d(1) by (simp add: set_db_def)
    moreover have "kept (bpm db) (bpm db2) (view (bpm db))"
      by (rule kept_trans[OF d(4)], rule kept_cong[OF x(4)]) (use d(4) in \<open>simp add: kept_def\<close>)
    ultimately show ?thesis using x d unfolding same_rows_def by auto
  qed
  ultimately show ?thesis using d(3,4) by blast
qed

section \<open>Conditions\<close>

fun node_text :: "tree \<Rightarrow> string option" where
  "node_text (Tree ty v cs) = map_option c_string v"

text \<open>What the operators mean for the number in a field and the text of a value.\<close>

definition meant_operator :: "string \<Rightarrow> cmp_op option" where
  "meant_operator = map_of [(''='', CEq), (''<>'', CNe), (''<'', CLt), (''<='', CLe), (''>'', CGt), (''>='', CGe)]"

definition number_holds :: "cmp_op \<Rightarrow> Field \<Rightarrow> string \<Rightarrow> bool" where
  "number_holds op f val = (case value_of f of VInt x \<Rightarrow> cmp_holds op x (the (atoi val)) | VFloat w \<Rightarrow> float_cmp op w (atof val) | _ \<Rightarrow> False)"

lemma comparison_meant:
  assumes "meant_operator s = Some m"
  obtains op positive where "comparison s = Some (op, positive)" "\<And>x y. (cmp_holds op x y = positive) = cmp_holds m x y" "\<And>x y. (float_cmp op x y = positive) = float_cmp m x y"
proof -
  have "s = ''='' \<and> m = CEq \<or> s = ''<>'' \<and> m = CNe \<or> s = ''<'' \<and> m = CLt \<or> s = ''<='' \<and> m = CLe \<or> s = ''>'' \<and> m = CGt \<or> s = ''>='' \<and> m = CGe"
    using assms by (simp add: meant_operator_def split: if_splits)
  then have "comparison s = Some (if m = CNe then CEq else m, m \<noteq> CNe)" by (auto simp: comparison_def)
  moreover have "(cmp_holds (if m = CNe then CEq else m) x y = (m \<noteq> CNe)) = cmp_holds m x y" for x y by (cases m) simp_all
  moreover have "(float_cmp (if m = CNe then CEq else m) x y = (m \<noteq> CNe)) = float_cmp m x y" for x y by (cases m) (simp_all add: float_cmp_def)
  ultimately show ?thesis by (rule that)
qed

definition comparison_ok :: "Schema \<Rightarrow> string option \<Rightarrow> tree \<Rightarrow> tree \<Rightarrow> bool" where
  "comparison_ok schema v a b = (case (v, node_text a, node_text b) of
     (Some op, Some col, Some val) \<Rightarrow> meant_operator (c_string op) \<noteq> None \<and> atoi val \<noteq> None \<and>
       (case GetColumnIndex schema col of Some i \<Rightarrow> numeric (ctype (schema ! i)) | None \<Rightarrow> False)
   | _ \<Rightarrow> False)"

definition comparison_holds :: "Schema \<Rightarrow> string option \<Rightarrow> tree \<Rightarrow> tree \<Rightarrow> Field list \<Rightarrow> bool" where
  "comparison_holds schema v a b fs =
     number_holds (the (meant_operator (c_string (the v)))) (fs ! the (GetColumnIndex schema (the (node_text a)))) (the (node_text b))"

text \<open>The conditions: comparisons of numbers that are connected with \<open>and\<close> and \<open>or\<close>, and what they mean for a row.\<close>

fun condition_ok :: "Schema \<Rightarrow> tree \<Rightarrow> bool" where
  "condition_ok schema (Tree ty v [a, b]) = (if ty = kNodeConnector then (v = Some ''and'' \<or> v = Some ''or'') \<and> condition_ok schema a \<and> condition_ok schema b
     else ty = kNodeCompareOperator \<and> comparison_ok schema v a b)"
| "condition_ok schema _ = False"

fun condition_holds :: "Schema \<Rightarrow> tree \<Rightarrow> Row \<Rightarrow> bool" where
  "condition_holds schema (Tree ty v [a, b]) r = (if ty = kNodeConnector
     then if v = Some ''and'' then condition_holds schema a r \<and> condition_holds schema b r else condition_holds schema a r \<or> condition_holds schema b r
     else comparison_holds schema v a b (row_fields r))"
| "condition_holds schema _ r = False"

text \<open>The disjunctions that the program does not survive: the first condition holds for a row behind all rows for which the second one holds.\<close>

fun condition_defined :: "Schema \<Rightarrow> Row list \<Rightarrow> tree \<Rightarrow> bool" where
  "condition_defined schema rows (Tree ty v [a, b]) = (ty = kNodeConnector \<longrightarrow> condition_defined schema rows a \<and> condition_defined schema rows b \<and>
     (v = Some ''or'' \<longrightarrow> \<not> (\<exists>x \<in> set rows. condition_holds schema a x \<and> (\<forall>y \<in> set rows. condition_holds schema b y \<longrightarrow> rid_less (row_id y) (row_id x)))))"
| "condition_defined schema rows _ = True"

lemma compare_operator_rows:
  assumes t: "table_state e (ctx_table_name ctx) db info pids" and ok: "comparison_ok (table_schema info) v a b"
  shows "\<exists>found e'. ExecuteCompareOperator (Tree kNodeCompareOperator v (a # b # cs) # ns) ctx e = Some (DB_SUCCESS, ctx\<lparr>internal_result_rid := found\<rparr>, e') \<and>
    set found = row_id ` {r \<in> set (rows_of db info pids). comparison_holds (table_schema info) v a b (row_fields r)} \<and> sorted_wrt rid_less found \<and> same_rows e db e'"
proof -
  let ?s = "table_schema info" and ?h = "heap_of info"
  note T = t[unfolded table_state_def]
  obtain op col val i m k where c0: "v = Some op" "node_text a = Some col" "node_text b = Some val" "meant_operator (c_string op) = Some m" "atoi val = Some k"
    "GetColumnIndex ?s col = Some i" "numeric (ctype (?s ! i))" using ok by (auto simp: comparison_ok_def split: option.splits)
  obtain opn positive where cm: "comparison (c_string op) = Some (opn, positive)" "\<And>x y. (cmp_holds opn x y = positive) = cmp_holds m x y"
    "\<And>x y. (float_cmp opn x y = positive) = float_cmp m x y" by (rule comparison_meant[OF c0(4)]) (rule that; assumption)
  note c = c0(1-3) cm(1) c0(5-7)
  obtain g where g: "condition_field (ctype (?s ! i)) val k = Some g" using c(7) by (auto simp: condition_field_def numeric_def)
  obtain r ixs where ix: "GetTableIndexes (ctx_table_name ctx) (catalog_mgr db) = Some (r, ixs)" "find (index_on info i) ixs = None" using T by blast
  have il: "i < length ?s" by (rule GetColumnIndex_less[OF c(6)])
  have hs: "heap_schema ?h = ?s" using T by blast
  have va: "heap_inv (bpm db) (first_page_id ?h) pids" "spare (bpm db)" "heap_typed (heap_schema ?h) (view (bpm db)) pids" using T by simp_all
  obtain row bp1 bp2 where b: "TableHeap_Begin ?h [] (bpm db) = Some (0, [row], bp1)" "scan ?h row bp1 = Some (rows_of db info pids, bp2)" "kept (bpm db) bp2 (view (bpm db))"
    "\<forall>r \<in> set (rows_of db info pids). stored_row ?s (view (bpm db)) r"
    using visit_all[OF va, of "[]", unfolded hs, folded rows_of_def, unfolded list.size(3) append.left_neutral] by (elim exE conjE) (rule that; assumption)
  let ?P = "\<lambda>r. compare_values opn (row_fields r ! i) g = positive" and ?B = "{buf. length buf = length (static_buf e)}"
  have st: "\<forall>r \<in> set (rows_of db info pids). \<forall>buf. buf \<in> ?B \<longrightarrow> (\<exists>buf' \<in> ?B. field_test opn positive i g r buf = Some (?P r, buf'))"
    using b(4) field_test_stored[OF _ il c(7) g] by auto
  have "scan ?h ([row] ! 0) bp1 = Some (rows_of db info pids, bp2)" using b(2) by simp
  from heap_filter_scan[OF this _ st] obtain buf where f: "buf \<in> ?B" "heap_filter ?h (field_test opn positive i g) 0 [row] [] (static_buf e) bp1 =
    Some (fold (\<lambda>r found. if ?P r then set_insert (row_id r) found else found) (rows_of db info pids) [], buf, bp2)" by auto
  define found where "found = fold (\<lambda>r found. if ?P r then set_insert (row_id r) found else found) (rows_of db info pids) []"
  have ni: "ctype (?s ! i) \<noteq> kTypeInvalid" using c(7) by (auto simp: numeric_def)
  have ca: "ast_val (a # b # cs) = Some col" "ast_val (b # cs) = Some val" using c(2,3) by (cases a; cases b; simp add: ast_val_def)+
  have "ExecuteCompareOperator (Tree kNodeCompareOperator v (a # b # cs) # ns) ctx e =
    Some (DB_SUCCESS, ctx\<lparr>internal_result_rid := found\<rparr>, (set_db (db\<lparr>bpm := bp2\<rparr>) e)\<lparr>static_buf := buf\<rparr>)"
    using T c(4-6) ix b(1) f(2) g ni ca
    by (simp add: ExecuteCompareOperator_def compare_heap_def ast_val_def[of "Tree _ _ _ # _"] ast_child_def ast_next_def ast_type_def c(1) Let_def found_def)
  moreover have "?P r = comparison_holds ?s v a b (row_fields r)" if r: "r \<in> set (rows_of db info pids)" for r
  proof -
    have st: "stored_row ?s (view (bpm db)) r" using b(4) r by blast
    have "field_ok (row_fields r ! i)" "ftype (row_fields r ! i) = ctype (?s ! i)" using stored_field[OF st il] by blast+
    with field_ok_numeric[of "row_fields r ! i"] c(7) have "(\<exists>x. row_fields r ! i = Field_int x \<and> g = Field_int k) \<or> (\<exists>w. row_fields r ! i = Field_float w \<and> g = Field_float (atof val))"
      using g by (auto simp: condition_field_def Field_int_def Field_float_def numeric_def)
    then have "?P r = number_holds m (row_fields r ! i) val"
      by (elim disjE exE conjE) (simp_all only: number_holds_def compare_values_def Field_int_def Field_float_def Field.simps Val.case prod.case c0(5) option.sel cm(2,3))
    then show ?thesis by (simp add: comparison_holds_def c0)
  qed
  then have "set found = row_id ` {r \<in> set (rows_of db info pids). comparison_holds ?s v a b (row_fields r)}"
    by (auto simp: found_def fold_set_insert)
  moreover have "sorted_wrt rid_less found" unfolding found_def by (rule fold_sorted) simp
  moreover have "same_rows e db ((set_db (db\<lparr>bpm := bp2\<rparr>) e)\<lparr>static_buf := buf\<rparr>)" unfolding same_rows_def
    by (rule exI[of _ "db\<lparr>bpm := bp2\<rparr>"], rule exI[of _ buf]) (use b(3) f(1) in simp)
  ultimately show ?thesis by blast
qed

lemma condition_rows:
  assumes "table_state e (ctx_table_name ctx) db info pids" and "condition_ok (table_schema info) t"
  shows "if condition_defined (table_schema info) (rows_of db info pids) t
    then \<exists>found e'. ExecuteInternalNode (t # ns) ctx e = Some (DB_SUCCESS, ctx\<lparr>internal_result_rid := found\<rparr>, e') \<and>
      set found = row_id ` {r \<in> set (rows_of db info pids). condition_holds (table_schema info) t r} \<and> sorted_wrt rid_less found \<and> same_rows e db e'
    else ExecuteInternalNode (t # ns) ctx e = None"
  using assms
proof (induction "table_schema info" t arbitrary: ctx e db ns rule: condition_ok.induct)
  case (1 ty v a b)
  let ?s = "table_schema info" and ?rows = "rows_of db info pids"
  show ?case
  proof (cases "ty = kNodeConnector")
    case False
    then have "ty = kNodeCompareOperator" "comparison_ok ?s v a b" using 1(4) by simp_all
    with compare_operator_rows[OF 1(3), of v a b "[]" ns] show ?thesis by simp
  next
    case ty: True
    then have v: "v = Some ''and'' \<or> v = Some ''or''" and ok: "condition_ok ?s a" "condition_ok ?s b" using 1(4) by simp_all
    have cs: "c_string ''and'' = ''and''" "c_string ''or'' = ''or''" by (simp_all add: c_string_def)
    have inj: "r = r'" if "r \<in> set ?rows" "r' \<in> set ?rows" "row_id r = row_id r'" for r r'
      using that by (auto simp: rows_of_def table_rows_def)
    let ?A = "{r \<in> set ?rows. condition_holds ?s a r}" and ?B = "{r \<in> set ?rows. condition_holds ?s b r}"
    note IHa = 1(1)[OF ty 1(3) ok(1), of "[b]"]
    show ?thesis
    proof (cases "condition_defined ?s ?rows a")
      case False
      then have "ExecuteInternalNode [a, b] ctx e = None" using IHa by simp
      then show ?thesis using ty False by simp
    next
      case da: True
      obtain fa e1 where A: "ExecuteInternalNode [a, b] ctx e = Some (DB_SUCCESS, ctx\<lparr>internal_result_rid := fa\<rparr>, e1)" "set fa = row_id ` ?A" "sorted_wrt rid_less fa" "same_rows e db e1"
        using IHa da by auto
      obtain db1 where d1: "table_state e1 (ctx_table_name ctx) db1 info pids" "rows_of db1 info pids = ?rows" "\<forall>e''. same_rows e1 db1 e'' \<longrightarrow> same_rows e db e''"
        using same_rows_state[OF 1(3) A(4)] by blast
      let ?c1 = "ctx\<lparr>internal_result_rid := fa\<rparr>"
      have t1: "table_state e1 (ctx_table_name ?c1) db1 info pids" using d1(1) by simp
      note IHb = 1(2)[OF ty t1 ok(2), of "[]", unfolded d1(2)]
      show ?thesis
      proof (cases "condition_defined ?s ?rows b")
        case False
        then have "ExecuteInternalNode [b] ?c1 e1 = None" using IHb by simp
        then show ?thesis using ty False A(1) by simp
      next
        case db: True
        obtain fb e2 where B: "ExecuteInternalNode [b] ?c1 e1 = Some (DB_SUCCESS, ctx\<lparr>internal_result_rid := fb\<rparr>, e2)" "set fb = row_id ` ?B" "sorted_wrt rid_less fb" "same_rows e1 db1 e2"
          using IHb db by auto
        have sr: "same_rows e db e2" using d1(3) B(4) by blast
        from v show ?thesis
        proof
          assume v: "v = Some ''and''"
          have S: "set (and_loop fa fb []) = row_id ` {r \<in> set ?rows. condition_holds ?s a r \<and> condition_holds ?s b r}"
            unfolding and_loop_set[OF A(3) B(3)] A(2) B(2) using inj by auto
          have W: "sorted_wrt rid_less (and_loop fa fb [])" by (rule and_loop_sorted) simp
          have R: "ExecuteInternalNode (Tree ty v [a, b] # ns) ctx e = Some (DB_SUCCESS, ctx\<lparr>internal_result_rid := and_loop fa fb []\<rparr>, e2)"
            using ty v A(1) B(1) by (simp add: cs)
          have d: "condition_defined ?s ?rows (Tree ty v [a, b])" using v da db by simp
          have Q: "row_id ` {r \<in> set ?rows. condition_holds ?s a r \<and> condition_holds ?s b r} = row_id ` {r \<in> set ?rows. condition_holds ?s (Tree ty v [a, b]) r}"
            using ty v by simp
          show ?thesis unfolding if_P[OF d]
            by (rule exI[of _ "and_loop fa fb []"], rule exI[of _ e2], intro conjI, rule R, unfold S Q, rule refl, rule W, rule sr)
        next
          assume v: "v = Some ''or''"
          let ?bad = "\<exists>x \<in> set ?rows. condition_holds ?s a x \<and> (\<forall>y \<in> set ?rows. condition_holds ?s b y \<longrightarrow> rid_less (row_id y) (row_id x))"
          have bad: "(\<exists>x \<in> set fa. \<forall>y \<in> set fb. rid_less y x) = ?bad" unfolding A(2) B(2) by auto
          have "sorted_wrt rid_less []" by simp
          note O = or_loop_ok[OF A(3) B(3) this, unfolded bad]
          show ?thesis
          proof (cases ?bad)
            case True
            then have n: "or_loop fa fb [] = None" using O by (auto split: option.splits)
            have "ExecuteInternalNode (Tree ty v [a, b] # ns) ctx e = None" using ty v A(1) B(1) n by (simp add: cs)
            moreover have d: "\<not> condition_defined ?s ?rows (Tree ty v [a, b])"
            proof
              assume "condition_defined ?s ?rows (Tree ty v [a, b])"
              then have "\<not> ?bad" using v ty unfolding condition_defined.simps by blast
              then show False using True by blast
            qed
            ultimately show ?thesis unfolding if_not_P[OF d] by blast
          next
            case False
            then obtain f where f: "or_loop fa fb [] = Some f" "set f = row_id ` ?A \<union> row_id ` ?B" "sorted_wrt rid_less f" using O A(2) B(2) by (auto split: option.splits)
            have "ExecuteInternalNode (Tree ty v [a, b] # ns) ctx e = Some (DB_SUCCESS, ctx\<lparr>internal_result_rid := f\<rparr>, e2)" using ty v A(1) B(1) f(1) by (simp add: cs)
            moreover have "set f = row_id ` {r \<in> set ?rows. condition_holds ?s (Tree ty v [a, b]) r}" using f(2) ty v by auto
            moreover have d: "condition_defined ?s ?rows (Tree ty v [a, b])" using False v da db by simp
            ultimately show ?thesis unfolding if_P[OF d] using f(3) sr by blast
          qed
        qed
      qed
    qed
  qed
qed simp_all

end
