(* ===== verification/Executor_Select.thy ===== *)
theory Executor_Select
  imports Executor_Conditions
begin

text \<open>The output of a \<open>select\<close> statement: the texts of the fields of numbers, the columns in a scan over the heap and of the row ids of a condition, and the
  table that is printed.\<close>

section \<open>Numbers as text\<close>

lemma digits_length: "n < 10 ^ Suc k \<Longrightarrow> length (digits n) \<le> Suc k"
proof (induction k arbitrary: n)
  case 0
  then show ?case by (simp add: digits.simps[of n])
next
  case (Suc k)
  show ?case
  proof (cases "n < 10")
    case False
    have "n div 10 < 10 ^ Suc k" using Suc.prems by (simp add: less_mult_imp_div_less mult.commute)
    from Suc.IH[OF this] show ?thesis using False by (simp add: digits.simps[of n])
  qed (simp add: digits.simps[of n])
qed

lemma digits_not_null: "CHR 0x00 \<notin> set (digits n)"
proof (induction n rule: digits.induct)
  case (1 n)
  have c: "(CHR 0x00 :: char) \<noteq> char_of (48 + k)" if "k < 10" for k :: nat
  proof
    assume "(CHR 0x00 :: char) = char_of (48 + k)"
    then have "of_char (char_of (48 + k) :: char) = (0 :: nat)" by (simp flip: \<open>CHR 0x00 = char_of (48 + k)\<close>)
    then show False using that by (simp add: of_char_of)
  qed
  show ?case
  proof (cases "n < 10")
    case True
    then show ?thesis using c[of n] by (subst digits.simps) simp
  next
    case False
    then show ?thesis using 1 c[of "n mod 10"] by (subst digits.simps) simp
  qed
qed

lemma to_string_int_short:
  assumes "int32_range i"
  shows "length (to_string_int i) \<le> 11" "CHR 0x00 \<notin> set (to_string_int i)"
proof -
  have "- 2147483648 \<le> i" "i < 2147483648" using assms by (simp_all add: int32_range_def)
  then have "nat (- i) < 10000000000" "nat i < 10000000000" by linarith+
  then have "nat (- i) < 10 ^ Suc 9" "nat i < 10 ^ Suc 9" by simp_all
  then show "length (to_string_int i) \<le> 11" using digits_length[of "nat (- i)" 9] digits_length[of "nat i" 9] by (auto simp: to_string_int_def)
  show "CHR 0x00 \<notin> set (to_string_int i)" using digits_not_null by (simp add: to_string_int_def)
qed

lemma round_quot_le: "round_quot n d \<le> n div d + 1"
  by (simp add: round_quot_def Let_def)

lemma to_string_float_short: "length (to_string_float w) \<le> 60" "CHR 0x00 \<notin> set (to_string_float w)"
proof -
  define e where "e = unat (drop_bit 23 w AND 0xFF)"
  define f where "f = unat (w AND 0x7FFFFF)"
  obtain n d where nd: "scale (if e = 0 then f else f + 2 ^ 23, 1) 2 (int (max e 1) - 150) = (n, d)" by (cases "scale (if e = 0 then f else f + 2 ^ 23, 1) 2 (int (max e 1) - 150)")
  have f: "f < 2 ^ 23"
  proof -
    have "w AND 0x7FFFFF = take_bit 23 w" by (simp add: take_bit_eq_mask mask_eq_exp_minus_1)
    then show ?thesis using unsigned_take_bit_eq[of 23 w, where 'a = nat] take_bit_nat_less_exp[of 23 "unat w"] by (simp add: f_def)
  qed
  have e: "e < 2 ^ 8"
  proof -
    have "drop_bit 23 w AND 0xFF = take_bit 8 (drop_bit 23 w)" by (simp add: take_bit_eq_mask mask_eq_exp_minus_1)
    then show ?thesis using unsigned_take_bit_eq[of 8 "drop_bit 23 w", where 'a = nat] take_bit_nat_less_exp[of 8 "unat (drop_bit 23 w)"] by (simp add: e_def)
  qed
  have n: "n < 2 ^ 24 * 2 ^ 106" "0 < d"
  proof -
    have m: "(if e = 0 then f else f + 2 ^ 23) < 2 ^ 24" using f by simp
    have "(2::nat) ^ nat (int (max e 1) - 150) \<le> 2 ^ 106" using e by (intro power_increasing) auto
    then have "(if e = 0 then f else f + 2 ^ 23) * 2 ^ nat (int (max e 1) - 150) < 2 ^ 24 * 2 ^ 106"
      using m by (intro mult_less_le_imp_less) auto
    moreover have "(if e = 0 then f else f + 2 ^ 23) < 2 ^ 24 * 2 ^ 106" using m by (rule less_le_trans) simp
    ultimately show "n < 2 ^ 24 * 2 ^ 106" "0 < d" using nd by (auto simp: scale_def split: if_splits)
  qed
  define v where "v = round_quot (n * 10 ^ 6) d"
  have "v \<le> n * 10 ^ 6 + 1" unfolding v_def by (rule order_trans[OF round_quot_le add_right_mono[OF div_le_dividend]])
  then have "v div 10 ^ 6 < 10 ^ Suc 45" using n(1) by simp
  then have a: "length (digits (v div 10 ^ 6)) \<le> 46" using digits_length[of "v div 10 ^ 6" 45] by simp
  have b: "length (digits (v mod 10 ^ 6)) \<le> 6" using digits_length[of "v mod 10 ^ 6" 5] by simp
  note D = to_string_float_def[of w, folded e_def f_def, unfolded Let_def nd case_prod_conv, folded v_def]
  show "length (to_string_float w) \<le> 60" unfolding D using a b by simp
  show "CHR 0x00 \<notin> set (to_string_float w)" unfolding D using digits_not_null by simp
qed

definition field_text :: "Field \<Rightarrow> string" where
  "field_text f = (case value_of f of VInt i \<Rightarrow> to_string_int i | VFloat w \<Rightarrow> to_string_float w | _ \<Rightarrow> [])"

lemma strcpy_text:
  assumes "CHR 0x00 \<notin> set s" "length s < length buf"
  shows "\<exists>buf'. strcpy buf (bytes_of s @ [0]) = Some buf' \<and> length buf' = length buf \<and> data_string buf' = s"
proof -
  have z: "takeWhile (\<lambda>b. b \<noteq> 0) (bytes_of s) = bytes_of s" by (rule bytes_no_NUL[OF assms(1)])
  then have nz: "\<forall>b \<in> set (bytes_of s). b \<noteq> 0" by (metis set_takeWhileD)
  have t: "takeWhile (\<lambda>b. b \<noteq> 0) (bytes_of s @ 0 # xs) = bytes_of s" for xs using nz by (subst takeWhile_append2) auto
  have "strcpy buf (bytes_of s @ [0]) = Some (bytes_of s @ 0 # drop (length s + 1) buf)"
    using assms(2) t[of "[]"] by (simp add: strcpy_def mem_write_def)
  then show ?thesis using assms(2) t by (simp add: data_string_def)
qed

lemma Type_GetData_numeric:
  assumes "field_ok f" "numeric (ftype f)" "length buf = 128"
  shows "\<exists>buf'. Type_GetData f buf = Some buf' \<and> length buf' = 128 \<and> data_string buf' = field_text f"
proof -
  consider i where "f = Field_int i" "int32_range i" | w where "f = Field_float w" using field_ok_numeric[OF assms(1,2)] by blast
  then show ?thesis
  proof cases
    case 1
    then show ?thesis using strcpy_text[of "to_string_int i" buf] to_string_int_short[of i] assms(3)
      by (simp add: Type_GetData_def Field_int_def field_text_def)
  next
    case 2
    then show ?thesis using strcpy_text[of "to_string_float w" buf] to_string_float_short[of w] assms(3)
      by (simp add: Type_GetData_def Field_float_def field_text_def)
  qed
qed


section \<open>Selecting\<close>

lemma heap_column_scan:
  assumes "scan h (rows ! it) bp = Some (rs, bp')" and "it < length rows" and "\<forall>r \<in> set rs. \<exists>f. field_at r i = Some f \<and> field_ok f \<and> numeric (ftype f) \<and> field_text f = T r" and "length buf = 128"
  shows "\<exists>buf'. heap_column h i it rows out buf bp = Some (out @ map T rs, buf', bp') \<and> length buf' = 128"
  using assms
proof (induction rs arbitrary: rows out buf bp)
  case Nil
  then show ?case using scan_end[OF Nil(1)] at_end[OF Nil(2)] by (subst heap_column.simps) (auto simp: Let_def)
next
  case (Cons r rs)
  let ?past = "\<lparr>row_id = INVALID_ROWID, row_fields = []\<rparr>"
  obtain nx bp1 where s: "r = rows ! it" "row_id r \<noteq> INVALID_ROWID" "advance h r bp = Some (nx, bp1)" "scan h nx bp1 = Some (rs, bp')"
    using scan_step[OF Cons.prems(1)] by blast
  obtain f where f: "field_at r i = Some f" "field_ok f" "numeric (ftype f)" "field_text f = T r" using Cons.prems(3) by auto
  obtain buf1 where b: "Type_GetData f buf = Some buf1" "length buf1 = 128" "data_string buf1 = T r"
    using Type_GetData_numeric[OF f(2,3) Cons.prems(4)] f(4) by auto
  let ?rows = "(rows @ [?past])[it := nx]"
  have n: "?rows ! it = nx" "it < length ?rows" "(rows @ [?past]) ! it = r" using Cons.prems(2) s(1) by (simp_all add: nth_append)
  have sc: "scan h (?rows ! it) bp1 = Some (rs, bp')" using s(4) n(1) by simp
  have t: "\<forall>r \<in> set rs. \<exists>f. field_at r i = Some f \<and> field_ok f \<and> numeric (ftype f) \<and> field_text f = T r" using Cons.prems(3) by simp
  have ne: "\<not> iterator_eq it (length rows) (rows @ [?past])" using at_end[OF Cons.prems(2)] s(1,2) by simp
  have step: "heap_column h i it rows out buf bp = heap_column h i it ?rows (out @ [T r]) buf1 bp1"
    using at_end[OF Cons.prems(2)] ne f(1) b(1,3) n(3) post_inc_advance[OF Cons.prems(2), of h bp nx bp1] s(1,3)
    by (subst heap_column.simps) (simp add: Let_def)
  show ?case unfolding step using Cons.IH[OF sc n(2) t b(2), of "out @ [T r]"] by simp
qed

text \<open>Reading the rows of a condition again.\<close>

lemma read_visited:
  assumes "heap_inv bp (first_page_id h) pids" and "spare bp" and "heap_typed (heap_schema h) (view bp) pids" and "rid \<in> set (live_rids (view bp) pids)"
  shows "\<exists>bp'. TableHeap_GetTuple h \<lparr>row_id = rid, row_fields = []\<rparr> bp = Some (True, \<lparr>row_id = rid, row_fields = stored_fields (heap_schema h) (view bp) rid\<rparr>, bp') \<and>
    kept bp bp' (view bp)" "stored_row (heap_schema h) (view bp) \<lparr>row_id = rid, row_fields = stored_fields (heap_schema h) (view bp) rid\<rparr>" "rid_page rid \<in> set pids"
proof -
  obtain row' where r: "TablePage_GetTuple (\<lparr>row_id = rid, row_fields = []\<rparr>\<lparr>row_id := rid\<rparr>) (heap_schema h) (view bp (rid_page rid)) = Some (True, row')" "row_id row' = rid"
    "stored_row (heap_schema h) (view bp) row'" "rid_page rid \<in> set pids" "rid \<noteq> INVALID_ROWID" by (rule read_live[OF assms(1,3,4)])
  have row': "row' = \<lparr>row_id = rid, row_fields = stored_fields (heap_schema h) (view bp) rid\<rparr>" using stored_row_fields[OF r(3)] r(2) by simp
  show "\<exists>bp'. TableHeap_GetTuple h \<lparr>row_id = rid, row_fields = []\<rparr> bp = Some (True, \<lparr>row_id = rid, row_fields = stored_fields (heap_schema h) (view bp) rid\<rparr>, bp') \<and> kept bp bp' (view bp)"
    using heap_get[OF assms(1,2), of "\<lparr>row_id = rid, row_fields = []\<rparr>" h True row'] r(1,4) row' by simp
  show "stored_row (heap_schema h) (view bp) \<lparr>row_id = rid, row_fields = stored_fields (heap_schema h) (view bp) rid\<rparr>" "rid_page rid \<in> set pids"
    using r(3,4) row' by simp_all
qed

definition row_of :: "DBStorageEngine \<Rightarrow> TableInfo \<Rightarrow> RowId \<Rightarrow> Row" where
  "row_of db info rid = \<lparr>row_id = rid, row_fields = stored_fields (table_schema info) (view (bpm db)) rid\<rparr>"

lemma rid_column_rows:
  assumes T: "heap_inv bp (first_page_id h) pids" "spare bp" "heap_typed (heap_schema h) (view bp) pids"
    and "set rids \<subseteq> set (live_rids (view bp) pids)" and i: "i < length (heap_schema h)" "numeric (ctype (heap_schema h ! i))" and "length buf = 128" and "kept bp bp0 (view bp)"
  shows "\<exists>buf' bp'. rid_column h i rids buf bp0 = Some (map (\<lambda>rid. field_text (stored_fields (heap_schema h) (view bp) rid ! i)) rids, buf', bp') \<and> length buf' = 128 \<and> kept bp bp' (view bp)"
  using assms(4,7,8)
proof (induction rids arbitrary: buf bp0)
  case Nil
  then show ?case by simp
next
  case (Cons rid rids)
  have v: "\<And>q. q \<in> set pids \<Longrightarrow> view bp0 q = view bp q" using view_heap_kept[OF T(1) Cons.prems(3)] by blast
  have f: "first_page_id h \<in> set pids" using heap_first[OF T(1)] by blast
  have T0: "heap_inv bp0 (first_page_id h) pids" "spare bp0" "heap_typed (heap_schema h) (view bp0) pids"
    using heap_inv_kept[OF T(1) Cons.prems(3)] kept_spare[OF Cons.prems(3)] T(2,3) visited_cong(3)[of pids "view bp0" "view bp" h, OF v f] by simp_all
  have lv: "live_rids (view bp0) pids = live_rids (view bp) pids" using v by (simp add: live_rids_def cong: map_cong)
  have rid: "rid \<in> set (live_rids (view bp) pids)" "rid \<in> set (live_rids (view bp0) pids)" using Cons.prems(1) lv by simp_all
  note R = read_visited[OF T rid(1)]
  have sf: "stored_fields (heap_schema h) (view bp0) rid = stored_fields (heap_schema h) (view bp) rid" using v[OF R(3)] by (simp add: stored_fields_def)
  obtain bp1 where g: "TableHeap_GetTuple h \<lparr>row_id = rid, row_fields = []\<rparr> bp0 = Some (True, \<lparr>row_id = rid, row_fields = stored_fields (heap_schema h) (view bp) rid\<rparr>, bp1)"
    "kept bp0 bp1 (view bp0)" using read_visited(1)[OF T0 rid(2)] sf by auto
  have k: "kept bp bp1 (view bp)" by (rule kept_trans[OF Cons.prems(3)], rule kept_cong[OF g(2)]) (use Cons.prems(3) in \<open>simp add: kept_def\<close>)
  note F = stored_field[OF R(2) i(1), unfolded Row.simps]
  obtain buf1 where b: "Type_GetData (stored_fields (heap_schema h) (view bp) rid ! i) buf = Some buf1" "length buf1 = 128"
    "data_string buf1 = field_text (stored_fields (heap_schema h) (view bp) rid ! i)" using Type_GetData_numeric[OF F(2) _ Cons.prems(2)] F(3) i(2) by auto
  have "set rids \<subseteq> set (live_rids (view bp) pids)" using Cons.prems(1) by simp
  from Cons.IH[OF this b(2) k] obtain buf' bp' where "rid_column h i rids buf1 bp1 = Some (map (\<lambda>rid. field_text (stored_fields (heap_schema h) (view bp) rid ! i)) rids, buf', bp')"
    "length buf' = 128" "kept bp bp' (view bp)" by blast
  then show ?case using g(1) F(1) b(1,3) by simp
qed


lemma visit_all_kept:
  assumes "heap_inv bp (first_page_id h) pids" and "spare bp" and "heap_typed (heap_schema h) (view bp) pids" and "kept bp bp0 (view bp)"
  shows "\<exists>row bp1 bp2. TableHeap_Begin h [] bp0 = Some (0, [row], bp1) \<and> scan h row bp1 = Some (table_rows (heap_schema h) (view bp) (visited_rids (view bp) h pids), bp2) \<and>
    kept bp bp2 (view bp)"
proof -
  have v: "\<And>q. q \<in> set pids \<Longrightarrow> view bp0 q = view bp q" using view_heap_kept[OF assms(1,4)] by blast
  have f: "first_page_id h \<in> set pids" using heap_first[OF assms(1)] by blast
  note C = visited_cong[of pids "view bp0" "view bp" h, OF v f]
  have T0: "heap_inv bp0 (first_page_id h) pids" "spare bp0" "heap_typed (heap_schema h) (view bp0) pids"
    using heap_inv_kept[OF assms(1,4)] kept_spare[OF assms(4)] assms(2,3) C(3) by simp_all
  obtain row bp1 bp2 where b: "TableHeap_Begin h [] bp0 = Some (0, [row], bp1)" "scan h row bp1 = Some (table_rows (heap_schema h) (view bp) (visited_rids (view bp) h pids), bp2)"
    "kept bp0 bp2 (view bp0)" using visit_all[OF T0, of "[]"] C(1,2) by auto
  have "kept bp bp2 (view bp)" by (rule kept_trans[OF assms(4)], rule kept_cong[OF b(3)]) (use assms(4) in \<open>simp add: kept_def\<close>)
  then show ?thesis using b by blast
qed

lemma output_columns_ok:
  assumes "\<forall>c \<in> set cols. \<exists>i. GetColumnIndex schema (name_of c) = Some i \<and> (\<forall>buf bp0. length buf = 128 \<and> kept bp bp0 (view bp) \<longrightarrow>
      (\<exists>buf' bp'. column i buf bp0 = Some (T i, buf', bp') \<and> length buf' = 128 \<and> kept bp bp' (view bp)))"
    and "length buf = 128" and "kept bp bp0 (view bp)"
  shows "\<exists>buf' bp'. output_columns column schema cols buf bp0 = Some (map (\<lambda>c. T (the (GetColumnIndex schema (name_of c)))) cols, buf', bp') \<and> length buf' = 128 \<and> kept bp bp' (view bp)"
  using assms
proof (induction cols arbitrary: buf bp0)
  case Nil
  then show ?case by simp
next
  case (Cons c cols)
  obtain i where i: "GetColumnIndex schema (name_of c) = Some i" "\<forall>buf bp0. length buf = 128 \<and> kept bp bp0 (view bp) \<longrightarrow>
      (\<exists>buf' bp'. column i buf bp0 = Some (T i, buf', bp') \<and> length buf' = 128 \<and> kept bp bp' (view bp))" using Cons.prems(1) by auto
  obtain buf1 bp1 where o: "column i buf bp0 = Some (T i, buf1, bp1)" "length buf1 = 128" "kept bp bp1 (view bp)" using i(2) Cons.prems(2,3) by blast
  have "\<forall>c \<in> set cols. \<exists>i. GetColumnIndex schema (name_of c) = Some i \<and> (\<forall>buf bp0. length buf = 128 \<and> kept bp bp0 (view bp) \<longrightarrow>
      (\<exists>buf' bp'. column i buf bp0 = Some (T i, buf', bp') \<and> length buf' = 128 \<and> kept bp bp' (view bp)))" using Cons.prems(1) by simp
  from Cons.IH[OF this o(2,3)] show ?case using i(1) o(1) by auto
qed

lemma print_table_ok:
  assumes "length cols = length header" "header \<noteq> []" "\<forall>c \<in> set cols. length c = n"
  shows "\<exists>fs. print_table header cols e = Some (e\<lparr>files := fs, printed := printed e @ [(header, cols)]\<rparr>)"
proof -
  obtain c cs where c: "cols = c # cs" using assms(1,2) by (cases cols) auto
  have "length (cols ! i) = length c" if "i < length header" for i using assms(1,3) that c nth_mem[of i cols] by auto
  then have "\<not> (\<exists>i < length header. length (cols ! i) < length c)" by auto
  then have "PrintTable header cols \<noteq> None" using assms(1) c by (simp add: PrintTable_def Let_def)
  then show ?thesis by (auto simp: print_table_def)
qed

lemma select_output_ok:
  assumes t: "table_state e name db info pids" and "length (static_buf e) = 128" and "select_columns ctx \<noteq> []" and "rows_num ctx = 0"
    and col: "\<forall>c \<in> set (select_columns ctx). \<exists>i. GetColumnIndex (table_schema info) (name_of c) = Some i \<and> (\<forall>buf bp0. length buf = 128 \<and> kept (bpm db) bp0 (view (bpm db)) \<longrightarrow>
      (\<exists>buf' bp'. column i buf bp0 = Some (map (\<lambda>r. field_text (row_fields r ! i)) rs, buf', bp') \<and> length buf' = 128 \<and> kept (bpm db) bp' (view (bpm db))))"
  shows "\<exists>e' e''. select_output column (table_schema info) db ctx e = Some (DB_SUCCESS, ctx\<lparr>rows_num := length rs\<rparr>, e'') \<and> same_rows e db e' \<and>
    (\<exists>fs. e'' = e'\<lparr>files := fs, printed := printed e @ (if rs = [] then [] else
      [(map name_of (select_columns ctx), map (\<lambda>c. map (\<lambda>r. field_text (row_fields r ! the (GetColumnIndex (table_schema info) (name_of c)))) rs) (select_columns ctx))])\<rparr>)"
proof -
  let ?cols = "select_columns ctx" and ?s = "table_schema info"
  let ?T = "\<lambda>i. map (\<lambda>r. field_text (row_fields r ! i)) rs"
  let ?outs = "map (\<lambda>c. ?T (the (GetColumnIndex ?s (name_of c)))) ?cols"
  have pi: "pool_inv (bpm db)" using t by (simp add: table_state_def heap_inv_def)
  obtain buf bp where o: "output_columns column ?s ?cols (static_buf e) (bpm db) = Some (?outs, buf, bp)" "length buf = 128" "kept (bpm db) bp (view (bpm db))"
    using output_columns_ok[of ?cols ?s "bpm db" column ?T, OF col assms(2) kept_refl[OF pi]] by blast
  let ?e = "(set_db (db\<lparr>bpm := bp\<rparr>) e)\<lparr>static_buf := buf\<rparr>"
  have sr: "same_rows e db ?e" unfolding same_rows_def
    by (rule exI[of _ "db\<lparr>bpm := bp\<rparr>"], rule exI[of _ buf]) (use o assms(2) in simp)
  have "sum_list (map length ?outs) = length rs * length ?cols" by (simp add: comp_def sum_list_triv)
  then have n: "(rows_num ctx + sum_list (map length ?outs)) div length ?cols = length rs" using assms(3,4) by simp
  have l: "last ?outs = ?T (the (GetColumnIndex ?s (name_of (last ?cols))))" using assms(3) by (simp add: last_map)
  show ?thesis
  proof (cases "rs = []")
    case True
    then have "select_output column ?s db ctx e = Some (DB_SUCCESS, ctx\<lparr>rows_num := length rs\<rparr>, ?e)"
      unfolding select_output_def Let_def o(1) using assms(3) l n by simp
    moreover have "?e = ?e\<lparr>files := files e, printed := printed e @ []\<rparr>" by (simp add: set_db_def)
    ultimately show ?thesis using sr True by auto
  next
    case False
    obtain fs where p: "print_table (map name_of ?cols) ?outs ?e = Some (?e\<lparr>files := fs, printed := printed ?e @ [(map name_of ?cols, ?outs)]\<rparr>)"
      using print_table_ok[of ?outs "map name_of ?cols" "length rs" ?e] assms(3) by auto
    have "select_output column ?s db ctx e = Some (DB_SUCCESS, ctx\<lparr>rows_num := length rs\<rparr>, ?e\<lparr>files := fs, printed := printed ?e @ [(map name_of ?cols, ?outs)]\<rparr>)"
      unfolding select_output_def Let_def o(1) using assms(3) l n p False by simp
    moreover have "printed ?e = printed e" by (simp add: set_db_def)
    ultimately show ?thesis using sr False by auto
  qed
qed

lemma column_list_ok:
  assumes "map node_text ns = map Some names" and "\<forall>n \<in> set names. GetColumnIndex schema n \<noteq> None"
  shows "column_list_loop ns schema cols = Some (DB_SUCCESS, cols @ map (\<lambda>n. schema ! the (GetColumnIndex schema n)) names)"
  using assms
proof (induction ns arbitrary: names cols)
  case (Cons t ns)
  obtain ty v cs where t: "t = Tree ty v cs" by (cases t)
  obtain n ms where m: "names = n # ms" "map_option c_string v = Some n" "map node_text ns = map Some ms" using Cons.prems(1) t by auto
  obtain i where "GetColumnIndex schema n = Some i" using Cons.prems(2) m(1) by auto
  moreover have "column_list_loop ns schema (cols @ [schema ! i]) = Some (DB_SUCCESS, (cols @ [schema ! i]) @ map (\<lambda>n. schema ! the (GetColumnIndex schema n)) ms)"
    using Cons.IH[OF m(3)] Cons.prems(2) m(1) by simp
  ultimately show ?case using m(1,2) unfolding t by (simp del: map_option_eq_Some)
qed simp

lemma name_of_found: "GetColumnIndex schema n = Some i \<Longrightarrow> name_of (schema ! i) = n"
  by (induction schema arbitrary: i) (auto split: if_splits)

lemma sort_rows:
  assumes "sorted_wrt rid_less rids" "set rids = row_id ` R" "\<forall>r \<in> R. f (row_id r) = r" "\<forall>rid. row_id (f rid) = rid"
  shows "set (map f rids) = R" "sorted_wrt (\<lambda>a b. rid_less (row_id a) (row_id b)) (map f rids)"
  using assms by (auto simp: sorted_wrt_map image_iff)

lemma column_list_nonempty: "map node_text ns = map Some names \<Longrightarrow> names \<noteq> [] \<Longrightarrow> ns \<noteq> []"
  by auto

lemma visited_live: "set (visited_rids c h pids) \<subseteq> set (live_rids c pids)"
  by (simp add: visited_rids_def)

lemma table_state_engine: "table_state (e\<lparr>files := fs, printed := ps\<rparr>) = table_state e"
  by (simp add: fun_eq_iff table_state_def open_db_def)

lemma stored_rows:
  assumes "table_state e name db info pids" and "r \<in> set (rows_of db info pids)"
  shows "stored_row (table_schema info) (view (bpm db)) r"
proof -
  note T = assms(1)[unfolded table_state_def]
  have hs: "heap_schema (heap_of info) = table_schema info" using T by blast
  have va: "heap_inv (bpm db) (first_page_id (heap_of info)) pids" "spare (bpm db)" "heap_typed (heap_schema (heap_of info)) (view (bpm db)) pids" using T by simp_all
  show ?thesis using visit_all[OF va, of "[]", unfolded hs, folded rows_of_def] assms(2) by blast
qed

text \<open>The outcome of a \<open>select\<close> statement whose condition is defined.\<close>

lemma select_rows:
  assumes t: "table_state e name db info pids" and buf: "length (static_buf e) = 128" and cur: "current_db e \<noteq> []"
    and names: "names \<noteq> []" "map node_text ns = map Some names" "\<forall>n \<in> set names. \<exists>i. GetColumnIndex (table_schema info) n = Some i \<and> numeric (ctype (table_schema info ! i))"
    and tn: "node_text table = Some name"
    and cond: "case cond of None \<Rightarrow> conds = [] | Some c \<Rightarrow> conds = [Tree kNodeConditions cv [c]] \<and> condition_ok (table_schema info) c \<and> condition_defined (table_schema info) (rows_of db info pids) c"
  shows "\<exists>rs ctx e' db'. Execute [Tree kNodeSelect sv (Tree kNodeColumnList lv ns # table # conds)] ExecuteContext_new e = Some (DB_SUCCESS, ctx, e') \<and>
    (case cond of None \<Rightarrow> rs = rows_of db info pids
     | Some c \<Rightarrow> set rs = {r \<in> set (rows_of db info pids). condition_holds (table_schema info) c r} \<and> sorted_wrt (\<lambda>a b. rid_less (row_id a) (row_id b)) rs) \<and>
    rows_num ctx = length rs \<and>
    printed e' = printed e @ (if rs = [] then [] else [(names, map (\<lambda>n. map (\<lambda>r. field_text (row_fields r ! the (GetColumnIndex (table_schema info) n))) rs) names)]) \<and>
    table_state e' name db' info pids \<and> rows_of db' info pids = rows_of db info pids \<and> catalog_mgr db' = catalog_mgr db"
proof -
  let ?s = "table_schema info" and ?h = "heap_of info"
  let ?cols = "map (\<lambda>n. ?s ! the (GetColumnIndex ?s n)) names"
  let ?c1 = "ExecuteContext_new\<lparr>ctx_table_name := name\<rparr>" and ?c2 = "ExecuteContext_new\<lparr>ctx_table_name := name, select_columns := ?cols\<rparr>"
  note T = t[unfolded table_state_def]
  have hs: "heap_schema ?h = ?s" using T by blast
  have va: "heap_inv (bpm db) (first_page_id ?h) pids" "spare (bpm db)" "heap_typed (heap_schema ?h) (view (bpm db)) pids" using T by simp_all
  have nn: "\<forall>n \<in> set names. GetColumnIndex ?s n \<noteq> None" using names(3) by auto
  have nm: "map name_of ?cols = names" using name_of_found nn by (auto simp: map_idI)
  have cl: "ExecuteInternalNode (Tree kNodeColumnList lv ns # xs) ?c1 e = Some (DB_SUCCESS, ?c2, e)" for xs
    using T names(2) column_list_ok[OF names(2) nn, of "[]"] column_list_nonempty[OF names(2,1)]
    by (simp add: ExecuteColumnList_def ast_child_def Let_def ExecuteContext_new_def)
  have tv: "ast_val (table # xs) = Some name" for xs using tn by (cases table) (simp add: ast_val_def)
  have db: "open_db e = Some db" and gt: "GetTable name (catalog_mgr db) = (DB_SUCCESS, Some info)" using T by simp_all
  note D = Execute_def ExecuteSelect_def ast_type_def[of "Tree _ _ _ # _"] ast_child_def[of "Tree _ _ _ # _"] ast_next_def Let_def
  have fin: ?thesis if e1: "table_state e1 name db1 info pids" "printed e1 = printed e" "rows_of db1 info pids = rows_of db info pids" "catalog_mgr db1 = catalog_mgr db" "length (static_buf e1) = 128"
    and run: "Execute [Tree kNodeSelect sv (Tree kNodeColumnList lv ns # table # conds)] ExecuteContext_new e = select_output column ?s db1 (?c2\<lparr>internal_result_rid := found\<rparr>) e1"
    and col: "\<And>i. i < length ?s \<Longrightarrow> numeric (ctype (?s ! i)) \<Longrightarrow> \<forall>buf bp0. length buf = 128 \<and> kept (bpm db1) bp0 (view (bpm db1)) \<longrightarrow>
      (\<exists>buf' bp'. column i buf bp0 = Some (map (\<lambda>r. field_text (row_fields r ! i)) rs, buf', bp') \<and> length buf' = 128 \<and> kept (bpm db1) bp' (view (bpm db1)))"
    and rs: "case cond of None \<Rightarrow> rs = rows_of db info pids
     | Some c \<Rightarrow> set rs = {r \<in> set (rows_of db info pids). condition_holds ?s c r} \<and> sorted_wrt (\<lambda>a b. rid_less (row_id a) (row_id b)) rs"
    for e1 db1 column found rs
  proof -
    let ?c = "?c2\<lparr>internal_result_rid := found\<rparr>"
    have "\<forall>c \<in> set (select_columns ?c). \<exists>i. GetColumnIndex ?s (name_of c) = Some i \<and> (\<forall>buf bp0. length buf = 128 \<and> kept (bpm db1) bp0 (view (bpm db1)) \<longrightarrow>
      (\<exists>buf' bp'. column i buf bp0 = Some (map (\<lambda>r. field_text (row_fields r ! i)) rs, buf', bp') \<and> length buf' = 128 \<and> kept (bpm db1) bp' (view (bpm db1))))"
    proof
      fix c assume "c \<in> set (select_columns ?c)"
      then obtain n where n: "n \<in> set names" "c = ?s ! the (GetColumnIndex ?s n)" by auto
      then obtain i where i: "GetColumnIndex ?s n = Some i" "numeric (ctype (?s ! i))" using names(3) by auto
      then have "name_of c = n" using name_of_found n(2) by auto
      then show "\<exists>i. GetColumnIndex ?s (name_of c) = Some i \<and> (\<forall>buf bp0. length buf = 128 \<and> kept (bpm db1) bp0 (view (bpm db1)) \<longrightarrow>
      (\<exists>buf' bp'. column i buf bp0 = Some (map (\<lambda>r. field_text (row_fields r ! i)) rs, buf', bp') \<and> length buf' = 128 \<and> kept (bpm db1) bp' (view (bpm db1))))"
        using i col[OF GetColumnIndex_less[OF i(1)] i(2)] by blast
    qed
    moreover have "select_columns ?c \<noteq> []" "rows_num ?c = 0" using names(1) by (simp_all add: ExecuteContext_new_def)
    ultimately obtain e2 e3 fs where o: "select_output column ?s db1 ?c e1 = Some (DB_SUCCESS, ?c\<lparr>rows_num := length rs\<rparr>, e3)" "same_rows e1 db1 e2"
      "e3 = e2\<lparr>files := fs, printed := printed e1 @ (if rs = [] then [] else
      [(map name_of (select_columns ?c), map (\<lambda>c. map (\<lambda>r. field_text (row_fields r ! the (GetColumnIndex ?s (name_of c)))) rs) (select_columns ?c))])\<rparr>"
      using select_output_ok[OF e1(1,5)] by blast
    obtain db2 where d2: "table_state e2 name db2 info pids" "rows_of db2 info pids = rows_of db1 info pids" "catalog_mgr db2 = catalog_mgr db1"
      using same_rows_state[OF e1(1) o(2)] by blast
    have sc: "select_columns ?c = ?cols" by (simp add: ExecuteContext_new_def)
    have mm: "map (\<lambda>c. map (\<lambda>r. field_text (row_fields r ! the (GetColumnIndex ?s (name_of c)))) rs) ?cols =
      map (\<lambda>n. map (\<lambda>r. field_text (row_fields r ! the (GetColumnIndex ?s n))) rs) names"
      using name_of_found nn by (auto simp: comp_def)
    have "printed e3 = printed e @ (if rs = [] then [] else [(names, map (\<lambda>n. map (\<lambda>r. field_text (row_fields r ! the (GetColumnIndex ?s n))) rs) names)])"
      unfolding o(3) sc nm mm e1(2) by simp
    moreover have "table_state e3 name db2 info pids" using d2(1) unfolding o(3) by (simp add: table_state_engine)
    ultimately show ?thesis using run o(1) d2(2,3) e1(3,4) rs
      by (intro exI[of _ rs] exI[of _ "?c\<lparr>rows_num := length rs\<rparr>"] exI[of _ e3] exI[of _ db2]) simp
  qed
  show ?thesis
  proof (cases cond)
    case None
    let ?col = "\<lambda>i buf bp. do { (it, rows, bp) \<leftarrow> TableHeap_Begin ?h [] bp; heap_column ?h i it rows [] buf bp }"
    show ?thesis
    proof (rule fin[OF t refl refl refl buf, of ?col "[]" "rows_of db info pids"])
      show "Execute [Tree kNodeSelect sv (Tree kNodeColumnList lv ns # table # conds)] ExecuteContext_new e = select_output ?col ?s db (?c2\<lparr>internal_result_rid := []\<rparr>) e"
        using cond None cur db gt cl[of "[table]"] tv by (simp add: D ExecuteContext_new_def)
      fix i assume i: "i < length ?s" "numeric (ctype (?s ! i))"
      show "\<forall>buf bp0. length buf = 128 \<and> kept (bpm db) bp0 (view (bpm db)) \<longrightarrow>
        (\<exists>buf' bp'. ?col i buf bp0 = Some (map (\<lambda>r. field_text (row_fields r ! i)) (rows_of db info pids), buf', bp') \<and> length buf' = 128 \<and> kept (bpm db) bp' (view (bpm db)))"
      proof (intro allI impI)
        fix buf :: "byte list" and bp0 assume k: "length buf = 128 \<and> kept (bpm db) bp0 (view (bpm db))"
        obtain row bp1 bp2 where b: "TableHeap_Begin ?h [] bp0 = Some (0, [row], bp1)" "scan ?h row bp1 = Some (rows_of db info pids, bp2)" "kept (bpm db) bp2 (view (bpm db))"
          using visit_all_kept[OF va conjunct2[OF k], unfolded hs, folded rows_of_def] by blast
        have "\<forall>r \<in> set (rows_of db info pids). \<exists>f. field_at r i = Some f \<and> field_ok f \<and> numeric (ftype f) \<and> field_text f = field_text (row_fields r ! i)"
        proof
          fix r assume "r \<in> set (rows_of db info pids)"
          then have "stored_row ?s (view (bpm db)) r" using stored_rows[OF t] by blast
          from stored_field[OF this i(1)] show "\<exists>f. field_at r i = Some f \<and> field_ok f \<and> numeric (ftype f) \<and> field_text f = field_text (row_fields r ! i)" using i(2) by simp
        qed
        moreover have "scan ?h ([row] ! 0) bp1 = Some (rows_of db info pids, bp2)" using b(2) by simp
        ultimately show "\<exists>buf' bp'. ?col i buf bp0 = Some (map (\<lambda>r. field_text (row_fields r ! i)) (rows_of db info pids), buf', bp') \<and> length buf' = 128 \<and> kept (bpm db) bp' (view (bpm db))"
          using heap_column_scan[of ?h "[row]" 0 bp1 "rows_of db info pids" bp2 i "\<lambda>r. field_text (row_fields r ! i)" buf "[]"] k b(1,3) by auto
      qed
    qed (simp add: None)
  next
    case (Some c)
    have cc: "conds = [Tree kNodeConditions cv [c]]" "condition_ok ?s c" "condition_defined ?s (rows_of db info pids) c" using cond Some by simp_all
    have t2: "table_state e (ctx_table_name ?c2) db info pids" using t by simp
    obtain found e1 where f: "ExecuteInternalNode [c] ?c2 e = Some (DB_SUCCESS, ?c2\<lparr>internal_result_rid := found\<rparr>, e1)"
      "set found = row_id ` {r \<in> set (rows_of db info pids). condition_holds ?s c r}" "sorted_wrt rid_less found" "same_rows e db e1"
      using condition_rows[OF t2 cc(2), of "[]"] cc(3) by auto
    obtain db1 where d1: "table_state e1 name db1 info pids" "rows_of db1 info pids = rows_of db info pids" "catalog_mgr db1 = catalog_mgr db"
      using same_rows_state[OF t f(4)] by blast
    have e1: "printed e1 = printed e" "length (static_buf e1) = 128" "current_db e1 = current_db e" using f(4) buf by (auto simp: same_rows_def set_db_def)
    have db1: "open_db e1 = Some db1" using d1(1) by (simp add: table_state_def)
    let ?rs = "map (row_of db1 info) found"
    have ro: "\<forall>r \<in> set (rows_of db1 info pids). row_of db1 info (row_id r) = r" "\<forall>rid. row_id (row_of db1 info rid) = rid"
      by (auto simp: rows_of_def table_rows_def row_of_def)
    have "set found \<subseteq> row_id ` set (rows_of db1 info pids)" unfolding d1(2) using f(2) by auto
    also have "\<dots> = set (visited_rids (view (bpm db1)) ?h pids)" by (simp add: rows_of_def table_rows_def image_image)
    finally have lv: "set found \<subseteq> set (live_rids (view (bpm db1)) pids)" using visited_live by blast
    have va1: "heap_inv (bpm db1) (first_page_id ?h) pids" "spare (bpm db1)" "heap_typed (heap_schema ?h) (view (bpm db1)) pids" using d1(1) by (simp_all add: table_state_def)
    show ?thesis
    proof (rule fin[OF d1(1) e1(1) d1(2,3) e1(2), of "\<lambda>i. rid_column ?h i found" found ?rs])
      show "Execute [Tree kNodeSelect sv (Tree kNodeColumnList lv ns # table # conds)] ExecuteContext_new e = select_output (\<lambda>i. rid_column ?h i found) ?s db1 (?c2\<lparr>internal_result_rid := found\<rparr>) e1"
        using cc(1) cur db gt cl[of "[table, Tree kNodeConditions cv [c]]"] tv f(1) db1 by (simp add: D ExecuteContext_new_def)
      show "case cond of None \<Rightarrow> ?rs = rows_of db info pids
        | Some c \<Rightarrow> set ?rs = {r \<in> set (rows_of db info pids). condition_holds ?s c r} \<and> sorted_wrt (\<lambda>a b. rid_less (row_id a) (row_id b)) ?rs"
        unfolding Some option.case using sort_rows[OF f(3,2), of "row_of db1 info"] ro d1(2) by simp
      fix i assume i: "i < length ?s" "numeric (ctype (?s ! i))"
      show "\<forall>buf bp0. length buf = 128 \<and> kept (bpm db1) bp0 (view (bpm db1)) \<longrightarrow>
        (\<exists>buf' bp'. rid_column ?h i found buf bp0 = Some (map (\<lambda>r. field_text (row_fields r ! i)) ?rs, buf', bp') \<and> length buf' = 128 \<and> kept (bpm db1) bp' (view (bpm db1)))"
      proof (intro allI impI)
        fix buf :: "byte list" and bp0 assume k: "length buf = 128 \<and> kept (bpm db1) bp0 (view (bpm db1))"
        have i': "i < length (heap_schema ?h)" "numeric (ctype (heap_schema ?h ! i))" using i hs by simp_all
        show "\<exists>buf' bp'. rid_column ?h i found buf bp0 = Some (map (\<lambda>r. field_text (row_fields r ! i)) ?rs, buf', bp') \<and> length buf' = 128 \<and> kept (bpm db1) bp' (view (bpm db1))"
          using rid_column_rows[OF va1 lv i' conjunct1[OF k] conjunct2[OF k]] by (simp add: hs row_of_def comp_def)
      qed
    qed
  qed
qed

end
