(* ===== verification/Executor_Rows.thy ===== *)
theory Executor_Rows
  imports Executor_Select
begin

text \<open>A heap as a map from row ids to rows, and what the heap operations of \<open>delete\<close> and \<open>insert\<close> do to the map.\<close>

section \<open>Tables as maps\<close>

text \<open>What a heap stands for: a map from row ids to rows.\<close>

definition heap_ready :: "table_heap \<Rightarrow> buffer_pool \<Rightarrow> page_id_t list \<Rightarrow> bool" where
  "heap_ready h bp pids \<longleftrightarrow> heap_inv bp (first_page_id h) pids \<and> spare bp \<and> heap_typed (heap_schema h) (view bp) pids"

definition content :: "table_heap \<Rightarrow> buffer_pool \<Rightarrow> page_id_t list \<Rightarrow> RowId \<Rightarrow> Field list option" where
  "content h bp pids rid = (if rid \<in> set (live_rids (view bp) pids) then Some (stored_fields (heap_schema h) (view bp) rid) else None)"

lemma live_rids_iff:
  assumes "\<forall>q \<in> set pids. table_page_ok (c q)"
  shows "rid \<in> set (live_rids c pids) \<longleftrightarrow> rid_page rid \<in> set pids \<and> unat (rid_slot rid) < length (slots (c (rid_page rid))) \<and>
    (\<exists>b. slots (c (rid_page rid)) ! unat (rid_slot rid) = Some (False, b))"
proof
  assume "rid \<in> set (live_rids c pids)"
  then obtain q i where q: "q \<in> set pids" "i \<in> set (live_slots (slots (c q)))" "rid = \<lparr>rid_page = q, rid_slot = of_nat i\<rparr>" by (auto simp: live_rids_def)
  have ok: "table_page_ok (c q)" using assms q(1) by blast
  from live_slot_number[OF ok q(2)] q show "rid_page rid \<in> set pids \<and> unat (rid_slot rid) < length (slots (c (rid_page rid))) \<and>
    (\<exists>b. slots (c (rid_page rid)) ! unat (rid_slot rid) = Some (False, b))" by (simp del: length_slots nth_slots)
next
  assume a: "rid_page rid \<in> set pids \<and> unat (rid_slot rid) < length (slots (c (rid_page rid))) \<and>
    (\<exists>b. slots (c (rid_page rid)) ! unat (rid_slot rid) = Some (False, b))"
  then have "unat (rid_slot rid) \<in> set (live_slots (slots (c (rid_page rid))))" by (auto simp: live_slots_def simp del: length_slots nth_slots)
  then show "rid \<in> set (live_rids c pids)" using a unfolding live_rids_def by (auto intro!: bexI[of _ "rid_page rid"] image_eqI[of _ _ "unat (rid_slot rid)"])
qed

lemma heap_pages_ok: "heap_inv bp first pids \<Longrightarrow> \<forall>q \<in> set pids. table_page_ok (view bp q)"
  using heap_invD(6) by blast

lemma stored_slot:
  assumes "heap_ready h bp pids" and "rid_page rid \<in> set pids" "i = unat (rid_slot rid)" "i < length (slots (view bp (rid_page rid)))"
    "slots (view bp (rid_page rid)) ! i = Some (False, row_bytes fs)" "row_ok (heap_schema h) fs"
  shows "content h bp pids rid = Some fs"
proof -
  have ok: "\<forall>q \<in> set pids. table_page_ok (view bp q)" using assms(1) heap_pages_ok by (auto simp: heap_ready_def)
  have "rid \<in> set (live_rids (view bp) pids)" using live_rids_iff[OF ok, of rid] assms(2-5) by blast
  moreover have "stored_row (heap_schema h) (view bp) \<lparr>row_id = rid, row_fields = fs\<rparr>"
    using assms(3-6) by (simp add: stored_row_def Let_def del: length_slots nth_slots)
  ultimately show ?thesis using stored_row_fields[of "heap_schema h" "view bp" "\<lparr>row_id = rid, row_fields = fs\<rparr>"] by (simp add: content_def)
qed

lemma delete_row_content:
  assumes r: "heap_ready h (bpm db) pids" and rid: "rid \<in> set (live_rids (view (bpm db)) pids)"
  shows "\<exists>db'. delete_row h [] rid db = Some db' \<and> catalog_mgr db' = catalog_mgr db \<and> pins (bpm db') = pins (bpm db) \<and>
    heap_ready h (bpm db') pids \<and> content h (bpm db') pids = (content h (bpm db) pids)(rid := None)"
proof -
  let ?bp = "bpm db" and ?s = "heap_schema h" and ?p = "rid_page rid" and ?i = "unat (rid_slot rid)"
  have T: "heap_inv ?bp (first_page_id h) pids" "spare ?bp" "heap_typed ?s (view ?bp) pids" using r by (simp_all add: heap_ready_def)
  obtain bp1 where g: "TableHeap_GetTuple h \<lparr>row_id = rid, row_fields = []\<rparr> ?bp = Some (True, \<lparr>row_id = rid, row_fields = stored_fields ?s (view ?bp) rid\<rparr>, bp1)"
    "kept ?bp bp1 (view ?bp)" "?p \<in> set pids" using read_visited[OF T rid] by blast
  have v1: "\<And>q. q \<in> set pids \<Longrightarrow> view bp1 q = view ?bp q" using view_heap_kept[OF T(1) g(2)] by blast
  have T1: "heap_inv bp1 (first_page_id h) pids" "spare bp1" using heap_inv_kept[OF T(1) g(2)] kept_spare[OF g(2)] T(2) by simp_all
  have sl: "?i < length (slots (view ?bp ?p))" "\<exists>b. slots (view ?bp ?p) ! ?i = Some (False, b)" using live_rids_iff[OF heap_pages_ok[OF T(1)], of rid] rid by blast+
  have sl1: "?i < length (slots (view bp1 ?p))" "slots (view bp1 ?p) ! ?i \<noteq> None" using sl v1[OF g(3)] by auto
  obtain bp2 where a: "TableHeap_ApplyDelete rid bp1 = Some bp2" "page_changed bp1 bp2 ?p ((slots (view bp1 ?p))[?i := None])"
    using heap_apply[OF T1 g(3) refl sl1] by blast
  note P = page_changed_heap[OF T1(1) a(2)]
  let ?ss = "\<lambda>q. if q = ?p then (slots (view ?bp ?p))[?i := None] else slots (view ?bp q)"
  have ss: "slots (view bp2 q) = ?ss q" if q: "q \<in> set pids" for q
  proof -
    obtain d where d: "kept bp1 bp2 ((view bp1)(?p := d))" "slots d = (slots (view bp1 ?p))[?i := None]" using a(2) unfolding page_changed_def by blast
    have "view bp2 q = ((view bp1)(?p := d)) q" using d(1) heap_invD(5)[OF T1(1) q] by (simp add: kept_def)
    then show ?thesis using d(2) v1 g(3) q by auto
  qed
  have sp: "spare bp2" using P(3) T1(2) by simp
  have ty: "heap_typed ?s (view bp2) pids" unfolding heap_typed_def
  proof (intro ballI allI impI)
    fix q b assume q: "q \<in> set pids" "Some (False, b) \<in> set (slots (view bp2 q))"
    then have "Some (False, b) \<in> set (slots (view ?bp q))" using ss[OF q(1)] set_update_subset_insert[of "slots (view ?bp ?p)" ?i None] by (auto split: if_splits)
    then show "\<exists>fs. row_ok ?s fs \<and> b = row_bytes fs" using T(3) q(1) by (auto simp: heap_typed_def)
  qed
  note O = heap_pages_ok[OF T(1)] and O2 = heap_pages_ok[OF P(1)]
  have live: "x \<in> set (live_rids (view bp2) pids) \<longleftrightarrow> x \<noteq> rid \<and> x \<in> set (live_rids (view ?bp) pids)" for x
  proof (cases "rid_page x = ?p")
    case True
    have "x = rid \<longleftrightarrow> unat (rid_slot x) = ?i" using True by (cases x; cases rid) (auto simp: word_unat_eq_iff)
    then show ?thesis using True ss[OF g(3)] sl unfolding live_rids_iff[OF O, of x] live_rids_iff[OF O2, of x] by (auto simp: nth_list_update simp del: length_slots nth_slots)
  next
    case False
    then have "x \<noteq> rid" by auto
    then show ?thesis using False ss unfolding live_rids_iff[OF O, of x] live_rids_iff[OF O2, of x] by (auto simp del: length_slots nth_slots)
  qed
  have st: "stored_fields ?s (view bp2) x = stored_fields ?s (view ?bp) x" if "x \<noteq> rid" "x \<in> set (live_rids (view ?bp) pids)" for x
  proof -
    have x: "rid_page x \<in> set pids" using that(2) live_rids_iff[OF O, of x] by blast
    have "slots (view bp2 (rid_page x)) ! unat (rid_slot x) = slots (view ?bp (rid_page x)) ! unat (rid_slot x)"
    proof (cases "rid_page x = ?p")
      case True
      then have "unat (rid_slot x) \<noteq> ?i" using that(1) by (cases x; cases rid) (auto simp: word_unat_eq_iff)
      then show ?thesis using ss[OF x] True by simp
    qed (use ss[OF x] in simp)
    then show ?thesis by (simp only: stored_fields_def)
  qed
  have "content h bp2 pids = (content h ?bp pids)(rid := None)" using live st by (auto simp: content_def fun_eq_iff)
  moreover have "pins bp2 = pins ?bp" using a(2) g(2) by (auto simp: page_changed_def kept_def)
  moreover have "delete_row h [] rid db = Some (db\<lparr>bpm := bp2\<rparr>)" by (simp add: delete_row_def g(1) a(1))
  ultimately show ?thesis using P(1) sp ty by (intro exI[of _ "db\<lparr>bpm := bp2\<rparr>"]) (simp add: heap_ready_def)
qed

lemma delete_rows_content:
  assumes "heap_ready h (bpm db) pids" and "set rids \<subseteq> set (live_rids (view (bpm db)) pids)" and "distinct rids"
  shows "\<exists>db'. delete_rows h [] rids db = Some db' \<and> catalog_mgr db' = catalog_mgr db \<and> pins (bpm db') = pins (bpm db) \<and>
    heap_ready h (bpm db') pids \<and> content h (bpm db') pids = content h (bpm db) pids |` (- set rids)"
  using assms
proof (induction rids arbitrary: db)
  case Nil
  then show ?case by (simp add: restrict_map_def)
next
  case (Cons rid rids)
  have rid: "rid \<in> set (live_rids (view (bpm db)) pids)" using Cons.prems(2) by simp
  obtain db1 where d: "delete_row h [] rid db = Some db1" "catalog_mgr db1 = catalog_mgr db" "pins (bpm db1) = pins (bpm db)" "heap_ready h (bpm db1) pids"
    "content h (bpm db1) pids = (content h (bpm db) pids)(rid := None)" using delete_row_content[OF Cons.prems(1) rid] by blast
  have "set rids \<subseteq> set (live_rids (view (bpm db1)) pids)"
  proof
    fix x assume x: "x \<in> set rids"
    then have "content h (bpm db1) pids x = content h (bpm db) pids x" "x \<in> set (live_rids (view (bpm db)) pids)" using d(5) Cons.prems(2,3) by auto
    then show "x \<in> set (live_rids (view (bpm db1)) pids)" by (simp add: content_def split: if_splits)
  qed
  moreover have "distinct rids" using Cons.prems(3) by simp
  ultimately obtain db' where e: "delete_rows h [] rids db1 = Some db'" "catalog_mgr db' = catalog_mgr db1" "pins (bpm db') = pins (bpm db1)" "heap_ready h (bpm db') pids"
    "content h (bpm db') pids = content h (bpm db1) pids |` (- set rids)" using Cons.IH[OF d(4)] by blast
  have "content h (bpm db1) pids |` (- set rids) = content h (bpm db) pids |` (- set (rid # rids))" unfolding d(5) by (auto simp: restrict_map_def fun_eq_iff)
  then show ?case using d(1-3) e by simp
qed

lemma add_tuple_nth:
  "length ss \<le> length (add_tuple b ss)" "i < length (add_tuple b ss) \<Longrightarrow> i \<noteq> free_slot ss \<Longrightarrow> i < length ss \<and> add_tuple b ss ! i = ss ! i"
  "free_slot ss < length ss \<Longrightarrow> ss ! free_slot ss = None"
proof -
  have f: "free_slot ss \<le> length ss" by (simp add: free_slot_def length_takeWhile_le)
  show n: "ss ! free_slot ss = None" if "free_slot ss < length ss" using nth_length_takeWhile[of "\<lambda>s. s \<noteq> None" ss] that unfolding free_slot_def by blast
  have l: "free_slot ss = length ss" if "None \<notin> set ss"
  proof -
    have "\<forall>x \<in> set ss. x \<noteq> None" using that by metis
    then have "takeWhile (\<lambda>s. s \<noteq> None) ss = ss" by (rule takeWhile_eq_all_conv[THEN iffD2])
    then show ?thesis unfolding free_slot_def by (rule arg_cong[of _ _ length])
  qed
  show "length ss \<le> length (add_tuple b ss)" by (simp add: add_tuple_def)
  show "i < length (add_tuple b ss) \<Longrightarrow> i \<noteq> free_slot ss \<Longrightarrow> i < length ss \<and> add_tuple b ss ! i = ss ! i"
    using l by (auto simp: add_tuple_def nth_append split: if_splits)
qed

lemma insert_content:
  assumes r: "heap_ready h bp pids" and rid: "rid = \<lparr>rid_page = p, rid_slot = of_nat i\<rparr>" and r': "heap_inv bp' (first_page_id h) pids'" "spare bp'" and p: "p \<in> set pids'" and sub: "set pids \<subseteq> set pids'"
    and fs: "row_ok (heap_schema h) fs" and new: "i < length (slots (view bp' p))" "slots (view bp' p) ! i = Some (False, row_bytes fs)"
    and free: "p \<in> set pids \<Longrightarrow> i < length (slots (view bp p)) \<Longrightarrow> slots (view bp p) ! i = None"
    and same: "\<And>q j s. q \<in> set pids' \<Longrightarrow> (q, j) \<noteq> (p, i) \<Longrightarrow> (j < length (slots (view bp' q)) \<and> slots (view bp' q) ! j = s) = (q \<in> set pids \<and> j < length (slots (view bp q)) \<and> slots (view bp q) ! j = s)"
  shows "heap_ready h bp' pids' \<and> content h bp' pids' = (content h bp pids)(rid \<mapsto> fs) \<and> content h bp pids rid = None"
proof -
  let ?s = "heap_schema h"
  have T: "heap_inv bp (first_page_id h) pids" "heap_typed ?s (view bp) pids" using r by (simp_all add: heap_ready_def)
  note O = heap_pages_ok[OF T(1)] and O' = heap_pages_ok[OF r'(1)]
  have "i \<le> PAGE_SIZE" using new(1) table_page_okD(2,3)[of "view bp' p"] O' p by auto
  then have u: "unat (of_nat i :: u32) = i" by (rule small_u32)
  have ty: "heap_typed ?s (view bp') pids'" unfolding heap_typed_def
  proof (intro ballI allI impI)
    fix q b assume q: "q \<in> set pids'" "Some (False, b) \<in> set (slots (view bp' q))"
    then obtain j where j: "j < length (slots (view bp' q))" "slots (view bp' q) ! j = Some (False, b)" by (metis in_set_conv_nth)
    show "\<exists>fs. row_ok ?s fs \<and> b = row_bytes fs"
    proof (cases "(q, j) = (p, i)")
      case True
      then show ?thesis using j(2) new(2) fs by auto
    next
      case False
      then have "q \<in> set pids" "j < length (slots (view bp q))" "slots (view bp q) ! j = Some (False, b)" using same[OF q(1) False] j by blast+
      then have "Some (False, b) \<in> set (slots (view bp q))" by (metis nth_mem)
      then show ?thesis using T(2) \<open>q \<in> set pids\<close> by (auto simp: heap_typed_def)
    qed
  qed
  have ready: "heap_ready h bp' pids'" using r' ty by (simp add: heap_ready_def)
  have nl: "content h bp pids rid = None"
    using free u unfolding content_def live_rids_iff[OF O, of rid] by (auto simp: rid simp del: length_slots nth_slots)
  have at: "content h bp' pids' rid = Some fs" by (rule stored_slot[OF ready _ refl]) (use p new u fs rid in \<open>simp_all del: length_slots nth_slots\<close>)
  have "content h bp' pids' x = content h bp pids x" if x: "x \<noteq> rid" for x
  proof -
    let ?q = "rid_page x" and ?j = "unat (rid_slot x)"
    have ne: "(?q, ?j) \<noteq> (p, i)" using x u rid by (cases x) (auto simp: word_unat_eq_iff)
    have l: "x \<in> set (live_rids (view bp') pids') \<longleftrightarrow> x \<in> set (live_rids (view bp) pids)"
      unfolding live_rids_iff[OF O, of x] live_rids_iff[OF O', of x] using same[of ?q ?j, OF _ ne] sub by blast
    show ?thesis
    proof (cases "x \<in> set (live_rids (view bp) pids)")
      case True
      then have "?q \<in> set pids" "?j < length (slots (view bp ?q))" unfolding live_rids_iff[OF O, of x] by blast+
      then have "slots (view bp' ?q) ! ?j = slots (view bp ?q) ! ?j" using same[of ?q ?j "slots (view bp ?q) ! ?j", OF _ ne] sub by blast
      then have "stored_fields ?s (view bp') x = stored_fields ?s (view bp) x" by (simp only: stored_fields_def)
      then show ?thesis using True l by (simp add: content_def)
    qed (use l in \<open>simp add: content_def\<close>)
  qed
  then have "content h bp' pids' = (content h bp pids)(rid \<mapsto> fs)" using at by (auto simp: fun_eq_iff)
  then show ?thesis using ready nl by blast
qed

lemma insert_tuple_content:
  assumes r: "heap_ready h bp pids" and fs: "row_ok (heap_schema h) fs" "fs \<noteq> []" "length (row_bytes fs) \<le> SIZE_MAX_ROW"
    and room: "\<exists>q. logical_ok q \<and> \<not> allocated bp q" and ne: "length pids < length (free_list bp)"
  shows "\<exists>rid bp' pids'. TableHeap_InsertTuple h \<lparr>row_id = INVALID_ROWID, row_fields = fs\<rparr> bp = Some (True, \<lparr>row_id = rid, row_fields = fs\<rparr>, bp') \<and> pins bp' = pins bp \<and>
    heap_ready h bp' pids' \<and> content h bp' pids' = (content h bp pids)(rid \<mapsto> fs) \<and> content h bp pids rid = None"
proof -
  let ?r = "\<lparr>row_id = INVALID_ROWID, row_fields = fs\<rparr>" and ?b = "row_bytes fs"
  have T: "heap_inv bp (first_page_id h) pids" "spare bp" "heap_typed (heap_schema h) (view bp) pids" using r by (simp_all add: heap_ready_def)
  have fk: "list_all field_ok fs" by (rule row_ok_fields[OF fs(1)])
  have "length ?b < 2 ^ 32" using fs(3) by (simp add: SIZE_MAX_ROW_def SIZE_TABLE_PAGE_HEADER_def SIZE_TUPLE_def PAGE_SIZE_def)
  then have fits: "row_fits ?r ?b" using fk row_bytes_nonempty[OF fk fs(2)] by (simp add: row_fits_def)
  show ?thesis
  proof (cases "find (\<lambda>q. has_room ?b (view bp q)) pids")
    case (Some p)
    let ?i = "free_slot (slots (view bp p))"
    obtain bp' d where x: "TableHeap_InsertTuple h ?r bp = Some (True, inserted_row ?r p (view bp p), bp')" "kept bp bp' ((view bp)(p := d))"
      "heap_inv bp' (first_page_id h) pids" "p \<in> set pids" "slots d = add_tuple ?b (slots (view bp p))"
      using heap_insert_found[OF T(1,2) fits Some] by (elim exE conjE) (rule that; assumption)
    have v: "view bp' q = ((view bp)(p := d)) q" if "q \<in> set pids" for q using x(2) heap_invD(5)[OF T(1) that] by (simp add: kept_def)
    have sl: "slots (view bp' p) = add_tuple ?b (slots (view bp p))" "\<And>q. q \<in> set pids \<Longrightarrow> q \<noteq> p \<Longrightarrow> slots (view bp' q) = slots (view bp q)"
      using v x(4,5) by simp_all
    have sp: "spare bp'" using kept_spare[OF x(2)] T(2) by simp
    let ?rid = "\<lparr>rid_page = p, rid_slot = of_nat ?i\<rparr> :: RowId"
    have "heap_ready h bp' pids \<and> content h bp' pids = (content h bp pids)(?rid \<mapsto> fs) \<and> content h bp pids ?rid = None"
    proof (rule insert_content[OF r refl x(3) sp x(4) subset_refl fs(1)])
      show "?i < length (slots (view bp' p))" "slots (view bp' p) ! ?i = Some (False, row_bytes fs)" unfolding sl(1) using free_slot_add by blast+
      show "slots (view bp p) ! ?i = None" if "?i < length (slots (view bp p))" using add_tuple_nth(3)[OF that] .
      fix q j s assume q: "q \<in> set pids" "(q, j) \<noteq> (p, ?i)"
      show "(j < length (slots (view bp' q)) \<and> slots (view bp' q) ! j = s) = (q \<in> set pids \<and> j < length (slots (view bp q)) \<and> slots (view bp q) ! j = s)"
      proof (cases "q = p")
        case True
        then have j: "j \<noteq> ?i" using q(2) by simp
        have "j < length (add_tuple ?b (slots (view bp p))) \<longleftrightarrow> j < length (slots (view bp p))"
          using add_tuple_nth(1)[of "slots (view bp p)" ?b] add_tuple_nth(2)[of j ?b "slots (view bp p)", OF _ j] by linarith
        then have "(j < length (add_tuple ?b (slots (view bp p))) \<and> add_tuple ?b (slots (view bp p)) ! j = s) = (j < length (slots (view bp p)) \<and> slots (view bp p) ! j = s)"
          using add_tuple_nth(2)[of j ?b "slots (view bp p)", OF _ j] by (cases "j < length (slots (view bp p))") simp_all
        then show ?thesis unfolding True sl(1) using x(4) by simp
      qed (use sl(2)[OF q(1)] q(1) in simp)
    qed
    then show ?thesis using x(1,2) by (intro exI[of _ ?rid] exI[of _ bp'] exI[of _ pids]) (simp add: inserted_row_def kept_def)
  next
    case None
    obtain new d e bp' where x: "TableHeap_InsertTuple h ?r bp = Some (length ?b \<le> SIZE_MAX_ROW,
        if length ?b \<le> SIZE_MAX_ROW then ?r\<lparr>row_id := \<lparr>rid_page = new, rid_slot = 0\<rparr>\<rparr> else ?r, bp')"
      "grown bp bp' new ((view bp)(last pids := d, new := e))" "heap_inv bp' (first_page_id h) (pids @ [new])"
      "heap_slots bp' (pids @ [new]) = heap_slots bp pids @ [(new, if length ?b \<le> SIZE_MAX_ROW then [Some (False, ?b)] else [])]"
      using heap_insert_full[OF T(1,2) fits None room ne] by (elim exE conjE) (rule that; assumption)
    have sp: "spare bp'" using x(2) T(2) by (simp add: grown_def spare_def)
    have sl: "slots (view bp' new) = [Some (False, ?b)]" "\<And>q. q \<in> set pids \<Longrightarrow> slots (view bp' q) = slots (view bp q)" using x(4) fs(3) by (auto simp: heap_slots_def)
    have nn: "new \<notin> set pids" using heap_invD(3)[OF x(3)] by simp
    let ?rid = "\<lparr>rid_page = new, rid_slot = of_nat 0\<rparr> :: RowId"
    have mem: "new \<in> set (pids @ [new])" "set pids \<subseteq> set (pids @ [new])" by auto
    have "heap_ready h bp' (pids @ [new]) \<and> content h bp' (pids @ [new]) = (content h bp pids)(?rid \<mapsto> fs) \<and> content h bp pids ?rid = None"
    proof (rule insert_content[OF r refl x(3) sp mem fs(1)])
      show "0 < length (slots (view bp' new))" "slots (view bp' new) ! 0 = Some (False, row_bytes fs)" unfolding sl(1) by simp_all
      show "slots (view bp new) ! 0 = None" if "new \<in> set pids" using nn that by simp
      fix q s and j :: nat assume q: "q \<in> set (pids @ [new])" "(q, j) \<noteq> (new, 0)"
      show "(j < length (slots (view bp' q)) \<and> slots (view bp' q) ! j = s) = (q \<in> set pids \<and> j < length (slots (view bp q)) \<and> slots (view bp q) ! j = s)"
      proof (cases "q = new")
        case True
        then show ?thesis using q(2) nn unfolding True sl(1) by auto
      qed (use sl(2) q(1) in auto)
    qed
    moreover have "pins bp' = pins bp" using x(2) by (simp add: grown_def)
    ultimately show ?thesis using x(1) fs(3) by (intro exI[of _ ?rid] exI[of _ bp'] exI[of _ "pids @ [new]"]) simp
  qed
qed

section \<open>Inserting\<close>

text \<open>The fields that the values of a statement become.\<close>

lemma insert_field_typed:
  assumes "insert_field c ty v = Some (Some f)"
  shows "ftype f = ctype c" "if is_null f then nullable c \<and> \<not> unique c \<and> ty = kNodeNull else field_ok f"
proof -
  have "int32_range i" if "atoi s = Some i" for i s using that by (auto simp: atoi_def int32_range_def split: option.splits if_splits)
  then show "ftype f = ctype c" "if is_null f then nullable c \<and> \<not> unique c \<and> ty = kNodeNull else field_ok f"
    using assms by (auto simp: insert_field_def Field_null_def Field_int_def Field_float_def Field_char_def field_ok_def split: if_splits bind_splits)
qed

lemma insert_fields_typed:
  assumes "insert_fields schema vs = Some (Some fs)"
  shows "list_all2 (\<lambda>c f. ftype f = ctype c \<and> (if is_null f then nullable c \<and> \<not> unique c else field_ok f)) schema fs"
  using assms
proof (induction schema vs arbitrary: fs rule: insert_fields.induct)
  case (3 c cs ty v sub ns)
  then obtain f gs where f: "insert_field c ty v = Some (Some f)" "insert_fields cs ns = Some (Some gs)" "fs = f # gs" by (auto split: bind_splits option.splits)
  show ?case using 3(1)[OF f(1) refl f(2)] insert_field_typed[OF f(1)] f(3) by auto
qed (auto split: if_splits)

lemma unpinned_check: "pool_inv bp \<Longrightarrow> pins bp = (\<lambda>q. 0) \<Longrightarrow> CheckAllUnpinned bp"
proof -
  assume inv: "pool_inv bp" and z: "pins bp = (\<lambda>q. 0)"
  have wf: "pool_wf bp" using inv by (simp add: pool_inv_def)
  have z: "pin_count p = 0" if p: "p \<in> set (pages bp)" for p
  proof -
    obtain k where k: "k < length (pages bp)" "p = pages bp ! k" using p by (metis in_set_conv_nth)
    then have ip: "in_pool bp (int k)" by (simp add: in_pool_def)
    have "int k \<in> set (free_list bp) \<or> int k \<in> ran (page_table bp)" using inv ip by (simp add: pool_inv_def)
    then consider "int k \<in> set (free_list bp)" | q where "page_table bp q = Some (int k)" unfolding ran_def by blast
    then show ?thesis
    proof cases
      case 1
      then show ?thesis using pool_wfD(8)[OF wf 1] k by simp
    next
      case 2
      then have "pins bp q = nat (pin_count p)" using k(2) by (simp add: pins_def)
      then have "nat (pin_count p) = 0" using z by simp
      then show ?thesis using pool_wfD(6)[OF wf p] by simp
    qed
  qed
  have "pin_count p = 0" if "p \<in> set (take (pool_size bp) (pages bp))" for p by (rule z[OF in_set_takeD[OF that]])
  then show "CheckAllUnpinned bp" unfolding CheckAllUnpinned_def list_all_iff by blast
qed

end
