(* ===== verification/Executor_Statements.thy ===== *)
theory Executor_Statements
  imports Executor_Rows
begin



text \<open>The rows of a table of the database.\<close>

definition row_map :: "TableInfo \<Rightarrow> DBStorageEngine \<Rightarrow> page_id_t list \<Rightarrow> RowId \<Rightarrow> Field list option" where
  "row_map info db = content (heap_of info) (bpm db)"

section \<open>Properties\<close>



text \<open>Which values fit a column, and the field that a value becomes.  A value is readable if the text of a number is in the range of int and a string is shorter than
  the longest one a field may hold.\<close>

definition value_fits :: "Column \<Rightarrow> tree \<Rightarrow> bool" where
  "value_fits c t = (case t of Tree ty v cs \<Rightarrow>
     if ty = kNodeNull then nullable c \<and> \<not> unique c
     else if ty = kNodeNumber then numeric (ctype c)
     else ty = kNodeString \<and> ctype c = kTypeChar \<and> length (c_string (the v)) \<le> clen c)"

definition value_field :: "Column \<Rightarrow> tree \<Rightarrow> Field" where
  "value_field c t = (case t of Tree ty v cs \<Rightarrow> let s = c_string (the v) in
     if ty = kNodeNull then Field_null (ctype c)
     else if ctype c = kTypeInt then Field_int (the (atoi s))
     else if ctype c = kTypeFloat then Field_float (atof s)
     else \<lparr>value_of = VChars (bytes_of s), ftype = kTypeChar, flen = of_nat (length s), is_null = False\<rparr>)"

definition value_readable :: "tree \<Rightarrow> bool" where
  "value_readable t = (case t of Tree ty v cs \<Rightarrow> ty = kNodeNull \<or>
     (case v of None \<Rightarrow> False | Some s \<Rightarrow> (ty = kNodeNumber \<longrightarrow> atoi (c_string s) \<noteq> None) \<and> length (c_string s) < VARCHAR_MAX_LEN))"

lemma insert_field_value:
  assumes "value_readable (Tree ty v cs)"
  shows "insert_field c ty v = Some (if value_fits c (Tree ty v cs) then Some (value_field c (Tree ty v cs)) else None)"
proof (cases "ty = kNodeNull")
  case False
  then obtain s where v: "v = Some s" "ty = kNodeNumber \<longrightarrow> atoi (c_string s) \<noteq> None" "length (c_string s) < VARCHAR_MAX_LEN"
    using assms by (auto simp: value_readable_def split: option.splits)
  have u: "unat (of_nat (length (c_string s)) :: u32) = length (c_string s)" by (rule unat_of_nat_u32) (use v(3) in \<open>simp add: VARCHAR_MAX_LEN_def PAGE_SIZE_def\<close>)
  have f: "Field_char (Some (bytes_of (c_string s) @ [0])) (of_nat (length (c_string s))) True =
    Some \<lparr>value_of = VChars (bytes_of (c_string s)), ftype = kTypeChar, flen = of_nat (length (c_string s)), is_null = False\<rparr>"
    using u v(3) by (simp add: Field_char_def bytes_of_def)
  show ?thesis
  proof (cases "ty = kNodeNumber")
    case True
    then show ?thesis using v(1,2) by (cases "ctype c") (auto simp: insert_field_def value_fits_def value_field_def numeric_def Let_def)
  next
    case n: False
    then show ?thesis using False v(1) f by (cases "ctype c") (auto simp: insert_field_def value_fits_def value_field_def Let_def)
  qed
qed (simp add: insert_field_def value_fits_def value_field_def)

lemma insert_fields_values:
  assumes "\<forall>t \<in> set vs. value_readable t"
  shows "insert_fields schema vs = Some (if list_all2 value_fits schema vs then Some (map2 value_field schema vs) else None)"
  using assms by (induction schema vs rule: insert_fields.induct) (auto simp: insert_field_value)

lemma insert_fields_row_ok:
  assumes "insert_fields schema vs = Some (Some fs)" and "\<forall>f \<in> set fs. \<not> is_null f"
  shows "row_ok schema fs"
  using insert_fields_typed[OF assms(1)] assms(2) unfolding row_ok_def by (auto simp: list_all2_conv_all_nth)

text \<open>C9: An \<open>insert\<close> statement on a table without indexes.  When the values do not fit the columns (their number, their types, the length of a string, a null in a
  column that does not allow it) the statement is refused and nothing changes.  Otherwise, for values that are not null and a row that fits a page, the table gets one new row
  with the fields that the values stand for, which have the types of the columns, under a row id that was not in use, and keeps every other row.  Numbers have to be in the
  range of int, and strings shorter than the longest field.\<close>

theorem insert_statement:
  assumes "table_state e name db info pids" and "current_db e \<noteq> []" and "node_text table = Some name"
    and "GetTableIndexes name (catalog_mgr db) = Some (res, [])" and "pins (bpm db) = (\<lambda>q. 0)"
    and "\<exists>q. logical_ok q \<and> \<not> allocated (bpm db) q" and "length pids < length (free_list (bpm db))"
    and "\<forall>t \<in> set values. value_readable t" and "fs = map2 value_field (table_schema info) values"
    and "list_all2 value_fits (table_schema info) values \<Longrightarrow> fs \<noteq> [] \<and> (\<forall>f \<in> set fs. \<not> is_null f) \<and> length (row_bytes fs) \<le> SIZE_MAX_ROW"
  shows "if list_all2 value_fits (table_schema info) values
    then row_ok (table_schema info) fs \<and> (\<exists>rid e' db' pids'. Execute [Tree kNodeInsert iv [table, Tree vt vv values]] ExecuteContext_new e =
          Some (DB_SUCCESS, ExecuteContext_new\<lparr>ctx_table_name := name, rows_num := 1\<rparr>, e') \<and>
        table_state e' name db' info pids' \<and> catalog_mgr db' = catalog_mgr db \<and> pins (bpm db') = pins (bpm db) \<and>
        row_map info db pids rid = None \<and> row_map info db' pids' = (row_map info db pids)(rid \<mapsto> fs))
    else Execute [Tree kNodeInsert iv [table, Tree vt vv values]] ExecuteContext_new e = Some (DB_FAILED, ExecuteContext_new\<lparr>ctx_table_name := name\<rparr>, e)"
proof -
  let ?s = "table_schema info" and ?h = "heap_of info"
  note T = assms(1)[unfolded table_state_def]
  have tv: "ast_val (table # xs) = Some name" for xs using assms(3) by (cases table) (simp add: ast_val_def)
  have od: "open_db e = Some db" "GetTable name (catalog_mgr db) = (DB_SUCCESS, Some info)" using T by blast+
  note D = Execute_def ExecuteInsert_def ast_type_def[of "Tree _ _ _ # _"] ast_child_def[of "Tree _ _ _ # _"] ast_next_def Let_def tv od assms(2,4)
  have hs: "heap_schema ?h = ?s" using T by blast
  have ready: "heap_ready ?h (bpm db) pids" using T by (simp add: heap_ready_def)
  then have inv: "pool_inv (bpm db)" by (simp add: heap_ready_def heap_inv_def)
  note I = insert_fields_values[OF assms(8), of ?s, folded assms(9)]
  show ?thesis
  proof (cases "list_all2 value_fits ?s values")
    case False
    have "Execute [Tree kNodeInsert iv [table, Tree vt vv values]] ExecuteContext_new e = Some (DB_FAILED, ExecuteContext_new\<lparr>ctx_table_name := name\<rparr>, e)"
      using I unfolding if_not_P[OF False] by (simp add: D)
    then show ?thesis unfolding if_not_P[OF False] .
  next
    case True
    note F = assms(10)[OF True]
    have i: "insert_fields ?s values = Some (Some fs)" using I unfolding if_P[OF True] .
    have ok: "row_ok ?s fs" by (rule insert_fields_row_ok[OF i]) (use F in blast)
    then have ok': "row_ok (heap_schema ?h) fs" by (simp only: hs)
    obtain rid bp' pids' where x: "TableHeap_InsertTuple ?h \<lparr>row_id = INVALID_ROWID, row_fields = fs\<rparr> (bpm db) = Some (True, \<lparr>row_id = rid, row_fields = fs\<rparr>, bp')"
      "pins bp' = pins (bpm db)" "heap_ready ?h bp' pids'" "content ?h bp' pids' = (content ?h (bpm db) pids)(rid \<mapsto> fs)" "content ?h (bpm db) pids rid = None"
      using insert_tuple_content[OF ready ok' _ _ assms(6,7)] F by blast
    have u: "CheckAllUnpinned (bpm db)" "CheckAllUnpinned bp'"
      using unpinned_check[OF inv assms(5)] unpinned_check[of bp'] x(2,3) assms(5) by (simp_all add: heap_ready_def heap_inv_def)
    let ?db = "db\<lparr>bpm := bp'\<rparr>"
    have run: "Execute [Tree kNodeInsert iv [table, Tree vt vv values]] ExecuteContext_new e =
        Some (DB_SUCCESS, ExecuteContext_new\<lparr>ctx_table_name := name, rows_num := 1\<rparr>, set_db ?db e)"
      using i x(1) u by (simp add: D ExecuteContext_new_def)
    have "open_db (set_db ?db e) = Some ?db" using od by (simp add: open_db_def set_db_def hash_set_of)
    then have "table_state (set_db ?db e) name ?db info pids'" using T x(3) by (simp add: table_state_def heap_ready_def)
    then show ?thesis unfolding if_P[OF True] using ok run x(2,4,5)
      by (intro conjI exI[of _ rid] exI[of _ "set_db ?db e"] exI[of _ ?db] exI[of _ pids']) (simp_all add: row_map_def)
  qed
qed

section \<open>Witnesses\<close>

definition sample_info :: "page_id_t \<Rightarrow> TableInfo" where
  "sample_info pid = \<lparr>table_meta = \<lparr>tm_table_id = 0, tm_table_name = ''accounts'', tm_root_page_id = pid, tm_schema = sample_schema\<rparr>,
     heap_of = \<lparr>first_page_id = pid, heap_schema = sample_schema\<rparr>\<rparr>"

definition sample_db :: "page_id_t \<Rightarrow> buffer_pool \<Rightarrow> DBStorageEngine" where
  "sample_db pid bp = \<lparr>bpm = bp, catalog_mgr = \<lparr>catalog_meta = CatalogMeta_new, next_table_id = Some 1, next_index_id = Some 0, table_names = [(''accounts'', 0)],
     tables = [(0, sample_info pid)], index_names = [], indexes = []\<rparr>\<rparr>"

definition sample_state :: "DBStorageEngine \<Rightarrow> ExecuteEngine" where
  "sample_state db = \<lparr>dbs = [(''bank'', db)], current_db = ''bank'', files = (\<lambda>_. None), static_buf = replicate 128 0, printed = []\<rparr>"

definition name_node :: tree where
  "name_node = Tree kNodeIdentifier (Some ''accounts'') []"


lemma sample_execution:
  obtains pid bp where "table_state (sample_state (sample_db pid bp)) ''accounts'' (sample_db pid bp) (sample_info pid) [pid]" "pins bp = (\<lambda>q. 0)"
    "\<exists>q. logical_ok q \<and> \<not> allocated bp q" "1 < length (free_list bp)"
    "rows_of (sample_db pid bp) (sample_info pid) [pid] = [\<lparr>row_id = \<lparr>rid_page = pid, rid_slot = 0\<rparr>, row_fields = row_fields sample_row\<rparr>]"
proof -
  let ?b = "row_bytes (row_fields sample_row)"
  obtain pid bp where s: "heap_inv bp pid [pid]" "slots (view bp pid) = [Some (False, ?b)]" "pins bp = (\<lambda>q. 0)" "pool_size bp = 20" "allocated bp = (\<lambda>q. q = pid)"
    using sample_heap_row[OF sample_row_fits] sample_row_ok(2) by auto
  have "heap_typed sample_schema (view bp) [pid]" using s(2) sample_row_ok(1) by (auto simp: heap_typed_def)
  moreover have "spare bp" using s(3,4) by (simp add: spare_def)
  ultimately have t: "table_state (sample_state (sample_db pid bp)) ''accounts'' (sample_db pid bp) (sample_info pid) [pid]"
    using s(1) by (simp add: table_state_def sample_state_def sample_db_def sample_info_def open_db_def GetTable_def GetTableIndexes_def table_schema_def)
  have "stored_row sample_schema (view bp) \<lparr>row_id = \<lparr>rid_page = pid, rid_slot = 0\<rparr>, row_fields = row_fields sample_row\<rparr>"
    using s(2) sample_row_ok(1) by (simp add: stored_row_def Let_def del: length_slots nth_slots)
  from stored_row_fields[OF this] have f: "stored_fields sample_schema (view bp) \<lparr>rid_page = pid, rid_slot = 0\<rparr> = row_fields sample_row" by simp
  have l: "live_slots (slots (view bp pid)) = [0]" by (simp add: s(2) live_slots_def)
  have "rows_of (sample_db pid bp) (sample_info pid) [pid] = [\<lparr>row_id = \<lparr>rid_page = pid, rid_slot = 0\<rparr>, row_fields = row_fields sample_row\<rparr>]"
    using l f by (simp add: rows_of_def table_rows_def visited_rids_def live_rids_def sample_db_def sample_info_def table_schema_def)
  moreover have "1 < length (free_list bp)" using free_frames[of bp] s(1,4,5) by (simp add: heap_inv_def)
  moreover have "\<exists>q. q \<noteq> pid \<and> logical_ok q"
    by (rule exI[of _ "if pid = 0 then 1 else 0"]) (simp add: logical_ok_def MAX_EXTENTS_def BITMAP_SIZE_eq)
  then have "\<exists>q. logical_ok q \<and> \<not> allocated bp q" using s(5) by auto
  ultimately show ?thesis using that t s(3) by blast
qed




theorem insert_statement_witness:
  "\<exists>pid bp rid e' db' pids'. Execute [Tree kNodeInsert None [name_node, Tree kNodeColumnValues None [Tree kNodeNumber (Some ''8'') [], Tree kNodeString (Some ''ab'') []]]]
      ExecuteContext_new (sample_state (sample_db pid bp)) = Some (DB_SUCCESS, ExecuteContext_new\<lparr>ctx_table_name := ''accounts'', rows_num := 1\<rparr>, e') \<and> open_db e' = Some db' \<and>
    row_map (sample_info pid) db' pids' rid = Some [Field_int 8, \<lparr>value_of = VChars [97, 98], ftype = kTypeChar, flen = 2, is_null = False\<rparr>]"
proof -
  obtain pid bp where s: "table_state (sample_state (sample_db pid bp)) ''accounts'' (sample_db pid bp) (sample_info pid) [pid]" "pins bp = (\<lambda>q. 0)"
    "\<exists>q. logical_ok q \<and> \<not> allocated bp q" "1 < length (free_list bp)" by (rule sample_execution)
  let ?e = "sample_state (sample_db pid bp)" and ?vs = "[Tree kNodeNumber (Some ''8'') [], Tree kNodeString (Some ''ab'') []]" and ?s = "table_schema (sample_info pid)"
  let ?fs = "[Field_int 8, \<lparr>value_of = VChars [97, 98], ftype = kTypeChar, flen = 2, is_null = False\<rparr>]"
  have A: "current_db ?e \<noteq> []" "node_text name_node = Some ''accounts''" "GetTableIndexes ''accounts'' (catalog_mgr (sample_db pid bp)) = Some (DB_INDEX_NOT_FOUND, [])"
    "pins (bpm (sample_db pid bp)) = (\<lambda>q. 0)" "\<exists>q. logical_ok q \<and> \<not> allocated (bpm (sample_db pid bp)) q" "length [pid] < length (free_list (bpm (sample_db pid bp)))"
    using s(2-4) by (simp_all add: sample_state_def name_node_def c_string_def sample_db_def GetTableIndexes_def)
  have at: "atoi ''8'' = Some 8" by (simp add: atoi_def read_integer_def read_sign_def white_space_def digit_of_def int32_range_def Let_def)
  have r: "\<forall>t \<in> set ?vs. value_readable t" by (simp add: value_readable_def c_string_def at VARCHAR_MAX_LEN_def PAGE_SIZE_def)
  have fs: "?fs = map2 value_field ?s ?vs"
    by (simp add: value_field_def c_string_def at sample_info_def table_schema_def sample_schema_def bytes_of_def Let_def)
  have fit: "list_all2 value_fits ?s ?vs" by (simp add: value_fits_def c_string_def sample_info_def table_schema_def sample_schema_def numeric_def)
  have f: "list_all2 value_fits ?s ?vs \<Longrightarrow> ?fs \<noteq> [] \<and> (\<forall>f \<in> set ?fs. \<not> is_null f) \<and> length (row_bytes ?fs) \<le> SIZE_MAX_ROW"
    by (simp add: Field_int_def row_bytes_def field_bytes_def SIZE_MAX_ROW_def PAGE_SIZE_def SIZE_TABLE_PAGE_HEADER_def SIZE_TUPLE_def)
  obtain rid e' db' pids' where x: "Execute [Tree kNodeInsert None [name_node, Tree kNodeColumnValues None ?vs]] ExecuteContext_new ?e =
      Some (DB_SUCCESS, ExecuteContext_new\<lparr>ctx_table_name := ''accounts'', rows_num := 1\<rparr>, e')" "table_state e' ''accounts'' db' (sample_info pid) pids'"
    "row_map (sample_info pid) db' pids' = (row_map (sample_info pid) (sample_db pid bp) [pid])(rid \<mapsto> ?fs)"
    using insert_statement[OF s(1) A r fs f, of None kNodeColumnValues None, unfolded if_P[OF fit]] by blast
  have "row_map (sample_info pid) db' pids' rid = Some ?fs" unfolding x(3) by simp
  then show ?thesis using x(1,2) unfolding table_state_def by blast
qed

end
