(* ===== verification/BPlus_Search.thy ===== *)
theory BPlus_Search
  imports BPlus_Tree
begin

text \<open>Searching the B+ tree.  A tree of page ids describes the pages of the index; \<open>tree_ok\<close> states that the pages are the nodes of a
  search tree, and \<open>kvs\<close> lists the entries of its leaves.\<close>

section \<open>Search trees in pages\<close>

datatype bt = Lf page_id_t | Nd page_id_t "bt list"

fun page_of :: "bt \<Rightarrow> page_id_t" where
  "page_of (Lf p) = p"
| "page_of (Nd p ts) = p"

fun pages_of :: "bt \<Rightarrow> page_id_t set" where
  "pages_of (Lf p) = {p}"
| "pages_of (Nd p ts) = insert p (\<Union> (pages_of ` set ts))"

fun kvs :: "nat \<Rightarrow> (page_id_t \<Rightarrow> byte list) \<Rightarrow> bt \<Rightarrow> (key \<times> RowId) list" where
  "kvs K c (Lf p) = contents (LeafPage_of K (c p))"
| "kvs K c (Nd p ts) = concat (map (kvs K c) ts)"

abbreviation key_sorted :: "nat \<Rightarrow> (key \<times> 'v) list \<Rightarrow> bool" where
  "key_sorted K \<equiv> sorted_entries (\<lambda>k. length k = K) GenericComparator"

definition leaf_node :: "nat \<Rightarrow> page_id_t \<Rightarrow> byte list \<Rightarrow> bool" where
  "leaf_node K p d \<longleftrightarrow> IsLeafPage (LeafPage_of K d) \<and> self_page_id (LeafPage_of K d) = p \<and> leaf_shape (LeafPage_of K d) \<and>
     key_sorted K (contents (LeafPage_of K d))"

definition internal_node :: "nat \<Rightarrow> page_id_t \<Rightarrow> page_id_t list \<Rightarrow> byte list \<Rightarrow> bool" where
  "internal_node K p ps d \<longleftrightarrow> \<not> IsLeafPage (InternalPage_of K d) \<and> self_page_id (InternalPage_of K d) = p \<and> internal_shape (InternalPage_of K d) \<and>
     2 \<le> length ps \<and> map snd (entries (InternalPage_of K d)) = ps \<and> key_sorted K (tl (entries (InternalPage_of K d)))"

text \<open>The separator at place \<open>i\<close> bounds the keys of the subtrees on both sides.\<close>

definition separated :: "('k \<Rightarrow> 'k \<Rightarrow> int) \<Rightarrow> 'k list \<Rightarrow> ('k \<times> 'v) list list \<Rightarrow> bool" where
  "separated cmp ks ess \<longleftrightarrow> (\<forall>i < length ess. \<forall>e \<in> set (ess ! i).
     (0 < i \<longrightarrow> 0 \<le> cmp (fst e) (ks ! i)) \<and> (Suc i < length ess \<longrightarrow> cmp (fst e) (ks ! Suc i) < 0))"

fun tree_ok :: "nat \<Rightarrow> (page_id_t \<Rightarrow> byte list) \<Rightarrow> bt \<Rightarrow> bool" where
  "tree_ok K c (Lf p) \<longleftrightarrow> leaf_node K p (c p)"
| "tree_ok K c (Nd p ts) \<longleftrightarrow> internal_node K p (map page_of ts) (c p) \<and> (\<forall>t \<in> set ts. tree_ok K c t) \<and>
     separated GenericComparator (map fst (entries (InternalPage_of K (c p)))) (map (kvs K c) ts)"

lemma tree_ok_cong: "(\<And>p. p \<in> pages_of t \<Longrightarrow> c p = d p) \<Longrightarrow> tree_ok K c t = tree_ok K d t \<and> kvs K c t = kvs K d t"
proof (induction t)
  case (Nd p ts)
  have "tree_ok K c t = tree_ok K d t \<and> kvs K c t = kvs K d t" if "t \<in> set ts" for t
    using Nd.IH[OF that] Nd.prems that by auto
  then show ?case using Nd.prems[of p] by (auto cong: map_cong)
qed simp

lemma kvs_valid: "tree_ok K c t \<Longrightarrow> e \<in> set (kvs K c t) \<Longrightarrow> length (fst e) = K"
  by (induction t) (auto simp: leaf_node_def sorted_entries_def list_all_iff)

section \<open>The key that a search follows\<close>

lemma map_of_concat_one:
  assumes "i < length ess" "\<And>j. j < length ess \<Longrightarrow> j \<noteq> i \<Longrightarrow> k \<notin> fst ` set (ess ! j)"
  shows "map_of (concat ess) k = map_of (ess ! i) k"
  using assms
proof (induction ess arbitrary: i)
  case (Cons es ess)
  show ?case
  proof (cases i)
    case 0
    have "k \<notin> fst ` set (concat ess)"
    proof
      assume "k \<in> fst ` set (concat ess)"
      then obtain xs e where e: "xs \<in> set ess" "e \<in> set xs" "fst e = k" by auto
      then obtain j where "j < length ess" "ess ! j = xs" by (meson in_set_conv_nth)
      then show False using Cons.prems(2)[of "Suc j"] 0 e by auto
    qed
    then have "map_of (concat ess) k = None" by (simp add: map_of_eq_None_iff)
    then show ?thesis using 0 by (simp add: map_add_def split: option.splits)
  next
    case (Suc j)
    have "map_of es k = None" using Cons.prems(2)[of 0] Suc by (simp add: map_of_eq_None_iff)
    moreover have "map_of (concat ess) k = map_of (ess ! j) k"
      by (rule Cons.IH) (use Cons.prems(1) Cons.prems(2)[of "Suc _"] Suc in auto)
    ultimately show ?thesis using Suc by (simp add: map_add_def)
  qed
qed simp

context key_order
begin

lemma ordered_tl_less:
  assumes "ordered (tl es)" "0 < i" "i < j" "j < length es"
  shows "cmp (fst (es ! i)) (fst (es ! j)) < 0"
  using ordered_nth_less[OF assms(1), of "i - 1" "j - 1"] assms(2-4) by (simp add: nth_tl)

lemma ordered_tl_valid:
  assumes "ordered (tl es)" "0 < i" "i < length es"
  shows "valid (fst (es ! i))"
  using ordered_valid[OF assms(1), of "i - 1"] assms(2,3) by (simp add: nth_tl)

text \<open>Only the child that \<open>Lookup\<close> chooses can hold the key.\<close>

lemma separated_child:
  assumes sep: "separated cmp (map fst es) ess" and len: "length ess = length es" and o: "ordered (tl es)" and k: "valid key" and ne: "es \<noteq> []"
    and v: "\<And>xs e. xs \<in> set ess \<Longrightarrow> e \<in> set xs \<Longrightarrow> valid (fst e)"
  shows "map_of (concat ess) key = map_of (ess ! child_index cmp key es) key"
proof (rule map_of_concat_one)
  let ?c = "child_index cmp key es"
  have c: "?c < length es" by (rule child_index_less[OF ne])
  show "?c < length ess" using c len by simp
  fix j assume j: "j < length ess" "j \<noteq> ?c"
  show "key \<notin> fst ` set (ess ! j)"
  proof
    assume "key \<in> fst ` set (ess ! j)"
    then obtain e where e: "e \<in> set (ess ! j)" "fst e = key" by auto
    have s: "0 < j \<Longrightarrow> 0 \<le> cmp key (fst (es ! j))" "Suc j < length ess \<Longrightarrow> cmp key (fst (es ! Suc j)) < 0"
      using sep e j(1) len by (auto simp: separated_def)
    show False
    proof (cases "j < ?c")
      case True
      then have "cmp key (fst (es ! Suc j)) < 0" using s(2) c len by simp
      moreover have "0 \<le> cmp key (fst (es ! Suc j))" using child_index_iff[OF o k, of "Suc j"] True c by simp
      ultimately show False by simp
    next
      case False
      then have "0 < j" "\<not> j \<le> ?c" using j(2) by simp_all
      then show False using s(1) child_index_iff[OF o k, of j] j(1) len by simp
    qed
  qed
qed

end

section \<open>Idle pages\<close>

text \<open>Unpinning a page that is not pinned changes nothing.\<close>

lemma unpin_idle:
  assumes inv: "pool_inv bp" and pt: "page_table bp pid = Some f" and pin: "pins bp pid = 0"
  shows "UnpinPage bp pid False = Some (True, bp)"
proof -
  have wf: "pool_wf bp" using inv by (simp add: pool_inv_def)
  note F = pool_wfD(7)[OF wf pt]
  have z: "pin_count (pages bp ! nat f) = 0" using pin pt in_pool_page[OF wf, of f] F by (auto simp: pins_def)
  then have "f \<in> set (frames (replacer bp))" using pool_wfD(9)[OF wf] pt by (auto intro: ranI)
  then have "Unpin (replacer bp) f = replacer bp" using frames_map_it[OF pool_wfD(3)[OF wf], of f] by (auto simp: Unpin_def)
  moreover have "set_page bp f (pages bp ! nat f) = bp" by (simp add: set_page_def)
  ultimately show ?thesis using pt F z by (simp add: UnpinPage_def Let_def)
qed

section \<open>Finding the leaf\<close>

lemma IsLeafPage_header: "IsLeafPage (BPlusTreePage_of d) = IsLeafPage (LeafPage_of K d)" "IsLeafPage (BPlusTreePage_of d) = IsLeafPage (InternalPage_of K d)"
  by (simp_all add: IsLeafPage_def LeafPage_of_def InternalPage_of_def BPlusTreePage.defs)

lemma self_page_id_header: "self_page_id (BPlusTreePage_of d) = self_page_id (LeafPage_of K d)" "self_page_id (BPlusTreePage_of d) = self_page_id (InternalPage_of K d)"
  by (simp_all add: LeafPage_of_def InternalPage_of_def BPlusTreePage.defs)

text \<open>The leaf for a key.\<close>

fun leaf_for :: "nat \<Rightarrow> (page_id_t \<Rightarrow> byte list) \<Rightarrow> key \<Rightarrow> bt \<Rightarrow> page_id_t" where
  "leaf_for K c key (Lf p) = p"
| "leaf_for K c key (Nd p ts) = map (leaf_for K c key) ts ! child_index GenericComparator key (entries (InternalPage_of K (c p)))"

lemma internal_node_lookup:
  assumes "internal_node K p ps d" "length key = K"
  shows "InternalPage_Lookup GenericComparator key (InternalPage_of K d) = Some (ps ! child_index GenericComparator key (entries (InternalPage_of K d)))"
    "child_index GenericComparator key (entries (InternalPage_of K d)) < length ps"
proof -
  let ?p = "InternalPage_of K d"
  have n: "internal_shape ?p" "2 \<le> length ps" "map snd (entries ?p) = ps" "key_sorted K (tl (entries ?p))" using assms(1) by (simp_all add: internal_node_def)
  have l: "length (entries ?p) = length ps" "entries ?p \<noteq> []" using n(2,3) by auto
  show c: "child_index GenericComparator key (entries ?p) < length ps" using child_index_less[OF l(2), of GenericComparator key] l(1) by simp
  have s: "2 \<le> size_of ?p" using n(1,2) l(1) by (auto simp: internal_shape_def entries_def)
  show "InternalPage_Lookup GenericComparator key ?p = Some (ps ! child_index GenericComparator key (entries ?p))"
    using generic.InternalPage_Lookup_eq[OF n(1) s n(4) assms(2)] n(3) c l(1) by (metis nth_map)
qed

lemma leaf_for_ok:
  assumes "tree_ok K c t" "length key = K"
  shows "leaf_for K c key t \<in> pages_of t \<and> leaf_node K (leaf_for K c key t) (c (leaf_for K c key t)) \<and>
    map_of (kvs K c t) key = map_of (contents (LeafPage_of K (c (leaf_for K c key t)))) key"
  using assms(1)
proof (induction t)
  case (Nd p ts)
  let ?es = "entries (InternalPage_of K (c p))"
  let ?i = "child_index GenericComparator key ?es"
  have n: "internal_node K p (map page_of ts) (c p)" "separated GenericComparator (map fst ?es) (map (kvs K c) ts)" "\<forall>t \<in> set ts. tree_ok K c t"
    using Nd.prems by simp_all
  have i: "?i < length ts" using internal_node_lookup(2)[OF n(1) assms(2)] by simp
  have "length (map (kvs K c) ts) = length ?es" using n(1) by (metis internal_node_def length_map)
  then have "map_of (kvs K c (Nd p ts)) key = map_of (kvs K c (ts ! ?i)) key"
    using generic.separated_child[OF n(2), of K key] n(1,3) assms(2) i kvs_valid by (fastforce simp: internal_node_def)
  then show ?case using Nd.IH[of "ts ! ?i"] n(3) i by auto
qed simp

definition tree_in :: "nat \<Rightarrow> buffer_pool \<Rightarrow> bt \<Rightarrow> bool" where
  "tree_in K bp tr \<longleftrightarrow> tree_ok K (view bp) tr \<and> (\<forall>p \<in> pages_of tr. allocated bp p \<and> pins bp p = 0)"

lemma idle_untouched: "pool_inv bp \<Longrightarrow> pins bp p = 0 \<Longrightarrow> p \<notin> touched bp"
  using touched_pinned[of bp p] by (auto simp: pool_inv_def)

lemma find_leaf_loop_ok:
  assumes "pool_inv bp0" "spare bp0" "length key = K"
  shows "tree_in K bp0 t \<Longrightarrow> holding bp0 bp (page_of t) f \<Longrightarrow>
    \<exists>f' bp'. find_leaf_loop K key False (page_of t) f bp = Some (f', bp') \<and> kept bp0 bp' (view bp0) \<and>
      page_table bp' (leaf_for K (view bp0) key t) = Some f'"
proof (induction t arbitrary: bp f)
  case (Lf p)
  have a: "allocated bp0 p" "p \<notin> touched bp0" "leaf_node K p (view bp0 p)" using Lf.prems(1) idle_untouched[OF assms(1)] by (simp_all add: tree_in_def)
  have h: "holding bp0 bp p f" using Lf.prems(2) by simp
  have l: "load_page bp f = Some (view bp0 p)" using holding_load[OF h a(1)] by simp
  obtain bp' where u: "UnpinPage bp p False = Some (True, bp')" "kept bp0 bp' (view bp0)" "page_table bp' p = Some f"
    by (rule unpin_holding[OF h a(1,2)])
  then show ?case using l a(3)
    by (subst find_leaf_loop.simps) (simp add: load_header_def unpin_def leaf_node_def IsLeafPage_header(1)[of _ K])
next
  case (Nd p ts)
  let ?p = "InternalPage_of K (view bp0 p)"
  let ?i = "child_index GenericComparator key (entries ?p)"
  have a: "allocated bp0 p" "p \<notin> touched bp0" "internal_node K p (map page_of ts) (view bp0 p)"
    using Nd.prems(1) idle_untouched[OF assms(1)] by (simp_all add: tree_in_def)
  have i: "?i < length ts" "InternalPage_Lookup GenericComparator key ?p = Some (page_of (ts ! ?i))"
    using internal_node_lookup[OF a(3) assms(3)] by simp_all
  have sub: "tree_in K bp0 (ts ! ?i)" using Nd.prems(1) i(1) by (auto simp: tree_in_def)
  have c: "allocated bp0 (page_of (ts ! ?i))" using sub by (cases "ts ! ?i") (auto simp: tree_in_def)
  have h: "holding bp0 bp p f" using Nd.prems(2) by simp
  have l: "load_page bp f = Some (view bp0 p)" using holding_load[OF h a(1)] by simp
  obtain bp1 where u: "UnpinPage bp p False = Some (True, bp1)" "kept bp0 bp1 (view bp0)" by (rule unpin_holding[OF h a(1,2)])
  obtain f2 bp2 where g: "FetchPage bp1 (page_of (ts ! ?i)) = Some (f2, bp2)" "holding bp0 bp2 (page_of (ts ! ?i)) f2"
    by (rule fetch_holding[OF u(2) assms(2) c])
  have "find_leaf_loop K key False p f bp = find_leaf_loop K key False (page_of (ts ! ?i)) f2 bp2"
    using l u(1) g(1) i(2) a(3)
    by (subst find_leaf_loop.simps) (simp add: load_header_def load_internal_def unpin_def internal_node_def IsLeafPage_header(2)[of _ K])
  then show ?case using Nd.IH[OF _ sub g(2)] i(1) by simp
qed

lemma page_of_pages: "page_of t \<in> pages_of t"
  by (cases t) simp_all

lemma FindLeafPage_ok:
  assumes "pool_inv bp" "spare bp" "tree_in K bp tr" "root_page_id t = page_of tr" "length key = K"
  shows "\<exists>f bp'. FindLeafPage K t key False bp = Some (Some f, bp') \<and> kept bp bp' (view bp) \<and>
    page_table bp' (leaf_for K (view bp) key tr) = Some f"
proof -
  have a: "allocated bp (page_of tr)" using assms(3) page_of_pages[of tr] by (simp add: tree_in_def)
  obtain f bp1 where h: "FetchPage bp (page_of tr) = Some (f, bp1)" "holding bp bp1 (page_of tr) f"
    by (rule fetch_holding[OF kept_refl[OF assms(1)] assms(2) a])
  have "\<not> IsEmpty t" using allocated_not_INVALID[OF a] assms(4) by (simp add: IsEmpty_def)
  then show ?thesis using find_leaf_loop_ok[OF assms(1,2,5,3) h(2)] h(1) assms(4) by (auto simp: FindLeafPage_def)
qed

section \<open>Looking keys up\<close>

text \<open>C11: Looking a key up in a B+ tree.  When the pages of the index are the nodes of a search tree, are not pinned, and
  the pool has room for one more page, \<open>GetValue\<close> ends, appends the value of the key to the result and returns true exactly if a leaf of the tree holds the
  key, and changes neither a page nor a pin count.  On the empty tree it returns false.\<close>

theorem btree_get_value:
  assumes "pool_inv bp" "spare bp" "length key = K"
    and "root_page_id t = (case tro of None \<Rightarrow> INVALID_PAGE_ID | Some tr \<Rightarrow> page_of tr)" and "case tro of None \<Rightarrow> True | Some tr \<Rightarrow> tree_in K bp tr"
  shows "\<exists>bp'. GetValue K t key result bp = Some (case (case tro of None \<Rightarrow> None | Some tr \<Rightarrow> map_of (kvs K (view bp) tr) key) of
      None \<Rightarrow> (False, result, bp') | Some rid \<Rightarrow> (True, result @ [rid], bp')) \<and> kept bp bp' (view bp)"
proof (cases tro)
  case None
  then have "IsEmpty t" using assms(4) by (simp add: IsEmpty_def)
  then show ?thesis using None kept_refl[OF assms(1)] by (simp add: GetValue_def FindLeafPage_def)
next
  case (Some tr)
  let ?p = "leaf_for K (view bp) key tr"
  have tr: "tree_in K bp tr" "root_page_id t = page_of tr" using assms(4,5) Some by simp_all
  obtain f bp' where f: "FindLeafPage K t key False bp = Some (Some f, bp')" "kept bp bp' (view bp)" "page_table bp' ?p = Some f"
    using FindLeafPage_ok[OF assms(1,2) tr assms(3)] by blast
  have l: "?p \<in> pages_of tr" "leaf_node K ?p (view bp ?p)" "map_of (kvs K (view bp) tr) key = map_of (contents (LeafPage_of K (view bp ?p))) key"
    using leaf_for_ok[of K "view bp" tr key] tr(1) assms(3) by (auto simp: tree_in_def)
  have a: "allocated bp ?p" "pins bp ?p = 0" using tr(1) l(1) by (auto simp: tree_in_def)
  have k: "pool_inv bp'" "pins bp' ?p = 0" "view bp' ?p = view bp ?p" using f(2) a by (simp_all add: kept_def)
  have ld: "load_page bp' f = Some (view bp ?p)" using pool_load_law[OF k(1) f(3)] k(3) by simp
  have ln: "leaf_shape (LeafPage_of K (view bp ?p))" "key_sorted K (contents (LeafPage_of K (view bp ?p)))" using l(2) by (simp_all add: leaf_node_def)
  have lk: "LeafPage_Lookup GenericComparator key (LeafPage_of K (view bp ?p)) = Some (map_of (kvs K (view bp) tr) key)"
    using generic.LeafPage_Lookup_eq[OF ln assms(3)] l(3) by simp
  have "unpin_self bp' f False = Some bp'"
    using unpin_idle[OF k(1) f(3) k(2)] ld l(2) by (simp add: unpin_self_def unpin_def load_header_def leaf_node_def self_page_id_header(1)[of _ K])
  then have "GetValue K t key result bp = Some (case map_of (kvs K (view bp) tr) key of None \<Rightarrow> (False, result, bp') | Some rid \<Rightarrow> (True, result @ [rid], bp'))"
    using f(1) ld lk by (simp add: GetValue_def load_leaf_def)
  then show ?thesis using f(2) Some by auto
qed

text \<open>A pool with one page of any content.\<close>

lemma sample_pool_page:
  assumes "\<And>pid. length (d pid) = PAGE_SIZE"
  shows "\<exists>pid bp. pool_inv bp \<and> view bp pid = d pid \<and> allocated bp = (\<lambda>q. q = pid) \<and> pins bp = (\<lambda>q. 0) \<and> pool_size bp = 20"
proof -
  let ?bp = "BufferPoolManager_new 20 empty_disk"
  have a: "allocated ?bp = (\<lambda>q. False)" using disk_used_empty by (intro ext) (simp add: allocated_def BufferPoolManager_new_def)
  have "logical_ok 0" by (simp add: logical_ok_def MAX_EXTENTS_def BITMAP_SIZE_eq)
  then have r: "\<exists>q. logical_ok q \<and> \<not> allocated ?bp q" using a by auto
  have ne: "free_list ?bp \<noteq> []" by (simp add: BufferPoolManager_new_def)
  have p0: "pins ?bp = (\<lambda>q. 0)" by (intro ext) (simp add: pins_def BufferPoolManager_new_def)
  obtain pid f bp1 where n: "pool_inv bp1" "allocated bp1 = (\<lambda>q. q = pid \<or> allocated ?bp q)" "pins bp1 = (pins ?bp)(pid := 1)"
    "page_table bp1 = (page_table ?bp)(pid \<mapsto> f)" "pool_size bp1 = pool_size ?bp"
    using pool_new_page[OF fresh_pool_inv disk_room[OF r] ne] by (elim exE conjE) (rule that; assumption)
  have pf: "0 < pins bp1 pid" "page_table bp1 pid = Some f" using n(3,4) by simp_all
  obtain bp2 where s: "pool_inv bp2" "allocated bp2 = allocated bp1" "\<forall>q. allocated bp1 q \<longrightarrow> view bp2 q = (if q = pid then d pid else view bp1 q)"
    "pins bp2 = pins bp1" "pool_size bp2 = pool_size bp1" using pool_store_law[OF n(1) pf assms[of pid]] by (elim exE conjE) (rule that; assumption)
  obtain bp3 where u: "pool_inv bp3" "allocated bp3 = allocated bp2" "\<forall>q. allocated bp2 q \<longrightarrow> view bp3 q = view bp2 q"
    "pins bp3 = (pins bp2)(pid := pins bp2 pid - 1)" "pool_size bp3 = pool_size bp2"
    using pool_unpin_law[OF s(1), of pid True] s(4) pf(1) by auto
  have "view bp3 pid = d pid" "allocated bp3 = (\<lambda>q. q = pid)" using u(2,3) s(2,3) n(2) a by simp_all
  moreover have "pins bp3 = (\<lambda>q. 0)" using u(4) s(4) n(3) p0 by (auto simp: fun_eq_iff)
  moreover have "pool_size bp3 = 20" using u(5) s(5) n(5) by (simp add: BufferPoolManager_new_def)
  ultimately show ?thesis using u(1) by blast
qed

definition sample_leaf :: "page_id_t \<Rightarrow> (key, RowId) LeafPage" where
  "sample_leaf pid = \<lparr>page_type = LEAF_PAGE, lsn = INVALID_LSN, size_of = 1, max_size_of = 3, parent_page_id = INVALID_PAGE_ID, self_page_id = pid,
     next_page_id = 0, array = replicate (leaf_places 4) ([1, 2, 3, 4], \<lparr>rid_page = 9, rid_slot = 5\<rparr>)\<rparr>"

lemma sample_tree:
  "\<exists>pid bp. pool_inv bp \<and> spare bp \<and> tree_in 4 bp (Lf pid) \<and> kvs 4 (view bp) (Lf pid) = [([1, 2, 3, 4], \<lparr>rid_page = 9, rid_slot = 5\<rparr>)]"
proof -
  let ?d = "\<lambda>pid. if int32_range pid then leaf_bytes 4 (sample_leaf pid) (replicate PAGE_SIZE 0) else replicate PAGE_SIZE 0"
  have pl: "0 < leaf_places 4" by (simp add: leaf_places_def PAGE_SIZE_def LEAF_PAGE_HEADER_SIZE_def)
  have ok: "leaf_ok 4 (sample_leaf pid)" if "int32_range pid" for pid
    using that by (simp add: leaf_ok_def sample_leaf_def header_ok_def list_all_iff int32_range_def LEAF_PAGE_def INVALID_LSN_def INVALID_PAGE_ID_def)
  have len: "length (?d pid) = PAGE_SIZE" for pid using leaf_bytes_props(2)[OF ok] by simp
  obtain pid bp where s: "pool_inv bp" "view bp pid = ?d pid" "allocated bp = (\<lambda>q. q = pid)" "pins bp = (\<lambda>q. 0)" "pool_size bp = 20"
    using sample_pool_page[of ?d, OF len] by (elim exE conjE) (rule that; assumption)
  have "int32_range pid" using allocated_int32[of bp pid] s(3) by simp
  then have v: "LeafPage_of 4 (view bp pid) = sample_leaf pid" using leaf_bytes_props(1)[OF ok] s(2) by simp
  have c: "contents (sample_leaf pid) = [([1, 2, 3, 4], \<lparr>rid_page = 9, rid_slot = 5\<rparr>)]" using pl
    by (cases "leaf_places 4") (simp_all add: contents_def sample_leaf_def)
  have "leaf_node 4 pid (view bp pid)" using c pl unfolding leaf_node_def v
    by (simp add: sorted_entries_def) (simp add: sample_leaf_def IsLeafPage_def leaf_shape_def)
  then have "tree_in 4 bp (Lf pid)" using s(3,4) by (simp add: tree_in_def)
  moreover have "spare bp" using s(4,5) by (simp add: spare_def)
  ultimately show ?thesis using s(1) v c by (intro exI[of _ pid] exI[of _ bp]) simp
qed

theorem btree_get_value_witness:
  "\<exists>t bp bp'. GetValue 4 t [1, 2, 3, 4] [] bp = Some (True, [\<lparr>rid_page = 9, rid_slot = 5\<rparr>], bp')"
proof -
  obtain pid bp where s: "pool_inv bp" "spare bp" "tree_in 4 bp (Lf pid)" "kvs 4 (view bp) (Lf pid) = [([1, 2, 3, 4], \<lparr>rid_page = 9, rid_slot = 5\<rparr>)]"
    using sample_tree by blast
  show ?thesis
    using btree_get_value[OF s(1,2), of "[1, 2, 3, 4]" 4 "SetRootId pid (BPlusTree_new 1 3 3)" "Some (Lf pid)" "[]"] s(3,4)
    by (auto simp: SetRootId_def)
qed

end
