(* ===== verification/Tables.thy ===== *)
theory Tables
  imports MiniSQL_Prelude
begin

text \<open>Constant arrays of the generated front end.  \<open>tab\<close> is the bounds-checked access to an array; an
  index outside of it is undefined behaviour and has the result \<^const>\<open>None\<close>.  To check a table entry by
  entry with the simplifier, an array is first turned into a binary trie over the index, on which
  an access takes a number of steps logarithmic in the index.\<close>

definition tab :: "'a list \<Rightarrow> int \<Rightarrow> 'a option" where
  "tab xs i = (if 0 \<le> i \<and> nat i < length xs then Some (xs ! nat i) else None)"

lemma tab_Some_iff: "tab xs i = Some x \<longleftrightarrow> 0 \<le> i \<and> nat i < length xs \<and> xs ! nat i = x"
  by (auto simp: tab_def)

text \<open>The entries of a literal array as rewrite rules.\<close>

fun entries :: "'a list \<Rightarrow> int \<Rightarrow> 'a list \<Rightarrow> bool" where
  "entries xs i [] = True"
| "entries xs i (y # ys) = (tab xs i = Some y \<and> entries xs (i + 1) ys)"

lemma entries_append: "entries (xs @ ys) (int (length xs)) ys"
proof (induction ys arbitrary: xs)
  case (Cons y ys)
  have "entries (xs @ y # ys) (int (length xs) + 1) ys" using Cons[of "xs @ [y]"] by (simp add: add.commute)
  then show ?case by (simp add: tab_def nth_append)
qed simp

lemma tab_entries: "xs = ys \<Longrightarrow> entries xs 0 ys"
  using entries_append[of "[]" ys] by simp

lemma tab_list_all: "list_all P xs \<Longrightarrow> tab xs i = Some x \<Longrightarrow> P x"
  by (auto simp: tab_def list_all_length split: if_splits)

lemma tab_in_range: "0 \<le> i \<Longrightarrow> i < int (length xs) \<Longrightarrow> \<exists>x. tab xs i = Some x"
  by (auto simp: tab_def)

datatype 'a trie = Tip | Branch "'a option" "'a trie" "'a trie"

fun trie_get :: "'a trie \<Rightarrow> num \<Rightarrow> 'a option" where
  "trie_get Tip n = None"
| "trie_get (Branch v l r) num.One = v"
| "trie_get (Branch v l r) (num.Bit0 n) = trie_get l n"
| "trie_get (Branch v l r) (num.Bit1 n) = trie_get r n"

fun trie_put :: "num \<Rightarrow> 'a \<Rightarrow> 'a trie \<Rightarrow> 'a trie" where
  "trie_put num.One x Tip = Branch (Some x) Tip Tip"
| "trie_put num.One x (Branch v l r) = Branch (Some x) l r"
| "trie_put (num.Bit0 n) x Tip = Branch None (trie_put n x Tip) Tip"
| "trie_put (num.Bit0 n) x (Branch v l r) = Branch v (trie_put n x l) r"
| "trie_put (num.Bit1 n) x Tip = Branch None Tip (trie_put n x Tip)"
| "trie_put (num.Bit1 n) x (Branch v l r) = Branch v l (trie_put n x r)"

fun trie_from :: "num \<Rightarrow> 'a list \<Rightarrow> 'a trie" where
  "trie_from n [] = Tip"
| "trie_from n (x # xs) = trie_put n x (trie_from (Num.inc n) xs)"

definition trie_of :: "'a list \<Rightarrow> 'a trie" where
  "trie_of xs = trie_from num.One xs"

definition trie_tab :: "'a trie \<Rightarrow> int \<Rightarrow> 'a option" where
  "trie_tab t i = (if i < 0 then None else trie_get t (num_of_nat (nat i + 1)))"

lemma trie_get_put: "trie_get (trie_put n x t) m = (if m = n then Some x else trie_get t m)"
proof (induction n x t arbitrary: m rule: trie_put.induct)
  case (1 x) then show ?case by (cases m) auto
next
  case (2 x v l r) then show ?case by (cases m) auto
next
  case (3 n x) then show ?case by (cases m) auto
next
  case (4 n x v l r) then show ?case by (cases m) auto
next
  case (5 n x) then show ?case by (cases m) auto
next
  case (6 n x v l r) then show ?case by (cases m) auto
qed

lemma trie_get_from:
  "trie_get (trie_from n xs) m =
     (if nat_of_num n \<le> nat_of_num m \<and> nat_of_num m < nat_of_num n + length xs
      then Some (xs ! (nat_of_num m - nat_of_num n)) else None)"
proof (induction xs arbitrary: n)
  case (Cons x xs)
  show ?case
  proof (cases "m = n")
    case False
    then have "nat_of_num m \<noteq> nat_of_num n" by (simp add: num_eq_iff)
    moreover have "xs ! (nat_of_num m - Suc (nat_of_num n)) = (x # xs) ! (nat_of_num m - nat_of_num n)"
      if "Suc (nat_of_num n) \<le> nat_of_num m"
      using that by (simp add: nth_Cons' diff_Suc split: nat.splits)
    ultimately show ?thesis using Cons[of "Num.inc n"] False by (simp add: trie_get_put nat_of_num_inc)
  qed (simp add: trie_get_put)
qed simp

lemma trie_tab_of [simp]: "trie_tab (trie_of xs) i = tab xs i"
proof -
  have "nat_of_num (num_of_nat (nat i + 1)) = nat i + 1" by (rule num_of_nat_inverse) simp
  then show ?thesis unfolding trie_tab_def trie_of_def trie_get_from tab_def by (simp del: num_of_nat.simps)
qed

lemma trie_tab_code [code]:
  "trie_tab t 0 = trie_get t num.One"
  "trie_tab t (Int.Pos n) = trie_get t (Num.inc n)"
  "trie_tab t (Int.Neg n) = None"
proof -
  have "num_of_nat (Suc (nat_of_num n)) = Num.inc n"
    by (metis nat_of_num_inc nat_of_num_inverse)
  then show "trie_tab t (Int.Pos n) = trie_get t (Num.inc n)"
    by (simp add: trie_tab_def Int.Pos_def nat_of_num_numeral)
qed (simp_all add: trie_tab_def num_of_nat.simps)

end
