(* ===== verification/Lex_Tables.thy ===== *)
theory Lex_Tables
  imports Syntax_Tree Tables "HOL-Library.Monad_Syntax"
begin

text \<open>The data of the generated scanner \<open>parser/minisql_lex.c\<close>: the compressed transition tables, as the
  file has them, and the token codes of \<open>parser/minisql_yacc.c\<close>.\<close>

section \<open>Token codes\<close>

datatype yytokentype =
    T_CREATE | T_DROP | T_SELECT | T_INSERT | T_DELETE | T_UPDATE | T_TRXBEGIN | T_TRXCOMMIT |
    T_TRXROLLBACK | T_QUIT | T_EXECFILE | T_SHOW | T_USE | T_USING | T_DATABASE | T_DATABASES |
    T_TABLE | T_TABLES | T_INDEX | T_INDEXES | T_ON | T_FROM | T_WHERE | T_INTO | T_SET |
    T_VALUES | T_PRIMARY | T_KEY | T_UNIQUE | T_CHAR | T_INT | T_FLOAT | T_AND | T_OR | T_NOT |
    T_IS | T_FLAGNULL | T_IDENTIFIER | T_STRING | T_NUMBER | T_EQ | T_NE | T_LE | T_GE

fun token_code :: "yytokentype \<Rightarrow> int" where
  "token_code T_CREATE = 258"
| "token_code T_DROP = 259"
| "token_code T_SELECT = 260"
| "token_code T_INSERT = 261"
| "token_code T_DELETE = 262"
| "token_code T_UPDATE = 263"
| "token_code T_TRXBEGIN = 264"
| "token_code T_TRXCOMMIT = 265"
| "token_code T_TRXROLLBACK = 266"
| "token_code T_QUIT = 267"
| "token_code T_EXECFILE = 268"
| "token_code T_SHOW = 269"
| "token_code T_USE = 270"
| "token_code T_USING = 271"
| "token_code T_DATABASE = 272"
| "token_code T_DATABASES = 273"
| "token_code T_TABLE = 274"
| "token_code T_TABLES = 275"
| "token_code T_INDEX = 276"
| "token_code T_INDEXES = 277"
| "token_code T_ON = 278"
| "token_code T_FROM = 279"
| "token_code T_WHERE = 280"
| "token_code T_INTO = 281"
| "token_code T_SET = 282"
| "token_code T_VALUES = 283"
| "token_code T_PRIMARY = 284"
| "token_code T_KEY = 285"
| "token_code T_UNIQUE = 286"
| "token_code T_CHAR = 287"
| "token_code T_INT = 288"
| "token_code T_FLOAT = 289"
| "token_code T_AND = 290"
| "token_code T_OR = 291"
| "token_code T_NOT = 292"
| "token_code T_IS = 293"
| "token_code T_FLAGNULL = 294"
| "token_code T_IDENTIFIER = 295"
| "token_code T_STRING = 296"
| "token_code T_NUMBER = 297"
| "token_code T_EQ = 298"
| "token_code T_NE = 299"
| "token_code T_LE = 300"
| "token_code T_GE = 301"

section \<open>Scanner tables\<close>

definition yy_accept :: "int list" where
  "yy_accept = [0, 41, 41, 57, 55, 54, 54, 55, 49, 52, 53, 47, 46, 41, 55, 41, 48, 50, 42, 51, 39, 39, 39, 39,
    39, 39, 39, 39, 39, 39, 39, 39, 39, 39, 39, 39, 39, 39, 39, 0, 1, 0, 0, 41, 40, 44, 43, 45,
    39, 39, 39, 39, 39, 39, 39, 39, 39, 39, 39, 39, 39, 37, 39, 39, 39, 22, 35, 39, 39, 39, 39,
    39, 39, 39, 39, 39, 39, 39, 34, 39, 39, 39, 39, 39, 39, 39, 39, 39, 39, 39, 39, 32, 29, 36,
    39, 39, 39, 39, 39, 26, 39, 39, 39, 39, 14, 39, 39, 39, 39, 31, 39, 39, 39, 39, 3, 39, 39, 23,
    39, 39, 25, 38, 39, 11, 39, 39, 13, 39, 39, 39, 39, 39, 39, 8, 39, 39, 39, 39, 39, 33, 20, 39,
    39, 39, 39, 18, 39, 39, 15, 39, 24, 9, 2, 39, 6, 39, 39, 5, 39, 39, 4, 19, 30, 7, 27, 39, 39,
    21, 28, 39, 16, 12, 10, 17, 0]"

definition yy_ec :: "int list" where
  "yy_ec = [0, 1, 1, 1, 1, 1, 1, 1, 1, 2, 3, 2, 2, 1, 1, 1, 1, 1, 1, 1, 1, 1, 1, 1, 1, 1, 1, 1, 1, 1, 1,
    1, 2, 1, 4, 1, 1, 1, 1, 5, 6, 7, 8, 1, 9, 10, 11, 1, 12, 12, 12, 12, 12, 12, 12, 12, 12, 12,
    1, 13, 14, 15, 16, 1, 1, 17, 17, 17, 17, 17, 17, 17, 17, 17, 17, 17, 17, 17, 17, 17, 17, 17,
    17, 17, 17, 17, 17, 17, 17, 17, 17, 1, 18, 1, 1, 17, 1, 19, 20, 21, 22, 23, 24, 25, 26, 27,
    17, 28, 29, 30, 31, 32, 33, 34, 35, 36, 37, 38, 39, 40, 41, 42, 17, 1, 1, 1, 1, 1, 1, 1, 1, 1,
    1, 1, 1, 1, 1, 1, 1, 1, 1, 1, 1, 1, 1, 1, 1, 1, 1, 1, 1, 1, 1, 1, 1, 1, 1, 1, 1, 1, 1, 1, 1,
    1, 1, 1, 1, 1, 1, 1, 1, 1, 1, 1, 1, 1, 1, 1, 1, 1, 1, 1, 1, 1, 1, 1, 1, 1, 1, 1, 1, 1, 1, 1,
    1, 1, 1, 1, 1, 1, 1, 1, 1, 1, 1, 1, 1, 1, 1, 1, 1, 1, 1, 1, 1, 1, 1, 1, 1, 1, 1, 1, 1, 1, 1,
    1, 1, 1, 1, 1, 1, 1, 1, 1, 1, 1, 1, 1, 1, 1, 1, 1, 1, 1, 1, 1, 1, 1, 1, 1, 1, 1, 1, 1, 1, 1]"

definition yy_meta :: "int list" where
  "yy_meta = [0, 1, 1, 1, 1, 1, 1, 1, 1, 1, 1, 1, 2, 1, 1, 1, 1, 2, 1, 2, 2, 2, 2, 2, 2, 2, 2, 2, 2, 2, 2,
    2, 2, 2, 2, 2, 2, 2, 2, 2, 2, 2, 2]"

definition yy_base :: "int list" where
  "yy_base = [0, 0, 0, 188, 189, 189, 189, 39, 189, 189, 189, 189, 189, 33, 175, 35, 189, 33, 189, 171, 0,
    154, 161, 24, 32, 142, 23, 29, 159, 30, 35, 146, 142, 147, 38, 159, 38, 158, 150, 59, 189,
    172, 162, 42, 161, 189, 189, 189, 0, 150, 146, 151, 139, 145, 130, 137, 133, 141, 131, 130,
    50, 0, 119, 123, 130, 0, 0, 131, 130, 127, 44, 123, 134, 126, 130, 52, 122, 127, 0, 122, 113,
    117, 127, 126, 121, 110, 121, 122, 110, 116, 115, 105, 0, 0, 107, 105, 97, 104, 109, 0, 91,
    101, 95, 109, 0, 96, 88, 90, 93, 0, 96, 85, 101, 83, 0, 95, 81, 0, 76, 81, 0, 0, 96, 0, 94,
    92, 0, 89, 73, 73, 84, 85, 84, 0, 69, 82, 85, 80, 75, 0, 78, 63, 64, 79, 60, 60, 72, 71, 0,
    57, 0, 0, 0, 56, 0, 62, 54, 0, 43, 63, 0, 0, 0, 0, 0, 60, 59, 0, 0, 52, 42, 0, 0, 0, 189, 87,
    74]"

definition yy_def :: "int list" where
  "yy_def = [0, 174, 1, 174, 174, 174, 174, 175, 174, 174, 174, 174, 174, 174, 174, 174, 174, 174, 174,
    174, 176, 176, 176, 176, 176, 176, 176, 176, 176, 176, 176, 176, 176, 176, 176, 176, 176, 176,
    176, 175, 174, 175, 174, 174, 174, 174, 174, 174, 176, 176, 176, 176, 176, 176, 176, 176, 176,
    176, 176, 176, 176, 176, 176, 176, 176, 176, 176, 176, 176, 176, 176, 176, 176, 176, 176, 176,
    176, 176, 176, 176, 176, 176, 176, 176, 176, 176, 176, 176, 176, 176, 176, 176, 176, 176, 176,
    176, 176, 176, 176, 176, 176, 176, 176, 176, 176, 176, 176, 176, 176, 176, 176, 176, 176, 176,
    176, 176, 176, 176, 176, 176, 176, 176, 176, 176, 176, 176, 176, 176, 176, 176, 176, 176, 176,
    176, 176, 176, 176, 176, 176, 176, 176, 176, 176, 176, 176, 176, 176, 176, 176, 176, 176, 176,
    176, 176, 176, 176, 176, 176, 176, 176, 176, 176, 176, 176, 176, 176, 176, 176, 176, 176, 176,
    176, 176, 176, 0, 174, 174]"

definition yy_nxt :: "int list" where
  "yy_nxt = [0, 4, 5, 6, 7, 8, 9, 10, 11, 12, 13, 14, 15, 16, 17, 18, 19, 20, 4, 21, 22, 23, 24, 25, 26,
    20, 20, 27, 28, 20, 20, 29, 30, 31, 32, 33, 34, 35, 36, 37, 38, 20, 20, 40, 42, 43, 42, 43,
    45, 46, 51, 54, 58, 42, 43, 55, 52, 41, 59, 53, 60, 70, 63, 40, 71, 61, 65, 56, 64, 73, 66,
    74, 89, 98, 75, 104, 48, 41, 173, 105, 172, 99, 171, 170, 169, 168, 90, 91, 39, 39, 167, 166,
    165, 164, 163, 162, 161, 160, 159, 158, 157, 156, 155, 154, 153, 152, 151, 150, 149, 148, 147,
    146, 145, 144, 143, 142, 141, 140, 139, 138, 137, 136, 135, 134, 133, 132, 131, 130, 129, 128,
    127, 126, 125, 124, 123, 122, 121, 120, 119, 118, 117, 116, 115, 114, 113, 112, 111, 110, 109,
    108, 107, 106, 103, 102, 101, 100, 97, 96, 95, 94, 93, 92, 88, 87, 86, 85, 84, 83, 82, 81, 80,
    79, 78, 44, 44, 174, 77, 76, 72, 69, 68, 67, 62, 57, 50, 49, 47, 44, 174, 3, 174, 174, 174,
    174, 174, 174, 174, 174, 174, 174, 174, 174, 174, 174, 174, 174, 174, 174, 174, 174, 174, 174,
    174, 174, 174, 174, 174, 174, 174, 174, 174, 174, 174, 174, 174, 174, 174, 174, 174, 174, 174,
    174]"

definition yy_chk :: "int list" where
  "yy_chk = [0, 1, 1, 1, 1, 1, 1, 1, 1, 1, 1, 1, 1, 1, 1, 1, 1, 1, 1, 1, 1, 1, 1, 1, 1, 1, 1, 1, 1, 1, 1,
    1, 1, 1, 1, 1, 1, 1, 1, 1, 1, 1, 1, 7, 13, 13, 15, 15, 17, 17, 23, 24, 26, 43, 43, 24, 23, 7,
    26, 23, 27, 34, 29, 39, 34, 27, 30, 24, 29, 36, 30, 36, 60, 70, 36, 75, 176, 39, 170, 75, 169,
    70, 166, 165, 159, 158, 60, 60, 175, 175, 156, 155, 153, 149, 147, 146, 145, 144, 143, 142,
    141, 140, 138, 137, 136, 135, 134, 132, 131, 130, 129, 128, 127, 125, 124, 122, 119, 118, 116,
    115, 113, 112, 111, 110, 108, 107, 106, 105, 103, 102, 101, 100, 98, 97, 96, 95, 94, 91, 90,
    89, 88, 87, 86, 85, 84, 83, 82, 81, 80, 79, 77, 76, 74, 73, 72, 71, 69, 68, 67, 64, 63, 62,
    59, 58, 57, 56, 55, 54, 53, 52, 51, 50, 49, 44, 42, 41, 38, 37, 35, 33, 32, 31, 28, 25, 22,
    21, 19, 14, 3, 174, 174, 174, 174, 174, 174, 174, 174, 174, 174, 174, 174, 174, 174, 174, 174,
    174, 174, 174, 174, 174, 174, 174, 174, 174, 174, 174, 174, 174, 174, 174, 174, 174, 174, 174,
    174, 174, 174, 174, 174, 174, 174, 174]"

definition yy_rule_can_match_eol :: "int list" where
  "yy_rule_can_match_eol = [0, 1, 0, 0, 0, 0, 0, 0, 0, 0, 0, 0, 0, 0, 0, 0, 0, 0, 0, 0, 0, 0, 0, 0, 0, 0, 0, 0, 0, 0, 0,
    0, 0, 0, 0, 0, 0, 0, 0, 0, 0, 0, 0, 0, 0, 0, 0, 0, 0, 0, 0, 0, 0, 0, 1, 0, 0]"

definition YY_END_OF_BUFFER :: int where
  "YY_END_OF_BUFFER = 57"

definition YY_STATE_EOF :: "int \<Rightarrow> int" where
  "YY_STATE_EOF state = YY_END_OF_BUFFER + state + 1"

section \<open>Rule actions that only return a token\<close>

definition keyword_rules_1 :: "(int \<times> yytokentype) list" where
  "keyword_rules_1 =
    [(2, T_CREATE), (3, T_DROP), (4, T_SELECT), (5, T_INSERT), (6, T_DELETE), (7, T_UPDATE), (8,
    T_TRXBEGIN), (9, T_TRXCOMMIT), (10, T_TRXROLLBACK), (11, T_QUIT), (12, T_EXECFILE), (13,
    T_SHOW), (14, T_USE), (15, T_USING), (16, T_DATABASE), (17, T_DATABASES), (18, T_TABLE),
    (19, T_TABLES), (20, T_INDEX)]"

definition keyword_rules_2 :: "(int \<times> yytokentype) list" where
  "keyword_rules_2 =
    [(21, T_INDEXES), (22, T_ON), (23, T_FROM), (24, T_WHERE), (25, T_INTO), (26, T_SET), (27,
    T_VALUES), (28, T_PRIMARY), (29, T_KEY), (30, T_UNIQUE), (31, T_CHAR), (32, T_INT), (33,
    T_FLOAT), (34, T_AND), (35, T_OR), (36, T_NOT), (37, T_IS), (38, T_FLAGNULL)]"

definition operator_rules :: "(int \<times> int) list" where
  "operator_rules =
    [(42, token_code T_EQ), (43, token_code T_NE), (44, token_code T_LE), (45, token_code T_GE),
    (46, of_char CHR '',''), (47, of_char CHR ''*''), (48, of_char CHR '';''), (49, of_char CHR
    0x27), (50, of_char CHR ''<''), (51, of_char CHR ''>''), (52, of_char CHR ''(''), (53,
    of_char CHR '')'')]"

end
