(* ===== verification/Scanner.thy ===== *)
theory Scanner
  imports Lex_Tables
begin

text \<open>The generated scanner \<open>parser/minisql_lex.c\<close>: input buffers, the matching loop over the
  compressed tables, backing up to the last accepting state, the end-of-buffer protocol and the
  rule actions of \<open>minisql.l\<close>.

  Positions in the character buffer are indices.  The labels of \<open>yylex\<close> that the code jumps to
  are the values of \<open>label\<close>; \<open>yylex_run\<close> follows the jumps.  A result \<^const>\<open>None\<close> is undefined behaviour
  (an access outside an array), a call of \<open>exit\<close>, or a loop that does not end; that none of these
  happens on a string buffer is proved in \<open>Scanner_Correct\<close>.  Only string buffers are modelled:
  the program never scans from a file.\<close>

section \<open>State\<close>

datatype buffer_status = YY_BUFFER_NEW | YY_BUFFER_NORMAL | YY_BUFFER_EOF_PENDING

record yy_buffer_state =
  ch_buf :: string
  buf_pos :: nat
  buf_size :: nat
  buf_n_chars :: nat
  is_our_buffer :: bool
  is_interactive :: bool
  at_bol :: bool
  fill_buffer :: bool
  buffer_status :: buffer_status

record scanner =
  glob :: parser_globals
  yylval :: pSyntaxNode
  current_buffer :: "yy_buffer_state option"
  yy_n_chars :: nat
  yy_c_buf_p :: nat
  yy_hold_char :: char
  yytext_ptr :: nat
  yyleng :: nat
  yylineno :: int
  yy_last_accepting_state :: int
  yy_last_accepting_cpos :: nat
  yy_init :: bool
  yy_start :: int

definition NUL :: char where
  "NUL = CHR 0x00"

definition scanner_init :: "parser_globals \<Rightarrow> scanner" where
  "scanner_init g =
     \<lparr>glob = g, yylval = None, current_buffer = None, yy_n_chars = 0, yy_c_buf_p = 0, yy_hold_char = NUL,
      yytext_ptr = 0, yyleng = 0, yylineno = 1, yy_last_accepting_state = 0, yy_last_accepting_cpos = 0,
      yy_init = False, yy_start = 0\<rparr>"

section \<open>Access to the current buffer\<close>

definition chars :: "scanner \<Rightarrow> string" where
  "chars \<sigma> = (case current_buffer \<sigma> of None \<Rightarrow> [] | Some b \<Rightarrow> ch_buf b)"

definition read_char :: "scanner \<Rightarrow> nat \<Rightarrow> char option" where
  "read_char \<sigma> i = (if i < length (chars \<sigma>) then Some (chars \<sigma> ! i) else None)"

definition write_char :: "scanner \<Rightarrow> nat \<Rightarrow> char \<Rightarrow> scanner option" where
  "write_char \<sigma> i c =
     (case current_buffer \<sigma> of
        None \<Rightarrow> None
      | Some b \<Rightarrow> if i < length (ch_buf b) then Some (\<sigma>\<lparr>current_buffer := Some (b\<lparr>ch_buf := (ch_buf b)[i := c]\<rparr>)\<rparr>)
                  else None)"

definition yytext :: "scanner \<Rightarrow> string" where
  "yytext \<sigma> = c_string (drop (yytext_ptr \<sigma>) (chars \<sigma>))"

section \<open>Setting up a buffer\<close>

definition yy_load_buffer_state :: "scanner \<Rightarrow> scanner option" where
  "yy_load_buffer_state \<sigma> =
     (case current_buffer \<sigma> of
        None \<Rightarrow> None
      | Some b \<Rightarrow>
          if buf_pos b < length (ch_buf b) then
            Some (\<sigma>\<lparr>yy_n_chars := buf_n_chars b, yytext_ptr := buf_pos b, yy_c_buf_p := buf_pos b,
                    yy_hold_char := ch_buf b ! buf_pos b\<rparr>)
          else None)"

text \<open>\<open>yy_switch_to_buffer\<close> to a buffer other than the current one: the old buffer is left to its
  owner, the new one becomes current.\<close>

definition yy_switch_to_buffer :: "yy_buffer_state \<Rightarrow> scanner \<Rightarrow> scanner option" where
  "yy_switch_to_buffer b \<sigma> = yy_load_buffer_state (\<sigma>\<lparr>current_buffer := Some b\<rparr>)"

definition yy_scan_buffer :: "string \<Rightarrow> nat \<Rightarrow> scanner \<Rightarrow> (bool \<times> scanner) option" where
  "yy_scan_buffer base sz \<sigma> =
     (if sz < 2 \<or> base ! (sz - 2) \<noteq> NUL \<or> base ! (sz - 1) \<noteq> NUL then Some (False, \<sigma>)
      else
        map_option (Pair True)
          (yy_switch_to_buffer
             \<lparr>ch_buf = base, buf_pos = 0, buf_size = sz - 2, buf_n_chars = sz - 2, is_our_buffer = False,
              is_interactive = False, at_bol = True, fill_buffer = False, buffer_status = YY_BUFFER_NEW\<rparr> \<sigma>))"

text \<open>The copy of the text is taken to be allocated: when it is not, the code ends the whole program
  (\<open>YY_FATAL_ERROR\<close>).\<close>

definition yy_scan_bytes :: "string \<Rightarrow> nat \<Rightarrow> scanner \<Rightarrow> scanner option" where
  "yy_scan_bytes yybytes len \<sigma> =
     do {
       (ok, \<sigma>) \<leftarrow> yy_scan_buffer (take len yybytes @ [NUL, NUL]) (len + 2) \<sigma>;
       if ok then
         Some (\<sigma>\<lparr>current_buffer := map_option (\<lambda>b. b\<lparr>is_our_buffer := True\<rparr>) (current_buffer \<sigma>)\<rparr>)
       else None
     }"

definition yy_scan_string :: "string \<Rightarrow> scanner \<Rightarrow> scanner option" where
  "yy_scan_string yystr \<sigma> = yy_scan_bytes (c_string yystr) (length (c_string yystr)) \<sigma>"

definition yy_delete_buffer :: "scanner \<Rightarrow> scanner" where
  "yy_delete_buffer \<sigma> = \<sigma>\<lparr>current_buffer := None\<rparr>"

definition yy_init_globals :: "scanner \<Rightarrow> scanner" where
  "yy_init_globals \<sigma> =
     \<sigma>\<lparr>yylineno := 1, current_buffer := None, yy_c_buf_p := 0, yy_init := False, yy_start := 0\<rparr>"

definition yylex_destroy :: "scanner \<Rightarrow> scanner" where
  "yylex_destroy \<sigma> = yy_init_globals (yy_delete_buffer \<sigma>)"

section \<open>Matching\<close>

text \<open>One transition over the compressed tables: follow \<open>yy_def\<close> until \<open>yy_chk\<close> owns the entry.\<close>

partial_function (option) yy_trans :: "int \<Rightarrow> int \<Rightarrow> int option" where
  "yy_trans s c =
     do {
       b \<leftarrow> tab yy_base s;
       k \<leftarrow> tab yy_chk (b + c);
       if k \<noteq> s then do {
         d \<leftarrow> tab yy_def s;
         c' \<leftarrow> (if d \<ge> 175 then tab yy_meta c else Some c);
         yy_trans d c'
       } else tab yy_nxt (b + c)
     }"

declare yy_trans.simps [code]

text \<open>Before a transition the code records an accepting state and its position.\<close>

definition record_accept :: "int \<Rightarrow> nat \<Rightarrow> scanner \<Rightarrow> scanner option" where
  "record_accept s cp \<sigma> =
     map_option (\<lambda>a. if a \<noteq> 0 then \<sigma>\<lparr>yy_last_accepting_state := s, yy_last_accepting_cpos := cp\<rparr> else \<sigma>)
       (tab yy_accept s)"

function yy_match :: "int \<Rightarrow> nat \<Rightarrow> scanner \<Rightarrow> (int \<times> nat \<times> scanner) option" where
  "yy_match s cp \<sigma> =
     (if cp < length (chars \<sigma>) then
        (case tab yy_ec (of_char (chars \<sigma> ! cp)) of
           None \<Rightarrow> None
         | Some c \<Rightarrow> (case tab yy_accept s of
             None \<Rightarrow> None
           | Some a \<Rightarrow> (case yy_trans s c of
               None \<Rightarrow> None
             | Some s' \<Rightarrow> (case tab yy_base s' of
                 None \<Rightarrow> None
               | Some b \<Rightarrow>
                   let \<sigma>' = (if a \<noteq> 0 then \<sigma>\<lparr>yy_last_accepting_state := s, yy_last_accepting_cpos := cp\<rparr> else \<sigma>)
                   in if b \<noteq> 189 then yy_match s' (cp + 1) \<sigma>' else Some (s', cp + 1, \<sigma>')))))
      else None)"
  by pat_completeness auto
termination
  by (relation "measure (\<lambda>(s, cp, \<sigma>). length (chars \<sigma>) - cp)") (auto simp: chars_def split: if_splits)

declare yy_match.simps [simp del]

text \<open>\<open>yy_get_previous_state\<close>: rescan the text up to the end of the buffer.\<close>

fun previous_state :: "string \<Rightarrow> nat \<Rightarrow> int \<Rightarrow> scanner \<Rightarrow> (int \<times> scanner) option" where
  "previous_state [] cp s \<sigma> = Some (s, \<sigma>)"
| "previous_state (x # xs) cp s \<sigma> =
     do {
       c \<leftarrow> (if x \<noteq> NUL then tab yy_ec (of_char x) else Some 1);
       \<sigma>' \<leftarrow> record_accept s cp \<sigma>;
       s' \<leftarrow> yy_trans s c;
       previous_state xs (cp + 1) s' \<sigma>'
     }"

definition yy_get_previous_state :: "scanner \<Rightarrow> (int \<times> scanner) option" where
  "yy_get_previous_state \<sigma> =
     previous_state (take (yy_c_buf_p \<sigma> - yytext_ptr \<sigma>) (drop (yytext_ptr \<sigma>) (chars \<sigma>)))
       (yytext_ptr \<sigma>) (yy_start \<sigma>) \<sigma>"

definition yy_try_NUL_trans :: "int \<Rightarrow> scanner \<Rightarrow> (int \<times> scanner) option" where
  "yy_try_NUL_trans s \<sigma> =
     do {
       \<sigma>' \<leftarrow> record_accept s (yy_c_buf_p \<sigma>) \<sigma>;
       s' \<leftarrow> yy_trans s 1;
       Some (if s' = 174 then 0 else s', \<sigma>')
     }"

section \<open>End of buffer\<close>

datatype eob_act = EOB_ACT_CONTINUE_SCAN | EOB_ACT_END_OF_FILE | EOB_ACT_LAST_MATCH

text \<open>\<open>yy_get_next_buffer\<close> for a buffer that is not to be filled, the only kind the program makes.\<close>

definition yy_get_next_buffer :: "scanner \<Rightarrow> eob_act option" where
  "yy_get_next_buffer \<sigma> =
     (case current_buffer \<sigma> of
        None \<Rightarrow> None
      | Some b \<Rightarrow>
          if yy_c_buf_p \<sigma> > yy_n_chars \<sigma> + 1 \<or> fill_buffer b then None
          else if yy_c_buf_p \<sigma> - yytext_ptr \<sigma> = 1 then Some EOB_ACT_END_OF_FILE
          else Some EOB_ACT_LAST_MATCH)"

definition yywrap :: bool where
  "yywrap = True"

section \<open>Rule actions\<close>

definition move_pos :: "scanner \<Rightarrow> scanner" where
  "move_pos \<sigma> = \<sigma>\<lparr>glob := MinisqlParserMovePos (yytext \<sigma>) (glob \<sigma>)\<rparr>"

definition value_action :: "SyntaxNodeType \<Rightarrow> yytokentype \<Rightarrow> scanner \<Rightarrow> (int \<times> scanner) option" where
  "value_action ty tok \<sigma> =
     (let \<sigma>' = move_pos \<sigma>
      in map_option (\<lambda>(a, g). (token_code tok, \<sigma>'\<lparr>glob := g, yylval := Some a\<rparr>))
           (CreateSyntaxNode ty (Some (yytext \<sigma>)) (glob \<sigma>')))"

definition unrecognized_action :: "scanner \<Rightarrow> scanner" where
  "unrecognized_action \<sigma> =
     \<sigma>\<lparr>glob := MinisqlParserSetError
        (ExpiredLocal (''Unrecognized token ['' @ yytext \<sigma> @ ''] in input sql.'')) (glob \<sigma>)\<rparr>"

datatype label = LScan | LMatch nat int nat | LFind nat int nat

definition rule_action :: "int \<Rightarrow> scanner \<Rightarrow> ((int + label) \<times> scanner) option" where
  "rule_action act \<sigma> =
     (case map_of (keyword_rules_1 @ keyword_rules_2) act of
        Some t \<Rightarrow> Some (Inl (token_code t), move_pos \<sigma>)
      | None \<Rightarrow> (case map_of operator_rules act of
          Some t \<Rightarrow> Some (Inl t, move_pos \<sigma>)
        | None \<Rightarrow>
            if act = 1 then map_option (map_prod Inl id) (value_action kNodeString T_STRING \<sigma>)
            else if act = 39 then map_option (map_prod Inl id) (value_action kNodeIdentifier T_IDENTIFIER \<sigma>)
            else if act = 40 \<or> act = 41 then map_option (map_prod Inl id) (value_action kNodeNumber T_NUMBER \<sigma>)
            else if act = 54 then Some (Inr LScan, move_pos \<sigma>)
            else if act = 55 then Some (Inr LScan, unrecognized_action \<sigma>)
            else if act = 56 then Some (Inr LScan, \<sigma>)
            else None))"

definition end_of_buffer_action :: "nat \<Rightarrow> nat \<Rightarrow> scanner \<Rightarrow> ((int + label) \<times> scanner) option" where
  "end_of_buffer_action bp cp \<sigma> =
     do {
       let amount = cp - yytext_ptr \<sigma> - 1;
       \<sigma> \<leftarrow> write_char \<sigma> cp (yy_hold_char \<sigma>);
       b \<leftarrow> current_buffer \<sigma>;
       let \<sigma> = (if buffer_status b = YY_BUFFER_NEW
                then \<sigma>\<lparr>yy_n_chars := buf_n_chars b, current_buffer := Some (b\<lparr>buffer_status := YY_BUFFER_NORMAL\<rparr>)\<rparr> else \<sigma>);
       if yy_c_buf_p \<sigma> \<le> yy_n_chars \<sigma> then do {
         let \<sigma> = \<sigma>\<lparr>yy_c_buf_p := yytext_ptr \<sigma> + amount\<rparr>;
         (s, \<sigma>) \<leftarrow> yy_get_previous_state \<sigma>;
         (next, \<sigma>) \<leftarrow> yy_try_NUL_trans s \<sigma>;
         if next \<noteq> 0 then
           (let \<sigma> = \<sigma>\<lparr>yy_c_buf_p := yy_c_buf_p \<sigma> + 1\<rparr>
            in Some (Inr (LMatch (yytext_ptr \<sigma>) next (yy_c_buf_p \<sigma>)), \<sigma>))
         else Some (Inr (LFind (yytext_ptr \<sigma>) s (yy_c_buf_p \<sigma>)), \<sigma>)
       } else do {
         e \<leftarrow> yy_get_next_buffer \<sigma>;
         case e of
           EOB_ACT_END_OF_FILE \<Rightarrow>
             if yywrap then Some (Inl 0, \<sigma>\<lparr>yy_c_buf_p := yytext_ptr \<sigma>\<rparr>) else None
         | EOB_ACT_CONTINUE_SCAN \<Rightarrow> do {
             let \<sigma> = \<sigma>\<lparr>yy_c_buf_p := yytext_ptr \<sigma> + amount\<rparr>;
             (s, \<sigma>) \<leftarrow> yy_get_previous_state \<sigma>;
             Some (Inr (LMatch (yytext_ptr \<sigma>) s (yy_c_buf_p \<sigma>)), \<sigma>)
           }
         | EOB_ACT_LAST_MATCH \<Rightarrow> do {
             let \<sigma> = \<sigma>\<lparr>yy_c_buf_p := yy_n_chars \<sigma>\<rparr>;
             (s, \<sigma>) \<leftarrow> yy_get_previous_state \<sigma>;
             Some (Inr (LFind (yytext_ptr \<sigma>) s (yy_c_buf_p \<sigma>)), \<sigma>)
           }
       }
     }"

section \<open>The scanner loop\<close>

definition scan_start :: "scanner \<Rightarrow> (label \<times> scanner) option" where
  "scan_start \<sigma> =
     map_option (\<lambda>\<sigma>'. (LMatch (yy_c_buf_p \<sigma>) (yy_start \<sigma>) (yy_c_buf_p \<sigma>), \<sigma>'))
       (write_char \<sigma> (yy_c_buf_p \<sigma>) (yy_hold_char \<sigma>))"

definition YY_DO_BEFORE_ACTION :: "nat \<Rightarrow> nat \<Rightarrow> scanner \<Rightarrow> scanner option" where
  "YY_DO_BEFORE_ACTION bp cp \<sigma> =
     do {
       h \<leftarrow> read_char \<sigma> cp;
       \<sigma> \<leftarrow> write_char \<sigma> cp NUL;
       Some (\<sigma>\<lparr>yytext_ptr := bp, yyleng := cp - bp, yy_hold_char := h, yy_c_buf_p := cp\<rparr>)
     }"

text \<open>\<open>yylineno\<close> counts the newlines of the text when the rule can match one.\<close>

definition count_lines :: "int \<Rightarrow> scanner \<Rightarrow> scanner option" where
  "count_lines act \<sigma> =
     (if act = YY_END_OF_BUFFER then Some \<sigma>
      else map_option
        (\<lambda>e. if e \<noteq> 0 then
               \<sigma>\<lparr>yylineno := yylineno \<sigma> +
                 int (length (filter (\<lambda>c. c = CHR 0x0A) (take (yyleng \<sigma>) (drop (yytext_ptr \<sigma>) (chars \<sigma>)))))\<rparr>
             else \<sigma>)
        (tab yy_rule_can_match_eol act))"

definition do_action :: "int \<Rightarrow> nat \<Rightarrow> nat \<Rightarrow> scanner \<Rightarrow> ((int + label) \<times> scanner) option" where
  "do_action act bp cp \<sigma> =
     (if act = 0 then
        map_option (\<lambda>\<sigma>. (Inr (LFind bp (yy_last_accepting_state \<sigma>) (yy_last_accepting_cpos \<sigma>)), \<sigma>))
          (write_char \<sigma> cp (yy_hold_char \<sigma>))
      else if act = YY_STATE_EOF 0 then Some (Inl 0, \<sigma>)
      else if act = YY_END_OF_BUFFER then end_of_buffer_action bp cp \<sigma>
      else rule_action act \<sigma>)"

definition yy_find_action :: "nat \<Rightarrow> int \<Rightarrow> nat \<Rightarrow> scanner \<Rightarrow> ((int + label) \<times> scanner) option" where
  "yy_find_action bp s cp \<sigma> =
     do {
       a \<leftarrow> tab yy_accept s;
       (act, cp) \<leftarrow> (if a = 0 then map_option (\<lambda>a'. (a', yy_last_accepting_cpos \<sigma>)) (tab yy_accept (yy_last_accepting_state \<sigma>))
                     else Some (a, cp));
       \<sigma> \<leftarrow> YY_DO_BEFORE_ACTION bp cp \<sigma>;
       \<sigma> \<leftarrow> count_lines act \<sigma>;
       do_action act bp cp \<sigma>
     }"

partial_function (option) yylex_run :: "label \<Rightarrow> scanner \<Rightarrow> (int \<times> scanner) option" where
  "yylex_run l \<sigma> =
     (case l of
        LScan \<Rightarrow> Option.bind (scan_start \<sigma>) (\<lambda>p. yylex_run (fst p) (snd p))
      | LMatch bp s cp \<Rightarrow>
          Option.bind (yy_match s cp \<sigma>) (\<lambda>p. yylex_run (LFind bp (fst p) (fst (snd p))) (snd (snd p)))
      | LFind bp s cp \<Rightarrow>
          Option.bind (yy_find_action bp s cp \<sigma>)
            (\<lambda>p. case fst p of Inl t \<Rightarrow> Some (t, snd p) | Inr l' \<Rightarrow> yylex_run l' (snd p)))"

declare yylex_run.simps [code]

definition yylex :: "scanner \<Rightarrow> (int \<times> scanner) option" where
  "yylex \<sigma> =
     (if \<not> yy_init \<sigma> then
        Option.bind (yy_load_buffer_state (\<sigma>\<lparr>yy_init := True, yy_start := (if yy_start \<sigma> = 0 then 1 else yy_start \<sigma>)\<rparr>))
          (yylex_run LScan)
      else yylex_run LScan \<sigma>)"

end
