(* ===== verification/Lexer_DFA.thy ===== *)
theory Lexer_DFA
  imports Scanner
begin

text \<open>What the compressed scanner tables mean.  \<open>rule_of w\<close> is the first rule of \<open>minisql.l\<close> whose
  pattern matches the whole text \<open>w\<close> (0 if none does), written from the patterns of the rules.
  The automaton over \<open>astate\<close> reads a text from left to right and keeps what the patterns need to
  know of it; \<open>state_desc\<close> says which of its states each numbered state of the tables is.  That
  every entry of the tables agrees with it is checked by evaluation, and it follows that the
  tables accept a text with rule \<open>r\<close> exactly if \<open>rule_of\<close> says so.\<close>

section \<open>The patterns\<close>

definition is_letter :: "char \<Rightarrow> bool" where
  "is_letter c \<longleftrightarrow> (let n = (of_char c :: int) in 65 \<le> n \<and> n \<le> 90 \<or> 97 \<le> n \<and> n \<le> 122 \<or> n = 95)"

definition is_digit :: "char \<Rightarrow> bool" where
  "is_digit c \<longleftrightarrow> (let n = (of_char c :: int) in 48 \<le> n \<and> n \<le> 57)"

definition is_word_char :: "char \<Rightarrow> bool" where
  "is_word_char c \<longleftrightarrow> is_letter c \<or> is_digit c"

definition keyword_table :: "(string \<times> int) list" where
  "keyword_table =
    [(''create'', 2), (''drop'', 3), (''select'', 4), (''insert'', 5), (''delete'', 6),
    (''update'', 7), (''begin'', 8), (''commit'', 9), (''rollback'', 10), (''quit'', 11),
    (''execfile'', 12), (''show'', 13), (''use'', 14), (''using'', 15), (''database'', 16),
    (''databases'', 17), (''table'', 18), (''tables'', 19), (''index'', 20), (''indexes'', 21),
    (''on'', 22), (''from'', 23), (''where'', 24), (''into'', 25), (''set'', 26), (''values'',
    27), (''primary'', 28), (''key'', 29), (''unique'', 30), (''char'', 31), (''int'', 32),
    (''float'', 33), (''and'', 34), (''or'', 35), (''not'', 36), (''is'', 37), (''null'', 38)]"

definition operator_table :: "(string \<times> int) list" where
  "operator_table =
    [(''='', 42), (''<>'', 43), (''<='', 44), (''>='', 45), ('','', 46), (''*'', 47), ('';'',
    48), ([CHR 0x27], 49), (''<'', 50), (''>'', 51), (''('', 52), ('')'', 53)]"

text \<open>Whitespace of rule 54: space, tab, vertical tab, newline and form feed.\<close>

definition is_space :: "char \<Rightarrow> bool" where
  "is_space c \<longleftrightarrow> c \<in> {CHR '' '', CHR 0x09, CHR 0x0B, CHR 0x0A, CHR 0x0C}"

text \<open>The body of a string literal, up to and with its closing quote: an escape is a backslash and a
  character other than a newline.\<close>

fun string_body :: "string \<Rightarrow> bool" where
  "string_body [] = False"
| "string_body [c] = (c = CHR 0x22)"
| "string_body (c # d # cs) =
     (if c = CHR 0x22 then False
      else if c = CHR 0x5C then d \<noteq> CHR 0x0A \<and> string_body cs
      else string_body (d # cs))"

definition is_string :: "string \<Rightarrow> bool" where
  "is_string w \<longleftrightarrow> (case w of [] \<Rightarrow> False | c # cs \<Rightarrow> c = CHR 0x22 \<and> string_body cs)"

definition is_identifier :: "string \<Rightarrow> bool" where
  "is_identifier w \<longleftrightarrow> (case w of [] \<Rightarrow> False | c # cs \<Rightarrow> is_letter c \<and> list_all is_word_char cs)"

definition unsigned_part :: "string \<Rightarrow> string" where
  "unsigned_part w = (case w of [] \<Rightarrow> [] | c # cs \<Rightarrow> if c = CHR ''-'' then cs else w)"

definition is_integer :: "string \<Rightarrow> bool" where
  "is_integer w \<longleftrightarrow> list_all is_digit (unsigned_part w)"

definition is_fraction :: "string \<Rightarrow> bool" where
  "is_fraction w \<longleftrightarrow>
     (case dropWhile is_digit (unsigned_part w) of
        [] \<Rightarrow> False
      | c # cs \<Rightarrow> c = CHR ''.'' \<and> cs \<noteq> [] \<and> list_all is_digit cs)"

definition rule_of :: "string \<Rightarrow> int" where
  "rule_of w =
     (if is_string w then 1
      else case map_of keyword_table w of
        Some r \<Rightarrow> r
      | None \<Rightarrow>
          if is_identifier w then 39
          else if is_fraction w then 40
          else if is_integer w then 41
          else (case map_of operator_table w of
            Some r \<Rightarrow> r
          | None \<Rightarrow>
              (case w of
                 [c] \<Rightarrow> if is_space c then 54 else 55
               | _ \<Rightarrow> 0)))"

section \<open>The automaton\<close>

datatype astate =
    ABegin | AQuote | AStr | AStrEsc | AStrEnd | AKw "(string \<times> int) list" | AIdent | AMinus | AInt | ADot | ADot1
  | AFrac | AOp string | AWs | AOther | AJam

text \<open>What is left of the keywords after a character.\<close>

fun kw_step :: "(string \<times> int) list \<Rightarrow> char \<Rightarrow> (string \<times> int) list" where
  "kw_step [] c = []"
| "kw_step (([], r) # rs) c = kw_step rs c"
| "kw_step ((d # k, r) # rs) c = (if d = c then (k, r) # kw_step rs c else kw_step rs c)"

definition kw_state :: "(string \<times> int) list \<Rightarrow> astate" where
  "kw_state rs = (if rs = [] then AIdent else AKw rs)"

fun adelta :: "astate \<Rightarrow> char \<Rightarrow> astate" where
  "adelta ABegin c =
     (if c = CHR 0x22 then AQuote
      else if is_letter c then kw_state (kw_step keyword_table c)
      else if c = CHR ''-'' then AMinus
      else if is_digit c then AInt
      else if c = CHR ''.'' then ADot1
      else if map_of operator_table [c] \<noteq> None then AOp [c]
      else if is_space c then AWs
      else AOther)"
| "adelta AQuote c = (if c = CHR 0x22 then AStrEnd else if c = CHR 0x5C then AStrEsc else AStr)"
| "adelta AStr c = (if c = CHR 0x22 then AStrEnd else if c = CHR 0x5C then AStrEsc else AStr)"
| "adelta AStrEsc c = (if c = CHR 0x0A then AJam else AStr)"
| "adelta (AKw rs) c = (if is_word_char c then kw_state (kw_step rs c) else AJam)"
| "adelta AIdent c = (if is_word_char c then AIdent else AJam)"
| "adelta AMinus c = (if is_digit c then AInt else if c = CHR ''.'' then ADot else AJam)"
| "adelta AInt c = (if is_digit c then AInt else if c = CHR ''.'' then ADot else AJam)"
| "adelta ADot c = (if is_digit c then AFrac else AJam)"
| "adelta ADot1 c = (if is_digit c then AFrac else AJam)"
| "adelta AFrac c = (if is_digit c then AFrac else AJam)"
| "adelta (AOp p) c = (if map_of operator_table (p @ [c]) \<noteq> None then AOp (p @ [c]) else AJam)"
| "adelta _ c = AJam"

fun aaccept :: "astate \<Rightarrow> int" where
  "aaccept ABegin = 41"
| "aaccept AQuote = 55"
| "aaccept AStrEnd = 1"
| "aaccept (AKw rs) = (case map_of rs [] of Some r \<Rightarrow> r | None \<Rightarrow> 39)"
| "aaccept AIdent = 39"
| "aaccept AMinus = 41"
| "aaccept AInt = 41"
| "aaccept ADot1 = 55"
| "aaccept AFrac = 40"
| "aaccept (AOp p) = (case map_of operator_table p of Some r \<Rightarrow> r | None \<Rightarrow> 0)"
| "aaccept AWs = 54"
| "aaccept AOther = 55"
| "aaccept _ = 0"

text \<open>The states of the tables: 1 is the start state, 174 the jam state; 2 and 3 (beginning of line, end
  of buffer) read no text.\<close>

definition state_desc :: "astate option list" where
  "state_desc =
    [None, Some ABegin, None, None, Some AOther, Some AWs, Some AWs, Some AQuote,
    Some (AOp [CHR 0x27]), Some (AOp ''(''), Some (AOp '')''), Some (AOp ''*''),
    Some (AOp '',''), Some AMinus, Some ADot1, Some AInt, Some (AOp '';''), Some (AOp ''<''),
    Some (AOp ''=''), Some (AOp ''>''), Some AIdent, Some (AKw [(''nd'', 34)]),
    Some (AKw [(''egin'', 8)]), Some (AKw [(''reate'', 2), (''ommit'', 9), (''har'', 31)]),
    Some (AKw [(''rop'', 3), (''elete'', 6), (''atabase'', 16), (''atabases'', 17)]),
    Some (AKw [(''xecfile'', 12)]), Some (AKw [(''rom'', 23), (''loat'', 33)]),
    Some (AKw [(''nsert'', 5), (''ndex'', 20), (''ndexes'', 21), (''nto'', 25), (''nt'', 32), (''s'', 37)]),
    Some (AKw [(''ey'', 29)]), Some (AKw [(''ot'', 36), (''ull'', 38)]),
    Some (AKw [(''n'', 22), (''r'', 35)]), Some (AKw [(''rimary'', 28)]),
    Some (AKw [(''uit'', 11)]), Some (AKw [(''ollback'', 10)]),
    Some (AKw [(''elect'', 4), (''how'', 13), (''et'', 26)]),
    Some (AKw [(''able'', 18), (''ables'', 19)]),
    Some (AKw [(''pdate'', 7), (''se'', 14), (''sing'', 15), (''nique'', 30)]),
    Some (AKw [(''alues'', 27)]), Some (AKw [(''here'', 24)]), Some AStr, Some AStrEnd,
    Some AStrEsc, Some ADot, Some AInt, Some AFrac, Some (AOp ''<=''), Some (AOp ''<>''),
    Some (AOp ''>=''), Some AIdent, Some (AKw [(''d'', 34)]), Some (AKw [(''gin'', 8)]),
    Some (AKw [(''ar'', 31)]), Some (AKw [(''mmit'', 9)]), Some (AKw [(''eate'', 2)]),
    Some (AKw [(''tabase'', 16), (''tabases'', 17)]), Some (AKw [(''lete'', 6)]),
    Some (AKw [(''op'', 3)]), Some (AKw [(''ecfile'', 12)]), Some (AKw [(''oat'', 33)]),
    Some (AKw [(''om'', 23)]),
    Some (AKw [(''sert'', 5), (''dex'', 20), (''dexes'', 21), (''to'', 25), (''t'', 32)]),
    Some (AKw [([], 37)]), Some (AKw [(''y'', 29)]), Some (AKw [(''t'', 36)]),
    Some (AKw [(''ll'', 38)]), Some (AKw [([], 22)]), Some (AKw [([], 35)]),
    Some (AKw [(''imary'', 28)]), Some (AKw [(''it'', 11)]), Some (AKw [(''llback'', 10)]),
    Some (AKw [(''lect'', 4), (''t'', 26)]), Some (AKw [(''ow'', 13)]),
    Some (AKw [(''ble'', 18), (''bles'', 19)]), Some (AKw [(''ique'', 30)]),
    Some (AKw [(''date'', 7)]), Some (AKw [(''e'', 14), (''ing'', 15)]),
    Some (AKw [(''lues'', 27)]), Some (AKw [(''ere'', 24)]), Some (AKw [([], 34)]),
    Some (AKw [(''in'', 8)]), Some (AKw [(''r'', 31)]), Some (AKw [(''mit'', 9)]),
    Some (AKw [(''ate'', 2)]), Some (AKw [(''abase'', 16), (''abases'', 17)]),
    Some (AKw [(''ete'', 6)]), Some (AKw [(''p'', 3)]), Some (AKw [(''cfile'', 12)]),
    Some (AKw [(''at'', 33)]), Some (AKw [(''m'', 23)]),
    Some (AKw [(''ex'', 20), (''exes'', 21)]), Some (AKw [(''ert'', 5)]),
    Some (AKw [(''o'', 25), ([], 32)]), Some (AKw [([], 29)]), Some (AKw [([], 36)]),
    Some (AKw [(''l'', 38)]), Some (AKw [(''mary'', 28)]), Some (AKw [(''t'', 11)]),
    Some (AKw [(''lback'', 10)]), Some (AKw [(''ect'', 4)]), Some (AKw [([], 26)]),
    Some (AKw [(''w'', 13)]), Some (AKw [(''le'', 18), (''les'', 19)]),
    Some (AKw [(''que'', 30)]), Some (AKw [(''ate'', 7)]), Some (AKw [([], 14)]),
    Some (AKw [(''ng'', 15)]), Some (AKw [(''ues'', 27)]), Some (AKw [(''re'', 24)]),
    Some (AKw [(''n'', 8)]), Some (AKw [([], 31)]), Some (AKw [(''it'', 9)]),
    Some (AKw [(''te'', 2)]), Some (AKw [(''base'', 16), (''bases'', 17)]),
    Some (AKw [(''te'', 6)]), Some (AKw [([], 3)]), Some (AKw [(''file'', 12)]),
    Some (AKw [(''t'', 33)]), Some (AKw [([], 23)]), Some (AKw [(''x'', 20), (''xes'', 21)]),
    Some (AKw [(''rt'', 5)]), Some (AKw [([], 25)]), Some (AKw [([], 38)]),
    Some (AKw [(''ary'', 28)]), Some (AKw [([], 11)]), Some (AKw [(''back'', 10)]),
    Some (AKw [(''ct'', 4)]), Some (AKw [([], 13)]), Some (AKw [(''e'', 18), (''es'', 19)]),
    Some (AKw [(''ue'', 30)]), Some (AKw [(''te'', 7)]), Some (AKw [(''g'', 15)]),
    Some (AKw [(''es'', 27)]), Some (AKw [(''e'', 24)]), Some (AKw [([], 8)]),
    Some (AKw [(''t'', 9)]), Some (AKw [(''e'', 2)]),
    Some (AKw [(''ase'', 16), (''ases'', 17)]), Some (AKw [(''e'', 6)]),
    Some (AKw [(''ile'', 12)]), Some (AKw [([], 33)]), Some (AKw [([], 20), (''es'', 21)]),
    Some (AKw [(''t'', 5)]), Some (AKw [(''ry'', 28)]), Some (AKw [(''ack'', 10)]),
    Some (AKw [(''t'', 4)]), Some (AKw [([], 18), (''s'', 19)]), Some (AKw [(''e'', 30)]),
    Some (AKw [(''e'', 7)]), Some (AKw [([], 15)]), Some (AKw [(''s'', 27)]),
    Some (AKw [([], 24)]), Some (AKw [([], 9)]), Some (AKw [([], 2)]),
    Some (AKw [(''se'', 16), (''ses'', 17)]), Some (AKw [([], 6)]), Some (AKw [(''le'', 12)]),
    Some (AKw [(''s'', 21)]), Some (AKw [([], 5)]), Some (AKw [(''y'', 28)]),
    Some (AKw [(''ck'', 10)]), Some (AKw [([], 4)]), Some (AKw [([], 19)]),
    Some (AKw [([], 30)]), Some (AKw [([], 7)]), Some (AKw [([], 27)]),
    Some (AKw [(''e'', 16), (''es'', 17)]), Some (AKw [(''e'', 12)]), Some (AKw [([], 21)]),
    Some (AKw [([], 28)]), Some (AKw [(''k'', 10)]), Some (AKw [([], 16), (''s'', 17)]),
    Some (AKw [([], 12)]), Some (AKw [([], 10)]), Some (AKw [([], 17)]), Some AJam]"

section \<open>Checking the tables\<close>

text \<open>A character of every equivalence class of \<open>yy_ec\<close>.\<close>

definition class_rep :: string where
  "class_rep = [CHR 0x00, CHR 0x01, CHR '' '', CHR 0x0A, CHR 0x22, CHR 0x27, CHR ''('', CHR '')'', CHR ''*'',
     CHR '','', CHR ''-'', CHR ''.'', CHR ''0'', CHR '';'', CHR ''<'', CHR ''='', CHR ''>'', CHR ''A'', CHR 0x5C,
     CHR ''a'', CHR ''b'', CHR ''c'', CHR ''d'', CHR ''e'', CHR ''f'', CHR ''g'', CHR ''h'', CHR ''i'', CHR ''k'',
     CHR ''l'', CHR ''m'', CHR ''n'', CHR ''o'', CHR ''p'', CHR ''q'', CHR ''r'', CHR ''s'', CHR ''t'', CHR ''u'',
     CHR ''v'', CHR ''w'', CHR ''x'', CHR ''y'']"

text \<open>The entries of \<open>yy_chk\<close> and \<open>yy_nxt\<close> in their order: owner, class and successor.\<close>

definition owned_entries :: "(int \<times> int \<times> int) list" where
  "owned_entries =
    [(0, 0, 0), (1, 1, 4), (1, 2, 5), (1, 3, 6), (1, 4, 7), (1, 5, 8), (1, 6, 9), (1, 7, 10),
    (1, 8, 11), (1, 9, 12), (1, 10, 13), (1, 11, 14), (1, 12, 15), (1, 13, 16), (1, 14, 17),
    (1, 15, 18), (1, 16, 19), (1, 17, 20), (1, 18, 4), (1, 19, 21), (1, 20, 22), (1, 21, 23),
    (1, 22, 24), (1, 23, 25), (1, 24, 26), (1, 25, 20), (1, 26, 20), (1, 27, 27), (1, 28, 28),
    (1, 29, 20), (1, 30, 20), (1, 31, 29), (1, 32, 30), (1, 33, 31), (1, 34, 32), (1, 35, 33),
    (1, 36, 34), (1, 37, 35), (1, 38, 36), (1, 39, 37), (1, 40, 38), (1, 41, 20), (1, 42, 20),
    (7, 4, 40), (13, 11, 42), (13, 12, 43), (15, 11, 42), (15, 12, 43), (17, 15, 45),
    (17, 16, 46), (23, 26, 51), (24, 19, 54), (26, 29, 58), (43, 11, 42), (43, 12, 43),
    (24, 23, 55), (23, 32, 52), (7, 18, 41), (26, 35, 59), (23, 35, 53), (27, 31, 60),
    (34, 23, 70), (29, 32, 63), (39, 4, 40), (34, 26, 71), (27, 36, 61), (30, 31, 65),
    (24, 35, 56), (29, 38, 64), (36, 31, 73), (30, 35, 66), (36, 33, 74), (60, 22, 89),
    (70, 29, 98), (36, 36, 75), (75, 23, 104), (176, 2, 48), (39, 18, 41), (170, 36, 173),
    (75, 27, 105), (169, 28, 172), (70, 37, 99), (166, 23, 171), (165, 23, 170), (159, 21, 169),
    (158, 42, 168), (60, 36, 90), (60, 37, 91), (175, 1, 39), (175, 2, 39), (156, 36, 167),
    (155, 29, 166), (153, 36, 165), (149, 36, 164), (147, 23, 163), (146, 23, 162),
    (145, 36, 161), (144, 37, 160), (143, 19, 159), (142, 35, 158), (141, 37, 157),
    (140, 23, 156), (138, 27, 155), (137, 23, 154), (136, 19, 153), (135, 23, 152),
    (134, 37, 151), (132, 23, 150), (131, 23, 149), (130, 25, 148), (129, 37, 147),
    (128, 38, 146), (127, 23, 145), (125, 21, 144), (124, 20, 143), (122, 19, 142),
    (119, 35, 141), (118, 41, 140), (116, 37, 139), (115, 24, 138), (113, 37, 137),
    (112, 20, 136), (111, 37, 135), (110, 27, 134), (108, 31, 133), (107, 35, 132),
    (106, 38, 131), (105, 31, 130), (103, 19, 129), (102, 34, 128), (101, 29, 127),
    (100, 40, 126), (98, 23, 125), (97, 29, 124), (96, 37, 123), (95, 30, 122), (94, 29, 121),
    (91, 32, 120), (90, 23, 119), (89, 23, 118), (88, 30, 117), (87, 19, 116), (86, 21, 115),
    (85, 33, 114), (84, 23, 113), (83, 19, 112), (82, 19, 111), (81, 30, 110), (80, 35, 109),
    (79, 27, 108), (77, 23, 107), (76, 29, 106), (74, 22, 103), (73, 27, 102), (72, 20, 101),
    (71, 32, 100), (69, 29, 97), (68, 27, 96), (67, 27, 95), (64, 29, 94), (63, 37, 93),
    (62, 42, 92), (59, 32, 88), (58, 32, 87), (57, 23, 86), (56, 32, 85), (55, 29, 84),
    (54, 37, 83), (53, 23, 82), (52, 30, 81), (51, 19, 80), (50, 25, 79), (49, 22, 78),
    (44, 12, 44), (42, 12, 44), (41, 3, 174), (38, 26, 77), (37, 19, 76), (35, 19, 72),
    (33, 32, 69), (32, 38, 68), (31, 35, 67), (28, 23, 62), (25, 41, 57), (22, 23, 50),
    (21, 31, 49), (19, 15, 47), (14, 12, 44), (3, 0, 174), (174, 0, 3), (174, 1, 174),
    (174, 2, 174), (174, 3, 174), (174, 4, 174), (174, 5, 174), (174, 6, 174), (174, 7, 174),
    (174, 8, 174), (174, 9, 174), (174, 10, 174), (174, 11, 174), (174, 12, 174),
    (174, 13, 174), (174, 14, 174), (174, 15, 174), (174, 16, 174), (174, 17, 174),
    (174, 18, 174), (174, 19, 174), (174, 20, 174), (174, 21, 174), (174, 22, 174),
    (174, 23, 174), (174, 24, 174), (174, 25, 174), (174, 26, 174), (174, 27, 174),
    (174, 28, 174), (174, 29, 174), (174, 30, 174), (174, 31, 174), (174, 32, 174),
    (174, 33, 174), (174, 34, 174), (174, 35, 174), (174, 36, 174), (174, 37, 174),
    (174, 38, 174), (174, 39, 174), (174, 40, 174), (174, 41, 174), (174, 42, 174)]"

definition classes :: "int list" where
  "classes = [1, 2, 3, 4, 5, 6, 7, 8, 9, 10, 11, 12, 13, 14, 15, 16, 17, 18, 19, 20, 21, 22, 23, 24, 25, 26,
     27, 28, 29, 30, 31, 32, 33, 34, 35, 36, 37, 38, 39, 40, 41, 42]"

definition rep :: "int \<Rightarrow> char" where
  "rep c = (case tab class_rep c of Some x \<Rightarrow> x | None \<Rightarrow> NUL)"

definition describes :: "int \<Rightarrow> astate \<Rightarrow> bool" where
  "describes s a \<longleftrightarrow> tab state_desc s = Some (Some a)"

definition owns :: "int \<Rightarrow> int \<Rightarrow> bool" where
  "owns s c \<longleftrightarrow> (case tab yy_base s of None \<Rightarrow> False | Some b \<Rightarrow> tab yy_chk (b + c) = Some s)"

lemmas yy_base_entries = tab_entries[OF yy_base_def, simplified]
lemmas yy_chk_entries = tab_entries[OF yy_chk_def, simplified]
lemmas yy_nxt_entries = tab_entries[OF yy_nxt_def, simplified]
lemmas yy_def_entries = tab_entries[OF yy_def_def, simplified]
lemmas yy_meta_entries = tab_entries[OF yy_meta_def, simplified]
lemmas yy_ec_entries = tab_entries[OF yy_ec_def, simplified]
lemmas yy_accept_entries = tab_entries[OF yy_accept_def, simplified]
lemmas state_desc_entries = tab_entries[OF state_desc_def, simplified]
lemmas class_rep_entries = tab_entries[OF class_rep_def, simplified]

text \<open>Every entry of the tables leads to a state with the right description.\<close>

fun owners_ok :: "int \<Rightarrow> (int \<times> int \<times> int) list \<Rightarrow> bool" where
  "owners_ok i [] = True"
| "owners_ok i ((k, c, n) # es) =
     (tab yy_chk i = Some k \<and> tab yy_nxt i = Some n \<and> tab yy_base k = Some (i - c) \<and> owners_ok (i + 1) es)"

lemma owned_entries_ok: "owners_ok 0 owned_entries"
  by (simp add: owned_entries_def yy_base_entries yy_chk_entries yy_nxt_entries)

fun entry_ok :: "int \<times> int \<times> int \<Rightarrow> bool" where
  "entry_ok (s, c, n) =
     (case tab state_desc s of
        Some (Some a) \<Rightarrow> c = 0 \<or> tab state_desc n = Some (Some (adelta a (rep c)))
      | _ \<Rightarrow> True)"

lemmas char_class_simps = rep_def class_rep_entries is_letter_def is_digit_def is_word_char_def is_space_def
  kw_state_def NUL_def

lemma state_desc_length: "length state_desc = 175"
  by (simp add: state_desc_def)

lemma state_desc_beyond: "175 \<le> s \<Longrightarrow> tab state_desc s = None"
  by (simp add: tab_def state_desc_length)

lemma entries_described: "list_all entry_ok owned_entries"
  unfolding owned_entries_def
  by (simp add: state_desc_entries state_desc_beyond char_class_simps keyword_table_def operator_table_def)

text \<open>Where a state owns no entry, the template it defers to has the right one.\<close>

definition default_ok :: "int \<Rightarrow> astate \<Rightarrow> bool" where
  "default_ok s a =
     (case tab yy_def s of
        None \<Rightarrow> False
      | Some d \<Rightarrow>
          if d = 176 then
            (case a of
               AKw rs \<Rightarrow> list_all (\<lambda>(k, r). case k of [] \<Rightarrow> True | x # _ \<Rightarrow>
                           (case tab yy_ec (of_char x) of None \<Rightarrow> False | Some c \<Rightarrow> owns s c)) rs
             | AIdent \<Rightarrow> True
             | _ \<Rightarrow> False)
          else if d = 175 then list_all (\<lambda>c. owns s c \<or> adelta a (rep c) = AStr) classes
          else if d = 174 then list_all (\<lambda>c. owns s c \<or> adelta a (rep c) = AJam) classes
          else s = 174)"

fun states_ok :: "(int \<Rightarrow> astate \<Rightarrow> bool) \<Rightarrow> int \<Rightarrow> astate option list \<Rightarrow> bool" where
  "states_ok P i [] = True"
| "states_ok P i (d # ds) = ((case d of None \<Rightarrow> True | Some a \<Rightarrow> P i a) \<and> states_ok P (i + 1) ds)"

lemma states_ok_nth: "states_ok P i ds \<Longrightarrow> j < length ds \<Longrightarrow> ds ! j = Some a \<Longrightarrow> P (i + int j) a"
proof (induction ds arbitrary: i j)
  case (Cons d ds)
  then show ?case by (cases j) (fastforce simp: add.assoc)+
qed simp

lemma describes_states_ok: "states_ok P 0 state_desc \<Longrightarrow> describes s a \<Longrightarrow> P s a"
  using states_ok_nth[of P 0 state_desc "nat s" a] by (auto simp: describes_def tab_Some_iff)

lemma defaults_ok: "states_ok default_ok 0 state_desc"
  unfolding state_desc_def
  by (simp add: default_ok_def owns_def classes_def yy_def_entries yy_base_entries yy_chk_entries yy_ec_entries
      char_class_simps operator_table_def)

lemma accepts_ok: "states_ok (\<lambda>s a. tab yy_accept s = Some (aaccept a)) 0 state_desc"
  unfolding state_desc_def
  by (simp add: yy_accept_entries operator_table_def)

text \<open>Transitions of the tables on a class: either the state owns the entry or it defers.\<close>

lemma yy_trans_step:
  "tab yy_base s = Some b \<Longrightarrow> tab yy_chk (b + c) = Some k \<Longrightarrow>
   yy_trans s c =
     (if k = s then tab yy_nxt (b + c)
      else do { d \<leftarrow> tab yy_def s; c' \<leftarrow> (if d \<ge> 175 then tab yy_meta c else Some c); yy_trans d c' })"
  by (subst yy_trans.simps) simp

lemma owners_ok_nth:
  "owners_ok i es \<Longrightarrow> j < length es \<Longrightarrow> es ! j = (k, c, n) \<Longrightarrow>
   tab yy_chk (i + int j) = Some k \<and> tab yy_nxt (i + int j) = Some n \<and> tab yy_base k = Some (i + int j - c)"
proof (induction es arbitrary: i j)
  case (Cons e es)
  show ?case
  proof (cases j)
    case 0
    then show ?thesis using Cons.prems by simp
  next
    case (Suc j')
    obtain k' c' n' where "e = (k', c', n')" by (cases e)
    then show ?thesis using Cons.prems Cons.IH[of "i + 1" j'] Suc by (simp add: add.assoc)
  qed
qed simp

lemma lex_table_lengths: "length owned_entries = 232" "length yy_chk = 232" "length yy_base = 177"
  by (simp_all add: owned_entries_def yy_chk_def yy_base_def)

lemma owned_entry:
  assumes "tab yy_base s = Some b" and "tab yy_chk (b + c) = Some s"
  obtains n where "tab yy_nxt (b + c) = Some n" "(s, c, n) \<in> set owned_entries"
proof -
  let ?j = "nat (b + c)"
  have j: "0 \<le> b + c" "?j < length owned_entries"
    using assms(2) by (auto simp: tab_Some_iff lex_table_lengths)
  obtain k c' n where e: "owned_entries ! ?j = (k, c', n)" using prod_cases3 by blast
  have "tab yy_chk (b + c) = Some k" "tab yy_nxt (b + c) = Some n" "tab yy_base k = Some (b + c - c')"
    using owners_ok_nth[OF owned_entries_ok j(2) e] j(1) by simp_all
  then have "k = s" "c' = c" "tab yy_nxt (b + c) = Some n" using assms by simp_all
  with e j(2) show thesis using that nth_mem by metis
qed

lemma base_bound: "tab yy_base s = Some b \<Longrightarrow> 0 \<le> b \<and> b \<le> 189"
  by (rule tab_list_all[where P = "\<lambda>b. 0 \<le> b \<and> b \<le> 189" and xs = yy_base]) (simp_all add: yy_base_def)

lemma meta_bound: "c \<in> set classes \<Longrightarrow> tab yy_meta c = Some (if is_word_char (rep c) then 2 else 1)"
proof -
  have "list_all (\<lambda>c. tab yy_meta c = Some (if is_word_char (rep c) then 2 else 1)) classes"
    by (simp add: classes_def yy_meta_entries char_class_simps)
  then show "c \<in> set classes \<Longrightarrow> ?thesis" by (simp add: list_all_iff)
qed

lemma classes_iff: "c \<in> set classes \<longleftrightarrow> 1 \<le> c \<and> c \<le> 42"
  unfolding classes_def by simp presburger

lemma jam_trans: "c \<in> set classes \<Longrightarrow> yy_trans 174 c = Some 174"
proof -
  have "list_all (\<lambda>c. tab yy_chk (189 + c) = Some 174 \<and> tab yy_nxt (189 + c) = Some 174) classes"
    by (simp add: classes_def yy_chk_entries yy_nxt_entries)
  then show "c \<in> set classes \<Longrightarrow> ?thesis"
    by (simp add: list_all_iff yy_trans_step[of 174 189 c 174] yy_base_entries)
qed

lemma template_trans:
  "yy_trans 176 1 = Some 174" "yy_trans 176 2 = Some 48" "yy_trans 175 1 = Some 39" "yy_trans 175 2 = Some 39"
  by (simp_all add: yy_trans_step yy_base_entries yy_chk_entries yy_nxt_entries yy_def_entries)

lemma rep_class: "c \<in> set classes \<Longrightarrow> tab yy_ec (of_char (rep c)) = Some c"
proof -
  have "list_all (\<lambda>c. tab yy_ec (of_char (rep c)) = Some c) classes"
    by (simp add: classes_def yy_ec_entries char_class_simps)
  then show "c \<in> set classes \<Longrightarrow> ?thesis" by (simp add: list_all_iff)
qed

lemma kw_step_Nil: "(\<And>k r. (k, r) \<in> set rs \<Longrightarrow> k = [] \<or> hd k \<noteq> x) \<Longrightarrow> kw_step rs x = []"
proof (induction rs x rule: kw_step.induct)
  case (3 d k r rs c)
  then show ?case by (metis kw_step.simps(3) list.distinct(1) list.sel(1) list.set_intros)
qed auto

theorem table_step:
  assumes "describes s a" and "c \<in> set classes"
  shows "\<exists>n. yy_trans s c = Some n \<and> describes n (adelta a (rep c))"
proof -
  have sr: "0 \<le> s" "s < 175" using assms(1) by (auto simp: describes_def tab_Some_iff state_desc_length)
  then obtain b where b: "tab yy_base s = Some b" using tab_in_range[of s yy_base] by (auto simp: lex_table_lengths)
  have cr: "1 \<le> c" "c \<le> 42" using assms(2) by (simp_all add: classes_iff)
  then obtain k where k: "tab yy_chk (b + c) = Some k"
    using tab_in_range[of "b + c" yy_chk] base_bound[OF b] by (auto simp: lex_table_lengths)
  note step = yy_trans_step[OF b k]
  show ?thesis
  proof (cases "k = s")
    case True
    then obtain n where n: "tab yy_nxt (b + c) = Some n" "(s, c, n) \<in> set owned_entries"
      using owned_entry[OF b] k by blast
    then have "entry_ok (s, c, n)" using entries_described unfolding list_all_iff by blast
    then have "describes n (adelta a (rep c))" using assms(1) cr(1) by (auto simp: describes_def)
    then show ?thesis using step True n(1) by simp
  next
    case False
    then have no: "\<not> owns s c" using b k by (simp add: owns_def)
    from describes_states_ok[OF defaults_ok assms(1)] obtain d where d: "tab yy_def s = Some d"
      and ok: "default_ok s a" by (auto simp: default_ok_def split: option.splits)
    have cl: "owns s c \<or> adelta a (rep c) = x" if "list_all (\<lambda>c. owns s c \<or> adelta a (rep c) = x) classes" for x
      using that assms(2) by (simp add: list_all_iff)
    consider "d = 176" | "d = 175" | "d = 174" | "d \<notin> {174, 175, 176}" by blast
    then show ?thesis
    proof cases
      case 1
      have "adelta a (rep c) = (if is_word_char (rep c) then AIdent else AJam)"
      proof (cases a)
        case (AKw rs)
        have "kw_step rs (rep c) = []"
        proof (rule kw_step_Nil, rule ccontr)
          fix k' r assume k': "(k', r) \<in> set rs" "\<not> (k' = [] \<or> hd k' \<noteq> rep c)"
          then have "owns s c" using ok d 1 AKw rep_class[OF assms(2)]
            by (fastforce simp: default_ok_def list_all_iff neq_Nil_conv)
          then show False using no by simp
        qed
        then show ?thesis using AKw by (simp add: kw_state_def)
      qed (use ok d 1 in \<open>simp_all add: default_ok_def\<close>)
      moreover have "describes 48 AIdent" "describes 174 AJam" by (simp_all add: describes_def state_desc_entries)
      ultimately show ?thesis using step False d 1 meta_bound[OF assms(2)] template_trans by simp
    next
      case 2
      then have "adelta a (rep c) = AStr" using cl ok d no by (auto simp: default_ok_def)
      moreover have "describes 39 AStr" by (simp add: describes_def state_desc_entries)
      ultimately show ?thesis using step False d 2 meta_bound[OF assms(2)] template_trans by simp
    next
      case 3
      then have "adelta a (rep c) = AJam" using cl ok d no by (auto simp: default_ok_def)
      moreover have "describes 174 AJam" by (simp add: describes_def state_desc_entries)
      ultimately show ?thesis using step False d 3 jam_trans[OF assms(2)] by simp
    next
      case 4
      then have "s = 174" using ok d by (simp add: default_ok_def)
      moreover have "a = AJam" using assms(1) \<open>s = 174\<close> by (simp add: describes_def state_desc_entries)
      ultimately show ?thesis using jam_trans[OF assms(2)] assms(1) by simp
    qed
  qed
qed

section \<open>Characters of the same class\<close>

definition special :: "char \<Rightarrow> bool" where
  "special x \<longleftrightarrow> (case tab yy_ec (of_char x) of None \<Rightarrow> False | Some c \<Rightarrow> c \<notin> {0, 1, 2, 12, 17})"

definition class_ok :: "char \<Rightarrow> bool" where
  "class_ok x =
     (case tab yy_ec (of_char x) of
        None \<Rightarrow> False
      | Some c \<Rightarrow>
          if c = 0 then x = NUL
          else if c = 1 \<or> c = 2 \<or> c = 12 \<or> c = 17
          then is_letter x = (c = 17) \<and> is_digit x = (c = 12) \<and> is_space x = (c = 2)
          else rep c = x \<and> 1 \<le> c \<and> c \<le> 42)"

lemma all_classes_ok: "class_ok x"
proof (cases x)
  case (Char b0 b1 b2 b3 b4 b5 b6 b7)
  show ?thesis
    unfolding Char class_ok_def
    by (cases b0; cases b1; cases b2; cases b3; cases b4; cases b5; cases b6; cases b7)
      (simp_all add: yy_ec_entries char_class_simps)
qed

lemma kw_special: "states_ok (\<lambda>s a. case a of AKw rs \<Rightarrow> list_all (\<lambda>(k, r). list_all special k) rs | _ \<Rightarrow> True) 0 state_desc"
  unfolding state_desc_def by (simp add: special_def yy_ec_entries)

lemma table_special: "list_all (\<lambda>(k, r). list_all special k) (keyword_table @ operator_table)"
  by (simp add: keyword_table_def operator_table_def special_def yy_ec_entries)

lemma special_chars:
  "special CHR 0x22" "special CHR 0x5C" "special CHR 0x0A" "special CHR ''-''" "special CHR ''.''"
  by (simp_all add: special_def yy_ec_entries)

lemma kw_step_special: "list_all (\<lambda>(k, r). list_all special k) rs \<Longrightarrow> \<not> special x \<Longrightarrow> kw_step rs x = []"
  by (rule kw_step_Nil) (auto simp: list_all_iff neq_Nil_conv)

lemma operator_special:
  assumes "\<not> special x"
  shows "map_of operator_table (p @ [x]) = None"
proof (rule ccontr)
  assume "map_of operator_table (p @ [x]) \<noteq> None"
  then have "p @ [x] \<in> fst ` set operator_table" by (simp add: map_of_eq_None_iff)
  then show False using table_special assms by (force simp: list_all_iff)
qed

lemma adelta_plain:
  assumes "\<not> special x" "\<not> special y" "is_letter x = is_letter y" "is_digit x = is_digit y" "is_space x = is_space y"
    and "case a of AKw rs \<Rightarrow> list_all (\<lambda>(k, r). list_all special k) rs | _ \<Rightarrow> True"
  shows "adelta a x = adelta a y"
proof -
  have ne: "x \<noteq> CHR 0x22" "x \<noteq> CHR 0x5C" "x \<noteq> CHR 0x0A" "x \<noteq> CHR ''-''" "x \<noteq> CHR ''.''"
    "y \<noteq> CHR 0x22" "y \<noteq> CHR 0x5C" "y \<noteq> CHR 0x0A" "y \<noteq> CHR ''-''" "y \<noteq> CHR ''.''"
    using assms(1,2) special_chars by auto
  have kt: "kw_step keyword_table x = []" "kw_step keyword_table y = []"
    using table_special assms(1,2) kw_step_special by simp_all
  show ?thesis
  proof (cases a)
    case (AKw rs)
    then show ?thesis using assms kw_step_special[of rs] by (simp add: is_word_char_def)
  qed (use assms(3-5) ne kt operator_special[OF assms(1)] operator_special[OF assms(2)]
        operator_special[OF assms(1), of "[]"] operator_special[OF assms(2), of "[]"] in \<open>simp_all add: is_word_char_def\<close>)
qed

lemma class_rep_adelta:
  assumes "describes s a" and "x \<noteq> NUL"
  shows "\<exists>c \<in> set classes. tab yy_ec (of_char x) = Some c \<and> adelta a x = adelta a (rep c)"
proof -
  from all_classes_ok[of x] obtain c where c: "tab yy_ec (of_char x) = Some c" by (auto simp: class_ok_def split: option.splits)
  have c0: "c \<noteq> 0" using all_classes_ok[of x] c assms(2) by (auto simp: class_ok_def)
  show ?thesis
  proof (cases "c \<in> {1, 2, 12, 17}")
    case True
    then have cl: "c \<in> set classes" by (auto simp: classes_iff)
    then have r: "tab yy_ec (of_char (rep c)) = Some c" by (rule rep_class)
    have "\<not> special x" "\<not> special (rep c)" using True c r by (auto simp: special_def)
    moreover have "is_letter x = is_letter (rep c)" "is_digit x = is_digit (rep c)" "is_space x = is_space (rep c)"
      using all_classes_ok[of x] all_classes_ok[of "rep c"] True c r by (auto simp: class_ok_def)
    ultimately have "adelta a x = adelta a (rep c)"
      using describes_states_ok[OF kw_special assms(1)] by (rule adelta_plain)
    then show ?thesis using c cl by blast
  next
    case False
    then have "rep c = x" "c \<in> set classes"
      using all_classes_ok[of x] c c0 by (auto simp: class_ok_def classes_iff)
    then show ?thesis using c by auto
  qed
qed

text \<open>The tables follow the automaton on every character but the null character, which marks the end
  of the buffer.\<close>

lemma char_step:
  assumes "describes s a" and "x \<noteq> NUL"
  shows "\<exists>c n. tab yy_ec (of_char x) = Some c \<and> yy_trans s c = Some n \<and> describes n (adelta a x)"
proof -
  obtain c where c: "c \<in> set classes" "tab yy_ec (of_char x) = Some c" "adelta a x = adelta a (rep c)"
    using class_rep_adelta[OF assms] by blast
  with table_step[OF assms(1) c(1)] show ?thesis by auto
qed

lemma eob_class: "tab yy_ec (of_char NUL) = Some 0"
  by (simp add: yy_ec_entries NUL_def)

lemma eob_trans: "states_ok (\<lambda>s a. yy_trans s 0 = Some 3) 0 state_desc"
  unfolding state_desc_def
  by (simp add: yy_trans_step yy_base_entries yy_chk_entries yy_nxt_entries yy_def_entries yy_meta_entries)

lemma eob_facts: "yy_trans 3 0 = Some 174" "tab yy_accept 3 = Some 57" "tab yy_base 3 = Some 188"
  "tab yy_base 174 = Some 189" "tab yy_accept 174 = Some 0"
  by (simp_all add: yy_trans_step yy_base_entries yy_chk_entries yy_nxt_entries yy_def_entries yy_accept_entries)

text \<open>The matching loop leaves as soon as no text can follow.\<close>

definition final :: "astate \<Rightarrow> bool" where
  "final a = (case a of AJam \<Rightarrow> True | AOther \<Rightarrow> True | AWs \<Rightarrow> True | AStrEnd \<Rightarrow> True
     | AOp p \<Rightarrow> p \<notin> {[], ''<'', ''>''} | _ \<Rightarrow> False)"

lemma final_base: "states_ok (\<lambda>s a. (tab yy_base s = Some 189) = final a) 0 state_desc"
  unfolding state_desc_def by (simp add: final_def yy_base_entries)

lemma final_adelta:
  assumes "final a"
  shows "adelta a x = AJam"
proof (cases a)
  case (AOp p)
  have "map_of operator_table (p @ [x]) = None"
  proof (rule ccontr)
    assume "map_of operator_table (p @ [x]) \<noteq> None"
    then have "p @ [x] \<in> fst ` set operator_table" by (simp add: map_of_eq_None_iff)
    then have "p \<in> {[], ''<'', ''>''}" by (auto simp: operator_table_def append_eq_Cons_conv)
    then show False using assms AOp by (simp add: final_def)
  qed
  then show ?thesis using AOp by simp
qed (use assms in \<open>simp_all add: final_def\<close>)

section \<open>The automaton decides the patterns\<close>

definition arun :: "string \<Rightarrow> astate" where
  "arun w = foldl adelta ABegin w"

lemma foldl_AJam [simp]: "foldl adelta AJam w = AJam"
  by (induction w) simp_all

lemma string_run: "foldl adelta AStr cs = AStrEnd \<longleftrightarrow> string_body cs"
proof (induction cs rule: string_body.induct)
  case (3 c d cs)
  consider "c = CHR 0x22" | "c \<noteq> CHR 0x22" "c = CHR 0x5C" | "c \<noteq> CHR 0x22" "c \<noteq> CHR 0x5C" by blast
  then show ?case
  proof cases
    case 2
    then show ?thesis using "3.IH"(1)[OF 2] by simp
  next
    case 3
    have "foldl adelta AStr (c # d # cs) = foldl adelta AStr (d # cs)" using 3 by simp
    then show ?thesis using "3.IH"(2)[OF 3] 3 by (simp only: string_body.simps if_False)
  qed simp
qed auto

lemma string_run_states: "a \<in> {AStr, AStrEsc, AStrEnd, AJam} \<Longrightarrow> foldl adelta a cs \<in> {AStr, AStrEsc, AStrEnd, AJam}"
proof (induction cs arbitrary: a)
  case (Cons c cs)
  have "adelta a c \<in> {AStr, AStrEsc, AStrEnd, AJam}" using Cons.prems by (auto split: if_splits)
  from Cons.IH[OF this] show ?case by simp
qed simp

lemma quote_run: "cs \<noteq> [] \<Longrightarrow> foldl adelta AQuote cs = foldl adelta AStr cs"
  by (cases cs) simp_all

lemma map_of_kw_step: "map_of (kw_step rs c) k = map_of rs (c # k)"
  by (induction rs c rule: kw_step.induct) auto

lemma map_of_foldl_kw_step: "map_of (foldl kw_step rs cs) k = map_of rs (cs @ k)"
  by (induction cs arbitrary: rs) (simp_all add: map_of_kw_step)

lemma foldl_kw_step_Nil [simp]: "foldl kw_step [] cs = []"
  by (induction cs) simp_all

lemma word_run:
  "foldl adelta (kw_state rs) cs = (if list_all is_word_char cs then kw_state (foldl kw_step rs cs) else AJam)"
proof (induction cs arbitrary: rs)
  case (Cons c cs)
  have "adelta (kw_state rs) c = (if is_word_char c then kw_state (kw_step rs c) else AJam)"
    by (simp add: kw_state_def)
  then show ?case using Cons by simp
qed simp

lemma AFrac_run: "foldl adelta AFrac cs = (if list_all is_digit cs then AFrac else AJam)"
  by (induction cs) simp_all

lemma frac_run:
  assumes "a \<in> {ADot, ADot1, AFrac}" and "cs \<noteq> []"
  shows "aaccept (foldl adelta a cs) = (if list_all is_digit cs then 40 else 0)"
proof -
  obtain c ds where "cs = c # ds" using assms(2) by (cases cs) auto
  moreover have "adelta a c = (if is_digit c then AFrac else AJam)" using assms(1) by auto
  ultimately show ?thesis by (simp add: AFrac_run)
qed

definition fraction_tail :: "string \<Rightarrow> bool" where
  "fraction_tail cs \<longleftrightarrow> (case cs of [] \<Rightarrow> False | c # ds \<Rightarrow> c = CHR ''.'' \<and> ds \<noteq> [] \<and> list_all is_digit ds)"

lemma is_fraction_tail: "is_fraction w = fraction_tail (dropWhile is_digit (unsigned_part w))"
  by (simp add: is_fraction_def fraction_tail_def)

lemma digits_no_fraction: "list_all is_digit cs \<Longrightarrow> \<not> fraction_tail (dropWhile is_digit cs)"
proof -
  assume "list_all is_digit cs"
  then have "dropWhile is_digit cs = []" by (simp add: list_all_iff)
  then show ?thesis by (simp only: fraction_tail_def list.case not_False_eq_True)
qed

lemma dot_not_digit [simp]: "\<not> is_digit CHR ''.''"
  by (simp add: is_digit_def)

lemma AInt_run:
  "aaccept (foldl adelta AInt cs) =
     (if list_all is_digit cs then 41 else if fraction_tail (dropWhile is_digit cs) then 40 else 0)"
proof (induction cs)
  case (Cons c cs)
  show ?case
  proof (cases "is_digit c")
    case True
    then show ?thesis using Cons by simp
  next
    case False
    then show ?thesis using frac_run[of ADot cs] by (cases "cs = []") (auto simp: fraction_tail_def)
  qed
qed simp

lemma AMinus_run: "aaccept (foldl adelta AMinus cs) = aaccept (foldl adelta AInt cs)"
  by (cases cs) simp_all

lemma keyword_words: "map_of keyword_table w = Some r \<Longrightarrow> is_identifier w"
proof -
  have "list_all (\<lambda>(k, r). is_identifier k) keyword_table"
    by (simp add: keyword_table_def is_identifier_def is_word_char_def is_letter_def)
  then show "map_of keyword_table w = Some r \<Longrightarrow> ?thesis" by (auto simp: list_all_iff dest!: map_of_SomeD)
qed

lemma operator_words:
  assumes "map_of operator_table (c # cs) = Some r"
  shows "\<not> is_letter c \<and> \<not> is_digit c \<and> c \<noteq> CHR 0x22 \<and> c \<noteq> CHR ''-'' \<and> c \<noteq> CHR ''.'' \<and> \<not> is_space c \<and>
    map_of operator_table [c] \<noteq> None"
proof -
  have "list_all (\<lambda>(w, r). case w of [] \<Rightarrow> False | c # cs \<Rightarrow> \<not> is_letter c \<and> \<not> is_digit c \<and> c \<noteq> CHR 0x22 \<and>
      c \<noteq> CHR ''-'' \<and> c \<noteq> CHR ''.'' \<and> \<not> is_space c \<and> map_of operator_table [c] \<noteq> None) operator_table"
    by (simp add: operator_table_def is_letter_def is_digit_def is_space_def)
  then show ?thesis using assms by (fastforce simp: list_all_iff dest!: map_of_SomeD)
qed

lemma letter_facts:
  assumes "is_letter c"
  shows "\<not> is_digit c" "c \<noteq> CHR 0x22" "c \<noteq> CHR ''-''" "c \<noteq> CHR ''.''" "\<not> is_space c"
  using assms by (auto simp: is_letter_def is_digit_def is_space_def Let_def)

lemma digit_facts:
  assumes "is_digit c"
  shows "\<not> is_letter c" "c \<noteq> CHR 0x22" "c \<noteq> CHR ''-''" "c \<noteq> CHR ''.''" "\<not> is_space c"
  using assms by (auto simp: is_letter_def is_digit_def is_space_def Let_def)

lemma operator_none:
  "is_letter c \<Longrightarrow> map_of operator_table (c # cs) = None"
  "is_digit c \<Longrightarrow> map_of operator_table (c # cs) = None"
  "map_of operator_table (CHR 0x22 # cs) = None"
  "map_of operator_table (CHR ''-'' # cs) = None"
  "map_of operator_table (CHR ''.'' # cs) = None"
  "is_space c \<Longrightarrow> map_of operator_table (c # cs) = None"
  using operator_words by (metis not_None_eq)+

lemma keyword_none: "\<not> is_identifier w \<Longrightarrow> map_of keyword_table w = None"
  using keyword_words by (cases "map_of keyword_table w") auto

lemma not_letter_ident: "\<not> is_letter c \<Longrightarrow> \<not> is_identifier (c # cs)"
  by (simp add: is_identifier_def)

text \<open>A text that starts like a number.\<close>

lemma rule_of_number:
  assumes "\<not> is_letter c" and "c \<noteq> CHR 0x22"
  shows "rule_of (c # cs) =
    (if is_fraction (c # cs) then 40 else if is_integer (c # cs) then 41
     else case map_of operator_table (c # cs) of Some r \<Rightarrow> r | None \<Rightarrow> if cs = [] then (if is_space c then 54 else 55) else 0)"
  using assms keyword_none[OF not_letter_ident[OF assms(1)]] not_letter_ident[OF assms(1)]
  by (auto simp: rule_of_def is_string_def split: option.splits list.splits)

lemma operator_run: "p \<noteq> [] \<Longrightarrow> map_of operator_table p \<noteq> None \<Longrightarrow>
  aaccept (foldl adelta (AOp p) cs) = (case map_of operator_table (p @ cs) of Some r \<Rightarrow> r | None \<Rightarrow> 0)"
proof (induction cs arbitrary: p)
  case (Cons c cs)
  show ?case
  proof (cases "map_of operator_table (p @ [c])")
    case None
    have "map_of operator_table (p @ c # cs) = None"
    proof (rule ccontr)
      assume "map_of operator_table (p @ c # cs) \<noteq> None"
      then have "p @ c # cs \<in> fst ` set operator_table" by (simp add: map_of_eq_None_iff)
      with Cons.prems(1) have "cs = []" by (auto simp: operator_table_def append_eq_Cons_conv Cons_eq_append_conv)
      with None \<open>map_of operator_table (p @ c # cs) \<noteq> None\<close> show False by simp
    qed
    then show ?thesis using None by simp
  next
    case (Some r)
    then show ?thesis using Cons.IH[of "p @ [c]"] by simp
  qed
qed auto

theorem rule_of_arun: "rule_of w = aaccept (arun w)"
proof (cases w)
  case Nil
  then show ?thesis
    by (simp add: arun_def rule_of_def is_string_def keyword_table_def is_identifier_def is_fraction_def is_integer_def
        unsigned_part_def)
next
  case (Cons c cs)
  consider (q) "c = CHR 0x22" | (l) "is_letter c" | (m) "c = CHR ''-''" | (d) "is_digit c" | (p) "c = CHR ''.''"
    | (o) "map_of operator_table [c] \<noteq> None" | (r) "c \<noteq> CHR 0x22" "\<not> is_letter c" "c \<noteq> CHR ''-''" "\<not> is_digit c" "c \<noteq> CHR ''.''"
      "map_of operator_table [c] = None" by blast
  then show ?thesis
  proof cases
    case q
    have n: "\<not> is_letter c" "\<not> is_digit c" "c \<noteq> CHR ''-''" "c \<noteq> CHR ''.''" "\<not> is_space c" using q by (simp_all add: is_letter_def is_digit_def is_space_def)
    have run: "arun w = foldl adelta AQuote cs" using Cons q by (simp add: arun_def)
    show ?thesis
    proof (cases "cs = []")
      case True
      then show ?thesis using Cons run q n keyword_none[OF not_letter_ident[OF n(1)], of "[]"] operator_none(3)[of "[]"] not_letter_ident[OF n(1), of "[]"]
        by (simp add: rule_of_def is_string_def is_fraction_def is_integer_def unsigned_part_def)
    next
      case False
      have st: "foldl adelta AStr cs \<in> {AStr, AStrEsc, AStrEnd, AJam}" using string_run_states[of AStr] by simp
      have "rule_of w = (if string_body cs then 1 else 0)"
        using Cons q n False keyword_none[OF not_letter_ident[OF n(1)], of cs] operator_none(3)[of cs] not_letter_ident[OF n(1), of cs]
        by (auto simp: rule_of_def is_string_def is_fraction_def is_integer_def unsigned_part_def split: list.splits)
      then show ?thesis using run quote_run[OF False] string_run[of cs] st by auto
    qed
  next
    case l
    note n = letter_facts[OF l]
    have run: "arun w = foldl adelta (kw_state (kw_step keyword_table c)) cs" using Cons l n by (simp add: arun_def)
    show ?thesis
    proof (cases "list_all is_word_char cs")
      case True
      then have id: "is_identifier w" using Cons l by (simp add: is_identifier_def)
      have "aaccept (arun w) = (case map_of (foldl kw_step keyword_table w) [] of Some r \<Rightarrow> r | None \<Rightarrow> 39)"
        unfolding run word_run using True Cons by (simp add: kw_state_def)
      then show ?thesis using id Cons n by (simp add: map_of_foldl_kw_step map_of_kw_step rule_of_def is_string_def split: option.splits)
    next
      case False
      then have "\<not> is_identifier w" "cs \<noteq> []" using Cons by (auto simp: is_identifier_def)
      then have "rule_of w = 0" using Cons n keyword_none[of w] operator_none(1)[OF l, of cs]
        by (auto simp: rule_of_def is_string_def is_fraction_def is_integer_def unsigned_part_def split: list.splits)
      then show ?thesis using run False by (simp add: word_run)
    qed
  next
    case m
    have n: "\<not> is_letter c" "c \<noteq> CHR 0x22" "\<not> is_digit c" using m by (simp_all add: is_letter_def is_digit_def)
    have "arun w = foldl adelta AMinus cs" using Cons m n by (simp add: arun_def)
    then show ?thesis using Cons m rule_of_number[OF n(1,2), of cs] operator_none(4)[of cs] digits_no_fraction[of cs]
      by (auto simp: AMinus_run AInt_run is_fraction_tail is_integer_def unsigned_part_def)
  next
    case d
    note n = digit_facts[OF d]
    have "arun w = foldl adelta AInt cs" using Cons d n by (simp add: arun_def)
    then show ?thesis using Cons d n rule_of_number[OF n(1,2), of cs] operator_none(2)[OF d, of cs] digits_no_fraction[of cs]
      by (auto simp: AInt_run is_fraction_tail is_integer_def unsigned_part_def)
  next
    case p
    have n: "\<not> is_letter c" "c \<noteq> CHR 0x22" "\<not> is_digit c" "c \<noteq> CHR ''-''" "\<not> is_space c"
      using p by (simp_all add: is_letter_def is_digit_def is_space_def)
    have "arun w = foldl adelta ADot1 cs" using Cons p n by (simp add: arun_def)
    then show ?thesis using Cons p n rule_of_number[OF n(1,2)] operator_none(5) frac_run[of ADot1 cs]
      by (cases "cs = []") (auto simp: is_fraction_def is_integer_def unsigned_part_def)
  next
    case o
    then obtain r where "map_of operator_table [c] = Some r" by auto
    note n = operator_words[OF this]
    have "arun w = foldl adelta (AOp [c]) cs" using Cons o n by (simp add: arun_def)
    moreover have "\<not> is_fraction w" "\<not> is_integer w" using Cons n by (auto simp: is_fraction_def is_integer_def unsigned_part_def)
    ultimately show ?thesis using Cons n rule_of_number[of c cs] operator_run[of "[c]" cs] o
      by (auto split: option.splits)
  next
    case r
    have "arun w = foldl adelta (if is_space c then AWs else AOther) cs" using Cons r by (simp add: arun_def)
    moreover have "\<not> is_fraction w" "\<not> is_integer w" using Cons r by (auto simp: is_fraction_def is_integer_def unsigned_part_def)
    moreover have "map_of operator_table (c # cs) = None" using operator_words r(6) by (metis not_None_eq)
    ultimately show ?thesis using Cons r rule_of_number[of c cs] by (cases cs) auto
  qed
qed

end
