(* ===== verification/Scanner_Correct.thy ===== *)
theory Scanner_Correct
  imports Lexer_DFA
begin

text \<open>Correctness of the scanner on a string buffer: \<open>yylex\<close> cuts the longest text that some rule
  matches off the rest of the input and runs the action of the first such rule; blanks and
  unrecognised characters are skipped.  The reference is \<open>lex_spec\<close>, a function on the text that is
  left; \<open>yylex_lex_spec\<close> says that \<open>yylex\<close> implements it, and in particular that it always returns and
  never leaves its arrays.\<close>

section \<open>Reference\<close>

definition longest :: "string \<Rightarrow> nat" where
  "longest w = last (filter (\<lambda>n. rule_of (take n w) \<noteq> 0) [1..<Suc (length w)])"

definition value_kind :: "int \<Rightarrow> SyntaxNodeType \<times> yytokentype" where
  "value_kind r = (if r = 1 then (kNodeString, T_STRING) else if r = 39 then (kNodeIdentifier, T_IDENTIFIER)
     else (kNodeNumber, T_NUMBER))"

definition rule_effect :: "int \<Rightarrow> string \<Rightarrow> parser_globals \<Rightarrow> pSyntaxNode \<Rightarrow> (int option \<times> parser_globals \<times> pSyntaxNode) option" where
  "rule_effect r t g v =
     (case map_of (keyword_rules_1 @ keyword_rules_2) r of
        Some k \<Rightarrow> Some (Some (token_code k), MinisqlParserMovePos t g, v)
      | None \<Rightarrow> (case map_of operator_rules r of
          Some k \<Rightarrow> Some (Some k, MinisqlParserMovePos t g, v)
        | None \<Rightarrow>
            if r = 54 then Some (None, MinisqlParserMovePos t g, v)
            else if r = 55 then
              Some (None, MinisqlParserSetError (ExpiredLocal (''Unrecognized token ['' @ t @ ''] in input sql.'')) g, v)
            else map_option (\<lambda>(a, g'). (Some (token_code (snd (value_kind r))), g', Some a))
                   (CreateSyntaxNode (fst (value_kind r)) (Some t) (MinisqlParserMovePos t g))))"

lemma keyword_range: "map_of keyword_table w = Some r \<Longrightarrow> 2 \<le> r \<and> r \<le> 38"
proof -
  have "list_all (\<lambda>(k, r). 2 \<le> r \<and> r \<le> 38) keyword_table" by (simp add: keyword_table_def)
  then show "map_of keyword_table w = Some r \<Longrightarrow> ?thesis" by (auto simp: list_all_iff dest!: map_of_SomeD)
qed

lemma operator_range: "map_of operator_table w = Some r \<Longrightarrow> 42 \<le> r \<and> r \<le> 53"
proof -
  have "list_all (\<lambda>(k, r). 42 \<le> r \<and> r \<le> 53) operator_table" by (simp add: operator_table_def)
  then show "map_of operator_table w = Some r \<Longrightarrow> ?thesis" by (auto simp: list_all_iff dest!: map_of_SomeD)
qed

lemma rule_of_range: "0 \<le> rule_of w \<and> rule_of w \<le> 55"
  using keyword_range[of w] operator_range[of w] by (auto simp: rule_of_def split: option.splits list.splits)

lemma rule_of_single: "rule_of [c] \<noteq> 0"
  using keyword_range[of "[c]"] operator_range[of "[c]"] by (auto simp: rule_of_def split: option.splits)

lemma longest_props:
  assumes "w \<noteq> []"
  shows "1 \<le> longest w" "longest w \<le> length w" "rule_of (take (longest w) w) \<noteq> 0"
    "\<And>i. longest w < i \<Longrightarrow> i \<le> length w \<Longrightarrow> rule_of (take i w) = 0"
proof -
  let ?L = "filter (\<lambda>n. rule_of (take n w) \<noteq> 0) [1..<Suc (length w)]"
  have "rule_of (take 1 w) \<noteq> 0" using assms rule_of_single by (cases w) simp_all
  moreover have "1 \<le> length w" using assms by (cases w) simp_all
  ultimately have "1 \<in> set ?L" using assms unfolding set_filter set_upt by simp
  then have ne: "?L \<noteq> []" by (metis empty_iff list.set(1))
  then have l: "longest w \<in> set ?L" unfolding longest_def by (rule last_in_set)
  then show "1 \<le> longest w" "longest w \<le> length w" "rule_of (take (longest w) w) \<noteq> 0" by auto
  have "sorted ?L" by (rule sorted_wrt_filter) (rule sorted_upt)
  then have max: "i \<le> longest w" if "i \<in> set ?L" for i
    unfolding longest_def using ne that by (metis last_conv_nth in_set_conv_nth sorted_nth_mono diff_less length_greater_0_conv Suc_leI diff_Suc_1 less_Suc_eq_le Suc_pred' zero_less_one)
  show "rule_of (take i w) = 0" if "longest w < i" "i \<le> length w" for i
  proof (rule ccontr)
    assume "rule_of (take i w) \<noteq> 0"
    then have "i \<in> set ?L" using that unfolding set_filter set_upt by simp
    then show False using max that(1) by fastforce
  qed
qed

lemma longest_eq:
  assumes "1 \<le> k" "k \<le> length w" "rule_of (take k w) \<noteq> 0"
    and "\<And>i. k < i \<Longrightarrow> i \<le> length w \<Longrightarrow> rule_of (take i w) = 0"
  shows "longest w = k"
proof -
  have w: "w \<noteq> []" using assms(1,2) by auto
  show ?thesis using longest_props[OF w] assms by (metis linorder_neqE_nat)
qed

function lex_spec :: "string \<Rightarrow> parser_globals \<Rightarrow> pSyntaxNode \<Rightarrow> (int \<times> string \<times> parser_globals \<times> pSyntaxNode) option" where
  "lex_spec w g v =
     (if w = [] then Some (0, [], g, v)
      else case rule_effect (rule_of (take (longest w) w)) (take (longest w) w) g v of
        None \<Rightarrow> None
      | Some (None, g', v') \<Rightarrow> lex_spec (drop (longest w) w) g' v'
      | Some (Some t, g', v') \<Rightarrow> Some (t, drop (longest w) w, g', v'))"
  by pat_completeness auto
termination
  by (relation "measure (\<lambda>(w, g, v). length w)") (use longest_props(1) in fastforce)+

declare lex_spec.simps [simp del]

section \<open>The matching loop\<close>

lemma accept_desc: "describes s a \<Longrightarrow> tab yy_accept s = Some (aaccept a)"
  using describes_states_ok[OF accepts_ok] .

lemma accept_arun: "describes s (arun w) \<Longrightarrow> tab yy_accept s = Some (rule_of w)"
  by (simp add: accept_desc rule_of_arun)

lemma arun_Nil [simp]: "arun [] = ABegin"
  by (simp add: arun_def)

lemma arun_snoc: "arun (w @ [c]) = adelta (arun w) c"
  by (simp add: arun_def)

lemma arun_take_Suc: "k < length w \<Longrightarrow> arun (take (Suc k) w) = adelta (arun (take k w)) (w ! k)"
  by (simp add: take_Suc_conv_app_nth arun_snoc)

lemma start_describes: "describes 1 ABegin"
  by (simp add: describes_def state_desc_entries)

lemma final_jam:
  assumes "final (arun (take k w))" "k < i" "i \<le> length w"
  shows "rule_of (take i w) = 0"
proof -
  have "take i w = take k w @ w ! k # drop (Suc k) (take i w)"
    using assms(2,3) by (metis append_take_drop_id Cons_nth_drop_Suc length_take min.absorb2 nth_take take_take min.absorb1 less_imp_le_nat)
  then have "arun (take i w) = foldl adelta (adelta (arun (take k w)) (w ! k)) (drop (Suc k) (take i w))"
    by (metis arun_def foldl_append foldl_Cons)
  then show ?thesis by (simp add: rule_of_arun final_adelta[OF assms(1)])
qed

text \<open>The loop only moves the last accepting position.\<close>

definition marks :: "scanner \<Rightarrow> scanner \<Rightarrow> bool" where
  "marks \<sigma> \<sigma>' \<longleftrightarrow> (\<exists>s c. \<sigma>' = \<sigma>\<lparr>yy_last_accepting_state := s, yy_last_accepting_cpos := c\<rparr>)"

lemma marksE:
  assumes "marks \<sigma> \<sigma>'"
  obtains s c where "\<sigma>' = \<sigma>\<lparr>yy_last_accepting_state := s, yy_last_accepting_cpos := c\<rparr>"
  using assms unfolding marks_def by (elim exE)

lemma marks_refl [simp]: "marks \<sigma> \<sigma>"
  unfolding marks_def by (intro exI[of _ "yy_last_accepting_state \<sigma>"] exI[of _ "yy_last_accepting_cpos \<sigma>"]) simp

lemma marks_set [simp]: "marks \<sigma> (\<sigma>\<lparr>yy_last_accepting_state := s, yy_last_accepting_cpos := c\<rparr>)"
  unfolding marks_def by (intro exI) (rule refl)

lemma marks_upd [intro]: "marks (\<sigma>\<lparr>yy_last_accepting_state := s, yy_last_accepting_cpos := c\<rparr>) \<sigma>' \<Longrightarrow> marks \<sigma> \<sigma>'"
  by (erule marksE) (simp add: marks_def, intro exI, rule refl)

text \<open>The recorded position is the longest text recognised so far.\<close>

definition last_ok :: "nat \<Rightarrow> string \<Rightarrow> nat \<Rightarrow> scanner \<Rightarrow> bool" where
  "last_ok p w k \<sigma> \<longleftrightarrow> k = 0 \<or>
     (\<exists>j < k. yy_last_accepting_cpos \<sigma> = p + j \<and> describes (yy_last_accepting_state \<sigma>) (arun (take j w)) \<and>
        rule_of (take j w) \<noteq> 0 \<and> (\<forall>i. j < i \<and> i < k \<longrightarrow> rule_of (take i w) = 0))"

lemma rule_of_Nil: "rule_of [] = 41"
  by (simp add: rule_of_arun)

lemma last_ok_Suc:
  assumes "last_ok p w k \<sigma>" and "describes s (arun (take k w))"
  shows "last_ok p w (Suc k)
    (if rule_of (take k w) \<noteq> 0 then \<sigma>\<lparr>yy_last_accepting_state := s, yy_last_accepting_cpos := p + k\<rparr> else \<sigma>)"
proof (cases "rule_of (take k w) = 0")
  case True
  then have "k \<noteq> 0" using rule_of_Nil by (intro notI) simp
  then obtain j where j: "j < k" "yy_last_accepting_cpos \<sigma> = p + j" "describes (yy_last_accepting_state \<sigma>) (arun (take j w))"
    "rule_of (take j w) \<noteq> 0" "\<forall>i. j < i \<and> i < k \<longrightarrow> rule_of (take i w) = 0"
    using assms(1) unfolding last_ok_def by blast
  then have "\<forall>i. j < i \<and> i < Suc k \<longrightarrow> rule_of (take i w) = 0" using True less_Suc_eq by auto
  then show ?thesis using j True unfolding last_ok_def by (auto intro!: exI[of _ j])
next
  case False
  then show ?thesis using assms(2) unfolding last_ok_def by (auto intro!: exI[of _ k])
qed

text \<open>A string buffer: the input followed by the two end-of-buffer characters.\<close>

definition string_buffer :: "string \<Rightarrow> scanner \<Rightarrow> yy_buffer_state \<Rightarrow> bool" where
  "string_buffer inp \<sigma> b \<longleftrightarrow> current_buffer \<sigma> = Some b \<and> buf_n_chars b = length inp \<and> \<not> fill_buffer b \<and>
     yy_n_chars \<sigma> = length inp \<and> NUL \<notin> set inp \<and> yy_start \<sigma> = 1"

definition loaded :: "string \<Rightarrow> scanner \<Rightarrow> bool" where
  "loaded inp \<sigma> \<longleftrightarrow> (\<exists>b. string_buffer inp \<sigma> b \<and> ch_buf b = inp @ [NUL, NUL])"

lemma loaded_chars: "loaded inp \<sigma> \<Longrightarrow> chars \<sigma> = inp @ [NUL, NUL]"
  by (auto simp: loaded_def string_buffer_def chars_def)

lemma loaded_marks:
  assumes "loaded inp \<sigma>" and "marks \<sigma> \<sigma>'"
  shows "loaded inp \<sigma>'"
  using assms(2) by (rule marksE) (use assms(1) in \<open>simp add: loaded_def string_buffer_def\<close>)

lemma yy_match_step:
  assumes "loaded inp \<sigma>" and "i < length inp + 2" and "tab yy_ec (of_char ((inp @ [NUL, NUL]) ! i)) = Some c"
    and "tab yy_accept s = Some a" and "yy_trans s c = Some n" and "tab yy_base n = Some b"
  shows "yy_match s i \<sigma> =
    (let \<sigma>' = (if a \<noteq> 0 then \<sigma>\<lparr>yy_last_accepting_state := s, yy_last_accepting_cpos := i\<rparr> else \<sigma>)
     in if b \<noteq> 189 then yy_match n (i + 1) \<sigma>' else Some (n, i + 1, \<sigma>'))"
  using assms by (subst yy_match.simps) (simp add: loaded_chars)

lemma describes_base: "describes s a \<Longrightarrow> \<exists>b. tab yy_base s = Some b"
  using tab_in_range[of s yy_base] by (auto simp: describes_def tab_Some_iff state_desc_length lex_table_lengths)

lemma loaded_NUL: "loaded inp \<sigma> \<Longrightarrow> NUL \<notin> set inp"
  by (auto simp: loaded_def string_buffer_def)

lemma yy_match_eob:
  assumes "loaded inp \<sigma>" and "describes s a"
  shows "\<exists>\<sigma>'. yy_match s (length inp) \<sigma> = Some (174, length inp + 2, \<sigma>') \<and> marks \<sigma> \<sigma>' \<and>
    yy_last_accepting_state \<sigma>' = 3 \<and> yy_last_accepting_cpos \<sigma>' = length inp + 1"
proof -
  note acc = accept_desc[OF assms(2)]
  let ?\<sigma> = "if aaccept a \<noteq> 0 then \<sigma>\<lparr>yy_last_accepting_state := s, yy_last_accepting_cpos := length inp\<rparr> else \<sigma>"
  have m: "marks \<sigma> ?\<sigma>" by auto
  have 1: "yy_match s (length inp) \<sigma> = yy_match 3 (length inp + 1) ?\<sigma>"
    using yy_match_step[OF assms(1), of "length inp" 0 s _ 3 188] acc describes_states_ok[OF eob_trans assms(2)]
    by (simp add: eob_class eob_facts Let_def nth_append)
  have "yy_match 3 (length inp + 1) ?\<sigma> =
      Some (174, length inp + 2, ?\<sigma>\<lparr>yy_last_accepting_state := 3, yy_last_accepting_cpos := length inp + 1\<rparr>)"
    using yy_match_step[OF loaded_marks[OF assms(1) m], of "length inp + 1" 0 3 57 174 189]
    by (simp add: eob_class eob_facts Let_def nth_append)
  then show ?thesis using 1 by (auto simp: marks_def)
qed

lemma yy_match_run:
  assumes "loaded inp \<sigma>" and "p \<le> length inp" and "k \<le> length inp - p" and "describes s (arun (take k (drop p inp)))"
    and "last_ok p (drop p inp) k \<sigma>"
  shows "\<exists>s' cp \<sigma>'. yy_match s (p + k) \<sigma> = Some (s', cp, \<sigma>') \<and> marks \<sigma> \<sigma>' \<and>
    ((\<exists>k'. k < k' \<and> k' \<le> length inp - p \<and> cp = p + k' \<and> describes s' (arun (take k' (drop p inp))) \<and>
        final (arun (take k' (drop p inp))) \<and> last_ok p (drop p inp) k' \<sigma>') \<or>
     s' = 174 \<and> cp = length inp + 2 \<and> yy_last_accepting_state \<sigma>' = 3 \<and> yy_last_accepting_cpos \<sigma>' = length inp + 1)"
  using assms
proof (induction "length inp - p - k" arbitrary: k s \<sigma>)
  case 0
  then have "p + k = length inp" by simp
  then show ?case using yy_match_eob[OF 0(2) 0(5)] by auto
next
  case (Suc m)
  let ?w = "drop p inp"
  have k: "k < length ?w" using Suc(2) by simp
  have x: "(inp @ [NUL, NUL]) ! (p + k) = ?w ! k" using k Suc.prems(2) by (simp add: nth_append less_diff_conv add.commute)
  have "?w ! k \<noteq> NUL" using loaded_NUL[OF Suc.prems(1)] k nth_mem[of k ?w] set_drop_subset[of p inp] by auto
  then obtain c n where c: "tab yy_ec (of_char (?w ! k)) = Some c" "yy_trans s c = Some n"
    "describes n (adelta (arun (take k ?w)) (?w ! k))" using char_step[OF Suc.prems(4)] by blast
  then have n: "describes n (arun (take (Suc k) ?w))" using arun_take_Suc[OF k] by simp
  obtain b where b: "tab yy_base n = Some b" using describes_base[OF n] by blast
  have fin: "b = 189 \<longleftrightarrow> final (arun (take (Suc k) ?w))" using describes_states_ok[OF final_base n] b by simp
  let ?\<sigma> = "if rule_of (take k ?w) \<noteq> 0 then \<sigma>\<lparr>yy_last_accepting_state := s, yy_last_accepting_cpos := p + k\<rparr> else \<sigma>"
  have m: "marks \<sigma> ?\<sigma>" by auto
  have lk: "last_ok p ?w (Suc k) ?\<sigma>" by (rule last_ok_Suc[OF Suc.prems(5,4)])
  have "p + k < length inp + 2" using k by simp
  from yy_match_step[OF Suc.prems(1) this _ accept_arun[OF Suc.prems(4)] c(2) b] x c(1)
  have st: "yy_match s (p + k) \<sigma> = (if b \<noteq> 189 then yy_match n (p + Suc k) ?\<sigma> else Some (n, p + Suc k, ?\<sigma>))"
    by (simp add: Let_def)
  show ?case
  proof (cases "b = 189")
    case True
    then show ?thesis using st m fin n lk k by (auto intro!: exI[of _ "Suc k"])
  next
    case False
    have "m = length inp - p - Suc k" using Suc(2) by simp
    from Suc.hyps(1)[OF this loaded_marks[OF Suc.prems(1) m] Suc.prems(2) _ n lk] k
    obtain s' cp \<sigma>' where r: "yy_match n (p + Suc k) ?\<sigma> = Some (s', cp, \<sigma>')" "marks ?\<sigma> \<sigma>'"
      "(\<exists>k'. Suc k < k' \<and> k' \<le> length inp - p \<and> cp = p + k' \<and> describes s' (arun (take k' ?w)) \<and>
        final (arun (take k' ?w)) \<and> last_ok p ?w k' \<sigma>') \<or>
       s' = 174 \<and> cp = length inp + 2 \<and> yy_last_accepting_state \<sigma>' = 3 \<and> yy_last_accepting_cpos \<sigma>' = length inp + 1"
      by (metis Suc_leI length_drop)
    have "marks \<sigma> \<sigma>'" using r(2) by (auto split: if_splits)
    moreover have "(\<exists>k'. k < k' \<and> k' \<le> length inp - p \<and> cp = p + k' \<and> describes s' (arun (take k' ?w)) \<and>
        final (arun (take k' ?w)) \<and> last_ok p ?w k' \<sigma>') \<or>
       s' = 174 \<and> cp = length inp + 2 \<and> yy_last_accepting_state \<sigma>' = 3 \<and> yy_last_accepting_cpos \<sigma>' = length inp + 1"
      using r(3) Suc_lessD by blast
    ultimately show ?thesis using st False r(1) by simp
  qed
qed

text \<open>Rescanning the text at the end of the buffer.\<close>

lemma previous_state_run:
  assumes "loaded inp \<sigma>" and "k \<le> length w" and "describes s (arun (take k w))" and "last_ok p w k \<sigma>" and "NUL \<notin> set w"
  shows "\<exists>s' \<sigma>'. previous_state (drop k w) (p + k) s \<sigma> = Some (s', \<sigma>') \<and> marks \<sigma> \<sigma>' \<and> describes s' (arun w) \<and>
    last_ok p w (length w) \<sigma>'"
  using assms(1-4)
proof (induction "length w - k" arbitrary: k s \<sigma>)
  case 0
  then show ?case by simp
next
  case (Suc m)
  have k: "k < length w" using Suc(2) by simp
  have "w ! k \<noteq> NUL" using assms(5) k nth_mem by fastforce
  then obtain c n where c: "tab yy_ec (of_char (w ! k)) = Some c" "yy_trans s c = Some n"
    "describes n (adelta (arun (take k w)) (w ! k))" using char_step[OF Suc.prems(3)] by blast
  then have n: "describes n (arun (take (Suc k) w))" using arun_take_Suc[OF k] by simp
  let ?\<sigma> = "if rule_of (take k w) \<noteq> 0 then \<sigma>\<lparr>yy_last_accepting_state := s, yy_last_accepting_cpos := p + k\<rparr> else \<sigma>"
  have m: "marks \<sigma> ?\<sigma>" by simp
  have lk: "last_ok p w (Suc k) ?\<sigma>" by (rule last_ok_Suc[OF Suc.prems(4,3)])
  have "m = length w - Suc k" using Suc(2) by simp
  from Suc.hyps(1)[OF this loaded_marks[OF Suc.prems(1) m] _ n lk] k
  obtain s' \<sigma>' where r: "previous_state (drop (Suc k) w) (p + Suc k) n ?\<sigma> = Some (s', \<sigma>')" "marks ?\<sigma> \<sigma>'"
    "describes s' (arun w)" "last_ok p w (length w) \<sigma>'" by auto
  have "previous_state (drop k w) (p + k) s \<sigma> = Some (s', \<sigma>')"
    using r(1) c \<open>w ! k \<noteq> NUL\<close> accept_arun[OF Suc.prems(3)]
    by (simp add: Cons_nth_drop_Suc[OF k, symmetric] record_accept_def)
  moreover have "marks \<sigma> \<sigma>'" using r(2) by (auto split: if_splits)
  ultimately show ?case using r(3,4) by blast
qed

text \<open>When the loop or the rescan has ended, the longest match is known.\<close>

lemma find_longest:
  assumes "describes s (arun (take k w))" and "0 < k" and "k \<le> length w" and "final (arun (take k w)) \<or> k = length w"
    and "last_ok p w k \<sigma>"
  shows "yy_find_action p s (p + k) \<sigma> =
    do {
      \<sigma> \<leftarrow> YY_DO_BEFORE_ACTION p (p + longest w) \<sigma>;
      \<sigma> \<leftarrow> count_lines (rule_of (take (longest w) w)) \<sigma>;
      do_action (rule_of (take (longest w) w)) p (p + longest w) \<sigma>
    }"
proof -
  have beyond: "rule_of (take i w) = 0" if "k < i" "i \<le> length w" for i
    using assms(4) final_jam[of k w i] that by auto
  show ?thesis
  proof (cases "rule_of (take k w) = 0")
    case False
    then have "longest w = k" using assms(2,3) beyond by (intro longest_eq) auto
    then show ?thesis using False by (simp add: yy_find_action_def accept_arun[OF assms(1)])
  next
    case True
    obtain j where j: "j < k" "yy_last_accepting_cpos \<sigma> = p + j" "describes (yy_last_accepting_state \<sigma>) (arun (take j w))"
      "rule_of (take j w) \<noteq> 0" "\<forall>i. j < i \<and> i < k \<longrightarrow> rule_of (take i w) = 0"
      using assms(2,5) unfolding last_ok_def by auto
    have "take 1 w = [w ! 0]" using assms(2,3) by (cases w) simp_all
    then have "rule_of (take 1 w) \<noteq> 0" using rule_of_single by simp
    then have "1 \<le> j" using j(5) True assms(2) by (metis One_nat_def Suc_leI less_one linorder_neqE_nat not_less)
    moreover have "rule_of (take i w) = 0" if "j < i" "i \<le> length w" for i
      using that True j(5) beyond by (metis linorder_neqE_nat)
    ultimately have "longest w = j" using j(1,4) assms(3) by (intro longest_eq) auto
    then show ?thesis using True j(2) by (simp add: yy_find_action_def accept_arun[OF assms(1)] accept_arun[OF j(3)])
  qed
qed

section \<open>Actions\<close>

definition positioned :: "string \<Rightarrow> nat \<Rightarrow> scanner \<Rightarrow> bool" where
  "positioned inp p \<sigma> \<longleftrightarrow> (\<exists>b. string_buffer inp \<sigma> b \<and> yy_c_buf_p \<sigma> = p \<and> p \<le> length inp \<and>
     length (ch_buf b) = length inp + 2 \<and> (ch_buf b)[p := yy_hold_char \<sigma>] = inp @ [NUL, NUL])"

lemma scan_start_positioned:
  assumes "positioned inp p \<sigma>"
  shows "\<exists>\<sigma>'. scan_start \<sigma> = Some (LMatch p 1 p, \<sigma>') \<and> loaded inp \<sigma>' \<and> glob \<sigma>' = glob \<sigma> \<and> yylval \<sigma>' = yylval \<sigma> \<and> yy_init \<sigma>' = yy_init \<sigma>"
proof -
  obtain b where b: "string_buffer inp \<sigma> b" "yy_c_buf_p \<sigma> = p" "p \<le> length inp" "length (ch_buf b) = length inp + 2"
    "(ch_buf b)[p := yy_hold_char \<sigma>] = inp @ [NUL, NUL]" using assms unfolding positioned_def by blast
  then show ?thesis by (auto simp: scan_start_def write_char_def string_buffer_def loaded_def)
qed

lemma before_action:
  assumes "loaded inp \<sigma>" and "p + n \<le> length inp" and "r \<noteq> 57" and "0 \<le> r" and "r \<le> 55"
  shows "\<exists>\<sigma>1 \<sigma>2. YY_DO_BEFORE_ACTION p (p + n) \<sigma> = Some \<sigma>1 \<and> count_lines r \<sigma>1 = Some \<sigma>2 \<and> positioned inp (p + n) \<sigma>2 \<and>
    yytext \<sigma>2 = take n (drop p inp) \<and> glob \<sigma>2 = glob \<sigma> \<and> yylval \<sigma>2 = yylval \<sigma> \<and> yy_init \<sigma>2 = yy_init \<sigma>"
proof -
  obtain b where b: "string_buffer inp \<sigma> b" "ch_buf b = inp @ [NUL, NUL]" using assms(1) unfolding loaded_def by blast
  define \<sigma>1 where "\<sigma>1 = the (YY_DO_BEFORE_ACTION p (p + n) \<sigma>)"
  let ?b = "b\<lparr>ch_buf := (inp @ [NUL, NUL])[p + n := NUL]\<rparr>"
  have ba: "YY_DO_BEFORE_ACTION p (p + n) \<sigma> = Some \<sigma>1"
    and s1: "\<sigma>1 = \<sigma>\<lparr>current_buffer := Some ?b, yytext_ptr := p, yyleng := n, yy_hold_char := (inp @ [NUL, NUL]) ! (p + n), yy_c_buf_p := p + n\<rparr>"
    using b assms(2) by (simp_all add: \<sigma>1_def YY_DO_BEFORE_ACTION_def read_char_def write_char_def chars_def string_buffer_def)
  obtain e where e: "tab yy_rule_can_match_eol r = Some e"
    using tab_in_range[of r yy_rule_can_match_eol] assms(4,5) by (auto simp: yy_rule_can_match_eol_def)
  obtain l where "count_lines r \<sigma>1 = Some (\<sigma>1\<lparr>yylineno := l\<rparr>)"
  proof (cases "e = 0")
    case True
    then show thesis using that[of "yylineno \<sigma>1"] assms(3) e by (simp add: count_lines_def YY_END_OF_BUFFER_def)
  next
    case False
    then show thesis using that assms(3) e by (simp add: count_lines_def YY_END_OF_BUFFER_def)
  qed
  moreover have "positioned inp (p + n) (\<sigma>1\<lparr>yylineno := l\<rparr>)"
  proof -
    have "string_buffer inp (\<sigma>1\<lparr>yylineno := l\<rparr>) ?b" using b(1) s1 by (simp add: string_buffer_def)
    moreover have "(ch_buf ?b)[p + n := yy_hold_char (\<sigma>1\<lparr>yylineno := l\<rparr>)] = inp @ [NUL, NUL]"
      using s1 by (simp add: list_update_overwrite)
    ultimately show ?thesis unfolding positioned_def using s1 assms(2) by (intro exI[of _ ?b]) simp
  qed
  moreover have "yytext (\<sigma>1\<lparr>yylineno := l\<rparr>) = take n (drop p inp)"
  proof -
    have d: "drop p ((inp @ [NUL, NUL])[p + n := NUL]) = take n (drop p inp) @ NUL # drop (Suc (p + n)) (inp @ [NUL, NUL])"
      using assms(2) by (simp add: upd_conv_take_nth_drop drop_take add.commute)
    have "NUL \<notin> set (take n (drop p inp))"
      using b(1) set_take_subset[of n "drop p inp"] set_drop_subset[of p inp] by (auto simp: string_buffer_def)
    then have "takeWhile (\<lambda>c. c \<noteq> NUL) (take n (drop p inp) @ NUL # xs) = take n (drop p inp)" for xs
      by (subst takeWhile_append2) auto
    then show ?thesis using s1 d by (simp add: yytext_def c_string_def chars_def NUL_def[symmetric])
  qed
  ultimately show ?thesis using ba s1 by (intro exI[of _ \<sigma>1] exI[of _ "\<sigma>1\<lparr>yylineno := l\<rparr>"]) simp
qed

lemma positioned_glob [simp]: "positioned inp p (\<sigma>\<lparr>glob := g\<rparr>) = positioned inp p \<sigma>"
  "positioned inp p (\<sigma>\<lparr>yylval := v\<rparr>) = positioned inp p \<sigma>"
  by (simp_all add: positioned_def string_buffer_def)

lemma string_length: "is_string w \<Longrightarrow> 2 \<le> length w"
  by (cases w rule: list.exhaust; cases "tl w") (auto simp: is_string_def)

lemma rule_1_string: "rule_of w = 1 \<Longrightarrow> is_string w"
  using keyword_range[of w] operator_range[of w] by (auto simp: rule_of_def split: option.splits list.splits if_splits)

lemma copy_val_rule: "r = rule_of t \<Longrightarrow> \<exists>v. copy_val (fst (value_kind r)) (Some t) = Some v"
  using rule_1_string[of t] string_length[of t] by (auto simp: copy_val_def value_kind_def)

lemma rule_domains:
  assumes "map_of (keyword_rules_1 @ keyword_rules_2) r = None" and "map_of operator_rules r = None" and "0 < r" and "r \<le> 55"
  shows "r \<in> {1, 39, 40, 41, 54, 55}"
proof -
  have k: "list_all (\<lambda>r. map_of (keyword_rules_1 @ keyword_rules_2) r \<noteq> None) [2..38]"
    and o: "list_all (\<lambda>r. map_of operator_rules r \<noteq> None) [42..53]" by code_simp+
  have "r \<notin> set [2..38]" using k assms(1) unfolding list_all_iff by (metis (no_types))
  moreover have "r \<notin> set [42..53]" using o assms(2) unfolding list_all_iff by (metis (no_types))
  ultimately have "\<not> (2 \<le> r \<and> r \<le> 38)" "\<not> (42 \<le> r \<and> r \<le> 53)" unfolding set_upto by simp_all
  then show ?thesis using assms(3,4) by auto
qed

definition outcome :: "int option \<Rightarrow> int + label" where
  "outcome t = (case t of Some x \<Rightarrow> Inl x | None \<Rightarrow> Inr LScan)"

lemma do_action_rule:
  assumes "positioned inp q \<sigma>" and "yytext \<sigma> = t" and "r = rule_of t" and "r \<noteq> 0"
  shows "\<exists>x g v \<sigma>'. rule_effect r t (glob \<sigma>) (yylval \<sigma>) = Some (x, g, v) \<and> do_action r p cp \<sigma> = Some (outcome x, \<sigma>') \<and>
    positioned inp q \<sigma>' \<and> glob \<sigma>' = g \<and> yylval \<sigma>' = v \<and> yy_init \<sigma>' = yy_init \<sigma>"
proof -
  have r: "0 < r" "r \<le> 55" using rule_of_range[of t] assms(3,4) by simp_all
  then have da: "do_action r p cp \<sigma> = rule_action r \<sigma>"
    by (simp add: do_action_def YY_STATE_EOF_def YY_END_OF_BUFFER_def)
  show ?thesis
  proof (cases "map_of (keyword_rules_1 @ keyword_rules_2) r")
    case (Some k)
    then show ?thesis using assms(1,2) da
      by (simp del: map_of_append add: rule_effect_def rule_action_def outcome_def move_pos_def)
  next
    case kn: None
    show ?thesis
    proof (cases "map_of operator_rules r")
      case (Some k)
      then show ?thesis using assms(1,2) da kn
        by (simp del: map_of_append add: rule_effect_def rule_action_def outcome_def move_pos_def)
    next
      case None
      consider "r = 54" | "r = 55" | "r \<in> {1, 39, 40, 41}" using rule_domains[OF kn None r] by blast
      then show ?thesis
      proof cases
        case 1
        then show ?thesis using assms(1,2) da kn None
          by (simp del: map_of_append add: rule_effect_def rule_action_def outcome_def move_pos_def)
      next
        case 2
        then show ?thesis using assms(1,2) da kn None
          by (simp del: map_of_append add: rule_effect_def rule_action_def outcome_def unrecognized_action_def)
      next
        case 3
        obtain v where "copy_val (fst (value_kind r)) (Some t) = Some v" using copy_val_rule[OF assms(3)] by blast
        from CreateSyntaxNode_forest[OF this, of "MinisqlParserMovePos t (glob \<sigma>)"] obtain a g where
          c: "CreateSyntaxNode (fst (value_kind r)) (Some t) (MinisqlParserMovePos t (glob \<sigma>)) = Some (a, g)" by blast
        have "rule_effect r t (glob \<sigma>) (yylval \<sigma>) = Some (Some (token_code (snd (value_kind r))), g, Some a)"
          using 3 kn None c by (auto simp del: map_of_append simp: rule_effect_def)
        moreover have "rule_action r \<sigma> = Some (Inl (token_code (snd (value_kind r))), (move_pos \<sigma>)\<lparr>glob := g, yylval := Some a\<rparr>)"
          using 3 kn None c assms(2) by (auto simp del: map_of_append simp: rule_action_def value_action_def value_kind_def move_pos_def)
        ultimately show ?thesis using da assms(1) by (simp add: outcome_def move_pos_def)
      qed
    qed
  qed
qed

text \<open>The end of the buffer: at the end of the input the scanner reports the end, otherwise it rescans
  the text that precedes the end.\<close>

lemma eob_buffer: "(inp @ [NUL, NUL])[Suc (length inp) := NUL] = inp @ [NUL, NUL]"
  by (simp add: list_update_append)

lemma find_at_eob:
  assumes "loaded inp \<sigma>" and "p \<le> length inp" and "yy_last_accepting_state \<sigma> = 3" and "yy_last_accepting_cpos \<sigma> = length inp + 1"
  shows "\<exists>\<sigma>'. loaded inp \<sigma>' \<and> glob \<sigma>' = glob \<sigma> \<and> yylval \<sigma>' = yylval \<sigma> \<and> yy_init \<sigma>' = yy_init \<sigma> \<and>
    yy_hold_char \<sigma>' = NUL \<and> yytext_ptr \<sigma>' = p \<and>
    yy_find_action p 174 (length inp + 2) \<sigma> =
      (if p = length inp then Some (Inl 0, \<sigma>'\<lparr>yy_c_buf_p := p\<rparr>)
       else do {
         (s, \<sigma>) \<leftarrow> previous_state (drop p inp) p 1 (\<sigma>'\<lparr>yy_c_buf_p := length inp\<rparr>);
         Some (Inr (LFind (yytext_ptr \<sigma>) s (yy_c_buf_p \<sigma>)), \<sigma>)
       })"
proof -
  obtain b where b: "string_buffer inp \<sigma> b" "ch_buf b = inp @ [NUL, NUL]" using assms(1) unfolding loaded_def by blast
  note bb = b[unfolded string_buffer_def]
  let ?b = "b\<lparr>buffer_status := (if buffer_status b = YY_BUFFER_NEW then YY_BUFFER_NORMAL else buffer_status b)\<rparr>"
  let ?\<sigma> = "\<sigma>\<lparr>current_buffer := Some ?b, yytext_ptr := p, yyleng := Suc (length inp) - p, yy_hold_char := NUL,
      yy_c_buf_p := Suc (length inp), yy_n_chars := length inp\<rparr>"
  have ba: "YY_DO_BEFORE_ACTION p (length inp + 1) \<sigma> =
      Some (\<sigma>\<lparr>yytext_ptr := p, yyleng := Suc (length inp) - p, yy_hold_char := NUL, yy_c_buf_p := Suc (length inp)\<rparr>)"
    using bb by (simp add: YY_DO_BEFORE_ACTION_def read_char_def write_char_def chars_def eob_buffer nth_append)
  have eob: "end_of_buffer_action p (length inp + 1)
      (\<sigma>\<lparr>yytext_ptr := p, yyleng := Suc (length inp) - p, yy_hold_char := NUL, yy_c_buf_p := Suc (length inp)\<rparr>) =
    (if p = length inp then Some (Inl 0, ?\<sigma>\<lparr>yy_c_buf_p := p\<rparr>)
     else do {
       (s, \<sigma>) \<leftarrow> previous_state (drop p inp) p 1 (?\<sigma>\<lparr>yy_c_buf_p := length inp\<rparr>);
       Some (Inr (LFind (yytext_ptr \<sigma>) s (yy_c_buf_p \<sigma>)), \<sigma>)
     })"
    using bb assms(2)
    by (cases \<sigma>; cases b) (auto simp: end_of_buffer_action_def write_char_def eob_buffer yy_get_next_buffer_def yywrap_def
        yy_get_previous_state_def chars_def Let_def)
  have "loaded inp ?\<sigma>" using bb by (simp add: loaded_def string_buffer_def)
  moreover have "yy_find_action p 174 (length inp + 2) \<sigma> =
     end_of_buffer_action p (length inp + 1)
      (\<sigma>\<lparr>yytext_ptr := p, yyleng := Suc (length inp) - p, yy_hold_char := NUL, yy_c_buf_p := Suc (length inp)\<rparr>)"
    using assms(3,4) ba by (simp add: yy_find_action_def eob_facts count_lines_def do_action_def YY_END_OF_BUFFER_def YY_STATE_EOF_def)
  ultimately show ?thesis using eob by (intro exI[of _ ?\<sigma>]) simp
qed

section \<open>The scanner implements the reference\<close>

lemma yylex_run_LScan: "yylex_run LScan \<sigma> = Option.bind (scan_start \<sigma>) (\<lambda>p. yylex_run (fst p) (snd p))"
  by (subst yylex_run.simps) simp

lemma yylex_run_LMatch:
  "yylex_run (LMatch bp s cp) \<sigma> =
     Option.bind (yy_match s cp \<sigma>) (\<lambda>p. yylex_run (LFind bp (fst p) (fst (snd p))) (snd (snd p)))"
  by (subst yylex_run.simps) simp

lemma yylex_run_LFind:
  "yylex_run (LFind bp s cp) \<sigma> =
     Option.bind (yy_find_action bp s cp \<sigma>)
       (\<lambda>p. case fst p of Inl t \<Rightarrow> Some (t, snd p) | Inr l \<Rightarrow> yylex_run l (snd p))"
  by (subst yylex_run.simps) simp

text \<open>From a known longest match the scanner runs the action of its rule.\<close>

lemma run_longest:
  assumes "loaded inp \<sigma>" and "p \<le> length inp" and "w = drop p inp" and "describes s (arun (take k w))" and "0 < k"
    and "k \<le> length w" and "final (arun (take k w)) \<or> k = length w" and "last_ok p w k \<sigma>"
  shows "\<exists>x g v \<sigma>'. rule_effect (rule_of (take (longest w) w)) (take (longest w) w) (glob \<sigma>) (yylval \<sigma>) = Some (x, g, v) \<and>
    yylex_run (LFind p s (p + k)) \<sigma> = (case x of Some t \<Rightarrow> Some (t, \<sigma>') | None \<Rightarrow> yylex_run LScan \<sigma>') \<and>
    positioned inp (p + longest w) \<sigma>' \<and> glob \<sigma>' = g \<and> yylval \<sigma>' = v \<and> yy_init \<sigma>' = yy_init \<sigma>"
proof -
  have w: "w \<noteq> []" using assms(5,6) by auto
  note l = longest_props[OF w]
  let ?r = "rule_of (take (longest w) w)"
  have r: "?r \<noteq> 57" "0 \<le> ?r" "?r \<le> 55" using rule_of_range[of "take (longest w) w"] by simp_all
  have "p + longest w \<le> length inp" using l(2) assms(2,3) by simp
  from before_action[OF assms(1) this r] obtain \<sigma>1 \<sigma>2 where b: "YY_DO_BEFORE_ACTION p (p + longest w) \<sigma> = Some \<sigma>1"
    "count_lines ?r \<sigma>1 = Some \<sigma>2" "positioned inp (p + longest w) \<sigma>2" "yytext \<sigma>2 = take (longest w) w"
    "glob \<sigma>2 = glob \<sigma>" "yylval \<sigma>2 = yylval \<sigma>" "yy_init \<sigma>2 = yy_init \<sigma>" using assms(3) by auto
  from do_action_rule[OF b(3,4) refl l(3), of p "p + longest w"] obtain x g v \<sigma>' where
    a: "rule_effect ?r (take (longest w) w) (glob \<sigma>) (yylval \<sigma>) = Some (x, g, v)"
      "do_action ?r p (p + longest w) \<sigma>2 = Some (outcome x, \<sigma>')" "positioned inp (p + longest w) \<sigma>'" "glob \<sigma>' = g"
      "yylval \<sigma>' = v" "yy_init \<sigma>' = yy_init \<sigma>"
    using b(5-7) by auto
  have "yylex_run (LFind p s (p + k)) \<sigma> = (case x of Some t \<Rightarrow> Some (t, \<sigma>') | None \<Rightarrow> yylex_run LScan \<sigma>')"
    using find_longest[OF assms(4-8)] b(1,2) a(2) by (simp add: yylex_run_LFind outcome_def split: option.splits)
  with a show ?thesis by blast
qed

lemma run_token:
  assumes "positioned inp p \<sigma>" and "w = drop p inp" and "w \<noteq> []"
  shows "\<exists>x g v \<sigma>'. rule_effect (rule_of (take (longest w) w)) (take (longest w) w) (glob \<sigma>) (yylval \<sigma>) = Some (x, g, v) \<and>
    yylex_run LScan \<sigma> = (case x of Some t \<Rightarrow> Some (t, \<sigma>') | None \<Rightarrow> yylex_run LScan \<sigma>') \<and>
    positioned inp (p + longest w) \<sigma>' \<and> glob \<sigma>' = g \<and> yylval \<sigma>' = v \<and> yy_init \<sigma>' = yy_init \<sigma>"
proof -
  have p: "p \<le> length inp" using assms(1) unfolding positioned_def by blast
  obtain \<sigma>1 where s1: "scan_start \<sigma> = Some (LMatch p 1 p, \<sigma>1)" "loaded inp \<sigma>1" "glob \<sigma>1 = glob \<sigma>" "yylval \<sigma>1 = yylval \<sigma>"
    "yy_init \<sigma>1 = yy_init \<sigma>" using scan_start_positioned[OF assms(1)] by blast
  have "describes 1 (arun (take 0 (drop p inp)))" "last_ok p (drop p inp) 0 \<sigma>1" using start_describes by (simp_all add: last_ok_def)
  from yy_match_run[OF s1(2) p le0 this] obtain s' cp \<sigma>2 where m: "yy_match 1 p \<sigma>1 = Some (s', cp, \<sigma>2)" "marks \<sigma>1 \<sigma>2"
    "(\<exists>k. 0 < k \<and> k \<le> length inp - p \<and> cp = p + k \<and> describes s' (arun (take k w)) \<and> final (arun (take k w)) \<and> last_ok p w k \<sigma>2) \<or>
     s' = 174 \<and> cp = length inp + 2 \<and> yy_last_accepting_state \<sigma>2 = 3 \<and> yy_last_accepting_cpos \<sigma>2 = length inp + 1"
    unfolding assms(2) by auto
  have f2: "glob \<sigma>2 = glob \<sigma>" "yylval \<sigma>2 = yylval \<sigma>" "yy_init \<sigma>2 = yy_init \<sigma>" using m(2) s1(3-5) by (auto elim!: marksE)
  have l2: "loaded inp \<sigma>2" using loaded_marks[OF s1(2) m(2)] .
  have run: "yylex_run LScan \<sigma> = yylex_run (LFind p s' cp) \<sigma>2" using s1(1) m(1) by (simp add: yylex_run_LScan yylex_run_LMatch)
  from m(3) show ?thesis
  proof
    assume "\<exists>k. 0 < k \<and> k \<le> length inp - p \<and> cp = p + k \<and> describes s' (arun (take k w)) \<and> final (arun (take k w)) \<and> last_ok p w k \<sigma>2"
    then obtain k where k: "0 < k" "k \<le> length w" "cp = p + k" "describes s' (arun (take k w))" "final (arun (take k w))" "last_ok p w k \<sigma>2"
      using assms(2) by auto
    from run_longest[OF l2 p assms(2) k(4,1,2) _ k(6)] k(3,5) run f2 show ?thesis by simp
  next
    assume e: "s' = 174 \<and> cp = length inp + 2 \<and> yy_last_accepting_state \<sigma>2 = 3 \<and> yy_last_accepting_cpos \<sigma>2 = length inp + 1"
    have ne: "p \<noteq> length inp" using assms(2,3) by auto
    obtain \<sigma>3 where s3: "loaded inp \<sigma>3" "glob \<sigma>3 = glob \<sigma>" "yylval \<sigma>3 = yylval \<sigma>" "yy_init \<sigma>3 = yy_init \<sigma>" "yytext_ptr \<sigma>3 = p"
      "yy_find_action p 174 (length inp + 2) \<sigma>2 = do {
         (s, \<sigma>) \<leftarrow> previous_state w p 1 (\<sigma>3\<lparr>yy_c_buf_p := length inp\<rparr>);
         Some (Inr (LFind (yytext_ptr \<sigma>) s (yy_c_buf_p \<sigma>)), \<sigma>) }"
      using find_at_eob[OF l2 p] e ne f2 assms(2) by auto
    let ?\<sigma> = "\<sigma>3\<lparr>yy_c_buf_p := length inp\<rparr>"
    have l3: "loaded inp ?\<sigma>" using s3(1) by (simp add: loaded_def string_buffer_def)
    have nul: "NUL \<notin> set w" using loaded_NUL[OF l2] set_drop_subset[of p inp] assms(2) by auto
    have "describes 1 (arun (take 0 w))" "last_ok p w 0 ?\<sigma>" using start_describes by (simp_all add: last_ok_def)
    from previous_state_run[OF l3 le0 this nul] obtain s \<sigma>4 where pr: "previous_state w p 1 ?\<sigma> = Some (s, \<sigma>4)" "marks ?\<sigma> \<sigma>4"
      "describes s (arun w)" "last_ok p w (length w) \<sigma>4" by auto
    have f4: "glob \<sigma>4 = glob \<sigma>" "yylval \<sigma>4 = yylval \<sigma>" "yy_init \<sigma>4 = yy_init \<sigma>" "yytext_ptr \<sigma>4 = p" "yy_c_buf_p \<sigma>4 = length inp"
      using pr(2) s3(2-5) by (auto elim!: marksE)
    have r4: "yylex_run LScan \<sigma> = yylex_run (LFind p s (length inp)) \<sigma>4"
      using run e s3(6) pr(1) f4 by (simp add: yylex_run_LFind)
    have "p + length w = length inp" "0 < length w" using p assms(2,3) by auto
    then show ?thesis
      using run_longest[OF loaded_marks[OF l3 pr(2)] p assms(2), of s "length w"] pr(3,4) r4 f4 by simp
  qed
qed

lemma run_end:
  assumes "positioned inp (length inp) \<sigma>"
  shows "\<exists>\<sigma>'. yylex_run LScan \<sigma> = Some (0, \<sigma>') \<and> positioned inp (length inp) \<sigma>' \<and> glob \<sigma>' = glob \<sigma> \<and> yylval \<sigma>' = yylval \<sigma> \<and>
    yy_init \<sigma>' = yy_init \<sigma>"
proof -
  obtain \<sigma>1 where s1: "scan_start \<sigma> = Some (LMatch (length inp) 1 (length inp), \<sigma>1)" "loaded inp \<sigma>1" "glob \<sigma>1 = glob \<sigma>"
    "yylval \<sigma>1 = yylval \<sigma>" "yy_init \<sigma>1 = yy_init \<sigma>" using scan_start_positioned[OF assms] by blast
  obtain \<sigma>2 where m: "yy_match 1 (length inp) \<sigma>1 = Some (174, length inp + 2, \<sigma>2)" "marks \<sigma>1 \<sigma>2"
    "yy_last_accepting_state \<sigma>2 = 3" "yy_last_accepting_cpos \<sigma>2 = length inp + 1"
    using yy_match_eob[OF s1(2) start_describes] by blast
  have f2: "glob \<sigma>2 = glob \<sigma>" "yylval \<sigma>2 = yylval \<sigma>" "yy_init \<sigma>2 = yy_init \<sigma>" using m(2) s1(3-5) by (auto elim!: marksE)
  obtain \<sigma>3 where s3: "loaded inp \<sigma>3" "glob \<sigma>3 = glob \<sigma>" "yylval \<sigma>3 = yylval \<sigma>" "yy_init \<sigma>3 = yy_init \<sigma>" "yy_hold_char \<sigma>3 = NUL"
    "yy_find_action (length inp) 174 (length inp + 2) \<sigma>2 = Some (Inl 0, \<sigma>3\<lparr>yy_c_buf_p := length inp\<rparr>)"
    using find_at_eob[OF loaded_marks[OF s1(2) m(2)] le_refl m(3,4)] f2 by auto
  have "positioned inp (length inp) (\<sigma>3\<lparr>yy_c_buf_p := length inp\<rparr>)"
    using s3(1,5) by (auto simp: loaded_def positioned_def string_buffer_def)
  then show ?thesis using s1(1) m(1) s3 by (simp add: yylex_run_LScan yylex_run_LMatch yylex_run_LFind)
qed

theorem yylex_run_spec:
  assumes "positioned inp p \<sigma>"
  shows "\<exists>t p' g v \<sigma>'. lex_spec (drop p inp) (glob \<sigma>) (yylval \<sigma>) = Some (t, drop p' inp, g, v) \<and>
    yylex_run LScan \<sigma> = Some (t, \<sigma>') \<and> positioned inp p' \<sigma>' \<and> glob \<sigma>' = g \<and> yylval \<sigma>' = v \<and> yy_init \<sigma>' = yy_init \<sigma>"
  using assms
proof (induction "length inp - p" arbitrary: p \<sigma> rule: less_induct)
  case less
  have p: "p \<le> length inp" using less.prems unfolding positioned_def by blast
  show ?case
  proof (cases "p = length inp")
    case True
    then show ?thesis using run_end less.prems by (auto simp: lex_spec.simps[of "[]"] intro!: exI[of _ p])
  next
    case False
    let ?w = "drop p inp"
    have w: "?w \<noteq> []" using False p by simp
    obtain x g v \<sigma>1 where r: "rule_effect (rule_of (take (longest ?w) ?w)) (take (longest ?w) ?w) (glob \<sigma>) (yylval \<sigma>) = Some (x, g, v)"
      "yylex_run LScan \<sigma> = (case x of Some t \<Rightarrow> Some (t, \<sigma>1) | None \<Rightarrow> yylex_run LScan \<sigma>1)"
      "positioned inp (p + longest ?w) \<sigma>1" "glob \<sigma>1 = g" "yylval \<sigma>1 = v" "yy_init \<sigma>1 = yy_init \<sigma>"
      using run_token[OF less.prems refl w] by blast
    have d: "drop (longest ?w) ?w = drop (p + longest ?w) inp" by (simp add: add.commute)
    show ?thesis
    proof (cases x)
      case (Some t)
      then show ?thesis using r w d by (subst lex_spec.simps) auto
    next
      case None
      have "length inp - (p + longest ?w) < length inp - p" using longest_props(1)[OF w] False p by linarith
      from less.hyps[OF this r(3)] show ?thesis using r None w d by (subst lex_spec.simps) auto
    qed
  qed
qed

text \<open>The scanner is about to read the text \<open>w\<close>: either a fresh buffer holds it, or scanning has
  started and \<open>w\<close> is what is left.\<close>

definition scanner_at :: "string \<Rightarrow> scanner \<Rightarrow> bool" where
  "scanner_at w \<sigma> \<longleftrightarrow>
     (if yy_init \<sigma> then \<exists>inp p. positioned inp p \<sigma> \<and> w = drop p inp
      else yy_start \<sigma> \<in> {0, 1} \<and> NUL \<notin> set w \<and>
        (\<exists>b. current_buffer \<sigma> = Some b \<and> buf_pos b = 0 \<and> ch_buf b = w @ [NUL, NUL] \<and> buf_n_chars b = length w \<and> \<not> fill_buffer b))"

lemma fresh_positioned:
  assumes "scanner_at w \<sigma>" and "\<not> yy_init \<sigma>"
  shows "\<exists>\<sigma>'. yylex \<sigma> = yylex_run LScan \<sigma>' \<and> positioned w 0 \<sigma>' \<and> glob \<sigma>' = glob \<sigma> \<and> yylval \<sigma>' = yylval \<sigma> \<and> yy_init \<sigma>'"
proof -
  obtain b where b: "current_buffer \<sigma> = Some b" "buf_pos b = 0" "ch_buf b = w @ [NUL, NUL]" "buf_n_chars b = length w"
    "\<not> fill_buffer b" "NUL \<notin> set w" "yy_start \<sigma> \<in> {0, 1}" using assms by (auto simp: scanner_at_def)
  let ?\<sigma> = "\<sigma>\<lparr>yy_init := True, yy_start := 1, yy_n_chars := length w, yytext_ptr := 0, yy_c_buf_p := 0,
      yy_hold_char := (w @ [NUL, NUL]) ! 0\<rparr>"
  have "yylex \<sigma> = yylex_run LScan ?\<sigma>"
    using b assms(2) by (cases \<sigma>) (auto simp: yylex_def yy_load_buffer_state_def nth_append)
  moreover have "positioned w 0 ?\<sigma>" unfolding positioned_def using b
    by (intro exI[of _ b]) (simp add: string_buffer_def list_update_id[of "w @ [NUL, NUL]" 0] del: append.simps)
  ultimately show ?thesis by (intro exI[of _ ?\<sigma>]) simp
qed

lemma yylex_at:
  assumes "scanner_at w \<sigma>"
  shows "\<exists>t w' g v \<sigma>'. lex_spec w (glob \<sigma>) (yylval \<sigma>) = Some (t, w', g, v) \<and> yylex \<sigma> = Some (t, \<sigma>') \<and>
    scanner_at w' \<sigma>' \<and> glob \<sigma>' = g \<and> yylval \<sigma>' = v"
proof -
  obtain inp p \<sigma>1 where s: "yylex \<sigma> = yylex_run LScan \<sigma>1" "positioned inp p \<sigma>1" "drop p inp = w" "glob \<sigma>1 = glob \<sigma>"
    "yylval \<sigma>1 = yylval \<sigma>" "yy_init \<sigma>1"
  proof (cases "yy_init \<sigma>")
    case True
    then show thesis using that[of \<sigma>] assms by (auto simp: scanner_at_def yylex_def)
  next
    case False
    then show thesis using that[of _ w 0] fresh_positioned[OF assms] by auto
  qed
  from yylex_run_spec[OF s(2)] s show ?thesis by (fastforce simp: scanner_at_def)
qed

lemma update_first: "w \<noteq> [] \<Longrightarrow> (w @ ys)[0 := w ! 0] = w @ ys"
  by (cases w) simp_all

lemma c_string_NUL: "NUL \<notin> set (c_string s)"
  by (auto simp: c_string_def NUL_def dest: set_takeWhileD)

text \<open>Handing a string to the scanner.\<close>

lemma yy_scan_string_at:
  assumes "yy_start \<sigma> = (if yy_init \<sigma> then 1 else 0)"
  shows "\<exists>\<sigma>'. yy_scan_string s \<sigma> = Some \<sigma>' \<and> scanner_at (c_string s) \<sigma>' \<and> glob \<sigma>' = glob \<sigma> \<and> yylval \<sigma>' = yylval \<sigma>"
proof -
  let ?s = "c_string s"
  have "yy_scan_string s \<sigma> = Some (the (yy_scan_string s \<sigma>))"
    and "scanner_at ?s (the (yy_scan_string s \<sigma>))" and "glob (the (yy_scan_string s \<sigma>)) = glob \<sigma>"
    and "yylval (the (yy_scan_string s \<sigma>)) = yylval \<sigma>"
    using assms c_string_NUL[of s]
    by (auto simp: yy_scan_string_def yy_scan_bytes_def yy_scan_buffer_def yy_switch_to_buffer_def yy_load_buffer_state_def
        scanner_at_def positioned_def string_buffer_def nth_append update_first intro!: exI[of _ ?s] exI[of _ 0])
  then show ?thesis by blast
qed

section \<open>Progress\<close>

lemma token_code_pos: "0 < token_code t"
  by (cases t) simp_all

lemma rule_effect_token:
  assumes "rule_effect r t g v = Some (Some x, g', v')"
  shows "0 < x"
proof -
  have "list_all (\<lambda>(r, x). 0 < x) operator_rules" by code_simp
  then have "map_of operator_rules r = Some k \<Longrightarrow> 0 < k" for k by (auto simp: list_all_iff dest!: map_of_SomeD)
  then show ?thesis using assms token_code_pos
    by (auto simp del: map_of_append simp: rule_effect_def split: option.splits if_splits)
qed

lemma lex_spec_progress:
  "lex_spec w g v = Some (t, w', g', v') \<Longrightarrow> 0 \<le> t \<and> (t = 0 \<longrightarrow> w' = []) \<and> (t \<noteq> 0 \<longrightarrow> length w' < length w)"
proof (induction w g v rule: lex_spec.induct)
  case (1 w g v)
  show ?case
  proof (cases "w = []")
    case True
    then show ?thesis using "1.prems" by (simp add: lex_spec.simps[of "[]"])
  next
    case False
    let ?n = "longest w"
    have n: "length (drop ?n w) < length w" using longest_props(1)[OF False] False by (simp add: Suc_le_eq)
    obtain x g1 v1 where r: "rule_effect (rule_of (take ?n w)) (take ?n w) g v = Some (x, g1, v1)"
      using "1.prems" False by (subst (asm) lex_spec.simps) (auto split: option.splits)
    show ?thesis
    proof (cases x)
      case None
      then have "lex_spec (drop ?n w) g1 v1 = Some (t, w', g', v')"
        using "1.prems" False r by (subst (asm) lex_spec.simps) simp
      from "1.IH"[OF False r refl None refl this] n None show ?thesis by auto
    next
      case (Some y)
      then show ?thesis using "1.prems" False r n rule_effect_token[OF r[unfolded Some]] by (subst (asm) lex_spec.simps) simp
    qed
  qed
qed

section \<open>Properties\<close>

text \<open>C23: The scanner does what the rules of its specification say.  Reading from a string buffer, a call of
  \<open>yylex\<close> always returns; it skips blanks and unrecognised characters, takes the longest text that a
  rule matches and runs the action of the first such rule, with the token, the rest of the text,
  the globals and the value that the reference gives.\<close>

theorem yylex_longest_match:
  assumes "scanner_at w \<sigma>"
  shows "\<exists>t w' g v \<sigma>'. lex_spec w (glob \<sigma>) (yylval \<sigma>) = Some (t, w', g, v) \<and> yylex \<sigma> = Some (t, \<sigma>') \<and>
    scanner_at w' \<sigma>' \<and> glob \<sigma>' = g \<and> yylval \<sigma>' = v"
  by (rule yylex_at[OF assms])

theorem yylex_longest_match_witness:
  "\<exists>\<sigma> t w' g v \<sigma>'. yy_scan_string ''quit;'' (scanner_init parser_globals_init) = Some \<sigma> \<and>
    lex_spec ''quit;'' (glob \<sigma>) (yylval \<sigma>) = Some (t, w', g, v) \<and> yylex \<sigma> = Some (t, \<sigma>') \<and> glob \<sigma>' = g"
proof -
  obtain \<sigma> where s: "yy_scan_string ''quit;'' (scanner_init parser_globals_init) = Some \<sigma>" "scanner_at ''quit;'' \<sigma>"
    using yy_scan_string_at[of "scanner_init parser_globals_init" "''quit;''"] by (auto simp: scanner_init_def c_string_def)
  from yylex_longest_match[OF s(2)] s(1) show ?thesis by blast
qed

text \<open>The state that the tables reach after a text.\<close>

fun table_run :: "int \<Rightarrow> string \<Rightarrow> int option" where
  "table_run s [] = Some s"
| "table_run s (c # cs) = do {
     e \<leftarrow> tab yy_ec (of_char c);
     n \<leftarrow> yy_trans s e;
     table_run n cs }"

lemma table_run_describes:
  "describes s a \<Longrightarrow> NUL \<notin> set w \<Longrightarrow> \<exists>s'. table_run s w = Some s' \<and> describes s' (foldl adelta a w)"
proof (induction w arbitrary: s a)
  case (Cons c w)
  then have "c \<noteq> NUL" by auto
  from char_step[OF Cons.prems(1) this] obtain e n where
    "tab yy_ec (of_char c) = Some e" "yy_trans s e = Some n" "describes n (adelta a c)" by blast
  then show ?case using Cons.IH Cons.prems(2) by simp
qed simp

text \<open>C25: The compressed scanner tables implement the patterns.  For every text without a null character, the
  tables lead from the start state to a state whose accepting number is the first rule of the
  scanner specification that matches the whole text, or 0 if none does.\<close>

theorem scanner_tables_rules:
  assumes "NUL \<notin> set w"
  shows "\<exists>s. table_run 1 w = Some s \<and> tab yy_accept s = Some (rule_of w)"
  using table_run_describes[OF start_describes assms] accept_arun[of _ w] by (auto simp: arun_def)

theorem scanner_tables_rules_witness:
  "\<exists>s. table_run 1 ''insert'' = Some s \<and> tab yy_accept s = Some 5"
proof -
  have "rule_of ''insert'' = 5"
    by (simp add: rule_of_def is_string_def keyword_table_def)
  then show ?thesis using scanner_tables_rules[of "''insert''"] by (simp add: NUL_def)
qed

end
