(* ===== verification/Yacc_Parser.thy ===== *)
theory Yacc_Parser
  imports Yacc_Tables
begin

text \<open>The generated parser of \<open>parser/minisql_yacc.c\<close>.  The function \<open>yyparse\<close> is a loop over labels; one round
  of it, from \<open>yynewstate\<close> back to \<open>yynewstate\<close>, is \<open>yystep\<close>, and \<open>yyloop\<close> repeats it until the parser returns.  The
  two stacks are lists with the top first; the wasted bottom element of the value stack is left
  out, so the value stack is one shorter than the state stack.  An access outside of a table or
  below the bottom of a stack, and a use of the syntax tree operations that is undefined, has the
  result \<^const>\<open>None\<close>.  \<open>stack_malloc\<close> says which requests for larger stacks \<open>yyextend\<close> gets granted, by their size
  in bytes; it stands for this one call of malloc only, all other allocations are taken to succeed.\<close>

section \<open>State\<close>

record yyparser =
  scn :: scanner
  yyss :: "int list"
  yyvs :: "pSyntaxNode list"
  yystate :: int
  yychar :: int
  yytoken :: int
  yyerrstatus :: int
  yynerrs :: int
  yystacksize :: nat

definition yyparser_init :: "scanner \<Rightarrow> yyparser" where
  "yyparser_init \<sigma> =
     \<lparr>scn = \<sigma>, yyss = [], yyvs = [], yystate = 0, yychar = YYEMPTY, yytoken = 0, yyerrstatus = 0, yynerrs = 0,
      yystacksize = YYINITDEPTH\<rparr>"

text \<open>A round goes on with the next one, or leaves the loop with the result of \<open>yyparse\<close>.\<close>

type_synonym yyround = "yyparser + int \<times> yyparser"

definition yyerror :: "string \<Rightarrow> yyparser \<Rightarrow> yyparser" where
  "yyerror msg P = P\<lparr>scn := (scn P)\<lparr>glob := MinisqlParserSetError (Literal msg) (glob (scn P))\<rparr>\<rparr>"

section \<open>Entering a state\<close>

definition YYSTACK_BYTES :: "nat \<Rightarrow> nat" where
  "YYSTACK_BYTES n = n * (2 + 8) + (8 - 1)"

definition yyexhaustedlab :: "yyparser \<Rightarrow> int \<times> yyparser" where
  "yyexhaustedlab P = (2, yyerror ''memory exhausted'' P)"

definition yyextend :: "(nat \<Rightarrow> bool) \<Rightarrow> yyparser \<Rightarrow> yyround" where
  "yyextend stack_malloc P =
     (if YYMAXDEPTH \<le> yystacksize P then Inr (yyexhaustedlab P)
      else let n = yystacksize P * 2;
               n = (if YYMAXDEPTH < n then YYMAXDEPTH else n);
               P = P\<lparr>yystacksize := n\<rparr>
           in if \<not> stack_malloc (YYSTACK_BYTES n) then Inr (yyexhaustedlab P)
              else if n \<le> length (yyss P) then Inr (1, P)
              else Inl P)"

definition yysetstate :: "(nat \<Rightarrow> bool) \<Rightarrow> yyparser \<Rightarrow> yyround" where
  "yysetstate stack_malloc P =
     (let P = P\<lparr>yyss := yystate P # yyss P\<rparr>
      in if yystacksize P \<le> length (yyss P) then yyextend stack_malloc P else Inl P)"

section \<open>Deciding what to do\<close>

datatype decision = Shift int | Reduce int | Syntax_Error | Accept

definition YYTRANSLATE :: "int \<Rightarrow> int option" where
  "YYTRANSLATE x = (if nat (x mod 2 ^ 32) \<le> nat YYMAXUTOK then tab yytranslate x else Some YYUNDEFTOK)"

definition yydefault :: "yyparser \<Rightarrow> (decision \<times> yyparser) option" where
  "yydefault P = do {
     yyn \<leftarrow> tab yydefact (yystate P);
     Some (if yyn = 0 then Syntax_Error else Reduce yyn, P) }"

definition read_token :: "yyparser \<Rightarrow> yyparser option" where
  "read_token P =
     (if yychar P = YYEMPTY then do {
        (t, \<sigma>) \<leftarrow> yylex (scn P);
        Some (P\<lparr>scn := \<sigma>, yychar := t\<rparr>) }
      else Some P)"

definition translate_token :: "yyparser \<Rightarrow> yyparser option" where
  "translate_token P =
     (if yychar P \<le> YYEOF then Some (P\<lparr>yychar := YYEOF, yytoken := YYEOF\<rparr>)
      else do {
        t \<leftarrow> YYTRANSLATE (yychar P);
        Some (P\<lparr>yytoken := t\<rparr>) })"

definition yybackup :: "yyparser \<Rightarrow> (decision \<times> yyparser) option" where
  "yybackup P = do {
     yyn \<leftarrow> tab yypact (yystate P);
     if yyn = YYPACT_NINF then yydefault P
     else do {
       P \<leftarrow> read_token P;
       P \<leftarrow> translate_token P;
       let yyn = yyn + yytoken P;
       if yyn < 0 \<or> YYLAST < yyn then yydefault P
       else do {
         c \<leftarrow> tab yycheck yyn;
         if c \<noteq> yytoken P then yydefault P
         else do {
           yyn \<leftarrow> tab yytable yyn;
           if yyn \<le> 0 then
             if yyn = 0 \<or> yyn = YYTABLE_NINF then Some (Syntax_Error, P) else Some (Reduce (- yyn), P)
           else if yyn = YYFINAL then Some (Accept, P)
           else Some (Shift yyn, P) } } } }"

definition yyshift :: "int \<Rightarrow> yyparser \<Rightarrow> yyparser" where
  "yyshift yyn P =
     (let P = (if yyerrstatus P \<noteq> 0 then P\<lparr>yyerrstatus := yyerrstatus P - 1\<rparr> else P);
          P = (if yychar P \<noteq> YYEOF then P\<lparr>yychar := YYEMPTY\<rparr> else P)
      in P\<lparr>yystate := yyn, yyvs := yylval (scn P) # yyvs P\<rparr>)"

section \<open>Semantic actions\<close>

text \<open>The actions get the values of the right-hand side, \<open>$1\<close> first, and return \<open>$$\<close>.\<close>

type_synonym action = "pSyntaxNode list \<Rightarrow> parser_globals \<Rightarrow> (pSyntaxNode \<times> parser_globals) option"

definition dollar :: "pSyntaxNode list \<Rightarrow> nat \<Rightarrow> pSyntaxNode" where
  "dollar vs i = vs ! (i - 1)"

definition database_actions :: "int \<Rightarrow> action" where
  "database_actions r vs g =
     (if r = 22 then do {
        (n, g) \<leftarrow> CreateSyntaxNode kNodeCreateDB None g;
        g \<leftarrow> SyntaxNodeAddChildren (Some n) (dollar vs 3) g;
        Some (Some n, g) }
      else if r = 23 then do {
        (n, g) \<leftarrow> CreateSyntaxNode kNodeDropDB None g;
        g \<leftarrow> SyntaxNodeAddChildren (Some n) (dollar vs 3) g;
        Some (Some n, g) }
      else if r = 24 then do {
        (n, g) \<leftarrow> CreateSyntaxNode kNodeShowDB None g;
        Some (Some n, g) }
      else if r = 25 then do {
        (n, g) \<leftarrow> CreateSyntaxNode kNodeUseDB None g;
        g \<leftarrow> SyntaxNodeAddChildren (Some n) (dollar vs 2) g;
        Some (Some n, g) }
      else do {
        (n, g) \<leftarrow> CreateSyntaxNode kNodeShowTables None g;
        Some (Some n, g) })"

definition table_actions :: "int \<Rightarrow> action" where
  "table_actions r vs g =
     (if r = 27 then do {
        (n, g) \<leftarrow> CreateSyntaxNode kNodeCreateTable None g;
        (list_node, g) \<leftarrow> CreateSyntaxNode kNodeColumnDefinitionList None g;
        g \<leftarrow> SyntaxNodeAddChildren (Some list_node) (dollar vs 5) g;
        g \<leftarrow> SyntaxNodeAddChildren (Some n) (dollar vs 3) g;
        g \<leftarrow> SyntaxNodeAddChildren (Some n) (Some list_node) g;
        Some (Some n, g) }
      else if r = 28 then do {
        g \<leftarrow> SyntaxNodeAddSibling (dollar vs 1) (dollar vs 3) g;
        Some (dollar vs 1, g) }
      else if r = 29 then Some (dollar vs 1, g)
      else if r = 30 then do {
        g \<leftarrow> SyntaxNodeAddSibling (dollar vs 1) (dollar vs 3) g;
        Some (dollar vs 1, g) }
      else if r = 31 then Some (dollar vs 1, g)
      else if r = 32 then do {
        (n, g) \<leftarrow> CreateSyntaxNode kNodeColumnList (Some ''primary keys'') g;
        g \<leftarrow> SyntaxNodeAddChildren (Some n) (dollar vs 4) g;
        Some (Some n, g) }
      else if r = 33 then do {
        (n, g) \<leftarrow> CreateSyntaxNode kNodeColumnDefinition (Some ''unique'') g;
        g \<leftarrow> SyntaxNodeAddChildren (Some n) (dollar vs 1) g;
        g \<leftarrow> SyntaxNodeAddChildren (Some n) (dollar vs 2) g;
        Some (Some n, g) }
      else if r = 34 then do {
        (n, g) \<leftarrow> CreateSyntaxNode kNodeColumnDefinition None g;
        g \<leftarrow> SyntaxNodeAddChildren (Some n) (dollar vs 1) g;
        g \<leftarrow> SyntaxNodeAddChildren (Some n) (dollar vs 2) g;
        Some (Some n, g) }
      else if r = 35 then do {
        (n, g) \<leftarrow> CreateSyntaxNode kNodeColumnType (Some ''int'') g;
        Some (Some n, g) }
      else if r = 36 then do {
        (n, g) \<leftarrow> CreateSyntaxNode kNodeColumnType (Some ''float'') g;
        Some (Some n, g) }
      else if r = 37 then do {
        (n, g) \<leftarrow> CreateSyntaxNode kNodeColumnType (Some ''char'') g;
        g \<leftarrow> SyntaxNodeAddChildren (Some n) (dollar vs 3) g;
        Some (Some n, g) }
      else do {
        (n, g) \<leftarrow> CreateSyntaxNode kNodeDropTable None g;
        g \<leftarrow> SyntaxNodeAddChildren (Some n) (dollar vs 3) g;
        Some (Some n, g) })"

definition index_actions :: "int \<Rightarrow> action" where
  "index_actions r vs g =
     (if r = 39 then do {
        (n, g) \<leftarrow> CreateSyntaxNode kNodeCreateIndex None g;
        g \<leftarrow> SyntaxNodeAddChildren (Some n) (dollar vs 3) g;
        g \<leftarrow> SyntaxNodeAddChildren (Some n) (dollar vs 5) g;
        (index_keys_node, g) \<leftarrow> CreateSyntaxNode kNodeColumnList (Some ''index keys'') g;
        g \<leftarrow> SyntaxNodeAddChildren (Some index_keys_node) (dollar vs 7) g;
        g \<leftarrow> SyntaxNodeAddChildren (Some n) (Some index_keys_node) g;
        Some (Some n, g) }
      else if r = 40 then do {
        (n, g) \<leftarrow> CreateSyntaxNode kNodeCreateIndex None g;
        g \<leftarrow> SyntaxNodeAddChildren (Some n) (dollar vs 3) g;
        g \<leftarrow> SyntaxNodeAddChildren (Some n) (dollar vs 5) g;
        (index_keys_node, g) \<leftarrow> CreateSyntaxNode kNodeColumnList (Some ''index keys'') g;
        g \<leftarrow> SyntaxNodeAddChildren (Some index_keys_node) (dollar vs 7) g;
        g \<leftarrow> SyntaxNodeAddChildren (Some n) (Some index_keys_node) g;
        (index_type_node, g) \<leftarrow> CreateSyntaxNode kNodeIndexType (Some ''index type'') g;
        g \<leftarrow> SyntaxNodeAddChildren (Some index_type_node) (dollar vs 10) g;
        g \<leftarrow> SyntaxNodeAddChildren (Some n) (Some index_type_node) g;
        Some (Some n, g) }
      else if r = 41 then do {
        (n, g) \<leftarrow> CreateSyntaxNode kNodeDropIndex None g;
        g \<leftarrow> SyntaxNodeAddChildren (Some n) (dollar vs 3) g;
        Some (Some n, g) }
      else do {
        (n, g) \<leftarrow> CreateSyntaxNode kNodeShowIndexes None g;
        Some (Some n, g) })"

definition select_actions :: "int \<Rightarrow> action" where
  "select_actions r vs g =
     (if r = 43 then do {
        (n, g) \<leftarrow> CreateSyntaxNode kNodeSelect None g;
        g \<leftarrow> SyntaxNodeAddChildren (Some n) (dollar vs 2) g;
        g \<leftarrow> SyntaxNodeAddChildren (Some n) (dollar vs 4) g;
        Some (Some n, g) }
      else if r = 44 then do {
        (n, g) \<leftarrow> CreateSyntaxNode kNodeSelect None g;
        g \<leftarrow> SyntaxNodeAddChildren (Some n) (dollar vs 2) g;
        g \<leftarrow> SyntaxNodeAddChildren (Some n) (dollar vs 4) g;
        (condition_node, g) \<leftarrow> CreateSyntaxNode kNodeConditions None g;
        g \<leftarrow> SyntaxNodeAddChildren (Some condition_node) (dollar vs 6) g;
        g \<leftarrow> SyntaxNodeAddChildren (Some n) (Some condition_node) g;
        Some (Some n, g) }
      else if r = 45 then do {
        (n, g) \<leftarrow> CreateSyntaxNode kNodeAllColumns None g;
        Some (Some n, g) }
      else if r = 46 then do {
        (n, g) \<leftarrow> CreateSyntaxNode kNodeColumnList (Some ''select columns'') g;
        g \<leftarrow> SyntaxNodeAddChildren (Some n) (dollar vs 1) g;
        Some (Some n, g) }
      else if r = 47 then do {
        g \<leftarrow> SyntaxNodeAddChildren (dollar vs 2) (dollar vs 1) g;
        g \<leftarrow> SyntaxNodeAddChildren (dollar vs 2) (dollar vs 3) g;
        Some (dollar vs 2, g) }
      else if r = 48 then Some (dollar vs 1, g)
      else if r = 49 then do {
        (n, g) \<leftarrow> CreateSyntaxNode kNodeConnector (Some ''and'') g;
        Some (Some n, g) }
      else if r = 50 then do {
        (n, g) \<leftarrow> CreateSyntaxNode kNodeConnector (Some ''or'') g;
        Some (Some n, g) }
      else if r = 51 then do {
        g \<leftarrow> SyntaxNodeAddChildren (dollar vs 2) (dollar vs 1) g;
        g \<leftarrow> SyntaxNodeAddChildren (dollar vs 2) (dollar vs 3) g;
        Some (dollar vs 2, g) }
      else if r = 52 then Some (dollar vs 1, g)
      else if r = 53 then Some (dollar vs 1, g)
      else do {
        (n, g) \<leftarrow> CreateSyntaxNode kNodeNull None g;
        Some (Some n, g) })"

definition operator_names :: "(int \<times> string) list" where
  "operator_names =
     [(55, ''=''), (56, ''<>''), (57, ''<=''), (58, ''>=''), (59, ''<''), (60, ''>''), (61, ''is''), (62, ''not'')]"

definition operator_actions :: "int \<Rightarrow> action" where
  "operator_actions r vs g = do {
     op \<leftarrow> map_of operator_names r;
     (n, g) \<leftarrow> CreateSyntaxNode kNodeCompareOperator (Some op) g;
     Some (Some n, g) }"

definition update_actions :: "int \<Rightarrow> action" where
  "update_actions r vs g =
     (if r = 63 then do {
        (n, g) \<leftarrow> CreateSyntaxNode kNodeInsert None g;
        g \<leftarrow> SyntaxNodeAddChildren (Some n) (dollar vs 3) g;
        (col_val_node, g) \<leftarrow> CreateSyntaxNode kNodeColumnValues None g;
        g \<leftarrow> SyntaxNodeAddChildren (Some col_val_node) (dollar vs 6) g;
        g \<leftarrow> SyntaxNodeAddChildren (Some n) (Some col_val_node) g;
        Some (Some n, g) }
      else if r = 64 then do {
        g \<leftarrow> SyntaxNodeAddSibling (dollar vs 1) (dollar vs 3) g;
        Some (dollar vs 1, g) }
      else if r = 65 then Some (dollar vs 1, g)
      else if r = 66 then do {
        (n, g) \<leftarrow> CreateSyntaxNode kNodeDelete None g;
        g \<leftarrow> SyntaxNodeAddChildren (Some n) (dollar vs 3) g;
        Some (Some n, g) }
      else if r = 67 then do {
        (n, g) \<leftarrow> CreateSyntaxNode kNodeDelete None g;
        g \<leftarrow> SyntaxNodeAddChildren (Some n) (dollar vs 3) g;
        (condition_node, g) \<leftarrow> CreateSyntaxNode kNodeConditions None g;
        g \<leftarrow> SyntaxNodeAddChildren (Some condition_node) (dollar vs 5) g;
        g \<leftarrow> SyntaxNodeAddChildren (Some n) (Some condition_node) g;
        Some (Some n, g) }
      else if r = 68 then do {
        (n, g) \<leftarrow> CreateSyntaxNode kNodeUpdate None g;
        g \<leftarrow> SyntaxNodeAddChildren (Some n) (dollar vs 2) g;
        (upd_values_node, g) \<leftarrow> CreateSyntaxNode kNodeUpdateValues None g;
        g \<leftarrow> SyntaxNodeAddChildren (Some upd_values_node) (dollar vs 4) g;
        g \<leftarrow> SyntaxNodeAddChildren (Some n) (Some upd_values_node) g;
        Some (Some n, g) }
      else if r = 69 then do {
        (n, g) \<leftarrow> CreateSyntaxNode kNodeUpdate None g;
        g \<leftarrow> SyntaxNodeAddChildren (Some n) (dollar vs 2) g;
        (upd_values_node, g) \<leftarrow> CreateSyntaxNode kNodeUpdateValues None g;
        g \<leftarrow> SyntaxNodeAddChildren (Some upd_values_node) (dollar vs 4) g;
        g \<leftarrow> SyntaxNodeAddChildren (Some n) (Some upd_values_node) g;
        (condition_node, g) \<leftarrow> CreateSyntaxNode kNodeConditions None g;
        g \<leftarrow> SyntaxNodeAddChildren (Some condition_node) (dollar vs 6) g;
        g \<leftarrow> SyntaxNodeAddChildren (Some n) (Some condition_node) g;
        Some (Some n, g) }
      else if r = 70 then do {
        g \<leftarrow> SyntaxNodeAddSibling (dollar vs 1) (dollar vs 3) g;
        Some (dollar vs 1, g) }
      else if r = 71 then Some (dollar vs 1, g)
      else do {
        (n, g) \<leftarrow> CreateSyntaxNode kNodeUpdateValue None g;
        g \<leftarrow> SyntaxNodeAddChildren (Some n) (dollar vs 1) g;
        g \<leftarrow> SyntaxNodeAddChildren (Some n) (dollar vs 3) g;
        Some (Some n, g) })"

definition session_actions :: "int \<Rightarrow> action" where
  "session_actions r vs g =
     (if r = 73 then do {
        (n, g) \<leftarrow> CreateSyntaxNode kNodeTrxBegin None g;
        Some (Some n, g) }
      else if r = 74 then do {
        (n, g) \<leftarrow> CreateSyntaxNode kNodeTrxCommit None g;
        Some (Some n, g) }
      else if r = 75 then do {
        (n, g) \<leftarrow> CreateSyntaxNode kNodeTrxRollback None g;
        Some (Some n, g) }
      else if r = 76 then do {
        (n, g) \<leftarrow> CreateSyntaxNode kNodeQuit None g;
        Some (Some n, g) }
      else do {
        (n, g) \<leftarrow> CreateSyntaxNode kNodeExecFile None g;
        g \<leftarrow> SyntaxNodeAddChildren (Some n) (dollar vs 2) g;
        Some (Some n, g) })"

text \<open>The \<open>switch\<close> over the rule number; rules without a case keep the default \<open>$$ = $1\<close>, and so do by
  their action the rules 3 to 21.\<close>

definition statement_actions :: "int \<Rightarrow> action" where
  "statement_actions r vs g =
     (if r = 2 then Some (dollar vs 1, MinisqlParserSetRoot (dollar vs 1) g) else Some (dollar vs 1, g))"

definition yyaction :: "int \<Rightarrow> action" where
  "yyaction r vs g =
     (if r < 22 then statement_actions r vs g
      else if r < 27 then database_actions r vs g
      else if r < 39 then table_actions r vs g
      else if r < 43 then index_actions r vs g
      else if r < 55 then select_actions r vs g
      else if r < 63 then operator_actions r vs g
      else if r < 73 then update_actions r vs g
      else if r \<le> YYNRULES then session_actions r vs g
      else Some (dollar vs 1, g))"

section \<open>Reducing\<close>

definition yygoto :: "int \<Rightarrow> int \<Rightarrow> int option" where
  "yygoto s lhs = do {
     p \<leftarrow> tab yypgoto (lhs - YYNTOKENS);
     let n = p + s;
     if 0 \<le> n \<and> n \<le> YYLAST then do {
       c \<leftarrow> tab yycheck n;
       if c = s then tab yytable n else tab yydefgoto (lhs - YYNTOKENS) }
     else tab yydefgoto (lhs - YYNTOKENS) }"

definition yyreduce :: "int \<Rightarrow> yyparser \<Rightarrow> yyparser option" where
  "yyreduce yyn P = do {
     len \<leftarrow> tab yyr2 yyn;
     let yylen = nat len;
     if length (yyvs P) < yylen \<or> length (yyss P) \<le> yylen then None
     else do {
       (yyval, g) \<leftarrow> yyaction yyn (rev (take yylen (yyvs P))) (glob (scn P));
       let ss = drop yylen (yyss P);
       lhs \<leftarrow> tab yyr1 yyn;
       s \<leftarrow> yygoto (hd ss) lhs;
       Some (P\<lparr>scn := (scn P)\<lparr>glob := g\<rparr>, yyss := ss, yyvs := yyval # drop yylen (yyvs P), yystate := s\<rparr>) } }"

section \<open>Errors\<close>

text \<open>Can the state shift the error token, and where does it go?\<close>

definition error_shift :: "int \<Rightarrow> int option option" where
  "error_shift s = do {
     yyn \<leftarrow> tab yypact s;
     if yyn = YYPACT_NINF then Some None
     else if 0 \<le> yyn + YYTERROR \<and> yyn + YYTERROR \<le> YYLAST then do {
       c \<leftarrow> tab yycheck (yyn + YYTERROR);
       if c = YYTERROR then do {
         n \<leftarrow> tab yytable (yyn + YYTERROR);
         Some (if 0 < n then Some n else None) }
       else Some None }
     else Some None }"

text \<open>The loop of \<open>yyerrlab1\<close> that pops states until one can shift the error token.\<close>

fun pop_states :: "int list \<Rightarrow> pSyntaxNode list \<Rightarrow> yyparser \<Rightarrow> yyround option" where
  "pop_states (s # ss) vs P = do {
     e \<leftarrow> error_shift s;
     (case e of
        Some yyn \<Rightarrow>
          if yyn = YYFINAL then Some (Inr (0, P\<lparr>yyss := s # ss, yyvs := vs, yystate := s\<rparr>))
          else Some (Inl (P\<lparr>yyss := s # ss, yyvs := yylval (scn P) # vs, yystate := yyn\<rparr>))
      | None \<Rightarrow>
          (case ss of
             [] \<Rightarrow> Some (Inr (1, P\<lparr>yyss := [s], yyvs := vs, yystate := s\<rparr>))
           | s' # ss' \<Rightarrow> pop_states ss (tl vs) P)) }"
| "pop_states [] vs P = None"

definition yyerrlab1 :: "yyparser \<Rightarrow> yyround option" where
  "yyerrlab1 P = pop_states (yyss P) (yyvs P) (P\<lparr>yyerrstatus := 3\<rparr>)"

definition yyerrlab :: "yyparser \<Rightarrow> yyround option" where
  "yyerrlab P =
     (let P = (if yyerrstatus P = 0 then yyerror ''syntax error'' (P\<lparr>yynerrs := yynerrs P + 1\<rparr>) else P)
      in if yyerrstatus P = 3 then
           if yychar P \<le> YYEOF then
             if yychar P = YYEOF then Some (Inr (1, P)) else yyerrlab1 P
           else yyerrlab1 (P\<lparr>yychar := YYEMPTY\<rparr>)
         else yyerrlab1 P)"

section \<open>The parser\<close>

definition yystep :: "(nat \<Rightarrow> bool) \<Rightarrow> yyparser \<Rightarrow> yyround option" where
  "yystep stack_malloc P =
     (case yysetstate stack_malloc P of
        Inr r \<Rightarrow> Some (Inr r)
      | Inl P \<Rightarrow> do {
          (d, P) \<leftarrow> yybackup P;
          (case d of
             Shift n \<Rightarrow> Some (Inl (yyshift n P))
           | Reduce r \<Rightarrow> map_option Inl (yyreduce r P)
           | Accept \<Rightarrow> Some (Inr (0, P))
           | Syntax_Error \<Rightarrow> yyerrlab P) })"

partial_function (option) yyloop :: "(nat \<Rightarrow> bool) \<Rightarrow> yyparser \<Rightarrow> (int \<times> yyparser) option" where
  "yyloop stack_malloc P =
     (case yystep stack_malloc P of
        None \<Rightarrow> None
      | Some (Inl P') \<Rightarrow> yyloop stack_malloc P'
      | Some (Inr r) \<Rightarrow> Some r)"

text \<open>What is left on the stacks is popped; \<open>yydestruct\<close> has nothing to release.\<close>

definition yyreturn :: "yyparser \<Rightarrow> yyparser" where
  "yyreturn P = P\<lparr>yyss := take 1 (rev (yyss P)), yyvs := []\<rparr>"

definition yyparse :: "(nat \<Rightarrow> bool) \<Rightarrow> scanner \<Rightarrow> (int \<times> scanner) option" where
  "yyparse stack_malloc \<sigma> = do {
     (r, P) \<leftarrow> yyloop stack_malloc (yyparser_init \<sigma>);
     Some (r, scn (yyreturn P)) }"

lemmas yyloop_code [code] = yyloop.simps

end
