(* ===== verification/LR_Automaton.thy ===== *)
theory LR_Automaton
  imports Yacc_Parser
begin

text \<open>Table-driven LR parsing in general.  A grammar with semantic values, the machine that a pair of
  action and goto tables drives, and a certificate for the tables: for each state the rules that may
  be in progress there (LR(0) items).  The locale \<open>lr_automaton\<close> states what has to be checked of tables and
  certificate; in it, the machine is shown to accept exactly the sentences of the grammar, with the
  value that the derivation has, and to stop on every input.\<close>

section \<open>Grammars and the machine\<close>

record 'v grammar =
  g_term :: "int \<Rightarrow> bool"
  g_rules :: "int set"
  g_lhs :: "int \<Rightarrow> int"
  g_rhs :: "int \<Rightarrow> int list"
  g_sem :: "int \<Rightarrow> 'v list \<Rightarrow> 'v"

text \<open>A sentence is a list of terminals with their values.\<close>

inductive derives :: "'v grammar \<Rightarrow> int \<Rightarrow> (int \<times> 'v) list \<Rightarrow> 'v \<Rightarrow> bool"
  and derives_seq :: "'v grammar \<Rightarrow> int list \<Rightarrow> (int \<times> 'v) list \<Rightarrow> 'v list \<Rightarrow> bool" for G where
  derives_term: "g_term G a \<Longrightarrow> derives G a [(a, v)] v"
| derives_rule: "r \<in> g_rules G \<Longrightarrow> derives_seq G (g_rhs G r) w vs \<Longrightarrow> derives G (g_lhs G r) w (g_sem G r vs)"
| derives_Nil: "derives_seq G [] [] []"
| derives_Cons: "derives G X w1 v \<Longrightarrow> derives_seq G Xs w2 vs \<Longrightarrow> derives_seq G (X # Xs) (w1 @ w2) (v # vs)"

inductive_simps derives_seq_Nil [simp]: "derives_seq G [] w vs"

type_synonym 'v config = "int list \<times> 'v list \<times> (int \<times> 'v) list"

definition next_symbol :: "(int \<times> 'v) list \<Rightarrow> int" where
  "next_symbol ts = (case ts of [] \<Rightarrow> 0 | (a, v) # ts \<Rightarrow> a)"

fun lr_step :: "'v grammar \<Rightarrow> (int \<Rightarrow> int \<Rightarrow> decision) \<Rightarrow> (int \<Rightarrow> int \<Rightarrow> int option) \<Rightarrow> 'v config \<Rightarrow> 'v config option" where
  "lr_step G act goto (ss, vs, ts) =
     (case act (hd ss) (next_symbol ts) of
        Shift n \<Rightarrow> (case ts of [] \<Rightarrow> None | (a, v) # ts' \<Rightarrow> Some (n # ss, v # vs, ts'))
      | Reduce r \<Rightarrow>
          let k = length (g_rhs G r) in
          if length vs < k \<or> length ss \<le> k then None
          else (case goto (hd (drop k ss)) (g_lhs G r) of
              None \<Rightarrow> None
            | Some n \<Rightarrow> Some (n # drop k ss, g_sem G r (rev (take k vs)) # drop k vs, ts))
      | Syntax_Error \<Rightarrow> None
      | Accept \<Rightarrow> None)"

definition lr_steps :: "'v grammar \<Rightarrow> (int \<Rightarrow> int \<Rightarrow> decision) \<Rightarrow> (int \<Rightarrow> int \<Rightarrow> int option) \<Rightarrow> 'v config \<Rightarrow> 'v config \<Rightarrow> bool" where
  "lr_steps G act goto = (\<lambda>c c'. lr_step G act goto c = Some c')\<^sup>*\<^sup>*"

definition lr_decision :: "(int \<Rightarrow> int \<Rightarrow> decision) \<Rightarrow> 'v config \<Rightarrow> decision" where
  "lr_decision act c = (case c of (ss, vs, ts) \<Rightarrow> act (hd ss) (next_symbol ts))"

definition lr_accepts :: "'v grammar \<Rightarrow> (int \<Rightarrow> int \<Rightarrow> decision) \<Rightarrow> (int \<Rightarrow> int \<Rightarrow> int option) \<Rightarrow> (int \<times> 'v) list \<Rightarrow> 'v \<Rightarrow> bool" where
  "lr_accepts G act goto ts v \<longleftrightarrow>
     (\<exists>ss. lr_steps G act goto ([0], [], ts) (ss, [v], []) \<and> lr_decision act (ss, [v], []) = Accept)"

section \<open>Certified tables\<close>

text \<open>Rule 1 is the rule for the whole input: the start symbol followed by the end of the input, symbol 0.\<close>

locale lr_automaton =
  fixes G :: "'v grammar"
    and act :: "int \<Rightarrow> int \<Rightarrow> decision"
    and goto :: "int \<Rightarrow> int \<Rightarrow> int option"
    and items :: "int \<Rightarrow> (int \<times> nat) set"
    and first follow :: "int \<Rightarrow> int set"
    and start :: int
  assumes rhs_nonempty: "r \<in> g_rules G \<Longrightarrow> g_rhs G r \<noteq> []"
    and lhs_nonterminal: "r \<in> g_rules G \<Longrightarrow> \<not> g_term G (g_lhs G r) \<and> g_lhs G r \<noteq> 0"
    and start_rule: "g_rhs G 1 = [start, 0]" "1 \<notin> g_rules G" "\<not> g_term G 0" "\<not> g_term G start"
    and start_item: "(1, 0) \<in> items p \<longleftrightarrow> p = 0"
    and start_items: "(r, i) \<in> items 0 \<Longrightarrow> i = 0"
    and item_rule: "(r, i) \<in> items s \<Longrightarrow> (r = 1 \<or> r \<in> g_rules G) \<and> i \<le> length (g_rhs G r)"
    and item_back: "(r, Suc i) \<in> items n \<Longrightarrow> act p a = Shift n \<Longrightarrow> i < length (g_rhs G r) \<and> g_rhs G r ! i = a \<and> (r, i) \<in> items p"
    and item_back_goto: "(r, Suc i) \<in> items n \<Longrightarrow> goto p X = Some n \<Longrightarrow> (r', j) \<in> items p \<Longrightarrow> j < length (g_rhs G r') \<Longrightarrow>
      g_rhs G r' ! j = X \<Longrightarrow> i < length (g_rhs G r) \<and> g_rhs G r ! i = X \<and> (r, i) \<in> items p"
    and item_origin: "(r, 0) \<in> items s \<Longrightarrow> r \<noteq> 1 \<Longrightarrow> \<exists>r' j. (r', j) \<in> items s \<and> j < length (g_rhs G r') \<and> g_rhs G r' ! j = g_lhs G r"
    and shift_term: "act p a = Shift n \<Longrightarrow> g_term G a \<and> n \<noteq> 0"
    and goto_nonzero: "goto p X = Some n \<Longrightarrow> (r, i) \<in> items p \<Longrightarrow> i < length (g_rhs G r) \<Longrightarrow> g_rhs G r ! i = X \<Longrightarrow> n \<noteq> 0"
    and reduce_item: "act s a = Reduce r \<Longrightarrow> (r, length (g_rhs G r)) \<in> items s"
    and accept_item: "act s a = Accept \<longleftrightarrow> a = 0 \<and> (1, 1) \<in> items s"
    and item_closure: "(r, i) \<in> items s \<Longrightarrow> i < length (g_rhs G r) \<Longrightarrow> r' \<in> g_rules G \<Longrightarrow> g_lhs G r' = g_rhs G r ! i \<Longrightarrow>
      (r', 0) \<in> items s"
    and item_shift: "(r, i) \<in> items s \<Longrightarrow> i < length (g_rhs G r) \<Longrightarrow> g_term G (g_rhs G r ! i) \<Longrightarrow>
      \<exists>n. act s (g_rhs G r ! i) = Shift n \<and> (r, Suc i) \<in> items n"
    and item_goto: "(r, i) \<in> items s \<Longrightarrow> i < length (g_rhs G r) \<Longrightarrow> \<not> g_term G (g_rhs G r ! i) \<Longrightarrow> g_rhs G r ! i \<noteq> 0 \<Longrightarrow>
      \<exists>n. goto s (g_rhs G r ! i) = Some n \<and> (r, Suc i) \<in> items n"
    and item_reduce: "(r, length (g_rhs G r)) \<in> items s \<Longrightarrow> r \<noteq> 1 \<Longrightarrow> a \<in> follow (g_lhs G r) \<Longrightarrow> act s a = Reduce r"
    and first_term: "g_term G a \<Longrightarrow> a \<in> first a"
    and first_rule: "r \<in> g_rules G \<Longrightarrow> first (hd (g_rhs G r)) \<subseteq> first (g_lhs G r)"
    and follow_inner: "r \<in> g_rules G \<Longrightarrow> Suc i < length (g_rhs G r) \<Longrightarrow> first (g_rhs G r ! Suc i) \<subseteq> follow (g_rhs G r ! i)"
    and follow_last: "r \<in> g_rules G \<Longrightarrow> follow (g_lhs G r) \<subseteq> follow (last (g_rhs G r))"
    and follow_start: "0 \<in> follow start"
    and rules_not_zero: "r \<in> g_rules G \<Longrightarrow> 0 \<notin> set (g_rhs G r)"
begin

lemma derives_first:
  "derives G X w v \<Longrightarrow> w \<noteq> [] \<and> next_symbol (w @ rest) \<in> first X"
  "derives_seq G Xs w vs \<Longrightarrow> Xs \<noteq> [] \<Longrightarrow> w \<noteq> [] \<and> next_symbol (w @ rest) \<in> first (hd Xs)"
proof (induction arbitrary: rest and rest rule: derives_derives_seq.inducts)
  case (derives_rule r w vs)
  then show ?case using rhs_nonempty first_rule by blast
next
  case (derives_Cons X w1 v Xs w2 vs)
  then show ?case by simp
qed (auto simp: next_symbol_def first_term)

lemma derives_seq_length: "derives_seq G Xs w vs \<Longrightarrow> length vs = length Xs"
  by (induction Xs arbitrary: w vs) (auto elim: derives_seq.cases)

section \<open>Soundness\<close>

text \<open>The transitions of the automaton, and the stacks that parse a prefix of the input.\<close>

definition edge :: "int \<Rightarrow> int \<Rightarrow> int \<Rightarrow> bool" where
  "edge p X n \<longleftrightarrow> act p X = Shift n \<or>
     (goto p X = Some n \<and> (\<exists>r i. (r, i) \<in> items p \<and> i < length (g_rhs G r) \<and> g_rhs G r ! i = X))"

inductive parsed :: "int list \<Rightarrow> int list \<Rightarrow> 'v list \<Rightarrow> (int \<times> 'v) list \<Rightarrow> bool" where
  parsed_Nil: "parsed [0] [] [] []"
| parsed_push: "parsed (p # ss) Xs vs w \<Longrightarrow> edge p X n \<Longrightarrow> derives G X u v \<Longrightarrow> parsed (n # p # ss) (X # Xs) (v # vs) (w @ u)"

inductive_cases parsedE: "parsed ss Xs vs w"

lemma edge_back:
  assumes "edge p X n" and "(r, Suc i) \<in> items n"
  shows "i < length (g_rhs G r) \<and> g_rhs G r ! i = X \<and> (r, i) \<in> items p"
  using assms item_back item_back_goto unfolding edge_def by blast

lemma edge_nonzero: "edge p X n \<Longrightarrow> n \<noteq> 0"
  using shift_term goto_nonzero unfolding edge_def by metis

lemma parsed_lengths: "parsed ss Xs vs w \<Longrightarrow> ss \<noteq> [] \<and> length ss = Suc (length vs) \<and> length Xs = length vs \<and> length vs \<le> length w"
proof (induction rule: parsed.induct)
  case (parsed_push p ss Xs vs w X n u v)
  then have "u \<noteq> []" using derives_first(1) by blast
  then have "1 \<le> length u" by (cases u) simp_all
  then show ?case using parsed_push by auto
qed simp

lemma parsed_zero: "parsed (0 # ss) Xs vs w \<Longrightarrow> ss = [] \<and> Xs = [] \<and> vs = [] \<and> w = []"
  by (erule parsedE) (auto dest: edge_nonzero)

lemma derives_seq_snoc: "derives_seq G Xs w vs \<Longrightarrow> derives G X u v \<Longrightarrow> derives_seq G (Xs @ [X]) (w @ u) (vs @ [v])"
proof (induction Xs arbitrary: w vs)
  case Nil
  then show ?case using derives_Cons[of G X u v "[]" "[]" "[]"] derives_Nil by auto
next
  case (Cons Y Ys)
  from Cons.prems(1) obtain w1 y w2 ys where "derives G Y w1 y" "derives_seq G Ys w2 ys" "w = w1 @ w2" "vs = y # ys"
    by (auto elim: derives_seq.cases)
  then show ?case using Cons.IH[of w2 ys] Cons.prems(2) derives_derives_seq.derives_Cons[of G Y w1 y] by fastforce
qed

text \<open>On top of the stack lies what the item of the top state says.\<close>

lemma item_stack:
  assumes "parsed (s # ss) Xs vs w" and "(r, i) \<in> items s"
  shows "i \<le> length vs \<and> i \<le> length (g_rhs G r) \<and> take i Xs = rev (take i (g_rhs G r)) \<and>
    (\<exists>w1 w2 p ps. derives_seq G (take i (g_rhs G r)) w2 (rev (take i vs)) \<and> w = w1 @ w2 \<and> drop i (s # ss) = p # ps \<and>
       parsed (p # ps) (drop i Xs) (drop i vs) w1 \<and> (r, 0) \<in> items p)"
  using assms
proof (induction i arbitrary: s ss Xs vs w)
  case 0
  then show ?case by auto
next
  case (Suc i)
  from Suc.prems(1) show ?case
  proof (cases rule: parsed.cases)
    case parsed_Nil
    then show ?thesis using Suc.prems(2) start_items by blast
  next
    case (parsed_push p ps Xs' vs' w' X u v)
    have b: "i < length (g_rhs G r)" "g_rhs G r ! i = X" "(r, i) \<in> items p"
      using edge_back[OF _ Suc.prems(2)] parsed_push by blast+
    from Suc.IH[OF parsed_push(5) b(3)] obtain w1 w2 q qs where
      h: "i \<le> length vs'" "take i Xs' = rev (take i (g_rhs G r))" "derives_seq G (take i (g_rhs G r)) w2 (rev (take i vs'))"
        "w' = w1 @ w2" "drop i (p # ps) = q # qs" "parsed (q # qs) (drop i Xs') (drop i vs') w1" "(r, 0) \<in> items q"
      by blast
    have "derives_seq G (take (Suc i) (g_rhs G r)) (w2 @ u) (rev (take (Suc i) vs))"
      using derives_seq_snoc[OF h(3) parsed_push(7)] b(1,2) parsed_push(3) by (simp add: take_Suc_conv_app_nth)
    then show ?thesis using h b parsed_push by (auto simp: take_Suc_conv_app_nth)
  qed
qed

lemma next_symbol_nonempty: "g_term G (next_symbol ts) \<Longrightarrow> \<exists>a v ts'. ts = (a, v) # ts' \<and> next_symbol ts = a"
  using start_rule(3) by (auto simp: next_symbol_def split: list.splits)

text \<open>The end of the input never lies on the stack, so the rule for the whole input is never reduced.\<close>

lemma not_derives_zero: "\<not> derives G 0 u v"
proof
  assume "derives G 0 u v"
  then show False by (cases rule: derives.cases) (use start_rule(3) lhs_nonterminal in auto)
qed

lemma end_item:
  assumes "parsed (s # ss) Xs vs w" and "(r, length (g_rhs G r)) \<in> items s"
  shows "r \<in> g_rules G"
proof (rule ccontr)
  assume "r \<notin> g_rules G"
  then have r: "r = 1" using item_rule[OF assms(2)] by blast
  from assms(1) show False
  proof (cases rule: parsed.cases)
    case parsed_Nil
    then show ?thesis using start_items[of r] assms(2) start_rule(1) r by auto
  next
    case (parsed_push p ps Xs' vs' w' X u v)
    have "(1, Suc 1) \<in> items s" using assms(2) r start_rule(1) by simp
    then have "X = 0" using edge_back[of p X s] parsed_push start_rule(1) by fastforce
    then show ?thesis using parsed_push not_derives_zero by blast
  qed
qed

text \<open>What a reduction does to the stack.\<close>

lemma reduce_parsed:
  assumes "parsed (s # ss) Xs vs w" and "act s a = Reduce r"
  defines "k \<equiv> length (g_rhs G r)"
  shows "\<exists>p ps n. k \<le> length vs \<and> drop k (s # ss) = p # ps \<and> goto p (g_lhs G r) = Some n \<and> take k Xs = rev (g_rhs G r) \<and>
    r \<in> g_rules G \<and> parsed (n # p # ps) (g_lhs G r # drop k Xs) (g_sem G r (rev (take k vs)) # drop k vs) w"
proof -
  have r: "(r, k) \<in> items s" "r \<in> g_rules G" using reduce_item[OF assms(2)] end_item[OF assms(1)] unfolding k_def by simp_all
  from item_stack[OF assms(1) r(1)] obtain w1 w2 p ps where
    h: "k \<le> length vs" "take k Xs = rev (g_rhs G r)" "derives_seq G (g_rhs G r) w2 (rev (take k vs))" "w = w1 @ w2"
      "drop k (s # ss) = p # ps" "parsed (p # ps) (drop k Xs) (drop k vs) w1" "(r, 0) \<in> items p"
    unfolding k_def by auto
  have "r \<noteq> 1" using r(2) start_rule(2) by auto
  then obtain r' j where j: "(r', j) \<in> items p" "j < length (g_rhs G r')" "g_rhs G r' ! j = g_lhs G r"
    using item_origin[OF h(7)] by blast
  obtain n where n: "goto p (g_lhs G r) = Some n" using item_goto[OF j(1,2)] j(3) lhs_nonterminal[OF r(2)] by auto
  then have "edge p (g_lhs G r) n" using j unfolding edge_def by blast
  then have "parsed (n # p # ps) (g_lhs G r # drop k Xs) (g_sem G r (rev (take k vs)) # drop k vs) w"
    using parsed_push[OF h(6)] derives_rule[OF r(2) h(3)] h(4) by blast
  then show ?thesis using h n r by blast
qed

lemma shift_parsed:
  assumes "parsed (s # ss) Xs vs w" and "act s (next_symbol ts) = Shift n"
  shows "\<exists>v ts'. ts = (next_symbol ts, v) # ts' \<and> g_term G (next_symbol ts) \<and>
    parsed (n # s # ss) (next_symbol ts # Xs) (v # vs) (w @ [(next_symbol ts, v)])"
proof -
  have t: "g_term G (next_symbol ts)" using shift_term[OF assms(2)] by simp
  then obtain v ts' where "ts = (next_symbol ts, v) # ts'" using next_symbol_nonempty by metis
  then show ?thesis using parsed_push[OF assms(1) _ derives_term[OF t]] assms(2) t unfolding edge_def by blast
qed

lemma step_parsed:
  assumes "parsed ss Xs vs w" and "lr_step G act goto (ss, vs, ts) = Some (ss', vs', ts')"
  shows "\<exists>Xs' u. ts = u @ ts' \<and> parsed ss' Xs' vs' (w @ u)"
proof -
  obtain s ss0 where ss: "ss = s # ss0" using parsed_lengths[OF assms(1)] by (cases ss) auto
  show ?thesis
  proof (cases "act s (next_symbol ts)")
    case (Shift n)
    then show ?thesis using shift_parsed[OF assms(1)[unfolded ss] Shift] assms(2) ss by (auto split: list.splits)
  next
    case (Reduce r)
    then show ?thesis using reduce_parsed[OF assms(1)[unfolded ss] Reduce] assms(2) ss
      by (auto simp: Let_def split: if_splits)
  qed (use assms(2) ss in simp_all)
qed

lemma steps_parsed:
  assumes "lr_steps G act goto (ss, vs, ts) (ss', vs', ts')" and "parsed ss Xs vs w"
  shows "\<exists>Xs' u. ts = u @ ts' \<and> parsed ss' Xs' vs' (w @ u)"
  using assms unfolding lr_steps_def
proof (induction "(ss', vs', ts')" arbitrary: ss' vs' ts')
  case base
  then show ?case by auto
next
  case (step c)
  obtain ss1 vs1 ts1 where c: "c = (ss1, vs1, ts1)" by (cases c)
  from step(3)[OF c step(4)] obtain Xs1 u1 where 1: "ts = u1 @ ts1" "parsed ss1 Xs1 vs1 (w @ u1)" by blast
  from step_parsed[OF 1(2) step(2)[unfolded c]] 1 show ?case by fastforce
qed

lemma accept_parsed:
  assumes "parsed (s # ss) Xs vs w" and "act s a = Accept"
  shows "\<exists>v. vs = [v] \<and> derives G start w v \<and> a = 0"
proof -
  have a: "a = 0" "(1, 1) \<in> items s" using accept_item assms(2) by blast+
  from item_stack[OF assms(1) a(2)] obtain w1 w2 p ps where
    h: "1 \<le> length vs" "derives_seq G [start] w2 (rev (take 1 vs))" "w = w1 @ w2" "parsed (p # ps) (drop 1 Xs) (drop 1 vs) w1"
      "(1, 0) \<in> items p" using start_rule(1) by auto
  then have "p = 0" using start_item by blast
  then have "drop 1 vs = []" "w1 = []" using parsed_zero h(4) by blast+
  then obtain v where v: "vs = [v]" using h(1) by (cases vs) auto
  then have "derives G start w v" using h(2,3) \<open>w1 = []\<close> by (auto elim!: derives_seq.cases)
  then show ?thesis using v a by blast
qed

theorem lr_sound:
  assumes "lr_accepts G act goto ts v"
  shows "derives G start ts v"
proof -
  obtain ss where ss: "lr_steps G act goto ([0], [], ts) (ss, [v], [])" "lr_decision act (ss, [v], []) = Accept"
    using assms unfolding lr_accepts_def by blast
  from steps_parsed[OF ss(1) parsed_Nil] obtain Xs where p: "parsed ss Xs [v] ts" by auto
  then obtain s ss0 where "ss = s # ss0" using parsed_lengths by (cases ss) auto
  then show ?thesis using accept_parsed p ss(2) by (fastforce simp: lr_decision_def)
qed

section \<open>Completeness\<close>

lemma steps_refl [simp]: "lr_steps G act goto c c"
  by (simp add: lr_steps_def)

lemma steps_trans [trans]: "lr_steps G act goto a b \<Longrightarrow> lr_steps G act goto b c \<Longrightarrow> lr_steps G act goto a c"
  unfolding lr_steps_def by simp

lemma steps_step: "lr_step G act goto a = Some b \<Longrightarrow> lr_steps G act goto a b"
  unfolding lr_steps_def by blast

lemma complete_run:
  "derives G X u v \<Longrightarrow> (r, i) \<in> items s \<Longrightarrow> i < length (g_rhs G r) \<Longrightarrow> g_rhs G r ! i = X \<Longrightarrow> next_symbol rest \<in> follow X \<Longrightarrow>
    \<exists>n. (r, Suc i) \<in> items n \<and> lr_steps G act goto (s # ss, vs, u @ rest) (n # s # ss, v # vs, rest)"
  "derives_seq G Xs u vs' \<Longrightarrow> (r, i) \<in> items s \<Longrightarrow> drop i (g_rhs G r) = Xs \<Longrightarrow> r \<in> g_rules G \<Longrightarrow>
    next_symbol rest \<in> follow (g_lhs G r) \<Longrightarrow>
    \<exists>ns. length ns = length Xs \<and> (r, length (g_rhs G r)) \<in> items (hd (ns @ s # ss)) \<and>
      lr_steps G act goto (s # ss, vs, u @ rest) (ns @ s # ss, rev vs' @ vs, rest)"
proof (induction arbitrary: r i s ss vs rest and r i s ss vs rest rule: derives_derives_seq.inducts)
  case (derives_term a v)
  then obtain n where n: "act s a = Shift n" "(r, Suc i) \<in> items n" using item_shift by blast
  have "lr_step G act goto (s # ss, vs, [(a, v)] @ rest) = Some (n # s # ss, v # vs, rest)"
    using n(1) by (simp add: next_symbol_def)
  then show ?case using n(2) steps_step by blast
next
  case (derives_rule q w ws)
  let ?k = "length (g_rhs G q)"
  have q0: "(q, 0) \<in> items s" using item_closure[OF derives_rule.prems(1,2) derives_rule(1)] derives_rule.prems(3) by simp
  obtain ns where ns: "length ns = ?k" "(q, ?k) \<in> items (hd (ns @ s # ss))"
    "lr_steps G act goto (s # ss, vs, w @ rest) (ns @ s # ss, rev ws @ vs, rest)"
    using derives_rule(3)[OF q0 _ derives_rule(1) derives_rule.prems(4)] by fastforce
  obtain n where n: "goto s (g_lhs G q) = Some n" "(r, Suc i) \<in> items n"
    using item_goto[OF derives_rule.prems(1,2)] derives_rule.prems(3) lhs_nonterminal[OF derives_rule(1)] by auto
  have "q \<noteq> 1" using derives_rule(1) start_rule(2) by auto
  then have "act (hd (ns @ s # ss)) (next_symbol rest) = Reduce q" using item_reduce ns(2) derives_rule.prems(4) by blast
  moreover have "length ws = ?k" by (rule derives_seq_length[OF derives_rule(2)])
  ultimately have "lr_step G act goto (ns @ s # ss, rev ws @ vs, rest) = Some (n # s # ss, g_sem G q ws # vs, rest)"
    using ns(1) n(1) by (simp add: Let_def)
  then show ?case using n(2) ns(3) steps_trans steps_step by blast
next
  case derives_Nil
  then have "i = length (g_rhs G r)" using item_rule by fastforce
  then show ?case using derives_Nil by auto
next
  case (derives_Cons X w1 v Xs w2 ws)
  have i: "i < length (g_rhs G r)" "g_rhs G r ! i = X" "drop (Suc i) (g_rhs G r) = Xs"
  proof -
    show "i < length (g_rhs G r)" using derives_Cons.prems(2) by (metis drop_all linorder_not_le list.discI)
    then show "g_rhs G r ! i = X" "drop (Suc i) (g_rhs G r) = Xs"
      using derives_Cons.prems(2) by (metis Cons_nth_drop_Suc list.inject)+
  qed
  have "next_symbol (w2 @ rest) \<in> follow X"
  proof (cases Xs)
    case Nil
    then have "X = last (g_rhs G r)" using derives_Cons.prems(2) by (metis last_drop last.simps i(1) not_le)
    then show ?thesis using follow_last[OF derives_Cons.prems(3)] derives_Cons.prems(4) derives_Cons(3) Nil by auto
  next
    case (Cons Y Ys)
    then have "Suc i < length (g_rhs G r)" "g_rhs G r ! Suc i = Y" using i(3)
      by (metis drop_all linorder_not_le list.discI, metis nth_via_drop)
    then show ?thesis using follow_inner[OF derives_Cons.prems(3)] derives_first(2)[OF derives_Cons(3)] i(2) Cons by auto
  qed
  from derives_Cons(2)[OF derives_Cons.prems(1) i(1,2) this] obtain n where
    n: "(r, Suc i) \<in> items n" "lr_steps G act goto (s # ss, vs, w1 @ w2 @ rest) (n # s # ss, v # vs, w2 @ rest)" by blast
  from derives_Cons(4)[OF n(1) i(3) derives_Cons.prems(3,4)] obtain ns where
    ns: "length ns = length Xs" "(r, length (g_rhs G r)) \<in> items (hd (ns @ n # s # ss))"
      "lr_steps G act goto (n # s # ss, v # vs, w2 @ rest) (ns @ n # s # ss, rev ws @ v # vs, rest)" by blast
  then show ?case using steps_trans[OF n(2) ns(3)] by (intro exI[of _ "ns @ [n]"]) simp
qed

theorem lr_complete:
  assumes "derives G start ts v"
  shows "lr_accepts G act goto ts v"
proof -
  obtain n where n: "(1, Suc 0) \<in> items n" "lr_steps G act goto ([0], [], ts @ []) (n # [0], [v], [])"
    using complete_run(1)[OF assms, of 1 0 0 "[]" "[]" "[]"] start_item start_rule(1) follow_start by (auto simp: next_symbol_def)
  then show ?thesis using accept_item unfolding lr_accepts_def
    by (auto simp: lr_decision_def next_symbol_def intro!: exI[of _ "[n, 0]"])
qed

theorem lr_accepts_iff: "lr_accepts G act goto ts v \<longleftrightarrow> derives G start ts v"
  using lr_sound lr_complete by blast

end

section \<open>Termination\<close>

text \<open>With a weight for each symbol that every rule lowers, the machine stops on every input.\<close>

definition lr_weight :: "(int \<Rightarrow> nat) \<Rightarrow> int list \<Rightarrow> 'a list \<Rightarrow> nat" where
  "lr_weight weight Xs ts = sum_list (map weight Xs) + 11 * length ts"

locale lr_terminating = lr_automaton +
  fixes weight :: "int \<Rightarrow> nat"
  assumes weight_term: "g_term G a \<Longrightarrow> weight a \<le> 10"
    and weight_rule: "r \<in> g_rules G \<Longrightarrow> weight (g_lhs G r) < sum_list (map weight (g_rhs G r))"
begin

lemma shift_weight: "g_term G a \<Longrightarrow> lr_weight weight (a # Xs) ts < lr_weight weight Xs ((a, v) # ts)"
  using weight_term[of a] by (simp add: lr_weight_def)

lemma reduce_weight:
  assumes "take k Xs = rev (g_rhs G r)" and "r \<in> g_rules G"
  shows "lr_weight weight (g_lhs G r # drop k Xs) ts < lr_weight weight Xs ts"
proof -
  have "sum_list (map weight Xs) = sum_list (map weight (take k Xs)) + sum_list (map weight (drop k Xs))"
    by (metis append_take_drop_id map_append sum_list_append)
  then show ?thesis using weight_rule[OF assms(2)] assms(1) by (simp add: lr_weight_def rev_map [symmetric])
qed

lemma step_or_stop:
  assumes "parsed ss Xs vs w"
  shows "lr_decision act (ss, vs, ts) \<in> {Accept, Syntax_Error} \<or>
    (\<exists>ss' Xs' vs' ts'. lr_step G act goto (ss, vs, ts) = Some (ss', vs', ts') \<and> (\<exists>w'. parsed ss' Xs' vs' w') \<and>
       lr_weight weight Xs' ts' < lr_weight weight Xs ts)"
proof -
  obtain s ss0 where ss: "ss = s # ss0" using parsed_lengths[OF assms] by (cases ss) auto
  show ?thesis
  proof (cases "act s (next_symbol ts)")
    case (Shift n)
    from shift_parsed[OF assms[unfolded ss] this] obtain v ts' where
      "ts = (next_symbol ts, v) # ts'" "g_term G (next_symbol ts)" "parsed (n # ss) (next_symbol ts # Xs) (v # vs) (w @ [(next_symbol ts, v)])"
      unfolding ss by blast
    moreover from this have "lr_step G act goto (ss, vs, ts) = Some (n # ss, v # vs, ts')"
      using Shift ss by (auto split: list.splits)
    ultimately show ?thesis using shift_weight by metis
  next
    case (Reduce r)
    let ?k = "length (g_rhs G r)"
    from reduce_parsed[OF assms[unfolded ss] Reduce] obtain p ps n where
      r: "?k \<le> length vs" "drop ?k ss = p # ps" "goto p (g_lhs G r) = Some n" "take ?k Xs = rev (g_rhs G r)" "r \<in> g_rules G"
        "parsed (n # p # ps) (g_lhs G r # drop ?k Xs) (g_sem G r (rev (take ?k vs)) # drop ?k vs) w"
      unfolding ss by blast
    have "?k < length ss" using r(2) by (metis drop_all linorder_not_le list.discI)
    then have "lr_step G act goto (ss, vs, ts) = Some (n # p # ps, g_sem G r (rev (take ?k vs)) # drop ?k vs, ts)"
      using Reduce r(1-3) ss by (simp add: Let_def)
    then show ?thesis using r(6) reduce_weight[OF r(4,5)] by blast
  qed (simp_all add: lr_decision_def ss)
qed

theorem lr_stops:
  assumes "parsed ss Xs vs w"
  shows "\<exists>c. lr_steps G act goto (ss, vs, ts) c \<and> lr_decision act c \<in> {Accept, Syntax_Error}"
  using assms
proof (induction "lr_weight weight Xs ts" arbitrary: ss Xs vs w ts rule: less_induct)
  case less
  from step_or_stop[OF less.prems, of ts] show ?case
  proof
    assume "lr_decision act (ss, vs, ts) \<in> {Accept, Syntax_Error}"
    then show ?thesis using steps_refl by blast
  next
    assume "\<exists>ss' Xs' vs' ts'. lr_step G act goto (ss, vs, ts) = Some (ss', vs', ts') \<and> (\<exists>w'. parsed ss' Xs' vs' w') \<and>
       lr_weight weight Xs' ts' < lr_weight weight Xs ts"
    then obtain ss' Xs' vs' ts' w' where s: "lr_step G act goto (ss, vs, ts) = Some (ss', vs', ts')" "parsed ss' Xs' vs' w'"
      "lr_weight weight Xs' ts' < lr_weight weight Xs ts" by blast
    from less.hyps[OF s(3,2)] show ?thesis using steps_trans[OF steps_step[OF s(1)]] by blast
  qed
qed

end

end
