(* ===== verification/Minisql_Grammar.thy ===== *)
theory Minisql_Grammar
  imports LR_Automaton
begin

text \<open>The grammar of MiniSQL with the trees that its rules build, and the certificate that the tables of
  \<open>parser/minisql_yacc.c\<close> implement it.  The rules are read off the tables \<open>yyr1\<close>, \<open>yyprhs\<close> and \<open>yyrhs\<close>; the
  symbols 3 to 53 are the terminals, 54 is \<open>$accept\<close>, 55 the start symbol and the symbols up to 88 the other
  nonterminals, in the order of \<open>yytname\<close>.\<close>

section \<open>The grammar\<close>

definition rule_rhs :: "int \<Rightarrow> int list" where
  "rule_rhs r = (case tab yyprhs r of None \<Rightarrow> [] | Some i \<Rightarrow> takeWhile (\<lambda>x. x \<noteq> - 1) (drop (nat i) yyrhs))"

definition rule_lhs :: "int \<Rightarrow> int" where
  "rule_lhs r = (case tab yyr1 r of None \<Rightarrow> 0 | Some x \<Rightarrow> x)"

definition terminal :: "int \<Rightarrow> bool" where
  "terminal a \<longleftrightarrow> 2 < a \<and> a < YYNTOKENS"

text \<open>The value of a symbol is a list of trees.  A condition and a comparison are built by adding the
  operands to the tree of their operator.\<close>

fun add_operands :: "tree list \<Rightarrow> tree list \<Rightarrow> tree list" where
  "add_operands (Tree ty v cs # ts) us = Tree ty v (cs @ us) # ts"
| "add_operands [] us = []"

definition wrap :: "SyntaxNodeType \<Rightarrow> tree list \<Rightarrow> tree list" where
  "wrap ty cs = [Tree ty None cs]"

definition rule_value :: "int \<Rightarrow> tree list list \<Rightarrow> tree list" where
  "rule_value r vs =
     (let d = (\<lambda>i. vs ! (i - 1)) in
      if r = 22 then wrap kNodeCreateDB (d 3)
      else if r = 23 then wrap kNodeDropDB (d 3)
      else if r = 24 then wrap kNodeShowDB []
      else if r = 25 then wrap kNodeUseDB (d 2)
      else if r = 26 then wrap kNodeShowTables []
      else if r = 27 then wrap kNodeCreateTable (d 3 @ wrap kNodeColumnDefinitionList (d 5))
      else if r = 28 then d 1 @ d 3
      else if r = 30 then d 1 @ d 3
      else if r = 32 then [Tree kNodeColumnList (Some ''primary keys'') (d 4)]
      else if r = 33 then [Tree kNodeColumnDefinition (Some ''unique'') (d 1 @ d 2)]
      else if r = 34 then wrap kNodeColumnDefinition (d 1 @ d 2)
      else if r = 35 then [Tree kNodeColumnType (Some ''int'') []]
      else if r = 36 then [Tree kNodeColumnType (Some ''float'') []]
      else if r = 37 then [Tree kNodeColumnType (Some ''char'') (d 3)]
      else if r = 38 then wrap kNodeDropTable (d 3)
      else if r = 39 then wrap kNodeCreateIndex (d 3 @ d 5 @ [Tree kNodeColumnList (Some ''index keys'') (d 7)])
      else if r = 40 then wrap kNodeCreateIndex
        (d 3 @ d 5 @ [Tree kNodeColumnList (Some ''index keys'') (d 7)] @ [Tree kNodeIndexType (Some ''index type'') (d 10)])
      else if r = 41 then wrap kNodeDropIndex (d 3)
      else if r = 42 then wrap kNodeShowIndexes []
      else if r = 43 then wrap kNodeSelect (d 2 @ d 4)
      else if r = 44 then wrap kNodeSelect (d 2 @ d 4 @ wrap kNodeConditions (d 6))
      else if r = 45 then wrap kNodeAllColumns []
      else if r = 46 then [Tree kNodeColumnList (Some ''select columns'') (d 1)]
      else if r = 47 then add_operands (d 2) (d 1 @ d 3)
      else if r = 49 then [Tree kNodeConnector (Some ''and'') []]
      else if r = 50 then [Tree kNodeConnector (Some ''or'') []]
      else if r = 51 then add_operands (d 2) (d 1 @ d 3)
      else if r = 54 then wrap kNodeNull []
      else if 55 \<le> r \<and> r \<le> 62 then [Tree kNodeCompareOperator (map_of operator_names r) []]
      else if r = 63 then wrap kNodeInsert (d 3 @ wrap kNodeColumnValues (d 6))
      else if r = 64 then d 1 @ d 3
      else if r = 66 then wrap kNodeDelete (d 3)
      else if r = 67 then wrap kNodeDelete (d 3 @ wrap kNodeConditions (d 5))
      else if r = 68 then wrap kNodeUpdate (d 2 @ wrap kNodeUpdateValues (d 4))
      else if r = 69 then wrap kNodeUpdate (d 2 @ wrap kNodeUpdateValues (d 4) @ wrap kNodeConditions (d 6))
      else if r = 70 then d 1 @ d 3
      else if r = 72 then wrap kNodeUpdateValue (d 1 @ d 3)
      else if r = 73 then wrap kNodeTrxBegin []
      else if r = 74 then wrap kNodeTrxCommit []
      else if r = 75 then wrap kNodeTrxRollback []
      else if r = 76 then wrap kNodeQuit []
      else if r = 77 then wrap kNodeExecFile (d 2)
      else d 1)"

definition minisql_grammar :: "tree list grammar" where
  "minisql_grammar =
     \<lparr>g_term = terminal, g_rules = {2..YYNRULES}, g_lhs = rule_lhs, g_rhs = rule_rhs, g_sem = rule_value\<rparr>"

lemma grammar_simps [simp]:
  "g_term minisql_grammar = terminal" "g_rules minisql_grammar = {2..YYNRULES}" "g_lhs minisql_grammar = rule_lhs"
  "g_rhs minisql_grammar = rule_rhs" "g_sem minisql_grammar = rule_value"
  by (simp_all add: minisql_grammar_def)

section \<open>The tables as functions\<close>

definition default_action :: "int \<Rightarrow> decision" where
  "default_action s = (case tab yydefact s of None \<Rightarrow> Syntax_Error | Some r \<Rightarrow> if r = 0 then Syntax_Error else Reduce r)"

definition table_action :: "int \<Rightarrow> int \<Rightarrow> decision" where
  "table_action s a =
     (if a < 0 \<or> YYNTOKENS \<le> a then Syntax_Error
      else case tab yypact s of
        None \<Rightarrow> Syntax_Error
      | Some k \<Rightarrow>
          if k = YYPACT_NINF \<or> tab yycheck (k + a) \<noteq> Some a then default_action s
          else case tab yytable (k + a) of
            None \<Rightarrow> Syntax_Error
          | Some n \<Rightarrow> if n = 0 then Syntax_Error else if n = YYFINAL then Accept else Shift n)"

section \<open>The certificate\<close>

text \<open>The right-hand sides, the items of each state, the first and follow sets of the nonterminals, and
  weights for which every rule is shorter than its right-hand side.\<close>

definition rule_list :: "(int \<times> int list) list" where
  "rule_list =
    [(1, [55, 0]), (2, [56, 47]), (3, [57]), (4, [58]), (5, [59]), (6, [60]), (7, [61]), (8,
    [62]), (9, [67]), (10, [68]), (11, [69]), (12, [70]), (13, [71]), (14, [78]), (15, [80]), (16,
    [81]), (17, [84]), (18, [85]), (19, [86]), (20, [87]), (21, [88]), (22, [3, 17, 40]), (23, [4,
    17, 40]), (24, [14, 18]), (25, [15, 40]), (26, [14, 20]), (27, [3, 19, 40, 48, 64, 49]), (28,
    [40, 50, 63]), (29, [40]), (30, [65, 50, 64]), (31, [65]), (32, [29, 30, 48, 63, 49]), (33,
    [40, 66, 31]), (34, [40, 66]), (35, [33]), (36, [34]), (37, [32, 48, 42, 49]), (38, [4, 19,
    40]), (39, [3, 21, 40, 23, 40, 48, 63, 49]), (40, [3, 21, 40, 23, 40, 48, 63, 49, 16, 40]),
    (41, [4, 21, 40]), (42, [14, 22]), (43, [5, 72, 24, 40]), (44, [5, 72, 24, 40, 25, 73]), (45,
    [51]), (46, [63]), (47, [73, 74, 75]), (48, [75]), (49, [35]), (50, [36]), (51, [40, 77, 76]),
    (52, [41]), (53, [42]), (54, [39]), (55, [43]), (56, [44]), (57, [45]), (58, [46]), (59,
    [52]), (60, [53]), (61, [38]), (62, [37]), (63, [6, 26, 40, 28, 48, 79, 49]), (64, [76, 50,
    79]), (65, [76]), (66, [7, 24, 40]), (67, [7, 24, 40, 25, 73]), (68, [8, 40, 27, 82]), (69,
    [8, 40, 27, 82, 25, 73]), (70, [83, 50, 82]), (71, [83]), (72, [40, 43, 76]), (73, [9]), (74,
    [10]), (75, [11]), (76, [12]), (77, [13, 41])]"

definition rules_of_table :: "(int \<times> int list) list" where
  "rules_of_table =
    [(55, [2]), (56, [3, 4, 5, 6, 7, 8, 9, 10, 11, 12, 13, 14, 15, 16, 17, 18, 19, 20, 21]), (57,
    [22]), (58, [23]), (59, [24]), (60, [25]), (61, [26]), (62, [27]), (63, [28, 29]), (64, [30,
    31, 32]), (65, [33, 34]), (66, [35, 36, 37]), (67, [38]), (68, [39, 40]), (69, [41]), (70,
    [42]), (71, [43, 44]), (72, [45, 46]), (73, [47, 48]), (74, [49, 50]), (75, [51]), (76, [52,
    53, 54]), (77, [55, 56, 57, 58, 59, 60, 61, 62]), (78, [63]), (79, [64, 65]), (80, [66, 67]),
    (81, [68, 69]), (82, [70, 71]), (83, [72]), (84, [73]), (85, [74]), (86, [75]), (87, [76]),
    (88, [77])]"

definition item_table :: "(int \<times> nat) list list" where
  "item_table =
    [[(1, 0), (2, 0), (3, 0), (4, 0), (5, 0), (6, 0), (7, 0), (8, 0), (9, 0), (10, 0), (11, 0),
    (12, 0), (13, 0), (14, 0), (15, 0), (16, 0), (17, 0), (18, 0), (19, 0), (20, 0), (21, 0), (22,
    0), (23, 0), (24, 0), (25, 0), (26, 0), (27, 0), (38, 0), (39, 0), (40, 0), (41, 0), (42, 0),
    (43, 0), (44, 0), (63, 0), (66, 0), (67, 0), (68, 0), (69, 0), (73, 0), (74, 0), (75, 0), (76,
    0), (77, 0)], [(22, 1), (27, 1), (39, 1), (40, 1)], [(23, 1), (38, 1), (41, 1)], [(43, 1),
    (44, 1), (28, 0), (29, 0), (45, 0), (46, 0)], [(63, 1)], [(66, 1), (67, 1)], [(68, 1), (69,
    1)], [(73, 1)], [(74, 1)], [(75, 1)], [(76, 1)], [(77, 1)], [(24, 1), (26, 1), (42, 1)], [(25,
    1)], [(1, 1)], [(2, 1)], [(3, 1)], [(4, 1)], [(5, 1)], [(6, 1)], [(7, 1)], [(8, 1)], [(9, 1)],
    [(10, 1)], [(11, 1)], [(12, 1)], [(13, 1)], [(14, 1)], [(15, 1)], [(16, 1)], [(17, 1)], [(18,
    1)], [(19, 1)], [(20, 1)], [(21, 1)], [(22, 2)], [(27, 2)], [(39, 2), (40, 2)], [(23, 2)],
    [(38, 2)], [(41, 2)], [(28, 1), (29, 1)], [(45, 1)], [(46, 1)], [(43, 2), (44, 2)], [(63, 2)],
    [(66, 2), (67, 2)], [(68, 2), (69, 2)], [(77, 2)], [(24, 2)], [(26, 2)], [(42, 2)], [(25, 2)],
    [(1, 2)], [(2, 2)], [(22, 3)], [(27, 3)], [(39, 3), (40, 3)], [(23, 3)], [(38, 3)], [(41, 3)],
    [(28, 2), (28, 0), (29, 0)], [(43, 3), (44, 3)], [(63, 3)], [(66, 3), (67, 3)], [(68, 3), (69,
    3), (70, 0), (71, 0), (72, 0)], [(27, 4), (30, 0), (31, 0), (32, 0), (33, 0), (34, 0)], [(39,
    4), (40, 4)], [(28, 3)], [(43, 4), (44, 4)], [(63, 4)], [(67, 4), (47, 0), (48, 0), (51, 0)],
    [(72, 1)], [(68, 4), (69, 4)], [(70, 1), (71, 1)], [(32, 1)], [(33, 1), (34, 1), (35, 0), (36,
    0), (37, 0)], [(27, 5)], [(30, 1), (31, 1)], [(39, 5), (40, 5)], [(44, 5), (47, 0), (48, 0),
    (51, 0)], [(63, 5), (52, 0), (53, 0), (54, 0), (64, 0), (65, 0)], [(51, 1), (55, 0), (56, 0),
    (57, 0), (58, 0), (59, 0), (60, 0), (61, 0), (62, 0)], [(67, 5), (47, 1), (49, 0), (50, 0)],
    [(48, 1)], [(72, 2), (52, 0), (53, 0), (54, 0)], [(69, 5), (47, 0), (48, 0), (51, 0)], [(70,
    2), (70, 0), (71, 0), (72, 0)], [(32, 2)], [(37, 1)], [(35, 1)], [(36, 1)], [(33, 2), (34,
    2)], [(27, 6)], [(30, 2), (30, 0), (31, 0), (32, 0), (33, 0), (34, 0)], [(39, 6), (40, 6),
    (28, 0), (29, 0)], [(44, 6), (47, 1), (49, 0), (50, 0)], [(54, 1)], [(52, 1)], [(53, 1)],
    [(64, 1), (65, 1)], [(63, 6)], [(62, 1)], [(61, 1)], [(55, 1)], [(56, 1)], [(57, 1)], [(58,
    1)], [(59, 1)], [(60, 1)], [(51, 2), (52, 0), (53, 0), (54, 0)], [(49, 1)], [(50, 1)], [(47,
    2), (51, 0)], [(72, 3)], [(69, 6), (47, 1), (49, 0), (50, 0)], [(70, 3)], [(32, 3), (28, 0),
    (29, 0)], [(37, 2)], [(33, 3)], [(30, 3)], [(39, 7), (40, 7)], [(64, 2), (52, 0), (53, 0),
    (54, 0), (64, 0), (65, 0)], [(63, 7)], [(51, 3)], [(47, 3)], [(32, 4)], [(37, 3)], [(39, 8),
    (40, 8)], [(64, 3)], [(32, 5)], [(37, 4)], [(40, 9)], [(40, 10)]]"

definition first_table :: "(int \<times> int list) list" where
  "first_table =
    [(55, [3, 4, 5, 6, 7, 8, 9, 10, 11, 12, 13, 14, 15]), (56, [3, 4, 5, 6, 7, 8, 9, 10, 11, 12,
    13, 14, 15]), (57, [3]), (58, [4]), (59, [14]), (60, [15]), (61, [14]), (62, [3]), (63, [40]),
    (64, [29, 40]), (65, [40]), (66, [32, 33, 34]), (67, [4]), (68, [3]), (69, [4]), (70, [14]),
    (71, [5]), (72, [40, 51]), (73, [40]), (74, [35, 36]), (75, [40]), (76, [39, 41, 42]), (77,
    [37, 38, 43, 44, 45, 46, 52, 53]), (78, [6]), (79, [39, 41, 42]), (80, [7]), (81, [8]), (82,
    [40]), (83, [40]), (84, [9]), (85, [10]), (86, [11]), (87, [12]), (88, [13])]"

definition follow_table :: "(int \<times> int list) list" where
  "follow_table =
    [(3, [17, 19, 21]), (4, [17, 19, 21]), (5, [40, 51]), (6, [26]), (7, [24]), (8, [40]), (9,
    [47]), (10, [47]), (11, [47]), (12, [47]), (13, [41]), (14, [18, 20, 22]), (15, [40]), (16,
    [40]), (17, [40]), (18, [47]), (19, [40]), (20, [47]), (21, [40]), (22, [47]), (23, [40]),
    (24, [40]), (25, [40]), (26, [40]), (27, [40]), (28, [48]), (29, [30]), (30, [48]), (31, [49,
    50]), (32, [48]), (33, [31, 49, 50]), (34, [31, 49, 50]), (35, [40]), (36, [40]), (37, [39,
    41, 42]), (38, [39, 41, 42]), (39, [25, 35, 36, 47, 49, 50]), (40, [23, 24, 25, 27, 28, 32,
    33, 34, 37, 38, 43, 44, 45, 46, 47, 48, 49, 50, 52, 53]), (41, [25, 35, 36, 47, 49, 50]), (42,
    [25, 35, 36, 47, 49, 50]), (43, [39, 41, 42]), (44, [39, 41, 42]), (45, [39, 41, 42]), (46,
    [39, 41, 42]), (47, [0]), (48, [29, 39, 40, 41, 42]), (49, [16, 31, 47, 49, 50]), (50, [29,
    39, 40, 41, 42]), (51, [24]), (52, [39, 41, 42]), (53, [39, 41, 42]), (55, [0]), (56, [47]),
    (57, [47]), (58, [47]), (59, [47]), (60, [47]), (61, [47]), (62, [47]), (63, [24, 49]), (64,
    [49]), (65, [49, 50]), (66, [31, 49, 50]), (67, [47]), (68, [47]), (69, [47]), (70, [47]),
    (71, [47]), (72, [24]), (73, [35, 36, 47]), (74, [40]), (75, [35, 36, 47]), (76, [25, 35, 36,
    47, 49, 50]), (77, [39, 41, 42]), (78, [47]), (79, [49]), (80, [47]), (81, [47]), (82, [25,
    47]), (83, [25, 47, 50]), (84, [47]), (85, [47]), (86, [47]), (87, [47]), (88, [47])]"

definition weight_table :: "(int \<times> nat) list" where
  "weight_table =
    [(56, 8), (63, 9), (64, 9), (66, 9), (72, 8), (73, 9), (74, 9), (76, 9), (77, 9), (79, 8),
    (82, 9), (84, 9), (85, 9), (86, 9), (87, 9)]"

definition items_of :: "int \<Rightarrow> (int \<times> nat) list" where
  "items_of s = (case tab item_table s of None \<Rightarrow> [] | Some l \<Rightarrow> l)"

definition items :: "int \<Rightarrow> (int \<times> nat) set" where
  "items s = set (items_of s)"

definition lookup :: "(int \<times> 'a list) list \<Rightarrow> int \<Rightarrow> 'a list" where
  "lookup t x = (case map_of t x of None \<Rightarrow> [] | Some ys \<Rightarrow> ys)"

lemma lookup_entries: "t = t' \<Longrightarrow> distinct (map fst t') \<Longrightarrow> list_all (\<lambda>(k, ys). lookup t k = ys) t'"
  by (auto simp: list_all_iff lookup_def)

definition first_set :: "int \<Rightarrow> int set" where
  "first_set X = (if terminal X then {X} else set (lookup first_table X))"

definition follow_set :: "int \<Rightarrow> int set" where
  "follow_set X = set (lookup follow_table X)"

definition symbol_weight :: "int \<Rightarrow> nat" where
  "symbol_weight X = (case map_of weight_table X of None \<Rightarrow> 10 | Some n \<Rightarrow> n)"

lemmas yyprhs_entries = tab_entries[OF yyprhs_def, simplified]
lemmas yyr1_entries = tab_entries[OF yyr1_def, simplified]
lemmas yyr2_entries = tab_entries[OF yyr2_def, simplified]
lemmas yydefact_entries = tab_entries[OF yydefact_def, simplified]
lemmas yydefgoto_entries = tab_entries[OF yydefgoto_def, simplified]
lemmas yypact_entries = tab_entries[OF yypact_def, simplified]
lemmas yypgoto_entries = tab_entries[OF yypgoto_def, simplified]
lemmas yytable_entries = tab_entries[OF yytable_def, simplified]
lemmas yycheck_entries = tab_entries[OF yycheck_def, simplified]
lemmas yystos_entries = tab_entries[OF yystos_def, simplified]
lemmas item_entries = tab_entries[OF item_table_def, simplified]

lemma rule_list_ok: "list_all (\<lambda>(r, xs). rule_rhs r = xs) rule_list"
  by (simp add: rule_list_def rule_rhs_def yyprhs_entries yyrhs_def)

lemmas rule_rhs_entries = rule_list_ok[unfolded rule_list_def, simplified]

lemma lhs_list: "list_all (\<lambda>(X, rs). list_all (\<lambda>r. rule_lhs r = X) rs) rules_of_table"
  by (simp add: rules_of_table_def rule_lhs_def yyr1_entries)

lemmas rule_lhs_entries = lhs_list[unfolded rules_of_table_def, simplified]


section \<open>Checking the certificate\<close>

definition edge_ok :: "int \<Rightarrow> int \<Rightarrow> int \<Rightarrow> bool" where
  "edge_ok p X n \<longleftrightarrow> n \<noteq> 0 \<and>
     list_all (\<lambda>(r, j). j = 0 \<or> j \<le> length (rule_rhs r) \<and> rule_rhs r ! (j - 1) = X \<and> (r, j - 1) \<in> set (items_of p)) (items_of n)"

definition advance_ok :: "int \<Rightarrow> int \<Rightarrow> nat \<Rightarrow> int \<Rightarrow> bool" where
  "advance_ok s r i X \<longleftrightarrow> X = 0 \<or>
     (if terminal X then (case table_action s X of Shift n \<Rightarrow> (r, i + 1) \<in> set (items_of n) | _ \<Rightarrow> False)
      else (case yygoto s X of Some n \<Rightarrow> (r, i + 1) \<in> set (items_of n) \<and> edge_ok s X n | None \<Rightarrow> False) \<and>
        list_all (\<lambda>q. (q, 0) \<in> set (items_of s)) (lookup rules_of_table X))"

definition item_ok :: "int \<Rightarrow> int \<times> nat \<Rightarrow> bool" where
  "item_ok s = (\<lambda>(r, i). 1 \<le> r \<and> r \<le> 77 \<and> i \<le> length (rule_rhs r) \<and>
     (if i < length (rule_rhs r) then advance_ok s r i (rule_rhs r ! i)
      else r = 1 \<or> list_all (\<lambda>a. table_action s a = Reduce r) (lookup follow_table (rule_lhs r))) \<and>
     (i \<noteq> 0 \<or> r = 1 \<or> list_ex (\<lambda>(q, j). j < length (rule_rhs q) \<and> rule_rhs q ! j = rule_lhs r) (items_of s)))"

definition default_rule_ok :: "int \<Rightarrow> bool" where
  "default_rule_ok s \<longleftrightarrow> (case tab yydefact s of None \<Rightarrow> False
     | Some r \<Rightarrow> r = 0 \<or> (r, length (rule_rhs r)) \<in> set (items_of s))"

definition token_ok :: "int \<Rightarrow> int \<Rightarrow> int \<Rightarrow> bool" where
  "token_ok s k a \<longleftrightarrow> tab yycheck (k + a) \<noteq> Some a \<or>
     (case tab yytable (k + a) of None \<Rightarrow> False
      | Some n \<Rightarrow> n = 0 \<or> (if n = 53 then s = 14 \<and> a = 0 else 0 < n \<and> terminal a \<and> edge_ok s a n))"

text \<open>The states that have a given displacement, so that the entries of \<open>yycheck\<close> are looked at once only.\<close>

definition pact_states :: "(int \<times> int list) list" where
  "pact_states =
    [(- 36, [3]), (- 35, [82]), (- 24, [66, 94]), (- 22, [83, 96, 115]), (- 19, [4]), (- 11, [81, 85,
    110, 122]), (- 7, [6]), (2, [1]), (3, [2]), (7, [12]), (8, [5]), (10, [11]), (11, [15]), (12,
    [13]), (13, [41]), (14, [35]), (15, [36]), (16, [76]), (17, [37]), (19, [38]), (20, [39]),
    (21, [40]), (22, [56]), (24, [45]), (25, [46]), (28, [61, 95, 117]), (29, [62]), (30, [70]),
    (31, [74]), (32, [0]), (33, [65, 87]), (34, [67]), (35, [77]), (36, [71, 80, 86, 113]), (37,
    [72]), (38, [44]), (39, [47]), (40, [78]), (41, [79]), (42, [100]), (43, [63]), (44, [57]),
    (45, [88]), (46, [89]), (47, [64]), (48, [101]), (49, [75]), (50, [69]), (51, [92]), (52,
    [73]), (53, [14]), (54, [118]), (55, [121]), (56, [126]), (57, [127]), (58, [132]), (67,
    [128])]"

definition shifts_ok :: "int \<Rightarrow> int \<Rightarrow> bool" where
  "shifts_ok i a \<longleftrightarrow> list_all (\<lambda>s. token_ok s (i - a) a) (lookup pact_states (i - a))"

fun all_states :: "(int \<Rightarrow> 'a \<Rightarrow> bool) \<Rightarrow> int \<Rightarrow> 'a list \<Rightarrow> bool" where
  "all_states P s [] \<longleftrightarrow> True"
| "all_states P s (x # xs) \<longleftrightarrow> P s x \<and> all_states P (s + 1) xs"

lemma all_states_tab: "all_states P 0 xs \<Longrightarrow> tab xs s = Some x \<Longrightarrow> P s x"
proof -
  have "all_states P i xs \<Longrightarrow> j < length xs \<Longrightarrow> P (i + int j) (xs ! j)" for i j
  proof (induction xs arbitrary: i j)
    case (Cons x xs)
    then show ?case using Cons.IH[of "i + 1" "j - 1"] by (cases j) (simp_all add: add.assoc)
  qed simp
  from this[of 0 "nat s"] show "all_states P 0 xs \<Longrightarrow> tab xs s = Some x \<Longrightarrow> P s x" by (auto simp: tab_Some_iff)
qed

lemma yycheck_outside: "i < 0 \<or> 106 < i \<Longrightarrow> tab yycheck i = None"
  by (auto simp: tab_def yycheck_def)

lemmas check_simps = item_entries items_of_def rule_rhs_entries yyr1_entries yydefact_entries yydefgoto_entries
  yypact_entries yypgoto_entries yytable_entries yycheck_entries yycheck_outside terminal_def yy_constants

lemmas rules_of_entries = lookup_entries[OF rules_of_table_def, simplified]
lemmas follow_entries = lookup_entries[OF follow_table_def, simplified]
lemmas first_entries = lookup_entries[OF first_table_def, simplified]

lemma state_defaults_ok: "all_states (\<lambda>s l. default_rule_ok s) 0 item_table"
  unfolding item_table_def by (simp add: default_rule_ok_def check_simps)

lemma pact_states_ok: "all_states (\<lambda>s k. k = - 85 \<or> s \<in> set (lookup pact_states k)) 0 yypact"
  unfolding yypact_def by (simp add: lookup_def pact_states_def)

lemma all_shifts_ok: "all_states shifts_ok 0 yycheck"
  unfolding yycheck_def by (simp add: shifts_ok_def token_ok_def check_simps edge_ok_def lookup_def pact_states_def)

lemma items_ok: "all_states (\<lambda>s. list_all (item_ok s)) 0 item_table"
  unfolding item_table_def
  by (simp add: item_ok_def advance_ok_def edge_ok_def table_action_def default_action_def yygoto_def check_simps rule_lhs_entries
      rules_of_entries follow_entries)

section \<open>The tables implement the grammar\<close>

lemma items_in: "(r, i) \<in> items s \<Longrightarrow> item_ok s (r, i)"
proof -
  assume "(r, i) \<in> items s"
  then obtain l where "tab item_table s = Some l" "(r, i) \<in> set l"
    by (cases "tab item_table s") (simp_all add: items_def items_of_def)
  then show ?thesis using all_states_tab[OF items_ok, of s l] by (simp add: list_all_iff)
qed

lemma item_facts:
  assumes "(r, i) \<in> items s"
  shows "1 \<le> r" "r \<le> 77" "i \<le> length (rule_rhs r)"
    "i < length (rule_rhs r) \<Longrightarrow> advance_ok s r i (rule_rhs r ! i)"
    "i = length (rule_rhs r) \<Longrightarrow> r \<noteq> 1 \<Longrightarrow> a \<in> follow_set (rule_lhs r) \<Longrightarrow> table_action s a = Reduce r"
    "i = 0 \<Longrightarrow> r \<noteq> 1 \<Longrightarrow> \<exists>q j. (q, j) \<in> items s \<and> j < length (rule_rhs q) \<and> rule_rhs q ! j = rule_lhs r"
  using items_in[OF assms] by (auto simp: item_ok_def list_all_iff list_ex_iff follow_set_def items_def)

lemma goto_advance:
  assumes "(r, i) \<in> items s" and "i < length (rule_rhs r)" and "\<not> terminal (rule_rhs r ! i)" and "rule_rhs r ! i \<noteq> 0"
  shows "\<exists>n. yygoto s (rule_rhs r ! i) = Some n \<and> (r, Suc i) \<in> items n \<and> edge_ok s (rule_rhs r ! i) n"
    "q \<in> set (lookup rules_of_table (rule_rhs r ! i)) \<Longrightarrow> (q, 0) \<in> items s"
  using item_facts(4)[OF assms(1,2)] assms(3,4) by (auto simp: advance_ok_def items_def list_all_iff split: option.splits)

lemma shift_advance:
  assumes "(r, i) \<in> items s" and "i < length (rule_rhs r)" and "terminal (rule_rhs r ! i)"
  shows "\<exists>n. table_action s (rule_rhs r ! i) = Shift n \<and> (r, Suc i) \<in> items n"
  using item_facts(4)[OF assms(1,2)] assms(3) by (auto simp: advance_ok_def terminal_def items_def split: decision.splits)

lemma edge_ok_back:
  assumes "edge_ok p X n" and "(r, Suc i) \<in> items n"
  shows "i < length (rule_rhs r) \<and> rule_rhs r ! i = X \<and> (r, i) \<in> items p"
  using assms by (auto simp: edge_ok_def list_all_iff items_def)

lemma table_entry:
  assumes "tab yypact s = Some k" and "k \<noteq> - 85" and "tab yycheck (k + a) = Some a" and "tab yytable (k + a) = Some n"
  shows "n = 0 \<or> (if n = 53 then s = 14 \<and> a = 0 else 0 < n \<and> terminal a \<and> edge_ok s a n)"
proof -
  have "s \<in> set (lookup pact_states k)" using all_states_tab[OF pact_states_ok assms(1)] assms(2) by blast
  moreover have "shifts_ok (k + a) a" by (rule all_states_tab[OF all_shifts_ok assms(3)])
  ultimately have "token_ok s k a" by (auto simp: shifts_ok_def list_all_iff)
  then show ?thesis using assms(3,4) by (auto simp: token_ok_def)
qed

lemma action_cases:
  assumes "table_action s a = d"
  obtains "d = default_action s" | "d = Syntax_Error"
    | n where "d = Shift n" "0 < n" "terminal a" "edge_ok s a n"
    | "d = Accept" "s = 14" "a = 0"
  using assms table_entry[of s _ a]
  by (fastforce simp: table_action_def yy_constants split: if_splits option.splits)

lemma default_reduce:
  assumes "default_action s = d"
  shows "d = Syntax_Error \<or> (\<exists>r. d = Reduce r \<and> (r, length (rule_rhs r)) \<in> items s)"
proof (cases "tab yydefact s")
  case (Some r)
  have "length yydefact = length item_table" by (simp add: yydefact_def item_table_def)
  then obtain l where "tab item_table s = Some l" using Some tab_in_range[of s item_table] by (auto simp: tab_Some_iff)
  then have "default_rule_ok s" using all_states_tab[OF state_defaults_ok] by blast
  then show ?thesis using Some assms by (auto simp: default_action_def default_rule_ok_def items_def split: if_splits)
qed (use assms in \<open>simp add: default_action_def\<close>)

lemma rules_of_complete: "r \<in> {2..77} \<Longrightarrow> r \<in> set (lookup rules_of_table (rule_lhs r))"
proof -
  have "list_all (\<lambda>r. r \<in> set (lookup rules_of_table (rule_lhs r))) [2..77]"
    by (simp add: upto_rec1 rule_lhs_entries rules_of_entries)
  then show "r \<in> {2..77} \<Longrightarrow> ?thesis" unfolding list_all_iff set_upto by blast
qed

text \<open>What every single rule has to satisfy.\<close>

fun follows_ok :: "int \<Rightarrow> int list \<Rightarrow> bool" where
  "follows_ok l (X # Y # Xs) \<longleftrightarrow>
     (if terminal Y then Y \<in> set (lookup follow_table X) else list_all (\<lambda>a. a \<in> set (lookup follow_table X)) (lookup first_table Y)) \<and>
     follows_ok l (Y # Xs)"
| "follows_ok l [X] \<longleftrightarrow> list_all (\<lambda>a. a \<in> set (lookup follow_table X)) (lookup follow_table l)"
| "follows_ok l [] \<longleftrightarrow> False"

definition rule_ok :: "int \<Rightarrow> bool" where
  "rule_ok r \<longleftrightarrow> follows_ok (rule_lhs r) (rule_rhs r) \<and> 54 < rule_lhs r \<and> list_all (\<lambda>x. x \<noteq> 0) (rule_rhs r) \<and>
     (if terminal (hd (rule_rhs r)) then hd (rule_rhs r) \<in> set (lookup first_table (rule_lhs r))
      else list_all (\<lambda>a. a \<in> set (lookup first_table (rule_lhs r))) (lookup first_table (hd (rule_rhs r)))) \<and>
     symbol_weight (rule_lhs r) < sum_list (map symbol_weight (rule_rhs r))"

lemma rules_ok: "list_all rule_ok [2..77]"
  by (simp add: upto_rec1 rule_ok_def rule_lhs_entries rule_rhs_entries follow_entries first_entries terminal_def yy_constants
      symbol_weight_def weight_table_def)


lemma rule_facts:
  assumes "r \<in> {2..77}"
  shows "rule_ok r"
  using rules_ok assms unfolding list_all_iff set_upto by blast

lemma follows_ok_inner:
  "follows_ok l Xs \<Longrightarrow> Suc i < length Xs \<Longrightarrow> first_set (Xs ! Suc i) \<subseteq> follow_set (Xs ! i)"
proof (induction l Xs arbitrary: i rule: follows_ok.induct)
  case (1 l X Y Xs)
  then show ?case by (cases i) (auto simp: first_set_def follow_set_def list_all_iff split: if_splits)
qed simp_all

lemma follows_ok_last: "follows_ok l Xs \<Longrightarrow> follow_set l \<subseteq> follow_set (last Xs)"
  by (induction l Xs rule: follows_ok.induct) (auto simp: follow_set_def list_all_iff)

lemma follows_ok_nonempty: "follows_ok l Xs \<Longrightarrow> Xs \<noteq> []"
  by (cases Xs) auto

lemma yygoto_nonterminal: "yygoto p X = Some n \<Longrightarrow> \<not> terminal X \<and> X \<noteq> 0"
  by (auto simp: yygoto_def tab_def terminal_def yy_constants Let_def split: bind_splits if_splits)

lemma goto_edge:
  assumes "yygoto p X = Some n" and "(r, i) \<in> items p" and "i < length (rule_rhs r)" and "rule_rhs r ! i = X"
  shows "edge_ok p X n"
  using goto_advance(1)[OF assms(2,3)] yygoto_nonterminal[OF assms(1)] assms(1,4) by auto

lemma start_items: "(r, i) \<in> items 0 \<Longrightarrow> i = 0"
  by (auto simp: items_def items_of_def item_entries)

lemma accept_items:
  "all_states (\<lambda>s. list_all (\<lambda>(r, i). (r = 1 \<and> i = 0 \<longrightarrow> s = 0) \<and> (r = 1 \<and> i = 1 \<longrightarrow> s = 14))) 0 item_table"
  unfolding item_table_def by simp

lemma items_rule_1:
  assumes "(1, i) \<in> items s"
  shows "(i = 0 \<longrightarrow> s = 0) \<and> (i = 1 \<longrightarrow> s = 14)"
proof -
  obtain l where "tab item_table s = Some l" "(1, i) \<in> set l"
    using assms by (cases "tab item_table s") (simp_all add: items_def items_of_def)
  then show ?thesis using all_states_tab[OF accept_items] by (fastforce simp: list_all_iff)
qed

interpretation minisql: lr_terminating minisql_grammar table_action yygoto items first_set follow_set 55 symbol_weight
proof (unfold_locales, unfold grammar_simps)
  fix r i n p a X r' j s
  show "rule_rhs 1 = [55, 0]" by (simp add: rule_rhs_entries)
  show "(1, 0) \<in> items p \<longleftrightarrow> p = 0" using items_rule_1[of 0 p] by (auto simp: items_def items_of_def item_entries)
  show "i = 0" if "(r, i) \<in> items 0" using start_items that .
  show "(r = 1 \<or> r \<in> {2..YYNRULES}) \<and> i \<le> length (rule_rhs r)" if "(r, i) \<in> items s"
    using item_facts(1-3)[OF that] by (auto simp: yy_constants)
  show "i < length (rule_rhs r) \<and> rule_rhs r ! i = a \<and> (r, i) \<in> items p"
    if "(r, Suc i) \<in> items n" "table_action p a = Shift n"
    using that(2) by (cases rule: action_cases) (use that edge_ok_back default_reduce[OF refl, of p] in auto)
  show "i < length (rule_rhs r) \<and> rule_rhs r ! i = X \<and> (r, i) \<in> items p"
    if "(r, Suc i) \<in> items n" "yygoto p X = Some n" "(r', j) \<in> items p" "j < length (rule_rhs r')" "rule_rhs r' ! j = X"
    using edge_ok_back[OF goto_edge[OF that(2-5)] that(1)] .
  show "\<exists>r' j. (r', j) \<in> items s \<and> j < length (rule_rhs r') \<and> rule_rhs r' ! j = rule_lhs r" if "(r, 0) \<in> items s" "r \<noteq> 1"
    using item_facts(6)[OF that(1) refl that(2)] .
  show "terminal a \<and> n \<noteq> 0" if "table_action p a = Shift n"
    using that by (cases rule: action_cases) (use default_reduce[OF refl, of p] in auto)
  show "n \<noteq> 0" if "yygoto p X = Some n" "(r, i) \<in> items p" "i < length (rule_rhs r)" "rule_rhs r ! i = X"
    using goto_edge[OF that] by (simp add: edge_ok_def)
  show "(r, length (rule_rhs r)) \<in> items s" if "table_action s a = Reduce r"
    using that by (cases rule: action_cases) (use default_reduce[OF refl, of s] in auto)
  show "table_action s a = Accept \<longleftrightarrow> a = 0 \<and> (1, 1) \<in> items s"
  proof
    assume "table_action s a = Accept"
    then show "a = 0 \<and> (1, 1) \<in> items s"
      by (cases rule: action_cases) (use default_reduce[OF refl, of s] in \<open>auto simp: items_def items_of_def item_entries\<close>)
  next
    assume "a = 0 \<and> (1, 1) \<in> items s"
    then have "a = 0" "s = 14" using items_rule_1 by auto
    then show "table_action s a = Accept"
      by (simp add: table_action_def yypact_entries yycheck_entries yytable_entries yy_constants)
  qed
  show "(r', 0) \<in> items s"
    if "(r, i) \<in> items s" "i < length (rule_rhs r)" "r' \<in> {2..YYNRULES}" "rule_lhs r' = rule_rhs r ! i"
    using goto_advance(2)[OF that(1,2)] rules_of_complete[of r'] rule_facts[of r'] that(3,4)
    by (simp add: yy_constants rule_ok_def terminal_def)
  show "\<exists>n. table_action s (rule_rhs r ! i) = Shift n \<and> (r, Suc i) \<in> items n"
    if "(r, i) \<in> items s" "i < length (rule_rhs r)" "terminal (rule_rhs r ! i)"
    using shift_advance[OF that] .
  show "\<exists>n. yygoto s (rule_rhs r ! i) = Some n \<and> (r, Suc i) \<in> items n"
    if "(r, i) \<in> items s" "i < length (rule_rhs r)" "\<not> terminal (rule_rhs r ! i)" "rule_rhs r ! i \<noteq> 0"
    using goto_advance(1)[OF that] by blast
  show "table_action s a = Reduce r" if "(r, length (rule_rhs r)) \<in> items s" "r \<noteq> 1" "a \<in> follow_set (rule_lhs r)"
    using item_facts(5)[OF that(1) refl that(2,3)] .
  show "0 \<in> follow_set 55" by (simp add: follow_set_def follow_entries)
  assume "r \<in> {2..YYNRULES}"
  then have ok: "rule_ok r" using rule_facts by (simp add: yy_constants)
  then have f: "follows_ok (rule_lhs r) (rule_rhs r)" by (simp add: rule_ok_def)
  show "rule_rhs r \<noteq> []" using follows_ok_nonempty[OF f] .
  show "\<not> terminal (rule_lhs r) \<and> rule_lhs r \<noteq> 0" using ok by (simp add: rule_ok_def yy_constants terminal_def)
  show "first_set (hd (rule_rhs r)) \<subseteq> first_set (rule_lhs r)"
    using ok by (auto simp: rule_ok_def first_set_def terminal_def yy_constants list_all_iff split: if_splits)
  show "first_set (rule_rhs r ! Suc i) \<subseteq> follow_set (rule_rhs r ! i)" if "Suc i < length (rule_rhs r)"
    using follows_ok_inner[OF f that] .
  show "follow_set (rule_lhs r) \<subseteq> follow_set (last (rule_rhs r))" using follows_ok_last[OF f] .
  show "0 \<notin> set (rule_rhs r)" using ok by (auto simp: rule_ok_def list_all_iff)
  show "symbol_weight (rule_lhs r) < sum_list (map symbol_weight (rule_rhs r))" using ok by (simp add: rule_ok_def)
qed (auto simp: yy_constants terminal_def first_set_def symbol_weight_def weight_table_def)

text \<open>C24: The parser tables implement the grammar.  The machine that the action and goto tables of the
  generated parser drive accepts a list of tokens with a value exactly if the grammar derives the
  list from its start symbol with this value.\<close>

theorem tables_accept_grammar:
  "lr_accepts minisql_grammar table_action yygoto ts v \<longleftrightarrow> derives minisql_grammar 55 ts v"
  by (rule minisql.lr_accepts_iff)

end
