(* ===== verification/Parser_Actions.thy ===== *)
theory Parser_Actions
  imports Minisql_Grammar "HOL-Library.Multiset"
begin

text \<open>The semantic actions of \<open>yyparse\<close> build the trees that the grammar gives its sentences.  The values on the
  parser stack are pointers to sibling lists that share no node: \<open>sep\<close> says so, and each action is run
  symbolically with one rule per operation on the store.\<close>

section \<open>Disjoint sibling lists\<close>

fun sep :: "parser_globals \<Rightarrow> (pSyntaxNode \<times> tree list) list \<Rightarrow> nat set \<Rightarrow> bool" where
  "sep g [] A \<longleftrightarrow> A = {}"
| "sep g ((p, ts) # L) A \<longleftrightarrow> (\<exists>B C. forest g p ts B \<and> sep g L C \<and> B \<inter> C = {} \<and> A = B \<union> C)"

lemma sep_frame: "sep g L A \<Longrightarrow> (\<And>a. a \<in> A \<Longrightarrow> read_node g' a = read_node g a) \<Longrightarrow> sep g' L A"
proof (induction L arbitrary: A)
  case (Cons x L)
  obtain p ts where x: "x = (p, ts)" by (cases x)
  with Cons.prems(1) obtain B C where "forest g p ts B" "sep g L C" "B \<inter> C = {}" "A = B \<union> C" by auto
  then show ?case using Cons.IH[of C] Cons.prems(2) forest_frame[of g p ts B g'] x by auto
qed simp

lemma sep_cells: "sep g L A \<Longrightarrow> a \<in> A \<Longrightarrow> a < length (node_store g)"
proof (induction L arbitrary: A)
  case (Cons x L)
  then show ?case using forest_bound by (cases x) (auto dest!: forest_bound)
qed simp

lemma sep_swap: "sep g (x # y # L) A \<longleftrightarrow> sep g (y # x # L) A"
proof -
  have "sep g (x # y # L) A \<Longrightarrow> sep g (y # x # L) A" for x y
  proof -
    obtain p ts q us where xy: "x = (p, ts)" "y = (q, us)" by (cases x, cases y)
    assume "sep g (x # y # L) A"
    then obtain B C D where h: "forest g p ts B" "forest g q us C" "sep g L D" "C \<inter> D = {}" "B \<inter> (C \<union> D) = {}" "A = B \<union> (C \<union> D)"
      using xy by auto
    have "sep g (x # L) (B \<union> D)" using h(1,3,5) xy by auto
    moreover have "C \<inter> (B \<union> D) = {}" "A = C \<union> (B \<union> D)" using h(4-6) by auto
    ultimately show ?thesis using h(2) xy(2) by auto
  qed
  then show ?thesis by blast
qed

lemma sep_move: "sep g (xs @ y # ys) A \<longleftrightarrow> sep g (y # xs @ ys) A"
proof (induction xs arbitrary: A)
  case (Cons x xs)
  have "sep g (x # y # xs @ ys) A \<longleftrightarrow> sep g (x # xs @ y # ys) A" using Cons.IH by (cases x) simp
  then show ?case using sep_swap[of g x y "xs @ ys"] by simp
qed simp

lemma sep_mset: "mset L = mset L' \<Longrightarrow> sep g L A \<Longrightarrow> sep g L' A"
proof (induction L arbitrary: L' A)
  case (Cons x L)
  then have "x \<in> set L'" by (metis list.set_intros(1) set_mset_mset)
  then obtain xs ys where L': "L' = xs @ x # ys" by (meson split_list)
  then have "mset L = mset (xs @ ys)" using Cons.prems(1) by simp
  then have "sep g L C \<Longrightarrow> sep g (xs @ ys) C" for C by (rule Cons.IH)
  then have "sep g ((p, ts) # L) B \<Longrightarrow> sep g ((p, ts) # xs @ ys) B" for p ts B unfolding sep.simps by blast
  then have "sep g (x # xs @ ys) A" using Cons.prems(2) by (cases x) simp
  then show ?case using sep_move L' by blast
qed simp

section \<open>Operations on disjoint lists\<close>

declare sep.simps(2) [simp del]

text \<open>What the operations on nodes leave alone.\<close>

definition same :: "parser_globals \<Rightarrow> parser_globals \<Rightarrow> bool" where
  "same g g' \<longleftrightarrow> root_node g' = root_node g \<and> parser_error g' = parser_error g \<and> error_message g' = error_message g \<and>
     (nodes_tracked g \<longrightarrow> nodes_tracked g')"

lemma same_refl [simp]: "same g g"
  by (simp add: same_def)

lemma same_trans: "same g g' \<Longrightarrow> same g' g'' \<Longrightarrow> same g g''"
  by (simp add: same_def)

lemma same_relinks: "relinks g A g' \<Longrightarrow> same g g'"
  using relinks_fields relinks_tracked unfolding same_def by metis

lemma sep_create:
  assumes "sep g L A" and "copy_val ty v = Some v'"
  shows "\<exists>a g' A'. CreateSyntaxNode ty v g = Some (a, g') \<and> sep g' ((Some a, [Tree ty v' []]) # L) A' \<and> same g g'"
proof -
  let ?a = "length (node_store g)"
  obtain g' where g': "CreateSyntaxNode ty v g = Some (?a, g')" "forest g' (Some ?a) [Tree ty v' []] {?a}"
    "\<forall>b < ?a. read_node g' b = read_node g b" "root_node g' = root_node g" "parser_error g' = parser_error g"
    "error_message g' = error_message g"
    using CreateSyntaxNode_forest[OF assms(2), of g] by blast
  have "sep g' L A" using sep_frame[OF assms(1)] sep_cells[OF assms(1)] g'(3) by blast
  moreover have "{?a} \<inter> A = {}" using sep_cells[OF assms(1)] by fastforce
  moreover have "same g g'" using g' CreateSyntaxNode_tracked by (auto simp: same_def)
  ultimately have "sep g' ((Some ?a, [Tree ty v' []]) # L) ({?a} \<union> A)" using g'(2) unfolding sep.simps by blast
  then show ?thesis using g'(1) \<open>same g g'\<close> by blast
qed

lemma sep_add_child:
  assumes "sep g ((Some a, Tree ty v cs # ts) # (q, us) # L) A"
  shows "\<exists>g' A'. SyntaxNodeAddChildren (Some a) q g = Some g' \<and> sep g' ((Some a, Tree ty v (cs @ us) # ts) # L) A' \<and> same g g'"
proof -
  from assms obtain B C D where h: "forest g (Some a) (Tree ty v cs # ts) B" "forest g q us C" "sep g L D" "C \<inter> D = {}"
    "B \<inter> (C \<union> D) = {}" by (auto simp: sep.simps(2))
  then obtain g' where g': "SyntaxNodeAddChildren (Some a) q g = Some g'"
    "forest g' (Some a) (Tree ty v (cs @ us) # ts) (B \<union> C)" "relinks g B g'"
    using AddChildren_forest[OF h(1,2)] by blast
  have "sep g' L D" by (rule sep_frame[OF h(3)]) (use relinksD(3)[OF g'(3)] h(5) in blast)
  moreover have "(B \<union> C) \<inter> D = {}" using h(4,5) by blast
  ultimately have "sep g' ((Some a, Tree ty v (cs @ us) # ts) # L) ((B \<union> C) \<union> D)" using g'(2) unfolding sep.simps by blast
  then show ?thesis using g'(1) same_relinks[OF g'(3)] by blast
qed

lemma sep_add_sibling:
  assumes "sep g ((p, ts) # (q, us) # L) A" and "ts \<noteq> []"
  shows "\<exists>g' A'. SyntaxNodeAddSibling p q g = Some g' \<and> sep g' ((p, ts @ us) # L) A' \<and> same g g'"
proof -
  from assms obtain B C D where h: "forest g p ts B" "forest g q us C" "sep g L D" "C \<inter> D = {}"
    "B \<inter> (C \<union> D) = {}" by (auto simp: sep.simps(2))
  obtain a where p: "p = Some a" using h(1) assms(2) by (cases p) auto
  then obtain g' where g': "SyntaxNodeAddSibling p q g = Some g'" "forest g' p (ts @ us) (B \<union> C)" "relinks g B g'"
    using AddSibling_forest[of g a ts B q us C] h by blast
  have "sep g' L D" by (rule sep_frame[OF h(3)]) (use relinksD(3)[OF g'(3)] h(5) in blast)
  moreover have "(B \<union> C) \<inter> D = {}" using h(4,5) by blast
  ultimately have "sep g' ((p, ts @ us) # L) ((B \<union> C) \<union> D)" using g'(2) unfolding sep.simps by blast
  then show ?thesis using g'(1) same_relinks[OF g'(3)] by blast
qed

section \<open>Running an action\<close>

text \<open>The action returns a list of trees \<open>val\<close>, which joins the lists that were not used.\<close>

definition yields :: "parser_globals \<Rightarrow> tree list \<Rightarrow> (pSyntaxNode \<times> tree list) list \<Rightarrow>
    (pSyntaxNode \<times> parser_globals) option \<Rightarrow> bool" where
  "yields g0 val L m \<longleftrightarrow> (\<exists>p g A. m = Some (p, g) \<and> sep g ((p, val) # L) A \<and> same g0 g)"

lemma yields_return: "sep g ((p, ts) # L) A \<Longrightarrow> same g0 g \<Longrightarrow> ts = val \<Longrightarrow> yields g0 val L (Some (p, g))"
  unfolding yields_def by blast

lemma yields_create:
  assumes "sep g L A" and "same g0 g" and "copy_val ty v = Some v'"
    and "\<And>a g' A'. sep g' ((Some a, [Tree ty v' []]) # L) A' \<Longrightarrow> same g0 g' \<Longrightarrow> yields g0 val K (k (a, g'))"
  shows "yields g0 val K (Option.bind (CreateSyntaxNode ty v g) k)"
proof -
  obtain a g' A' where h: "CreateSyntaxNode ty v g = Some (a, g')" "sep g' ((Some a, [Tree ty v' []]) # L) A'" "same g g'"
    using sep_create[OF assms(1,3)] by blast
  show ?thesis unfolding h(1) Option.bind.bind_lunit by (rule assms(4)[OF h(2) same_trans[OF assms(2) h(3)]])
qed

lemma yields_child_any:
  assumes "sep g M A" and "same g0 g" and "mset M = mset ((Some a, Tree ty v cs # ts) # (q, us) # L)"
    and "\<And>g' A'. sep g' ((Some a, Tree ty v (cs @ us) # ts) # L) A' \<Longrightarrow> same g0 g' \<Longrightarrow> yields g0 val K (k g')"
  shows "yields g0 val K (Option.bind (SyntaxNodeAddChildren (Some a) q g) k)"
proof -
  obtain g' A' where h: "SyntaxNodeAddChildren (Some a) q g = Some g'" "sep g' ((Some a, Tree ty v (cs @ us) # ts) # L) A'" "same g g'"
    using sep_add_child[OF sep_mset[OF assms(3,1)]] by blast
  show ?thesis unfolding h(1) Option.bind.bind_lunit by (rule assms(4)[OF h(2) same_trans[OF assms(2) h(3)]])
qed

text \<open>The node that gets a child is the youngest list or the one before, the child is one of the next
  lists.\<close>

lemma yields_child_0:
  assumes "sep g ((Some a, [Tree ty v cs]) # (q, us) # L) A" and "same g0 g"
    and "\<And>g' A'. sep g' ((Some a, [Tree ty v (cs @ us)]) # L) A' \<Longrightarrow> same g0 g' \<Longrightarrow> yields g0 val K (k g')"
  shows "yields g0 val K (Option.bind (SyntaxNodeAddChildren (Some a) q g) k)"
  using yields_child_any[OF assms(1,2) refl assms(3)] .

lemma yields_child_1:
  assumes "sep g ((Some a, [Tree ty v cs]) # x # (q, us) # L) A" and "same g0 g"
    and "\<And>g' A'. sep g' ((Some a, [Tree ty v (cs @ us)]) # x # L) A' \<Longrightarrow> same g0 g' \<Longrightarrow> yields g0 val K (k g')"
  shows "yields g0 val K (Option.bind (SyntaxNodeAddChildren (Some a) q g) k)"
  by (rule yields_child_any[OF assms(1,2) _ assms(3)]) auto

lemma yields_child_2:
  assumes "sep g ((Some a, [Tree ty v cs]) # x # y # (q, us) # L) A" and "same g0 g"
    and "\<And>g' A'. sep g' ((Some a, [Tree ty v (cs @ us)]) # x # y # L) A' \<Longrightarrow> same g0 g' \<Longrightarrow> yields g0 val K (k g')"
  shows "yields g0 val K (Option.bind (SyntaxNodeAddChildren (Some a) q g) k)"
  by (rule yields_child_any[OF assms(1,2) _ assms(3)]) auto

lemma yields_child_outer:
  assumes "sep g (x # (Some a, [Tree ty v cs]) # (q, us) # L) A" and "same g0 g"
    and "\<And>g' A'. sep g' ((Some a, [Tree ty v (cs @ us)]) # x # L) A' \<Longrightarrow> same g0 g' \<Longrightarrow> yields g0 val K (k g')"
  shows "yields g0 val K (Option.bind (SyntaxNodeAddChildren (Some a) q g) k)"
  by (rule yields_child_any[OF assms(1,2) _ assms(3)]) auto

lemma yields_child_inner:
  assumes "sep g ((q, us) # (Some a, [Tree ty v cs]) # L) A" and "same g0 g"
    and "\<And>g' A'. sep g' ((Some a, [Tree ty v (cs @ us)]) # L) A' \<Longrightarrow> same g0 g' \<Longrightarrow> yields g0 val K (k g')"
  shows "yields g0 val K (Option.bind (SyntaxNodeAddChildren (Some a) q g) k)"
  by (rule yields_child_any[OF assms(1,2) _ assms(3)]) auto

lemma yields_sibling:
  assumes "sep g ((p, ts) # (q, us) # L) A" and "same g0 g" and "ts \<noteq> []"
    and "\<And>g' A'. sep g' ((p, ts @ us) # L) A' \<Longrightarrow> same g0 g' \<Longrightarrow> yields g0 val K (k g')"
  shows "yields g0 val K (Option.bind (SyntaxNodeAddSibling p q g) k)"
proof -
  obtain g' A' where h: "SyntaxNodeAddSibling p q g = Some g'" "sep g' ((p, ts @ us) # L) A'" "same g g'"
    using sep_add_sibling[OF assms(1,3)] by blast
  show ?thesis unfolding h(1) Option.bind.bind_lunit by (rule assms(4)[OF h(2) same_trans[OF assms(2) h(3)]])
qed

lemmas yields_child = yields_child_0 yields_child_1 yields_child_2 yields_child_outer yields_child_inner


section \<open>Every rule builds its tree\<close>

text \<open>The symbols that have a value: the nonterminals, identifiers, strings and numbers.  For the other
  terminals, \<open>yyparse\<close> pushes whatever the last value was.\<close>

definition carries :: "int \<Rightarrow> bool" where
  "carries X \<longleftrightarrow> X \<in> {40, 41, 42} \<or> 54 \<le> X"

fun carried :: "int list \<Rightarrow> pSyntaxNode list \<Rightarrow> tree list list \<Rightarrow> (pSyntaxNode \<times> tree list) list" where
  "carried (X # Xs) (p # ps) (v # vs) = (if carries X then (p, v) # carried Xs ps vs else carried Xs ps vs)"
| "carried Xs ps vs = []"

definition action_ok :: "int \<Rightarrow> bool" where
  "action_ok r \<longleftrightarrow> (\<forall>ps vs g0 g L A. length ps = length (rule_rhs r) \<and> length vs = length (rule_rhs r) \<and>
     sep g (carried (rule_rhs r) ps vs @ L) A \<and> same g0 g \<and> list_all (\<lambda>(p, v). v \<noteq> []) (carried (rule_rhs r) ps vs) \<longrightarrow>
     yields g0 (rule_value r vs) L (yyaction r ps g))"

lemmas action_simps = yyaction_def statement_actions_def database_actions_def table_actions_def index_actions_def
  select_actions_def operator_actions_def update_actions_def session_actions_def operator_names_def
  dollar_def rule_value_def wrap_def YYNRULES_def

lemma action_okI:
  assumes "\<And>ps vs g0 g L A. length ps = length (rule_rhs r) \<Longrightarrow> length vs = length (rule_rhs r) \<Longrightarrow>
     sep g (carried (rule_rhs r) ps vs @ L) A \<Longrightarrow> same g0 g \<Longrightarrow> list_all (\<lambda>(p, v). v \<noteq> []) (carried (rule_rhs r) ps vs) \<Longrightarrow>
     yields g0 (rule_value r vs) L (yyaction r ps g)"
  shows "action_ok r"
  using assms unfolding action_ok_def by blast

lemma operand_actions: "same g0 g \<Longrightarrow> t2 \<noteq> [] \<Longrightarrow> sep g ((p1, t1) # (p2, t2) # (p3, t3) # L) A \<Longrightarrow>
  yields g0 (add_operands t2 (t1 @ t3)) L
    (Option.bind (SyntaxNodeAddChildren p2 p1 g) (\<lambda>g. Option.bind (SyntaxNodeAddChildren p2 p3 g) (\<lambda>g. Some (p2, g))))"
proof -
  assume h: "same g0 g" "t2 \<noteq> []" "sep g ((p1, t1) # (p2, t2) # (p3, t3) # L) A"
  from h(3) have "sep g ((p2, t2) # (p1, t1) # (p3, t3) # L) A" by (simp add: sep_swap)
  then obtain B where "forest g p2 t2 B" unfolding sep.simps by blast
  then obtain a ty v cs ts where a: "p2 = Some a" "t2 = Tree ty v cs # ts" using h(2) by (cases p2) (auto elim!: forest_SomeE)
  show ?thesis unfolding a add_operands.simps
  proof (rule yields_child_any[OF h(3,1), where ty = ty and v = v and cs = cs and ts = ts and us = t1 and L = "(p3, t3) # L"])
    show "yields g0 (Tree ty v (cs @ t1 @ t3) # ts) L (Option.bind (SyntaxNodeAddChildren (Some a) p3 g') (\<lambda>g. Some (Some a, g)))"
      if "sep g' ((Some a, Tree ty v (cs @ t1) # ts) # (p3, t3) # L) A'" "same g0 g'" for g' A'
      by (rule yields_child_any[OF that refl]) (erule (1) yields_return, simp)
  qed (simp add: a)
qed

lemma node_actions_ok: "list_all action_ok [22, 23, 24, 25, 26, 27, 28, 29, 30, 31, 32, 33, 34, 35, 36, 37, 38, 39, 40, 41, 42, 43,
  44, 45, 46, 48, 49, 50, 52, 53, 54, 55, 56, 57, 58, 59, 60, 61, 62, 63, 64, 65, 66, 67, 68, 69, 70, 71, 72, 73, 74, 75, 76, 77]"
  by (simp only: list.pred_inject, intro conjI TrueI action_okI;
      clarsimp simp: rule_rhs_entries numeral_eq_Suc length_Suc_conv carries_def action_simps;
      ((rule yields_create yields_child yields_sibling, assumption, assumption) |
       (rule yields_return, assumption, assumption) | simp add: copy_val_def)+)

lemma copy_actions_ok: "list_all action_ok [3, 4, 5, 6, 7, 8, 9, 10, 11, 12, 13, 14, 15, 16, 17, 18, 19, 20, 21]"
  by (simp only: list.pred_inject, intro conjI TrueI action_okI;
      clarsimp simp: rule_rhs_entries length_Suc_conv carries_def action_simps; rule yields_return; assumption?; simp)

lemma operand_actions_ok: "list_all action_ok [47, 51]"
  by (simp only: list.pred_inject, intro conjI TrueI action_okI;
      clarsimp simp: rule_rhs_entries numeral_eq_Suc length_Suc_conv carries_def action_simps; rule operand_actions; assumption)

theorem action_value:
  assumes "3 \<le> r" and "r \<le> 77"
  shows "action_ok r"
proof -
  have "list_all action_ok [3..77]"
    using node_actions_ok copy_actions_ok operand_actions_ok by (simp add: upto_rec1)
  then show ?thesis using assms unfolding list_all_iff set_upto by simp
qed

text \<open>The rule for a statement hands its tree to the caller.\<close>

lemma statement_action:
  assumes "length ps = 2" and "length vs = 2"
  shows "yyaction 2 ps g = Some (ps ! 0, g\<lparr>root_node := ps ! 0\<rparr>)" "rule_value 2 vs = vs ! 0"
  by (simp_all add: action_simps MinisqlParserSetRoot_def)

lemma carried_append:
  "length Xs = length ps \<Longrightarrow> length Xs = length vs \<Longrightarrow>
    carried (Xs @ Ys) (ps @ qs) (vs @ ws) = carried Xs ps vs @ carried Ys qs ws"
  by (induction Xs arbitrary: ps vs) (auto simp: Suc_length_conv)

lemma carried_rev:
  "length Xs = length ps \<Longrightarrow> length Xs = length vs \<Longrightarrow> mset (carried (rev Xs) (rev ps) (rev vs)) = mset (carried Xs ps vs)"
  by (induction Xs arbitrary: ps vs) (auto simp: Suc_length_conv carried_append)

lemma add_operands_nonempty: "vs \<noteq> [] \<Longrightarrow> add_operands vs us \<noteq> []"
  by (cases "(vs, us)" rule: add_operands.cases) simp_all

definition nonempty_ok :: "int \<Rightarrow> bool" where
  "nonempty_ok r \<longleftrightarrow> (\<forall>ps vs. length ps = length (rule_rhs r) \<and> length vs = length (rule_rhs r) \<and>
     list_all (\<lambda>(p, v). v \<noteq> []) (carried (rule_rhs r) ps vs) \<longrightarrow> rule_value r vs \<noteq> [])"

lemma all_nonempty_ok: "list_all nonempty_ok [2..77]"
  by (simp add: upto_rec1, intro conjI; unfold nonempty_ok_def; intro allI impI; elim conjE;
      clarsimp simp: rule_rhs_entries numeral_eq_Suc length_Suc_conv carries_def rule_value_def wrap_def add_operands_nonempty)

lemma rule_value_nonempty:
  assumes "2 \<le> r" and "r \<le> 77" and "length ps = length (rule_rhs r)" and "length vs = length (rule_rhs r)"
    and "list_all (\<lambda>(p, v). v \<noteq> []) (carried (rule_rhs r) ps vs)"
  shows "rule_value r vs \<noteq> []"
proof -
  have "nonempty_ok r" using all_nonempty_ok assms(1,2) unfolding list_all_iff set_upto by simp
  then show ?thesis using assms(3-5) unfolding nonempty_ok_def by blast
qed

end
