(* ===== verification/Token_Stream.thy ===== *)
theory Token_Stream
  imports Scanner_Correct Parser_Actions
begin

text \<open>What the scanner hands to the parser.  \<open>lexemes\<close> cuts a text into its longest matches, \<open>tokens\<close> keeps those that
  are tokens, as symbols of the grammar with the tree that the scanner builds for identifiers,
  strings and numbers.  A call of \<open>yylex\<close> takes the first token of the stream.\<close>

section \<open>Lexemes and tokens\<close>

function lexemes :: "string \<Rightarrow> (int \<times> string) list" where
  "lexemes w = (if w = [] then [] else (rule_of (take (longest w) w), take (longest w) w) # lexemes (drop (longest w) w))"
  by pat_completeness auto
termination
  by (relation "measure length") (use longest_props(1) in fastforce)+

declare lexemes.simps [simp del]

definition rule_token :: "int \<Rightarrow> int option" where
  "rule_token r =
     (case map_of (keyword_rules_1 @ keyword_rules_2) r of
        Some k \<Rightarrow> Some (token_code k)
      | None \<Rightarrow> (case map_of operator_rules r of
          Some k \<Rightarrow> Some k
        | None \<Rightarrow> if r = 54 \<or> r = 55 then None else Some (token_code (snd (value_kind r)))))"

definition value_rule :: "int \<Rightarrow> bool" where
  "value_rule r \<longleftrightarrow> map_of (keyword_rules_1 @ keyword_rules_2) r = None \<and> map_of operator_rules r = None \<and> r \<noteq> 54 \<and> r \<noteq> 55"

definition symbol_of :: "int \<Rightarrow> int" where
  "symbol_of c = (case YYTRANSLATE c of None \<Rightarrow> YYUNDEFTOK | Some X \<Rightarrow> X)"

definition lexeme_value :: "int \<Rightarrow> string \<Rightarrow> tree list" where
  "lexeme_value r t =
     (if value_rule r then
        (case copy_val (fst (value_kind r)) (Some t) of None \<Rightarrow> [] | Some v \<Rightarrow> [Tree (fst (value_kind r)) v []])
      else [])"

definition token_of :: "int \<times> string \<Rightarrow> (int \<times> tree list) option" where
  "token_of = (\<lambda>(r, t). map_option (\<lambda>c. (symbol_of c, lexeme_value r t)) (rule_token r))"

definition tokens :: "string \<Rightarrow> (int \<times> tree list) list" where
  "tokens w = List.map_filter token_of (lexemes w)"

text \<open>No character of the text is unrecognised.\<close>

definition recognised :: "string \<Rightarrow> bool" where
  "recognised w \<longleftrightarrow> list_all (\<lambda>(r, t). r \<noteq> 55) (lexemes w)"

lemma lexemes_Nil [simp]: "lexemes [] = []"
  by (simp add: lexemes.simps)

lemma tokens_Nil [simp]: "tokens [] = []" "recognised []"
  by (simp_all add: tokens_def recognised_def map_filter_simps)

lemma tokens_step:
  assumes "w \<noteq> []"
  defines "r \<equiv> rule_of (take (longest w) w)"
  shows "tokens w = (case rule_token r of
      None \<Rightarrow> tokens (drop (longest w) w)
    | Some c \<Rightarrow> (symbol_of c, lexeme_value r (take (longest w) w)) # tokens (drop (longest w) w))"
    "recognised w \<longleftrightarrow> r \<noteq> 55 \<and> recognised (drop (longest w) w)"
  using assms(1) unfolding tokens_def recognised_def r_def
  by (subst lexemes.simps, simp add: map_filter_simps token_of_def split: option.splits)+

section \<open>Symbols\<close>

lemma map_of_upto_cases:
  assumes "map_of kvs k = Some v" and "list_all (\<lambda>(k, v). P k v) kvs"
  shows "P k v"
  using assms by (auto simp: list_all_iff dest!: map_of_SomeD)

lemmas yytranslate_entries = tab_entries[OF yytranslate_def, simplified]

definition symbol_ok :: "int \<Rightarrow> bool \<Rightarrow> bool" where
  "symbol_ok c b \<longleftrightarrow> (case YYTRANSLATE c of None \<Rightarrow> False | Some X \<Rightarrow> 2 \<le> X \<and> X < 54 \<and> (carries X \<longleftrightarrow> b))"

lemma keyword_symbols: "list_all (\<lambda>(r, k). symbol_ok (token_code k) False) (keyword_rules_1 @ keyword_rules_2)"
  by (simp add: keyword_rules_1_def keyword_rules_2_def symbol_ok_def YYTRANSLATE_def YYMAXUTOK_def yytranslate_entries carries_def)

lemma operator_symbols: "list_all (\<lambda>(r, k). symbol_ok k False) operator_rules"
  by (simp add: operator_rules_def symbol_ok_def YYTRANSLATE_def YYMAXUTOK_def yytranslate_entries carries_def of_char_def)

lemma value_symbols: "symbol_ok (token_code (snd (value_kind r))) True"
  by (simp add: value_kind_def symbol_ok_def YYTRANSLATE_def YYMAXUTOK_def yytranslate_entries carries_def)

lemma rule_token_symbol:
  assumes "rule_token r = Some c"
  shows "symbol_ok c (value_rule r)"
  using assms map_of_upto_cases[OF _ keyword_symbols] map_of_upto_cases[OF _ operator_symbols] value_symbols
  by (auto simp: rule_token_def value_rule_def simp del: map_of_append split: option.splits if_splits)

lemma rule_token_facts:
  assumes "rule_token r = Some c"
  shows "YYTRANSLATE c = Some (symbol_of c)" "2 \<le> symbol_of c" "symbol_of c < 54" "carries (symbol_of c) \<longleftrightarrow> value_rule r"
  using rule_token_symbol[OF assms] by (auto simp: symbol_ok_def symbol_of_def split: option.splits)

section \<open>The scanner delivers the stream\<close>

lemma MovePos_read [simp]:
  "read_node (MinisqlParserMovePos t g) a = read_node g a" "same g0 (MinisqlParserMovePos t g) \<longleftrightarrow> same g0 g"
  "parser_error (MinisqlParserMovePos t g) = parser_error g" "root_node (MinisqlParserMovePos t g) = root_node g"
proof -
  have "node_store (MinisqlParserMovePos t g) = node_store g \<and> root_node (MinisqlParserMovePos t g) = root_node g \<and>
    parser_error (MinisqlParserMovePos t g) = parser_error g \<and> error_message (MinisqlParserMovePos t g) = error_message g \<and>
    syntax_node_list (MinisqlParserMovePos t g) = syntax_node_list g"
    unfolding MinisqlParserMovePos_def by (induction t arbitrary: g) (simp_all add: move_char_def)
  then show "read_node (MinisqlParserMovePos t g) a = read_node g a" "same g0 (MinisqlParserMovePos t g) \<longleftrightarrow> same g0 g"
    "parser_error (MinisqlParserMovePos t g) = parser_error g" "root_node (MinisqlParserMovePos t g) = root_node g"
    by (simp_all add: read_node_def same_def nodes_tracked_def)
qed

text \<open>The effect of reading on the globals: nodes may be added and the error may be set.\<close>

definition reads :: "bool \<Rightarrow> parser_globals \<Rightarrow> parser_globals \<Rightarrow> bool" where
  "reads ok g g' \<longleftrightarrow> root_node g' = root_node g \<and> (nodes_tracked g \<longrightarrow> nodes_tracked g') \<and>
     (parser_error g' \<noteq> 0 \<longleftrightarrow> parser_error g \<noteq> 0 \<or> \<not> ok)"

lemma reads_same: "same g g' \<Longrightarrow> reads True g g'"
  by (auto simp: same_def reads_def)

lemma reads_trans: "reads a g g' \<Longrightarrow> reads b g' g'' \<Longrightarrow> reads (a \<and> b) g g''"
  by (auto simp: reads_def)

lemma SetError_facts:
  "read_node (MinisqlParserSetError m g) a = read_node g a" "reads False g (MinisqlParserSetError m g)"
  by (auto simp: MinisqlParserSetError_def read_node_def reads_def nodes_tracked_def)

lemma rule_effect_skip:
  assumes "rule_effect r t g v = Some (None, g', v')" and "sep g L A"
  shows "rule_token r = None \<and> v' = v \<and> reads (r \<noteq> 55) g g' \<and> sep g' L A"
proof -
  have "r = 54 \<and> g' = MinisqlParserMovePos t g \<and> v' = v \<and> rule_token r = None \<or>
    r = 55 \<and> (\<exists>m. g' = MinisqlParserSetError m g) \<and> v' = v \<and> rule_token r = None"
    using assms(1) by (auto simp: rule_effect_def rule_token_def simp del: map_of_append split: option.splits if_splits)
  then show ?thesis
    using sep_frame[OF assms(2), of g'] SetError_facts reads_same[of g "MinisqlParserMovePos t g"] by auto
qed

lemma rule_55_no_token: "map_of (keyword_rules_1 @ keyword_rules_2) 55 = None" "map_of operator_rules 55 = None"
  by (simp_all add: keyword_rules_1_def keyword_rules_2_def operator_rules_def)

lemma rule_effect_token_value:
  assumes "rule_effect r t g v = Some (Some c, g', v')" and "sep g L A"
  shows "rule_token r = Some c \<and> reads True g g' \<and> (r \<noteq> 55) \<and>
    (if value_rule r then lexeme_value r t \<noteq> [] \<and> (\<exists>A'. sep g' ((v', lexeme_value r t) # L) A')
     else v' = v \<and> sep g' L A)"
proof (cases "value_rule r")
  case True
  let ?g = "MinisqlParserMovePos t g"
  obtain a where a: "CreateSyntaxNode (fst (value_kind r)) (Some t) ?g = Some (a, g')" "v' = Some a" "c = token_code (snd (value_kind r))"
    using assms(1) True by (auto simp: rule_effect_def value_rule_def simp del: map_of_append)
  then obtain x where x: "copy_val (fst (value_kind r)) (Some t) = Some x" by (auto simp: CreateSyntaxNode_def split: option.splits)
  have s: "sep ?g L A" using sep_frame[OF assms(2)] by simp
  from sep_create[OF s x] a(1) obtain A' where "sep g' ((Some a, [Tree (fst (value_kind r)) x []]) # L) A'" "same ?g g'" by auto
  then show ?thesis using True a x reads_same[of g g'] same_trans[of g ?g g']
    by (auto simp: lexeme_value_def rule_token_def value_rule_def simp del: map_of_append)
next
  case False
  then have "g' = MinisqlParserMovePos t g" "v' = v" "rule_token r = Some c" "r \<noteq> 55"
    using assms(1) rule_55_no_token by (auto simp: rule_effect_def rule_token_def value_rule_def simp del: map_of_append split: option.splits if_splits)
  then show ?thesis using False sep_frame[OF assms(2), of g'] reads_same[of g g'] by auto
qed

text \<open>One call of the scanner.\<close>

lemma lex_spec_tokens:
  assumes "lex_spec w g v = Some (c, w', g', v')" and "sep g L A"
  shows "\<exists>ok. reads ok g g' \<and> (recognised w \<longleftrightarrow> ok \<and> recognised w') \<and>
    (if c = 0 then tokens w = [] \<and> w' = [] \<and> (\<exists>A'. sep g' L A')
     else 0 < c \<and> YYTRANSLATE c = Some (symbol_of c) \<and> 2 \<le> symbol_of c \<and> symbol_of c < 54 \<and>
       (\<exists>val. tokens w = (symbol_of c, val) # tokens w' \<and>
         (if carries (symbol_of c) then val \<noteq> [] \<and> (\<exists>A'. sep g' ((v', val) # L) A') else \<exists>A'. sep g' L A')))"
  using assms
proof (induction w g v arbitrary: A rule: lex_spec.induct)
  case (1 w g v)
  show ?case
  proof (cases "w = []")
    case True
    then have "c = 0" "w' = []" "g' = g" using "1.prems"(1) by (simp_all add: lex_spec.simps[of "[]"])
    then show ?thesis using True "1.prems"(2) by (intro exI[of _ True]) (auto simp: reads_def)
  next
    case False
    let ?n = "longest w" and ?r = "rule_of (take (longest w) w)"
    note st = tokens_step[OF False]
    obtain x g1 v1 where r: "rule_effect ?r (take ?n w) g v = Some (x, g1, v1)"
      using "1.prems"(1) False by (subst (asm) lex_spec.simps) (auto split: option.splits)
    show ?thesis
    proof (cases x)
      case None
      then have l: "lex_spec (drop ?n w) g1 v1 = Some (c, w', g', v')"
        using "1.prems"(1) False r by (subst (asm) lex_spec.simps) simp
      note k = rule_effect_skip[OF r[unfolded None] "1.prems"(2)]
      from "1.IH"[OF False r refl None refl l] k obtain ok where
        ih: "reads ok g1 g'" "recognised (drop ?n w) \<longleftrightarrow> ok \<and> recognised w'"
        "if c = 0 then tokens (drop ?n w) = [] \<and> w' = [] \<and> (\<exists>A'. sep g' L A')
         else 0 < c \<and> YYTRANSLATE c = Some (symbol_of c) \<and> 2 \<le> symbol_of c \<and> symbol_of c < 54 \<and>
           (\<exists>val. tokens (drop ?n w) = (symbol_of c, val) # tokens w' \<and>
             (if carries (symbol_of c) then val \<noteq> [] \<and> (\<exists>A'. sep g' ((v', val) # L) A') else \<exists>A'. sep g' L A'))"
        by blast
      have "tokens w = tokens (drop ?n w)" using st(1) k by simp
      then show ?thesis using ih k st(2) reads_trans[of "?r \<noteq> 55" g g1 ok g'] by (intro exI[of _ "?r \<noteq> 55 \<and> ok"]) simp
    next
      case (Some y)
      then have e: "c = y" "w' = drop ?n w" "g' = g1" "v' = v1"
        using "1.prems"(1) False r by (subst (asm) lex_spec.simps; simp)+
      note k = rule_effect_token_value[OF r[unfolded Some] "1.prems"(2)]
      have t: "tokens w = (symbol_of c, lexeme_value ?r (take ?n w)) # tokens w'" using st(1) k e by simp
      have "0 < c" using rule_effect_token[OF r[unfolded Some]] e by simp
      then show ?thesis using k t e st(2) rule_token_facts[of ?r y] by (intro exI[of _ True]) auto
    qed
  qed
qed

end
