(* ===== verification/Parser_Correct.thy ===== *)
theory Parser_Correct
  imports Token_Stream
begin

text \<open>The parser of \<open>parser/minisql_yacc.c\<close> implements the grammar.  The concrete parser, with its node store,
  its scanner and its growing stacks, is simulated by the machine of \<open>LR_Automaton\<close> on the stream of
  tokens of the text; the results on that machine carry over to \<open>yyparse\<close>.\<close>

section \<open>Tables and states\<close>

lemma states_in_range:
  "list_all (\<lambda>n. 0 \<le> n \<and> n < 134) yytable" "length yypact = 134" "length item_table = 134" "length yycheck = 107"
  "length yytable = 107" "length yydefact = 134"
  by (simp_all add: yytable_def yypact_def item_table_def yycheck_def yydefact_def)

definition valid_state :: "int \<Rightarrow> bool" where
  "valid_state s \<longleftrightarrow> 0 \<le> s \<and> s < 134"

lemma items_valid: "(r, i) \<in> items s \<Longrightarrow> valid_state s"
  by (auto simp: items_def items_of_def valid_state_def tab_def states_in_range split: option.splits if_splits)

lemma shift_valid: "table_action s a = Shift n \<Longrightarrow> valid_state n"
  using tab_list_all[OF states_in_range(1)]
  by (auto simp: table_action_def default_action_def valid_state_def split: if_splits option.splits)

lemma edge_valid: "minisql.edge p X n \<Longrightarrow> valid_state n"
  using goto_advance(1) yygoto_nonterminal items_valid shift_valid unfolding minisql.edge_def grammar_simps by fastforce

lemma parsed_valid: "minisql.parsed ss Xs vs w \<Longrightarrow> s \<in> set ss \<Longrightarrow> valid_state s"
  by (induction rule: minisql.parsed.induct) (auto simp: valid_state_def[of 0] dest: edge_valid)

text \<open>No state can shift the error token.\<close>

lemma no_error_rule: "all_states (\<lambda>s k. error_shift s = Some None) 0 yypact"
  unfolding yypact_def by (simp add: error_shift_def check_simps)

lemma error_shift_None: "valid_state s \<Longrightarrow> error_shift s = Some None"
  using all_states_tab[OF no_error_rule] tab_in_range[of s yypact] by (auto simp: valid_state_def states_in_range)

lemma pop_all_states:
  "ss \<noteq> [] \<Longrightarrow> list_all valid_state ss \<Longrightarrow> \<exists>ss' vs' s'. pop_states ss vs P = Some (Inr (1, P\<lparr>yyss := ss', yyvs := vs', yystate := s'\<rparr>))"
proof (induction ss arbitrary: vs)
  case (Cons s ss)
  then show ?case using error_shift_None[of s] by (cases ss) auto
qed simp

section \<open>The simulation\<close>

abbreviation globals :: "yyparser \<Rightarrow> parser_globals" where
  "globals P \<equiv> glob (scn P)"

text \<open>The token that has been read but not shifted, and the text that has not been read; \<open>ok\<close> says that it
  has no unrecognised character.\<close>

inductive lookahead :: "(int \<times> tree list) list \<Rightarrow> bool \<Rightarrow> (pSyntaxNode \<times> tree list) list \<Rightarrow> yyparser \<Rightarrow> bool" where
  unread: "yychar P = YYEMPTY \<Longrightarrow> scanner_at w (scn P) \<Longrightarrow> sep (globals P) L A \<Longrightarrow> lookahead (tokens w) (recognised w) L P"
| at_end: "yychar P = YYEOF \<Longrightarrow> sep (globals P) L A \<Longrightarrow> lookahead [] True L P"
| at_token: "0 < yychar P \<Longrightarrow> YYTRANSLATE (yychar P) = Some X \<Longrightarrow> 2 \<le> X \<Longrightarrow> X < 54 \<Longrightarrow> scanner_at w (scn P) \<Longrightarrow>
    (if carries X then v \<noteq> [] \<and> sep (globals P) ((yylval (scn P), v) # L) A else sep (globals P) L A) \<Longrightarrow>
    lookahead ((X, v) # tokens w) (recognised w) L P"

inductive_cases lookaheadE: "lookahead ts ok L P"

lemma tokens_symbols: "(X, v) \<in> set (tokens w) \<Longrightarrow> 2 \<le> X \<and> X < 54"
  using rule_token_facts(2,3) by (fastforce simp: tokens_def token_of_def map_filter_def)

lemma lookahead_symbol: "lookahead ts ok L P \<Longrightarrow> 0 \<le> next_symbol ts \<and> next_symbol ts < 54"
proof (erule lookaheadE)
  fix w assume "ts = tokens w"
  then show ?thesis using tokens_symbols[of _ _ w] by (cases "tokens w") (fastforce simp: next_symbol_def)+
qed (auto simp: next_symbol_def)

text \<open>Reading and translating the next token.\<close>

definition error_count :: "yyparser \<Rightarrow> bool \<Rightarrow> bool" where
  "error_count P ok \<longleftrightarrow> parser_error (globals P) \<noteq> 0 \<or> \<not> ok"

lemma read_lookahead:
  assumes "lookahead ts ok L P"
  shows "\<exists>\<sigma> c t ok'. Option.bind (read_token P) translate_token = Some (P\<lparr>scn := \<sigma>, yychar := c, yytoken := t\<rparr>) \<and> t = next_symbol ts \<and>
    c \<noteq> YYEMPTY \<and> lookahead ts ok' L (P\<lparr>scn := \<sigma>, yychar := c, yytoken := t\<rparr>) \<and>
    root_node (glob \<sigma>) = root_node (globals P) \<and> (nodes_tracked (globals P) \<longrightarrow> nodes_tracked (glob \<sigma>)) \<and>
    error_count (P\<lparr>scn := \<sigma>\<rparr>) ok' = error_count P ok"
  using assms
proof cases
  case (unread w A)
  obtain c w' g v \<sigma> where y: "lex_spec w (globals P) (yylval (scn P)) = Some (c, w', g, v)" "yylex (scn P) = Some (c, \<sigma>)"
    "scanner_at w' \<sigma>" "glob \<sigma> = g" "yylval \<sigma> = v" using yylex_at[OF unread(4)] by blast
  obtain b where b: "reads b (globals P) g" "recognised w \<longleftrightarrow> b \<and> recognised w'"
    "if c = 0 then tokens w = [] \<and> w' = [] \<and> (\<exists>A'. sep g L A')
     else 0 < c \<and> YYTRANSLATE c = Some (symbol_of c) \<and> 2 \<le> symbol_of c \<and> symbol_of c < 54 \<and>
       (\<exists>val. tokens w = (symbol_of c, val) # tokens w' \<and>
         (if carries (symbol_of c) then val \<noteq> [] \<and> (\<exists>A'. sep g ((v, val) # L) A') else \<exists>A'. sep g L A'))"
    using lex_spec_tokens[OF y(1) unread(5)] by blast
  let ?P = "P\<lparr>scn := \<sigma>, yychar := c, yytoken := next_symbol ts\<rparr>"
  have e: "root_node (glob \<sigma>) = root_node (globals P)" "nodes_tracked (globals P) \<longrightarrow> nodes_tracked (glob \<sigma>)"
    "error_count (P\<lparr>scn := \<sigma>\<rparr>) (recognised w') = error_count P ok"
    using b(1,2) y(4) unread(2) by (auto simp: reads_def error_count_def)
  show ?thesis
  proof (cases "c = 0")
    case True
    then have t: "ts = []" "w' = []" and s: "\<exists>A'. sep g L A'" using b(3) unread(1) by auto
    have "Option.bind (read_token P) translate_token = Some ?P"
      using unread(3) y(2) True t by (simp add: read_token_def translate_token_def next_symbol_def yy_constants)
    moreover have "lookahead ts (recognised w') L ?P" using t s True y(4) by (auto intro!: at_end simp: YYEOF_def)
    ultimately show ?thesis using e True
      by (intro exI[of _ \<sigma>] exI[of _ c] exI[of _ "next_symbol ts"] exI[of _ "recognised w'"] conjI) (simp_all add: yy_constants)
  next
    case False
    then obtain val where c: "0 < c" "YYTRANSLATE c = Some (symbol_of c)" "2 \<le> symbol_of c" "symbol_of c < 54"
      "ts = (symbol_of c, val) # tokens w'"
      "if carries (symbol_of c) then val \<noteq> [] \<and> (\<exists>A'. sep g ((v, val) # L) A') else \<exists>A'. sep g L A'"
      using b(3) unread(1) by auto
    have "Option.bind (read_token P) translate_token = Some ?P"
      using unread(3) y(2) c by (simp add: read_token_def translate_token_def next_symbol_def yy_constants)
    moreover have "lookahead ts (recognised w') L ?P" using c y(3-5) by (auto intro!: at_token split: if_splits)
    ultimately show ?thesis using e c
      by (intro exI[of _ \<sigma>] exI[of _ c] exI[of _ "next_symbol ts"] exI[of _ "recognised w'"] conjI) (simp_all add: yy_constants)
  qed
next
  case (at_end A)
  let ?P = "P\<lparr>scn := scn P, yychar := 0, yytoken := 0\<rparr>"
  have "Option.bind (read_token P) translate_token = Some ?P"
    using at_end by (simp add: read_token_def translate_token_def yy_constants)
  moreover have "lookahead ts True L ?P" using at_end by (auto intro!: lookahead.at_end simp: YYEOF_def)
  ultimately show ?thesis using at_end
    by (intro exI[of _ "scn P"] exI[of _ 0] exI[of _ True] conjI) (simp_all add: next_symbol_def yy_constants error_count_def)
next
  case (at_token X w v A)
  let ?P = "P\<lparr>scn := scn P, yychar := yychar P, yytoken := X\<rparr>"
  have "Option.bind (read_token P) translate_token = Some ?P"
    using at_token by (simp add: read_token_def translate_token_def yy_constants)
  moreover have "lookahead ts ok L ?P" unfolding at_token(1,2) using at_token by (intro lookahead.at_token[where A = A]) auto
  ultimately show ?thesis using at_token
    by (intro exI[of _ "scn P"] exI[of _ "yychar P"] exI[of _ X] exI[of _ ok] conjI) (simp_all add: next_symbol_def yy_constants error_count_def)
qed


text \<open>The decision is the one of the tables.\<close>

lemma yydefault_action: "valid_state (yystate P) \<Longrightarrow> yydefault P = Some (default_action (yystate P), P)"
  using tab_in_range[of "yystate P" yydefact] by (auto simp: yydefault_def default_action_def valid_state_def states_in_range)

lemma check_in_range: "tab yycheck i = Some c \<Longrightarrow> 0 \<le> i \<and> i \<le> 106 \<and> (\<exists>n. tab yytable i = Some n \<and> 0 \<le> n)"
  using tab_list_all[OF states_in_range(1), of i] tab_in_range[of i yytable]
  by (auto simp: tab_Some_iff states_in_range)

lemma yybackup_table:
  assumes "tab yypact s = Some k" and "k \<noteq> YYPACT_NINF" and "yystate P' = s" and "valid_state s"
    and "Option.bind (read_token P) translate_token = Some P'" and "0 \<le> yytoken P'" and "yytoken P' < 54" and "yystate P = s"
  shows "yybackup P = Some (table_action s (yytoken P'), P')"
proof -
  let ?a = "yytoken P'"
  obtain P1 where P1: "read_token P = Some P1" "translate_token P1 = Some P'" using assms(5) by (auto simp: bind_eq_Some_conv)
  note d = yydefault_action[of P', unfolded assms(3), OF assms(4)]
  show ?thesis
  proof (cases "tab yycheck (k + ?a) = Some ?a")
    case True
    then obtain n where n: "tab yytable (k + ?a) = Some n" "0 \<le> n" "0 \<le> k + ?a" "k + ?a \<le> 106" using check_in_range by blast
    then show ?thesis using P1 assms True by (simp add: yybackup_def table_action_def yy_constants Let_def not_less)
  next
    case False
    then have "table_action s ?a = default_action s" using assms by (auto simp: table_action_def yy_constants)
    moreover have "yybackup P = yydefault P'"
    proof (cases "k + ?a < 0 \<or> 106 < k + ?a")
      case False
      then obtain c where "tab yycheck (k + ?a) = Some c" using tab_in_range[of "k + ?a" yycheck] by (auto simp: states_in_range)
      then show ?thesis using P1 assms \<open>tab yycheck (k + ?a) \<noteq> Some ?a\<close> False by (simp add: yybackup_def yy_constants Let_def)
    qed (use P1 assms in \<open>simp add: yybackup_def yy_constants Let_def\<close>)
    ultimately show ?thesis using d by simp
  qed
qed

lemma default_not_shift: "default_action s \<notin> {Shift n, Accept}"
  by (auto simp: default_action_def split: option.splits)

lemma yybackup_action:
  assumes "lookahead ts ok L P" and "valid_state (yystate P)"
  shows "\<exists>\<sigma> c t ok'. yybackup P = Some (table_action (yystate P) (next_symbol ts), P\<lparr>scn := \<sigma>, yychar := c, yytoken := t\<rparr>) \<and>
    lookahead ts ok' L (P\<lparr>scn := \<sigma>, yychar := c, yytoken := t\<rparr>) \<and>
    (\<forall>n. table_action (yystate P) (next_symbol ts) \<in> {Shift n, Accept} \<longrightarrow> c \<noteq> YYEMPTY) \<and>
    root_node (glob \<sigma>) = root_node (globals P) \<and> (nodes_tracked (globals P) \<longrightarrow> nodes_tracked (glob \<sigma>)) \<and>
    error_count (P\<lparr>scn := \<sigma>\<rparr>) ok' = error_count P ok"
proof -
  note a = lookahead_symbol[OF assms(1)]
  obtain k where k: "tab yypact (yystate P) = Some k"
    using assms(2) tab_in_range[of "yystate P" yypact] by (auto simp: valid_state_def states_in_range)
  show ?thesis
  proof (cases "k = YYPACT_NINF")
    case True
    then have "table_action (yystate P) (next_symbol ts) = default_action (yystate P)" using a k by (simp add: table_action_def yy_constants)
    moreover have "yybackup P = Some (default_action (yystate P), P)" using k True yydefault_action[OF assms(2)] by (simp add: yybackup_def)
    ultimately show ?thesis using assms(1) default_not_shift
      by (intro exI[of _ "scn P"] exI[of _ "yychar P"] exI[of _ "yytoken P"] exI[of _ ok] conjI) simp_all
  next
    case False
    from read_lookahead[OF assms(1)] obtain \<sigma> c t ok' where
      r: "Option.bind (read_token P) translate_token = Some (P\<lparr>scn := \<sigma>, yychar := c, yytoken := t\<rparr>)" "t = next_symbol ts" "c \<noteq> YYEMPTY"
      "lookahead ts ok' L (P\<lparr>scn := \<sigma>, yychar := c, yytoken := t\<rparr>)" "root_node (glob \<sigma>) = root_node (globals P)"
      "nodes_tracked (globals P) \<longrightarrow> nodes_tracked (glob \<sigma>)" "error_count (P\<lparr>scn := \<sigma>\<rparr>) ok' = error_count P ok"
      by blast
    have "yybackup P = Some (table_action (yystate P) (next_symbol ts), P\<lparr>scn := \<sigma>, yychar := c, yytoken := t\<rparr>)"
      using yybackup_table[OF k False _ assms(2) r(1)] a r(2) by simp
    then show ?thesis using r by (intro exI[of _ \<sigma>] exI[of _ c] exI[of _ t] exI[of _ ok'] conjI) simp_all
  qed
qed

section \<open>One round\<close>

text \<open>The parser at \<open>yynewstate\<close> and the machine are at the same point.  \<open>bad\<close> says whether the error is set or
  will be set by the scanner before the text ends.\<close>

definition simulates :: "bool \<Rightarrow> yyparser \<Rightarrow> int list \<Rightarrow> int list \<Rightarrow> tree list list \<Rightarrow> (int \<times> tree list) list \<Rightarrow> bool" where
  "simulates bad P ss Xs vs ts \<longleftrightarrow>
     yystate P # yyss P = ss \<and> length (yyvs P) = length Xs \<and> (\<exists>w. minisql.parsed ss Xs vs w) \<and>
     (\<exists>ok. lookahead ts ok (carried Xs (yyvs P) vs) P \<and> error_count P ok = bad) \<and>
     list_all (\<lambda>(p, v). v \<noteq> []) (carried Xs (yyvs P) vs) \<and>
     (Xs \<noteq> [] \<and> hd Xs = 55 \<longrightarrow> root_node (globals P) = hd (yyvs P)) \<and>
     yyerrstatus P = 0 \<and> length ss \<le> yystacksize P \<and> 200 \<le> yystacksize P \<and> nodes_tracked (globals P)"

lemma lookahead_cong:
  "lookahead ts ok L P \<Longrightarrow> scn P' = scn P \<Longrightarrow> yychar P' = yychar P \<Longrightarrow> lookahead ts ok L P'"
  by (erule lookaheadE) (auto intro!: lookahead.intros[where P = P', simplified] split: if_splits)


lemma scanner_at_glob [simp]: "scanner_at w (\<sigma>\<lparr>glob := g\<rparr>) \<longleftrightarrow> scanner_at w \<sigma>"
  by (simp add: scanner_at_def positioned_def string_buffer_def)

text \<open>Shifting.\<close>

lemma shift_simulates:
  assumes "lookahead ts ok (carried Xs (yyvs P) vs) P" and "yychar P \<noteq> YYEMPTY" and "table_action s (next_symbol ts) = Shift n"
    and "minisql.parsed (s # ss) Xs vs w" and "yyss P = s # ss" and "length (yyvs P) = length Xs"
    and "list_all (\<lambda>(p, v). v \<noteq> []) (carried Xs (yyvs P) vs)" and "error_count P ok = bad" and "yyerrstatus P = 0"
    and "length (yyss P) < yystacksize P" and "200 \<le> yystacksize P" and "nodes_tracked (globals P)"
  shows "\<exists>X v ts'. ts = (X, v) # ts' \<and> simulates bad (yyshift n P) (n # s # ss) (X # Xs) (v # vs) ts'"
proof -
  from minisql.shift_parsed[OF assms(4,3)] obtain X v ts' where
    t: "ts = (X, v) # ts'" "terminal X" "minisql.parsed (n # s # ss) (X # Xs) (v # vs) (w @ [(X, v)])"
    by (auto simp: next_symbol_def split: list.splits)
  from assms(1) show ?thesis
  proof cases
    case (at_token Y u x A)
    then have e: "Y = X" "x = v" "ts' = tokens u" using t(1) by simp_all
    let ?L = "carried (X # Xs) (yylval (scn P) # yyvs P) (v # vs)"
    have "yyshift n P = P\<lparr>yychar := YYEMPTY, yystate := n, yyvs := yylval (scn P) # yyvs P\<rparr>"
      using assms(9) at_token(3) by (simp add: yyshift_def YYEOF_def)
    moreover from this have "lookahead ts' ok ?L (yyshift n P)"
      unfolding e(3) at_token(2) using at_token e by (intro unread[where A = A]) (auto split: if_splits)
    moreover have "list_all (\<lambda>(p, v). v \<noteq> []) ?L" using assms(7) at_token e by (auto split: if_splits)
    ultimately show ?thesis using t assms(5,6,8-12)
      by (intro exI[of _ X] exI[of _ v] exI[of _ ts'] conjI) (auto simp: simulates_def error_count_def terminal_def yy_constants)
  qed (use assms(2) t(1) in auto)
qed

text \<open>Reducing.\<close>

lemma rule_tables: "1 \<le> r \<Longrightarrow> r \<le> 77 \<Longrightarrow> tab yyr2 r = Some (int (length (rule_rhs r))) \<and> tab yyr1 r = Some (rule_lhs r) \<and> (rule_lhs r = 55 \<longrightarrow> r = 2)"
proof -
  have "list_all (\<lambda>r. tab yyr2 r = Some (int (length (rule_rhs r))) \<and> tab yyr1 r = Some (rule_lhs r) \<and> (rule_lhs r = 55 \<longrightarrow> r = 2)) [1..77]"
    by (simp add: upto_rec1 rule_rhs_entries rule_lhs_def yyr1_entries yyr2_entries)
  then show "1 \<le> r \<Longrightarrow> r \<le> 77 \<Longrightarrow> ?thesis" unfolding list_all_iff set_upto by simp
qed

lemma carried_split:
  assumes "length Xs = length ps" and "length Xs = length vs" and "take k Xs = rev Ys" and "k = length Ys"
  shows "mset (carried Xs ps vs) = mset (carried Ys (rev (take k ps)) (rev (take k vs)) @ carried (drop k Xs) (drop k ps) (drop k vs))"
proof -
  have "length (take k Xs) = k" using assms(3,4) by simp
  then have "k \<le> length Xs" by simp
  then have lp: "length Ys = length (rev (take k ps))" and lv: "length Ys = length (rev (take k vs))"
    using assms(1,2,4) by simp_all
  have "carried Xs ps vs = carried (take k Xs) (take k ps) (take k vs) @ carried (drop k Xs) (drop k ps) (drop k vs)"
    using carried_append[of "take k Xs" "take k ps" "take k vs" "drop k Xs" "drop k ps" "drop k vs"] assms(1,2) by simp
  moreover have "mset (carried (take k Xs) (take k ps) (take k vs)) = mset (carried Ys (rev (take k ps)) (rev (take k vs)))"
    unfolding assms(3) using carried_rev[OF lp lv] by simp
  ultimately show ?thesis by simp
qed

lemma list_of_two: "length xs = 2 \<Longrightarrow> \<exists>x y. xs = [x, y]"
  by (auto simp: numeral_2_eq_2 length_Suc_conv)

lemma action_on_stack:
  assumes "2 \<le> r" "r \<le> 77" and "length Xs = length ps" and "length Xs = length vs" and "take k Xs = rev (rule_rhs r)"
    and "k = length (rule_rhs r)" and "list_all (\<lambda>(p, v). v \<noteq> []) (carried Xs ps vs)" and "sep g (E @ carried Xs ps vs) A"
  shows "\<exists>p g' A'. yyaction r (rev (take k ps)) g = Some (p, g') \<and>
    sep g' (E @ (p, rule_value r (rev (take k vs))) # carried (drop k Xs) (drop k ps) (drop k vs)) A' \<and>
    rule_value r (rev (take k vs)) \<noteq> [] \<and> (nodes_tracked g \<longrightarrow> nodes_tracked g') \<and> parser_error g' = parser_error g \<and> (r = 2 \<longrightarrow> root_node g' = p)"
proof -
  let ?ps = "rev (take k ps)" and ?vs = "rev (take k vs)" and ?rest = "carried (drop k Xs) (drop k ps) (drop k vs)"
  note m = carried_split[OF assms(3-6)]
  have "k \<le> length Xs" using arg_cong[OF assms(5), of length] assms(6) by simp
  then have l: "length ?ps = length (rule_rhs r)" "length ?vs = length (rule_rhs r)" using assms(3,4,6) by simp_all
  have ne: "list_all (\<lambda>(p, v). v \<noteq> []) (carried (rule_rhs r) ?ps ?vs)"
    using assms(7) mset_eq_setD[OF m] by (auto simp: list_all_iff)
  have s: "sep g (carried (rule_rhs r) ?ps ?vs @ (E @ ?rest)) A" by (rule sep_mset[OF _ assms(8)]) (simp add: m)
  have "\<exists>p g' A'. yyaction r ?ps g = Some (p, g') \<and> sep g' ((p, rule_value r ?vs) # E @ ?rest) A' \<and>
    (nodes_tracked g \<longrightarrow> nodes_tracked g') \<and> parser_error g' = parser_error g \<and> (r = 2 \<longrightarrow> root_node g' = p)"
  proof (cases "r = 2")
    case True
    then have n: "length ?ps = 2" "length ?vs = 2" "rule_rhs r = [56, 47]" using l by (simp_all add: rule_rhs_entries)
    then obtain p q v u where pv: "?ps = [p, q]" "?vs = [v, u]" using list_of_two[OF n(1)] list_of_two[OF n(2)] by blast
    then have "sep g ((p, v) # E @ ?rest) A" using s n(3) by (simp add: carries_def)
    then have "sep (g\<lparr>root_node := p\<rparr>) ((p, v) # E @ ?rest) A" by (rule sep_frame) (simp add: read_node_def)
    then show ?thesis using statement_action(1)[OF n(1,2), of g] statement_action(2)[OF n(1,2)] True pv by (auto simp: nodes_tracked_def read_node_def)
  next
    case False
    then have "action_ok r" using action_value assms(1,2) by simp
    then have "yields g (rule_value r ?vs) (E @ ?rest) (yyaction r ?ps g)"
      unfolding action_ok_def using l s ne same_refl by blast
    then show ?thesis using False unfolding yields_def same_def by blast
  qed
  then obtain p g' A' where "yyaction r ?ps g = Some (p, g')" "sep g' ((p, rule_value r ?vs) # E @ ?rest) A'"
    "nodes_tracked g \<longrightarrow> nodes_tracked g'" "parser_error g' = parser_error g" "r = 2 \<longrightarrow> root_node g' = p" by blast
  moreover have "sep g' (E @ (p, rule_value r ?vs) # ?rest) A'" using sep_move[of g' E] calculation(2) by simp
  ultimately show ?thesis using rule_value_nonempty[OF assms(1,2) l ne] by blast
qed

lemma lookahead_action:
  assumes "lookahead ts ok L P" and "\<And>E A. sep (globals P) (E @ L) A \<Longrightarrow> \<exists>A'. sep g' (E @ L') A'"
    and "scn P' = (scn P)\<lparr>glob := g'\<rparr>" and "yychar P' = yychar P"
  shows "lookahead ts ok L' P'"
  using assms(1)
proof cases
  case (unread w A)
  then obtain A' where "sep g' L' A'" using assms(2)[of "[]"] by auto
  then show ?thesis unfolding unread(1,2) using unread assms(3,4) by (intro lookahead.unread) auto
next
  case (at_end A)
  then obtain A' where "sep g' L' A'" using assms(2)[of "[]"] by auto
  then show ?thesis unfolding at_end(1,2) using at_end assms(3,4) by (intro lookahead.at_end) auto
next
  case (at_token X w v A)
  then obtain A' where "if carries X then v \<noteq> [] \<and> sep g' ((yylval (scn P), v) # L') A' else sep g' L' A'"
    using assms(2)[of "[(yylval (scn P), v)]" A] assms(2)[of "[]" A] by (auto split: if_splits)
  then show ?thesis unfolding at_token(1,2) using at_token assms(3,4) by (intro lookahead.at_token[where A = A']) auto
qed


lemma reduce_simulates:
  assumes "lookahead ts ok (carried Xs (yyvs P) vs) P" and "table_action s (next_symbol ts) = Reduce r"
    and "minisql.parsed (s # ss) Xs vs w" and "yyss P = s # ss" and "length (yyvs P) = length Xs"
    and "list_all (\<lambda>(p, v). v \<noteq> []) (carried Xs (yyvs P) vs)" and "error_count P ok = bad" and "yyerrstatus P = 0"
    and "length (yyss P) < yystacksize P" and "200 \<le> yystacksize P" and "nodes_tracked (globals P)"
  defines "k \<equiv> length (rule_rhs r)"
  shows "\<exists>p ps n P'. drop k (s # ss) = p # ps \<and> yygoto p (rule_lhs r) = Some n \<and> yyreduce r P = Some P' \<and> k \<le> length vs \<and>
    take k Xs = rev (rule_rhs r) \<and> r \<in> {2..77} \<and>
    simulates bad P' (n # p # ps) (rule_lhs r # drop k Xs) (rule_value r (rev (take k vs)) # drop k vs) ts"
proof -
  from minisql.reduce_parsed[OF assms(3,2)] obtain p ps n where
    r: "k \<le> length vs" "drop k (s # ss) = p # ps" "yygoto p (rule_lhs r) = Some n" "take k Xs = rev (rule_rhs r)" "r \<in> {2..77}"
      "minisql.parsed (n # p # ps) (rule_lhs r # drop k Xs) (rule_value r (rev (take k vs)) # drop k vs) w"
    unfolding k_def by (auto simp: YYNRULES_def)
  have len: "length Xs = length vs" "length (s # ss) = Suc (length vs)" using minisql.parsed_lengths[OF assms(3)] by simp_all
  have b: "2 \<le> r" "r \<le> 77" using r(5) by simp_all
  let ?val = "rule_value r (rev (take k vs))" and ?a = "yyaction r (rev (take k (yyvs P))) (globals P)"
  note acts = action_on_stack[OF b assms(5)[symmetric] len(1) r(4) k_def[THEN meta_eq_to_obj_eq] assms(6)]
  have "\<exists>E A. sep (globals P) (E @ carried Xs (yyvs P) vs) A"
    using assms(1)
  proof cases
    case (at_token X w v A)
    then show ?thesis by (intro exI[of _ "if carries X then [(yylval (scn P), v)] else []"] exI[of _ A]) (simp split: if_splits)
  qed (metis append_Nil)+
  then obtain q g' where act: "?a = Some (q, g')" "?val \<noteq> []" "nodes_tracked (globals P) \<longrightarrow> nodes_tracked g'"
    "parser_error g' = parser_error (globals P)" "r = 2 \<longrightarrow> root_node g' = q" using acts by metis
  let ?L = "(q, ?val) # carried (drop k Xs) (drop k (yyvs P)) (drop k vs)"
  have frame: "\<exists>A'. sep g' (E @ ?L) A'" if "sep (globals P) (E @ carried Xs (yyvs P) vs) A" for E A
    using acts[OF that] act(1) by auto
  let ?P = "P\<lparr>scn := (scn P)\<lparr>glob := g'\<rparr>, yyss := drop k (yyss P), yyvs := q # drop k (yyvs P), yystate := n\<rparr>"
  have "lookahead ts ok ?L ?P" by (rule lookahead_action[OF assms(1) frame]) simp_all
  moreover have red: "yyreduce r P = Some ?P"
  proof -
    have "tab yyr2 r = Some (int k)" "tab yyr1 r = Some (rule_lhs r)" using rule_tables[of r] b by (simp_all add: k_def)
    moreover have "\<not> (length (yyvs P) < k \<or> length (yyss P) \<le> k)" using r(1) len assms(4,5) by simp
    moreover have "hd (drop k (yyss P)) = p" using r(2) assms(4) by simp
    ultimately show ?thesis using act(1) r(3) by (simp add: yyreduce_def Let_def)
  qed
  moreover have "carries (rule_lhs r)" using rule_facts[of r] b by (simp add: rule_ok_def carries_def)
  moreover have "list_all (\<lambda>(p, v). v \<noteq> []) ?L"
  proof -
    have "set (carried (drop k Xs) (drop k (yyvs P)) (drop k vs)) \<subseteq> set (carried Xs (yyvs P) vs)"
      using mset_eq_setD[OF carried_split[OF assms(5)[symmetric] len(1) r(4) k_def[THEN meta_eq_to_obj_eq]]] by auto
    then show ?thesis using assms(6) act(2) by (auto simp: list_all_iff)
  qed
  moreover have "length (p # ps) \<le> length (s # ss)" using r(2) by (metis length_drop diff_le_self)
  ultimately have "simulates bad ?P (n # p # ps) (rule_lhs r # drop k Xs) (?val # drop k vs) ts"
    using r(2,6) act(3-5) assms(4,5,7-11) rule_tables[of r] b by (auto simp: simulates_def error_count_def)
  then show ?thesis using r red by blast
qed

text \<open>A syntax error ends the parser with the result 1.\<close>

lemma error_stops:
  assumes "yyerrstatus P = 0" and "yyss P \<noteq> []" and "list_all valid_state (yyss P)" and "nodes_tracked (globals P)"
  shows "\<exists>P'. yyerrlab P = Some (Inr (1, P')) \<and> parser_error (globals P') \<noteq> 0 \<and> nodes_tracked (globals P')"
proof -
  let ?P = "(yyerror ''syntax error'' (P\<lparr>yynerrs := yynerrs P + 1\<rparr>))\<lparr>yyerrstatus := 3\<rparr>"
  obtain ss vs s where "pop_states (yyss P) (yyvs P) ?P = Some (Inr (1, ?P\<lparr>yyss := ss, yyvs := vs, yystate := s\<rparr>))"
    using pop_all_states[OF assms(2,3)] by blast
  then have "yyerrlab P = Some (Inr (1, ?P\<lparr>yyss := ss, yyvs := vs, yystate := s\<rparr>))"
    using assms(1) by (simp add: yyerrlab_def yyerrlab1_def yyerror_def)
  moreover have "parser_error (globals ?P) \<noteq> 0 \<and> nodes_tracked (globals ?P)"
    using assms(4) SetError_facts(2)[of "globals P"] by (simp add: yyerror_def reads_def)
  ultimately show ?thesis by fastforce
qed

text \<open>Entering a state: the stack has room, or is extended, or there is no memory.\<close>

lemma enter_state:
  assumes "length (yyss P) < yystacksize P" and "200 \<le> yystacksize P" and "nodes_tracked (globals P)"
  shows "(\<exists>k. yysetstate stack_malloc P = Inl (P\<lparr>yyss := yystate P # yyss P, yystacksize := k\<rparr>) \<and> Suc (length (yyss P)) < k \<and> 200 \<le> k) \<or>
    (\<exists>P'. yysetstate stack_malloc P = Inr (2, P') \<and> parser_error (globals P') \<noteq> 0 \<and> nodes_tracked (globals P') \<and>
       YYINITDEPTH \<le> Suc (length (yyss P)) \<and> \<not> ((\<forall>n. stack_malloc n) \<and> Suc (length (yyss P)) < YYMAXDEPTH))"
proof -
  let ?P = "P\<lparr>yyss := yystate P # yyss P\<rparr>"
  have ex: "parser_error (globals (snd (yyexhaustedlab Q))) \<noteq> 0 \<and> nodes_tracked (globals (snd (yyexhaustedlab Q))) \<and> fst (yyexhaustedlab Q) = 2"
    if "globals Q = globals P" for Q
    using SetError_facts(2)[of "globals P"] assms(3) that by (simp add: yyexhaustedlab_def yyerror_def reads_def)
  show ?thesis
  proof (cases "yystacksize P \<le> Suc (length (yyss P))")
    case False
    then have "yysetstate stack_malloc P = Inl (P\<lparr>yyss := yystate P # yyss P, yystacksize := yystacksize P\<rparr>)" by (simp add: yysetstate_def)
    then show ?thesis using False assms(2) by (intro disjI1 exI[of _ "yystacksize P"]) simp
  next
    case True
    let ?n = "if YYMAXDEPTH < yystacksize P * 2 then YYMAXDEPTH else yystacksize P * 2"
    show ?thesis
    proof (cases "YYMAXDEPTH \<le> yystacksize P \<or> \<not> stack_malloc (YYSTACK_BYTES ?n)")
      case True
      define Q where "Q = (if YYMAXDEPTH \<le> yystacksize P then ?P else ?P\<lparr>yystacksize := ?n\<rparr>)"
      have "yysetstate stack_malloc P = Inr (yyexhaustedlab Q)" "globals Q = globals P"
        using True \<open>yystacksize P \<le> Suc (length (yyss P))\<close> by (auto simp: Q_def yysetstate_def yyextend_def Let_def)
      then show ?thesis using ex[of Q] True \<open>yystacksize P \<le> Suc (length (yyss P))\<close>
          assms(2) by (intro disjI2 exI[of _ "snd (yyexhaustedlab Q)"]) (auto simp: prod_eq_iff YYINITDEPTH_def)
    next
      case False
      then have "Suc (length (yyss P)) < ?n" "200 \<le> ?n" using assms(1,2) by (auto simp: YYMAXDEPTH_def)
      moreover from this have "yysetstate stack_malloc P = Inl (P\<lparr>yyss := yystate P # yyss P, yystacksize := ?n\<rparr>)"
        using True False by (simp add: yysetstate_def yyextend_def Let_def)
      ultimately show ?thesis by blast
    qed
  qed
qed


text \<open>Accepting.\<close>

definition delivers :: "bool \<Rightarrow> yyparser \<Rightarrow> tree list \<Rightarrow> bool" where
  "delivers bad P v \<longleftrightarrow> v \<noteq> [] \<and> (\<exists>A. forest (globals P) (root_node (globals P)) v A) \<and> (parser_error (globals P) \<noteq> 0 \<longleftrightarrow> bad)"

lemma accept_delivers:
  assumes "lookahead ts ok (carried Xs ps vs) P" and "yychar P \<noteq> YYEMPTY" and "table_action s (next_symbol ts) = Accept"
    and "minisql.parsed (s # ss) Xs vs w" and "length ps = length Xs" and "list_all (\<lambda>(p, v). v \<noteq> []) (carried Xs ps vs)"
    and "error_count P ok = bad" and "Xs \<noteq> [] \<and> hd Xs = 55 \<longrightarrow> root_node (globals P) = hd ps"
  shows "\<exists>v. ts = [] \<and> vs = [v] \<and> delivers bad P v"
proof -
  obtain v where v: "vs = [v]" "next_symbol ts = 0" using minisql.accept_parsed[OF assms(4,3)] by blast
  have "(1, 1) \<in> items s" using minisql.accept_item assms(3) by blast
  then have "take 1 Xs = [55]" using minisql.item_stack[OF assms(4)] by (fastforce simp: rule_rhs_entries)
  moreover have "length Xs = 1" using minisql.parsed_lengths[OF assms(4)] v by simp
  ultimately have x: "Xs = [55]" by (cases Xs) auto
  then obtain p where p: "ps = [p]" using assms(5) by (cases ps) auto
  have c: "carried Xs ps vs = [(p, v)]" using x p v by (simp add: carries_def)
  from assms(1) show ?thesis
  proof cases
    case (at_end A)
    have "\<exists>A. forest (globals P) p v A" using at_end(4) c by (auto simp: sep.simps)
    then show ?thesis using at_end assms(6-8) x p v c by (auto simp: delivers_def error_count_def)
  qed (use assms(2) v(2) in \<open>auto simp: next_symbol_def\<close>)
qed

section \<open>The loop\<close>

definition enough_memory :: "(nat \<Rightarrow> bool) \<Rightarrow> nat \<Rightarrow> bool" where
  "enough_memory stack_malloc n \<longleftrightarrow> Suc n < YYINITDEPTH \<or> (\<forall>k. stack_malloc k) \<and> Suc n < YYMAXDEPTH"

definition outcome_ok :: "bool \<Rightarrow> (nat \<Rightarrow> bool) \<Rightarrow> tree list config \<Rightarrow> int \<Rightarrow> yyparser \<Rightarrow> bool" where
  "outcome_ok bad stack_malloc c r P \<longleftrightarrow> nodes_tracked (globals P) \<and>
     (case c of (ss, vs, ts) \<Rightarrow>
        r = 2 \<and> parser_error (globals P) \<noteq> 0 \<and> \<not> enough_memory stack_malloc (length vs + length ts) \<or>
        r = 1 \<and> parser_error (globals P) \<noteq> 0 \<and>
          (\<exists>c'. lr_steps minisql_grammar table_action yygoto c c' \<and> lr_decision table_action c' = Syntax_Error) \<or>
        r = 0 \<and> (\<exists>ss' v. lr_steps minisql_grammar table_action yygoto c (ss', [v], []) \<and>
          lr_decision table_action (ss', [v], []) = Accept \<and> delivers bad P v))"

lemma outcome_step:
  assumes "lr_step minisql_grammar table_action yygoto (ss, vs, ts) = Some (ss', vs', ts')"
    and "outcome_ok bad stack_malloc (ss', vs', ts') r P" and "length vs' + length ts' \<le> length vs + length ts"
  shows "outcome_ok bad stack_malloc (ss, vs, ts) r P"
  using assms(2,3) minisql.steps_trans[OF minisql.steps_step[OF assms(1)]]
  unfolding outcome_ok_def prod.case enough_memory_def by (elim conjE disjE) (auto, blast+)

theorem yyloop_outcome:
  assumes "simulates bad P ss Xs vs ts"
  shows "\<exists>r P'. yyloop stack_malloc P = Some (r, P') \<and> outcome_ok bad stack_malloc (ss, vs, ts) r P'"
  using assms
proof (induction "lr_weight symbol_weight Xs ts" arbitrary: P ss Xs vs ts rule: less_induct)
  case less
  from less.prems obtain w ok where
    s: "ss = yystate P # yyss P" "length (yyvs P) = length Xs" "minisql.parsed ss Xs vs w" "lookahead ts ok (carried Xs (yyvs P) vs) P"
      "error_count P ok = bad" "list_all (\<lambda>(p, v). v \<noteq> []) (carried Xs (yyvs P) vs)"
      "Xs \<noteq> [] \<and> hd Xs = 55 \<longrightarrow> root_node (globals P) = hd (yyvs P)" "yyerrstatus P = 0" "length ss \<le> yystacksize P"
      "200 \<le> yystacksize P" "nodes_tracked (globals P)"
    unfolding simulates_def by blast
  have len: "length ss = Suc (length vs)" "length Xs = length vs" using minisql.parsed_lengths[OF s(3)] by simp_all
  have "length (yyss P) < yystacksize P" using s(1,9) by simp
  from enter_state[OF this s(10,11), of stack_malloc] show ?case
  proof
    assume "\<exists>P'. yysetstate stack_malloc P = Inr (2, P') \<and> parser_error (globals P') \<noteq> 0 \<and> nodes_tracked (globals P') \<and>
       YYINITDEPTH \<le> Suc (length (yyss P)) \<and> \<not> ((\<forall>n. stack_malloc n) \<and> Suc (length (yyss P)) < YYMAXDEPTH)"
    then obtain P' where e: "yysetstate stack_malloc P = Inr (2, P')" "parser_error (globals P') \<noteq> 0" "nodes_tracked (globals P')"
       "YYINITDEPTH \<le> Suc (length (yyss P)) \<and> \<not> ((\<forall>n. stack_malloc n) \<and> Suc (length (yyss P)) < YYMAXDEPTH)" by blast
    then have "yyloop stack_malloc P = Some (2, P')" by (subst yyloop.simps) (simp add: yystep_def)
    moreover have "outcome_ok bad stack_malloc (ss, vs, ts) 2 P'"
      using e(2-4) s(1) len unfolding outcome_ok_def enough_memory_def by auto
    ultimately show ?thesis by blast
  next
    assume "\<exists>k. yysetstate stack_malloc P = Inl (P\<lparr>yyss := yystate P # yyss P, yystacksize := k\<rparr>) \<and> Suc (length (yyss P)) < k \<and> 200 \<le> k"
    then obtain k where k: "yysetstate stack_malloc P = Inl (P\<lparr>yyss := yystate P # yyss P, yystacksize := k\<rparr>)" "Suc (length (yyss P)) < k" "200 \<le> k"
      by blast
    let ?P = "P\<lparr>yyss := ss, yystacksize := k\<rparr>" and ?s = "yystate P"
    have set: "yysetstate stack_malloc P = Inl ?P" using k(1) s(1) by simp
    have v: "valid_state (yystate ?P)" using parsed_valid[OF s(3)] s(1) by simp
    have "lookahead ts ok (carried Xs (yyvs P) vs) ?P" by (rule lookahead_cong[OF s(4)]) simp_all
    from yybackup_action[OF this v] obtain \<sigma> c t ok' where
      b: "yybackup ?P = Some (table_action ?s (next_symbol ts), ?P\<lparr>scn := \<sigma>, yychar := c, yytoken := t\<rparr>)"
        "lookahead ts ok' (carried Xs (yyvs P) vs) (?P\<lparr>scn := \<sigma>, yychar := c, yytoken := t\<rparr>)"
        "\<forall>n. table_action ?s (next_symbol ts) \<in> {Shift n, Accept} \<longrightarrow> c \<noteq> YYEMPTY" "root_node (glob \<sigma>) = root_node (globals P)"
        "nodes_tracked (glob \<sigma>)" "error_count (?P\<lparr>scn := \<sigma>\<rparr>) ok' = error_count ?P ok"
      using s(11) by auto
    let ?Q = "?P\<lparr>scn := \<sigma>, yychar := c, yytoken := t\<rparr>"
    have e: "error_count ?Q ok' = bad" using b(6) s(5) by (simp add: error_count_def)
    have Q: "yyss ?Q = ?s # yyss P" "length (yyvs ?Q) = length Xs" "yyerrstatus ?Q = 0" "length (yyss ?Q) < yystacksize ?Q"
      "200 \<le> yystacksize ?Q" "nodes_tracked (globals ?Q)" using s k b(5) by simp_all
    have vs: "yyvs ?Q = yyvs P" by simp
    note p = s(3)[unfolded s(1)]
    show ?thesis
    proof (cases "table_action ?s (next_symbol ts)")
      case (Shift n)
      then have c: "yychar ?Q \<noteq> YYEMPTY" using b(3) by simp
      from shift_simulates[where P = ?Q, OF b(2)[folded vs] c Shift p Q(1,2) s(6)[folded vs] e Q(3-6)]
      obtain X v ts' where t: "ts = (X, v) # ts'" "simulates bad (yyshift n ?Q) (n # ss) (X # Xs) (v # vs) ts'"
        unfolding s(1) by blast
      have st: "yystep stack_malloc P = Some (Inl (yyshift n ?Q))" using set b(1) Shift by (simp add: yystep_def)
      have "terminal X" using minisql.shift_term[OF Shift] t(1) by (simp add: next_symbol_def)
      then have "lr_weight symbol_weight (X # Xs) ts' < lr_weight symbol_weight Xs ts"
        using minisql.shift_weight[of X Xs ts' v] t(1) by simp
      from less.hyps[OF this t(2)] obtain r P' where
        r: "yyloop stack_malloc (yyshift n ?Q) = Some (r, P')" "outcome_ok bad stack_malloc (n # ss, v # vs, ts') r P'" by blast
      have "lr_step minisql_grammar table_action yygoto (ss, vs, ts) = Some (n # ss, v # vs, ts')"
        using Shift t(1) s(1) by (simp add: next_symbol_def)
      from outcome_step[OF this r(2)] r(1) st t(1) show ?thesis by (subst yyloop.simps) simp
    next
      case (Reduce r)
      let ?k = "length (rule_rhs r)"
      from reduce_simulates[where P = ?Q, OF b(2)[folded vs] Reduce p Q(1,2) s(6)[folded vs] e Q(3-6)]
      obtain q qs n P' where t: "drop ?k ss = q # qs" "yygoto q (rule_lhs r) = Some n" "yyreduce r ?Q = Some P'" "?k \<le> length vs"
        "take ?k Xs = rev (rule_rhs r)" "r \<in> {2..77}"
        "simulates bad P' (n # q # qs) (rule_lhs r # drop ?k Xs) (rule_value r (rev (take ?k vs)) # drop ?k vs) ts"
        unfolding s(1) by blast
      have st: "yystep stack_malloc P = Some (Inl P')" using set b(1) Reduce t(3) by (simp add: yystep_def)
      have R: "r \<in> g_rules minisql_grammar" using t(6) by (simp add: YYNRULES_def)
      have "lr_weight symbol_weight (rule_lhs r # drop ?k Xs) ts < lr_weight symbol_weight Xs ts"
        using minisql.reduce_weight[OF _ R, of ?k Xs ts] t(5) by simp
      from less.hyps[OF this t(7)] obtain x P'' where
        r: "yyloop stack_malloc P' = Some (x, P'')"
          "outcome_ok bad stack_malloc (n # q # qs, rule_value r (rev (take ?k vs)) # drop ?k vs, ts) x P''" by blast
      have "rule_rhs r \<noteq> []" using minisql.rhs_nonempty[OF R] by simp
      then have "0 < ?k" by blast
      then have le: "length (rule_value r (rev (take ?k vs)) # drop ?k vs) + length ts \<le> length vs + length ts"
        using t(4) by (simp del: length_greater_0_conv)
      have "?k < length ss" using t(1) by (metis drop_all linorder_not_le list.discI)
      then have "lr_step minisql_grammar table_action yygoto (ss, vs, ts) =
          Some (n # q # qs, rule_value r (rev (take ?k vs)) # drop ?k vs, ts)"
        using Reduce t(1,2,4) s(1) by (simp add: Let_def)
      then have "outcome_ok bad stack_malloc (ss, vs, ts) x P''" using outcome_step[OF _ r(2) le] by blast
      then show ?thesis using r(1) st by (subst yyloop.simps) simp
    next
      case Syntax_Error
      have "list_all valid_state (yyss ?Q)" using parsed_valid[OF s(3)] by (simp add: list_all_iff)
      then obtain P' where P': "yyerrlab ?Q = Some (Inr (1, P'))" "parser_error (globals P') \<noteq> 0" "nodes_tracked (globals P')"
        using error_stops[of ?Q] Q s(1) by auto
      have "yyloop stack_malloc P = Some (1, P')" using set b(1) Syntax_Error P'(1) by (subst yyloop.simps) (simp add: yystep_def)
      moreover have "lr_decision table_action (ss, vs, ts) = Syntax_Error" using Syntax_Error s(1) by (simp add: lr_decision_def)
      ultimately show ?thesis using P'(2,3) minisql.steps_refl[of "(ss, vs, ts)"] unfolding outcome_ok_def prod.case by blast
    next
      case Accept
      then have c: "yychar ?Q \<noteq> YYEMPTY" using b(3) by simp
      have rt: "Xs \<noteq> [] \<and> hd Xs = 55 \<longrightarrow> root_node (globals ?Q) = hd (yyvs P)" using s(7) b(4) by simp
      from accept_delivers[OF b(2) c Accept p s(2,6) e rt] obtain v where
        v: "ts = []" "vs = [v]" "delivers bad ?Q v" by blast
      have "yyloop stack_malloc P = Some (0, ?Q)" using set b(1) Accept by (subst yyloop.simps) (simp add: yystep_def)
      moreover have "lr_decision table_action (ss, vs, ts) = Accept" using Accept s(1) by (simp add: lr_decision_def)
      ultimately show ?thesis using v Q(6) minisql.steps_refl[of "(ss, vs, ts)"] unfolding outcome_ok_def prod.case by blast
    qed
  qed
qed


section \<open>The parser\<close>

lemma lr_steps_deterministic:
  assumes "lr_steps G act goto c a" and "lr_steps G act goto c b" and "lr_step G act goto a = None" and "lr_step G act goto b = None"
  shows "a = b"
  using assms(1,2) unfolding lr_steps_def
proof (induction rule: converse_rtranclp_induct)
  case base
  then show ?case by (cases rule: converse_rtranclpE) (simp_all add: assms(3))
next
  case (step x y)
  note xy = step.hyps(1) and ih = step.IH
  from step.prems show ?case
  proof (cases rule: converse_rtranclpE)
    case base
    then show ?thesis using xy assms(4) by simp
  next
    case (step z)
    from step(1) xy have "z = y" by simp
    with step(2) show ?thesis using ih by blast
  qed
qed

lemma decision_stops: "lr_decision act c \<in> {Accept, Syntax_Error} \<Longrightarrow> lr_step G act goto c = None"
  by (cases c) (auto simp: lr_decision_def)

lemma error_not_derivable:
  assumes "lr_steps minisql_grammar table_action yygoto ([0], [], ts) c" and "lr_decision table_action c = Syntax_Error"
  shows "\<nexists>v. derives minisql_grammar 55 ts v"
proof
  assume "\<exists>v. derives minisql_grammar 55 ts v"
  then obtain ss v where a: "lr_steps minisql_grammar table_action yygoto ([0], [], ts) (ss, [v], [])"
    "lr_decision table_action (ss, [v], []) = Accept" using minisql.lr_complete unfolding lr_accepts_def by blast
  have "c = (ss, [v], [])"
    by (rule lr_steps_deterministic[OF assms(1) a(1)]) (rule decision_stops, simp add: assms(2) a(2))+
  then show False using a(2) assms(2) by simp
qed

lemma start_simulates:
  assumes "scanner_at w \<sigma>" and "nodes_tracked (glob \<sigma>)"
  shows "simulates (parser_error (glob \<sigma>) \<noteq> 0 \<or> \<not> recognised w) (yyparser_init \<sigma>) [0] [] [] (tokens w)"
proof -
  have "lookahead (tokens w) (recognised w) [] (yyparser_init \<sigma>)"
    using assms(1) by (intro unread[where A = "{}"]) (simp_all add: yyparser_init_def)
  then show ?thesis using assms(2) minisql.parsed_Nil
    by (auto simp: simulates_def yyparser_init_def error_count_def YYINITDEPTH_def)
qed

text \<open>\<open>yyparse\<close> always returns.  What the result says.\<close>

lemma yyparse_cases:
  assumes "scanner_at w \<sigma>" and "nodes_tracked (glob \<sigma>)"
  obtains r \<sigma>' where "yyparse stack_malloc \<sigma> = Some (r, \<sigma>')" "nodes_tracked (glob \<sigma>')" "r \<in> {0, 1, 2}"
    "r = 0 \<Longrightarrow> \<exists>v A. derives minisql_grammar 55 (tokens w) v \<and> v \<noteq> [] \<and> forest (glob \<sigma>') (root_node (glob \<sigma>')) v A \<and>
       (parser_error (glob \<sigma>') \<noteq> 0 \<longleftrightarrow> parser_error (glob \<sigma>) \<noteq> 0 \<or> \<not> recognised w)"
    "r \<noteq> 0 \<Longrightarrow> parser_error (glob \<sigma>') \<noteq> 0"
    "r = 1 \<Longrightarrow> \<nexists>v. derives minisql_grammar 55 (tokens w) v"
    "r = 2 \<Longrightarrow> \<not> enough_memory stack_malloc (length (tokens w))"
proof -
  obtain r P where P: "yyloop stack_malloc (yyparser_init \<sigma>) = Some (r, P)"
    "outcome_ok (parser_error (glob \<sigma>) \<noteq> 0 \<or> \<not> recognised w) stack_malloc ([0], [], tokens w) r P"
    using yyloop_outcome[OF start_simulates[OF assms]] by blast
  have a: "derives minisql_grammar 55 (tokens w) v" if "lr_steps minisql_grammar table_action yygoto ([0], [], tokens w) (ss, [v], [])"
    "lr_decision table_action (ss, [v], []) = Accept" for ss v
    using minisql.lr_sound that unfolding lr_accepts_def by blast
  let ?\<sigma> = "scn P"
  have y: "yyparse stack_malloc \<sigma> = Some (r, ?\<sigma>)" using P(1) by (simp add: yyparse_def yyreturn_def)
  note o = P(2)[unfolded outcome_ok_def prod.case]
  show thesis
  proof (rule that[OF y])
    show "nodes_tracked (glob ?\<sigma>)" using o by blast
    show "r \<in> {0, 1, 2}" "r \<noteq> 0 \<Longrightarrow> parser_error (glob ?\<sigma>) \<noteq> 0" using o by auto
    show "\<nexists>v. derives minisql_grammar 55 (tokens w) v" if "r = 1" using o that error_not_derivable by auto
    show "\<not> enough_memory stack_malloc (length (tokens w))" if "r = 2" using o that by auto
    show "\<exists>v A. derives minisql_grammar 55 (tokens w) v \<and> v \<noteq> [] \<and> forest (glob ?\<sigma>) (root_node (glob ?\<sigma>)) v A \<and>
       (parser_error (glob ?\<sigma>) \<noteq> 0 \<longleftrightarrow> parser_error (glob \<sigma>) \<noteq> 0 \<or> \<not> recognised w)" if "r = 0"
      using o that a unfolding delivers_def by auto
  qed
qed


section \<open>Parsing a command\<close>

text \<open>What the main program does with a command: the string is handed to the scanner, the parser globals are
  reset, and the parser is run.  The second switch to the buffer, which is already the current one,
  does nothing.\<close>

definition parse_command :: "(nat \<Rightarrow> bool) \<Rightarrow> string \<Rightarrow> scanner \<Rightarrow> (int \<times> scanner) option" where
  "parse_command stack_malloc cmd \<sigma> = do {
     \<sigma> \<leftarrow> yy_scan_string cmd \<sigma>;
     yyparse stack_malloc (\<sigma>\<lparr>glob := MinisqlParserInit (glob \<sigma>)\<rparr>) }"

text \<open>The scanner has not been used, or was reset by \<open>yylex_destroy\<close>, or is in the middle of another
  buffer, and no node has been lost.\<close>

definition parser_ready :: "scanner \<Rightarrow> bool" where
  "parser_ready \<sigma> \<longleftrightarrow> yy_start \<sigma> = (if yy_init \<sigma> then 1 else 0) \<and> nodes_tracked (glob \<sigma>)"

lemma init_tracked: "nodes_tracked (MinisqlParserInit g) \<longleftrightarrow> nodes_tracked g"
  by (simp add: MinisqlParserInit_def nodes_tracked_def read_node_def)

lemma init_no_error: "parser_error (MinisqlParserInit g) = 0"
  by (simp add: MinisqlParserInit_def)

lemma parse_command_cases:
  assumes "parser_ready \<sigma>"
  obtains r \<sigma>' where "parse_command stack_malloc cmd \<sigma> = Some (r, \<sigma>')" "nodes_tracked (glob \<sigma>')" "r \<in> {0, 1, 2}"
    "r = 0 \<Longrightarrow> \<exists>v A. derives minisql_grammar 55 (tokens (c_string cmd)) v \<and> v \<noteq> [] \<and> forest (glob \<sigma>') (root_node (glob \<sigma>')) v A \<and>
       (parser_error (glob \<sigma>') \<noteq> 0 \<longleftrightarrow> \<not> recognised (c_string cmd))"
    "r \<noteq> 0 \<Longrightarrow> parser_error (glob \<sigma>') \<noteq> 0"
    "r = 1 \<Longrightarrow> \<nexists>v. derives minisql_grammar 55 (tokens (c_string cmd)) v"
    "r = 2 \<Longrightarrow> \<not> enough_memory stack_malloc (length (tokens (c_string cmd)))"
proof -
  obtain \<sigma>1 where s: "yy_scan_string cmd \<sigma> = Some \<sigma>1" "scanner_at (c_string cmd) \<sigma>1" "glob \<sigma>1 = glob \<sigma>"
    using yy_scan_string_at[of \<sigma> cmd] assms unfolding parser_ready_def by blast
  let ?\<sigma> = "\<sigma>1\<lparr>glob := MinisqlParserInit (glob \<sigma>1)\<rparr>"
  have r: "scanner_at (c_string cmd) ?\<sigma>" "nodes_tracked (glob ?\<sigma>)" "parser_error (glob ?\<sigma>) = 0"
    using s assms by (simp_all add: parser_ready_def init_tracked init_no_error)
  show thesis
    by (rule yyparse_cases[OF r(1,2), of stack_malloc]) (use that s(1) r(3) in \<open>simp add: parse_command_def\<close>)
qed

lemma tokens_length: "length (tokens w) \<le> length w"
proof (induction w rule: lexemes.induct)
  case (1 w)
  show ?case
  proof (cases "w = []")
    case False
    have "length (drop (longest w) w) < length w" using longest_props(1)[OF False] False by (simp add: Suc_le_eq)
    then show ?thesis using 1[OF False] tokens_step(1)[OF False] by (auto split: option.splits)
  qed simp
qed

lemma ready_init: "parser_ready (scanner_init parser_globals_init)"
  by (simp add: parser_ready_def scanner_init_def parser_globals_init_def nodes_tracked_def read_node_def)


section \<open>Properties\<close>

text \<open>C1: The generated parser recognises exactly the sentences of the grammar.  For every command string that
  is not too long for the memory at hand, and whatever was scanned before, scanning and parsing it
  returns: with 0 if the tokens of the text are a sentence of the grammar, and with 1 otherwise.\<close>

theorem parse_command_grammar:
  assumes "parser_ready \<sigma>" and "enough_memory stack_malloc (length (tokens (c_string cmd)))"
  shows "\<exists>r \<sigma>'. parse_command stack_malloc cmd \<sigma> = Some (r, \<sigma>') \<and> r \<in> {0, 1} \<and>
    (r = 0 \<longleftrightarrow> (\<exists>v. derives minisql_grammar 55 (tokens (c_string cmd)) v))"
  by (rule parse_command_cases[OF assms(1), of stack_malloc cmd]) (use assms(2) in auto)

lemmas rule_of_simps = rule_of_def keyword_table_def operator_table_def is_string_def is_identifier_def is_integer_def
  is_fraction_def is_digit_def is_letter_def is_word_char_def is_space_def unsigned_part_def

lemmas lexeme_simps = lexemes.simps longest_def rule_of_simps upt_rec numeral_eq_Suc

lemmas token_simps = tokens_def recognised_def map_filter_simps token_of_def rule_token_def lexeme_value_def value_rule_def
  keyword_rules_1_def keyword_rules_2_def operator_rules_def symbol_of_def YYTRANSLATE_def YYMAXUTOK_def yytranslate_entries

lemma quit_lexemes: "lexemes ''quit;'' = [(11, ''quit''), (48, '';'')]"
  by (simp add: lexeme_simps)

lemma quit_lexemes_error: "lexemes ''#quit;'' = [(55, ''#''), (11, ''quit''), (48, '';'')]"
  by (simp add: lexeme_simps)

lemma quit_tokens:
  "c_string ''quit;'' = ''quit;''" "tokens ''quit;'' = [(12, []), (47, [])]"
  "c_string ''#quit;'' = ''#quit;''" "tokens ''#quit;'' = [(12, []), (47, [])]" "\<not> recognised ''#quit;''"
  by (simp add: c_string_def, simp add: quit_lexemes token_simps, simp add: c_string_def,
      simp add: quit_lexemes_error token_simps, simp add: quit_lexemes_error recognised_def)

lemma derives_one: "derives minisql_grammar X w v \<Longrightarrow> rule_rhs r = [X] \<Longrightarrow> 2 \<le> r \<Longrightarrow> r \<le> 77 \<Longrightarrow>
  derives minisql_grammar (rule_lhs r) w (rule_value r [v])"
  using derives_rule[of r minisql_grammar w "[v]"] derives_Cons[of minisql_grammar X w v "[]" "[]" "[]"] derives_Nil
  by (simp add: YYNRULES_def)

lemma quit_derives: "derives minisql_grammar 55 [(12, []), (47, [])] [Tree kNodeQuit None []]"
proof -
  have t: "derives minisql_grammar 12 [(12, [])] []" "derives minisql_grammar 47 [(47, [])] []"
    by (rule derives_term, simp add: terminal_def yy_constants)+
  have "derives minisql_grammar 56 [(12, [])] [Tree kNodeQuit None []]"
    using derives_one[OF derives_one[OF t(1), of 76], of 20] by (simp add: rule_rhs_entries rule_lhs_entries rule_value_def wrap_def)
  then have "derives_seq minisql_grammar (rule_rhs 2) [(12, []), (47, [])] [[Tree kNodeQuit None []], []]"
    using derives_Cons[OF _ derives_Cons[OF t(2) derives_Nil]] by (fastforce simp: rule_rhs_entries)
  then show ?thesis using derives_rule[of 2 minisql_grammar] by (fastforce simp: rule_lhs_entries YYNRULES_def rule_value_def)
qed

theorem parse_command_grammar_witness:
  "\<exists>r \<sigma>'. parse_command (\<lambda>k. False) ''quit;'' (scanner_init parser_globals_init) = Some (r, \<sigma>') \<and> r = 0"
proof -
  have "enough_memory (\<lambda>k. False) (length (tokens (c_string ''quit;'')))"
    by (simp add: quit_tokens enough_memory_def YYINITDEPTH_def)
  from parse_command_grammar[OF ready_init this] show ?thesis using quit_derives by (auto simp: quit_tokens)
qed

text \<open>C2: An accepted command hands its syntax tree to the caller.  When parsing a command returns 0, the node
  that the parser set as root represents exactly the tree that the grammar gives to the tokens of
  the text, with no node shared, and the error flag is set just when the text has an unrecognised
  character.\<close>

theorem parse_command_tree:
  assumes "parser_ready \<sigma>" and "parse_command stack_malloc cmd \<sigma> = Some (0, \<sigma>')"
  shows "\<exists>v A. derives minisql_grammar 55 (tokens (c_string cmd)) v \<and> v \<noteq> [] \<and>
    forest (glob \<sigma>') (MinisqlGetParserRootNode (glob \<sigma>')) v A \<and>
    (MinisqlParserGetError (glob \<sigma>') \<noteq> 0 \<longleftrightarrow> \<not> recognised (c_string cmd))"
  by (rule parse_command_cases[OF assms(1), of stack_malloc cmd])
    (use assms(2) in \<open>auto simp: MinisqlGetParserRootNode_def MinisqlParserGetError_def\<close>)

theorem parse_command_tree_witness:
  "\<exists>\<sigma>' v A. parse_command (\<lambda>k. True) ''quit;'' (scanner_init parser_globals_init) = Some (0, \<sigma>') \<and>
    derives minisql_grammar 55 [(12, []), (47, [])] v \<and> forest (glob \<sigma>') (MinisqlGetParserRootNode (glob \<sigma>')) v A"
proof -
  obtain \<sigma>' where p: "parse_command (\<lambda>k. True) ''quit;'' (scanner_init parser_globals_init) = Some (0, \<sigma>')"
    by (rule parse_command_cases[OF ready_init, of "\<lambda>k. True" "''quit;''"])
      (use quit_derives in \<open>auto simp: quit_tokens enough_memory_def YYINITDEPTH_def\<close>)
  from parse_command_tree[OF ready_init p] obtain v A where
    "derives minisql_grammar 55 [(12, []), (47, [])] v" "forest (glob \<sigma>') (MinisqlGetParserRootNode (glob \<sigma>')) v A"
    unfolding quit_tokens by blast
  then show ?thesis using p by blast
qed

text \<open>C26: Parsing always ends, without any access outside of a table, a stack or the node store: with 0, 1 or 2,
  for every input text, whether or not the parser is granted larger stacks.  A result other than 0 is
  announced by the error flag, and 2 (memory exhausted) is only returned for at least 199 tokens.  The
  allocations of the syntax nodes and of the scanner's buffer are assumed to succeed: the code
  dereferences the result of the former unchecked and exits when the latter fails.\<close>

theorem parse_command_returns:
  assumes "parser_ready \<sigma>"
  shows "\<exists>r \<sigma>'. parse_command stack_malloc cmd \<sigma> = Some (r, \<sigma>') \<and> r \<in> {0, 1, 2} \<and>
    (r = 0 \<or> MinisqlParserGetError (glob \<sigma>') \<noteq> 0) \<and> (r \<noteq> 2 \<or> 199 \<le> length (tokens (c_string cmd)))"
  by (rule parse_command_cases[OF assms, of stack_malloc cmd])
    (use assms in \<open>auto simp: MinisqlParserGetError_def enough_memory_def YYINITDEPTH_def\<close>)

theorem parse_command_returns_witness:
  "\<exists>r \<sigma>'. parse_command (\<lambda>k. False) ''quit;'' (scanner_init parser_globals_init) = Some (r, \<sigma>') \<and> r \<noteq> 2"
  using parse_command_returns[OF ready_init, of "\<lambda>k. False" "''quit;''"] by (auto simp: quit_tokens)

text \<open>C33: No syntax node is lost.  After any command has been parsed, successfully or not, finishing the
  parser frees every node exactly once and leaves no node and an empty node list.\<close>

theorem parser_finish_frees_all:
  assumes "parser_ready \<sigma>" and "parse_command stack_malloc cmd \<sigma> = Some (r, \<sigma>')"
  shows "\<exists>g. MinisqlParserFinish (glob \<sigma>') = Some g \<and> syntax_node_list g = [] \<and> (\<forall>a. read_node g a = None)"
  by (rule parse_command_cases[OF assms(1), of stack_malloc cmd])
    (use assms(2) DestroySyntaxTree_frees in \<open>auto simp: MinisqlParserFinish_def\<close>)

theorem parser_finish_frees_all_witness:
  "\<exists>r \<sigma>' g. parse_command (\<lambda>k. True) ''quit;'' (scanner_init parser_globals_init) = Some (r, \<sigma>') \<and>
    MinisqlParserFinish (glob \<sigma>') = Some g \<and> syntax_node_list g = []"
proof -
  obtain r \<sigma>' where p: "parse_command (\<lambda>k. True) ''quit;'' (scanner_init parser_globals_init) = Some (r, \<sigma>')"
    by (rule parse_command_cases[OF ready_init, of "\<lambda>k. True" "''quit;''"]) blast
  from parser_finish_frees_all[OF ready_init p] p show ?thesis by blast
qed

text \<open>An unrecognised character does not stop the parser.  If the remaining tokens of the text are a
  sentence, the parser still returns 0 and sets the root, although the error flag is set.\<close>

lemma lexical_error_still_parses:
  assumes "parser_ready \<sigma>" and "enough_memory stack_malloc (length (tokens (c_string cmd)))"
    and "derives minisql_grammar 55 (tokens (c_string cmd)) v" and "\<not> recognised (c_string cmd)"
  shows "\<exists>\<sigma>' a. parse_command stack_malloc cmd \<sigma> = Some (0, \<sigma>') \<and> MinisqlParserGetError (glob \<sigma>') \<noteq> 0 \<and>
    MinisqlGetParserRootNode (glob \<sigma>') = Some a"
proof (rule parse_command_cases[OF assms(1), of stack_malloc cmd])
  fix r \<sigma>' assume p: "parse_command stack_malloc cmd \<sigma> = Some (r, \<sigma>')" "r \<in> {0, 1, 2}"
    and h: "r = 0 \<Longrightarrow> \<exists>v A. derives minisql_grammar 55 (tokens (c_string cmd)) v \<and> v \<noteq> [] \<and>
        forest (glob \<sigma>') (root_node (glob \<sigma>')) v A \<and> (parser_error (glob \<sigma>') \<noteq> 0 \<longleftrightarrow> \<not> recognised (c_string cmd))"
      "r = 1 \<Longrightarrow> \<nexists>v. derives minisql_grammar 55 (tokens (c_string cmd)) v"
      "r = 2 \<Longrightarrow> \<not> enough_memory stack_malloc (length (tokens (c_string cmd)))"
  have "r = 0" using p(2) h(2,3) assms(2,3) by auto
  with h(1) obtain u A where f: "u \<noteq> []" "forest (glob \<sigma>') (root_node (glob \<sigma>')) u A" "parser_error (glob \<sigma>') \<noteq> 0"
    using assms(4) by auto
  then obtain a where "root_node (glob \<sigma>') = Some a" by (cases "root_node (glob \<sigma>')") auto
  then show ?thesis using p(1) \<open>r = 0\<close> f(3) by (auto simp: MinisqlParserGetError_def MinisqlGetParserRootNode_def)
qed

text \<open>The grammar with its semantic actions is unambiguous: a text has at most one syntax tree.\<close>

lemma grammar_unambiguous:
  assumes "derives minisql_grammar 55 ts v" and "derives minisql_grammar 55 ts u"
  shows "v = u"
proof -
  obtain ss ss' where "lr_steps minisql_grammar table_action yygoto ([0], [], ts) (ss, [v], [])"
    "lr_decision table_action (ss, [v], []) = Accept"
    "lr_steps minisql_grammar table_action yygoto ([0], [], ts) (ss', [u], [])" "lr_decision table_action (ss', [u], []) = Accept"
    using minisql.lr_complete[OF assms(1)] minisql.lr_complete[OF assms(2)] unfolding lr_accepts_def by blast
  then have "(ss, [v], [] :: (int \<times> tree list) list) = (ss', [u], [])"
    by (intro lr_steps_deterministic) (assumption | rule decision_stops, simp)+
  then show ?thesis by simp
qed

end
