(* ===== verification/Spec2Isabelle.thy ===== *)
theory Spec2Isabelle
  imports Executor_Statements BPlus_Search Parser_Correct
begin

text \<open>
  \<^bold>\<open>A verification library for MiniSQL.\<close>

  MiniSQL (\<^verbatim>\<open>src/minisql/src\<close>) is a small relational database.  A command typed at the prompt is
  scanned and parsed into a syntax tree (\<^verbatim>\<open>parser/\<close>), which the executor interprets; tables are
  chains of slotted pages (\<^verbatim>\<open>page/table_page.cpp\<close>, \<^verbatim>\<open>storage/table_heap.cpp\<close>) that hold serialised
  rows (\<^verbatim>\<open>record/\<close>), and indexes are B+ trees (\<^verbatim>\<open>index/\<close>, \<^verbatim>\<open>page/b_plus_tree_*_page.cpp\<close>); all pages go through a buffer pool (\<^verbatim>\<open>buffer/\<close>), which reads and writes
  them with the disk manager (\<^verbatim>\<open>storage/disk_manager.cpp\<close>), whose allocation is kept in bitmap
  pages (\<^verbatim>\<open>page/bitmap_page.cpp\<close>).  The catalog (\<^verbatim>\<open>catalog/\<close>) knows the tables and indexes and keeps their metadata in pages of their own, and the
  storage engine (\<^verbatim>\<open>include/common/instance.h\<close>) puts the components of one database together.

  \<^bold>\<open>Conventions.\<close>  Memory behind a \<^verbatim>\<open>char *\<close> is a list of bytes and a pointer into it is an
  offset.  Undefined behaviour (an access outside an array, an uninitialised variable) and a failed
  assertion are \<^const>\<open>None\<close>; a theorem that an operation returns \<^const>\<open>Some\<close> therefore also says
  that it does not crash.  32-bit unsigned numbers are \<^typ>\<open>32 word\<close> where they are stored or can
  wrap around.  Signed ones are integers; a conversion of an unsigned value is written out
  (\<^const>\<open>to_int32\<close>), while counters that the code only steps by one (pin counts, node numbers, line and column
  numbers) are not bounded in the model.
  Memory is taken to be available: of the calls of \<^verbatim>\<open>malloc\<close> only the one that enlarges the stacks of
  the parser can fail (\<open>stack_malloc\<close> in \<open>Yacc_Parser\<close>), since it is the only failure the code handles.

  \<^bold>\<open>Theories.\<close>
  \<^item> \<open>MiniSQL_Prelude\<close>: constants of \<^verbatim>\<open>config.h\<close>, raw memory and little-endian words (\<^verbatim>\<open>macros.h\<close>).
  \<^item> \<open>Bitmap_Page\<close>, \<open>Disk_Manager\<close>: page allocation.  The file is a byte list.  Shown: the allocator returns
    the least free page, pages do not overlap on disk, a read returns the last write, allocation
    survives reopening; deallocation is not persistent.
  \<^item> \<open>Lru_Replacer\<close>, \<open>Buffer_Pool\<close>: the replacer's linked list with its iterator map, and every operation of
    the pool.  \<open>pool_wf\<close> is the invariant and \<open>view\<close> what clients see of a page; fetching and
    unpinning change no view, unpinning a dirty page and shutting down put the view on disk.  The
    paths on which the code breaks the invariant (a new page that needs an eviction, deletion of
    a resident page, fetching with everything pinned) are stated as such.
  \<^item> \<open>Records\<close>: types, fields, columns, schemas, rows and row ids with their serialised form.  Shown:
    round trips, and where the format loses information (null fields, the length of CHAR columns).
  \<^item> \<open>Table_Page\<close>: the slotted page on its bytes.  \<open>slots\<close> is the abstract content; each operation is a
    refinement of an operation on slots and keeps \<open>table_page_ok\<close>.
  \<^item> \<open>Page_Cache\<close>: the buffer pool as its clients use it.  The locale \<open>page_cache\<close> states the contract (content, pins,
    and which pages have been written to without being reported), and is interpreted on the pool.
  \<^item> \<open>Table_Heap\<close>, \<open>Table_Iterator\<close>: the chain of pages of a table and the iterator over it, with all fetches and unpins.  \<open>heap_inv\<close>
    is the invariant and \<open>heap_slots\<close> the content; inserting, updating and deleting act on it as specified, and
    a scan visits every live row once.  Updates that lose a row and scans that stop at an empty first
    page are stated as such.
  \<^item> \<open>Index_Key\<close>: the keys of indexes and their comparators.  The locale \<open>key_order\<close> asks for a total order on the keys of one length, and
    both comparators of the program provide it.
  \<^item> \<open>BPlus_Page\<close>, \<open>BPlus_Layout\<close>: the leaf and internal pages of the B+ tree as records, with the loops of every method, and where the members lie in the bytes
    of a page.  A sorted leaf implements a map, and the binary search of an internal page finds the child whose range holds the key.
  \<^item> \<open>Index_Roots\<close>: the page with the roots of all indexes, which implements a map as long as it is not full.
  \<^item> \<open>BPlus_Tree\<close>, \<open>BPlus_Search\<close>: every operation of the B+ tree, its iterator and the index on the bytes in the buffer pool, with all fetches and
    unpins.  A page pointer is a frame and stays usable after the page has been unpinned, as in the code.  Shown: when the pages form a search
    tree, looking up a key returns and finds what the leaves hold.  The theorems about insertion and removal stop at the pages.
  \<^item> \<open>Catalog_Meta\<close>, \<open>Catalog\<close>: the metadata of tables and indexes on their pages, and every operation of the catalog manager and of the storage engine.
    Hash tables are association lists; their order is not used.
  \<^item> \<open>Catalog_Correct\<close>, \<open>Catalog_Reload\<close>, \<open>Catalog_Changes\<close>, \<open>Storage_Engine\<close>: \<open>catalog_inv\<close> says that what the catalog knows in memory is
    stored in its pages.  Creating tables and indexes keeps it, and closing a database and opening it again gives the same tables and indexes.
    Dropping a table that has an index makes the file unreadable, which is stated as such.
  \<^item> \<open>Number_Text\<close>, \<open>Executor\<close>: the conversions between numbers and text, and every statement of \<^verbatim>\<open>executor/execute_engine.cpp\<close> on the syntax
    tree.  A pointer to a node is the list of the node and its following siblings; the tables that are printed are part of the state.
  \<^item> \<open>Executor_Conditions\<close>, \<open>Executor_Select\<close>, \<open>Executor_Rows\<close>, \<open>Executor_Statements\<close>: \<open>condition_holds\<close> is the meaning of a condition and \<open>row_map\<close> a table as a map from
    row ids to rows.  Shown, for comparisons of numbers: select returns exactly the rows for which its condition holds, delete removes exactly these from
    the map, insert adds one row to it or is refused.  Tables without indexes only; for the statements that use an index, and for update, there are definitions but no theorems.
  \<^item> \<open>Syntax_Tree\<close>, \<open>Tables\<close>: the node store of \<^verbatim>\<open>syntax_tree.c\<close> with pointers as addresses, and table look-up.
  \<^item> \<open>Lex_Tables\<close>, \<open>Scanner\<close>, \<open>Lexer_DFA\<close>, \<open>Scanner_Correct\<close>: the tables of \<^verbatim>\<open>minisql_lex.c\<close> as they are in the file, the
    functions of the generated scanner on string buffers, the automaton that the tables encode, and the proof
    that \<open>yylex\<close> returns the longest match of the first rule.
  \<^item> \<open>Yacc_Tables\<close>, \<open>Yacc_Parser\<close>: the tables of \<^verbatim>\<open>minisql_yacc.c\<close> and the whole of \<open>yyparse\<close> with its stacks, its growth, its
    error recovery and its semantic actions.
  \<^item> \<open>LR_Automaton\<close>: grammars and shift-reduce machines in general.  The locale \<open>lr_automaton\<close> asks for a table and an
    item set for each state; inside it the machine is sound and complete for the grammar, and in
    \<open>lr_terminating\<close> it always stops.
  \<^item> \<open>Minisql_Grammar\<close>: the interpretation of both locales on the tables of the parser.
  \<^item> \<open>Parser_Actions\<close>, \<open>Token_Stream\<close>, \<open>Parser_Correct\<close>: each semantic action builds the tree of its rule; scanner and parser
    together accept exactly the sentences of the grammar, deliver their tree, always return, and
    every node is freed once.

  \<^bold>\<open>Loops and fuel.\<close>  The loop of \<open>yyparse\<close> is a \<^theory_text>\<open>partial_function\<close> and is shown to return for every input;
  walking to the last sibling uses the number of nodes as fuel, which is shown to be enough; the
  parser stack grows from 200 to at most 10000 entries as in the code, and only a text of at least
  199 tokens can exhaust it.  The loops of the executor over a table or an index are partial functions too.  Those of select, and of
  a condition, are shown to return; a delete or an update of a whole table changes the heap while it goes through it.

  \<^bold>\<open>Not modelled.\<close>  The messages of the executor on the terminal, the paging of long tables there and the timing; the drawing of B+ trees for debugging; latches, transactions, locks and
  logs, which are empty classes or unused; the heap of \<^verbatim>\<open>utils/mem_heap.h\<close>; the drawing of syntax
  trees; reading from the terminal and from files in \<^verbatim>\<open>main.cpp\<close>; of the scanner, buffers that are
  refilled from a file, since the program only scans strings.  The build directory and the
  libraries under \<^verbatim>\<open>thirdparty\<close> are not part of the program.
\<close>

end
